(* ===== verification/Prelude.thy ===== *)
theory Prelude
  imports Main "HOL-Library.AList" "HOL-Library.Multiset" "HOL-Library.Word"
begin

unbundle bit_operations_syntax

text \<open>
  Shared vocabulary of the development.

  \<^item> Go maps as association lists with distinct keys.  A read is \<open>map_of\<close>, an assignment
    \<open>m[k] = v\<close> is \<open>AList.update k v m\<close>, \<open>delete(m, k)\<close> is \<open>AList.delete k m\<close>,
    \<open>len(m)\<close> is \<open>length m\<close>.  The order of the list is the order in which one
    \<open>range\<close> statement happens to visit the map: Go leaves it open, and the properties
    are stated for every list, so for every order.
  \<^item> A ShardedMap of the syncx package (not part of the repository) as an array of Go maps
    selected by a hash of the key; the hash is a parameter \<open>sh\<close>.
  \<^item> The 32-bit FNV-1a hash that the repository writes out itself, on \<open>32 word\<close>.
  \<^item> Transition systems with reachable states and invariants, as a locale.
\<close>

section \<open>Collections of facts\<close>

named_theorems gomap_simps
named_theorems shard_simps
named_theorems record_simps

section \<open>Go maps\<close>

type_synonym ('k, 'v) gomap = "('k \<times> 'v) list"

text \<open>Every Go map has each key once.\<close>

abbreviation gm_wf :: "('k, 'v) gomap \<Rightarrow> bool" where
  "gm_wf m \<equiv> distinct (map fst m)"

text \<open>Reading a missing key of a \<open>map[K]int\<close> gives the zero value.\<close>

definition gm_count :: "('k, int) gomap \<Rightarrow> 'k \<Rightarrow> int" where
  "gm_count m k = (case map_of m k of None \<Rightarrow> 0 | Some n \<Rightarrow> n)"

text \<open>Keys of a Go map, and the values a range statement visits.\<close>

definition gm_keys :: "('k, 'v) gomap \<Rightarrow> 'k list" where
  "gm_keys m = map fst m"

definition gm_values :: "('k, 'v) gomap \<Rightarrow> 'v list" where
  "gm_values m = map snd m"

section \<open>FNV-1a\<close>

text \<open>
  A Go string is a sequence of bytes; \<open>fnv_step\<close> is one round \<open>h ^= uint32(b); h *= prime\<close>
  in 32-bit arithmetic.
\<close>

definition fnv_offset32 :: "32 word" where
  "fnv_offset32 = 2166136261"

definition fnv_prime32 :: "32 word" where
  "fnv_prime32 = 16777619"

definition byte_of :: "char \<Rightarrow> 32 word" where
  "byte_of c = of_nat (of_char c)"

definition fnv_step :: "32 word \<Rightarrow> char \<Rightarrow> 32 word" where
  "fnv_step h c = (h XOR byte_of c) * fnv_prime32"

section \<open>Lemmas on Go maps\<close>

text \<open>
  The components reason with \<open>map_of\<close> (what a read of the Go map returns); the library
  rule that turns it into membership of the list is used by name.
\<close>

declare map_of_eq_Some_iff [simp del]

lemma gm_wf_update [simp, intro]: "gm_wf m \<Longrightarrow> gm_wf (AList.update k v m)"
  by (rule distinct_update)

lemma gm_wf_delete [simp, intro]: "gm_wf m \<Longrightarrow> gm_wf (AList.delete k m)"
  by (rule distinct_delete)

lemma map_of_update [gomap_simps]:
  "map_of (AList.update k v m) k' = (if k' = k then Some v else map_of m k')"
  by (simp add: update_conv')

lemma map_of_delete [gomap_simps]:
  "map_of (AList.delete k m) k' = (if k' = k then None else map_of m k')"
  by (simp add: delete_conv')

lemma length_update [gomap_simps]:
  "length (AList.update k v m) = (if map_of m k = None then Suc (length m) else length m)"
  by (induction m) auto

lemma delete_absent [gomap_simps]: "map_of m k = None \<Longrightarrow> AList.delete k m = m"
  by (simp add: map_of_eq_None_iff delete_idem)

lemma mset_update_fresh [gomap_simps]:
  "map_of m k = None \<Longrightarrow> mset (AList.update k v m) = add_mset (k, v) (mset m)"
  by (induction m) auto

lemma mset_delete_present:
  "gm_wf m \<Longrightarrow> map_of m k = Some v \<Longrightarrow> mset m = add_mset (k, v) (mset (AList.delete k m))"
proof (induction m)
  case Nil
  then show ?case by simp
next
  case (Cons p m)
  obtain k' v' where p: "p = (k', v')" by force
  show ?case
  proof (cases "k' = k")
    case True
    with Cons.prems p have "map_of m k = None" and "v' = v"
      by (auto simp: map_of_eq_None_iff)
    with True p show ?thesis by (simp add: delete_absent)
  next
    case False
    with Cons p show ?thesis by simp
  qed
qed

lemma length_delete_present:
  assumes "gm_wf m" and "map_of m k = Some v"
  shows "length m = Suc (length (AList.delete k m))"
proof -
  from mset_delete_present [OF assms]
  have "size (mset m) = Suc (size (mset (AList.delete k m)))" by simp
  then show ?thesis by simp
qed

lemma mset_update_present:
  assumes "gm_wf m" and "map_of m k = Some v"
  shows "add_mset (k, v) (mset (AList.update k v' m)) = add_mset (k, v') (mset m)"
  using assms
proof (induction m)
  case Nil
  then show ?case by simp
next
  case (Cons p m)
  then show ?case by (cases p) (auto simp: add_mset_commute)
qed

lemma gm_keys_iff [gomap_simps]: "k \<in> set (gm_keys m) \<longleftrightarrow> map_of m k \<noteq> None"
  by (simp add: gm_keys_def map_of_eq_None_iff)

lemma gm_values_iff: "gm_wf m \<Longrightarrow> v \<in> set (gm_values m) \<longleftrightarrow> (\<exists>k. map_of m k = Some v)"
proof -
  assume wf: "gm_wf m"
  have "v \<in> set (gm_values m) \<longleftrightarrow> (\<exists>k. (k, v) \<in> set m)"
    by (force simp: gm_values_def)
  with wf show ?thesis by (simp add: map_of_eq_Some_iff)
qed

lemma gm_empty_iff: "m = [] \<longleftrightarrow> (\<forall>k. map_of m k = None)"
  by (cases m) (auto simp: fun_upd_def split: if_splits)

lemma gm_count_update [gomap_simps]:
  "gm_count (AList.update k n m) k' = (if k' = k then n else gm_count m k')"
  by (simp add: gm_count_def map_of_update)

lemma gm_count_delete [gomap_simps]:
  "gm_count (AList.delete k m) k' = (if k' = k then 0 else gm_count m k')"
  by (simp add: gm_count_def map_of_delete)

text \<open>Composite keys: two parts joined by a separator that the first part does not contain.\<close>

lemma append_sep_eq:
  assumes "c \<notin> set xs" and "c \<notin> set ys"
  shows "xs @ c # us = ys @ c # vs \<longleftrightarrow> xs = ys \<and> us = vs"
proof
  assume eq: "xs @ c # us = ys @ c # vs"
  then have "takeWhile (\<lambda>x. x \<noteq> c) (xs @ c # us) = takeWhile (\<lambda>x. x \<noteq> c) (ys @ c # vs)" by simp
  moreover have "takeWhile (\<lambda>x. x \<noteq> c) (zs @ c # ws) = zs" if "c \<notin> set zs" for zs ws
    using that by (induction zs) auto
  ultimately have "xs = ys" using assms by metis
  with eq show "xs = ys \<and> us = vs" by simp
qed simp

section \<open>Sums over Go maps\<close>

text \<open>
  Counters of the program count entries.  \<open>gm_sum g m\<close> adds \<open>g k v\<close> over the entries of
  a map, whatever the order of the list.
\<close>

definition gm_sum :: "('k \<Rightarrow> 'v \<Rightarrow> int) \<Rightarrow> ('k, 'v) gomap \<Rightarrow> int" where
  "gm_sum g m = (\<Sum>(k, v)\<leftarrow>m. g k v)"

lemma gm_sum_Nil [simp]: "gm_sum g [] = 0"
  by (simp add: gm_sum_def)

lemma gm_sum_Cons [simp]: "gm_sum g ((k, v) # m) = g k v + gm_sum g m"
  by (simp add: gm_sum_def)

lemma gm_sum_update [gomap_simps]:
  "gm_wf m \<Longrightarrow> gm_sum g (AList.update k v m) =
     gm_sum g m + g k v - (case map_of m k of None \<Rightarrow> 0 | Some v' \<Rightarrow> g k v')"
proof (induction m)
  case Nil
  then show ?case by simp
next
  case (Cons p m)
  obtain k' v' where p: "p = (k', v')" by force
  then show ?case
    using Cons by (cases "k' = k") auto
qed

lemma gm_sum_delete [gomap_simps]:
  "gm_wf m \<Longrightarrow> gm_sum g (AList.delete k m) =
     gm_sum g m - (case map_of m k of None \<Rightarrow> 0 | Some v' \<Rightarrow> g k v')"
proof (induction m)
  case Nil
  then show ?case by simp
next
  case (Cons p m)
  obtain k' v' where p: "p = (k', v')" by force
  show ?case
  proof (cases "k' = k")
    case True
    with Cons.prems p have "map_of m k = None" by (auto simp: map_of_eq_None_iff)
    with True p show ?thesis by (simp add: delete_absent)
  next
    case False
    with Cons p show ?thesis by simp
  qed
qed

lemma gm_sum_length: "gm_sum (\<lambda>_ _. 1) m = int (length m)"
  by (induction m) auto

lemma gm_sum_nonneg: "(\<And>k v. 0 \<le> g k v) \<Longrightarrow> 0 \<le> gm_sum g m"
  by (induction m) (auto simp: add_nonneg_nonneg)

lemma gm_sum_member_le:
  assumes "\<And>k v. 0 \<le> g k v" and "map_of m k = Some v"
  shows "g k v \<le> gm_sum g m"
  using assms(2)
proof (induction m)
  case Nil
  then show ?case by simp
next
  case (Cons p m)
  then show ?case
    using assms(1) gm_sum_nonneg [of g m]
    by (cases p) (auto split: if_splits intro: add_increasing)
qed

lemma gm_sum_zero_iff:
  assumes "\<And>k v. 0 \<le> g k v" and "gm_wf m"
  shows "gm_sum g m = 0 \<longleftrightarrow> (\<forall>k v. map_of m k = Some v \<longrightarrow> g k v = 0)"
proof
  assume z: "gm_sum g m = 0"
  show "\<forall>k v. map_of m k = Some v \<longrightarrow> g k v = 0"
  proof (intro allI impI)
    fix k v
    assume "map_of m k = Some v"
    from gm_sum_member_le [of g, OF assms(1) this] z assms(1) [of k v]
    show "g k v = 0" by linarith
  qed
next
  assume "\<forall>k v. map_of m k = Some v \<longrightarrow> g k v = 0"
  then have "\<forall>(k, v)\<in>set m. g k v = 0"
    using assms(2) by (auto simp: map_of_eq_Some_iff)
  then show "gm_sum g m = 0"
    by (induction m) auto
qed

lemma sum_fun_upd:
  fixes f :: "'a \<Rightarrow> int" and n :: nat
  assumes "j < n"
  shows "(\<Sum>i<n. f ((s(j := x)) i)) = (\<Sum>i<n. f (s i)) - f (s j) + f x"
proof -
  have fin: "finite {..<n}" and j: "j \<in> {..<n}" using assms by auto
  have "(\<Sum>i<n. f ((s(j := x)) i)) = f x + (\<Sum>i\<in>{..<n} - {j}. f ((s(j := x)) i))"
    by (subst sum.remove [OF fin j]) simp
  also have "(\<Sum>i\<in>{..<n} - {j}. f ((s(j := x)) i)) = (\<Sum>i\<in>{..<n} - {j}. f (s i))"
    by (rule sum.cong) auto
  also have "\<dots> = (\<Sum>i<n. f (s i)) - f (s j)"
    using sum.remove [OF fin j, of "\<lambda>i. f (s i)"] by simp
  finally show ?thesis by simp
qed

section \<open>Transition systems\<close>

text \<open>
  Components whose operations are interleaved by several goroutines are step relations.
  The invariant rule is proved once for any relation.
\<close>

inductive reach :: "('s \<Rightarrow> bool) \<Rightarrow> ('s \<Rightarrow> 's \<Rightarrow> bool) \<Rightarrow> 's \<Rightarrow> bool"
  for init :: "'s \<Rightarrow> bool" and step :: "'s \<Rightarrow> 's \<Rightarrow> bool"
where
  reach_init: "init s \<Longrightarrow> reach init step s"
| reach_step: "reach init step s \<Longrightarrow> step s t \<Longrightarrow> reach init step t"

locale invariant_system =
  fixes init :: "'s \<Rightarrow> bool"
    and step :: "'s \<Rightarrow> 's \<Rightarrow> bool"
    and inv :: "'s \<Rightarrow> bool"
  assumes inv_init: "init s \<Longrightarrow> inv s"
    and inv_step: "inv s \<Longrightarrow> step s t \<Longrightarrow> inv t"
begin

lemma reach_inv: "reach init step s \<Longrightarrow> inv s"
  by (induction rule: reach.induct) (auto intro: inv_init inv_step)

lemma rtrancl_inv: "step\<^sup>*\<^sup>* s t \<Longrightarrow> inv s \<Longrightarrow> inv t"
  by (induction rule: rtranclp_induct) (auto intro: inv_step)

end

end
