(* ===== verification/Sharded_Map.thy ===== *)
theory Sharded_Map
  imports Prelude
begin

text \<open>
  Keyed stores: the contract that the registries of the program rely on, and its two
  providers.

  \<^item> \<open>keyed_store\<close>: look up, replace and remove the entry of one key.
  \<^item> \<open>with_shard_lock\<close> and the functions around it: the part of \<open>syncx.ShardedMap\<close> that
    the sources use.  The package is not in the repository; what the sources rely on is
    that the closure receives the Go map of the shard the key belongs to and that a key
    always belongs to the same shard.  The shard choice \<open>sh\<close> is a parameter.
  \<^item> two-level maps \<open>key \<rightarrow> (id \<rightarrow> value)\<close> (\<open>nest_put\<close>, \<open>nest_del\<close>) and
    reference-count indexes \<open>key \<rightarrow> (user \<rightarrow> count)\<close> (\<open>refs_inc\<close>, \<open>refs_dec\<close>): the bodies
    of the closures that connection/sharded_registry.go passes to the shard lock.
\<close>

section \<open>Definitions\<close>

type_synonym ('k, 'v) smap = "nat \<Rightarrow> ('k, 'v) gomap"

definition sm_new :: "('k, 'v) smap" where
  "sm_new = (\<lambda>_. [])"

definition with_shard_lock ::
  "('k \<Rightarrow> nat) \<Rightarrow> 'k \<Rightarrow> (('k, 'v) gomap \<Rightarrow> ('k, 'v) gomap) \<Rightarrow> ('k, 'v) smap \<Rightarrow> ('k, 'v) smap" where
  "with_shard_lock sh k f s = s(sh k := f (s (sh k)))"

definition with_shard_rlock ::
  "('k \<Rightarrow> nat) \<Rightarrow> 'k \<Rightarrow> (('k, 'v) gomap \<Rightarrow> 'r) \<Rightarrow> ('k, 'v) smap \<Rightarrow> 'r" where
  "with_shard_rlock sh k f s = f (s (sh k))"

text \<open>\<open>Range\<close> visits every shard in turn; \<open>Keys\<close> collects the keys.\<close>

definition sm_range :: "nat \<Rightarrow> ('k, 'v) smap \<Rightarrow> ('k \<times> 'v) list" where
  "sm_range n s = concat (map s [0..<n])"

definition sm_keys :: "nat \<Rightarrow> ('k, 'v) smap \<Rightarrow> 'k list" where
  "sm_keys n s = map fst (sm_range n s)"

definition sm_lookup :: "('k \<Rightarrow> nat) \<Rightarrow> ('k, 'v) smap \<Rightarrow> 'k \<Rightarrow> 'v option" where
  "sm_lookup sh s k = with_shard_rlock sh k (\<lambda>data. map_of data k) s"

definition sm_wf :: "('k \<Rightarrow> nat) \<Rightarrow> ('k, 'v) smap \<Rightarrow> bool" where
  "sm_wf sh s \<longleftrightarrow> (\<forall>i. gm_wf (s i)) \<and> (\<forall>i k v. map_of (s i) k = Some v \<longrightarrow> sh k = i)"

text \<open>Two-level maps.\<close>

definition nest_put ::
  "'k \<Rightarrow> 'c \<Rightarrow> 'v \<Rightarrow> ('k, ('c, 'v) gomap) gomap \<Rightarrow> ('k, ('c, 'v) gomap) gomap" where
  "nest_put k c v data =
     (let inner = (case map_of data k of None \<Rightarrow> [] | Some m \<Rightarrow> m)
      in AList.update k (AList.update c v inner) data)"

definition nest_del ::
  "'k \<Rightarrow> 'c \<Rightarrow> ('k, ('c, 'v) gomap) gomap \<Rightarrow> ('k, ('c, 'v) gomap) gomap" where
  "nest_del k c data =
     (case map_of data k of
        None \<Rightarrow> data
      | Some m \<Rightarrow>
          let m' = AList.delete c m
          in if m' = [] then AList.delete k data else AList.update k m' data)"

definition nest_get :: "('k, ('c, 'v) gomap) gomap \<Rightarrow> 'k \<Rightarrow> 'c \<Rightarrow> 'v option" where
  "nest_get data k c = (case map_of data k of None \<Rightarrow> None | Some m \<Rightarrow> map_of m c)"

text \<open>Inner maps are proper Go maps, and an empty inner map is never kept.\<close>

definition nest_wf :: "('k, ('c, 'v) gomap) gomap \<Rightarrow> bool" where
  "nest_wf data \<longleftrightarrow> gm_wf data \<and> (\<forall>k m. map_of data k = Some m \<longrightarrow> gm_wf m \<and> m \<noteq> [])"

text \<open>Reference counts.\<close>

definition refs_inc ::
  "'k \<Rightarrow> 'u \<Rightarrow> ('k, ('u, int) gomap) gomap \<Rightarrow> ('k, ('u, int) gomap) gomap" where
  "refs_inc k u data =
     (let refs = (case map_of data k of None \<Rightarrow> [] | Some m \<Rightarrow> m)
      in AList.update k (AList.update u (gm_count refs u + 1) refs) data)"

definition refs_dec ::
  "'k \<Rightarrow> 'u \<Rightarrow> ('k, ('u, int) gomap) gomap \<Rightarrow> ('k, ('u, int) gomap) gomap" where
  "refs_dec k u data =
     (case map_of data k of
        None \<Rightarrow> data
      | Some refs \<Rightarrow>
          let refs' = (if gm_count refs u \<le> 1 then AList.delete u refs
                       else AList.update u (gm_count refs u - 1) refs)
          in if refs' = [] then AList.delete k data else AList.update k refs' data)"

definition refs_count :: "('k, ('u, int) gomap) gomap \<Rightarrow> 'k \<Rightarrow> 'u \<Rightarrow> int" where
  "refs_count data k u = (case map_of data k of None \<Rightarrow> 0 | Some m \<Rightarrow> gm_count m u)"

definition refs_wf :: "('k, ('u, int) gomap) gomap \<Rightarrow> bool" where
  "refs_wf data \<longleftrightarrow> nest_wf data \<and>
     (\<forall>k m u n. map_of data k = Some m \<longrightarrow> map_of m u = Some n \<longrightarrow> 1 \<le> n)"

section \<open>The contract of a keyed store\<close>

locale keyed_store =
  fixes empty :: 's
    and lookup :: "'s \<Rightarrow> 'k \<Rightarrow> 'v option"
    and modify :: "'k \<Rightarrow> ('v option \<Rightarrow> 'v option) \<Rightarrow> 's \<Rightarrow> 's"
    and good :: "'s \<Rightarrow> bool"
  assumes good_empty: "good empty"
    and lookup_empty: "lookup empty k = None"
    and good_modify: "good s \<Longrightarrow> good (modify k f s)"
    and lookup_modify: "good s \<Longrightarrow> lookup (modify k f s) k' = (if k' = k then f (lookup s k) else lookup s k')"
begin

lemma modify_same: "good s \<Longrightarrow> lookup (modify k f s) k = f (lookup s k)"
  by (simp add: lookup_modify)

lemma modify_other: "good s \<Longrightarrow> k' \<noteq> k \<Longrightarrow> lookup (modify k f s) k' = lookup s k'"
  by (simp add: lookup_modify)

lemma modify_commute:
  "good s \<Longrightarrow> k \<noteq> k' \<Longrightarrow>
     lookup (modify k f (modify k' g s)) j = lookup (modify k' g (modify k f s)) j"
  by (simp add: lookup_modify good_modify)

lemma modify_twice:
  "good s \<Longrightarrow> lookup (modify k f (modify k g s)) j = lookup (modify k (f \<circ> g) s) j"
  by (simp add: lookup_modify good_modify)

lemma good_fold: "good s \<Longrightarrow> good (fold (\<lambda>k. modify k (f k)) ks s)"
  by (induction ks arbitrary: s) (auto simp: good_modify)

text \<open>Work on other keys never touches the entry of \<open>k\<close>.\<close>

lemma fold_frame:
  "good s \<Longrightarrow> k \<notin> set ks \<Longrightarrow> lookup (fold (\<lambda>k. modify k (f k)) ks s) k = lookup s k"
proof (induction ks arbitrary: s)
  case Nil
  then show ?case by simp
next
  case (Cons j ks)
  then show ?case by (simp add: good_modify modify_other)
qed

end

section \<open>Go maps and sharded maps provide it\<close>

definition gm_modify :: "'k \<Rightarrow> ('v option \<Rightarrow> 'v option) \<Rightarrow> ('k, 'v) gomap \<Rightarrow> ('k, 'v) gomap" where
  "gm_modify k f m = (case f (map_of m k) of None \<Rightarrow> AList.delete k m | Some v \<Rightarrow> AList.update k v m)"

definition sm_modify ::
  "('k \<Rightarrow> nat) \<Rightarrow> 'k \<Rightarrow> ('v option \<Rightarrow> 'v option) \<Rightarrow> ('k, 'v) smap \<Rightarrow> ('k, 'v) smap" where
  "sm_modify sh k f s = with_shard_lock sh k (gm_modify k f) s"

lemma gm_wf_modify [simp]: "gm_wf m \<Longrightarrow> gm_wf (gm_modify k f m)"
  by (simp add: gm_modify_def split: option.split)

lemma map_of_modify [gomap_simps]:
  "map_of (gm_modify k f m) k' = (if k' = k then f (map_of m k) else map_of m k')"
  by (simp add: gm_modify_def gomap_simps split: option.split)

interpretation gm: keyed_store "[]" map_of gm_modify gm_wf
  by unfold_locales (simp_all add: gomap_simps)

lemma sm_lookup_alt [shard_simps]: "sm_lookup sh s k = map_of (s (sh k)) k"
  by (simp add: sm_lookup_def with_shard_rlock_def)

lemma sm_wfI:
  "(\<And>i. gm_wf (s i)) \<Longrightarrow> (\<And>i k v. map_of (s i) k = Some v \<Longrightarrow> sh k = i) \<Longrightarrow> sm_wf sh s"
  by (auto simp: sm_wf_def)

lemma sm_wf_gm: "sm_wf sh s \<Longrightarrow> gm_wf (s i)"
  by (simp add: sm_wf_def)

lemma sm_wf_place: "sm_wf sh s \<Longrightarrow> map_of (s i) k = Some v \<Longrightarrow> sh k = i"
  unfolding sm_wf_def by blast

lemma sm_wf_new [simp]: "sm_wf sh sm_new"
  by (simp add: sm_wf_def sm_new_def)

text \<open>
  A closure that keeps the map well formed and creates no entry but the one of its key
  keeps the sharded map well formed.
\<close>

lemma sm_wf_lock:
  assumes s: "sm_wf sh s"
    and wf: "gm_wf (f (s (sh k)))"
    and other: "\<And>k'. k' \<noteq> k \<Longrightarrow> map_of (f (s (sh k))) k' = map_of (s (sh k)) k'"
  shows "sm_wf sh (with_shard_lock sh k f s)"
proof (rule sm_wfI)
  show "gm_wf (with_shard_lock sh k f s i)" for i
    using sm_wf_gm [OF s, of i] wf by (simp add: with_shard_lock_def)
next
  fix i k' v
  assume "map_of (with_shard_lock sh k f s i) k' = Some v"
  then have "map_of (s i) k' = Some v \<or> (i = sh k \<and> k' = k)"
    using other [of k'] by (cases "k' = k") (auto simp: with_shard_lock_def split: if_splits)
  with sm_wf_place [OF s] show "sh k' = i" by blast
qed

lemma sm_lookup_lock:
  assumes "\<And>k'. k' \<noteq> k \<Longrightarrow> map_of (f (s (sh k))) k' = map_of (s (sh k)) k'"
  shows "sm_lookup sh (with_shard_lock sh k f s) k' =
    (if k' = k then map_of (f (s (sh k))) k else sm_lookup sh s k')"
  using assms by (auto simp: shard_simps with_shard_lock_def)

interpretation sm: keyed_store sm_new "sm_lookup sh" "sm_modify sh" "sm_wf sh" for sh
proof unfold_locales
  show "sm_wf sh sm_new" by simp
next
  show "sm_lookup sh sm_new k = None" for k
    by (simp add: shard_simps sm_new_def)
next
  show "sm_wf sh (sm_modify sh k f s)" if "sm_wf sh s" for s k f
    unfolding sm_modify_def by (rule sm_wf_lock) (simp_all add: that sm_wf_gm [OF that] gomap_simps)
next
  show "sm_lookup sh (sm_modify sh k f s) k' = (if k' = k then f (sm_lookup sh s k) else sm_lookup sh s k')"
    for s k f k'
    unfolding sm_modify_def
    by (subst sm_lookup_lock) (simp_all add: gomap_simps shard_simps)
qed

text \<open>Totals over all shards change by the change of one shard.\<close>

definition sm_total :: "nat \<Rightarrow> ('k \<Rightarrow> 'v \<Rightarrow> int) \<Rightarrow> ('k, 'v) smap \<Rightarrow> int" where
  "sm_total n g s = (\<Sum>i<n. gm_sum g (s i))"

lemma sm_total_new [simp]: "sm_total n g sm_new = 0"
  by (simp add: sm_total_def sm_new_def)

lemma sm_total_lock:
  "sh k < n \<Longrightarrow> sm_total n g (with_shard_lock sh k f s) =
     sm_total n g s - gm_sum g (s (sh k)) + gm_sum g (f (s (sh k)))"
  unfolding sm_total_def with_shard_lock_def by (rule sum_fun_upd)

lemma gm_sum_append [simp]: "gm_sum g (xs @ ys) = gm_sum g xs + gm_sum g ys"
  by (simp add: gm_sum_def)

lemma sm_range_Suc: "sm_range (Suc n) s = sm_range n s @ s n"
  by (simp add: sm_range_def)

lemma gm_sum_range: "gm_sum g (sm_range n s) = sm_total n g s"
proof (induction n)
  case 0
  then show ?case by (simp add: sm_range_def sm_total_def)
next
  case (Suc n)
  then show ?case by (simp add: sm_range_def sm_total_def)
qed

lemma sm_range_iff:
  assumes "sm_wf sh s" and "\<And>k. sh k < n"
  shows "(k, v) \<in> set (sm_range n s) \<longleftrightarrow> sm_lookup sh s k = Some v"
proof -
  have "(k, v) \<in> set (sm_range n s) \<longleftrightarrow> (\<exists>i<n. (k, v) \<in> set (s i))"
    by (auto simp: sm_range_def)
  also have "\<dots> \<longleftrightarrow> (\<exists>i<n. map_of (s i) k = Some v)"
    using map_of_eq_Some_iff [OF sm_wf_gm [OF assms(1)]] by blast
  also have "\<dots> \<longleftrightarrow> map_of (s (sh k)) k = Some v"
    using assms(2) [of k] sm_wf_place [OF assms(1), of _ k v] by blast
  finally show ?thesis by (simp add: shard_simps)
qed

lemma sm_wf_key:
  assumes "sm_wf sh s" and "k \<in> set (map fst (s i))"
  shows "sh k = i"
proof -
  from assms(2) have "map_of (s i) k \<noteq> None" by (simp add: map_of_eq_None_iff)
  then obtain v where "map_of (s i) k = Some v" by blast
  then show ?thesis by (rule sm_wf_place [OF assms(1)])
qed

lemma sm_range_distinct:
  assumes wf: "sm_wf sh s"
  shows "distinct (sm_keys n s)"
proof (induction n)
  case 0
  then show ?case by (simp add: sm_keys_def sm_range_def)
next
  case (Suc n)
  have "k \<notin> set (map fst (s n))" if k: "k \<in> set (sm_keys n s)" for k
  proof
    assume "k \<in> set (map fst (s n))"
    then have n: "sh k = n" by (rule sm_wf_key [OF wf])
    obtain i where i: "i < n" "k \<in> set (map fst (s i))"
      using k by (force simp: sm_keys_def sm_range_def)
    from sm_wf_key [OF wf i(2)] n i(1) show False by simp
  qed
  with Suc sm_wf_gm [OF wf, of n] show ?case
    by (auto simp: sm_keys_def sm_range_def)
qed

text \<open>Writing or removing one entry under the shard lock.\<close>

lemma sm_lookup_update:
  "sm_lookup sh (with_shard_lock sh k (AList.update k v) s) k' = (if k' = k then Some v else sm_lookup sh s k')"
  by (subst sm_lookup_lock) (simp_all add: gomap_simps)

lemma sm_lookup_delete:
  "sm_lookup sh (with_shard_lock sh k (AList.delete k) s) k' = (if k' = k then None else sm_lookup sh s k')"
  by (subst sm_lookup_lock) (simp_all add: gomap_simps)

lemma sm_wf_update: "sm_wf sh s \<Longrightarrow> sm_wf sh (with_shard_lock sh k (AList.update k v) s)"
  by (rule sm_wf_lock) (simp_all add: sm_wf_gm gomap_simps)

lemma sm_wf_delete: "sm_wf sh s \<Longrightarrow> sm_wf sh (with_shard_lock sh k (AList.delete k) s)"
  by (rule sm_wf_lock) (simp_all add: sm_wf_gm gomap_simps)

lemma sm_total_update:
  "sm_wf sh s \<Longrightarrow> sh k < n \<Longrightarrow> sm_total n g (with_shard_lock sh k (AList.update k v) s) =
     sm_total n g s + g k v - (case sm_lookup sh s k of None \<Rightarrow> 0 | Some w \<Rightarrow> g k w)"
  by (subst sm_total_lock) (simp_all add: gm_sum_update sm_wf_gm shard_simps)

lemma sm_total_delete:
  "sm_wf sh s \<Longrightarrow> sh k < n \<Longrightarrow> sm_total n g (with_shard_lock sh k (AList.delete k) s) =
     sm_total n g s - (case sm_lookup sh s k of None \<Rightarrow> 0 | Some w \<Rightarrow> g k w)"
  by (subst sm_total_lock) (simp_all add: gm_sum_delete sm_wf_gm shard_simps)

section \<open>Two-level maps\<close>

lemma nest_wfI:
  "gm_wf data \<Longrightarrow> (\<And>k m. map_of data k = Some m \<Longrightarrow> gm_wf m \<and> m \<noteq> []) \<Longrightarrow> nest_wf data"
  unfolding nest_wf_def by blast

lemma nest_wf_gm [simp]: "nest_wf data \<Longrightarrow> gm_wf data"
  by (simp add: nest_wf_def)

lemma nest_wf_inner: "nest_wf data \<Longrightarrow> map_of data k = Some m \<Longrightarrow> gm_wf m \<and> m \<noteq> []"
  unfolding nest_wf_def by blast

lemma nest_wf_Nil [simp]: "nest_wf []"
  by (simp add: nest_wf_def)

lemma update_not_Nil [simp]: "AList.update k v m \<noteq> []"
  by (cases m) auto

lemma nest_put_other: "k' \<noteq> k \<Longrightarrow> map_of (nest_put k c v data) k' = map_of data k'"
  by (simp add: nest_put_def Let_def gomap_simps)

lemma nest_del_other: "k' \<noteq> k \<Longrightarrow> map_of (nest_del k c data) k' = map_of data k'"
  by (simp add: nest_del_def Let_def gomap_simps split: option.split)

lemma nest_wf_put [simp]: "nest_wf data \<Longrightarrow> nest_wf (nest_put k c v data)"
  by (rule nest_wfI)
     (auto simp: nest_put_def Let_def gomap_simps dest: nest_wf_inner split: option.splits if_splits)

lemma nest_wf_del [simp]: "nest_wf data \<Longrightarrow> nest_wf (nest_del k c data)"
  by (rule nest_wfI)
     (auto simp: nest_del_def Let_def gomap_simps dest: nest_wf_inner split: option.splits if_splits)

lemma nest_get_put [gomap_simps]:
  "nest_get (nest_put k c v data) k' c' = (if k' = k \<and> c' = c then Some v else nest_get data k' c')"
  by (auto simp: nest_get_def nest_put_def Let_def gomap_simps split: option.split)

lemma nest_get_del [gomap_simps]:
  "nest_get (nest_del k c data) k' c' = (if k' = k \<and> c' = c then None else nest_get data k' c')"
proof (cases "map_of data k")
  case None
  then show ?thesis by (auto simp: nest_get_def nest_del_def)
next
  case (Some m)
  have "map_of m c' = None" if "AList.delete c m = []" "c' \<noteq> c"
    using that map_of_delete [of c m c'] by simp
  with Some show ?thesis
    by (auto simp: nest_get_def nest_del_def Let_def gomap_simps split: option.split)
qed

lemma nest_empty_iff:
  "nest_wf data \<Longrightarrow> map_of data k = None \<longleftrightarrow> (\<forall>c. nest_get data k c = None)"
proof (cases "map_of data k")
  case None
  then show ?thesis by (simp add: nest_get_def)
next
  case (Some m)
  assume "nest_wf data"
  from nest_wf_inner [OF this Some] have "m \<noteq> []" by simp
  then obtain c v m' where "m = (c, v) # m'" by (cases m) auto
  with Some have "nest_get data k c = Some v" by (simp add: nest_get_def)
  with Some show ?thesis by (metis option.distinct(1))
qed

section \<open>Reference counts\<close>

lemma refs_inc_other: "k' \<noteq> k \<Longrightarrow> map_of (refs_inc k u data) k' = map_of data k'"
  by (simp add: refs_inc_def Let_def gomap_simps)

lemma refs_dec_other: "k' \<noteq> k \<Longrightarrow> map_of (refs_dec k u data) k' = map_of data k'"
  by (simp add: refs_dec_def Let_def gomap_simps split: option.split)

lemma refs_wf_nest [simp]: "refs_wf data \<Longrightarrow> nest_wf data"
  by (simp add: refs_wf_def)

lemma refs_wf_Nil [simp]: "refs_wf []"
  by (simp add: refs_wf_def)

lemma refs_wf_pos:
  "refs_wf data \<Longrightarrow> map_of data k = Some m \<Longrightarrow> map_of m u = Some n \<Longrightarrow> 1 \<le> n"
  unfolding refs_wf_def by blast

lemma refs_wf_count:
  "refs_wf data \<Longrightarrow> map_of data k = Some m \<Longrightarrow> 0 \<le> gm_count m u"
  using refs_wf_pos [of data k m u] by (cases "map_of m u") (simp_all add: gm_count_def)

lemma refs_count_inc [gomap_simps]:
  "refs_count (refs_inc k u data) k' u' =
     refs_count data k' u' + (if k' = k \<and> u' = u then 1 else 0)"
proof (cases "map_of data k")
  case None
  then show ?thesis by (auto simp: refs_count_def refs_inc_def gomap_simps) (simp_all add: gm_count_def)
next
  case (Some m)
  then show ?thesis by (auto simp: refs_count_def refs_inc_def gomap_simps)
qed

text \<open>What the decrement leaves of the inner map.\<close>

definition refs_drop :: "'u \<Rightarrow> ('u, int) gomap \<Rightarrow> ('u, int) gomap" where
  "refs_drop u refs = (if gm_count refs u \<le> 1 then AList.delete u refs
                       else AList.update u (gm_count refs u - 1) refs)"

lemma refs_dec_drop:
  "refs_dec k u data =
     (case map_of data k of
        None \<Rightarrow> data
      | Some refs \<Rightarrow> if refs_drop u refs = [] then AList.delete k data
                     else AList.update k (refs_drop u refs) data)"
  by (cases "map_of data k") (simp_all add: refs_dec_def refs_drop_def Let_def)

lemma gm_wf_drop [simp]: "gm_wf refs \<Longrightarrow> gm_wf (refs_drop u refs)"
  by (simp add: refs_drop_def)

lemma gm_count_drop:
  "0 \<le> gm_count refs u \<Longrightarrow>
     gm_count (refs_drop u refs) v = gm_count refs v - (if v = u \<and> 1 \<le> gm_count refs u then 1 else 0)"
  by (auto simp: refs_drop_def gomap_simps)

lemma refs_drop_pos:
  "(\<And>v n. map_of refs v = Some n \<Longrightarrow> 1 \<le> n) \<Longrightarrow> map_of (refs_drop u refs) v = Some n \<Longrightarrow> 1 \<le> n"
  by (auto simp: refs_drop_def gomap_simps split: if_splits)

lemma refs_count_dec [gomap_simps]:
  assumes "refs_wf data"
  shows "refs_count (refs_dec k u data) k' u' =
     refs_count data k' u' - (if k' = k \<and> u' = u \<and> 1 \<le> refs_count data k u then 1 else 0)"
proof (cases "map_of data k")
  case None
  then show ?thesis by (simp add: refs_count_def refs_dec_def)
next
  case (Some refs)
  note d = gm_count_drop [OF refs_wf_count [OF assms Some, of u], of u']
  show ?thesis
  proof (cases "refs_drop u refs = []")
    case True
    then have "gm_count (refs_drop u refs) u' = 0" by (simp add: gm_count_def)
    with d have "gm_count refs u' = (if u' = u \<and> 1 \<le> gm_count refs u then 1 else 0)" by simp
    with True Some show ?thesis by (auto simp: refs_count_def refs_dec_drop gomap_simps)
  next
    case False
    with Some d show ?thesis by (auto simp: refs_count_def refs_dec_drop gomap_simps)
  qed
qed

lemma refs_wfI:
  "nest_wf data \<Longrightarrow>
   (\<And>k m u n. map_of data k = Some m \<Longrightarrow> map_of m u = Some n \<Longrightarrow> 1 \<le> n) \<Longrightarrow> refs_wf data"
  unfolding refs_wf_def by blast

text \<open>Replacing or removing one inner map keeps the counts well formed.\<close>

lemma refs_wf_update:
  assumes wf: "refs_wf data" and m: "gm_wf m" "m \<noteq> []"
    and pos: "\<And>u n. map_of m u = Some n \<Longrightarrow> 1 \<le> n"
  shows "refs_wf (AList.update k m data)"
proof (rule refs_wfI)
  show "nest_wf (AList.update k m data)"
  proof (rule nest_wfI)
    show "gm_wf (AList.update k m data)" using wf by simp
    show "gm_wf m' \<and> m' \<noteq> []" if "map_of (AList.update k m data) k' = Some m'" for k' m'
      using that m nest_wf_inner [OF refs_wf_nest [OF wf], of k' m']
      by (cases "k' = k") (simp_all add: gomap_simps)
  qed
  show "1 \<le> n" if "map_of (AList.update k m data) k' = Some m'" "map_of m' u = Some n" for k' m' u n
    using that pos [of u n] refs_wf_pos [OF wf, of k' m' u n]
    by (cases "k' = k") (simp_all add: gomap_simps)
qed

lemma refs_wf_delete:
  assumes wf: "refs_wf data"
  shows "refs_wf (AList.delete k data)"
proof (rule refs_wfI)
  show "nest_wf (AList.delete k data)"
  proof (rule nest_wfI)
    show "gm_wf (AList.delete k data)" using wf by simp
    show "gm_wf m' \<and> m' \<noteq> []" if "map_of (AList.delete k data) k' = Some m'" for k' m'
      using that nest_wf_inner [OF refs_wf_nest [OF wf], of k' m']
      by (cases "k' = k") (simp_all add: gomap_simps)
  qed
  show "1 \<le> n" if "map_of (AList.delete k data) k' = Some m'" "map_of m' u = Some n" for k' m' u n
    using that refs_wf_pos [OF wf, of k' m' u n]
    by (cases "k' = k") (simp_all add: gomap_simps)
qed

lemma refs_wf_inc [simp]:
  assumes wf: "refs_wf data"
  shows "refs_wf (refs_inc k u data)"
proof (cases "map_of data k")
  case None
  have "refs_wf (AList.update k [(u, 1)] data)"
    by (rule refs_wf_update [OF wf]) (simp_all split: if_splits)
  with None show ?thesis by (simp add: refs_inc_def gm_count_def)
next
  case (Some refs)
  have "refs_wf (AList.update k (AList.update u (gm_count refs u + 1) refs) data)"
  proof (rule refs_wf_update [OF wf])
    show "gm_wf (AList.update u (gm_count refs u + 1) refs)"
      using nest_wf_inner [OF refs_wf_nest [OF wf] Some] by simp
    show "1 \<le> n" if "map_of (AList.update u (gm_count refs u + 1) refs) v = Some n" for v n
      using that refs_wf_count [OF wf Some, of u] refs_wf_pos [OF wf Some, of v n]
      by (cases "v = u") (simp_all add: gomap_simps)
  qed simp
  with Some show ?thesis by (simp add: refs_inc_def)
qed

lemma refs_wf_dec [simp]:
  assumes wf: "refs_wf data"
  shows "refs_wf (refs_dec k u data)"
proof (cases "map_of data k")
  case None
  with wf show ?thesis by (simp add: refs_dec_def)
next
  case (Some refs)
  have "refs_wf (AList.update k (refs_drop u refs) data)" if "refs_drop u refs \<noteq> []"
  proof (rule refs_wf_update [OF wf _ that])
    show "gm_wf (refs_drop u refs)" using nest_wf_inner [OF refs_wf_nest [OF wf] Some] by simp
    show "1 \<le> n" if "map_of (refs_drop u refs) v = Some n" for v n
      using refs_drop_pos [OF refs_wf_pos [OF wf Some] that] .
  qed
  with Some refs_wf_delete [OF wf, of k] show ?thesis by (simp add: refs_dec_drop)
qed

text \<open>A user is listed under a key exactly when its count is positive.\<close>

lemma refs_listed:
  assumes "refs_wf data"
  shows "u \<in> set (gm_keys (case map_of data k of None \<Rightarrow> [] | Some m \<Rightarrow> m)) \<longleftrightarrow> 1 \<le> refs_count data k u"
proof (cases "map_of data k")
  case None
  then show ?thesis by (simp add: refs_count_def gm_keys_def)
next
  case (Some m)
  then show ?thesis
    using refs_wf_pos [OF assms Some, of u]
    by (cases "map_of m u") (simp_all add: refs_count_def gm_count_def gomap_simps)
qed

section \<open>Two-level maps and reference counts behind shard locks\<close>

text \<open>
  Seen from outside, a sharded two-level map is a function from keys to inner maps; a key
  is present exactly when its inner map is not empty.
\<close>

definition sm_inner :: "('k \<Rightarrow> nat) \<Rightarrow> ('k, ('c, 'v) gomap) smap \<Rightarrow> 'k \<Rightarrow> ('c, 'v) gomap" where
  "sm_inner sh s k = (case map_of (s (sh k)) k of None \<Rightarrow> [] | Some m \<Rightarrow> m)"

definition nested_ok :: "('k \<Rightarrow> nat) \<Rightarrow> ('k, ('c, 'v) gomap) smap \<Rightarrow> bool" where
  "nested_ok sh s \<longleftrightarrow> sm_wf sh s \<and> (\<forall>i. nest_wf (s i))"

definition sm_refs :: "('k \<Rightarrow> nat) \<Rightarrow> ('k, ('u, int) gomap) smap \<Rightarrow> 'k \<Rightarrow> 'u \<Rightarrow> int" where
  "sm_refs sh s k u = refs_count (s (sh k)) k u"

definition refs_ok :: "('k \<Rightarrow> nat) \<Rightarrow> ('k, ('u, int) gomap) smap \<Rightarrow> bool" where
  "refs_ok sh s \<longleftrightarrow> sm_wf sh s \<and> (\<forall>i. refs_wf (s i))"

lemma nested_ok_wf: "nested_ok sh s \<Longrightarrow> sm_wf sh s"
  by (simp add: nested_ok_def)

lemma nested_ok_nest: "nested_ok sh s \<Longrightarrow> nest_wf (s i)"
  by (simp add: nested_ok_def)

lemma nested_ok_new [simp]: "nested_ok sh sm_new"
  by (simp add: nested_ok_def) (simp add: sm_new_def)

lemma sm_inner_new [simp]: "sm_inner sh sm_new k = []"
  by (simp add: sm_inner_def sm_new_def)

lemma sm_inner_wf: "nested_ok sh s \<Longrightarrow> gm_wf (sm_inner sh s k)"
  using nest_wf_inner [OF nested_ok_nest, of sh s "sh k" k]
  by (cases "map_of (s (sh k)) k") (auto simp: sm_inner_def)

lemma sm_inner_present:
  "nested_ok sh s \<Longrightarrow> map_of (s (sh k)) k = None \<longleftrightarrow> sm_inner sh s k = []"
  using nest_wf_inner [OF nested_ok_nest, of sh s "sh k" k]
  by (cases "map_of (s (sh k)) k") (auto simp: sm_inner_def)

lemma sm_inner_lookup:
  "nested_ok sh s \<Longrightarrow> sm_lookup sh s k = (if sm_inner sh s k = [] then None else Some (sm_inner sh s k))"
  using sm_inner_present [of sh s k]
  by (cases "map_of (s (sh k)) k") (auto simp: sm_inner_def shard_simps)

lemma nested_ok_lock:
  assumes s: "nested_ok sh s" and wf: "nest_wf (f (s (sh k)))"
    and other: "\<And>k'. k' \<noteq> k \<Longrightarrow> map_of (f (s (sh k))) k' = map_of (s (sh k)) k'"
  shows "nested_ok sh (with_shard_lock sh k f s)"
  unfolding nested_ok_def
proof
  show "sm_wf sh (with_shard_lock sh k f s)"
    by (rule sm_wf_lock) (use nested_ok_wf [OF s] nest_wf_gm [OF wf] other in blast)+
  show "\<forall>i. nest_wf (with_shard_lock sh k f s i)"
    using nested_ok_nest [OF s] wf by (simp add: with_shard_lock_def)
qed

lemma nested_ok_put: "nested_ok sh s \<Longrightarrow> nested_ok sh (with_shard_lock sh k (nest_put k c v) s)"
  by (rule nested_ok_lock) (simp_all add: nested_ok_nest nest_put_other)

lemma nested_ok_del: "nested_ok sh s \<Longrightarrow> nested_ok sh (with_shard_lock sh k (nest_del k c) s)"
  by (rule nested_ok_lock) (simp_all add: nested_ok_nest nest_del_other)

lemma sm_inner_put:
  "sm_inner sh (with_shard_lock sh k (nest_put k c v) s) k' =
     (if k' = k then AList.update c v (sm_inner sh s k) else sm_inner sh s k')"
  by (auto simp: sm_inner_def with_shard_lock_def nest_put_def Let_def gomap_simps split: option.split)

lemma sm_inner_del:
  "sm_inner sh (with_shard_lock sh k (nest_del k c) s) k' =
     (if k' = k then AList.delete c (sm_inner sh s k) else sm_inner sh s k')"
  by (auto simp: sm_inner_def with_shard_lock_def nest_del_def Let_def gomap_simps split: option.split)

text \<open>Totals that count nothing for an absent key.\<close>

lemma gm_sum_inner_put:
  assumes "nest_wf data" and "g k [] = 0"
  shows "gm_sum g (nest_put k c v data) = gm_sum g data
    - g k (case map_of data k of None \<Rightarrow> [] | Some m \<Rightarrow> m)
    + g k (AList.update c v (case map_of data k of None \<Rightarrow> [] | Some m \<Rightarrow> m))"
  using assms by (auto simp: nest_put_def Let_def gm_sum_update split: option.split)

lemma gm_sum_inner_del:
  assumes "nest_wf data" and "g k [] = 0"
  shows "gm_sum g (nest_del k c data) = gm_sum g data
    - g k (case map_of data k of None \<Rightarrow> [] | Some m \<Rightarrow> m)
    + g k (AList.delete c (case map_of data k of None \<Rightarrow> [] | Some m \<Rightarrow> m))"
  using assms by (auto simp: nest_del_def Let_def gm_sum_update gm_sum_delete split: option.split)

lemma sm_total_put:
  assumes "nested_ok sh s" and "sh k < n" and "g k [] = 0"
  shows "sm_total n g (with_shard_lock sh k (nest_put k c v) s) =
    sm_total n g s - g k (sm_inner sh s k) + g k (AList.update c v (sm_inner sh s k))"
  unfolding sm_total_lock [where sh = sh and k = k, OF assms(2)]
    gm_sum_inner_put [where g = g and k = k, OF nested_ok_nest [OF assms(1)] assms(3)] sm_inner_def by simp

lemma sm_total_del:
  assumes "nested_ok sh s" and "sh k < n" and "g k [] = 0"
  shows "sm_total n g (with_shard_lock sh k (nest_del k c) s) =
    sm_total n g s - g k (sm_inner sh s k) + g k (AList.delete c (sm_inner sh s k))"
  unfolding sm_total_lock [where sh = sh and k = k, OF assms(2)]
    gm_sum_inner_del [where g = g and k = k, OF nested_ok_nest [OF assms(1)] assms(3)] sm_inner_def by simp

lemma sm_range_inner:
  assumes "nested_ok sh s" and "\<And>k. sh k < n"
  shows "(k, m) \<in> set (sm_range n s) \<longleftrightarrow> sm_inner sh s k = m \<and> m \<noteq> []"
  using sm_range_iff [OF nested_ok_wf [OF assms(1)] assms(2)] sm_inner_lookup [OF assms(1)] by auto

lemma sm_keys_inner:
  assumes "nested_ok sh s" and "\<And>k. sh k < n"
  shows "k \<in> set (sm_keys n s) \<longleftrightarrow> sm_inner sh s k \<noteq> []"
proof
  assume "k \<in> set (sm_keys n s)"
  then obtain m where "(k, m) \<in> set (sm_range n s)" by (auto simp: sm_keys_def)
  with sm_range_inner [OF assms, of k m] show "sm_inner sh s k \<noteq> []" by simp
next
  assume "sm_inner sh s k \<noteq> []"
  with sm_range_inner [OF assms, of k "sm_inner sh s k"]
  have "(k, sm_inner sh s k) \<in> set (sm_range n s)" by simp
  then show "k \<in> set (sm_keys n s)" by (force simp: sm_keys_def)
qed

text \<open>Reference counts.\<close>

lemma refs_ok_new [simp]: "refs_ok sh sm_new"
  by (simp add: refs_ok_def) (simp add: sm_new_def)

lemma sm_refs_new [simp]: "sm_refs sh sm_new k u = 0"
  by (simp add: sm_refs_def sm_new_def refs_count_def)

lemma refs_ok_wf: "refs_ok sh s \<Longrightarrow> refs_wf (s i)"
  by (simp add: refs_ok_def)

lemma refs_ok_lock:
  assumes s: "refs_ok sh s" and wf: "refs_wf (f (s (sh k)))"
    and other: "\<And>k'. k' \<noteq> k \<Longrightarrow> map_of (f (s (sh k))) k' = map_of (s (sh k)) k'"
  shows "refs_ok sh (with_shard_lock sh k f s)"
  unfolding refs_ok_def
proof
  show "sm_wf sh (with_shard_lock sh k f s)"
    by (rule sm_wf_lock) (use s nest_wf_gm [OF refs_wf_nest [OF wf]] other in \<open>auto simp: refs_ok_def\<close>)
  show "\<forall>i. refs_wf (with_shard_lock sh k f s i)"
    using refs_ok_wf [OF s] wf by (simp add: with_shard_lock_def)
qed

lemma refs_ok_inc [simp]: "refs_ok sh s \<Longrightarrow> refs_ok sh (with_shard_lock sh k (refs_inc k u) s)"
  by (rule refs_ok_lock) (simp_all add: refs_ok_wf refs_inc_other)

lemma refs_ok_dec [simp]: "refs_ok sh s \<Longrightarrow> refs_ok sh (with_shard_lock sh k (refs_dec k u) s)"
  by (rule refs_ok_lock) (simp_all add: refs_ok_wf refs_dec_other)

lemma refs_count_cong: "map_of d k = map_of d' k \<Longrightarrow> refs_count d k u = refs_count d' k u"
  by (simp add: refs_count_def)

lemma sm_refs_inc:
  "sm_refs sh (with_shard_lock sh k (refs_inc k u) s) k' u' =
     sm_refs sh s k' u' + (if k' = k \<and> u' = u then 1 else 0)"
  by (auto simp: sm_refs_def with_shard_lock_def refs_count_inc)

lemma sm_refs_dec:
  "refs_ok sh s \<Longrightarrow> sm_refs sh (with_shard_lock sh k (refs_dec k u) s) k' u' =
     sm_refs sh s k' u' - (if k' = k \<and> u' = u \<and> 1 \<le> sm_refs sh s k u then 1 else 0)"
  by (auto simp: sm_refs_def with_shard_lock_def refs_count_dec refs_ok_wf)

lemma sm_refs_fold_inc:
  "refs_ok sh s \<Longrightarrow>
   refs_ok sh (fold (\<lambda>k. with_shard_lock sh k (refs_inc k u)) ks s) \<and>
   sm_refs sh (fold (\<lambda>k. with_shard_lock sh k (refs_inc k u)) ks s) k' u' =
     sm_refs sh s k' u' + (if u' = u then int (count_list ks k') else 0)"
  by (induction ks arbitrary: s) (auto simp: sm_refs_inc)

lemma sm_refs_fold_dec:
  assumes "refs_ok sh s" and "\<And>k'. int (count_list ks k') \<le> sm_refs sh s k' u"
  shows "refs_ok sh (fold (\<lambda>k. with_shard_lock sh k (refs_dec k u)) ks s) \<and>
   sm_refs sh (fold (\<lambda>k. with_shard_lock sh k (refs_dec k u)) ks s) k' u' =
     sm_refs sh s k' u' - (if u' = u then int (count_list ks k') else 0)"
  using assms
proof (induction ks arbitrary: s)
  case Nil
  then show ?case by simp
next
  case (Cons k ks)
  let ?s = "with_shard_lock sh k (refs_dec k u) s"
  have ge: "1 \<le> sm_refs sh s k u" using Cons.prems(2) [of k] by simp
  note d = sm_refs_dec [OF Cons.prems(1), of k u]
  have "int (count_list ks j) \<le> sm_refs sh ?s j u" for j
    using Cons.prems(2) [of j] d [of j u] ge by (cases "j = k") auto
  from Cons.IH [OF refs_ok_dec [OF Cons.prems(1)] this] d [of k' u'] ge
  show ?case by auto
qed

lemma sm_refs_listed:
  assumes "refs_ok sh s"
  shows "u \<in> set (gm_keys (sm_inner sh s k)) \<longleftrightarrow> 1 \<le> sm_refs sh s k u"
  unfolding sm_inner_def sm_refs_def by (rule refs_listed [OF refs_ok_wf [OF assms]])

end
