(* ===== verification/Message_Types.thy ===== *)
theory Message_Types
  imports Sharded_Map
begin

text \<open>
  The vocabulary of messages: models/message_type.go, models/enums.go, models/classification.go
  and the enumerations of models/delivery_guarantee.go and models/deliver_result.go.

  \<^item> \<open>MessageType\<close> and the other string enumerations of the sources are open string types: a client
    may send any string, so they are \<open>string\<close> here, with one abbreviation per constant.
  \<^item> \<open>DeliveryGuarantee\<close>, \<open>DeliveryMode\<close> and \<open>MessagePriority\<close> are the integer enumerations.
  \<^item> The classification methods of \<open>MessageType\<close> are the membership tests of their \<open>switch\<close>
    statements; \<open>GetCategory\<close> and \<open>GetDefaultPriority\<close> keep the order of the tests.
\<close>

section \<open>Message types\<close>

type_synonym MessageType = string

abbreviation MessageTypeText :: MessageType where "MessageTypeText \<equiv> ''text''"
abbreviation MessageTypeImage :: MessageType where "MessageTypeImage \<equiv> ''image''"
abbreviation MessageTypeFile :: MessageType where "MessageTypeFile \<equiv> ''file''"
abbreviation MessageTypeAudio :: MessageType where "MessageTypeAudio \<equiv> ''audio''"
abbreviation MessageTypeVideo :: MessageType where "MessageTypeVideo \<equiv> ''video''"
abbreviation MessageTypeSystem :: MessageType where "MessageTypeSystem \<equiv> ''system''"
abbreviation MessageTypeNotice :: MessageType where "MessageTypeNotice \<equiv> ''notice''"
abbreviation MessageTypeEvent :: MessageType where "MessageTypeEvent \<equiv> ''event''"
abbreviation MessageTypeAck :: MessageType where "MessageTypeAck \<equiv> ''ack''"
abbreviation MessageTypeLocation :: MessageType where "MessageTypeLocation \<equiv> ''location''"
abbreviation MessageTypeCard :: MessageType where "MessageTypeCard \<equiv> ''card''"
abbreviation MessageTypeEmoji :: MessageType where "MessageTypeEmoji \<equiv> ''emoji''"
abbreviation MessageTypeSticker :: MessageType where "MessageTypeSticker \<equiv> ''sticker''"
abbreviation MessageTypeLink :: MessageType where "MessageTypeLink \<equiv> ''link''"
abbreviation MessageTypeQuote :: MessageType where "MessageTypeQuote \<equiv> ''quote''"
abbreviation MessageTypeForward :: MessageType where "MessageTypeForward \<equiv> ''forward''"
abbreviation MessageTypeCommand :: MessageType where "MessageTypeCommand \<equiv> ''command''"
abbreviation MessageTypeMarkdown :: MessageType where "MessageTypeMarkdown \<equiv> ''markdown''"
abbreviation MessageTypeRichText :: MessageType where "MessageTypeRichText \<equiv> ''rich_text''"
abbreviation MessageTypeCode :: MessageType where "MessageTypeCode \<equiv> ''code''"
abbreviation MessageTypeJSON :: MessageType where "MessageTypeJSON \<equiv> ''json''"
abbreviation MessageTypeXML :: MessageType where "MessageTypeXML \<equiv> ''xml''"
abbreviation MessageTypeBinary :: MessageType where "MessageTypeBinary \<equiv> ''binary''"
abbreviation MessageTypeVoice :: MessageType where "MessageTypeVoice \<equiv> ''voice''"
abbreviation MessageTypeGIF :: MessageType where "MessageTypeGIF \<equiv> ''gif''"
abbreviation MessageTypeDocument :: MessageType where "MessageTypeDocument \<equiv> ''document''"
abbreviation MessageTypeSpreadsheet :: MessageType where "MessageTypeSpreadsheet \<equiv> ''spreadsheet''"
abbreviation MessageTypePresentation :: MessageType where "MessageTypePresentation \<equiv> ''presentation''"
abbreviation MessageTypeContact :: MessageType where "MessageTypeContact \<equiv> ''contact''"
abbreviation MessageTypeCalendar :: MessageType where "MessageTypeCalendar \<equiv> ''calendar''"
abbreviation MessageTypeTask :: MessageType where "MessageTypeTask \<equiv> ''task''"
abbreviation MessageTypePoll :: MessageType where "MessageTypePoll \<equiv> ''poll''"
abbreviation MessageTypeForm :: MessageType where "MessageTypeForm \<equiv> ''form''"
abbreviation MessageTypePayment :: MessageType where "MessageTypePayment \<equiv> ''payment''"
abbreviation MessageTypeOrder :: MessageType where "MessageTypeOrder \<equiv> ''order''"
abbreviation MessageTypeProduct :: MessageType where "MessageTypeProduct \<equiv> ''product''"
abbreviation MessageTypeInvite :: MessageType where "MessageTypeInvite \<equiv> ''invite''"
abbreviation MessageTypeAnnouncement :: MessageType where "MessageTypeAnnouncement \<equiv> ''announcement''"
abbreviation MessageTypeAlert :: MessageType where "MessageTypeAlert \<equiv> ''alert''"
abbreviation MessageTypeError :: MessageType where "MessageTypeError \<equiv> ''error''"
abbreviation MessageTypeInfo :: MessageType where "MessageTypeInfo \<equiv> ''info''"
abbreviation MessageTypeSuccess :: MessageType where "MessageTypeSuccess \<equiv> ''success''"
abbreviation MessageTypeWarning :: MessageType where "MessageTypeWarning \<equiv> ''warning''"
abbreviation MessageTypeHeartbeat :: MessageType where "MessageTypeHeartbeat \<equiv> ''heartbeat''"
abbreviation MessageTypePing :: MessageType where "MessageTypePing \<equiv> ''ping''"
abbreviation MessageTypePong :: MessageType where "MessageTypePong \<equiv> ''pong''"
abbreviation MessageTypeTyping :: MessageType where "MessageTypeTyping \<equiv> ''typing''"
abbreviation MessageTypeRead :: MessageType where "MessageTypeRead \<equiv> ''read''"
abbreviation MessageTypeDelivered :: MessageType where "MessageTypeDelivered \<equiv> ''delivered''"
abbreviation MessageTypeRecall :: MessageType where "MessageTypeRecall \<equiv> ''recall''"
abbreviation MessageTypeEdit :: MessageType where "MessageTypeEdit \<equiv> ''edit''"
abbreviation MessageTypeReaction :: MessageType where "MessageTypeReaction \<equiv> ''reaction''"
abbreviation MessageTypeThread :: MessageType where "MessageTypeThread \<equiv> ''thread''"
abbreviation MessageTypeReply :: MessageType where "MessageTypeReply \<equiv> ''reply''"
abbreviation MessageTypeMention :: MessageType where "MessageTypeMention \<equiv> ''mention''"
abbreviation MessageTypeCustom :: MessageType where "MessageTypeCustom \<equiv> ''custom''"
abbreviation MessageTypeUnknown :: MessageType where "MessageTypeUnknown \<equiv> ''unknown''"
abbreviation MessageTypeTicketCreated :: MessageType where "MessageTypeTicketCreated \<equiv> ''ticket_created''"
abbreviation MessageTypeTicketAssigned :: MessageType where "MessageTypeTicketAssigned \<equiv> ''ticket_assigned''"
abbreviation MessageTypeTicketClosed :: MessageType where "MessageTypeTicketClosed \<equiv> ''ticket_closed''"
abbreviation MessageTypeTicketTimeoutClosed :: MessageType where "MessageTypeTicketTimeoutClosed \<equiv> ''ticket_timeout_closed''"
abbreviation MessageTypeTicketTransfer :: MessageType where "MessageTypeTicketTransfer \<equiv> ''ticket_transfer''"
abbreviation MessageTypeTicketActive :: MessageType where "MessageTypeTicketActive \<equiv> ''ticket_active''"
abbreviation MessageTypeTest :: MessageType where "MessageTypeTest \<equiv> ''test''"
abbreviation MessageTypeWelcome :: MessageType where "MessageTypeWelcome \<equiv> ''welcome''"
abbreviation MessageTypeTerminate :: MessageType where "MessageTypeTerminate \<equiv> ''terminate''"
abbreviation MessageTypeTransferred :: MessageType where "MessageTypeTransferred \<equiv> ''transferred''"
abbreviation MessageTypeSessionCreated :: MessageType where "MessageTypeSessionCreated \<equiv> ''session_created''"
abbreviation MessageTypeSessionClosed :: MessageType where "MessageTypeSessionClosed \<equiv> ''session_closed''"
abbreviation MessageTypeSessionQueued :: MessageType where "MessageTypeSessionQueued \<equiv> ''session_queued''"
abbreviation MessageTypeSessionTimeout :: MessageType where "MessageTypeSessionTimeout \<equiv> ''session_timeout''"
abbreviation MessageTypeSessionPaused :: MessageType where "MessageTypeSessionPaused \<equiv> ''session_paused''"
abbreviation MessageTypeSessionResumed :: MessageType where "MessageTypeSessionResumed \<equiv> ''session_resumed''"
abbreviation MessageTypeSessionTransferred :: MessageType where "MessageTypeSessionTransferred \<equiv> ''session_transferred''"
abbreviation MessageTypeSessionMemberJoined :: MessageType where "MessageTypeSessionMemberJoined \<equiv> ''session_member_joined''"
abbreviation MessageTypeSessionMemberLeft :: MessageType where "MessageTypeSessionMemberLeft \<equiv> ''session_member_left''"
abbreviation MessageTypeSessionStatusChanged :: MessageType where "MessageTypeSessionStatusChanged \<equiv> ''session_status_changed''"
abbreviation MessageTypeCheckUserStatus :: MessageType where "MessageTypeCheckUserStatus \<equiv> ''check_user_status''"
abbreviation MessageTypeUserStatusResponse :: MessageType where "MessageTypeUserStatusResponse \<equiv> ''user_status_response''"
abbreviation MessageTypeGetOnlineUsers :: MessageType where "MessageTypeGetOnlineUsers \<equiv> ''get_online_users''"
abbreviation MessageTypeOnlineUsersList :: MessageType where "MessageTypeOnlineUsersList \<equiv> ''online_users_list''"
abbreviation MessageTypeGetUserInfo :: MessageType where "MessageTypeGetUserInfo \<equiv> ''get_user_info''"
abbreviation MessageTypeUserInfoResponse :: MessageType where "MessageTypeUserInfoResponse \<equiv> ''user_info_response''"
abbreviation MessageTypeSystemQuery :: MessageType where "MessageTypeSystemQuery \<equiv> ''system_query''"
abbreviation MessageTypeSystemResponse :: MessageType where "MessageTypeSystemResponse \<equiv> ''system_response''"
abbreviation MessageTypeUserJoined :: MessageType where "MessageTypeUserJoined \<equiv> ''user_joined''"
abbreviation MessageTypeUserLeft :: MessageType where "MessageTypeUserLeft \<equiv> ''user_left''"
abbreviation MessageTypeUserStatusChanged :: MessageType where "MessageTypeUserStatusChanged \<equiv> ''user_status_changed''"
abbreviation MessageTypeServerStatus :: MessageType where "MessageTypeServerStatus \<equiv> ''server_status''"
abbreviation MessageTypeServerStats :: MessageType where "MessageTypeServerStats \<equiv> ''server_stats''"
abbreviation MessageTypeClientConfig :: MessageType where "MessageTypeClientConfig \<equiv> ''client_config''"
abbreviation MessageTypeConfigUpdate :: MessageType where "MessageTypeConfigUpdate \<equiv> ''config_update''"
abbreviation MessageTypeHealthCheck :: MessageType where "MessageTypeHealthCheck \<equiv> ''health_check''"
abbreviation MessageTypeHealthResponse :: MessageType where "MessageTypeHealthResponse \<equiv> ''health_response''"
abbreviation MessageTypeConnected :: MessageType where "MessageTypeConnected \<equiv> ''connected''"
abbreviation MessageTypeClientRegistered :: MessageType where "MessageTypeClientRegistered \<equiv> ''client_registered''"
abbreviation MessageTypeConnectionRejected :: MessageType where "MessageTypeConnectionRejected \<equiv> ''connection_rejected''"
abbreviation MessageTypeDisconnected :: MessageType where "MessageTypeDisconnected \<equiv> ''disconnected''"
abbreviation MessageTypeReconnected :: MessageType where "MessageTypeReconnected \<equiv> ''reconnected''"
abbreviation MessageTypeConnectionError :: MessageType where "MessageTypeConnectionError \<equiv> ''connection_error''"
abbreviation MessageTypeConnectionTimeout :: MessageType where "MessageTypeConnectionTimeout \<equiv> ''connection_timeout''"
abbreviation MessageTypeKickOut :: MessageType where "MessageTypeKickOut \<equiv> ''kick_out''"
abbreviation MessageTypeForceOffline :: MessageType where "MessageTypeForceOffline \<equiv> ''force_offline''"
abbreviation MessageTypeOpenWindow :: MessageType where "MessageTypeOpenWindow \<equiv> ''open_window''"
abbreviation MessageTypeCloseWindow :: MessageType where "MessageTypeCloseWindow \<equiv> ''close_window''"
abbreviation MessageTypeBStatusReminder :: MessageType where "MessageTypeBStatusReminder \<equiv> ''b_status_reminder''"
abbreviation MessageTypeGroupChanged :: MessageType where "MessageTypeGroupChanged \<equiv> ''group_changed''"
abbreviation MessageTypeStream :: MessageType where "MessageTypeStream \<equiv> ''stream''"

text \<open>The constants in the order of their declaration.\<close>

definition message_type_consts :: "MessageType list" where
  "message_type_consts =
     [MessageTypeText, MessageTypeImage, MessageTypeFile, MessageTypeAudio,
      MessageTypeVideo, MessageTypeSystem, MessageTypeNotice, MessageTypeEvent,
      MessageTypeAck, MessageTypeLocation, MessageTypeCard, MessageTypeEmoji,
      MessageTypeSticker, MessageTypeLink, MessageTypeQuote, MessageTypeForward,
      MessageTypeCommand, MessageTypeMarkdown, MessageTypeRichText, MessageTypeCode,
      MessageTypeJSON, MessageTypeXML, MessageTypeBinary, MessageTypeVoice,
      MessageTypeGIF, MessageTypeDocument, MessageTypeSpreadsheet, MessageTypePresentation,
      MessageTypeContact, MessageTypeCalendar, MessageTypeTask, MessageTypePoll,
      MessageTypeForm, MessageTypePayment, MessageTypeOrder, MessageTypeProduct,
      MessageTypeInvite, MessageTypeAnnouncement, MessageTypeAlert, MessageTypeError,
      MessageTypeInfo, MessageTypeSuccess, MessageTypeWarning, MessageTypeHeartbeat,
      MessageTypePing, MessageTypePong, MessageTypeTyping, MessageTypeRead,
      MessageTypeDelivered, MessageTypeRecall, MessageTypeEdit, MessageTypeReaction,
      MessageTypeThread, MessageTypeReply, MessageTypeMention, MessageTypeCustom,
      MessageTypeUnknown, MessageTypeTicketCreated, MessageTypeTicketAssigned, MessageTypeTicketClosed,
      MessageTypeTicketTimeoutClosed, MessageTypeTicketTransfer, MessageTypeTicketActive, MessageTypeTest,
      MessageTypeWelcome, MessageTypeTerminate, MessageTypeTransferred, MessageTypeSessionCreated,
      MessageTypeSessionClosed, MessageTypeSessionQueued, MessageTypeSessionTimeout, MessageTypeSessionPaused,
      MessageTypeSessionResumed, MessageTypeSessionTransferred, MessageTypeSessionMemberJoined, MessageTypeSessionMemberLeft,
      MessageTypeSessionStatusChanged, MessageTypeCheckUserStatus, MessageTypeUserStatusResponse, MessageTypeGetOnlineUsers,
      MessageTypeOnlineUsersList, MessageTypeGetUserInfo, MessageTypeUserInfoResponse, MessageTypeSystemQuery,
      MessageTypeSystemResponse, MessageTypeUserJoined, MessageTypeUserLeft, MessageTypeUserStatusChanged,
      MessageTypeServerStatus, MessageTypeServerStats, MessageTypeClientConfig, MessageTypeConfigUpdate,
      MessageTypeHealthCheck, MessageTypeHealthResponse, MessageTypeConnected, MessageTypeClientRegistered,
      MessageTypeConnectionRejected, MessageTypeDisconnected, MessageTypeReconnected, MessageTypeConnectionError,
      MessageTypeConnectionTimeout, MessageTypeKickOut, MessageTypeForceOffline, MessageTypeOpenWindow,
      MessageTypeCloseWindow, MessageTypeBStatusReminder, MessageTypeGroupChanged, MessageTypeStream]"

section \<open>Membership tests\<close>

definition MessageType_IsValid :: "MessageType \<Rightarrow> bool" where
  "MessageType_IsValid t \<longleftrightarrow> t \<in> set
     [MessageTypeText, MessageTypeImage, MessageTypeFile, MessageTypeAudio,
      MessageTypeVideo, MessageTypeSystem, MessageTypeNotice, MessageTypeEvent,
      MessageTypeAck, MessageTypeLocation, MessageTypeCard, MessageTypeEmoji,
      MessageTypeSticker, MessageTypeLink, MessageTypeQuote, MessageTypeForward,
      MessageTypeCommand, MessageTypeMarkdown, MessageTypeRichText, MessageTypeCode,
      MessageTypeJSON, MessageTypeXML, MessageTypeBinary, MessageTypeVoice,
      MessageTypeGIF, MessageTypeDocument, MessageTypeSpreadsheet, MessageTypePresentation,
      MessageTypeContact, MessageTypeCalendar, MessageTypeTask, MessageTypePoll,
      MessageTypeForm, MessageTypePayment, MessageTypeOrder, MessageTypeProduct,
      MessageTypeInvite, MessageTypeAnnouncement, MessageTypeAlert, MessageTypeError,
      MessageTypeInfo, MessageTypeSuccess, MessageTypeWarning, MessageTypeHeartbeat,
      MessageTypePing, MessageTypePong, MessageTypeTyping, MessageTypeRead,
      MessageTypeDelivered, MessageTypeRecall, MessageTypeEdit, MessageTypeReaction,
      MessageTypeThread, MessageTypeReply, MessageTypeMention, MessageTypeCustom,
      MessageTypeTicketCreated, MessageTypeTicketAssigned, MessageTypeTicketClosed, MessageTypeTicketTimeoutClosed,
      MessageTypeTicketTransfer, MessageTypeTicketActive, MessageTypeTest, MessageTypeWelcome,
      MessageTypeTerminate, MessageTypeTransferred, MessageTypeSessionCreated, MessageTypeSessionClosed,
      MessageTypeSessionQueued, MessageTypeSessionTimeout, MessageTypeSessionPaused, MessageTypeSessionResumed,
      MessageTypeSessionTransferred, MessageTypeSessionMemberJoined, MessageTypeSessionMemberLeft, MessageTypeSessionStatusChanged,
      MessageTypeCheckUserStatus, MessageTypeUserStatusResponse, MessageTypeGetOnlineUsers, MessageTypeOnlineUsersList,
      MessageTypeGetUserInfo, MessageTypeUserInfoResponse, MessageTypeSystemQuery, MessageTypeSystemResponse,
      MessageTypeUserJoined, MessageTypeUserLeft, MessageTypeUserStatusChanged, MessageTypeServerStatus,
      MessageTypeServerStats, MessageTypeClientConfig, MessageTypeConfigUpdate, MessageTypeHealthCheck,
      MessageTypeHealthResponse, MessageTypeConnected, MessageTypeClientRegistered, MessageTypeConnectionRejected,
      MessageTypeDisconnected, MessageTypeReconnected, MessageTypeConnectionError, MessageTypeConnectionTimeout,
      MessageTypeKickOut, MessageTypeForceOffline, MessageTypeCloseWindow, MessageTypeOpenWindow,
      MessageTypeBStatusReminder]"

definition IsMediaType :: "MessageType \<Rightarrow> bool" where
  "IsMediaType t \<longleftrightarrow> t \<in> set
     [MessageTypeImage, MessageTypeAudio, MessageTypeVideo, MessageTypeFile,
      MessageTypeVoice, MessageTypeGIF, MessageTypeDocument, MessageTypeSpreadsheet,
      MessageTypePresentation]"

definition IsTextType :: "MessageType \<Rightarrow> bool" where
  "IsTextType t \<longleftrightarrow> t \<in> set
     [MessageTypeText, MessageTypeMarkdown, MessageTypeRichText, MessageTypeCode]"

definition IsSystemType :: "MessageType \<Rightarrow> bool" where
  "IsSystemType t \<longleftrightarrow> t \<in> set
     [MessageTypeSystem, MessageTypeNotice, MessageTypeEvent, MessageTypeAnnouncement,
      MessageTypeAlert, MessageTypeError, MessageTypeInfo, MessageTypeSuccess,
      MessageTypeWarning, MessageTypeHeartbeat, MessageTypePing, MessageTypePong,
      MessageTypeBStatusReminder]"

definition IsInteractiveType :: "MessageType \<Rightarrow> bool" where
  "IsInteractiveType t \<longleftrightarrow> t \<in> set
     [MessageTypeCard, MessageTypeLink, MessageTypeQuote, MessageTypeCommand,
      MessageTypePoll, MessageTypeForm, MessageTypeTask, MessageTypeInvite]"

definition IsStatusType :: "MessageType \<Rightarrow> bool" where
  "IsStatusType t \<longleftrightarrow> t \<in> set
     [MessageTypeTyping, MessageTypeRead, MessageTypeDelivered, MessageTypeAck,
      MessageTypeReaction, MessageTypeEdit, MessageTypeRecall]"

definition IsHeartbeatType :: "MessageType \<Rightarrow> bool" where
  "IsHeartbeatType t \<longleftrightarrow> t \<in> set
     [MessageTypePing, MessageTypePong, MessageTypeHeartbeat]"

definition IsSessionType :: "MessageType \<Rightarrow> bool" where
  "IsSessionType t \<longleftrightarrow> t \<in> set
     [MessageTypeSessionCreated, MessageTypeSessionClosed, MessageTypeSessionQueued, MessageTypeSessionTimeout,
      MessageTypeSessionPaused, MessageTypeSessionResumed, MessageTypeSessionTransferred, MessageTypeSessionMemberJoined,
      MessageTypeSessionMemberLeft, MessageTypeSessionStatusChanged]"

definition IsConnectionType :: "MessageType \<Rightarrow> bool" where
  "IsConnectionType t \<longleftrightarrow> t \<in> set
     [MessageTypeConnected, MessageTypeClientRegistered, MessageTypeConnectionRejected, MessageTypeDisconnected,
      MessageTypeReconnected, MessageTypeConnectionError, MessageTypeConnectionTimeout, MessageTypeKickOut,
      MessageTypeForceOffline]"

definition ShouldSkipDatabaseRecord :: "MessageType \<Rightarrow> bool" where
  "ShouldSkipDatabaseRecord t \<longleftrightarrow> IsStatusType t \<or> IsConnectionType t \<or> IsSystemType t"

definition IsBusinessType :: "MessageType \<Rightarrow> bool" where
  "IsBusinessType t \<longleftrightarrow> t \<in> set
     [MessageTypePayment, MessageTypeOrder, MessageTypeProduct, MessageTypeTicketCreated,
      MessageTypeTicketAssigned, MessageTypeTicketClosed, MessageTypeTicketTimeoutClosed, MessageTypeTicketTransfer,
      MessageTypeTicketActive, MessageTypeBStatusReminder]"

definition IsWindowType :: "MessageType \<Rightarrow> bool" where
  "IsWindowType t \<longleftrightarrow> t \<in> set
     [MessageTypeOpenWindow, MessageTypeCloseWindow]"

definition IsForwardableType :: "MessageType \<Rightarrow> bool" where
  "IsForwardableType t = (if IsWindowType t then True else if IsStatusType t then True else False)"

definition IsUserType :: "MessageType \<Rightarrow> bool" where
  "IsUserType t \<longleftrightarrow> t \<in> set
     [MessageTypeUserJoined, MessageTypeUserLeft, MessageTypeUserStatusChanged, MessageTypeCheckUserStatus,
      MessageTypeUserStatusResponse, MessageTypeGetOnlineUsers, MessageTypeOnlineUsersList, MessageTypeGetUserInfo,
      MessageTypeUserInfoResponse]"

definition IsConfigType :: "MessageType \<Rightarrow> bool" where
  "IsConfigType t \<longleftrightarrow> t \<in> set
     [MessageTypeClientConfig, MessageTypeConfigUpdate]"

definition IsHealthType :: "MessageType \<Rightarrow> bool" where
  "IsHealthType t \<longleftrightarrow> t \<in> set
     [MessageTypeHealthCheck, MessageTypeHealthResponse]"

definition IsServerType :: "MessageType \<Rightarrow> bool" where
  "IsServerType t \<longleftrightarrow> t \<in> set
     [MessageTypeServerStatus, MessageTypeServerStats]"

definition IsRecallType :: "MessageType \<Rightarrow> bool" where
  "IsRecallType t \<longleftrightarrow> t \<in> set
     [MessageTypeRecall, MessageTypeEdit, MessageTypeReaction]"

definition IsThreadType :: "MessageType \<Rightarrow> bool" where
  "IsThreadType t \<longleftrightarrow> t \<in> set
     [MessageTypeThread, MessageTypeReply]"

definition IsCustomType :: "MessageType \<Rightarrow> bool" where
  "IsCustomType t \<longleftrightarrow> t \<in> set
     [MessageTypeCustom, MessageTypeUnknown]"

section \<open>Category and default priority\<close>

definition GetCategory :: "MessageType \<Rightarrow> string" where
  "GetCategory t =
     (if IsMediaType t then ''media''
      else if IsTextType t then ''text''
      else if IsSystemType t then ''system''
      else if IsInteractiveType t then ''interactive''
      else if IsRecallType t then ''recall''
      else if IsStatusType t then ''status''
      else if IsBusinessType t then ''business''
      else if IsSessionType t then ''session''
      else if IsWindowType t then ''window''
      else if IsUserType t then ''user''
      else if IsConfigType t then ''config''
      else if IsHealthType t then ''health''
      else if IsServerType t then ''server''
      else if IsThreadType t then ''thread''
      else if IsCustomType t then ''custom'' else ''other'')"

text \<open>\<open>MessagePriority\<close> is an integer; the constants start at 1 (\<open>iota + 1\<close>).\<close>

type_synonym MessagePriority = int

abbreviation (input) MessagePriorityLow :: MessagePriority where "MessagePriorityLow \<equiv> 1"
abbreviation (input) MessagePriorityNormal :: MessagePriority where "MessagePriorityNormal \<equiv> 2"
abbreviation (input) MessagePriorityHigh :: MessagePriority where "MessagePriorityHigh \<equiv> 3"
abbreviation (input) MessagePriorityUrgent :: MessagePriority where "MessagePriorityUrgent \<equiv> 4"
abbreviation (input) MessagePriorityCritical :: MessagePriority where "MessagePriorityCritical \<equiv> 5"

definition MessagePriority_String :: "MessagePriority \<Rightarrow> string" where
  "MessagePriority_String p =
     (if p = MessagePriorityLow then ''low'' else if p = MessagePriorityNormal then ''normal''
      else if p = MessagePriorityHigh then ''high'' else if p = MessagePriorityUrgent then ''urgent''
      else if p = MessagePriorityCritical then ''critical'' else ''unknown'')"

definition GetWeight :: "MessagePriority \<Rightarrow> int" where
  "GetWeight p = p"

definition MessagePriority_IsHigherThan :: "MessagePriority \<Rightarrow> MessagePriority \<Rightarrow> bool" where
  "MessagePriority_IsHigherThan p other \<longleftrightarrow> p > other"

definition GetDefaultPriority :: "MessageType \<Rightarrow> MessagePriority" where
  "GetDefaultPriority t =
     (if t \<in> set [MessageTypeError, MessageTypeAlert]
      then MessagePriorityCritical
      else if t \<in> set [MessageTypeSystem, MessageTypeAnnouncement, MessageTypeWarning]
      then MessagePriorityUrgent
      else if t \<in> set [MessageTypeNotice, MessageTypeEvent, MessageTypeSuccess, MessageTypePayment,
        MessageTypeOrder, MessageTypeInvite, MessageTypeTask, MessageTypeRecall,
        MessageTypeTicketAssigned, MessageTypeTicketCreated, MessageTypeTicketTimeoutClosed, MessageTypeTicketClosed,
        MessageTypeTicketTransfer, MessageTypeTicketActive, MessageTypeTest, MessageTypeWelcome,
        MessageTypeTerminate, MessageTypeTransferred, MessageTypeSessionCreated, MessageTypeSessionClosed,
        MessageTypeSessionQueued, MessageTypeSessionTimeout, MessageTypeSessionPaused, MessageTypeSessionResumed,
        MessageTypeSessionTransferred, MessageTypeSessionMemberJoined, MessageTypeSessionMemberLeft, MessageTypeSessionStatusChanged]
      then MessagePriorityHigh
      else if t \<in> set [MessageTypeText, MessageTypeImage, MessageTypeAudio, MessageTypeVideo,
        MessageTypeFile, MessageTypeCard, MessageTypeLink, MessageTypeQuote,
        MessageTypeForward, MessageTypeMarkdown, MessageTypeRichText, MessageTypeCode,
        MessageTypeVoice, MessageTypeLocation, MessageTypeContact, MessageTypeDocument,
        MessageTypeCalendar, MessageTypePoll, MessageTypeForm, MessageTypeProduct,
        MessageTypeEmoji, MessageTypeSticker, MessageTypeGIF, MessageTypeReply,
        MessageTypeThread, MessageTypeMention, MessageTypeOpenWindow, MessageTypeCloseWindow]
      then MessagePriorityNormal
      else if t \<in> set [MessageTypeTyping, MessageTypeRead, MessageTypeDelivered, MessageTypeAck,
        MessageTypeHeartbeat, MessageTypePing, MessageTypePong, MessageTypeInfo,
        MessageTypeEdit, MessageTypeReaction, MessageTypeJSON, MessageTypeXML,
        MessageTypeBinary, MessageTypeSpreadsheet, MessageTypePresentation, MessageTypeCustom,
        MessageTypeCommand]
      then MessagePriorityLow
      else MessagePriorityNormal)"

text \<open>The lists the sources build from the constants.\<close>

definition GetAllMessageTypes :: "MessageType list" where
  "GetAllMessageTypes =
     [MessageTypeText, MessageTypeImage, MessageTypeFile, MessageTypeAudio,
      MessageTypeVideo, MessageTypeSystem, MessageTypeNotice, MessageTypeEvent,
      MessageTypeAck, MessageTypeLocation, MessageTypeCard, MessageTypeEmoji,
      MessageTypeSticker, MessageTypeLink, MessageTypeQuote, MessageTypeForward,
      MessageTypeCommand, MessageTypeMarkdown, MessageTypeRichText, MessageTypeCode,
      MessageTypeJSON, MessageTypeXML, MessageTypeBinary, MessageTypeVoice,
      MessageTypeGIF, MessageTypeDocument, MessageTypeSpreadsheet, MessageTypePresentation,
      MessageTypeContact, MessageTypeCalendar, MessageTypeTask, MessageTypePoll,
      MessageTypeForm, MessageTypePayment, MessageTypeOrder, MessageTypeProduct,
      MessageTypeInvite, MessageTypeAnnouncement, MessageTypeAlert, MessageTypeError,
      MessageTypeInfo, MessageTypeSuccess, MessageTypeWarning, MessageTypeHeartbeat,
      MessageTypePing, MessageTypePong, MessageTypeTyping, MessageTypeRead,
      MessageTypeDelivered, MessageTypeRecall, MessageTypeEdit, MessageTypeReaction,
      MessageTypeThread, MessageTypeReply, MessageTypeMention, MessageTypeCustom,
      MessageTypeTicketAssigned, MessageTypeTicketClosed, MessageTypeTicketTransfer, MessageTypeTicketActive,
      MessageTypeTest, MessageTypeWelcome, MessageTypeTerminate, MessageTypeTransferred,
      MessageTypeSessionCreated, MessageTypeSessionClosed, MessageTypeSessionQueued, MessageTypeSessionTimeout,
      MessageTypeCheckUserStatus, MessageTypeUserStatusResponse, MessageTypeGetOnlineUsers, MessageTypeOnlineUsersList,
      MessageTypeGetUserInfo, MessageTypeUserInfoResponse, MessageTypeSystemQuery, MessageTypeSystemResponse,
      MessageTypeUserJoined, MessageTypeUserLeft, MessageTypeUserStatusChanged, MessageTypeServerStatus,
      MessageTypeServerStats, MessageTypeClientConfig, MessageTypeConfigUpdate, MessageTypeHealthCheck,
      MessageTypeHealthResponse, MessageTypeConnected, MessageTypeClientRegistered, MessageTypeConnectionRejected,
      MessageTypeDisconnected, MessageTypeReconnected, MessageTypeConnectionError, MessageTypeConnectionTimeout,
      MessageTypeKickOut, MessageTypeForceOffline, MessageTypeCloseWindow, MessageTypeOpenWindow,
      MessageTypeBStatusReminder]"

definition GetMessageTypesByCategory :: "string \<Rightarrow> MessageType list" where
  "GetMessageTypesByCategory category = filter (\<lambda>t. GetCategory t = category) GetAllMessageTypes"

definition GetMessageTypesByPriority :: "MessagePriority \<Rightarrow> MessageType list" where
  "GetMessageTypesByPriority priority = filter (\<lambda>t. GetDefaultPriority t = priority) GetAllMessageTypes"

record PriorityStats =
  ps_Critical :: int
  ps_Urgent :: int
  ps_High :: int
  ps_Normal :: int
  ps_Low :: int
  ps_Total :: int

definition count_priority :: "MessageType \<Rightarrow> PriorityStats \<Rightarrow> PriorityStats" where
  "count_priority t stats =
     (let p = GetDefaultPriority t;
          stats = (if p = MessagePriorityCritical then stats\<lparr>ps_Critical := ps_Critical stats + 1\<rparr>
                   else if p = MessagePriorityUrgent then stats\<lparr>ps_Urgent := ps_Urgent stats + 1\<rparr>
                   else if p = MessagePriorityHigh then stats\<lparr>ps_High := ps_High stats + 1\<rparr>
                   else if p = MessagePriorityNormal then stats\<lparr>ps_Normal := ps_Normal stats + 1\<rparr>
                   else if p = MessagePriorityLow then stats\<lparr>ps_Low := ps_Low stats + 1\<rparr>
                   else stats)
      in stats\<lparr>ps_Total := ps_Total stats + 1\<rparr>)"

definition GetPriorityStats :: PriorityStats where
  "GetPriorityStats = fold count_priority GetAllMessageTypes
     \<lparr>ps_Critical = 0, ps_Urgent = 0, ps_High = 0, ps_Normal = 0, ps_Low = 0, ps_Total = 0\<rparr>"
section \<open>User types, user status, VIP and urgency levels\<close>

type_synonym UserType = string

abbreviation UserTypeVisitor :: UserType where "UserTypeVisitor \<equiv> ''visitor''"
abbreviation UserTypeCustomer :: UserType where "UserTypeCustomer \<equiv> ''customer''"
abbreviation UserTypeAgent :: UserType where "UserTypeAgent \<equiv> ''agent''"
abbreviation UserTypeAdmin :: UserType where "UserTypeAdmin \<equiv> ''admin''"
abbreviation UserTypeBot :: UserType where "UserTypeBot \<equiv> ''bot''"
abbreviation UserTypeVIP :: UserType where "UserTypeVIP \<equiv> ''vip''"
abbreviation UserTypeSystem :: UserType where "UserTypeSystem \<equiv> ''system''"
abbreviation UserTypeObserver :: UserType where "UserTypeObserver \<equiv> ''observer''"

definition IsCustomerType :: "UserType \<Rightarrow> bool" where
  "IsCustomerType t \<longleftrightarrow> t \<in> set [UserTypeVisitor, UserTypeCustomer, UserTypeVIP]"

definition IsAgentType :: "UserType \<Rightarrow> bool" where
  "IsAgentType t \<longleftrightarrow> t \<in> set [UserTypeAgent]"

definition UserType_IsSystemType :: "UserType \<Rightarrow> bool" where
  "UserType_IsSystemType t \<longleftrightarrow> t \<in> set [UserTypeSystem]"

definition IsHumanType :: "UserType \<Rightarrow> bool" where
  "IsHumanType t \<longleftrightarrow>
     t \<in> set [UserTypeVisitor, UserTypeCustomer, UserTypeAgent, UserTypeAdmin, UserTypeVIP]"

definition IsVIPType :: "UserType \<Rightarrow> bool" where
  "IsVIPType t \<longleftrightarrow> t = UserTypeVIP"

type_synonym UserStatus = string

abbreviation UserStatusOnline :: UserStatus where "UserStatusOnline \<equiv> ''online''"
abbreviation UserStatusOffline :: UserStatus where "UserStatusOffline \<equiv> ''offline''"
abbreviation UserStatusBusy :: UserStatus where "UserStatusBusy \<equiv> ''busy''"
abbreviation UserStatusAway :: UserStatus where "UserStatusAway \<equiv> ''away''"
abbreviation UserStatusInvisible :: UserStatus where "UserStatusInvisible \<equiv> ''invisible''"

definition UserStatusFromInt :: "int \<Rightarrow> UserStatus" where
  "UserStatusFromInt val =
     (if val = 0 then UserStatusOnline else if val = 1 then UserStatusBusy
      else if val = 2 then UserStatusAway else if val = 3 then UserStatusInvisible
      else UserStatusOffline)"

definition UserStatus_ToInt :: "UserStatus \<Rightarrow> int" where
  "UserStatus_ToInt s =
     (if s = UserStatusOnline then 0 else if s = UserStatusBusy then 1
      else if s = UserStatusAway then 2 else if s = UserStatusInvisible then 3 else 4)"

type_synonym ConnectionType = string

abbreviation ConnectionTypeWebSocket :: ConnectionType where "ConnectionTypeWebSocket \<equiv> ''websocket''"
abbreviation ConnectionTypeSSE :: ConnectionType where "ConnectionTypeSSE \<equiv> ''sse''"

definition ConnectionType_IsValid :: "ConnectionType \<Rightarrow> bool" where
  "ConnectionType_IsValid c \<longleftrightarrow> c = ConnectionTypeWebSocket \<or> c = ConnectionTypeSSE"

type_synonym Priority = string

abbreviation PriorityLow :: Priority where "PriorityLow \<equiv> ''low''"
abbreviation PriorityNormal :: Priority where "PriorityNormal \<equiv> ''normal''"
abbreviation PriorityHigh :: Priority where "PriorityHigh \<equiv> ''high''"
abbreviation PriorityUrgent :: Priority where "PriorityUrgent \<equiv> ''urgent''"
abbreviation PriorityCritical :: Priority where "PriorityCritical \<equiv> ''critical''"

type_synonym VIPLevel = string

abbreviation VIPLevelV0 :: VIPLevel where "VIPLevelV0 \<equiv> ''v0''"
abbreviation VIPLevelV1 :: VIPLevel where "VIPLevelV1 \<equiv> ''v1''"
abbreviation VIPLevelV2 :: VIPLevel where "VIPLevelV2 \<equiv> ''v2''"
abbreviation VIPLevelV3 :: VIPLevel where "VIPLevelV3 \<equiv> ''v3''"
abbreviation VIPLevelV4 :: VIPLevel where "VIPLevelV4 \<equiv> ''v4''"
abbreviation VIPLevelV5 :: VIPLevel where "VIPLevelV5 \<equiv> ''v5''"
abbreviation VIPLevelV6 :: VIPLevel where "VIPLevelV6 \<equiv> ''v6''"
abbreviation VIPLevelV7 :: VIPLevel where "VIPLevelV7 \<equiv> ''v7''"
abbreviation VIPLevelV8 :: VIPLevel where "VIPLevelV8 \<equiv> ''v8''"

definition VIPLevel_GetLevel :: "VIPLevel \<Rightarrow> int" where
  "VIPLevel_GetLevel v =
     (if v = VIPLevelV0 then 0 else if v = VIPLevelV1 then 1 else if v = VIPLevelV2 then 2
      else if v = VIPLevelV3 then 3 else if v = VIPLevelV4 then 4 else if v = VIPLevelV5 then 5
      else if v = VIPLevelV6 then 6 else if v = VIPLevelV7 then 7 else if v = VIPLevelV8 then 8
      else 0)"

definition VIPLevel_IsHigherThan :: "VIPLevel \<Rightarrow> VIPLevel \<Rightarrow> bool" where
  "VIPLevel_IsHigherThan v other \<longleftrightarrow> VIPLevel_GetLevel v > VIPLevel_GetLevel other"

definition GetAllVIPLevels :: "VIPLevel list" where
  "GetAllVIPLevels =
     [VIPLevelV0, VIPLevelV1, VIPLevelV2, VIPLevelV3, VIPLevelV4,
      VIPLevelV5, VIPLevelV6, VIPLevelV7, VIPLevelV8]"

definition VIPLevelFromLevel :: "int \<Rightarrow> VIPLevel" where
  "VIPLevelFromLevel level =
     (if level < 0 \<or> level > 8 then VIPLevelV0
      else [VIPLevelV0, VIPLevelV1, VIPLevelV2, VIPLevelV3, VIPLevelV4,
            VIPLevelV5, VIPLevelV6, VIPLevelV7, VIPLevelV8] ! nat level)"

type_synonym UrgencyLevel = string

abbreviation UrgencyLevelLow :: UrgencyLevel where "UrgencyLevelLow \<equiv> ''low''"
abbreviation UrgencyLevelNormal :: UrgencyLevel where "UrgencyLevelNormal \<equiv> ''normal''"
abbreviation UrgencyLevelHigh :: UrgencyLevel where "UrgencyLevelHigh \<equiv> ''high''"

definition UrgencyLevel_GetLevel :: "UrgencyLevel \<Rightarrow> int" where
  "UrgencyLevel_GetLevel u =
     (if u = UrgencyLevelLow then 0 else if u = UrgencyLevelNormal then 1
      else if u = UrgencyLevelHigh then 2 else 1)"

definition IsMoreUrgentThan :: "UrgencyLevel \<Rightarrow> UrgencyLevel \<Rightarrow> bool" where
  "IsMoreUrgentThan u other \<longleftrightarrow> UrgencyLevel_GetLevel u > UrgencyLevel_GetLevel other"

type_synonym BusinessCategory = string

abbreviation BusinessCategoryCustomer :: BusinessCategory where "BusinessCategoryCustomer \<equiv> ''customer''"
abbreviation BusinessCategorySales :: BusinessCategory where "BusinessCategorySales \<equiv> ''sales''"
abbreviation BusinessCategoryTechnical :: BusinessCategory where "BusinessCategoryTechnical \<equiv> ''technical''"
abbreviation BusinessCategoryFinance :: BusinessCategory where "BusinessCategoryFinance \<equiv> ''finance''"
abbreviation BusinessCategorySecurity :: BusinessCategory where "BusinessCategorySecurity \<equiv> ''security''"

definition GetCategoryType :: "BusinessCategory \<Rightarrow> string" where
  "GetCategoryType b = b"

section \<open>Classification scores\<close>

record MessageClassification =
  mc_Type :: MessageType
  mc_Priority :: MessagePriority
  mc_VIPLevel :: VIPLevel
  mc_UrgencyLevel :: UrgencyLevel
  mc_BusinessCategory :: BusinessCategory
  mc_Timestamp :: int
  mc_UserID :: string

definition category_bonus :: "BusinessCategory \<Rightarrow> int" where
  "category_bonus b =
     (if b = BusinessCategorySecurity then 15 else if b = BusinessCategoryFinance then 10
      else if b = BusinessCategoryCustomer then 8 else if b = BusinessCategoryTechnical then 5
      else if b = BusinessCategorySales then 3 else 0)"

definition GetFinalPriority :: "MessageClassification \<Rightarrow> int" where
  "GetFinalPriority mc =
     (let basePriority = GetWeight (mc_Priority mc) * 5;
          vipBonus = VIPLevel_GetLevel (mc_VIPLevel mc) * 5;
          urgencyBonus = UrgencyLevel_GetLevel (mc_UrgencyLevel mc) * 10;
          totalScore = basePriority + vipBonus + urgencyBonus + category_bonus (mc_BusinessCategory mc)
      in if totalScore > 100 then 100 else totalScore)"

definition IsHighPriorityMessage :: "MessageClassification \<Rightarrow> bool" where
  "IsHighPriorityMessage mc \<longleftrightarrow> GetFinalPriority mc \<ge> 70"

definition IsCriticalMessage :: "MessageClassification \<Rightarrow> bool" where
  "IsCriticalMessage mc \<longleftrightarrow>
     GetFinalPriority mc \<ge> 90 \<or> mc_Priority mc = MessagePriorityCritical \<or>
     mc_UrgencyLevel mc = UrgencyLevelHigh \<or>
     GetCategoryType (mc_BusinessCategory mc) = ''security''"

section \<open>Delivery guarantees and delivery modes\<close>

text \<open>
  Both are named integer types: besides the named constants a variable can hold any other
  value of the type (for instance from a decoded frame), the last constructor.
\<close>

datatype DeliveryGuarantee =
    GuaranteeUnset
  | GuaranteeStandard
  | GuaranteeEphemeral
  | GuaranteeGuaranteed
  | GuaranteeAggregatable
  | GuaranteeOther int

definition DeliveryGuarantee_String :: "DeliveryGuarantee \<Rightarrow> string" where
  "DeliveryGuarantee_String g =
     (case g of
        GuaranteeGuaranteed \<Rightarrow> ''guaranteed''
      | GuaranteeStandard \<Rightarrow> ''standard''
      | GuaranteeEphemeral \<Rightarrow> ''ephemeral''
      | GuaranteeAggregatable \<Rightarrow> ''aggregatable''
      | _ \<Rightarrow> ''unset'')"

definition IsExpress :: "DeliveryGuarantee \<Rightarrow> bool" where
  "IsExpress g \<longleftrightarrow> g = GuaranteeEphemeral \<or> g = GuaranteeAggregatable"

definition ClassificationGuaranteedScore :: int where
  "ClassificationGuaranteedScore = 90"

definition guaranteeTypeDefaults :: "(MessageType, DeliveryGuarantee) gomap" where
  "guaranteeTypeDefaults =
     [(MessageTypeKickOut, GuaranteeGuaranteed),
      (MessageTypeForceOffline, GuaranteeGuaranteed),
      (MessageTypeTerminate, GuaranteeGuaranteed),
      (MessageTypeConnectionRejected, GuaranteeGuaranteed),
      (MessageTypeConnectionError, GuaranteeGuaranteed),
      (MessageTypeConnectionTimeout, GuaranteeGuaranteed),
      (MessageTypeAck, GuaranteeGuaranteed),
      (MessageTypeRecall, GuaranteeGuaranteed),
      (MessageTypePayment, GuaranteeGuaranteed),
      (MessageTypeOrder, GuaranteeGuaranteed),
      (MessageTypeAlert, GuaranteeGuaranteed),
      (MessageTypeTyping, GuaranteeEphemeral),
      (MessageTypeRead, GuaranteeEphemeral),
      (MessageTypeDelivered, GuaranteeEphemeral),
      (MessageTypeReaction, GuaranteeEphemeral),
      (MessageTypeUserStatusChanged, GuaranteeEphemeral),
      (MessageTypeHeartbeat, GuaranteeEphemeral),
      (MessageTypeStream, GuaranteeAggregatable)]"

definition GuaranteeForType :: "MessageType \<Rightarrow> DeliveryGuarantee option" where
  "GuaranteeForType mt = map_of guaranteeTypeDefaults mt"

datatype DeliveryMode =
    DeliveryModeP2P
  | DeliveryModeGroupReliable
  | DeliveryModeGroupBroadcast
  | DeliveryModeNamespace
  | DeliveryModeGlobal
  | DeliveryModeOther int

definition DeliveryMode_String :: "DeliveryMode \<Rightarrow> string" where
  "DeliveryMode_String m =
     (case m of
        DeliveryModeP2P \<Rightarrow> ''p2p''
      | DeliveryModeGroupReliable \<Rightarrow> ''group_reliable''
      | DeliveryModeGroupBroadcast \<Rightarrow> ''group_broadcast''
      | DeliveryModeNamespace \<Rightarrow> ''namespace''
      | DeliveryModeGlobal \<Rightarrow> ''global''
      | _ \<Rightarrow> ''unknown'')"

section \<open>Lemmas\<close>

lemma VIPLevel_GetLevel_range: "0 \<le> VIPLevel_GetLevel v \<and> VIPLevel_GetLevel v \<le> 8"
  by (simp add: VIPLevel_GetLevel_def)

lemma VIPLevel_GetLevel_top: "VIPLevel_GetLevel v = 8 \<longleftrightarrow> v = VIPLevelV8"
  by (simp add: VIPLevel_GetLevel_def)

lemma UrgencyLevel_GetLevel_range: "0 \<le> UrgencyLevel_GetLevel u \<and> UrgencyLevel_GetLevel u \<le> 2"
  by (simp add: UrgencyLevel_GetLevel_def)

lemma UrgencyLevel_GetLevel_top: "UrgencyLevel_GetLevel u = 2 \<longleftrightarrow> u = UrgencyLevelHigh"
  by (simp add: UrgencyLevel_GetLevel_def)

lemma category_bonus_range: "0 \<le> category_bonus b \<and> category_bonus b \<le> 15"
  by (simp add: category_bonus_def)

lemma category_bonus_top: "category_bonus b = 15 \<longleftrightarrow> b = BusinessCategorySecurity"
  by (simp add: category_bonus_def)

lemma GetDefaultPriority_range: "1 \<le> GetDefaultPriority t \<and> GetDefaultPriority t \<le> 5"
  by (simp only: GetDefaultPriority_def split: if_split) simp

lemma GuaranteeForType_never_unset: "GuaranteeForType t \<noteq> Some GuaranteeUnset"
  by (simp add: GuaranteeForType_def guaranteeTypeDefaults_def)

text \<open>The counting loop adds to each field the number of types with that priority.\<close>

definition priority_count :: "MessagePriority \<Rightarrow> MessageType list \<Rightarrow> int" where
  "priority_count p ts = int (length (filter (\<lambda>t. GetDefaultPriority t = p) ts))"

lemma fold_count_priority:
  "fold count_priority ts stats =
     stats\<lparr>ps_Critical := ps_Critical stats + priority_count MessagePriorityCritical ts,
           ps_Urgent := ps_Urgent stats + priority_count MessagePriorityUrgent ts,
           ps_High := ps_High stats + priority_count MessagePriorityHigh ts,
           ps_Normal := ps_Normal stats + priority_count MessagePriorityNormal ts,
           ps_Low := ps_Low stats + priority_count MessagePriorityLow ts,
           ps_Total := ps_Total stats + int (length ts)\<rparr>"
  by (induction ts arbitrary: stats) (simp_all add: priority_count_def count_priority_def Let_def)

lemma priority_count_total:
  "priority_count MessagePriorityCritical ts + priority_count MessagePriorityUrgent ts +
   priority_count MessagePriorityHigh ts + priority_count MessagePriorityNormal ts +
   priority_count MessagePriorityLow ts = int (length ts)"
proof (induction ts)
  case Nil
  then show ?case by (simp add: priority_count_def)
next
  case (Cons t ts)
  have "GetDefaultPriority t \<in> {1, 2, 3, 4, 5}"
    using GetDefaultPriority_range [of t] by auto
  with Cons show ?case by (auto simp: priority_count_def)
qed

section \<open>Properties\<close>

text \<open>The classification score.  For the five declared priorities the score lies between 5 and 100
  (so the cap never cuts and the floor of 50 that the comment names does not exist), it is 100 only for
  the maximum in all four dimensions, and a score of at least 90 is always a critical message.\<close>

theorem final_priority_bounds:
  assumes "MessagePriorityLow \<le> mc_Priority mc" and "mc_Priority mc \<le> MessagePriorityCritical"
  shows "5 \<le> GetFinalPriority mc \<and> GetFinalPriority mc \<le> 100 \<and>
         GetFinalPriority mc = GetWeight (mc_Priority mc) * 5 + VIPLevel_GetLevel (mc_VIPLevel mc) * 5 +
           UrgencyLevel_GetLevel (mc_UrgencyLevel mc) * 10 + category_bonus (mc_BusinessCategory mc) \<and>
         (GetFinalPriority mc = 100 \<longleftrightarrow>
            mc_Priority mc = MessagePriorityCritical \<and> mc_VIPLevel mc = VIPLevelV8 \<and>
            mc_UrgencyLevel mc = UrgencyLevelHigh \<and> mc_BusinessCategory mc = BusinessCategorySecurity)"
proof -
  note r = VIPLevel_GetLevel_range [of "mc_VIPLevel mc"]
    UrgencyLevel_GetLevel_range [of "mc_UrgencyLevel mc"] category_bonus_range [of "mc_BusinessCategory mc"]
  have eq: "GetFinalPriority mc = GetWeight (mc_Priority mc) * 5 + VIPLevel_GetLevel (mc_VIPLevel mc) * 5 +
           UrgencyLevel_GetLevel (mc_UrgencyLevel mc) * 10 + category_bonus (mc_BusinessCategory mc)"
    using r assms by (simp add: GetFinalPriority_def GetWeight_def Let_def)
  have "GetFinalPriority mc = 100 \<longleftrightarrow>
      mc_Priority mc = 5 \<and> VIPLevel_GetLevel (mc_VIPLevel mc) = 8 \<and>
      UrgencyLevel_GetLevel (mc_UrgencyLevel mc) = 2 \<and> category_bonus (mc_BusinessCategory mc) = 15"
    unfolding eq GetWeight_def using r assms by linarith
  then show ?thesis
    unfolding VIPLevel_GetLevel_top UrgencyLevel_GetLevel_top category_bonus_top
    using r assms eq by (simp add: GetWeight_def)
qed

theorem final_priority_bounds_witness:
  "5 \<le> GetFinalPriority \<lparr>mc_Type = MessageTypeText, mc_Priority = MessagePriorityLow, mc_VIPLevel = ''x'',
     mc_UrgencyLevel = UrgencyLevelLow, mc_BusinessCategory = ''it'', mc_Timestamp = 0, mc_UserID = ''''\<rparr>"
  by (rule final_priority_bounds [THEN conjunct1]) simp_all

text \<open>Valid types and delivery levels.  Of the message types with a default delivery level exactly
  \<open>stream\<close>, the type that declares aggregation, is rejected by \<open>IsValid\<close>; so is \<open>group_changed\<close>, and
  neither is in the list of all types.\<close>

theorem stream_type_invalid:
  "filter (\<lambda>(t, g). \<not> MessageType_IsValid t) guaranteeTypeDefaults = [(MessageTypeStream, GuaranteeAggregatable)] \<and>
   \<not> MessageType_IsValid MessageTypeGroupChanged \<and>
   MessageTypeStream \<notin> set GetAllMessageTypes \<and> MessageTypeGroupChanged \<notin> set GetAllMessageTypes"
  by (simp add: MessageType_IsValid_def guaranteeTypeDefaults_def GetAllMessageTypes_def)

text \<open>Priority statistics.  Every field of \<open>GetPriorityStats\<close> is the number of types that
  \<open>GetMessageTypesByPriority\<close> returns for that priority, and the five fields add up to the total,
  the number of all types.\<close>

theorem priority_stats_consistent:
  "ps_Critical GetPriorityStats = int (length (GetMessageTypesByPriority MessagePriorityCritical)) \<and>
   ps_Urgent GetPriorityStats = int (length (GetMessageTypesByPriority MessagePriorityUrgent)) \<and>
   ps_High GetPriorityStats = int (length (GetMessageTypesByPriority MessagePriorityHigh)) \<and>
   ps_Normal GetPriorityStats = int (length (GetMessageTypesByPriority MessagePriorityNormal)) \<and>
   ps_Low GetPriorityStats = int (length (GetMessageTypesByPriority MessagePriorityLow)) \<and>
   ps_Critical GetPriorityStats + ps_Urgent GetPriorityStats + ps_High GetPriorityStats +
     ps_Normal GetPriorityStats + ps_Low GetPriorityStats = ps_Total GetPriorityStats \<and>
   ps_Total GetPriorityStats = int (length GetAllMessageTypes)"
  using priority_count_total [of GetAllMessageTypes]
  by (simp add: GetPriorityStats_def fold_count_priority priority_count_def GetMessageTypesByPriority_def)

end
