(* ===== verification/Routing.thy ===== *)
theory Routing
  imports Message_Types
begin

text \<open>
  The routing envelope of a request: routing/route.go, routing/propagation.go and the default
  values of constants/normalize.go, constants/route.go and constants/metadata.go.

  \<^item> A \<open>context.Context\<close> is the record of the values the sources store under their keys:
    the routing metadata, the fan-out mark, the trace id (under the key of the logging package)
    and the gRPC metadata in both directions.
    \<open>context.WithValue\<close> with the same key shadows the earlier value, an update of the field.
  \<^item> A Go slice is \<open>'a list option\<close>: \<open>nil\<close> and the empty slice are different values of which
    \<open>len\<close> and \<open>range\<close> see the same list (\<open>slice\<close>).
  \<^item> The gRPC metadata package is not part of the repository: its three operations are the
    parameter \<open>MDOps\<close>, what the code relies on is the hypothesis \<open>md_laws\<close>.
\<close>

section \<open>Default values\<close>

definition DefaultAppID :: string where "DefaultAppID = ''__default_app__''"
definition DefaultNamespace :: string where "DefaultNamespace = ''__default_ns__''"
definition DefaultGroupID :: string where "DefaultGroupID = ''__default_gp__''"

definition NormalizeAppID :: "string \<Rightarrow> string" where
  "NormalizeAppID s = (if s = [] then DefaultAppID else s)"

definition NormalizeNamespace :: "string \<Rightarrow> string" where
  "NormalizeNamespace s = (if s = [] then DefaultNamespace else s)"

definition NormalizeGroupID :: "string \<Rightarrow> string" where
  "NormalizeGroupID s = (if s = [] then DefaultGroupID else s)"

section \<open>Context and routes\<close>

type_synonym GoSlice = "string list option"

definition slice :: "GoSlice \<Rightarrow> string list" where
  "slice gs = (case gs of None \<Rightarrow> [] | Some xs \<Rightarrow> xs)"

text \<open>\<open>append(gs, x)\<close> on a slice.\<close>

definition slice_append :: "GoSlice \<Rightarrow> string \<Rightarrow> GoSlice" where
  "slice_append gs x = Some (slice gs @ [x])"

text \<open>\<open>append([]string(nil), gs...)\<close>: a copy; copying an empty slice gives \<open>nil\<close>.\<close>

definition slice_copy :: "GoSlice \<Rightarrow> GoSlice" where
  "slice_copy gs = (if slice gs = [] then None else Some (slice gs))"

record RoutingContext =
  rc_AppID :: string
  rc_Namespace :: string
  rc_GroupIDs :: GoSlice

record 'md GoContext =
  cx_routing :: "RoutingContext option"
  cx_fanout :: bool
  cx_trace :: "string option"
  cx_outgoing :: "'md option"
  cx_incoming :: "'md option"

definition WithFanoutSourced :: "'md GoContext \<Rightarrow> 'md GoContext" where
  "WithFanoutSourced ctx = ctx\<lparr>cx_fanout := True\<rparr>"

definition IsFanoutSourced :: "'md GoContext option \<Rightarrow> bool" where
  "IsFanoutSourced ctx = (case ctx of None \<Rightarrow> False | Some c \<Rightarrow> cx_fanout c)"

definition NormalizeRoute :: "string \<Rightarrow> string \<Rightarrow> string \<times> string" where
  "NormalizeRoute appID namespace = (NormalizeAppID appID, NormalizeNamespace namespace)"

record Route =
  r_appID :: string
  r_namespace :: string
  r_groupIDs :: GoSlice

definition NewRoute :: Route where
  "NewRoute = \<lparr>r_appID = [], r_namespace = [], r_groupIDs = None\<rparr>"

definition RoutingFromContext :: "'md GoContext \<Rightarrow> RoutingContext option" where
  "RoutingFromContext ctx = cx_routing ctx"

definition RouteFrom :: "'md GoContext \<Rightarrow> Route" where
  "RouteFrom ctx =
     (case RoutingFromContext ctx of
        Some rc \<Rightarrow> \<lparr>r_appID = rc_AppID rc, r_namespace = rc_Namespace rc,
                    r_groupIDs = (if rc_GroupIDs rc \<noteq> None then slice_copy (rc_GroupIDs rc) else None)\<rparr>
      | None \<Rightarrow> NewRoute)"

definition Route_WithAppID :: "string \<Rightarrow> Route \<Rightarrow> Route" where
  "Route_WithAppID appID r = r\<lparr>r_appID := appID\<rparr>"

definition Route_WithNamespace :: "string \<Rightarrow> Route \<Rightarrow> Route" where
  "Route_WithNamespace namespace r = r\<lparr>r_namespace := namespace\<rparr>"

definition Route_WithGroupIDs :: "GoSlice \<Rightarrow> Route \<Rightarrow> Route" where
  "Route_WithGroupIDs groupIDs r = r\<lparr>r_groupIDs := groupIDs\<rparr>"

definition Route_WithGroup :: "string \<Rightarrow> Route \<Rightarrow> Route" where
  "Route_WithGroup groupID r = r\<lparr>r_groupIDs := slice_append (r_groupIDs r) groupID\<rparr>"

definition Inject :: "Route \<Rightarrow> 'md GoContext \<Rightarrow> 'md GoContext" where
  "Inject r ctx =
     (let appID = NormalizeAppID (r_appID r);
          fresh = ctx\<lparr>cx_routing := Some \<lparr>rc_AppID = appID, rc_Namespace = r_namespace r,
                                         rc_GroupIDs = r_groupIDs r\<rparr>\<rparr>
      in case RoutingFromContext ctx of
           Some cur \<Rightarrow>
             if rc_AppID cur = appID \<and> rc_Namespace cur = r_namespace r \<and>
                slice (rc_GroupIDs cur) = slice (r_groupIDs r)
             then ctx else fresh
         | None \<Rightarrow> fresh)"

definition EnsureRouteDefaults :: "'md GoContext \<Rightarrow> 'md GoContext" where
  "EnsureRouteDefaults ctx =
     (let r = RouteFrom ctx;
          (appID, ns) = NormalizeRoute (r_appID r) (r_namespace r)
      in ctx\<lparr>cx_routing := Some \<lparr>rc_AppID = appID, rc_Namespace = ns, rc_GroupIDs = r_groupIDs r\<rparr>\<rparr>)"

section \<open>Extraction\<close>

definition AppIDFromContext :: "'md GoContext \<Rightarrow> string" where
  "AppIDFromContext ctx =
     (case RoutingFromContext ctx of Some rc \<Rightarrow> NormalizeAppID (rc_AppID rc) | None \<Rightarrow> DefaultAppID)"

definition NamespaceFromContext :: "'md GoContext \<Rightarrow> string" where
  "NamespaceFromContext ctx =
     (case RoutingFromContext ctx of Some rc \<Rightarrow> rc_Namespace rc | None \<Rightarrow> [])"

definition GroupIDsFromContext :: "'md GoContext \<Rightarrow> GoSlice" where
  "GroupIDsFromContext ctx =
     (case RoutingFromContext ctx of Some rc \<Rightarrow> rc_GroupIDs rc | None \<Rightarrow> None)"

definition FirstGroupIDFromContext :: "'md GoContext \<Rightarrow> string" where
  "FirstGroupIDFromContext ctx =
     (let gids = slice (GroupIDsFromContext ctx) in if length gids > 0 then gids ! 0 else [])"

section \<open>Propagation through gRPC metadata\<close>

text \<open>\<open>strings.Join(xs, sep)\<close> and \<open>strings.Split(s, sep)\<close> for a one-character separator.\<close>

fun join_str :: "char \<Rightarrow> string list \<Rightarrow> string" where
  "join_str sep [] = []"
| "join_str sep [x] = x"
| "join_str sep (x # y # zs) = x @ sep # join_str sep (y # zs)"

fun split_str :: "char \<Rightarrow> string \<Rightarrow> string list" where
  "split_str sep [] = [[]]"
| "split_str sep (c # cs) =
     (if c = sep then [] # split_str sep cs
      else (case split_str sep cs of [] \<Rightarrow> [[c]] | w # ws \<Rightarrow> (c # w) # ws))"

definition comma :: char where "comma = CHR '',''"

definition MetadataKeyAppID :: string where "MetadataKeyAppID = ''x-routing-app-id''"
definition MetadataKeyNamespace :: string where "MetadataKeyNamespace = ''x-routing-namespace''"
definition MetadataKeyGroupIDs :: string where "MetadataKeyGroupIDs = ''x-routing-group-ids''"

text \<open>The operations of the gRPC metadata package that the code calls.\<close>

record 'md MDOps =
  md_new :: 'md
  md_set :: "string \<Rightarrow> string \<Rightarrow> 'md \<Rightarrow> 'md"
  md_get :: "string \<Rightarrow> 'md \<Rightarrow> string list"

definition md_laws :: "'md MDOps \<Rightarrow> bool" where
  "md_laws ops \<longleftrightarrow>
     (\<forall>k. md_get ops k (md_new ops) = []) \<and>
     (\<forall>k v md. md_get ops k (md_set ops k v md) = [v]) \<and>
     (\<forall>k k' v md. k' \<noteq> k \<longrightarrow> md_get ops k' (md_set ops k v md) = md_get ops k' md)"

definition routing_pairs :: "RoutingContext \<Rightarrow> (string \<times> string) list" where
  "routing_pairs rc =
     (if rc_AppID rc \<noteq> [] then [(MetadataKeyAppID, rc_AppID rc)] else []) @
     (if rc_Namespace rc \<noteq> [] then [(MetadataKeyNamespace, rc_Namespace rc)] else []) @
     (if length (slice (rc_GroupIDs rc)) > 0
      then [(MetadataKeyGroupIDs, join_str comma (slice (rc_GroupIDs rc)))] else [])"

definition InjectToOutgoingMetadata :: "'md MDOps \<Rightarrow> 'md GoContext \<Rightarrow> 'md GoContext" where
  "InjectToOutgoingMetadata ops ctx =
     (case RoutingFromContext ctx of
        None \<Rightarrow> ctx
      | Some rc \<Rightarrow>
          let pairs = routing_pairs rc
          in if length pairs = 0 then ctx
             else let md = (case cx_outgoing ctx of Some md \<Rightarrow> md | None \<Rightarrow> md_new ops)
                  in ctx\<lparr>cx_outgoing := Some (fold (\<lambda>(k, v). md_set ops k v) pairs md)\<rparr>)"

definition RestoreFromIncomingMetadata :: "'md MDOps \<Rightarrow> 'md GoContext \<Rightarrow> 'md GoContext" where
  "RestoreFromIncomingMetadata ops ctx =
     (case cx_incoming ctx of
        None \<Rightarrow> ctx
      | Some md \<Rightarrow>
          let r = NewRoute;
              vals = md_get ops MetadataKeyAppID md;
              r = (if length vals > 0 then Route_WithAppID (NormalizeAppID (vals ! 0)) r else r);
              vals = md_get ops MetadataKeyNamespace md;
              r = (if length vals > 0 then Route_WithNamespace (vals ! 0) r else r);
              vals = md_get ops MetadataKeyGroupIDs md;
              r = (if length vals > 0 \<and> vals ! 0 \<noteq> []
                   then Route_WithGroupIDs (Some (split_str comma (vals ! 0))) r else r)
          in Inject r ctx)"

section \<open>Lemmas\<close>

lemma NormalizeAppID_idem [simp]: "NormalizeAppID (NormalizeAppID s) = NormalizeAppID s"
  by (simp add: NormalizeAppID_def)

lemma NormalizeAppID_nonempty [simp]: "NormalizeAppID s \<noteq> []"
  by (simp add: NormalizeAppID_def DefaultAppID_def)

lemma NormalizeNamespace_nonempty [simp]: "NormalizeNamespace s \<noteq> []"
  by (simp add: NormalizeNamespace_def DefaultNamespace_def)

lemma slice_simps [simp]: "slice None = []" "slice (Some xs) = xs" "slice (slice_copy gs) = slice gs"
  by (auto simp: slice_def slice_copy_def split: option.split)

text \<open>What the extraction functions see after an injection, short cut or not.\<close>

lemma after_Inject [record_simps]:
  "AppIDFromContext (Inject r ctx) = NormalizeAppID (r_appID r)"
  "NamespaceFromContext (Inject r ctx) = r_namespace r"
  "slice (GroupIDsFromContext (Inject r ctx)) = slice (r_groupIDs r)"
  by (auto simp: Inject_def AppIDFromContext_def NamespaceFromContext_def GroupIDsFromContext_def
        RoutingFromContext_def Let_def split: option.split)

lemma split_str_not_Nil [simp]: "split_str sep s \<noteq> []"
  by (cases s) (auto split: list.split)

lemma split_str_no_sep: "w \<in> set (split_str sep s) \<Longrightarrow> sep \<notin> set w"
proof (induction s arbitrary: w)
  case Nil
  then show ?case by simp
next
  case (Cons c cs)
  then show ?case by (cases "split_str sep cs") (auto split: if_splits)
qed

lemma split_str_append:
  "sep \<notin> set w \<Longrightarrow> split_str sep (w @ sep # s) = w # split_str sep s"
  by (induction w) auto

lemma split_str_word: "sep \<notin> set w \<Longrightarrow> split_str sep w = [w]"
  by (induction w) auto

lemma split_join:
  "xs \<noteq> [] \<Longrightarrow> (\<forall>x\<in>set xs. sep \<notin> set x) \<Longrightarrow> split_str sep (join_str sep xs) = xs"
  by (induction sep xs rule: join_str.induct) (auto simp: split_str_append split_str_word)

text \<open>The round trip holds exactly for lists without the separator.\<close>

lemma split_join_iff:
  "xs \<noteq> [] \<Longrightarrow> split_str sep (join_str sep xs) = xs \<longleftrightarrow> (\<forall>x\<in>set xs. sep \<notin> set x)"
  using split_join split_str_no_sep by metis

lemma join_str_Nil_iff: "join_str sep xs = [] \<longleftrightarrow> xs = [] \<or> xs = [[]]"
  by (cases "(sep, xs)" rule: join_str.cases) auto

lemma metadata_keys_distinct [simp]:
  "MetadataKeyAppID \<noteq> MetadataKeyNamespace" "MetadataKeyNamespace \<noteq> MetadataKeyAppID"
  "MetadataKeyAppID \<noteq> MetadataKeyGroupIDs" "MetadataKeyGroupIDs \<noteq> MetadataKeyAppID"
  "MetadataKeyNamespace \<noteq> MetadataKeyGroupIDs" "MetadataKeyGroupIDs \<noteq> MetadataKeyNamespace"
  by (simp_all add: MetadataKeyAppID_def MetadataKeyNamespace_def MetadataKeyGroupIDs_def)

lemma md_get_new: "md_laws ops \<Longrightarrow> md_get ops k (md_new ops) = []"
  by (simp add: md_laws_def)

lemma md_get_set:
  "md_laws ops \<Longrightarrow> md_get ops k' (md_set ops k v md) = (if k' = k then [v] else md_get ops k' md)"
  by (simp add: md_laws_def)

text \<open>What the receiver finds under the three keys.\<close>

lemma outgoing_routing:
  assumes laws: "md_laws ops" and rc: "RoutingFromContext ctx = Some rc"
    and fresh: "cx_outgoing ctx = None" and app: "rc_AppID rc \<noteq> []"
  obtains md where "cx_outgoing (InjectToOutgoingMetadata ops ctx) = Some md"
    and "md_get ops MetadataKeyAppID md = [rc_AppID rc]"
    and "md_get ops MetadataKeyNamespace md = (if rc_Namespace rc = [] then [] else [rc_Namespace rc])"
    and "md_get ops MetadataKeyGroupIDs md =
      (if slice (rc_GroupIDs rc) = [] then [] else [join_str comma (slice (rc_GroupIDs rc))])"
proof (rule that)
  let ?md = "fold (\<lambda>(k, v). md_set ops k v) (routing_pairs rc) (md_new ops)"
  show "cx_outgoing (InjectToOutgoingMetadata ops ctx) = Some ?md"
    using rc fresh app by (simp add: InjectToOutgoingMetadata_def routing_pairs_def)
  show "md_get ops MetadataKeyAppID ?md = [rc_AppID rc]"
    using app by (simp add: routing_pairs_def md_get_set [OF laws] md_get_new [OF laws])
  show "md_get ops MetadataKeyNamespace ?md = (if rc_Namespace rc = [] then [] else [rc_Namespace rc])"
    using app by (simp add: routing_pairs_def md_get_set [OF laws] md_get_new [OF laws])
  show "md_get ops MetadataKeyGroupIDs ?md =
      (if slice (rc_GroupIDs rc) = [] then [] else [join_str comma (slice (rc_GroupIDs rc))])"
    using app by (simp add: routing_pairs_def md_get_set [OF laws] md_get_new [OF laws])
qed

lemma RouteFrom_Ensure [record_simps]:
  "RoutingFromContext (EnsureRouteDefaults ctx) =
     Some \<lparr>rc_AppID = NormalizeAppID (r_appID (RouteFrom ctx)),
           rc_Namespace = NormalizeNamespace (r_namespace (RouteFrom ctx)),
           rc_GroupIDs = r_groupIDs (RouteFrom ctx)\<rparr>"
  by (simp add: EnsureRouteDefaults_def RoutingFromContext_def NormalizeRoute_def Let_def)

section \<open>Properties\<close>

text \<open>Crossing a node boundary.  A routing context with an application id that one node puts
  into fresh outgoing metadata and another node restores arrives with the same application and
  namespace; the group ids arrive unchanged exactly when no group id contains the separating
  comma and the list is not the single empty id.\<close>

theorem routing_metadata_roundtrip:
  assumes "md_laws ops" and "RoutingFromContext sender = Some rc" and "rc_AppID rc \<noteq> []"
    and "cx_outgoing sender = None"
    and "cx_incoming receiver = cx_outgoing (InjectToOutgoingMetadata ops sender)"
  shows "AppIDFromContext (RestoreFromIncomingMetadata ops receiver) = rc_AppID rc \<and>
         NamespaceFromContext (RestoreFromIncomingMetadata ops receiver) = rc_Namespace rc \<and>
         (slice (GroupIDsFromContext (RestoreFromIncomingMetadata ops receiver)) = slice (rc_GroupIDs rc)
          \<longleftrightarrow> (\<forall>g\<in>set (slice (rc_GroupIDs rc)). comma \<notin> set g) \<and> slice (rc_GroupIDs rc) \<noteq> [[]])"
proof -
  obtain md where md: "cx_incoming receiver = Some md"
      "md_get ops MetadataKeyAppID md = [rc_AppID rc]"
      "md_get ops MetadataKeyNamespace md = (if rc_Namespace rc = [] then [] else [rc_Namespace rc])"
      "md_get ops MetadataKeyGroupIDs md =
        (if slice (rc_GroupIDs rc) = [] then [] else [join_str comma (slice (rc_GroupIDs rc))])"
    using outgoing_routing [OF assms(1,2,4,3)] assms(5) by metis
  have norm: "NormalizeAppID (rc_AppID rc) = rc_AppID rc"
    using assms(3) by (simp add: NormalizeAppID_def)
  have gs: "slice (GroupIDsFromContext (RestoreFromIncomingMetadata ops receiver)) =
      (if join_str comma (slice (rc_GroupIDs rc)) = [] then []
       else split_str comma (join_str comma (slice (rc_GroupIDs rc))))"
    using md by (simp add: RestoreFromIncomingMetadata_def Let_def record_simps
        Route_WithAppID_def Route_WithNamespace_def Route_WithGroupIDs_def NewRoute_def)
  have "slice (GroupIDsFromContext (RestoreFromIncomingMetadata ops receiver)) = slice (rc_GroupIDs rc)
      \<longleftrightarrow> (\<forall>g\<in>set (slice (rc_GroupIDs rc)). comma \<notin> set g) \<and> slice (rc_GroupIDs rc) \<noteq> [[]]"
    unfolding gs by (auto simp: join_str_Nil_iff split_join_iff)
  with md norm show ?thesis
    by (simp add: RestoreFromIncomingMetadata_def Let_def record_simps
        Route_WithAppID_def Route_WithNamespace_def Route_WithGroupIDs_def NewRoute_def)
qed

text \<open>Route normalisation.  \<open>EnsureRouteDefaults\<close> leaves no empty application or namespace,
  keeps the group ids, and applying it again changes nothing; injecting a route makes the
  extraction functions return it with the normalised application id, and injecting the same
  route again changes nothing.\<close>

theorem route_normalisation:
  "EnsureRouteDefaults (EnsureRouteDefaults ctx) = EnsureRouteDefaults ctx \<and>
   AppIDFromContext (EnsureRouteDefaults ctx) = AppIDFromContext ctx \<and>
   NamespaceFromContext (EnsureRouteDefaults ctx) = NormalizeNamespace (NamespaceFromContext ctx) \<and>
   slice (GroupIDsFromContext (EnsureRouteDefaults ctx)) = slice (GroupIDsFromContext ctx) \<and>
   AppIDFromContext (Inject r ctx) = NormalizeAppID (r_appID r) \<and>
   NamespaceFromContext (Inject r ctx) = r_namespace r \<and>
   slice (GroupIDsFromContext (Inject r ctx)) = slice (r_groupIDs r) \<and>
   Inject r (Inject r ctx) = Inject r ctx"
proof -
  have "Inject r (Inject r ctx) = Inject r ctx"
    by (auto simp: Inject_def RoutingFromContext_def Let_def split: option.split)
  moreover have "EnsureRouteDefaults (EnsureRouteDefaults ctx) = EnsureRouteDefaults ctx"
    by (auto simp: EnsureRouteDefaults_def RouteFrom_def RoutingFromContext_def NormalizeRoute_def
        NewRoute_def Let_def NormalizeAppID_def NormalizeNamespace_def DefaultAppID_def
        DefaultNamespace_def slice_copy_def split: option.split)
  moreover have "AppIDFromContext (EnsureRouteDefaults ctx) = AppIDFromContext ctx"
    "NamespaceFromContext (EnsureRouteDefaults ctx) = NormalizeNamespace (NamespaceFromContext ctx)"
    "slice (GroupIDsFromContext (EnsureRouteDefaults ctx)) = slice (GroupIDsFromContext ctx)"
    by (auto simp: AppIDFromContext_def NamespaceFromContext_def GroupIDsFromContext_def record_simps
        RouteFrom_def NewRoute_def NormalizeAppID_def split: option.split)
  ultimately show ?thesis by (simp add: record_simps)
qed

text \<open>An association list satisfies the laws of the metadata package.\<close>

definition alist_md :: "(string, string list) gomap MDOps" where
  "alist_md = \<lparr>md_new = [], md_set = (\<lambda>k v. AList.update k [v]),
               md_get = (\<lambda>k md. case map_of md k of None \<Rightarrow> [] | Some vs \<Rightarrow> vs)\<rparr>"

lemma alist_md_laws: "md_laws alist_md"
  by (simp add: md_laws_def alist_md_def map_of_update)

definition demo_rc :: RoutingContext where
  "demo_rc = \<lparr>rc_AppID = ''shop'', rc_Namespace = ''eu'', rc_GroupIDs = Some [''a'', ''b,c'']\<rparr>"

definition demo_sender :: "(string, string list) gomap GoContext" where
  "demo_sender = \<lparr>cx_routing = Some demo_rc, cx_fanout = False, cx_trace = None, cx_outgoing = None, cx_incoming = None\<rparr>"

definition demo_receiver :: "(string, string list) gomap GoContext" where
  "demo_receiver = \<lparr>cx_routing = None, cx_fanout = False, cx_trace = None, cx_outgoing = None,
     cx_incoming = cx_outgoing (InjectToOutgoingMetadata alist_md demo_sender)\<rparr>"

theorem routing_metadata_roundtrip_witness:
  "AppIDFromContext (RestoreFromIncomingMetadata alist_md demo_receiver) = ''shop'' \<and>
   NamespaceFromContext (RestoreFromIncomingMetadata alist_md demo_receiver) = ''eu'' \<and>
   slice (GroupIDsFromContext (RestoreFromIncomingMetadata alist_md demo_receiver)) \<noteq> [''a'', ''b,c'']"
  using routing_metadata_roundtrip [OF alist_md_laws, of demo_sender demo_rc demo_receiver]
  by (simp add: demo_rc_def demo_sender_def demo_receiver_def RoutingFromContext_def comma_def)

end
