(* ===== verification/Message.thy ===== *)
theory Message
  imports Routing
begin

text \<open>
  The message of the hub: models/message.go and the decision tree of
  models/delivery_guarantee.go.

  \<^item> \<open>HubMessage\<close> is the struct.  Its lock is not modelled: each method is one atomic step.
  \<^item> \<open>Data\<close> is a \<open>map[string]any\<close>, a reference to a mutable map that messages can share, and
    the sub maps in it (metadata, content_extra) are references too.  The maps live in an
    explicit heap \<open>DataHeap\<close>; methods that touch \<open>Data\<close> take and return the heap.  This is what
    the difference between \<open>Clone\<close> and \<open>CloneForFanout\<close> is about.
  \<^item> Writing into a nil map is a run-time panic: \<open>None\<close>.
  \<^item> The JSON encoder, the logging package's trace extraction and its context constructor are
    parameters.
\<close>

section \<open>Data\<close>

text \<open>
  A value of type \<open>any\<close>: nil, a string, a \<open>map[string]any\<close> (\<open>None\<close>: a nil map), a
  \<open>*MessageClassification\<close> (\<open>None\<close>: a nil pointer), or something else.
\<close>

datatype AnyVal =
    ANil
  | AStr string
  | AMap "nat option"
  | AClass "MessageClassification option"
  | AOther nat

record DataHeap =
  dh_next :: nat
  dh_objs :: "nat \<Rightarrow> (string, AnyVal) gomap"

definition dh_alloc :: "DataHeap \<Rightarrow> nat \<times> DataHeap" where
  "dh_alloc h = (dh_next h, h\<lparr>dh_next := Suc (dh_next h), dh_objs := (dh_objs h)(dh_next h := [])\<rparr>)"

definition dh_put :: "nat \<Rightarrow> string \<Rightarrow> AnyVal \<Rightarrow> DataHeap \<Rightarrow> DataHeap" where
  "dh_put a k v h = h\<lparr>dh_objs := (dh_objs h)(a := AList.update k v (dh_objs h a))\<rparr>"

definition DataKeyContentExtra :: string where "DataKeyContentExtra = ''content_extra''"
definition DataKeyMetadata :: string where "DataKeyMetadata = ''metadata''"
definition DataKeyMediaInfo :: string where "DataKeyMediaInfo = ''media_info''"
definition DataKeyClassification :: string where "DataKeyClassification = ''classification''"

abbreviation MessageSourceOnline :: string where "MessageSourceOnline \<equiv> ''online''"
abbreviation MessageSourceOffline :: string where "MessageSourceOffline \<equiv> ''offline''"
abbreviation PushTypeDirect :: string where "PushTypeDirect \<equiv> ''direct''"

record HubMessage =
  hm_ID :: string
  hm_TraceID :: string
  hm_MessageType :: MessageType
  hm_Sender :: string
  hm_SenderName :: string
  hm_SenderType :: UserType
  hm_SenderClient :: string
  hm_Receiver :: string
  hm_ReceiverName :: string
  hm_ReceiverType :: UserType
  hm_ReceiverClient :: string
  hm_ReceiverNode :: string
  hm_SessionID :: string
  hm_Content :: string
  hm_Data :: "nat option"
  hm_CreateAt :: int
  hm_MessageID :: string
  hm_ReplyToMsgID :: string
  hm_SeqNo :: int
  hm_Priority :: Priority
  hm_Source :: string
  hm_PushType :: string
  hm_BroadcastType :: string
  hm_AppID :: string
  hm_Namespace :: string
  hm_GroupIDs :: GoSlice
  hm_DeliveryGuarantee :: DeliveryGuarantee
  hm_RequireAck :: bool
  hm_SkipDatabaseStorage :: bool
  hm_SkipSendToClient :: bool

text \<open>The zero value \<open>HubMessage{}\<close>, and the constructor.\<close>

definition zero_message :: HubMessage where
  "zero_message =
     \<lparr>hm_ID = [], hm_TraceID = [], hm_MessageType = [], hm_Sender = [], hm_SenderName = [],
      hm_SenderType = [], hm_SenderClient = [], hm_Receiver = [], hm_ReceiverName = [],
      hm_ReceiverType = [], hm_ReceiverClient = [], hm_ReceiverNode = [], hm_SessionID = [],
      hm_Content = [], hm_Data = None, hm_CreateAt = 0, hm_MessageID = [], hm_ReplyToMsgID = [],
      hm_SeqNo = 0, hm_Priority = [], hm_Source = [], hm_PushType = [], hm_BroadcastType = [],
      hm_AppID = [], hm_Namespace = [], hm_GroupIDs = None, hm_DeliveryGuarantee = GuaranteeUnset,
      hm_RequireAck = False, hm_SkipDatabaseStorage = False, hm_SkipSendToClient = False\<rparr>"

definition NewHubMessage :: "int \<Rightarrow> DataHeap \<Rightarrow> DataHeap \<times> HubMessage" where
  "NewHubMessage now h =
     (let (d, h) = dh_alloc h
      in (h, zero_message\<lparr>hm_Sender := UserTypeSystem, hm_SenderType := UserTypeSystem,
               hm_CreateAt := now, hm_Data := Some d, hm_PushType := PushTypeDirect,
               hm_Priority := PriorityNormal, hm_Source := MessageSourceOnline\<rparr>))"

section \<open>Setters\<close>

definition SetID :: "string \<Rightarrow> HubMessage \<Rightarrow> HubMessage" where
  "SetID msgID m = m\<lparr>hm_ID := msgID\<rparr>"

definition SetMessageType :: "MessageType \<Rightarrow> HubMessage \<Rightarrow> HubMessage" where
  "SetMessageType messageType m = m\<lparr>hm_MessageType := messageType\<rparr>"

definition SetSender :: "string \<Rightarrow> HubMessage \<Rightarrow> HubMessage" where
  "SetSender sender m = m\<lparr>hm_Sender := sender\<rparr>"

definition SetSenderName :: "string \<Rightarrow> HubMessage \<Rightarrow> HubMessage" where
  "SetSenderName name m = m\<lparr>hm_SenderName := name\<rparr>"

definition SetSenderType :: "UserType \<Rightarrow> HubMessage \<Rightarrow> HubMessage" where
  "SetSenderType senderType m = m\<lparr>hm_SenderType := senderType\<rparr>"

definition SetReceiver :: "string \<Rightarrow> HubMessage \<Rightarrow> HubMessage" where
  "SetReceiver receiver m = m\<lparr>hm_Receiver := receiver\<rparr>"

definition SetReceiverName :: "string \<Rightarrow> HubMessage \<Rightarrow> HubMessage" where
  "SetReceiverName name m = m\<lparr>hm_ReceiverName := name\<rparr>"

definition SetReceiverType :: "UserType \<Rightarrow> HubMessage \<Rightarrow> HubMessage" where
  "SetReceiverType receiverType m = m\<lparr>hm_ReceiverType := receiverType\<rparr>"

definition SetReceiverClient :: "string \<Rightarrow> HubMessage \<Rightarrow> HubMessage" where
  "SetReceiverClient clientID m = m\<lparr>hm_ReceiverClient := clientID\<rparr>"

definition SetReceiverNode :: "string \<Rightarrow> HubMessage \<Rightarrow> HubMessage" where
  "SetReceiverNode nodeID m = m\<lparr>hm_ReceiverNode := nodeID\<rparr>"

definition SetSessionID :: "string \<Rightarrow> HubMessage \<Rightarrow> HubMessage" where
  "SetSessionID sessionID m = m\<lparr>hm_SessionID := sessionID\<rparr>"

definition SetContent :: "string \<Rightarrow> HubMessage \<Rightarrow> HubMessage" where
  "SetContent content m = m\<lparr>hm_Content := content\<rparr>"

definition SetMessageID :: "string \<Rightarrow> HubMessage \<Rightarrow> HubMessage" where
  "SetMessageID messageID m = m\<lparr>hm_MessageID := messageID\<rparr>"

definition SetSeqNo :: "int \<Rightarrow> HubMessage \<Rightarrow> HubMessage" where
  "SetSeqNo seqNo m = m\<lparr>hm_SeqNo := seqNo\<rparr>"

definition SetPriority :: "Priority \<Rightarrow> HubMessage \<Rightarrow> HubMessage" where
  "SetPriority priority m = m\<lparr>hm_Priority := priority\<rparr>"

definition SetReplyToMsgID :: "string \<Rightarrow> HubMessage \<Rightarrow> HubMessage" where
  "SetReplyToMsgID replyToMsgID m = m\<lparr>hm_ReplyToMsgID := replyToMsgID\<rparr>"

definition SetRequireAck :: "bool \<Rightarrow> HubMessage \<Rightarrow> HubMessage" where
  "SetRequireAck requireAck m = m\<lparr>hm_RequireAck := requireAck\<rparr>"

definition SetPushType :: "string \<Rightarrow> HubMessage \<Rightarrow> HubMessage" where
  "SetPushType pushType m = m\<lparr>hm_PushType := pushType\<rparr>"

definition SetBroadcastType :: "string \<Rightarrow> HubMessage \<Rightarrow> HubMessage" where
  "SetBroadcastType broadcastType m = m\<lparr>hm_BroadcastType := broadcastType\<rparr>"

definition SetSkipDatabaseStorage :: "bool \<Rightarrow> HubMessage \<Rightarrow> HubMessage" where
  "SetSkipDatabaseStorage skip m = m\<lparr>hm_SkipDatabaseStorage := skip\<rparr>"

definition SetSkipSendToClient :: "bool \<Rightarrow> HubMessage \<Rightarrow> HubMessage" where
  "SetSkipSendToClient skip m = m\<lparr>hm_SkipSendToClient := skip\<rparr>"

definition SetAppID :: "string \<Rightarrow> HubMessage \<Rightarrow> HubMessage" where
  "SetAppID appID m = m\<lparr>hm_AppID := appID\<rparr>"

definition SetNamespace :: "string \<Rightarrow> HubMessage \<Rightarrow> HubMessage" where
  "SetNamespace ns m = m\<lparr>hm_Namespace := ns\<rparr>"

definition SetGroupIDs :: "GoSlice \<Rightarrow> HubMessage \<Rightarrow> HubMessage" where
  "SetGroupIDs groupIDs m = m\<lparr>hm_GroupIDs := groupIDs\<rparr>"

section \<open>Data access\<close>

text \<open>The first lines of every writer: \<open>if m.Data == nil { m.Data = make(...) }\<close>.\<close>

definition ensure_data :: "DataHeap \<Rightarrow> HubMessage \<Rightarrow> nat \<times> DataHeap \<times> HubMessage" where
  "ensure_data h m =
     (case hm_Data m of
        Some d \<Rightarrow> (d, h, m)
      | None \<Rightarrow> let (d, h) = dh_alloc h in (d, h, m\<lparr>hm_Data := Some d\<rparr>))"

definition data_put :: "string \<Rightarrow> AnyVal \<Rightarrow> DataHeap \<Rightarrow> HubMessage \<Rightarrow> DataHeap \<times> HubMessage" where
  "data_put key value h m = (let (d, h, m) = ensure_data h m in (dh_put d key value h, m))"

definition GetOption :: "string \<Rightarrow> DataHeap \<Rightarrow> HubMessage \<Rightarrow> AnyVal option" where
  "GetOption key h m = (case hm_Data m of None \<Rightarrow> None | Some d \<Rightarrow> map_of (dh_objs h d) key)"

definition WithOption :: "string \<Rightarrow> AnyVal \<Rightarrow> DataHeap \<Rightarrow> HubMessage \<Rightarrow> DataHeap \<times> HubMessage" where
  "WithOption key value h m = data_put key value h m"

definition setMapValue ::
  "string \<Rightarrow> string \<Rightarrow> AnyVal \<Rightarrow> DataHeap \<Rightarrow> HubMessage \<Rightarrow> (DataHeap \<times> HubMessage) option" where
  "setMapValue key subKey value h m =
     (let (d, h, m) = ensure_data h m
      in case map_of (dh_objs h d) key of
           Some (AMap sub) \<Rightarrow>
             (case sub of
                None \<Rightarrow> None
              | Some a \<Rightarrow> Some (dh_put a subKey value h, m))
         | _ \<Rightarrow>
             (let (a, h) = dh_alloc h;
                  h = dh_put d key (AMap (Some a)) h
              in Some (dh_put a subKey value h, m)))"

definition getMapValue :: "string \<Rightarrow> string \<Rightarrow> DataHeap \<Rightarrow> HubMessage \<Rightarrow> AnyVal option" where
  "getMapValue key subKey h m =
     (case hm_Data m of
        None \<Rightarrow> None
      | Some d \<Rightarrow>
          (case map_of (dh_objs h d) key of
             Some (AMap (Some a)) \<Rightarrow> map_of (dh_objs h a) subKey
           | _ \<Rightarrow> None))"

definition WithMediaInfo :: "AnyVal \<Rightarrow> DataHeap \<Rightarrow> HubMessage \<Rightarrow> DataHeap \<times> HubMessage" where
  "WithMediaInfo mediaInfo h m =
     (if mediaInfo = ANil then (h, m) else data_put DataKeyMediaInfo mediaInfo h m)"

definition GetMediaInfo :: "DataHeap \<Rightarrow> HubMessage \<Rightarrow> AnyVal option" where
  "GetMediaInfo h m = (case hm_Data m of None \<Rightarrow> None | Some d \<Rightarrow> map_of (dh_objs h d) DataKeyMediaInfo)"

text \<open>The three \<open>Get...JSON\<close> methods have one body; \<open>marshal\<close> is \<open>json.Marshal\<close> (\<open>None\<close>: an error).\<close>

definition data_json :: "(DataHeap \<Rightarrow> AnyVal \<Rightarrow> string option) \<Rightarrow> string \<Rightarrow> DataHeap \<Rightarrow> HubMessage \<Rightarrow> string" where
  "data_json marshal key h m =
     (case hm_Data m of
        None \<Rightarrow> ''{}''
      | Some d \<Rightarrow>
          (case map_of (dh_objs h d) key of
             None \<Rightarrow> ''{}''
           | Some ANil \<Rightarrow> ''{}''
           | Some (AStr s) \<Rightarrow> s
           | Some v \<Rightarrow> (case marshal h v of Some s \<Rightarrow> s | None \<Rightarrow> ''{}'')))"

definition GetMediaInfoJSON :: "(DataHeap \<Rightarrow> AnyVal \<Rightarrow> string option) \<Rightarrow> DataHeap \<Rightarrow> HubMessage \<Rightarrow> string" where
  "GetMediaInfoJSON marshal = data_json marshal DataKeyMediaInfo"

definition GetContentExtraJSON :: "(DataHeap \<Rightarrow> AnyVal \<Rightarrow> string option) \<Rightarrow> DataHeap \<Rightarrow> HubMessage \<Rightarrow> string" where
  "GetContentExtraJSON marshal = data_json marshal DataKeyContentExtra"

definition GetMetadataJSON :: "(DataHeap \<Rightarrow> AnyVal \<Rightarrow> string option) \<Rightarrow> DataHeap \<Rightarrow> HubMessage \<Rightarrow> string" where
  "GetMetadataJSON marshal = data_json marshal DataKeyMetadata"

definition WithClassification ::
  "MessageClassification option \<Rightarrow> DataHeap \<Rightarrow> HubMessage \<Rightarrow> DataHeap \<times> HubMessage" where
  "WithClassification classification h m =
     (if classification = None then (h, m)
      else data_put DataKeyClassification (AClass classification) h m)"

definition GetClassification :: "DataHeap \<Rightarrow> HubMessage \<Rightarrow> MessageClassification option" where
  "GetClassification h m =
     (case hm_Data m of
        None \<Rightarrow> None
      | Some d \<Rightarrow>
          (case map_of (dh_objs h d) DataKeyClassification of
             Some (AClass c) \<Rightarrow> c
           | _ \<Rightarrow> None))"

definition WithContentExtra ::
  "string \<Rightarrow> AnyVal \<Rightarrow> DataHeap \<Rightarrow> HubMessage \<Rightarrow> (DataHeap \<times> HubMessage) option" where
  "WithContentExtra key value h m = setMapValue DataKeyContentExtra key value h m"

definition WithAllContentExtra :: "AnyVal \<Rightarrow> DataHeap \<Rightarrow> HubMessage \<Rightarrow> DataHeap \<times> HubMessage" where
  "WithAllContentExtra contentExtra h m =
     (if contentExtra = ANil then (h, m) else data_put DataKeyContentExtra contentExtra h m)"

definition GetContentExtra :: "string \<Rightarrow> DataHeap \<Rightarrow> HubMessage \<Rightarrow> AnyVal option" where
  "GetContentExtra key h m = getMapValue DataKeyContentExtra key h m"

definition WithMetadata ::
  "string \<Rightarrow> string \<Rightarrow> DataHeap \<Rightarrow> HubMessage \<Rightarrow> (DataHeap \<times> HubMessage) option" where
  "WithMetadata key value h m = setMapValue DataKeyMetadata key (AStr value) h m"

definition WithAllMetadata :: "AnyVal \<Rightarrow> DataHeap \<Rightarrow> HubMessage \<Rightarrow> DataHeap \<times> HubMessage" where
  "WithAllMetadata metadata h m =
     (if metadata = ANil then (h, m) else data_put DataKeyMetadata metadata h m)"

definition GetMetadata :: "string \<Rightarrow> DataHeap \<Rightarrow> HubMessage \<Rightarrow> string option" where
  "GetMetadata key h m =
     (case getMapValue DataKeyMetadata key h m of Some (AStr s) \<Rightarrow> Some s | _ \<Rightarrow> None)"

section \<open>Delivery guarantee\<close>

definition WithGuarantee :: "DeliveryGuarantee \<Rightarrow> HubMessage \<Rightarrow> HubMessage" where
  "WithGuarantee g m = m\<lparr>hm_DeliveryGuarantee := g\<rparr>"

text \<open>The classification score test of step 3, with the type assertion on the stored value.\<close>

definition score_guaranteed :: "DataHeap \<Rightarrow> HubMessage \<Rightarrow> bool" where
  "score_guaranteed h m =
     (case hm_Data m of
        None \<Rightarrow> False
      | Some d \<Rightarrow>
          (case map_of (dh_objs h d) DataKeyClassification of
             Some (AClass (Some c)) \<Rightarrow> GetFinalPriority c \<ge> ClassificationGuaranteedScore
           | _ \<Rightarrow> False))"

definition ResolveGuarantee :: "DataHeap \<Rightarrow> HubMessage \<Rightarrow> DeliveryGuarantee" where
  "ResolveGuarantee h m =
     (if hm_DeliveryGuarantee m \<noteq> GuaranteeUnset then hm_DeliveryGuarantee m
      else case map_of guaranteeTypeDefaults (hm_MessageType m) of
             Some g \<Rightarrow> g
           | None \<Rightarrow>
               if score_guaranteed h m then GuaranteeGuaranteed
               else if hm_Priority m = PriorityCritical then GuaranteeGuaranteed
               else GuaranteeStandard)"

section \<open>Routing envelope\<close>

definition InjectContext :: "('md GoContext \<Rightarrow> string) \<Rightarrow> 'md GoContext \<Rightarrow> HubMessage \<Rightarrow> HubMessage" where
  "InjectContext extractTraceID ctx m =
     (if hm_TraceID m \<noteq> [] then m else m\<lparr>hm_TraceID := extractTraceID ctx\<rparr>)"

definition ContextFrom ::
  "('md GoContext \<Rightarrow> string \<Rightarrow> 'md GoContext) \<Rightarrow> 'md GoContext \<Rightarrow> HubMessage \<Rightarrow> 'md GoContext" where
  "ContextFrom contextWithTraceID parent m =
     (if hm_TraceID m = [] then parent else contextWithTraceID parent (hm_TraceID m))"

definition TraceContext :: "'md GoContext \<Rightarrow> HubMessage \<Rightarrow> 'md GoContext" where
  "TraceContext parent m =
     (if hm_TraceID m = [] then parent else parent\<lparr>cx_trace := Some (hm_TraceID m)\<rparr>)"

definition GetGroupIDs :: "HubMessage \<Rightarrow> GoSlice" where
  "GetGroupIDs m = (if hm_GroupIDs m = None then None else slice_copy (hm_GroupIDs m))"

definition FirstGroupID :: "HubMessage \<Rightarrow> string" where
  "FirstGroupID m = (if length (slice (hm_GroupIDs m)) = 0 then [] else slice (hm_GroupIDs m) ! 0)"

text \<open>\<open>NewRoute().WithAppID(..).WithNamespace(..).WithGroupIDs(..)\<close> on the envelope.\<close>

definition envelope_route :: "HubMessage \<Rightarrow> Route" where
  "envelope_route m =
     Route_WithGroupIDs (hm_GroupIDs m) (Route_WithNamespace (hm_Namespace m)
       (Route_WithAppID (hm_AppID m) NewRoute))"

definition InjectRoute ::
  "('md GoContext \<Rightarrow> string) \<Rightarrow> 'md GoContext \<Rightarrow> HubMessage \<Rightarrow> HubMessage \<times> 'md GoContext" where
  "InjectRoute extractTraceID ctx m =
     (let m = (if hm_TraceID m = [] then m\<lparr>hm_TraceID := extractTraceID ctx\<rparr> else m);
          appID = NormalizeAppID (AppIDFromContext ctx);
          ns = NamespaceFromContext ctx;
          groupIDs = GroupIDsFromContext ctx;
          m = (if hm_AppID m = [] then m\<lparr>hm_AppID := appID\<rparr> else m);
          m = (if hm_Namespace m = [] then m\<lparr>hm_Namespace := ns\<rparr> else m);
          m = (if hm_GroupIDs m = None \<and> length (slice groupIDs) > 0
               then m\<lparr>hm_GroupIDs := slice_copy groupIDs\<rparr> else m)
      in (m, Inject (envelope_route m) ctx))"

definition RouteContext :: "'md GoContext \<Rightarrow> HubMessage \<Rightarrow> 'md GoContext" where
  "RouteContext parent m =
     (if hm_AppID m = [] \<and> hm_Namespace m = [] \<and> length (slice (hm_GroupIDs m)) = 0 then parent
      else Inject (envelope_route m) parent)"

definition ContextWithRoute ::
  "('md GoContext \<Rightarrow> string) \<Rightarrow> 'md GoContext \<Rightarrow> string \<Rightarrow> string \<Rightarrow> GoSlice \<Rightarrow> HubMessage
     \<Rightarrow> HubMessage \<times> 'md GoContext" where
  "ContextWithRoute extractTraceID parent appID ns groupIDs m =
     (let m = (if hm_TraceID m = [] then m\<lparr>hm_TraceID := extractTraceID parent\<rparr> else m);
          m = m\<lparr>hm_AppID := NormalizeAppID appID, hm_Namespace := ns,
                hm_GroupIDs := (if groupIDs = None then None else slice_copy groupIDs)\<rparr>
      in (m, Inject (Route_WithGroupIDs groupIDs (Route_WithNamespace ns
                (Route_WithAppID (hm_AppID m) NewRoute))) parent))"

section \<open>Copies\<close>

text \<open>The body of the copy loop over the entries of \<open>Data\<close>; \<open>d\<close> is the new map.\<close>

definition clone_entry :: "nat \<Rightarrow> string \<times> AnyVal \<Rightarrow> DataHeap \<Rightarrow> DataHeap" where
  "clone_entry d e h =
     (let (k, v) = e
      in case v of
           AMap sub \<Rightarrow>
             (let (a, h') = dh_alloc h;
                  h' = fold (\<lambda>(sk, sv). dh_put a sk sv)
                         (case sub of None \<Rightarrow> [] | Some s \<Rightarrow> dh_objs h s) h'
              in dh_put d k (AMap (Some a)) h')
         | _ \<Rightarrow> dh_put d k v h)"

definition Clone :: "DataHeap \<Rightarrow> HubMessage \<Rightarrow> DataHeap \<times> HubMessage" where
  "Clone h m =
     (let msg = m;
          (h, msg) =
            (case hm_Data m of
               None \<Rightarrow> (h, msg)
             | Some s \<Rightarrow>
                 (let (d, h') = dh_alloc h
                  in (fold (clone_entry d) (dh_objs h s) h', msg\<lparr>hm_Data := Some d\<rparr>)));
          msg = (if hm_GroupIDs m \<noteq> None then msg\<lparr>hm_GroupIDs := slice_copy (hm_GroupIDs m)\<rparr> else msg)
      in (h, msg))"

text \<open>The fan-out copy shares \<open>Data\<close> and the group slice.\<close>

definition CloneForFanout :: "HubMessage \<Rightarrow> HubMessage" where
  "CloneForFanout m = m"

text \<open>\<open>ObserverCopy\<close>: the outer option is a panic, the inner one an encoding error.\<close>

definition ObserverCopy ::
  "(DataHeap \<Rightarrow> HubMessage \<Rightarrow> string option) \<Rightarrow> DataHeap \<Rightarrow> HubMessage
     \<Rightarrow> (DataHeap \<times> (HubMessage \<times> string) option) option" where
  "ObserverCopy marshal h m =
     (let (h, o1) = Clone h m
      in case WithMetadata ''observer_mode'' ''true'' h o1 of
           None \<Rightarrow> None
         | Some (h, o2) \<Rightarrow>
             (case WithMetadata ''original_sender'' (hm_Sender o2) h o2 of
                None \<Rightarrow> None
              | Some (h, o3) \<Rightarrow>
                  (case WithMetadata ''original_receiver'' (hm_Receiver o3) h o3 of
                     None \<Rightarrow> None
                   | Some (h, o4) \<Rightarrow>
                       (case marshal h o4 of
                          None \<Rightarrow> Some (h, None)
                        | Some data \<Rightarrow> Some (h, Some (o4, data))))))"

section \<open>Lemmas\<close>

text \<open>The maps a message can reach are allocated, and each key occurs once.\<close>

definition msg_wf :: "DataHeap \<Rightarrow> HubMessage \<Rightarrow> bool" where
  "msg_wf h m \<longleftrightarrow>
     (\<forall>d. hm_Data m = Some d \<longrightarrow>
        d < dh_next h \<and> gm_wf (dh_objs h d) \<and>
        (\<forall>k b. map_of (dh_objs h d) k = Some (AMap (Some b)) \<longrightarrow> b < dh_next h \<and> gm_wf (dh_objs h b)))"

text \<open>No two keys of a data map share their sub map.\<close>

definition subs_private :: "DataHeap \<Rightarrow> nat \<Rightarrow> bool" where
  "subs_private h d \<longleftrightarrow>
     (\<forall>k a. map_of (dh_objs h d) k = Some (AMap (Some a)) \<longrightarrow> a < dh_next h) \<and>
     (\<forall>k k' a. map_of (dh_objs h d) k = Some (AMap (Some a)) \<longrightarrow>
               map_of (dh_objs h d) k' = Some (AMap (Some a)) \<longrightarrow> k' = k)"

text \<open>Every map a message can reach has an address from \<open>n\<close> on, none of its sub maps is nil or
  the data map itself, and no sub map is shared.\<close>

definition msg_above :: "nat \<Rightarrow> DataHeap \<Rightarrow> HubMessage \<Rightarrow> bool" where
  "msg_above n h m \<longleftrightarrow> n \<le> dh_next h \<and>
     (\<forall>d. hm_Data m = Some d \<longrightarrow> n \<le> d \<and> d < dh_next h \<and> subs_private h d \<and>
        (\<forall>k sub. map_of (dh_objs h d) k = Some (AMap sub) \<longrightarrow> (\<exists>a. sub = Some a \<and> n \<le> a \<and> a \<noteq> d \<and> a < dh_next h)))"

lemma dh_next_put [simp]: "dh_next (dh_put a k v h) = dh_next h"
  by (simp add: dh_put_def)

lemma dh_objs_put [simp]:
  "dh_objs (dh_put a k v h) b = (if b = a then AList.update k v (dh_objs h a) else dh_objs h b)"
  by (simp add: dh_put_def)

lemma dh_next_puts [simp]: "dh_next (fold (\<lambda>(k, v). dh_put a k v) es h) = dh_next h"
  by (induction es arbitrary: h) auto

lemma dh_objs_puts [simp]:
  "dh_objs (fold (\<lambda>(k, v). dh_put a k v) es h) b =
     (if b = a then fold (\<lambda>(k, v). AList.update k v) es (dh_objs h a) else dh_objs h b)"
  by (induction es arbitrary: h) auto

lemma update_fresh: "map_of m k = None \<Longrightarrow> AList.update k v m = m @ [(k, v)]"
  by (induction m) (auto split: if_splits)

lemma fold_update_copy:
  "gm_wf (acc @ es) \<Longrightarrow> fold (\<lambda>(k, v). AList.update k v) es acc = acc @ es"
proof (induction es arbitrary: acc)
  case Nil
  then show ?case by simp
next
  case (Cons e es)
  obtain k v where e: "e = (k, v)" by force
  with Cons.prems have "map_of acc k = None" by (auto simp: map_of_eq_None_iff)
  with Cons e show ?case by (simp add: update_fresh)
qed

text \<open>Reading is determined by the maps below an address bound.\<close>

lemma view_frame:
  assumes "msg_wf h m" and "\<And>a. a < dh_next h \<Longrightarrow> dh_objs h' a = dh_objs h a"
  shows "GetOption k h' m = GetOption k h m" and "getMapValue k s h' m = getMapValue k s h m"
proof -
  show "GetOption k h' m = GetOption k h m"
    using assms by (auto simp: GetOption_def msg_wf_def split: option.split)
  show "getMapValue k s h' m = getMapValue k s h m"
  proof (cases "hm_Data m")
    case None
    then show ?thesis by (simp add: getMapValue_def)
  next
    case (Some d)
    with assms(1) have d: "d < dh_next h" by (simp add: msg_wf_def)
    have "dh_objs h' b = dh_objs h b" if "map_of (dh_objs h d) k = Some (AMap (Some b))" for b
      using that assms Some unfolding msg_wf_def by blast
    with Some assms(2) [OF d] show ?thesis
      by (auto simp: getMapValue_def split: option.split AnyVal.split)
  qed
qed

definition sub_entries :: "DataHeap \<Rightarrow> nat option \<Rightarrow> (string, AnyVal) gomap" where
  "sub_entries h sub = (case sub of None \<Rightarrow> [] | Some s \<Rightarrow> dh_objs h s)"

text \<open>\<open>v'\<close> is the copy of \<open>v\<close>: the same value, or a new map with the same entries.\<close>

definition copy_of :: "nat \<Rightarrow> DataHeap \<Rightarrow> DataHeap \<Rightarrow> AnyVal \<Rightarrow> AnyVal \<Rightarrow> bool" where
  "copy_of n h h' v v' \<longleftrightarrow>
     (case v of
        AMap sub \<Rightarrow> (\<exists>a. v' = AMap (Some a) \<and> n \<le> a \<and> a < dh_next h' \<and> dh_objs h' a = sub_entries h sub)
      | _ \<Rightarrow> v' = v)"

text \<open>A step of the copy loop writes only into the new map and into a map it allocates.\<close>

lemma clone_entry_next: "dh_next h \<le> dh_next (clone_entry d e h)"
  by (cases e, cases "snd e") (auto simp: clone_entry_def dh_alloc_def)

lemma clone_entry_frame:
  "a \<noteq> d \<Longrightarrow> a < dh_next h \<Longrightarrow> dh_objs (clone_entry d e h) a = dh_objs h a"
  by (cases e, cases "snd e") (auto simp: clone_entry_def dh_alloc_def)

lemma clone_entry_copies:
  assumes "d < dh_next h" and "\<And>b. v = AMap (Some b) \<Longrightarrow> gm_wf (dh_objs h b)"
  obtains v' where "dh_objs (clone_entry d (k, v) h) d = AList.update k v' (dh_objs h d)"
    and "copy_of (dh_next h) h (clone_entry d (k, v) h) v v'"
proof (cases "\<exists>sub. v = AMap sub")
  case True
  then obtain sub where v: "v = AMap sub" by blast
  have "gm_wf (sub_entries h sub)"
    using assms(2) v by (cases sub) (auto simp: sub_entries_def)
  then have "fold (\<lambda>(k, v). AList.update k v) (sub_entries h sub) [] = sub_entries h sub"
    using fold_update_copy [of "[]" "sub_entries h sub"] by simp
  then have "copy_of (dh_next h) h (clone_entry d (k, v) h) v (AMap (Some (dh_next h)))"
    using assms(1) v by (simp add: copy_of_def clone_entry_def dh_alloc_def sub_entries_def)
  moreover have "dh_objs (clone_entry d (k, v) h) d = AList.update k (AMap (Some (dh_next h))) (dh_objs h d)"
    using assms(1) v by (simp add: clone_entry_def dh_alloc_def)
  ultimately show ?thesis by (rule that [rotated])
next
  case False
  then have "clone_entry d (k, v) h = dh_put d k v h" and "copy_of (dh_next h) h (dh_put d k v h) v v"
    by (cases v; simp add: clone_entry_def copy_of_def)+
  then show ?thesis using that [of v] by simp
qed

lemma clone_loop_next: "dh_next h \<le> dh_next (fold (clone_entry d) es h)"
  by (induction es arbitrary: h) (auto intro: order_trans [OF clone_entry_next])

lemma clone_loop_frame:
  "a \<noteq> d \<Longrightarrow> a < dh_next h \<Longrightarrow> dh_objs (fold (clone_entry d) es h) a = dh_objs h a"
proof (induction es arbitrary: h)
  case Nil
  then show ?case by simp
next
  case (Cons e es)
  then have "a < dh_next (clone_entry d e h)"
    using clone_entry_next [of h d e] by simp
  with Cons show ?case by (simp add: clone_entry_frame)
qed

lemma subs_private_fresh:
  assumes "subs_private h d" and "d < dh_next h" and "dh_next h \<le> dh_next h'"
    and "dh_objs h' d = AList.update k v (dh_objs h d)"
    and "\<And>a. v = AMap (Some a) \<Longrightarrow> a = dh_next h \<and> dh_next h < dh_next h'"
  shows "subs_private h' d"
proof -
  have old: "a < dh_next h" if "map_of (dh_objs h d) j = Some (AMap (Some a))" for j a
    using assms(1) that unfolding subs_private_def by blast
  have inj: "j' = j" if "map_of (dh_objs h d) j = Some (AMap (Some a))"
      "map_of (dh_objs h d) j' = Some (AMap (Some a))" for j j' a
    using assms(1) that unfolding subs_private_def by blast
  have at: "map_of (dh_objs h' d) j = (if j = k then Some v else map_of (dh_objs h d) j)" for j
    by (simp add: assms(4) map_of_update)
  have "a < dh_next h'" if "map_of (dh_objs h' d) j = Some (AMap (Some a))" for j a
    using that assms(3,5) old [of j a] by (auto simp: at split: if_splits)
  moreover have "j' = j" if "map_of (dh_objs h' d) j = Some (AMap (Some a))"
      "map_of (dh_objs h' d) j' = Some (AMap (Some a))" for j j' a
    using that assms(5) [of a] old [of j a] old [of j' a] inj [of j a j'] by (auto simp: at split: if_splits)
  ultimately show ?thesis unfolding subs_private_def by blast
qed

lemma clone_entry_private:
  assumes "subs_private h d" and "d < dh_next h"
  shows "subs_private (clone_entry d (k, v) h) d"
proof (cases "\<exists>sub. v = AMap sub")
  case True
  then obtain sub where "v = AMap sub" by blast
  then show ?thesis
    using assms by (intro subs_private_fresh [OF assms, of _ k "AMap (Some (dh_next h))"])
      (simp_all add: clone_entry_def dh_alloc_def)
next
  case False
  then have "clone_entry d (k, v) h = dh_put d k v h" by (cases v) (simp_all add: clone_entry_def)
  with False show ?thesis
    by (intro subs_private_fresh [OF assms, of _ k v]) simp_all
qed

lemma clone_loop_private:
  "subs_private h d \<Longrightarrow> d < dh_next h \<Longrightarrow> subs_private (fold (clone_entry d) es h) d"
proof (induction es arbitrary: h)
  case Nil
  then show ?case by simp
next
  case (Cons e es)
  obtain k v where "e = (k, v)" by force
  with Cons show ?case
    using clone_entry_private [of h d k v] clone_entry_next [of h d e] by simp
qed

text \<open>A later heap that keeps the copied map keeps the copy.\<close>

lemma copy_of_later:
  assumes "copy_of n h h1 v v'" and "dh_next h1 \<le> dh_next h2"
    and "\<And>a. n \<le> a \<Longrightarrow> a < dh_next h1 \<Longrightarrow> dh_objs h2 a = dh_objs h1 a"
  shows "copy_of n h h2 v v'"
  using assms by (auto simp: copy_of_def split: AnyVal.splits)

lemma copy_of_earlier:
  assumes "copy_of n1 h1 h2 v v'" and "n \<le> n1"
    and "\<And>b. v = AMap (Some b) \<Longrightarrow> dh_objs h1 b = dh_objs h b"
  shows "copy_of n h h2 v v'"
  using assms
  by (cases v) (auto simp: copy_of_def sub_entries_def split: option.splits)

text \<open>The whole loop: every entry is copied, other entries of the new map stay.\<close>

lemma clone_loop_copies:
  assumes "d < dh_next h" and "gm_wf es"
    and "\<And>k b. map_of es k = Some (AMap (Some b)) \<Longrightarrow> b < dh_next h \<and> b \<noteq> d \<and> gm_wf (dh_objs h b)"
  shows "case map_of es k of
           None \<Rightarrow> map_of (dh_objs (fold (clone_entry d) es h) d) k = map_of (dh_objs h d) k
         | Some v \<Rightarrow> \<exists>v'. map_of (dh_objs (fold (clone_entry d) es h) d) k = Some v' \<and>
                          copy_of (dh_next h) h (fold (clone_entry d) es h) v v'"
  using assms
proof (induction es arbitrary: h)
  case Nil
  then show ?case by simp
next
  case (Cons e es)
  obtain j w where e: "e = (j, w)" by force
  define h1 where "h1 = clone_entry d (j, w) h"
  define h2 where "h2 = fold (clone_entry d) es h1"
  have j: "map_of es j = None" and wf: "gm_wf es"
    using Cons.prems(2) e by (auto simp: map_of_eq_None_iff)
  have sub: "b < dh_next h \<and> b \<noteq> d \<and> gm_wf (dh_objs h b)" if "map_of es i = Some (AMap (Some b))" for i b
    using Cons.prems(3) [of i b] that j e by (cases "i = j") simp_all
  have le: "dh_next h \<le> dh_next h1" by (simp add: h1_def clone_entry_next)
  have old: "dh_objs h1 a = dh_objs h a" if "a \<noteq> d" "a < dh_next h" for a
    using that by (simp add: h1_def clone_entry_frame)
  have "gm_wf (dh_objs h b)" if "w = AMap (Some b)" for b
    using Cons.prems(3) [of j b] that e by simp
  then obtain w' where w': "dh_objs h1 d = AList.update j w' (dh_objs h d)" "copy_of (dh_next h) h h1 w w'"
    unfolding h1_def using clone_entry_copies [OF Cons.prems(1), of w j] by blast
  have sub1: "b < dh_next h1 \<and> b \<noteq> d \<and> gm_wf (dh_objs h1 b)" if "map_of es i = Some (AMap (Some b))" for i b
    using sub [OF that] old [of b] le by auto
  have d1: "d < dh_next h1" using Cons.prems(1) le by simp
  have IH: "case map_of es k of
           None \<Rightarrow> map_of (dh_objs h2 d) k = map_of (dh_objs h1 d) k
         | Some v \<Rightarrow> \<exists>v'. map_of (dh_objs h2 d) k = Some v' \<and> copy_of (dh_next h1) h1 h2 v v'"
    unfolding h2_def by (rule Cons.IH [OF d1 wf]) (rule sub1)
  show ?case
  proof (cases "k = j")
    case True
    have "copy_of (dh_next h) h h2 w w'"
    proof (rule copy_of_later [OF w'(2)])
      show "dh_next h1 \<le> dh_next h2" by (simp add: h2_def clone_loop_next)
      show "dh_objs h2 a = dh_objs h1 a" if "dh_next h \<le> a" "a < dh_next h1" for a
        using that Cons.prems(1) by (simp add: h2_def clone_loop_frame)
    qed
    with True IH Cons.prems(1) le j w'(1) e show ?thesis
      by (simp add: h1_def [symmetric] h2_def [symmetric] map_of_update)
  next
    case False
    show ?thesis
    proof (cases "map_of es k")
      case None
      with False IH Cons.prems(1) le w'(1) e show ?thesis
        by (simp add: h1_def [symmetric] h2_def [symmetric] map_of_update)
    next
      case (Some v)
      with IH Cons.prems(1) le obtain v' where
        v': "map_of (dh_objs h2 d) k = Some v'" "copy_of (dh_next h1) h1 h2 v v'" by auto
      have "copy_of (dh_next h) h h2 v v'"
        by (rule copy_of_earlier [OF v'(2) le]) (use sub [of k] Some old in auto)
      with v'(1) Some False e show ?thesis
        by (simp add: h1_def [symmetric] h2_def [symmetric])
    qed
  qed
qed

text \<open>Copies of a well-formed message.\<close>

lemma Clone_None: "hm_Data m = None \<Longrightarrow> fst (Clone h m) = h \<and> hm_Data (snd (Clone h m)) = None"
  by (simp add: Clone_def Let_def)

lemma Clone_Some:
  assumes "hm_Data m = Some s" and "msg_wf h m"
  shows "hm_Data (snd (Clone h m)) = Some (dh_next h)"
    and "Suc (dh_next h) \<le> dh_next (fst (Clone h m))"
    and "a < dh_next h \<Longrightarrow> dh_objs (fst (Clone h m)) a = dh_objs h a"
    and "case map_of (dh_objs h s) k of
           None \<Rightarrow> map_of (dh_objs (fst (Clone h m)) (dh_next h)) k = None
         | Some v \<Rightarrow> \<exists>v'. map_of (dh_objs (fst (Clone h m)) (dh_next h)) k = Some v' \<and>
                          copy_of (Suc (dh_next h)) h (fst (Clone h m)) v v'"
    and "subs_private (fst (Clone h m)) (dh_next h)"
proof -
  define h1 where "h1 = snd (dh_alloc h)"
  have clone: "fst (Clone h m) = fold (clone_entry (dh_next h)) (dh_objs h s) h1"
    "hm_Data (snd (Clone h m)) = Some (dh_next h)"
    using assms(1) by (simp_all add: Clone_def Let_def h1_def dh_alloc_def)
  have h1: "dh_next h1 = Suc (dh_next h)" "dh_objs h1 (dh_next h) = []"
    "\<And>a. a < dh_next h \<Longrightarrow> dh_objs h1 a = dh_objs h a"
    by (simp_all add: h1_def dh_alloc_def)
  have wf: "gm_wf (dh_objs h s)"
    "\<And>k b. map_of (dh_objs h s) k = Some (AMap (Some b)) \<Longrightarrow> b < dh_next h \<and> gm_wf (dh_objs h b)"
    using assms unfolding msg_wf_def by blast+
  show "hm_Data (snd (Clone h m)) = Some (dh_next h)" by (rule clone)
  show "subs_private (fst (Clone h m)) (dh_next h)"
    unfolding clone(1) using h1(1,2) by (intro clone_loop_private) (simp_all add: subs_private_def)
  show "Suc (dh_next h) \<le> dh_next (fst (Clone h m))"
    using clone_loop_next [of h1 "dh_next h" "dh_objs h s"] h1(1) clone(1) by simp
  show "dh_objs (fst (Clone h m)) a = dh_objs h a" if "a < dh_next h"
    using that h1 clone(1) by (simp add: clone_loop_frame)
  have "case map_of (dh_objs h s) k of
      None \<Rightarrow> map_of (dh_objs (fst (Clone h m)) (dh_next h)) k = map_of (dh_objs h1 (dh_next h)) k
    | Some v \<Rightarrow> \<exists>v'. map_of (dh_objs (fst (Clone h m)) (dh_next h)) k = Some v' \<and>
                     copy_of (dh_next h1) h1 (fst (Clone h m)) v v'"
    unfolding clone(1)
  proof (rule clone_loop_copies)
    show "dh_next h < dh_next h1" using h1(1) by simp
    show "gm_wf (dh_objs h s)" by (rule wf(1))
    show "b < dh_next h1 \<and> b \<noteq> dh_next h \<and> gm_wf (dh_objs h1 b)"
      if "map_of (dh_objs h s) k = Some (AMap (Some b))" for k b
      using wf(2) [OF that] h1(1) h1(3) [of b] by simp
  qed
  then show "case map_of (dh_objs h s) k of
      None \<Rightarrow> map_of (dh_objs (fst (Clone h m)) (dh_next h)) k = None
    | Some v \<Rightarrow> \<exists>v'. map_of (dh_objs (fst (Clone h m)) (dh_next h)) k = Some v' \<and>
                     copy_of (Suc (dh_next h)) h (fst (Clone h m)) v v'"
    using h1(1,2) h1(3) wf(2) [of k] copy_of_earlier [of "Suc (dh_next h)" h1 "fst (Clone h m)" _ _ "Suc (dh_next h)" h]
    by (cases "map_of (dh_objs h s) k") (simp, force)
qed

text \<open>A copy lives above the old heap, reads like the original, and leaves it alone.\<close>

lemma Clone_above: "msg_wf h m \<Longrightarrow> msg_above (dh_next h) (fst (Clone h m)) (snd (Clone h m))"
proof (cases "hm_Data m")
  case None
  then show ?thesis by (simp add: msg_above_def Clone_None)
next
  case (Some s)
  assume wf: "msg_wf h m"
  note c = Clone_Some [OF Some wf]
  have "\<exists>a. sub = Some a \<and> Suc (dh_next h) \<le> a \<and> a < dh_next (fst (Clone h m))"
    if "map_of (dh_objs (fst (Clone h m)) (dh_next h)) k = Some (AMap sub)" for k sub
    using c(4) [of k] that by (cases "map_of (dh_objs h s) k")
      (auto simp: copy_of_def split: AnyVal.splits)
  then have "\<exists>a. sub = Some a \<and> dh_next h \<le> a \<and> a \<noteq> dh_next h \<and> a < dh_next (fst (Clone h m))"
    if "map_of (dh_objs (fst (Clone h m)) (dh_next h)) k = Some (AMap sub)" for k sub
    using that by fastforce
  with c(1,2,5) show ?thesis by (simp add: msg_above_def)
qed

lemma Clone_frame:
  "msg_wf h m \<Longrightarrow> a < dh_next h \<Longrightarrow> dh_objs (fst (Clone h m)) a = dh_objs h a"
  by (cases "hm_Data m") (simp_all add: Clone_None Clone_Some)

lemma Clone_view:
  assumes "msg_wf h m"
  shows "getMapValue k s (fst (Clone h m)) (snd (Clone h m)) = getMapValue k s h m"
proof (cases "hm_Data m")
  case None
  then show ?thesis by (simp add: Clone_None getMapValue_def)
next
  case (Some d)
  note c = Clone_Some [OF Some assms]
  show ?thesis
  proof (cases "map_of (dh_objs h d) k")
    case None
    with c(4) [of k] c(1) Some show ?thesis by (simp add: getMapValue_def)
  next
    case v: (Some v)
    with c(4) [of k] obtain v' where
      v': "map_of (dh_objs (fst (Clone h m)) (dh_next h)) k = Some v'"
          "copy_of (Suc (dh_next h)) h (fst (Clone h m)) v v'" by auto
    have "getMapValue k s (fst (Clone h m)) (snd (Clone h m)) =
        (case v' of AMap (Some a) \<Rightarrow> map_of (dh_objs (fst (Clone h m)) a) s | _ \<Rightarrow> None)"
      by (simp add: getMapValue_def c(1) v'(1))
    also have "\<dots> = (case v of AMap (Some a) \<Rightarrow> map_of (dh_objs h a) s | _ \<Rightarrow> None)"
      using v'(2) by (cases v) (auto simp: copy_of_def sub_entries_def split: option.split)
    also have "\<dots> = getMapValue k s h m" by (simp add: getMapValue_def Some v)
    finally show ?thesis .
  qed
qed

text \<open>Writing a sub-map entry: never a panic above \<open>n\<close>, and only addresses from \<open>n\<close> on change.\<close>

lemma msg_aboveD:
  assumes "msg_above n h m" and "hm_Data m = Some d"
  shows "n \<le> d" and "d < dh_next h"
    and "map_of (dh_objs h d) k = Some (AMap sub) \<Longrightarrow> \<exists>a. sub = Some a \<and> n \<le> a \<and> a \<noteq> d \<and> a < dh_next h"
    and "subs_private h d"
  using assms unfolding msg_above_def by blast+

lemma ensure_above:
  assumes "msg_above n h m"
  obtains d h' m' where "ensure_data h m = (d, h', m')" and "hm_Data m' = Some d"
    and "msg_above n h' m'" and "\<And>a. a < n \<Longrightarrow> dh_objs h' a = dh_objs h a"
    and "\<And>k s. getMapValue k s h' m' = getMapValue k s h m"
    and "hm_Sender m' = hm_Sender m" and "hm_Receiver m' = hm_Receiver m"
proof (cases "hm_Data m")
  case (Some d)
  with assms show ?thesis by (intro that [of d h m]) (simp_all add: ensure_data_def)
next
  case None
  have n: "n \<le> dh_next h" using assms by (simp add: msg_above_def)
  show ?thesis
  proof (rule that)
    show "ensure_data h m = (dh_next h, snd (dh_alloc h), m\<lparr>hm_Data := Some (dh_next h)\<rparr>)"
      using None by (simp add: ensure_data_def dh_alloc_def)
    show "msg_above n (snd (dh_alloc h)) (m\<lparr>hm_Data := Some (dh_next h)\<rparr>)"
      using n by (simp add: msg_above_def subs_private_def dh_alloc_def)
    show "dh_objs (snd (dh_alloc h)) a = dh_objs h a" if "a < n" for a
      using n that by (simp add: dh_alloc_def)
    show "getMapValue k s (snd (dh_alloc h)) (m\<lparr>hm_Data := Some (dh_next h)\<rparr>) = getMapValue k s h m" for k s
      using None by (simp add: getMapValue_def dh_alloc_def)
  qed simp_all
qed

lemma setMapValue_above:
  assumes "msg_above n h m"
  obtains h' m' where "setMapValue key sub v h m = Some (h', m')"
    and "msg_above n h' m'" and "\<And>a. a < n \<Longrightarrow> dh_objs h' a = dh_objs h a"
    and "\<And>k s. getMapValue k s h' m' = (if k = key \<and> s = sub then Some v else getMapValue k s h m)"
    and "hm_Sender m' = hm_Sender m" and "hm_Receiver m' = hm_Receiver m"
proof -
  obtain d h1 m1 where e: "ensure_data h m = (d, h1, m1)" "hm_Data m1 = Some d" "msg_above n h1 m1"
      "\<And>a. a < n \<Longrightarrow> dh_objs h1 a = dh_objs h a"
      "\<And>k s. getMapValue k s h1 m1 = getMapValue k s h m"
      "hm_Sender m1 = hm_Sender m" "hm_Receiver m1 = hm_Receiver m"
    using ensure_above [OF assms] by metis
  note ab = msg_aboveD [OF e(3,2)]
  show ?thesis
  proof (cases "\<exists>x. map_of (dh_objs h1 d) key = Some (AMap x)")
    case True
    then obtain a where a: "map_of (dh_objs h1 d) key = Some (AMap (Some a))" "n \<le> a" "a \<noteq> d" "a < dh_next h1"
      using ab(3) by blast
    have priv: "k = key" if "map_of (dh_objs h1 d) k = Some (AMap (Some a))" for k
      using ab(4) a(1) that unfolding subs_private_def by blast
    show ?thesis
    proof (rule that)
      show "setMapValue key sub v h m = Some (dh_put a sub v h1, m1)"
        using e(1) a(1) by (simp add: setMapValue_def)
      show "msg_above n (dh_put a sub v h1) m1"
        using e(2,3) a(3) by (simp add: msg_above_def subs_private_def)
      show "dh_objs (dh_put a sub v h1) i = dh_objs h i" if "i < n" for i
        using that a(2) e(4) by simp
      show "getMapValue k s (dh_put a sub v h1) m1 = (if k = key \<and> s = sub then Some v else getMapValue k s h m)" for k s
      proof (cases "k = key")
        case True
        with a(1,3) e(2) e(5) [of k s] show ?thesis by (simp add: getMapValue_def map_of_update)
      next
        case False
        with priv [of k] a(3) e(2) e(5) [of k s] show ?thesis
          by (cases "map_of (dh_objs h1 d) k") (auto simp: getMapValue_def split: AnyVal.split option.split)
      qed
    qed (use e in simp_all)
  next
    case False
    define h2 where "h2 = dh_put (dh_next h1) sub v (dh_put d key (AMap (Some (dh_next h1))) (snd (dh_alloc h1)))"
    have h2: "dh_next h2 = Suc (dh_next h1)" "dh_objs h2 d = AList.update key (AMap (Some (dh_next h1))) (dh_objs h1 d)"
        "dh_objs h2 (dh_next h1) = [(sub, v)]" "\<And>i. i \<noteq> d \<Longrightarrow> i < dh_next h1 \<Longrightarrow> dh_objs h2 i = dh_objs h1 i"
      using ab(2) by (simp_all add: h2_def dh_alloc_def)
    show ?thesis
    proof (rule that)
      show "setMapValue key sub v h m = Some (h2, m1)"
        using e(1) False by (auto simp: setMapValue_def h2_def dh_alloc_def split: option.split AnyVal.split)
      have "subs_private h2 d"
        by (rule subs_private_fresh [OF ab(4,2) _ h2(2)]) (simp_all add: h2(1))
      moreover have "\<exists>a. x = Some a \<and> n \<le> a \<and> a \<noteq> d \<and> a < dh_next h2"
        if "map_of (dh_objs h2 d) k = Some (AMap x)" for k x
        using that ab(1,2) ab(3) [of k x] h2(1) by (auto simp: h2(2) map_of_update split: if_splits)
      ultimately show "msg_above n h2 m1"
        using e(2,3) ab(1,2) h2(1) by (simp add: msg_above_def)
      show "dh_objs h2 i = dh_objs h i" if "i < n" for i
        using that ab(1,2) h2(4) [of i] e(4) [of i] by simp
      have "getMapValue k s h2 m1 = (if k = key \<and> s = sub then Some v else getMapValue k s h1 m1)" for k s
      proof (cases "k = key")
        case True
        with e(2) False show ?thesis
          by (auto simp: getMapValue_def h2(2,3) map_of_update split: option.split AnyVal.split)
      next
        case neq: False
        have "dh_objs h2 b = dh_objs h1 b" if "map_of (dh_objs h1 d) k = Some (AMap (Some b))" for b
          using ab(3) [OF that] h2(4) [of b] by auto
        with neq e(2) show ?thesis
          by (auto simp: getMapValue_def h2(2) map_of_update split: option.split AnyVal.split)
      qed
      then show "getMapValue k s h2 m1 = (if k = key \<and> s = sub then Some v else getMapValue k s h m)" for k s
        using e(5) by simp
    qed (use e in simp_all)
  qed
qed

lemma envelope_route_fields [record_simps]:
  "r_appID (envelope_route m) = hm_AppID m" "r_namespace (envelope_route m) = hm_Namespace m"
  "r_groupIDs (envelope_route m) = hm_GroupIDs m"
  by (simp_all add: envelope_route_def Route_WithAppID_def Route_WithNamespace_def
      Route_WithGroupIDs_def NewRoute_def)

lemma NormalizeAppID_id: "s \<noteq> [] \<Longrightarrow> NormalizeAppID s = s"
  by (simp add: NormalizeAppID_def)

lemma RouteContext_fields:
  assumes "hm_AppID m \<noteq> []"
  shows "AppIDFromContext (RouteContext parent m) = hm_AppID m"
    and "NamespaceFromContext (RouteContext parent m) = hm_Namespace m"
    and "slice (GroupIDsFromContext (RouteContext parent m)) = slice (hm_GroupIDs m)"
  using assms by (simp_all add: RouteContext_def record_simps NormalizeAppID_id)

section \<open>Properties\<close>

text \<open>A deep copy is isolated.  The clone of a message reads like the original, a later write of
  a metadata or content_extra entry on the clone always succeeds and is read back there, and every
  read of the original stays as it was before the clone.\<close>

theorem clone_isolated:
  assumes "msg_wf h m" and "Clone h m = (h1, c)"
  shows "(\<forall>k s. getMapValue k s h1 c = getMapValue k s h m) \<and>
         (\<exists>h2 c'. setMapValue key sub v h1 c = Some (h2, c') \<and>
            getMapValue key sub h2 c' = Some v \<and>
            (\<forall>k. GetOption k h2 m = GetOption k h m) \<and>
            (\<forall>k s. getMapValue k s h2 m = getMapValue k s h m))"
proof -
  have h1: "h1 = fst (Clone h m)" and c: "c = snd (Clone h m)" using assms(2) by simp_all
  from Clone_above [OF assms(1)] have ab: "msg_above (dh_next h) h1 c" by (simp add: h1 c)
  obtain h2 c' where w: "setMapValue key sub v h1 c = Some (h2, c')"
      "\<And>a. a < dh_next h \<Longrightarrow> dh_objs h2 a = dh_objs h1 a" "getMapValue key sub h2 c' = Some v"
    by (rule setMapValue_above [OF ab, of key sub v]) simp
  have "dh_objs h2 a = dh_objs h a" if "a < dh_next h" for a
    using w(2) [OF that] Clone_frame [OF assms(1) that] h1 by simp
  from view_frame [OF assms(1) this] w Clone_view [OF assms(1)] show ?thesis
    by (auto simp: h1 c)
qed

text \<open>Observer copies.  Building the copy for observers never panics, whatever the metadata of the
  message is; the copy carries the observer mark and the original sender and receiver, keeps every
  other metadata and content_extra entry, and the message itself reads as before.\<close>

theorem observer_copy_isolated:
  assumes "msg_wf h m"
  shows "\<exists>h' c. ObserverCopy marshal h m = Some (h', map_option (\<lambda>data. (c, data)) (marshal h' c)) \<and>
    GetMetadata ''observer_mode'' h' c = Some ''true'' \<and>
    GetMetadata ''original_sender'' h' c = Some (hm_Sender m) \<and>
    GetMetadata ''original_receiver'' h' c = Some (hm_Receiver m) \<and>
    (\<forall>k s. k \<noteq> DataKeyMetadata \<or> s \<notin> {''observer_mode'', ''original_sender'', ''original_receiver''} \<longrightarrow>
       getMapValue k s h' c = getMapValue k s h m) \<and>
    (\<forall>k. GetOption k h' m = GetOption k h m) \<and>
    (\<forall>k s. getMapValue k s h' m = getMapValue k s h m)"
proof -
  obtain h0 c0 where cl: "Clone h m = (h0, c0)" by force
  have s: "hm_Sender c0 = hm_Sender m" "hm_Receiver c0 = hm_Receiver m"
    using cl by (auto simp: Clone_def Let_def dh_alloc_def split: option.splits if_splits)
  have a0: "msg_above (dh_next h) h0 c0" using Clone_above [OF assms] cl by simp
  obtain h1 c1 where w1: "setMapValue DataKeyMetadata ''observer_mode'' (AStr ''true'') h0 c0 = Some (h1, c1)"
      "msg_above (dh_next h) h1 c1" "\<And>a. a < dh_next h \<Longrightarrow> dh_objs h1 a = dh_objs h0 a"
      "\<And>k s. getMapValue k s h1 c1 =
         (if k = DataKeyMetadata \<and> s = ''observer_mode'' then Some (AStr ''true'') else getMapValue k s h0 c0)"
      "hm_Sender c1 = hm_Sender c0" "hm_Receiver c1 = hm_Receiver c0"
    by (rule setMapValue_above [OF a0]) blast
  obtain h2 c2 where w2: "setMapValue DataKeyMetadata ''original_sender'' (AStr (hm_Sender c1)) h1 c1 = Some (h2, c2)"
      "msg_above (dh_next h) h2 c2" "\<And>a. a < dh_next h \<Longrightarrow> dh_objs h2 a = dh_objs h1 a"
      "\<And>k s. getMapValue k s h2 c2 =
         (if k = DataKeyMetadata \<and> s = ''original_sender'' then Some (AStr (hm_Sender c1)) else getMapValue k s h1 c1)"
      "hm_Sender c2 = hm_Sender c1" "hm_Receiver c2 = hm_Receiver c1"
    by (rule setMapValue_above [OF w1(2)]) blast
  obtain h3 c3 where w3: "setMapValue DataKeyMetadata ''original_receiver'' (AStr (hm_Receiver c2)) h2 c2 = Some (h3, c3)"
      "\<And>a. a < dh_next h \<Longrightarrow> dh_objs h3 a = dh_objs h2 a"
      "\<And>k s. getMapValue k s h3 c3 =
         (if k = DataKeyMetadata \<and> s = ''original_receiver'' then Some (AStr (hm_Receiver c2)) else getMapValue k s h2 c2)"
    by (rule setMapValue_above [OF w2(2)]) blast
  have "ObserverCopy marshal h m = Some (h3, map_option (\<lambda>data. (c3, data)) (marshal h3 c3))"
    using cl w1(1) w2(1) w3(1) by (simp add: ObserverCopy_def WithMetadata_def split: option.split)
  moreover have "dh_objs h3 a = dh_objs h a" if "a < dh_next h" for a
    using that w1(3) w2(3) w3(2) Clone_frame [OF assms] cl by simp
  note view_frame [OF assms this]
  ultimately show ?thesis
    using w1(4-6) w2(4-6) w3(3) s Clone_view [OF assms] cl
    by (intro exI [of _ h3] exI [of _ c3]) (simp add: GetMetadata_def)
qed

text \<open>The decision tree of the delivery guarantee.  A message resolves to the guaranteed level
  exactly when that level is set explicitly, or nothing is set and its type is one of the eleven
  control, payment and security types, or nothing is set, its type has no default and it is scored at
  least 90 or has critical priority; no message resolves to the unset level, and an explicit level always wins.\<close>

theorem resolve_guarantee_spec:
  "ResolveGuarantee h m \<noteq> GuaranteeUnset \<and>
   (ResolveGuarantee h m = GuaranteeGuaranteed \<longleftrightarrow>
      hm_DeliveryGuarantee m = GuaranteeGuaranteed \<or>
      hm_DeliveryGuarantee m = GuaranteeUnset \<and>
      (GuaranteeForType (hm_MessageType m) = Some GuaranteeGuaranteed \<or>
       GuaranteeForType (hm_MessageType m) = None \<and>
       (score_guaranteed h m \<or> hm_Priority m = PriorityCritical))) \<and>
   (IsExpress (ResolveGuarantee h m) \<longleftrightarrow>
      IsExpress (hm_DeliveryGuarantee m) \<or>
      hm_DeliveryGuarantee m = GuaranteeUnset \<and>
      hm_MessageType m \<in> {MessageTypeTyping, MessageTypeRead, MessageTypeDelivered, MessageTypeReaction,
                          MessageTypeUserStatusChanged, MessageTypeHeartbeat, MessageTypeStream})"
proof -
  have table: "GuaranteeForType t = Some GuaranteeEphemeral \<or> GuaranteeForType t = Some GuaranteeAggregatable \<longleftrightarrow>
      t \<in> {MessageTypeTyping, MessageTypeRead, MessageTypeDelivered, MessageTypeReaction,
           MessageTypeUserStatusChanged, MessageTypeHeartbeat, MessageTypeStream}" for t
    by (auto simp: GuaranteeForType_def guaranteeTypeDefaults_def split: if_splits)
  have r: "ResolveGuarantee h m =
      (if hm_DeliveryGuarantee m \<noteq> GuaranteeUnset then hm_DeliveryGuarantee m
       else case GuaranteeForType (hm_MessageType m) of Some g \<Rightarrow> g
         | None \<Rightarrow> if score_guaranteed h m \<or> hm_Priority m = PriorityCritical
                   then GuaranteeGuaranteed else GuaranteeStandard)"
    by (simp add: ResolveGuarantee_def GuaranteeForType_def split: option.split)
  show ?thesis
    unfolding table [symmetric] r
    using GuaranteeForType_never_unset [of "hm_MessageType m"]
    by (cases "GuaranteeForType (hm_MessageType m)") (auto simp: IsExpress_def)
qed

text \<open>Classification reaches the decision.  On a message with no explicit level and no type default,
  attaching a classification makes the message guaranteed exactly when the score is at least 90 or the
  priority is critical, and standard otherwise; the classification is read back.\<close>

theorem classification_decides:
  assumes "hm_DeliveryGuarantee m = GuaranteeUnset" and "GuaranteeForType (hm_MessageType m) = None"
    and "WithClassification (Some c) h m = (h', m')"
  shows "GetClassification h' m' = Some c \<and>
         ResolveGuarantee h' m' =
           (if GetFinalPriority c \<ge> 90 \<or> hm_Priority m = PriorityCritical
            then GuaranteeGuaranteed else GuaranteeStandard)"
proof (cases "hm_Data m")
  case None
  with assms show ?thesis
    by (auto simp: WithClassification_def data_put_def ensure_data_def dh_alloc_def GetClassification_def
        ResolveGuarantee_def score_guaranteed_def GuaranteeForType_def ClassificationGuaranteedScore_def)
next
  case (Some d)
  with assms show ?thesis
    by (auto simp: WithClassification_def data_put_def ensure_data_def GetClassification_def map_of_update
        ResolveGuarantee_def score_guaranteed_def GuaranteeForType_def ClassificationGuaranteedScore_def)
qed

text \<open>The envelope and the context agree.  After \<open>InjectRoute\<close> the message has a non-empty
  application id, no value the envelope already had is overwritten, the returned context routes exactly
  like the envelope, and a context rebuilt later from the envelope alone routes the same way.\<close>

theorem inject_route_consistent:
  assumes "InjectRoute extractTraceID ctx m = (m', ctx')"
  shows "hm_AppID m' \<noteq> [] \<and>
         (hm_AppID m \<noteq> [] \<longrightarrow> hm_AppID m' = hm_AppID m) \<and>
         (hm_Namespace m \<noteq> [] \<longrightarrow> hm_Namespace m' = hm_Namespace m) \<and>
         (hm_GroupIDs m \<noteq> None \<longrightarrow> hm_GroupIDs m' = hm_GroupIDs m) \<and>
         (hm_TraceID m \<noteq> [] \<longrightarrow> hm_TraceID m' = hm_TraceID m) \<and>
         AppIDFromContext ctx' = hm_AppID m' \<and> NamespaceFromContext ctx' = hm_Namespace m' \<and>
         slice (GroupIDsFromContext ctx') = slice (hm_GroupIDs m') \<and>
         AppIDFromContext (RouteContext parent m') = AppIDFromContext ctx' \<and>
         NamespaceFromContext (RouteContext parent m') = NamespaceFromContext ctx' \<and>
         slice (GroupIDsFromContext (RouteContext parent m')) = slice (GroupIDsFromContext ctx')"
proof -
  have ctx': "ctx' = Inject (envelope_route m') ctx"
    and m': "hm_AppID m' = (if hm_AppID m = [] then NormalizeAppID (AppIDFromContext ctx) else hm_AppID m)"
      "hm_Namespace m' = (if hm_Namespace m = [] then NamespaceFromContext ctx else hm_Namespace m)"
      "hm_GroupIDs m \<noteq> None \<Longrightarrow> hm_GroupIDs m' = hm_GroupIDs m"
      "hm_TraceID m \<noteq> [] \<Longrightarrow> hm_TraceID m' = hm_TraceID m"
    using assms by (auto simp: InjectRoute_def Let_def split: if_splits)
  then have "hm_AppID m' \<noteq> []" by simp
  with ctx' m' show ?thesis
    by (simp add: RouteContext_fields record_simps NormalizeAppID_id)
qed

text \<open>A nil metadata map.  \<open>WithAllMetadata\<close> stores a typed nil map as it is, and the next
  \<open>WithMetadata\<close> on that message panics, although the method is documented as nil safe.\<close>

theorem nil_metadata_map_panics:
  "case WithAllMetadata (AMap None) h m of (h', m') \<Rightarrow> WithMetadata k v h' m' = None"
  by (simp add: WithAllMetadata_def data_put_def ensure_data_def WithMetadata_def setMapValue_def
      dh_alloc_def map_of_update split: option.split)

section \<open>Witnesses\<close>

text \<open>A message whose data map holds a nil metadata map, a content_extra map and a classification.\<close>

definition demo_class :: MessageClassification where
  "demo_class = \<lparr>mc_Type = MessageTypeText, mc_Priority = MessagePriorityUrgent, mc_VIPLevel = VIPLevelV8,
     mc_UrgencyLevel = UrgencyLevelHigh, mc_BusinessCategory = BusinessCategoryFinance,
     mc_Timestamp = 0, mc_UserID = ''u''\<rparr>"

definition demo_heap :: DataHeap where
  "demo_heap = \<lparr>dh_next = 2, dh_objs = (\<lambda>a. if a = 0 then
       [(DataKeyMetadata, AMap None), (DataKeyContentExtra, AMap (Some 1))]
     else if a = 1 then [(''x'', AStr ''1'')] else [])\<rparr>"

definition demo_msg :: HubMessage where
  "demo_msg = zero_message\<lparr>hm_Sender := ''alice'', hm_Receiver := ''bob'', hm_MessageType := MessageTypeText,
     hm_Data := Some 0\<rparr>"

lemma demo_msg_wf: "msg_wf demo_heap demo_msg"
  by (auto simp: msg_wf_def demo_heap_def demo_msg_def zero_message_def DataKeyMetadata_def
      DataKeyContentExtra_def split: if_splits)

theorem clone_isolated_witness:
  "\<exists>h2 c'. setMapValue DataKeyContentExtra ''x'' (AStr ''2'') (fst (Clone demo_heap demo_msg)) (snd (Clone demo_heap demo_msg))
       = Some (h2, c') \<and>
     getMapValue DataKeyContentExtra ''x'' h2 c' = Some (AStr ''2'') \<and>
     getMapValue DataKeyContentExtra ''x'' h2 demo_msg = Some (AStr ''1'')"
proof -
  have "getMapValue DataKeyContentExtra ''x'' demo_heap demo_msg = Some (AStr ''1'')"
    by (simp add: getMapValue_def demo_heap_def demo_msg_def zero_message_def DataKeyContentExtra_def DataKeyMetadata_def)
  then show ?thesis
    using clone_isolated [OF demo_msg_wf prod.collapse [symmetric], of DataKeyContentExtra "''x''" "AStr ''2''"]
    by auto
qed

theorem observer_copy_isolated_witness:
  "\<exists>h' c. ObserverCopy (\<lambda>_ _. Some ''{}'') demo_heap demo_msg = Some (h', Some (c, ''{}'')) \<and>
     GetMetadata ''original_sender'' h' c = Some ''alice'' \<and>
     getMapValue DataKeyMetadata ''original_sender'' h' demo_msg = None"
proof -
  have "getMapValue DataKeyMetadata ''original_sender'' demo_heap demo_msg = None"
    by (simp add: getMapValue_def demo_heap_def demo_msg_def zero_message_def DataKeyMetadata_def)
  moreover have "hm_Sender demo_msg = ''alice''" by (simp add: demo_msg_def)
  ultimately show ?thesis
    using observer_copy_isolated [OF demo_msg_wf, of "\<lambda>_ _. Some ''{}''"] by auto
qed

theorem classification_decides_witness:
  "ResolveGuarantee (fst (WithClassification (Some demo_class) demo_heap demo_msg))
     (snd (WithClassification (Some demo_class) demo_heap demo_msg)) = GuaranteeGuaranteed"
  using classification_decides [OF _ _ prod.collapse [symmetric], of demo_msg demo_class demo_heap]
  by (simp add: demo_msg_def zero_message_def demo_class_def GuaranteeForType_def guaranteeTypeDefaults_def
      GetFinalPriority_def GetWeight_def VIPLevel_GetLevel_def UrgencyLevel_GetLevel_def category_bonus_def)

theorem inject_route_consistent_witness:
  "hm_Namespace (fst (InjectRoute (\<lambda>_. ''t1'') demo_sender demo_msg)) = ''eu'' \<and>
   NamespaceFromContext (RouteContext demo_receiver (fst (InjectRoute (\<lambda>_. ''t1'') demo_sender demo_msg))) = ''eu''"
proof -
  have "hm_Namespace (fst (InjectRoute (\<lambda>_. ''t1'') demo_sender demo_msg)) = ''eu''"
    by (simp add: InjectRoute_def Let_def demo_msg_def zero_message_def demo_sender_def demo_rc_def
        NamespaceFromContext_def RoutingFromContext_def)
  then show ?thesis
    using inject_route_consistent [OF prod.collapse [symmetric], of "\<lambda>_. ''t1''" demo_sender demo_msg demo_receiver]
    by simp
qed

end
