(* ===== verification/Admission.thy ===== *)
theory Admission
  imports Message
begin

text \<open>
  The admission gate of overload/admission.go: a level between L0 and L4 that a periodic
  evaluation moves with the backlog, and the verdict for one message at the current level.

  \<^item> \<open>AdmissionGate\<close> is the struct.  The bound backlog counter belongs to the hub and changes
    under the gate; \<open>ag_pending\<close> is the value a load returns (\<open>None\<close>: no counter is bound).
    The stop channel is the flag \<open>ag_stopped\<close>, and \<open>ag_loops\<close> counts the evaluation goroutines
    that were started.
  \<^item> \<open>evaluate\<close> is one tick of \<open>evaluateLoop\<close>; \<open>gate_step\<close> is the transition relation of the
    gate with its users (start, stop, ticks of the running loop, backlog changes).
  \<^item> The int32 streak counter is an \<open>int\<close>: it grows by one per tick, so at the default interval
    of 500 ms it would take 34 years to wrap.
\<close>

section \<open>Definitions\<close>

type_synonym OverloadLevel = int

abbreviation (input) LevelNormal :: OverloadLevel where "LevelNormal \<equiv> 0"
abbreviation (input) LevelDelayStandard :: OverloadLevel where "LevelDelayStandard \<equiv> 1"
abbreviation (input) LevelDelayBroadcast :: OverloadLevel where "LevelDelayBroadcast \<equiv> 2"
abbreviation (input) LevelCriticalOnly :: OverloadLevel where "LevelCriticalOnly \<equiv> 3"
abbreviation (input) LevelReadOnly :: OverloadLevel where "LevelReadOnly \<equiv> 4"

definition OverloadLevel_String :: "OverloadLevel \<Rightarrow> string" where
  "OverloadLevel_String l =
     (if l = LevelReadOnly then ''L4_readonly'' else if l = LevelCriticalOnly then ''L3_critical_only''
      else if l = LevelDelayBroadcast then ''L2_delay_broadcast''
      else if l = LevelDelayStandard then ''L1_delay_standard'' else ''L0_normal'')"

datatype AdmitVerdict = VerdictAdmit | VerdictDelay | VerdictOffline

record AdmissionGate =
  ag_pending :: "int option"
  ag_level :: OverloadLevel
  ag_written :: int
  ag_delivered :: int
  ag_highWatermark :: int
  ag_lowWatermark :: int
  ag_cooldownLevels :: int
  ag_evalInterval :: int
  ag_lowStreak :: int
  ag_lastLevelChangeAt :: int
  ag_started :: bool
  ag_stopped :: bool
  ag_loops :: nat

definition DefaultAdmissionHighWatermark :: int where "DefaultAdmissionHighWatermark = 8000"
definition DefaultAdmissionLowWatermark :: int where "DefaultAdmissionLowWatermark = 2000"
definition DefaultAdmissionEvalInterval :: int where "DefaultAdmissionEvalInterval = 500000000"
definition DefaultAdmissionCooldownLevels :: int where "DefaultAdmissionCooldownLevels = 3"

definition NewAdmissionGate :: "int \<Rightarrow> int \<Rightarrow> int \<Rightarrow> AdmissionGate" where
  "NewAdmissionGate highWatermark lowWatermark evalInterval =
     (let highWatermark = (if highWatermark \<le> 0 then DefaultAdmissionHighWatermark else highWatermark);
          lowWatermark = (if lowWatermark \<le> 0 then DefaultAdmissionLowWatermark else lowWatermark);
          lowWatermark = (if lowWatermark \<ge> highWatermark then highWatermark div 4 else lowWatermark);
          evalInterval = (if evalInterval \<le> 0 then DefaultAdmissionEvalInterval else evalInterval)
      in \<lparr>ag_pending = None, ag_level = LevelNormal, ag_written = 0, ag_delivered = 0,
          ag_highWatermark = highWatermark, ag_lowWatermark = lowWatermark,
          ag_cooldownLevels = DefaultAdmissionCooldownLevels, ag_evalInterval = evalInterval,
          ag_lowStreak = 0, ag_lastLevelChangeAt = 0, ag_started = False, ag_stopped = False,
          ag_loops = 0\<rparr>)"

definition Gate_Start :: "AdmissionGate \<Rightarrow> AdmissionGate" where
  "Gate_Start g =
     (if ag_stopped g then g
      else if ag_started g then g
      else g\<lparr>ag_started := True, ag_loops := Suc (ag_loops g)\<rparr>)"

definition Gate_Stop :: "AdmissionGate \<Rightarrow> AdmissionGate" where
  "Gate_Stop g = (if ag_stopped g then g else g\<lparr>ag_stopped := True\<rparr>)"

definition Backlog :: "AdmissionGate \<Rightarrow> int" where
  "Backlog g = (case ag_pending g of Some n \<Rightarrow> max 0 n | None \<Rightarrow> 0)"

text \<open>The body of the ticker case of \<open>evaluateLoop\<close>.\<close>

definition evaluate :: "int \<Rightarrow> AdmissionGate \<Rightarrow> AdmissionGate" where
  "evaluate now g =
     (let backlog = Backlog g;
          current = ag_level g
      in if backlog > ag_highWatermark g then
           (let g = (if current < LevelReadOnly
                     then g\<lparr>ag_level := current + 1, ag_lastLevelChangeAt := now\<rparr> else g)
            in g\<lparr>ag_lowStreak := 0\<rparr>)
         else if backlog < ag_lowWatermark g then
           (let streak = ag_lowStreak g + 1;
                g = g\<lparr>ag_lowStreak := streak\<rparr>
            in if streak \<ge> ag_cooldownLevels g \<and> current > LevelNormal
               then g\<lparr>ag_level := current - 1, ag_lastLevelChangeAt := now, ag_lowStreak := 0\<rparr>
               else g)
         else g\<lparr>ag_lowStreak := 0\<rparr>)"

definition Admit :: "DataHeap \<Rightarrow> AdmissionGate \<Rightarrow> HubMessage \<Rightarrow> bool \<Rightarrow> AdmitVerdict" where
  "Admit h g msg isBroadcast =
     (let guarantee = ResolveGuarantee h msg;
          level = ag_level g
      in if guarantee = GuaranteeGuaranteed then VerdictAdmit
         else if level = LevelNormal then VerdictAdmit
         else if level = LevelDelayStandard then
           (if guarantee = GuaranteeEphemeral then VerdictAdmit
            else if isBroadcast then VerdictDelay else VerdictDelay)
         else if level = LevelDelayBroadcast then
           (if guarantee = GuaranteeEphemeral then VerdictAdmit else VerdictOffline)
         else if level = LevelCriticalOnly then
           (if guarantee = GuaranteeEphemeral then VerdictAdmit else VerdictOffline)
         else if level = LevelReadOnly then
           (if guarantee = GuaranteeEphemeral then VerdictAdmit else VerdictOffline)
         else VerdictAdmit)"

definition OnDelivered :: "AdmissionGate \<Rightarrow> AdmissionGate" where
  "OnDelivered g = g\<lparr>ag_delivered := ag_delivered g + 1\<rparr>"

definition OnWriteBatch :: "int \<Rightarrow> AdmissionGate \<Rightarrow> AdmissionGate" where
  "OnWriteBatch n g = g\<lparr>ag_written := ag_written g + n\<rparr>"

definition SetPendingCounter :: "int option \<Rightarrow> AdmissionGate \<Rightarrow> AdmissionGate" where
  "SetPendingCounter counter g = g\<lparr>ag_pending := counter\<rparr>"

definition ForceLevel :: "int \<Rightarrow> OverloadLevel \<Rightarrow> AdmissionGate \<Rightarrow> AdmissionGate" where
  "ForceLevel now level g = g\<lparr>ag_level := level, ag_lastLevelChangeAt := now\<rparr>"

record AdmissionStats =
  as_Level :: OverloadLevel
  as_Backlog :: int
  as_Written :: int
  as_Delivered :: int

definition Gate_Stats :: "AdmissionGate \<Rightarrow> AdmissionStats" where
  "Gate_Stats g = \<lparr>as_Level = ag_level g, as_Backlog = Backlog g,
                   as_Written = ag_written g, as_Delivered = ag_delivered g\<rparr>"

text \<open>
  The gate and its environment.  The loop ticks once started until it is stopped; the hub
  moves the counter; the entry points record deliveries and writes.
\<close>

inductive gate_step :: "AdmissionGate \<Rightarrow> AdmissionGate \<Rightarrow> bool" where
  gs_start: "gate_step g (Gate_Start g)"
| gs_stop: "gate_step g (Gate_Stop g)"
| gs_tick: "ag_loops g > 0 \<Longrightarrow> \<not> ag_stopped g \<Longrightarrow> gate_step g (evaluate now g)"
| gs_pending: "gate_step g (SetPendingCounter c g)"
| gs_delivered: "gate_step g (OnDelivered g)"
| gs_written: "gate_step g (OnWriteBatch n g)"
| gs_force: "0 \<le> l \<Longrightarrow> l \<le> 4 \<Longrightarrow> gate_step g (ForceLevel now l g)"

text \<open>Ticks with the backlog values the loop reads.\<close>

fun ticks :: "(int \<times> int) list \<Rightarrow> AdmissionGate \<Rightarrow> AdmissionGate" where
  "ticks [] g = g"
| "ticks ((now, b) # bs) g = ticks bs (evaluate now (SetPendingCounter (Some b) g))"

section \<open>Lemmas\<close>

lemmas gate_defs = evaluate_def Gate_Start_def Gate_Stop_def SetPendingCounter_def OnDelivered_def
  OnWriteBatch_def ForceLevel_def Backlog_def Let_def

definition gate_inv :: "AdmissionGate \<Rightarrow> bool" where
  "gate_inv g \<longleftrightarrow>
     0 \<le> ag_level g \<and> ag_level g \<le> 4 \<and> ag_loops g \<le> 1 \<and> (ag_started g \<longleftrightarrow> ag_loops g = 1) \<and>
     ag_lowWatermark g < ag_highWatermark g \<and> 0 \<le> ag_lowWatermark g \<and> 0 \<le> ag_lowStreak g \<and>
     0 < ag_cooldownLevels g"

lemma NewAdmissionGate_inv: "gate_inv (NewAdmissionGate high low interval)"
proof -
  have "low div 4 < low \<and> 0 \<le> low div 4" if "0 < low" for low :: int
    using that by auto
  then show ?thesis
    by (simp add: gate_inv_def NewAdmissionGate_def Let_def DefaultAdmissionHighWatermark_def
        DefaultAdmissionLowWatermark_def DefaultAdmissionCooldownLevels_def)
qed

lemma gate_step_inv: "gate_inv g \<Longrightarrow> gate_step g g' \<Longrightarrow> gate_inv g'"
  by (erule gate_step.cases) (auto simp: gate_inv_def gate_defs split: if_splits)

interpretation gate: invariant_system
  "\<lambda>g. \<exists>high low interval. g = NewAdmissionGate high low interval" gate_step gate_inv
  by unfold_locales (auto intro: NewAdmissionGate_inv gate_step_inv)

lemma evaluate_params [simp]:
  "ag_highWatermark (evaluate now g) = ag_highWatermark g"
  "ag_lowWatermark (evaluate now g) = ag_lowWatermark g"
  "ag_cooldownLevels (evaluate now g) = ag_cooldownLevels g"
  "ag_highWatermark (SetPendingCounter c g) = ag_highWatermark g"
  "ag_lowWatermark (SetPendingCounter c g) = ag_lowWatermark g"
  "ag_cooldownLevels (SetPendingCounter c g) = ag_cooldownLevels g"
  "ag_level (SetPendingCounter c g) = ag_level g"
  "ag_lowStreak (SetPendingCounter c g) = ag_lowStreak g"
  by (simp_all add: gate_defs)

lemma ticks_params [simp]:
  "ag_highWatermark (ticks bs g) = ag_highWatermark g"
  "ag_lowWatermark (ticks bs g) = ag_lowWatermark g"
  "ag_cooldownLevels (ticks bs g) = ag_cooldownLevels g"
  by (induction bs g rule: ticks.induct) simp_all

lemma ticks_append: "ticks (xs @ ys) g = ticks ys (ticks xs g)"
  by (induction xs g rule: ticks.induct) simp_all

text \<open>One tick, by the zone of the backlog.\<close>

lemma tick_high:
  "ag_highWatermark g < b \<Longrightarrow> 0 \<le> b \<Longrightarrow>
     ag_level (evaluate now (SetPendingCounter (Some b) g)) = (if ag_level g < 4 then ag_level g + 1 else ag_level g) \<and>
     ag_lowStreak (evaluate now (SetPendingCounter (Some b) g)) = 0"
  by (simp add: gate_defs)

lemma tick_low:
  assumes "b < ag_lowWatermark g" and "0 < ag_lowWatermark g" and "ag_lowWatermark g < ag_highWatermark g"
  shows "ag_level (evaluate now (SetPendingCounter (Some b) g)) =
      (if ag_lowStreak g + 1 \<ge> ag_cooldownLevels g \<and> 0 < ag_level g then ag_level g - 1 else ag_level g)"
    and "ag_lowStreak (evaluate now (SetPendingCounter (Some b) g)) =
      (if ag_lowStreak g + 1 \<ge> ag_cooldownLevels g \<and> 0 < ag_level g then 0 else ag_lowStreak g + 1)"
proof -
  have "\<not> ag_highWatermark g < max 0 b" and "max 0 b < ag_lowWatermark g" using assms by auto
  then show "ag_level (evaluate now (SetPendingCounter (Some b) g)) =
      (if ag_lowStreak g + 1 \<ge> ag_cooldownLevels g \<and> 0 < ag_level g then ag_level g - 1 else ag_level g)"
    and "ag_lowStreak (evaluate now (SetPendingCounter (Some b) g)) =
      (if ag_lowStreak g + 1 \<ge> ag_cooldownLevels g \<and> 0 < ag_level g then 0 else ag_lowStreak g + 1)"
    by (simp_all add: gate_defs)
qed

text \<open>Any tick: the level falls only below the low watermark with a full streak, and the streak is
  the number of consecutive low readings.\<close>

lemma tick_cases:
  "ag_level (evaluate now (SetPendingCounter (Some b) g)) < ag_level g \<Longrightarrow>
     b < ag_lowWatermark g \<and> ag_cooldownLevels g \<le> ag_lowStreak g + 1"
  "ag_lowStreak (evaluate now (SetPendingCounter (Some b) g)) = 0 \<or>
     b < ag_lowWatermark g \<and> ag_lowStreak (evaluate now (SetPendingCounter (Some b) g)) = ag_lowStreak g + 1"
  by (auto simp: gate_defs split: if_splits)

lemma streak_suffix:
  assumes "ag_lowStreak g = 0"
  shows "0 \<le> ag_lowStreak (ticks bs g) \<and> nat (ag_lowStreak (ticks bs g)) \<le> length bs \<and>
         (\<forall>x\<in>set (drop (length bs - nat (ag_lowStreak (ticks bs g))) bs). snd x < ag_lowWatermark g)"
proof (induction bs rule: rev_induct)
  case Nil
  then show ?case using assms by simp
next
  case (snoc x bs)
  obtain now b where x: "x = (now, b)" by force
  define s where "s = ag_lowStreak (ticks bs g)"
  define s' where "s' = ag_lowStreak (ticks (bs @ [x]) g)"
  have "s' = 0 \<or> b < ag_lowWatermark g \<and> s' = s + 1"
    using tick_cases(2) [of now b "ticks bs g"] by (simp add: s_def s'_def ticks_append x)
  then show ?case
  proof
    assume "s' = 0"
    then show ?thesis by (simp add: s'_def [symmetric])
  next
    assume s': "b < ag_lowWatermark g \<and> s' = s + 1"
    have s: "0 \<le> s" "nat s \<le> length bs" "\<forall>x\<in>set (drop (length bs - nat s) bs). snd x < ag_lowWatermark g"
      using snoc by (simp_all add: s_def)
    have "nat s' = Suc (nat s)" using s' s(1) by simp
    then show ?thesis unfolding s'_def [symmetric] using s s' x by auto
  qed
qed

text \<open>A run of low readings.\<close>

lemma low_run_normal:
  assumes "ag_level g = 0" and "\<forall>x\<in>set bs. snd x < ag_lowWatermark g"
    and "0 < ag_lowWatermark g" and "ag_lowWatermark g < ag_highWatermark g"
  shows "ag_level (ticks bs g) = 0"
  using assms
proof (induction bs g rule: ticks.induct)
  case (1 g)
  then show ?case by simp
next
  case (2 now b bs g)
  then show ?case by (simp add: tick_low)
qed

lemma low_run:
  assumes "0 \<le> ag_level g" and "0 \<le> ag_lowStreak g" and "ag_lowStreak g < ag_cooldownLevels g"
    and "\<forall>x\<in>set bs. snd x < ag_lowWatermark g"
    and "0 < ag_lowWatermark g" and "ag_lowWatermark g < ag_highWatermark g"
  shows "ag_level (ticks bs g) = max 0 (ag_level g - (ag_lowStreak g + int (length bs)) div ag_cooldownLevels g)"
  using assms
proof (induction bs g rule: ticks.induct)
  case (1 g)
  then show ?case by simp
next
  case (2 now b bs g)
  define g' where "g' = evaluate now (SetPendingCounter (Some b) g)"
  note low = tick_low [of b g now, folded g'_def]
  have b: "b < ag_lowWatermark g" using "2.prems"(4) by simp
  note lvl = low(1) [OF b "2.prems"(5,6)] and str = low(2) [OF b "2.prems"(5,6)]
  have par: "ag_cooldownLevels g' = ag_cooldownLevels g" "ag_lowWatermark g' = ag_lowWatermark g"
    "ag_highWatermark g' = ag_highWatermark g" by (simp_all add: g'_def)
  show ?case
  proof (cases "ag_level g = 0")
    case True
    have "ag_level (ticks bs g') = 0"
      by (rule low_run_normal) (use "2.prems" True lvl par in auto)
    moreover have "0 \<le> (ag_lowStreak g + int (length ((now, b) # bs))) div ag_cooldownLevels g"
      using "2.prems"(2,3) by (intro pos_imp_zdiv_nonneg_iff [THEN iffD2]) auto
    ultimately show ?thesis using True by (simp add: g'_def)
  next
    case False
    show ?thesis
    proof (cases "ag_lowStreak g + 1 \<ge> ag_cooldownLevels g")
      case True
      with False "2.prems"(1,3) lvl str have l: "ag_level g' = ag_level g - 1" and s: "ag_lowStreak g' = 0"
        and full: "ag_lowStreak g + 1 = ag_cooldownLevels g" by auto
      have "ag_level (ticks bs g') = max 0 (ag_level g - 1 - int (length bs) div ag_cooldownLevels g)"
        using "2.IH" [folded g'_def] "2.prems" l s par False by simp
      moreover have "(ag_lowStreak g + int (length ((now, b) # bs))) div ag_cooldownLevels g =
          1 + int (length bs) div ag_cooldownLevels g"
      proof -
        have "ag_lowStreak g + int (length ((now, b) # bs)) = ag_cooldownLevels g + int (length bs)"
          using full by simp
        then show ?thesis using "2.prems"(2,3) by (simp only: div_add_self1)
      qed
      ultimately show ?thesis by (simp add: g'_def algebra_simps)
    next
      case nofull: False
      with lvl str have l: "ag_level g' = ag_level g" and s: "ag_lowStreak g' = ag_lowStreak g + 1" by auto
      have "ag_level (ticks bs g') = max 0 (ag_level g - (ag_lowStreak g + 1 + int (length bs)) div ag_cooldownLevels g)"
        using "2.IH" [folded g'_def] "2.prems" l s par nofull by simp
      then show ?thesis by (simp add: g'_def algebra_simps)
    qed
  qed
qed

section \<open>Properties\<close>

text \<open>The gate in any interleaving of starts, stops, ticks, backlog changes and records stays
  between L0 and L4, never runs more than one evaluation loop, and keeps a non-empty hysteresis
  interval.\<close>

theorem gate_reachable_invariant:
  assumes "reach (\<lambda>g. \<exists>high low interval. g = NewAdmissionGate high low interval) gate_step g"
  shows "0 \<le> ag_level g \<and> ag_level g \<le> 4 \<and> ag_loops g \<le> 1 \<and> ag_lowWatermark g < ag_highWatermark g"
  using gate.reach_inv [OF assms] by (simp add: gate_inv_def)

theorem gate_reachable_invariant_witness:
  "ag_loops (Gate_Start (Gate_Start (NewAdmissionGate 0 0 0))) \<le> 1"
proof -
  have "reach (\<lambda>g. \<exists>high low interval. g = NewAdmissionGate high low interval) gate_step
      (Gate_Start (Gate_Start (NewAdmissionGate 0 0 0)))"
    by (rule reach_step [where step = gate_step, OF _ gs_start])+ (auto intro: reach_init)
  from gate_reachable_invariant [OF this] show ?thesis by simp
qed

text \<open>Fast up.  Under sustained overload every tick raises the level by one until L4.\<close>

theorem gate_overload_ramp:
  assumes "0 \<le> ag_level g" and "ag_level g \<le> 4" and "0 \<le> ag_highWatermark g"
    and "\<forall>x\<in>set bs. ag_highWatermark g < snd x"
  shows "ag_level (ticks bs g) = min 4 (ag_level g + int (length bs))"
  using assms
proof (induction bs g rule: ticks.induct)
  case (1 g)
  then show ?case by simp
next
  case (2 now b bs g)
  define g' where "g' = evaluate now (SetPendingCounter (Some b) g)"
  have l: "ag_level g' = (if ag_level g < 4 then ag_level g + 1 else ag_level g)"
    using "2.prems" tick_high [of g b now] by (simp add: g'_def)
  have "ag_level (ticks bs g') = min 4 (ag_level g' + int (length bs))"
    using "2.IH" [folded g'_def] "2.prems" l by (simp add: g'_def)
  with l "2.prems" show ?case by (auto simp: g'_def [symmetric])
qed

theorem gate_overload_ramp_witness:
  "ag_level (ticks [(0, 9000), (1, 9001), (2, 9002), (3, 9003), (4, 9004)] (NewAdmissionGate 8000 2000 0)) = 4"
  using gate_overload_ramp [of "NewAdmissionGate 8000 2000 0"
      "[(0, 9000), (1, 9001), (2, 9002), (3, 9003), (4, 9004)]"]
  by (simp add: NewAdmissionGate_def)

text \<open>C35: Slow down.  From level \<open>l\<close> with no streak, \<open>n\<close> consecutive readings below a positive low
  watermark lower the level by one for every \<open>cooldownLevels\<close> of them, down to L0.\<close>

theorem gate_recovery:
  assumes "0 \<le> ag_level g" and "ag_lowStreak g = 0" and "0 < ag_cooldownLevels g"
    and "0 < ag_lowWatermark g" and "ag_lowWatermark g < ag_highWatermark g"
    and "\<forall>x\<in>set bs. snd x < ag_lowWatermark g"
  shows "ag_level (ticks bs g) = max 0 (ag_level g - int (length bs) div ag_cooldownLevels g)"
  using low_run [of g bs] assms by simp

theorem gate_recovery_witness:
  "ag_level (ticks [(0, 1), (1, 2), (2, 3), (3, 4), (4, 5), (5, 6), (6, 0)]
     (ForceLevel 0 4 (NewAdmissionGate 8000 2000 0))) = 2"
  using gate_recovery [of "ForceLevel 0 4 (NewAdmissionGate 8000 2000 0)"
      "[(0, 1), (1, 2), (2, 3), (3, 4), (4, 5), (5, 6), (6, 0)]"]
  by (simp add: NewAdmissionGate_def ForceLevel_def DefaultAdmissionCooldownLevels_def)

text \<open>No flapping.  On a new gate the level drops at a tick only when that reading and the
  readings before it form a run of \<open>cooldownLevels\<close> readings that all lie below the low watermark.\<close>

theorem gate_drop_needs_cooldown:
  assumes "g = NewAdmissionGate high low interval"
    and "ag_level (ticks (bs @ [b]) g) < ag_level (ticks bs g)"
  shows "nat (ag_cooldownLevels g) \<le> length (bs @ [b]) \<and>
         (\<forall>x\<in>set (drop (length (bs @ [b]) - nat (ag_cooldownLevels g)) (bs @ [b])). snd x < ag_lowWatermark g)"
proof -
  obtain now v where b: "b = (now, v)" by force
  define s where "s = ag_lowStreak (ticks bs g)"
  have "ag_lowStreak g = 0" by (simp add: assms(1) NewAdmissionGate_def Let_def)
  note suf = streak_suffix [OF this, of bs, folded s_def]
  have drop: "v < ag_lowWatermark g" "ag_cooldownLevels g \<le> s + 1"
    using tick_cases(1) [of now v "ticks bs g"] assms(2) by (simp_all add: ticks_append b s_def)
  have "drop (length bs - nat s) bs @ [b] = drop (length (bs @ [b]) - Suc (nat s)) (bs @ [b])"
    using suf by simp
  moreover have "length (bs @ [b]) - Suc (nat s) \<le> length (bs @ [b]) - nat (ag_cooldownLevels g)"
    using drop suf by linarith
  ultimately have "set (drop (length (bs @ [b]) - nat (ag_cooldownLevels g)) (bs @ [b]))
      \<subseteq> set (drop (length bs - nat s) bs @ [b])"
    by (metis set_drop_subset_set_drop)
  with suf drop b show ?thesis by auto
qed

theorem gate_drop_needs_cooldown_witness:
  "ag_level (ticks [(0, 9000), (1, 10), (2, 20), (3, 30)] (NewAdmissionGate 8000 2000 0)) = 0 \<and>
   list_all (\<lambda>x. snd x < 2000) (drop 1 [(0, 9000), (1, 10), (2, 20), (3, 30::int)])"
  using gate_drop_needs_cooldown [of "NewAdmissionGate 8000 2000 0" 8000 2000 0
      "[(0, 9000), (1, 10), (2, 20)]" "(3, 30)"]
  by (simp add: NewAdmissionGate_def evaluate_def SetPendingCounter_def Backlog_def Let_def
      DefaultAdmissionCooldownLevels_def)

text \<open>A gate that cannot recover.  With a high watermark of 1, 2 or 3 and a low watermark that is
  unset or not below it, the substituted low watermark is 0; the backlog is never below 0, so no
  sequence of readings ever lowers the level.\<close>

theorem gate_tiny_watermark_stuck:
  assumes "0 < high" and "high \<le> 3" and "low \<le> 0 \<or> high \<le> low"
  shows "ag_level (ticks bs (ForceLevel now l (NewAdmissionGate high low interval))) \<ge> l"
proof -
  have "ag_lowWatermark (NewAdmissionGate high low interval) = 0"
    using assms by (auto simp: NewAdmissionGate_def Let_def DefaultAdmissionLowWatermark_def)
  then have "ag_lowWatermark (ForceLevel now l (NewAdmissionGate high low interval)) = 0"
    by (simp add: ForceLevel_def)
  moreover have "ag_lowWatermark g = 0 \<Longrightarrow> ag_level (ticks bs g) \<ge> ag_level g" for g
  proof (induction bs g rule: ticks.induct)
    case (1 g)
    then show ?case by simp
  next
    case (2 t b bs g)
    have "ag_level g \<le> ag_level (evaluate t (SetPendingCounter (Some b) g))"
      using "2.prems" by (auto simp: gate_defs)
    with 2 show ?case by fastforce
  qed
  moreover have "ag_level (ForceLevel now l (NewAdmissionGate high low interval)) = l"
    by (simp add: ForceLevel_def)
  ultimately show ?thesis by metis
qed

theorem gate_tiny_watermark_stuck_witness:
  "ag_level (ticks [(0, 0), (1, 0), (2, 0), (3, 0)] (ForceLevel 0 4 (NewAdmissionGate 2 0 0))) \<ge> 4"
  by (rule gate_tiny_watermark_stuck) simp_all



end
