(* ===== verification/Shaper.thy ===== *)
theory Shaper
  imports Prelude
begin

text \<open>
  The outbound shaper of overload/tokenbucket.go, a GCRA limiter with one atomic
  theoretical arrival time.

  \<^item> \<open>Allow\<close> is the decision of one call at time \<open>now\<close> (nanoseconds) when no other call
    interferes.
  \<^item> \<open>allow_cas\<close> is the compare-and-swap loop of the source: \<open>env\<close> lists what other calls
    store into the arrival time between a load and the following swap.
  \<^item> The 64-bit times are \<open>int\<close>: a nanosecond clock stays below 2^63 until the year 2262.
\<close>

section \<open>Definitions\<close>

record Shaper =
  sp_tat :: int
  sp_ratePerSec :: int
  sp_burstTime :: int

definition DefaultBroadcastShaperRate :: int where "DefaultBroadcastShaperRate = 10000"
definition second_ns :: int where "second_ns = 1000000000"

definition NewShaper :: "int \<Rightarrow> int \<Rightarrow> Shaper" where
  "NewShaper now ratePerSec =
     (let ratePerSec = (if ratePerSec \<le> 0 then DefaultBroadcastShaperRate else ratePerSec)
      in \<lparr>sp_tat = now, sp_ratePerSec = ratePerSec, sp_burstTime = 100 * 1000000\<rparr>)"

definition Interval :: "Shaper \<Rightarrow> int" where
  "Interval s = (if sp_ratePerSec s \<le> 0 then 0 else second_ns div sp_ratePerSec s)"

definition Allow :: "int \<Rightarrow> Shaper \<Rightarrow> bool \<times> Shaper" where
  "Allow now s =
     (let interval = Interval s
      in if interval \<le> 0 then (True, s)
         else let tat = sp_tat s
              in if now + sp_burstTime s < tat then (False, s)
                 else let newTAT = (if tat < now then now else tat)
                      in (True, s\<lparr>sp_tat := newTAT + interval\<rparr>))"

text \<open>
  The loop with interference.  Each element of \<open>env\<close> is the arrival time that another call has
  stored when this call reaches its swap; \<open>None\<close>: nobody stored, the swap succeeds.  When the
  list is used up nobody interferes any more.
\<close>

fun allow_cas :: "int \<Rightarrow> int option list \<Rightarrow> Shaper \<Rightarrow> bool \<times> Shaper" where
  "allow_cas now env s =
     (let interval = Interval s
      in if interval \<le> 0 then (True, s)
         else let tat = sp_tat s
              in if now + sp_burstTime s < tat then (False, s)
                 else let newTAT = (if tat < now then now else tat) + interval
                      in case env of
                           [] \<Rightarrow> (True, s\<lparr>sp_tat := newTAT\<rparr>)
                         | None # _ \<Rightarrow> (True, s\<lparr>sp_tat := newTAT\<rparr>)
                         | Some t # rest \<Rightarrow>
                             if t = tat then (True, s\<lparr>sp_tat := newTAT\<rparr>)
                             else allow_cas now rest (s\<lparr>sp_tat := t\<rparr>))"

definition SetRate :: "int \<Rightarrow> Shaper \<Rightarrow> Shaper" where
  "SetRate ratePerSec s = s\<lparr>sp_ratePerSec := (if ratePerSec < 1 then 1 else ratePerSec)\<rparr>"

definition Rate :: "Shaper \<Rightarrow> int" where
  "Rate s = sp_ratePerSec s"

text \<open>A sequence of calls at the given times, and how many were allowed.\<close>

fun allow_run :: "int list \<Rightarrow> Shaper \<Rightarrow> nat \<times> Shaper" where
  "allow_run [] s = (0, s)"
| "allow_run (now # ts) s =
     (let (ok, s') = Allow now s; (n, s'') = allow_run ts s'
      in ((if ok then Suc n else n), s''))"

declare allow_cas.simps [simp del]

section \<open>Lemmas\<close>

lemma Allow_params [simp]:
  "sp_ratePerSec (snd (Allow now s)) = sp_ratePerSec s"
  "sp_burstTime (snd (Allow now s)) = sp_burstTime s"
  "Interval (snd (Allow now s)) = Interval s"
  by (simp_all add: Allow_def Let_def Interval_def)

lemma Allow_iff: "fst (Allow now s) \<longleftrightarrow> Interval s \<le> 0 \<or> sp_tat s \<le> now + sp_burstTime s"
  by (auto simp: Allow_def Let_def)

lemma Allow_tat:
  "0 < Interval s \<Longrightarrow> sp_tat (snd (Allow now s)) =
     (if sp_tat s \<le> now + sp_burstTime s then max (sp_tat s) now + Interval s else sp_tat s)"
  by (auto simp: Allow_def Let_def)

text \<open>Every allowed call moves the arrival time by at least one interval, and never further than
  burst and one interval past the last call.\<close>

lemma allow_run_tat:
  assumes "0 < Interval s"
  shows "sp_tat s + int (fst (allow_run ts s)) * Interval s \<le> sp_tat (snd (allow_run ts s))"
  using assms
proof (induction ts arbitrary: s)
  case Nil
  then show ?case by simp
next
  case (Cons now ts)
  define s' where "s' = snd (Allow now s)"
  have i: "Interval s' = Interval s" by (simp add: s'_def)
  have "sp_tat s' + int (fst (allow_run ts s')) * Interval s \<le> sp_tat (snd (allow_run ts s'))"
    using Cons.IH [of s'] Cons.prems i by simp
  moreover have "sp_tat s + (if fst (Allow now s) then Interval s else 0) \<le> sp_tat s'"
    using Cons.prems by (auto simp: s'_def Allow_tat Allow_iff)
  ultimately show ?case
    using Cons.prems by (auto simp: split_beta s'_def [symmetric] algebra_simps split: if_splits)
qed

lemma allow_run_cap:
  assumes "0 < Interval s" and "\<forall>t\<in>set ts. t \<le> T" and "0 \<le> sp_burstTime s"
  shows "sp_tat (snd (allow_run ts s)) \<le> max (sp_tat s) (T + sp_burstTime s + Interval s)"
  using assms
proof (induction ts arbitrary: s)
  case Nil
  then show ?case by simp
next
  case (Cons now ts)
  define s' where "s' = snd (Allow now s)"
  have par: "Interval s' = Interval s" "sp_burstTime s' = sp_burstTime s" by (simp_all add: s'_def)
  have "sp_tat (snd (allow_run ts s')) \<le> max (sp_tat s') (T + sp_burstTime s + Interval s)"
    using Cons.IH [of s'] Cons.prems par by simp
  moreover have "sp_tat s' \<le> max (sp_tat s) (T + sp_burstTime s + Interval s)"
    using Cons.prems by (auto simp: s'_def Allow_tat)
  ultimately show ?case by (simp add: split_beta s'_def [symmetric])
qed

text \<open>A burst: calls at one instant, from an arrival time that is not ahead of the clock.\<close>

lemma burst_run:
  assumes "0 < Interval s" and "now \<le> sp_tat s" and "sp_tat s + int n * Interval s \<le> now + sp_burstTime s + Interval s"
  shows "fst (allow_run (replicate n now) s) = n \<and>
         sp_tat (snd (allow_run (replicate n now) s)) = sp_tat s + int n * Interval s"
  using assms
proof (induction n arbitrary: s)
  case 0
  then show ?case by simp
next
  case (Suc n)
  define s' where "s' = snd (Allow now s)"
  have par: "Interval s' = Interval s" "sp_burstTime s' = sp_burstTime s" by (simp_all add: s'_def)
  have le: "sp_tat s \<le> now + sp_burstTime s"
  proof -
    have "0 \<le> int n * Interval s" using Suc.prems(1) by simp
    with Suc.prems(3) show ?thesis by (simp add: algebra_simps)
  qed
  then have tat: "sp_tat s' = sp_tat s + Interval s" and ok: "fst (Allow now s)"
    using Suc.prems by (auto simp: s'_def Allow_tat Allow_iff)
  from Suc.IH [of s'] Suc.prems par tat ok show ?case
    by (auto simp: split_beta s'_def [symmetric] algebra_simps)
qed

lemma allow_run_append:
  "allow_run (xs @ ys) s =
     (fst (allow_run xs s) + fst (allow_run ys (snd (allow_run xs s))), snd (allow_run ys (snd (allow_run xs s))))"
  by (induction xs arbitrary: s) (simp_all add: split_beta)

lemma allow_run_params [simp]:
  "Interval (snd (allow_run ts s)) = Interval s" "sp_burstTime (snd (allow_run ts s)) = sp_burstTime s"
  by (induction ts arbitrary: s) (simp_all add: split_beta)

lemma refused_run:
  "0 < Interval s \<Longrightarrow> now + sp_burstTime s < sp_tat s \<Longrightarrow> fst (allow_run (replicate n now) s) = 0"
  by (induction n) (simp_all add: Allow_def Let_def)

section \<open>Properties\<close>

text \<open>C37: The rate limit.  Whatever the call times up to \<open>T\<close> are, the number of allowed calls is
  bounded by the elapsed time: their intervals fit into the time since the arrival time at the start,
  plus the burst tolerance, plus one interval.\<close>

theorem shaper_rate_bound:
  assumes "0 < Interval s" and "0 \<le> sp_burstTime s" and "sp_tat s \<le> T" and "\<forall>t\<in>set ts. t \<le> T"
  shows "int (fst (allow_run ts s)) * Interval s \<le> (T - sp_tat s) + sp_burstTime s + Interval s"
  using allow_run_tat [OF assms(1), of ts] allow_run_cap [OF assms(1,4,2)] assms(1-3) by auto

theorem shaper_rate_bound_witness:
  "int (fst (allow_run [5, 5, 6, 7] (NewShaper 5 5))) * 200000000 \<le> 300000002"
  using shaper_rate_bound [of "NewShaper 5 5" 7 "[5, 5, 6, 7]"]
  by (simp add: NewShaper_def Interval_def second_ns_def)

text \<open>Bursts.  On a shaper whose arrival time equals the clock exactly \<open>burst div interval + 1\<close>
  calls at that instant are allowed, and the next one is refused.\<close>

theorem shaper_burst_exact:
  assumes "0 < Interval s" and "0 \<le> sp_burstTime s" and "sp_tat s = now"
  shows "fst (allow_run (replicate n now) s) = min n (nat (sp_burstTime s div Interval s + 1))"
proof -
  define c where "c = nat (sp_burstTime s div Interval s + 1)"
  have q: "0 \<le> sp_burstTime s div Interval s" using assms by (simp add: pos_imp_zdiv_nonneg_iff)
  then have c: "int c = sp_burstTime s div Interval s + 1" by (simp add: c_def)
  have split: "(sp_burstTime s div Interval s + 1) * Interval s = sp_burstTime s - sp_burstTime s mod Interval s + Interval s"
    by (simp add: minus_mod_eq_mult_div algebra_simps)
  have fits: "sp_tat s + int k * Interval s \<le> now + sp_burstTime s + Interval s" if "k \<le> c" for k
  proof -
    have "int k * Interval s \<le> (sp_burstTime s div Interval s + 1) * Interval s"
      using that assms(1) c by (intro mult_right_mono) auto
    also have "\<dots> \<le> sp_burstTime s + Interval s"
      using split pos_mod_sign [OF assms(1), of "sp_burstTime s"] by linarith
    finally show ?thesis using assms(3) by simp
  qed
  have run: "fst (allow_run (replicate k now) s) = k \<and>
      sp_tat (snd (allow_run (replicate k now) s)) = sp_tat s + int k * Interval s" if "k \<le> c" for k
    using burst_run [OF assms(1) _ fits [OF that]] assms(3) by simp
  show ?thesis
  proof (cases "n \<le> c")
    case True
    with run show ?thesis by (simp add: c_def)
  next
    case False
    define s' where "s' = snd (allow_run (replicate c now) s)"
    have "sp_burstTime s < int c * Interval s"
      unfolding c using split pos_mod_bound [OF assms(1), of "sp_burstTime s"] by linarith
    with run [of c] assms(3) have full: "now + sp_burstTime s' < sp_tat s'" by (simp add: s'_def)
    have "replicate n now = replicate c now @ replicate (n - c) now"
      using False by (simp add: replicate_add [symmetric])
    then have "fst (allow_run (replicate n now) s) = c + fst (allow_run (replicate (n - c) now) s')"
      using run [of c] by (simp add: allow_run_append s'_def)
    moreover have "fst (allow_run (replicate (n - c) now) s') = 0"
      using refused_run [OF _ full] assms(1) by (simp add: s'_def)
    ultimately show ?thesis using False by (simp add: c_def)
  qed
qed

theorem shaper_burst_exact_witness:
  "fst (allow_run (replicate 100 0) (NewShaper 0 50)) = 6"
  using shaper_burst_exact [of "NewShaper 0 50" 0 100]
  by (simp add: NewShaper_def Interval_def second_ns_def)

text \<open>The lock-free loop.  Whatever other calls store between the loads and the swaps, the loop ends
  with the decision and the state of the undisturbed call on the arrival time of its last load.\<close>

theorem allow_cas_linearizes:
  "\<exists>t. (t = sp_tat s \<or> Some t \<in> set env) \<and> allow_cas now env s = Allow now (s\<lparr>sp_tat := t\<rparr>)"
proof (induction now env s rule: allow_cas.induct)
  case (1 now env s)
  show ?case
  proof (cases "Interval s \<le> 0 \<or> now + sp_burstTime s < sp_tat s \<or> env = [] \<or> hd env = None \<or> hd env = Some (sp_tat s)")
    case True
    then have "allow_cas now env s = Allow now s"
      by (subst allow_cas.simps, cases env) (auto simp: Allow_def Let_def split: option.split)
    then show ?thesis by (intro exI [of _ "sp_tat s"]) simp
  next
    case False
    then obtain t rest where env: "env = Some t # rest" and t: "t \<noteq> sp_tat s"
      by (cases env) auto
    have step: "allow_cas now env s = allow_cas now rest (s\<lparr>sp_tat := t\<rparr>)"
      using False env t by (subst allow_cas.simps) simp
    have "\<exists>u. (u = t \<or> Some u \<in> set rest) \<and> allow_cas now rest (s\<lparr>sp_tat := t\<rparr>) = Allow now (s\<lparr>sp_tat := u\<rparr>)"
      using 1 [of "Interval s" "sp_tat s" "(if sp_tat s < now then now else sp_tat s) + Interval s" "Some t" rest t]
        False env t by simp
    then obtain u where "u = t \<or> Some u \<in> set rest" "allow_cas now env s = Allow now (s\<lparr>sp_tat := u\<rparr>)"
      unfolding step by blast
    then show ?thesis by (intro exI [of _ u]) (auto simp: env)
  qed
qed

text \<open>When the shaper does not shape.  The interval is positive exactly for rates from 1 to 10^9 per
  second; after \<open>SetRate\<close> every call is allowed unconditionally exactly when the rate is above 10^9.\<close>

theorem shaper_interval_positive:
  "(0 < Interval s \<longleftrightarrow> 1 \<le> sp_ratePerSec s \<and> sp_ratePerSec s \<le> second_ns) \<and>
   ((\<forall>now t. fst (Allow now (SetRate r s\<lparr>sp_tat := t\<rparr>))) \<longleftrightarrow> second_ns < r)"
proof -
  have pos: "0 < Interval s \<longleftrightarrow> 1 \<le> sp_ratePerSec s \<and> sp_ratePerSec s \<le> second_ns" for s
    by (auto simp: Interval_def second_ns_def pos_imp_zdiv_pos_iff)
  have iv: "Interval (SetRate r s\<lparr>sp_tat := t\<rparr>) = Interval (SetRate r s)" for t
    by (simp add: Interval_def)
  have "(\<forall>now t. fst (Allow now (SetRate r s\<lparr>sp_tat := t\<rparr>))) \<longleftrightarrow> Interval (SetRate r s) \<le> 0"
  proof
    assume all: "\<forall>now t. fst (Allow now (SetRate r s\<lparr>sp_tat := t\<rparr>))"
    from all [rule_format, of 0 "sp_burstTime (SetRate r s) + 1"] show "Interval (SetRate r s) \<le> 0"
      by (simp add: Allow_iff iv)
  qed (simp add: Allow_iff iv)
  with pos [of "SetRate r s"] pos [of s] show ?thesis
    by (auto simp: SetRate_def second_ns_def split: if_splits)
qed

end
