(* ===== verification/Coalescer.thy ===== *)
theory Coalescer
  imports Message_Types
begin

text \<open>
  The coalescer of overload/coalescer.go: for high-frequency messages only the latest message
  per user and type is kept until the next drain.

  \<^item> \<open>Coalescer\<close> is the struct; its sixteen shards are a sharded map whose shard function
    \<open>shardOf\<close> is the FNV-1a hash of the source.
  \<^item> \<open>Coalescer_Offer\<close> and \<open>Coalescer_Drain\<close> are the operations as one call sees them.
  \<^item> \<open>co_step\<close> splits them where the source leaves the shard lock before it updates the size
    counter; it shows what the capacity bound is worth under concurrency.
\<close>

section \<open>Definitions\<close>

definition coalescerShardCount :: nat where "coalescerShardCount = 16"
definition DefaultCoalescerCapacity :: int where "DefaultCoalescerCapacity = 4096"

definition fnvString :: "32 word \<Rightarrow> string \<Rightarrow> 32 word" where
  "fnvString h s = foldl fnv_step h s"

record EphemeralKey =
  ek_UserID :: string
  ek_MessageType :: MessageType

definition shardOf :: "EphemeralKey \<Rightarrow> nat" where
  "shardOf k = unat (fnvString (fnvString fnv_offset32 (ek_UserID k)) (ek_MessageType k)) mod coalescerShardCount"

record 'm Coalescer =
  co_shards :: "(EphemeralKey, 'm) smap"
  co_capacity :: int
  co_size :: int
  co_merged :: int

definition NewCoalescer :: "int \<Rightarrow> 'm Coalescer" where
  "NewCoalescer capacity =
     \<lparr>co_shards = sm_new, co_capacity = (if capacity \<le> 0 then DefaultCoalescerCapacity else capacity),
      co_size = 0, co_merged = 0\<rparr>"

text \<open>\<open>Offer\<close> returns (accepted, merged); a nil message is \<open>None\<close>.\<close>

definition Coalescer_Offer ::
  "EphemeralKey \<Rightarrow> 'm option \<Rightarrow> 'm Coalescer \<Rightarrow> (bool \<times> bool) \<times> 'm Coalescer" where
  "Coalescer_Offer key msg c =
     (case msg of
        None \<Rightarrow> ((False, False), c)
      | Some m \<Rightarrow>
          if ek_UserID key = [] \<or> ek_MessageType key = [] then ((False, False), c)
          else let existed = with_shard_rlock shardOf key (\<lambda>slots. map_of slots key \<noteq> None) (co_shards c)
               in if \<not> existed \<and> co_size c \<ge> co_capacity c then ((False, False), c)
                  else let c = c\<lparr>co_shards := with_shard_lock shardOf key (AList.update key m) (co_shards c)\<rparr>;
                           c = (if existed then c\<lparr>co_merged := co_merged c + 1\<rparr>
                                else c\<lparr>co_size := co_size c + 1\<rparr>)
                       in ((True, existed), c))"

text \<open>The loop body of \<open>Drain\<close> for one shard.\<close>

definition drain_shard ::
  "nat \<Rightarrow> 'm list \<times> int \<times> (EphemeralKey, 'm) smap \<Rightarrow> 'm list \<times> int \<times> (EphemeralKey, 'm) smap" where
  "drain_shard i st =
     (let (drained, total, shards) = st
      in if length (shards i) > 0
         then let drained = drained @ gm_values (shards i)
              in (drained, total + (int (length drained) - total), shards(i := []))
         else (drained, total, shards))"

definition Coalescer_Drain :: "'m Coalescer \<Rightarrow> 'm list \<times> 'm Coalescer" where
  "Coalescer_Drain c =
     (let (drained, total, shards) = fold drain_shard [0..<coalescerShardCount] ([], 0, co_shards c);
          c = c\<lparr>co_shards := shards\<rparr>;
          c = (if total > 0 then c\<lparr>co_size := co_size c - total\<rparr> else c)
      in (drained, c))"

text \<open>A sequence of offers.\<close>

fun offer_all :: "(EphemeralKey \<times> 'm) list \<Rightarrow> 'm Coalescer \<Rightarrow> 'm Coalescer" where
  "offer_all [] c = c"
| "offer_all ((k, m) # os) c = offer_all os (snd (Coalescer_Offer k (Some m) c))"

text \<open>
  Offers and drains of several goroutines.  The state counts the entries in the shards, the
  offers that have inserted but not yet counted (\<open>cc_adding\<close>), and the entries that drains have
  taken but not yet subtracted (\<open>cc_taken\<close>); \<open>n\<close> goroutines offer concurrently.
\<close>

record CoCount =
  cc_entries :: int
  cc_size :: int
  cc_adding :: int
  cc_taken :: int

inductive co_step :: "int \<Rightarrow> int \<Rightarrow> CoCount \<Rightarrow> CoCount \<Rightarrow> bool" for n capacity :: int where
  co_insert: "cc_adding s < n \<Longrightarrow> cc_size s < capacity \<Longrightarrow>
     co_step n capacity s (s\<lparr>cc_entries := cc_entries s + 1, cc_adding := cc_adding s + 1\<rparr>)"
| co_count: "0 < cc_adding s \<Longrightarrow>
     co_step n capacity s (s\<lparr>cc_size := cc_size s + 1, cc_adding := cc_adding s - 1\<rparr>)"
| co_take: "0 \<le> k \<Longrightarrow> k \<le> cc_entries s \<Longrightarrow>
     co_step n capacity s (s\<lparr>cc_entries := cc_entries s - k, cc_taken := cc_taken s + k\<rparr>)"
| co_subtract: "0 \<le> k \<Longrightarrow> k \<le> cc_taken s \<Longrightarrow>
     co_step n capacity s (s\<lparr>cc_size := cc_size s - k, cc_taken := cc_taken s - k\<rparr>)"

section \<open>Lemmas\<close>

lemma shardOf_less: "shardOf k < coalescerShardCount"
  by (simp add: shardOf_def coalescerShardCount_def)

text \<open>The abstract content: the latest message of each key.\<close>

definition co_abs :: "'m Coalescer \<Rightarrow> EphemeralKey \<Rightarrow> 'm option" where
  "co_abs c = sm_lookup shardOf (co_shards c)"

definition co_inv :: "'m Coalescer \<Rightarrow> bool" where
  "co_inv c \<longleftrightarrow> sm_wf shardOf (co_shards c) \<and>
     co_size c = sm_total coalescerShardCount (\<lambda>_ _. 1) (co_shards c) \<and>
     0 < co_capacity c \<and> co_size c \<le> co_capacity c"

lemma NewCoalescer_inv: "co_inv (NewCoalescer capacity)"
  by (simp add: co_inv_def NewCoalescer_def DefaultCoalescerCapacity_def)

lemma NewCoalescer_abs: "co_abs (NewCoalescer capacity) = Map.empty"
  by (simp add: co_abs_def NewCoalescer_def shard_simps sm_new_def fun_eq_iff)

text \<open>What an offer is accepted for and what it does to the content.\<close>

definition offer_ok :: "EphemeralKey \<Rightarrow> 'm Coalescer \<Rightarrow> bool" where
  "offer_ok key c \<longleftrightarrow> ek_UserID key \<noteq> [] \<and> ek_MessageType key \<noteq> [] \<and>
     (co_abs c key \<noteq> None \<or> co_size c < co_capacity c)"

lemma Offer_result:
  "fst (Coalescer_Offer key (Some m) c) = (offer_ok key c, offer_ok key c \<and> co_abs c key \<noteq> None)"
  by (auto simp: Coalescer_Offer_def offer_ok_def co_abs_def shard_simps with_shard_rlock_def Let_def)

lemma Offer_state:
  "snd (Coalescer_Offer key (Some m) c) =
     (if offer_ok key c
      then c\<lparr>co_shards := with_shard_lock shardOf key (AList.update key m) (co_shards c),
             co_size := co_size c + (if co_abs c key = None then 1 else 0),
             co_merged := co_merged c + (if co_abs c key = None then 0 else 1)\<rparr>
      else c)"
  by (auto simp: Coalescer_Offer_def offer_ok_def co_abs_def shard_simps with_shard_rlock_def Let_def)

lemma Offer_abs:
  "co_abs (snd (Coalescer_Offer key (Some m) c)) = (if offer_ok key c then (co_abs c)(key \<mapsto> m) else co_abs c)"
proof -
  have "sm_lookup shardOf (with_shard_lock shardOf key (AList.update key m) (co_shards c)) k =
      (if k = key then Some m else sm_lookup shardOf (co_shards c) k)" for k
    by (subst sm_lookup_lock) (simp_all add: gomap_simps)
  then show ?thesis by (simp add: Offer_state co_abs_def fun_eq_iff)
qed

lemma Offer_inv: "co_inv c \<Longrightarrow> co_inv (snd (Coalescer_Offer key (Some m) c))"
proof -
  assume inv: "co_inv c"
  then have wf: "sm_wf shardOf (co_shards c)" by (simp add: co_inv_def)
  have wf': "sm_wf shardOf (with_shard_lock shardOf key (AList.update key m) (co_shards c))"
    by (rule sm_wf_lock) (simp_all add: wf sm_wf_gm [OF wf] gomap_simps)
  have "sm_total coalescerShardCount (\<lambda>_ _. 1) (with_shard_lock shardOf key (AList.update key m) (co_shards c)) =
      sm_total coalescerShardCount (\<lambda>_ _. 1) (co_shards c) + (if co_abs c key = None then 1 else 0)"
    by (subst sm_total_lock [where sh = shardOf, OF shardOf_less])
       (auto simp: gm_sum_update [OF sm_wf_gm [OF wf]] co_abs_def shard_simps split: option.split)
  with inv wf' show ?thesis by (auto simp: Offer_state co_inv_def offer_ok_def)
qed

lemma offer_all_inv: "co_inv c \<Longrightarrow> co_inv (offer_all os c)"
  by (induction os c rule: offer_all.induct) (simp_all add: Offer_inv)

lemma offer_all_append: "offer_all (xs @ ys) c = offer_all ys (offer_all xs c)"
  by (induction xs c rule: offer_all.induct) simp_all

text \<open>The drain loop takes the shards in turn.\<close>

lemma drain_shards:
  "fold drain_shard [0..<n] ([], 0, shards) =
     (concat (map (\<lambda>i. gm_values (shards i)) [0..<n]),
      int (length (concat (map (\<lambda>i. gm_values (shards i)) [0..<n]))),
      \<lambda>i. if i < n then [] else shards i)"
proof (induction n)
  case 0
  then show ?case by simp
next
  case (Suc n)
  then show ?case
    by (auto simp: drain_shard_def Let_def gm_values_def fun_eq_iff less_Suc_eq)
qed

lemma drained_range:
  "concat (map (\<lambda>i. gm_values (shards i)) [0..<n]) = map snd (sm_range n shards)"
  by (simp add: sm_range_def gm_values_def map_concat comp_def)

text \<open>Draining: one message per key, the stored one; nothing is left.\<close>

lemma Drain_result:
  "fst (Coalescer_Drain c) = map snd (sm_range coalescerShardCount (co_shards c))"
  by (simp add: Coalescer_Drain_def drain_shards drained_range Let_def)

lemma Drain_length:
  "co_inv c \<Longrightarrow> int (length (fst (Coalescer_Drain c))) = co_size c"
  unfolding Drain_result co_inv_def
  using gm_sum_length [of "sm_range coalescerShardCount (co_shards c)"] by (simp add: gm_sum_range)

lemma Drain_state:
  assumes "co_inv c"
  shows "co_inv (snd (Coalescer_Drain c)) \<and> co_abs (snd (Coalescer_Drain c)) = Map.empty \<and>
         co_size (snd (Coalescer_Drain c)) = 0"
proof -
  have shards: "co_shards (snd (Coalescer_Drain c)) = (\<lambda>i. if i < coalescerShardCount then [] else co_shards c i)"
    by (simp add: Coalescer_Drain_def drain_shards Let_def)
  have size: "co_size (snd (Coalescer_Drain c)) = 0"
    using Drain_length [OF assms] by (auto simp: Coalescer_Drain_def drain_shards Let_def)
  have "sm_wf shardOf (co_shards (snd (Coalescer_Drain c)))"
    using assms unfolding shards co_inv_def sm_wf_def by auto
  moreover have "sm_total coalescerShardCount (\<lambda>_ _. 1) (co_shards (snd (Coalescer_Drain c))) = 0"
    unfolding shards by (simp add: sm_total_def)
  moreover have "co_abs (snd (Coalescer_Drain c)) k = None" for k
    unfolding co_abs_def shards by (simp add: shard_simps shardOf_less)
  moreover have "co_capacity (snd (Coalescer_Drain c)) = co_capacity c"
    by (simp add: Coalescer_Drain_def drain_shards Let_def)
  ultimately show ?thesis using size assms by (auto simp: co_inv_def)
qed

text \<open>Once a key is present every later offer for it is accepted.\<close>

lemma offer_all_keeps: "co_abs c k \<noteq> None \<Longrightarrow> co_abs (offer_all os c) k \<noteq> None"
  by (induction os c rule: offer_all.induct) (auto simp: Offer_abs)

lemma offer_all_key:
  "co_abs (offer_all os c) k \<noteq> None \<Longrightarrow> co_abs c k = None \<Longrightarrow> ek_UserID k \<noteq> [] \<and> ek_MessageType k \<noteq> []"
proof (induction os c rule: offer_all.induct)
  case (1 c)
  then show ?case by simp
next
  case (2 k1 m os c)
  then show ?case
    by (cases "co_abs (snd (Coalescer_Offer k1 (Some m) c)) k = None")
       (auto simp: Offer_abs offer_ok_def split: if_splits)
qed

lemma offer_all_last:
  assumes "co_abs (offer_all os c) k = Some m" and "co_abs c k = None"
  shows "\<exists>xs ys. os = xs @ (k, m) # ys \<and> k \<notin> fst ` set ys"
  using assms
proof (induction os rule: rev_induct)
  case Nil
  then show ?case by simp
next
  case (snoc o1 os)
  obtain k1 m1 where o1: "o1 = (k1, m1)" by force
  define c1 where "c1 = offer_all os c"
  have abs: "co_abs (offer_all (os @ [o1]) c) = (if offer_ok k1 c1 then (co_abs c1)(k1 \<mapsto> m1) else co_abs c1)"
    by (simp add: offer_all_append o1 Offer_abs c1_def)
  show ?case
  proof (cases "k1 = k")
    case True
    have "offer_ok k1 c1"
    proof (rule ccontr)
      assume no: "\<not> offer_ok k1 c1"
      with abs snoc.prems(1) have c1: "co_abs c1 k \<noteq> None" by simp
      then have "ek_UserID k \<noteq> [] \<and> ek_MessageType k \<noteq> []"
        using offer_all_key [of os c k] snoc.prems(2) by (simp add: c1_def)
      with no True c1 show False by (simp add: offer_ok_def)
    qed
    with abs snoc.prems(1) True o1 show ?thesis by (intro exI [of _ os] exI [of _ "[]"]) simp
  next
    case False
    with abs snoc.prems(1) have "co_abs c1 k = Some m" by (simp split: if_splits)
    then obtain xs ys where "os = xs @ (k, m) # ys" "k \<notin> fst ` set ys"
      using snoc.IH [OF _ snoc.prems(2)] by (auto simp: c1_def)
    with False o1 show ?thesis by (intro exI [of _ xs] exI [of _ "ys @ [o1]"]) auto
  qed
qed

lemma co_step_inv:
  assumes "cc_size s + cc_adding s = cc_entries s + cc_taken s" and "0 \<le> cc_adding s" and "cc_adding s \<le> n"
    and "0 \<le> cc_taken s" and "cc_size s + cc_adding s \<le> capacity + n - 1"
    and "co_step n capacity s t"
  shows "cc_size t + cc_adding t = cc_entries t + cc_taken t \<and> 0 \<le> cc_adding t \<and> cc_adding t \<le> n \<and>
         0 \<le> cc_taken t \<and> cc_size t + cc_adding t \<le> capacity + n - 1"
  using assms(6,1-5) by (cases rule: co_step.cases) auto

interpretation cocount: invariant_system
  "\<lambda>s. s = \<lparr>cc_entries = 0, cc_size = 0, cc_adding = 0, cc_taken = 0\<rparr> \<and> 0 < n \<and> 0 < capacity" "co_step n capacity"
  "\<lambda>s. cc_size s + cc_adding s = cc_entries s + cc_taken s \<and> 0 \<le> cc_adding s \<and> cc_adding s \<le> n \<and>
       0 \<le> cc_taken s \<and> cc_size s + cc_adding s \<le> capacity + n - 1" for n capacity
proof unfold_locales
  show "cc_size t + cc_adding t = cc_entries t + cc_taken t \<and> 0 \<le> cc_adding t \<and> cc_adding t \<le> n \<and>
      0 \<le> cc_taken t \<and> cc_size t + cc_adding t \<le> capacity + n - 1"
    if "cc_size s + cc_adding s = cc_entries s + cc_taken s \<and> 0 \<le> cc_adding s \<and> cc_adding s \<le> n \<and>
       0 \<le> cc_taken s \<and> cc_size s + cc_adding s \<le> capacity + n - 1" and "co_step n capacity s t" for s t
    using co_step_inv [of s n capacity t] that by blast
qed auto

section \<open>Properties\<close>

text \<open>Latest wins.  After any sequence of offers to a new coalescer, draining returns one message for
  each key that holds one, in some order of the keys, and that message is the last one offered for the
  key; afterwards the coalescer is empty and its size counter is zero.\<close>

theorem coalescer_latest_wins:
  fixes offers :: "(EphemeralKey \<times> 'm) list"
  assumes "c = offer_all offers (NewCoalescer capacity)"
  shows "\<exists>ks. distinct ks \<and> set ks = dom (co_abs c) \<and>
              fst (Coalescer_Drain c) = map (\<lambda>k. the (co_abs c k)) ks \<and>
              (\<forall>k\<in>set ks. \<exists>xs ys. offers = xs @ (k, the (co_abs c k)) # ys \<and> k \<notin> fst ` set ys) \<and>
              co_abs (snd (Coalescer_Drain c)) = Map.empty \<and> co_size (snd (Coalescer_Drain c)) = 0"
proof (intro exI [of _ "sm_keys coalescerShardCount (co_shards c)"] conjI)
  have inv: "co_inv c" by (simp add: assms offer_all_inv NewCoalescer_inv)
  then have wf: "sm_wf shardOf (co_shards c)" by (simp add: co_inv_def)
  have range: "(k, v) \<in> set (sm_range coalescerShardCount (co_shards c)) \<longleftrightarrow> co_abs c k = Some v" for k v
    using sm_range_iff [OF wf, of coalescerShardCount] shardOf_less by (simp add: co_abs_def)
  show "distinct (sm_keys coalescerShardCount (co_shards c))" by (rule sm_range_distinct [OF wf])
  show keys: "set (sm_keys coalescerShardCount (co_shards c)) = dom (co_abs c)"
    using range by (force simp: sm_keys_def)
  show "fst (Coalescer_Drain c) = map (\<lambda>k. the (co_abs c k)) (sm_keys coalescerShardCount (co_shards c))"
    unfolding Drain_result sm_keys_def using range by (auto simp: comp_def intro!: map_cong)
  have "\<exists>xs ys. offers = xs @ (k, the (co_abs c k)) # ys \<and> k \<notin> fst ` set ys" if k: "k \<in> dom (co_abs c)" for k
  proof -
    obtain m where m: "co_abs c k = Some m" using k by blast
    moreover have "co_abs (NewCoalescer capacity :: 'm Coalescer) k = None" by (simp add: NewCoalescer_abs)
    ultimately show ?thesis using offer_all_last [of offers "NewCoalescer capacity" k m] assms by simp
  qed
  with keys show "\<forall>k\<in>set (sm_keys coalescerShardCount (co_shards c)).
      \<exists>xs ys. offers = xs @ (k, the (co_abs c k)) # ys \<and> k \<notin> fst ` set ys" by blast
  show "co_abs (snd (Coalescer_Drain c)) = Map.empty" "co_size (snd (Coalescer_Drain c)) = 0"
    using Drain_state [OF inv] by simp_all
qed

text \<open>Offers.  On a reachable coalescer an offer is accepted exactly when its key has a user and a
  type and the key is present or the capacity is not reached, it reports a merge exactly when it
  replaces a message, an accepted message is what the key now holds, a refused offer changes nothing,
  and the size counter stays the number of entries and within the capacity.\<close>

theorem coalescer_offer_refines:
  assumes "co_inv c"
  shows "fst (Coalescer_Offer key (Some m) c) =
           (offer_ok key c, offer_ok key c \<and> co_abs c key \<noteq> None) \<and>
         co_abs (snd (Coalescer_Offer key (Some m) c)) =
           (if offer_ok key c then (co_abs c)(key \<mapsto> m) else co_abs c) \<and>
         (\<not> offer_ok key c \<longrightarrow> snd (Coalescer_Offer key (Some m) c) = c) \<and>
         co_inv (snd (Coalescer_Offer key (Some m) c)) \<and>
         co_size (snd (Coalescer_Offer key (Some m) c)) \<le> co_capacity c"
proof -
  have "co_capacity (snd (Coalescer_Offer key (Some m) c)) = co_capacity c" by (simp add: Offer_state)
  with Offer_inv [OF assms, of key m] show ?thesis
    by (simp add: Offer_result Offer_abs co_inv_def) (simp add: Offer_state)
qed

text \<open>The capacity under concurrency.  The size counter is updated outside the shard lock, so with
  \<open>n\<close> concurrent offers the shards can hold more entries than the capacity, but never more than
  \<open>capacity + n - 1\<close>.\<close>

theorem coalescer_concurrent_bound:
  assumes "0 < n" and "0 < capacity"
    and "(co_step n capacity)\<^sup>*\<^sup>* \<lparr>cc_entries = 0, cc_size = 0, cc_adding = 0, cc_taken = 0\<rparr> s"
  shows "cc_entries s \<le> capacity + n - 1"
  using cocount.rtrancl_inv [OF assms(3)] assms(1,2) by simp

section \<open>Witnesses\<close>

definition demo_key :: EphemeralKey where
  "demo_key = \<lparr>ek_UserID = ''u1'', ek_MessageType = MessageTypeTyping\<rparr>"

theorem coalescer_latest_wins_witness:
  "\<exists>xs ys. [(demo_key, 1), (demo_key, 2::nat)] = xs @ (demo_key, 2) # ys \<and> demo_key \<notin> fst ` set ys"
proof -
  define c where "c = offer_all [(demo_key, 1), (demo_key, 2::nat)] (NewCoalescer 0)"
  have ok: "offer_ok demo_key (NewCoalescer 0 :: nat Coalescer)"
    by (simp add: offer_ok_def demo_key_def) (simp add: NewCoalescer_def DefaultCoalescerCapacity_def)
  then have "co_abs (snd (Coalescer_Offer demo_key (Some 1) (NewCoalescer 0 :: nat Coalescer))) demo_key = Some 1"
    by (simp add: Offer_abs)
  then have "offer_ok demo_key (snd (Coalescer_Offer demo_key (Some 1) (NewCoalescer 0 :: nat Coalescer)))"
    by (simp add: offer_ok_def demo_key_def)
  then have abs: "co_abs c demo_key = Some 2" by (simp add: c_def Offer_abs)
  obtain ks where ks: "set ks = dom (co_abs c)"
      "\<forall>k\<in>set ks. \<exists>xs ys. [(demo_key, 1), (demo_key, 2)] = xs @ (k, the (co_abs c k)) # ys \<and> k \<notin> fst ` set ys"
    using coalescer_latest_wins [OF c_def] by blast
  from abs have "demo_key \<in> set ks" unfolding ks(1) by blast
  from bspec [OF ks(2) this] abs show ?thesis by simp
qed

theorem coalescer_offer_refines_witness:
  "fst (Coalescer_Offer demo_key (Some (7::nat)) (NewCoalescer 0)) = (True, False)"
  using coalescer_offer_refines [OF NewCoalescer_inv, of demo_key "7::nat" 0]
  by (simp add: offer_ok_def NewCoalescer_abs demo_key_def)
     (simp add: NewCoalescer_def DefaultCoalescerCapacity_def)

theorem coalescer_concurrent_bound_witness:
  "cc_entries \<lparr>cc_entries = 2, cc_size = 0, cc_adding = 2, cc_taken = 0\<rparr> \<le> (1::int) + 2 - 1"
proof (rule coalescer_concurrent_bound)
  let ?s0 = "\<lparr>cc_entries = 0, cc_size = 0, cc_adding = 0, cc_taken = 0\<rparr>"
  let ?s1 = "\<lparr>cc_entries = 1, cc_size = 0, cc_adding = 1, cc_taken = 0\<rparr>"
  have "co_step 2 1 ?s0 ?s1" "co_step 2 1 ?s1 \<lparr>cc_entries = 2, cc_size = 0, cc_adding = 2, cc_taken = 0\<rparr>"
    using co_insert [of ?s0 2 1] co_insert [of ?s1 2 1] by simp_all
  then show "(co_step 2 1)\<^sup>*\<^sup>* ?s0 \<lparr>cc_entries = 2, cc_size = 0, cc_adding = 2, cc_taken = 0\<rparr>"
    by (meson rtranclp.rtrancl_into_rtrancl rtranclp.rtrancl_refl)
qed simp_all

end
