(* ===== verification/Buffer_Spec.thy ===== *)
theory Buffer_Spec
  imports Prelude
begin

text \<open>
  The contract of a bounded buffer that never drops silently: an accepted item is added, a
  refused offer leaves the content alone (the caller still has the item and takes another
  route), and a drain hands out what it removes.  The client lemma is the conservation law
  that the overload components promise, over any sequence of operations.
\<close>

datatype 'i buffer_op = OpOffer 'i | OpDrain

text \<open>A run of operations collects the accepted, the refused and the drained items.\<close>

record ('i, 's) buffer_run =
  br_accepted :: "'i list"
  br_refused :: "'i list"
  br_drained :: "'i list"
  br_state :: 's

definition buffer_exec ::
  "('i \<Rightarrow> 's \<Rightarrow> bool \<times> 's) \<Rightarrow> ('s \<Rightarrow> 'i list \<times> 's) \<Rightarrow> 'i buffer_op \<Rightarrow> ('i, 's) buffer_run \<Rightarrow> ('i, 's) buffer_run" where
  "buffer_exec offer drain p r =
     (case p of
        OpOffer i \<Rightarrow>
          (if fst (offer i (br_state r))
           then r\<lparr>br_accepted := br_accepted r @ [i], br_state := snd (offer i (br_state r))\<rparr>
           else r\<lparr>br_refused := br_refused r @ [i], br_state := snd (offer i (br_state r))\<rparr>)
      | OpDrain \<Rightarrow>
          r\<lparr>br_drained := br_drained r @ fst (drain (br_state r)), br_state := snd (drain (br_state r))\<rparr>)"

definition buffer_runs ::
  "('i \<Rightarrow> 's \<Rightarrow> bool \<times> 's) \<Rightarrow> ('s \<Rightarrow> 'i list \<times> 's) \<Rightarrow> 'i buffer_op list \<Rightarrow> 's \<Rightarrow> ('i, 's) buffer_run" where
  "buffer_runs offer drain ps s =
     fold (buffer_exec offer drain) ps \<lparr>br_accepted = [], br_refused = [], br_drained = [], br_state = s\<rparr>"

locale lossless_buffer =
  fixes offer :: "'i \<Rightarrow> 's \<Rightarrow> bool \<times> 's"
    and drain :: "'s \<Rightarrow> 'i list \<times> 's"
    and content :: "'s \<Rightarrow> 'i multiset"
    and good :: "'s \<Rightarrow> bool"
  assumes good_offer: "good s \<Longrightarrow> good (snd (offer i s))"
    and good_drain: "good s \<Longrightarrow> good (snd (drain s))"
    and offer_accepted: "good s \<Longrightarrow> fst (offer i s) \<Longrightarrow> content (snd (offer i s)) = add_mset i (content s)"
    and offer_refused: "good s \<Longrightarrow> \<not> fst (offer i s) \<Longrightarrow> content (snd (offer i s)) = content s"
    and drain_hands_out: "good s \<Longrightarrow> content s = mset (fst (drain s)) + content (snd (drain s))"
begin

text \<open>Every operation keeps the balance.\<close>

lemma exec_good: "good (br_state r) \<Longrightarrow> good (br_state (buffer_exec offer drain p r))"
  by (cases p) (simp_all add: buffer_exec_def good_offer good_drain)

lemma exec_balance:
  assumes "good (br_state r)" and "M + mset (br_accepted r) = mset (br_drained r) + content (br_state r)"
  shows "M + mset (br_accepted (buffer_exec offer drain p r)) =
         mset (br_drained (buffer_exec offer drain p r)) + content (br_state (buffer_exec offer drain p r))"
proof (cases p)
  case (OpOffer i)
  with assms show ?thesis
    by (cases "fst (offer i (br_state r))") (simp_all add: buffer_exec_def offer_accepted offer_refused)
next
  case OpDrain
  with assms drain_hands_out [OF assms(1)] show ?thesis by (simp add: buffer_exec_def)
qed

lemma exec_runs:
  "good (br_state r) \<Longrightarrow> M + mset (br_accepted r) = mset (br_drained r) + content (br_state r) \<Longrightarrow>
     good (br_state (fold (buffer_exec offer drain) ps r)) \<and>
     M + mset (br_accepted (fold (buffer_exec offer drain) ps r)) =
       mset (br_drained (fold (buffer_exec offer drain) ps r)) +
       content (br_state (fold (buffer_exec offer drain) ps r))"
  by (induction ps arbitrary: r) (simp_all add: exec_good exec_balance)

lemma runs_good: "good s \<Longrightarrow> good (br_state (buffer_runs offer drain ps s))"
  using exec_runs [of "\<lparr>br_accepted = [], br_refused = [], br_drained = [], br_state = s\<rparr>" "content s"]
  by (simp add: buffer_runs_def)

lemma conservation:
  "good s \<Longrightarrow> content s + mset (br_accepted (buffer_runs offer drain ps s)) =
     mset (br_drained (buffer_runs offer drain ps s)) + content (br_state (buffer_runs offer drain ps s))"
  using exec_runs [of "\<lparr>br_accepted = [], br_refused = [], br_drained = [], br_state = s\<rparr>" "content s"]
  by (simp add: buffer_runs_def)

end

end
