(* ===== verification/Aggregator.thy ===== *)
theory Aggregator
  imports Coalescer Buffer_Spec
begin

text \<open>
  The message aggregator of overload/aggregator.go: per application and group a window of
  serialised messages, flushed as one JSON array frame.

  \<^item> \<open>MessageAggregator\<close> is the struct; the shards hold one window per key.  The spare buffer
    of a group only recycles memory and is not modelled: the frame copies the bytes before
    the buffer is reused.
  \<^item> \<open>Aggregator_Offer\<close> and \<open>Aggregator_Flush\<close> are the operations; the source holds the shard
    lock during each of their steps on a shard.
  \<^item> The abstract content is the list of waiting payloads per key (\<open>ma_abs\<close>).
\<close>

section \<open>Definitions\<close>

definition aggregatorShardCount :: nat where "aggregatorShardCount = 16"
definition DefaultAggregatorBatchSize :: int where "DefaultAggregatorBatchSize = 64"
definition DefaultAggregatorMaxGroups :: int where "DefaultAggregatorMaxGroups = 65536"

record AggregatorGroupKey =
  ak_appID :: string
  ak_groupID :: string

definition agg_shardOf :: "AggregatorGroupKey \<Rightarrow> nat" where
  "agg_shardOf k = unat (fnvString (fnvString fnv_offset32 (ak_appID k)) (ak_groupID k)) mod aggregatorShardCount"

record AggregatorGroup =
  gr_appID :: string
  gr_groupID :: string
  gr_payloads :: "string list"

record MessageAggregator =
  ma_shards :: "(AggregatorGroupKey, AggregatorGroup) smap"
  ma_maxPerGroup :: int
  ma_maxGroups :: int
  ma_groupCount :: int
  ma_offered :: int
  ma_aggregated :: int
  ma_batches :: int
  ma_overflowed :: int

record AggregatedBatch =
  ab_AppID :: string
  ab_GroupID :: string
  ab_Frame :: string

definition NewMessageAggregator :: "int \<Rightarrow> int \<Rightarrow> MessageAggregator" where
  "NewMessageAggregator maxPerGroup maxGroups =
     \<lparr>ma_shards = sm_new,
      ma_maxPerGroup = (if maxPerGroup \<le> 0 then DefaultAggregatorBatchSize else maxPerGroup),
      ma_maxGroups = (if maxGroups \<le> 0 then DefaultAggregatorMaxGroups else maxGroups),
      ma_groupCount = 0, ma_offered = 0, ma_aggregated = 0, ma_batches = 0, ma_overflowed = 0\<rparr>"

text \<open>The part of \<open>Offer\<close> under the group lock.\<close>

definition window_append ::
  "AggregatorGroupKey \<Rightarrow> AggregatorGroup \<Rightarrow> string \<Rightarrow> MessageAggregator \<Rightarrow> bool \<times> MessageAggregator" where
  "window_append key grp payload a =
     (if int (length (gr_payloads grp)) \<ge> ma_maxPerGroup a
      then (False, a\<lparr>ma_overflowed := ma_overflowed a + 1\<rparr>)
      else (True, a\<lparr>ma_shards := with_shard_lock agg_shardOf key
                      (AList.update key (grp\<lparr>gr_payloads := gr_payloads grp @ [payload]\<rparr>)) (ma_shards a),
                    ma_offered := ma_offered a + 1\<rparr>))"

definition Aggregator_Offer ::
  "string \<Rightarrow> string \<Rightarrow> string \<Rightarrow> MessageAggregator \<Rightarrow> bool \<times> MessageAggregator" where
  "Aggregator_Offer appID groupID payload a =
     (if appID = [] \<or> groupID = [] \<or> length payload = 0 then (False, a)
      else let key = \<lparr>ak_appID = appID, ak_groupID = groupID\<rparr>
           in case with_shard_rlock agg_shardOf key (\<lambda>groups. map_of groups key) (ma_shards a) of
                Some grp \<Rightarrow> window_append key grp payload a
              | None \<Rightarrow>
                  if ma_groupCount a \<ge> ma_maxGroups a
                  then (False, a\<lparr>ma_overflowed := ma_overflowed a + 1\<rparr>)
                  else let grp = \<lparr>gr_appID = appID, gr_groupID = groupID, gr_payloads = []\<rparr>;
                           a = a\<lparr>ma_shards := with_shard_lock agg_shardOf key (AList.update key grp) (ma_shards a),
                                 ma_groupCount := ma_groupCount a + 1\<rparr>
                       in window_append key grp payload a)"

fun join_tail :: "string list \<Rightarrow> string" where
  "join_tail [] = []"
| "join_tail (p # ps) = CHR '','' # p @ join_tail ps"

definition joinJSONPayloads :: "string list \<Rightarrow> string" where
  "joinJSONPayloads payloads =
     CHR ''['' # (case payloads of [] \<Rightarrow> [] | p # ps \<Rightarrow> p @ join_tail ps) @ [CHR '']'']"

text \<open>One group of one shard in \<open>Flush\<close>.\<close>

definition flush_group ::
  "nat \<Rightarrow> AggregatorGroupKey \<times> AggregatorGroup \<Rightarrow> AggregatedBatch list \<times> MessageAggregator
     \<Rightarrow> AggregatedBatch list \<times> MessageAggregator" where
  "flush_group i e st =
     (let (key, grp) = e;
          (batches, a) = st;
          payloads = gr_payloads grp;
          a = a\<lparr>ma_shards := (ma_shards a)(i := AList.update key (grp\<lparr>gr_payloads := []\<rparr>) (ma_shards a i))\<rparr>
      in if length payloads > 0
         then (batches @ [\<lparr>ab_AppID = gr_appID grp, ab_GroupID = gr_groupID grp,
                           ab_Frame = joinJSONPayloads payloads\<rparr>],
               a\<lparr>ma_aggregated := ma_aggregated a + int (length payloads), ma_batches := ma_batches a + 1\<rparr>)
         else (batches,
               a\<lparr>ma_shards := (ma_shards a)(i := AList.delete key (ma_shards a i)),
                 ma_groupCount := ma_groupCount a - 1\<rparr>))"

definition flush_shard ::
  "nat \<Rightarrow> AggregatedBatch list \<times> MessageAggregator \<Rightarrow> AggregatedBatch list \<times> MessageAggregator" where
  "flush_shard i st = fold (flush_group i) (ma_shards (snd st) i) st"

definition Aggregator_Flush :: "MessageAggregator \<Rightarrow> AggregatedBatch list \<times> MessageAggregator" where
  "Aggregator_Flush a = fold flush_shard [0..<aggregatorShardCount] ([], a)"

definition Aggregator_Stats :: "MessageAggregator \<Rightarrow> (string, int) gomap" where
  "Aggregator_Stats a =
     [(''max_per_group'', ma_maxPerGroup a), (''max_groups'', ma_maxGroups a), (''groups'', ma_groupCount a),
      (''offered'', ma_offered a), (''aggregated'', ma_aggregated a), (''batches'', ma_batches a),
      (''overflowed'', ma_overflowed a)]"

section \<open>Lemmas\<close>

lemma agg_shardOf_less: "agg_shardOf k < aggregatorShardCount"
  by (simp add: agg_shardOf_def aggregatorShardCount_def)

text \<open>The waiting payloads of a key.\<close>

definition ma_abs :: "MessageAggregator \<Rightarrow> AggregatorGroupKey \<Rightarrow> string list" where
  "ma_abs a key = (case sm_lookup agg_shardOf (ma_shards a) key of None \<Rightarrow> [] | Some g \<Rightarrow> gr_payloads g)"

definition group_fits :: "MessageAggregator \<Rightarrow> AggregatorGroupKey \<Rightarrow> AggregatorGroup \<Rightarrow> bool" where
  "group_fits a key g \<longleftrightarrow> gr_appID g = ak_appID key \<and> gr_groupID g = ak_groupID key \<and>
     int (length (gr_payloads g)) \<le> ma_maxPerGroup a"

definition ma_inv :: "MessageAggregator \<Rightarrow> bool" where
  "ma_inv a \<longleftrightarrow> sm_wf agg_shardOf (ma_shards a) \<and>
     ma_groupCount a = sm_total aggregatorShardCount (\<lambda>_ _. 1) (ma_shards a) \<and>
     ma_groupCount a \<le> ma_maxGroups a \<and> 0 < ma_maxPerGroup a \<and>
     (\<forall>key g. sm_lookup agg_shardOf (ma_shards a) key = Some g \<longrightarrow> group_fits a key g)"

lemma NewMessageAggregator_inv: "ma_inv (NewMessageAggregator maxPerGroup maxGroups)"
  by (simp add: ma_inv_def NewMessageAggregator_def DefaultAggregatorBatchSize_def
      DefaultAggregatorMaxGroups_def shard_simps) (simp add: sm_new_def)

text \<open>What an offer is accepted for.\<close>

definition agg_ok :: "string \<Rightarrow> string \<Rightarrow> string \<Rightarrow> MessageAggregator \<Rightarrow> bool" where
  "agg_ok appID groupID payload a \<longleftrightarrow>
     appID \<noteq> [] \<and> groupID \<noteq> [] \<and> payload \<noteq> [] \<and>
     (case sm_lookup agg_shardOf (ma_shards a) \<lparr>ak_appID = appID, ak_groupID = groupID\<rparr> of
        Some g \<Rightarrow> int (length (gr_payloads g)) < ma_maxPerGroup a
      | None \<Rightarrow> ma_groupCount a < ma_maxGroups a)"

lemma lock_twice:
  "with_shard_lock sh k f (with_shard_lock sh k g s) = with_shard_lock sh k (f \<circ> g) s"
  by (simp add: with_shard_lock_def)

lemma Agg_Offer_result:
  "ma_inv a \<Longrightarrow> fst (Aggregator_Offer appID groupID payload a) = agg_ok appID groupID payload a"
  by (auto simp: Aggregator_Offer_def agg_ok_def window_append_def Let_def with_shard_rlock_def shard_simps
      ma_inv_def split: option.split)

text \<open>The state after an accepted offer: one window is replaced.\<close>

definition offered_group :: "string \<Rightarrow> string \<Rightarrow> string \<Rightarrow> MessageAggregator \<Rightarrow> AggregatorGroup" where
  "offered_group appID groupID payload a =
     \<lparr>gr_appID = appID, gr_groupID = groupID,
      gr_payloads = ma_abs a \<lparr>ak_appID = appID, ak_groupID = groupID\<rparr> @ [payload]\<rparr>"

lemma Agg_Offer_accepted:
  assumes "ma_inv a" and "agg_ok appID groupID payload a"
  shows "snd (Aggregator_Offer appID groupID payload a) =
     a\<lparr>ma_shards := with_shard_lock agg_shardOf \<lparr>ak_appID = appID, ak_groupID = groupID\<rparr>
          (AList.update \<lparr>ak_appID = appID, ak_groupID = groupID\<rparr> (offered_group appID groupID payload a)) (ma_shards a),
       ma_groupCount := ma_groupCount a +
          (if sm_lookup agg_shardOf (ma_shards a) \<lparr>ak_appID = appID, ak_groupID = groupID\<rparr> = None then 1 else 0),
       ma_offered := ma_offered a + 1\<rparr>"
proof (cases "sm_lookup agg_shardOf (ma_shards a) \<lparr>ak_appID = appID, ak_groupID = groupID\<rparr>")
  case None
  with assms show ?thesis
    by (simp add: Aggregator_Offer_def agg_ok_def window_append_def Let_def with_shard_rlock_def shard_simps
        ma_inv_def offered_group_def ma_abs_def lock_twice comp_def update_swap)
next
  case (Some g)
  with assms have "gr_appID g = appID" "gr_groupID g = groupID"
    by (auto simp: ma_inv_def group_fits_def)
  then have "g\<lparr>gr_payloads := gr_payloads g @ [payload]\<rparr> =
      \<lparr>gr_appID = appID, gr_groupID = groupID, gr_payloads = gr_payloads g @ [payload]\<rparr>"
    by (cases g) simp
  with Some assms show ?thesis
    by (simp add: Aggregator_Offer_def agg_ok_def window_append_def Let_def with_shard_rlock_def shard_simps
        offered_group_def ma_abs_def)
qed

lemma Agg_Offer_refused:
  assumes "ma_inv a" and "\<not> agg_ok appID groupID payload a"
  shows "ma_shards (snd (Aggregator_Offer appID groupID payload a)) = ma_shards a \<and>
         ma_groupCount (snd (Aggregator_Offer appID groupID payload a)) = ma_groupCount a \<and>
         ma_maxGroups (snd (Aggregator_Offer appID groupID payload a)) = ma_maxGroups a \<and>
         ma_maxPerGroup (snd (Aggregator_Offer appID groupID payload a)) = ma_maxPerGroup a"
  using assms
  by (auto simp: Aggregator_Offer_def agg_ok_def window_append_def Let_def with_shard_rlock_def shard_simps
      ma_inv_def split: option.splits)

lemma Agg_Offer_lookup:
  assumes "ma_inv a" and "agg_ok appID groupID payload a"
  shows "sm_lookup agg_shardOf (ma_shards (snd (Aggregator_Offer appID groupID payload a))) k =
    (if k = \<lparr>ak_appID = appID, ak_groupID = groupID\<rparr> then Some (offered_group appID groupID payload a)
     else sm_lookup agg_shardOf (ma_shards a) k)"
  unfolding Agg_Offer_accepted [OF assms]
  by (simp add: sm_lookup_update)

lemma Agg_Offer_abs:
  assumes "ma_inv a"
  shows "ma_abs (snd (Aggregator_Offer appID groupID payload a)) =
    (if agg_ok appID groupID payload a
     then (ma_abs a)(\<lparr>ak_appID = appID, ak_groupID = groupID\<rparr> :=
                       ma_abs a \<lparr>ak_appID = appID, ak_groupID = groupID\<rparr> @ [payload])
     else ma_abs a)"
proof (cases "agg_ok appID groupID payload a")
  case True
  then show ?thesis
    by (auto simp: ma_abs_def [abs_def] Agg_Offer_lookup [OF assms True] offered_group_def fun_eq_iff)
next
  case False
  then show ?thesis
    using Agg_Offer_refused [OF assms False] by (simp add: ma_abs_def [abs_def])
qed

lemma Agg_Offer_inv:
  assumes inv: "ma_inv a"
  shows "ma_inv (snd (Aggregator_Offer appID groupID payload a))"
proof (cases "agg_ok appID groupID payload a")
  case False
  then show ?thesis
    using inv Agg_Offer_refused [OF inv False] by (simp add: ma_inv_def group_fits_def)
next
  case True
  let ?key = "\<lparr>ak_appID = appID, ak_groupID = groupID\<rparr>"
  let ?g = "offered_group appID groupID payload a"
  let ?s = "with_shard_lock agg_shardOf ?key (AList.update ?key ?g) (ma_shards a)"
  have wf: "sm_wf agg_shardOf (ma_shards a)" using inv by (simp add: ma_inv_def)
  have "sm_wf agg_shardOf ?s"
    by (rule sm_wf_lock) (simp_all add: wf sm_wf_gm [OF wf] gomap_simps)
  moreover have "sm_total aggregatorShardCount (\<lambda>_ _. 1) ?s =
      ma_groupCount a + (if sm_lookup agg_shardOf (ma_shards a) ?key = None then 1 else 0)"
    using inv by (subst sm_total_lock [where sh = agg_shardOf, OF agg_shardOf_less])
      (auto simp: gm_sum_update [OF sm_wf_gm [OF wf]] shard_simps ma_inv_def split: option.split)
  moreover have "group_fits a ?key ?g"
    using True inv by (auto simp: group_fits_def offered_group_def agg_ok_def ma_abs_def ma_inv_def split: option.splits)
  moreover have "group_fits a k g" if "sm_lookup agg_shardOf (ma_shards a) k = Some g" for k g
    using inv that by (simp add: ma_inv_def)
  moreover note Agg_Offer_lookup [OF inv True]
  ultimately show ?thesis
    using inv True
    by (auto simp: Agg_Offer_accepted [OF inv True] ma_inv_def group_fits_def agg_ok_def split: if_splits option.splits)
qed

section \<open>The flush\<close>

text \<open>What a flush leaves of a shard, and the batch it makes of a window.\<close>

definition cleared :: "(AggregatorGroupKey, AggregatorGroup) gomap \<Rightarrow> (AggregatorGroupKey, AggregatorGroup) gomap" where
  "cleared es = map (\<lambda>(k, g). (k, g\<lparr>gr_payloads := []\<rparr>)) (filter (\<lambda>(k, g). gr_payloads g \<noteq> []) es)"

definition batches_of :: "(AggregatorGroupKey, AggregatorGroup) gomap \<Rightarrow> AggregatedBatch list" where
  "batches_of es =
     map (\<lambda>(k, g). \<lparr>ab_AppID = gr_appID g, ab_GroupID = gr_groupID g, ab_Frame = joinJSONPayloads (gr_payloads g)\<rparr>)
       (filter (\<lambda>(k, g). gr_payloads g \<noteq> []) es)"

definition empty_windows :: "(AggregatorGroupKey, AggregatorGroup) gomap \<Rightarrow> int" where
  "empty_windows es = int (length (filter (\<lambda>(k, g). gr_payloads g = []) es))"

lemma batches_of_append: "batches_of (xs @ ys) = batches_of xs @ batches_of ys"
  by (simp add: batches_of_def)

lemma empty_windows_append: "empty_windows (xs @ ys) = empty_windows xs + empty_windows ys"
  by (simp add: empty_windows_def)

lemma update_middle: "k \<notin> fst ` set xs \<Longrightarrow> AList.update k v (xs @ (k, w) # ys) = xs @ (k, v) # ys"
  by (induction xs) auto

lemma delete_middle:
  "k \<notin> fst ` set xs \<Longrightarrow> k \<notin> fst ` set ys \<Longrightarrow> AList.delete k (xs @ (k, w) # ys) = xs @ ys"
  by (induction xs) (auto simp: delete_absent map_of_eq_None_iff)

text \<open>The parts of the state a flush changes, after the groups of one shard.\<close>

definition flushed ::
  "AggregatedBatch list \<times> MessageAggregator \<Rightarrow> AggregatedBatch list \<Rightarrow>
   (AggregatorGroupKey, AggregatorGroup) smap \<Rightarrow> int \<Rightarrow> MessageAggregator \<Rightarrow> bool" where
  "flushed r bs shards n a \<longleftrightarrow> fst r = bs \<and> ma_shards (snd r) = shards \<and> ma_groupCount (snd r) = n \<and>
     ma_maxPerGroup (snd r) = ma_maxPerGroup a \<and> ma_maxGroups (snd r) = ma_maxGroups a \<and>
     ma_offered (snd r) = ma_offered a"

lemma flush_group_empty:
  assumes "ma_shards a i = front @ (k, g) # es" and "k \<notin> fst ` set front" and "k \<notin> fst ` set es"
    and "gr_payloads g = []"
  shows "flushed (flush_group i (k, g) (bs, a)) bs ((ma_shards a)(i := front @ es)) (ma_groupCount a - 1) a"
  using assms by (simp add: flushed_def flush_group_def update_middle delete_middle)

lemma flush_group_batch:
  assumes "ma_shards a i = front @ (k, g) # es" and "k \<notin> fst ` set front" and "gr_payloads g \<noteq> []"
  shows "flushed (flush_group i (k, g) (bs, a)) (bs @ batches_of [(k, g)])
           ((ma_shards a)(i := (front @ cleared [(k, g)]) @ es)) (ma_groupCount a) a"
  using assms by (simp add: flushed_def flush_group_def Let_def update_middle batches_of_def cleared_def)

lemma flush_groups:
  assumes "ma_shards a i = front @ es" and "distinct (map fst (front @ es))"
  shows "flushed (fold (flush_group i) es (bs, a)) (bs @ batches_of es)
           ((ma_shards a)(i := front @ cleared es)) (ma_groupCount a - empty_windows es) a"
  using assms
proof (induction es arbitrary: a bs front)
  case Nil
  then have "(ma_shards a)(i := front) = ma_shards a" by auto
  then show ?case by (simp add: flushed_def batches_of_def cleared_def empty_windows_def)
next
  case (Cons e es)
  obtain k g where e: "e = (k, g)" by force
  have fresh: "k \<notin> fst ` set front" "k \<notin> fst ` set es" using Cons.prems(2) e by auto
  obtain bs1 a1 where r: "flush_group i (k, g) (bs, a) = (bs1, a1)" by force
  show ?case
  proof (cases "gr_payloads g = []")
    case True
    then have f: "flushed (bs1, a1) bs ((ma_shards a)(i := front @ es)) (ma_groupCount a - 1) a"
      using flush_group_empty [of a i front k g es bs] Cons.prems(1) fresh e r by simp
    then have "flushed (fold (flush_group i) es (bs1, a1)) (bs1 @ batches_of es)
        ((ma_shards a1)(i := front @ cleared es)) (ma_groupCount a1 - empty_windows es) a1"
      by (intro Cons.IH) (use Cons.prems(2) in \<open>auto simp: flushed_def\<close>)
    with True f e r show ?thesis
      by (auto simp: flushed_def batches_of_def cleared_def empty_windows_def)
  next
    case False
    then have f: "flushed (bs1, a1) (bs @ batches_of [(k, g)])
        ((ma_shards a)(i := (front @ cleared [(k, g)]) @ es)) (ma_groupCount a) a"
      using flush_group_batch [of a i front k g es bs] Cons.prems(1) fresh(1) e r by simp
    then have "flushed (fold (flush_group i) es (bs1, a1)) (bs1 @ batches_of es)
        ((ma_shards a1)(i := (front @ cleared [(k, g)]) @ cleared es)) (ma_groupCount a1 - empty_windows es) a1"
      by (intro Cons.IH) (use Cons.prems(2) e False in \<open>auto simp: flushed_def cleared_def\<close>)
    with False f e r show ?thesis
      by (auto simp: flushed_def batches_of_def cleared_def empty_windows_def)
  qed
qed

lemma flush_shards:
  assumes "\<And>i. gm_wf (ma_shards a i)"
  shows "flushed (fold flush_shard [0..<n] ([], a)) (batches_of (sm_range n (ma_shards a)))
    (\<lambda>i. if i < n then cleared (ma_shards a i) else ma_shards a i)
    (ma_groupCount a - empty_windows (sm_range n (ma_shards a))) a"
proof (induction n)
  case 0
  then show ?case by (simp add: flushed_def sm_range_def batches_of_def empty_windows_def)
next
  case (Suc n)
  obtain bs1 a1 where r: "fold flush_shard [0..<n] ([], a) = (bs1, a1)" by force
  with Suc have f: "flushed (bs1, a1) (batches_of (sm_range n (ma_shards a)))
    (\<lambda>i. if i < n then cleared (ma_shards a i) else ma_shards a i)
    (ma_groupCount a - empty_windows (sm_range n (ma_shards a))) a" by simp
  then have a1: "ma_shards a1 n = [] @ ma_shards a n" by (simp add: flushed_def)
  then have step: "fold flush_shard [0..<Suc n] ([], a) = fold (flush_group n) (ma_shards a n) (bs1, a1)"
    using r by (simp add: flush_shard_def [of n])
  from flush_groups [OF a1, of bs1] assms [of n]
  have "flushed (fold (flush_group n) (ma_shards a n) (bs1, a1)) (bs1 @ batches_of (ma_shards a n))
    ((ma_shards a1)(n := cleared (ma_shards a n))) (ma_groupCount a1 - empty_windows (ma_shards a n)) a1"
    by simp
  moreover have "(\<lambda>i. if i < n then cleared (ma_shards a i) else ma_shards a i)(n := cleared (ma_shards a n)) =
      (\<lambda>i. if i < Suc n then cleared (ma_shards a i) else ma_shards a i)"
    by (auto simp: fun_eq_iff less_Suc_eq)
  ultimately show ?case
    unfolding step using f by (simp add: flushed_def sm_range_Suc batches_of_append empty_windows_append)
qed

lemma cleared_keys: "map fst (cleared es) = map fst (filter (\<lambda>(k, g). gr_payloads g \<noteq> []) es)"
  by (induction es) (auto simp: cleared_def)

lemma cleared_lookup:
  "gm_wf es \<Longrightarrow> map_of (cleared es) k =
     (case map_of es k of
        Some g \<Rightarrow> if gr_payloads g = [] then None else Some (g\<lparr>gr_payloads := []\<rparr>)
      | None \<Rightarrow> None)"
proof (induction es)
  case Nil
  then show ?case by (simp add: cleared_def)
next
  case (Cons e es)
  obtain j g where e: "e = (j, g)" by force
  then have "map_of es j = None" using Cons.prems by (auto simp: map_of_eq_None_iff)
  with Cons e show ?case by (auto simp: cleared_def)
qed

lemma cleared_wf: "gm_wf es \<Longrightarrow> gm_wf (cleared es)"
  by (simp add: cleared_keys distinct_map_filter)

lemma cleared_total: "gm_sum (\<lambda>_ _. 1) (cleared es) = gm_sum (\<lambda>_ _. 1) es - empty_windows es"
  by (induction es) (auto simp: cleared_def empty_windows_def)

lemma empty_windows_range:
  "empty_windows (sm_range n s) = (\<Sum>i<n. empty_windows (s i))"
  by (induction n) (simp_all add: sm_range_Suc empty_windows_append, simp add: sm_range_def empty_windows_def)

text \<open>The flush as a whole.\<close>

lemma Flush_flushed:
  assumes "ma_inv a"
  shows "flushed (Aggregator_Flush a) (batches_of (sm_range aggregatorShardCount (ma_shards a)))
    (\<lambda>i. if i < aggregatorShardCount then cleared (ma_shards a i) else ma_shards a i)
    (ma_groupCount a - empty_windows (sm_range aggregatorShardCount (ma_shards a))) a"
  unfolding Aggregator_Flush_def
  by (rule flush_shards) (use assms in \<open>simp add: ma_inv_def sm_wf_def\<close>)

lemma Flush_lookup:
  assumes "ma_inv a"
  shows "sm_lookup agg_shardOf (ma_shards (snd (Aggregator_Flush a))) k =
     (case sm_lookup agg_shardOf (ma_shards a) k of
        Some g \<Rightarrow> if gr_payloads g = [] then None else Some (g\<lparr>gr_payloads := []\<rparr>)
      | None \<Rightarrow> None)"
proof -
  have wf: "gm_wf (ma_shards a i)" for i using assms by (simp add: ma_inv_def sm_wf_def)
  show ?thesis
    using Flush_flushed [OF assms] agg_shardOf_less [of k]
    by (simp add: flushed_def shard_simps cleared_lookup [OF wf])
qed

lemma Flush_inv:
  assumes inv: "ma_inv a"
  shows "ma_inv (snd (Aggregator_Flush a))"
proof -
  let ?a = "snd (Aggregator_Flush a)"
  have wf: "sm_wf agg_shardOf (ma_shards a)" using inv by (simp add: ma_inv_def)
  have f: "ma_shards ?a = (\<lambda>i. if i < aggregatorShardCount then cleared (ma_shards a i) else ma_shards a i)"
      "ma_groupCount ?a = ma_groupCount a - empty_windows (sm_range aggregatorShardCount (ma_shards a))"
      "ma_maxPerGroup ?a = ma_maxPerGroup a" "ma_maxGroups ?a = ma_maxGroups a"
    using Flush_flushed [OF inv] by (simp_all add: flushed_def)
  have "sm_wf agg_shardOf (ma_shards ?a)"
  proof (rule sm_wfI)
    show "gm_wf (ma_shards ?a i)" for i
      using sm_wf_gm [OF wf, of i] by (simp add: f(1) cleared_wf)
    show "agg_shardOf k = i" if "map_of (ma_shards ?a i) k = Some v" for i k v
      using that sm_wf_place [OF wf, of i k] cleared_lookup [OF sm_wf_gm [OF wf, of i], of k]
      by (cases "map_of (ma_shards a i) k") (auto simp: f(1) split: if_splits)
  qed
  moreover have "ma_groupCount ?a = sm_total aggregatorShardCount (\<lambda>_ _. 1) (ma_shards ?a)"
    using inv by (simp add: f(1,2) ma_inv_def sm_total_def cleared_total empty_windows_range sum_subtractf)
  moreover have "0 \<le> empty_windows (sm_range aggregatorShardCount (ma_shards a))"
    by (simp add: empty_windows_def)
  moreover have "group_fits ?a k g" if "sm_lookup agg_shardOf (ma_shards ?a) k = Some g" for k g
    using that inv by (auto simp: Flush_lookup [OF inv] group_fits_def f(3) ma_inv_def split: option.splits if_splits)
  ultimately show ?thesis using inv f by (simp add: ma_inv_def)
qed

text \<open>The items of the windows, as the conservation law sees them.\<close>

definition window_items :: "(AggregatorGroupKey, AggregatorGroup) gomap \<Rightarrow> (AggregatorGroupKey \<times> string) list" where
  "window_items es = concat (map (\<lambda>(k, g). map (Pair k) (gr_payloads g)) es)"

definition ma_items :: "MessageAggregator \<Rightarrow> (AggregatorGroupKey \<times> string) multiset" where
  "ma_items a = mset (window_items (sm_range aggregatorShardCount (ma_shards a)))"

definition offer_item :: "AggregatorGroupKey \<times> string \<Rightarrow> MessageAggregator \<Rightarrow> bool \<times> MessageAggregator" where
  "offer_item x a = Aggregator_Offer (ak_appID (fst x)) (ak_groupID (fst x)) (snd x) a"

definition flush_items :: "MessageAggregator \<Rightarrow> (AggregatorGroupKey \<times> string) list \<times> MessageAggregator" where
  "flush_items a = (window_items (sm_range aggregatorShardCount (ma_shards a)), snd (Aggregator_Flush a))"

lemma window_items_append: "window_items (xs @ ys) = window_items xs @ window_items ys"
  by (simp add: window_items_def)

lemma mset_window_items_update:
  assumes "gm_wf es" and "old = (case map_of es k of None \<Rightarrow> [] | Some g \<Rightarrow> gr_payloads g)"
    and "gr_payloads g' = old @ [p]"
  shows "mset (window_items (AList.update k g' es)) = add_mset (k, p) (mset (window_items es))"
  using assms(1,2)
proof (induction es)
  case Nil
  then show ?case using assms(3) by (simp add: window_items_def)
next
  case (Cons e es)
  obtain j g where e: "e = (j, g)" by force
  show ?case
  proof (cases "j = k")
    case True
    then show ?thesis using Cons.prems e assms(3) by (simp add: window_items_def)
  next
    case False
    then show ?thesis using Cons e by (simp add: window_items_def)
  qed
qed

lemma mset_range_lock:
  assumes "j < n"
  shows "mset (window_items (sm_range n (s(j := es)))) + mset (window_items (s j)) =
         mset (window_items (sm_range n s)) + mset (window_items es)"
  using assms
proof (induction n)
  case 0
  then show ?case by simp
next
  case (Suc n)
  show ?case
  proof (cases "j = n")
    case True
    then have "sm_range n (s(j := es)) = sm_range n s"
      by (auto simp: sm_range_def intro!: arg_cong [where f = concat])
    with True show ?thesis
      by (simp only: sm_range_Suc window_items_append mset_append fun_upd_same add.assoc add.commute add.left_commute)
  next
    case False
    with Suc show ?thesis
      by (simp add: sm_range_Suc window_items_append add.commute add.left_commute del: fun_upd_apply)
         (simp add: add.commute add.left_commute)
  qed
qed

lemma offer_item_accepted:
  assumes inv: "ma_inv a" and ok: "fst (offer_item x a)"
  shows "ma_items (snd (offer_item x a)) = add_mset x (ma_items a)"
proof -
  obtain app gid p where x: "x = (\<lparr>ak_appID = app, ak_groupID = gid\<rparr>, p)"
    by (cases x, cases "fst x") auto
  let ?k = "\<lparr>ak_appID = app, ak_groupID = gid\<rparr>"
  have ok': "agg_ok app gid p a" using ok by (simp add: offer_item_def x Agg_Offer_result [OF inv])
  let ?i = "agg_shardOf ?k" and ?g = "offered_group app gid p a"
  have sh: "ma_shards (snd (offer_item x a)) = (ma_shards a)(?i := AList.update ?k ?g (ma_shards a ?i))"
    by (simp add: offer_item_def x Agg_Offer_accepted [OF inv ok'] with_shard_lock_def)
  have "mset (window_items (AList.update ?k ?g (ma_shards a ?i))) = add_mset (?k, p) (mset (window_items (ma_shards a ?i)))"
    by (rule mset_window_items_update [OF _ refl])
       (use inv in \<open>auto simp: ma_inv_def sm_wf_def offered_group_def ma_abs_def shard_simps split: option.split\<close>)
  with mset_range_lock [OF agg_shardOf_less, of "ma_shards a" ?k "AList.update ?k ?g (ma_shards a ?i)"]
  show ?thesis unfolding ma_items_def sh by (simp add: x)
qed

lemma cleared_items: "window_items (cleared es) = []"
  by (induction es) (auto simp: cleared_def window_items_def)

lemma flush_items_empty:
  assumes "ma_inv a"
  shows "ma_items (snd (Aggregator_Flush a)) = {#}"
proof -
  have sh: "ma_shards (snd (Aggregator_Flush a)) =
      (\<lambda>i. if i < aggregatorShardCount then cleared (ma_shards a i) else ma_shards a i)"
    using Flush_flushed [OF assms] by (simp add: flushed_def)
  have "window_items (sm_range n (\<lambda>i. if i < m then cleared (s i) else s i)) = []" if "n \<le> m" for n m s
    using that by (induction n) (simp_all add: sm_range_Suc window_items_append cleared_items, simp add: sm_range_def window_items_def)
  then show ?thesis by (simp add: ma_items_def sh)
qed

interpretation agg: lossless_buffer offer_item flush_items ma_items ma_inv
proof unfold_locales
  show "ma_inv (snd (offer_item i s))" if "ma_inv s" for s i
    using Agg_Offer_inv [OF that] by (simp add: offer_item_def)
  show "ma_inv (snd (flush_items s))" if "ma_inv s" for s
    using Flush_inv [OF that] by (simp add: flush_items_def)
  show "ma_items (snd (offer_item i s)) = add_mset i (ma_items s)" if "ma_inv s" "fst (offer_item i s)" for s i
    using offer_item_accepted [OF that] .
  show "ma_items (snd (offer_item i s)) = ma_items s" if "ma_inv s" "\<not> fst (offer_item i s)" for s i
    using that Agg_Offer_refused [OF that(1)]
    by (simp add: offer_item_def Agg_Offer_result ma_items_def)
  show "ma_items s = mset (fst (flush_items s)) + ma_items (snd (flush_items s))" if "ma_inv s" for s
    using flush_items_empty [OF that] by (simp add: flush_items_def ma_items_def)
qed

section \<open>Properties\<close>

text \<open>The aggregator appends or refuses.  On a reachable aggregator an accepted offer appends the
  payload to the window of its application and group and touches no other window, a refused one leaves
  every window as it was, and both keep the invariant (group count, window and group limits).\<close>

theorem aggregator_offer_refines:
  assumes "ma_inv a"
  shows "fst (Aggregator_Offer appID groupID payload a) = agg_ok appID groupID payload a \<and>
         ma_abs (snd (Aggregator_Offer appID groupID payload a)) =
           (if agg_ok appID groupID payload a
            then (ma_abs a)(\<lparr>ak_appID = appID, ak_groupID = groupID\<rparr> :=
                   ma_abs a \<lparr>ak_appID = appID, ak_groupID = groupID\<rparr> @ [payload])
            else ma_abs a) \<and>
         ma_inv (snd (Aggregator_Offer appID groupID payload a))"
  using assms by (simp add: Agg_Offer_result Agg_Offer_abs Agg_Offer_inv)

text \<open>A flush makes one frame per window.  Flushing a reachable aggregator returns, for the keys with
  waiting payloads in some order, exactly one batch each, whose frame is the JSON array of the payloads
  in the order of their offers; afterwards every window is empty.\<close>

theorem aggregator_flush_batches:
  assumes "ma_inv a"
  shows "\<exists>ks. distinct ks \<and> set ks = {k. ma_abs a k \<noteq> []} \<and>
    fst (Aggregator_Flush a) =
      map (\<lambda>k. \<lparr>ab_AppID = ak_appID k, ab_GroupID = ak_groupID k, ab_Frame = joinJSONPayloads (ma_abs a k)\<rparr>) ks \<and>
    ma_abs (snd (Aggregator_Flush a)) = (\<lambda>_. [])"
proof (intro exI conjI)
  let ?r = "sm_range aggregatorShardCount (ma_shards a)"
  let ?ks = "map fst (filter (\<lambda>(k, g). gr_payloads g \<noteq> []) ?r)"
  have wf: "sm_wf agg_shardOf (ma_shards a)" using assms by (simp add: ma_inv_def)
  have r: "(k, g) \<in> set ?r \<longleftrightarrow> sm_lookup agg_shardOf (ma_shards a) k = Some g" for k g
    using sm_range_iff [OF wf, of aggregatorShardCount] agg_shardOf_less by simp
  show "distinct ?ks"
    using sm_range_distinct [OF wf, of aggregatorShardCount] by (simp add: sm_keys_def distinct_map_filter)
  show "set ?ks = {k. ma_abs a k \<noteq> []}"
    using r by (force simp: ma_abs_def split: option.splits)
  have "gr_appID g = ak_appID k \<and> gr_groupID g = ak_groupID k \<and> ma_abs a k = gr_payloads g"
    if "(k, g) \<in> set ?r" for k g
    using that assms r by (auto simp: ma_inv_def group_fits_def ma_abs_def)
  then show "fst (Aggregator_Flush a) =
      map (\<lambda>k. \<lparr>ab_AppID = ak_appID k, ab_GroupID = ak_groupID k, ab_Frame = joinJSONPayloads (ma_abs a k)\<rparr>) ?ks"
    using Flush_flushed [OF assms] by (auto simp: flushed_def batches_of_def comp_def intro!: map_cong)
  show "ma_abs (snd (Aggregator_Flush a)) = (\<lambda>_. [])"
    by (auto simp: ma_abs_def Flush_lookup [OF assms] fun_eq_iff split: option.split)
qed

text \<open>Aggregation loses no message.  Over any sequence of offers and flushes of a new aggregator the
  accepted messages are, as a multiset, the flushed ones together with the waiting ones.\<close>

theorem aggregator_conservation:
  "let r = buffer_runs offer_item flush_items ops (NewMessageAggregator maxPerGroup maxGroups)
   in mset (br_accepted r) = mset (br_drained r) + ma_items (br_state r)"
proof -
  have "ma_items (NewMessageAggregator maxPerGroup maxGroups) = {#}"
    by (simp add: ma_items_def NewMessageAggregator_def sm_range_def sm_new_def window_items_def)
  with agg.conservation [OF NewMessageAggregator_inv, of maxPerGroup maxGroups ops]
  show ?thesis by simp
qed

section \<open>Witnesses\<close>

theorem aggregator_offer_refines_witness:
  "ma_abs (snd (Aggregator_Offer ''app'' ''g'' ''p'' (NewMessageAggregator 0 0)))
     \<lparr>ak_appID = ''app'', ak_groupID = ''g''\<rparr> = [''p'']"
  using aggregator_offer_refines [OF NewMessageAggregator_inv, of "''app''" "''g''" "''p''" 0 0]
  by (simp add: agg_ok_def ma_abs_def NewMessageAggregator_def shard_simps sm_new_def
      DefaultAggregatorMaxGroups_def)

theorem aggregator_flush_batches_witness:
  "length (fst (Aggregator_Flush (snd (Aggregator_Offer ''app'' ''g'' ''p'' (NewMessageAggregator 0 0))))) = 1"
proof -
  let ?a = "snd (Aggregator_Offer ''app'' ''g'' ''p'' (NewMessageAggregator 0 0))"
  have inv: "ma_inv ?a" by (rule Agg_Offer_inv [OF NewMessageAggregator_inv])
  have "{k. ma_abs ?a k \<noteq> []} = {\<lparr>ak_appID = ''app'', ak_groupID = ''g''\<rparr>}"
    by (auto simp: Agg_Offer_abs [OF NewMessageAggregator_inv])
       (simp_all add: agg_ok_def ma_abs_def NewMessageAggregator_def shard_simps sm_new_def
          DefaultAggregatorMaxGroups_def split: if_splits)
  then show ?thesis
    using aggregator_flush_batches [OF inv] distinct_card by fastforce
qed

end
