(* ===== verification/Delay_Queue.thy ===== *)
theory Delay_Queue
  imports Buffer_Spec
begin

text \<open>
  The bounded delay queue of overload/delay_queue.go: a channel of entries, a non-blocking
  offer, and a drain loop that paces deliveries by the shaper's interval.

  \<^item> \<open>DelayQueue\<close> is the struct; the channel is the list of waiting entries.  An entry
    stands for its closure: calling \<open>retry\<close> appends it to the delivery log.
  \<^item> \<open>dq_step\<close> is the drain loop of line 76 with its environment: offers of other
    goroutines and the cancellation of the context.  The loop's control state says where it is.
\<close>

section \<open>Definitions\<close>

definition BroadcastDelayQueueCapacity :: nat where "BroadcastDelayQueueCapacity = 1024"

record 'e DelayQueue =
  dq_entries :: "'e list"
  dq_queueFull :: int
  dq_enqueued :: int
  dq_drained :: int

definition NewBroadcastDelayQueue :: "'e DelayQueue" where
  "NewBroadcastDelayQueue = \<lparr>dq_entries = [], dq_queueFull = 0, dq_enqueued = 0, dq_drained = 0\<rparr>"

definition DelayQueue_Offer :: "'e \<Rightarrow> 'e DelayQueue \<Rightarrow> bool \<times> 'e DelayQueue" where
  "DelayQueue_Offer e q =
     (if length (dq_entries q) < BroadcastDelayQueueCapacity
      then (True, q\<lparr>dq_entries := dq_entries q @ [e], dq_enqueued := dq_enqueued q + 1\<rparr>)
      else (False, q\<lparr>dq_queueFull := dq_queueFull q + 1\<rparr>))"

text \<open>Receiving one entry from the channel, and delivering it.\<close>

definition dq_take :: "'e DelayQueue \<Rightarrow> ('e \<times> 'e DelayQueue) option" where
  "dq_take q = (case dq_entries q of [] \<Rightarrow> None | e # es \<Rightarrow> Some (e, q\<lparr>dq_entries := es\<rparr>))"

definition dq_delivered_one :: "'e DelayQueue \<Rightarrow> 'e DelayQueue" where
  "dq_delivered_one q = q\<lparr>dq_drained := dq_drained q + 1\<rparr>"

text \<open>The flush loop of a cancelled context (lines 81 to 89): deliver until the channel is empty.\<close>

function dq_flush :: "'e DelayQueue \<Rightarrow> 'e list \<times> 'e DelayQueue" where
  "dq_flush q =
     (case dq_take q of
        None \<Rightarrow> ([], q)
      | Some (e, q') \<Rightarrow> (let (es, q'') = dq_flush (dq_delivered_one q') in (e # es, q'')))"
  by auto

termination
  by (relation "measure (\<lambda>q. length (dq_entries q))")
     (auto simp: dq_take_def dq_delivered_one_def split: list.splits)

definition DelayQueue_Backlog :: "'e DelayQueue \<Rightarrow> int" where
  "DelayQueue_Backlog q = dq_enqueued q - dq_drained q"

definition DelayQueue_Stats :: "'e DelayQueue \<Rightarrow> (string, int) gomap" where
  "DelayQueue_Stats q =
     [(''capacity'', int BroadcastDelayQueueCapacity), (''backlog'', DelayQueue_Backlog q),
      (''enqueued'', dq_enqueued q), (''drained'', dq_drained q), (''queue_full'', dq_queueFull q)]"

text \<open>The control states of the drain loop; \<open>Pacing e\<close> holds the received entry during the wait.\<close>

datatype 'e DrainState = Waiting | Pacing 'e | Flushing | Returned

record 'e DrainSystem =
  ds_queue :: "'e DelayQueue"
  ds_loop :: "'e DrainState"
  ds_done :: bool
  ds_log :: "'e list"
  ds_accepted :: "'e list"

definition deliver_entry :: "'e \<Rightarrow> 'e DrainSystem \<Rightarrow> 'e DrainSystem" where
  "deliver_entry e s = s\<lparr>ds_log := ds_log s @ [e], ds_queue := dq_delivered_one (ds_queue s)\<rparr>"

inductive dq_step :: "'e DrainSystem \<Rightarrow> 'e DrainSystem \<Rightarrow> bool" where
  dq_offer_ok: "DelayQueue_Offer e (ds_queue s) = (True, q) \<Longrightarrow>
     dq_step s (s\<lparr>ds_queue := q, ds_accepted := ds_accepted s @ [e]\<rparr>)"
| dq_offer_full: "DelayQueue_Offer e (ds_queue s) = (False, q) \<Longrightarrow> dq_step s (s\<lparr>ds_queue := q\<rparr>)"
| dq_cancel: "dq_step s (s\<lparr>ds_done := True\<rparr>)"
| dq_receive_paced: "ds_loop s = Waiting \<Longrightarrow> dq_take (ds_queue s) = Some (e, q) \<Longrightarrow>
     dq_step s (s\<lparr>ds_queue := q, ds_loop := Pacing e\<rparr>)"
| dq_receive_now: "ds_loop s = Waiting \<Longrightarrow> dq_take (ds_queue s) = Some (e, q) \<Longrightarrow>
     dq_step s (deliver_entry e (s\<lparr>ds_queue := q\<rparr>))"
| dq_paced_out: "ds_loop s = Pacing e \<Longrightarrow> dq_step s (deliver_entry e (s\<lparr>ds_loop := Waiting\<rparr>))"
| dq_done_seen: "ds_loop s = Waiting \<Longrightarrow> ds_done s \<Longrightarrow> dq_step s (s\<lparr>ds_loop := Flushing\<rparr>)"
| dq_flush_one: "ds_loop s = Flushing \<Longrightarrow> dq_take (ds_queue s) = Some (e, q) \<Longrightarrow>
     dq_step s (deliver_entry e (s\<lparr>ds_queue := q\<rparr>))"
| dq_flush_end: "ds_loop s = Flushing \<Longrightarrow> dq_take (ds_queue s) = None \<Longrightarrow>
     dq_step s (s\<lparr>ds_loop := Returned\<rparr>)"

definition drain_init :: "'e DrainSystem" where
  "drain_init = \<lparr>ds_queue = NewBroadcastDelayQueue, ds_loop = Waiting, ds_done = False,
                 ds_log = [], ds_accepted = []\<rparr>"

section \<open>Lemmas\<close>

declare dq_flush.simps [simp del]

lemma dq_flush_entries: "fst (dq_flush q) = dq_entries q"
proof (induction q rule: dq_flush.induct)
  case (1 q)
  then show ?case
    by (subst dq_flush.simps) (auto simp: dq_take_def dq_delivered_one_def split_beta split: list.splits)
qed

lemma dq_flush_rest:
  "dq_entries (snd (dq_flush q)) = [] \<and>
   dq_drained (snd (dq_flush q)) = dq_drained q + int (length (dq_entries q)) \<and>
   dq_enqueued (snd (dq_flush q)) = dq_enqueued q"
proof (induction q rule: dq_flush.induct)
  case (1 q)
  then show ?case
    by (subst (1 2 3) dq_flush.simps) (auto simp: dq_take_def dq_delivered_one_def split_beta split: list.splits)
qed

interpretation dq: lossless_buffer DelayQueue_Offer dq_flush "\<lambda>q. mset (dq_entries q)"
  "\<lambda>q. length (dq_entries q) \<le> BroadcastDelayQueueCapacity"
  by unfold_locales (auto simp: DelayQueue_Offer_def dq_flush_entries dq_flush_rest split: if_splits)

text \<open>What the loop holds in its hand.\<close>

definition held :: "'e DrainState \<Rightarrow> 'e list" where
  "held l = (case l of Pacing e \<Rightarrow> [e] | _ \<Rightarrow> [])"

lemma held_simps [simp]:
  "held Waiting = []" "held (Pacing e) = [e]" "held Flushing = []" "held Returned = []"
  by (simp_all add: held_def)

definition drain_inv :: "'e DrainSystem \<Rightarrow> bool" where
  "drain_inv s \<longleftrightarrow>
     ds_accepted s = ds_log s @ held (ds_loop s) @ dq_entries (ds_queue s) \<and>
     dq_enqueued (ds_queue s) = int (length (ds_accepted s)) \<and>
     dq_drained (ds_queue s) = int (length (ds_log s)) \<and>
     length (dq_entries (ds_queue s)) \<le> BroadcastDelayQueueCapacity"

lemma dq_step_inv: "drain_inv s \<Longrightarrow> dq_step s t \<Longrightarrow> drain_inv t"
  by (erule dq_step.cases)
     (auto simp: drain_inv_def DelayQueue_Offer_def dq_take_def deliver_entry_def dq_delivered_one_def
        split: if_splits list.splits)

interpretation drain_sys: invariant_system "\<lambda>s. s = drain_init" dq_step drain_inv
proof unfold_locales
  show "drain_inv s" if "s = drain_init" for s :: "'a DrainSystem"
    using that by (simp add: drain_init_def drain_inv_def NewBroadcastDelayQueue_def)
qed (rule dq_step_inv)

section \<open>Properties\<close>

text \<open>C32: The delay queue delivers in order and loses nothing.  In every state that offers, the paced
  drain loop and a cancellation can reach, the accepted entries are, in the order of acceptance, the
  delivered ones, then the one the loop holds while it waits, then the queued ones; the backlog counter
  counts exactly those not yet delivered.\<close>

theorem delay_queue_fifo_lossless:
  assumes "reach (\<lambda>s. s = drain_init) dq_step s"
  shows "ds_accepted s = ds_log s @ held (ds_loop s) @ dq_entries (ds_queue s) \<and>
         DelayQueue_Backlog (ds_queue s) = int (length (held (ds_loop s) @ dq_entries (ds_queue s))) \<and>
         length (dq_entries (ds_queue s)) \<le> BroadcastDelayQueueCapacity"
  using drain_sys.reach_inv [OF assms] by (auto simp: drain_inv_def DelayQueue_Backlog_def)

text \<open>Conservation in the queue.  Over any sequence of offers and flushes from an empty queue the
  accepted entries are, as a multiset, the flushed ones together with the ones still queued; every offer
  is accepted or refused.\<close>

theorem delay_queue_conservation:
  "let r = buffer_runs DelayQueue_Offer dq_flush ops NewBroadcastDelayQueue
   in mset (br_accepted r) = mset (br_drained r) + mset (dq_entries (br_state r)) \<and>
      length (dq_entries (br_state r)) \<le> BroadcastDelayQueueCapacity"
  using dq.conservation [of NewBroadcastDelayQueue ops] dq.runs_good [of NewBroadcastDelayQueue ops]
  by (simp add: NewBroadcastDelayQueue_def)

section \<open>Witnesses\<close>

theorem delay_queue_fifo_lossless_witness:
  "\<exists>s :: nat DrainSystem. reach (\<lambda>s. s = drain_init) dq_step s \<and> ds_loop s = Pacing 7 \<and>
     ds_accepted s = ds_log s @ held (ds_loop s) @ dq_entries (ds_queue s)"
proof -
  let ?q1 = "snd (DelayQueue_Offer (7::nat) NewBroadcastDelayQueue)"
  let ?s1 = "drain_init\<lparr>ds_queue := ?q1, ds_accepted := [7::nat]\<rparr>"
  let ?s2 = "?s1\<lparr>ds_queue := ?q1\<lparr>dq_entries := []\<rparr>, ds_loop := Pacing 7\<rparr>"
  have o: "DelayQueue_Offer (7::nat) NewBroadcastDelayQueue = (True, ?q1)"
    by (simp add: DelayQueue_Offer_def NewBroadcastDelayQueue_def BroadcastDelayQueueCapacity_def)
  have r0: "reach (\<lambda>s. s = drain_init) dq_step (drain_init :: nat DrainSystem)"
    by (rule reach_init) simp
  have s1: "dq_step drain_init ?s1"
    using dq_offer_ok [of "7::nat" drain_init ?q1] o by (simp add: drain_init_def)
  have s2: "dq_step ?s1 ?s2"
    using dq_receive_paced [of ?s1 "7::nat" "?q1\<lparr>dq_entries := []\<rparr>"] o
    by (simp add: drain_init_def dq_take_def DelayQueue_Offer_def NewBroadcastDelayQueue_def
        BroadcastDelayQueueCapacity_def)
  have r: "reach (\<lambda>s. s = drain_init) dq_step ?s2"
    by (rule reach_step [OF reach_step [OF r0 s1] s2])
  from r delay_queue_fifo_lossless [OF r] show ?thesis
    by (intro exI [of _ ?s2]) simp
qed

end
