(* ===== verification/Client.thy ===== *)
theory Client
  imports Message
begin

text \<open>
  A connection: models/client.go.

  \<^item> \<open>Client\<close> is the struct with the accessors and builder methods.  Atomic mirrors
    (\<open>vipLevelVal\<close>, \<open>statusVal\<close>, \<open>backlogRatio\<close>) are fields of their own.  Times are Unix
    nanoseconds, \<open>0\<close> is the zero time.  Sockets, writers and contexts are handles that are only
    stored.
  \<^item> \<open>GoChan\<close> is a buffered channel; sending on a closed one panics.
  \<^item> The backlog counter of the hub is shared by the clients of the hub: a client holds an
    address into a store of counters.
  \<^item> \<open>ps_step\<close> interleaves, access by access, any number of goroutines that run \<open>TrySend\<close>,
    \<open>CompletePendingWrites\<close> and \<open>MarkClosed\<close> on one client.  The invariant shows that the lock-free
    accounting neither drifts while the connection is open nor leaks once it is closed.
  \<^item> Counters are of type \<open>int\<close>: they are bounded by the channel capacities, far below 64 bits.
\<close>

section \<open>Channels\<close>

record 'a GoChan =
  ch_cap :: nat
  ch_buf :: "'a list"
  ch_closed :: bool

datatype 'a SendOutcome = SendOk "'a GoChan" | SendFull | SendPanic

text \<open>\<open>select { case ch <- v: ... default: ... }\<close>\<close>

definition try_send :: "'a GoChan \<Rightarrow> 'a \<Rightarrow> 'a SendOutcome" where
  "try_send ch v =
     (if ch_closed ch then SendPanic
      else if length (ch_buf ch) < ch_cap ch then SendOk (ch\<lparr>ch_buf := ch_buf ch @ [v]\<rparr>)
      else SendFull)"

type_synonym frame = string

section \<open>The struct\<close>

type_synonym UserRole = string
type_synonym ClientType = string
type_synonym Department = string

record Client =
  cl_ID :: string
  cl_UserID :: string
  cl_AppID :: string
  cl_Namespace :: string
  cl_GroupID :: string
  cl_GroupIDs :: GoSlice
  cl_UserType :: UserType
  cl_VIPLevel :: VIPLevel
  cl_Role :: UserRole
  cl_ClientIP :: string
  cl_Conn :: "nat option"
  cl_ConnectedAt :: int
  cl_Status :: UserStatus
  cl_Department :: Department
  cl_Skills :: "string list"
  cl_MaxTickets :: int
  cl_NodeID :: string
  cl_NodeIP :: string
  cl_NodePort :: int
  cl_ClientType :: ClientType
  cl_ConnectionType :: ConnectionType
  cl_Metadata :: "(string, AnyVal) gomap option"
  cl_SendChan :: "frame GoChan option"
  cl_CtrlCh :: "frame GoChan option"
  cl_DoneCh :: "frame GoChan option"
  cl_PongCh :: "frame GoChan option"
  cl_Context :: "nat option"
  cl_pendingWrites :: int
  cl_pendingCounter :: "nat option"
  cl_closed :: bool
  cl_lastHeartbeatUnix :: int
  cl_lastSeenUnix :: int
  cl_lastPongUnix :: int
  cl_statsFlushUnix :: int
  cl_pongBytes :: "frame option"
  cl_vipLevelVal :: int
  cl_statusVal :: int
  cl_backlogRatio :: int
  cl_SSEWriter :: "nat option"
  cl_SSEFlusher :: "nat option"
  cl_SSEMessageCh :: "HubMessage GoChan option"
  cl_SSECloseCh :: "nat option"

definition NewClient :: "int \<Rightarrow> string \<Rightarrow> string \<Rightarrow> UserType \<Rightarrow> Client" where
  "NewClient now ident userID userType =
     \<lparr>cl_ID = ident, cl_UserID = userID, cl_AppID = DefaultAppID, cl_Namespace = DefaultNamespace,
      cl_GroupID = [], cl_GroupIDs = None, cl_UserType = userType, cl_VIPLevel = [], cl_Role = [],
      cl_ClientIP = [], cl_Conn = None, cl_ConnectedAt = now, cl_Status = UserStatusOnline,
      cl_Department = [], cl_Skills = [], cl_MaxTickets = 0, cl_NodeID = [], cl_NodeIP = [],
      cl_NodePort = 0, cl_ClientType = [], cl_ConnectionType = [], cl_Metadata = None,
      cl_SendChan = None, cl_CtrlCh = None,
      cl_DoneCh = Some \<lparr>ch_cap = 0, ch_buf = [], ch_closed = False\<rparr>, cl_PongCh = None, cl_Context = Some 0,
      cl_pendingWrites = 0, cl_pendingCounter = None, cl_closed = False,
      cl_lastHeartbeatUnix = now, cl_lastSeenUnix = now, cl_lastPongUnix = now,
      cl_statsFlushUnix = 0, cl_pongBytes = None, cl_vipLevelVal = VIPLevel_GetLevel [],
      cl_statusVal = UserStatus_ToInt UserStatusOnline, cl_backlogRatio = 0,
      cl_SSEWriter = None, cl_SSEFlusher = None, cl_SSEMessageCh = None, cl_SSECloseCh = None\<rparr>"

section \<open>Accessors and builders\<close>

definition Client_SetStatus :: "UserStatus \<Rightarrow> Client \<Rightarrow> Client" where
  "Client_SetStatus status c = c\<lparr>cl_Status := status, cl_statusVal := UserStatus_ToInt status\<rparr>"

definition Client_GetStatus :: "Client \<Rightarrow> UserStatus" where
  "Client_GetStatus c = UserStatusFromInt (cl_statusVal c)"

definition GetMetadataValue :: "string \<Rightarrow> Client \<Rightarrow> AnyVal option" where
  "GetMetadataValue key c =
     (case cl_Metadata c of None \<Rightarrow> None | Some m \<Rightarrow> map_of m key)"

definition SetMetadataValue :: "string \<Rightarrow> AnyVal \<Rightarrow> Client \<Rightarrow> Client" where
  "SetMetadataValue key value c =
     (let m = (case cl_Metadata c of None \<Rightarrow> [] | Some m \<Rightarrow> m)
      in c\<lparr>cl_Metadata := Some (AList.update key value m)\<rparr>)"

definition GetMetadataSnapshot :: "Client \<Rightarrow> (string, AnyVal) gomap" where
  "GetMetadataSnapshot c =
     (case cl_Metadata c of None \<Rightarrow> [] | Some m \<Rightarrow> fold (\<lambda>(k, v). AList.update k v) m [])"

definition SetLastHeartbeat :: "int \<Rightarrow> Client \<Rightarrow> Client" where
  "SetLastHeartbeat t c = c\<lparr>cl_lastHeartbeatUnix := t\<rparr>"

definition SetLastSeen :: "int \<Rightarrow> Client \<Rightarrow> Client" where
  "SetLastSeen t c = c\<lparr>cl_lastSeenUnix := t\<rparr>"

definition SetLastPong :: "int \<Rightarrow> Client \<Rightarrow> Client" where
  "SetLastPong t c = c\<lparr>cl_lastPongUnix := t\<rparr>"

text \<open>\<open>None\<close> is the zero \<open>time.Time\<close>.\<close>

definition read_unix :: "int \<Rightarrow> int option" where
  "read_unix nano = (if nano = 0 then None else Some nano)"

definition GetLastHeartbeat :: "Client \<Rightarrow> int option" where
  "GetLastHeartbeat c = read_unix (cl_lastHeartbeatUnix c)"

definition GetLastSeen :: "Client \<Rightarrow> int option" where
  "GetLastSeen c = read_unix (cl_lastSeenUnix c)"

definition GetLastPong :: "Client \<Rightarrow> int option" where
  "GetLastPong c = read_unix (cl_lastPongUnix c)"

text \<open>
  \<open>StatsFlushDue\<close>: the clock is read once; \<open>others\<close> lists the values that other goroutines
  store between a load and the compare-and-swap after it.  A time.Duration is divided toward
  zero.
\<close>

definition whole_seconds :: "int \<Rightarrow> int" where
  "whole_seconds d = sgn d * (\<bar>d\<bar> div 1000000000)"

fun StatsFlushDue :: "int list \<Rightarrow> int \<Rightarrow> int \<Rightarrow> Client \<Rightarrow> bool \<times> Client" where
  "StatsFlushDue others now interval c =
     (let last = cl_statsFlushUnix c in
      if now - last < whole_seconds interval then (False, c)
      else case others of
             [] \<Rightarrow> (True, c\<lparr>cl_statsFlushUnix := now\<rparr>)
           | v # vs \<Rightarrow> if v = last then (True, c\<lparr>cl_statsFlushUnix := now\<rparr>)
                      else StatsFlushDue vs now interval (c\<lparr>cl_statsFlushUnix := v\<rparr>))"

definition CachedPongBytes :: "frame \<Rightarrow> Client \<Rightarrow> frame option \<times> Client" where
  "CachedPongBytes built c =
     (case cl_pongBytes c of
        Some cached \<Rightarrow> (Some cached, c)
      | None \<Rightarrow> if built = [] then (None, c) else (Some built, c\<lparr>cl_pongBytes := Some built\<rparr>))"

definition SetVIPLevel :: "VIPLevel \<Rightarrow> Client \<Rightarrow> Client" where
  "SetVIPLevel level c = c\<lparr>cl_VIPLevel := level, cl_vipLevelVal := VIPLevel_GetLevel level\<rparr>"

definition GetVIPLevel :: "Client \<Rightarrow> VIPLevel" where
  "GetVIPLevel c = VIPLevelFromLevel (cl_vipLevelVal c)"

definition Client_WithNamespace :: "string \<Rightarrow> Client \<Rightarrow> Client" where
  "Client_WithNamespace namespace c = c\<lparr>cl_Namespace := namespace\<rparr>"

definition Client_GetNamespace :: "Client \<Rightarrow> string" where
  "Client_GetNamespace c = NormalizeNamespace (cl_Namespace c)"

definition Client_WithAppID :: "string \<Rightarrow> Client \<Rightarrow> Client" where
  "Client_WithAppID appID c = c\<lparr>cl_AppID := NormalizeAppID appID\<rparr>"

definition Client_GetAppID :: "Client \<Rightarrow> string" where
  "Client_GetAppID c = NormalizeAppID (cl_AppID c)"

definition SetGroupID :: "string \<Rightarrow> Client \<Rightarrow> Client" where
  "SetGroupID groupID c = c\<lparr>cl_GroupID := groupID\<rparr>"

definition GetGroupIDRaw :: "Client \<Rightarrow> string" where
  "GetGroupIDRaw c = cl_GroupID c"

definition Client_GetGroupID :: "Client \<Rightarrow> string" where
  "Client_GetGroupID c = NormalizeGroupID (GetGroupIDRaw c)"

definition Client_WithGroupIDs :: "GoSlice \<Rightarrow> Client \<Rightarrow> Client" where
  "Client_WithGroupIDs groupIDs c =
     (case slice groupIDs of
        [] \<Rightarrow> c\<lparr>cl_GroupIDs := None\<rparr>
      | g # gs \<Rightarrow> c\<lparr>cl_GroupIDs := Some (g # gs), cl_GroupID := g\<rparr>)"

definition GetGroupIDsRaw :: "Client \<Rightarrow> GoSlice" where
  "GetGroupIDsRaw c =
     (if slice (cl_GroupIDs c) = [] then None else Some (slice (cl_GroupIDs c)))"

definition Client_GetGroupIDs :: "Client \<Rightarrow> string list" where
  "Client_GetGroupIDs c =
     (if slice (GetGroupIDsRaw c) \<noteq> [] then slice (GetGroupIDsRaw c)
      else if GetGroupIDRaw c \<noteq> [] then [GetGroupIDRaw c]
      else [DefaultGroupID])"

definition WithRole :: "UserRole \<Rightarrow> Client \<Rightarrow> Client" where
  "WithRole role c = c\<lparr>cl_Role := role\<rparr>"

definition WithClientIP :: "string \<Rightarrow> Client \<Rightarrow> Client" where
  "WithClientIP ip c = c\<lparr>cl_ClientIP := ip\<rparr>"

definition WithWebSocketConn :: "nat option \<Rightarrow> Client \<Rightarrow> Client" where
  "WithWebSocketConn conn c = c\<lparr>cl_Conn := conn, cl_ConnectionType := ConnectionTypeWebSocket\<rparr>"

definition WithSSEWriter :: "nat option \<Rightarrow> nat option \<Rightarrow> Client \<Rightarrow> Client" where
  "WithSSEWriter w flusher c =
     c\<lparr>cl_SSEWriter := w, cl_SSEFlusher := flusher, cl_ConnectionType := ConnectionTypeSSE\<rparr>"

definition WithDepartment :: "Department \<Rightarrow> Client \<Rightarrow> Client" where
  "WithDepartment dept c = c\<lparr>cl_Department := dept\<rparr>"

definition WithSkills :: "string list \<Rightarrow> Client \<Rightarrow> Client" where
  "WithSkills skills c = c\<lparr>cl_Skills := skills\<rparr>"

definition WithMaxTickets :: "int \<Rightarrow> Client \<Rightarrow> Client" where
  "WithMaxTickets n c = c\<lparr>cl_MaxTickets := n\<rparr>"

definition WithNodeInfo :: "string \<Rightarrow> string \<Rightarrow> int \<Rightarrow> Client \<Rightarrow> Client" where
  "WithNodeInfo nodeID nodeIP nodePort c =
     c\<lparr>cl_NodeID := nodeID, cl_NodeIP := nodeIP, cl_NodePort := nodePort\<rparr>"

definition WithClientType :: "ClientType \<Rightarrow> Client \<Rightarrow> Client" where
  "WithClientType clientType c = c\<lparr>cl_ClientType := clientType\<rparr>"

definition WithMetadataMap :: "(string, AnyVal) gomap \<Rightarrow> Client \<Rightarrow> Client" where
  "WithMetadataMap metadata c =
     (let m = (case cl_Metadata c of None \<Rightarrow> [] | Some m \<Rightarrow> m)
      in c\<lparr>cl_Metadata := Some (fold (\<lambda>(k, v). AList.update k v) metadata m)\<rparr>)"

definition WithSendChan :: "frame GoChan option \<Rightarrow> Client \<Rightarrow> Client" where
  "WithSendChan ch c = c\<lparr>cl_SendChan := ch\<rparr>"

definition WithSSEChannels :: "HubMessage GoChan option \<Rightarrow> nat option \<Rightarrow> Client \<Rightarrow> Client" where
  "WithSSEChannels messageCh closeCh c = c\<lparr>cl_SSEMessageCh := messageCh, cl_SSECloseCh := closeCh\<rparr>"

definition Client_WithContext :: "nat option \<Rightarrow> Client \<Rightarrow> Client" where
  "Client_WithContext ctx c = c\<lparr>cl_Context := ctx\<rparr>"

text \<open>
  \<open>GetUserAgent\<close>: \<open>ctxval\<close> reads the context of the client (\<open>Context.Value\<close>, \<open>None\<close> for nil).
\<close>

fun first_str :: "AnyVal option list \<Rightarrow> string option" where
  "first_str [] = None"
| "first_str (Some (AStr s) # vs) = (if s \<noteq> [] then Some s else first_str vs)"
| "first_str (_ # vs) = first_str vs"

definition GetUserAgent :: "(nat \<Rightarrow> string \<Rightarrow> AnyVal option) \<Rightarrow> Client \<Rightarrow> string" where
  "GetUserAgent ctxval c =
     (let m = GetMetadataSnapshot c;
          fromCtx = (case cl_Context c of
                       None \<Rightarrow> []
                     | Some ctx \<Rightarrow> [ctxval ctx ''user_agent'', ctxval ctx ''user-agent''])
      in case first_str ([map_of m ''user_agent'', map_of m ''user-agent''] @ fromCtx) of
           Some ua \<Rightarrow> ua
         | None \<Rightarrow> ''unknown'')"

section \<open>Sending and accounting\<close>

type_synonym counters = "nat \<Rightarrow> int"

definition bump_counter :: "nat option \<Rightarrow> int \<Rightarrow> counters \<Rightarrow> counters" where
  "bump_counter p d ctr = (case p of None \<Rightarrow> ctr | Some a \<Rightarrow> ctr(a := ctr a + d))"

definition Client_SetPendingCounter :: "nat option \<Rightarrow> Client \<Rightarrow> Client" where
  "Client_SetPendingCounter counter c = c\<lparr>cl_pendingCounter := counter\<rparr>"

definition CompletePendingWrites :: "int \<Rightarrow> Client \<Rightarrow> counters \<Rightarrow> Client \<times> counters" where
  "CompletePendingWrites n c ctr =
     (if n > 0 then
        let current = cl_pendingWrites c; taken = min n current
        in if taken = 0 then (c, ctr)
           else (c\<lparr>cl_pendingWrites := current - taken\<rparr>, bump_counter (cl_pendingCounter c) (- taken) ctr)
      else (c, ctr))"

definition MarkClosed :: "Client \<Rightarrow> counters \<Rightarrow> Client \<times> counters" where
  "MarkClosed c ctr = CompletePendingWrites (cl_pendingWrites c) (c\<lparr>cl_closed := True\<rparr>) ctr"

definition TrySend :: "frame \<Rightarrow> Client \<Rightarrow> counters \<Rightarrow> bool \<times> Client \<times> counters" where
  "TrySend data c ctr =
     (case cl_SendChan c of
        None \<Rightarrow> (False, c, ctr)
      | Some ch \<Rightarrow>
          if cl_closed c then (False, c, ctr)
          else
            let c1 = c\<lparr>cl_pendingWrites := cl_pendingWrites c + 1\<rparr>;
                ctr1 = bump_counter (cl_pendingCounter c) 1 ctr
            in case try_send ch data of
                 SendOk ch' \<Rightarrow> (True, c1\<lparr>cl_SendChan := Some ch'\<rparr>, ctr1)
               | SendFull \<Rightarrow> (False, CompletePendingWrites 1 c1 ctr1)
               | SendPanic \<Rightarrow> (case MarkClosed c1 ctr1 of
                                (c2, ctr2) \<Rightarrow> (False, CompletePendingWrites 1 c2 ctr2)))"

definition TrySendControl :: "frame \<Rightarrow> Client \<Rightarrow> counters \<Rightarrow> bool \<times> Client \<times> counters" where
  "TrySendControl data c ctr =
     (case cl_CtrlCh c of
        None \<Rightarrow> (False, c, ctr)
      | Some ch \<Rightarrow>
          if cl_closed c then (False, c, ctr)
          else case try_send ch data of
                 SendOk ch' \<Rightarrow> (True, c\<lparr>cl_CtrlCh := Some ch'\<rparr>, ctr)
               | SendFull \<Rightarrow> (False, c, ctr)
               | SendPanic \<Rightarrow> (False, MarkClosed c ctr))"

definition TrySendSSE :: "HubMessage \<Rightarrow> Client \<Rightarrow> counters \<Rightarrow> bool \<times> Client \<times> counters" where
  "TrySendSSE msg c ctr =
     (case cl_SSEMessageCh c of
        None \<Rightarrow> (False, c, ctr)
      | Some ch \<Rightarrow>
          if cl_closed c then (False, c, ctr)
          else case try_send ch msg of
                 SendOk ch' \<Rightarrow> (True, c\<lparr>cl_SSEMessageCh := Some ch'\<rparr>, ctr)
               | SendFull \<Rightarrow> (False, c, ctr)
               | SendPanic \<Rightarrow> (False, MarkClosed c ctr))"

text \<open>The quotient is only kept between 0 and 10000, where \<open>div\<close> and Go's \<open>/\<close> agree.\<close>

definition SetBacklogRatio :: "int \<Rightarrow> int \<Rightarrow> Client \<Rightarrow> Client" where
  "SetBacklogRatio used capacity c =
     (if capacity \<le> 0 then c
      else let ratio = used * 10000 div capacity
           in c\<lparr>cl_backlogRatio := (if ratio < 0 then 0 else if ratio > 10000 then 10000 else ratio)\<rparr>)"

section \<open>Interleaved accounting\<close>

text \<open>
  Program counters of a goroutine.  \<open>then1\<close> says that the deferred
  \<open>CompletePendingWrites(1)\<close> of \<open>TrySend\<close> still follows (the recover path runs \<open>MarkClosed\<close> first).
\<close>

datatype ps_pc =
    Idle
  | Entered
  | Reserved
  | Counted
  | Checked
  | Closing bool
  | Completing int bool
  | Loaded int int bool
  | Settling int bool

record ps_state =
  ps_closed :: bool
  ps_chan :: "frame GoChan"
  ps_pending :: int
  ps_counter :: int
  ps_others :: int
  ps_threads :: "ps_pc list"

definition ps_done :: "bool \<Rightarrow> ps_pc" where
  "ps_done then1 = (if then1 then Completing 1 False else Idle)"

abbreviation ps_go :: "nat \<Rightarrow> ps_pc \<Rightarrow> ps_state \<Rightarrow> ps_state" where
  "ps_go i pc s \<equiv> s\<lparr>ps_threads := (ps_threads s)[i := pc]\<rparr>"

inductive ps_step :: "ps_state \<Rightarrow> ps_state \<Rightarrow> bool" where
  enter: "i < length (ps_threads s) \<Longrightarrow> ps_threads s ! i = Idle \<Longrightarrow> \<not> ps_closed s \<Longrightarrow>
    ps_step s (ps_go i Entered s)"
| reserve: "i < length (ps_threads s) \<Longrightarrow> ps_threads s ! i = Entered \<Longrightarrow>
    ps_step s (ps_go i Reserved (s\<lparr>ps_pending := ps_pending s + 1\<rparr>))"
| count: "i < length (ps_threads s) \<Longrightarrow> ps_threads s ! i = Reserved \<Longrightarrow>
    ps_step s (ps_go i Counted (s\<lparr>ps_counter := ps_counter s + 1\<rparr>))"
| recheck: "i < length (ps_threads s) \<Longrightarrow> ps_threads s ! i = Counted \<Longrightarrow>
    ps_step s (ps_go i (if ps_closed s then Completing 1 False else Checked) s)"
| send_ok: "i < length (ps_threads s) \<Longrightarrow> ps_threads s ! i = Checked \<Longrightarrow>
    try_send (ps_chan s) data = SendOk ch \<Longrightarrow>
    ps_step s (ps_go i Idle (s\<lparr>ps_chan := ch\<rparr>))"
| send_full: "i < length (ps_threads s) \<Longrightarrow> ps_threads s ! i = Checked \<Longrightarrow>
    try_send (ps_chan s) data = SendFull \<Longrightarrow>
    ps_step s (ps_go i (Completing 1 False) s)"
| send_panic: "i < length (ps_threads s) \<Longrightarrow> ps_threads s ! i = Checked \<Longrightarrow>
    try_send (ps_chan s) data = SendPanic \<Longrightarrow>
    ps_step s (ps_go i (Closing True) (s\<lparr>ps_closed := True\<rparr>))"
| mark_closed: "i < length (ps_threads s) \<Longrightarrow> ps_threads s ! i = Idle \<Longrightarrow>
    ps_step s (ps_go i (Closing False) (s\<lparr>ps_closed := True\<rparr>))"
| close_load: "i < length (ps_threads s) \<Longrightarrow> ps_threads s ! i = Closing then1 \<Longrightarrow>
    ps_step s (ps_go i (Completing (ps_pending s) then1) s)"
| pump: "i < length (ps_threads s) \<Longrightarrow> ps_threads s ! i = Idle \<Longrightarrow>
    m \<le> length (ch_buf (ps_chan s)) \<Longrightarrow>
    ps_step s (ps_go i (Completing (int m) False)
      (s\<lparr>ps_chan := (ps_chan s)\<lparr>ch_buf := drop m (ch_buf (ps_chan s))\<rparr>\<rparr>))"
| complete_none: "i < length (ps_threads s) \<Longrightarrow> ps_threads s ! i = Completing n then1 \<Longrightarrow> \<not> n > 0 \<Longrightarrow>
    ps_step s (ps_go i (ps_done then1) s)"
| complete_load: "i < length (ps_threads s) \<Longrightarrow> ps_threads s ! i = Completing n then1 \<Longrightarrow> n > 0 \<Longrightarrow>
    ps_step s (ps_go i (Loaded n (ps_pending s) then1) s)"
| complete_zero: "i < length (ps_threads s) \<Longrightarrow> ps_threads s ! i = Loaded n cur then1 \<Longrightarrow>
    min n cur = 0 \<Longrightarrow>
    ps_step s (ps_go i (ps_done then1) s)"
| cas_fail: "i < length (ps_threads s) \<Longrightarrow> ps_threads s ! i = Loaded n cur then1 \<Longrightarrow>
    min n cur \<noteq> 0 \<Longrightarrow> ps_pending s \<noteq> cur \<Longrightarrow>
    ps_step s (ps_go i (Completing n then1) s)"
| cas_ok: "i < length (ps_threads s) \<Longrightarrow> ps_threads s ! i = Loaded n cur then1 \<Longrightarrow>
    min n cur \<noteq> 0 \<Longrightarrow> ps_pending s = cur \<Longrightarrow>
    ps_step s (ps_go i (Settling (min n cur) then1) (s\<lparr>ps_pending := cur - min n cur\<rparr>))"
| settle: "i < length (ps_threads s) \<Longrightarrow> ps_threads s ! i = Settling t then1 \<Longrightarrow>
    ps_step s (ps_go i (ps_done then1) (s\<lparr>ps_counter := ps_counter s - t\<rparr>))"
| close_chan: "ps_step s (s\<lparr>ps_chan := (ps_chan s)\<lparr>ch_closed := True\<rparr>\<rparr>)"
| other_clients: "ps_step s (s\<lparr>ps_counter := ps_counter s + d, ps_others := ps_others s + d\<rparr>)"

definition ps_init :: "ps_state \<Rightarrow> bool" where
  "ps_init s \<longleftrightarrow> \<not> ps_closed s \<and> ch_buf (ps_chan s) = [] \<and> ps_pending s = 0 \<and>
     ps_counter s = ps_others s \<and> (\<forall>pc\<in>set (ps_threads s). pc = Idle)"

text \<open>
  What a goroutine still owes: while the connection is open every reserved slot that is not
  yet in the channel (\<open>claim\<close>); once it is closed, what the goroutine is certain to settle
  (\<open>owed\<close>); and its share of the difference between the two counters (\<open>skew\<close>).
\<close>

fun claim :: "ps_pc \<Rightarrow> int" where
  "claim Idle = 0"
| "claim Entered = 0"
| "claim Reserved = 1"
| "claim Counted = 1"
| "claim Checked = 1"
| "claim (Closing then1) = 0"
| "claim (Completing n then1) = n"
| "claim (Loaded n cur then1) = n"
| "claim (Settling t then1) = 0"

fun owed :: "ps_pc \<Rightarrow> int" where
  "owed Checked = 0"
| "owed (Loaded n cur then1) = min n cur"
| "owed pc = claim pc"

fun skew :: "ps_pc \<Rightarrow> int" where
  "skew Reserved = -1"
| "skew (Settling t then1) = t"
| "skew pc = 0"

fun pc_ok :: "bool \<Rightarrow> ps_pc \<Rightarrow> bool" where
  "pc_ok closed (Closing then1) \<longleftrightarrow> closed"
| "pc_ok closed (Completing n then1) \<longleftrightarrow> 0 \<le> n \<and> (then1 \<longrightarrow> closed)"
| "pc_ok closed (Loaded n cur then1) \<longleftrightarrow>
     0 < n \<and> 0 \<le> cur \<and> (then1 \<longrightarrow> closed) \<and> (closed \<or> n \<le> cur)"
| "pc_ok closed (Settling t then1) \<longleftrightarrow> (then1 \<longrightarrow> closed)"
| "pc_ok closed pc \<longleftrightarrow> True"

fun is_closing :: "ps_pc \<Rightarrow> bool" where
  "is_closing (Closing then1) \<longleftrightarrow> True"
| "is_closing pc \<longleftrightarrow> False"

definition ps_inv :: "ps_state \<Rightarrow> bool" where
  "ps_inv s \<longleftrightarrow>
     0 \<le> ps_pending s \<and>
     list_all (pc_ok (ps_closed s)) (ps_threads s) \<and>
     ps_counter s = ps_others s + ps_pending s + sum_list (map skew (ps_threads s)) \<and>
     (if ps_closed s
      then list_ex is_closing (ps_threads s) \<or>
           ps_pending s \<le> sum_list (map owed (ps_threads s))
      else ps_pending s = int (length (ch_buf (ps_chan s))) + sum_list (map claim (ps_threads s)))"

section \<open>Lemmas on the interleaving\<close>

lemma sum_map_upd:
  fixes f :: "'a \<Rightarrow> int"
  assumes "i < length xs"
  shows "sum_list (map f (xs[i := y])) = sum_list (map f xs) - f (xs ! i) + f y"
  using assms
proof (induction xs arbitrary: i)
  case Nil
  then show ?case by simp
next
  case (Cons x xs)
  then show ?case by (cases i) simp_all
qed

lemma list_all_upd: "list_all P xs \<Longrightarrow> P y \<Longrightarrow> list_all P (xs[i := y])"
  by (auto simp: list_all_iff dest!: set_update_subset_insert [THEN subsetD])

lemma list_ex_upd:
  assumes "list_ex P xs" and "i < length xs" and "\<not> P (xs ! i)"
  shows "list_ex P (xs[i := y])"
proof -
  from assms(1) obtain j where j: "j < length xs" "P (xs ! j)"
    by (auto simp: list_ex_length)
  with assms(3) have "i \<noteq> j" by auto
  with j show ?thesis by (auto simp: list_ex_length)
qed

lemma sum_map_nonneg:
  fixes f :: "'a \<Rightarrow> int"
  assumes "list_all (\<lambda>x. 0 \<le> f x) xs"
  shows "0 \<le> sum_list (map f xs)"
  using assms by (induction xs) auto

lemma sum_map_member:
  fixes f :: "'a \<Rightarrow> int"
  assumes "list_all (\<lambda>x. 0 \<le> f x) xs" and "i < length xs"
  shows "f (xs ! i) \<le> sum_list (map f xs)"
  using assms
proof (induction xs arbitrary: i)
  case Nil
  then show ?case by simp
next
  case (Cons x xs)
  have "0 \<le> sum_list (map f xs)" using Cons.prems by (intro sum_map_nonneg) simp
  with Cons show ?case by (cases i) force+
qed

lemma sum_map_idle:
  fixes f :: "ps_pc \<Rightarrow> int"
  assumes "list_all (\<lambda>pc. pc = Idle) pcs" and "f Idle = 0"
  shows "sum_list (map f pcs) = 0"
  using assms by (induction pcs) auto

lemma pc_ok_owed: "pc_ok b pc \<Longrightarrow> 0 \<le> owed pc"
  by (cases pc) auto

lemma pc_ok_claim: "pc_ok b pc \<Longrightarrow> 0 \<le> claim pc"
  by (cases pc) auto

lemma pc_ok_close: "pc_ok b pc \<Longrightarrow> pc_ok True pc"
  by (cases pc) auto

text \<open>
  The invariant is kept by a move of one goroutine from \<open>pc\<close> to \<open>pc'\<close> if the counters change
  by what the move adds to its shares.
\<close>

lemma ps_inv_move:
  assumes inv: "ps_inv s" and i: "i < length (ps_threads s)" and pc: "ps_threads s ! i = pc"
    and t: "ps_threads t = (ps_threads s)[i := pc']"
    and ok: "pc_ok (ps_closed t) pc'" and mono: "ps_closed s \<Longrightarrow> ps_closed t"
    and pos: "0 \<le> ps_pending t"
    and sk: "ps_counter t - ps_others t - ps_pending t - skew pc' =
             ps_counter s - ps_others s - ps_pending s - skew pc"
    and op: "\<not> ps_closed t \<Longrightarrow>
       ps_pending t - int (length (ch_buf (ps_chan t))) - claim pc' =
       ps_pending s - int (length (ch_buf (ps_chan s))) - claim pc"
    and cl: "ps_closed t \<Longrightarrow> is_closing pc' \<or>
       (ps_closed s \<and> \<not> is_closing pc \<and>
          (ps_pending t - owed pc' \<le> ps_pending s - owed pc \<or> ps_pending t \<le> owed pc')) \<or>
       ps_pending t \<le> owed pc'"
  shows "ps_inv t"
proof -
  let ?xs = "ps_threads s" and ?ys = "ps_threads t"
  have all_s: "list_all (pc_ok (ps_closed s)) ?xs"
    and cnt: "ps_counter s = ps_others s + ps_pending s + sum_list (map skew ?xs)"
    using inv unfolding ps_inv_def by blast+
  have all_t: "list_all (pc_ok (ps_closed t)) ?ys"
    unfolding t
  proof (rule list_all_upd [where P = "pc_ok (ps_closed t)", OF _ ok])
    show "list_all (pc_ok (ps_closed t)) ?xs"
      using all_s mono pc_ok_close by (cases "ps_closed s"; cases "ps_closed t") (auto simp: list_all_iff)
  qed
  have sums: "sum_list (map f ?ys) = sum_list (map f ?xs) - f pc + f pc'" for f :: "ps_pc \<Rightarrow> int"
    unfolding t pc [symmetric] by (rule sum_map_upd [OF i])
  have nn: "list_all (\<lambda>pc. 0 \<le> owed pc) ?ys"
    using all_t pc_ok_owed by (auto simp: list_all_iff)
  have it: "i < length ?ys" "?ys ! i = pc'" using i by (simp_all add: t)
  have mem: "owed pc' \<le> sum_list (map owed ?ys)"
    using sum_map_member [OF nn it(1)] it(2) by simp
  have "list_ex is_closing ?ys \<or> ps_pending t \<le> sum_list (map owed ?ys)" if c: "ps_closed t"
  proof -
    consider "is_closing pc'" | "ps_pending t \<le> owed pc'"
      | "ps_closed s" "\<not> is_closing pc" "ps_pending t - owed pc' \<le> ps_pending s - owed pc"
      using cl [OF c] by blast
    then show ?thesis
    proof cases
      case 1
      then show ?thesis using it by (auto simp: list_ex_length)
    next
      case 2
      with mem show ?thesis by linarith
    next
      case 3
      then have "list_ex is_closing ?xs \<or> ps_pending s \<le> sum_list (map owed ?xs)"
        using inv by (simp add: ps_inv_def)
      then show ?thesis
      proof
        assume "list_ex is_closing ?xs"
        then show ?thesis using list_ex_upd [OF _ i] 3(2) pc t by simp
      next
        assume "ps_pending s \<le> sum_list (map owed ?xs)"
        with 3(3) sums [of owed] show ?thesis by linarith
      qed
    qed
  qed
  moreover have "ps_pending t = int (length (ch_buf (ps_chan t))) + sum_list (map claim ?ys)"
    if o: "\<not> ps_closed t"
  proof -
    from o mono have "\<not> ps_closed s" by blast
    with inv have "ps_pending s = int (length (ch_buf (ps_chan s))) + sum_list (map claim ?xs)"
      by (simp add: ps_inv_def)
    with op [OF o] sums [of claim] show ?thesis by linarith
  qed
  moreover have "ps_counter t = ps_others t + ps_pending t + sum_list (map skew ?ys)"
    using sums [of skew] cnt sk by linarith
  ultimately show ?thesis using all_t pos by (simp add: ps_inv_def)
qed

lemma ps_inv_pc:
  assumes "ps_inv s" and "i < length (ps_threads s)" and "ps_threads s ! i = pc"
  shows "pc_ok (ps_closed s) pc" and "0 \<le> ps_pending s"
    and "ps_closed s \<or> claim pc \<le> ps_pending s"
proof -
  have all: "list_all (pc_ok (ps_closed s)) (ps_threads s)"
    using assms(1) unfolding ps_inv_def by blast
  then show "pc_ok (ps_closed s) pc"
    using assms(2,3) by (auto simp: list_all_length)
  show "0 \<le> ps_pending s" using assms(1) unfolding ps_inv_def by blast
  have "list_all (\<lambda>pc. 0 \<le> claim pc) (ps_threads s)"
    using all pc_ok_claim by (auto simp: list_all_iff)
  then have "claim pc \<le> sum_list (map claim (ps_threads s))"
    using sum_map_member assms(2,3) by blast
  then show "ps_closed s \<or> claim pc \<le> ps_pending s"
    using assms(1) unfolding ps_inv_def by (cases "ps_closed s") simp_all
qed


lemma ps_inv_step:
  assumes step: "ps_step s t" and inv: "ps_inv s"
  shows "ps_inv t"
  using step
proof cases
  case close_chan
  then show ?thesis using inv by (simp add: ps_inv_def)
next
  case (other_clients d)
  then show ?thesis using inv by (simp add: ps_inv_def)
qed (frule (1) ps_inv_pc(1) [OF inv], frule (1) ps_inv_pc(2) [OF inv], frule (1) ps_inv_pc(3) [OF inv],
     rule ps_inv_move [OF inv], assumption, assumption,
     (auto simp: ps_done_def try_send_def split: if_splits)[7])+

interpretation pending: invariant_system ps_init ps_step ps_inv
proof
  show "ps_inv s" if "ps_init s" for s
  proof -
    have "sum_list (map f (ps_threads s)) = 0" if "f Idle = 0" for f :: "ps_pc \<Rightarrow> int"
      using \<open>ps_init s\<close> that by (intro sum_map_idle) (auto simp: ps_init_def list_all_iff)
    with that show ?thesis by (auto simp: ps_init_def ps_inv_def list_all_iff)
  qed
  show "ps_inv t" if "ps_inv s" "ps_step s t" for s t
    using that(2,1) by (rule ps_inv_step)
qed

text \<open>C4: The lock-free backlog accounting of a connection is exact.  However the goroutines
  that send, write out, salvage and close interleave, the local counter never becomes
  negative and the difference between the shared and the local counter is the share of the
  other clients as soon as no goroutine is in between; on an open connection the local counter
  is then the number of frames in the send channel, and on a closed one it is 0, so a closed
  connection leaves no backlog behind.\<close>

theorem client_backlog_exact:
  assumes "reach ps_init ps_step s"
  shows "0 \<le> ps_pending s \<and>
    (list_all (\<lambda>pc. pc = Idle) (ps_threads s) \<longrightarrow>
      ps_counter s = ps_others s + ps_pending s \<and>
      ps_pending s = (if ps_closed s then 0 else int (length (ch_buf (ps_chan s)))))"
proof (intro conjI impI)
  have inv: "ps_inv s" using assms by (rule pending.reach_inv)
  then show "0 \<le> ps_pending s" unfolding ps_inv_def by blast
  assume idle: "list_all (\<lambda>pc. pc = Idle) (ps_threads s)"
  have z: "sum_list (map f (ps_threads s)) = 0" if "f Idle = 0" for f :: "ps_pc \<Rightarrow> int"
    using idle that by (rule sum_map_idle)
  show "ps_counter s = ps_others s + ps_pending s"
    using inv z [of skew] by (simp add: ps_inv_def)
  have "\<not> list_ex is_closing (ps_threads s)"
    using idle by (auto simp: list_all_iff list_ex_iff)
  with inv z [of claim] z [of owed]
  show "ps_pending s = (if ps_closed s then 0 else int (length (ch_buf (ps_chan s))))"
    by (cases "ps_closed s") (simp_all add: ps_inv_def)
qed

text \<open>One goroutine sends a frame while another closes the connection.\<close>

definition demo_ps :: "bool \<Rightarrow> frame list \<Rightarrow> int \<Rightarrow> int \<Rightarrow> ps_pc list \<Rightarrow> ps_state" where
  "demo_ps closed buf pending counter pcs =
     \<lparr>ps_closed = closed, ps_chan = \<lparr>ch_cap = 1, ch_buf = buf, ch_closed = False\<rparr>,
      ps_pending = pending, ps_counter = counter, ps_others = 0, ps_threads = pcs\<rparr>"

lemma demo_ps_run: "reach ps_init ps_step (demo_ps True [''hi''] 0 0 [Idle, Idle])"
proof -
  let ?R = "reach ps_init ps_step"
  have "?R (demo_ps False [] 0 0 [Idle, Idle])"
    by (rule reach_init) (simp add: ps_init_def demo_ps_def)
  then have "?R (demo_ps False [] 0 0 [Entered, Idle])"
    by (rule reach_step) (use enter [of 0 "demo_ps False [] 0 0 [Idle, Idle]"] in \<open>simp add: demo_ps_def try_send_def ps_done_def\<close>)
  then have "?R (demo_ps False [] 1 0 [Reserved, Idle])"
    by (rule reach_step) (use reserve [of 0 "demo_ps False [] 0 0 [Entered, Idle]"] in \<open>simp add: demo_ps_def try_send_def ps_done_def\<close>)
  then have "?R (demo_ps False [] 1 1 [Counted, Idle])"
    by (rule reach_step) (use count [of 0 "demo_ps False [] 1 0 [Reserved, Idle]"] in \<open>simp add: demo_ps_def try_send_def ps_done_def\<close>)
  then have "?R (demo_ps False [] 1 1 [Checked, Idle])"
    by (rule reach_step) (use recheck [of 0 "demo_ps False [] 1 1 [Counted, Idle]"] in \<open>simp add: demo_ps_def try_send_def ps_done_def\<close>)
  then have "?R (demo_ps True [] 1 1 [Checked, Closing False])"
    by (rule reach_step) (use mark_closed [of 1 "demo_ps False [] 1 1 [Checked, Idle]"] in \<open>simp add: demo_ps_def try_send_def ps_done_def\<close>)
  then have "?R (demo_ps True [] 1 1 [Checked, Completing 1 False])"
    by (rule reach_step) (use close_load [of 1 "demo_ps True [] 1 1 [Checked, Closing False]" False] in \<open>simp add: demo_ps_def try_send_def ps_done_def\<close>)
  then have "?R (demo_ps True [''hi''] 1 1 [Idle, Completing 1 False])"
    by (rule reach_step) (use send_ok [of 0 "demo_ps True [] 1 1 [Checked, Completing 1 False]" "''hi''" "\<lparr>ch_cap = 1, ch_buf = [''hi''], ch_closed = False\<rparr>"] in \<open>simp add: demo_ps_def try_send_def ps_done_def\<close>)
  then have "?R (demo_ps True [''hi''] 1 1 [Idle, Loaded 1 1 False])"
    by (rule reach_step) (use complete_load [of 1 "demo_ps True [''hi''] 1 1 [Idle, Completing 1 False]" 1 False] in \<open>simp add: demo_ps_def try_send_def ps_done_def\<close>)
  then have "?R (demo_ps True [''hi''] 0 1 [Idle, Settling 1 False])"
    by (rule reach_step) (use cas_ok [of 1 "demo_ps True [''hi''] 1 1 [Idle, Loaded 1 1 False]" 1 1 False] in \<open>simp add: demo_ps_def try_send_def ps_done_def\<close>)
  then show ?thesis
    by (rule reach_step) (use settle [of 1 "demo_ps True [''hi''] 0 1 [Idle, Settling 1 False]" 1 False] in \<open>simp add: demo_ps_def try_send_def ps_done_def\<close>)
qed

theorem client_backlog_exact_witness:
  "ps_pending (demo_ps True [''hi''] 0 0 [Idle, Idle]) = 0 \<and>
   ps_counter (demo_ps True [''hi''] 0 0 [Idle, Idle]) = 0"
  using client_backlog_exact [OF demo_ps_run] by (simp add: demo_ps_def)

section \<open>Sequential behaviour\<close>

lemma bump_counter_apply [simp]:
  "bump_counter p d ctr a = ctr a + (if p = Some a then d else 0)"
  by (cases p) (auto simp: bump_counter_def)

lemma bump_counter_merge:
  "bump_counter p e (bump_counter p d ctr) = bump_counter p (d + e) ctr"
  by (cases p) (auto simp: bump_counter_def)

lemma bump_counter_zero [simp]: "bump_counter p 0 ctr = ctr"
  by (cases p) (auto simp: bump_counter_def)

lemma complete_pending:
  assumes "0 \<le> cl_pendingWrites c"
  shows "CompletePendingWrites n c ctr =
    (c\<lparr>cl_pendingWrites := cl_pendingWrites c - max 0 (min n (cl_pendingWrites c))\<rparr>,
     bump_counter (cl_pendingCounter c) (- max 0 (min n (cl_pendingWrites c))) ctr)"
  using assms by (auto simp: CompletePendingWrites_def Let_def min_def max_def)

lemma mark_closed_eq:
  assumes "0 \<le> cl_pendingWrites c"
  shows "MarkClosed c ctr =
    (c\<lparr>cl_closed := True, cl_pendingWrites := 0\<rparr>,
     bump_counter (cl_pendingCounter c) (- cl_pendingWrites c) ctr)"
  using assms by (simp add: MarkClosed_def complete_pending)

text \<open>What one undisturbed \<open>TrySend\<close> does on every branch.  It reports success exactly
  when the connection is open and its channel exists, is not closed and has room; then the
  frame is appended and both counters rise by one.  A full channel, a missing channel and a
  closed connection leave everything as it was.  A closed channel is turned into a closed
  connection whose whole backlog is taken back from the shared counter.\<close>

theorem try_send_spec:
  assumes "0 \<le> cl_pendingWrites c"
  shows "TrySend data c ctr =
    (case cl_SendChan c of
       None \<Rightarrow> (False, c, ctr)
     | Some ch \<Rightarrow>
         if cl_closed c then (False, c, ctr)
         else if ch_closed ch then
           (False, c\<lparr>cl_closed := True, cl_pendingWrites := 0\<rparr>,
            bump_counter (cl_pendingCounter c) (- cl_pendingWrites c) ctr)
         else if length (ch_buf ch) < ch_cap ch then
           (True, c\<lparr>cl_SendChan := Some (ch\<lparr>ch_buf := ch_buf ch @ [data]\<rparr>),
                   cl_pendingWrites := cl_pendingWrites c + 1\<rparr>,
            bump_counter (cl_pendingCounter c) 1 ctr)
         else (False, c, ctr))"
  using assms
  by (simp add: TrySend_def try_send_def Let_def complete_pending mark_closed_eq
      bump_counter_merge split: option.split)

definition demo_client :: "nat \<Rightarrow> Client" where
  "demo_client cap =
     (NewClient 1 ''c1'' ''u1'' UserTypeCustomer)\<lparr>
        cl_SendChan := Some \<lparr>ch_cap = cap, ch_buf = [], ch_closed = False\<rparr>,
        cl_pendingCounter := Some 0\<rparr>"

theorem try_send_spec_witness:
  "TrySend ''hi'' (demo_client 0) (\<lambda>_. 7) = (False, demo_client 0, \<lambda>_. 7) \<and>
   fst (TrySend ''hi'' (demo_client 1) (\<lambda>_. 7))"
  using try_send_spec [of "demo_client 0" "''hi''" "\<lambda>_. 7"]
    try_send_spec [of "demo_client 1" "''hi''" "\<lambda>_. 7"]
  by (simp add: demo_client_def NewClient_def)

text \<open>The atomic mirrors of status and VIP level return what was set exactly for the
  five statuses and the nine levels of the enumerations; any other value reads back as
  offline or level 0.  The group list of a connection is never empty, and after
  \<open>WithGroupIDs\<close> of a non-empty list it is that list with the first group as the raw group.\<close>

theorem client_accessors:
  "Client_GetStatus (Client_SetStatus st c) =
     (if st \<in> {UserStatusOnline, UserStatusBusy, UserStatusAway, UserStatusInvisible} then st
      else UserStatusOffline) \<and>
   GetVIPLevel (SetVIPLevel v c) = (if v \<in> set GetAllVIPLevels then v else VIPLevelV0) \<and>
   Client_GetGroupIDs c \<noteq> [] \<and>
   Client_GetGroupIDs (Client_WithGroupIDs (Some (g # gs)) c) = g # gs \<and>
   GetGroupIDRaw (Client_WithGroupIDs (Some (g # gs)) c) = g"
proof (intro conjI)
  show "Client_GetStatus (Client_SetStatus st c) =
     (if st \<in> {UserStatusOnline, UserStatusBusy, UserStatusAway, UserStatusInvisible} then st
      else UserStatusOffline)"
    by (simp add: Client_GetStatus_def Client_SetStatus_def UserStatus_ToInt_def UserStatusFromInt_def)
  show "GetVIPLevel (SetVIPLevel v c) = (if v \<in> set GetAllVIPLevels then v else VIPLevelV0)"
    by (simp add: GetVIPLevel_def SetVIPLevel_def VIPLevel_GetLevel_def VIPLevelFromLevel_def GetAllVIPLevels_def)
qed (simp_all add: Client_GetGroupIDs_def Client_WithGroupIDs_def GetGroupIDsRaw_def GetGroupIDRaw_def
       slice_def)

end
