(* ===== verification/Registry.thy ===== *)
theory Registry
  imports Client Sharded_Map
begin

text \<open>
  The connection registry: connection/sharded_registry.go.

  \<^item> \<open>ShardedRegistry\<close> is the struct: the two-level store user \<open>\<rightarrow>\<close> client id \<open>\<rightarrow>\<close> client, the
    reverse index, the counters, the classification shards (SSE, observer, agent), the observer
    index and the three reference-counted reverse indexes (group, namespace, attribute).
  \<^item> Clients are pointers: the maps hold addresses into a heap \<open>H\<close>.  A client may change after it
    has been registered (it is closed, beats, sends); the fields that the registry files it
    under may not, which is the documented rule of models/client.go.
  \<^item> The hash \<open>sh\<close> of the sharded maps is a parameter; it has to stay below the shard count.
  \<^item> \<open>rg_inv\<close> ties every counter and index to the store, \<open>rg_step\<close> are the operations on
    the registry together with changes of the clients in the heap.
  \<^item> Not modelled: capacity hints, which do not change what a map contains, and
    \<open>RangeParallel\<close>, which belongs to the syncx package.
\<close>

section \<open>Data\<close>

definition defaultShardCount :: nat where
  "defaultShardCount = 64"

type_synonym heap = "nat \<Rightarrow> Client"
type_synonym client_shards = "(string, (string, nat) gomap) smap"
type_synonym ref_index = "(string, (string, int) gomap) smap"

record observerIndex =
  oi_global :: "(string, nat) gomap"
  oi_byNamespace :: "(string, (string, nat) gomap) gomap"
  oi_byGroup :: "(string, (string, nat) gomap) gomap"

definition newObserverIndex :: observerIndex where
  "newObserverIndex = \<lparr>oi_global = [], oi_byNamespace = [], oi_byGroup = []\<rparr>"

record ShardedRegistry =
  rg_userShards :: client_shards
  rg_clientIDToUserID :: "(string, string) gomap"
  rg_clientCount :: int
  rg_userCount :: int
  rg_sseShards :: client_shards
  rg_observerShards :: "client_shards option"
  rg_observerUserCount :: int
  rg_observerIdx :: observerIndex
  rg_agentShards :: "client_shards option"
  rg_agentUserCount :: int
  rg_sseCount :: int
  rg_groupMemberIdx :: ref_index
  rg_nsIdx :: ref_index
  rg_attrIdx :: ref_index

definition NewShardedRegistry :: "bool \<Rightarrow> bool \<Rightarrow> ShardedRegistry" where
  "NewShardedRegistry agentEnabled observerEnabled =
     \<lparr>rg_userShards = sm_new, rg_clientIDToUserID = [], rg_clientCount = 0, rg_userCount = 0,
      rg_sseShards = sm_new,
      rg_observerShards = (if observerEnabled then Some sm_new else None),
      rg_observerUserCount = 0, rg_observerIdx = newObserverIndex,
      rg_agentShards = (if agentEnabled then Some sm_new else None),
      rg_agentUserCount = 0, rg_sseCount = 0,
      rg_groupMemberIdx = sm_new, rg_nsIdx = sm_new, rg_attrIdx = sm_new\<rparr>"

definition perShardHint :: "int \<Rightarrow> int" where
  "perShardHint hint =
     (if hint \<le> 0 then 0
      else (hint + int defaultShardCount - 1) div int defaultShardCount)"

section \<open>Reverse indexes\<close>

definition colon_key :: "string \<Rightarrow> string \<Rightarrow> string" where
  "colon_key a b = a @ '':'' @ b"

definition groupMemberKey :: "string \<Rightarrow> string \<Rightarrow> string" where
  "groupMemberKey appID groupID = colon_key appID groupID"

definition addToGroupMemberIdx :: "(string \<Rightarrow> nat) \<Rightarrow> Client \<Rightarrow> ShardedRegistry \<Rightarrow> ShardedRegistry" where
  "addToGroupMemberIdx sh client r =
     (let appID = Client_GetAppID client
      in r\<lparr>rg_groupMemberIdx :=
            fold (\<lambda>key. with_shard_lock sh key (refs_inc key (cl_UserID client)))
              (map (groupMemberKey appID) (Client_GetGroupIDs client)) (rg_groupMemberIdx r)\<rparr>)"

definition removeFromGroupMemberIdx :: "(string \<Rightarrow> nat) \<Rightarrow> Client \<Rightarrow> ShardedRegistry \<Rightarrow> ShardedRegistry" where
  "removeFromGroupMemberIdx sh client r =
     (let appID = Client_GetAppID client
      in r\<lparr>rg_groupMemberIdx :=
            fold (\<lambda>key. with_shard_lock sh key (refs_dec key (cl_UserID client)))
              (map (groupMemberKey appID) (Client_GetGroupIDs client)) (rg_groupMemberIdx r)\<rparr>)"

text \<open>\<open>memberSet\<close> is a set: adding a member twice keeps it once.\<close>

definition GetLocalGroupMembers :: "(string \<Rightarrow> nat) \<Rightarrow> string \<Rightarrow> string list \<Rightarrow> ShardedRegistry \<Rightarrow> string list" where
  "GetLocalGroupMembers sh appID groupIDs r =
     fold (\<lambda>gid members.
         if gid = [] then members
         else let key = groupMemberKey (NormalizeAppID appID) gid
              in with_shard_rlock sh key
                   (\<lambda>data. fold (\<lambda>uid ms. if uid \<in> set ms then ms else ms @ [uid])
                      (gm_keys (case map_of data key of None \<Rightarrow> [] | Some refs \<Rightarrow> refs)) members)
                   (rg_groupMemberIdx r))
       groupIDs []"

definition nsIdxKey :: "string \<Rightarrow> string \<Rightarrow> string" where
  "nsIdxKey appID namespace = colon_key appID namespace"

definition addToNamespaceIdx :: "(string \<Rightarrow> nat) \<Rightarrow> Client \<Rightarrow> ShardedRegistry \<Rightarrow> ShardedRegistry" where
  "addToNamespaceIdx sh client r =
     (let key = nsIdxKey (Client_GetAppID client) (cl_Namespace client)
      in r\<lparr>rg_nsIdx := with_shard_lock sh key (refs_inc key (cl_UserID client)) (rg_nsIdx r)\<rparr>)"

definition removeFromNamespaceIdx :: "(string \<Rightarrow> nat) \<Rightarrow> Client \<Rightarrow> ShardedRegistry \<Rightarrow> ShardedRegistry" where
  "removeFromNamespaceIdx sh client r =
     (let key = nsIdxKey (Client_GetAppID client) (cl_Namespace client)
      in r\<lparr>rg_nsIdx := with_shard_lock sh key (refs_dec key (cl_UserID client)) (rg_nsIdx r)\<rparr>)"

definition attrDimUserType :: string where "attrDimUserType = ''ut''"
definition attrDimRole :: string where "attrDimRole = ''ro''"
definition attrDimClientType :: string where "attrDimClientType = ''ct''"
definition attrDimDepartment :: string where "attrDimDepartment = ''dp''"

definition attrIdxKey :: "string \<Rightarrow> string \<Rightarrow> string \<Rightarrow> string" where
  "attrIdxKey appID dim value = colon_key appID (colon_key dim value)"

definition clientAttrs :: "Client \<Rightarrow> (string \<times> string) list" where
  "clientAttrs client =
     [(attrDimUserType, cl_UserType client), (attrDimRole, cl_Role client),
      (attrDimClientType, cl_ClientType client), (attrDimDepartment, cl_Department client)]"

definition addToAttrIdx :: "(string \<Rightarrow> nat) \<Rightarrow> Client \<Rightarrow> ShardedRegistry \<Rightarrow> ShardedRegistry" where
  "addToAttrIdx sh client r =
     (let appID = Client_GetAppID client
      in r\<lparr>rg_attrIdx :=
            fold (\<lambda>(dim, value) idx.
                if value = [] then idx
                else let key = attrIdxKey appID dim value
                     in with_shard_lock sh key (refs_inc key (cl_UserID client)) idx)
              (clientAttrs client) (rg_attrIdx r)\<rparr>)"

definition removeFromAttrIdx :: "(string \<Rightarrow> nat) \<Rightarrow> Client \<Rightarrow> ShardedRegistry \<Rightarrow> ShardedRegistry" where
  "removeFromAttrIdx sh client r =
     (let appID = Client_GetAppID client
      in r\<lparr>rg_attrIdx :=
            fold (\<lambda>(dim, value) idx.
                if value = [] then idx
                else let key = attrIdxKey appID dim value
                     in with_shard_lock sh key (refs_dec key (cl_UserID client)) idx)
              (clientAttrs client) (rg_attrIdx r)\<rparr>)"

text \<open>The second result says whether the index answers the query at all.\<close>

definition getLocalAttrUsers ::
  "(string \<Rightarrow> nat) \<Rightarrow> string \<Rightarrow> string \<Rightarrow> string \<Rightarrow> ShardedRegistry \<Rightarrow> string list \<times> bool" where
  "getLocalAttrUsers sh appID dim value r =
     (if value = [] then ([], False)
      else let key = attrIdxKey (NormalizeAppID appID) dim value
           in (with_shard_rlock sh key
                 (\<lambda>data. gm_keys (case map_of data key of None \<Rightarrow> [] | Some refs \<Rightarrow> refs)) (rg_attrIdx r),
               True))"

definition GetLocalUsersByUserType :: "(string \<Rightarrow> nat) \<Rightarrow> string \<Rightarrow> UserType \<Rightarrow> ShardedRegistry \<Rightarrow> string list \<times> bool" where
  "GetLocalUsersByUserType sh appID userType r = getLocalAttrUsers sh appID attrDimUserType userType r"

definition GetLocalUsersByRole :: "(string \<Rightarrow> nat) \<Rightarrow> string \<Rightarrow> UserRole \<Rightarrow> ShardedRegistry \<Rightarrow> string list \<times> bool" where
  "GetLocalUsersByRole sh appID role r = getLocalAttrUsers sh appID attrDimRole role r"

definition GetLocalUsersByClientType :: "(string \<Rightarrow> nat) \<Rightarrow> string \<Rightarrow> ClientType \<Rightarrow> ShardedRegistry \<Rightarrow> string list \<times> bool" where
  "GetLocalUsersByClientType sh appID clientType r = getLocalAttrUsers sh appID attrDimClientType clientType r"

definition GetLocalUsersByDepartment :: "(string \<Rightarrow> nat) \<Rightarrow> string \<Rightarrow> Department \<Rightarrow> ShardedRegistry \<Rightarrow> string list \<times> bool" where
  "GetLocalUsersByDepartment sh appID dept r = getLocalAttrUsers sh appID attrDimDepartment dept r"

definition GetLocalNamespaceUsers :: "(string \<Rightarrow> nat) \<Rightarrow> string \<Rightarrow> string \<Rightarrow> ShardedRegistry \<Rightarrow> string list" where
  "GetLocalNamespaceUsers sh appID namespace r =
     (if namespace = [] then []
      else let key = nsIdxKey (NormalizeAppID appID) namespace
           in with_shard_rlock sh key
                (\<lambda>data. gm_keys (case map_of data key of None \<Rightarrow> [] | Some refs \<Rightarrow> refs)) (rg_nsIdx r))"

section \<open>Classification shards\<close>

definition addSSEClient :: "(string \<Rightarrow> nat) \<Rightarrow> heap \<Rightarrow> nat \<Rightarrow> ShardedRegistry \<Rightarrow> ShardedRegistry" where
  "addSSEClient sh H p r =
     (let u = cl_UserID (H p)
      in r\<lparr>rg_sseShards := with_shard_lock sh u (nest_put u (cl_ID (H p)) p) (rg_sseShards r)\<rparr>)"

definition removeSSEClient :: "(string \<Rightarrow> nat) \<Rightarrow> heap \<Rightarrow> nat \<Rightarrow> ShardedRegistry \<Rightarrow> ShardedRegistry" where
  "removeSSEClient sh H p r =
     (let u = cl_UserID (H p)
      in r\<lparr>rg_sseShards := with_shard_lock sh u (nest_del u (cl_ID (H p))) (rg_sseShards r)\<rparr>)"

definition groupIndexKey :: "string \<Rightarrow> string \<Rightarrow> string" where
  "groupIndexKey namespace groupID = colon_key namespace groupID"

definition observerIndex_add :: "heap \<Rightarrow> nat \<Rightarrow> observerIndex \<Rightarrow> observerIndex" where
  "observerIndex_add H p oi =
     (let client = H p; gid = GetGroupIDRaw client
      in if cl_Namespace client = [] then
           oi\<lparr>oi_global := AList.update (cl_ID client) p (oi_global oi)\<rparr>
         else if gid \<noteq> [] then
           oi\<lparr>oi_byGroup := nest_put (groupIndexKey (cl_Namespace client) gid) (cl_ID client) p (oi_byGroup oi)\<rparr>
         else
           oi\<lparr>oi_byNamespace := nest_put (cl_Namespace client) (cl_ID client) p (oi_byNamespace oi)\<rparr>)"

definition observerIndex_remove :: "heap \<Rightarrow> nat \<Rightarrow> observerIndex \<Rightarrow> observerIndex" where
  "observerIndex_remove H p oi =
     (let client = H p; gid = GetGroupIDRaw client
      in if cl_Namespace client = [] then
           oi\<lparr>oi_global := AList.delete (cl_ID client) (oi_global oi)\<rparr>
         else if gid \<noteq> [] then
           oi\<lparr>oi_byGroup := nest_del (groupIndexKey (cl_Namespace client) gid) (cl_ID client) (oi_byGroup oi)\<rparr>
         else
           oi\<lparr>oi_byNamespace := nest_del (cl_Namespace client) (cl_ID client) (oi_byNamespace oi)\<rparr>)"

text \<open>One loop of \<open>getForMessage\<close>: open clients whose id has not been seen are collected.\<close>

definition collect_open :: "heap \<Rightarrow> (string, nat) gomap \<Rightarrow> nat list \<times> string list \<Rightarrow> nat list \<times> string list" where
  "collect_open H m acc =
     fold (\<lambda>p (result, seen).
         if \<not> cl_closed (H p) \<and> cl_ID (H p) \<notin> set seen
         then (result @ [p], cl_ID (H p) # seen) else (result, seen))
       (gm_values m) acc"

definition getForMessage :: "heap \<Rightarrow> string \<Rightarrow> string list \<Rightarrow> observerIndex \<Rightarrow> nat list" where
  "getForMessage H namespace groupIDs oi =
     (let acc1 = collect_open H (oi_global oi) ([], []);
          acc2 = (case map_of (oi_byNamespace oi) namespace of
                    None \<Rightarrow> acc1 | Some ns \<Rightarrow> collect_open H ns acc1);
          acc3 = fold (\<lambda>gid acc.
                     if gid = [] then acc
                     else case map_of (oi_byGroup oi) (groupIndexKey namespace gid) of
                            None \<Rightarrow> acc | Some grp \<Rightarrow> collect_open H grp acc) groupIDs acc2
      in fst acc3)"

definition addObserverClient :: "(string \<Rightarrow> nat) \<Rightarrow> heap \<Rightarrow> nat \<Rightarrow> ShardedRegistry \<Rightarrow> ShardedRegistry" where
  "addObserverClient sh H p r =
     (case rg_observerShards r of
        None \<Rightarrow> r
      | Some s \<Rightarrow>
          let u = cl_UserID (H p); there = map_of (s (sh u)) u \<noteq> None
          in r\<lparr>rg_observerShards := Some (with_shard_lock sh u (nest_put u (cl_ID (H p)) p) s),
               rg_observerUserCount := rg_observerUserCount r + (if there then 0 else 1),
               rg_observerIdx := observerIndex_add H p (rg_observerIdx r)\<rparr>)"

definition removeObserverClient :: "(string \<Rightarrow> nat) \<Rightarrow> heap \<Rightarrow> nat \<Rightarrow> ShardedRegistry \<Rightarrow> ShardedRegistry" where
  "removeObserverClient sh H p r =
     (case rg_observerShards r of
        None \<Rightarrow> r
      | Some s \<Rightarrow>
          let u = cl_UserID (H p); s' = with_shard_lock sh u (nest_del u (cl_ID (H p))) s;
              last = (map_of (s (sh u)) u \<noteq> None \<and> map_of (s' (sh u)) u = None)
          in r\<lparr>rg_observerShards := Some s',
               rg_observerUserCount := rg_observerUserCount r - (if last then 1 else 0),
               rg_observerIdx := observerIndex_remove H p (rg_observerIdx r)\<rparr>)"

definition addAgentClient :: "(string \<Rightarrow> nat) \<Rightarrow> heap \<Rightarrow> nat \<Rightarrow> ShardedRegistry \<Rightarrow> ShardedRegistry" where
  "addAgentClient sh H p r =
     (case rg_agentShards r of
        None \<Rightarrow> r
      | Some s \<Rightarrow>
          let u = cl_UserID (H p); there = map_of (s (sh u)) u \<noteq> None
          in r\<lparr>rg_agentShards := Some (with_shard_lock sh u (nest_put u (cl_ID (H p)) p) s),
               rg_agentUserCount := rg_agentUserCount r + (if there then 0 else 1)\<rparr>)"

definition removeAgentClient :: "(string \<Rightarrow> nat) \<Rightarrow> heap \<Rightarrow> nat \<Rightarrow> ShardedRegistry \<Rightarrow> ShardedRegistry" where
  "removeAgentClient sh H p r =
     (case rg_agentShards r of
        None \<Rightarrow> r
      | Some s \<Rightarrow>
          let u = cl_UserID (H p); s' = with_shard_lock sh u (nest_del u (cl_ID (H p))) s;
              last = (map_of (s (sh u)) u \<noteq> None \<and> map_of (s' (sh u)) u = None)
          in r\<lparr>rg_agentShards := Some s',
               rg_agentUserCount := rg_agentUserCount r - (if last then 1 else 0)\<rparr>)"

section \<open>Registration\<close>

definition is_sse :: "Client \<Rightarrow> bool" where
  "is_sse c \<longleftrightarrow> cl_ConnectionType c = ConnectionTypeSSE"

definition is_observer :: "Client \<Rightarrow> bool" where
  "is_observer c \<longleftrightarrow> cl_UserType c = UserTypeObserver"

definition is_agent :: "Client \<Rightarrow> bool" where
  "is_agent c \<longleftrightarrow> cl_UserType c = UserTypeAgent \<or> cl_UserType c = UserTypeBot"

definition AddClient :: "(string \<Rightarrow> nat) \<Rightarrow> heap \<Rightarrow> nat option \<Rightarrow> ShardedRegistry \<Rightarrow> ShardedRegistry" where
  "AddClient sh H client r =
     (case client of
        None \<Rightarrow> r
      | Some p \<Rightarrow>
          let u = cl_UserID (H p); cid = cl_ID (H p); s = rg_userShards r;
              there = map_of (s (sh u)) u \<noteq> None;
              isNew = (nest_get (s (sh u)) u cid = None);
              r1 = r\<lparr>rg_userShards := with_shard_lock sh u (nest_put u cid p) s,
                     rg_userCount := rg_userCount r + (if there then 0 else 1)\<rparr>;
              r2 = r1\<lparr>rg_clientIDToUserID := AList.update cid u (rg_clientIDToUserID r1)\<rparr>;
              r3 = (if is_sse (H p) then
                      let r' = addSSEClient sh H p r2
                      in r'\<lparr>rg_sseCount := rg_sseCount r' + (if isNew then 1 else 0)\<rparr>
                    else r2);
              r4 = (if is_observer (H p) then addObserverClient sh H p r3 else r3);
              r5 = (if is_agent (H p) then addAgentClient sh H p r4 else r4)
          in if isNew then
               addToAttrIdx sh (H p) (addToNamespaceIdx sh (H p) (addToGroupMemberIdx sh (H p)
                 (r5\<lparr>rg_clientCount := rg_clientCount r5 + 1\<rparr>)))
             else r5)"

definition RemoveClient ::
  "(string \<Rightarrow> nat) \<Rightarrow> heap \<Rightarrow> string \<Rightarrow> string \<Rightarrow> ShardedRegistry \<Rightarrow> nat option \<times> ShardedRegistry" where
  "RemoveClient sh H clientID userID r =
     (let s = rg_userShards r
      in case nest_get (s (sh userID)) userID clientID of
           None \<Rightarrow> (None, r)
         | Some p \<Rightarrow>
             let s' = with_shard_lock sh userID (nest_del userID clientID) s;
                 r1 = r\<lparr>rg_userShards := s',
                        rg_userCount := rg_userCount r - (if map_of (s' (sh userID)) userID = None then 1 else 0)\<rparr>;
                 r2 = (if is_sse (H p) then
                         let r' = removeSSEClient sh H p r1 in r'\<lparr>rg_sseCount := rg_sseCount r' - 1\<rparr>
                       else r1);
                 r3 = (if is_observer (H p) then removeObserverClient sh H p r2 else r2);
                 r4 = (if is_agent (H p) then removeAgentClient sh H p r3 else r3);
                 r5 = r4\<lparr>rg_clientIDToUserID := AList.delete clientID (rg_clientIDToUserID r4),
                         rg_clientCount := rg_clientCount r4 - 1\<rparr>
             in (Some p,
                 removeFromAttrIdx sh (H p) (removeFromNamespaceIdx sh (H p)
                   (removeFromGroupMemberIdx sh (H p) r5))))"

definition Clear :: "ShardedRegistry \<Rightarrow> ShardedRegistry" where
  "Clear r =
     (let r1 = r\<lparr>rg_userShards := sm_new, rg_sseShards := sm_new, rg_groupMemberIdx := sm_new,
                 rg_nsIdx := sm_new, rg_attrIdx := sm_new\<rparr>;
          r2 = (if rg_observerShards r1 \<noteq> None then
                  r1\<lparr>rg_observerShards := Some sm_new, rg_observerIdx := newObserverIndex\<rparr> else r1);
          r3 = (if rg_agentShards r2 \<noteq> None then r2\<lparr>rg_agentShards := Some sm_new\<rparr> else r2)
      in r3\<lparr>rg_clientIDToUserID := [], rg_clientCount := 0, rg_userCount := 0, rg_sseCount := 0\<rparr>)"

section \<open>Queries\<close>

definition GetClient :: "(string \<Rightarrow> nat) \<Rightarrow> string \<Rightarrow> ShardedRegistry \<Rightarrow> nat option" where
  "GetClient sh clientID r =
     (case map_of (rg_clientIDToUserID r) clientID of
        None \<Rightarrow> None
      | Some userID \<Rightarrow>
          with_shard_rlock sh userID
            (\<lambda>data. case map_of data userID of None \<Rightarrow> None | Some userClients \<Rightarrow> map_of userClients clientID)
            (rg_userShards r))"

definition shard_user :: "(string \<Rightarrow> nat) \<Rightarrow> string \<Rightarrow> client_shards \<Rightarrow> (string, nat) gomap option" where
  "shard_user sh userID s = with_shard_rlock sh userID (\<lambda>data. map_of data userID) s"

definition GetUserClients :: "(string \<Rightarrow> nat) \<Rightarrow> string \<Rightarrow> ShardedRegistry \<Rightarrow> (string, nat) gomap option" where
  "GetUserClients sh userID r = shard_user sh userID (rg_userShards r)"

definition GetUserClientCount :: "(string \<Rightarrow> nat) \<Rightarrow> string \<Rightarrow> ShardedRegistry \<Rightarrow> int" where
  "GetUserClientCount sh userID r =
     (case shard_user sh userID (rg_userShards r) of None \<Rightarrow> 0 | Some clients \<Rightarrow> int (length clients))"

definition hasUserAnyScope :: "(string \<Rightarrow> nat) \<Rightarrow> string \<Rightarrow> ShardedRegistry \<Rightarrow> bool" where
  "hasUserAnyScope sh userID r \<longleftrightarrow> shard_user sh userID (rg_userShards r) \<noteq> None"

text \<open>The group list of the message does not take part: groups are a broadcast dimension.\<close>

definition ClientMatchesEnvelope :: "Client \<Rightarrow> string \<Rightarrow> string \<Rightarrow> bool" where
  "ClientMatchesEnvelope client msgAppID msgNamespace =
     (if cl_AppID client \<noteq> msgAppID then False
      else if msgNamespace \<noteq> [] \<and> cl_Namespace client \<noteq> msgNamespace then False
      else True)"

definition HasUser :: "(string \<Rightarrow> nat) \<Rightarrow> heap \<Rightarrow> string \<Rightarrow> string \<Rightarrow> string \<Rightarrow> ShardedRegistry \<Rightarrow> bool" where
  "HasUser sh H userID appID namespace r =
     (if appID = [] then hasUserAnyScope sh userID r
      else case shard_user sh userID (rg_userShards r) of
             None \<Rightarrow> False
           | Some userClients \<Rightarrow>
               list_ex (\<lambda>p. ClientMatchesEnvelope (H p) appID namespace) (gm_values userClients))"

definition HasUserExactEnvelope :: "(string \<Rightarrow> nat) \<Rightarrow> heap \<Rightarrow> string \<Rightarrow> string \<Rightarrow> string \<Rightarrow> ShardedRegistry \<Rightarrow> bool" where
  "HasUserExactEnvelope sh H userID appID namespace r =
     (if appID = [] then hasUserAnyScope sh userID r
      else case shard_user sh userID (rg_userShards r) of
             None \<Rightarrow> False
           | Some userClients \<Rightarrow>
               list_ex (\<lambda>p. cl_AppID (H p) = appID \<and> cl_Namespace (H p) = namespace) (gm_values userClients))"

text \<open>
  A range loop with a callback that may stop it.  The callback works on a state of its own
  and reports whether to go on.
\<close>

fun range_while :: "('a \<Rightarrow> 's \<Rightarrow> bool \<times> 's) \<Rightarrow> 'a list \<Rightarrow> 's \<Rightarrow> bool \<times> 's" where
  "range_while f [] st = (True, st)"
| "range_while f (x # xs) st = (case f x st of (go, st') \<Rightarrow> if go then range_while f xs st' else (False, st'))"

definition ForEachUserClient ::
  "(string \<Rightarrow> nat) \<Rightarrow> string \<Rightarrow> (string \<Rightarrow> nat \<Rightarrow> 's \<Rightarrow> bool \<times> 's) \<Rightarrow> ShardedRegistry \<Rightarrow> 's \<Rightarrow> 's" where
  "ForEachUserClient sh userID fn r st =
     (case shard_user sh userID (rg_userShards r) of
        None \<Rightarrow> st
      | Some userClients \<Rightarrow> snd (range_while (\<lambda>(cid, p). fn cid p) userClients st))"

definition ForEachUserClientFiltered ::
  "(string \<Rightarrow> nat) \<Rightarrow> heap \<Rightarrow> string \<Rightarrow> string \<Rightarrow> string \<Rightarrow>
     (string \<Rightarrow> nat \<Rightarrow> 's \<Rightarrow> bool \<times> 's) \<Rightarrow> ShardedRegistry \<Rightarrow> 's \<Rightarrow> 's" where
  "ForEachUserClientFiltered sh H userID msgAppID msgNamespace fn r st =
     (if msgAppID = [] then ForEachUserClient sh userID fn r st
      else ForEachUserClient sh userID
             (\<lambda>cid p s. if \<not> ClientMatchesEnvelope (H p) msgAppID msgNamespace then (True, s) else fn cid p s)
             r st)"

definition ForEachClient :: "(string \<Rightarrow> nat \<Rightarrow> 's \<Rightarrow> bool \<times> 's) \<Rightarrow> ShardedRegistry \<Rightarrow> 's \<Rightarrow> 's" where
  "ForEachClient fn r st =
     snd (range_while (\<lambda>(_, userClients). range_while (\<lambda>(cid, p). fn cid p) userClients)
            (sm_range defaultShardCount (rg_userShards r)) st)"

definition ForEachClientFiltered ::
  "heap \<Rightarrow> string \<Rightarrow> string \<Rightarrow> (string \<Rightarrow> nat \<Rightarrow> 's \<Rightarrow> bool \<times> 's) \<Rightarrow> ShardedRegistry \<Rightarrow> 's \<Rightarrow> 's" where
  "ForEachClientFiltered H msgAppID msgNamespace fn r st =
     ForEachClient
       (\<lambda>cid p s. if \<not> ClientMatchesEnvelope (H p) msgAppID msgNamespace then (True, s) else fn cid p s) r st"

definition ForEachUser :: "(string \<Rightarrow> (string, nat) gomap \<Rightarrow> 's \<Rightarrow> bool \<times> 's) \<Rightarrow> ShardedRegistry \<Rightarrow> 's \<Rightarrow> 's" where
  "ForEachUser fn r st =
     snd (range_while (\<lambda>(u, userClients). fn u userClients) (sm_range defaultShardCount (rg_userShards r)) st)"

definition GetAllClients :: "ShardedRegistry \<Rightarrow> nat list" where
  "GetAllClients r = concat (map (gm_values \<circ> snd) (sm_range defaultShardCount (rg_userShards r)))"

definition GetOnlineUserIDs :: "ShardedRegistry \<Rightarrow> string list" where
  "GetOnlineUserIDs r = sm_keys defaultShardCount (rg_userShards r)"

definition GetSSEUserClients :: "(string \<Rightarrow> nat) \<Rightarrow> string \<Rightarrow> ShardedRegistry \<Rightarrow> (string, nat) gomap option" where
  "GetSSEUserClients sh userID r = shard_user sh userID (rg_sseShards r)"

definition ForEachSSEClient :: "(string \<Rightarrow> string \<Rightarrow> nat \<Rightarrow> 's \<Rightarrow> bool \<times> 's) \<Rightarrow> ShardedRegistry \<Rightarrow> 's \<Rightarrow> 's" where
  "ForEachSSEClient fn r st =
     snd (range_while (\<lambda>(u, userClients). range_while (\<lambda>(cid, p). fn u cid p) userClients)
            (sm_range defaultShardCount (rg_sseShards r)) st)"

definition ForEachSSEUserClient ::
  "(string \<Rightarrow> nat) \<Rightarrow> string \<Rightarrow> (string \<Rightarrow> nat \<Rightarrow> 's \<Rightarrow> bool \<times> 's) \<Rightarrow> ShardedRegistry \<Rightarrow> 's \<Rightarrow> 's" where
  "ForEachSSEUserClient sh userID fn r st =
     (case shard_user sh userID (rg_sseShards r) of
        None \<Rightarrow> st
      | Some userClients \<Rightarrow> snd (range_while (\<lambda>(cid, p). fn cid p) userClients st))"

definition GetSSEUserIDs :: "ShardedRegistry \<Rightarrow> string list" where
  "GetSSEUserIDs r = sm_keys defaultShardCount (rg_sseShards r)"

definition HasSSEUser :: "(string \<Rightarrow> nat) \<Rightarrow> string \<Rightarrow> ShardedRegistry \<Rightarrow> bool" where
  "HasSSEUser sh userID r \<longleftrightarrow>
     (case shard_user sh userID (rg_sseShards r) of None \<Rightarrow> False | Some clients \<Rightarrow> length clients > 0)"

definition ObserverEnabled :: "ShardedRegistry \<Rightarrow> bool" where
  "ObserverEnabled r \<longleftrightarrow> rg_observerShards r \<noteq> None"

definition GetObserverUserClients :: "(string \<Rightarrow> nat) \<Rightarrow> string \<Rightarrow> ShardedRegistry \<Rightarrow> (string, nat) gomap option" where
  "GetObserverUserClients sh userID r =
     (case rg_observerShards r of None \<Rightarrow> None | Some s \<Rightarrow> shard_user sh userID s)"

definition ForEachObserver :: "(string \<Rightarrow> string \<Rightarrow> nat \<Rightarrow> 's \<Rightarrow> bool \<times> 's) \<Rightarrow> ShardedRegistry \<Rightarrow> 's \<Rightarrow> 's" where
  "ForEachObserver fn r st =
     (case rg_observerShards r of
        None \<Rightarrow> st
      | Some s \<Rightarrow>
          snd (range_while (\<lambda>(u, userClients). range_while (\<lambda>(cid, p). fn u cid p) userClients)
                 (sm_range defaultShardCount s) st))"

definition GetObserverUserCount :: "ShardedRegistry \<Rightarrow> int" where
  "GetObserverUserCount r = (if rg_observerShards r = None then 0 else rg_observerUserCount r)"

definition GetObserverDeviceCount :: "ShardedRegistry \<Rightarrow> int" where
  "GetObserverDeviceCount r =
     (case rg_observerShards r of
        None \<Rightarrow> 0
      | Some s \<Rightarrow> fold (\<lambda>(_, userClients) n. n + int (length userClients)) (sm_range defaultShardCount s) 0)"

definition HasObserver :: "(string \<Rightarrow> nat) \<Rightarrow> string \<Rightarrow> ShardedRegistry \<Rightarrow> bool" where
  "HasObserver sh userID r \<longleftrightarrow>
     (case rg_observerShards r of None \<Rightarrow> False | Some s \<Rightarrow> shard_user sh userID s \<noteq> None)"

definition GetObserversForMessage :: "heap \<Rightarrow> string \<Rightarrow> string list \<Rightarrow> ShardedRegistry \<Rightarrow> nat list" where
  "GetObserversForMessage H namespace groupIDs r =
     (if rg_observerShards r = None then [] else getForMessage H namespace groupIDs (rg_observerIdx r))"

definition AgentEnabled :: "ShardedRegistry \<Rightarrow> bool" where
  "AgentEnabled r \<longleftrightarrow> rg_agentShards r \<noteq> None"

definition GetAgentUserClients :: "(string \<Rightarrow> nat) \<Rightarrow> string \<Rightarrow> ShardedRegistry \<Rightarrow> (string, nat) gomap option" where
  "GetAgentUserClients sh userID r =
     (case rg_agentShards r of None \<Rightarrow> None | Some s \<Rightarrow> shard_user sh userID s)"

definition GetAgentUserCount :: "ShardedRegistry \<Rightarrow> int" where
  "GetAgentUserCount r = (if rg_agentShards r = None then 0 else rg_agentUserCount r)"

definition HasAgent :: "(string \<Rightarrow> nat) \<Rightarrow> string \<Rightarrow> ShardedRegistry \<Rightarrow> bool" where
  "HasAgent sh userID r \<longleftrightarrow>
     (case rg_agentShards r of
        None \<Rightarrow> False
      | Some s \<Rightarrow> (case shard_user sh userID s of None \<Rightarrow> False | Some clients \<Rightarrow> length clients > 0))"

definition GetClientCount :: "ShardedRegistry \<Rightarrow> int" where
  "GetClientCount r = rg_clientCount r"

definition GetUserCount :: "ShardedRegistry \<Rightarrow> int" where
  "GetUserCount r = rg_userCount r"

definition GetSSEClientCount :: "ShardedRegistry \<Rightarrow> int" where
  "GetSSEClientCount r = rg_sseCount r"

definition GetActiveClientCount :: "ShardedRegistry \<Rightarrow> int" where
  "GetActiveClientCount r = rg_clientCount r - rg_sseCount r"

definition parallelThreshold :: int where
  "parallelThreshold = 256"

definition parallelEligible :: "ShardedRegistry \<Rightarrow> bool" where
  "parallelEligible r \<longleftrightarrow> rg_userCount r > parallelThreshold"

end
