(* ===== verification/Registry_Views.thy ===== *)
theory Registry_Views
  imports Registry
begin

text \<open>
  The registry keeps one store, user \<open>\<rightarrow>\<close> client id \<open>\<rightarrow>\<close> client, and a number of views derived
  from it: classification shards, counters, reverse indexes, the observer index.  The contract
  between the store and a view is the locale \<open>derived_view\<close>: what the view does when a client
  enters, when it is replaced by a client filed the same way, and when it leaves keeps the
  view a function of the store.  Each view of connection/sharded_registry.go interprets it.
\<close>

section \<open>The store\<close>

definition user_put :: "(string \<Rightarrow> nat) \<Rightarrow> heap \<Rightarrow> nat \<Rightarrow> client_shards \<Rightarrow> client_shards" where
  "user_put sh H p U =
     with_shard_lock sh (cl_UserID (H p)) (nest_put (cl_UserID (H p)) (cl_ID (H p)) p) U"

definition user_del :: "(string \<Rightarrow> nat) \<Rightarrow> heap \<Rightarrow> nat \<Rightarrow> client_shards \<Rightarrow> client_shards" where
  "user_del sh H p U =
     with_shard_lock sh (cl_UserID (H p)) (nest_del (cl_UserID (H p)) (cl_ID (H p))) U"

text \<open>The client that is registered under the identity of \<open>p\<close>.\<close>

definition held :: "(string \<Rightarrow> nat) \<Rightarrow> heap \<Rightarrow> nat \<Rightarrow> client_shards \<Rightarrow> nat option" where
  "held sh H p U = map_of (sm_inner sh U (cl_UserID (H p))) (cl_ID (H p))"

text \<open>Clients are filed under their identity, and a client id belongs to one user only.\<close>

definition users_ok :: "(string \<Rightarrow> nat) \<Rightarrow> heap \<Rightarrow> client_shards \<Rightarrow> bool" where
  "users_ok sh H U \<longleftrightarrow> nested_ok sh U \<and>
     (\<forall>u c p. map_of (sm_inner sh U u) c = Some p \<longrightarrow> cl_UserID (H p) = u \<and> cl_ID (H p) = c) \<and>
     (\<forall>u u' c. map_of (sm_inner sh U u) c \<noteq> None \<longrightarrow> map_of (sm_inner sh U u') c \<noteq> None \<longrightarrow> u = u')"

text \<open>The fields by which a client is filed.\<close>

definition filing :: "Client \<Rightarrow> string \<times> string \<times> string \<times> string \<times> string \<times> string list \<times> string \<times> string \<times> string \<times> string \<times> string" where
  "filing c = (cl_ID c, cl_UserID c, cl_AppID c, cl_Namespace c, cl_GroupID c, slice (cl_GroupIDs c),
     cl_UserType c, cl_Role c, cl_ClientType c, cl_Department c, cl_ConnectionType c)"

text \<open>A registered client that \<open>p\<close> replaces is filed like \<open>p\<close>; registered clients keep their filing.\<close>

definition refiled :: "(string \<Rightarrow> nat) \<Rightarrow> heap \<Rightarrow> nat \<Rightarrow> client_shards \<Rightarrow> bool" where
  "refiled sh H p U \<longleftrightarrow> (\<forall>q. held sh H p U = Some q \<longrightarrow> filing (H q) = filing (H p))"

definition keeps_filing :: "(string \<Rightarrow> nat) \<Rightarrow> heap \<Rightarrow> heap \<Rightarrow> client_shards \<Rightarrow> bool" where
  "keeps_filing sh H H' U \<longleftrightarrow>
     (\<forall>u c p. map_of (sm_inner sh U u) c = Some p \<longrightarrow> filing (H' p) = filing (H p))"

section \<open>The contract of a view\<close>

locale derived_view =
  fixes sh :: "string \<Rightarrow> nat"
    and ok :: "heap \<Rightarrow> 'v \<Rightarrow> client_shards \<Rightarrow> bool"
    and start :: 'v
    and enter :: "heap \<Rightarrow> nat \<Rightarrow> 'v \<Rightarrow> 'v"
    and refresh :: "heap \<Rightarrow> nat \<Rightarrow> 'v \<Rightarrow> 'v"
    and leave :: "heap \<Rightarrow> nat \<Rightarrow> 'v \<Rightarrow> 'v"
  assumes start_ok: "ok H start sm_new"
    and enter_ok: "users_ok sh H U \<Longrightarrow> users_ok sh H (user_put sh H p U) \<Longrightarrow> ok H v U \<Longrightarrow>
      held sh H p U = None \<Longrightarrow> ok H (enter H p v) (user_put sh H p U)"
    and refresh_ok: "users_ok sh H U \<Longrightarrow> users_ok sh H (user_put sh H p U) \<Longrightarrow> ok H v U \<Longrightarrow>
      held sh H p U = Some q \<Longrightarrow> filing (H q) = filing (H p) \<Longrightarrow>
      ok H (refresh H p v) (user_put sh H p U)"
    and leave_ok: "users_ok sh H U \<Longrightarrow> ok H v U \<Longrightarrow> held sh H p U = Some p \<Longrightarrow>
      ok H (leave H p v) (user_del sh H p U)"
    and heap_ok: "users_ok sh H U \<Longrightarrow> ok H v U \<Longrightarrow> keeps_filing sh H H' U \<Longrightarrow> ok H' v U"
begin

text \<open>Registration, in either case.\<close>

lemma put_ok:
  assumes "users_ok sh H U" and "users_ok sh H (user_put sh H p U)" and "ok H v U"
    and "refiled sh H p U"
  shows "ok H (if held sh H p U = None then enter H p v else refresh H p v) (user_put sh H p U)"
proof (cases "held sh H p U")
  case None
  with enter_ok [OF assms(1-3)] show ?thesis by simp
next
  case (Some q)
  with assms(4) have "filing (H q) = filing (H p)" by (simp add: refiled_def)
  with refresh_ok [OF assms(1-3) Some] Some show ?thesis by simp
qed

end

section \<open>Lemmas on the store\<close>

lemma sm_inner_user_put:
  "sm_inner sh (user_put sh H p U) u =
     (if u = cl_UserID (H p) then AList.update (cl_ID (H p)) p (sm_inner sh U u) else sm_inner sh U u)"
  by (simp add: user_put_def sm_inner_put)

lemma sm_inner_user_del:
  "sm_inner sh (user_del sh H p U) u =
     (if u = cl_UserID (H p) then AList.delete (cl_ID (H p)) (sm_inner sh U u) else sm_inner sh U u)"
  by (simp add: user_del_def sm_inner_del)

lemma lookup_user_put [gomap_simps]:
  "map_of (sm_inner sh (user_put sh H p U) u) c =
     (if u = cl_UserID (H p) \<and> c = cl_ID (H p) then Some p else map_of (sm_inner sh U u) c)"
  by (simp add: sm_inner_user_put gomap_simps)

lemma lookup_user_del [gomap_simps]:
  "map_of (sm_inner sh (user_del sh H p U) u) c =
     (if u = cl_UserID (H p) \<and> c = cl_ID (H p) then None else map_of (sm_inner sh U u) c)"
  by (simp add: sm_inner_user_del gomap_simps)

lemma nest_get_inner: "nest_get (U (sh u)) u c = map_of (sm_inner sh U u) c"
  by (simp add: nest_get_def sm_inner_def split: option.split)

lemma users_ok_nested: "users_ok sh H U \<Longrightarrow> nested_ok sh U"
  by (simp add: users_ok_def)

lemma users_ok_ident:
  "users_ok sh H U \<Longrightarrow> map_of (sm_inner sh U u) c = Some p \<Longrightarrow> cl_UserID (H p) = u \<and> cl_ID (H p) = c"
  unfolding users_ok_def by blast

lemma users_ok_sole:
  "users_ok sh H U \<Longrightarrow> map_of (sm_inner sh U u) c = Some p \<Longrightarrow> map_of (sm_inner sh U u') c = Some q \<Longrightarrow>
     u = u' \<and> p = q"
  unfolding users_ok_def by (metis option.distinct(1) option.inject)

lemma users_ok_new [simp]: "users_ok sh H sm_new"
  by (simp add: users_ok_def)

lemma nested_ok_user_put [simp]: "nested_ok sh U \<Longrightarrow> nested_ok sh (user_put sh H p U)"
  unfolding user_put_def by (rule nested_ok_put)

lemma nested_ok_user_del [simp]: "nested_ok sh U \<Longrightarrow> nested_ok sh (user_del sh H p U)"
  unfolding user_del_def by (rule nested_ok_del)

lemma users_ok_put:
  assumes U: "users_ok sh H U"
    and free: "\<And>u. u \<noteq> cl_UserID (H p) \<Longrightarrow> map_of (sm_inner sh U u) (cl_ID (H p)) = None"
  shows "users_ok sh H (user_put sh H p U)"
  unfolding users_ok_def
proof (intro conjI allI impI)
  show "nested_ok sh (user_put sh H p U)" using users_ok_nested [OF U] by simp
next
  fix u c q
  assume "map_of (sm_inner sh (user_put sh H p U) u) c = Some q"
  then show "cl_UserID (H q) = u" "cl_ID (H q) = c"
    using users_ok_ident [OF U, of u c q] by (auto simp: gomap_simps split: if_splits)
next
  fix u u' c
  assume a: "map_of (sm_inner sh (user_put sh H p U) u) c \<noteq> None"
    "map_of (sm_inner sh (user_put sh H p U) u') c \<noteq> None"
  show "u = u'"
  proof (cases "c = cl_ID (H p)")
    case True
    with a free have "u = cl_UserID (H p)" "u' = cl_UserID (H p)" by (auto simp: gomap_simps split: if_splits)
    then show ?thesis by simp
  next
    case False
    with a U show ?thesis unfolding users_ok_def by (auto simp: gomap_simps)
  qed
qed

lemma users_ok_put_sole:
  assumes "users_ok sh H (user_put sh H p U)" and "u \<noteq> cl_UserID (H p)"
  shows "map_of (sm_inner sh U u) (cl_ID (H p)) = None"
proof (rule ccontr)
  assume "map_of (sm_inner sh U u) (cl_ID (H p)) \<noteq> None"
  then obtain q where "map_of (sm_inner sh (user_put sh H p U) u) (cl_ID (H p)) = Some q"
    using assms(2) by (auto simp: gomap_simps)
  moreover have "map_of (sm_inner sh (user_put sh H p U) (cl_UserID (H p))) (cl_ID (H p)) = Some p"
    by (simp add: gomap_simps)
  ultimately show False using users_ok_sole [OF assms(1)] assms(2) by blast
qed

lemma users_ok_del: "users_ok sh H U \<Longrightarrow> users_ok sh H (user_del sh H p U)"
  unfolding users_ok_def by (simp add: gomap_simps)

lemma keeps_filingD:
  "keeps_filing sh H H' U \<Longrightarrow> map_of (sm_inner sh U u) c = Some p \<Longrightarrow> filing (H' p) = filing (H p)"
  unfolding keeps_filing_def by blast

lemma users_ok_heap:
  assumes "users_ok sh H U"
    and "keeps_filing sh H H' U"
  shows "users_ok sh H' U"
  unfolding users_ok_def
proof (intro conjI allI impI)
  fix u c p
  assume e: "map_of (sm_inner sh U u) c = Some p"
  from keeps_filingD [OF assms(2) e] users_ok_ident [OF assms(1) e] show "cl_UserID (H' p) = u" "cl_ID (H' p) = c"
    by (auto simp: filing_def)
qed (use assms(1) in \<open>simp_all add: users_ok_def\<close>)

section \<open>Classification shards\<close>

definition filed :: "(Client \<Rightarrow> bool) \<Rightarrow> heap \<Rightarrow> nat option \<Rightarrow> nat option" where
  "filed P H v = (case v of None \<Rightarrow> None | Some p \<Rightarrow> if P (H p) then Some p else None)"

definition class_ok :: "(string \<Rightarrow> nat) \<Rightarrow> (Client \<Rightarrow> bool) \<Rightarrow> heap \<Rightarrow> client_shards \<Rightarrow> client_shards \<Rightarrow> bool" where
  "class_ok sh P H s U \<longleftrightarrow> nested_ok sh s \<and>
     (\<forall>u c. map_of (sm_inner sh s u) c = filed P H (map_of (sm_inner sh U u) c))"

definition class_put :: "(string \<Rightarrow> nat) \<Rightarrow> (Client \<Rightarrow> bool) \<Rightarrow> heap \<Rightarrow> nat \<Rightarrow> client_shards \<Rightarrow> client_shards" where
  "class_put sh P H p s = (if P (H p) then user_put sh H p s else s)"

definition class_del :: "(string \<Rightarrow> nat) \<Rightarrow> (Client \<Rightarrow> bool) \<Rightarrow> heap \<Rightarrow> nat \<Rightarrow> client_shards \<Rightarrow> client_shards" where
  "class_del sh P H p s = (if P (H p) then user_del sh H p s else s)"

text \<open>A classification depends on the filing only.\<close>

definition by_filing :: "(Client \<Rightarrow> 'b) \<Rightarrow> bool" where
  "by_filing f \<longleftrightarrow> (\<forall>a b. filing a = filing b \<longrightarrow> f a = f b)"

lemma by_filingD: "by_filing f \<Longrightarrow> filing a = filing b \<Longrightarrow> f a = f b"
  unfolding by_filing_def by blast

lemma by_filing_class [simp]: "by_filing is_sse" "by_filing is_observer" "by_filing is_agent"
  by (auto simp: by_filing_def filing_def is_sse_def is_observer_def is_agent_def)

lemma class_ok_put:
  assumes "class_ok sh P H s U" and "\<And>q. held sh H p U = Some q \<Longrightarrow> P (H q) = P (H p)"
  shows "class_ok sh P H (class_put sh P H p s) (user_put sh H p U)"
  using assms by (auto simp: class_ok_def class_put_def held_def gomap_simps filed_def split: option.split)

lemma class_ok_del:
  assumes "class_ok sh P H s U" and "held sh H p U = Some p"
  shows "class_ok sh P H (class_del sh P H p s) (user_del sh H p U)"
  using assms by (auto simp: class_ok_def class_del_def held_def gomap_simps filed_def)

lemma class_ok_heap:
  assumes ok: "class_ok sh P H s U" and P: "by_filing P"
    and H: "keeps_filing sh H H' U"
  shows "class_ok sh P H' s U"
proof -
  have "filed P H' (map_of (sm_inner sh U u) c) = filed P H (map_of (sm_inner sh U u) c)" for u c
  proof (cases "map_of (sm_inner sh U u) c")
    case None
    then show ?thesis by (simp add: filed_def)
  next
    case (Some p)
    with by_filingD [OF P keeps_filingD [OF H Some]] show ?thesis by (simp add: filed_def)
  qed
  with ok show ?thesis by (simp add: class_ok_def)
qed

interpretation sse: derived_view sh "class_ok sh is_sse" sm_new "class_put sh is_sse"
  "class_put sh is_sse" "class_del sh is_sse" for sh
proof
  show "class_ok sh is_sse H sm_new sm_new" for H
    by (simp add: class_ok_def filed_def)
  show "class_ok sh is_sse H (class_put sh is_sse H p v) (user_put sh H p U)"
    if "class_ok sh is_sse H v U" "held sh H p U = None" for H p v U
    using that by (intro class_ok_put) simp_all
  show "class_ok sh is_sse H (class_put sh is_sse H p v) (user_put sh H p U)"
    if "class_ok sh is_sse H v U" "held sh H p U = Some q" "filing (H q) = filing (H p)" for H p v U q
    using that by_filingD [OF by_filing_class(1) that(3)] by (intro class_ok_put) auto
qed (blast intro: class_ok_del class_ok_heap [OF _ by_filing_class(1)])+

text \<open>Observer and agent shards count their users.\<close>

definition user_total :: "(string \<Rightarrow> nat) \<Rightarrow> client_shards \<Rightarrow> int" where
  "user_total sh s = sm_total defaultShardCount (\<lambda>_ m. if m = [] then 0 else 1) s"

abbreviation hash_ok :: "(string \<Rightarrow> nat) \<Rightarrow> bool" where
  "hash_ok sh \<equiv> \<forall>k. sh k < defaultShardCount"

definition counted_ok :: "(string \<Rightarrow> nat) \<Rightarrow> (Client \<Rightarrow> bool) \<Rightarrow> heap \<Rightarrow> client_shards \<times> int \<Rightarrow> client_shards \<Rightarrow> bool" where
  "counted_ok sh P H v U \<longleftrightarrow> class_ok sh P H (fst v) U \<and> (hash_ok sh \<longrightarrow> snd v = user_total sh (fst v))"

definition counted_put :: "(string \<Rightarrow> nat) \<Rightarrow> (Client \<Rightarrow> bool) \<Rightarrow> heap \<Rightarrow> nat \<Rightarrow> client_shards \<times> int \<Rightarrow> client_shards \<times> int" where
  "counted_put sh P H p v =
     (class_put sh P H p (fst v),
      snd v + (if P (H p) \<and> map_of (fst v (sh (cl_UserID (H p)))) (cl_UserID (H p)) = None then 1 else 0))"

definition counted_del :: "(string \<Rightarrow> nat) \<Rightarrow> (Client \<Rightarrow> bool) \<Rightarrow> heap \<Rightarrow> nat \<Rightarrow> client_shards \<times> int \<Rightarrow> client_shards \<times> int" where
  "counted_del sh P H p v =
     (let u = cl_UserID (H p); s' = class_del sh P H p (fst v)
      in (s', snd v - (if map_of (fst v (sh u)) u \<noteq> None \<and> map_of (s' (sh u)) u = None then 1 else 0)))"

lemma user_total_put:
  assumes "nested_ok sh s" and "hash_ok sh"
  shows "user_total sh (user_put sh H p s) =
    user_total sh s + (if map_of (s (sh (cl_UserID (H p)))) (cl_UserID (H p)) = None then 1 else 0)"
  unfolding user_total_def user_put_def
  using assms by (subst sm_total_put) (auto simp: sm_inner_present)

lemma user_total_del:
  assumes "nested_ok sh s" and "hash_ok sh"
  shows "user_total sh (user_del sh H p s) = user_total sh s -
    (if map_of (s (sh (cl_UserID (H p)))) (cl_UserID (H p)) \<noteq> None \<and>
        map_of (user_del sh H p s (sh (cl_UserID (H p)))) (cl_UserID (H p)) = None then 1 else 0)"
proof -
  let ?u = "cl_UserID (H p)"
  have "map_of (user_del sh H p s (sh ?u)) ?u = None \<longleftrightarrow> AList.delete (cl_ID (H p)) (sm_inner sh s ?u) = []"
    using sm_inner_present [OF nested_ok_user_del [OF assms(1)], of H p ?u]
    by (simp add: sm_inner_user_del)
  then show ?thesis
    unfolding user_total_def
    by (subst user_del_def, subst sm_total_del) (use assms in \<open>auto simp: sm_inner_present\<close>)
qed

lemma class_ok_nested: "class_ok sh P H s U \<Longrightarrow> nested_ok sh s"
  by (simp add: class_ok_def)

lemma counted_ok_put:
  assumes "counted_ok sh P H v U" and "\<And>q. held sh H p U = Some q \<Longrightarrow> P (H q) = P (H p)"
  shows "counted_ok sh P H (counted_put sh P H p v) (user_put sh H p U)"
  unfolding counted_ok_def
proof
  have ok: "class_ok sh P H (fst v) U" using assms(1) by (simp add: counted_ok_def)
  show "class_ok sh P H (fst (counted_put sh P H p v)) (user_put sh H p U)"
    using class_ok_put [OF ok assms(2)] by (simp add: counted_put_def)
  show "hash_ok sh \<longrightarrow> snd (counted_put sh P H p v) = user_total sh (fst (counted_put sh P H p v))"
    using assms(1) user_total_put [OF class_ok_nested [OF ok]]
    by (auto simp: counted_ok_def counted_put_def class_put_def)
qed

lemma counted_ok_del:
  assumes "counted_ok sh P H v U" and "held sh H p U = Some p"
  shows "counted_ok sh P H (counted_del sh P H p v) (user_del sh H p U)"
  unfolding counted_ok_def
proof
  have ok: "class_ok sh P H (fst v) U" using assms(1) by (simp add: counted_ok_def)
  show "class_ok sh P H (fst (counted_del sh P H p v)) (user_del sh H p U)"
    using class_ok_del [OF ok assms(2)] by (simp add: counted_del_def Let_def)
  show "hash_ok sh \<longrightarrow> snd (counted_del sh P H p v) = user_total sh (fst (counted_del sh P H p v))"
    using assms(1) user_total_del [OF class_ok_nested [OF ok]]
    by (auto simp: counted_ok_def counted_del_def class_del_def Let_def)
qed

lemma counted_ok_heap:
  "counted_ok sh P H v U \<Longrightarrow> by_filing P \<Longrightarrow> keeps_filing sh H H' U \<Longrightarrow> counted_ok sh P H' v U"
  unfolding counted_ok_def using class_ok_heap [of sh P H "fst v" U H'] by blast

lemma counted_view:
  assumes P: "by_filing P"
  shows "derived_view sh (counted_ok sh P) (sm_new, 0) (counted_put sh P) (counted_put sh P) (counted_del sh P)"
proof
  show "counted_ok sh P H (sm_new, 0) sm_new" for H
    by (simp add: counted_ok_def class_ok_def filed_def user_total_def)
  show "counted_ok sh P H (counted_put sh P H p v) (user_put sh H p U)"
    if "counted_ok sh P H v U" "held sh H p U = None" for H p v U
    using that by (intro counted_ok_put) simp_all
  show "counted_ok sh P H (counted_put sh P H p v) (user_put sh H p U)"
    if "counted_ok sh P H v U" "held sh H p U = Some q" "filing (H q) = filing (H p)" for H p v U q
    using that by_filingD [OF P that(3)] by (intro counted_ok_put) auto
qed (blast intro: counted_ok_del counted_ok_heap [OF _ P])+

interpretation observers: derived_view sh "counted_ok sh is_observer" "(sm_new, 0)"
  "counted_put sh is_observer" "counted_put sh is_observer" "counted_del sh is_observer" for sh
  by (rule counted_view) simp

interpretation agents: derived_view sh "counted_ok sh is_agent" "(sm_new, 0)"
  "counted_put sh is_agent" "counted_put sh is_agent" "counted_del sh is_agent" for sh
  by (rule counted_view) simp

section \<open>Counters\<close>

definition tally :: "(Client \<Rightarrow> int) \<Rightarrow> heap \<Rightarrow> client_shards \<Rightarrow> int" where
  "tally w H U = sm_total defaultShardCount (\<lambda>_ m. gm_sum (\<lambda>_ p. w (H p)) m) U"

definition tally_ok :: "(string \<Rightarrow> nat) \<Rightarrow> (Client \<Rightarrow> int) \<Rightarrow> heap \<Rightarrow> int \<Rightarrow> client_shards \<Rightarrow> bool" where
  "tally_ok sh w H n U \<longleftrightarrow> (hash_ok sh \<longrightarrow> n = tally w H U)"

definition one :: "Client \<Rightarrow> int" where
  "one c = 1"

definition sse_one :: "Client \<Rightarrow> int" where
  "sse_one c = (if is_sse c then 1 else 0)"

lemma by_filing_weight [simp]: "by_filing one" "by_filing sse_one"
  by (auto simp: by_filing_def filing_def one_def sse_one_def is_sse_def)

lemma tally_put:
  assumes "nested_ok sh U" and "hash_ok sh"
  shows "tally w H (user_put sh H p U) =
    tally w H U + w (H p) - (case held sh H p U of None \<Rightarrow> 0 | Some q \<Rightarrow> w (H q))"
  unfolding tally_def user_put_def held_def
  by (subst sm_total_put) (use assms sm_inner_wf [OF assms(1)] in \<open>simp_all add: gm_sum_update\<close>)

lemma tally_del:
  assumes "nested_ok sh U" and "hash_ok sh"
  shows "tally w H (user_del sh H p U) =
    tally w H U - (case held sh H p U of None \<Rightarrow> 0 | Some q \<Rightarrow> w (H q))"
  unfolding tally_def user_del_def held_def
  by (subst sm_total_del) (use assms sm_inner_wf [OF assms(1)] in \<open>simp_all add: gm_sum_delete\<close>)

lemma gm_sum_cong:
  "(\<And>k v. (k, v) \<in> set m \<Longrightarrow> g k v = g' k v) \<Longrightarrow> gm_sum g m = gm_sum g' m"
  by (induction m) auto

lemma gm_sum_cong_lookup:
  "gm_wf m \<Longrightarrow> (\<And>k v. map_of m k = Some v \<Longrightarrow> g k v = g' k v) \<Longrightarrow> gm_sum g m = gm_sum g' m"
  by (rule gm_sum_cong) (simp add: map_of_eq_Some_iff)

lemma tally_heap:
  assumes U: "nested_ok sh U" and w: "by_filing w"
    and H: "keeps_filing sh H H' U"
  shows "tally w H' U = tally w H U"
proof -
  have "gm_sum (\<lambda>_ m. gm_sum (\<lambda>_ p. w (H' p)) m) (U i) = gm_sum (\<lambda>_ m. gm_sum (\<lambda>_ p. w (H p)) m) (U i)" for i
  proof (rule gm_sum_cong_lookup)
    show "gm_wf (U i)" by (rule sm_wf_gm [OF nested_ok_wf [OF U]])
    fix u m
    assume e: "map_of (U i) u = Some m"
    then have "sh u = i" by (rule sm_wf_place [OF nested_ok_wf [OF U]])
    with e have m: "sm_inner sh U u = m" by (simp add: sm_inner_def)
    show "gm_sum (\<lambda>_ p. w (H' p)) m = gm_sum (\<lambda>_ p. w (H p)) m"
    proof (rule gm_sum_cong_lookup)
      show "gm_wf m" using sm_inner_wf [OF U, of u] m by simp
      show "w (H' p) = w (H p)" if "map_of m c = Some p" for c p
        using by_filingD [OF w keeps_filingD [OF H, of u c p]] that m by simp
    qed
  qed
  then show ?thesis by (simp add: tally_def sm_total_def)
qed

lemma tally_view:
  assumes w: "by_filing w"
  shows "derived_view sh (tally_ok sh w) 0 (\<lambda>H p n. n + w (H p)) (\<lambda>H p n. n) (\<lambda>H p n. n - w (H p))"
proof
  show "tally_ok sh w H 0 sm_new" for H
    by (simp add: tally_ok_def tally_def)
  show "tally_ok sh w H (n + w (H p)) (user_put sh H p U)"
    if "users_ok sh H U" "tally_ok sh w H n U" "held sh H p U = None" for H U p n
    using that tally_put [OF users_ok_nested [OF that(1)]] by (simp add: tally_ok_def)
  show "tally_ok sh w H n (user_put sh H p U)"
    if "users_ok sh H U" "tally_ok sh w H n U" "held sh H p U = Some q" "filing (H q) = filing (H p)" for H U p n q
    using that(2,3) tally_put [OF users_ok_nested [OF that(1)]] by_filingD [OF w that(4)]
    by (simp add: tally_ok_def)
  show "tally_ok sh w H (n - w (H p)) (user_del sh H p U)"
    if "users_ok sh H U" "tally_ok sh w H n U" "held sh H p U = Some p" for H U p n
    using that tally_del [OF users_ok_nested [OF that(1)]] by (simp add: tally_ok_def)
  show "tally_ok sh w H' n U" if "users_ok sh H U" "tally_ok sh w H n U"
    "keeps_filing sh H H' U" for H U H' n
    using that(2) tally_heap [OF users_ok_nested [OF that(1)] w that(3)] by (simp add: tally_ok_def)
qed

interpretation client_count: derived_view sh "tally_ok sh one" 0
  "\<lambda>H p n. n + one (H p)" "\<lambda>H p n. n" "\<lambda>H p n. n - one (H p)" for sh
  by (rule tally_view) simp

interpretation sse_count: derived_view sh "tally_ok sh sse_one" 0
  "\<lambda>H p n. n + sse_one (H p)" "\<lambda>H p n. n" "\<lambda>H p n. n - sse_one (H p)" for sh
  by (rule tally_view) simp

section \<open>Reference-counted reverse indexes\<close>

definition index_ok :: "(string \<Rightarrow> nat) \<Rightarrow> (Client \<Rightarrow> string list) \<Rightarrow> heap \<Rightarrow> ref_index \<Rightarrow> client_shards \<Rightarrow> bool" where
  "index_ok sh keys H idx U \<longleftrightarrow> refs_ok sh idx \<and>
     (\<forall>k u. sm_refs sh idx k u = gm_sum (\<lambda>_ p. int (count_list (keys (H p)) k)) (sm_inner sh U u))"

definition index_enter :: "(string \<Rightarrow> nat) \<Rightarrow> (Client \<Rightarrow> string list) \<Rightarrow> heap \<Rightarrow> nat \<Rightarrow> ref_index \<Rightarrow> ref_index" where
  "index_enter sh keys H p idx =
     fold (\<lambda>k. with_shard_lock sh k (refs_inc k (cl_UserID (H p)))) (keys (H p)) idx"

definition index_leave :: "(string \<Rightarrow> nat) \<Rightarrow> (Client \<Rightarrow> string list) \<Rightarrow> heap \<Rightarrow> nat \<Rightarrow> ref_index \<Rightarrow> ref_index" where
  "index_leave sh keys H p idx =
     fold (\<lambda>k. with_shard_lock sh k (refs_dec k (cl_UserID (H p)))) (keys (H p)) idx"

definition group_keys :: "Client \<Rightarrow> string list" where
  "group_keys c = map (groupMemberKey (Client_GetAppID c)) (Client_GetGroupIDs c)"

definition ns_keys :: "Client \<Rightarrow> string list" where
  "ns_keys c = [nsIdxKey (Client_GetAppID c) (cl_Namespace c)]"

definition attr_keys :: "Client \<Rightarrow> string list" where
  "attr_keys c = map (\<lambda>(dim, value). attrIdxKey (Client_GetAppID c) dim value)
     (filter (\<lambda>(dim, value). value \<noteq> []) (clientAttrs c))"

lemma by_filing_keys [simp]: "by_filing group_keys" "by_filing ns_keys" "by_filing attr_keys"
  by (auto simp: by_filing_def filing_def group_keys_def ns_keys_def attr_keys_def clientAttrs_def
      Client_GetAppID_def Client_GetGroupIDs_def GetGroupIDsRaw_def GetGroupIDRaw_def)

lemma index_ok_put:
  assumes U: "users_ok sh H U" and ok: "index_ok sh keys H idx U"
  shows "held sh H p U = None \<Longrightarrow> index_ok sh keys H (index_enter sh keys H p idx) (user_put sh H p U)"
    and "held sh H p U = Some q \<Longrightarrow> keys (H q) = keys (H p) \<Longrightarrow> index_ok sh keys H idx (user_put sh H p U)"
proof -
  have wf: "gm_wf (sm_inner sh U u)" for u using sm_inner_wf [OF users_ok_nested [OF U]] .
  have r: "refs_ok sh idx" using ok by (simp add: index_ok_def)
  show "index_ok sh keys H (index_enter sh keys H p idx) (user_put sh H p U)" if "held sh H p U = None"
    using sm_refs_fold_inc [OF r, of "cl_UserID (H p)" "keys (H p)"] ok that wf
    by (auto simp: index_ok_def index_enter_def sm_inner_user_put gm_sum_update held_def)
  show "index_ok sh keys H idx (user_put sh H p U)"
    if "held sh H p U = Some q" "keys (H q) = keys (H p)"
    using ok that wf by (auto simp: index_ok_def sm_inner_user_put gm_sum_update held_def)
qed

lemma index_ok_del:
  assumes U: "users_ok sh H U" and ok: "index_ok sh keys H idx U" and p: "held sh H p U = Some p"
  shows "index_ok sh keys H (index_leave sh keys H p idx) (user_del sh H p U)"
proof -
  let ?u = "cl_UserID (H p)"
  have wf: "gm_wf (sm_inner sh U u)" for u using sm_inner_wf [OF users_ok_nested [OF U]] .
  have r: "refs_ok sh idx" using ok by (simp add: index_ok_def)
  have le: "int (count_list (keys (H p)) k) \<le> sm_refs sh idx k ?u" for k
    using gm_sum_member_le [of "\<lambda>_ q. int (count_list (keys (H q)) k)" "sm_inner sh U ?u" "cl_ID (H p)" p] ok p
    by (simp add: index_ok_def held_def)
  show ?thesis
    using sm_refs_fold_dec [OF r le] ok p wf
    by (auto simp: index_ok_def index_leave_def sm_inner_user_del gm_sum_delete held_def)
qed

lemma index_ok_heap:
  assumes U: "users_ok sh H U" and ok: "index_ok sh keys H idx U" and keys: "by_filing keys"
    and H: "keeps_filing sh H H' U"
  shows "index_ok sh keys H' idx U"
proof -
  have "gm_sum (\<lambda>_ p. int (count_list (keys (H' p)) k)) (sm_inner sh U u) =
        gm_sum (\<lambda>_ p. int (count_list (keys (H p)) k)) (sm_inner sh U u)" for k u
  proof (rule gm_sum_cong_lookup)
    show "gm_wf (sm_inner sh U u)" using sm_inner_wf [OF users_ok_nested [OF U]] .
    show "int (count_list (keys (H' p)) k) = int (count_list (keys (H p)) k)"
      if "map_of (sm_inner sh U u) c = Some p" for c p
      using by_filingD [OF keys keeps_filingD [OF H that]] by simp
  qed
  with ok show ?thesis by (simp add: index_ok_def)
qed

lemma index_view:
  assumes keys: "by_filing keys"
  shows "derived_view sh (index_ok sh keys) sm_new (index_enter sh keys) (\<lambda>H p idx. idx) (index_leave sh keys)"
proof
  show "index_ok sh keys H sm_new sm_new" for H by (simp add: index_ok_def)
  show "index_ok sh keys H idx (user_put sh H p U)"
    if "users_ok sh H U" "index_ok sh keys H idx U" "held sh H p U = Some q" "filing (H q) = filing (H p)"
    for H U p idx q
    using index_ok_put(2) [OF that(1-3)] by_filingD [OF keys that(4)] by blast
qed (blast intro: index_ok_put(1) index_ok_del index_ok_heap [OF _ _ keys])+

interpretation group_index: derived_view sh "index_ok sh group_keys" sm_new
  "index_enter sh group_keys" "\<lambda>H p idx. idx" "index_leave sh group_keys" for sh
  by (rule index_view) simp

interpretation ns_index: derived_view sh "index_ok sh ns_keys" sm_new
  "index_enter sh ns_keys" "\<lambda>H p idx. idx" "index_leave sh ns_keys" for sh
  by (rule index_view) simp

interpretation attr_index: derived_view sh "index_ok sh attr_keys" sm_new
  "index_enter sh attr_keys" "\<lambda>H p idx. idx" "index_leave sh attr_keys" for sh
  by (rule index_view) simp

section \<open>The reverse index from client ids to users\<close>

definition rev_ok :: "(string \<Rightarrow> nat) \<Rightarrow> heap \<Rightarrow> (string, string) gomap \<Rightarrow> client_shards \<Rightarrow> bool" where
  "rev_ok sh H m U \<longleftrightarrow> gm_wf m \<and> (\<forall>c u. map_of m c = Some u \<longleftrightarrow> map_of (sm_inner sh U u) c \<noteq> None)"

definition rev_put :: "heap \<Rightarrow> nat \<Rightarrow> (string, string) gomap \<Rightarrow> (string, string) gomap" where
  "rev_put H p m = AList.update (cl_ID (H p)) (cl_UserID (H p)) m"

definition rev_del :: "heap \<Rightarrow> nat \<Rightarrow> (string, string) gomap \<Rightarrow> (string, string) gomap" where
  "rev_del H p m = AList.delete (cl_ID (H p)) m"

lemma rev_ok_put:
  assumes "users_ok sh H (user_put sh H p U)" and "rev_ok sh H m U"
  shows "rev_ok sh H (rev_put H p m) (user_put sh H p U)"
  unfolding rev_ok_def
proof (intro conjI allI)
  show "gm_wf (rev_put H p m)" using assms(2) by (simp add: rev_ok_def rev_put_def)
  show "map_of (rev_put H p m) c = Some u \<longleftrightarrow> map_of (sm_inner sh (user_put sh H p U) u) c \<noteq> None" for c u
  proof (cases "c = cl_ID (H p)")
    case True
    with users_ok_put_sole [OF assms(1), of u] show ?thesis by (auto simp: rev_put_def gomap_simps)
  next
    case False
    with assms(2) show ?thesis by (simp add: rev_ok_def rev_put_def gomap_simps)
  qed
qed

lemma rev_ok_del:
  assumes U: "users_ok sh H U" and m: "rev_ok sh H m U" and p: "held sh H p U = Some p"
  shows "rev_ok sh H (rev_del H p m) (user_del sh H p U)"
  unfolding rev_ok_def
proof (intro conjI allI)
  show "gm_wf (rev_del H p m)" using m by (simp add: rev_ok_def rev_del_def)
  show "map_of (rev_del H p m) c = Some u \<longleftrightarrow> map_of (sm_inner sh (user_del sh H p U) u) c \<noteq> None" for c u
  proof (cases "c = cl_ID (H p)")
    case True
    have "map_of (sm_inner sh U u) c = None" if "u \<noteq> cl_UserID (H p)"
      using users_ok_sole [OF U p [unfolded held_def], of u] that True
      by (cases "map_of (sm_inner sh U u) c") auto
    with True show ?thesis by (auto simp: rev_del_def gomap_simps)
  next
    case False
    with m show ?thesis by (simp add: rev_ok_def rev_del_def gomap_simps)
  qed
qed

interpretation reverse: derived_view sh "rev_ok sh" "[]" rev_put rev_put rev_del for sh
proof
  show "rev_ok sh H [] sm_new" for H by (simp add: rev_ok_def)
  show "rev_ok sh H' m U" if "rev_ok sh H m U" for H H' m U
    using that by (simp add: rev_ok_def)
qed (blast intro: rev_ok_put rev_ok_del)+

section \<open>The observer index\<close>

text \<open>The scope an observer is filed under, and the entries of the index by scope.\<close>

datatype obs_scope = ScopeAll | ScopeNamespace string | ScopeGroup string

definition scope_of :: "Client \<Rightarrow> obs_scope" where
  "scope_of c =
     (if cl_Namespace c = [] then ScopeAll
      else if cl_GroupID c \<noteq> [] then ScopeGroup (groupIndexKey (cl_Namespace c) (cl_GroupID c))
      else ScopeNamespace (cl_Namespace c))"

fun oi_get :: "observerIndex \<Rightarrow> obs_scope \<Rightarrow> string \<Rightarrow> nat option" where
  "oi_get oi ScopeAll c = map_of (oi_global oi) c"
| "oi_get oi (ScopeNamespace n) c = nest_get (oi_byNamespace oi) n c"
| "oi_get oi (ScopeGroup k) c = nest_get (oi_byGroup oi) k c"

definition oi_wf :: "observerIndex \<Rightarrow> bool" where
  "oi_wf oi \<longleftrightarrow> gm_wf (oi_global oi) \<and> nest_wf (oi_byNamespace oi) \<and> nest_wf (oi_byGroup oi)"

definition oi_ok :: "(string \<Rightarrow> nat) \<Rightarrow> heap \<Rightarrow> observerIndex \<Rightarrow> client_shards \<Rightarrow> bool" where
  "oi_ok sh H oi U \<longleftrightarrow> oi_wf oi \<and>
     (\<forall>sc c p. oi_get oi sc c = Some p \<longleftrightarrow>
        (\<exists>u. map_of (sm_inner sh U u) c = Some p) \<and> is_observer (H p) \<and> scope_of (H p) = sc)"

definition oi_put :: "heap \<Rightarrow> nat \<Rightarrow> observerIndex \<Rightarrow> observerIndex" where
  "oi_put H p oi = (if is_observer (H p) then observerIndex_add H p oi else oi)"

definition oi_del :: "heap \<Rightarrow> nat \<Rightarrow> observerIndex \<Rightarrow> observerIndex" where
  "oi_del H p oi = (if is_observer (H p) then observerIndex_remove H p oi else oi)"

lemma oi_get_add:
  "oi_get (observerIndex_add H p oi) sc c =
     (if sc = scope_of (H p) \<and> c = cl_ID (H p) then Some p else oi_get oi sc c)"
  by (cases sc) (auto simp: observerIndex_add_def Let_def scope_of_def GetGroupIDRaw_def gomap_simps)

lemma oi_get_remove:
  "oi_get (observerIndex_remove H p oi) sc c =
     (if sc = scope_of (H p) \<and> c = cl_ID (H p) then None else oi_get oi sc c)"
  by (cases sc) (auto simp: observerIndex_remove_def Let_def scope_of_def GetGroupIDRaw_def gomap_simps)

lemma oi_wf_put [simp]: "oi_wf oi \<Longrightarrow> oi_wf (oi_put H p oi)"
  by (simp add: oi_wf_def oi_put_def observerIndex_add_def Let_def)

lemma oi_wf_del [simp]: "oi_wf oi \<Longrightarrow> oi_wf (oi_del H p oi)"
  by (simp add: oi_wf_def oi_del_def observerIndex_remove_def Let_def)

lemma oi_get_put:
  "oi_get (oi_put H p oi) sc c =
     (if is_observer (H p) \<and> sc = scope_of (H p) \<and> c = cl_ID (H p) then Some p else oi_get oi sc c)"
  by (simp add: oi_put_def oi_get_add)

lemma oi_get_del:
  "oi_get (oi_del H p oi) sc c =
     (if is_observer (H p) \<and> sc = scope_of (H p) \<and> c = cl_ID (H p) then None else oi_get oi sc c)"
  by (simp add: oi_del_def oi_get_remove)

lemma by_filing_scope [simp]: "by_filing scope_of"
  by (auto simp: by_filing_def filing_def scope_of_def)

lemma oi_okD:
  "oi_ok sh H oi U \<Longrightarrow> oi_get oi sc c = Some p \<longleftrightarrow>
     (\<exists>u. map_of (sm_inner sh U u) c = Some p) \<and> is_observer (H p) \<and> scope_of (H p) = sc"
  unfolding oi_ok_def by blast

text \<open>After the id of \<open>p\<close> is written, its user is the only one who holds that id.\<close>

lemma put_holders:
  assumes "users_ok sh H (user_put sh H p U)"
  shows "(\<exists>u. map_of (sm_inner sh (user_put sh H p U) u) c = Some q) \<longleftrightarrow>
    (if c = cl_ID (H p) then q = p else \<exists>u. map_of (sm_inner sh U u) c = Some q)"
  using users_ok_put_sole [OF assms] by (auto simp: gomap_simps)

lemma del_holders:
  assumes "users_ok sh H U" and "held sh H p U = Some p"
  shows "(\<exists>u. map_of (sm_inner sh (user_del sh H p U) u) c = Some q) \<longleftrightarrow>
    c \<noteq> cl_ID (H p) \<and> (\<exists>u. map_of (sm_inner sh U u) c = Some q)"
  using users_ok_sole [OF assms(1) assms(2) [unfolded held_def]] by (auto simp: gomap_simps)

lemma holder_unique:
  assumes "users_ok sh H (user_put sh H p U)" and "map_of (sm_inner sh U u) (cl_ID (H p)) = Some q"
  shows "held sh H p U = Some q"
  using users_ok_put_sole [OF assms(1), of u] assms(2) by (cases "u = cl_UserID (H p)") (auto simp: held_def)

lemma oi_ok_put:
  assumes U: "users_ok sh H (user_put sh H p U)" and ok: "oi_ok sh H oi U"
    and old: "\<And>q. held sh H p U = Some q \<Longrightarrow> is_observer (H q) = is_observer (H p) \<and> scope_of (H q) = scope_of (H p)"
  shows "oi_ok sh H (oi_put H p oi) (user_put sh H p U)"
  unfolding oi_ok_def
proof (intro conjI allI)
  show "oi_wf (oi_put H p oi)" using ok by (simp add: oi_ok_def)
  fix sc c q
  show "oi_get (oi_put H p oi) sc c = Some q \<longleftrightarrow>
    (\<exists>u. map_of (sm_inner sh (user_put sh H p U) u) c = Some q) \<and> is_observer (H q) \<and> scope_of (H q) = sc"
  proof (cases "c = cl_ID (H p)")
    case True
    have "\<not> oi_get oi sc c = Some q" if "\<not> (is_observer (H p) \<and> sc = scope_of (H p))" for q
    proof
      assume "oi_get oi sc c = Some q"
      then obtain u where "map_of (sm_inner sh U u) c = Some q" "is_observer (H q)" "scope_of (H q) = sc"
        using oi_okD [OF ok] by blast
      with old [OF holder_unique [OF U]] True that show False by blast
    qed
    with True put_holders [OF U, of c q] show ?thesis by (auto simp: oi_get_put)
  next
    case False
    with put_holders [OF U, of c q] oi_okD [OF ok, of sc c q] show ?thesis by (simp add: oi_get_put)
  qed
qed

lemma oi_ok_del:
  assumes U: "users_ok sh H U" and ok: "oi_ok sh H oi U" and p: "held sh H p U = Some p"
  shows "oi_ok sh H (oi_del H p oi) (user_del sh H p U)"
  unfolding oi_ok_def
proof (intro conjI allI)
  show "oi_wf (oi_del H p oi)" using ok by (simp add: oi_ok_def)
  fix sc c q
  have "q = p" if "oi_get oi sc (cl_ID (H p)) = Some q"
    using that oi_okD [OF ok, of sc "cl_ID (H p)" q] users_ok_sole [OF U p [unfolded held_def]] by blast
  then show "oi_get (oi_del H p oi) sc c = Some q \<longleftrightarrow>
    (\<exists>u. map_of (sm_inner sh (user_del sh H p U) u) c = Some q) \<and> is_observer (H q) \<and> scope_of (H q) = sc"
    using del_holders [OF U p, of c q] oi_okD [OF ok, of sc c q] by (auto simp: oi_get_del)
qed

lemma oi_ok_heap:
  assumes ok: "oi_ok sh H oi U"
    and H: "keeps_filing sh H H' U"
  shows "oi_ok sh H' oi U"
proof -
  have "is_observer (H' p) = is_observer (H p) \<and> scope_of (H' p) = scope_of (H p)"
    if "map_of (sm_inner sh U u) c = Some p" for u c p
    using by_filingD [OF by_filing_class(2) keeps_filingD [OF H that]] by_filingD [OF by_filing_scope keeps_filingD [OF H that]] by simp
  then have "(\<exists>u. map_of (sm_inner sh U u) c = Some p) \<and> is_observer (H' p) \<and> scope_of (H' p) = sc \<longleftrightarrow>
    (\<exists>u. map_of (sm_inner sh U u) c = Some p) \<and> is_observer (H p) \<and> scope_of (H p) = sc" for sc c p
    by (cases "\<exists>u. map_of (sm_inner sh U u) c = Some p") auto
  with ok show ?thesis by (simp add: oi_ok_def)
qed

interpretation observer_index: derived_view sh "oi_ok sh" newObserverIndex oi_put oi_put oi_del for sh
proof
  show "oi_ok sh H newObserverIndex sm_new" for H
  proof -
    have "oi_get newObserverIndex sc c = None" for sc c
      by (cases sc) (simp_all add: newObserverIndex_def nest_get_def)
    then show ?thesis by (simp add: oi_ok_def oi_wf_def newObserverIndex_def)
  qed
  show "oi_ok sh H (oi_put H p oi) (user_put sh H p U)"
    if "users_ok sh H (user_put sh H p U)" "oi_ok sh H oi U" "held sh H p U = None" for H U p oi
    using that by (intro oi_ok_put) simp_all
  show "oi_ok sh H (oi_put H p oi) (user_put sh H p U)"
    if "users_ok sh H (user_put sh H p U)" "oi_ok sh H oi U" "held sh H p U = Some q"
      "filing (H q) = filing (H p)" for H U p oi q
    using that(1-3) by_filingD [OF by_filing_class(2) that(4)] by_filingD [OF by_filing_scope that(4)]
    by (intro oi_ok_put) simp_all
qed (blast intro: oi_ok_del oi_ok_heap)+

end
