(* ===== verification/Registry_Correct.thy ===== *)
theory Registry_Correct
  imports Registry_Views
begin

text \<open>
  Correctness of the registry: the invariant that ties every counter and every index to the
  store, its preservation by the operations, and what the queries answer.
\<close>

section \<open>The invariant\<close>

definition rg_inv :: "(string \<Rightarrow> nat) \<Rightarrow> heap \<Rightarrow> ShardedRegistry \<Rightarrow> bool" where
  "rg_inv sh H r \<longleftrightarrow>
     users_ok sh H (rg_userShards r) \<and>
     (hash_ok sh \<longrightarrow> rg_userCount r = user_total sh (rg_userShards r)) \<and>
     rev_ok sh H (rg_clientIDToUserID r) (rg_userShards r) \<and>
     tally_ok sh one H (rg_clientCount r) (rg_userShards r) \<and>
     tally_ok sh sse_one H (rg_sseCount r) (rg_userShards r) \<and>
     class_ok sh is_sse H (rg_sseShards r) (rg_userShards r) \<and>
     (\<forall>s. rg_observerShards r = Some s \<longrightarrow>
        counted_ok sh is_observer H (s, rg_observerUserCount r) (rg_userShards r) \<and>
        oi_ok sh H (rg_observerIdx r) (rg_userShards r)) \<and>
     (\<forall>s. rg_agentShards r = Some s \<longrightarrow>
        counted_ok sh is_agent H (s, rg_agentUserCount r) (rg_userShards r)) \<and>
     index_ok sh group_keys H (rg_groupMemberIdx r) (rg_userShards r) \<and>
     index_ok sh ns_keys H (rg_nsIdx r) (rg_userShards r) \<and>
     index_ok sh attr_keys H (rg_attrIdx r) (rg_userShards r)"

text \<open>
  What callers of \<open>AddClient\<close> have to keep: a client id belongs to one user, and a client
  that replaces a registered one is filed the same way (a reconnect).
\<close>

definition add_ok :: "(string \<Rightarrow> nat) \<Rightarrow> heap \<Rightarrow> nat \<Rightarrow> ShardedRegistry \<Rightarrow> bool" where
  "add_ok sh H p r \<longleftrightarrow>
     (case GetClient sh (cl_ID (H p)) r of None \<Rightarrow> True | Some q \<Rightarrow> filing (H q) = filing (H p))"

text \<open>
  The registry with the clients it points to: clients are added and removed, and registered
  clients change in ways that keep their filing.
\<close>

inductive rg_step :: "(string \<Rightarrow> nat) \<Rightarrow> heap \<times> ShardedRegistry \<Rightarrow> heap \<times> ShardedRegistry \<Rightarrow> bool"
  for sh :: "string \<Rightarrow> nat"
where
  add: "add_ok sh H p r \<Longrightarrow> rg_step sh (H, r) (H, AddClient sh H (Some p) r)"
| add_nil: "rg_step sh (H, r) (H, AddClient sh H None r)"
| remove: "rg_step sh (H, r) (H, snd (RemoveClient sh H clientID userID r))"
| mutate: "(\<And>p. p \<in> set (GetAllClients r) \<Longrightarrow> filing (H' p) = filing (H p)) \<Longrightarrow> rg_step sh (H, r) (H', r)"

definition rg_init :: "heap \<times> ShardedRegistry \<Rightarrow> bool" where
  "rg_init s \<longleftrightarrow> (\<exists>agentEnabled observerEnabled. snd s = NewShardedRegistry agentEnabled observerEnabled)"

section \<open>What the operations do to each field\<close>

lemma attr_fold:
  "fold (\<lambda>(dim, value) idx.
       if value = [] then idx
       else let key = attrIdxKey appID dim value in with_shard_lock sh key (f key) idx) attrs idx =
   fold (\<lambda>k. with_shard_lock sh k (f k))
     (map (\<lambda>(dim, value). attrIdxKey appID dim value) (filter (\<lambda>(dim, value). value \<noteq> []) attrs)) idx"
  by (induction attrs arbitrary: idx) (auto simp: Let_def)

lemmas add_unfold = AddClient_def addSSEClient_def
  addToGroupMemberIdx_def addToNamespaceIdx_def addToAttrIdx_def attr_fold nest_get_inner Let_def

lemmas remove_unfold = RemoveClient_def removeSSEClient_def
  removeFromGroupMemberIdx_def removeFromNamespaceIdx_def removeFromAttrIdx_def attr_fold nest_get_inner Let_def

lemmas view_unfold = class_put_def class_del_def counted_put_def counted_del_def user_put_def user_del_def
  index_enter_def index_leave_def group_keys_def ns_keys_def attr_keys_def rev_put_def rev_del_def
  oi_put_def oi_del_def one_def sse_one_def held_def Let_def

text \<open>A field of a conditional update is the conditional field.\<close>

lemmas field_push =
  if_distrib [of rg_userShards]
  if_distrib [of rg_userCount]
  if_distrib [of rg_clientIDToUserID]
  if_distrib [of rg_clientCount]
  if_distrib [of rg_sseCount]
  if_distrib [of rg_sseShards]
  if_distrib [of rg_observerShards]
  if_distrib [of rg_observerUserCount]
  if_distrib [of rg_observerIdx]
  if_distrib [of rg_agentShards]
  if_distrib [of rg_agentUserCount]
  if_distrib [of rg_groupMemberIdx]
  if_distrib [of rg_nsIdx]
  if_distrib [of rg_attrIdx]

lemma addObserverClient_frame [record_simps]:
  "rg_userShards (addObserverClient sh H p r) = rg_userShards r"
  "rg_userCount (addObserverClient sh H p r) = rg_userCount r"
  "rg_clientIDToUserID (addObserverClient sh H p r) = rg_clientIDToUserID r"
  "rg_clientCount (addObserverClient sh H p r) = rg_clientCount r"
  "rg_sseCount (addObserverClient sh H p r) = rg_sseCount r"
  "rg_sseShards (addObserverClient sh H p r) = rg_sseShards r"
  "rg_agentShards (addObserverClient sh H p r) = rg_agentShards r"
  "rg_agentUserCount (addObserverClient sh H p r) = rg_agentUserCount r"
  "rg_groupMemberIdx (addObserverClient sh H p r) = rg_groupMemberIdx r"
  "rg_nsIdx (addObserverClient sh H p r) = rg_nsIdx r"
  "rg_attrIdx (addObserverClient sh H p r) = rg_attrIdx r"
  by (simp_all add: addObserverClient_def Let_def split: option.split)

lemma removeObserverClient_frame [record_simps]:
  "rg_userShards (removeObserverClient sh H p r) = rg_userShards r"
  "rg_userCount (removeObserverClient sh H p r) = rg_userCount r"
  "rg_clientIDToUserID (removeObserverClient sh H p r) = rg_clientIDToUserID r"
  "rg_clientCount (removeObserverClient sh H p r) = rg_clientCount r"
  "rg_sseCount (removeObserverClient sh H p r) = rg_sseCount r"
  "rg_sseShards (removeObserverClient sh H p r) = rg_sseShards r"
  "rg_agentShards (removeObserverClient sh H p r) = rg_agentShards r"
  "rg_agentUserCount (removeObserverClient sh H p r) = rg_agentUserCount r"
  "rg_groupMemberIdx (removeObserverClient sh H p r) = rg_groupMemberIdx r"
  "rg_nsIdx (removeObserverClient sh H p r) = rg_nsIdx r"
  "rg_attrIdx (removeObserverClient sh H p r) = rg_attrIdx r"
  by (simp_all add: removeObserverClient_def Let_def split: option.split)

lemma addAgentClient_frame [record_simps]:
  "rg_userShards (addAgentClient sh H p r) = rg_userShards r"
  "rg_userCount (addAgentClient sh H p r) = rg_userCount r"
  "rg_clientIDToUserID (addAgentClient sh H p r) = rg_clientIDToUserID r"
  "rg_clientCount (addAgentClient sh H p r) = rg_clientCount r"
  "rg_sseCount (addAgentClient sh H p r) = rg_sseCount r"
  "rg_sseShards (addAgentClient sh H p r) = rg_sseShards r"
  "rg_observerShards (addAgentClient sh H p r) = rg_observerShards r"
  "rg_observerUserCount (addAgentClient sh H p r) = rg_observerUserCount r"
  "rg_observerIdx (addAgentClient sh H p r) = rg_observerIdx r"
  "rg_groupMemberIdx (addAgentClient sh H p r) = rg_groupMemberIdx r"
  "rg_nsIdx (addAgentClient sh H p r) = rg_nsIdx r"
  "rg_attrIdx (addAgentClient sh H p r) = rg_attrIdx r"
  by (simp_all add: addAgentClient_def Let_def split: option.split)

lemma removeAgentClient_frame [record_simps]:
  "rg_userShards (removeAgentClient sh H p r) = rg_userShards r"
  "rg_userCount (removeAgentClient sh H p r) = rg_userCount r"
  "rg_clientIDToUserID (removeAgentClient sh H p r) = rg_clientIDToUserID r"
  "rg_clientCount (removeAgentClient sh H p r) = rg_clientCount r"
  "rg_sseCount (removeAgentClient sh H p r) = rg_sseCount r"
  "rg_sseShards (removeAgentClient sh H p r) = rg_sseShards r"
  "rg_observerShards (removeAgentClient sh H p r) = rg_observerShards r"
  "rg_observerUserCount (removeAgentClient sh H p r) = rg_observerUserCount r"
  "rg_observerIdx (removeAgentClient sh H p r) = rg_observerIdx r"
  "rg_groupMemberIdx (removeAgentClient sh H p r) = rg_groupMemberIdx r"
  "rg_nsIdx (removeAgentClient sh H p r) = rg_nsIdx r"
  "rg_attrIdx (removeAgentClient sh H p r) = rg_attrIdx r"
  by (simp_all add: removeAgentClient_def Let_def split: option.split)

lemma disabled_frame [record_simps]:
  "rg_observerShards r = None \<Longrightarrow> addObserverClient sh H p r = r"
  "rg_observerShards r = None \<Longrightarrow> removeObserverClient sh H p r = r"
  "rg_agentShards r = None \<Longrightarrow> addAgentClient sh H p r = r"
  "rg_agentShards r = None \<Longrightarrow> removeAgentClient sh H p r = r"
  by (simp_all add: addObserverClient_def removeObserverClient_def addAgentClient_def removeAgentClient_def)

lemma add_fields:
  "rg_userShards (AddClient sh H (Some p) r) = user_put sh H p (rg_userShards r)"
  "rg_userCount (AddClient sh H (Some p) r) = rg_userCount r +
     (if map_of (rg_userShards r (sh (cl_UserID (H p)))) (cl_UserID (H p)) = None then 1 else 0)"
  "rg_clientIDToUserID (AddClient sh H (Some p) r) = rev_put H p (rg_clientIDToUserID r)"
  "rg_clientCount (AddClient sh H (Some p) r) =
     (if held sh H p (rg_userShards r) = None then rg_clientCount r + one (H p) else rg_clientCount r)"
  "rg_sseCount (AddClient sh H (Some p) r) =
     (if held sh H p (rg_userShards r) = None then rg_sseCount r + sse_one (H p) else rg_sseCount r)"
  "rg_sseShards (AddClient sh H (Some p) r) = class_put sh is_sse H p (rg_sseShards r)"
  by (simp_all add: add_unfold view_unfold field_push record_simps)

lemma add_observer_fields:
  "rg_observerShards r = None \<Longrightarrow> rg_observerShards (AddClient sh H (Some p) r) = None"
  "rg_observerShards r = Some s \<Longrightarrow>
     rg_observerShards (AddClient sh H (Some p) r) =
       Some (fst (counted_put sh is_observer H p (s, rg_observerUserCount r)))"
  "rg_observerShards r = Some s \<Longrightarrow>
     rg_observerUserCount (AddClient sh H (Some p) r) =
       snd (counted_put sh is_observer H p (s, rg_observerUserCount r))"
  "rg_observerShards r = Some s \<Longrightarrow>
     rg_observerIdx (AddClient sh H (Some p) r) = oi_put H p (rg_observerIdx r)"
  by (simp_all add: add_unfold view_unfold addObserverClient_def field_push record_simps)

lemma add_agent_fields:
  "rg_agentShards r = None \<Longrightarrow> rg_agentShards (AddClient sh H (Some p) r) = None"
  "rg_agentShards r = Some s \<Longrightarrow>
     rg_agentShards (AddClient sh H (Some p) r) =
       Some (fst (counted_put sh is_agent H p (s, rg_agentUserCount r)))"
  "rg_agentShards r = Some s \<Longrightarrow>
     rg_agentUserCount (AddClient sh H (Some p) r) =
       snd (counted_put sh is_agent H p (s, rg_agentUserCount r))"
  by (simp_all add: add_unfold view_unfold addAgentClient_def field_push record_simps)

lemma add_index_fields:
  "rg_groupMemberIdx (AddClient sh H (Some p) r) =
     (if held sh H p (rg_userShards r) = None then index_enter sh group_keys H p (rg_groupMemberIdx r)
      else rg_groupMemberIdx r)"
  "rg_nsIdx (AddClient sh H (Some p) r) =
     (if held sh H p (rg_userShards r) = None then index_enter sh ns_keys H p (rg_nsIdx r) else rg_nsIdx r)"
  "rg_attrIdx (AddClient sh H (Some p) r) =
     (if held sh H p (rg_userShards r) = None then index_enter sh attr_keys H p (rg_attrIdx r) else rg_attrIdx r)"
  by (simp_all add: add_unfold view_unfold field_push record_simps)

lemma remove_absent:
  "map_of (sm_inner sh (rg_userShards r) userID) clientID = None \<Longrightarrow>
     RemoveClient sh H clientID userID r = (None, r)"
  by (simp add: RemoveClient_def nest_get_inner)

text \<open>The identity that is removed is the identity of the client found there.\<close>

lemma remove_fields:
  assumes "held sh H p (rg_userShards r) = Some p"
  defines "r' \<equiv> snd (RemoveClient sh H (cl_ID (H p)) (cl_UserID (H p)) r)"
  shows "fst (RemoveClient sh H (cl_ID (H p)) (cl_UserID (H p)) r) = Some p"
    and "rg_userShards r' = user_del sh H p (rg_userShards r)"
    and "rg_userCount r' = rg_userCount r -
     (if map_of (user_del sh H p (rg_userShards r) (sh (cl_UserID (H p)))) (cl_UserID (H p)) = None then 1 else 0)"
    and "rg_clientIDToUserID r' = rev_del H p (rg_clientIDToUserID r)"
    and "rg_clientCount r' = rg_clientCount r - one (H p)"
    and "rg_sseCount r' = rg_sseCount r - sse_one (H p)"
    and "rg_sseShards r' = class_del sh is_sse H p (rg_sseShards r)"
  using assms(1) unfolding r'_def by (simp_all add: remove_unfold view_unfold field_push record_simps)

lemma remove_observer_fields:
  assumes "held sh H p (rg_userShards r) = Some p"
  defines "r' \<equiv> snd (RemoveClient sh H (cl_ID (H p)) (cl_UserID (H p)) r)"
  shows "rg_observerShards r = None \<Longrightarrow> rg_observerShards r' = None"
    and "rg_observerShards r = Some s \<Longrightarrow>
     rg_observerShards r' = Some (fst (counted_del sh is_observer H p (s, rg_observerUserCount r)))"
    and "rg_observerShards r = Some s \<Longrightarrow>
     rg_observerUserCount r' = snd (counted_del sh is_observer H p (s, rg_observerUserCount r))"
    and "rg_observerShards r = Some s \<Longrightarrow> rg_observerIdx r' = oi_del H p (rg_observerIdx r)"
  using assms(1) unfolding r'_def by (auto simp: remove_unfold view_unfold removeObserverClient_def field_push record_simps)

lemma remove_agent_fields:
  assumes "held sh H p (rg_userShards r) = Some p"
  defines "r' \<equiv> snd (RemoveClient sh H (cl_ID (H p)) (cl_UserID (H p)) r)"
  shows "rg_agentShards r = None \<Longrightarrow> rg_agentShards r' = None"
    and "rg_agentShards r = Some s \<Longrightarrow>
     rg_agentShards r' = Some (fst (counted_del sh is_agent H p (s, rg_agentUserCount r)))"
    and "rg_agentShards r = Some s \<Longrightarrow>
     rg_agentUserCount r' = snd (counted_del sh is_agent H p (s, rg_agentUserCount r))"
  using assms(1) unfolding r'_def by (auto simp: remove_unfold view_unfold removeAgentClient_def field_push record_simps)

lemma remove_index_fields:
  assumes "held sh H p (rg_userShards r) = Some p"
  defines "r' \<equiv> snd (RemoveClient sh H (cl_ID (H p)) (cl_UserID (H p)) r)"
  shows "rg_groupMemberIdx r' = index_leave sh group_keys H p (rg_groupMemberIdx r)"
    and "rg_nsIdx r' = index_leave sh ns_keys H p (rg_nsIdx r)"
    and "rg_attrIdx r' = index_leave sh attr_keys H p (rg_attrIdx r)"
  using assms(1) unfolding r'_def by (simp_all add: remove_unfold view_unfold field_push record_simps)

section \<open>Preservation\<close>

lemma rg_invD:
  assumes "rg_inv sh H r"
  shows "users_ok sh H (rg_userShards r)"
    and "hash_ok sh \<longrightarrow> rg_userCount r = user_total sh (rg_userShards r)"
    and "rev_ok sh H (rg_clientIDToUserID r) (rg_userShards r)"
    and "tally_ok sh one H (rg_clientCount r) (rg_userShards r)"
    and "tally_ok sh sse_one H (rg_sseCount r) (rg_userShards r)"
    and "class_ok sh is_sse H (rg_sseShards r) (rg_userShards r)"
    and "rg_observerShards r = Some s \<Longrightarrow>
      counted_ok sh is_observer H (s, rg_observerUserCount r) (rg_userShards r) \<and>
      oi_ok sh H (rg_observerIdx r) (rg_userShards r)"
    and "rg_agentShards r = Some s \<Longrightarrow>
      counted_ok sh is_agent H (s, rg_agentUserCount r) (rg_userShards r)"
    and "index_ok sh group_keys H (rg_groupMemberIdx r) (rg_userShards r)"
    and "index_ok sh ns_keys H (rg_nsIdx r) (rg_userShards r)"
    and "index_ok sh attr_keys H (rg_attrIdx r) (rg_userShards r)"
  using assms unfolding rg_inv_def by blast+

text \<open>\<open>GetClient\<close> is the store read by client id.\<close>

lemma get_client_iff:
  assumes "rg_inv sh H r"
  shows "GetClient sh c r = Some p \<longleftrightarrow> (\<exists>u. map_of (sm_inner sh (rg_userShards r) u) c = Some p)"
proof -
  let ?U = "rg_userShards r"
  have g: "GetClient sh c r = (case map_of (rg_clientIDToUserID r) c of
      None \<Rightarrow> None | Some u \<Rightarrow> map_of (sm_inner sh ?U u) c)"
    by (simp add: GetClient_def with_shard_rlock_def sm_inner_def split: option.split)
  have rev: "map_of (rg_clientIDToUserID r) c = Some u \<longleftrightarrow> map_of (sm_inner sh ?U u) c \<noteq> None" for u
    using rg_invD(3) [OF assms] unfolding rev_ok_def by blast
  show ?thesis
  proof
    assume "GetClient sh c r = Some p"
    then show "\<exists>u. map_of (sm_inner sh ?U u) c = Some p" by (auto simp: g split: option.splits)
  next
    assume "\<exists>u. map_of (sm_inner sh ?U u) c = Some p"
    then obtain u where u: "map_of (sm_inner sh ?U u) c = Some p" by blast
    with rev [of u] have "map_of (rg_clientIDToUserID r) c = Some u" by simp
    with u show "GetClient sh c r = Some p" by (simp add: g)
  qed
qed

lemma rg_inv_add:
  assumes inv: "rg_inv sh H r" and add: "add_ok sh H p r"
  shows "rg_inv sh H (AddClient sh H (Some p) r)"
proof -
  let ?U = "rg_userShards r" and ?c = "cl_ID (H p)"
  note D = rg_invD [OF inv]
  have same: "filing (H q) = filing (H p)" if "map_of (sm_inner sh ?U u) ?c = Some q" for u q
  proof -
    have "GetClient sh ?c r = Some q" using get_client_iff [OF inv] that by blast
    with add show ?thesis by (simp add: add_ok_def)
  qed
  have U': "users_ok sh H (user_put sh H p ?U)"
  proof (rule users_ok_put [OF D(1)])
    show "map_of (sm_inner sh ?U u) ?c = None" if "u \<noteq> cl_UserID (H p)" for u
    proof (cases "map_of (sm_inner sh ?U u) ?c")
      case (Some q)
      with same [OF Some] users_ok_ident [OF D(1) Some] that show ?thesis by (simp add: filing_def)
    qed
  qed
  have old: "refiled sh H p ?U"
    using same [of "cl_UserID (H p)"] by (simp add: held_def refiled_def)
  note pre = D(1) U'
  have "hash_ok sh \<longrightarrow> rg_userCount (AddClient sh H (Some p) r) = user_total sh (user_put sh H p ?U)"
    using D(2) user_total_put [OF users_ok_nested [OF D(1)]] by (auto simp: add_fields)
  moreover have "counted_ok sh is_observer H (counted_put sh is_observer H p (s, rg_observerUserCount r)) (user_put sh H p ?U) \<and>
      oi_ok sh H (oi_put H p (rg_observerIdx r)) (user_put sh H p ?U)" if "rg_observerShards r = Some s" for s
    using observers.put_ok [OF pre _ old] observer_index.put_ok [OF pre _ old] D(7) [OF that] by simp
  moreover have "counted_ok sh is_agent H (counted_put sh is_agent H p (s, rg_agentUserCount r)) (user_put sh H p ?U)"
    if "rg_agentShards r = Some s" for s
    using agents.put_ok [OF pre _ old] D(8) [OF that] by simp
  ultimately show ?thesis
    unfolding rg_inv_def
    using U' reverse.put_ok [OF pre D(3) old] client_count.put_ok [OF pre D(4) old]
      sse_count.put_ok [OF pre D(5) old] sse.put_ok [OF pre D(6) old]
      group_index.put_ok [OF pre D(9) old] ns_index.put_ok [OF pre D(10) old] attr_index.put_ok [OF pre D(11) old]
      add_observer_fields [where sh = sh and H = H and p = p and r = r]
      add_agent_fields [where sh = sh and H = H and p = p and r = r]
    by (cases "rg_observerShards r"; cases "rg_agentShards r")
       (simp_all add: add_fields add_index_fields)
qed

lemma rg_inv_remove:
  assumes inv: "rg_inv sh H r"
  shows "rg_inv sh H (snd (RemoveClient sh H clientID userID r))"
proof (cases "map_of (sm_inner sh (rg_userShards r) userID) clientID")
  case None
  then show ?thesis using inv by (simp add: remove_absent)
next
  case (Some p)
  let ?U = "rg_userShards r"
  note D = rg_invD [OF inv]
  from users_ok_ident [OF D(1) Some] have id: "userID = cl_UserID (H p)" "clientID = cl_ID (H p)" by auto
  then have h: "held sh H p ?U = Some p" using Some by (simp add: held_def)
  have "sm_inner sh ?U (cl_UserID (H p)) \<noteq> []" using h by (auto simp: held_def)
  then have there: "map_of (?U (sh (cl_UserID (H p)))) (cl_UserID (H p)) \<noteq> None"
    using sm_inner_present [OF users_ok_nested [OF D(1)]] by simp
  note R = remove_fields [OF h] remove_index_fields [OF h]
  have "hash_ok sh \<longrightarrow> rg_userCount r -
      (if map_of (user_del sh H p ?U (sh (cl_UserID (H p)))) (cl_UserID (H p)) = None then 1 else 0) =
      user_total sh (user_del sh H p ?U)"
    using D(2) there user_total_del [OF users_ok_nested [OF D(1)], of H p] by auto
  moreover have "counted_ok sh is_observer H (counted_del sh is_observer H p (s, rg_observerUserCount r)) (user_del sh H p ?U) \<and>
      oi_ok sh H (oi_del H p (rg_observerIdx r)) (user_del sh H p ?U)" if "rg_observerShards r = Some s" for s
    using observers.leave_ok [OF D(1) _ h] observer_index.leave_ok [OF D(1) _ h] D(7) [OF that] by blast
  moreover have "counted_ok sh is_agent H (counted_del sh is_agent H p (s, rg_agentUserCount r)) (user_del sh H p ?U)"
    if "rg_agentShards r = Some s" for s
    using agents.leave_ok [OF D(1) _ h] D(8) [OF that] by blast
  ultimately show ?thesis
    unfolding rg_inv_def id
    using users_ok_del [OF D(1)] reverse.leave_ok [OF D(1) D(3) h] client_count.leave_ok [OF D(1) D(4) h]
      sse_count.leave_ok [OF D(1) D(5) h] sse.leave_ok [OF D(1) D(6) h]
      group_index.leave_ok [OF D(1) D(9) h] ns_index.leave_ok [OF D(1) D(10) h] attr_index.leave_ok [OF D(1) D(11) h]
      remove_observer_fields [OF h] remove_agent_fields [OF h]
    by (cases "rg_observerShards r"; cases "rg_agentShards r") (simp_all add: R)
qed

lemma rg_inv_new: "rg_inv sh H (NewShardedRegistry agentEnabled observerEnabled)"
proof -
  have "counted_ok sh P H (sm_new, 0) sm_new" if "by_filing P" for P
    using derived_view.start_ok [OF counted_view [OF that]] .
  then show ?thesis
    unfolding rg_inv_def NewShardedRegistry_def
    using reverse.start_ok client_count.start_ok sse_count.start_ok sse.start_ok observer_index.start_ok
      group_index.start_ok ns_index.start_ok attr_index.start_ok
    by (simp add: user_total_def)
qed

lemma rg_inv_mutate:
  assumes inv: "rg_inv sh H r"
    and same: "keeps_filing sh H H' (rg_userShards r)"
  shows "rg_inv sh H' r"
proof -
  note D = rg_invD [OF inv]
  have "counted_ok sh is_observer H' (s, rg_observerUserCount r) (rg_userShards r) \<and>
      oi_ok sh H' (rg_observerIdx r) (rg_userShards r)" if "rg_observerShards r = Some s" for s
    using counted_ok_heap [OF conjunct1 [OF D(7) [OF that]] by_filing_class(2) same]
      oi_ok_heap [OF conjunct2 [OF D(7) [OF that]] same] by blast
  moreover have "counted_ok sh is_agent H' (s, rg_agentUserCount r) (rg_userShards r)"
    if "rg_agentShards r = Some s" for s
    using counted_ok_heap [OF D(8) [OF that] by_filing_class(3) same] .
  ultimately show ?thesis
    unfolding rg_inv_def
    using D(2) users_ok_heap [OF D(1) same] reverse.heap_ok [OF D(1) D(3) same]
      client_count.heap_ok [OF D(1) D(4) same] sse_count.heap_ok [OF D(1) D(5) same] sse.heap_ok [OF D(1) D(6) same]
      group_index.heap_ok [OF D(1) D(9) same] ns_index.heap_ok [OF D(1) D(10) same] attr_index.heap_ok [OF D(1) D(11) same]
    by blast
qed

section \<open>Reading the store through the queries\<close>

lemma all_clients_iff:
  assumes "nested_ok sh (rg_userShards r)" and "hash_ok sh"
  shows "p \<in> set (GetAllClients r) \<longleftrightarrow> (\<exists>u c. map_of (sm_inner sh (rg_userShards r) u) c = Some p)"
proof -
  let ?U = "rg_userShards r"
  have rng: "(u, m) \<in> set (sm_range defaultShardCount ?U) \<longleftrightarrow> sm_inner sh ?U u = m \<and> m \<noteq> []" for u m
    using assms by (intro sm_range_inner) auto
  have ne: "m \<noteq> []" if "p \<in> set (gm_values m)" for m :: "(string, nat) gomap"
    using that by (auto simp: gm_values_def)
  have "p \<in> set (GetAllClients r) \<longleftrightarrow> (\<exists>u m. (u, m) \<in> set (sm_range defaultShardCount ?U) \<and> p \<in> set (gm_values m))"
    by (force simp: GetAllClients_def)
  also have "\<dots> \<longleftrightarrow> (\<exists>u. p \<in> set (gm_values (sm_inner sh ?U u)))"
    by (metis rng ne)
  also have "\<dots> \<longleftrightarrow> (\<exists>u c. map_of (sm_inner sh ?U u) c = Some p)"
    using gm_values_iff [OF sm_inner_wf [OF assms(1)]] by simp
  finally show ?thesis .
qed

lemma user_clients_iff:
  assumes U: "users_ok sh H (rg_userShards r)" and h: "hash_ok sh"
  shows "(\<exists>c. map_of (sm_inner sh (rg_userShards r) u) c = Some p) \<longleftrightarrow>
    p \<in> set (GetAllClients r) \<and> u = cl_UserID (H p)"
proof
  assume "\<exists>c. map_of (sm_inner sh (rg_userShards r) u) c = Some p"
  then obtain c where c: "map_of (sm_inner sh (rg_userShards r) u) c = Some p" by blast
  with users_ok_ident [OF U c] all_clients_iff [OF users_ok_nested [OF U] h, of p]
  show "p \<in> set (GetAllClients r) \<and> u = cl_UserID (H p)" by blast
next
  assume a: "p \<in> set (GetAllClients r) \<and> u = cl_UserID (H p)"
  then obtain u' c where c: "map_of (sm_inner sh (rg_userShards r) u') c = Some p"
    using all_clients_iff [OF users_ok_nested [OF U] h, of p] by blast
  with users_ok_ident [OF U c] a show "\<exists>c. map_of (sm_inner sh (rg_userShards r) u) c = Some p" by blast
qed

lemma gm_sum_values: "gm_sum (\<lambda>_ p. w p) m = sum_list (map w (gm_values m))"
  by (induction m) (auto simp: gm_values_def)

lemma gm_sum_concat:
  "gm_sum (\<lambda>_ m. gm_sum (\<lambda>_ p. w p) m) xs = sum_list (map w (concat (map (gm_values \<circ> snd) xs)))"
  by (induction xs) (auto simp: gm_sum_values gm_values_def)

lemma sum_list_if: "sum_list (map (\<lambda>x. if Q x then 1 else 0) xs) = int (length (filter Q xs))"
  by (induction xs) auto

lemma tally_clients: "tally w H (rg_userShards r) = sum_list (map (\<lambda>p. w (H p)) (GetAllClients r))"
  unfolding tally_def GetAllClients_def gm_sum_concat [symmetric] gm_sum_range ..

lemma user_total_keys:
  assumes "nested_ok sh s" and "hash_ok sh"
  shows "user_total sh s = int (length (sm_keys defaultShardCount s))"
proof -
  have "m \<noteq> []" if "(u, m) \<in> set (sm_range defaultShardCount s)" for u m
    using that sm_range_inner [OF assms(1), of defaultShardCount u m] assms(2) by simp
  then have "gm_sum (\<lambda>_ m. if m = [] then 0 else 1) (sm_range defaultShardCount s) =
      gm_sum (\<lambda>_ _. 1) (sm_range defaultShardCount s)"
    by (intro gm_sum_cong) auto
  then show ?thesis
    by (simp add: user_total_def gm_sum_range [symmetric] gm_sum_length sm_keys_def)
qed

lemma rg_system:
  assumes "hash_ok sh"
  shows "invariant_system rg_init (rg_step sh) (\<lambda>(H, r). rg_inv sh H r)"
proof
  show "case s of (H, r) \<Rightarrow> rg_inv sh H r" if "rg_init s" for s
    using that rg_inv_new by (cases s) (auto simp: rg_init_def)
  show "case t of (H, r) \<Rightarrow> rg_inv sh H r" if inv: "case s of (H, r) \<Rightarrow> rg_inv sh H r" and st: "rg_step sh s t" for s t
    using st
  proof cases
    case (add H p r)
    then show ?thesis using inv rg_inv_add by simp
  next
    case (add_nil H r)
    then show ?thesis using inv by (simp add: AddClient_def)
  next
    case (remove H r clientID userID)
    then show ?thesis using inv rg_inv_remove by simp
  next
    case (mutate r H' H)
    then have i: "rg_inv sh H r" using inv by simp
    have "keeps_filing sh H H' (rg_userShards r)"
      unfolding keeps_filing_def
      using mutate(3) all_clients_iff [OF users_ok_nested [OF rg_invD(1) [OF i]] assms] by blast
    then show ?thesis using rg_inv_mutate [OF i] mutate by simp
  qed
qed

lemmas rg_reach_inv = invariant_system.reach_inv [OF rg_system]

lemma reach_rg_inv: "hash_ok sh \<Longrightarrow> reach rg_init (rg_step sh) (H, r) \<Longrightarrow> rg_inv sh H r"
  using rg_reach_inv [of sh "(H, r)"] by simp

text \<open>Users of a counted class.\<close>

lemma filed_present: "(\<exists>q. filed P H v = Some q) \<longleftrightarrow> (\<exists>p. v = Some p \<and> P (H p))"
  by (cases v) (auto simp: filed_def)

lemma counted_users:
  assumes c: "counted_ok sh P H (s, n) (rg_userShards r)" and U: "users_ok sh H (rg_userShards r)" and h: "hash_ok sh"
  shows "n = int (card {cl_UserID (H p) |p. p \<in> set (GetAllClients r) \<and> P (H p)})"
proof -
  let ?U = "rg_userShards r"
  have ok: "class_ok sh P H s ?U" and n: "n = user_total sh s" using c h by (simp_all add: counted_ok_def)
  have "u \<in> set (sm_keys defaultShardCount s) \<longleftrightarrow> u \<in> {cl_UserID (H p) |p. p \<in> set (GetAllClients r) \<and> P (H p)}" for u
  proof -
    have "u \<in> set (sm_keys defaultShardCount s) \<longleftrightarrow> sm_inner sh s u \<noteq> []"
      using class_ok_nested [OF ok] h by (intro sm_keys_inner) auto
    also have "\<dots> \<longleftrightarrow> (\<exists>c. map_of (sm_inner sh s u) c \<noteq> None)"
      by (simp add: gm_empty_iff [of "sm_inner sh s u"])
    also have "\<dots> \<longleftrightarrow> (\<exists>c p. map_of (sm_inner sh ?U u) c = Some p \<and> P (H p))"
      using ok filed_present by (simp add: class_ok_def)
    also have "\<dots> \<longleftrightarrow> (\<exists>p. (\<exists>c. map_of (sm_inner sh ?U u) c = Some p) \<and> P (H p))" by blast
    also have "\<dots> \<longleftrightarrow> (\<exists>p. p \<in> set (GetAllClients r) \<and> P (H p) \<and> u = cl_UserID (H p))"
      unfolding user_clients_iff [OF U h] by blast
    finally show ?thesis by blast
  qed
  then have "set (sm_keys defaultShardCount s) = {cl_UserID (H p) |p. p \<in> set (GetAllClients r) \<and> P (H p)}" by blast
  moreover have "distinct (sm_keys defaultShardCount s)"
    using sm_range_distinct [OF nested_ok_wf [OF class_ok_nested [OF ok]]] .
  ultimately show ?thesis
    using n user_total_keys [OF class_ok_nested [OF ok] h] distinct_card by metis
qed

lemma option_eqI: "(\<And>q. x = Some q \<longleftrightarrow> y = Some q) \<Longrightarrow> x = y"
  by (cases x; cases y) auto

lemma get_client_add:
  assumes inv: "rg_inv sh H r" and add: "add_ok sh H p r"
  shows "GetClient sh c (AddClient sh H (Some p) r) = (if c = cl_ID (H p) then Some p else GetClient sh c r)"
proof (rule option_eqI)
  fix q
  have U': "users_ok sh H (user_put sh H p (rg_userShards r))"
    using rg_invD(1) [OF rg_inv_add [OF inv add]] by (simp add: add_fields)
  have "GetClient sh c (AddClient sh H (Some p) r) = Some q \<longleftrightarrow>
      (if c = cl_ID (H p) then q = p else GetClient sh c r = Some q)"
    unfolding get_client_iff [OF rg_inv_add [OF inv add]] get_client_iff [OF inv] add_fields put_holders [OF U'] ..
  then show "GetClient sh c (AddClient sh H (Some p) r) = Some q \<longleftrightarrow>
      (if c = cl_ID (H p) then Some p else GetClient sh c r) = Some q" by auto
qed

text \<open>The entry of one user, through \<open>GetClient\<close>.\<close>

lemma get_client_user:
  assumes inv: "rg_inv sh H r"
  shows "map_of (sm_inner sh (rg_userShards r) userID) clientID =
      (case GetClient sh clientID r of
         None \<Rightarrow> None | Some q \<Rightarrow> if cl_UserID (H q) = userID then Some q else None)"
proof (rule option_eqI)
  fix q
  let ?m = "map_of (sm_inner sh (rg_userShards r) userID) clientID"
  let ?g = "case GetClient sh clientID r of
         None \<Rightarrow> None | Some q \<Rightarrow> if cl_UserID (H q) = userID then Some q else None"
  note ident = users_ok_ident [OF rg_invD(1) [OF inv]]
  show "?m = Some q \<longleftrightarrow> ?g = Some q"
  proof
    assume a: "?m = Some q"
    then have "GetClient sh clientID r = Some q" using get_client_iff [OF inv] by blast
    with ident [OF a] show "?g = Some q" by simp
  next
    assume "?g = Some q"
    then have g: "GetClient sh clientID r = Some q" "cl_UserID (H q) = userID"
      by (auto split: option.splits if_splits)
    then obtain u where u: "map_of (sm_inner sh (rg_userShards r) u) clientID = Some q"
      using get_client_iff [OF inv] by blast
    with ident [OF u] g show "?m = Some q" by simp
  qed
qed

lemma get_client_remove:
  assumes inv: "rg_inv sh H r"
  shows "fst (RemoveClient sh H clientID userID r) = map_of (sm_inner sh (rg_userShards r) userID) clientID"
    and "GetClient sh c (snd (RemoveClient sh H clientID userID r)) =
      (if c = clientID \<and> map_of (sm_inner sh (rg_userShards r) userID) clientID \<noteq> None then None
       else GetClient sh c r)"
proof -
  let ?m = "map_of (sm_inner sh (rg_userShards r) userID) clientID"
  have "fst (RemoveClient sh H clientID userID r) = ?m \<and>
    GetClient sh c (snd (RemoveClient sh H clientID userID r)) =
      (if c = clientID \<and> ?m \<noteq> None then None else GetClient sh c r)"
  proof (cases ?m)
    case None
    then show ?thesis by (simp add: remove_absent)
  next
    case (Some q)
    from users_ok_ident [OF rg_invD(1) [OF inv] Some]
    have id: "userID = cl_UserID (H q)" "clientID = cl_ID (H q)" by auto
    with Some have h: "held sh H q (rg_userShards r) = Some q" by (simp add: held_def)
    have "GetClient sh c (snd (RemoveClient sh H clientID userID r)) = (if c = clientID then None else GetClient sh c r)"
    proof (rule option_eqI)
      fix p
      have "GetClient sh c (snd (RemoveClient sh H clientID userID r)) = Some p \<longleftrightarrow>
          c \<noteq> cl_ID (H q) \<and> GetClient sh c r = Some p"
        unfolding get_client_iff [OF rg_inv_remove [OF inv]] get_client_iff [OF inv] id remove_fields(2) [OF h]
          del_holders [OF rg_invD(1) [OF inv] h] ..
      then show "GetClient sh c (snd (RemoveClient sh H clientID userID r)) = Some p \<longleftrightarrow>
          (if c = clientID then None else GetClient sh c r) = Some p" by (simp add: id)
    qed
    with Some remove_fields(1) [OF h] id show ?thesis by simp
  qed
  then show "fst (RemoveClient sh H clientID userID r) = ?m"
    and "GetClient sh c (snd (RemoveClient sh H clientID userID r)) =
      (if c = clientID \<and> ?m \<noteq> None then None else GetClient sh c r)" by blast+
qed

section \<open>Lemmas on the index queries\<close>

definition colon_free :: "string \<Rightarrow> bool" where
  "colon_free a \<longleftrightarrow> CHR '':'' \<notin> set a"

lemma colon_key_eq:
  "colon_free a \<Longrightarrow> colon_free a' \<Longrightarrow> colon_key a b = colon_key a' b' \<longleftrightarrow> a = a' \<and> b = b'"
proof (induction a arbitrary: a')
  case Nil
  then show ?case by (cases a') (auto simp: colon_key_def colon_free_def)
next
  case (Cons x a)
  then show ?case by (cases a') (auto simp: colon_key_def colon_free_def)
qed

lemma index_listed:
  assumes ok: "index_ok sh keys H idx (rg_userShards r)" and U: "users_ok sh H (rg_userShards r)" and h: "hash_ok sh"
  shows "set (gm_keys (sm_inner sh idx k)) = {cl_UserID (H p) |p. p \<in> set (GetAllClients r) \<and> k \<in> set (keys (H p))}"
proof -
  have "u \<in> set (gm_keys (sm_inner sh idx k)) \<longleftrightarrow>
      (\<exists>p. (\<exists>c. map_of (sm_inner sh (rg_userShards r) u) c = Some p) \<and> k \<in> set (keys (H p)))" for u
  proof -
    let ?m = "sm_inner sh (rg_userShards r) u" and ?g = "\<lambda>_ p. int (count_list (keys (H p)) k)"
    have "refs_ok sh idx" and c: "sm_refs sh idx k u = gm_sum ?g ?m" using ok by (simp_all add: index_ok_def)
    then have "u \<in> set (gm_keys (sm_inner sh idx k)) \<longleftrightarrow> gm_sum ?g ?m \<noteq> 0"
      using sm_refs_listed [of sh idx u k] gm_sum_nonneg [of ?g ?m] by auto
    also have "\<dots> \<longleftrightarrow> (\<exists>c p. map_of ?m c = Some p \<and> k \<in> set (keys (H p)))"
      using gm_sum_zero_iff [of ?g ?m] sm_inner_wf [OF users_ok_nested [OF U], of u]
      by (simp add: count_list_0_iff)
    finally show ?thesis by blast
  qed
  then show ?thesis unfolding user_clients_iff [OF U h] by blast
qed

lemma set_add_members:
  "distinct ms \<Longrightarrow> distinct (fold (\<lambda>u ms. if u \<in> set ms then ms else ms @ [u]) us ms) \<and>
   set (fold (\<lambda>u ms. if u \<in> set ms then ms else ms @ [u]) us ms) = set ms \<union> set us"
  by (induction us arbitrary: ms) auto

lemma group_members_set:
  "distinct ms \<Longrightarrow>
   distinct (fold (\<lambda>gid ms. if gid = [] then ms
       else fold (\<lambda>u ms. if u \<in> set ms then ms else ms @ [u]) (f gid) ms) gids ms) \<and>
   set (fold (\<lambda>gid ms. if gid = [] then ms
       else fold (\<lambda>u ms. if u \<in> set ms then ms else ms @ [u]) (f gid) ms) gids ms) =
     set ms \<union> {u. \<exists>gid\<in>set gids. gid \<noteq> [] \<and> u \<in> set (f gid)}"
proof (induction gids arbitrary: ms)
  case Nil
  then show ?case by simp
next
  case (Cons gid gids)
  then show ?case using set_add_members [OF Cons.prems, of "f gid"] by auto
qed

lemma keys_of_index:
  "gm_keys (case map_of (idx (sh key)) key of None \<Rightarrow> [] | Some refs \<Rightarrow> refs) = gm_keys (sm_inner sh idx key)"
  by (simp add: sm_inner_def)

text \<open>With colon-free application ids a key names one application.\<close>

lemma app_key:
  assumes "colon_free (NormalizeAppID app)"
    and "list_all (\<lambda>p. colon_free (Client_GetAppID (H p))) (GetAllClients r)" and "p \<in> set (GetAllClients r)"
  shows "colon_key (NormalizeAppID app) b' = colon_key (Client_GetAppID (H p)) b \<longleftrightarrow>
    Client_GetAppID (H p) = NormalizeAppID app \<and> b' = b"
  using colon_key_eq [OF assms(1), of "Client_GetAppID (H p)"] assms(2,3) by (auto simp: list_all_iff)

lemma namespace_query:
  assumes inv: "rg_inv sh H r" and hash: "hash_ok sh" and app: "colon_free (NormalizeAppID app)"
    and apps: "list_all (\<lambda>p. colon_free (Client_GetAppID (H p))) (GetAllClients r)"
  shows "set (GetLocalNamespaceUsers sh app ns r) =
      {cl_UserID (H p) |p. p \<in> set (GetAllClients r) \<and> Client_GetAppID (H p) = NormalizeAppID app \<and>
         ns \<noteq> [] \<and> cl_Namespace (H p) = ns}"
proof -
  have "nsIdxKey (NormalizeAppID app) ns \<in> set (ns_keys (H p)) \<longleftrightarrow>
      Client_GetAppID (H p) = NormalizeAppID app \<and> cl_Namespace (H p) = ns" if "p \<in> set (GetAllClients r)" for p
    using app_key [OF app apps that, of ns "cl_Namespace (H p)"] by (auto simp: ns_keys_def nsIdxKey_def)
  then show ?thesis
    by (auto simp: GetLocalNamespaceUsers_def with_shard_rlock_def keys_of_index Let_def
        index_listed [OF rg_invD(10) [OF inv] rg_invD(1) [OF inv] hash])
qed

lemma group_query:
  assumes inv: "rg_inv sh H r" and hash: "hash_ok sh" and app: "colon_free (NormalizeAppID app)"
    and apps: "list_all (\<lambda>p. colon_free (Client_GetAppID (H p))) (GetAllClients r)"
  shows "set (GetLocalGroupMembers sh app gids r) =
      {cl_UserID (H p) |p. p \<in> set (GetAllClients r) \<and> Client_GetAppID (H p) = NormalizeAppID app \<and>
         (\<exists>gid\<in>set gids. gid \<noteq> [] \<and> gid \<in> set (Client_GetGroupIDs (H p)))} \<and>
    distinct (GetLocalGroupMembers sh app gids r)"
proof -
  let ?f = "\<lambda>gid. gm_keys (sm_inner sh (rg_groupMemberIdx r) (groupMemberKey (NormalizeAppID app) gid))"
  have k: "groupMemberKey (NormalizeAppID app) gid \<in> set (group_keys (H p)) \<longleftrightarrow>
      Client_GetAppID (H p) = NormalizeAppID app \<and> gid \<in> set (Client_GetGroupIDs (H p))"
    if "p \<in> set (GetAllClients r)" for p gid
    using app_key [OF app apps that, of gid] by (auto simp: group_keys_def groupMemberKey_def image_iff)
  have "set (?f gid) = {cl_UserID (H p) |p. p \<in> set (GetAllClients r) \<and>
      Client_GetAppID (H p) = NormalizeAppID app \<and> gid \<in> set (Client_GetGroupIDs (H p))}" for gid
    using k [of _ gid] by (auto simp: index_listed [OF rg_invD(9) [OF inv] rg_invD(1) [OF inv] hash])
  moreover have "GetLocalGroupMembers sh app gids r =
      fold (\<lambda>gid ms. if gid = [] then ms
        else fold (\<lambda>u ms. if u \<in> set ms then ms else ms @ [u]) (?f gid) ms) gids []"
    unfolding GetLocalGroupMembers_def with_shard_rlock_def Let_def keys_of_index ..
  ultimately show ?thesis using group_members_set [of "[]" ?f gids] by auto
qed

lemma attr_query:
  assumes inv: "rg_inv sh H r" and hash: "hash_ok sh" and app: "colon_free (NormalizeAppID app)"
    and apps: "list_all (\<lambda>p. colon_free (Client_GetAppID (H p))) (GetAllClients r)"
    and dim: "dim \<in> set [attrDimUserType, attrDimRole, attrDimClientType, attrDimDepartment]"
  shows "set (fst (getLocalAttrUsers sh app dim value r)) =
      {cl_UserID (H p) |p. p \<in> set (GetAllClients r) \<and> Client_GetAppID (H p) = NormalizeAppID app \<and>
         value \<noteq> [] \<and> (dim, value) \<in> set (clientAttrs (H p))}"
proof -
  have free: "colon_free d" if "d \<in> set [attrDimUserType, attrDimRole, attrDimClientType, attrDimDepartment]" for d
    using that by (auto simp: colon_free_def attrDimUserType_def attrDimRole_def attrDimClientType_def attrDimDepartment_def)
  have dims: "colon_key dim value = colon_key d v \<longleftrightarrow> dim = d \<and> value = v"
    if "(d, v) \<in> set (clientAttrs c)" for d v c
    by (rule colon_key_eq) (use free [of dim] free [of d] dim that in \<open>auto simp: clientAttrs_def\<close>)
  have "attrIdxKey (NormalizeAppID app) dim value \<in> set (attr_keys (H p)) \<longleftrightarrow>
      Client_GetAppID (H p) = NormalizeAppID app \<and> value \<noteq> [] \<and> (dim, value) \<in> set (clientAttrs (H p))"
    if "p \<in> set (GetAllClients r)" for p
  proof -
    have "attrIdxKey (NormalizeAppID app) dim value \<in> set (attr_keys (H p)) \<longleftrightarrow>
        (\<exists>d v. (d, v) \<in> set (clientAttrs (H p)) \<and> v \<noteq> [] \<and>
           Client_GetAppID (H p) = NormalizeAppID app \<and> colon_key dim value = colon_key d v)"
      unfolding attr_keys_def attrIdxKey_def app_key [OF app apps that, symmetric] by auto
    then show ?thesis using dims [of _ _ "H p"] by blast
  qed
  then show ?thesis
    by (auto simp: getLocalAttrUsers_def with_shard_rlock_def keys_of_index Let_def
        index_listed [OF rg_invD(11) [OF inv] rg_invD(1) [OF inv] hash])
qed

section \<open>Lemmas on the observer and envelope queries\<close>

text \<open>The result and the ids seen so far agree, and ids determine clients.\<close>

definition collect_inv :: "heap \<Rightarrow> nat set \<Rightarrow> nat list \<times> string list \<Rightarrow> bool" where
  "collect_inv H S acc \<longleftrightarrow> inj_on (\<lambda>p. cl_ID (H p)) S \<and> set (fst acc) \<subseteq> S \<and>
     set (snd acc) = (\<lambda>p. cl_ID (H p)) ` set (fst acc) \<and> distinct (fst acc)"

lemma collect_step:
  assumes inv: "collect_inv H S (res, seen)" and p: "p \<in> S"
  shows "cl_ID (H p) \<in> set seen \<longleftrightarrow> p \<in> set res"
  using assms by (auto simp: collect_inv_def inj_on_def image_iff)

lemma collect_open_spec:
  assumes "collect_inv H S acc" and "set (gm_values m) \<subseteq> S"
  shows "collect_inv H S (collect_open H m acc) \<and>
    set (fst (collect_open H m acc)) = set (fst acc) \<union> {p \<in> set (gm_values m). \<not> cl_closed (H p)}"
proof -
  let ?f = "\<lambda>p (result, seen). if \<not> cl_closed (H p) \<and> cl_ID (H p) \<notin> set seen
      then (result @ [p], cl_ID (H p) # seen) else (result, seen)"
  have "collect_inv H S (fold ?f ps acc) \<and>
      set (fst (fold ?f ps acc)) = set (fst acc) \<union> {p \<in> set ps. \<not> cl_closed (H p)}"
    if "collect_inv H S acc" "set ps \<subseteq> S" for ps acc
    using that
  proof (induction ps arbitrary: acc)
    case Nil
    then show ?case by simp
  next
    case (Cons p ps)
    obtain res seen where acc: "acc = (res, seen)" by (cases acc)
    have mem: "cl_ID (H p) \<in> set seen \<longleftrightarrow> p \<in> set res"
      using collect_step Cons.prems acc by simp
    then have "collect_inv H S (?f p acc)"
      using Cons.prems by (auto simp: acc collect_inv_def)
    with Cons.IH [of "?f p acc"] Cons.prems mem show ?case by (auto simp: acc)
  qed
  with assms show ?thesis by (simp add: collect_open_def)
qed

text \<open>The clients of one scope.\<close>

definition scope_values :: "observerIndex \<Rightarrow> obs_scope \<Rightarrow> nat set" where
  "scope_values oi sc = {p. \<exists>c. oi_get oi sc c = Some p}"

lemma nest_values:
  "nest_wf data \<Longrightarrow> (case map_of data k of None \<Rightarrow> {} | Some m \<Rightarrow> set (gm_values m)) = {p. \<exists>c. nest_get data k c = Some p}"
proof (cases "map_of data k")
  case None
  then show ?thesis by (simp add: nest_get_def)
next
  case (Some m)
  assume "nest_wf data"
  from nest_wf_inner [OF this Some] Some show ?thesis by (auto simp: nest_get_def gm_values_iff)
qed

lemma collect_nest:
  assumes "collect_inv H S acc" and "nest_wf data" and "{p. \<exists>c. nest_get data k c = Some p} \<subseteq> S"
  defines "acc' \<equiv> (case map_of data k of None \<Rightarrow> acc | Some m \<Rightarrow> collect_open H m acc)"
  shows "collect_inv H S acc' \<and>
    set (fst acc') = set (fst acc) \<union> {p. (\<exists>c. nest_get data k c = Some p) \<and> \<not> cl_closed (H p)}"
proof (cases "map_of data k")
  case None
  with assms(1) show ?thesis by (simp add: acc'_def nest_get_def)
next
  case (Some m)
  with nest_values [OF assms(2), of k] have "set (gm_values m) = {p. \<exists>c. nest_get data k c = Some p}" by simp
  with Some collect_open_spec [OF assms(1), of m] assms(3) show ?thesis by (auto simp: acc'_def)
qed

definition msg_scopes :: "string \<Rightarrow> string list \<Rightarrow> obs_scope set" where
  "msg_scopes ns gids =
     {ScopeAll, ScopeNamespace ns} \<union> {ScopeGroup (groupIndexKey ns gid) |gid. gid \<in> set gids \<and> gid \<noteq> []}"

lemma collect_groups:
  fixes ns :: string
  assumes acc: "collect_inv H S acc" and wf: "nest_wf (oi_byGroup oi)"
    and sub: "\<And>sc. scope_values oi sc \<subseteq> S"
  defines "f \<equiv> \<lambda>gid acc. if gid = [] then acc
      else case map_of (oi_byGroup oi) (groupIndexKey ns gid) of None \<Rightarrow> acc | Some grp \<Rightarrow> collect_open H grp acc"
  shows "collect_inv H S (fold f gids acc) \<and> set (fst (fold f gids acc)) = set (fst acc) \<union>
      {p. (\<exists>gid\<in>set gids. gid \<noteq> [] \<and> p \<in> scope_values oi (ScopeGroup (groupIndexKey ns gid))) \<and> \<not> cl_closed (H p)}"
  using acc
proof (induction gids arbitrary: acc)
  case Nil
  then show ?case by simp
next
  case (Cons gid gids)
  have "{p. \<exists>c. nest_get (oi_byGroup oi) (groupIndexKey ns gid) c = Some p} \<subseteq> S"
    using sub [of "ScopeGroup (groupIndexKey ns gid)"] by (simp add: scope_values_def)
  from collect_nest [OF Cons.prems wf this] Cons.prems
  have "collect_inv H S (f gid acc) \<and> set (fst (f gid acc)) = set (fst acc) \<union>
      {p. gid \<noteq> [] \<and> p \<in> scope_values oi (ScopeGroup (groupIndexKey ns gid)) \<and> \<not> cl_closed (H p)}"
    by (simp add: f_def scope_values_def)
  with Cons.IH [of "f gid acc"] show ?case by auto
qed

lemma get_for_message_spec:
  assumes wf: "oi_wf oi" and inj: "inj_on (\<lambda>p. cl_ID (H p)) (\<Union>sc. scope_values oi sc)"
  shows "distinct (getForMessage H ns gids oi) \<and>
    set (getForMessage H ns gids oi) = {p. (\<exists>sc\<in>msg_scopes ns gids. p \<in> scope_values oi sc) \<and> \<not> cl_closed (H p)}"
proof -
  let ?S = "\<Union>sc. scope_values oi sc"
  define a1 where "a1 = collect_open H (oi_global oi) ([], [])"
  define a2 where "a2 = (case map_of (oi_byNamespace oi) ns of None \<Rightarrow> a1 | Some m \<Rightarrow> collect_open H m a1)"
  let ?f = "\<lambda>gid acc. if gid = [] then acc
      else case map_of (oi_byGroup oi) (groupIndexKey ns gid) of None \<Rightarrow> acc | Some grp \<Rightarrow> collect_open H grp acc"
  have sub: "scope_values oi sc \<subseteq> ?S" for sc by blast
  have g: "set (gm_values (oi_global oi)) = scope_values oi ScopeAll"
    using wf gm_values_iff [of "oi_global oi"] by (auto simp: oi_wf_def scope_values_def)
  have ci: "collect_inv H ?S ([], [])" using inj by (simp add: collect_inv_def)
  have 1: "collect_inv H ?S a1" "set (fst a1) = {p \<in> scope_values oi ScopeAll. \<not> cl_closed (H p)}"
    using collect_open_spec [OF ci, of "oi_global oi"] g sub [of ScopeAll] by (simp_all add: a1_def)
  have 2: "collect_inv H ?S a2" "set (fst a2) = set (fst a1) \<union> {p \<in> scope_values oi (ScopeNamespace ns). \<not> cl_closed (H p)}"
    using collect_nest [OF 1(1), of "oi_byNamespace oi" ns] wf sub [of "ScopeNamespace ns"]
    unfolding a2_def by (simp_all add: oi_wf_def scope_values_def)
  have 3: "collect_inv H ?S (fold ?f gids a2)"
    "set (fst (fold ?f gids a2)) = set (fst a2) \<union>
      {p. (\<exists>gid\<in>set gids. gid \<noteq> [] \<and> p \<in> scope_values oi (ScopeGroup (groupIndexKey ns gid))) \<and> \<not> cl_closed (H p)}"
    using collect_groups [OF 2(1) _ sub, of ns gids] wf by (simp_all add: oi_wf_def)
  have "getForMessage H ns gids oi = fst (fold ?f gids a2)"
    unfolding getForMessage_def Let_def a2_def a1_def ..
  moreover have "{p. (\<exists>sc\<in>msg_scopes ns gids. p \<in> scope_values oi sc) \<and> \<not> cl_closed (H p)} = set (fst (fold ?f gids a2))"
    unfolding 3(2) 2(2) 1(2) by (auto simp: msg_scopes_def)
  ultimately show ?thesis using 3(1) by (simp add: collect_inv_def)
qed

text \<open>What an observer watches.\<close>

definition observes :: "Client \<Rightarrow> string \<Rightarrow> string list \<Rightarrow> bool" where
  "observes c ns gids \<longleftrightarrow> cl_Namespace c = [] \<or>
     (cl_Namespace c = ns \<and> (cl_GroupID c = [] \<or> cl_GroupID c \<in> set gids))"

lemma scope_observes:
  assumes "colon_free ns" and "colon_free (cl_Namespace c)"
  shows "scope_of c \<in> msg_scopes ns gids \<longleftrightarrow> observes c ns gids"
  using colon_key_eq [OF assms(2,1)] by (auto simp: msg_scopes_def scope_of_def observes_def groupIndexKey_def)

lemma scope_values_iff:
  assumes inv: "rg_inv sh H r" and en: "ObserverEnabled r" and h: "hash_ok sh"
  shows "p \<in> scope_values (rg_observerIdx r) sc \<longleftrightarrow>
    p \<in> set (GetAllClients r) \<and> is_observer (H p) \<and> scope_of (H p) = sc"
proof -
  from en obtain s where "rg_observerShards r = Some s" by (auto simp: ObserverEnabled_def)
  then have ok: "oi_ok sh H (rg_observerIdx r) (rg_userShards r)" using rg_invD(7) [OF inv] by blast
  show ?thesis
    unfolding scope_values_def mem_Collect_eq oi_okD [OF ok]
      all_clients_iff [OF users_ok_nested [OF rg_invD(1) [OF inv]] h] by blast
qed

lemma all_clients_inj:
  assumes inv: "rg_inv sh H r" and h: "hash_ok sh"
  shows "inj_on (\<lambda>p. cl_ID (H p)) (set (GetAllClients r))"
proof (rule inj_onI)
  fix p q
  assume pq: "p \<in> set (GetAllClients r)" "q \<in> set (GetAllClients r)" "cl_ID (H p) = cl_ID (H q)"
  note U = rg_invD(1) [OF inv]
  obtain u c where p: "map_of (sm_inner sh (rg_userShards r) u) c = Some p"
    using pq(1) all_clients_iff [OF users_ok_nested [OF U] h] by blast
  obtain u' c' where q: "map_of (sm_inner sh (rg_userShards r) u') c' = Some q"
    using pq(2) all_clients_iff [OF users_ok_nested [OF U] h] by blast
  from users_ok_ident [OF U p] users_ok_ident [OF U q] pq(3) have "c' = c" by simp
  with users_ok_sole [OF U p, of u' q] q show "p = q" by simp
qed

text \<open>A callback that collects visits exactly the elements that pass the filter.\<close>

lemma range_while_collect:
  "range_while (\<lambda>(cid, p) acc. if \<not> Q p then (True, acc) else (True, acc @ [p])) m acc =
     (True, acc @ filter Q (gm_values m))"
  by (induction m arbitrary: acc) (auto simp: gm_values_def)

lemma shard_user_eq:
  "nested_ok sh s \<Longrightarrow> shard_user sh u s = (if sm_inner sh s u = [] then None else Some (sm_inner sh s u))"
  using sm_inner_lookup [of sh s u] by (simp add: shard_user_def sm_lookup_def)

lemma user_values:
  assumes U: "users_ok sh H (rg_userShards r)" and h: "hash_ok sh"
  shows "set (gm_values (sm_inner sh (rg_userShards r) u)) = {p \<in> set (GetAllClients r). cl_UserID (H p) = u}"
  using gm_values_iff [OF sm_inner_wf [OF users_ok_nested [OF U]]] user_clients_iff [OF U h] by auto

section \<open>A concrete registry\<close>

text \<open>One shard, a customer and an observer of the namespace of the customer.\<close>

definition demo_sh :: "string \<Rightarrow> nat" where
  "demo_sh k = 0"

definition demo_heap :: heap where
  "demo_heap p =
     (if p = 0 then NewClient 1 ''c1'' ''u1'' UserTypeCustomer
      else (NewClient 1 ''c2'' ''u2'' UserTypeObserver)\<lparr>cl_ConnectionType := ConnectionTypeSSE\<rparr>)"

definition demo_r1 :: ShardedRegistry where
  "demo_r1 = AddClient demo_sh demo_heap (Some 0) (NewShardedRegistry True True)"

definition demo_r2 :: ShardedRegistry where
  "demo_r2 = AddClient demo_sh demo_heap (Some 1) demo_r1"

lemma demo_hash: "hash_ok demo_sh"
  by (simp add: demo_sh_def defaultShardCount_def)

lemma demo_ids:
  "cl_ID (demo_heap 0) = ''c1''" "cl_UserID (demo_heap 0) = ''u1''"
  "cl_ID (demo_heap (Suc 0)) = ''c2''" "cl_UserID (demo_heap (Suc 0)) = ''u2''"
  by (simp_all add: demo_heap_def NewClient_def)

lemma demo_rev0: "rg_clientIDToUserID (NewShardedRegistry a b) = []"
  by (simp add: NewShardedRegistry_def)

lemma demo_add0: "add_ok demo_sh demo_heap 0 (NewShardedRegistry True True)"
  by (simp add: add_ok_def GetClient_def demo_rev0)

lemma demo_add1: "add_ok demo_sh demo_heap 1 demo_r1"
  by (simp add: add_ok_def GetClient_def demo_r1_def add_fields rev_put_def demo_rev0 demo_ids)

lemma demo_reach1: "reach rg_init (rg_step demo_sh) (demo_heap, demo_r1)"
proof -
  have "reach rg_init (rg_step demo_sh) (demo_heap, NewShardedRegistry True True)"
    by (rule reach_init) (auto simp: rg_init_def)
  then show ?thesis unfolding demo_r1_def by (rule reach_step) (rule rg_step.add [OF demo_add0])
qed

lemma demo_reach2: "reach rg_init (rg_step demo_sh) (demo_heap, demo_r2)"
  unfolding demo_r2_def using demo_reach1 by (rule reach_step) (rule rg_step.add [OF demo_add1])

lemma demo_shards: "rg_userShards demo_r2 = (\<lambda>i. if i = 0 then [(''u1'', [(''c1'', 0)]), (''u2'', [(''c2'', 1)])] else [])"
  by (rule ext)
     (simp add: demo_r2_def demo_r1_def add_fields user_put_def demo_ids demo_sh_def with_shard_lock_def
        NewShardedRegistry_def sm_new_def nest_put_def)

lemma demo_all: "GetAllClients demo_r2 = [0, 1]"
proof -
  have "[0..<defaultShardCount] = 0 # [1..<defaultShardCount]"
    by (simp add: defaultShardCount_def upt_conv_Cons)
  then have "sm_range defaultShardCount (rg_userShards demo_r2) = [(''u1'', [(''c1'', 0)]), (''u2'', [(''c2'', 1)])]"
    by (simp add: sm_range_def demo_shards)
  then show ?thesis by (simp add: GetAllClients_def gm_values_def)
qed

lemma demo_apps: "list_all (\<lambda>p. colon_free (Client_GetAppID (demo_heap p))) (GetAllClients demo_r2)"
  by (simp add: demo_all demo_heap_def NewClient_def colon_free_def Client_GetAppID_def NormalizeAppID_def DefaultAppID_def)

lemma demo_namespaces: "list_all (\<lambda>p. colon_free (cl_Namespace (demo_heap p))) (GetAllClients demo_r2)"
  by (simp add: demo_all demo_heap_def NewClient_def colon_free_def DefaultNamespace_def)

section \<open>Properties\<close>







text \<open>A message is shown to exactly the observers whose scope covers it.  If namespaces
  contain no colon, the observers returned for a message are, each once, the open registered
  observers that watch everything, that watch the namespace of the message, or that watch one
  of the groups of the message in that namespace; nobody if observation is disabled.\<close>

theorem observers_exact:
  assumes hash: "hash_ok sh" and r: "reach rg_init (rg_step sh) (H, r)"
    and ns: "colon_free ns" "list_all (\<lambda>p. colon_free (cl_Namespace (H p))) (GetAllClients r)"
  shows "distinct (GetObserversForMessage H ns gids r) \<and>
    set (GetObserversForMessage H ns gids r) =
      {p. ObserverEnabled r \<and> p \<in> set (GetAllClients r) \<and> is_observer (H p) \<and> \<not> cl_closed (H p) \<and>
          observes (H p) ns gids}"
proof (cases "ObserverEnabled r")
  case False
  then show ?thesis by (simp add: GetObserversForMessage_def ObserverEnabled_def)
next
  case True
  have inv: "rg_inv sh H r" using reach_rg_inv [OF hash r] .
  note V = scope_values_iff [OF inv True hash]
  obtain s where "rg_observerShards r = Some s" using True by (auto simp: ObserverEnabled_def)
  then have wf: "oi_wf (rg_observerIdx r)" using rg_invD(7) [OF inv] by (simp add: oi_ok_def)
  have inj: "inj_on (\<lambda>p. cl_ID (H p)) (\<Union>sc. scope_values (rg_observerIdx r) sc)"
    by (rule inj_on_subset [OF all_clients_inj [OF inv hash]]) (auto simp: V)
  have "scope_of (H p) \<in> msg_scopes ns gids \<longleftrightarrow> observes (H p) ns gids" if "p \<in> set (GetAllClients r)" for p
    using scope_observes [OF ns(1)] ns(2) that by (simp add: list_all_iff)
  with get_for_message_spec [OF wf inj, of ns gids] True show ?thesis
    by (auto simp: GetObserversForMessage_def ObserverEnabled_def V)
qed

theorem observers_exact_witness:
  "set (GetObserversForMessage demo_heap DefaultNamespace [] demo_r2) = {1}"
proof -
  have ns: "colon_free DefaultNamespace" by (simp add: colon_free_def DefaultNamespace_def)
  have en: "ObserverEnabled demo_r2"
  proof (rule ccontr)
    assume "\<not> ObserverEnabled demo_r2"
    then show False
      by (simp add: ObserverEnabled_def demo_r2_def demo_r1_def add_observer_fields(2) NewShardedRegistry_def)
  qed
  from observers_exact [OF demo_hash demo_reach2 ns demo_namespaces, of "[]"]
  have "set (GetObserversForMessage demo_heap DefaultNamespace [] demo_r2) =
      {p \<in> {0, 1}. is_observer (demo_heap p) \<and> \<not> cl_closed (demo_heap p) \<and> observes (demo_heap p) DefaultNamespace []}"
    using en by (auto simp: demo_all)
  also have "\<dots> = {1}"
    by (auto simp: demo_heap_def NewClient_def is_observer_def observes_def)
  finally show ?thesis .
qed

text \<open>Deliveries stay inside their envelope.  A user counts as online for an application
  and namespace exactly when one of its registered clients belongs to that application and
  to that namespace (any namespace if none is given); the filtered loop over a user's clients
  visits exactly the matching clients of that user; the exact test does not widen the empty
  namespace.  Without an application id nothing is filtered.\<close>

theorem envelope_isolation:
  assumes hash: "hash_ok sh" and r: "reach rg_init (rg_step sh) (H, r)"
  shows "HasUser sh H u app ns r = (\<exists>p\<in>set (GetAllClients r). cl_UserID (H p) = u \<and>
      (app = [] \<or> cl_AppID (H p) = app \<and> (ns = [] \<or> cl_Namespace (H p) = ns))) \<and>
    HasUserExactEnvelope sh H u app ns r = (\<exists>p\<in>set (GetAllClients r). cl_UserID (H p) = u \<and>
      (app = [] \<or> cl_AppID (H p) = app \<and> cl_Namespace (H p) = ns)) \<and>
    (app \<noteq> [] \<longrightarrow>
      set (ForEachUserClientFiltered sh H u app ns (\<lambda>cid p acc. (True, acc @ [p])) r []) =
        {p \<in> set (GetAllClients r). cl_UserID (H p) = u \<and> cl_AppID (H p) = app \<and> (ns = [] \<or> cl_Namespace (H p) = ns)})"
proof -
  have U: "users_ok sh H (rg_userShards r)" using rg_invD(1) [OF reach_rg_inv [OF hash r]] .
  let ?m = "sm_inner sh (rg_userShards r) u"
  have vals: "set (gm_values ?m) = {p \<in> set (GetAllClients r). cl_UserID (H p) = u}" by (rule user_values [OF U hash])
  have su: "shard_user sh u (rg_userShards r) = (if ?m = [] then None else Some ?m)"
    by (rule shard_user_eq [OF users_ok_nested [OF U]])
  have ne: "?m \<noteq> [] \<longleftrightarrow> (\<exists>p\<in>set (GetAllClients r). cl_UserID (H p) = u)"
    using vals by (cases ?m) (auto simp: gm_values_def)
  have "HasUser sh H u app ns r = (\<exists>p\<in>set (GetAllClients r). cl_UserID (H p) = u \<and>
      (app = [] \<or> cl_AppID (H p) = app \<and> (ns = [] \<or> cl_Namespace (H p) = ns)))"
    using vals ne by (auto simp: HasUser_def hasUserAnyScope_def su list_ex_iff ClientMatchesEnvelope_def)
  moreover have "HasUserExactEnvelope sh H u app ns r = (\<exists>p\<in>set (GetAllClients r). cl_UserID (H p) = u \<and>
      (app = [] \<or> cl_AppID (H p) = app \<and> cl_Namespace (H p) = ns))"
    using vals ne by (auto simp: HasUserExactEnvelope_def hasUserAnyScope_def su list_ex_iff)
  moreover have "set (ForEachUserClientFiltered sh H u app ns (\<lambda>cid p acc. (True, acc @ [p])) r []) =
        {p \<in> set (GetAllClients r). cl_UserID (H p) = u \<and> cl_AppID (H p) = app \<and> (ns = [] \<or> cl_Namespace (H p) = ns)}"
    if "app \<noteq> []"
    using that vals
    by (auto simp: ForEachUserClientFiltered_def ForEachUserClient_def su range_while_collect ClientMatchesEnvelope_def gm_values_def)
  ultimately show ?thesis by blast
qed

theorem envelope_isolation_witness:
  "HasUser demo_sh demo_heap ''u1'' DefaultAppID [] demo_r2 \<and>
   \<not> HasUserExactEnvelope demo_sh demo_heap ''u1'' DefaultAppID [] demo_r2"
  using envelope_isolation [OF demo_hash demo_reach2, of "''u1''" DefaultAppID "[]"]
  by (simp add: demo_all demo_heap_def NewClient_def DefaultAppID_def DefaultNamespace_def)

text \<open>\<open>Clear\<close> empties the store, the indexes and three of the five counters, but the
  observer and agent user counts keep their old values.\<close>

theorem clear_keeps_class_counts:
  "GetObserverUserCount (Clear r) = GetObserverUserCount r \<and>
   GetAgentUserCount (Clear r) = GetAgentUserCount r \<and>
   GetObserverDeviceCount (Clear r) = 0 \<and>
   GetAllClients (Clear r) = [] \<and> GetClientCount (Clear r) = 0 \<and> GetUserCount (Clear r) = 0 \<and>
   GetSSEClientCount (Clear r) = 0 \<and> GetObserversForMessage H ns gids (Clear r) = []"
proof -
  have empty: "sm_range n sm_new = []" for n by (simp add: sm_range_def sm_new_def)
  have oi: "getForMessage H ns gids newObserverIndex = []"
  proof -
    have f: "fold (\<lambda>gid acc. if gid = [] then acc
        else case map_of (oi_byGroup newObserverIndex) (groupIndexKey ns gid) of
               None \<Rightarrow> acc | Some grp \<Rightarrow> collect_open H grp acc) gids acc = acc" for acc
      by (induction gids) (auto simp: newObserverIndex_def)
    show ?thesis
      unfolding getForMessage_def Let_def f by (simp add: newObserverIndex_def collect_open_def gm_values_def)
  qed
  show ?thesis
    by (cases "rg_observerShards r"; cases "rg_agentShards r")
       (simp_all add: Clear_def Let_def GetObserverUserCount_def GetAgentUserCount_def GetObserverDeviceCount_def
          GetAllClients_def GetClientCount_def GetUserCount_def GetSSEClientCount_def GetObserversForMessage_def empty oi)
qed

text \<open>The rule for reconnects is needed.  When a registered client that is not an SSE
  client is replaced, under the same user and id, by an SSE client, the SSE count is not
  raised, but removing that client lowers it: the count ends one below the truth.\<close>

theorem reconnect_type_change_drifts:
  assumes "held sh H p (rg_userShards r) = Some q" and "\<not> is_sse (H q)" and "is_sse (H p)"
  shows "GetSSEClientCount (AddClient sh H (Some p) r) = GetSSEClientCount r \<and>
    GetSSEClientCount (snd (RemoveClient sh H (cl_ID (H p)) (cl_UserID (H p)) (AddClient sh H (Some p) r))) =
      GetSSEClientCount r - 1"
proof -
  have h: "held sh H p (rg_userShards (AddClient sh H (Some p) r)) = Some p"
    by (simp add: add_fields held_def gomap_simps)
  have "rg_sseCount (AddClient sh H (Some p) r) = rg_sseCount r" using assms by (simp add: add_fields)
  then show ?thesis
    using remove_fields(6) [OF h] assms(3) by (simp add: GetSSEClientCount_def sse_one_def)
qed

definition demo_swap :: heap where
  "demo_swap p = (if p = 1 then (demo_heap 0)\<lparr>cl_ConnectionType := ConnectionTypeSSE\<rparr> else demo_heap p)"

theorem reconnect_type_change_drifts_witness:
  "GetSSEClientCount (snd (RemoveClient demo_sh demo_swap ''c1'' ''u1''
     (AddClient demo_sh demo_swap (Some 1)
       (AddClient demo_sh demo_swap (Some 0) (NewShardedRegistry False False))))) = - 1"
proof -
  let ?r = "AddClient demo_sh demo_swap (Some 0) (NewShardedRegistry False False)"
  have id: "cl_ID (demo_swap p) = cl_ID (demo_heap 0)" "cl_UserID (demo_swap p) = cl_UserID (demo_heap 0)"
    if "p < 2" for p
    using that by (auto simp: demo_swap_def less_2_cases_iff)
  have "held demo_sh demo_swap 1 (rg_userShards ?r) = Some 0"
    using id [of 0] id [of 1] by (simp add: held_def add_fields gomap_simps)
  moreover have "\<not> is_sse (demo_swap 0)" "is_sse (demo_swap 1)"
    by (simp_all add: is_sse_def demo_swap_def demo_heap_def NewClient_def)
  moreover have "GetSSEClientCount ?r = 0"
    using calculation(2) by (simp add: GetSSEClientCount_def add_fields sse_one_def NewShardedRegistry_def)
  ultimately show ?thesis
    using reconnect_type_change_drifts [of demo_sh demo_swap 1 ?r 0] id [of 1] demo_ids by simp
qed

end
