(* ===== verification/Replay_Gate.thy ===== *)
theory Replay_Gate
  imports Prelude
begin

text \<open>
  The gate that holds back live deliveries while the offline messages of a user are replayed:
  messaging/replay_gate.go.

  \<^item> \<open>replayGate\<close> is the struct; a held delivery is a value of type \<open>'d\<close> instead of a closure, and
    running it appends it to a log.
  \<^item> \<open>gate_begin\<close>, \<open>gate_hold\<close>, \<open>gate_holding\<close> and \<open>gate_end\<close> are the undisturbed operations.
  \<^item> \<open>gate_step\<close> interleaves them at the granularity of the source: \<open>hold\<close> reads the counter, then
    the map under the read lock, then takes the write lock; \<open>end\<close> takes the queue out under the
    lock and runs it afterwards without the lock.
  \<^item> \<open>ReplayManager\<close> is the part of the messaging manager that guards against two replays of one
    user.
\<close>

section \<open>The gate\<close>

definition maxReplayHoldout :: nat where
  "maxReplayHoldout = 1024"

record 'd replayGate =
  gt_pending :: "(string, 'd list) gomap"
  gt_live :: int

definition NewReplayGate :: "'d replayGate" where
  "NewReplayGate = \<lparr>gt_pending = [], gt_live = 0\<rparr>"

definition gate_begin :: "string \<Rightarrow> 'd replayGate \<Rightarrow> 'd replayGate" where
  "gate_begin userID g =
     (case map_of (gt_pending g) userID of
        None \<Rightarrow> g\<lparr>gt_pending := AList.update userID [] (gt_pending g), gt_live := gt_live g + 1\<rparr>
      | Some _ \<Rightarrow> g)"

text \<open>The locked part of \<open>hold\<close>: is the delivery held?\<close>

definition hold_locked :: "string \<Rightarrow> 'd \<Rightarrow> 'd replayGate \<Rightarrow> bool \<times> 'd replayGate" where
  "hold_locked userID deliver g =
     (case map_of (gt_pending g) userID of
        None \<Rightarrow> (False, g)
      | Some queue \<Rightarrow>
          if length queue < maxReplayHoldout
          then (True, g\<lparr>gt_pending := AList.update userID (queue @ [deliver]) (gt_pending g)\<rparr>)
          else (False, g))"

text \<open>Results: held or not, and the deliveries run on the spot.\<close>

definition gate_hold :: "string \<Rightarrow> 'd \<Rightarrow> 'd replayGate \<Rightarrow> bool \<times> 'd list \<times> 'd replayGate" where
  "gate_hold userID deliver g =
     (if gt_live g = 0 then (False, [deliver], g)
      else if map_of (gt_pending g) userID = None then (False, [deliver], g)
      else case hold_locked userID deliver g of
             (held, g') \<Rightarrow> (held, if held then [] else [deliver], g'))"

definition gate_holding :: "string \<Rightarrow> 'd replayGate \<Rightarrow> bool" where
  "gate_holding userID g =
     (if gt_live g = 0 then False else map_of (gt_pending g) userID \<noteq> None)"

text \<open>The locked part of \<open>end\<close>, and \<open>end\<close> with the deliveries it runs.\<close>

definition end_locked :: "string \<Rightarrow> 'd replayGate \<Rightarrow> 'd list \<times> 'd replayGate" where
  "end_locked userID g =
     (case map_of (gt_pending g) userID of
        None \<Rightarrow> ([], g)
      | Some queue \<Rightarrow> (queue, g\<lparr>gt_pending := AList.delete userID (gt_pending g), gt_live := gt_live g - 1\<rparr>))"

definition gate_end :: "string \<Rightarrow> 'd replayGate \<Rightarrow> 'd list \<times> 'd replayGate" where
  "gate_end userID g = end_locked userID g"

section \<open>The manager around it\<close>

record 'd ReplayManager =
  rm_replayInflight :: "(string, unit) gomap"
  rm_replayGate :: "'d replayGate option"

definition TryBeginUserReplay :: "string \<Rightarrow> 'd ReplayManager \<Rightarrow> bool \<times> 'd ReplayManager" where
  "TryBeginUserReplay userID m =
     (if map_of (rm_replayInflight m) userID \<noteq> None then (False, m)
      else (True, m\<lparr>rm_replayInflight := AList.update userID () (rm_replayInflight m),
                    rm_replayGate := map_option (gate_begin userID) (rm_replayGate m)\<rparr>))"

definition EndUserReplay :: "string \<Rightarrow> 'd ReplayManager \<Rightarrow> 'd list \<times> 'd ReplayManager" where
  "EndUserReplay userID m =
     (let m1 = m\<lparr>rm_replayInflight := AList.delete userID (rm_replayInflight m)\<rparr>
      in case rm_replayGate m1 of
           None \<Rightarrow> ([], m1)
         | Some g \<Rightarrow> (case gate_end userID g of (queue, g') \<Rightarrow> (queue, m1\<lparr>rm_replayGate := Some g'\<rparr>)))"

definition HoldUserDelivery :: "string \<Rightarrow> 'd \<Rightarrow> 'd ReplayManager \<Rightarrow> 'd list \<times> 'd ReplayManager" where
  "HoldUserDelivery userID deliver m =
     (case rm_replayGate m of
        None \<Rightarrow> ([deliver], m)
      | Some g \<Rightarrow> (case gate_hold userID deliver g of (_, run, g') \<Rightarrow> (run, m\<lparr>rm_replayGate := Some g'\<rparr>)))"

definition holdingUserDelivery :: "string \<Rightarrow> 'd ReplayManager \<Rightarrow> bool" where
  "holdingUserDelivery userID m =
     (case rm_replayGate m of None \<Rightarrow> False | Some g \<Rightarrow> gate_holding userID g)"

definition WithReplayGate :: "'d replayGate option \<Rightarrow> 'd ReplayManager \<Rightarrow> 'd ReplayManager" where
  "WithReplayGate g m = m\<lparr>rm_replayGate := g\<rparr>"

section \<open>Runs of complete calls\<close>

datatype 'd replay_op = Begin string | Deliver string 'd | Finish string

text \<open>The log records who was delivered what, in order.\<close>

definition replay_op_step :: "'d replay_op \<Rightarrow> 'd ReplayManager \<times> (string \<times> 'd) list \<Rightarrow> 'd ReplayManager \<times> (string \<times> 'd) list" where
  "replay_op_step ev st =
     (case st of (m, log) \<Rightarrow>
        case ev of
          Begin u \<Rightarrow> (snd (TryBeginUserReplay u m), log)
        | Deliver u d \<Rightarrow> (case HoldUserDelivery u d m of (run, m') \<Rightarrow> (m', log @ map (Pair u) run))
        | Finish u \<Rightarrow> (case EndUserReplay u m of (run, m') \<Rightarrow> (m', log @ map (Pair u) run)))"

definition replay_run :: "'d replay_op list \<Rightarrow> 'd ReplayManager \<times> (string \<times> 'd) list" where
  "replay_run ops = fold replay_op_step ops (\<lparr>rm_replayInflight = [], rm_replayGate = Some NewReplayGate\<rparr>, [])"

text \<open>What was asked to be delivered to a user, what was, and what is held.\<close>

fun requested :: "string \<Rightarrow> 'd replay_op list \<Rightarrow> 'd list" where
  "requested u [] = []"
| "requested u (Deliver v d # ops) = (if v = u then d # requested u ops else requested u ops)"
| "requested u (_ # ops) = requested u ops"

definition delivered :: "string \<Rightarrow> (string \<times> 'd) list \<Rightarrow> 'd list" where
  "delivered u log = map snd (filter (\<lambda>e. fst e = u) log)"

definition waiting :: "string \<Rightarrow> 'd replayGate \<Rightarrow> 'd list" where
  "waiting u g = (case map_of (gt_pending g) u of None \<Rightarrow> [] | Some q \<Rightarrow> q)"

section \<open>Interleaving\<close>

text \<open>
  Threads: \<open>HoldRead\<close> has seen a nonzero counter, \<open>HoldTry\<close> has seen the user in the map and will
  take the write lock, \<open>Run\<close> has deliveries to execute.
\<close>

datatype 'd gate_pc = GIdle | HoldRead string 'd | HoldTry string 'd | Run string "'d list"

record 'd gate_state =
  gs_gate :: "'d replayGate"
  gs_threads :: "'d gate_pc list"
  gs_log :: "(string \<times> 'd) list"
  gs_asked :: "(string \<times> 'd) list"

inductive gate_step :: "'d gate_state \<Rightarrow> 'd gate_state \<Rightarrow> bool" where
  do_begin: "gate_step s (s\<lparr>gs_gate := gate_begin u (gs_gate s)\<rparr>)"
| hold_fast: "i < length (gs_threads s) \<Longrightarrow> gs_threads s ! i = GIdle \<Longrightarrow>
    gate_step s (s\<lparr>gs_asked := gs_asked s @ [(u, d)],
      gs_threads := (gs_threads s)[i := (if gt_live (gs_gate s) = 0 then Run u [d] else HoldRead u d)]\<rparr>)"
| hold_read: "i < length (gs_threads s) \<Longrightarrow> gs_threads s ! i = HoldRead u d \<Longrightarrow>
    gate_step s (s\<lparr>gs_threads := (gs_threads s)
      [i := (if map_of (gt_pending (gs_gate s)) u = None then Run u [d] else HoldTry u d)]\<rparr>)"
| hold_lock: "i < length (gs_threads s) \<Longrightarrow> gs_threads s ! i = HoldTry u d \<Longrightarrow>
    hold_locked u d (gs_gate s) = (held, g') \<Longrightarrow>
    gate_step s (s\<lparr>gs_gate := g', gs_threads := (gs_threads s)[i := (if held then GIdle else Run u [d])]\<rparr>)"
| end_lock: "i < length (gs_threads s) \<Longrightarrow> gs_threads s ! i = GIdle \<Longrightarrow>
    end_locked u (gs_gate s) = (queue, g') \<Longrightarrow>
    gate_step s (s\<lparr>gs_gate := g', gs_threads := (gs_threads s)[i := Run u queue]\<rparr>)"
| run_one: "i < length (gs_threads s) \<Longrightarrow> gs_threads s ! i = Run u (d # ds) \<Longrightarrow>
    gate_step s (s\<lparr>gs_log := gs_log s @ [(u, d)], gs_threads := (gs_threads s)[i := Run u ds]\<rparr>)"
| run_done: "i < length (gs_threads s) \<Longrightarrow> gs_threads s ! i = Run u [] \<Longrightarrow>
    gate_step s (s\<lparr>gs_threads := (gs_threads s)[i := GIdle]\<rparr>)"

definition gate_init :: "'d gate_state \<Rightarrow> bool" where
  "gate_init s \<longleftrightarrow> gs_gate s = NewReplayGate \<and> list_all (\<lambda>pc. pc = GIdle) (gs_threads s) \<and>
     gs_log s = [] \<and> gs_asked s = []"

fun pc_mset :: "'d gate_pc \<Rightarrow> (string \<times> 'd) multiset" where
  "pc_mset GIdle = {#}"
| "pc_mset (HoldRead u d) = {#(u, d)#}"
| "pc_mset (HoldTry u d) = {#(u, d)#}"
| "pc_mset (Run u ds) = mset (map (Pair u) ds)"

definition held_mset :: "(string, 'd list) gomap \<Rightarrow> (string \<times> 'd) multiset" where
  "held_mset m = sum_list (map (\<lambda>(u, q). mset (map (Pair u) q)) m)"

definition gate_inv :: "'d gate_state \<Rightarrow> bool" where
  "gate_inv s \<longleftrightarrow>
     gm_wf (gt_pending (gs_gate s)) \<and>
     gt_live (gs_gate s) = int (length (gt_pending (gs_gate s))) \<and>
     list_all (\<lambda>(u, q). length q \<le> maxReplayHoldout) (gt_pending (gs_gate s)) \<and>
     mset (gs_asked s) =
       mset (gs_log s) + held_mset (gt_pending (gs_gate s)) + sum_list (map pc_mset (gs_threads s))"

section \<open>Lemmas on complete calls\<close>

definition gate_ok :: "'d replayGate \<Rightarrow> bool" where
  "gate_ok g \<longleftrightarrow> gm_wf (gt_pending g) \<and> gt_live g = int (length (gt_pending g))"

lemma gate_ok_new [simp]: "gate_ok NewReplayGate"
  by (simp add: gate_ok_def NewReplayGate_def)

lemma gate_ok_begin [simp]: "gate_ok g \<Longrightarrow> gate_ok (gate_begin u g)"
  by (auto simp: gate_ok_def gate_begin_def length_update split: option.split)

lemma gate_ok_hold_locked: "gate_ok g \<Longrightarrow> hold_locked u d g = (held, g') \<Longrightarrow> gate_ok g'"
  by (auto simp: gate_ok_def hold_locked_def length_update split: option.splits if_splits)

lemma gate_ok_end: "gate_ok g \<Longrightarrow> end_locked u g = (q, g') \<Longrightarrow> gate_ok g'"
  by (auto simp: gate_ok_def end_locked_def length_delete_present split: option.splits)

lemma gate_ok_idle: "gate_ok g \<Longrightarrow> gt_live g = 0 \<Longrightarrow> map_of (gt_pending g) u = None"
  by (simp add: gate_ok_def)

text \<open>In a consistent gate the fast path agrees with the lookup.\<close>

lemma gate_hold_eq:
  assumes "gate_ok g"
  shows "gate_hold u d g =
    (case map_of (gt_pending g) u of
       None \<Rightarrow> (False, [d], g)
     | Some q \<Rightarrow> if length q < maxReplayHoldout
               then (True, [], g\<lparr>gt_pending := AList.update u (q @ [d]) (gt_pending g)\<rparr>)
               else (False, [d], g))"
  using gate_ok_idle [OF assms, of u] by (auto simp: gate_hold_def hold_locked_def split: option.split)

lemma waiting_begin: "waiting v (gate_begin u g) = waiting v g"
  by (auto simp: waiting_def gate_begin_def gomap_simps split: option.split)

lemma delivered_append: "delivered v (log @ map (Pair u) run) = delivered v log @ (if v = u then run else [])"
  by (auto simp: delivered_def filter_map o_def)

lemma requested_append: "requested u (ops @ ops') = requested u ops @ requested u ops'"
proof (induction ops)
  case Nil
  then show ?case by simp
next
  case (Cons ev ops)
  then show ?case by (cases ev) auto
qed

definition replay_inv :: "'d replay_op list \<Rightarrow> 'd ReplayManager \<times> (string \<times> 'd) list \<Rightarrow> bool" where
  "replay_inv ops st \<longleftrightarrow> (\<exists>g. rm_replayGate (fst st) = Some g \<and> gate_ok g \<and>
     (\<forall>u. length (requested u ops) \<le> maxReplayHoldout \<longrightarrow> delivered u (snd st) @ waiting u g = requested u ops))"

lemma replay_inv_step:
  assumes "replay_inv ops st"
  shows "replay_inv (ops @ [ev]) (replay_op_step ev st)"
proof -
  obtain m log where st: "st = (m, log)" by (cases st)
  from assms obtain g where g: "rm_replayGate m = Some g" "gate_ok g"
    and ord: "\<And>u. length (requested u ops) \<le> maxReplayHoldout \<Longrightarrow> delivered u log @ waiting u g = requested u ops"
    by (auto simp: replay_inv_def st)
  show ?thesis
  proof (cases ev)
    case (Begin u)
    show ?thesis
      using g ord by (auto simp: replay_inv_def st Begin replay_op_step_def TryBeginUserReplay_def waiting_begin requested_append)
  next
    case (Deliver u d)
    have room: "length q < maxReplayHoldout"
      if "map_of (gt_pending g) u = Some q" "length (requested u ops @ [d]) \<le> maxReplayHoldout" for q
      using ord [of u] that by (auto simp: waiting_def dest: arg_cong [where f = length])
    have "delivered v (log @ map (Pair u) run) @ waiting v g' = requested v (ops @ [Deliver u d])"
      if h: "gate_hold u d g = (b, run, g')" and le: "length (requested v (ops @ [Deliver u d])) \<le> maxReplayHoldout" for v b run g'
      using ord [of v] h le room
      by (cases "v = u"; cases "map_of (gt_pending g) u")
         (auto simp: gate_hold_eq [OF g(2)] delivered_append requested_append waiting_def gomap_simps split: if_splits)
    moreover have "gate_ok g'" if "gate_hold u d g = (b, run, g')" for b run g'
      using that g(2) by (auto simp: gate_hold_eq [OF g(2)] gate_ok_def length_update split: option.splits if_splits)
    ultimately show ?thesis
      using g by (cases "gate_hold u d g") (auto simp: replay_inv_def st Deliver replay_op_step_def HoldUserDelivery_def)
  next
    case (Finish u)
    have "delivered v (log @ map (Pair u) q) @ waiting v g' = requested v (ops @ [Finish u])"
      if "end_locked u g = (q, g')" "length (requested v ops) \<le> maxReplayHoldout" for v q g'
      using ord [of v] that
      by (cases "map_of (gt_pending g) u")
         (auto simp: end_locked_def delivered_append requested_append waiting_def gomap_simps)
    with g gate_ok_end [OF g(2)] show ?thesis
      by (cases "end_locked u g")
         (auto simp: replay_inv_def st Finish replay_op_step_def EndUserReplay_def gate_end_def Let_def requested_append)
  qed
qed

lemma replay_inv_run: "replay_inv ops (replay_run ops)"
proof (induction ops rule: rev_induct)
  case Nil
  show ?case by (simp add: replay_inv_def replay_run_def delivered_def waiting_def NewReplayGate_def gate_ok_def)
next
  case (snoc ev ops)
  from replay_inv_step [OF this] show ?case by (simp add: replay_run_def)
qed

section \<open>Lemmas on the interleaving\<close>

lemma held_mset_update_fresh:
  "map_of m u = None \<Longrightarrow> held_mset (AList.update u q m) = held_mset m + mset (map (Pair u) q)"
  by (induction m) (auto simp: held_mset_def)

lemma held_mset_update:
  "map_of m u = Some q \<Longrightarrow> gm_wf m \<Longrightarrow>
     held_mset (AList.update u (q @ [d]) m) = add_mset (u, d) (held_mset m)"
  by (induction m) (auto simp: held_mset_def)

lemma held_mset_delete:
  "map_of m u = Some q \<Longrightarrow> gm_wf m \<Longrightarrow> held_mset m = held_mset (AList.delete u m) + mset (map (Pair u) q)"
proof (induction m)
  case Nil
  then show ?case by simp
next
  case (Cons e m)
  obtain v r where e: "e = (v, r)" by force
  show ?case
  proof (cases "v = u")
    case True
    with Cons.prems e have "map_of m u = None" by (auto simp: map_of_eq_None_iff)
    with True Cons.prems e show ?thesis by (simp add: held_mset_def delete_absent add.commute)
  next
    case False
    with Cons e show ?thesis by (simp add: held_mset_def)
  qed
qed

lemma sum_mset_upd:
  assumes "i < length xs"
  shows "sum_list (map f (xs[i := y])) + f (xs ! i) = sum_list (map f xs) + (f y :: 'b multiset)"
  using assms
proof (induction xs arbitrary: i)
  case Nil
  then show ?case by simp
next
  case (Cons x xs)
  then show ?case by (cases i) (auto simp: ac_simps)
qed

lemma threads_move:
  assumes "i < length pcs" and "pcs ! i = pc"
  shows "sum_list (map pc_mset (pcs[i := pc'])) + pc_mset pc = sum_list (map pc_mset pcs) + pc_mset pc'"
  using sum_mset_upd [OF assms(1), of pc_mset pc'] assms(2) by simp

lemma bounded_update:
  "list_all (\<lambda>(u, q). length q \<le> n) m \<Longrightarrow> length q \<le> n \<Longrightarrow> list_all (\<lambda>(u, q). length q \<le> n) (AList.update u q m)"
  by (induction m) auto

lemma bounded_delete:
  "list_all (\<lambda>(u, q). length q \<le> n) m \<Longrightarrow> list_all (\<lambda>(u, q). length q \<le> n) (AList.delete u m)"
  by (induction m) auto

lemma idle_mset: "list_all (\<lambda>pc. pc = GIdle) pcs \<Longrightarrow> sum_list (map pc_mset pcs) = {#}"
  by (induction pcs) auto

lemma gate_inv_init: "gate_init s \<Longrightarrow> gate_inv s"
  by (auto simp: gate_init_def gate_inv_def NewReplayGate_def held_mset_def idle_mset)

lemma gate_inv_threads:
  assumes "gate_inv s" and "i < length (gs_threads s)" and "gs_threads s ! i = pc"
    and "mset log + pc_mset pc' = mset (gs_log s) + pc_mset pc"
  shows "gate_inv (s\<lparr>gs_log := log, gs_threads := (gs_threads s)[i := pc']\<rparr>)"
proof -
  let ?S = "sum_list (map pc_mset (gs_threads s))" and ?T = "sum_list (map pc_mset ((gs_threads s)[i := pc']))"
  from assms(4) have "(mset log + ?T) + (pc_mset pc' + pc_mset pc) = (mset (gs_log s) + pc_mset pc) + (?T + pc_mset pc)"
    by (simp add: ac_simps)
  also have "\<dots> = (mset (gs_log s) + ?S) + (pc_mset pc' + pc_mset pc)"
    by (simp only: threads_move [OF assms(2,3)]) (simp only: ac_simps)
  finally have "mset log + ?T = mset (gs_log s) + ?S" by (simp only: add_right_cancel)
  with assms(1) show ?thesis by (simp add: gate_inv_def ac_simps)
qed

lemma gate_inv_begin:
  assumes "gate_inv s"
  shows "gate_inv (s\<lparr>gs_gate := gate_begin u (gs_gate s)\<rparr>)"
  using assms
  by (auto simp: gate_inv_def gate_begin_def length_update held_mset_update_fresh bounded_update split: option.split)

lemma gate_inv_hold_lock:
  assumes inv: "gate_inv s" and i: "i < length (gs_threads s)" "gs_threads s ! i = HoldTry u d"
    and h: "hold_locked u d (gs_gate s) = (held, g')"
  shows "gate_inv (s\<lparr>gs_gate := g', gs_threads := (gs_threads s)[i := (if held then GIdle else Run u [d])]\<rparr>)"
proof (cases held)
  case False
  with h have "g' = gs_gate s" by (auto simp: hold_locked_def split: option.splits if_splits)
  with gate_inv_threads [OF inv i, of "gs_log s" "Run u [d]"] False show ?thesis by simp
next
  case True
  with h obtain q where q: "map_of (gt_pending (gs_gate s)) u = Some q" "length q < maxReplayHoldout"
    and g': "g' = (gs_gate s)\<lparr>gt_pending := AList.update u (q @ [d]) (gt_pending (gs_gate s))\<rparr>"
    by (auto simp: hold_locked_def split: option.splits if_splits)
  with inv threads_move [OF i, of GIdle] True show ?thesis
    by (auto simp: gate_inv_def length_update held_mset_update bounded_update)
qed

lemma gate_inv_end_lock:
  assumes inv: "gate_inv s" and i: "i < length (gs_threads s)" "gs_threads s ! i = GIdle"
    and h: "end_locked u (gs_gate s) = (queue, g')"
  shows "gate_inv (s\<lparr>gs_gate := g', gs_threads := (gs_threads s)[i := Run u queue]\<rparr>)"
proof (cases "map_of (gt_pending (gs_gate s)) u")
  case None
  with h have "g' = gs_gate s" "queue = []" by (auto simp: end_locked_def)
  with gate_inv_threads [OF inv i, of "gs_log s" "Run u []"] show ?thesis by simp
next
  case (Some q)
  with h have q: "queue = q" "g' = (gs_gate s)\<lparr>gt_pending := AList.delete u (gt_pending (gs_gate s)),
      gt_live := gt_live (gs_gate s) - 1\<rparr>"
    by (auto simp: end_locked_def)
  from inv have wf: "gm_wf (gt_pending (gs_gate s))" by (simp add: gate_inv_def)
  show ?thesis
    using inv threads_move [OF i, of "Run u q"] held_mset_delete [OF Some wf] length_delete_present [OF wf Some]
    by (simp add: gate_inv_def q bounded_delete ac_simps)
qed

lemma gate_inv_step: "gate_step s t \<Longrightarrow> gate_inv s \<Longrightarrow> gate_inv t"
proof (induction rule: gate_step.induct)
  case (do_begin s u)
  then show ?case by (rule gate_inv_begin)
next
  case (hold_fast i s u d)
  then show ?case
    using threads_move [OF hold_fast(1,2), of "if gt_live (gs_gate s) = 0 then Run u [d] else HoldRead u d"]
    by (simp add: gate_inv_def split: if_splits)
next
  case (hold_read i s u d)
  from gate_inv_threads [OF hold_read(3,1,2), of "gs_log s"] show ?case by simp
next
  case (hold_lock i s u d held g')
  from gate_inv_hold_lock [OF hold_lock(4,1,2,3)] show ?case .
next
  case (end_lock i s u queue g')
  from gate_inv_end_lock [OF end_lock(4,1,2,3)] show ?case .
next
  case (run_one i s u d ds)
  from gate_inv_threads [OF run_one(3,1,2), of "gs_log s @ [(u, d)]" "Run u ds"] show ?case by simp
next
  case (run_done i s u)
  from gate_inv_threads [OF run_done(3,1,2), of "gs_log s" GIdle] show ?case by simp
qed

interpretation gate: invariant_system gate_init gate_step gate_inv
  by unfold_locales (auto intro: gate_inv_init gate_inv_step)

section \<open>Properties\<close>



text \<open>C27: in every interleaving of concurrent deliveries with the start and the end of replays, each
  delivery that was asked for is in exactly one place -- executed, held, or in the hands of the
  goroutine that carries it -- so none is lost or executed twice; the lock-free counter is
  the number of users in replay; and no queue exceeds the hold-out limit.\<close>

theorem gate_conservation:
  assumes "reach gate_init gate_step s"
  shows "mset (gs_asked s) =
      mset (gs_log s) + held_mset (gt_pending (gs_gate s)) + sum_list (map pc_mset (gs_threads s)) \<and>
    gt_live (gs_gate s) = int (length (gt_pending (gs_gate s))) \<and>
    list_all (\<lambda>(u, q). length q \<le> maxReplayHoldout) (gt_pending (gs_gate s))"
  using gate.reach_inv [OF assms] by (simp add: gate_inv_def)

definition race_start :: "nat gate_state" where
  "race_start = \<lparr>gs_gate = NewReplayGate, gs_threads = [GIdle, GIdle], gs_log = [], gs_asked = []\<rparr>"

definition race_held :: "nat gate_state" where
  "race_held = \<lparr>gs_gate = \<lparr>gt_pending = [(''u'', [1])], gt_live = 1\<rparr>, gs_threads = [GIdle, GIdle],
     gs_log = [], gs_asked = [(''u'', 1)]\<rparr>"

definition race_end :: "nat gate_state" where
  "race_end = \<lparr>gs_gate = NewReplayGate, gs_threads = [Run ''u'' [], Run ''u'' []],
     gs_log = [(''u'', 2), (''u'', 1)], gs_asked = [(''u'', 1), (''u'', 2)]\<rparr>"

lemma gate_reach: "reach gate_init gate_step s \<Longrightarrow> gate_step s t \<Longrightarrow> reach gate_init gate_step t"
  by (rule reach_step)

lemma race_held_reach: "reach gate_init gate_step race_held"
proof -
  let ?g = "\<lparr>gt_pending = [(''u'', [])], gt_live = 1\<rparr> :: nat replayGate"
  let ?s1 = "race_start\<lparr>gs_gate := ?g\<rparr>"
  let ?s2 = "?s1\<lparr>gs_asked := [(''u'', 1)], gs_threads := [HoldRead ''u'' 1, GIdle]\<rparr>"
  let ?s3 = "?s2\<lparr>gs_threads := [HoldTry ''u'' 1, GIdle]\<rparr>"
  have 0: "reach gate_init gate_step race_start"
    by (rule reach_init) (simp add: gate_init_def race_start_def)
  have "gate_step race_start ?s1"
    using do_begin [of race_start "''u''"] by (simp add: race_start_def gate_begin_def NewReplayGate_def)
  from gate_reach [OF 0 this] have 1: "reach gate_init gate_step ?s1" .
  have "gate_step ?s1 ?s2"
    using hold_fast [of 0 ?s1 "''u''" 1] by (simp add: race_start_def)
  from gate_reach [OF 1 this] have 2: "reach gate_init gate_step ?s2" .
  have "gate_step ?s2 ?s3"
    using hold_read [of 0 ?s2 "''u''" 1] by (simp add: race_start_def)
  from gate_reach [OF 2 this] have 3: "reach gate_init gate_step ?s3" .
  have "gate_step ?s3 race_held"
    using hold_lock [of 0 ?s3 "''u''" 1 True "gs_gate race_held"]
    by (simp add: race_start_def race_held_def hold_locked_def maxReplayHoldout_def)
  from gate_reach [OF 3 this] show ?thesis .
qed

text \<open>the end of a replay opens the gate before it executes what was held: a delivery that
  arrives in between overtakes the older one that waited for the replay.\<close>

theorem gate_reorder_race:
  "reach gate_init gate_step race_end \<and> gs_asked race_end = rev (gs_log race_end) \<and>
     gs_log race_end = [(''u'', 2), (''u'', 1)]"
proof -
  let ?s1 = "race_held\<lparr>gs_gate := NewReplayGate, gs_threads := [Run ''u'' [1], GIdle]\<rparr>"
  let ?s2 = "?s1\<lparr>gs_asked := [(''u'', 1), (''u'', 2)], gs_threads := [Run ''u'' [1], Run ''u'' [2]]\<rparr>"
  let ?s3 = "?s2\<lparr>gs_log := [(''u'', 2)], gs_threads := [Run ''u'' [1], Run ''u'' []]\<rparr>"
  have "gate_step race_held ?s1"
    using end_lock [of 0 race_held "''u''" "[1]" NewReplayGate]
    by (simp add: race_held_def end_locked_def NewReplayGate_def)
  from gate_reach [OF race_held_reach this] have 1: "reach gate_init gate_step ?s1" .
  have "gate_step ?s1 ?s2"
    using hold_fast [of 1 ?s1 "''u''" 2] by (simp add: race_held_def NewReplayGate_def)
  from gate_reach [OF 1 this] have 2: "reach gate_init gate_step ?s2" .
  have "gate_step ?s2 ?s3"
    using run_one [of 1 ?s2 "''u''" 2 "[]"] by (simp add: race_held_def)
  from gate_reach [OF 2 this] have 3: "reach gate_init gate_step ?s3" .
  have "gate_step ?s3 race_end"
    using run_one [of 0 ?s3 "''u''" 1 "[]"] by (simp add: race_held_def race_end_def)
  from gate_reach [OF 3 this] show ?thesis by (simp add: race_end_def)
qed

lemma gate_conservation_witness:
  "mset (gs_asked race_held) =
      mset (gs_log race_held) + held_mset (gt_pending (gs_gate race_held)) + sum_list (map pc_mset (gs_threads race_held)) \<and>
    gt_live (gs_gate race_held) = 1"
  using gate_conservation [OF race_held_reach] by (simp add: race_held_def)

end
