(* ===== verification/Dedup.thy ===== *)
theory Dedup
  imports Prelude "HOL-Library.Monad_Syntax"
begin

text \<open>
  The local two-generation duplicate filter of the consumer: broker/dedup.go.

  \<^item> Times and durations are nanoseconds in \<open>int\<close>.
  \<^item> \<open>DedupWindow\<close> and \<open>dedupShard\<close> are the structs; \<open>catch_up\<close> is the loop at the head of
    \<open>Seen\<close>, a \<open>partial_function\<close>: \<open>None\<close> means that the loop does not end.
  \<^item> \<open>gen_seen\<close> and \<open>gen_unmark\<close> are the reference: every key carries the number of the
    generation in which it was marked, and is a duplicate in that generation and the next.
    \<open>dedup_rel\<close> is the refinement relation.
\<close>

section \<open>The window\<close>

definition DefaultDedupTTL :: int where "DefaultDedupTTL = 60 * 1000000000"

definition DefaultDedupShards :: int where "DefaultDedupShards = 64"

record dedupShard =
  ds_active :: "(string, unit) gomap"
  ds_prev :: "(string, unit) gomap"

record DedupWindow =
  dw_shards :: "dedupShard list"
  dw_ttl :: int
  dw_rollover :: int
  dw_lastSwap :: int

definition NewDedupWindow :: "int \<Rightarrow> int \<Rightarrow> int \<Rightarrow> DedupWindow" where
  "NewDedupWindow now ttl shards =
     (let ttl = if ttl \<le> 0 then DefaultDedupTTL else ttl;
          shards = if shards \<le> 0 then DefaultDedupShards else shards
      in \<lparr>dw_shards = replicate (nat shards) \<lparr>ds_active = [], ds_prev = []\<rparr>,
          dw_ttl = ttl, dw_rollover = ttl div 2, dw_lastSwap = now\<rparr>)"

definition swapLocked :: "DedupWindow \<Rightarrow> DedupWindow" where
  "swapLocked dw = dw\<lparr>dw_shards := map (\<lambda>shard. \<lparr>ds_active = [], ds_prev = ds_active shard\<rparr>) (dw_shards dw)\<rparr>"

text \<open>One round of the loop of \<open>Seen\<close>.\<close>

definition roll :: "DedupWindow \<Rightarrow> DedupWindow" where
  "roll dw = (swapLocked dw)\<lparr>dw_lastSwap := dw_lastSwap dw + dw_rollover dw\<rparr>"

partial_function (option) catch_up :: "int \<Rightarrow> DedupWindow \<Rightarrow> DedupWindow option" where
  "catch_up now dw =
     (if dw_rollover dw \<le> now - dw_lastSwap dw then catch_up now (roll dw) else Some dw)"

definition fnvShard :: "string \<Rightarrow> nat \<Rightarrow> nat" where
  "fnvShard key shards = unat (foldl fnv_step fnv_offset32 key mod of_nat shards)"

text \<open>The verdict is \<open>True\<close> for a key that was not seen before.\<close>

definition Seen :: "int \<Rightarrow> string \<Rightarrow> DedupWindow \<Rightarrow> (bool \<times> DedupWindow) option" where
  "Seen now key dw = do {
     dw \<leftarrow> catch_up now dw;
     let i = fnvShard key (length (dw_shards dw));
         shard = dw_shards dw ! i
     in if map_of (ds_active shard) key \<noteq> None then Some (False, dw)
        else if map_of (ds_prev shard) key \<noteq> None then Some (False, dw)
        else Some (True, dw\<lparr>dw_shards := (dw_shards dw)
               [i := shard\<lparr>ds_active := AList.update key () (ds_active shard)\<rparr>]\<rparr>)
   }"

definition Unmark :: "string \<Rightarrow> DedupWindow \<Rightarrow> DedupWindow" where
  "Unmark key dw =
     (let i = fnvShard key (length (dw_shards dw));
          shard = dw_shards dw ! i
      in dw\<lparr>dw_shards := (dw_shards dw)
           [i := \<lparr>ds_active = AList.delete key (ds_active shard), ds_prev = AList.delete key (ds_prev shard)\<rparr>]\<rparr>)"

section \<open>Runs, and the reference\<close>

datatype dedup_op = OSeen int string | OUnmark string

text \<open>A run collects the verdicts; \<open>None\<close> when a call does not return.\<close>

fun dedup_run :: "dedup_op list \<Rightarrow> DedupWindow \<Rightarrow> (bool list \<times> DedupWindow) option" where
  "dedup_run [] dw = Some ([], dw)"
| "dedup_run (OSeen now key # ops) dw = do {
     (fresh, dw) \<leftarrow> Seen now key dw;
     (verdicts, dw) \<leftarrow> dedup_run ops dw;
     Some (fresh # verdicts, dw)
   }"
| "dedup_run (OUnmark key # ops) dw = dedup_run ops (Unmark key dw)"

text \<open>Reference state: the number of the current generation, and the generation of every marked key.\<close>

type_synonym gens = "int \<times> (string \<Rightarrow> int option)"

definition gen_of :: "int \<Rightarrow> int \<Rightarrow> int \<Rightarrow> int" where
  "gen_of start period now = (now - start) div period"

definition gen_seen :: "int \<Rightarrow> int \<Rightarrow> int \<Rightarrow> string \<Rightarrow> gens \<Rightarrow> bool \<times> gens" where
  "gen_seen start period now key g =
     (let cur = max (fst g) (gen_of start period now)
      in case snd g key of
           Some n \<Rightarrow> if cur - 1 \<le> n then (False, (cur, snd g)) else (True, (cur, (snd g)(key \<mapsto> cur)))
         | None \<Rightarrow> (True, (cur, (snd g)(key \<mapsto> cur))))"

definition gen_unmark :: "string \<Rightarrow> gens \<Rightarrow> gens" where
  "gen_unmark key g = (fst g, (snd g)(key := None))"

fun gen_run :: "int \<Rightarrow> int \<Rightarrow> dedup_op list \<Rightarrow> gens \<Rightarrow> bool list \<times> gens" where
  "gen_run start period [] g = ([], g)"
| "gen_run start period (OSeen now key # ops) g =
     (case gen_seen start period now key g of (fresh, g') \<Rightarrow>
        case gen_run start period ops g' of (verdicts, g'') \<Rightarrow> (fresh # verdicts, g''))"
| "gen_run start period (OUnmark key # ops) g = gen_run start period ops (gen_unmark key g)"

definition shard_of :: "string \<Rightarrow> DedupWindow \<Rightarrow> dedupShard" where
  "shard_of key dw = dw_shards dw ! fnvShard key (length (dw_shards dw))"

definition dedup_rel :: "int \<Rightarrow> int \<Rightarrow> DedupWindow \<Rightarrow> gens \<Rightarrow> bool" where
  "dedup_rel start period dw g \<longleftrightarrow>
     0 < length (dw_shards dw) \<and> length (dw_shards dw) < 2 ^ 32 \<and>
     0 < period \<and> dw_rollover dw = period \<and> dw_lastSwap dw = start + fst g * period \<and>
     (\<forall>key. (map_of (ds_active (shard_of key dw)) key \<noteq> None) = (snd g key = Some (fst g))) \<and>
     (\<forall>key. (map_of (ds_prev (shard_of key dw)) key \<noteq> None) = (snd g key = Some (fst g - 1))) \<and>
     (\<forall>key n. snd g key = Some n \<longrightarrow> n \<le> fst g)"

section \<open>The catch-up loop\<close>

lemma roll_fields [simp]:
  "dw_rollover (roll dw) = dw_rollover dw"
  "dw_lastSwap (roll dw) = dw_lastSwap dw + dw_rollover dw"
  "dw_shards (roll dw) = map (\<lambda>shard. \<lparr>ds_active = [], ds_prev = ds_active shard\<rparr>) (dw_shards dw)"
  by (simp_all add: roll_def swapLocked_def)

lemma funpow_roll_fields [simp]:
  "dw_rollover ((roll ^^ n) dw) = dw_rollover dw"
  "dw_lastSwap ((roll ^^ n) dw) = dw_lastSwap dw + int n * dw_rollover dw"
  by (induction n) (simp_all add: algebra_simps)

text \<open>With a positive period the loop ends after as many rounds as generations have passed.\<close>

lemma catch_up_eq:
  assumes "0 < dw_rollover dw"
  shows "catch_up now dw = Some ((roll ^^ nat ((now - dw_lastSwap dw) div dw_rollover dw)) dw)"
  using assms
proof (induction "nat ((now - dw_lastSwap dw) div dw_rollover dw)" arbitrary: dw)
  case 0
  then have "\<not> dw_rollover dw \<le> now - dw_lastSwap dw"
    using pos_imp_zdiv_pos_iff [of "dw_rollover dw" "now - dw_lastSwap dw"] by linarith
  with 0 show ?case by (subst catch_up.simps) simp
next
  case (Suc n)
  let ?k = "(now - dw_lastSwap dw) div dw_rollover dw"
  from Suc.hyps(2) have "0 < ?k" by linarith
  with Suc.prems have le: "dw_rollover dw \<le> now - dw_lastSwap dw"
    by (simp add: pos_imp_zdiv_pos_iff)
  have "(now - dw_lastSwap (roll dw)) div dw_rollover (roll dw) = ?k - 1"
  proof -
    have "now - dw_lastSwap (roll dw) = (now - dw_lastSwap dw) + (- 1) * dw_rollover dw" by simp
    with Suc.prems show ?thesis by (simp only: roll_fields div_mult_self1)
  qed
  with Suc.hyps(2) have n: "n = nat ((now - dw_lastSwap (roll dw)) div dw_rollover (roll dw))" by simp
  from Suc.hyps(1) [OF n] Suc.prems have "catch_up now (roll dw) = Some ((roll ^^ n) (roll dw))"
    using n by simp
  with le show ?case
    by (subst catch_up.simps) (simp add: Suc.hyps(2) [symmetric] funpow_swap1)
qed

text \<open>With a period of zero it only ends when the clock is behind the last swap.\<close>

lemma catch_up_zero:
  assumes "catch_up now dw = Some dw'"
  shows "0 < dw_rollover dw \<or> dw_rollover dw < 0 \<or> now < dw_lastSwap dw"
proof (induction rule: catch_up.raw_induct [OF _ assms])
  case (1 catch_up now dw dw')
  show ?case
  proof (cases "dw_rollover dw \<le> now - dw_lastSwap dw")
    case True
    with 1(2) have "catch_up now (roll dw) = Some dw'" by simp
    from 1(1) [OF this] show ?thesis by (cases "dw_rollover dw = 0") auto
  next
    case False
    then show ?thesis by linarith
  qed
qed

section \<open>Refinement of the reference\<close>

lemma fnvShard_less:
  assumes "0 < n" and "n < 2 ^ 32"
  shows "fnvShard key n < n"
proof -
  have "unat (of_nat n :: 32 word) = n" using assms(2) by (simp add: unsigned_of_nat take_bit_nat_eq_self)
  then show ?thesis
    using assms(1) by (simp add: fnvShard_def unat_mod_distrib)
qed

lemma dedup_rel_idx: "dedup_rel start period dw g \<Longrightarrow> fnvShard key (length (dw_shards dw)) < length (dw_shards dw)"
  by (simp add: dedup_rel_def fnvShard_less)

lemma shard_of_roll:
  assumes "dedup_rel start period dw g"
  shows "shard_of key (roll dw) = \<lparr>ds_active = [], ds_prev = ds_active (shard_of key dw)\<rparr>"
  using dedup_rel_idx [OF assms] by (simp add: shard_of_def)

lemma dedup_rel_roll:
  assumes "dedup_rel start period dw (n, marks)"
  shows "dedup_rel start period (roll dw) (n + 1, marks)"
  using assms unfolding dedup_rel_def
  by (auto simp: shard_of_roll [OF assms] algebra_simps) force+

lemma dedup_rel_rolls:
  "dedup_rel start period dw (n, marks) \<Longrightarrow> dedup_rel start period ((roll ^^ k) dw) (n + int k, marks)"
proof (induction k)
  case 0
  then show ?case by simp
next
  case (Suc k)
  from dedup_rel_roll [OF Suc.IH [OF Suc.prems]] show ?case by (simp add: algebra_simps)
qed

lemma dedup_rel_catch_up:
  assumes rel: "dedup_rel start period dw g"
  obtains dw' where "catch_up now dw = Some dw'"
    and "dedup_rel start period dw' (max (fst g) (gen_of start period now), snd g)"
proof -
  obtain n marks where g: "g = (n, marks)" by (cases g)
  from rel have p: "0 < period" "dw_rollover dw = period" "dw_lastSwap dw = start + n * period"
    by (auto simp: dedup_rel_def g)
  have "(now - dw_lastSwap dw) div period = ((now - start) + (- n) * period) div period"
    by (simp add: p algebra_simps)
  also have "\<dots> = gen_of start period now - n" using p(1) by (simp add: gen_of_def del: mult_minus_left)
  finally have k: "n + int (nat ((now - dw_lastSwap dw) div period)) = max n (gen_of start period now)" by simp
  show thesis
    using that [OF catch_up_eq] p(1,2) dedup_rel_rolls [OF rel [unfolded g], of "nat ((now - dw_lastSwap dw) div period)"]
    unfolding k by (simp add: g)
qed

lemma shard_of_update:
  assumes "dedup_rel start period dw g"
  shows "shard_of key' (dw\<lparr>dw_shards := (dw_shards dw)[fnvShard key (length (dw_shards dw)) := s]\<rparr>) =
    (if fnvShard key' (length (dw_shards dw)) = fnvShard key (length (dw_shards dw)) then s else shard_of key' dw)"
  using dedup_rel_idx [OF assms] by (auto simp: shard_of_def)

lemma dedup_rel_mark:
  assumes rel: "dedup_rel start period dw (n, marks)"
    and new: "\<And>m. marks key = Some m \<Longrightarrow> m < n - 1"
  shows "dedup_rel start period (dw\<lparr>dw_shards := (dw_shards dw)[fnvShard key (length (dw_shards dw)) :=
      (shard_of key dw)\<lparr>ds_active := AList.update key () (ds_active (shard_of key dw))\<rparr>]\<rparr>) (n, marks(key \<mapsto> n))"
proof -
  let ?dw = "dw\<lparr>dw_shards := (dw_shards dw)[fnvShard key (length (dw_shards dw)) :=
      (shard_of key dw)\<lparr>ds_active := AList.update key () (ds_active (shard_of key dw))\<rparr>]\<rparr>"
  have act: "(map_of (ds_active (shard_of k ?dw)) k \<noteq> None) = (k = key \<or> map_of (ds_active (shard_of k dw)) k \<noteq> None)" for k
    unfolding shard_of_update [OF rel] by (auto simp: map_of_update shard_of_def)
  have prv: "map_of (ds_prev (shard_of k ?dw)) k = map_of (ds_prev (shard_of k dw)) k" for k
    unfolding shard_of_update [OF rel] by (auto simp: shard_of_def)
  from new have no: "marks key \<noteq> Some (n - 1)" by force
  show ?thesis
    using rel no unfolding dedup_rel_def act prv by auto
qed

lemma dedup_rel_unmark:
  assumes rel: "dedup_rel start period dw g"
  shows "dedup_rel start period (Unmark key dw) (gen_unmark key g)"
proof -
  have dw: "Unmark key dw = dw\<lparr>dw_shards := (dw_shards dw)[fnvShard key (length (dw_shards dw)) :=
      \<lparr>ds_active = AList.delete key (ds_active (shard_of key dw)), ds_prev = AList.delete key (ds_prev (shard_of key dw))\<rparr>]\<rparr>"
    by (simp add: Unmark_def Let_def shard_of_def)
  have act: "(map_of (ds_active (shard_of k (Unmark key dw))) k \<noteq> None) = (k \<noteq> key \<and> map_of (ds_active (shard_of k dw)) k \<noteq> None)" for k
    unfolding dw shard_of_update [OF rel] by (auto simp: map_of_delete shard_of_def)
  have prv: "(map_of (ds_prev (shard_of k (Unmark key dw))) k \<noteq> None) = (k \<noteq> key \<and> map_of (ds_prev (shard_of k dw)) k \<noteq> None)" for k
    unfolding dw shard_of_update [OF rel] by (auto simp: map_of_delete shard_of_def)
  have flds: "length (dw_shards (Unmark key dw)) = length (dw_shards dw)" "dw_rollover (Unmark key dw) = dw_rollover dw"
    "dw_lastSwap (Unmark key dw) = dw_lastSwap dw"
    by (simp_all add: dw)
  show ?thesis
    using rel unfolding dedup_rel_def act prv flds by (auto simp: gen_unmark_def)
qed

lemma dedup_rel_seen:
  assumes "dedup_rel start period dw g"
  obtains dw' where "Seen now key dw = Some (fst (gen_seen start period now key g), dw')"
    and "dedup_rel start period dw' (snd (gen_seen start period now key g))"
proof -
  let ?cur = "max (fst g) (gen_of start period now)"
  from dedup_rel_catch_up [OF assms] obtain dw1
    where up: "catch_up now dw = Some dw1" and rel: "dedup_rel start period dw1 (?cur, snd g)" .
  have act: "(map_of (ds_active (shard_of key dw1)) key \<noteq> None) = (snd g key = Some ?cur)"
    and prv: "(map_of (ds_prev (shard_of key dw1)) key \<noteq> None) = (snd g key = Some (?cur - 1))"
    and le: "\<And>n. snd g key = Some n \<Longrightarrow> n \<le> ?cur"
    using rel by (auto simp: dedup_rel_def)
  show thesis
  proof (cases "\<exists>n. snd g key = Some n \<and> ?cur - 1 \<le> n")
    case True
    then obtain n where n: "snd g key = Some n" "?cur - 1 \<le> n" by blast
    with le have "n = ?cur \<or> n = ?cur - 1" by force
    with n act prv have "Seen now key dw = Some (False, dw1)"
      by (auto simp: Seen_def up Let_def shard_of_def)
    with n rel show thesis by (intro that [of dw1]) (simp_all add: gen_seen_def Let_def)
  next
    case False
    with act prv have "map_of (ds_active (shard_of key dw1)) key = None" "map_of (ds_prev (shard_of key dw1)) key = None"
      by (metis add_le_same_cancel1 diff_add_cancel le_add_same_cancel1 zero_le_one diff_le_eq le_add_same_cancel1) (metis act prv False order_refl)
    then have seen: "Seen now key dw = Some (True, dw1\<lparr>dw_shards := (dw_shards dw1)[fnvShard key (length (dw_shards dw1)) :=
        (shard_of key dw1)\<lparr>ds_active := AList.update key () (ds_active (shard_of key dw1))\<rparr>]\<rparr>)"
      by (simp add: Seen_def up Let_def shard_of_def)
    have gs: "gen_seen start period now key g = (True, (?cur, (snd g)(key \<mapsto> ?cur)))"
      using False by (auto simp: gen_seen_def Let_def split: option.split)
    show thesis
      by (rule that) (use seen gs dedup_rel_mark [OF rel, of key] False in \<open>force+\<close>)
  qed
qed

lemma dedup_rel_run:
  "dedup_rel start period dw g \<Longrightarrow>
     \<exists>dw'. dedup_run ops dw = Some (fst (gen_run start period ops g), dw') \<and>
           dedup_rel start period dw' (snd (gen_run start period ops g))"
proof (induction ops arbitrary: dw g)
  case Nil
  then show ?case by simp
next
  case (Cons ev ops)
  show ?case
  proof (cases ev)
    case (OSeen now key)
    from dedup_rel_seen [OF Cons.prems] obtain dw1
      where "Seen now key dw = Some (fst (gen_seen start period now key g), dw1)"
        and "dedup_rel start period dw1 (snd (gen_seen start period now key g))" .
    with Cons.IH [OF this(2)] show ?thesis
      by (auto simp: OSeen split: prod.splits)
  next
    case (OUnmark key)
    from Cons.IH [OF dedup_rel_unmark [OF Cons.prems]] show ?thesis by (simp add: OUnmark)
  qed
qed

section \<open>Generations and clock readings\<close>

fun op_time_le :: "int \<Rightarrow> dedup_op \<Rightarrow> bool" where
  "op_time_le t (OSeen now key) = (now \<le> t)"
| "op_time_le t (OUnmark key) = True"

fun op_key :: "dedup_op \<Rightarrow> string" where
  "op_key (OSeen now key) = key"
| "op_key (OUnmark key) = key"

lemma gen_of_mono: "0 < period \<Longrightarrow> s \<le> t \<Longrightarrow> gen_of start period s \<le> gen_of start period t"
  by (simp add: gen_of_def zdiv_mono1)

lemma gen_seen_fst: "fst (snd (gen_seen start period now key g)) = max (fst g) (gen_of start period now)"
  by (auto simp: gen_seen_def Let_def split: option.split)

lemma gen_seen_other: "key' \<noteq> key \<Longrightarrow> snd (snd (gen_seen start period now key g)) key' = snd g key'"
  by (auto simp: gen_seen_def Let_def split: option.split)

lemma gen_run_clock:
  assumes "0 < period"
  shows "list_all (op_time_le t) ops \<Longrightarrow>
    fst g \<le> fst (snd (gen_run start period ops g)) \<and>
    fst (snd (gen_run start period ops g)) \<le> max (fst g) (gen_of start period t)"
proof (induction ops arbitrary: g)
  case Nil
  then show ?case by simp
next
  case (Cons ev ops)
  show ?case
  proof (cases ev)
    case (OSeen now key)
    with Cons.prems gen_of_mono [OF assms, of now t start] Cons.IH [of "snd (gen_seen start period now key g)"]
    show ?thesis by (auto simp: gen_seen_fst split: prod.splits)
  next
    case (OUnmark key)
    with Cons.prems Cons.IH [of "gen_unmark key g"] show ?thesis by (simp add: gen_unmark_def)
  qed
qed

lemma gen_run_other:
  "list_all (\<lambda>ev. op_key ev \<noteq> key) ops \<Longrightarrow> snd (snd (gen_run start period ops g)) key = snd g key"
proof (induction ops arbitrary: g)
  case Nil
  then show ?case by simp
next
  case (Cons ev ops)
  show ?case
  proof (cases ev)
    case (OSeen now k)
    with Cons.prems Cons.IH [of "snd (gen_seen start period now k g)"]
      gen_seen_other [of key k start period now g]
    show ?thesis by (auto simp: OSeen split: prod.splits)
  next
    case (OUnmark k)
    with Cons show ?thesis by (auto simp: gen_unmark_def)
  qed
qed

definition period_of :: "int \<Rightarrow> int" where
  "period_of ttl = (if ttl \<le> 0 then DefaultDedupTTL else ttl) div 2"

abbreviation no_gens :: gens where
  "no_gens \<equiv> (0, \<lambda>_. None)"

lemma period_of_pos: "ttl \<noteq> 1 \<Longrightarrow> 0 < period_of ttl"
  by (auto simp: period_of_def DefaultDedupTTL_def)

lemma dedup_rel_new:
  assumes "ttl \<noteq> 1" and "shards < 2 ^ 32"
  shows "dedup_rel start (period_of ttl) (NewDedupWindow start ttl shards) no_gens"
  using period_of_pos [OF assms(1)] assms(2) fnvShard_less
  by (auto simp: dedup_rel_def NewDedupWindow_def Let_def period_of_def DefaultDedupShards_def shard_of_def nat_less_iff)

section \<open>Properties\<close>

text \<open>C26: the duplicate filter implements the generation reference: for every sequence of \<open>Seen\<close>
  and \<open>Unmark\<close> calls, at whatever clock readings, each call returns and gives the verdict that a
  key is new unless it was marked in the current generation or the one before.\<close>

theorem dedup_refines:
  assumes "ttl \<noteq> 1" and "shards < 2 ^ 32"
  shows "\<exists>dw. dedup_run ops (NewDedupWindow start ttl shards) =
    Some (fst (gen_run start (period_of ttl) ops no_gens), dw)"
  using dedup_rel_run [OF dedup_rel_new [OF assms], of ops start] by blast

lemma dedup_refines_witness:
  "\<exists>dw. dedup_run [OSeen 1 ''a'', OSeen 12 ''a'', OSeen 25 ''a''] (NewDedupWindow 0 20 4) = Some ([True, False, True], dw)"
  using dedup_refines [of 20 4 "[OSeen 1 ''a'', OSeen 12 ''a'', OSeen 25 ''a'']" 0]
  by (simp add: period_of_def gen_seen_def gen_of_def)

text \<open>the catch-up loop at the head of \<open>Seen\<close> ends exactly when the configured time to live is
  not one nanosecond or the clock is behind the creation time: with one nanosecond the period
  rounds to zero and every later call runs forever with the lock held.\<close>

theorem dedup_returns_iff:
  "(\<exists>r. Seen now key (NewDedupWindow start ttl shards) = Some r) = (\<not> (ttl = 1 \<and> start \<le> now))"
proof -
  let ?dw = "NewDedupWindow start ttl shards"
  have flds: "dw_rollover ?dw = period_of ttl" "dw_lastSwap ?dw = start"
    by (simp_all add: NewDedupWindow_def Let_def period_of_def)
  have "(\<exists>r. Seen now key ?dw = Some r) = (\<exists>dw. catch_up now ?dw = Some dw)"
    by (cases "catch_up now ?dw") (auto simp: Seen_def Let_def)
  also have "\<dots> = (ttl \<noteq> 1 \<or> now < start)"
  proof
    assume "\<exists>dw. catch_up now ?dw = Some dw"
    then obtain dw where "catch_up now ?dw = Some dw" ..
    from catch_up_zero [OF this] show "ttl \<noteq> 1 \<or> now < start"
      by (auto simp: flds period_of_def)
  next
    assume "ttl \<noteq> 1 \<or> now < start"
    then show "\<exists>dw. catch_up now ?dw = Some dw"
    proof
      assume "ttl \<noteq> 1"
      from catch_up_eq [of ?dw now] period_of_pos [OF this] show ?thesis by (auto simp: flds)
    next
      assume "now < start"
      moreover have "0 \<le> period_of ttl" by (cases "ttl = 1") (auto simp: period_of_def DefaultDedupTTL_def)
      ultimately show ?thesis by (subst catch_up.simps) (simp add: flds)
    qed
  qed
  finally show ?thesis by auto
qed

text \<open>the width of the window.  After a key was accepted as new at time \<open>t1\<close>, and as long as nothing
  else touches the key, a second copy at time \<open>t2\<close> is a duplicate when less than half the time to
  live has passed, and is accepted again once the whole time to live has passed (the
  documentation promises visibility up to twice the time to live).\<close>

theorem dedup_window:
  assumes cfg: "1 < ttl" "shards < 2 ^ 32"
    and before: "dedup_run ops1 (NewDedupWindow start ttl shards) = Some (vs1, dw1)" "list_all (op_time_le t1) ops1" "start \<le> t1"
    and first: "Seen t1 key dw1 = Some (True, dw2)"
    and between: "dedup_run ops2 dw2 = Some (vs2, dw3)" "list_all (op_time_le t2) ops2"
      "list_all (\<lambda>ev. op_key ev \<noteq> key) ops2" "t1 \<le> t2"
  shows "\<exists>fresh dw4. Seen t2 key dw3 = Some (fresh, dw4) \<and>
    (t2 - t1 < ttl div 2 \<longrightarrow> \<not> fresh) \<and> (ttl \<le> t2 - t1 \<longrightarrow> fresh)"
proof -
  let ?p = "period_of ttl" and ?gen = "gen_of start (period_of ttl)"
  let ?g1 = "snd (gen_run start ?p ops1 no_gens)"
  let ?g2 = "snd (gen_seen start ?p t1 key ?g1)"
  let ?g3 = "snd (gen_run start ?p ops2 ?g2)"
  have p: "0 < ?p" "?p = ttl div 2" using cfg(1) by (auto simp: period_of_def)
  from dedup_rel_run [OF dedup_rel_new [of ttl shards start], of ops1] cfg before(1)
  have r1: "dedup_rel start ?p dw1 ?g1" by auto
  from dedup_rel_seen [OF r1, of t1 key] first
  have r2: "dedup_rel start ?p dw2 ?g2" and fresh: "fst (gen_seen start ?p t1 key ?g1)" by force+
  from dedup_rel_run [OF r2, of ops2] between(1) have r3: "dedup_rel start ?p dw3 ?g3" by auto
  from gen_run_clock [OF p(1) before(2), of no_gens start] gen_of_mono [OF p(1) before(3), of start] p(1)
  have "fst ?g1 \<le> ?gen t1" by (simp add: gen_of_def)
  then have g2: "?g2 = (?gen t1, (snd ?g1)(key \<mapsto> ?gen t1))"
    using fresh by (auto simp: gen_seen_def Let_def split: option.splits if_splits)
  from gen_run_other [OF between(3), of start ?p ?g2] g2 have mark: "snd ?g3 key = Some (?gen t1)" by simp
  from gen_run_clock [OF p(1) between(2), of ?g2 start] g2 gen_of_mono [OF p(1) between(4), of start]
  have cur: "max (fst ?g3) (?gen t2) = ?gen t2" by simp
  from dedup_rel_seen [OF r3, of t2 key] obtain dw4
    where seen: "Seen t2 key dw3 = Some (fst (gen_seen start ?p t2 key ?g3), dw4)" .
  have verdict: "fst (gen_seen start ?p t2 key ?g3) \<longleftrightarrow> ?gen t1 < ?gen t2 - 1"
    using mark cur by (auto simp: gen_seen_def Let_def)
  have "?gen t2 \<le> ?gen t1 + 1" if "t2 - t1 < ttl div 2"
  proof -
    from that p have "t2 \<le> t1 + ?p" by linarith
    moreover have "?gen (t1 + ?p) = ?gen t1 + 1"
      using div_add_self2 [of ?p "t1 - start"] p(1) by (simp add: gen_of_def algebra_simps)
    ultimately show ?thesis using gen_of_mono [OF p(1), of t2 "t1 + ?p" start] by simp
  qed
  moreover have "?gen t1 + 2 \<le> ?gen t2" if "ttl \<le> t2 - t1"
  proof -
    from that p have "t1 + 2 * ?p \<le> t2" by linarith
    moreover have "?gen (t1 + 2 * ?p) = ?gen t1 + 2"
      using div_mult_self1 [of ?p "t1 - start" 2] p(1) by (simp add: gen_of_def algebra_simps)
    ultimately show ?thesis using gen_of_mono [OF p(1), of "t1 + 2 * ?p" t2 start] by simp
  qed
  ultimately show ?thesis using seen verdict by (intro exI conjI) (assumption, auto)
qed

lemma demo_first: "Seen 1 ''a'' (NewDedupWindow 0 20 1) =
    Some (True, (NewDedupWindow 0 20 1)\<lparr>dw_shards := [\<lparr>ds_active = [(''a'', ())], ds_prev = []\<rparr>]\<rparr>)"
  by (simp add: Seen_def catch_up.simps NewDedupWindow_def Let_def fnvShard_def)

lemma dedup_window_witness:
  "\<exists>fresh dw4. Seen 10 ''a'' ((NewDedupWindow 0 20 1)\<lparr>dw_shards := [\<lparr>ds_active = [(''a'', ())], ds_prev = []\<rparr>]\<rparr>) =
     Some (fresh, dw4) \<and> \<not> fresh"
  using dedup_window [OF _ _ _ _ _ demo_first, where start = 0 and ttl = 20 and shards = 1 and ?ops1.0 = "[]" and ?ops2.0 = "[]" and ?t2.0 = 10] by simp

end
