(* ===== verification/Broker.thy ===== *)
theory Broker
  imports Dedup Message
begin

text \<open>
  The consumer side and the publisher side of the message bus.

  \<^item> models/deliver_result.go: \<open>DeliverResult\<close>, whose error list holds Go interface values, so
    possibly nil ones (\<open>None\<close>).
  \<^item> broker/envelope.go: validation of envelopes, restoring the route, the intent, the duplicate key.
  \<^item> broker/consumer.go: \<open>handle\<close>.  The delivery port is a parameter, as in the source; it acts on a
    state \<open>'s\<close> of its own.  \<open>None\<close> as the result of \<open>handle\<close> means that the duplicate filter
    does not return.
  \<^item> broker/manager.go: start and close, with the bus as a parameter.
  \<^item> publisher/envelope.go, publisher/publisher.go: building and publishing envelopes; the random
    identifier is a parameter.
\<close>

section \<open>Results of a delivery\<close>

record 'e DeliverResult =
  dr_Mode :: DeliveryMode
  dr_AppID :: string
  dr_Namespace :: string
  dr_GroupIDs :: GoSlice
  dr_TotalMembers :: int
  dr_OnlineMembers :: int
  dr_OfflineMembers :: int
  dr_Sent :: int
  dr_StoredOffline :: int
  dr_Failed :: int
  dr_LocalDelivered :: int
  dr_Aggregated :: bool
  dr_Errors :: "'e option list"

definition zero_result :: "'e DeliverResult" where
  "zero_result = \<lparr>dr_Mode = DeliveryModeP2P, dr_AppID = [], dr_Namespace = [], dr_GroupIDs = None,
     dr_TotalMembers = 0, dr_OnlineMembers = 0, dr_OfflineMembers = 0, dr_Sent = 0, dr_StoredOffline = 0,
     dr_Failed = 0, dr_LocalDelivered = 0, dr_Aggregated = False, dr_Errors = []\<rparr>"

definition AddError :: "'e option \<Rightarrow> 'e DeliverResult \<Rightarrow> 'e DeliverResult" where
  "AddError err r = (if err = None then r else r\<lparr>dr_Errors := dr_Errors r @ [err]\<rparr>)"

definition HasError :: "'e DeliverResult \<Rightarrow> bool" where
  "HasError r = (0 < length (dr_Errors r))"

text \<open>\<open>errors.Join\<close>: nil errors are left out, and nil comes back when nothing is left.\<close>

definition errors_Join :: "'e option list \<Rightarrow> 'e list option" where
  "errors_Join errs = (let es = map the (filter (\<lambda>e. e \<noteq> None) errs) in if es = [] then None else Some es)"

section \<open>Envelopes\<close>

datatype DeliverIntent = IntentUnset | IntentDeliver | IntentBroadcast | IntentOther nat

record DeliverEnvelope =
  de_Intent :: DeliverIntent
  de_Publisher :: string
  de_PublishedAt :: int
  de_ExcludeSender :: bool
  de_Hops :: "8 word"
  de_Message :: "HubMessage option"

definition MaxEnvelopeBytes :: int where "MaxEnvelopeBytes = 256 * 1024"

definition DefaultMaxHops :: "8 word" where "DefaultMaxHops = 2"

datatype EnvelopeError =
    ErrEnvelopeNilMessage
  | ErrEnvelopeMessageID
  | ErrEnvelopePublisher
  | ErrEnvelopeAppID
  | ErrEnvelopeHopsExceeded

definition ValidateEnvelope :: "DeliverEnvelope option \<Rightarrow> EnvelopeError option" where
  "ValidateEnvelope env =
     (case env of None \<Rightarrow> Some ErrEnvelopeNilMessage
      | Some e \<Rightarrow> (case de_Message e of None \<Rightarrow> Some ErrEnvelopeNilMessage
         | Some msg \<Rightarrow>
             if hm_MessageID msg = [] then Some ErrEnvelopeMessageID
             else if de_Publisher e = [] then Some ErrEnvelopePublisher
             else if hm_AppID msg = [] then Some ErrEnvelopeAppID
             else if DefaultMaxHops < de_Hops e then Some ErrEnvelopeHopsExceeded
             else None))"

definition RestoreRouteCtx :: "'md GoContext \<Rightarrow> HubMessage \<Rightarrow> 'md GoContext" where
  "RestoreRouteCtx ctx msg =
     Inject (Route_WithGroupIDs (hm_GroupIDs msg) (Route_WithNamespace (hm_Namespace msg)
               (Route_WithAppID (hm_AppID msg) NewRoute))) ctx"

definition ResolveIntent :: "DeliverEnvelope \<Rightarrow> HubMessage \<Rightarrow> DeliverIntent" where
  "ResolveIntent env msg =
     (if de_Intent env \<noteq> IntentUnset then de_Intent env
      else if hm_Receiver msg = [] \<and> slice (hm_GroupIDs msg) = [] then IntentBroadcast
      else IntentDeliver)"

definition EnvelopeSizeOf :: "DataHeap \<Rightarrow> DeliverEnvelope option \<Rightarrow> int" where
  "EnvelopeSizeOf h env =
     (case env of None \<Rightarrow> 0
      | Some e \<Rightarrow> (case de_Message e of None \<Rightarrow> 0
         | Some msg \<Rightarrow>
             fold (\<lambda>k size. size + int (length k) + 64)
               (case hm_Data msg of None \<Rightarrow> [] | Some d \<Rightarrow> gm_keys (dh_objs h d))
               (int (length (hm_Content msg)))))"

definition FormatDedupKey :: "HubMessage \<Rightarrow> string" where
  "FormatDedupKey msg =
     (if hm_Receiver msg = [] then hm_MessageID msg
      else hm_MessageID msg @ [CHR 0x00] @ hm_Receiver msg)"

section \<open>The consumer\<close>

type_synonym ('md, 'e, 's) DeliverFunc =
  "'md GoContext \<Rightarrow> HubMessage \<Rightarrow> bool \<Rightarrow> 's \<Rightarrow> 'e DeliverResult option \<times> 's"

text \<open>What the consumer makes of the port's result: \<open>None\<close> for success, otherwise its errors.\<close>

definition failed :: "'e DeliverResult option \<Rightarrow> bool" where
  "failed result = (case result of None \<Rightarrow> False | Some r \<Rightarrow> HasError r)"

definition result_errors :: "'e DeliverResult option \<Rightarrow> 'e list option" where
  "result_errors result = (case result of None \<Rightarrow> None | Some r \<Rightarrow> errors_Join (dr_Errors r))"

definition handle :: "('md, 'e, 's) DeliverFunc \<Rightarrow> DataHeap \<Rightarrow> int \<Rightarrow> 'md GoContext \<Rightarrow> DeliverEnvelope option
    \<Rightarrow> DedupWindow \<times> 's \<Rightarrow> ('e list option \<times> DedupWindow \<times> 's) option" where
  "handle deliver h now ctx env st =
     (case (ValidateEnvelope env, env) of
        (None, Some e) \<Rightarrow>
          (let msg = the (de_Message e);
               dedupKey = FormatDedupKey msg;
               (dedup, s) = st
           in do {
             (fresh, marked, dedup) \<leftarrow>
               (if IsExpress (ResolveGuarantee h msg) then Some (True, False, dedup)
                else map_option (\<lambda>(fresh, dedup). (fresh, fresh, dedup)) (Seen now dedupKey dedup));
             if \<not> fresh then Some (None, dedup, s)
             else let (result, s) = deliver (RestoreRouteCtx ctx msg) msg (de_ExcludeSender e) s
                  in if \<not> failed result then Some (None, dedup, s)
                     else Some (result_errors result, if marked then Unmark dedupKey dedup else dedup, s)
           })
      | _ \<Rightarrow> Some (None, st))"

definition HandleDeliver where
  "HandleDeliver = handle"

definition HandleBroadcast :: "('md, 'e, 's) DeliverFunc \<Rightarrow> DataHeap \<Rightarrow> int \<Rightarrow> 'md GoContext \<Rightarrow> DeliverEnvelope option
    \<Rightarrow> DedupWindow \<times> 's \<Rightarrow> ('e list option \<times> DedupWindow \<times> 's) option" where
  "HandleBroadcast deliver h now ctx env st = handle deliver h now (WithFanoutSourced ctx) env st"

definition envPublisher :: "DeliverEnvelope option \<Rightarrow> string" where
  "envPublisher env = (case env of None \<Rightarrow> [] | Some e \<Rightarrow> de_Publisher e)"

definition envMessageID :: "DeliverEnvelope option \<Rightarrow> string" where
  "envMessageID env =
     (case env of None \<Rightarrow> [] | Some e \<Rightarrow> (case de_Message e of None \<Rightarrow> [] | Some msg \<Rightarrow> hm_MessageID msg))"

section \<open>The manager\<close>

datatype EventBusTopic = TopicDeliver | TopicBroadcast

record 'b BrokerManager =
  bm_bus :: "'b option"
  bm_started :: bool
  bm_closing :: bool
  bm_closed :: bool

definition NewManager :: "'b option \<Rightarrow> 'b BrokerManager" where
  "NewManager bus = \<lparr>bm_bus = bus, bm_started = False, bm_closing = False, bm_closed = False\<rparr>"

text \<open>\<open>sub\<close> is the bus's \<open>Subscribe\<close> of the consumer's handler for the topic; errors are \<open>Some\<close>.\<close>

definition Manager_Start :: "('b \<Rightarrow> EventBusTopic \<Rightarrow> 'e option \<times> 'b) \<Rightarrow> 'b BrokerManager \<Rightarrow> 'e option \<times> 'b BrokerManager" where
  "Manager_Start sub m =
     (if bm_started m then (None, m)
      else let m = m\<lparr>bm_started := True\<rparr> in
        case bm_bus m of
          None \<Rightarrow> (None, m)
        | Some bus \<Rightarrow>
            (case sub bus TopicDeliver of
               (Some err, bus) \<Rightarrow> (Some err, m\<lparr>bm_bus := Some bus\<rparr>)
             | (None, bus) \<Rightarrow>
                 (case sub bus TopicBroadcast of
                    (Some err, bus) \<Rightarrow> (Some err, m\<lparr>bm_bus := Some bus\<rparr>)
                  | (None, bus) \<Rightarrow> (None, m\<lparr>bm_bus := Some bus\<rparr>))))"

definition Manager_Close :: "('b \<Rightarrow> 'e option \<times> 'b) \<Rightarrow> 'b BrokerManager \<Rightarrow> 'e option \<times> 'b BrokerManager" where
  "Manager_Close close m =
     (if bm_closing m then (None, m)
      else let m = m\<lparr>bm_closing := True, bm_closed := True\<rparr> in
        case bm_bus m of
          None \<Rightarrow> (None, m)
        | Some bus \<Rightarrow> (case close bus of (err, bus) \<Rightarrow> (err, m\<lparr>bm_bus := Some bus\<rparr>)))"

definition Manager_Closed :: "'b BrokerManager \<Rightarrow> bool" where
  "Manager_Closed m = bm_closed m"

section \<open>The publisher\<close>

record EnvelopeBuilder =
  eb_msg :: "HubMessage option"
  eb_excludeSender :: bool

definition NewEnvelope :: "HubMessage option \<Rightarrow> EnvelopeBuilder" where
  "NewEnvelope msg = \<lparr>eb_msg = msg, eb_excludeSender = False\<rparr>"

definition ExcludeSender :: "EnvelopeBuilder \<Rightarrow> EnvelopeBuilder" where
  "ExcludeSender b = b\<lparr>eb_excludeSender := True\<rparr>"

text \<open>\<open>fresh_id\<close> is what \<open>newMessageID\<close> would return now.\<close>

definition build :: "string \<Rightarrow> int \<Rightarrow> DeliverIntent \<Rightarrow> EnvelopeBuilder \<Rightarrow> DeliverEnvelope" where
  "build fresh_id now intent b =
     (case eb_msg b of
        None \<Rightarrow> \<lparr>de_Intent = intent, de_Publisher = [], de_PublishedAt = now, de_ExcludeSender = False,
                 de_Hops = 0, de_Message = None\<rparr>
      | Some msg \<Rightarrow>
          let msg = if hm_MessageID msg = [] then SetMessageID fresh_id msg else msg
          in \<lparr>de_Intent = intent, de_Publisher = [], de_PublishedAt = now,
              de_ExcludeSender = eb_excludeSender b, de_Hops = 0, de_Message = Some msg\<rparr>)"

definition build_Deliver :: "string \<Rightarrow> int \<Rightarrow> EnvelopeBuilder \<Rightarrow> DeliverEnvelope" where
  "build_Deliver fresh_id now b = build fresh_id now IntentDeliver b"

definition build_Broadcast :: "string \<Rightarrow> int \<Rightarrow> EnvelopeBuilder \<Rightarrow> DeliverEnvelope" where
  "build_Broadcast fresh_id now b = build fresh_id now IntentBroadcast b"

datatype PublishError = ErrBusMissing | ErrPublisherName | ErrEnvelopeInvalid

record 'b Publisher =
  pb_bus :: 'b
  pb_name :: string

definition Publisher_Build :: "'b option \<Rightarrow> string \<Rightarrow> PublishError + 'b Publisher" where
  "Publisher_Build bus name =
     (case bus of None \<Rightarrow> Inl ErrBusMissing
      | Some b \<Rightarrow> if name = [] then Inl ErrPublisherName else Inr \<lparr>pb_bus = b, pb_name = name\<rparr>)"

text \<open>The envelope that \<open>Publish\<close> hands to the bus.\<close>

definition Publisher_Publish :: "string \<Rightarrow> 'b Publisher \<Rightarrow> DeliverEnvelope option \<Rightarrow> PublishError + DeliverEnvelope" where
  "Publisher_Publish fresh_id p env =
     (case env of None \<Rightarrow> Inl ErrEnvelopeInvalid
      | Some e \<Rightarrow> (case de_Message e of None \<Rightarrow> Inl ErrEnvelopeInvalid
         | Some msg \<Rightarrow>
             let msg = if hm_MessageID msg = [] then SetMessageID fresh_id msg else msg
             in Inr (e\<lparr>de_Message := Some msg, de_Publisher := pb_name p\<rparr>)))"

section \<open>Lemmas\<close>

lemma validate_None:
  "ValidateEnvelope env = None \<longleftrightarrow>
     (\<exists>e msg. env = Some e \<and> de_Message e = Some msg \<and> hm_MessageID msg \<noteq> [] \<and> de_Publisher e \<noteq> [] \<and>
        hm_AppID msg \<noteq> [] \<and> de_Hops e \<le> DefaultMaxHops)"
  by (auto simp: ValidateEnvelope_def not_less split: option.split)

text \<open>\<open>handle\<close> for a valid reliable envelope, by what the reference of the filter says.\<close>

definition reliable :: "DataHeap \<Rightarrow> DeliverEnvelope \<Rightarrow> HubMessage \<Rightarrow> bool" where
  "reliable h e msg \<longleftrightarrow> ValidateEnvelope (Some e) = None \<and> de_Message e = Some msg \<and> \<not> IsExpress (ResolveGuarantee h msg)"

lemma handle_reliable:
  assumes "reliable h e msg" and "Seen now (FormatDedupKey msg) dw = Some (fresh, dw')"
  shows "handle deliver h now ctx (Some e) (dw, s) =
    (if \<not> fresh then Some (None, dw', s)
     else case deliver (RestoreRouteCtx ctx msg) msg (de_ExcludeSender e) s of
       (result, s') \<Rightarrow>
         if \<not> failed result then Some (None, dw', s')
         else Some (result_errors result, Unmark (FormatDedupKey msg) dw', s'))"
  using assms by (auto simp: reliable_def handle_def Let_def)

section \<open>Repeated copies of one envelope\<close>

text \<open>Copies of an envelope handled at the given clock readings; a call acknowledges when it returns nil.\<close>

fun handle_run :: "('md, 'e, 's) DeliverFunc \<Rightarrow> DataHeap \<Rightarrow> 'md GoContext \<Rightarrow> DeliverEnvelope option \<Rightarrow> int list
    \<Rightarrow> DedupWindow \<times> 's \<Rightarrow> (bool list \<times> DedupWindow \<times> 's) option" where
  "handle_run deliver h ctx env [] st = Some ([], st)"
| "handle_run deliver h ctx env (now # nows) st = do {
     (err, st) \<leftarrow> handle deliver h now ctx env st;
     (acks, st) \<leftarrow> handle_run deliver h ctx env nows st;
     Some ((err = None) # acks, st)
   }"

text \<open>The port with a log of whether it accepted.\<close>

definition logged :: "('md, 'e, 's) DeliverFunc \<Rightarrow> ('md, 'e, 's \<times> bool list) DeliverFunc" where
  "logged deliver ctx msg ex st =
     (case deliver ctx msg ex (fst st) of (result, s) \<Rightarrow> (result, (s, snd st @ [\<not> failed result])))"

text \<open>The port reports errors through \<open>AddError\<close>, so none of them is nil.\<close>

definition port_ok :: "('md, 'e, 's) DeliverFunc \<Rightarrow> bool" where
  "port_ok deliver \<longleftrightarrow> (\<forall>ctx msg ex s. \<forall>r\<in>set_option (fst (deliver ctx msg ex s)). None \<notin> set (dr_Errors r))"

lemma AddError_nonnil: "None \<notin> set (dr_Errors r) \<Longrightarrow> None \<notin> set (dr_Errors (AddError err r))"
  by (auto simp: AddError_def)

lemma failed_not_nil:
  assumes "None \<notin> set (dr_Errors r)"
  shows "result_errors (Some r) = None \<longleftrightarrow> \<not> failed (Some r)"
  using assms by (cases "dr_Errors r") (auto simp: result_errors_def failed_def HasError_def errors_Join_def Let_def)

lemma logged_result:
  assumes "port_ok deliver"
  obtains (accepted) result s' where "logged deliver ctx msg ex (s, log) = (result, (s', log @ [True]))" and "\<not> failed result"
    | (refused) result s' where "logged deliver ctx msg ex (s, log) = (result, (s', log @ [False]))" and "failed result"
      and "result_errors result \<noteq> None"
proof -
  obtain result s' where d: "deliver ctx msg ex s = (result, s')" by force
  show thesis
  proof (cases "failed result")
    case False
    with d show thesis by (intro accepted) (auto simp: logged_def)
  next
    case True
    then obtain r where r: "result = Some r" by (cases result) (auto simp: failed_def)
    have "None \<notin> set (dr_Errors r)"
      using assms d r unfolding port_ok_def by (metis fst_conv option.set_intros)
    with True d r failed_not_nil show thesis by (intro refused) (auto simp: logged_def)
  qed
qed

text \<open>Once the key is marked, copies are acknowledged without a call of the port.\<close>

lemma handle_run_marked:
  assumes rel: "reliable h e msg"
  shows "dedup_rel start p dw g \<Longrightarrow> snd g (FormatDedupKey msg) = Some m \<Longrightarrow> fst g \<le> m + 1 \<Longrightarrow>
    list_all (\<lambda>now. gen_of start p now \<le> m + 1) nows \<Longrightarrow>
    \<exists>dw'. handle_run deliver h ctx (Some e) nows (dw, s) = Some (replicate (length nows) True, dw', s)"
proof (induction nows arbitrary: dw g)
  case Nil
  then show ?case by simp
next
  case (Cons now nows)
  let ?key = "FormatDedupKey msg"
  have gs: "gen_seen start p now ?key g = (False, (max (fst g) (gen_of start p now), snd g))"
    using Cons.prems by (auto simp: gen_seen_def Let_def)
  from dedup_rel_seen [OF Cons.prems(1), of now ?key] obtain dw1
    where seen: "Seen now ?key dw = Some (False, dw1)"
      and "dedup_rel start p dw1 (max (fst g) (gen_of start p now), snd g)"
    unfolding gs by auto
  with Cons.IH [OF this(2)] Cons.prems show ?case by (auto simp: handle_reliable [OF rel seen])
qed

text \<open>While the key is not marked, a copy reaches the port; a refusal leaves the key unmarked.\<close>

lemma handle_fresh:
  assumes rel: "reliable h e msg" and port: "port_ok deliver"
    and r: "dedup_rel start p dw g" "snd g (FormatDedupKey msg) = None"
  obtains (accepted) dw' s' where
      "handle (logged deliver) h now ctx (Some e) (dw, (s, log)) = Some (None, dw', (s', log @ [True]))"
      "dedup_rel start p dw' (max (fst g) (gen_of start p now),
         (snd g)(FormatDedupKey msg \<mapsto> max (fst g) (gen_of start p now)))"
    | (refused) errs dw' s' where
      "handle (logged deliver) h now ctx (Some e) (dw, (s, log)) = Some (Some errs, dw', (s', log @ [False]))"
      "dedup_rel start p dw' (max (fst g) (gen_of start p now), snd g)"
proof -
  let ?key = "FormatDedupKey msg" and ?cur = "max (fst g) (gen_of start p now)"
  have gs: "gen_seen start p now ?key g = (True, (?cur, (snd g)(?key \<mapsto> ?cur)))"
    using r(2) by (simp add: gen_seen_def Let_def)
  from dedup_rel_seen [OF r(1), of now ?key] obtain dw1
    where seen: "Seen now ?key dw = Some (True, dw1)"
      and r1: "dedup_rel start p dw1 (?cur, (snd g)(?key \<mapsto> ?cur))"
    unfolding gs by auto
  from port show thesis
  proof (cases rule: logged_result [of deliver "RestoreRouteCtx ctx msg" msg "de_ExcludeSender e" s log])
    case (accepted result s')
    with that(1) r1 show thesis by (simp add: handle_reliable [OF rel seen])
  next
    case (refused result s')
    have un: "gen_unmark ?key (?cur, (snd g)(?key \<mapsto> ?cur)) = (?cur, snd g)"
      using r(2) by (auto simp: gen_unmark_def)
    from dedup_rel_unmark [OF r1, of ?key] have "dedup_rel start p (Unmark ?key dw1) (?cur, snd g)"
      unfolding un .
    with that(2) refused show thesis by (auto simp: handle_reliable [OF rel seen])
  qed
qed

lemma handle_run_fresh:
  assumes rel: "reliable h e msg" and port: "port_ok deliver"
  shows "dedup_rel start p dw g \<Longrightarrow> snd g (FormatDedupKey msg) = None \<Longrightarrow> fst g \<le> m + 1 \<Longrightarrow>
    list_all (\<lambda>now. m \<le> gen_of start p now \<and> gen_of start p now \<le> m + 1) nows \<Longrightarrow>
    \<exists>k dw' s'. k \<le> length nows \<and>
      handle_run (logged deliver) h ctx (Some e) nows (dw, (s, log)) =
        Some (replicate k False @ replicate (length nows - k) True, dw',
              (s', log @ replicate k False @ (if k < length nows then [True] else [])))"
proof (induction nows arbitrary: dw g s log)
  case Nil
  then show ?case by simp
next
  case (Cons now nows)
  let ?key = "FormatDedupKey msg" and ?cur = "max (fst g) (gen_of start p now)"
  from rel port Cons.prems(1,2) show ?case
  proof (cases rule: handle_fresh [where now = now and ctx = ctx and s = s and log = log])
    case (accepted dw1 s')
    have "list_all (\<lambda>now. gen_of start p now \<le> ?cur + 1) nows" using Cons.prems(4) by (auto simp: list_all_iff)
    from handle_run_marked [OF rel accepted(2) _ _ this, of "logged deliver" ctx "(s', log @ [True])"] obtain dw'
      where "handle_run (logged deliver) h ctx (Some e) nows (dw1, (s', log @ [True])) =
        Some (replicate (length nows) True, dw', (s', log @ [True]))" by auto
    with accepted show ?thesis by (intro exI [of _ 0]) simp
  next
    case (refused errs dw1 s')
    from Cons.IH [OF refused(2), of s' "log @ [False]"] Cons.prems obtain k dw' s''
      where k: "k \<le> length nows" and run: "handle_run (logged deliver) h ctx (Some e) nows (dw1, (s', log @ [False])) =
        Some (replicate k False @ replicate (length nows - k) True, dw',
          (s'', (log @ [False]) @ replicate k False @ (if k < length nows then [True] else [])))" by auto
    with refused show ?thesis by (intro exI [of _ "Suc k"]) simp
  qed
qed

lemma gen_window:
  assumes "0 < p" and "t \<le> now" and "now < t + p"
  shows "gen_of start p t \<le> gen_of start p now \<and> gen_of start p now \<le> gen_of start p t + 1"
proof -
  have "gen_of start p (t + p) = gen_of start p t + 1"
    using div_add_self2 [of p "t - start"] assms(1) by (simp add: gen_of_def algebra_simps)
  with assms gen_of_mono [OF assms(1), of t now start] gen_of_mono [OF assms(1), of now "t + p" start]
  show ?thesis by simp
qed

section \<open>Properties\<close>

text \<open>C25: at-least-once becomes effectively once.  However often copies of a reliable envelope arrive
  within half the time to live of the filter, the calls are refused as long as the delivery port
  fails, the port succeeds at most once, the call in which it succeeds and all later ones are
  acknowledged, and after it the port is not called again; a failure never makes a later copy
  look like a duplicate.\<close>

theorem consumer_effectively_once:
  assumes "reliable h e msg" and "port_ok deliver" and "1 < ttl" and "shards < 2 ^ 32"
    and "dedup_run ops (NewDedupWindow start ttl shards) = Some (vs, dw)"
    and "list_all (op_time_le t) ops" and "list_all (\<lambda>ev. op_key ev \<noteq> FormatDedupKey msg) ops" and "start \<le> t"
    and "list_all (\<lambda>now. t \<le> now \<and> now < t + ttl div 2) nows"
  shows "\<exists>k dw' s'. k \<le> length nows \<and>
      handle_run (logged deliver) h ctx (Some e) nows (dw, (s, [])) =
        Some (replicate k False @ replicate (length nows - k) True, dw',
              (s', replicate k False @ (if k < length nows then [True] else [])))"
proof -
  let ?p = "period_of ttl" and ?key = "FormatDedupKey msg"
  let ?g = "snd (gen_run start ?p ops no_gens)"
  have p: "0 < ?p" "?p = ttl div 2" using assms(3) by (auto simp: period_of_def)
  from dedup_rel_run [OF dedup_rel_new [of ttl shards start], of ops] assms(3-5)
  have r: "dedup_rel start ?p dw ?g" by auto
  from gen_run_clock [OF p(1) assms(6), of no_gens start] gen_of_mono [OF p(1) assms(8), of start]
  have cur: "fst ?g \<le> gen_of start ?p t + 1" by (simp add: gen_of_def)
  from gen_run_other [OF assms(7), of start ?p no_gens] have key: "snd ?g ?key = None" by simp
  have "list_all (\<lambda>now. gen_of start ?p t \<le> gen_of start ?p now \<and> gen_of start ?p now \<le> gen_of start ?p t + 1) nows"
    using assms(9) gen_window [OF p(1), of t] by (auto simp: list_all_iff p(2))
  from handle_run_fresh [OF assms(1,2) r key cur this, of ctx s "[]"] show ?thesis by simp
qed

text \<open>A port that refuses its first calls: the state counts how many refusals are left.\<close>

definition flaky_port :: "(unit, string, nat) DeliverFunc" where
  "flaky_port ctx msg ex s =
     (case s of 0 \<Rightarrow> (Some zero_result, 0) | Suc n \<Rightarrow> (Some (AddError (Some ''queue full'') zero_result), n))"

definition demo_envelope :: DeliverEnvelope where
  "demo_envelope = \<lparr>de_Intent = IntentDeliver, de_Publisher = ''svc'', de_PublishedAt = 0, de_ExcludeSender = False,
     de_Hops = 0, de_Message = Some (zero_message\<lparr>hm_MessageID := ''m1'', hm_Receiver := ''bob'', hm_AppID := ''app''\<rparr>)\<rparr>"

definition demo_ctx :: "unit GoContext" where
  "demo_ctx = \<lparr>cx_routing = None, cx_fanout = False, cx_trace = None, cx_outgoing = None, cx_incoming = None\<rparr>"

lemma flaky_port_ok: "port_ok flaky_port"
  by (auto simp: port_ok_def flaky_port_def AddError_def zero_result_def split: nat.splits)

lemma demo_reliable: "reliable (\<lparr>dh_next = 0, dh_objs = \<lambda>_. []\<rparr>) demo_envelope (the (de_Message demo_envelope))"
  by (simp add: reliable_def demo_envelope_def validate_None zero_message_def DefaultMaxHops_def
      ResolveGuarantee_def guaranteeTypeDefaults_def score_guaranteed_def IsExpress_def)

lemma consumer_effectively_once_witness:
  "\<exists>k dw' s'. k \<le> 3 \<and>
     handle_run (logged flaky_port) \<lparr>dh_next = 0, dh_objs = \<lambda>_. []\<rparr> demo_ctx (Some demo_envelope) [1, 2, 3]
       (NewDedupWindow 0 20 4, (1, [])) =
     Some (replicate k False @ replicate (3 - k) True, dw', (s', replicate k False @ (if k < 3 then [True] else [])))"
  using consumer_effectively_once [OF demo_reliable flaky_port_ok, of 20 4 "[]" 0 _ _ 0 "[1, 2, 3]" demo_ctx 1]
  by (simp add: numeral_3_eq_3 del: handle_run.simps replicate.simps)

text \<open>the outcome of handling an envelope, case by case: an invalid one is acknowledged and dropped
  without touching the filter or the port; an express one goes to the port whatever the filter
  holds and leaves the filter alone; and the port sees the route of the message, whatever route
  the context carried.\<close>

theorem consumer_cases:
  "(ValidateEnvelope env \<noteq> None \<longrightarrow> handle deliver h now ctx env (dw, s) = Some (None, dw, s)) \<and>
   (ValidateEnvelope (Some e) = None \<and> de_Message e = Some msg \<and> IsExpress (ResolveGuarantee h msg) \<longrightarrow>
     handle deliver h now ctx (Some e) (dw, s) =
       (case deliver (RestoreRouteCtx ctx msg) msg (de_ExcludeSender e) s of
          (result, s') \<Rightarrow> Some (if failed result then result_errors result else None, dw, s'))) \<and>
   (hm_AppID msg \<noteq> [] \<longrightarrow>
     AppIDFromContext (RestoreRouteCtx ctx msg) = hm_AppID msg \<and>
     NamespaceFromContext (RestoreRouteCtx ctx msg) = hm_Namespace msg \<and>
     slice (GroupIDsFromContext (RestoreRouteCtx ctx msg)) = slice (hm_GroupIDs msg))"
proof (intro conjI)
  show "ValidateEnvelope env \<noteq> None \<longrightarrow> handle deliver h now ctx env (dw, s) = Some (None, dw, s)"
    by (auto simp: handle_def split: option.split)
  show "ValidateEnvelope (Some e) = None \<and> de_Message e = Some msg \<and> IsExpress (ResolveGuarantee h msg) \<longrightarrow>
     handle deliver h now ctx (Some e) (dw, s) =
       (case deliver (RestoreRouteCtx ctx msg) msg (de_ExcludeSender e) s of
          (result, s') \<Rightarrow> Some (if failed result then result_errors result else None, dw, s'))"
    by (auto simp: handle_def Let_def split: prod.split)
  show "hm_AppID msg \<noteq> [] \<longrightarrow>
     AppIDFromContext (RestoreRouteCtx ctx msg) = hm_AppID msg \<and>
     NamespaceFromContext (RestoreRouteCtx ctx msg) = hm_Namespace msg \<and>
     slice (GroupIDsFromContext (RestoreRouteCtx ctx msg)) = slice (hm_GroupIDs msg)"
    by (auto simp: RestoreRouteCtx_def Inject_def Let_def NormalizeAppID_def Route_WithAppID_def Route_WithNamespace_def
      Route_WithGroupIDs_def NewRoute_def RoutingFromContext_def AppIDFromContext_def NamespaceFromContext_def
      GroupIDsFromContext_def split: option.split)
qed

lemma consumer_cases_witness:
  "handle flaky_port \<lparr>dh_next = 0, dh_objs = \<lambda>_. []\<rparr> 5 demo_ctx None (NewDedupWindow 0 20 4, 1) = Some (None, NewDedupWindow 0 20 4, 1) \<and>
   AppIDFromContext (RestoreRouteCtx demo_ctx (the (de_Message demo_envelope))) = ''app''"
  using consumer_cases [of None flaky_port "\<lparr>dh_next = 0, dh_objs = \<lambda>_. []\<rparr>" 5 demo_ctx "NewDedupWindow 0 20 4" 1 demo_envelope "the (de_Message demo_envelope)"]
  by (simp add: ValidateEnvelope_def demo_envelope_def)

text \<open>two messages share a duplicate key only when they agree on identifier and receiver,
  provided identifiers carry no NUL byte.\<close>

theorem dedup_key_inj:
  assumes "CHR 0x00 \<notin> set (hm_MessageID m1)" and "CHR 0x00 \<notin> set (hm_MessageID m2)"
  shows "FormatDedupKey m1 = FormatDedupKey m2 \<longleftrightarrow>
    hm_MessageID m1 = hm_MessageID m2 \<and> hm_Receiver m1 = hm_Receiver m2"
proof -
  have "hm_MessageID m1 @ CHR 0x00 # ys \<noteq> hm_MessageID m2" "hm_MessageID m1 \<noteq> hm_MessageID m2 @ CHR 0x00 # ys" for ys
    using assms by (metis in_set_conv_decomp)+
  then show ?thesis
    using append_sep_eq [OF assms, of "hm_Receiver m1" "hm_Receiver m2"] by (auto simp: FormatDedupKey_def)
qed

lemma dedup_key_inj_witness:
  "FormatDedupKey (zero_message\<lparr>hm_MessageID := ''m'', hm_Receiver := ''a''\<rparr>) \<noteq>
   FormatDedupKey (zero_message\<lparr>hm_MessageID := ''m'', hm_Receiver := ''b''\<rparr>)"
  using dedup_key_inj [of "zero_message\<lparr>hm_MessageID := ''m'', hm_Receiver := ''a''\<rparr>"
      "zero_message\<lparr>hm_MessageID := ''m'', hm_Receiver := ''b''\<rparr>"] by simp

text \<open>what a publisher sends passes the consumer's validation, except that nothing on the publishing
  side asks for an application: a message without one is published without an error and then
  dropped and acknowledged by every consumer.\<close>

theorem published_validates:
  assumes "Publisher_Build bus name = Inr p" and "fresh_id \<noteq> []"
    and "Publisher_Publish fresh_id p (Some (build mid now intent (NewEnvelope (Some msg)))) = Inr env"
  shows "ValidateEnvelope (Some env) = (if hm_AppID msg = [] then Some ErrEnvelopeAppID else None)"
proof -
  from assms(1) have "pb_name p \<noteq> []" by (auto simp: Publisher_Build_def split: option.splits if_splits)
  with assms(2,3) show ?thesis
    by (auto simp: Publisher_Publish_def build_def NewEnvelope_def Let_def SetMessageID_def ValidateEnvelope_def
        DefaultMaxHops_def)
qed

lemma published_validates_witness:
  "ValidateEnvelope (Some ((build ''x'' 0 IntentDeliver (NewEnvelope (Some zero_message)))\<lparr>de_Publisher := ''svc''\<rparr>)) =
     Some ErrEnvelopeAppID"
  using published_validates [of "Some ()" "''svc''" "\<lparr>pb_bus = (), pb_name = ''svc''\<rparr>" "''x''" "''x''" 0 IntentDeliver zero_message
      "(build ''x'' 0 IntentDeliver (NewEnvelope (Some zero_message)))\<lparr>de_Publisher := ''svc''\<rparr>"]
  by (simp add: Publisher_Build_def Publisher_Publish_def build_def NewEnvelope_def Let_def SetMessageID_def zero_message_def)

text \<open>starting is attempted once: when a subscription fails, a second start reports success although
  nothing is subscribed, and only the first close reaches the bus.\<close>

theorem manager_once:
  "fst (Manager_Start sub' (snd (Manager_Start sub m))) = None \<and>
   snd (Manager_Start sub' (snd (Manager_Start sub m))) = snd (Manager_Start sub m) \<and>
   Manager_Close close' (snd (Manager_Close close m)) = (None, snd (Manager_Close close m)) \<and>
   bm_closing (snd (Manager_Close close m))"
  by (auto simp: Manager_Start_def Manager_Close_def Let_def split: option.split prod.split)

end
