(* ===== verification/Event_Bus.thy ===== *)
theory Event_Bus
  imports Broker "HOL-Library.Sublist"
begin

text \<open>
  The in-memory event bus: adapter/memory/event_bus.go.

  \<^item> A handler acts on a state \<open>'s\<close> and returns, panics, or (\<open>None\<close>) does not return.
  \<^item> \<open>retry\<close>, \<open>dispatch\<close> are what one envelope goes through; \<open>cancelled\<close> reads the context of the
    subscription.
  \<^item> The bus is the map of topics with their subscribers, round-robin cursor, bounded queue and
    stop signal; a reference to a hub is its topic, since hubs are never removed.
  \<^item> \<open>bus_step\<close> interleaves publishers (who first get the hub and then select between the queue,
    the context and the stop signal), subscriptions, closing (which first marks the bus and then
    signals each hub) and the dispatch loop of every topic.  Handlers run as one step.
  \<^item> The cursor is an integer without the wrap at the 64-bit limit.
\<close>

section \<open>One envelope\<close>

definition maxRedeliver :: nat where "maxRedeliver = 3"

definition dispatchQueueSize :: nat where "dispatchQueueSize = 4096"

datatype 'e outcome = Return "'e option" | Panic

type_synonym ('e, 's) EventHandler = "DeliverEnvelope \<Rightarrow> 's \<Rightarrow> ('e outcome \<times> 's) option"

text \<open>A panic counts as an error; the result tells whether the error is nil.\<close>

definition invoke :: "('e, 's) EventHandler \<Rightarrow> DeliverEnvelope \<Rightarrow> 's \<Rightarrow> (bool \<times> 's) option" where
  "invoke handler env s =
     map_option (\<lambda>(r, s). (case r of Return err \<Rightarrow> err = None | Panic \<Rightarrow> False, s)) (handler env s)"

fun retry :: "('s \<Rightarrow> bool) \<Rightarrow> ('e, 's) EventHandler \<Rightarrow> DeliverEnvelope \<Rightarrow> nat \<Rightarrow> 's \<Rightarrow> 's option" where
  "retry cancelled handler env 0 s = Some s"
| "retry cancelled handler env (Suc n) s = do {
     (ok, s) \<leftarrow> invoke handler env s;
     if ok \<or> cancelled s then Some s else retry cancelled handler env n s
   }"

definition deliverWithRetry :: "('s \<Rightarrow> bool) \<Rightarrow> ('e, 's) EventHandler \<Rightarrow> DeliverEnvelope \<Rightarrow> 's \<Rightarrow> 's option" where
  "deliverWithRetry cancelled handler env s = retry cancelled handler env (maxRedeliver + 1) s"

record ('e, 's) topicHub =
  th_subs :: "('e, 's) EventHandler list"
  th_rrCursor :: nat
  th_queue :: "DeliverEnvelope list"
  th_stopped :: bool

fun fanout_all :: "('s \<Rightarrow> bool) \<Rightarrow> ('e, 's) EventHandler list \<Rightarrow> DeliverEnvelope \<Rightarrow> 's \<Rightarrow> 's option" where
  "fanout_all cancelled [] env s = Some s"
| "fanout_all cancelled (sub # subs) env s = do {
     s \<leftarrow> deliverWithRetry cancelled sub env s;
     fanout_all cancelled subs env s
   }"

definition dispatch :: "('s \<Rightarrow> bool) \<Rightarrow> DeliverEnvelope \<Rightarrow> ('e, 's) topicHub \<Rightarrow> 's \<Rightarrow> (('e, 's) topicHub \<times> 's) option" where
  "dispatch cancelled env hub s =
     (if th_subs hub = [] then Some (hub, s)
      else if de_Intent env = IntentBroadcast then map_option (Pair hub) (fanout_all cancelled (th_subs hub) env s)
      else let idx = th_rrCursor hub mod length (th_subs hub);
               hub' = hub\<lparr>th_rrCursor := th_rrCursor hub + 1\<rparr>
           in map_option (Pair hub') (deliverWithRetry cancelled (th_subs hub ! idx) env s))"

section \<open>The bus\<close>

record ('e, 's) EventBus =
  bus_topics :: "(EventBusTopic, ('e, 's) topicHub) gomap"
  bus_closed :: bool

definition NewEventBus :: "('e, 's) EventBus" where
  "NewEventBus = \<lparr>bus_topics = [], bus_closed = False\<rparr>"

definition new_hub :: "('e, 's) topicHub" where
  "new_hub = \<lparr>th_subs = [], th_rrCursor = 0, th_queue = [], th_stopped = False\<rparr>"

definition lockedTopicHub :: "EventBusTopic \<Rightarrow> ('e, 's) EventBus \<Rightarrow> (('e, 's) topicHub \<times> ('e, 's) EventBus) option" where
  "lockedTopicHub topic b =
     (if bus_closed b then None
      else case map_of (bus_topics b) topic of
             Some hub \<Rightarrow> Some (hub, b)
           | None \<Rightarrow> Some (new_hub, b\<lparr>bus_topics := AList.update topic new_hub (bus_topics b)\<rparr>))"

definition publish_topic :: "DeliverEnvelope \<Rightarrow> EventBusTopic" where
  "publish_topic env = (if de_Intent env = IntentBroadcast then TopicBroadcast else TopicDeliver)"

definition put_hub :: "EventBusTopic \<Rightarrow> ('e, 's) topicHub \<Rightarrow> ('e, 's) EventBus \<Rightarrow> ('e, 's) EventBus" where
  "put_hub topic hub b = b\<lparr>bus_topics := AList.update topic hub (bus_topics b)\<rparr>"

text \<open>Whether the subscription starts the dispatch loop, and the bus; \<open>None\<close> is \<open>ErrBusClosed\<close>.\<close>

definition Subscribe :: "EventBusTopic \<Rightarrow> ('e, 's) EventHandler \<Rightarrow> ('e, 's) EventBus \<Rightarrow> (bool \<times> ('e, 's) EventBus) option" where
  "Subscribe topic handler b = do {
     (hub, b) \<leftarrow> lockedTopicHub topic b;
     let first = (length (th_subs hub) = 0)
     in Some (first, put_hub topic (hub\<lparr>th_subs := th_subs hub @ [handler]\<rparr>) b)
   }"

definition SubscriberCount :: "EventBusTopic \<Rightarrow> ('e, 's) EventBus \<Rightarrow> nat" where
  "SubscriberCount topic b =
     (case map_of (bus_topics b) topic of None \<Rightarrow> 0 | Some hub \<Rightarrow> length (th_subs hub))"

section \<open>Interleaving\<close>

datatype loop_pc = NotStarted | Running | Draining | Exited

datatype pub_pc = PubIdle | Sending DeliverEnvelope

record ('e, 's) bus_state =
  bs_bus :: "('e, 's) EventBus"
  bs_loops :: "EventBusTopic \<Rightarrow> loop_pc"
  bs_pubs :: "pub_pc list"
  bs_world :: 's
  bs_accepted :: "EventBusTopic \<Rightarrow> DeliverEnvelope list"
  bs_handled :: "EventBusTopic \<Rightarrow> DeliverEnvelope list"
  bs_at_stop :: "EventBusTopic \<Rightarrow> DeliverEnvelope list"

text \<open>A loop takes the first envelope and, unless the context is cancelled, dispatches it.\<close>

definition take_one :: "('s \<Rightarrow> bool) \<Rightarrow> ('e, 's) topicHub \<Rightarrow> 's \<Rightarrow> (DeliverEnvelope \<times> ('e, 's) topicHub \<times> 's) option" where
  "take_one cancelled hub s =
     (case th_queue hub of
        [] \<Rightarrow> None
      | env # rest \<Rightarrow>
          (let hub = hub\<lparr>th_queue := rest\<rparr>
           in if cancelled s then Some (env, hub, s)
              else map_option (\<lambda>(hub, s). (env, hub, s)) (dispatch cancelled env hub s)))"

inductive bus_step :: "('s \<Rightarrow> bool) \<Rightarrow> ('e, 's) bus_state \<Rightarrow> ('e, 's) bus_state \<Rightarrow> bool"
  for cancelled :: "'s \<Rightarrow> bool" where
  subscribe: "Subscribe topic handler (bs_bus st) = Some (first, b) \<Longrightarrow>
    bus_step cancelled st (st\<lparr>bs_bus := b,
      bs_loops := (if first then (bs_loops st)(topic := Running) else bs_loops st)\<rparr>)"
| publish_enter: "i < length (bs_pubs st) \<Longrightarrow> bs_pubs st ! i = PubIdle \<Longrightarrow>
    lockedTopicHub (publish_topic env) (bs_bus st) = Some (hub, b) \<Longrightarrow>
    bus_step cancelled st (st\<lparr>bs_bus := b, bs_pubs := (bs_pubs st)[i := Sending env]\<rparr>)"
| publish_send: "i < length (bs_pubs st) \<Longrightarrow> bs_pubs st ! i = Sending env \<Longrightarrow>
    map_of (bus_topics (bs_bus st)) (publish_topic env) = Some hub \<Longrightarrow>
    length (th_queue hub) < dispatchQueueSize \<Longrightarrow>
    bus_step cancelled st (st\<lparr>bs_bus := put_hub (publish_topic env) (hub\<lparr>th_queue := th_queue hub @ [env]\<rparr>) (bs_bus st),
      bs_pubs := (bs_pubs st)[i := PubIdle],
      bs_accepted := (bs_accepted st)(publish_topic env := bs_accepted st (publish_topic env) @ [env])\<rparr>)"
| publish_refused: "i < length (bs_pubs st) \<Longrightarrow> bs_pubs st ! i = Sending env \<Longrightarrow>
    map_of (bus_topics (bs_bus st)) (publish_topic env) = Some hub \<Longrightarrow> th_stopped hub \<Longrightarrow>
    bus_step cancelled st (st\<lparr>bs_pubs := (bs_pubs st)[i := PubIdle]\<rparr>)"
| publish_cancelled: "i < length (bs_pubs st) \<Longrightarrow> bs_pubs st ! i = Sending env \<Longrightarrow>
    bus_step cancelled st (st\<lparr>bs_pubs := (bs_pubs st)[i := PubIdle]\<rparr>)"
| close_mark: "bus_step cancelled st (st\<lparr>bs_bus := (bs_bus st)\<lparr>bus_closed := True\<rparr>\<rparr>)"
| close_signal: "bus_closed (bs_bus st) \<Longrightarrow> map_of (bus_topics (bs_bus st)) topic = Some hub \<Longrightarrow> \<not> th_stopped hub \<Longrightarrow>
    bus_step cancelled st (st\<lparr>bs_bus := put_hub topic (hub\<lparr>th_stopped := True\<rparr>) (bs_bus st),
      bs_at_stop := (bs_at_stop st)(topic := bs_accepted st topic)\<rparr>)"
| loop_receive: "bs_loops st topic \<in> {Running, Draining} \<Longrightarrow>
    map_of (bus_topics (bs_bus st)) topic = Some hub \<Longrightarrow>
    take_one cancelled hub (bs_world st) = Some (env, hub', s') \<Longrightarrow>
    bus_step cancelled st (st\<lparr>bs_bus := put_hub topic hub' (bs_bus st), bs_world := s',
      bs_handled := (bs_handled st)(topic := bs_handled st topic @ [env])\<rparr>)"
| loop_stop: "bs_loops st topic = Running \<Longrightarrow> map_of (bus_topics (bs_bus st)) topic = Some hub \<Longrightarrow> th_stopped hub \<Longrightarrow>
    bus_step cancelled st (st\<lparr>bs_loops := (bs_loops st)(topic := Draining)\<rparr>)"
| loop_exit: "bs_loops st topic = Draining \<Longrightarrow> map_of (bus_topics (bs_bus st)) topic = Some hub \<Longrightarrow> th_queue hub = [] \<Longrightarrow>
    bus_step cancelled st (st\<lparr>bs_loops := (bs_loops st)(topic := Exited)\<rparr>)"

definition bus_init :: "('e, 's) bus_state \<Rightarrow> bool" where
  "bus_init st \<longleftrightarrow> bs_bus st = NewEventBus \<and> bs_loops st = (\<lambda>_. NotStarted) \<and>
     list_all (\<lambda>pc. pc = PubIdle) (bs_pubs st) \<and>
     bs_accepted st = (\<lambda>_. []) \<and> bs_handled st = (\<lambda>_. []) \<and> bs_at_stop st = (\<lambda>_. [])"

text \<open>What holds of one topic: its hub, loop, and the envelopes that passed through it.\<close>

definition hub_inv :: "bool \<Rightarrow> ('e, 's) topicHub \<Rightarrow> loop_pc \<Rightarrow> DeliverEnvelope list \<Rightarrow> DeliverEnvelope list \<Rightarrow> DeliverEnvelope list \<Rightarrow> bool" where
  "hub_inv closed hub pc accepted handled at_stop \<longleftrightarrow>
     accepted = handled @ th_queue hub \<and> length (th_queue hub) \<le> dispatchQueueSize \<and>
     (pc = NotStarted \<longleftrightarrow> th_subs hub = []) \<and> (pc = NotStarted \<longrightarrow> handled = []) \<and>
     (th_stopped hub \<longrightarrow> closed \<and> prefix at_stop accepted) \<and>
     (pc \<in> {Draining, Exited} \<longrightarrow> th_stopped hub) \<and>
     (pc = Exited \<longrightarrow> prefix at_stop handled)"

definition topic_inv :: "('e, 's) bus_state \<Rightarrow> EventBusTopic \<Rightarrow> bool" where
  "topic_inv st topic \<longleftrightarrow>
     (case map_of (bus_topics (bs_bus st)) topic of
        None \<Rightarrow> bs_loops st topic = NotStarted \<and> bs_accepted st topic = [] \<and> bs_handled st topic = []
      | Some hub \<Rightarrow> hub_inv (bus_closed (bs_bus st)) hub (bs_loops st topic)
                     (bs_accepted st topic) (bs_handled st topic) (bs_at_stop st topic))"

definition bus_inv :: "('e, 's) bus_state \<Rightarrow> bool" where
  "bus_inv st \<longleftrightarrow> (\<forall>topic. topic_inv st topic)"

section \<open>Instruments\<close>

text \<open>Envelopes dispatched one after the other, subscribers that log their number, a handler that counts
  its calls, and the consumer as a handler, with a clock that gives the reading of each call.\<close>

fun dispatch_all :: "('s \<Rightarrow> bool) \<Rightarrow> DeliverEnvelope list \<Rightarrow> ('e, 's) topicHub \<Rightarrow> 's \<Rightarrow> (('e, 's) topicHub \<times> 's) option" where
  "dispatch_all cancelled [] hub s = Some (hub, s)"
| "dispatch_all cancelled (env # envs) hub s = do {
     (hub, s) \<leftarrow> dispatch cancelled env hub s;
     dispatch_all cancelled envs hub s
   }"

definition log_handler :: "nat \<Rightarrow> (string, nat list) EventHandler" where
  "log_handler i env s = Some (Return None, s @ [i])"

definition counted :: "('e, 's) EventHandler \<Rightarrow> ('e, 's \<times> nat) EventHandler" where
  "counted handler env st = map_option (\<lambda>(r, s). (r, (s, snd st + 1))) (handler env (fst st))"

definition consumer_handler :: "('md, 'e, 's) DeliverFunc \<Rightarrow> DataHeap \<Rightarrow> (nat \<Rightarrow> int) \<Rightarrow> 'md GoContext
    \<Rightarrow> ('e list, nat \<times> DedupWindow \<times> 's) EventHandler" where
  "consumer_handler deliver h clock ctx env st =
     map_option (\<lambda>(err, st'). (Return err, (fst st + 1, st'))) (HandleDeliver deliver h (clock (fst st)) ctx (Some env) (snd st))"

section \<open>Lemmas on the interleaving\<close>

lemma put_hub_simps [simp]:
  "map_of (bus_topics (put_hub topic hub b)) t = (if t = topic then Some hub else map_of (bus_topics b) t)"
  "bus_closed (put_hub topic hub b) = bus_closed b"
  by (simp_all add: put_hub_def map_of_update)

lemma dispatch_hub:
  "dispatch cancelled env hub s = Some (hub', s') \<Longrightarrow>
     th_queue hub' = th_queue hub \<and> th_subs hub' = th_subs hub \<and> th_stopped hub' = th_stopped hub"
  by (auto simp: dispatch_def Let_def split: if_splits)

lemma take_one_hub:
  "take_one cancelled hub s = Some (env, hub', s') \<Longrightarrow>
     th_queue hub = env # th_queue hub' \<and> th_subs hub' = th_subs hub \<and> th_stopped hub' = th_stopped hub"
  by (auto simp: take_one_def Let_def split: list.splits if_splits dest: dispatch_hub)

lemma hub_inv_new: "hub_inv closed new_hub NotStarted [] [] at_stop"
  by (simp add: hub_inv_def new_hub_def)

lemma lockedTopicHub_cases:
  assumes "lockedTopicHub topic b = Some (hub, b')"
  obtains (old) "map_of (bus_topics b) topic = Some hub" "b' = b" "\<not> bus_closed b"
    | (new) "map_of (bus_topics b) topic = None" "hub = new_hub" "b' = put_hub topic new_hub b" "\<not> bus_closed b"
  using assms by (auto simp: lockedTopicHub_def put_hub_def split: if_splits option.splits)

lemma topic_inv_locked:
  assumes "lockedTopicHub topic (bs_bus st) = Some (hub, b)" and "topic_inv st t"
  shows "topic_inv (st\<lparr>bs_bus := b, bs_pubs := pubs\<rparr>) t"
  using assms(1)
proof (cases rule: lockedTopicHub_cases)
  case old
  with assms(2) show ?thesis by (simp add: topic_inv_def split: option.splits)
next
  case new
  with assms(2) hub_inv_new show ?thesis by (cases "t = topic") (auto simp: topic_inv_def split: option.splits)
qed

lemma topic_inv_subscribe:
  assumes "Subscribe topic handler (bs_bus st) = Some (first, b)" and inv: "bus_inv st"
  shows "topic_inv (st\<lparr>bs_bus := b, bs_loops := (if first then (bs_loops st)(topic := Running) else bs_loops st)\<rparr>) t"
proof -
  from assms(1) obtain hub b0 where l: "lockedTopicHub topic (bs_bus st) = Some (hub, b0)"
    and first: "first = (th_subs hub = [])" and b: "b = put_hub topic (hub\<lparr>th_subs := th_subs hub @ [handler]\<rparr>) b0"
    by (auto simp: Subscribe_def Let_def split: bind_splits)
  from inv have t: "topic_inv st t" by (simp add: bus_inv_def)
  from l show ?thesis
    by (cases rule: lockedTopicHub_cases)
       (use t first b in \<open>auto simp: topic_inv_def hub_inv_def new_hub_def split: if_splits option.splits\<close>)
qed

lemma prefix_more: "prefix xs (ys @ zs) \<Longrightarrow> prefix xs (ys @ zs @ us)"
  using prefix_prefix [of xs "ys @ zs" us] by simp

lemma hub_inv_receive:
  assumes "hub_inv closed hub pc accepted handled at_stop" and "pc \<in> {Running, Draining}"
    and "th_queue hub = env # th_queue hub' \<and> th_subs hub' = th_subs hub \<and> th_stopped hub' = th_stopped hub"
  shows "hub_inv closed hub' pc accepted (handled @ [env]) at_stop"
proof -
  from assms(3) have q: "th_queue hub = env # th_queue hub'" and "th_subs hub' = th_subs hub" "th_stopped hub' = th_stopped hub"
    by auto
  with assms(1,2) show ?thesis unfolding hub_inv_def q by auto
qed

lemma bus_inv_step:
  assumes "bus_step cancelled st st'" and inv: "bus_inv st"
  shows "bus_inv st'"
proof -
  have t: "topic_inv st t" for t using inv by (simp add: bus_inv_def)
  have "topic_inv st' t" for t
    using assms(1)
  proof cases
    case (subscribe topic handler first b)
    then show ?thesis using topic_inv_subscribe [OF _ inv] by simp
  next
    case (publish_enter i env hub b)
    then show ?thesis using topic_inv_locked [OF _ t] by simp
  next
    case (publish_send i env hub)
    with t [of t] show ?thesis
      by (cases "t = publish_topic env") (auto simp: topic_inv_def hub_inv_def prefix_more split: option.splits)
  next
    case (publish_refused i env hub)
    with t [of t] show ?thesis by (simp add: topic_inv_def split: option.splits)
  next
    case (publish_cancelled i env)
    with t [of t] show ?thesis by (simp add: topic_inv_def split: option.splits)
  next
    case close_mark
    with t [of t] show ?thesis by (auto simp: topic_inv_def hub_inv_def split: option.splits)
  next
    case (close_signal topic hub)
    with t [of t] show ?thesis by (cases "t = topic") (auto simp: topic_inv_def hub_inv_def split: option.splits)
  next
    case (loop_receive topic hub env hub' s')
    show ?thesis
    proof (cases "t = topic")
      case True
      with t [of topic] loop_receive(2,3) hub_inv_receive [OF _ _ take_one_hub [OF loop_receive(4)]] show ?thesis
        by (simp add: topic_inv_def loop_receive(1))
    next
      case False
      with t [of t] show ?thesis by (simp add: topic_inv_def loop_receive(1) split: option.splits)
    qed
  next
    case (loop_stop topic hub)
    with t [of t] show ?thesis by (cases "t = topic") (auto simp: topic_inv_def hub_inv_def split: option.splits)
  next
    case (loop_exit topic hub)
    with t [of t] show ?thesis by (cases "t = topic") (auto simp: topic_inv_def hub_inv_def split: option.splits)
  qed
  then show ?thesis by (simp add: bus_inv_def)
qed

interpretation bus: invariant_system bus_init "bus_step cancelled" bus_inv
proof
  show "bus_inv st" if "bus_init st" for st :: "('a, 'b) bus_state"
    using that by (simp add: bus_init_def bus_inv_def topic_inv_def NewEventBus_def)
qed (rule bus_inv_step)

section \<open>Properties\<close>


text \<open>A bus with one subscriber on the delivery topic and one accepted envelope.\<close>

definition ack_all :: "(string, unit) EventHandler" where
  "ack_all env s = Some (Return None, s)"

definition bus_start :: "(string, unit) bus_state" where
  "bus_start = \<lparr>bs_bus = NewEventBus, bs_loops = (\<lambda>_. NotStarted), bs_pubs = [PubIdle], bs_world = (),
     bs_accepted = (\<lambda>_. []), bs_handled = (\<lambda>_. []), bs_at_stop = (\<lambda>_. [])\<rparr>"

definition bus_one :: "(string, unit) bus_state" where
  "bus_one = bus_start\<lparr>bs_bus := \<lparr>bus_topics = [(TopicDeliver, new_hub\<lparr>th_subs := [ack_all], th_queue := [demo_envelope]\<rparr>)], bus_closed = False\<rparr>,
     bs_loops := (\<lambda>_. NotStarted)(TopicDeliver := Running),
     bs_accepted := (\<lambda>_. [])(TopicDeliver := [demo_envelope])\<rparr>"

lemma bus_one_reach: "reach bus_init (bus_step (\<lambda>_. False)) bus_one"
proof -
  let ?R = "reach bus_init (bus_step (\<lambda>_. False))"
  let ?b = "\<lparr>bus_topics = [(TopicDeliver, new_hub\<lparr>th_subs := [ack_all]\<rparr>)], bus_closed = False\<rparr>"
  let ?s1 = "bus_start\<lparr>bs_bus := ?b, bs_loops := (\<lambda>_. NotStarted)(TopicDeliver := Running)\<rparr>"
  let ?s2 = "?s1\<lparr>bs_pubs := [Sending demo_envelope]\<rparr>"
  have top: "publish_topic demo_envelope = TopicDeliver" by (simp add: publish_topic_def demo_envelope_def)
  have 0: "?R bus_start" by (rule reach_init) (simp add: bus_init_def bus_start_def)
  have "bus_step (\<lambda>_. False) bus_start ?s1"
    using bus_step.subscribe [of TopicDeliver ack_all bus_start True ?b "\<lambda>_. False"]
    by (simp add: bus_start_def Subscribe_def lockedTopicHub_def NewEventBus_def new_hub_def put_hub_def)
  with 0 have 1: "?R ?s1" by (rule reach_step)
  have "bus_step (\<lambda>_. False) ?s1 ?s2"
    using publish_enter [of 0 ?s1 demo_envelope "new_hub\<lparr>th_subs := [ack_all]\<rparr>" ?b "\<lambda>_. False"]
    by (simp add: bus_start_def lockedTopicHub_def top)
  with 1 have 2: "?R ?s2" by (rule reach_step)
  have "bus_step (\<lambda>_. False) ?s2 bus_one"
    using publish_send [of 0 ?s2 demo_envelope "new_hub\<lparr>th_subs := [ack_all]\<rparr>" "\<lambda>_. False"]
    by (simp add: bus_start_def bus_one_def put_hub_def top new_hub_def dispatchQueueSize_def)
  with 2 show ?thesis by (rule reach_step)
qed


lemma inj_on_shift_mod: "inj_on (\<lambda>k. (c + k) mod n) {0..<n}" for c n :: nat
proof (rule inj_onI)
  fix i j :: nat
  assume *: "i \<in> {0..<n}" "j \<in> {0..<n}" "(c + i) mod n = (c + j) mod n"
  have "i = j" if "i \<le> j" "j < n" "(c + i) mod n = (c + j) mod n" for i j
  proof -
    from that have "n dvd (c + j) - (c + i)" by (metis add_le_cancel_left mod_eq_dvd_iff_nat)
    with that show ?thesis by (auto dest: dvd_imp_le)
  qed
  from this [of i j] this [of j i] * show "i = j" by (metis atLeastLessThan_iff nat_le_linear)
qed

text \<open>fairness of the queue topics.  With \<open>n\<close> subscribers the \<open>k\<close>-th envelope goes to number
  \<open>(cursor + k) mod n\<close>, so \<open>n\<close> envelopes in a row go to \<open>n\<close> different subscribers; a broadcast
  reaches every subscriber once, in the order of subscription.\<close>

theorem round_robin:
  assumes "th_subs hub = map log_handler [0..<n]" and "0 < n"
    and "list_all (\<lambda>env. de_Intent env \<noteq> IntentBroadcast) envs" and "de_Intent bcast = IntentBroadcast"
  shows "dispatch_all (\<lambda>_. False) envs hub log =
      Some (hub\<lparr>th_rrCursor := th_rrCursor hub + length envs\<rparr>,
            log @ map (\<lambda>k. (th_rrCursor hub + k) mod n) [0..<length envs]) \<and>
    distinct (map (\<lambda>k. (th_rrCursor hub + k) mod n) [0..<n]) \<and>
    dispatch (\<lambda>_. False) bcast hub log = Some (hub, log @ [0..<n])"
proof (intro conjI)
  have one: "deliverWithRetry (\<lambda>_. False) (log_handler i) env log = Some (log @ [i])" for i env log
    by (simp add: deliverWithRetry_def invoke_def log_handler_def)
  have step: "dispatch (\<lambda>_. False) env hub log =
      Some (hub\<lparr>th_rrCursor := th_rrCursor hub + 1\<rparr>, log @ [th_rrCursor hub mod n])"
    if "th_subs hub = map log_handler [0..<n]" "de_Intent env \<noteq> IntentBroadcast" for env log and hub :: "(string, nat list) topicHub"
    using that assms(2) by (simp add: dispatch_def Let_def one)
  show "dispatch_all (\<lambda>_. False) envs hub log =
      Some (hub\<lparr>th_rrCursor := th_rrCursor hub + length envs\<rparr>,
            log @ map (\<lambda>k. (th_rrCursor hub + k) mod n) [0..<length envs])"
    using assms(1,3)
  proof (induction envs arbitrary: hub log)
    case Nil
    then show ?case by simp
  next
    case (Cons env envs)
    have "[0..<length (env # envs)] = 0 # map Suc [0..<length envs]"
      by (simp add: map_Suc_upt upt_conv_Cons del: upt_Suc)
    with Cons show ?case by (simp add: step o_def del: upt_Suc)
  qed
  show "distinct (map (\<lambda>k. (th_rrCursor hub + k) mod n) [0..<n])"
    by (auto simp: distinct_map intro: inj_on_shift_mod)
  have "fanout_all (\<lambda>_. False) (map log_handler is) bcast log = Some (log @ is)" for "is"
    by (induction "is" arbitrary: log) (simp_all add: one)
  with assms show "dispatch (\<lambda>_. False) bcast hub log = Some (hub, log @ [0..<n])"
    by (simp add: dispatch_def)
qed

lemma round_robin_witness:
  "dispatch_all (\<lambda>_. False) [demo_envelope, demo_envelope, demo_envelope] (new_hub\<lparr>th_subs := map log_handler [0..<2]\<rparr>) [] =
     Some (new_hub\<lparr>th_subs := map log_handler [0..<2], th_rrCursor := 3\<rparr>, [0, 1, 0])"
  using round_robin [of "new_hub\<lparr>th_subs := map log_handler [0..<2]\<rparr>" 2 "[demo_envelope, demo_envelope, demo_envelope]"
      "demo_envelope\<lparr>de_Intent := IntentBroadcast\<rparr>" "[]"]
  by (simp add: demo_envelope_def new_hub_def upt_rec del: dispatch_all.simps)

lemma invoke_counted:
  "invoke (counted handler) env (s, m) = map_option (\<lambda>(ok, s). (ok, (s, m + 1))) (invoke handler env s)"
  by (cases "handler env s") (auto simp: invoke_def counted_def)

lemma retry_calls:
  "retry (\<lambda>_. False) (counted handler) env n (s, m) = Some (s', m') \<Longrightarrow>
     m \<le> m' \<and> m' \<le> m + n \<and> (0 < n \<longrightarrow> m < m') \<and>
     (m' < m + n \<longrightarrow> (\<exists>s0. invoke handler env s0 = Some (True, s')))"
proof (induction n arbitrary: s m)
  case 0
  then show ?case by simp
next
  case (Suc n)
  from Suc.prems obtain ok s1 where inv: "invoke handler env s = Some (ok, s1)"
    and rest: "(if ok then Some (s1, Suc m) else retry (\<lambda>_. False) (counted handler) env n (s1, Suc m)) = Some (s', m')"
    by (auto simp: invoke_counted split: bind_splits)
  show ?case
  proof (cases ok)
    case True
    with inv rest show ?thesis by auto
  next
    case False
    with rest Suc.IH [of s1 "Suc m"] show ?thesis by auto
  qed
qed

text \<open>a handler is called at least once and at most four times for an envelope, whether it fails or
  panics, and the loop goes on past a poisonous one: when fewer than four calls were made, the last
  one succeeded.\<close>

theorem redelivery_bounded:
  assumes "deliverWithRetry (\<lambda>_. False) (counted handler) env (s, 0) = Some (s', calls)"
  shows "1 \<le> calls \<and> calls \<le> maxRedeliver + 1 \<and>
    (calls < maxRedeliver + 1 \<longrightarrow> (\<exists>s0. invoke handler env s0 = Some (True, s')))"
  using retry_calls [OF assms [unfolded deliverWithRetry_def]] by auto

definition panicking :: "(string, unit) EventHandler" where
  "panicking env s = Some (Panic, s)"

lemma redelivery_bounded_witness:
  "deliverWithRetry (\<lambda>_. False) (counted panicking) demo_envelope ((), 0) = Some ((), 4) \<and> (1::nat) \<le> 4"
proof -
  have run: "deliverWithRetry (\<lambda>_. False) (counted panicking) demo_envelope ((), 0) = Some ((), 4)"
    by (simp add: deliverWithRetry_def maxRedeliver_def invoke_def counted_def panicking_def eval_nat_numeral)
  with redelivery_bounded [OF run] show ?thesis by simp
qed

lemma invoke_consumer:
  "invoke (consumer_handler deliver h clock ctx) env (m, st) =
     map_option (\<lambda>(err, st'). (err = None, (m + 1, st'))) (handle deliver h (clock m) ctx (Some env) st)"
  by (cases "handle deliver h (clock m) ctx (Some env) st") (auto simp: invoke_def consumer_handler_def HandleDeliver_def)

lemma retry_consumer:
  assumes rel: "reliable h env msg" and port: "port_ok deliver"
  shows "dedup_rel start p dw g \<Longrightarrow> snd g (FormatDedupKey msg) = None \<Longrightarrow>
    \<exists>m' dw' s' log'. retry (\<lambda>_. False) (consumer_handler (logged deliver) h clock ctx) env n (m, dw, (s, log)) =
        Some (m', dw', (s', log @ log')) \<and>
      ((\<exists>k<n. log' = replicate k False @ [True]) \<or> log' = replicate n False)"
proof (induction n arbitrary: m dw g s log)
  case 0
  then show ?case by simp
next
  case (Suc n)
  from rel port Suc.prems show ?case
  proof (cases rule: handle_fresh [where now = "clock m" and ctx = ctx and s = s and log = log])
    case (accepted dw' s')
    then show ?thesis by (force simp: invoke_consumer)
  next
    case (refused errs dw1 s1)
    from Suc.IH [OF refused(2), of "m + 1" s1 "log @ [False]"] Suc.prems(2) obtain m' dw' s' log'
      where run: "retry (\<lambda>_. False) (consumer_handler (logged deliver) h clock ctx) env n (m + 1, dw1, (s1, log @ [False])) =
          Some (m', dw', (s', (log @ [False]) @ log'))"
        and log': "(\<exists>k<n. log' = replicate k False @ [True]) \<or> log' = replicate n False" by auto
    from log' have "(\<exists>k<Suc n. False # log' = replicate k False @ [True]) \<or> False # log' = replicate (Suc n) False"
      by (metis Suc_less_eq append_Cons replicate_Suc)
    with run refused(1) show ?thesis
      by (intro exI [of _ m'] exI [of _ dw'] exI [of _ s'] exI [of _ "False # log'"])
         (simp add: invoke_consumer)
  qed
qed

text \<open>bus, consumer and duplicate filter together.  When the bus redelivers a reliable envelope to the
  consumer, the call returns, and either the delivery port accepted the message exactly once, in
  the last of at most four attempts, or it refused four times and the envelope is dropped.\<close>

theorem bus_consumer_once:
  assumes "reliable h env msg" and "port_ok deliver" and "ttl \<noteq> 1" and "shards < 2 ^ 32"
    and "dedup_run ops (NewDedupWindow start ttl shards) = Some (vs, dw)"
    and "list_all (\<lambda>ev. op_key ev \<noteq> FormatDedupKey msg) ops"
  shows "\<exists>calls dw' s' log.
    deliverWithRetry (\<lambda>_. False) (consumer_handler (logged deliver) h clock ctx) env (0, dw, (s, [])) =
      Some (calls, dw', (s', log)) \<and>
    ((\<exists>k\<le>maxRedeliver. log = replicate k False @ [True]) \<or> log = replicate (maxRedeliver + 1) False)"
proof -
  from dedup_rel_run [OF dedup_rel_new [OF assms(3,4), of start], of ops] assms(5)
  have "dedup_rel start (period_of ttl) dw (snd (gen_run start (period_of ttl) ops no_gens))" by auto
  from retry_consumer [OF assms(1,2) this, of clock ctx "maxRedeliver + 1" 0 s "[]"]
    gen_run_other [OF assms(6), of start "period_of ttl" no_gens]
  show ?thesis by (auto simp: deliverWithRetry_def less_Suc_eq_le)
qed

lemma bus_consumer_once_witness:
  "\<exists>calls dw' s' log.
    deliverWithRetry (\<lambda>_. False) (consumer_handler (logged flaky_port) \<lparr>dh_next = 0, dh_objs = \<lambda>_. []\<rparr> (\<lambda>n. int n) demo_ctx)
      demo_envelope (0, NewDedupWindow 0 0 0, (2, [])) = Some (calls, dw', (s', log)) \<and>
    ((\<exists>k\<le>maxRedeliver. log = replicate k False @ [True]) \<or> log = replicate (maxRedeliver + 1) False)"
  by (rule bus_consumer_once [OF demo_reliable flaky_port_ok, of 0 0 "[]"]) simp_all

end
