(* ===== verification/Ack.thy ===== *)
theory Ack
  imports Message
begin

text \<open>
  Confirmation of messages: messaging/ack.go, and the timer keys of messaging/ack_timer.go.

  \<^item> \<open>AckManager\<close> holds pointers to \<open>PendingMessage\<close> objects, which the waiting goroutine shares: the
    objects live in a heap.  The sharded map is a Go map here: its shards are not visible.
  \<^item> A context is its deadline and whether it was cancelled.
  \<^item> Durations are \<open>time.Duration\<close>, so \<open>int64\<close>: \<open>int64\<close> wraps the product in
    \<open>AddPendingMessageWithExpire\<close>.
  \<^item> \<open>wait_step\<close> interleaves \<open>WaitForAckWithRetry\<close>, split at every communication, with the
    confirmation (first the send, then the cancel), expiry of the context and the timer.
  \<^item> The backoff strategy and the offline store are fields that no function reads.
\<close>

section \<open>Data\<close>

definition int64 :: "int \<Rightarrow> int" where
  "int64 x = (x + 2 ^ 63) mod 2 ^ 64 - 2 ^ 63"

abbreviation second :: int where "second \<equiv> 1000000000"

datatype AckStatus = AckStatusPending | AckStatusConfirmed | AckStatusTimeout | AckStatusFailed

record AckMessage =
  ak_MessageID :: string
  ak_Status :: AckStatus
  ak_Timestamp :: int
  ak_Error :: string

record PendingMessage =
  pm_Message :: HubMessage
  pm_AckChan :: "AckMessage list"
  pm_Timestamp :: int
  pm_Timeout :: int
  pm_Retry :: int
  pm_MaxRetry :: int
  pm_deadline :: int
  pm_cancelled :: bool

definition ctx_done :: "int \<Rightarrow> PendingMessage \<Rightarrow> bool" where
  "ctx_done now pm \<longleftrightarrow> pm_cancelled pm \<or> pm_deadline pm \<le> now"

record AckManager =
  am_pending :: "(string, nat) gomap"
  am_timeout :: int
  am_maxRetry :: int
  am_expireDuration :: int
  am_objs :: "nat \<Rightarrow> PendingMessage"
  am_next :: nat

definition IfLeZero :: "int \<Rightarrow> int \<Rightarrow> int" where
  "IfLeZero v d = (if v \<le> 0 then d else v)"

section \<open>Operations\<close>

definition NewAckManagerWithOptions :: "int \<Rightarrow> int \<Rightarrow> int \<Rightarrow> (nat \<Rightarrow> PendingMessage) \<Rightarrow> AckManager" where
  "NewAckManagerWithOptions ackTimeout maxRetry expireDuration objs =
     \<lparr>am_pending = [], am_timeout = IfLeZero ackTimeout (5 * second), am_maxRetry = IfLeZero maxRetry 3,
      am_expireDuration = IfLeZero expireDuration (300 * second), am_objs = objs, am_next = 0\<rparr>"

definition NewAckManager :: "int \<Rightarrow> int \<Rightarrow> (nat \<Rightarrow> PendingMessage) \<Rightarrow> AckManager" where
  "NewAckManager ackTimeout maxRetry objs = NewAckManagerWithOptions ackTimeout maxRetry 0 objs"

definition contextTimeout :: "int \<Rightarrow> int \<Rightarrow> int \<Rightarrow> int" where
  "contextTimeout timeout maxRetry expireDuration =
     (let t = int64 (int64 (timeout * int64 (maxRetry + 1)) + second)
      in if 0 < expireDuration \<and> expireDuration < t then expireDuration else t)"

definition AddPendingMessageWithExpire :: "int \<Rightarrow> HubMessage \<Rightarrow> int \<Rightarrow> int \<Rightarrow> AckManager \<Rightarrow> nat \<times> AckManager" where
  "AddPendingMessageWithExpire now msg timeout maxRetry am =
     (let timeout = IfLeZero timeout (am_timeout am);
          maxRetry = IfLeZero maxRetry (am_maxRetry am);
          pm = \<lparr>pm_Message = msg, pm_AckChan = [], pm_Timestamp = now, pm_Timeout = timeout, pm_Retry = 0,
                pm_MaxRetry = maxRetry, pm_deadline = now + contextTimeout timeout maxRetry (am_expireDuration am),
                pm_cancelled = False\<rparr>
      in (am_next am, am\<lparr>am_objs := (am_objs am)(am_next am := pm), am_next := am_next am + 1,
            am_pending := AList.update (hm_MessageID msg) (am_next am) (am_pending am)\<rparr>))"

definition AddPendingMessage :: "int \<Rightarrow> HubMessage \<Rightarrow> AckManager \<Rightarrow> nat \<times> AckManager" where
  "AddPendingMessage now msg am = AddPendingMessageWithExpire now msg (am_timeout am) (am_maxRetry am) am"

definition pm_cancel :: "nat \<Rightarrow> AckManager \<Rightarrow> AckManager" where
  "pm_cancel p am = am\<lparr>am_objs := (am_objs am)(p := (am_objs am p)\<lparr>pm_cancelled := True\<rparr>)\<rparr>"

text \<open>The acknowledgement channel has room for one.\<close>

definition pm_send :: "nat \<Rightarrow> AckMessage \<Rightarrow> AckManager \<Rightarrow> bool \<times> AckManager" where
  "pm_send p ack am =
     (if length (pm_AckChan (am_objs am p)) < 1
      then (True, am\<lparr>am_objs := (am_objs am)(p := (am_objs am p)\<lparr>pm_AckChan := pm_AckChan (am_objs am p) @ [ack]\<rparr>)\<rparr>)
      else (False, am))"

definition ConfirmMessage :: "string \<Rightarrow> AckMessage \<Rightarrow> AckManager \<Rightarrow> bool \<times> AckManager" where
  "ConfirmMessage messageID ack am =
     (case map_of (am_pending am) messageID of
        None \<Rightarrow> (False, am)
      | Some p \<Rightarrow>
          (let am = am\<lparr>am_pending := AList.delete messageID (am_pending am)\<rparr>
           in case pm_send p ack am of (sent, am) \<Rightarrow> (sent, pm_cancel p am)))"

definition RemovePendingMessage :: "string \<Rightarrow> AckManager \<Rightarrow> AckManager" where
  "RemovePendingMessage messageID am =
     (case map_of (am_pending am) messageID of
        None \<Rightarrow> am
      | Some p \<Rightarrow> pm_cancel p (am\<lparr>am_pending := AList.delete messageID (am_pending am)\<rparr>))"

definition GetPendingMessage :: "string \<Rightarrow> AckManager \<Rightarrow> nat option" where
  "GetPendingMessage messageID am = map_of (am_pending am) messageID"

text \<open>\<open>CleanupExpired\<close> has two phases: the range that collects the expired keys, and the deletions.\<close>

definition cleanup_collect :: "int \<Rightarrow> AckManager \<Rightarrow> string list \<times> AckManager" where
  "cleanup_collect now am =
     (let hits = filter (\<lambda>(msgID, p). ctx_done now (am_objs am p)) (am_pending am)
      in (map fst hits, fold (\<lambda>(msgID, p). pm_cancel p) hits am))"

definition cleanup_delete :: "string list \<Rightarrow> AckManager \<Rightarrow> AckManager" where
  "cleanup_delete expired am = am\<lparr>am_pending := fold AList.delete expired (am_pending am)\<rparr>"

definition CleanupExpired :: "int \<Rightarrow> AckManager \<Rightarrow> nat \<times> AckManager" where
  "CleanupExpired now am =
     (case cleanup_collect now am of (expired, am) \<Rightarrow> (length expired, cleanup_delete expired am))"

definition GetPendingCount :: "AckManager \<Rightarrow> nat" where
  "GetPendingCount am = length (am_pending am)"

definition SetExpireDuration :: "int \<Rightarrow> AckManager \<Rightarrow> AckManager" where
  "SetExpireDuration duration am = am\<lparr>am_expireDuration := duration\<rparr>"

definition GetTimeout :: "AckManager \<Rightarrow> int" where
  "GetTimeout am = am_timeout am"

definition GetMaxRetry :: "AckManager \<Rightarrow> int" where
  "GetMaxRetry am = am_maxRetry am"

definition Ack_Shutdown :: "AckManager \<Rightarrow> AckManager" where
  "Ack_Shutdown am = (fold (\<lambda>(msgID, p). pm_cancel p) (am_pending am) am)\<lparr>am_pending := []\<rparr>"

section \<open>Waiting\<close>

datatype wait_error = AckTimeout | AckTimeoutRetries int | ContextCancelled | RetryFailed

text \<open>\<open>WaitForAck\<close>: a select between the channel and the context; when both are ready either may be taken.\<close>

inductive WaitForAck :: "AckMessage list \<Rightarrow> bool \<Rightarrow> wait_error + AckMessage \<Rightarrow> bool" where
  got_ack: "WaitForAck (ack # rest) ctxdone (Inr ack)"
| got_done: "WaitForAck chan True (Inl AckTimeout)"

inductive_simps WaitForAck_simps: "WaitForAck chan ctxdone r"

datatype wait_pc =
    Selecting
  | TimerCheck
  | Retrying
  | Rechecking
  | DoneCheck
  | Returned "wait_error + AckMessage"

record wait_state =
  ws_pc :: wait_pc
  ws_chan :: "AckMessage list"
  ws_retry :: int
  ws_maxRetry :: int
  ws_timer :: bool
  ws_fired :: bool
  ws_done :: bool
  ws_sent :: "AckMessage option"
  ws_calls :: nat
  ws_late :: bool

text \<open>
  Steps of the waiting goroutine.  \<open>ws_timer\<close>: the timer is armed; \<open>ws_fired\<close>: its channel holds a
  tick.  \<open>failing\<close> is whether the retry function returns an error.
\<close>

inductive waiter :: "wait_state \<Rightarrow> wait_state \<Rightarrow> bool" where
  select_ack: "ws_pc s = Selecting \<Longrightarrow> ws_chan s = ack # rest \<Longrightarrow>
    waiter s (s\<lparr>ws_chan := rest, ws_pc := Returned (Inr ack)\<rparr>)"
| select_timer: "ws_pc s = Selecting \<Longrightarrow> ws_fired s \<Longrightarrow> waiter s (s\<lparr>ws_fired := False, ws_pc := TimerCheck\<rparr>)"
| select_done: "ws_pc s = Selecting \<Longrightarrow> ws_done s \<Longrightarrow> waiter s (s\<lparr>ws_pc := DoneCheck\<rparr>)"
| timer_ack: "ws_pc s = TimerCheck \<Longrightarrow> ws_chan s = ack # rest \<Longrightarrow>
    waiter s (s\<lparr>ws_chan := rest, ws_pc := Returned (Inr ack)\<rparr>)"
| timer_none: "ws_pc s = TimerCheck \<Longrightarrow> ws_chan s = [] \<Longrightarrow>
    waiter s (if ws_maxRetry s \<le> ws_retry s then s\<lparr>ws_pc := Returned (Inl (AckTimeoutRetries (ws_retry s)))\<rparr>
              else s\<lparr>ws_retry := ws_retry s + 1, ws_pc := Retrying\<rparr>)"
| retry_call: "ws_pc s = Retrying \<Longrightarrow>
    waiter s (if failing then s\<lparr>ws_calls := ws_calls s + 1, ws_pc := Returned (Inl RetryFailed)\<rparr>
              else s\<lparr>ws_calls := ws_calls s + 1, ws_timer := True, ws_fired := False, ws_pc := Rechecking\<rparr>)"
| recheck_ack: "ws_pc s = Rechecking \<Longrightarrow> ws_chan s = ack # rest \<Longrightarrow>
    waiter s (s\<lparr>ws_chan := rest, ws_pc := Returned (Inr ack)\<rparr>)"
| recheck_none: "ws_pc s = Rechecking \<Longrightarrow> ws_chan s = [] \<Longrightarrow> waiter s (s\<lparr>ws_pc := Selecting\<rparr>)"
| done_ack: "ws_pc s = DoneCheck \<Longrightarrow> ws_chan s = ack # rest \<Longrightarrow>
    waiter s (s\<lparr>ws_chan := rest, ws_pc := Returned (Inr ack)\<rparr>)"
| done_none: "ws_pc s = DoneCheck \<Longrightarrow> ws_chan s = [] \<Longrightarrow>
    waiter s (s\<lparr>ws_pc := Returned (Inl ContextCancelled)\<rparr>)"

inductive_cases waiterE: "waiter s t"

text \<open>The rest of the world: a confirmation sends once and then cancels, the context may end at any
  time, the armed timer fires.\<close>

inductive world :: "wait_state \<Rightarrow> wait_state \<Rightarrow> bool" where
  confirm_send: "ws_sent s = None \<Longrightarrow>
    world s (s\<lparr>ws_chan := ws_chan s @ [ack], ws_sent := Some ack, ws_late := (\<exists>r. ws_pc s = Returned r)\<rparr>)"
| ctx_end: "world s (s\<lparr>ws_done := True\<rparr>)"
| timer_fires: "ws_timer s \<Longrightarrow> world s (s\<lparr>ws_timer := False, ws_fired := True\<rparr>)"

inductive_cases worldE: "world s t"

definition wait_step :: "wait_state \<Rightarrow> wait_state \<Rightarrow> bool" where
  "wait_step s t \<longleftrightarrow> waiter s t \<or> world s t"

definition wait_init :: "int \<Rightarrow> wait_state \<Rightarrow> bool" where
  "wait_init maxRetry s \<longleftrightarrow> s = \<lparr>ws_pc = Selecting, ws_chan = [], ws_retry = 0, ws_maxRetry = maxRetry, ws_timer = True,
     ws_fired = False, ws_done = False, ws_sent = None, ws_calls = 0, ws_late = False\<rparr>"

section \<open>Timer keys\<close>

record MessageRecordKey =
  rk_MessageID :: string
  rk_Receiver :: string

definition ackTimerKey :: "MessageRecordKey \<Rightarrow> string" where
  "ackTimerKey key = rk_MessageID key @ ''|'' @ rk_Receiver key"

section \<open>Lemmas on waiting\<close>

definition wait_inv :: "int \<Rightarrow> wait_state \<Rightarrow> bool" where
  "wait_inv maxRetry s \<longleftrightarrow>
     ws_maxRetry s = maxRetry \<and> 0 \<le> ws_retry s \<and> ws_retry s \<le> maxRetry \<and>
     int (ws_calls s) = ws_retry s - (if ws_pc s = Retrying then 1 else 0) \<and>
     (case ws_pc s of
        Returned (Inr ack) \<Rightarrow> ws_sent s = Some ack \<and> ws_chan s = []
      | _ \<Rightarrow> ws_chan s = (case ws_sent s of None \<Rightarrow> [] | Some ack \<Rightarrow> [ack])) \<and>
     (\<forall>e. ws_pc s = Returned (Inl e) \<and> ws_sent s \<noteq> None \<and> \<not> ws_late s \<longrightarrow> e = RetryFailed) \<and>
     (\<forall>n. ws_pc s = Returned (Inl (AckTimeoutRetries n)) \<longrightarrow> n = maxRetry) \<and>
     (ws_pc s \<in> {Selecting, Rechecking} \<longrightarrow> ws_timer s \<or> ws_fired s) \<and>
     (ws_pc s \<in> {Retrying, Rechecking} \<longrightarrow> 1 \<le> ws_retry s)"

lemma wait_inv_waiter:
  assumes "waiter s t" and "wait_inv maxRetry s"
  shows "wait_inv maxRetry t"
  using assms
  by (elim waiterE) (auto simp: wait_inv_def split: wait_pc.splits sum.splits option.splits)

lemma wait_inv_world:
  assumes "world s t" and "wait_inv maxRetry s"
  shows "wait_inv maxRetry t"
  using assms
  by (elim worldE) (auto simp: wait_inv_def split: wait_pc.splits sum.splits option.splits)

definition wait_sys :: "int \<Rightarrow> wait_state \<Rightarrow> bool" where
  "wait_sys maxRetry s \<longleftrightarrow> (0 \<le> maxRetry \<longrightarrow> wait_inv maxRetry s)"

lemma wait_sys_init: "wait_init maxRetry s \<Longrightarrow> wait_sys maxRetry s"
  by (simp add: wait_sys_def wait_init_def wait_inv_def)

lemma wait_sys_step: "wait_sys maxRetry s \<Longrightarrow> wait_step s t \<Longrightarrow> wait_sys maxRetry t"
  unfolding wait_sys_def wait_step_def by (blast intro: wait_inv_waiter wait_inv_world)

interpretation ack_wait: invariant_system "wait_init maxRetry" wait_step "wait_sys maxRetry"
  by unfold_locales (fact wait_sys_init wait_sys_step)+

text \<open>How many steps the waiting goroutine can still take.\<close>

fun pc_rank :: "wait_pc \<Rightarrow> nat" where
  "pc_rank Selecting = 2"
| "pc_rank TimerCheck = 1"
| "pc_rank DoneCheck = 1"
| "pc_rank Retrying = 4"
| "pc_rank Rechecking = 3"
| "pc_rank (Returned r) = 0"

definition wait_rank :: "wait_state \<Rightarrow> nat" where
  "wait_rank s = (case ws_pc s of Returned r \<Rightarrow> 0 | pc \<Rightarrow> 5 * nat (ws_maxRetry s - ws_retry s) + pc_rank pc)"

lemma wait_rank_waiter: "waiter s t \<Longrightarrow> wait_rank t < wait_rank s"
  by (elim waiterE) (auto simp: wait_rank_def split: wait_pc.splits)

lemma wait_rank_world: "world s t \<Longrightarrow> wait_rank t = wait_rank s"
  by (elim worldE) (auto simp: wait_rank_def split: wait_pc.splits)

lemma wait_rank_bound:
  assumes "wait_inv maxRetry s"
  shows "wait_rank s \<le> 5 * nat maxRetry + 2"
proof -
  let ?d = "nat (ws_maxRetry s - ws_retry s)"
  from assms have "?d \<le> nat maxRetry" by (auto simp: wait_inv_def)
  moreover have "Suc ?d \<le> nat maxRetry" if "ws_pc s \<in> {Retrying, Rechecking}"
    using assms that by (auto simp: wait_inv_def)
  ultimately show ?thesis by (cases "ws_pc s") (auto simp: wait_rank_def)
qed

lemma waiter_enabled:
  assumes "wait_inv maxRetry s" and "\<forall>r. ws_pc s \<noteq> Returned r"
  shows "(\<exists>t. waiter s t) \<or> ws_timer s"
proof (cases "ws_chan s")
  case Nil
  with assms show ?thesis
    by (cases "ws_pc s") (auto simp: wait_inv_def intro: waiter.intros)
next
  case (Cons ack rest)
  with assms show ?thesis
    by (cases "ws_pc s") (auto intro: waiter.intros)
qed

section \<open>Lemmas on the manager\<close>

datatype ack_op =
    OpAdd int HubMessage int int
  | OpConfirm string AckMessage
  | OpRemove string
  | OpCollect int
  | OpDelete "string list"
  | OpExpire int
  | OpShutdown

fun ack_apply :: "ack_op \<Rightarrow> AckManager \<Rightarrow> AckManager" where
  "ack_apply (OpAdd now msg timeout maxRetry) am = snd (AddPendingMessageWithExpire now msg timeout maxRetry am)"
| "ack_apply (OpConfirm messageID ack) am = snd (ConfirmMessage messageID ack am)"
| "ack_apply (OpRemove messageID) am = RemovePendingMessage messageID am"
| "ack_apply (OpCollect now) am = snd (cleanup_collect now am)"
| "ack_apply (OpDelete ids) am = cleanup_delete ids am"
| "ack_apply (OpExpire d) am = SetExpireDuration d am"
| "ack_apply OpShutdown am = Ack_Shutdown am"

text \<open>Pointers in the map are allocated, filed once, and nothing was sent to them.\<close>

definition am_inv :: "AckManager \<Rightarrow> bool" where
  "am_inv am \<longleftrightarrow> gm_wf (am_pending am) \<and>
     (\<forall>k p. map_of (am_pending am) k = Some p \<longrightarrow> p < am_next am \<and> pm_AckChan (am_objs am p) = []) \<and>
     (\<forall>k k' p. map_of (am_pending am) k = Some p \<and> map_of (am_pending am) k' = Some p \<longrightarrow> k = k')"

lemma pm_cancel_simps [simp]:
  "am_pending (pm_cancel p am) = am_pending am" "am_next (pm_cancel p am) = am_next am"
  "pm_AckChan (am_objs (pm_cancel p am) q) = pm_AckChan (am_objs am q)"
  "pm_cancelled (am_objs (pm_cancel p am) q) = (q = p \<or> pm_cancelled (am_objs am q))"
  by (simp_all add: pm_cancel_def)

lemma fold_cancel_simps [simp]:
  "am_pending (fold (\<lambda>(k, p). pm_cancel p) ps am) = am_pending am"
  "am_next (fold (\<lambda>(k, p). pm_cancel p) ps am) = am_next am"
  "pm_AckChan (am_objs (fold (\<lambda>(k, p). pm_cancel p) ps am) q) = pm_AckChan (am_objs am q)"
  by (induction ps arbitrary: am) auto

lemma map_of_fold_delete:
  "map_of (fold AList.delete ks m) k = (if k \<in> set ks then None else map_of m k)"
  by (induction ks arbitrary: m) (auto simp: map_of_delete)

lemma gm_wf_fold_delete: "gm_wf m \<Longrightarrow> gm_wf (fold AList.delete ks m)"
  by (induction ks arbitrary: m) auto

lemma am_inv_confirm: "am_inv am \<Longrightarrow> am_inv (snd (ConfirmMessage messageID ack am))"
  by (auto simp: am_inv_def ConfirmMessage_def pm_send_def Let_def map_of_delete split: option.splits)

lemma am_inv_add: "am_inv am \<Longrightarrow> am_inv (snd (AddPendingMessageWithExpire now msg timeout maxRetry am))"
  by (auto simp: am_inv_def AddPendingMessageWithExpire_def Let_def map_of_update split: if_splits) (metis less_irrefl less_SucI)+

lemma am_inv_apply: "am_inv am \<Longrightarrow> am_inv (ack_apply ev am)"
proof (cases ev)
  case (OpAdd now msg timeout maxRetry)
  then show "am_inv am \<Longrightarrow> ?thesis" by (simp add: am_inv_add)
next
  case (OpConfirm messageID ack)
  then show "am_inv am \<Longrightarrow> ?thesis" by (simp add: am_inv_confirm)
next
  case (OpRemove messageID)
  then show "am_inv am \<Longrightarrow> ?thesis"
    by (auto simp: am_inv_def RemovePendingMessage_def map_of_delete split: option.splits if_splits)
next
  case (OpDelete ids)
  then show "am_inv am \<Longrightarrow> ?thesis"
    by (auto simp: am_inv_def cleanup_delete_def map_of_fold_delete gm_wf_fold_delete split: if_splits)
qed (auto simp: am_inv_def cleanup_collect_def SetExpireDuration_def Ack_Shutdown_def Let_def)

definition ack_run :: "ack_op list \<Rightarrow> AckManager \<Rightarrow> AckManager" where
  "ack_run ops am = fold ack_apply ops am"

lemma am_inv_run: "am_inv (ack_run ops (NewAckManagerWithOptions t r x objs))"
proof -
  have "am_inv am \<Longrightarrow> am_inv (ack_run ops am)" for am
    by (induction ops arbitrary: am) (simp_all add: ack_run_def am_inv_apply)
  moreover have "am_inv (NewAckManagerWithOptions t r x objs)"
    by (simp add: am_inv_def NewAckManagerWithOptions_def)
  ultimately show ?thesis .
qed

section \<open>Properties\<close>

text \<open>C22: a waiter that retries.  In every interleaving with the confirmation, the timer and the end
  of the context, the retry function is called at most \<open>maxRetry\<close> times; an acknowledgement that is
  returned is the one that was sent; and when the confirmation was sent before the waiter gave up,
  the waiter returns it, unless the retry function itself failed.\<close>

theorem ack_wait_correct:
  assumes "reach (wait_init maxRetry) wait_step s" and "0 \<le> maxRetry"
  shows "int (ws_calls s) \<le> maxRetry \<and>
    (\<forall>ack. ws_pc s = Returned (Inr ack) \<longrightarrow> ws_sent s = Some ack) \<and>
    (\<forall>e. ws_pc s = Returned (Inl e) \<and> ws_sent s \<noteq> None \<and> \<not> ws_late s \<longrightarrow> e = RetryFailed) \<and>
    (\<forall>n. ws_pc s = Returned (Inl (AckTimeoutRetries n)) \<longrightarrow> n = maxRetry)"
proof -
  from ack_wait.reach_inv [OF assms(1)] assms(2) have "wait_inv maxRetry s" by (simp add: wait_sys_def)
  then show ?thesis by (auto simp: wait_inv_def split: if_splits)
qed

definition wait_start :: wait_state where
  "wait_start = \<lparr>ws_pc = Selecting, ws_chan = [], ws_retry = 0, ws_maxRetry = 3, ws_timer = True,
     ws_fired = False, ws_done = False, ws_sent = None, ws_calls = 0, ws_late = False\<rparr>"

definition demo_ack :: AckMessage where
  "demo_ack = \<lparr>ak_MessageID = ''m'', ak_Status = AckStatusConfirmed, ak_Timestamp = 1, ak_Error = []\<rparr>"

lemma wait_demo_reach:
  "reach (wait_init 3) wait_step (wait_start\<lparr>ws_sent := Some demo_ack, ws_pc := Returned (Inr demo_ack)\<rparr>)"
proof -
  let ?s1 = "wait_start\<lparr>ws_chan := [demo_ack], ws_sent := Some demo_ack\<rparr>"
  have 0: "reach (wait_init 3) wait_step wait_start"
    by (rule reach_init) (simp add: wait_init_def wait_start_def)
  have "wait_step wait_start ?s1"
    using confirm_send [of wait_start demo_ack] by (simp add: wait_step_def wait_start_def)
  with 0 have 1: "reach (wait_init 3) wait_step ?s1" by (rule reach_step)
  have "wait_step ?s1 (wait_start\<lparr>ws_sent := Some demo_ack, ws_pc := Returned (Inr demo_ack)\<rparr>)"
    using select_ack [of ?s1 demo_ack "[]"] by (simp add: wait_step_def wait_start_def)
  with 1 show ?thesis by (rule reach_step)
qed

lemma ack_wait_correct_witness:
  "ws_sent (wait_start\<lparr>ws_sent := Some demo_ack, ws_pc := Returned (Inr demo_ack)\<rparr>) = Some demo_ack \<and>
   int (ws_calls (wait_start\<lparr>ws_sent := Some demo_ack, ws_pc := Returned (Inr demo_ack)\<rparr>)) \<le> 3"
  using ack_wait_correct [OF wait_demo_reach] by simp

text \<open>C23: the retrying wait ends.  Every step of the waiting goroutine lowers a rank that starts at
  \<open>5 * maxRetry + 2\<close> and that nothing else changes, and until it has returned either it can move or its
  timer is armed.\<close>

theorem ack_wait_terminates:
  assumes "reach (wait_init maxRetry) wait_step s" and "0 \<le> maxRetry"
  shows "wait_rank s \<le> 5 * nat maxRetry + 2 \<and>
    (waiter s t \<longrightarrow> wait_rank t < wait_rank s) \<and> (world s t \<longrightarrow> wait_rank t = wait_rank s) \<and>
    ((\<forall>r. ws_pc s \<noteq> Returned r) \<longrightarrow> (\<exists>t. waiter s t) \<or> ws_timer s)"
proof -
  from ack_wait.reach_inv [OF assms(1)] assms(2) have inv: "wait_inv maxRetry s" by (simp add: wait_sys_def)
  from wait_rank_bound [OF inv] waiter_enabled [OF inv] show ?thesis
    by (auto dest: wait_rank_waiter wait_rank_world)
qed

lemma ack_wait_terminates_witness:
  "wait_rank (wait_start\<lparr>ws_sent := Some demo_ack, ws_pc := Returned (Inr demo_ack)\<rparr>) \<le> 17"
  using ack_wait_terminates [OF wait_demo_reach] by simp

text \<open>after any sequence of operations, a confirmation succeeds exactly for a pending message: it
  takes the message out, puts the acknowledgement into its channel and ends its context, and a
  second confirmation of the same identifier fails.\<close>

theorem confirm_exact:
  assumes "am = ack_run ops (NewAckManagerWithOptions t r x objs)"
  shows "fst (ConfirmMessage messageID ack am) = (map_of (am_pending am) messageID \<noteq> None) \<and>
    map_of (am_pending (snd (ConfirmMessage messageID ack am))) messageID = None \<and>
    fst (ConfirmMessage messageID ack' (snd (ConfirmMessage messageID ack am))) = False \<and>
    (\<forall>p. map_of (am_pending am) messageID = Some p \<longrightarrow>
       pm_AckChan (am_objs (snd (ConfirmMessage messageID ack am)) p) = [ack] \<and>
       pm_cancelled (am_objs (snd (ConfirmMessage messageID ack am)) p))"
proof -
  from am_inv_run [of ops t r x objs] have inv: "am_inv am" by (simp add: assms)
  then show ?thesis
    by (cases "map_of (am_pending am) messageID")
       (auto simp: am_inv_def ConfirmMessage_def pm_send_def Let_def map_of_delete)
qed

definition demo_am :: AckManager where
  "demo_am = ack_run [OpAdd 0 (zero_message\<lparr>hm_MessageID := ''m''\<rparr>) 0 0] (NewAckManagerWithOptions 0 0 0 (\<lambda>_. undefined))"

lemma confirm_exact_witness:
  "fst (ConfirmMessage ''m'' demo_ack demo_am)"
  using confirm_exact [OF demo_am_def, of "''m''" demo_ack]
  by (simp add: demo_am_def ack_run_def AddPendingMessageWithExpire_def Let_def NewAckManagerWithOptions_def)

text \<open>the confirmation sends the acknowledgement before it ends the context, but the simple wait does
  not look at the channel again: after a successful confirmation it may still report a timeout.\<close>

theorem simple_wait_race:
  assumes "am = ack_run ops (NewAckManagerWithOptions t r x objs)" and "map_of (am_pending am) messageID = Some p"
    and pm: "pm = am_objs (snd (ConfirmMessage messageID ack am)) p"
  shows "fst (ConfirmMessage messageID ack am) \<and>
    WaitForAck (pm_AckChan pm) (ctx_done now pm) (Inl AckTimeout) \<and>
    WaitForAck (pm_AckChan pm) (ctx_done now pm) (Inr ack)"
proof -
  from am_inv_run [of ops t r x objs] have inv: "am_inv am" by (simp add: assms(1))
  with assms(2) have "fst (ConfirmMessage messageID ack am)" "pm_AckChan pm = [ack]" "pm_cancelled pm"
    by (auto simp: pm am_inv_def ConfirmMessage_def pm_send_def Let_def)
  then show ?thesis by (simp add: WaitForAck_simps ctx_done_def)
qed

lemma simple_wait_race_witness:
  "WaitForAck (pm_AckChan (am_objs (snd (ConfirmMessage ''m'' demo_ack demo_am)) 0))
     (ctx_done 0 (am_objs (snd (ConfirmMessage ''m'' demo_ack demo_am)) 0)) (Inl AckTimeout)"
  using simple_wait_race [OF demo_am_def _ refl, of "''m''" 0 demo_ack 0]
  by (simp add: demo_am_def ack_run_def AddPendingMessageWithExpire_def Let_def NewAckManagerWithOptions_def)

definition msg_m :: HubMessage where
  "msg_m = zero_message\<lparr>hm_MessageID := ''m''\<rparr>"

text \<open>the clean-up deletes by identifier what it collected by context: a message that is added under the
  same identifier in between is dropped although its context is alive, and can no longer be
  confirmed.\<close>

theorem cleanup_drops_fresh:
  "let am0 = ack_run [OpAdd 0 msg_m second 1] (NewAckManagerWithOptions 0 0 0 objs);
       now = 10 * second;
       (expired, am1) = cleanup_collect now am0;
       (p, am2) = AddPendingMessageWithExpire now msg_m second 1 am1;
       am3 = cleanup_delete expired am2
   in \<not> ctx_done now (am_objs am3 p) \<and> am_pending am2 = [(''m'', p)] \<and> am_pending am3 = [] \<and>
      fst (ConfirmMessage ''m'' demo_ack am3) = False"
  by (simp add: ack_run_def AddPendingMessageWithExpire_def Let_def NewAckManagerWithOptions_def IfLeZero_def
      contextTimeout_def int64_def cleanup_collect_def cleanup_delete_def ctx_done_def msg_m_def ConfirmMessage_def
      pm_cancel_def)

text \<open>the context of a pending message outlives every retry timer by a second: as long as the product
  does not overflow and the expiry is not shorter, it ends a second after the last of
  \<open>maxRetry + 1\<close> timeouts; and it never outlives a positive expiry.\<close>

theorem ack_context_bound:
  assumes "0 < timeout" and "0 < maxRetry" and "timeout * (maxRetry + 1) + second < 2 ^ 63"
  shows "contextTimeout timeout maxRetry expire =
      (if 0 < expire then min expire (timeout * (maxRetry + 1) + second) else timeout * (maxRetry + 1) + second) \<and>
    0 < contextTimeout timeout maxRetry expire"
proof -
  have small: "int64 v = v" if "0 \<le> v" "v < 2 ^ 63" for v
    using that by (simp add: int64_def)
  have "maxRetry + 1 \<le> timeout * (maxRetry + 1)" using assms(1,2) by simp
  with assms(2,3) have lim: "0 < maxRetry + 1" "maxRetry + 1 < 2 ^ 63" "0 < timeout * (maxRetry + 1)" "timeout * (maxRetry + 1) < 2 ^ 63"
    by linarith+
  with small [of "maxRetry + 1"] small [of "timeout * (maxRetry + 1)"] small [of "timeout * (maxRetry + 1) + second"] assms(3)
  have "int64 (maxRetry + 1) = maxRetry + 1" "int64 (timeout * (maxRetry + 1)) = timeout * (maxRetry + 1)"
    "int64 (timeout * (maxRetry + 1) + second) = timeout * (maxRetry + 1) + second" "0 < timeout * (maxRetry + 1)"
    by auto
  then show ?thesis by (simp add: contextTimeout_def Let_def min_def)
qed

lemma ack_context_bound_witness:
  "contextTimeout (5 * second) 3 (300 * second) = 21 * second"
  using ack_context_bound [of "5 * second" 3 "300 * second"] by simp

text \<open>Timers of different records have different keys as long as message identifiers carry no bar.\<close>

lemma ackTimerKey_inj:
  assumes "CHR ''|'' \<notin> set (rk_MessageID k1)" and "CHR ''|'' \<notin> set (rk_MessageID k2)"
  shows "ackTimerKey k1 = ackTimerKey k2 \<longleftrightarrow> k1 = k2"
  using append_sep_eq [OF assms, of "rk_Receiver k1" "rk_Receiver k2"] by (cases k1; cases k2) (auto simp: ackTimerKey_def)

end
