(* ===== verification/Supervision.thy ===== *)
theory Supervision
  imports Registry_Correct
begin

text \<open>
  Supervision of connections on the registry and the clients: connection/capacity.go,
  connection/control_lane.go, connection/heartbeat.go and connection/slow_consumer.go.

  \<^item> \<open>ConnState\<close> is what the managers share: the clients (a heap), the backlog counters, the data
    maps of messages, the registry, and a trace of the calls that leave the package: the ports
    of the hub, the timer wheel, the socket.
  \<^item> Configuration records of the go-config package are records of the fields that are read.
  \<^item> The encoder of messages is the parameter \<open>marshal\<close>; callbacks are parameters.
  \<^item> \<open>ScanOnce\<close> visits the clients one after the other: the source visits shards in parallel, but
    each client in one of them only.
  \<^item> The backlog ratio is kept in ten-thousandths; \<open>0.9\<close> is exactly 9000 of them.
\<close>

section \<open>State and effects\<close>

datatype effect =
    FxSendToClient nat HubMessage
  | FxUnregister nat
  | FxTimerSchedule string int nat
  | FxTimerRefresh string int nat
  | FxTimerCancel string
  | FxRenew nat
  | FxReport nat
  | FxAfter nat
  | FxStats nat
  | FxTimeoutCallback string string "int option"
  | FxEvicted nat int int
  | FxGoingAway nat
  | FxConnClose nat
  | FxCloseSSE nat
  | FxDoubleClose nat

record ConnState =
  cs_heap :: heap
  cs_ctr :: counters
  cs_data :: DataHeap
  cs_reg :: ShardedRegistry
  cs_trace :: "effect list"

definition emit :: "effect \<Rightarrow> ConnState \<Rightarrow> ConnState" where
  "emit e s = s\<lparr>cs_trace := cs_trace s @ [e]\<rparr>"

text \<open>An operation on one client and the counters.\<close>

definition on_client :: "nat \<Rightarrow> (Client \<Rightarrow> counters \<Rightarrow> Client \<times> counters) \<Rightarrow> ConnState \<Rightarrow> ConnState" where
  "on_client p f s =
     (case f (cs_heap s p) (cs_ctr s) of (c, ctr) \<Rightarrow> s\<lparr>cs_heap := (cs_heap s)(p := c), cs_ctr := ctr\<rparr>)"

section \<open>Capacity\<close>

definition DefaultClientSendChanCapacity :: int where "DefaultClientSendChanCapacity = 256"

definition CtrlChanCapacity :: nat where "CtrlChanCapacity = 16"

record ClientCapacity =
  cc_Agent :: int
  cc_Bot :: int
  cc_Customer :: int
  cc_Observer :: int
  cc_Admin :: int
  cc_VIP :: int
  cc_Visitor :: int
  cc_System :: int
  cc_Default :: int

definition CapacityFor :: "ClientCapacity \<Rightarrow> Client option \<Rightarrow> int" where
  "CapacityFor cfg client =
     (case client of None \<Rightarrow> DefaultClientSendChanCapacity
      | Some c \<Rightarrow>
          if cl_UserType c = UserTypeAgent then cc_Agent cfg
          else if cl_UserType c = UserTypeBot then cc_Bot cfg
          else if cl_UserType c = UserTypeCustomer then cc_Customer cfg
          else if cl_UserType c = UserTypeObserver then cc_Observer cfg
          else if cl_UserType c = UserTypeAdmin then cc_Admin cfg
          else if cl_UserType c = UserTypeVIP then cc_VIP cfg
          else if cl_UserType c = UserTypeVisitor then cc_Visitor cfg
          else if cl_UserType c = UserTypeSystem then cc_System cfg
          else cc_Default cfg)"

definition make_chan :: "nat \<Rightarrow> 'a GoChan" where
  "make_chan n = \<lparr>ch_cap = n, ch_buf = [], ch_closed = False\<rparr>"

text \<open>The four blocks of \<open>InitClientSendChan\<close>.\<close>

definition ensure_done :: "Client \<Rightarrow> Client" where
  "ensure_done c = (if cl_DoneCh c = None then c\<lparr>cl_DoneCh := Some (make_chan 0)\<rparr> else c)"

definition ensure_pong :: "Client \<Rightarrow> Client" where
  "ensure_pong c =
     (if cl_ConnectionType c \<noteq> ConnectionTypeSSE \<and> cl_PongCh c = None
      then c\<lparr>cl_PongCh := Some (make_chan 1)\<rparr> else c)"

definition ensure_ctrl :: "Client \<Rightarrow> Client" where
  "ensure_ctrl c =
     (if cl_ConnectionType c \<noteq> ConnectionTypeSSE \<and> cl_CtrlCh c = None
      then c\<lparr>cl_CtrlCh := Some (make_chan CtrlChanCapacity)\<rparr> else c)"

definition ensure_send :: "ClientCapacity \<Rightarrow> Client \<Rightarrow> Client" where
  "ensure_send cfg c =
     (if cl_SendChan c \<noteq> None then c
      else let capacity = CapacityFor cfg (Some c);
               capacity = (if capacity \<le> 0 then DefaultClientSendChanCapacity else capacity)
           in c\<lparr>cl_SendChan := Some (make_chan (nat capacity))\<rparr>)"

definition InitClientSendChan :: "ClientCapacity \<Rightarrow> Client \<Rightarrow> Client" where
  "InitClientSendChan cfg c = ensure_send cfg (ensure_ctrl (ensure_pong (ensure_done c)))"

section \<open>Control lane\<close>

definition controlMessageTypes :: "MessageType list" where
  "controlMessageTypes =
     [MessageTypeKickOut, MessageTypeForceOffline, MessageTypeTerminate, MessageTypeAck,
      MessageTypeConnectionRejected, MessageTypeConnectionError, MessageTypeConnectionTimeout]"

definition IsControlMessage :: "MessageType \<Rightarrow> bool" where
  "IsControlMessage mt \<longleftrightarrow> mt \<in> set controlMessageTypes"

definition IsDisconnectMessage :: "MessageType \<Rightarrow> bool" where
  "IsDisconnectMessage mt \<longleftrightarrow> mt \<in> set [MessageTypeKickOut, MessageTypeForceOffline, MessageTypeTerminate]"

definition SendControl :: "nat option \<Rightarrow> frame \<Rightarrow> HubMessage option \<Rightarrow> ConnState \<Rightarrow> bool \<times> ConnState" where
  "SendControl client data msg s =
     (case client of None \<Rightarrow> (False, s)
      | Some p \<Rightarrow>
          case TrySendControl data (cs_heap s p) (cs_ctr s) of (sent, c1, ctr1) \<Rightarrow>
            let s1 = s\<lparr>cs_heap := (cs_heap s)(p := c1), cs_ctr := ctr1\<rparr>
            in if sent then (True, s1)
               else
                 let (fell_back, s2) =
                       (if cl_CtrlCh (cs_heap s1 p) = None then
                          case TrySend data (cs_heap s1 p) (cs_ctr s1) of (ok, c2, ctr2) \<Rightarrow>
                            (ok, s1\<lparr>cs_heap := (cs_heap s1)(p := c2), cs_ctr := ctr2\<rparr>)
                        else (False, s1))
                 in if fell_back then (True, s2)
                    else case (msg, cl_Conn (cs_heap s2 p)) of
                           (Some m, Some conn) \<Rightarrow>
                             if IsDisconnectMessage (hm_MessageType m) then (True, emit (FxConnClose conn) s2)
                             else (False, s2)
                         | _ \<Rightarrow> (False, s2))"

text \<open>\<open>marshal\<close> is \<open>MarshalJSON\<close>; \<open>None\<close> is an error.\<close>

definition SendControlMessage :: "(HubMessage \<Rightarrow> frame option) \<Rightarrow> nat option \<Rightarrow> HubMessage option \<Rightarrow> ConnState \<Rightarrow> bool \<times> ConnState" where
  "SendControlMessage marshal client msg s =
     (case (client, msg) of
        (Some p, Some m) \<Rightarrow> (case marshal m of None \<Rightarrow> (False, s) | Some data \<Rightarrow> SendControl client data msg s)
      | _ \<Rightarrow> (False, s))"

text \<open>Close codes (RFC 6455) with whether they are normal.  An error of a read is its close code, if it
  is a close error.\<close>

definition WsCloseCodeMap :: "(int, bool) gomap" where
  "WsCloseCodeMap =
     [(1000, True), (1001, True), (1002, False), (1003, False), (1005, False), (1007, False),
      (1008, False), (1009, False), (1010, False), (1011, False), (1012, False), (1013, False),
      (1006, False), (1015, False)]"

definition ClassifyCloseError :: "int option \<Rightarrow> int \<times> bool" where
  "ClassifyCloseError err =
     (case filter (\<lambda>(code, normal). err = Some code) WsCloseCodeMap of
        (code, normal) # _ \<Rightarrow> (code, normal)
      | [] \<Rightarrow> (1006, False))"

section \<open>Heartbeat\<close>

record HeartbeatConfig =
  hb_clientTimeout :: int
  hb_before :: "(Client \<Rightarrow> bool) option"
  hb_report :: bool
  hb_after :: bool
  hb_onTimeout :: bool

definition touch :: "HeartbeatConfig \<Rightarrow> nat \<Rightarrow> int \<Rightarrow> ConnState \<Rightarrow> ConnState" where
  "touch cfg p now s =
     (let s1 = on_client p (\<lambda>c ctr. (SetLastSeen now (SetLastHeartbeat now c), ctr)) s;
          c = cs_heap s1 p
      in if cl_ConnectionType c = ConnectionTypeSSE then s1
         else emit (FxTimerRefresh (cl_ID c) (hb_clientTimeout cfg) p) s1)"

definition emit_if :: "bool \<Rightarrow> effect \<Rightarrow> ConnState \<Rightarrow> ConnState" where
  "emit_if b e s = (if b then emit e s else s)"

definition Heartbeat_Handle :: "HeartbeatConfig \<Rightarrow> int \<Rightarrow> nat option \<Rightarrow> ConnState \<Rightarrow> ConnState" where
  "Heartbeat_Handle cfg now client s =
     (case client of None \<Rightarrow> s
      | Some p \<Rightarrow>
          if cl_closed (cs_heap s p) then s
          else if (case hb_before cfg of None \<Rightarrow> False | Some cb \<Rightarrow> \<not> cb (cs_heap s p)) then s
          else let s1 = touch cfg p now s;
                   s2 = emit (FxRenew p) s1;
                   s3 = emit_if (hb_report cfg) (FxReport p) s2;
                   s4 = emit_if (hb_after cfg) (FxAfter p) s3
               in emit (FxStats p) s4)"

definition ScheduleTimeout :: "HeartbeatConfig \<Rightarrow> nat \<Rightarrow> ConnState \<Rightarrow> ConnState" where
  "ScheduleTimeout cfg p s =
     (if cl_ConnectionType (cs_heap s p) = ConnectionTypeSSE then s
      else emit (FxTimerSchedule (cl_ID (cs_heap s p)) (hb_clientTimeout cfg) p) s)"

definition CancelTimeout :: "string \<Rightarrow> ConnState \<Rightarrow> ConnState" where
  "CancelTimeout clientID s = emit (FxTimerCancel clientID) s"

definition onTimeout :: "HeartbeatConfig \<Rightarrow> nat \<Rightarrow> ConnState \<Rightarrow> ConnState" where
  "onTimeout cfg p s =
     (let c = cs_heap s p
      in if cl_closed c then s
         else emit (FxUnregister p)
                (emit_if (hb_onTimeout cfg) (FxTimeoutCallback (cl_ID c) (cl_UserID c) (GetLastHeartbeat c)) s))"

text \<open>\<open>now.Sub(t) > timeout\<close>; the zero time is further back than any timeout.\<close>

definition idle_longer :: "int \<Rightarrow> int option \<Rightarrow> int \<Rightarrow> bool" where
  "idle_longer now seen timeout = (case seen of None \<Rightarrow> True | Some t \<Rightarrow> timeout < now - t)"

definition sse_timeouts :: "HeartbeatConfig \<Rightarrow> int \<Rightarrow> ConnState \<Rightarrow> nat list" where
  "sse_timeouts cfg now s =
     ForEachSSEClient
       (\<lambda>_ _ p acc. (True, if idle_longer now (GetLastSeen (cs_heap s p)) (hb_clientTimeout cfg) then acc @ [p] else acc))
       (cs_reg s) []"

definition ScanSSETimeouts :: "HeartbeatConfig \<Rightarrow> int \<Rightarrow> ConnState \<Rightarrow> ConnState" where
  "ScanSSETimeouts cfg now s =
     fold (\<lambda>p s. let c = cs_heap s p
                 in emit_if (hb_onTimeout cfg) (FxTimeoutCallback (cl_ID c) (cl_UserID c) (GetLastSeen c))
                      (emit (FxUnregister p) s))
       (sse_timeouts cfg now s) s"

section \<open>Slow consumers\<close>

definition SlowConsumerThresholdRatio :: int where "SlowConsumerThresholdRatio = 9000"

definition SlowConsumerConsecutiveThreshold :: int where "SlowConsumerConsecutiveThreshold = 3"

record slowConsumerState =
  sc_consecutive :: int
  sc_warned :: bool

type_synonym slow_states = "(string, slowConsumerState) gomap"

text \<open>The drain of \<open>evict\<close>: every buffered frame is taken out.\<close>

definition drain_send_chan :: "Client \<Rightarrow> nat \<times> Client" where
  "drain_send_chan c =
     (case cl_SendChan c of
        None \<Rightarrow> (0, c)
      | Some ch \<Rightarrow> (length (ch_buf ch), c\<lparr>cl_SendChan := Some (ch\<lparr>ch_buf := []\<rparr>)\<rparr>))"

definition evict :: "bool \<Rightarrow> nat \<Rightarrow> slowConsumerState \<Rightarrow> int \<Rightarrow> ConnState \<Rightarrow> ConnState" where
  "evict hook p state ratio s =
     (if \<not> hook then s
      else let (salvaged, c) = drain_send_chan (cs_heap s p);
               s1 = s\<lparr>cs_heap := (cs_heap s)(p := c)\<rparr>;
               s2 = (if 0 < salvaged then on_client p (CompletePendingWrites (int salvaged)) s1 else s1)
           in emit (FxEvicted p (sc_consecutive state) ratio) s2)"

definition scan_client :: "bool \<Rightarrow> nat \<Rightarrow> slow_states \<times> ConnState \<Rightarrow> slow_states \<times> ConnState" where
  "scan_client hook p st =
     (case st of (states, s) \<Rightarrow>
        let c = cs_heap s p; ratio = cl_backlogRatio c
        in if ratio < SlowConsumerThresholdRatio then (AList.delete (cl_ID c) states, s)
           else
             let sc = (case map_of states (cl_ID c) of Some sc \<Rightarrow> sc | None \<Rightarrow> \<lparr>sc_consecutive = 0, sc_warned = False\<rparr>);
                 sc = sc\<lparr>sc_consecutive := sc_consecutive sc + 1\<rparr>
             in if sc_consecutive sc \<ge> SlowConsumerConsecutiveThreshold
                then (AList.delete (cl_ID c) states, evict hook p sc ratio s)
                else if sc_consecutive sc \<ge> SlowConsumerConsecutiveThreshold - 1 \<and> \<not> sc_warned sc
                then (AList.update (cl_ID c) (sc\<lparr>sc_warned := True\<rparr>) states, s)
                else (AList.update (cl_ID c) sc states, s))"

definition ScanOnce :: "(string \<Rightarrow> nat) \<Rightarrow> bool \<Rightarrow> slow_states \<times> ConnState \<Rightarrow> slow_states \<times> ConnState" where
  "ScanOnce sh hook st =
     (case fold (scan_client hook) (GetAllClients (cs_reg (snd st))) st of
        (states, s) \<Rightarrow> (filter (\<lambda>(clientID, sc). GetClient sh clientID (cs_reg s) \<noteq> None) states, s))"

definition Slow_Stats :: "slow_states \<Rightarrow> nat" where
  "Slow_Stats states = length states"

section \<open>Lemmas\<close>

lemma ensure_simps [simp]:
  "cl_SendChan (ensure_done c) = cl_SendChan c" "cl_CtrlCh (ensure_done c) = cl_CtrlCh c" "cl_PongCh (ensure_done c) = cl_PongCh c"
  "cl_ConnectionType (ensure_done c) = cl_ConnectionType c" "cl_UserType (ensure_done c) = cl_UserType c"
  "cl_SendChan (ensure_pong c) = cl_SendChan c" "cl_CtrlCh (ensure_pong c) = cl_CtrlCh c" "cl_DoneCh (ensure_pong c) = cl_DoneCh c"
  "cl_ConnectionType (ensure_pong c) = cl_ConnectionType c" "cl_UserType (ensure_pong c) = cl_UserType c"
  "cl_SendChan (ensure_ctrl c) = cl_SendChan c" "cl_PongCh (ensure_ctrl c) = cl_PongCh c" "cl_DoneCh (ensure_ctrl c) = cl_DoneCh c"
  "cl_ConnectionType (ensure_ctrl c) = cl_ConnectionType c" "cl_UserType (ensure_ctrl c) = cl_UserType c"
  "cl_PongCh (ensure_send cfg c) = cl_PongCh c" "cl_DoneCh (ensure_send cfg c) = cl_DoneCh c"
  "cl_ConnectionType (ensure_send cfg c) = cl_ConnectionType c" "cl_CtrlCh (ensure_send cfg c) = cl_CtrlCh c"
  by (simp_all add: ensure_done_def ensure_pong_def ensure_ctrl_def ensure_send_def Let_def)

lemma CapacityFor_cong: "cl_UserType c = cl_UserType d \<Longrightarrow> CapacityFor cfg (Some c) = CapacityFor cfg (Some d)"
  by (simp add: CapacityFor_def)

lemma init_fields:
  "cl_DoneCh (InitClientSendChan cfg c) = Some (case cl_DoneCh c of None \<Rightarrow> make_chan 0 | Some ch \<Rightarrow> ch)"
  "cl_PongCh (InitClientSendChan cfg c) =
    (if cl_ConnectionType c \<noteq> ConnectionTypeSSE \<and> cl_PongCh c = None then Some (make_chan 1) else cl_PongCh c)"
  "cl_CtrlCh (InitClientSendChan cfg c) =
    (if cl_ConnectionType c \<noteq> ConnectionTypeSSE \<and> cl_CtrlCh c = None then Some (make_chan CtrlChanCapacity) else cl_CtrlCh c)"
  "cl_ConnectionType (InitClientSendChan cfg c) = cl_ConnectionType c"
  "cl_SendChan (InitClientSendChan cfg c) =
    Some (case cl_SendChan c of
            Some ch \<Rightarrow> ch
          | None \<Rightarrow> make_chan (nat (if CapacityFor cfg (Some c) \<le> 0 then DefaultClientSendChanCapacity else CapacityFor cfg (Some c))))"
proof -
  let ?d = "ensure_ctrl (ensure_pong (ensure_done c))"
  have "CapacityFor cfg (Some ?d) = CapacityFor cfg (Some c)" by (rule CapacityFor_cong) simp
  then show "cl_SendChan (InitClientSendChan cfg c) =
    Some (case cl_SendChan c of
            Some ch \<Rightarrow> ch
          | None \<Rightarrow> make_chan (nat (if CapacityFor cfg (Some c) \<le> 0 then DefaultClientSendChanCapacity else CapacityFor cfg (Some c))))"
    unfolding InitClientSendChan_def ensure_send_def [of cfg ?d] Let_def by (auto split: option.split)
qed (simp_all add: InitClientSendChan_def, simp_all add: ensure_done_def ensure_pong_def ensure_ctrl_def split: option.split)

lemma init_noop:
  assumes "cl_DoneCh c \<noteq> None" and "cl_SendChan c \<noteq> None"
    and "cl_ConnectionType c \<noteq> ConnectionTypeSSE \<longrightarrow> cl_PongCh c \<noteq> None \<and> cl_CtrlCh c \<noteq> None"
  shows "InitClientSendChan cfg c = c"
proof -
  have "ensure_done c = c" "ensure_pong c = c" "ensure_ctrl c = c" "ensure_send cfg c = c"
    using assms by (auto simp: ensure_done_def ensure_pong_def ensure_ctrl_def ensure_send_def)
  then show ?thesis by (simp add: InitClientSendChan_def)
qed

lemma emit_simps [simp]:
  "cs_heap (emit e s) = cs_heap s" "cs_ctr (emit e s) = cs_ctr s" "cs_reg (emit e s) = cs_reg s"
  "cs_data (emit e s) = cs_data s" "cs_trace (emit e s) = cs_trace s @ [e]"
  by (simp_all add: emit_def)

lemma emit_if_simps [simp]:
  "cs_heap (emit_if b e s) = cs_heap s" "cs_ctr (emit_if b e s) = cs_ctr s" "cs_reg (emit_if b e s) = cs_reg s"
  "cs_data (emit_if b e s) = cs_data s" "cs_trace (emit_if b e s) = cs_trace s @ (if b then [e] else [])"
  by (simp_all add: emit_if_def)

lemma on_client_simps [simp]:
  "cs_reg (on_client p f s) = cs_reg s" "cs_data (on_client p f s) = cs_data s" "cs_trace (on_client p f s) = cs_trace s"
  "cs_heap (on_client p f s) = (cs_heap s)(p := fst (f (cs_heap s p) (cs_ctr s)))"
  "cs_ctr (on_client p f s) = snd (f (cs_heap s p) (cs_ctr s))"
  by (simp_all add: on_client_def split: prod.split)

lemma evict_frame [simp]:
  "cs_reg (evict hook p state ratio s) = cs_reg s"
  "q \<noteq> p \<Longrightarrow> cs_heap (evict hook p state ratio s) q = cs_heap s q"
  by (auto simp: evict_def Let_def split: prod.split)

lemma complete_fields:
  "cl_ID (fst (CompletePendingWrites n c ctr)) = cl_ID c"
  "cl_backlogRatio (fst (CompletePendingWrites n c ctr)) = cl_backlogRatio c"
  "cl_SendChan (fst (CompletePendingWrites n c ctr)) = cl_SendChan c"
  "filing (fst (CompletePendingWrites n c ctr)) = filing c"
  by (auto simp: CompletePendingWrites_def Let_def filing_def)

lemma evict_ident: "cl_ID (cs_heap (evict hook p state ratio s) q) = cl_ID (cs_heap s q)"
  "cl_backlogRatio (cs_heap (evict hook p state ratio s) q) = cl_backlogRatio (cs_heap s q)"
  "filing (cs_heap (evict hook p state ratio s) q) = filing (cs_heap s q)"
  by (auto simp: evict_def drain_send_chan_def Let_def complete_fields split: prod.split option.split) (simp_all add: filing_def)

section \<open>The clients a scan visits\<close>

lemma distinct_concat_values:
  assumes "distinct (map fst L)"
    and "\<And>u m. (u, m) \<in> set L \<Longrightarrow> distinct (gm_values m)"
    and "\<And>u m u' m' p. (u, m) \<in> set L \<Longrightarrow> (u', m') \<in> set L \<Longrightarrow> p \<in> set (gm_values m) \<Longrightarrow> p \<in> set (gm_values m') \<Longrightarrow> u = u'"
  shows "distinct (concat (map (gm_values \<circ> snd) L))"
  using assms
proof (induction L)
  case Nil
  then show ?case by simp
next
  case (Cons e L)
  obtain u m where e: "e = (u, m)" by force
  have "set (gm_values m) \<inter> set (concat (map (gm_values \<circ> snd) L)) = {}"
  proof (rule equals0I)
    fix p
    assume "p \<in> set (gm_values m) \<inter> set (concat (map (gm_values \<circ> snd) L))"
    then obtain u' m' where "(u', m') \<in> set L" "p \<in> set (gm_values m)" "p \<in> set (gm_values m')" by force
    with Cons.prems(3) [of u m u' m' p] have "u = u'" by (simp add: e)
    with \<open>(u', m') \<in> set L\<close> Cons.prems(1) show False by (force simp: e)
  qed
  moreover have "distinct (concat (map (gm_values \<circ> snd) L))"
    using Cons.prems by (intro Cons.IH) (auto intro: Cons.prems(3))
  ultimately show ?case using Cons.prems(2) [of u m] by (simp add: e comp_def)
qed

lemma distinct_user_values:
  assumes U: "users_ok sh H (rg_userShards r)"
  shows "distinct (gm_values (sm_inner sh (rg_userShards r) u))"
proof -
  note wf = sm_inner_wf [OF users_ok_nested [OF U], of u]
  have "inj_on snd (set (sm_inner sh (rg_userShards r) u))"
  proof (rule inj_onI)
    fix x y
    assume a: "x \<in> set (sm_inner sh (rg_userShards r) u)" "y \<in> set (sm_inner sh (rg_userShards r) u)" "snd x = snd y"
    have "map_of (sm_inner sh (rg_userShards r) u) (fst x) = Some (snd x)"
      "map_of (sm_inner sh (rg_userShards r) u) (fst y) = Some (snd y)"
      using a map_of_is_SomeI [OF wf] by (metis prod.collapse)+
    from users_ok_ident [OF U this(1)] users_ok_ident [OF U this(2)] a(3) show "x = y" by (auto intro: prod_eqI)
  qed
  moreover have "distinct (sm_inner sh (rg_userShards r) u)" using wf by (simp add: distinct_map)
  ultimately show ?thesis by (simp add: gm_values_def distinct_map)
qed

lemma distinct_all_clients:
  assumes inv: "rg_inv sh H r" and h: "hash_ok sh"
  shows "distinct (GetAllClients r)"
proof -
  let ?U = "rg_userShards r"
  note U = rg_invD(1) [OF inv]
  have rng: "(u, m) \<in> set (sm_range defaultShardCount ?U) \<longleftrightarrow> sm_inner sh ?U u = m \<and> m \<noteq> []" for u m
    using users_ok_nested [OF U] h by (intro sm_range_inner) auto
  have vals: "p \<in> set (gm_values (sm_inner sh ?U u)) \<Longrightarrow> \<exists>c. map_of (sm_inner sh ?U u) c = Some p" for u p
    using gm_values_iff [OF sm_inner_wf [OF users_ok_nested [OF U]]] by blast
  note distinct_user_values [OF U]
  moreover have "u = u'" if "p \<in> set (gm_values (sm_inner sh ?U u))" "p \<in> set (gm_values (sm_inner sh ?U u'))" for p u u'
    using vals [OF that(1)] vals [OF that(2)] users_ok_ident [OF U] by blast
  moreover have "distinct (map fst (sm_range defaultShardCount ?U))"
    using sm_range_distinct [OF nested_ok_wf [OF users_ok_nested [OF U]]] by (simp add: sm_keys_def)
  ultimately show ?thesis
    unfolding GetAllClients_def by (intro distinct_concat_values) (auto simp: rng)
qed

lemma registered_by_id:
  assumes inv: "rg_inv sh H r" and h: "hash_ok sh" and p: "p \<in> set (GetAllClients r)"
  shows "GetClient sh (cl_ID (H p)) r = Some p"
proof -
  note U = rg_invD(1) [OF inv]
  obtain u c where c: "map_of (sm_inner sh (rg_userShards r) u) c = Some p"
    using p all_clients_iff [OF users_ok_nested [OF U] h] by blast
  from users_ok_ident [OF U c] c show ?thesis unfolding get_client_iff [OF inv] by blast
qed

section \<open>Streaks of a slow consumer\<close>

text \<open>The reference: the length of the current streak of scans above the threshold, and how many
  evictions it led to; the third scan in a row evicts and starts again.\<close>

fun streak :: "bool list \<Rightarrow> nat \<times> nat" where
  "streak [] = (0, 0)"
| "streak (hot # earlier) =
     (case streak earlier of (n, k) \<Rightarrow> if \<not> hot then (0, k) else if n = 2 then (0, k + 1) else (n + 1, k))"

definition hot_at :: "(nat \<Rightarrow> int) \<Rightarrow> nat \<Rightarrow> bool" where
  "hot_at sample p \<longleftrightarrow> SlowConsumerThresholdRatio \<le> sample p"

text \<open>Before each scan every write pump stores a new ratio.\<close>

definition store_ratios :: "(nat \<Rightarrow> int) \<Rightarrow> ConnState \<Rightarrow> ConnState" where
  "store_ratios sample s = s\<lparr>cs_heap := (\<lambda>p. (cs_heap s p)\<lparr>cl_backlogRatio := sample p\<rparr>)\<rparr>"

fun scans :: "(string \<Rightarrow> nat) \<Rightarrow> bool \<Rightarrow> (nat \<Rightarrow> int) list \<Rightarrow> slow_states \<times> ConnState \<Rightarrow> slow_states \<times> ConnState" where
  "scans sh hook [] st = st"
| "scans sh hook (sample # earlier) st =
     (case scans sh hook earlier st of (states, s) \<Rightarrow> ScanOnce sh hook (states, store_ratios sample s))"

definition evictions :: "nat \<Rightarrow> ConnState \<Rightarrow> nat" where
  "evictions p s = length (filter (\<lambda>e. case e of FxEvicted q _ _ \<Rightarrow> q = p | _ \<Rightarrow> False) (cs_trace s))"

definition count_of :: "string \<Rightarrow> slow_states \<Rightarrow> int" where
  "count_of clientID states = (case map_of states clientID of None \<Rightarrow> 0 | Some sc \<Rightarrow> sc_consecutive sc)"

lemma evictions_evict:
  "evictions p (evict hook q sc ratio s) = evictions p s + (if hook \<and> q = p then 1 else 0)"
  by (auto simp: evictions_def evict_def Let_def split: prod.split)

text \<open>One visit: what it does to the entry of the client, and to no other.\<close>

lemma scan_self:
  assumes "scan_client hook p (states, s) = (states', s')" and "count_of (cl_ID (cs_heap s p)) states < 3"
  shows "count_of (cl_ID (cs_heap s p)) states' =
      (if cl_backlogRatio (cs_heap s p) < SlowConsumerThresholdRatio \<or> count_of (cl_ID (cs_heap s p)) states = 2 then 0
       else count_of (cl_ID (cs_heap s p)) states + 1)"
    and "evictions p s' = evictions p s +
      (if hook \<and> \<not> cl_backlogRatio (cs_heap s p) < SlowConsumerThresholdRatio \<and> count_of (cl_ID (cs_heap s p)) states = 2 then 1 else 0)"
  using assms
  by (auto simp: scan_client_def Let_def count_of_def gomap_simps SlowConsumerConsecutiveThreshold_def evictions_evict
      split: option.splits if_splits)

lemma scan_other:
  assumes "scan_client hook q (states, s) = (states', s')" and "cl_ID (cs_heap s q) \<noteq> clientID"
  shows "map_of states' clientID = map_of states clientID"
  using assms by (auto simp: scan_client_def Let_def gomap_simps split: option.splits if_splits)

lemma scan_frame:
  assumes "scan_client hook q (states, s) = (states', s')"
  shows "cs_reg s' = cs_reg s" and "cl_ID (cs_heap s' x) = cl_ID (cs_heap s x)"
    and "cl_backlogRatio (cs_heap s' x) = cl_backlogRatio (cs_heap s x)"
    and "x \<noteq> q \<Longrightarrow> evictions x s' = evictions x s" and "filing (cs_heap s' x) = filing (cs_heap s x)"
  using assms by (auto simp: scan_client_def Let_def evict_ident evictions_evict split: option.splits if_splits)

lemma fold_scan_other:
  "fold (scan_client hook) ps (states, s) = (states', s') \<Longrightarrow> p \<notin> set ps \<Longrightarrow>
     (\<And>q. q \<in> set ps \<Longrightarrow> cl_ID (cs_heap s q) \<noteq> cl_ID (cs_heap s p)) \<Longrightarrow>
     map_of states' (cl_ID (cs_heap s p)) = map_of states (cl_ID (cs_heap s p)) \<and> evictions p s' = evictions p s"
proof (induction ps arbitrary: states s)
  case Nil
  then show ?case by simp
next
  case (Cons q ps)
  obtain states1 s1 where one: "scan_client hook q (states, s) = (states1, s1)" by force
  note fr = scan_frame [OF one]
  from Cons.prems have ne: "cl_ID (cs_heap s q) \<noteq> cl_ID (cs_heap s p)" "p \<noteq> q" by auto
  from Cons.IH [of states1 s1] Cons.prems scan_other [OF one ne(1)] fr(4) [OF ne(2)] show ?case
    by (simp add: one fr)
qed

lemma fold_scan_frame:
  "fold (scan_client hook) ps (states, s) = (states', s') \<Longrightarrow>
     cs_reg s' = cs_reg s \<and> cl_ID (cs_heap s' x) = cl_ID (cs_heap s x) \<and> filing (cs_heap s' x) = filing (cs_heap s x)"
proof (induction ps arbitrary: states s)
  case Nil
  then show ?case by simp
next
  case (Cons q ps)
  obtain states1 s1 where one: "scan_client hook q (states, s) = (states1, s1)" by force
  from Cons.IH [of states1 s1] Cons.prems scan_frame(1,2,5) [OF one] show ?case by (simp add: one)
qed

lemma fold_scan:
  "fold (scan_client hook) ps (states, s) = (states', s') \<Longrightarrow> distinct ps \<Longrightarrow> p \<in> set ps \<Longrightarrow>
     inj_on (\<lambda>q. cl_ID (cs_heap s q)) (set ps) \<Longrightarrow> count_of (cl_ID (cs_heap s p)) states < 3 \<Longrightarrow>
     count_of (cl_ID (cs_heap s p)) states' =
      (if cl_backlogRatio (cs_heap s p) < SlowConsumerThresholdRatio \<or> count_of (cl_ID (cs_heap s p)) states = 2 then 0
       else count_of (cl_ID (cs_heap s p)) states + 1) \<and>
     evictions p s' = evictions p s +
      (if hook \<and> \<not> cl_backlogRatio (cs_heap s p) < SlowConsumerThresholdRatio \<and> count_of (cl_ID (cs_heap s p)) states = 2 then 1 else 0)"
proof (induction ps arbitrary: states s)
  case Nil
  then show ?case by simp
next
  case (Cons q ps)
  obtain states1 s1 where one: "scan_client hook q (states, s) = (states1, s1)" by force
  note fr = scan_frame [OF one]
  from Cons.prems(1) have rest: "fold (scan_client hook) ps (states1, s1) = (states', s')" by (simp add: one)
  show ?case
  proof (cases "q = p")
    case True
    have "cl_ID (cs_heap s1 r) \<noteq> cl_ID (cs_heap s1 p)" if "r \<in> set ps" for r
      using Cons.prems(2,4) that True unfolding fr(2) by (auto simp: inj_on_def)
    with fold_scan_other [OF rest, of p] Cons.prems(2) True
    have "map_of states' (cl_ID (cs_heap s p)) = map_of states1 (cl_ID (cs_heap s p))" "evictions p s' = evictions p s1"
      by (auto simp: fr(2))
    with scan_self [of hook p states s states1 s1] one True Cons.prems(5) show ?thesis by (simp add: count_of_def)
  next
    case False
    with Cons.prems(3,4) have ne: "cl_ID (cs_heap s q) \<noteq> cl_ID (cs_heap s p)" by (auto simp: inj_on_def)
    from scan_other [OF one ne] have "count_of (cl_ID (cs_heap s p)) states1 = count_of (cl_ID (cs_heap s p)) states"
      by (simp add: count_of_def)
    moreover have "inj_on (\<lambda>q. cl_ID (cs_heap s1 q)) (set ps)" using Cons.prems(4) by (simp add: fr(2))
    ultimately show ?thesis
      using Cons.IH [OF rest] Cons.prems(2,3,5) False fr(4) [of p] by (simp add: fr(2,3))
  qed
qed

lemma ScanOnce_count:
  assumes inv: "rg_inv sh (cs_heap s) (cs_reg s)" and h: "hash_ok sh" and p: "p \<in> set (GetAllClients (cs_reg s))"
    and lt: "count_of (cl_ID (cs_heap s p)) states < 3"
    and run: "ScanOnce sh hook (states, s) = (states', s')"
  shows "count_of (cl_ID (cs_heap s p)) states' =
      (if cl_backlogRatio (cs_heap s p) < SlowConsumerThresholdRatio \<or> count_of (cl_ID (cs_heap s p)) states = 2 then 0
       else count_of (cl_ID (cs_heap s p)) states + 1) \<and>
     evictions p s' = evictions p s +
      (if hook \<and> \<not> cl_backlogRatio (cs_heap s p) < SlowConsumerThresholdRatio \<and> count_of (cl_ID (cs_heap s p)) states = 2 then 1 else 0) \<and>
     cs_reg s' = cs_reg s \<and> (\<forall>x. filing (cs_heap s' x) = filing (cs_heap s x))"
proof -
  obtain states1 where f: "fold (scan_client hook) (GetAllClients (cs_reg s)) (states, s) = (states1, s')"
    and st: "states' = filter (\<lambda>(clientID, sc). GetClient sh clientID (cs_reg s') \<noteq> None) states1"
    using run by (auto simp: ScanOnce_def split: prod.splits)
  note fr = fold_scan_frame [OF f]
  have "GetClient sh (cl_ID (cs_heap s p)) (cs_reg s') \<noteq> None"
    using registered_by_id [OF inv h p] fr by simp
  then have "map_of states' (cl_ID (cs_heap s p)) = map_of states1 (cl_ID (cs_heap s p))"
    unfolding st by (induction states1) auto
  with fold_scan [OF f distinct_all_clients [OF inv h] p all_clients_inj [OF inv h] lt] fr
  show ?thesis by (simp add: count_of_def)
qed

lemma rg_inv_same_filing:
  assumes "rg_inv sh H r" and "\<And>x. filing (H' x) = filing (H x)"
  shows "rg_inv sh H' r"
  by (rule rg_inv_mutate [OF assms(1)]) (simp add: keeps_filing_def assms(2))

lemma filing_id: "filing c = filing d \<Longrightarrow> cl_ID c = cl_ID d"
  by (simp add: filing_def)

lemma streak_less: "fst (streak hots) < 3"
  by (induction hots) (auto split: prod.splits)

lemma scans_streak:
  assumes h: "hash_ok sh" and inv: "rg_inv sh (cs_heap s0) (cs_reg s0)" and p: "p \<in> set (GetAllClients (cs_reg s0))"
  shows "scans sh True samples ([], s0) = (states, s) \<Longrightarrow>
    count_of (cl_ID (cs_heap s0 p)) states = int (fst (streak (map (\<lambda>f. hot_at f p) samples))) \<and>
    evictions p s = evictions p s0 + snd (streak (map (\<lambda>f. hot_at f p) samples)) \<and>
    cs_reg s = cs_reg s0 \<and> (\<forall>x. filing (cs_heap s x) = filing (cs_heap s0 x))"
proof (induction samples arbitrary: states s)
  case Nil
  then show ?case by (simp add: count_of_def)
next
  case (Cons sample earlier)
  obtain states1 s1 where one: "scans sh True earlier ([], s0) = (states1, s1)" by force
  let ?s = "store_ratios sample s1"
  from Cons.prems one have run: "ScanOnce sh True (states1, ?s) = (states, s)" by simp
  note IH = Cons.IH [OF one]
  have same: "filing (cs_heap ?s x) = filing (cs_heap s0 x)" for x
    using IH by (simp add: store_ratios_def filing_def)
  have fld: "cs_reg ?s = cs_reg s0" "evictions p ?s = evictions p s1" "cl_backlogRatio (cs_heap ?s p) = sample p"
    using IH by (simp_all add: store_ratios_def evictions_def)
  note ident = filing_id [OF same, of p]
  have lt: "count_of (cl_ID (cs_heap ?s p)) states1 < 3"
    using IH streak_less [of "map (\<lambda>f. hot_at f p) earlier"] by (simp add: ident)
  from ScanOnce_count [OF _ h _ lt run] rg_inv_same_filing [OF inv same] p fld(1)
  have new: "count_of (cl_ID (cs_heap s0 p)) states =
      (if sample p < SlowConsumerThresholdRatio \<or> count_of (cl_ID (cs_heap s0 p)) states1 = 2 then 0
       else count_of (cl_ID (cs_heap s0 p)) states1 + 1)"
    "evictions p s = evictions p s1 +
      (if \<not> sample p < SlowConsumerThresholdRatio \<and> count_of (cl_ID (cs_heap s0 p)) states1 = 2 then 1 else 0)"
    "cs_reg s = cs_reg s0" "\<And>x. filing (cs_heap s x) = filing (cs_heap s0 x)"
    by (simp_all add: ident fld same)
  with IH show ?case
    by (cases "streak (map (\<lambda>f. hot_at f p) earlier)") (auto simp: hot_at_def)
qed

section \<open>Lemmas on the SSE scan\<close>

lemma range_while_filter:
  "range_while (\<lambda>(cid, p) acc. (True, if Q p then acc @ [p] else acc)) m acc = (True, acc @ filter Q (gm_values m))"
  by (induction m arbitrary: acc) (auto simp: gm_values_def)

lemma range_while_nested:
  "range_while (\<lambda>(u, m). range_while (\<lambda>(cid, p) acc. (True, if Q p then acc @ [p] else acc)) m) L acc =
     (True, acc @ concat (map (\<lambda>(u, m). filter Q (gm_values m)) L))"
  by (induction L arbitrary: acc) (auto simp: range_while_filter)

lemma sse_timeouts_set:
  assumes h: "hash_ok sh" and inv: "rg_inv sh (cs_heap s) (cs_reg s)"
  shows "set (sse_timeouts cfg now s) =
    {p \<in> set (GetAllClients (cs_reg s)). is_sse (cs_heap s p) \<and>
       idle_longer now (GetLastSeen (cs_heap s p)) (hb_clientTimeout cfg)}"
proof -
  let ?Q = "\<lambda>p. idle_longer now (GetLastSeen (cs_heap s p)) (hb_clientTimeout cfg)"
  let ?S = "rg_sseShards (cs_reg s)" and ?U = "rg_userShards (cs_reg s)"
  note U = rg_invD(1) [OF inv] and ok = rg_invD(6) [OF inv]
  have "set (sse_timeouts cfg now s) = {p. ?Q p \<and> (\<exists>u m. (u, m) \<in> set (sm_range defaultShardCount ?S) \<and> p \<in> set (gm_values m))}"
    by (force simp: sse_timeouts_def ForEachSSEClient_def range_while_nested)
  also have "\<dots> = {p. ?Q p \<and> (\<exists>u. p \<in> set (gm_values (sm_inner sh ?S u)))}"
  proof -
    have rng: "(u, m) \<in> set (sm_range defaultShardCount ?S) \<longleftrightarrow> sm_inner sh ?S u = m \<and> m \<noteq> []" for u m
      using class_ok_nested [OF ok] h by (intro sm_range_inner) auto
    have ne: "p \<in> set (gm_values m) \<Longrightarrow> m \<noteq> []" for p and m :: "(string, nat) gomap" by (auto simp: gm_values_def)
    show ?thesis unfolding rng using ne by blast
  qed
  also have "\<dots> = {p. ?Q p \<and> (\<exists>u c. map_of (sm_inner sh ?S u) c = Some p)}"
    unfolding gm_values_iff [OF sm_inner_wf [OF class_ok_nested [OF ok]]] ..
  also have "\<dots> = {p. ?Q p \<and> is_sse (cs_heap s p) \<and> (\<exists>u c. map_of (sm_inner sh ?U u) c = Some p)}"
  proof -
    have "map_of (sm_inner sh ?S u) c = Some p \<longleftrightarrow> is_sse (cs_heap s p) \<and> map_of (sm_inner sh ?U u) c = Some p" for u c p
      using ok by (auto simp: class_ok_def filed_def split: option.splits if_splits)
    then show ?thesis by blast
  qed
  also have "\<dots> = {p \<in> set (GetAllClients (cs_reg s)). is_sse (cs_heap s p) \<and> ?Q p}"
    unfolding all_clients_iff [OF users_ok_nested [OF U] h] by blast
  finally show ?thesis .
qed

lemma ScanSSE_trace:
  "cs_trace (ScanSSETimeouts cfg now s) = cs_trace s @
     concat (map (\<lambda>p. FxUnregister p # (if hb_onTimeout cfg
        then [FxTimeoutCallback (cl_ID (cs_heap s p)) (cl_UserID (cs_heap s p)) (GetLastSeen (cs_heap s p))] else []))
        (sse_timeouts cfg now s))"
proof -
  have "cs_trace (fold (\<lambda>p s. let c = cs_heap s p
                 in emit_if (hb_onTimeout cfg) (FxTimeoutCallback (cl_ID c) (cl_UserID c) (GetLastSeen c))
                      (emit (FxUnregister p) s)) ps t) =
      cs_trace t @ concat (map (\<lambda>p. FxUnregister p # (if hb_onTimeout cfg
        then [FxTimeoutCallback (cl_ID (cs_heap t p)) (cl_UserID (cs_heap t p)) (GetLastSeen (cs_heap t p))] else [])) ps)"
    for ps t
    by (induction ps arbitrary: t; cases "hb_onTimeout cfg") (auto simp: Let_def)
  then show ?thesis by (simp add: ScanSSETimeouts_def)
qed

section \<open>Properties\<close>


definition demo_capacity :: ClientCapacity where
  "demo_capacity = \<lparr>cc_Agent = 1024, cc_Bot = 512, cc_Customer = 0, cc_Observer = 512, cc_Admin = 512, cc_VIP = 512,
     cc_Visitor = 64, cc_System = 1024, cc_Default = 256\<rparr>"


text \<open>control messages do not share the fate of the data lane.  With room in the control channel a
  control message is queued there and the data lane and its accounting stay as they are, however
  full; with a full control channel a disconnecting message closes the socket instead and anything
  else is refused; without a control channel the data lane is tried.\<close>

theorem control_lane_cases:
  assumes "\<not> cl_closed (cs_heap s p)" and "cl_CtrlCh (cs_heap s p) = Some ch" and "\<not> ch_closed ch"
  shows "(length (ch_buf ch) < ch_cap ch \<longrightarrow>
      SendControl (Some p) data msg s =
        (True, s\<lparr>cs_heap := (cs_heap s)(p := (cs_heap s p)\<lparr>cl_CtrlCh := Some (ch\<lparr>ch_buf := ch_buf ch @ [data]\<rparr>)\<rparr>)\<rparr>)) \<and>
    (\<not> length (ch_buf ch) < ch_cap ch \<longrightarrow>
      SendControl (Some p) data msg s =
        (case (msg, cl_Conn (cs_heap s p)) of
           (Some m, Some conn) \<Rightarrow> if IsDisconnectMessage (hm_MessageType m) then (True, emit (FxConnClose conn) s) else (False, s)
         | _ \<Rightarrow> (False, s)))"
  using assms by (auto simp: SendControl_def TrySendControl_def try_send_def Let_def split: option.split)

definition demo_conn_state :: ConnState where
  "demo_conn_state = \<lparr>cs_heap = (\<lambda>p. InitClientSendChan demo_capacity (demo_heap p)), cs_ctr = (\<lambda>_. 0),
     cs_data = \<lparr>dh_next = 0, dh_objs = \<lambda>_. []\<rparr>, cs_reg = demo_r2, cs_trace = []\<rparr>"

lemma demo_closed: "cl_closed (InitClientSendChan cfg c) = cl_closed c"
  by (simp add: InitClientSendChan_def ensure_done_def ensure_pong_def ensure_ctrl_def ensure_send_def Let_def)

lemma control_lane_cases_witness:
  "fst (SendControl (Some 0) ''bye'' None demo_conn_state)"
proof -
  have a: "\<not> cl_closed (cs_heap demo_conn_state 0)"
    by (simp add: demo_conn_state_def demo_closed) (simp add: demo_heap_def NewClient_def)
  have b: "cl_CtrlCh (cs_heap demo_conn_state 0) = Some (make_chan CtrlChanCapacity)"
    by (simp add: demo_conn_state_def init_fields) (simp add: demo_heap_def NewClient_def)
  from control_lane_cases [OF a b, of "''bye''" None] show ?thesis
    by (simp add: make_chan_def CtrlChanCapacity_def)
qed

text \<open>a slow consumer is evicted after three scans in a row above the threshold, never earlier, and
  the count starts again after a scan below it or an eviction: whatever the other clients do, the
  scanner's counter of a client is the length of its current streak, and its evictions are those
  of the reference.\<close>

theorem slow_consumer_streak:
  assumes "hash_ok sh" and "reach rg_init (rg_step sh) (cs_heap s0, cs_reg s0)"
    and "p \<in> set (GetAllClients (cs_reg s0))" and "scans sh True samples ([], s0) = (states, s)"
  shows "count_of (cl_ID (cs_heap s0 p)) states = int (fst (streak (map (\<lambda>f. hot_at f p) samples))) \<and>
    evictions p s = evictions p s0 + snd (streak (map (\<lambda>f. hot_at f p) samples))"
  using scans_streak [OF assms(1) reach_rg_inv [OF assms(1,2)] assms(3,4)] by blast

definition demo_plain :: ConnState where
  "demo_plain = demo_conn_state\<lparr>cs_heap := demo_heap\<rparr>"

lemma slow_consumer_streak_witness:
  "evictions 0 (snd (scans demo_sh True [\<lambda>_. 9500, \<lambda>_. 9000, \<lambda>_. 9999] ([], demo_plain))) = 1"
proof -
  obtain states s where run: "scans demo_sh True [\<lambda>_. 9500, \<lambda>_. 9000, \<lambda>_. 9999] ([], demo_plain) = (states, s)" by force
  have fld: "cs_heap demo_plain = demo_heap" "cs_reg demo_plain = demo_r2" "evictions 0 demo_plain = 0"
    by (simp_all add: demo_plain_def demo_conn_state_def evictions_def)
  from slow_consumer_streak [OF demo_hash _ _ run, of 0] demo_reach2 have "evictions 0 s = 1"
    by (simp add: fld demo_all hot_at_def SlowConsumerThresholdRatio_def)
  with run show ?thesis by (simp del: scans.simps)
qed

text \<open>evicting settles the accounts: the data channel is emptied and exactly as many pending writes
  are taken off the client and off the shared backlog counter as frames were in it.\<close>

theorem evict_settles:
  assumes "cl_SendChan (cs_heap s p) = Some ch" and "int (length (ch_buf ch)) \<le> cl_pendingWrites (cs_heap s p)"
    and "cl_pendingCounter (cs_heap s p) = Some a"
  shows "cl_SendChan (cs_heap (evict True p sc ratio s) p) = Some (ch\<lparr>ch_buf := []\<rparr>) \<and>
    cl_pendingWrites (cs_heap (evict True p sc ratio s) p) = cl_pendingWrites (cs_heap s p) - int (length (ch_buf ch)) \<and>
    cs_ctr (evict True p sc ratio s) a = cs_ctr s a - int (length (ch_buf ch)) \<and>
    cs_trace (evict True p sc ratio s) = cs_trace s @ [FxEvicted p (sc_consecutive sc) ratio] \<and>
    cs_heap (evict False p sc ratio s) = cs_heap s"
  using assms
  by (cases "ch_buf ch")
     (auto simp: evict_def drain_send_chan_def Let_def CompletePendingWrites_def bump_counter_def min_def)

definition demo_backlog :: ConnState where
  "demo_backlog = demo_plain\<lparr>cs_heap := (\<lambda>_. (NewClient 1 ''c1'' ''u1'' UserTypeCustomer)
     \<lparr>cl_SendChan := Some \<lparr>ch_cap = 4, ch_buf = [''a'', ''b''], ch_closed = False\<rparr>, cl_pendingWrites := 2, cl_pendingCounter := Some 0\<rparr>),
     cs_ctr := (\<lambda>_. 7)\<rparr>"

lemma evict_settles_witness:
  "cs_ctr (evict True 0 \<lparr>sc_consecutive = 3, sc_warned = True\<rparr> 9500 demo_backlog) 0 = 5"
  using evict_settles [of demo_backlog 0 "\<lparr>ch_cap = 4, ch_buf = [''a'', ''b''], ch_closed = False\<rparr>" 0
      "\<lparr>sc_consecutive = 3, sc_warned = True\<rparr>" 9500]
  by (simp add: demo_backlog_def)

text \<open>the scan for silent SSE clients unregisters exactly the registered SSE clients whose last sign of
  life is older than the timeout; a client whose heartbeat was just handled survives every scan up to
  one timeout later.\<close>

theorem sse_scan_exact:
  assumes "hash_ok sh" and "reach rg_init (rg_step sh) (cs_heap s, cs_reg s)"
  shows "{p. FxUnregister p \<in> set (cs_trace (ScanSSETimeouts cfg now (s\<lparr>cs_trace := []\<rparr>)))} =
      {p \<in> set (GetAllClients (cs_reg s)). is_sse (cs_heap s p) \<and>
         idle_longer now (GetLastSeen (cs_heap s p)) (hb_clientTimeout cfg)} \<and>
    (\<not> cl_closed (cs_heap s q) \<and> hb_before cfg = None \<and> t \<noteq> 0 \<and> now \<le> t + hb_clientTimeout cfg \<longrightarrow>
      \<not> idle_longer now (GetLastSeen (cs_heap (Heartbeat_Handle cfg t (Some q) s) q)) (hb_clientTimeout cfg))"
proof
  have st: "sse_timeouts cfg now (s\<lparr>cs_trace := []\<rparr>) = sse_timeouts cfg now s" by (simp add: sse_timeouts_def)
  show "{p. FxUnregister p \<in> set (cs_trace (ScanSSETimeouts cfg now (s\<lparr>cs_trace := []\<rparr>)))} =
      {p \<in> set (GetAllClients (cs_reg s)). is_sse (cs_heap s p) \<and>
         idle_longer now (GetLastSeen (cs_heap s p)) (hb_clientTimeout cfg)}"
    unfolding sse_timeouts_set [OF assms(1) reach_rg_inv [OF assms], symmetric]
    by (auto simp: ScanSSE_trace st)
  show "\<not> cl_closed (cs_heap s q) \<and> hb_before cfg = None \<and> t \<noteq> 0 \<and> now \<le> t + hb_clientTimeout cfg \<longrightarrow>
      \<not> idle_longer now (GetLastSeen (cs_heap (Heartbeat_Handle cfg t (Some q) s) q)) (hb_clientTimeout cfg)"
    by (auto simp: Heartbeat_Handle_def Let_def touch_def SetLastSeen_def SetLastHeartbeat_def GetLastSeen_def
        read_unix_def idle_longer_def)
qed

definition demo_hb :: HeartbeatConfig where
  "demo_hb = \<lparr>hb_clientTimeout = 30, hb_before = None, hb_report = False, hb_after = False, hb_onTimeout = True\<rparr>"

lemma sse_scan_exact_witness:
  "{p. FxUnregister p \<in> set (cs_trace (ScanSSETimeouts demo_hb 100 (demo_plain\<lparr>cs_trace := []\<rparr>)))} = {1}"
  using sse_scan_exact [OF demo_hash, of demo_plain demo_hb 100] demo_reach2
  by (simp add: demo_plain_def demo_conn_state_def demo_all)
     (auto simp: demo_heap_def NewClient_def is_sse_def demo_hb_def idle_longer_def GetLastSeen_def read_unix_def)

end
