(* ===== verification/Lifecycle.thy ===== *)
theory Lifecycle
  imports Supervision
begin

text \<open>
  Multi-login policy, kicking, removal and closing of connections: connection/lifecycle.go.

  \<^item> The routing dimensions of a context are read by the parameter \<open>ctxroute\<close>
    (\<open>AppIDFromContext\<close> and \<open>NamespaceFromContext\<close> of the client's context handle).
  \<^item> The Chinese texts of notices are parameters of no consequence: \<open>text1\<close>, \<open>text2\<close>.
  \<^item> Unregistering and sending are ports of the hub: entries of the trace.
\<close>

section \<open>Definitions\<close>

abbreviation DisconnectReasonForceOffline :: string where
  "DisconnectReasonForceOffline \<equiv> ''force_offline''"

record MultiLoginPolicy =
  mp_AllowMultiLogin :: bool
  mp_MaxConnectionsPerUser :: int

record KickUserResult =
  kr_Success :: bool
  kr_NotificationSent :: bool
  kr_KickedConnections :: int

text \<open>\<open>WithContentExtra\<close> in a builder chain.  On a message with data that holds no content_extra yet it
  cannot panic; a panic would leave the chain (see \<open>extra_total\<close>).\<close>

definition with_extra :: "string \<Rightarrow> AnyVal \<Rightarrow> DataHeap \<times> HubMessage \<Rightarrow> (DataHeap \<times> HubMessage) option" where
  "with_extra key value hm = (case hm of (h, m) \<Rightarrow> WithContentExtra key value h m)"

definition force_offline_msg :: "int \<Rightarrow> Client \<Rightarrow> string \<Rightarrow> string \<Rightarrow> DataHeap \<Rightarrow> (DataHeap \<times> HubMessage) option" where
  "force_offline_msg now client reason message h =
     (case NewHubMessage now h of (h, m) \<Rightarrow>
        with_extra ''reason'' (AStr reason)
          (h, SetContent message (SetReceiverType (cl_UserType client) (SetReceiver (cl_UserID client)
                (SetSenderType UserTypeSystem (SetSender UserTypeSystem (SetMessageType MessageTypeForceOffline m)))))))"

definition kick_out_msg :: "int \<Rightarrow> string \<Rightarrow> string \<Rightarrow> string \<Rightarrow> nat \<Rightarrow> DataHeap \<Rightarrow> (DataHeap \<times> HubMessage) option" where
  "kick_out_msg now userID content reason kicked_at h =
     (case NewHubMessage now h of (h, m) \<Rightarrow>
        Option.bind (with_extra ''reason'' (AStr reason)
          (h, SetContent content (SetReceiver userID
                (SetSenderType UserTypeSystem (SetSender UserTypeSystem (SetMessageType MessageTypeKickOut m))))))
          (with_extra ''kicked_at'' (AOther kicked_at)))"

definition KickClient :: "int \<Rightarrow> nat \<Rightarrow> string \<Rightarrow> string \<Rightarrow> ConnState \<Rightarrow> ConnState" where
  "KickClient now p reason message s =
     (let s1 = (if cl_Conn (cs_heap s p) = None then s
                else case force_offline_msg now (cs_heap s p) reason message (cs_data s) of
                       None \<Rightarrow> s
                     | Some (h, m) \<Rightarrow> emit (FxSendToClient p m) (s\<lparr>cs_data := h\<rparr>))
      in emit (FxUnregister p) s1)"

definition kickClients :: "int \<Rightarrow> string \<Rightarrow> nat list \<Rightarrow> ConnState \<Rightarrow> ConnState" where
  "kickClients now text1 clients s =
     fold (\<lambda>p. KickClient now p DisconnectReasonForceOffline text1) clients s"

text \<open>\<open>Before\<close> on times; \<open>None\<close> is the zero time.\<close>

definition time_before :: "int option \<Rightarrow> int option \<Rightarrow> bool" where
  "time_before a b = (case (a, b) of (None, None) \<Rightarrow> False | (None, Some _) \<Rightarrow> True
     | (Some _, None) \<Rightarrow> False | (Some x, Some y) \<Rightarrow> x < y)"

definition oldest :: "(string \<Rightarrow> nat) \<Rightarrow> string \<Rightarrow> nat \<Rightarrow> ConnState \<Rightarrow> (nat \<times> int option) option" where
  "oldest sh userID exclude s =
     ForEachUserClient sh userID
       (\<lambda>_ p acc.
          if p = exclude then (True, acc)
          else let heartbeat = GetLastHeartbeat (cs_heap s p)
               in (True, case acc of
                           None \<Rightarrow> Some (p, heartbeat)
                         | Some (q, t) \<Rightarrow> if time_before heartbeat t then Some (p, heartbeat) else acc))
       (cs_reg s) None"

definition kickOldest :: "(string \<Rightarrow> nat) \<Rightarrow> int \<Rightarrow> string \<Rightarrow> string \<Rightarrow> nat \<Rightarrow> ConnState \<Rightarrow> ConnState" where
  "kickOldest sh now text2 userID exclude s =
     (case oldest sh userID exclude s of
        None \<Rightarrow> s
      | Some (p, _) \<Rightarrow> KickClient now p DisconnectReasonForceOffline text2 s)"

definition user_others :: "(string \<Rightarrow> nat) \<Rightarrow> string \<Rightarrow> nat \<Rightarrow> ConnState \<Rightarrow> nat list" where
  "user_others sh userID new s =
     ForEachUserClient sh userID (\<lambda>_ p acc. (True, if p \<noteq> new then acc @ [p] else acc)) (cs_reg s) []"

definition EnforceMultiLoginPolicy ::
  "(string \<Rightarrow> nat) \<Rightarrow> (nat option \<Rightarrow> string \<times> string) \<Rightarrow> MultiLoginPolicy \<Rightarrow> int \<Rightarrow> string \<Rightarrow> string \<Rightarrow> nat \<Rightarrow> ConnState \<Rightarrow> ConnState" where
  "EnforceMultiLoginPolicy sh ctxroute policy now text1 text2 newClient s =
     (let userID = cl_UserID (cs_heap s newClient);
          (appID, ns) = ctxroute (cl_Context (cs_heap s newClient))
      in if \<not> HasUser sh (cs_heap s) userID appID ns (cs_reg s) then s
         else if \<not> mp_AllowMultiLogin policy then kickClients now text1 (user_others sh userID newClient s) s
         else if mp_MaxConnectionsPerUser policy > 0 then
           if GetUserClientCount sh userID (cs_reg s) \<le> mp_MaxConnectionsPerUser policy then s
           else kickOldest sh now text2 userID newClient s
         else s)"

definition envelope_clients :: "(string \<Rightarrow> nat) \<Rightarrow> string \<Rightarrow> string \<Rightarrow> string \<Rightarrow> ConnState \<Rightarrow> nat list" where
  "envelope_clients sh userID appID ns s =
     ForEachUserClientFiltered sh (cs_heap s) userID appID ns (\<lambda>_ p acc. (True, acc @ [p])) (cs_reg s) []"

text \<open>The loop of \<open>KickUser\<close>: \<open>msg\<close> is the notice, if any.\<close>

definition kick_one :: "HubMessage option \<Rightarrow> nat \<Rightarrow> KickUserResult \<times> ConnState \<Rightarrow> KickUserResult \<times> ConnState" where
  "kick_one msg p rs =
     (case rs of (r, s) \<Rightarrow>
        let (r, s) = (case msg of
                        Some m \<Rightarrow> if cl_Conn (cs_heap s p) \<noteq> None
                                  then (r\<lparr>kr_NotificationSent := True\<rparr>, emit (FxSendToClient p m) s) else (r, s)
                      | None \<Rightarrow> (r, s))
        in (r, emit (FxUnregister p) s))"

definition KickUser ::
  "(string \<Rightarrow> nat) \<Rightarrow> string \<times> string \<Rightarrow> int \<Rightarrow> nat \<Rightarrow> string \<Rightarrow> string \<Rightarrow> string \<Rightarrow> bool \<Rightarrow> string \<Rightarrow> ConnState \<Rightarrow> KickUserResult \<times> ConnState" where
  "KickUser sh route now kicked_at default_text userID reason sendNotification notificationMsg s =
     (let (appID, ns) = route;
          clients = envelope_clients sh userID appID ns s;
          result = \<lparr>kr_Success = True, kr_NotificationSent = False, kr_KickedConnections = int (length clients)\<rparr>
      in if clients = [] then (result, s)
         else if sendNotification then
           case kick_out_msg now userID (if notificationMsg = [] then default_text else notificationMsg) reason kicked_at (cs_data s) of
             None \<Rightarrow> (result, s)
           | Some (h, m) \<Rightarrow> fold (kick_one (Some m)) clients (result, s\<lparr>cs_data := h\<rparr>)
         else fold (kick_one None) clients (result, s))"

section \<open>Removal\<close>

text \<open>Closing a channel twice is a run-time panic, recorded in the trace.\<close>

definition CloseChannel :: "nat \<Rightarrow> ConnState \<Rightarrow> ConnState" where
  "CloseChannel p s =
     (if cl_closed (cs_heap s p) then s
      else let s1 = on_client p MarkClosed s;
               s2 = (case cl_DoneCh (cs_heap s1 p) of
                       None \<Rightarrow> s1
                     | Some ch \<Rightarrow> if ch_closed ch then emit (FxDoubleClose p) s1
                                 else on_client p (\<lambda>c ctr. (c\<lparr>cl_DoneCh := Some (ch\<lparr>ch_closed := True\<rparr>)\<rparr>, ctr)) s1)
           in case cl_SSECloseCh (cs_heap s2 p) of
                None \<Rightarrow> s2
              | Some ch \<Rightarrow> emit_if (cl_ConnectionType (cs_heap s2 p) = ConnectionTypeSSE) (FxCloseSSE ch) s2)"

definition CloseConnection :: "bool \<Rightarrow> nat \<Rightarrow> ConnState \<Rightarrow> ConnState" where
  "CloseConnection shutting_down p s =
     (case cl_Conn (cs_heap s p) of
        None \<Rightarrow> s
      | Some conn \<Rightarrow> emit (FxConnClose conn) (emit_if shutting_down (FxGoingAway conn) s))"

definition RemoveUnsafe :: "(string \<Rightarrow> nat) \<Rightarrow> bool \<Rightarrow> nat \<Rightarrow> ConnState \<Rightarrow> ConnState" where
  "RemoveUnsafe sh shutting_down client s =
     (let c = cs_heap s client
      in case RemoveClient sh (cs_heap s) (cl_ID c) (cl_UserID c) (cs_reg s) of
           (None, _) \<Rightarrow> s
         | (Some removed, reg) \<Rightarrow>
             if removed \<noteq> client then s\<lparr>cs_reg := AddClient sh (cs_heap s) (Some removed) reg\<rparr>
             else CloseConnection shutting_down client
                    (CloseChannel client (CancelTimeout (cl_ID c) (s\<lparr>cs_reg := reg\<rparr>))))"

definition CleanupHalfRegistered :: "(string \<Rightarrow> nat) \<Rightarrow> bool \<Rightarrow> nat option \<Rightarrow> ConnState \<Rightarrow> ConnState" where
  "CleanupHalfRegistered sh shutting_down client s =
     (case client of None \<Rightarrow> s
      | Some p \<Rightarrow>
          let c = cs_heap s p;
              s1 = (case RemoveClient sh (cs_heap s) (cl_ID c) (cl_UserID c) (cs_reg s) of
                      (None, _) \<Rightarrow> s
                    | (Some removed, reg) \<Rightarrow>
                        if removed \<noteq> p then s\<lparr>cs_reg := AddClient sh (cs_heap s) (Some removed) reg\<rparr>
                        else CancelTimeout (cl_ID c) (s\<lparr>cs_reg := reg\<rparr>))
          in CloseConnection shutting_down p (CloseChannel p s1))"

section \<open>Lemmas on notices\<close>

lemma extra_total:
  "force_offline_msg now client reason message h \<noteq> None"
  "kick_out_msg now userID content reason kicked_at h \<noteq> None"
  by (simp_all add: force_offline_msg_def kick_out_msg_def NewHubMessage_def dh_alloc_def dh_put_def with_extra_def WithContentExtra_def setMapValue_def
      ensure_data_def SetContent_def SetReceiverType_def SetReceiver_def SetSenderType_def SetSender_def SetMessageType_def
      zero_message_def gomap_simps Let_def split: option.split AnyVal.split)

lemma msg_types:
  "force_offline_msg now client reason message h = Some (h', m) \<Longrightarrow>
     hm_MessageType m = MessageTypeForceOffline \<and> hm_Receiver m = cl_UserID client \<and> hm_Content m = message"
  "kick_out_msg now userID content reason kicked_at h = Some (h', m) \<Longrightarrow>
     hm_MessageType m = MessageTypeKickOut \<and> hm_Receiver m = userID \<and> hm_Content m = content"
  by (auto simp: force_offline_msg_def kick_out_msg_def NewHubMessage_def dh_alloc_def dh_put_def with_extra_def WithContentExtra_def setMapValue_def
      ensure_data_def SetContent_def SetReceiverType_def SetReceiver_def SetSenderType_def SetSender_def SetMessageType_def
      zero_message_def gomap_simps Let_def split: option.splits AnyVal.splits)

section \<open>Lemmas on kicking\<close>

text \<open>The calls of the hub in a trace.\<close>

fun unregs :: "effect list \<Rightarrow> nat list" where
  "unregs [] = []"
| "unregs (FxUnregister p # fx) = p # unregs fx"
| "unregs (_ # fx) = unregs fx"

lemma unregs_append [simp]: "unregs (xs @ ys) = unregs xs @ unregs ys"
  by (induction xs rule: unregs.induct) auto

lemma KickClient_simps [simp]:
  "cs_heap (KickClient now p reason message s) = cs_heap s"
  "cs_reg (KickClient now p reason message s) = cs_reg s"
  "unregs (cs_trace (KickClient now p reason message s)) = unregs (cs_trace s) @ [p]"
  by (auto simp: KickClient_def Let_def split: option.split)

lemma kickClients_simps [simp]:
  "cs_heap (kickClients now text1 ps s) = cs_heap s"
  "cs_reg (kickClients now text1 ps s) = cs_reg s"
  "unregs (cs_trace (kickClients now text1 ps s)) = unregs (cs_trace s) @ ps"
  unfolding kickClients_def by (induction ps arbitrary: s) auto

lemma shard_values:
  assumes "nested_ok sh (rg_userShards r)"
  shows "ForEachUserClient sh userID fn r st =
    snd (range_while (\<lambda>(cid, p). fn cid p) (sm_inner sh (rg_userShards r) userID) st)"
  by (simp add: ForEachUserClient_def shard_user_eq [OF assms])

lemma user_others_eq:
  assumes "nested_ok sh (rg_userShards (cs_reg s))"
  shows "user_others sh userID new s = filter (\<lambda>p. p \<noteq> new) (gm_values (sm_inner sh (rg_userShards (cs_reg s)) userID))"
  unfolding user_others_def shard_values [OF assms] range_while_filter by simp

lemma envelope_clients_eq:
  assumes "nested_ok sh (rg_userShards (cs_reg s))"
  shows "envelope_clients sh userID appID ns s =
    filter (\<lambda>p. appID = [] \<or> ClientMatchesEnvelope (cs_heap s p) appID ns) (gm_values (sm_inner sh (rg_userShards (cs_reg s)) userID))"
proof (cases "appID = []")
  case True
  have "range_while (\<lambda>(cid, p) acc. (True, acc @ [p])) m acc = (True, acc @ gm_values m)" for m :: "(string, nat) gomap" and acc
    by (induction m arbitrary: acc) (auto simp: gm_values_def)
  then show ?thesis by (simp add: True envelope_clients_def ForEachUserClientFiltered_def shard_values [OF assms])
next
  case False
  have "(\<lambda>(cid, p) s'. if \<not> ClientMatchesEnvelope (cs_heap s p) appID ns then (True, s') else (True, s' @ [p])) =
    (\<lambda>(cid :: string, p) acc. if \<not> ClientMatchesEnvelope (cs_heap s p) appID ns then (True, acc) else (True, acc @ [p]))"
    by simp
  then show ?thesis
    using range_while_collect [of "\<lambda>p. ClientMatchesEnvelope (cs_heap s p) appID ns" "sm_inner sh (rg_userShards (cs_reg s)) userID" "[]"] False
    by (simp add: envelope_clients_def ForEachUserClientFiltered_def shard_values [OF assms])
qed

text \<open>The minimum of the loop in \<open>kickOldest\<close>.\<close>

lemma time_before_trans:
  "\<not> time_before b a \<Longrightarrow> time_before c a \<Longrightarrow> \<not> time_before b c"
  by (auto simp: time_before_def split: option.splits)

lemma time_before_irrefl [simp]: "\<not> time_before a a"
  by (simp add: time_before_def split: option.split)

definition older :: "heap \<Rightarrow> nat \<Rightarrow> nat \<Rightarrow> (nat \<times> int option) option \<Rightarrow> (nat \<times> int option) option" where
  "older H exclude p acc =
     (if p = exclude then acc
      else case acc of
             None \<Rightarrow> Some (p, GetLastHeartbeat (H p))
           | Some (q, t) \<Rightarrow> if time_before (GetLastHeartbeat (H p)) t then Some (p, GetLastHeartbeat (H p)) else acc)"

lemma oldest_fold:
  assumes "nested_ok sh (rg_userShards (cs_reg s))"
  shows "oldest sh userID exclude s =
    fold (older (cs_heap s) exclude) (gm_values (sm_inner sh (rg_userShards (cs_reg s)) userID)) None"
proof -
  have "snd (range_while (\<lambda>(cid, p) acc.
          if p = exclude then (True, acc)
          else let heartbeat = GetLastHeartbeat (cs_heap s p)
               in (True, case acc of
                           None \<Rightarrow> Some (p, heartbeat)
                         | Some (q, t) \<Rightarrow> if time_before heartbeat t then Some (p, heartbeat) else acc)) m acc) =
      fold (older (cs_heap s) exclude) (gm_values m) acc" for m :: "(string, nat) gomap" and acc
    by (induction m arbitrary: acc) (auto simp: gm_values_def older_def Let_def split: option.split)
  then show ?thesis by (simp add: oldest_def shard_values [OF assms])
qed

lemma older_fold_inv:
  assumes "acc = Some (q, GetLastHeartbeat (H q))"
  shows "\<exists>p. fold (older H exclude) ps acc = Some (p, GetLastHeartbeat (H p)) \<and>
    (p = q \<or> p \<in> set ps \<and> p \<noteq> exclude) \<and> \<not> time_before (GetLastHeartbeat (H q)) (GetLastHeartbeat (H p)) \<and>
    (\<forall>x\<in>set ps. x \<noteq> exclude \<longrightarrow> \<not> time_before (GetLastHeartbeat (H x)) (GetLastHeartbeat (H p)))"
  using assms
proof (induction ps arbitrary: acc q)
  case Nil
  then show ?case by simp
next
  case (Cons x ps)
  let ?q = "if x \<noteq> exclude \<and> time_before (GetLastHeartbeat (H x)) (GetLastHeartbeat (H q)) then x else q"
  have "older H exclude x acc = Some (?q, GetLastHeartbeat (H ?q))" using Cons.prems by (simp add: older_def)
  from Cons.IH [OF this] obtain p where p: "fold (older H exclude) ps (older H exclude x acc) = Some (p, GetLastHeartbeat (H p))"
    "p = ?q \<or> p \<in> set ps \<and> p \<noteq> exclude" "\<not> time_before (GetLastHeartbeat (H ?q)) (GetLastHeartbeat (H p))"
    "\<forall>x\<in>set ps. x \<noteq> exclude \<longrightarrow> \<not> time_before (GetLastHeartbeat (H x)) (GetLastHeartbeat (H p))" by blast
  then show ?case
    by (cases "x \<noteq> exclude \<and> time_before (GetLastHeartbeat (H x)) (GetLastHeartbeat (H q))")
       (auto dest: time_before_trans simp: time_before_def split: option.splits if_splits)
qed

lemma oldest_min:
  assumes "\<exists>q\<in>set ps. q \<noteq> exclude"
  shows "\<exists>p. fold (older H exclude) ps None = Some (p, GetLastHeartbeat (H p)) \<and> p \<in> set ps \<and> p \<noteq> exclude \<and>
    (\<forall>x\<in>set ps. x \<noteq> exclude \<longrightarrow> \<not> time_before (GetLastHeartbeat (H x)) (GetLastHeartbeat (H p)))"
  using assms
proof (induction ps)
  case Nil
  then show ?case by simp
next
  case (Cons x ps)
  show ?case
  proof (cases "x = exclude")
    case True
    with Cons show ?thesis by (auto simp: older_def)
  next
    case False
    then have "older H exclude x None = Some (x, GetLastHeartbeat (H x))" by (simp add: older_def)
    from older_fold_inv [where H = H and q = x, OF this, of exclude ps] this False show ?thesis by auto
  qed
qed

section \<open>Lemmas on closing\<close>

text \<open>Only \<open>CloseChannel\<close> closes the lifecycle signal, and it marks the client first.\<close>

definition done_ok :: "Client \<Rightarrow> bool" where
  "done_ok c \<longleftrightarrow> (\<forall>ch. cl_DoneCh c = Some ch \<and> ch_closed ch \<longrightarrow> cl_closed c)"

lemma complete_more:
  "cl_DoneCh (fst (CompletePendingWrites n c ctr)) = cl_DoneCh c"
  "cl_closed (fst (CompletePendingWrites n c ctr)) = cl_closed c"
  "cl_Conn (fst (CompletePendingWrites n c ctr)) = cl_Conn c"
  "cl_SSECloseCh (fst (CompletePendingWrites n c ctr)) = cl_SSECloseCh c"
  "cl_ConnectionType (fst (CompletePendingWrites n c ctr)) = cl_ConnectionType c"
  by (auto simp: CompletePendingWrites_def Let_def)

lemma mark_closed_fields:
  "cl_DoneCh (fst (MarkClosed c ctr)) = cl_DoneCh c" "cl_closed (fst (MarkClosed c ctr))"
  "cl_Conn (fst (MarkClosed c ctr)) = cl_Conn c" "filing (fst (MarkClosed c ctr)) = filing c"
  by (simp_all add: MarkClosed_def complete_more complete_fields) (simp add: filing_def)

lemma CloseChannel_closed: "cl_closed (cs_heap (CloseChannel p s) p)"
  by (auto simp: CloseChannel_def Let_def mark_closed_fields split: option.split)

lemma CloseChannel_frame:
  "cs_reg (CloseChannel p s) = cs_reg s" "q \<noteq> p \<Longrightarrow> cs_heap (CloseChannel p s) q = cs_heap s q"
  "cl_Conn (cs_heap (CloseChannel p s) p) = cl_Conn (cs_heap s p)"
  "filing (cs_heap (CloseChannel p s) q) = filing (cs_heap s q)"
  by (auto simp: CloseChannel_def Let_def mark_closed_fields split: option.split)
     (simp_all add: filing_def mark_closed_fields [unfolded filing_def])

lemma CloseChannel_extends: "\<exists>fx. cs_trace (CloseChannel p s) = cs_trace s @ fx"
  by (auto simp: CloseChannel_def Let_def split: option.split)

lemma CloseChannel_trace:
  assumes "done_ok (cs_heap s p)"
  shows "cs_trace (CloseChannel p s) = cs_trace s \<or> (\<exists>ch. cs_trace (CloseChannel p s) = cs_trace s @ [FxCloseSSE ch])"
    and "done_ok (cs_heap (CloseChannel p s) q) \<longleftrightarrow> done_ok (cs_heap s q) \<or> q = p"
  using assms CloseChannel_closed [of p s]
  by (auto simp: done_ok_def CloseChannel_def Let_def mark_closed_fields split: option.splits)

section \<open>Lemmas on removal\<close>

lemma removed_pointer:
  assumes inv: "rg_inv sh H r" and rm: "RemoveClient sh H clientID userID r = (Some q, r')"
  shows "cl_ID (H q) = clientID \<and> cl_UserID (H q) = userID \<and> GetClient sh clientID r = Some q"
proof -
  from get_client_remove(1) [OF inv, of clientID userID] rm
  have "map_of (sm_inner sh (rg_userShards r) userID) clientID = Some q" by simp
  with users_ok_ident [OF rg_invD(1) [OF inv] this] get_client_iff [OF inv] show ?thesis by blast
qed

text \<open>Taking an entry out and putting it back leaves the registry as it was.\<close>

lemma remove_add_back:
  assumes inv: "rg_inv sh H r" and rm: "RemoveClient sh H clientID userID r = (Some q, r')"
  shows "rg_inv sh H (AddClient sh H (Some q) r') \<and> GetClient sh c (AddClient sh H (Some q) r') = GetClient sh c r"
proof -
  have inv': "rg_inv sh H r'" using rg_inv_remove [OF inv, of clientID userID] rm by simp
  note q = removed_pointer [OF inv rm]
  have gone: "GetClient sh c r' = (if c = clientID then None else GetClient sh c r)" for c
  proof -
    have "map_of (sm_inner sh (rg_userShards r) userID) clientID = Some q"
      using get_client_remove(1) [OF inv, where clientID = clientID and userID = userID] rm by simp
    with get_client_remove(2) [OF inv, where c = c and clientID = clientID and userID = userID] rm show ?thesis by simp
  qed
  have add: "add_ok sh H q r'" using q gone [of clientID] by (simp add: add_ok_def)
  show ?thesis
    using rg_inv_add [OF inv' add] get_client_add [OF inv' add, of c] gone [of c] q by simp
qed

section \<open>A user in two applications\<close>

definition two_heap :: heap where
  "two_heap p =
     (if p = 0 then (NewClient 1 ''c1'' ''u1'' UserTypeCustomer)\<lparr>cl_AppID := ''shop'', cl_Conn := Some 7\<rparr>
      else (NewClient 2 ''c2'' ''u1'' UserTypeCustomer)\<lparr>cl_AppID := ''chat''\<rparr>)"

definition two_r1 :: ShardedRegistry where
  "two_r1 = AddClient demo_sh two_heap (Some 0) (NewShardedRegistry False False)"

definition two_r2 :: ShardedRegistry where
  "two_r2 = AddClient demo_sh two_heap (Some 1) two_r1"

lemma two_ids:
  "cl_ID (two_heap 0) = ''c1''" "cl_UserID (two_heap 0) = ''u1''" "cl_ID (two_heap (Suc 0)) = ''c2''" "cl_UserID (two_heap (Suc 0)) = ''u1''"
  "cl_AppID (two_heap 0) = ''shop''" "cl_AppID (two_heap (Suc 0)) = ''chat''"
  by (simp_all add: two_heap_def NewClient_def)

lemma two_reach: "reach rg_init (rg_step demo_sh) (two_heap, two_r2)"
proof -
  have 0: "reach rg_init (rg_step demo_sh) (two_heap, NewShardedRegistry False False)"
    by (rule reach_init) (auto simp: rg_init_def)
  have "add_ok demo_sh two_heap 0 (NewShardedRegistry False False)"
    by (simp add: add_ok_def GetClient_def demo_rev0)
  note add0 = this
  have 1: "reach rg_init (rg_step demo_sh) (two_heap, two_r1)"
    unfolding two_r1_def using 0 by (rule reach_step) (rule rg_step.add [OF add0])
  have "add_ok demo_sh two_heap 1 two_r1"
    by (simp add: add_ok_def GetClient_def two_r1_def add_fields rev_put_def demo_rev0 two_ids)
  note add1 = this
  show ?thesis unfolding two_r2_def using 1 by (rule reach_step) (rule rg_step.add [OF add1])
qed

lemma two_shards: "rg_userShards two_r2 = (\<lambda>i. if i = 0 then [(''u1'', [(''c1'', 0), (''c2'', 1)])] else [])"
  by (rule ext)
     (simp add: two_r2_def two_r1_def add_fields user_put_def two_ids demo_sh_def with_shard_lock_def
        NewShardedRegistry_def sm_new_def nest_put_def)

lemma two_all: "GetAllClients two_r2 = [0, 1]"
proof -
  have "[0..<defaultShardCount] = 0 # [1..<defaultShardCount]"
    by (simp add: defaultShardCount_def upt_conv_Cons)
  then have "sm_range defaultShardCount (rg_userShards two_r2) = [(''u1'', [(''c1'', 0), (''c2'', 1)])]"
    by (simp add: sm_range_def two_shards)
  then show ?thesis by (simp add: GetAllClients_def gm_values_def)
qed

lemma two_user: "shard_user demo_sh ''u1'' (rg_userShards two_r2) = Some [(''c1'', 0), (''c2'', 1)]"
  by (simp add: shard_user_def with_shard_rlock_def two_shards demo_sh_def)

definition two_state :: ConnState where
  "two_state = \<lparr>cs_heap = two_heap, cs_ctr = (\<lambda>_. 0), cs_data = \<lparr>dh_next = 0, dh_objs = \<lambda>_. []\<rparr>, cs_reg = two_r2, cs_trace = []\<rparr>"

lemma two_fields: "cs_heap two_state = two_heap" "cs_reg two_state = two_r2" "cs_trace two_state = []"
  by (simp_all add: two_state_def)

section \<open>Properties\<close>



text \<open>kicking a user unregisters exactly his connections inside the routing envelope, each once,
  with the notice (if one is wanted and the connection has a socket) right before; the result counts
  them, and zero of them is a success.\<close>

theorem kick_user_exact:
  assumes hash: "hash_ok sh" and reach: "reach rg_init (rg_step sh) (cs_heap s, cs_reg s)" and empty: "cs_trace s = []"
  shows "\<exists>ps m. set ps = {p \<in> set (GetAllClients (cs_reg s)). cl_UserID (cs_heap s p) = userID \<and>
       (appID = [] \<or> ClientMatchesEnvelope (cs_heap s p) appID ns)} \<and> distinct ps \<and>
    hm_MessageType m = MessageTypeKickOut \<and> hm_Receiver m = userID \<and>
    cs_trace (snd (KickUser sh (appID, ns) now at dflt userID reason notify msg s)) =
      concat (map (\<lambda>p. (if notify \<and> cl_Conn (cs_heap s p) \<noteq> None then [FxSendToClient p m] else []) @ [FxUnregister p]) ps) \<and>
    fst (KickUser sh (appID, ns) now at dflt userID reason notify msg s) =
      \<lparr>kr_Success = True, kr_NotificationSent = (notify \<and> (\<exists>p\<in>set ps. cl_Conn (cs_heap s p) \<noteq> None)),
       kr_KickedConnections = int (length ps)\<rparr>"
proof -
  have inv: "rg_inv sh (cs_heap s) (cs_reg s)" using reach_rg_inv [OF hash reach] .
  note U = rg_invD(1) [OF inv] and nest = users_ok_nested [OF rg_invD(1) [OF inv]]
  let ?ps = "envelope_clients sh userID appID ns s"
  have ps: "set ?ps = {p \<in> set (GetAllClients (cs_reg s)). cl_UserID (cs_heap s p) = userID \<and>
       (appID = [] \<or> ClientMatchesEnvelope (cs_heap s p) appID ns)}" "distinct ?ps"
    using user_values [OF U hash, of userID] distinct_user_values [OF U, of userID]
    by (auto simp: envelope_clients_eq [OF nest])
  obtain h m where msg: "kick_out_msg now userID (if msg = [] then dflt else msg) reason at (cs_data s) = Some (h, m)"
    using extra_total(2) by (metis not_None_eq prod.collapse)
  note ty = msg_types(2) [OF msg]
  have run: "fold (kick_one notice) qs (r, t) =
      (r\<lparr>kr_NotificationSent := kr_NotificationSent r \<or> notice \<noteq> None \<and> (\<exists>p\<in>set qs. cl_Conn (cs_heap t p) \<noteq> None)\<rparr>,
       t\<lparr>cs_trace := cs_trace t @ concat (map (\<lambda>p. (case notice of Some m \<Rightarrow> if cl_Conn (cs_heap t p) \<noteq> None then [FxSendToClient p m] else []
            | None \<Rightarrow> []) @ [FxUnregister p]) qs)\<rparr>)" for qs r t notice
    by (induction qs arbitrary: r t) (auto simp: kick_one_def emit_def split: option.splits)
  show ?thesis
    using ps ty msg empty by (intro exI [of _ ?ps] exI [of _ m]) (auto simp: KickUser_def Let_def run)
qed

lemma kick_user_exact_witness:
  "unregs (cs_trace (snd (KickUser demo_sh (''shop'', []) 5 5 ''bye'' ''u1'' ''abuse'' True [] two_state))) = [0]"
proof -
  have r: "reach rg_init (rg_step demo_sh) (cs_heap two_state, cs_reg two_state)" by (simp add: two_fields two_reach)
  obtain ps m where ps: "set ps = {p \<in> set (GetAllClients two_r2). cl_UserID (two_heap p) = ''u1'' \<and>
       (''shop'' = [] \<or> ClientMatchesEnvelope (two_heap p) ''shop'' [])}" "distinct ps"
    and tr: "cs_trace (snd (KickUser demo_sh (''shop'', []) 5 5 ''bye'' ''u1'' ''abuse'' True [] two_state)) =
      concat (map (\<lambda>p. (if True \<and> cl_Conn (two_heap p) \<noteq> None then [FxSendToClient p m] else []) @ [FxUnregister p]) ps)"
    using kick_user_exact [OF demo_hash r two_fields(3), of "''u1''" "''shop''" "[]" 5 5 "''bye''" "''abuse''" True "[]"]
    unfolding two_fields by blast
  from ps(1) have "set ps = {0}" unfolding set_filter [symmetric] two_all by (simp add: two_ids ClientMatchesEnvelope_def)
  with ps(2) have "ps = [0]" by (cases ps; cases "tl ps") auto
  with tr show ?thesis by simp
qed

text \<open>removing a connection whose registration was taken over by a reconnect leaves the registry, the
  replacement and its timer alone; removing the registered one takes it out, cancels its timer,
  closes its channel once and then its socket.\<close>

theorem remove_spares_replacement:
  assumes hash: "hash_ok sh" and reach: "reach rg_init (rg_step sh) (cs_heap s, cs_reg s)"
    and q: "GetClient sh (cl_ID (cs_heap s p)) (cs_reg s) = Some q" "cl_UserID (cs_heap s q) = cl_UserID (cs_heap s p)"
  shows "(q \<noteq> p \<longrightarrow> GetClient sh c (cs_reg (RemoveUnsafe sh down p s)) = GetClient sh c (cs_reg s) \<and>
      cs_heap (RemoveUnsafe sh down p s) = cs_heap s \<and> cs_trace (RemoveUnsafe sh down p s) = cs_trace s) \<and>
    (q = p \<longrightarrow> GetClient sh (cl_ID (cs_heap s p)) (cs_reg (RemoveUnsafe sh down p s)) = None \<and>
      cl_closed (cs_heap (RemoveUnsafe sh down p s) p) \<and>
      (\<exists>fx. cs_trace (RemoveUnsafe sh down p s) = cs_trace s @ FxTimerCancel (cl_ID (cs_heap s p)) # fx \<and>
        (\<forall>conn. cl_Conn (cs_heap s p) = Some conn \<longrightarrow> FxConnClose conn \<in> set fx)))"
proof -
  have inv: "rg_inv sh (cs_heap s) (cs_reg s)" using reach_rg_inv [OF hash reach] .
  let ?rm = "RemoveClient sh (cs_heap s) (cl_ID (cs_heap s p)) (cl_UserID (cs_heap s p)) (cs_reg s)"
  have "fst ?rm = Some q"
    using get_client_remove(1) [OF inv] get_client_user [OF inv] q by simp
  then obtain r' where rm: "?rm = (Some q, r')" by (metis prod.collapse)
  show ?thesis
  proof (cases "q = p")
    case False
    with rm remove_add_back [OF inv rm] show ?thesis by (simp add: RemoveUnsafe_def Let_def)
  next
    case True
    let ?t = "CancelTimeout (cl_ID (cs_heap s p)) (s\<lparr>cs_reg := r'\<rparr>)"
    have s': "RemoveUnsafe sh down p s = CloseConnection down p (CloseChannel p ?t)"
      using rm True by (simp add: RemoveUnsafe_def Let_def)
    have gone: "GetClient sh (cl_ID (cs_heap s p)) r' = None"
      using get_client_remove(2) [OF inv, where c = "cl_ID (cs_heap s p)" and clientID = "cl_ID (cs_heap s p)" and userID = "cl_UserID (cs_heap s p)"]
        get_client_remove(1) [OF inv, where clientID = "cl_ID (cs_heap s p)" and userID = "cl_UserID (cs_heap s p)"] rm
      by (simp split: if_splits)
    have fr: "cs_reg (RemoveUnsafe sh down p s) = r'" "cl_closed (cs_heap (RemoveUnsafe sh down p s) p)"
      using CloseChannel_closed [of p ?t]
      by (auto simp: s' CloseConnection_def CancelTimeout_def CloseChannel_frame split: option.split)
    obtain fx1 where fx1: "cs_trace (CloseChannel p ?t) = cs_trace s @ FxTimerCancel (cl_ID (cs_heap s p)) # fx1"
      using CloseChannel_extends [of p ?t] by (auto simp: CancelTimeout_def)
    have "\<exists>fx. cs_trace (RemoveUnsafe sh down p s) = cs_trace s @ FxTimerCancel (cl_ID (cs_heap s p)) # fx \<and>
        (\<forall>conn. cl_Conn (cs_heap s p) = Some conn \<longrightarrow> FxConnClose conn \<in> set fx)"
      using fx1 CloseChannel_frame(3) [of p ?t]
      by (cases "cl_Conn (cs_heap s p)") (auto simp: s' CloseConnection_def CancelTimeout_def)
    with True gone fr show ?thesis by simp
  qed
qed

text \<open>a client is closed once.  However often \<open>CloseChannel\<close> runs, the lifecycle signal is never closed
  twice, and every call after the first changes nothing.\<close>

theorem close_once:
  assumes "done_ok (cs_heap s p)"
  shows "FxDoubleClose p \<notin> set (drop (length (cs_trace s)) (cs_trace (CloseChannel p s))) \<and>
    cl_closed (cs_heap (CloseChannel p s) p) \<and> done_ok (cs_heap (CloseChannel p s) p) \<and>
    CloseChannel p (CloseChannel p s) = CloseChannel p s"
proof -
  have "CloseChannel p (CloseChannel p s) = CloseChannel p s"
    using CloseChannel_closed [of p s] by (simp add: CloseChannel_def [of p "CloseChannel p s"])
  with CloseChannel_trace [OF assms] CloseChannel_closed [of p s] show ?thesis by auto
qed

lemma remove_spares_replacement_witness:
  "GetClient demo_sh ''c1'' (cs_reg (RemoveUnsafe demo_sh False 0 two_state)) = None"
proof -
  have "map_of (rg_clientIDToUserID two_r2) ''c1'' = Some ''u1''"
    by (simp add: two_r2_def two_r1_def add_fields rev_put_def demo_rev0 two_ids)
  then have "GetClient demo_sh ''c1'' two_r2 = Some 0"
    by (simp add: GetClient_def with_shard_rlock_def two_shards demo_sh_def)
  with remove_spares_replacement [OF demo_hash, of two_state 0 0 "''c1''" False] two_reach show ?thesis
    by (simp add: two_fields two_ids)
qed

lemma close_once_witness: "CloseChannel 0 (CloseChannel 0 two_state) = CloseChannel 0 two_state"
  using close_once [of two_state 0] by (simp add: done_ok_def two_fields two_heap_def NewClient_def)

end
