(* ===== verification/Json_Peek.thy ===== *)
theory Json_Peek
  imports Main "HOL-Library.Char_ord"
begin

text \<open>
  The field probe of messaging/json_peek.go: it looks for one string member of the outermost JSON
  object without parsing the document.

  \<^item> An index into the byte slice is the suffix that starts there; \<open>i >= n\<close> is the empty suffix.
    A slice is a \<open>string\<close> (bytes), the pair \<open>(value, ok)\<close> an option.
  \<^item> \<open>cst\<close> is the concrete syntax of JSON with its white space, \<open>cst_text\<close> writes it out.  Every document
    is the text of such a tree, and the probe is compared with a search in the list of members.
\<close>

section \<open>The code\<close>

definition isJSONSpace :: "char \<Rightarrow> bool" where
  "isJSONSpace c \<longleftrightarrow> c = CHR '' '' \<or> c = CHR 0x09 \<or> c = CHR 0x0A \<or> c = CHR 0x0D"

text \<open>The loop of \<open>scanJSONString\<close> after the opening quote: content, and what follows the closing quote.\<close>

fun scan_content :: "string \<Rightarrow> (string \<times> string) option" where
  "scan_content [] = None"
| "scan_content (c # cs) =
     (if c = CHR 0x5C
      then (case cs of [] \<Rightarrow> None | d # ds \<Rightarrow> map_option (\<lambda>(s, rest). (c # d # s, rest)) (scan_content ds))
      else if c = CHR 0x22 then Some ([], cs)
      else map_option (\<lambda>(s, rest). (c # s, rest)) (scan_content cs))"

definition scanJSONString :: "string \<Rightarrow> (string \<times> string) option" where
  "scanJSONString data =
     (case data of [] \<Rightarrow> None | c # cs \<Rightarrow> if c = CHR 0x22 then scan_content cs else None)"

definition readJSONStringValueAfterKey :: "string \<Rightarrow> string option" where
  "readJSONStringValueAfterKey data =
     (case dropWhile isJSONSpace data of
        [] \<Rightarrow> None
      | c # cs \<Rightarrow>
          if c \<noteq> CHR '':'' then None
          else case scanJSONString (dropWhile isJSONSpace cs) of
                 None \<Rightarrow> None
               | Some (s, _) \<Rightarrow> if CHR 0x5C \<in> set s then None else Some s)"

lemma scan_content_length: "scan_content cs = Some (s, rest) \<Longrightarrow> length rest < length cs"
  by (induction cs arbitrary: s rest rule: scan_content.induct)
    (auto split: if_splits list.splits, fastforce+)

text \<open>The scanning loop at nesting depth \<open>depth\<close>.\<close>

function peek_loop :: "string \<Rightarrow> nat \<Rightarrow> string \<Rightarrow> string option" where
  "peek_loop key depth [] = None"
| "peek_loop key depth (c # cs) =
     (if isJSONSpace c \<or> c = CHR '','' \<or> c = CHR '':'' then peek_loop key depth cs
      else if c = CHR 0x7B \<or> c = CHR 0x5B then peek_loop key (depth + 1) cs
      else if c = CHR 0x7D \<or> c = CHR 0x5D then (if depth = 0 then None else peek_loop key (depth - 1) cs)
      else if c = CHR 0x22 then
        (case scanJSONString (c # cs) of
           None \<Rightarrow> None
         | Some (s, rest) \<Rightarrow>
             if depth = 0 \<and> s = key then readJSONStringValueAfterKey rest else peek_loop key depth rest)
      else peek_loop key depth cs)"
  by pat_completeness auto
termination
  by (relation "measure (\<lambda>(key, depth, cs). length cs)")
    (auto simp: scanJSONString_def dest: scan_content_length)

definition jsonPeekTopLevelString :: "string \<Rightarrow> string \<Rightarrow> string option" where
  "jsonPeekTopLevelString data key =
     (case dropWhile isJSONSpace data of
        [] \<Rightarrow> None
      | c # cs \<Rightarrow> if c \<noteq> CHR 0x7B then None else peek_loop key 0 cs)"

section \<open>JSON documents\<close>

text \<open>
  Strings carry their raw content (escapes unresolved), scalars their token.  An element stands
  between two runs of white space; a member has white space before and after its key and around
  its value.
\<close>

datatype cst =
    Str string
  | Scalar string
  | Arr string "(string \<times> cst \<times> string) list"
  | Obj string "((string \<times> string \<times> string) \<times> string \<times> cst \<times> string) list"

fun raw_content :: "string \<Rightarrow> bool" where
  "raw_content [] = True"
| "raw_content (c # cs) =
     (if c = CHR 0x5C then (case cs of [] \<Rightarrow> False | d # ds \<Rightarrow> raw_content ds)
      else c \<noteq> CHR 0x22 \<and> raw_content cs)"

definition scalar_char :: "char \<Rightarrow> bool" where
  "scalar_char c \<longleftrightarrow> \<not> isJSONSpace c \<and> c \<notin> set '',:{}[]'' \<and> c \<noteq> CHR 0x22"

abbreviation spaces :: "string \<Rightarrow> bool" where
  "spaces \<equiv> list_all isJSONSpace"

fun cst_text :: "cst \<Rightarrow> string" and members_text :: "((string \<times> string \<times> string) \<times> string \<times> cst \<times> string) list \<Rightarrow> string"
  and elems_text :: "(string \<times> cst \<times> string) list \<Rightarrow> string" where
  "cst_text (Str s) = [CHR 0x22] @ s @ [CHR 0x22]"
| "cst_text (Scalar s) = s"
| "cst_text (Arr w es) = ''['' @ w @ elems_text es @ '']''"
| "cst_text (Obj w ms) = [CHR 0x7B] @ w @ members_text ms @ [CHR 0x7D]"
| "members_text [] = []"
| "members_text (((a, k, b), c, v, d) # ms) =
     a @ [CHR 0x22] @ k @ [CHR 0x22] @ b @ '':'' @ c @ cst_text v @ d @ (if ms = [] then [] else '','' @ members_text ms)"
| "elems_text [] = []"
| "elems_text ((a, v, b) # es) = a @ cst_text v @ b @ (if es = [] then [] else '','' @ elems_text es)"

fun cst_wf :: "cst \<Rightarrow> bool" and members_wf :: "((string \<times> string \<times> string) \<times> string \<times> cst \<times> string) list \<Rightarrow> bool"
  and elems_wf :: "(string \<times> cst \<times> string) list \<Rightarrow> bool" where
  "cst_wf (Str s) = raw_content s"
| "cst_wf (Scalar s) = (s \<noteq> [] \<and> list_all scalar_char s)"
| "cst_wf (Arr w es) = (spaces w \<and> elems_wf es)"
| "cst_wf (Obj w ms) = (spaces w \<and> members_wf ms)"
| "members_wf [] = True"
| "members_wf (((a, k, b), c, v, d) # ms) =
     (spaces a \<and> raw_content k \<and> spaces b \<and> spaces c \<and> cst_wf v \<and> spaces d \<and> members_wf ms)"
| "elems_wf [] = True"
| "elems_wf ((a, v, b) # es) = (spaces a \<and> cst_wf v \<and> spaces b \<and> elems_wf es)"

definition members_of :: "((string \<times> string \<times> string) \<times> string \<times> cst \<times> string) list \<Rightarrow> (string \<times> cst) list" where
  "members_of ms = map (\<lambda>((a, k, b), c, v, d). (k, v)) ms"

text \<open>The search among the members that the probe amounts to.\<close>

fun plain_string :: "cst \<Rightarrow> string option" where
  "plain_string (Str s) = (if CHR 0x5C \<in> set s then None else Some s)"
| "plain_string _ = None"

fun member_search :: "string \<Rightarrow> (string \<times> cst) list \<Rightarrow> string option" where
  "member_search key [] = None"
| "member_search key ((k, v) # ms) =
     (if k = key then plain_string v
      else if v = Str key then None
      else member_search key ms)"

section \<open>Scanning\<close>

lemma scan_content_raw: "raw_content s \<Longrightarrow> scan_content (s @ CHR 0x22 # rest) = Some (s, rest)"
  by (induction s rule: raw_content.induct) (auto split: list.splits)

lemma peek_loop_spaces: "spaces w \<Longrightarrow> peek_loop key depth (w @ rest) = peek_loop key depth rest"
  by (induction w) auto

lemma dropWhile_spaces: "spaces w \<Longrightarrow> dropWhile isJSONSpace (w @ rest) = dropWhile isJSONSpace rest"
  by (induction w) auto

lemma peek_loop_scalar: "list_all scalar_char s \<Longrightarrow> peek_loop key depth (s @ rest) = peek_loop key depth rest"
  by (induction s) (auto simp: scalar_char_def)

lemma not_space [simp]:
  "\<not> isJSONSpace (CHR 0x22)" "\<not> isJSONSpace (CHR '':'')" "\<not> isJSONSpace (CHR '','')" "\<not> isJSONSpace (CHR 0x7B)"
  "\<not> isJSONSpace (CHR 0x7D)" "\<not> isJSONSpace (CHR 0x5B)" "\<not> isJSONSpace (CHR 0x5D)"
  by (simp_all add: isJSONSpace_def)

lemma scan_string: "raw_content s \<Longrightarrow> scanJSONString (CHR 0x22 # s @ CHR 0x22 # rest) = Some (s, rest)"
  by (simp add: scanJSONString_def scan_content_raw)

text \<open>Below the outermost object nothing is ever matched.\<close>

lemma peek_loop_nested:
  "cst_wf v \<Longrightarrow> peek_loop key (Suc depth) (cst_text v @ rest) = peek_loop key (Suc depth) rest"
  "members_wf ms \<Longrightarrow> peek_loop key (Suc depth) (members_text ms @ rest) = peek_loop key (Suc depth) rest"
  "elems_wf es \<Longrightarrow> peek_loop key (Suc depth) (elems_text es @ rest) = peek_loop key (Suc depth) rest"
  by (induction v and ms and es arbitrary: depth rest and depth rest and depth rest
      rule: cst_text_members_text_elems_text.induct)
    (simp_all add: scan_string peek_loop_spaces peek_loop_scalar)

lemma peek_loop_value:
  assumes "cst_wf v" and "v \<noteq> Str key"
  shows "peek_loop key 0 (cst_text v @ rest) = peek_loop key 0 rest"
  using assms by (cases v) (auto simp: scan_string peek_loop_spaces peek_loop_scalar peek_loop_nested)

lemma read_value:
  assumes "spaces b" and "spaces c" and "cst_wf v"
  shows "readJSONStringValueAfterKey (b @ CHR '':'' # c @ cst_text v @ rest) = plain_string v"
proof (cases v)
  case (Str s)
  with assms show ?thesis
    by (simp add: readJSONStringValueAfterKey_def dropWhile_spaces scan_string)
next
  case (Scalar s)
  with assms obtain d ds where "s = d # ds" "scalar_char d" by (cases s) auto
  with Scalar assms show ?thesis
    by (auto simp: readJSONStringValueAfterKey_def dropWhile_spaces scanJSONString_def scalar_char_def)
qed (use assms in \<open>simp_all add: readJSONStringValueAfterKey_def dropWhile_spaces scanJSONString_def\<close>)

lemma read_no_colon:
  assumes "spaces d"
  shows "readJSONStringValueAfterKey (d @ CHR '','' # rest) = None"
    and "readJSONStringValueAfterKey (d @ CHR 0x7D # rest) = None"
  using assms by (simp_all add: readJSONStringValueAfterKey_def dropWhile_spaces)

lemma peek_members:
  "members_wf ms \<Longrightarrow> peek_loop key 0 (members_text ms @ CHR 0x7D # rest) = member_search key (members_of ms)"
proof (induction ms)
  case Nil
  then show ?case by (simp add: members_of_def)
next
  case (Cons m ms)
  obtain a k b c v d where m: "m = ((a, k, b), c, v, d)" by (cases m) auto
  let ?tail = "(if ms = [] then [] else '','' @ members_text ms) @ CHR 0x7D # rest"
  have wf: "spaces a" "raw_content k" "spaces b" "spaces c" "cst_wf v" "spaces d" "members_wf ms"
    using Cons.prems by (auto simp: m)
  have tail: "peek_loop key 0 ?tail = member_search key (members_of ms)"
    using Cons.IH [OF wf(7)] by (simp add: members_of_def)
  have key: "peek_loop key 0 (members_text (m # ms) @ CHR 0x7D # rest) =
      (if k = key then plain_string v else peek_loop key 0 (cst_text v @ d @ ?tail))"
    using wf read_value [OF wf(3-5), of "d @ ?tail"]
    by (simp add: m peek_loop_spaces scan_string)
  show ?case
  proof (cases "k \<noteq> key \<and> v = Str key")
    case True
    then have "peek_loop key 0 (cst_text v @ d @ ?tail) = readJSONStringValueAfterKey (d @ ?tail)"
      using wf(5) by (simp add: scan_string)
    also have "\<dots> = None" using read_no_colon [OF wf(6)] by simp
    finally show ?thesis using True key by (simp add: m members_of_def)
  next
    case False
    then show ?thesis
      using key tail wf by (auto simp: m members_of_def peek_loop_value peek_loop_spaces)
  qed
qed

lemma member_search_hit: "member_search key ms = Some v \<Longrightarrow> (key, Str v) \<in> set ms"
proof (induction ms)
  case (Cons m ms)
  then show ?case by (cases m; cases "snd m") (auto split: if_splits)
qed simp

section \<open>Properties\<close>

text \<open>C31: The probe finds exactly what a search among the members of the outermost object finds: the first
  member under the key, when its value is a string without escapes.  Equally named members of
  nested values, and texts inside strings, are never taken for it.  A member whose string value is
  the key itself ends the search (the caller then parses the document), and with pairwise different
  keys a hit is the value a full parse gives.\<close>

theorem peek_exact:
  assumes "spaces pre" and "cst_wf (Obj w ms)"
  shows "jsonPeekTopLevelString (pre @ cst_text (Obj w ms) @ post) key = member_search key (members_of ms) \<and>
    (jsonPeekTopLevelString (pre @ cst_text (Obj w ms) @ post) key = Some v \<longrightarrow>
       (key, Str v) \<in> set (members_of ms) \<and> (distinct (map fst (members_of ms)) \<longrightarrow> map_of (members_of ms) key = Some (Str v)))"
proof -
  have "jsonPeekTopLevelString (pre @ cst_text (Obj w ms) @ post) key = member_search key (members_of ms)"
    using assms peek_members [of ms key post]
    by (simp add: jsonPeekTopLevelString_def dropWhile_spaces peek_loop_spaces)
  then show ?thesis using member_search_hit by auto
qed

definition demo_members :: "((string \<times> string \<times> string) \<times> string \<times> cst \<times> string) list" where
  "demo_members =
     [(([], ''data'', []), [], Obj [] [(([], ''type'', []), [], Str ''bad'', [])], []),
      (('' '', ''type'', []), '' '', Str ''ping'', [])]"

lemma peek_exact_witness:
  "jsonPeekTopLevelString (cst_text (Obj [] demo_members)) ''type'' = Some ''ping'' \<and>
   map_of (members_of demo_members) ''type'' = Some (Str ''ping'')"
  using peek_exact [of "[]" "[]" demo_members "[]" "''type''" "''ping''"]
  by (simp add: demo_members_def members_of_def isJSONSpace_def)

text \<open>With a repeated key the probe answers the first value; a decoder of the standard library keeps the last.\<close>

lemma peek_repeated_key:
  "jsonPeekTopLevelString (cst_text (Obj [] [(([], ''t'', []), [], Str ''a'', []), (([], ''t'', []), [], Str ''b'', [])])) ''t'' =
   Some ''a''"
  by (simp add: jsonPeekTopLevelString_def scanJSONString_def readJSONStringValueAfterKey_def)

end
