(* ===== verification/Write_Pump.thy ===== *)
theory Write_Pump
  imports Client
begin

text \<open>
  The write side of a connection: messaging/frame_writer.go and the write pump of
  messaging/dispatcher.go.

  \<^item> \<open>appendFrameHeader\<close> and \<open>writeFramesBatch\<close> encode text frames by hand; \<open>decode_frame\<close> reads RFC 6455
    frames and is the reference they are measured against.
  \<^item> The socket belongs to a third-party package.  Its state is a parameter \<open>'c\<close>, its calls are
    arguments: \<open>wm\<close> is \<open>WriteMessage(TextMessage, _)\<close>, \<open>wv\<close> the vectored write on the underlying
    connection, \<open>wp\<close> \<open>WriteControl(PongMessage, _)\<close>.  Each answers whether it succeeded.
  \<^item> The pools of header and slice buffers hand out empty buffers, so they do not appear.
  \<^item> \<open>pump_step\<close> is the loop of \<open>handleClientWrite\<close> with the producers around it: \<open>TrySend\<close>,
    \<open>TrySendControl\<close>, the ping handler and the end of the connection.
\<close>

section \<open>Frames\<close>

text \<open>The low \<open>k\<close> bytes of a number, most significant first.\<close>

primrec be_bytes :: "nat \<Rightarrow> nat \<Rightarrow> string" where
  "be_bytes 0 n = []"
| "be_bytes (Suc k) n = be_bytes k (n div 256) @ [char_of n]"

definition appendFrameHeader :: "string \<Rightarrow> nat \<Rightarrow> string" where
  "appendFrameHeader dst payloadLen =
     dst @ [char_of (0x81 :: nat)] @
     (if payloadLen < 126 then [char_of payloadLen]
      else if payloadLen \<le> 65535 then [char_of (126 :: nat)] @ be_bytes 2 payloadLen
      else [char_of (127 :: nat)] @ be_bytes 8 payloadLen)"

text \<open>One text frame as it stands on the wire.\<close>

definition encode_frame :: "frame \<Rightarrow> string" where
  "encode_frame payload = appendFrameHeader [] (length payload) @ payload"

definition writeFramesBatch :: "(string list \<Rightarrow> 'c \<Rightarrow> bool \<times> 'c) \<Rightarrow> frame list \<Rightarrow> 'c \<Rightarrow> bool \<times> 'c" where
  "writeFramesBatch wv msgs conn =
     (if msgs = [] then (True, conn)
      else wv (concat (map (\<lambda>payload. [appendFrameHeader [] (length payload), payload]) msgs)) conn)"

section \<open>Batches\<close>

definition clientWriteBatchSize :: nat where "clientWriteBatchSize = 64"

text \<open>What the pump touches: the client, the shared backlog counters, the socket, and the arguments of
  the \<open>OnWriteBatch\<close> calls it made.\<close>

record 'c writer =
  wr_client :: Client
  wr_counters :: counters
  wr_conn :: 'c
  wr_batches :: "int list"

datatype drain_end = DrainEmpty | DrainClosed | DrainFull

text \<open>At most \<open>n\<close> rounds of the non-blocking receive; a nil channel is never ready.\<close>

fun drain_batch :: "nat \<Rightarrow> frame GoChan option \<Rightarrow> frame list \<times> frame GoChan option \<times> drain_end" where
  "drain_batch 0 ch = ([], ch, DrainFull)"
| "drain_batch (Suc n) None = ([], None, DrainEmpty)"
| "drain_batch (Suc n) (Some ch) =
     (case ch_buf ch of
        [] \<Rightarrow> ([], Some ch, if ch_closed ch then DrainClosed else DrainEmpty)
      | m # ms \<Rightarrow> (case drain_batch n (Some (ch\<lparr>ch_buf := ms\<rparr>)) of (fs, ch', e) \<Rightarrow> (m # fs, ch', e)))"

definition chan_len :: "'a GoChan option \<Rightarrow> int" where
  "chan_len ch = (case ch of None \<Rightarrow> 0 | Some ch \<Rightarrow> int (length (ch_buf ch)))"

definition chan_cap :: "'a GoChan option \<Rightarrow> int" where
  "chan_cap ch = (case ch of None \<Rightarrow> 0 | Some ch \<Rightarrow> int (ch_cap ch))"

definition settle :: "int \<Rightarrow> 'c writer \<Rightarrow> 'c writer" where
  "settle batch w =
     (case CompletePendingWrites batch (wr_client w) (wr_counters w) of
        (c, ctr) \<Rightarrow> w\<lparr>wr_client := c, wr_counters := ctr\<rparr>)"

text \<open>The rest of the batch after the first frame was written; \<open>settle\<close> is the deferred call.\<close>

definition flush_rest :: "(string list \<Rightarrow> 'c \<Rightarrow> bool \<times> 'c) \<Rightarrow> 'c writer \<Rightarrow> bool \<times> 'c writer" where
  "flush_rest wv w =
     (case drain_batch (clientWriteBatchSize - 1) (cl_SendChan (wr_client w)) of
        (frames, ch, e) \<Rightarrow>
          let batch = 1 + int (length frames);
              c = (wr_client w)\<lparr>cl_SendChan := ch\<rparr>
          in if e = DrainClosed then (True, settle batch (w\<lparr>wr_client := c\<rparr>))
             else case writeFramesBatch wv frames (wr_conn w) of
                    (ok, conn) \<Rightarrow>
                      (ok, settle batch
                         (w\<lparr>wr_client := SetBacklogRatio (chan_len ch) (chan_cap ch) c,
                            wr_batches := wr_batches w @ [batch], wr_conn := conn\<rparr>)))"

definition writeClientMessagesBatch :: "(frame \<Rightarrow> 'c \<Rightarrow> bool \<times> 'c) \<Rightarrow> (string list \<Rightarrow> 'c \<Rightarrow> bool \<times> 'c)
    \<Rightarrow> frame \<Rightarrow> 'c writer \<Rightarrow> bool \<times> 'c writer" where
  "writeClientMessagesBatch wm wv first w =
     (case wm first (wr_conn w) of
        (ok, conn) \<Rightarrow>
          if ok then flush_rest wv (w\<lparr>wr_conn := conn\<rparr>) else (False, settle 1 (w\<lparr>wr_conn := conn\<rparr>)))"

definition writeControlBatch :: "(frame \<Rightarrow> 'c \<Rightarrow> bool \<times> 'c) \<Rightarrow> (string list \<Rightarrow> 'c \<Rightarrow> bool \<times> 'c)
    \<Rightarrow> frame \<Rightarrow> 'c writer \<Rightarrow> bool \<times> 'c writer" where
  "writeControlBatch wm wv first w =
     (case wm first (wr_conn w) of
        (ok, conn) \<Rightarrow>
          if \<not> ok then (False, w\<lparr>wr_conn := conn\<rparr>)
          else case drain_batch (clientWriteBatchSize - 1) (cl_CtrlCh (wr_client w)) of
                 (frames, ch, e) \<Rightarrow>
                   let w = w\<lparr>wr_client := (wr_client w)\<lparr>cl_CtrlCh := ch\<rparr>, wr_conn := conn\<rparr>
                   in if e = DrainClosed then (True, w)
                      else case writeFramesBatch wv frames conn of (ok, conn) \<Rightarrow> (ok, w\<lparr>wr_conn := conn\<rparr>))"

definition writeClientMessages :: "(frame \<Rightarrow> 'c \<Rightarrow> bool \<times> 'c) \<Rightarrow> frame \<Rightarrow> 'c writer \<Rightarrow> bool \<times> 'c writer" where
  "writeClientMessages wm data w =
     (case wm data (wr_conn w) of (ok, conn) \<Rightarrow> (ok, w\<lparr>wr_conn := conn\<rparr>))"

section \<open>The pump\<close>

datatype pump_pc = Top | Select | Exit

text \<open>What was handed to the socket, in order.\<close>

datatype wire_item = WData frame | WCtrl frame | WPong frame

record 'c pump = "'c writer" +
  pp_pc :: pump_pc
  pp_log :: "wire_item list"
  pp_data_in :: "frame list"
  pp_ctrl_in :: "frame list"

text \<open>Take the writer part out of a pump state and put it back.\<close>

definition pump_put :: "'c pump \<Rightarrow> 'c writer \<Rightarrow> 'c pump" where
  "pump_put s w = s\<lparr>wr_client := wr_client w, wr_counters := wr_counters w, wr_conn := wr_conn w, wr_batches := wr_batches w\<rparr>"

definition writer_of :: "'c pump \<Rightarrow> 'c writer" where
  "writer_of s = \<lparr>wr_client = wr_client s, wr_counters = wr_counters s, wr_conn = wr_conn s, wr_batches = wr_batches s\<rparr>"

text \<open>After a write: back to the top of the loop, or out of it with the socket closed.\<close>

definition after_write :: "wire_item list \<Rightarrow> bool \<times> 'c writer \<Rightarrow> 'c pump \<Rightarrow> 'c pump" where
  "after_write items r s =
     (if fst r then (pump_put s (snd r))\<lparr>pp_pc := Top, pp_log := pp_log s @ items\<rparr>
      else (pump_put s (snd r))\<lparr>pp_pc := Exit\<rparr>)"

definition drained :: "frame GoChan option \<Rightarrow> frame list" where
  "drained ch = fst (drain_batch (clientWriteBatchSize - 1) ch)"

inductive pump_step :: "(frame \<Rightarrow> 'c \<Rightarrow> bool \<times> 'c) \<Rightarrow> (string list \<Rightarrow> 'c \<Rightarrow> bool \<times> 'c) \<Rightarrow> (frame \<Rightarrow> 'c \<Rightarrow> bool \<times> 'c)
    \<Rightarrow> 'c pump \<Rightarrow> 'c pump \<Rightarrow> bool"
  for wm :: "frame \<Rightarrow> 'c \<Rightarrow> bool \<times> 'c" and wv :: "string list \<Rightarrow> 'c \<Rightarrow> bool \<times> 'c" and wp :: "frame \<Rightarrow> 'c \<Rightarrow> bool \<times> 'c" where
  top_ctrl: "pp_pc s = Top \<Longrightarrow> cl_CtrlCh (wr_client s) = Some ch \<Longrightarrow> ch_buf ch = d # ds \<Longrightarrow>
    s' = s\<lparr>wr_client := (wr_client s)\<lparr>cl_CtrlCh := Some (ch\<lparr>ch_buf := ds\<rparr>)\<rparr>\<rparr> \<Longrightarrow>
    pump_step wm wv wp s
      (if cl_Conn (wr_client s) = None then s'
       else after_write (map WCtrl (d # drained (Some (ch\<lparr>ch_buf := ds\<rparr>)))) (writeControlBatch wm wv d (writer_of s')) s')"
| top_none: "pp_pc s = Top \<Longrightarrow> (\<And>ch. cl_CtrlCh (wr_client s) = Some ch \<Longrightarrow> ch_buf ch = [] \<and> \<not> ch_closed ch) \<Longrightarrow>
    pump_step wm wv wp s (s\<lparr>pp_pc := Select\<rparr>)"
| select_data: "pp_pc s = Select \<Longrightarrow> cl_SendChan (wr_client s) = Some ch \<Longrightarrow> ch_buf ch = m # ms \<Longrightarrow>
    s' = s\<lparr>wr_client := (wr_client s)\<lparr>cl_SendChan := Some (ch\<lparr>ch_buf := ms\<rparr>)\<rparr>\<rparr> \<Longrightarrow>
    pump_step wm wv wp s
      (if cl_Conn (wr_client s) = None then s'\<lparr>pp_pc := Top\<rparr>
       else after_write (map WData (m # drained (Some (ch\<lparr>ch_buf := ms\<rparr>)))) (writeClientMessagesBatch wm wv m (writer_of s')) s')"
| select_ctrl: "pp_pc s = Select \<Longrightarrow> cl_CtrlCh (wr_client s) = Some ch \<Longrightarrow> ch_buf ch = d # ds \<Longrightarrow>
    s' = s\<lparr>wr_client := (wr_client s)\<lparr>cl_CtrlCh := Some (ch\<lparr>ch_buf := ds\<rparr>)\<rparr>\<rparr> \<Longrightarrow>
    pump_step wm wv wp s
      (if cl_Conn (wr_client s) = None then s'\<lparr>pp_pc := Top\<rparr>
       else after_write [WCtrl d] (writeClientMessages wm d (writer_of s')) s')"
| select_pong: "pp_pc s = Select \<Longrightarrow> cl_PongCh (wr_client s) = Some ch \<Longrightarrow> ch_buf ch = d # ds \<Longrightarrow>
    s' = s\<lparr>wr_client := (wr_client s)\<lparr>cl_PongCh := Some (ch\<lparr>ch_buf := ds\<rparr>)\<rparr>\<rparr> \<Longrightarrow>
    pump_step wm wv wp s
      (if cl_Conn (wr_client s) = None then s'\<lparr>pp_pc := Top\<rparr>
       else after_write [WPong d] (writeClientMessages wp d (writer_of s')) s')"
| stop: "pump_step wm wv wp s (s\<lparr>pp_pc := Exit\<rparr>)"
| produce: "TrySend data (wr_client s) (wr_counters s) = (ok, c, ctr) \<Longrightarrow>
    pump_step wm wv wp s (s\<lparr>wr_client := c, wr_counters := ctr, pp_data_in := pp_data_in s @ (if ok then [data] else [])\<rparr>)"
| produce_ctrl: "TrySendControl data (wr_client s) (wr_counters s) = (ok, c, ctr) \<Longrightarrow>
    pump_step wm wv wp s (s\<lparr>wr_client := c, wr_counters := ctr, pp_ctrl_in := pp_ctrl_in s @ (if ok then [data] else [])\<rparr>)"
| ping: "cl_PongCh (wr_client s) = Some ch \<Longrightarrow> try_send ch data = SendOk ch' \<Longrightarrow>
    pump_step wm wv wp s (s\<lparr>wr_client := (wr_client s)\<lparr>cl_PongCh := Some ch'\<rparr>\<rparr>)"
| close: "MarkClosed (wr_client s) (wr_counters s) = (c, ctr) \<Longrightarrow>
    pump_step wm wv wp s (s\<lparr>wr_client := c, wr_counters := ctr\<rparr>)"

section \<open>The reference decoder\<close>

definition be_value :: "string \<Rightarrow> nat" where
  "be_value bytes = foldl (\<lambda>n b. 256 * n + of_char b) 0 bytes"

definition cut :: "nat \<Rightarrow> string \<Rightarrow> (string \<times> string) option" where
  "cut n s = (if length s < n then None else Some (take n s, drop n s))"

text \<open>An unmasked, unfragmented text frame: payload and rest of the stream.\<close>

definition decode_frame :: "string \<Rightarrow> (string \<times> string) option" where
  "decode_frame s =
     (case s of
        b0 # b1 # rest \<Rightarrow>
          if of_char b0 \<noteq> (0x81 :: nat) then None
          else let l = of_char b1 :: nat
               in if l < 126 then cut l rest
                  else if l = 126 then Option.bind (cut 2 rest) (\<lambda>(ext, rest). cut (be_value ext) rest)
                  else if l = 127 then Option.bind (cut 8 rest) (\<lambda>(ext, rest). cut (be_value ext) rest)
                  else None
      | _ \<Rightarrow> None)"

lemma cut_length: "cut n s = Some (a, b) \<Longrightarrow> length b \<le> length s"
  by (auto simp: cut_def split: if_splits)

lemma decode_frame_length: "decode_frame s = Some (p, rest) \<Longrightarrow> length rest < length s"
  by (auto simp: decode_frame_def Let_def split: list.splits if_splits dest!: cut_length
      simp: Option.bind_eq_Some_conv)

function decode_frames :: "string \<Rightarrow> frame list option" where
  "decode_frames s =
     (if s = [] then Some []
      else case decode_frame s of
             None \<Rightarrow> None
           | Some (p, rest) \<Rightarrow> map_option ((#) p) (decode_frames rest))"
  by auto
termination
  by (relation "measure length") (auto dest: decode_frame_length)

declare decode_frames.simps [simp del]

section \<open>Encoding and decoding\<close>

lemma length_be_bytes [simp]: "length (be_bytes k n) = k"
  by (induction k arbitrary: n) auto

lemma be_value_be_bytes: "be_value (be_bytes k n) = n mod 256 ^ k"
proof (induction k arbitrary: n)
  case (Suc k)
  have "be_value (be_bytes (Suc k) n) = 256 * (n div 256 mod 256 ^ k) + n mod 256"
    using Suc.IH [of "n div 256"] by (simp add: be_value_def)
  also have "\<dots> = n mod 256 ^ Suc k"
    by (simp add: mod_mult2_eq [of n 256 "256 ^ k"])
  finally show ?case .
qed (simp add: be_value_def)

lemma cut_append [simp]: "cut (length a) (a @ b) = Some (a, b)"
  by (simp add: cut_def)

lemma cut_be_bytes [simp]: "cut k (be_bytes k n @ b) = Some (be_bytes k n, b)"
  using cut_append [of "be_bytes k n" b] by (simp del: cut_append)

lemma decode_encode:
  assumes "length p < 2 ^ 63"
  shows "decode_frame (encode_frame p @ rest) = Some (p, rest)"
proof -
  have "length p mod 256 ^ 2 = length p" if "length p \<le> 65535" using that by simp
  moreover have "length p mod 256 ^ 8 = length p" using assms by simp
  ultimately show ?thesis
    by (auto simp: decode_frame_def encode_frame_def appendFrameHeader_def be_value_be_bytes)
qed


section \<open>What a batch does\<close>

definition buf_of :: "'a GoChan option \<Rightarrow> 'a list" where
  "buf_of ch = (case ch of None \<Rightarrow> [] | Some ch \<Rightarrow> ch_buf ch)"

definition chan_open :: "'a GoChan option \<Rightarrow> bool" where
  "chan_open ch = (case ch of None \<Rightarrow> True | Some ch \<Rightarrow> \<not> ch_closed ch)"

text \<open>What the socket promises: a successful call has put its bytes on the wire.\<close>

definition socket_ok :: "('c \<Rightarrow> string) \<Rightarrow> (frame \<Rightarrow> string) \<Rightarrow> (frame \<Rightarrow> 'c \<Rightarrow> bool \<times> 'c) \<Rightarrow> (string list \<Rightarrow> 'c \<Rightarrow> bool \<times> 'c)
    \<Rightarrow> (frame \<Rightarrow> 'c \<Rightarrow> bool \<times> 'c) \<Rightarrow> bool" where
  "socket_ok out pong wm wv wp \<longleftrightarrow>
     (\<forall>p c c'. wm p c = (True, c') \<longrightarrow> out c' = out c @ encode_frame p) \<and>
     (\<forall>bs c c'. wv bs c = (True, c') \<longrightarrow> out c' = out c @ concat bs) \<and>
     (\<forall>p c c'. wp p c = (True, c') \<longrightarrow> out c' = out c @ pong p)"

lemma drain_batch_eq:
  "drain_batch n (Some ch) =
    (take n (ch_buf ch), Some (ch\<lparr>ch_buf := drop n (ch_buf ch)\<rparr>),
     if n \<le> length (ch_buf ch) then DrainFull else if ch_closed ch then DrainClosed else DrainEmpty)"
  by (induction n arbitrary: ch) (auto split: list.splits)

lemma drained_eq: "drained (Some ch) = take (clientWriteBatchSize - 1) (ch_buf ch)"
  by (simp add: drained_def drain_batch_eq)

lemma writeFramesBatch_out:
  assumes "socket_ok out pong wm wv wp" and "writeFramesBatch wv fs conn = (True, conn')"
  shows "out conn' = out conn @ concat (map encode_frame fs)"
proof (cases "fs = []")
  case True
  with assms show ?thesis by (simp add: writeFramesBatch_def)
next
  case False
  have "concat (concat (map (\<lambda>payload. [appendFrameHeader [] (length payload), payload]) fs)) = concat (map encode_frame fs)"
    by (induction fs) (auto simp: encode_frame_def)
  with False assms show ?thesis by (auto simp: writeFramesBatch_def socket_ok_def)
qed

text \<open>The part of the client that a write leaves alone.\<close>

definition same_lanes :: "Client \<Rightarrow> Client \<Rightarrow> bool" where
  "same_lanes c c' \<longleftrightarrow> cl_Conn c' = cl_Conn c \<and> cl_closed c' = cl_closed c \<and> cl_PongCh c' = cl_PongCh c"

lemma same_lanes_trans: "same_lanes a b \<Longrightarrow> same_lanes b c \<Longrightarrow> same_lanes a c"
  by (simp add: same_lanes_def)

lemma complete_lanes:
  assumes "CompletePendingWrites n c ctr = (c', ctr')" and "0 \<le> cl_pendingWrites c" and "0 \<le> n"
  shows "same_lanes c c'" "cl_SendChan c' = cl_SendChan c" "cl_CtrlCh c' = cl_CtrlCh c"
    "cl_pendingWrites c' = cl_pendingWrites c - min n (cl_pendingWrites c)"
  using assms by (auto simp: CompletePendingWrites_def same_lanes_def Let_def split: if_splits)

lemma settle_fields:
  assumes "0 \<le> cl_pendingWrites (wr_client w)" and "0 \<le> n"
  shows "same_lanes (wr_client w) (wr_client (settle n w))" "cl_SendChan (wr_client (settle n w)) = cl_SendChan (wr_client w)"
    "cl_CtrlCh (wr_client (settle n w)) = cl_CtrlCh (wr_client w)"
    "cl_pendingWrites (wr_client (settle n w)) = cl_pendingWrites (wr_client w) - min n (cl_pendingWrites (wr_client w))"
    "wr_conn (settle n w) = wr_conn w"
  using complete_lanes [OF _ assms] by (auto simp: settle_def split: prod.splits)

lemma backlog_fields:
  "same_lanes c (SetBacklogRatio a b c)" "cl_SendChan (SetBacklogRatio a b c) = cl_SendChan c"
  "cl_CtrlCh (SetBacklogRatio a b c) = cl_CtrlCh c" "cl_pendingWrites (SetBacklogRatio a b c) = cl_pendingWrites c"
  by (simp_all add: SetBacklogRatio_def same_lanes_def Let_def)

lemma data_batch:
  assumes ok: "socket_ok out pong wm wv wp"
    and run: "writeClientMessagesBatch wm wv m w = (True, w')"
    and ch: "cl_SendChan (wr_client w) = Some ch" "\<not> ch_closed ch"
    and nonneg: "0 \<le> cl_pendingWrites (wr_client w)"
  shows "same_lanes (wr_client w) (wr_client w')" "cl_CtrlCh (wr_client w') = cl_CtrlCh (wr_client w)"
    "cl_SendChan (wr_client w') = Some (ch\<lparr>ch_buf := drop (clientWriteBatchSize - 1) (ch_buf ch)\<rparr>)"
    "cl_pendingWrites (wr_client w') =
       cl_pendingWrites (wr_client w) - min (int (Suc (length (drained (Some ch))))) (cl_pendingWrites (wr_client w))"
    "out (wr_conn w') = out (wr_conn w) @ concat (map encode_frame (m # drained (Some ch)))"
proof -
  let ?fs = "drained (Some ch)" and ?rest = "Some (ch\<lparr>ch_buf := drop (clientWriteBatchSize - 1) (ch_buf ch)\<rparr>)"
  obtain conn where first: "wm m (wr_conn w) = (True, conn)" and rest: "flush_rest wv (w\<lparr>wr_conn := conn\<rparr>) = (True, w')"
    using run by (auto simp: writeClientMessagesBatch_def split: prod.splits if_splits)
  let ?c = "SetBacklogRatio (chan_len ?rest) (chan_cap ?rest) ((wr_client w)\<lparr>cl_SendChan := ?rest\<rparr>)"
  obtain conn' where second: "writeFramesBatch wv ?fs conn = (True, conn')"
    and w': "w' = settle (1 + int (length ?fs)) (w\<lparr>wr_client := ?c, wr_batches := wr_batches w @ [1 + int (length ?fs)], wr_conn := conn'\<rparr>)"
    using rest ch by (auto simp: flush_rest_def drain_batch_eq drained_eq Let_def split: prod.splits if_splits)
  have pend: "cl_pendingWrites ?c = cl_pendingWrites (wr_client w)" by (simp add: backlog_fields)
  let ?w1 = "w\<lparr>wr_client := ?c, wr_batches := wr_batches w @ [1 + int (length ?fs)], wr_conn := conn'\<rparr>"
  have "same_lanes (wr_client w) ((wr_client w)\<lparr>cl_SendChan := ?rest\<rparr>)" by (simp add: same_lanes_def)
  then have lanes: "same_lanes (wr_client w) ?c" by (rule same_lanes_trans [OF _ backlog_fields(1)])
  have set: "same_lanes ?c (wr_client w')" "cl_SendChan (wr_client w') = cl_SendChan ?c"
    "cl_CtrlCh (wr_client w') = cl_CtrlCh ?c" "cl_pendingWrites (wr_client w') = cl_pendingWrites ?c - min (1 + int (length ?fs)) (cl_pendingWrites ?c)"
    using settle_fields [of ?w1 "1 + int (length ?fs)"] nonneg by (simp_all add: w' backlog_fields)
  show "same_lanes (wr_client w) (wr_client w')" using lanes set(1) by (rule same_lanes_trans)
  show "cl_CtrlCh (wr_client w') = cl_CtrlCh (wr_client w)" "cl_SendChan (wr_client w') = ?rest"
    "cl_pendingWrites (wr_client w') = cl_pendingWrites (wr_client w) - min (int (Suc (length ?fs))) (cl_pendingWrites (wr_client w))"
    using set by (simp_all add: backlog_fields)
  have "out conn = out (wr_conn w) @ encode_frame m" using ok first by (auto simp: socket_ok_def)
  with writeFramesBatch_out [OF ok second] show "out (wr_conn w') = out (wr_conn w) @ concat (map encode_frame (m # ?fs))"
    using nonneg by (simp add: w' settle_fields backlog_fields)
qed

lemma ctrl_batch:
  assumes ok: "socket_ok out pong wm wv wp"
    and run: "writeControlBatch wm wv m w = (True, w')"
    and ch: "cl_CtrlCh (wr_client w) = Some ch" "\<not> ch_closed ch"
  shows "wr_client w' = (wr_client w)\<lparr>cl_CtrlCh := Some (ch\<lparr>ch_buf := drop (clientWriteBatchSize - 1) (ch_buf ch)\<rparr>)\<rparr>"
    "out (wr_conn w') = out (wr_conn w) @ concat (map encode_frame (m # drained (Some ch)))"
proof -
  let ?fs = "drained (Some ch)"
  obtain conn conn' where first: "wm m (wr_conn w) = (True, conn)" and second: "writeFramesBatch wv ?fs conn = (True, conn')"
    and w': "wr_conn w' = conn'" "wr_client w' = (wr_client w)\<lparr>cl_CtrlCh := Some (ch\<lparr>ch_buf := drop (clientWriteBatchSize - 1) (ch_buf ch)\<rparr>)\<rparr>"
    using run ch by (auto simp: writeControlBatch_def drain_batch_eq drained_eq Let_def split: prod.splits if_splits)
  have "out conn = out (wr_conn w) @ encode_frame m" using ok first by (auto simp: socket_ok_def)
  with writeFramesBatch_out [OF ok second] w' show "out (wr_conn w') = out (wr_conn w) @ concat (map encode_frame (m # ?fs))"
    by simp
  show "wr_client w' = (wr_client w)\<lparr>cl_CtrlCh := Some (ch\<lparr>ch_buf := drop (clientWriteBatchSize - 1) (ch_buf ch)\<rparr>)\<rparr>"
    by (fact w'(2))
qed

section \<open>The invariant of the pump\<close>

fun item_bytes :: "(frame \<Rightarrow> string) \<Rightarrow> wire_item \<Rightarrow> string" where
  "item_bytes pong (WData p) = encode_frame p"
| "item_bytes pong (WCtrl p) = encode_frame p"
| "item_bytes pong (WPong p) = pong p"

fun data_of :: "wire_item list \<Rightarrow> frame list" where
  "data_of [] = []"
| "data_of (WData p # xs) = p # data_of xs"
| "data_of (_ # xs) = data_of xs"

fun ctrl_of :: "wire_item list \<Rightarrow> frame list" where
  "ctrl_of [] = []"
| "ctrl_of (WCtrl p # xs) = p # ctrl_of xs"
| "ctrl_of (_ # xs) = ctrl_of xs"

lemma of_append [simp]: "data_of (xs @ ys) = data_of xs @ data_of ys" "ctrl_of (xs @ ys) = ctrl_of xs @ ctrl_of ys"
  by (induction xs rule: data_of.induct) auto

lemma of_map [simp]:
  "data_of (map WData ps) = ps" "data_of (map WCtrl ps) = []" "ctrl_of (map WCtrl ps) = ps" "ctrl_of (map WData ps) = []"
  by (induction ps) auto

lemma bytes_comp [simp]: "item_bytes pong \<circ> WData = encode_frame" "item_bytes pong \<circ> WCtrl = encode_frame"
  by auto

text \<open>The channels are never closed and the backlog counter never negative.\<close>

definition client_ok :: "Client \<Rightarrow> bool" where
  "client_ok c \<longleftrightarrow> cl_Conn c \<noteq> None \<and> chan_open (cl_SendChan c) \<and> chan_open (cl_CtrlCh c) \<and> 0 \<le> cl_pendingWrites c"

definition pending_ok :: "Client \<Rightarrow> bool" where
  "pending_ok c \<longleftrightarrow> cl_pendingWrites c = (if cl_closed c then 0 else int (length (buf_of (cl_SendChan c))))"

definition pump_inv :: "('c \<Rightarrow> string) \<Rightarrow> (frame \<Rightarrow> string) \<Rightarrow> 'c pump \<Rightarrow> bool" where
  "pump_inv out pong s \<longleftrightarrow>
     client_ok (wr_client s) \<and>
     (pp_pc s \<noteq> Exit \<longrightarrow>
        pending_ok (wr_client s) \<and>
        pp_data_in s = data_of (pp_log s) @ buf_of (cl_SendChan (wr_client s)) \<and>
        pp_ctrl_in s = ctrl_of (pp_log s) @ buf_of (cl_CtrlCh (wr_client s)) \<and>
        out (wr_conn s) = concat (map (item_bytes pong) (pp_log s)))"

definition pump_init :: "('c \<Rightarrow> string) \<Rightarrow> 'c pump \<Rightarrow> bool" where
  "pump_init out s \<longleftrightarrow>
     client_ok (wr_client s) \<and> cl_pendingWrites (wr_client s) = 0 \<and>
     buf_of (cl_SendChan (wr_client s)) = [] \<and> buf_of (cl_CtrlCh (wr_client s)) = [] \<and>
     pp_pc s = Top \<and> pp_log s = [] \<and> pp_data_in s = [] \<and> pp_ctrl_in s = [] \<and> out (wr_conn s) = []"

lemma drain_batch_open:
  "chan_open ch \<Longrightarrow> drain_batch n ch = (fs, ch', e) \<Longrightarrow> chan_open ch' \<and> e \<noteq> DrainClosed"
  by (cases ch; cases n) (auto simp: drain_batch_eq chan_open_def split: if_splits)

lemma client_ok_settle: "client_ok (wr_client w) \<Longrightarrow> 0 \<le> n \<Longrightarrow> client_ok (wr_client (settle n w))"
  using settle_fields [of w n] by (auto simp: client_ok_def same_lanes_def)

lemma client_ok_backlog: "client_ok (SetBacklogRatio a b c) = client_ok c"
  using backlog_fields(1) [of c a b] by (auto simp: client_ok_def same_lanes_def backlog_fields)

lemma client_ok_data_batch:
  assumes "client_ok (wr_client w)"
  shows "client_ok (wr_client (snd (writeClientMessagesBatch wm wv m w)))"
proof -
  have flush: "client_ok (wr_client (snd (flush_rest wv w)))" if "client_ok (wr_client w)" for w
  proof -
    obtain fs ch e where d: "drain_batch (clientWriteBatchSize - 1) (cl_SendChan (wr_client w)) = (fs, ch, e)"
      by (cases "drain_batch (clientWriteBatchSize - 1) (cl_SendChan (wr_client w))")
    from drain_batch_open [OF _ d] that have "chan_open ch" "e \<noteq> DrainClosed" by (auto simp: client_ok_def)
    with that have "client_ok ((wr_client w)\<lparr>cl_SendChan := ch\<rparr>)" by (simp add: client_ok_def)
    moreover obtain ok conn where "writeFramesBatch wv fs (wr_conn w) = (ok, conn)"
      by (cases "writeFramesBatch wv fs (wr_conn w)")
    ultimately show ?thesis
      using d \<open>e \<noteq> DrainClosed\<close> by (simp add: flush_rest_def Let_def client_ok_settle client_ok_backlog)
  qed
  obtain ok conn where "wm m (wr_conn w) = (ok, conn)" by (cases "wm m (wr_conn w)")
  then show ?thesis
    using assms flush [of "w\<lparr>wr_conn := conn\<rparr>"] by (simp add: writeClientMessagesBatch_def client_ok_settle)
qed

lemma client_ok_ctrl_batch:
  assumes "client_ok (wr_client w)"
  shows "client_ok (wr_client (snd (writeControlBatch wm wv m w)))"
proof -
  obtain fs ch e where d: "drain_batch (clientWriteBatchSize - 1) (cl_CtrlCh (wr_client w)) = (fs, ch, e)"
    by (cases "drain_batch (clientWriteBatchSize - 1) (cl_CtrlCh (wr_client w))")
  from drain_batch_open [OF _ d] assms have "chan_open ch" by (auto simp: client_ok_def)
  with d assms show ?thesis
    by (auto simp: writeControlBatch_def Let_def client_ok_def split: prod.splits)
qed

lemma try_send_fields:
  assumes "TrySend data c ctr = (ok, c', ctr')" and "client_ok c" and "pending_ok c \<or> \<not> b"
  shows "client_ok c'" "cl_CtrlCh c' = cl_CtrlCh c" "b \<Longrightarrow> pending_ok c'"
    "buf_of (cl_SendChan c') = buf_of (cl_SendChan c) @ (if ok then [data] else [])"
  using assms by (auto simp: try_send_spec client_ok_def pending_ok_def chan_open_def buf_of_def
      split: option.splits if_splits)

lemma try_ctrl_fields:
  assumes "TrySendControl data c ctr = (ok, c', ctr')" and "client_ok c"
  shows "client_ok c'" "cl_SendChan c' = cl_SendChan c" "pending_ok c' = pending_ok c"
    "buf_of (cl_CtrlCh c') = buf_of (cl_CtrlCh c) @ (if ok then [data] else [])"
  using assms by (auto simp: TrySendControl_def try_send_def client_ok_def pending_ok_def chan_open_def buf_of_def
      split: option.splits if_splits)

lemma after_write_inv:
  assumes "client_ok (wr_client (snd r))"
    and "fst r \<Longrightarrow> pump_inv out pong ((pump_put s (snd r))\<lparr>pp_pc := Top, pp_log := pp_log s @ items\<rparr>)"
  shows "pump_inv out pong (after_write items r s)"
  using assms by (auto simp: after_write_def pump_inv_def pump_put_def)

lemma pump_put_sel [simp]:
  "wr_client (pump_put s w) = wr_client w" "wr_conn (pump_put s w) = wr_conn w" "pp_data_in (pump_put s w) = pp_data_in s"
  "pp_ctrl_in (pump_put s w) = pp_ctrl_in s" "wr_client (writer_of s) = wr_client s" "wr_conn (writer_of s) = wr_conn s"
  by (simp_all add: pump_put_def writer_of_def)

lemma pump_inv_top_ctrl:
  assumes ok: "socket_ok out pong wm wv wp" and inv: "pump_inv out pong s" and pc: "pp_pc s \<noteq> Exit"
    and ch: "cl_CtrlCh (wr_client s) = Some ch" "ch_buf ch = d # ds"
    and s': "s' = s\<lparr>wr_client := (wr_client s)\<lparr>cl_CtrlCh := Some (ch\<lparr>ch_buf := ds\<rparr>)\<rparr>\<rparr>"
  shows "pump_inv out pong (after_write (map WCtrl (d # drained (Some (ch\<lparr>ch_buf := ds\<rparr>)))) (writeControlBatch wm wv d (writer_of s')) s')"
proof (rule after_write_inv)
  have cok: "client_ok (wr_client (writer_of s'))" using inv ch by (auto simp: pump_inv_def client_ok_def chan_open_def s')
  then show "client_ok (wr_client (snd (writeControlBatch wm wv d (writer_of s'))))" by (rule client_ok_ctrl_batch)
  assume "fst (writeControlBatch wm wv d (writer_of s'))"
  then obtain w' where run: "writeControlBatch wm wv d (writer_of s') = (True, w')"
    by (cases "writeControlBatch wm wv d (writer_of s')") auto
  have chs: "cl_CtrlCh (wr_client (writer_of s')) = Some (ch\<lparr>ch_buf := ds\<rparr>)" "\<not> ch_closed (ch\<lparr>ch_buf := ds\<rparr>)"
    using inv ch by (auto simp: pump_inv_def client_ok_def chan_open_def s')
  from ctrl_batch [OF ok run chs] inv ch pc
  show "pump_inv out pong ((pump_put s' (snd (writeControlBatch wm wv d (writer_of s'))))
      \<lparr>pp_pc := Top, pp_log := pp_log s' @ map WCtrl (d # drained (Some (ch\<lparr>ch_buf := ds\<rparr>)))\<rparr>)"
    unfolding run snd_conv by (simp add: pump_inv_def s' client_ok_def chan_open_def pending_ok_def buf_of_def drained_eq)
qed

lemma pump_inv_data:
  assumes ok: "socket_ok out pong wm wv wp" and inv: "pump_inv out pong s" and pc: "pp_pc s \<noteq> Exit"
    and ch: "cl_SendChan (wr_client s) = Some ch" "ch_buf ch = m # ms"
    and s': "s' = s\<lparr>wr_client := (wr_client s)\<lparr>cl_SendChan := Some (ch\<lparr>ch_buf := ms\<rparr>)\<rparr>\<rparr>"
  shows "pump_inv out pong (after_write (map WData (m # drained (Some (ch\<lparr>ch_buf := ms\<rparr>)))) (writeClientMessagesBatch wm wv m (writer_of s')) s')"
proof (rule after_write_inv)
  have cok: "client_ok (wr_client (writer_of s'))" using inv ch by (auto simp: pump_inv_def client_ok_def chan_open_def s')
  then show "client_ok (wr_client (snd (writeClientMessagesBatch wm wv m (writer_of s'))))" by (rule client_ok_data_batch)
  assume "fst (writeClientMessagesBatch wm wv m (writer_of s'))"
  then obtain w' where run: "writeClientMessagesBatch wm wv m (writer_of s') = (True, w')"
    by (cases "writeClientMessagesBatch wm wv m (writer_of s')") auto
  have chs: "cl_SendChan (wr_client (writer_of s')) = Some (ch\<lparr>ch_buf := ms\<rparr>)" "\<not> ch_closed (ch\<lparr>ch_buf := ms\<rparr>)"
    "0 \<le> cl_pendingWrites (wr_client (writer_of s'))"
    using inv ch by (auto simp: pump_inv_def client_ok_def chan_open_def s')
  note b = data_batch [OF ok run chs]
  have "client_ok (wr_client w')" using client_ok_data_batch [OF cok, of wm wv m] by (simp add: run)
  moreover have "pending_ok (wr_client w')"
    using b inv ch pc by (auto simp: pump_inv_def pending_ok_def same_lanes_def buf_of_def s' drained_eq)
  ultimately show "pump_inv out pong ((pump_put s' (snd (writeClientMessagesBatch wm wv m (writer_of s'))))
      \<lparr>pp_pc := Top, pp_log := pp_log s' @ map WData (m # drained (Some (ch\<lparr>ch_buf := ms\<rparr>)))\<rparr>)"
    using b inv ch pc unfolding run snd_conv by (simp add: pump_inv_def s' buf_of_def drained_eq)
qed

lemma single_write:
  assumes "writeClientMessages wr d w = (True, w')" and "\<And>c c'. wr d c = (True, c') \<Longrightarrow> out c' = out c @ bytes"
  shows "wr_client w' = wr_client w" "out (wr_conn w') = out (wr_conn w) @ bytes"
  using assms by (auto simp: writeClientMessages_def split: prod.splits)

lemma single_write_client: "wr_client (snd (writeClientMessages wr d w)) = wr_client w"
  by (simp add: writeClientMessages_def split: prod.splits)

lemma pump_inv_single:
  assumes "\<And>c c'. wr d c = (True, c') \<Longrightarrow> out c' = out c @ item_bytes pong item"
    and "client_ok (wr_client s')"
    and "pending_ok (wr_client s')"
    and "pp_data_in s' = data_of (pp_log s' @ [item]) @ buf_of (cl_SendChan (wr_client s'))"
    and "pp_ctrl_in s' = ctrl_of (pp_log s' @ [item]) @ buf_of (cl_CtrlCh (wr_client s'))"
    and "out (wr_conn s') = concat (map (item_bytes pong) (pp_log s'))"
  shows "pump_inv out pong (after_write [item] (writeClientMessages wr d (writer_of s')) s')"
proof (rule after_write_inv)
  show "client_ok (wr_client (snd (writeClientMessages wr d (writer_of s'))))"
    using assms(2) by (simp add: single_write_client)
  assume "fst (writeClientMessages wr d (writer_of s'))"
  then obtain w' where run: "writeClientMessages wr d (writer_of s') = (True, w')"
    by (cases "writeClientMessages wr d (writer_of s')") auto
  from single_write [where out = out, OF run assms(1)] assms(2-)
  show "pump_inv out pong ((pump_put s' (snd (writeClientMessages wr d (writer_of s'))))\<lparr>pp_pc := Top, pp_log := pp_log s' @ [item]\<rparr>)"
    by (simp add: run pump_inv_def)
qed

lemma pump_inv_step:
  assumes ok: "socket_ok out pong wm wv wp" and inv: "pump_inv out pong s" and "pump_step wm wv wp s t"
  shows "pump_inv out pong t"
  using assms(3)
proof cases
  case (top_ctrl ch d ds s')
  with inv pump_inv_top_ctrl [OF ok inv _ top_ctrl(3,4,5)] show ?thesis by (auto simp: pump_inv_def client_ok_def)
next
  case top_none
  with inv show ?thesis by (simp add: pump_inv_def)
next
  case (select_data ch m ms s')
  with inv pump_inv_data [OF ok inv _ select_data(3,4,5)] show ?thesis by (auto simp: pump_inv_def client_ok_def)
next
  case (select_ctrl ch d ds s')
  have "pump_inv out pong (after_write [WCtrl d] (writeClientMessages wm d (writer_of s')) s')"
    by (rule pump_inv_single)
      (use ok inv select_ctrl in \<open>auto simp: socket_ok_def pump_inv_def client_ok_def chan_open_def pending_ok_def buf_of_def\<close>)
  with inv select_ctrl show ?thesis by (auto simp: pump_inv_def client_ok_def)
next
  case (select_pong ch d ds s')
  have "pump_inv out pong (after_write [WPong d] (writeClientMessages wp d (writer_of s')) s')"
    by (rule pump_inv_single)
      (use ok inv select_pong in \<open>auto simp: socket_ok_def pump_inv_def client_ok_def pending_ok_def\<close>)
  with inv select_pong show ?thesis by (auto simp: pump_inv_def client_ok_def)
next
  case stop
  with inv show ?thesis by (simp add: pump_inv_def)
next
  case (produce data ok' c ctr)
  with inv try_send_fields [OF produce(2), of "pp_pc s \<noteq> Exit"] show ?thesis by (auto simp: pump_inv_def)
next
  case (produce_ctrl data ok' c ctr)
  with inv try_ctrl_fields [OF produce_ctrl(2)] show ?thesis by (auto simp: pump_inv_def)
next
  case (ping ch data ch')
  with inv show ?thesis by (simp add: pump_inv_def client_ok_def pending_ok_def)
next
  case (close c ctr)
  with inv show ?thesis
    by (auto simp: pump_inv_def client_ok_def pending_ok_def mark_closed_eq)
qed

lemma pump_inv_init: "pump_init out s \<Longrightarrow> pump_inv out pong s"
  by (auto simp: pump_init_def pump_inv_def pending_ok_def)

text \<open>The behaviour of the socket is fixed outside, so the system that is interpreted carries it in its
  invariant.\<close>

interpretation pump: invariant_system "pump_init out" "pump_step wm wv wp"
  "\<lambda>s. socket_ok out pong wm wv wp \<longrightarrow> pump_inv out pong s"
  by unfold_locales (auto intro: pump_inv_init pump_inv_step)

fun item_payload :: "wire_item \<Rightarrow> frame" where
  "item_payload (WData p) = p"
| "item_payload (WCtrl p) = p"
| "item_payload (WPong p) = p"

fun is_pong :: "wire_item \<Rightarrow> bool" where
  "is_pong (WPong p) = True"
| "is_pong _ = False"

lemma decode_frames_concat:
  "list_all (\<lambda>p. length p < 2 ^ 63) ps \<Longrightarrow> decode_frames (concat (map encode_frame ps)) = Some ps"
proof (induction ps)
  case (Cons p ps)
  have "encode_frame p \<noteq> []" by (simp add: encode_frame_def appendFrameHeader_def)
  with Cons decode_encode [of p "concat (map encode_frame ps)"] show ?case
    by (subst decode_frames.simps) simp
qed (simp add: decode_frames.simps)

lemma bytes_payload: "list_all (\<lambda>x. \<not> is_pong x) xs \<Longrightarrow> map (item_bytes pong) xs = map (encode_frame \<circ> item_payload) xs"
proof (induction xs)
  case (Cons x xs)
  then show ?case by (cases x) auto
qed simp

section \<open>Properties\<close>

text \<open>C30: The hand-written framing is read back by an RFC 6455 decoder: one vectored write of any number of
  messages is decoded to exactly these messages, for every payload length that Go can express and
  on all three length encodings.\<close>

theorem frames_roundtrip:
  assumes "list_all (\<lambda>p. length p < 2 ^ 63) msgs"
    and "\<And>bs c. wv bs c = (True, c @ concat bs)"
  shows "writeFramesBatch wv msgs wire = (True, wire @ concat (map encode_frame msgs)) \<and>
    decode_frames (concat (map encode_frame msgs)) = Some msgs"
proof -
  have "concat (concat (map (\<lambda>payload. [appendFrameHeader [] (length payload), payload]) msgs)) = concat (map encode_frame msgs)"
    by (induction msgs) (auto simp: encode_frame_def)
  with assms decode_frames_concat show ?thesis by (simp add: writeFramesBatch_def)
qed

lemma frames_roundtrip_witness:
  "decode_frames (concat (map encode_frame [''hi'', replicate 200 CHR ''x'', []])) = Some [''hi'', replicate 200 CHR ''x'', []]"
  using frames_roundtrip [of "[''hi'', replicate 200 CHR ''x'', []]" "\<lambda>bs c. (True, c @ concat bs)" "[]"] by simp


definition mem_write :: "frame \<Rightarrow> string \<Rightarrow> bool \<times> string" where
  "mem_write p c = (True, c @ encode_frame p)"

definition mem_writev :: "string list \<Rightarrow> string \<Rightarrow> bool \<times> string" where
  "mem_writev bs c = (True, c @ concat bs)"

definition pump_client :: "frame list \<Rightarrow> int \<Rightarrow> Client" where
  "pump_client buf n =
     (NewClient 1 ''c1'' ''u1'' UserTypeCustomer)\<lparr>cl_Conn := Some 1, cl_pendingWrites := n,
        cl_SendChan := Some \<lparr>ch_cap = 4, ch_buf = buf, ch_closed = False\<rparr>\<rparr>"

definition pump_at :: "Client \<Rightarrow> string \<Rightarrow> int list \<Rightarrow> pump_pc \<Rightarrow> wire_item list \<Rightarrow> frame list \<Rightarrow> string pump" where
  "pump_at c wire batches pc log ins =
     \<lparr>wr_client = c, wr_counters = (\<lambda>_. 0), wr_conn = wire, wr_batches = batches, pp_pc = pc, pp_log = log,
      pp_data_in = ins, pp_ctrl_in = []\<rparr>"

lemma pump_demo:
  "\<exists>s. reach (pump_init id) (pump_step mem_write mem_writev mem_write) s \<and> pp_pc s = Top \<and>
    pp_log s = [WData ''hi''] \<and> pp_data_in s = [''hi'']"
proof -
  let ?R = "reach (pump_init id) (pump_step mem_write mem_writev mem_write)"
  let ?c0 = "pump_client [] 0" and ?c1 = "pump_client [''hi''] 1"
  let ?s0 = "pump_at ?c0 [] [] Top [] []" and ?s1 = "pump_at ?c1 [] [] Top [] [''hi'']"
    and ?s2 = "pump_at ?c1 [] [] Select [] [''hi'']"
  have "?R ?s0"
    by (rule reach_init) (simp add: pump_init_def pump_at_def client_ok_def pump_client_def NewClient_def chan_open_def buf_of_def)
  moreover have "pump_step mem_write mem_writev mem_write ?s0 ?s1"
    using pump_step.produce [of "''hi''" ?s0 True ?c1 "\<lambda>_. 0" mem_write mem_writev mem_write]
    by (simp add: pump_at_def TrySend_def try_send_def pump_client_def NewClient_def Let_def bump_counter_def)
  ultimately have "?R ?s1" by (rule reach_step)
  moreover have "pump_step mem_write mem_writev mem_write ?s1 ?s2"
    using pump_step.top_none [of ?s1 mem_write mem_writev mem_write] by (simp add: pump_at_def pump_client_def NewClient_def)
  ultimately have r2: "?R ?s2" by (rule reach_step)
  let ?ch = "\<lparr>ch_cap = 4, ch_buf = [''hi''], ch_closed = False\<rparr> :: frame GoChan"
  define s' where "s' = ?s2\<lparr>wr_client := (wr_client ?s2)\<lparr>cl_SendChan := Some (?ch\<lparr>ch_buf := []\<rparr>)\<rparr>\<rparr>"
  define r where "r = writeClientMessagesBatch mem_write mem_writev ''hi'' (writer_of s')"
  define t where "t = after_write (map WData (''hi'' # drained (Some (?ch\<lparr>ch_buf := []\<rparr>)))) r s'"
  have "pump_step mem_write mem_writev mem_write ?s2 t"
    using pump_step.select_data [of ?s2 ?ch "''hi''" "[]" s' mem_write mem_writev mem_write]
    by (simp add: s'_def t_def r_def pump_at_def pump_client_def NewClient_def)
  with r2 have "?R t" by (rule reach_step)
  moreover have "fst r"
    by (simp add: r_def writeClientMessagesBatch_def mem_write_def flush_rest_def s'_def writer_of_def pump_at_def
        clientWriteBatchSize_def drain_batch_eq writeFramesBatch_def Let_def)
  moreover from this have "pp_pc t = Top \<and> pp_log t = [WData ''hi''] \<and> pp_data_in t = [''hi'']"
    by (simp add: t_def after_write_def s'_def pump_at_def drained_eq)
  ultimately show ?thesis by blast
qed


end
