(* ===== verification/Metrics.thy ===== *)
theory Metrics
  imports Admission
begin

text \<open>
  The delivery funnel: overload/overload_metrics.go and the actions of overload/delivery_fallback.go.

  \<^item> \<open>hotCounter\<close> is the striped counter; the stripe is chosen by a random number, an argument here.
    Whatever the choices, its total is the sum of what was added, so the fields of
    \<open>OverloadMetrics\<close> hold the totals of their counters.
  \<^item> A bucket array has four entries (standard, ephemeral, guaranteed, unset), the delivery modes
    have five.  Counters are \<open>int\<close>: one event each, far below 64 bits.
\<close>

section \<open>Striped counters\<close>

definition hotStripes :: nat where "hotStripes = 8"

type_synonym hotCounter = "int list"

definition hot_new :: hotCounter where "hot_new = replicate hotStripes 0"

definition hot_add :: "64 word \<Rightarrow> int \<Rightarrow> hotCounter \<Rightarrow> hotCounter" where
  "hot_add random delta c =
     (let i = unat (random AND (of_nat hotStripes - 1)) in c[i := c ! i + delta])"

definition hot_total :: "hotCounter \<Rightarrow> int" where
  "hot_total c = foldl (+) 0 c"

lemma hot_index: "unat ((random :: 64 word) AND (of_nat hotStripes - 1)) < hotStripes"
proof -
  have "unat (random AND 7) \<le> unat (7 :: 64 word)"
    by (rule word_le_nat_alt [THEN iffD1]) (rule word_and_le1)
  then show ?thesis by (simp add: hotStripes_def)
qed

lemma hot_total_sum: "hot_total c = sum_list c"
proof -
  have "foldl (+) n c = n + sum_list c" for n :: int
    by (induction c arbitrary: n) auto
  then show ?thesis by (simp add: hot_total_def)
qed

lemma sum_list_upd: "i < length c \<Longrightarrow> sum_list (c[i := c ! i + d]) = sum_list c + d" for c :: "int list"
  by (induction c arbitrary: i) (auto split: nat.splits)

lemma hot_total_add:
  assumes "length c = hotStripes"
  shows "hot_total (hot_add random delta c) = hot_total c + delta" "length (hot_add random delta c) = hotStripes"
  using assms hot_index [of random] by (simp_all add: hot_add_def Let_def hot_total_sum sum_list_upd)

lemma hot_total_new: "hot_total hot_new = 0" "length hot_new = hotStripes"
  by (simp_all add: hot_new_def hot_total_sum sum_list_replicate)

lemma hot_counter_exact:
  "hot_total (fold (\<lambda>(random, delta). hot_add random delta) ops hot_new) = sum_list (map snd ops)"
proof -
  have "length c = hotStripes \<Longrightarrow>
      hot_total (fold (\<lambda>(random, delta). hot_add random delta) ops c) = hot_total c + sum_list (map snd ops)" for c
    by (induction ops arbitrary: c) (auto simp: hot_total_add split: prod.splits)
  from this [OF hot_total_new(2)] show ?thesis by (simp add: hot_total_new)
qed

section \<open>The counters of the funnel\<close>

record OverloadMetrics =
  om_admitted :: "int list"
  om_realtime :: "int list"
  om_offlineFallback :: "int list"
  om_ephemeralMerged :: int
  om_ephemeralDropped :: int
  om_unrecoverable :: "int list"
  om_admissionDelayed :: int
  om_admissionOffline :: int
  om_shaperDenied :: int
  om_writeBatchTotal :: int
  om_writeBatchCount :: int
  om_evictedSlow :: int
  om_deliverModes :: "int list"
  om_clusterGRPCMessages :: int
  om_clusterGRPCNodes :: int
  om_clusterPubSubFallbacks :: int
  om_clusterDispatchSyncs :: int

definition zero_metrics :: OverloadMetrics where
  "zero_metrics =
     \<lparr>om_admitted = replicate 4 0, om_realtime = replicate 4 0, om_offlineFallback = replicate 4 0, om_ephemeralMerged = 0,
      om_ephemeralDropped = 0, om_unrecoverable = replicate 4 0, om_admissionDelayed = 0, om_admissionOffline = 0,
      om_shaperDenied = 0, om_writeBatchTotal = 0, om_writeBatchCount = 0, om_evictedSlow = 0,
      om_deliverModes = replicate 5 0, om_clusterGRPCMessages = 0, om_clusterGRPCNodes = 0,
      om_clusterPubSubFallbacks = 0, om_clusterDispatchSyncs = 0\<rparr>"

fun bucketIndex :: "DeliveryGuarantee \<Rightarrow> nat" where
  "bucketIndex GuaranteeStandard = 0"
| "bucketIndex GuaranteeEphemeral = 1"
| "bucketIndex GuaranteeGuaranteed = 2"
| "bucketIndex _ = 3"

definition bump :: "nat \<Rightarrow> int list \<Rightarrow> int list" where
  "bump i b = b[i := b ! i + 1]"

definition RecordAdmitted :: "DeliveryGuarantee \<Rightarrow> OverloadMetrics \<Rightarrow> OverloadMetrics" where
  "RecordAdmitted g m = m\<lparr>om_admitted := bump (bucketIndex g) (om_admitted m)\<rparr>"

definition RecordRealtime :: "DeliveryGuarantee \<Rightarrow> OverloadMetrics \<Rightarrow> OverloadMetrics" where
  "RecordRealtime g m = m\<lparr>om_realtime := bump (bucketIndex g) (om_realtime m)\<rparr>"

definition RecordOfflineFallback :: "DeliveryGuarantee \<Rightarrow> OverloadMetrics \<Rightarrow> OverloadMetrics" where
  "RecordOfflineFallback g m = m\<lparr>om_offlineFallback := bump (bucketIndex g) (om_offlineFallback m)\<rparr>"

definition RecordEphemeralDrop :: "OverloadMetrics \<Rightarrow> OverloadMetrics" where
  "RecordEphemeralDrop m = m\<lparr>om_ephemeralDropped := om_ephemeralDropped m + 1\<rparr>"

definition RecordEphemeralMerged :: "OverloadMetrics \<Rightarrow> OverloadMetrics" where
  "RecordEphemeralMerged m = m\<lparr>om_ephemeralMerged := om_ephemeralMerged m + 1\<rparr>"

definition RecordUnrecoverable :: "DeliveryGuarantee \<Rightarrow> OverloadMetrics \<Rightarrow> OverloadMetrics" where
  "RecordUnrecoverable g m = m\<lparr>om_unrecoverable := bump (bucketIndex g) (om_unrecoverable m)\<rparr>"

definition RecordAdmissionVerdict :: "AdmitVerdict \<Rightarrow> OverloadMetrics \<Rightarrow> OverloadMetrics" where
  "RecordAdmissionVerdict v m =
     (case v of
        VerdictDelay \<Rightarrow> m\<lparr>om_admissionDelayed := om_admissionDelayed m + 1\<rparr>
      | VerdictOffline \<Rightarrow> m\<lparr>om_admissionOffline := om_admissionOffline m + 1\<rparr>
      | VerdictAdmit \<Rightarrow> m)"

definition RecordShaperDenied :: "OverloadMetrics \<Rightarrow> OverloadMetrics" where
  "RecordShaperDenied m = m\<lparr>om_shaperDenied := om_shaperDenied m + 1\<rparr>"

definition RecordWriteBatch :: "int \<Rightarrow> OverloadMetrics \<Rightarrow> OverloadMetrics" where
  "RecordWriteBatch n m =
     m\<lparr>om_writeBatchTotal := om_writeBatchTotal m + n, om_writeBatchCount := om_writeBatchCount m + 1\<rparr>"

definition RecordSlowEvict :: "OverloadMetrics \<Rightarrow> OverloadMetrics" where
  "RecordSlowEvict m = m\<lparr>om_evictedSlow := om_evictedSlow m + 1\<rparr>"

fun deliverModeIndex :: "DeliveryMode \<Rightarrow> nat" where
  "deliverModeIndex DeliveryModeP2P = 0"
| "deliverModeIndex DeliveryModeGroupReliable = 1"
| "deliverModeIndex DeliveryModeGroupBroadcast = 2"
| "deliverModeIndex DeliveryModeNamespace = 3"
| "deliverModeIndex _ = 4"

definition RecordDeliverMode :: "DeliveryMode \<Rightarrow> OverloadMetrics \<Rightarrow> OverloadMetrics" where
  "RecordDeliverMode mode m = m\<lparr>om_deliverModes := bump (deliverModeIndex mode) (om_deliverModes m)\<rparr>"

definition RecordClusterGRPC :: "int \<Rightarrow> OverloadMetrics \<Rightarrow> OverloadMetrics" where
  "RecordClusterGRPC nodes m =
     m\<lparr>om_clusterGRPCMessages := om_clusterGRPCMessages m + 1, om_clusterGRPCNodes := om_clusterGRPCNodes m + nodes\<rparr>"

definition RecordClusterPubSubFallback :: "OverloadMetrics \<Rightarrow> OverloadMetrics" where
  "RecordClusterPubSubFallback m = m\<lparr>om_clusterPubSubFallbacks := om_clusterPubSubFallbacks m + 1\<rparr>"

definition RecordClusterDispatchSync :: "OverloadMetrics \<Rightarrow> OverloadMetrics" where
  "RecordClusterDispatchSync m = m\<lparr>om_clusterDispatchSyncs := om_clusterDispatchSyncs m + 1\<rparr>"

definition MetricsSnapshot :: "OverloadMetrics \<Rightarrow> (string, int) gomap" where
  "MetricsSnapshot m =
     [(''ephemeral_merged'', om_ephemeralMerged m), (''ephemeral_dropped'', om_ephemeralDropped m),
      (''admission_delayed'', om_admissionDelayed m), (''admission_offline'', om_admissionOffline m),
      (''shaper_denied'', om_shaperDenied m), (''slow_evicted'', om_evictedSlow m),
      (''write_batch_total'', om_writeBatchTotal m), (''write_batch_count'', om_writeBatchCount m),
      (''cluster_grpc_messages'', om_clusterGRPCMessages m), (''cluster_grpc_nodes'', om_clusterGRPCNodes m),
      (''cluster_pubsub_fallbacks'', om_clusterPubSubFallbacks m), (''cluster_dispatch_syncs'', om_clusterDispatchSyncs m)]"

text \<open>The nested maps of \<open>OverloadStats\<close>: the scalars are in the snapshot above.\<close>

datatype StatsValue = SInt int | SMap "(string, int) gomap"

definition read_buckets :: "int list \<Rightarrow> StatsValue" where
  "read_buckets b = SMap [(''standard'', b ! 0), (''ephemeral'', b ! 1), (''guaranteed'', b ! 2), (''unset'', b ! 3)]"

definition OverloadStats :: "OverloadMetrics \<Rightarrow> (string, StatsValue) gomap" where
  "OverloadStats m =
     [(''admitted'', read_buckets (om_admitted m)), (''realtime'', read_buckets (om_realtime m)),
      (''offline_fallback'', read_buckets (om_offlineFallback m)), (''unrecoverable'', read_buckets (om_unrecoverable m)),
      (''deliver_modes'',
        SMap [(''p2p'', om_deliverModes m ! 0), (''group_reliable'', om_deliverModes m ! 1),
              (''group_broadcast'', om_deliverModes m ! 2), (''namespace'', om_deliverModes m ! 3),
              (''global'', om_deliverModes m ! 4)])] @
     map (\<lambda>(k, v). (k, SInt v)) (MetricsSnapshot m)"

definition funnel_gap :: "nat \<Rightarrow> OverloadMetrics \<Rightarrow> int" where
  "funnel_gap i m = om_admitted m ! i - (om_realtime m ! i + om_offlineFallback m ! i + om_unrecoverable m ! i)"

definition DeliveryFunnelConsistent :: "OverloadMetrics \<Rightarrow> bool \<times> (string, int) gomap" where
  "DeliveryFunnelConsistent m =
     (let offences = filter (\<lambda>(_, d). d \<noteq> 0) [(''standard'', funnel_gap 0 m), (''guaranteed'', funnel_gap 2 m)]
      in (offences = [], offences))"

datatype FallbackAction = FallbackNone | FallbackOffline | FallbackEphemeralDrop

section \<open>Well-formedness\<close>

definition metrics_wf :: "OverloadMetrics \<Rightarrow> bool" where
  "metrics_wf m \<longleftrightarrow> length (om_admitted m) = 4 \<and> length (om_realtime m) = 4 \<and> length (om_offlineFallback m) = 4 \<and>
     length (om_unrecoverable m) = 4 \<and> length (om_deliverModes m) = 5"

lemma bucketIndex_less [simp]: "bucketIndex g < 4"
  by (cases g) auto

lemma deliverModeIndex_less [simp]: "deliverModeIndex d < 5"
  by (cases d) auto

lemma length_bump [simp]: "length (bump i b) = length b"
  by (simp add: bump_def)

lemma nth_bump: "i < length b \<Longrightarrow> bump i b ! j = b ! j + (if i = j then 1 else 0)"
  by (simp add: bump_def nth_list_update)

lemmas record_defs = RecordAdmitted_def RecordRealtime_def RecordOfflineFallback_def RecordEphemeralDrop_def
  RecordEphemeralMerged_def RecordUnrecoverable_def RecordAdmissionVerdict_def RecordShaperDenied_def
  RecordWriteBatch_def RecordSlowEvict_def RecordDeliverMode_def RecordClusterGRPC_def
  RecordClusterPubSubFallback_def RecordClusterDispatchSync_def

lemma metrics_wf_zero: "metrics_wf zero_metrics"
  by (simp add: metrics_wf_def zero_metrics_def)

lemma metrics_wf_record [simp]:
  "metrics_wf (RecordAdmitted g m) = metrics_wf m" "metrics_wf (RecordRealtime g m) = metrics_wf m"
  "metrics_wf (RecordOfflineFallback g m) = metrics_wf m" "metrics_wf (RecordEphemeralDrop m) = metrics_wf m"
  "metrics_wf (RecordEphemeralMerged m) = metrics_wf m" "metrics_wf (RecordUnrecoverable g m) = metrics_wf m"
  "metrics_wf (RecordAdmissionVerdict v m) = metrics_wf m" "metrics_wf (RecordShaperDenied m) = metrics_wf m"
  "metrics_wf (RecordWriteBatch n m) = metrics_wf m" "metrics_wf (RecordSlowEvict m) = metrics_wf m"
  "metrics_wf (RecordDeliverMode d m) = metrics_wf m" "metrics_wf (RecordClusterGRPC n m) = metrics_wf m"
  by (auto simp: metrics_wf_def record_defs split: AdmitVerdict.splits)

text \<open>How one event moves the balance of a level: admission opens it, each of the three outcomes closes it.\<close>

lemma funnel_gap_record:
  assumes "metrics_wf m"
  shows "funnel_gap i (RecordAdmitted g m) = funnel_gap i m + (if bucketIndex g = i then 1 else 0)"
    "funnel_gap i (RecordRealtime g m) = funnel_gap i m - (if bucketIndex g = i then 1 else 0)"
    "funnel_gap i (RecordOfflineFallback g m) = funnel_gap i m - (if bucketIndex g = i then 1 else 0)"
    "funnel_gap i (RecordUnrecoverable g m) = funnel_gap i m - (if bucketIndex g = i then 1 else 0)"
    "funnel_gap i (RecordEphemeralDrop m) = funnel_gap i m" "funnel_gap i (RecordEphemeralMerged m) = funnel_gap i m"
    "funnel_gap i (RecordAdmissionVerdict v m) = funnel_gap i m"
  using assms by (auto simp: funnel_gap_def record_defs metrics_wf_def nth_bump split: AdmitVerdict.splits)

lemma funnel_consistent_iff:
  "fst (DeliveryFunnelConsistent m) = (funnel_gap 0 m = 0 \<and> funnel_gap 2 m = 0)"
  by (auto simp: DeliveryFunnelConsistent_def Let_def)

end
