(* ===== verification/Message_Record.thy ===== *)
theory Message_Record
  imports Ack
begin

text \<open>
  Records of sent messages: models/message_record.go, the SQL store adapter/gorm/message_sink.go with
  adapter/gorm/sql_retry.go, and the batched status updates of batcher/message_status_updater.go.

  \<^item> The table is the list of its rows in primary key order.  A statement is a function on the rows; a
    statement that fails changes nothing.  Two rows may have the same key.
  \<^item> The columns that gorm keeps by itself (created_at, updated_at) and the free-form JSON columns are
    left out: nothing of the program reads them.  Zero times are 0, missing times \<open>None\<close>.
  \<^item> \<open>enc\<close> and \<open>dec\<close> are the JSON encoding of a message; an error is \<open>Inl\<close>.
\<close>

section \<open>Records\<close>

type_synonym MessageSendStatus = string

abbreviation StatusPending :: MessageSendStatus where "StatusPending \<equiv> ''pending''"
abbreviation StatusSending :: MessageSendStatus where "StatusSending \<equiv> ''sending''"
abbreviation StatusSuccess :: MessageSendStatus where "StatusSuccess \<equiv> ''success''"
abbreviation StatusFailed :: MessageSendStatus where "StatusFailed \<equiv> ''failed''"
abbreviation StatusRetrying :: MessageSendStatus where "StatusRetrying \<equiv> ''retrying''"
abbreviation StatusAckTimeout :: MessageSendStatus where "StatusAckTimeout \<equiv> ''ack_timeout''"
abbreviation StatusUserOffline :: MessageSendStatus where "StatusUserOffline \<equiv> ''user_offline''"
abbreviation StatusExpired :: MessageSendStatus where "StatusExpired \<equiv> ''expired''"

type_synonym FailureReason = string

abbreviation (input) NoReason :: FailureReason where "NoReason \<equiv> []"
abbreviation ReasonQueueFull :: FailureReason where "ReasonQueueFull \<equiv> ''queue_full''"
abbreviation ReasonUserOffline :: FailureReason where "ReasonUserOffline \<equiv> ''user_offline''"
abbreviation ReasonConnError :: FailureReason where "ReasonConnError \<equiv> ''conn_error''"
abbreviation ReasonAckTimeout :: FailureReason where "ReasonAckTimeout \<equiv> ''ack_timeout''"
abbreviation ReasonSendTimeout :: FailureReason where "ReasonSendTimeout \<equiv> ''send_timeout''"
abbreviation ReasonNetworkError :: FailureReason where "ReasonNetworkError \<equiv> ''network_error''"
abbreviation ReasonUnknown :: FailureReason where "ReasonUnknown \<equiv> ''unknown''"
abbreviation ReasonMaxRetry :: FailureReason where "ReasonMaxRetry \<equiv> ''max_retry''"
abbreviation ReasonExpired :: FailureReason where "ReasonExpired \<equiv> ''expired''"

record RetryAttempt =
  ra_AttemptNumber :: int
  ra_Timestamp :: int
  ra_Duration :: int
  ra_Error :: string
  ra_Success :: bool

record MessageSendRecord =
  mr_ID :: nat
  mr_SessionID :: string
  mr_MessageID :: string
  mr_HubID :: string
  mr_Namespace :: string
  mr_GroupID :: string
  mr_MessageData :: string
  mr_Sender :: string
  mr_Receiver :: string
  mr_MessageType :: MessageType
  mr_Source :: string
  mr_NodeIP :: string
  mr_ClientIP :: string
  mr_Status :: MessageSendStatus
  mr_CreateTime :: int
  mr_FirstSendTime :: "int option"
  mr_LastSendTime :: "int option"
  mr_SuccessTime :: "int option"
  mr_RetryCount :: int
  mr_MaxRetry :: int
  mr_FailureReason :: FailureReason
  mr_ErrorMessage :: string
  mr_RetryHistory :: "RetryAttempt list option"
  mr_ExpiresAt :: "int option"

definition zero_record :: MessageSendRecord where
  "zero_record =
     \<lparr>mr_ID = 0, mr_SessionID = [], mr_MessageID = [], mr_HubID = [], mr_Namespace = [], mr_GroupID = [], mr_MessageData = [],
      mr_Sender = [], mr_Receiver = [], mr_MessageType = [], mr_Source = [], mr_NodeIP = [], mr_ClientIP = [], mr_Status = [],
      mr_CreateTime = 0, mr_FirstSendTime = None, mr_LastSendTime = None, mr_SuccessTime = None, mr_RetryCount = 0,
      mr_MaxRetry = 0, mr_FailureReason = [], mr_ErrorMessage = [], mr_RetryHistory = None, mr_ExpiresAt = None\<rparr>"

definition record_key :: "MessageSendRecord \<Rightarrow> MessageRecordKey" where
  "record_key r = \<lparr>rk_MessageID = mr_MessageID r, rk_Receiver = mr_Receiver r\<rparr>"

definition BeforeCreate :: "int \<Rightarrow> MessageSendRecord \<Rightarrow> MessageSendRecord" where
  "BeforeCreate now r =
     r\<lparr>mr_CreateTime := (if mr_CreateTime r = 0 then now else mr_CreateTime r),
       mr_RetryHistory := (if mr_RetryHistory r = None then Some [] else mr_RetryHistory r)\<rparr>"

definition SetMessage :: "(HubMessage \<Rightarrow> 'e + string) \<Rightarrow> HubMessage option \<Rightarrow> string option \<Rightarrow> MessageSendRecord \<Rightarrow> 'e option \<times> MessageSendRecord" where
  "SetMessage enc msg payload r =
     (case msg of
        None \<Rightarrow> (None, r)
      | Some m \<Rightarrow>
          (case (case payload of None \<Rightarrow> enc m | Some p \<Rightarrow> Inr p) of
             Inl err \<Rightarrow> (Some err, r)
           | Inr data \<Rightarrow>
               let r = r\<lparr>mr_MessageData := data, mr_MessageID := hm_MessageID m, mr_HubID := hm_ID m, mr_SessionID := hm_SessionID m,
                         mr_Sender := hm_Sender m, mr_Receiver := hm_Receiver m, mr_MessageType := hm_MessageType m,
                         mr_Namespace := hm_Namespace m\<rparr>
               in (None, if slice (hm_GroupIDs m) \<noteq> [] then r\<lparr>mr_GroupID := hd (slice (hm_GroupIDs m))\<rparr> else r)))"

definition GetMessage :: "(string \<Rightarrow> 'e + HubMessage) \<Rightarrow> MessageSendRecord \<Rightarrow> 'e + HubMessage option" where
  "GetMessage dec r =
     (if mr_MessageData r = [] then Inr None
      else case dec (mr_MessageData r) of Inl err \<Rightarrow> Inl err | Inr m \<Rightarrow> Inr (Some m))"

section \<open>Writing a record\<close>

text \<open>The record that \<open>recordMessageToDatabase\<close> hands to the outbox.  \<open>ttl\<close> and \<open>maxRetries\<close> come from the
  configuration; a serialisation error is only logged.\<close>

definition new_record :: "(HubMessage \<Rightarrow> 'e + string) \<Rightarrow> int \<Rightarrow> int \<Rightarrow> string \<Rightarrow> int \<Rightarrow> HubMessage \<Rightarrow> string option \<Rightarrow> string option \<Rightarrow> MessageSendRecord" where
  "new_record enc ttl maxRetries nodeID now msg sendErr payload =
     (let r = zero_record\<lparr>mr_SessionID := hm_SessionID msg, mr_MessageID := hm_MessageID msg, mr_HubID := hm_ID msg,
                mr_Sender := hm_Sender msg, mr_Receiver := hm_Receiver msg, mr_MessageType := hm_MessageType msg,
                mr_Source := hm_Source msg, mr_NodeIP := nodeID, mr_CreateTime := hm_CreateAt msg, mr_Status := StatusSending,
                mr_RetryCount := 0, mr_MaxRetry := maxRetries, mr_RetryHistory := Some [],
                mr_ExpiresAt := Some (now + (if ttl \<noteq> 0 then ttl else 24 * 60 * 60 * 10 ^ 9))\<rparr>;
          r = snd (SetMessage enc (Some msg) payload r)
      in case sendErr of
           None \<Rightarrow> r
         | Some err \<Rightarrow> r\<lparr>mr_Status := StatusFailed, mr_ErrorMessage := err, mr_FailureReason := err,
                         mr_FirstSendTime := Some now, mr_LastSendTime := Some now\<rparr>)"

section \<open>Retrying statements\<close>

definition sqlRetryMaxAttempts :: nat where "sqlRetryMaxAttempts = 3"

definition isRetryableSQLState :: "string option \<Rightarrow> bool" where
  "isRetryableSQLState state \<longleftrightarrow> state = Some ''40001'' \<or> state = Some ''40P01''"

text \<open>\<open>cancelled i\<close> is the context error met while waiting for attempt \<open>i\<close>; \<open>state_of\<close> is the SQLSTATE of an error.\<close>

fun sql_attempts :: "nat \<Rightarrow> (nat \<Rightarrow> 'e option) \<Rightarrow> ('e \<Rightarrow> string option) \<Rightarrow> ('s \<Rightarrow> 'e option \<times> 's) \<Rightarrow> 'e option \<Rightarrow> 's \<Rightarrow> 'e option \<times> 's" where
  "sql_attempts 0 cancelled state_of fn err s = (err, s)"
| "sql_attempts (Suc n) cancelled state_of fn err s =
     (let attempt = sqlRetryMaxAttempts - Suc n
      in case (if attempt > 0 then cancelled attempt else None) of
           Some e \<Rightarrow> (Some e, s)
         | None \<Rightarrow>
             (case fn s of
                (None, s) \<Rightarrow> (None, s)
              | (Some e, s) \<Rightarrow>
                  if \<not> isRetryableSQLState (state_of e) then (Some e, s) else sql_attempts n cancelled state_of fn (Some e) s))"

definition execWithSQLRetry :: "(nat \<Rightarrow> 'e option) \<Rightarrow> ('e \<Rightarrow> string option) \<Rightarrow> ('s \<Rightarrow> 'e option \<times> 's) \<Rightarrow> 's \<Rightarrow> 'e option \<times> 's" where
  "execWithSQLRetry cancelled state_of fn s = sql_attempts sqlRetryMaxAttempts cancelled state_of fn None s"

section \<open>The store\<close>

type_synonym rows = "MessageSendRecord list"

definition CreateBatch :: "int \<Rightarrow> MessageSendRecord list \<Rightarrow> rows \<Rightarrow> rows" where
  "CreateBatch now records rows =
     (let next = Suc (Max (insert 0 (set (map mr_ID rows))))
      in rows @ map (\<lambda>(i, r). (BeforeCreate now r)\<lparr>mr_ID := next + i\<rparr>) (enumerate 0 records))"

definition FindByID :: "nat \<Rightarrow> rows \<Rightarrow> MessageSendRecord option" where
  "FindByID i rows = find (\<lambda>r. mr_ID r = i) rows"

definition FindByMessageID :: "MessageRecordKey \<Rightarrow> rows \<Rightarrow> MessageSendRecord option" where
  "FindByMessageID key rows = find (\<lambda>r. record_key r = key) rows"

record MessageRecordFilter =
  mf_Status :: "MessageSendStatus option"
  mf_Sender :: string
  mf_Receiver :: string
  mf_NodeIP :: string
  mf_ClientIP :: string
  mf_Limit :: int
  mf_OrderDesc :: bool

definition any_filter :: MessageRecordFilter where
  "any_filter = \<lparr>mf_Status = None, mf_Sender = [], mf_Receiver = [], mf_NodeIP = [], mf_ClientIP = [], mf_Limit = 0, mf_OrderDesc = False\<rparr>"

definition matches :: "MessageRecordFilter \<Rightarrow> MessageSendRecord \<Rightarrow> bool" where
  "matches f r \<longleftrightarrow>
     (case mf_Status f of None \<Rightarrow> True | Some st \<Rightarrow> st = [] \<or> mr_Status r = st) \<and>
     (mf_Sender f = [] \<or> mr_Sender r = mf_Sender f) \<and> (mf_Receiver f = [] \<or> mr_Receiver r = mf_Receiver f) \<and>
     (mf_NodeIP f = [] \<or> mr_NodeIP r = mf_NodeIP f) \<and> (mf_ClientIP f = [] \<or> mr_ClientIP r = mf_ClientIP f)"

definition limit_rows :: "int \<Rightarrow> rows \<Rightarrow> rows" where
  "limit_rows n rows = (if n > 0 then take (nat n) rows else rows)"

definition QueryRecords :: "MessageRecordFilter \<Rightarrow> rows \<Rightarrow> rows" where
  "QueryRecords f rows =
     limit_rows (mf_Limit f)
       (sort_key (\<lambda>r. if mf_OrderDesc f then - mr_CreateTime r else mr_CreateTime r) (filter (matches f) rows))"

definition FindRetryable :: "int \<Rightarrow> int \<Rightarrow> rows \<Rightarrow> rows" where
  "FindRetryable now limit rows =
     limit_rows limit (sort_key mr_CreateTime
       (filter (\<lambda>r. mr_Status r \<in> {StatusFailed, StatusAckTimeout} \<and> mr_RetryCount r < mr_MaxRetry r \<and>
                 (case mr_ExpiresAt r of None \<Rightarrow> True | Some t \<Rightarrow> now < t)) rows))"

definition DeleteExpired :: "int \<Rightarrow> rows \<Rightarrow> rows" where
  "DeleteExpired now rows = filter (\<lambda>r. \<not> (case mr_ExpiresAt r of None \<Rightarrow> False | Some t \<Rightarrow> t < now)) rows"

definition Delete_row :: "nat \<Rightarrow> rows \<Rightarrow> rows" where
  "Delete_row i rows = filter (\<lambda>r. mr_ID r \<noteq> i) rows"

definition DeleteByMessageID :: "string \<Rightarrow> rows \<Rightarrow> rows" where
  "DeleteByMessageID messageID rows = filter (\<lambda>r. mr_MessageID r \<noteq> messageID) rows"

definition CleanupOld :: "int \<Rightarrow> rows \<Rightarrow> rows" where
  "CleanupOld before rows =
     filter (\<lambda>r. \<not> (mr_CreateTime r < before \<and> mr_Status r \<in> {StatusSuccess, StatusFailed, StatusExpired})) rows"

text \<open>The assignments shared by both status updates.\<close>

definition set_status :: "int \<Rightarrow> MessageSendStatus \<Rightarrow> FailureReason \<Rightarrow> string \<Rightarrow> MessageSendRecord \<Rightarrow> MessageSendRecord" where
  "set_status now status reason errorMsg r =
     r\<lparr>mr_Status := status, mr_LastSendTime := Some now,
       mr_FirstSendTime := (case mr_FirstSendTime r of None \<Rightarrow> Some now | Some t \<Rightarrow> Some t),
       mr_FailureReason := (if reason \<noteq> [] then reason else mr_FailureReason r),
       mr_ErrorMessage := (if errorMsg \<noteq> [] then errorMsg else mr_ErrorMessage r)\<rparr>"

definition update_where :: "(MessageSendRecord \<Rightarrow> bool) \<Rightarrow> (MessageSendRecord \<Rightarrow> MessageSendRecord) \<Rightarrow> rows \<Rightarrow> rows" where
  "update_where P f rows = map (\<lambda>r. if P r then f r else r) rows"

definition BatchUpdateStatus :: "int \<Rightarrow> MessageRecordKey list \<Rightarrow> MessageSendStatus \<Rightarrow> FailureReason \<Rightarrow> string \<Rightarrow> rows \<Rightarrow> rows" where
  "BatchUpdateStatus now keys status reason errorMsg rows =
     (if keys = [] then rows
      else update_where (\<lambda>r. record_key r \<in> set keys)
             (\<lambda>r. let r = set_status now status reason errorMsg r
                  in if status = StatusSuccess then r\<lparr>mr_SuccessTime := Some now\<rparr> else r) rows)"

text \<open>\<open>fail key\<close> is the error the statement for \<open>key\<close> ends with after its retries, if any.\<close>

fun ClaimStaleSending :: "(MessageRecordKey \<Rightarrow> 'e option) \<Rightarrow> int \<Rightarrow> MessageRecordKey list \<Rightarrow> MessageSendStatus \<Rightarrow> FailureReason \<Rightarrow> string
    \<Rightarrow> rows \<Rightarrow> (MessageRecordKey list \<times> 'e option) \<times> rows" where
  "ClaimStaleSending fail now [] newStatus reason errorMsg rows = (([], None), rows)"
| "ClaimStaleSending fail now (key # keys) newStatus reason errorMsg rows =
     (case fail key of
        Some err \<Rightarrow> (([], Some err), rows)
      | None \<Rightarrow>
          let P = (\<lambda>r. record_key r = key \<and> mr_Status r = StatusSending);
              affected = length (filter P rows);
              rows = update_where P (set_status now newStatus reason errorMsg) rows
          in case ClaimStaleSending fail now keys newStatus reason errorMsg rows of
               ((claimed, err), rows) \<Rightarrow> ((if affected > 0 then key # claimed else claimed, err), rows))"

definition IncrementRetry :: "int \<Rightarrow> MessageRecordKey \<Rightarrow> RetryAttempt \<Rightarrow> rows \<Rightarrow> rows" where
  "IncrementRetry now key attempt rows =
     update_where (\<lambda>r. record_key r = key)
       (\<lambda>r. let n = ra_AttemptNumber attempt; ok = ra_Success attempt
            in r\<lparr>mr_RetryCount := n,
                 mr_RetryHistory := Some ((case mr_RetryHistory r of None \<Rightarrow> [] | Some h \<Rightarrow> h) @ [attempt]),
                 mr_LastSendTime := Some now,
                 mr_FirstSendTime := (case mr_FirstSendTime r of None \<Rightarrow> Some now | Some t \<Rightarrow> Some t),
                 mr_Status := (if ok then StatusSuccess else if n \<ge> mr_MaxRetry r then StatusFailed else StatusRetrying),
                 mr_SuccessTime := (if ok then Some now else mr_SuccessTime r),
                 mr_FailureReason := (if \<not> ok \<and> n \<ge> mr_MaxRetry r then ReasonMaxRetry else mr_FailureReason r),
                 mr_ErrorMessage := (if \<not> ok \<and> ra_Error attempt \<noteq> [] then ra_Error attempt else mr_ErrorMessage r)\<rparr>) rows"

definition record_statuses :: "MessageSendStatus list" where
  "record_statuses = [StatusPending, StatusSending, StatusSuccess, StatusFailed, StatusRetrying, StatusAckTimeout, StatusUserOffline, StatusExpired]"

text \<open>\<open>SELECT status, COUNT(*) GROUP BY status\<close>\<close>

definition group_counts :: "rows \<Rightarrow> (MessageSendStatus \<times> int) list" where
  "group_counts rows = map (\<lambda>st. (st, int (length (filter (\<lambda>r. mr_Status r = st) rows)))) (remdups (map mr_Status rows))"

definition GetStatistics :: "rows \<Rightarrow> (string, int) gomap" where
  "GetStatistics rows =
     (let stats = fold (\<lambda>st. AList.update st 0) record_statuses [];
          (stats, total) = fold (\<lambda>(st, n) (stats, total). (AList.update st n stats, total + n)) (group_counts rows) (stats, 0)
      in AList.update ''total'' total stats)"

section \<open>Batched status updates\<close>

record StatusUpdateItem =
  si_MessageID :: string
  si_Receiver :: string
  si_Status :: MessageSendStatus
  si_Reason :: FailureReason
  si_ErrMsg :: string

definition item_key :: "StatusUpdateItem \<Rightarrow> MessageRecordKey" where
  "item_key i = \<lparr>rk_MessageID = si_MessageID i, rk_Receiver = si_Receiver i\<rparr>"

definition item_group :: "StatusUpdateItem \<Rightarrow> MessageSendStatus \<times> FailureReason \<times> string" where
  "item_group i = (si_Status i, si_Reason i, si_ErrMsg i)"

definition group_item :: "StatusUpdateItem \<Rightarrow> (MessageSendStatus \<times> FailureReason \<times> string, MessageRecordKey list) gomap
    \<Rightarrow> (MessageSendStatus \<times> FailureReason \<times> string, MessageRecordKey list) gomap" where
  "group_item i groups =
     AList.update (item_group i) ((case map_of groups (item_group i) of None \<Rightarrow> [] | Some keys \<Rightarrow> keys) @ [item_key i]) groups"

definition flush_groups :: "StatusUpdateItem list \<Rightarrow> (MessageSendStatus \<times> FailureReason \<times> string, MessageRecordKey list) gomap" where
  "flush_groups batch = fold group_item batch []"

text \<open>The \<open>range\<close> over the map visits the groups in some order \<open>gs\<close>, a permutation of \<open>flush_groups batch\<close>;
  the failures of single statements are only logged.\<close>

definition apply_group :: "int \<Rightarrow> (MessageSendStatus \<times> FailureReason \<times> string) \<times> MessageRecordKey list \<Rightarrow> rows \<Rightarrow> rows" where
  "apply_group now g rows = (case g of ((status, reason, errMsg), keys) \<Rightarrow> BatchUpdateStatus now keys status reason errMsg rows)"

definition StatusUpdater_flush :: "int \<Rightarrow> StatusUpdateItem list \<Rightarrow> ((MessageSendStatus \<times> FailureReason \<times> string) \<times> MessageRecordKey list) list
    \<Rightarrow> rows \<Rightarrow> rows" where
  "StatusUpdater_flush now batch gs rows = (if batch = [] then rows else fold (apply_group now) gs rows)"

section \<open>Lemmas\<close>

lemma record_key_set_status [simp]:
  "record_key (set_status now st reason err r) = record_key r" "mr_Status (set_status now st reason err r) = st"
  "mr_MessageData (set_status now st reason err r) = mr_MessageData r"
  by (simp_all add: record_key_def set_status_def)

lemma set_update_where: "set (update_where P f rows) = (\<lambda>r. if P r then f r else r) ` set rows"
  by (simp add: update_where_def)

text \<open>Some row of the key still waits for its confirmation.\<close>

definition awaiting :: "MessageRecordKey \<Rightarrow> rows \<Rightarrow> bool" where
  "awaiting key rows \<longleftrightarrow> (\<exists>r \<in> set rows. record_key r = key \<and> mr_Status r = StatusSending)"

lemma awaiting_update:
  assumes "\<And>r. P r \<Longrightarrow> record_key (f r) = record_key r" and "\<And>r. P r \<Longrightarrow> mr_Status (f r) \<noteq> StatusSending"
  shows "awaiting key (update_where P f rows) \<longleftrightarrow> (\<exists>r \<in> set rows. record_key r = key \<and> mr_Status r = StatusSending \<and> \<not> P r)"
proof -
  have "(record_key (if P r then f r else r) = key \<and> mr_Status (if P r then f r else r) = StatusSending) =
      (record_key r = key \<and> mr_Status r = StatusSending \<and> \<not> P r)" for r
    using assms [of r] by (cases "P r") simp_all
  then show ?thesis unfolding awaiting_def set_update_where bex_simps by simp
qed

lemma awaiting_update_mono:
  assumes "\<And>r. P r \<Longrightarrow> record_key (f r) = record_key r" and "\<And>r. P r \<Longrightarrow> mr_Status (f r) \<noteq> StatusSending"
  shows "awaiting key (update_where P f rows) \<Longrightarrow> awaiting key rows"
  by (auto simp: awaiting_update [OF assms]) (auto simp: awaiting_def)

lemma claim_once:
  assumes "ClaimStaleSending fail now keys st reason err rows = ((claimed, e), rows')" and "st \<noteq> StatusSending"
  shows "count_list claimed k \<le> (if awaiting k rows then 1 else 0) \<and> (awaiting k rows' \<longrightarrow> awaiting k rows \<and> k \<notin> set claimed)"
  using assms(1)
proof (induction keys arbitrary: rows claimed)
  case (Cons key keys)
  show ?case
  proof (cases "fail key")
    case None
    define P where "P = (\<lambda>r. record_key r = key \<and> mr_Status r = StatusSending)"
    define rows1 where "rows1 = update_where P (set_status now st reason err) rows"
    obtain cl where rec: "ClaimStaleSending fail now keys st reason err rows1 = ((cl, e), rows')"
      and cl: "claimed = (if filter P rows \<noteq> [] then key # cl else cl)"
      using Cons.prems None by (auto simp: P_def rows1_def Let_def split: prod.splits)
    have a: "awaiting k rows1 \<longleftrightarrow> awaiting k rows \<and> k \<noteq> key" for k
      unfolding rows1_def by (subst awaiting_update) (use assms(2) in \<open>auto simp: P_def awaiting_def\<close>)
    have f: "filter P rows \<noteq> [] \<longleftrightarrow> awaiting key rows" by (auto simp: P_def awaiting_def filter_empty_conv)
    show ?thesis using Cons.IH [OF rec] a cl f by (auto split: if_splits)
  next
    case (Some err)
    with Cons.prems show ?thesis by (auto simp: awaiting_def)
  qed
qed auto

text \<open>What the nodes of a cluster do to the shared table between two insertions.\<close>

datatype sink_op = OpClaim "MessageRecordKey list" | OpReport "MessageRecordKey list" MessageSendStatus FailureReason string
  | OpRetry MessageRecordKey RetryAttempt | OpCleanup int | OpExpire | OpDelete string

fun op_ok :: "sink_op \<Rightarrow> bool" where
  "op_ok (OpReport keys st reason err) = (st \<noteq> StatusSending)"
| "op_ok op = True"

fun sink_apply :: "(MessageRecordKey \<Rightarrow> string option) \<Rightarrow> int \<Rightarrow> sink_op \<Rightarrow> rows \<Rightarrow> MessageRecordKey list \<times> rows" where
  "sink_apply fail now (OpClaim keys) rows =
     (case ClaimStaleSending fail now keys StatusAckTimeout ReasonAckTimeout ''ack timeout'' rows of ((claimed, err), rows) \<Rightarrow> (claimed, rows))"
| "sink_apply fail now (OpReport keys st reason err) rows = ([], BatchUpdateStatus now keys st reason err rows)"
| "sink_apply fail now (OpRetry key attempt) rows = ([], IncrementRetry now key attempt rows)"
| "sink_apply fail now (OpCleanup before) rows = ([], CleanupOld before rows)"
| "sink_apply fail now OpExpire rows = ([], DeleteExpired now rows)"
| "sink_apply fail now (OpDelete mid) rows = ([], DeleteByMessageID mid rows)"

fun sink_run :: "(nat \<Rightarrow> MessageRecordKey \<Rightarrow> string option) \<Rightarrow> (nat \<Rightarrow> int) \<Rightarrow> sink_op list \<Rightarrow> rows \<Rightarrow> MessageRecordKey list \<times> rows" where
  "sink_run fail now [] rows = ([], rows)"
| "sink_run fail now (op # ops) rows =
     (case sink_apply (fail (length ops)) (now (length ops)) op rows of (claimed, rows) \<Rightarrow>
        case sink_run fail now ops rows of (later, rows) \<Rightarrow> (claimed @ later, rows))"

lemma sink_apply_once:
  assumes "sink_apply fail now op rows = (claimed, rows')" and "op_ok op"
  shows "count_list claimed k \<le> (if awaiting k rows then 1 else 0) \<and> (awaiting k rows' \<longrightarrow> awaiting k rows \<and> k \<notin> set claimed)"
proof (cases op)
  case (OpClaim keys)
  with assms(1) obtain e where "ClaimStaleSending fail now keys StatusAckTimeout ReasonAckTimeout ''ack timeout'' rows = ((claimed, e), rows')"
    by (auto split: prod.splits)
  from claim_once [OF this] show ?thesis by simp
next
  case (OpReport keys st reason err)
  with assms have "claimed = []" "rows' = BatchUpdateStatus now keys st reason err rows" "st \<noteq> StatusSending" by auto
  then show ?thesis
    using awaiting_update_mono [of "\<lambda>r. record_key r \<in> set keys"
        "\<lambda>r. let r = set_status now st reason err r in if st = StatusSuccess then r\<lparr>mr_SuccessTime := Some now\<rparr> else r" k rows]
    by (auto simp: BatchUpdateStatus_def Let_def record_key_def set_status_def split: if_splits)
next
  case (OpRetry key attempt)
  with assms show ?thesis
    by (auto simp: IncrementRetry_def Let_def record_key_def elim!: awaiting_update_mono [rotated 2] split: if_splits)
qed (use assms in \<open>auto simp: CleanupOld_def DeleteExpired_def DeleteByMessageID_def awaiting_def\<close>)

lemma sink_run_once:
  assumes "sink_run fail now ops rows = (claimed, rows')" and "list_all op_ok ops"
  shows "count_list claimed k \<le> (if awaiting k rows then 1 else 0)"
  using assms
proof (induction ops arbitrary: rows claimed)
  case (Cons op ops)
  obtain c1 rows1 c2 where 1: "sink_apply (fail (length ops)) (now (length ops)) op rows = (c1, rows1)" and
    2: "sink_run fail now ops rows1 = (c2, rows')" "claimed = c1 @ c2"
    using Cons.prems(1) by (auto split: prod.splits)
  have o: "count_list c1 k \<le> (if awaiting k rows then 1 else 0)" "awaiting k rows1 \<Longrightarrow> awaiting k rows \<and> k \<notin> set c1"
    using sink_apply_once [OF 1] Cons.prems(2) by auto
  have "count_list c2 k \<le> (if awaiting k rows1 then 1 else 0)" using Cons.IH [OF 2(1)] Cons.prems(2) by simp
  with o 2(2) show ?case by (cases "awaiting k rows1") (auto simp: count_list_0_iff)
qed auto

text \<open>Grouping a batch: the keys of each group are those of its items.\<close>

lemma group_items:
  "map_of (fold group_item batch groups) g =
    (let keys = map item_key (filter (\<lambda>i. item_group i = g) batch)
     in if keys = [] then map_of groups g else Some ((case map_of groups g of None \<Rightarrow> [] | Some ks \<Rightarrow> ks) @ keys))"
  by (induction batch arbitrary: groups) (auto simp: group_item_def map_of_update Let_def split: option.splits)

lemma gm_wf_groups: "gm_wf groups \<Longrightarrow> gm_wf (fold group_item batch groups)"
  by (induction batch arbitrary: groups) (auto simp: group_item_def)

definition status_of_key :: "MessageRecordKey \<Rightarrow> rows \<Rightarrow> MessageSendStatus list" where
  "status_of_key k rows = map mr_Status (filter (\<lambda>r. record_key r = k) rows)"

lemma batch_update_rows:
  "BatchUpdateStatus now keys st reason err rows =
    map (\<lambda>r. if record_key r \<in> set keys
          then (let r = set_status now st reason err r in if st = StatusSuccess then r\<lparr>mr_SuccessTime := Some now\<rparr> else r) else r) rows"
  by (simp add: BatchUpdateStatus_def update_where_def)

lemma apply_group_row:
  "\<exists>f. apply_group now g rows = map f rows \<and> (\<forall>r. record_key (f r) = record_key r \<and>
     (if record_key r \<in> set (snd g) then mr_Status (f r) = fst (fst g) else f r = r))"
  by (cases g) (auto simp: apply_group_def batch_update_rows Let_def record_key_def set_status_def)

lemma apply_groups_row:
  "\<exists>f. fold (apply_group now) gs rows = map f rows \<and> (\<forall>r. record_key (f r) = record_key r \<and>
     (if \<exists>g \<in> set gs. record_key r \<in> set (snd g) then \<exists>g \<in> set gs. record_key r \<in> set (snd g) \<and> mr_Status (f r) = fst (fst g)
      else f r = r))"
proof (induction gs arbitrary: rows)
  case (Cons g gs)
  obtain f where f: "apply_group now g rows = map f rows" "\<And>r. record_key (f r) = record_key r"
      "\<And>r. if record_key r \<in> set (snd g) then mr_Status (f r) = fst (fst g) else f r = r"
    using apply_group_row [of now g rows] by auto
  obtain h where h: "fold (apply_group now) gs (map f rows) = map h (map f rows)" "\<And>r. record_key (h r) = record_key r"
      "\<And>r. if \<exists>g \<in> set gs. record_key r \<in> set (snd g) then \<exists>g \<in> set gs. record_key r \<in> set (snd g) \<and> mr_Status (h r) = fst (fst g) else h r = r"
    using Cons.IH [of "map f rows"] by auto
  have "record_key ((h \<circ> f) r) = record_key r \<and>
     (if \<exists>g \<in> set (g # gs). record_key r \<in> set (snd g)
      then \<exists>g \<in> set (g # gs). record_key r \<in> set (snd g) \<and> mr_Status ((h \<circ> f) r) = fst (fst g) else (h \<circ> f) r = r)" for r
    using f(2) [of r] f(3) [of r] h(2) [of "f r"] h(3) [of "f r"] by (auto split: if_splits)
  moreover have "fold (apply_group now) (g # gs) rows = map (h \<circ> f) rows" using f(1) h(1) by simp
  ultimately show ?case by blast
qed (auto intro: exI [of _ id])

lemma sum_counts:
  "sum_list (map (\<lambda>st. int (length (filter (\<lambda>r. f r = st) rows))) (remdups (map f rows))) = int (length rows)"
proof -
  have "(\<Sum>st \<in> set (map f rows). length (filter (\<lambda>r. f r = st) rows)) = length rows"
  proof (induction rows)
    case (Cons r rows)
    let ?n = "\<lambda>st. length (filter (\<lambda>r. f r = st) rows)"
    have "(\<Sum>st \<in> insert (f r) (f ` set rows). length (filter (\<lambda>r'. f r' = st) (r # rows))) =
        (\<Sum>st \<in> insert (f r) (f ` set rows). ?n st + (if st = f r then 1 else 0))"
      by (intro sum.cong) auto
    also have "\<dots> = (\<Sum>st \<in> insert (f r) (f ` set rows). ?n st) + 1" by (simp add: sum.distrib)
    also have "(\<Sum>st \<in> insert (f r) (f ` set rows). ?n st) = (\<Sum>st \<in> f ` set rows. ?n st)"
      by (cases "f r \<in> f ` set rows") (auto simp: insert_absorb filter_empty_conv image_iff)
    finally show ?case using Cons by simp
  qed simp
  then show ?thesis by (simp add: sum_list_distinct_conv_sum_set flip: of_nat_sum)
qed

lemma fold_update_list:
  fixes n0 :: int
  shows "distinct (map fst ps) \<Longrightarrow>
   map_of (fst (fold (\<lambda>(st, n) (stats, total). (AList.update st n stats, total + n)) ps (stats, n0))) k =
     (case map_of ps k of None \<Rightarrow> map_of stats k | Some n \<Rightarrow> Some n) \<and>
   snd (fold (\<lambda>(st, n) (stats, total). (AList.update st n stats, total + n)) ps (stats, n0)) = n0 + sum_list (map snd ps)"
proof (induction ps arbitrary: stats n0)
  case (Cons p ps)
  obtain a n where p: "p = (a, n)" by force
  with Cons.prems have "map_of ps a = None" by (simp add: map_of_eq_None_iff)
  with Cons p show ?case by (cases "k = a") (auto simp: map_of_update split: option.splits)
qed simp

section \<open>Properties\<close>

text \<open>A record keeps its message.  What \<open>SetMessage\<close> stores is what \<open>GetMessage\<close> reads back, whatever status
  reports, claims and retries the row goes through, and the row stays under the key of the message.\<close>

theorem record_roundtrip:
  assumes "enc m = Inr data" and "data \<noteq> []" and "dec data = Inr m"
    and "SetMessage enc (Some m) None r = (err, r')"
  shows "err = None \<and> GetMessage dec (set_status now st reason msg r') = Inr (Some m) \<and>
    record_key (set_status now st reason msg r') = \<lparr>rk_MessageID = hm_MessageID m, rk_Receiver = hm_Receiver m\<rparr> \<and>
    (\<forall>r'' \<in> set (IncrementRetry now' key attempt [r']). GetMessage dec r'' = Inr (Some m))"
  using assms
  by (auto simp: SetMessage_def GetMessage_def record_key_def IncrementRetry_def update_where_def set_status_def Let_def split: if_splits)

lemma record_roundtrip_witness:
  "GetMessage (\<lambda>_. Inr zero_message :: string + HubMessage) (set_status 5 StatusFailed ReasonUnknown ''x''
     (snd (SetMessage (\<lambda>_. Inr ''body'' :: string + string) (Some zero_message) None zero_record))) = Inr (Some zero_message)"
proof -
  obtain err r' where run: "SetMessage (\<lambda>_. Inr ''body'' :: string + string) (Some zero_message) None zero_record = (err, r')" by force
  have "''body'' \<noteq> []" by simp
  from record_roundtrip [where dec = "\<lambda>_. Inr zero_message :: string + HubMessage" and now = 5 and st = StatusFailed and reason = ReasonUnknown and msg = "''x''"
      and now' = 0 and key = "record_key zero_record" and attempt = "\<lparr>ra_AttemptNumber = 1, ra_Timestamp = 0, ra_Duration = 0, ra_Error = [], ra_Success = False\<rparr>",
      OF refl this refl run] show ?thesis by (simp add: run)
qed



text \<open>A flush of status updates does what its items say, in whatever order the groups are visited, as long
  as the batch does not ask for two different statuses of one record: every row of an item has the
  status of that item, every other row is untouched.\<close>

theorem status_flush_exact:
  assumes perm: "mset gs = mset (flush_groups batch)"
    and consistent: "\<And>i j. i \<in> set batch \<Longrightarrow> j \<in> set batch \<Longrightarrow> item_key i = item_key j \<Longrightarrow> item_group i = item_group j"
  shows "\<exists>f. StatusUpdater_flush now batch gs rows = map f rows \<and>
    (\<forall>r. (\<forall>i \<in> set batch. item_key i = record_key r \<longrightarrow> mr_Status (f r) = si_Status i) \<and>
         (record_key r \<notin> item_key ` set batch \<longrightarrow> f r = r))"
proof -
  have mem: "(g, keys) \<in> set gs \<longleftrightarrow> keys \<noteq> [] \<and> keys = map item_key (filter (\<lambda>i. item_group i = g) batch)" for g keys
  proof -
    have "(g, keys) \<in> set gs \<longleftrightarrow> map_of (flush_groups batch) g = Some keys"
      using perm gm_wf_groups [of "[]" batch] by (metis flush_groups_def distinct.simps(1) list.map(1) map_of_eq_Some_iff set_mset_mset)
    then show ?thesis by (auto simp: flush_groups_def group_items Let_def split: if_splits)
  qed
  have in_group: "(\<exists>g \<in> set gs. k \<in> set (snd g)) \<longleftrightarrow> k \<in> item_key ` set batch" for k
  proof
    assume "k \<in> item_key ` set batch"
    then obtain i where "i \<in> set batch" "k = item_key i" by blast
    moreover from this have "(item_group i, map item_key (filter (\<lambda>j. item_group j = item_group i) batch)) \<in> set gs"
      unfolding mem by (auto simp: filter_empty_conv)
    ultimately show "\<exists>g \<in> set gs. k \<in> set (snd g)" by force
  qed (auto simp: mem)
  obtain f where f: "fold (apply_group now) gs rows = map f rows"
      "\<And>r. if \<exists>g \<in> set gs. record_key r \<in> set (snd g) then \<exists>g \<in> set gs. record_key r \<in> set (snd g) \<and> mr_Status (f r) = fst (fst g) else f r = r"
    using apply_groups_row [of now gs rows] by auto
  have "mr_Status (f r) = si_Status i" if "i \<in> set batch" "item_key i = record_key r" for i r
  proof -
    have "record_key r \<in> item_key ` set batch" using that by force
    with f(2) [of r] in_group obtain g keys where g: "(g, keys) \<in> set gs" "record_key r \<in> set keys" "mr_Status (f r) = fst g" by force
    have "keys = map item_key (filter (\<lambda>j. item_group j = g) batch)" using g(1) unfolding mem by (rule conjunct2)
    with g(2) obtain j where j: "j \<in> set batch" "item_group j = g" "item_key j = record_key r" by auto
    have "item_group i = g" using consistent [OF that(1) j(1)] that(2) j(2,3) by simp
    then show ?thesis using g(3) by (auto simp: item_group_def)
  qed
  moreover have "f r = r" if "record_key r \<notin> item_key ` set batch" for r using f(2) [of r] that by (simp add: in_group)
  ultimately show ?thesis
  proof (cases "batch = []")
    case True
    with perm have "gs = []" by (simp add: flush_groups_def)
    with True show ?thesis by (auto simp: StatusUpdater_flush_def intro: exI [of _ id])
  qed (use f(1) in \<open>auto simp: StatusUpdater_flush_def\<close>)
qed

definition demo_item :: "MessageSendStatus \<Rightarrow> FailureReason \<Rightarrow> StatusUpdateItem" where
  "demo_item st reason = \<lparr>si_MessageID = ''m1'', si_Receiver = ''u1'', si_Status = st, si_Reason = reason, si_ErrMsg = []\<rparr>"

lemma status_flush_exact_witness:
  "\<exists>f. StatusUpdater_flush 5 [demo_item StatusSuccess NoReason] (flush_groups [demo_item StatusSuccess NoReason])
      [zero_record\<lparr>mr_MessageID := ''m1'', mr_Receiver := ''u1''\<rparr>] = map f [zero_record\<lparr>mr_MessageID := ''m1'', mr_Receiver := ''u1''\<rparr>] \<and>
    mr_Status (f (zero_record\<lparr>mr_MessageID := ''m1'', mr_Receiver := ''u1''\<rparr>)) = StatusSuccess"
  using status_flush_exact [OF refl, of "[demo_item StatusSuccess NoReason]" 5 "[zero_record\<lparr>mr_MessageID := ''m1'', mr_Receiver := ''u1''\<rparr>]"]
  by (fastforce simp: demo_item_def item_key_def record_key_def)

text \<open>When a batch holds two updates of one record, as after a failed delivery whose message was stored for
  later, the order of the map decides which of them stays, so the earlier one may win.\<close>

theorem status_flush_race:
  "let batch = [demo_item StatusFailed ReasonQueueFull, demo_item StatusUserOffline ReasonUserOffline];
       row = zero_record\<lparr>mr_MessageID := ''m1'', mr_Receiver := ''u1'', mr_Status := StatusSending\<rparr>
   in \<exists>gs gs'. mset gs = mset (flush_groups batch) \<and> mset gs' = mset (flush_groups batch) \<and>
        map mr_Status (StatusUpdater_flush now batch gs [row]) = [StatusUserOffline] \<and>
        map mr_Status (StatusUpdater_flush now batch gs' [row]) = [StatusFailed]"
  unfolding Let_def
  by (intro exI [of _ "flush_groups [demo_item StatusFailed ReasonQueueFull, demo_item StatusUserOffline ReasonUserOffline]"]
      exI [of _ "rev (flush_groups [demo_item StatusFailed ReasonQueueFull, demo_item StatusUserOffline ReasonUserOffline])"])
    (simp add: flush_groups_def group_item_def item_group_def demo_item_def item_key_def StatusUpdater_flush_def apply_group_def
      BatchUpdateStatus_def update_where_def record_key_def set_status_def zero_record_def Let_def)

text \<open>The statistics are exact: the total is the number of rows, every known status and every status that
  occurs is listed with its number of rows, and nothing else is listed.\<close>

theorem statistics_exact:
  assumes "\<And>r. r \<in> set rows \<Longrightarrow> mr_Status r \<noteq> ''total''"
  shows "map_of (GetStatistics rows) st =
    (if st = ''total'' then Some (int (length rows))
     else if st \<in> set record_statuses \<or> st \<in> mr_Status ` set rows then Some (int (length (filter (\<lambda>r. mr_Status r = st) rows))) else None)"
proof -
  define ps where "ps = group_counts rows"
  define s0 :: "(string, int) gomap" where "s0 = fold (\<lambda>st. AList.update st 0) record_statuses []"
  have d: "distinct (map fst ps)" by (simp add: ps_def group_counts_def o_def)
  have m: "map_of ps st = (if st \<in> mr_Status ` set rows then Some (int (length (filter (\<lambda>r. mr_Status r = st) rows))) else None)"
    by (auto simp: ps_def group_counts_def map_of_map_restrict restrict_map_def)
  have s: "sum_list (map snd ps) = int (length rows)"
    using sum_counts [of mr_Status rows] by (simp add: ps_def group_counts_def o_def)
  have z: "map_of s0 st = (if st \<in> set record_statuses then Some 0 else None)"
    by (simp add: s0_def record_statuses_def map_of_update)
  have "filter (\<lambda>r. mr_Status r = st) rows = []" if "st \<notin> mr_Status ` set rows" using that by (auto simp: filter_empty_conv)
  with fold_update_list [OF d, of s0 0 st] m s z show ?thesis
    by (auto simp: GetStatistics_def Let_def s0_def [symmetric] ps_def [symmetric] map_of_update split: prod.splits)
qed

lemma statistics_exact_witness:
  "map_of (GetStatistics [zero_record\<lparr>mr_Status := StatusSending\<rparr>]) StatusSending = Some 1"
  using statistics_exact [of "[zero_record\<lparr>mr_Status := StatusSending\<rparr>]" StatusSending] by simp

text \<open>A retried statement runs at least once and at most three times; all runs before the last ended in a
  conflict, and the answer is that of the last run unless the caller gave up while waiting.\<close>

theorem sql_retry_bounded:
  assumes "execWithSQLRetry cancelled state_of (\<lambda>i. (outs i, Suc i)) 0 = (err, n)"
  shows "1 \<le> n \<and> n \<le> sqlRetryMaxAttempts \<and>
    (\<forall>i < n - 1. \<exists>e. outs i = Some e \<and> isRetryableSQLState (state_of e)) \<and>
    (err = outs (n - 1) \<or> n < sqlRetryMaxAttempts \<and> cancelled n \<noteq> None \<and> err = cancelled n)"
  using assms
  by (auto simp: execWithSQLRetry_def sqlRetryMaxAttempts_def numeral_3_eq_3 Let_def less_Suc_eq split: option.splits if_splits)

lemma sql_retry_bounded_witness:
  "execWithSQLRetry (\<lambda>_. None) Some (\<lambda>i. (if i = 0 then Some ''40001'' else None, Suc i)) 0 = (None, 2) \<and> 2 \<le> sqlRetryMaxAttempts"
proof -
  have run: "execWithSQLRetry (\<lambda>_. None) Some (\<lambda>i. (if i = 0 then Some ''40001'' else None, Suc i)) 0 = (None, 2)"
    by (simp add: execWithSQLRetry_def sqlRetryMaxAttempts_def numeral_3_eq_3 isRetryableSQLState_def Let_def)
  from sql_retry_bounded [OF run] run show ?thesis by simp
qed

end
