(* ===== verification/Delivery.thy ===== *)
theory Delivery
  imports Lifecycle Coalescer Metrics Message_Record Broker
begin

text \<open>
  Local delivery: messaging/client_delivery.go, messaging/delivery_fallback.go, messaging/sse.go, the
  direct path of messaging/dispatcher.go and the overload ports of hub/interfaces.go.

  \<^item> \<open>Node\<close> is what a delivery on one node reads and changes: connections, gate, coalescer, funnel
    counters, the status updates it asked for, and the messages it handed to the offline store.
  \<^item> Contexts only carry trace ids into log lines here, so they do not appear.  \<open>enc\<close> is
    \<open>HubMessage.MarshalJSON\<close> (\<open>None\<close> is an error), \<open>now\<close> the clock.
  \<^item> \<open>StoreOfflineOnDeliveryFailure\<close> stores in a goroutine of its own: the request is recorded here,
    its completion is \<open>offline_settled\<close>.
  \<^item> A status update is a \<open>nd_status\<close> entry; how it reaches the database is the outbox's business.
\<close>

section \<open>State\<close>

record StatusUpdate =
  su_MessageID :: string
  su_Receiver :: string
  su_Status :: MessageSendStatus
  su_Reason :: FailureReason

record Node =
  nd_conn :: ConnState
  nd_gate :: "AdmissionGate option"
  nd_coalescer :: "HubMessage Coalescer option"
  nd_metrics :: OverloadMetrics
  nd_sink :: bool
  nd_status :: "StatusUpdate list"
  nd_offlineHandler :: bool
  nd_offline :: "HubMessage list"
  nd_tracked :: "(string \<times> nat) list"
  nd_statsRepo :: bool
  nd_msgSent :: int
  nd_broadcastSent :: int

abbreviation client_at :: "Node \<Rightarrow> nat \<Rightarrow> Client" where
  "client_at s p \<equiv> cs_heap (nd_conn s) p"

abbreviation guarantee_of :: "Node \<Rightarrow> HubMessage \<Rightarrow> DeliveryGuarantee" where
  "guarantee_of s msg \<equiv> ResolveGuarantee (cs_data (nd_conn s)) msg"

definition metric :: "(OverloadMetrics \<Rightarrow> OverloadMetrics) \<Rightarrow> Node \<Rightarrow> Node" where
  "metric f s = s\<lparr>nd_metrics := f (nd_metrics s)\<rparr>"

text \<open>Run a sending method of the client behind pointer \<open>p\<close>.\<close>

definition client_try :: "nat \<Rightarrow> (Client \<Rightarrow> counters \<Rightarrow> bool \<times> Client \<times> counters) \<Rightarrow> Node \<Rightarrow> bool \<times> Node" where
  "client_try p f s =
     (case f (client_at s p) (cs_ctr (nd_conn s)) of
        (ok, c, ctr) \<Rightarrow> (ok, s\<lparr>nd_conn := (nd_conn s)\<lparr>cs_heap := (cs_heap (nd_conn s))(p := c), cs_ctr := ctr\<rparr>\<rparr>))"

section \<open>Ports of the hub\<close>

definition AdmitMessage :: "HubMessage \<Rightarrow> bool \<Rightarrow> Node \<Rightarrow> AdmitVerdict \<times> Node" where
  "AdmitMessage msg isBroadcast s =
     (let s = metric (RecordAdmitted (guarantee_of s msg)) s
      in case nd_gate s of
           None \<Rightarrow> (VerdictAdmit, s)
         | Some gate \<Rightarrow>
             let verdict = Admit (cs_data (nd_conn s)) gate msg isBroadcast
             in (verdict, metric (RecordAdmissionVerdict verdict) s))"

definition AdmissionOnDelivered :: "Node \<Rightarrow> Node" where
  "AdmissionOnDelivered s =
     (case nd_gate s of None \<Rightarrow> s | Some gate \<Rightarrow> s\<lparr>nd_gate := Some (OnDelivered gate)\<rparr>)"

definition Hub_OnWriteBatch :: "int \<Rightarrow> Node \<Rightarrow> Node" where
  "Hub_OnWriteBatch n s =
     (let s = metric (RecordWriteBatch n) s
      in case nd_gate s of None \<Rightarrow> s | Some gate \<Rightarrow> s\<lparr>nd_gate := Some (OnWriteBatch n gate)\<rparr>)"

definition GetAdmissionLevel :: "Node \<Rightarrow> OverloadLevel" where
  "GetAdmissionLevel s = (case nd_gate s of None \<Rightarrow> LevelNormal | Some gate \<Rightarrow> ag_level gate)"

definition updateMessageStatusAsync :: "string \<Rightarrow> string \<Rightarrow> MessageSendStatus \<Rightarrow> FailureReason \<Rightarrow> Node \<Rightarrow> Node" where
  "updateMessageStatusAsync msgID receiver status reason s =
     (if \<not> nd_sink s then s
      else s\<lparr>nd_status := nd_status s @
             [\<lparr>su_MessageID = msgID, su_Receiver = receiver, su_Status = status, su_Reason = reason\<rparr>]\<rparr>)"

definition report :: "bool \<Rightarrow> string \<Rightarrow> string \<Rightarrow> MessageSendStatus \<Rightarrow> FailureReason \<Rightarrow> Node \<Rightarrow> Node" where
  "report reportStatus msgID receiver status reason s =
     (if reportStatus then updateMessageStatusAsync msgID receiver status reason s else s)"

definition StoreOfflineOnDeliveryFailure :: "HubMessage \<Rightarrow> Node \<Rightarrow> Node" where
  "StoreOfflineOnDeliveryFailure msg s =
     (if \<not> nd_offlineHandler s \<or> hm_Receiver msg = [] then s
      else if hm_Source msg = MessageSourceOffline then s
      else s\<lparr>nd_offline := nd_offline s @ [msg]\<rparr>)"

text \<open>The goroutine behind it, when the store has answered.\<close>

datatype store_answer = Stored | StoreSkipped | StoreFailed

definition offline_settled :: "store_answer \<Rightarrow> HubMessage \<Rightarrow> Node \<Rightarrow> Node" where
  "offline_settled answer msg s =
     (if answer = Stored
      then updateMessageStatusAsync (hm_MessageID msg) (hm_Receiver msg) StatusUserOffline ReasonUserOffline s
      else s)"

section \<open>Delivery to one connection\<close>

definition message_id :: "HubMessage \<Rightarrow> string" where
  "message_id msg = (if hm_MessageID msg \<noteq> [] then hm_MessageID msg else hm_ID msg)"

definition send_coalesced :: "bool \<Rightarrow> nat \<Rightarrow> HubMessage \<Rightarrow> HubMessage Coalescer \<Rightarrow> Node \<Rightarrow> bool \<times> Node" where
  "send_coalesced reportStatus p msg coalescer s =
     (let s = metric (RecordAdmitted GuaranteeEphemeral) s
      in case Coalescer_Offer \<lparr>ek_UserID = cl_UserID (client_at s p), ek_MessageType = hm_MessageType msg\<rparr> (Some msg) coalescer of
           ((accepted, merged), coalescer) \<Rightarrow>
             if accepted then
               (True, (if merged then metric RecordEphemeralMerged else id) (s\<lparr>nd_coalescer := Some coalescer\<rparr>))
             else (False, report reportStatus (message_id msg) (hm_Receiver msg) StatusFailed ReasonQueueFull
                            (metric RecordEphemeralDrop (s\<lparr>nd_coalescer := Some coalescer\<rparr>))))"

definition send_sse :: "bool \<Rightarrow> int \<Rightarrow> nat \<Rightarrow> HubMessage \<Rightarrow> Node \<Rightarrow> bool \<times> Node" where
  "send_sse reportStatus now p msg s =
     (case client_try p (\<lambda>c ctr. case TrySendSSE msg c ctr of (ok, c, ctr) \<Rightarrow> (ok, if ok then SetLastSeen now c else c, ctr)) s of
        (True, s) \<Rightarrow> (True, report reportStatus (message_id msg) (hm_Receiver msg) StatusSuccess NoReason s)
      | (False, s) \<Rightarrow> (False, report reportStatus (message_id msg) (hm_Receiver msg) StatusFailed ReasonQueueFull s))"

definition send_ws :: "(HubMessage \<Rightarrow> frame option) \<Rightarrow> bool \<Rightarrow> nat \<Rightarrow> HubMessage \<Rightarrow> frame option \<Rightarrow> Node \<Rightarrow> bool \<times> Node" where
  "send_ws enc reportStatus p msg preSerialized s =
     (case (if preSerialized \<noteq> None then preSerialized else enc msg) of
        None \<Rightarrow> (False, report reportStatus (message_id msg) (hm_Receiver msg) StatusFailed ReasonUnknown s)
      | Some data \<Rightarrow>
          (case client_try p (TrySend data) s of
             (True, s) \<Rightarrow>
               let s = report reportStatus (message_id msg) (hm_Receiver msg) StatusSuccess NoReason s;
                   s = AdmissionOnDelivered (metric (RecordRealtime (guarantee_of s msg)) s)
               in (True, s\<lparr>nd_tracked := nd_tracked s @ [(cl_ID (client_at s p), length data)]\<rparr>)
           | (False, s) \<Rightarrow> (False, report reportStatus (message_id msg) (hm_Receiver msg) StatusFailed ReasonQueueFull s)))"

definition sendToClientCore :: "(HubMessage \<Rightarrow> frame option) \<Rightarrow> int \<Rightarrow> nat \<Rightarrow> HubMessage \<Rightarrow> frame option \<Rightarrow> bool \<Rightarrow> Node \<Rightarrow> bool \<times> Node" where
  "sendToClientCore enc now p msg preSerialized reportStatus s =
     (if cl_closed (client_at s p) then (False, s)
      else case (if guarantee_of s msg = GuaranteeEphemeral \<and> cl_ConnectionType (client_at s p) \<noteq> ConnectionTypeSSE
                 then nd_coalescer s else None) of
             Some coalescer \<Rightarrow> send_coalesced reportStatus p msg coalescer s
           | None \<Rightarrow>
               (case AdmitMessage msg False s of
                  (verdict, s) \<Rightarrow>
                    if verdict \<noteq> VerdictAdmit
                    then (False, report reportStatus (message_id msg) (hm_Receiver msg) StatusFailed ReasonQueueFull s)
                    else if cl_ConnectionType (client_at s p) = ConnectionTypeSSE then send_sse reportStatus now p msg s
                    else send_ws enc reportStatus p msg preSerialized s))"

definition TryDeliverToClient :: "(HubMessage \<Rightarrow> frame option) \<Rightarrow> int \<Rightarrow> nat \<Rightarrow> HubMessage \<Rightarrow> frame option \<Rightarrow> Node \<Rightarrow> bool \<times> Node" where
  "TryDeliverToClient enc now p msg data s = sendToClientCore enc now p msg data True s"

definition SendToClientSerialized :: "(HubMessage \<Rightarrow> frame option) \<Rightarrow> int \<Rightarrow> nat \<Rightarrow> HubMessage \<Rightarrow> frame option \<Rightarrow> Node \<Rightarrow> bool \<times> Node" where
  "SendToClientSerialized enc now p msg preSerialized s =
     (case TryDeliverToClient enc now p msg preSerialized s of
        (True, s) \<Rightarrow> (True, s)
      | (False, s) \<Rightarrow>
          (False, if guarantee_of s msg = GuaranteeEphemeral then metric RecordEphemeralDrop s
                  else StoreOfflineOnDeliveryFailure msg s))"

definition SendToClient :: "(HubMessage \<Rightarrow> frame option) \<Rightarrow> int \<Rightarrow> nat \<Rightarrow> HubMessage \<Rightarrow> Node \<Rightarrow> Node" where
  "SendToClient enc now p msg s = snd (SendToClientSerialized enc now p msg None s)"

definition SendToAllClientsInMap :: "(HubMessage \<Rightarrow> frame option) \<Rightarrow> int \<Rightarrow> nat list \<Rightarrow> HubMessage \<Rightarrow> Node \<Rightarrow> Node" where
  "SendToAllClientsInMap enc now clients msg s =
     fold (\<lambda>p s. snd (SendToClientSerialized enc now p msg (enc msg) s)) clients s"

section \<open>Fallback of the fan-out\<close>

definition routeDeliveryFallback :: "HubMessage option \<Rightarrow> nat option \<Rightarrow> string \<Rightarrow> DeliveryGuarantee \<Rightarrow> Node \<Rightarrow> FallbackAction \<times> Node" where
  "routeDeliveryFallback msg client targetUserID guarantee s =
     (case msg of
        None \<Rightarrow> (FallbackNone, s)
      | Some m \<Rightarrow>
          if guarantee = GuaranteeEphemeral then (FallbackEphemeralDrop, metric RecordEphemeralDrop s)
          else let userID = (if targetUserID = [] then (case client of None \<Rightarrow> [] | Some p \<Rightarrow> cl_UserID (client_at s p))
                             else targetUserID)
               in if userID = [] then (FallbackNone, metric (RecordUnrecoverable guarantee) s)
                  else if \<not> nd_offlineHandler s then (FallbackNone, metric (RecordUnrecoverable guarantee) s)
                  else let (h, offlineMsg) =
                             (if hm_Receiver m = []
                              then case Clone (cs_data (nd_conn s)) m of (h, m') \<Rightarrow> (h, m'\<lparr>hm_Receiver := userID\<rparr>)
                              else (cs_data (nd_conn s), m));
                           s = s\<lparr>nd_conn := (nd_conn s)\<lparr>cs_data := h\<rparr>\<rparr>
                       in (FallbackOffline, metric (RecordOfflineFallback guarantee) (StoreOfflineOnDeliveryFailure offlineMsg s)))"

definition TrySendWithFallback :: "nat option \<Rightarrow> frame \<Rightarrow> HubMessage option \<Rightarrow> DeliveryGuarantee \<Rightarrow> Node \<Rightarrow> bool \<times> Node" where
  "TrySendWithFallback client data msg guarantee s =
     (case client of
        None \<Rightarrow> (False, s)
      | Some p \<Rightarrow>
          (case client_try p (TrySend data) s of
             (True, s) \<Rightarrow> (True, AdmissionOnDelivered (if msg \<noteq> None then metric (RecordRealtime guarantee) s else s))
           | (False, s) \<Rightarrow> (False, snd (routeDeliveryFallback msg client [] guarantee s))))"

section \<open>Delivery to the connections of a user\<close>

text \<open>The loop of \<open>syncToSenderDevices\<close>: number of devices, and those other than the sending one.\<close>

definition sender_devices :: "(string \<Rightarrow> nat) \<Rightarrow> HubMessage \<Rightarrow> Node \<Rightarrow> nat \<times> nat list" where
  "sender_devices sh msg s =
     ForEachUserClientFiltered sh (cs_heap (nd_conn s)) (hm_Sender msg) (hm_AppID msg) (hm_Namespace msg)
       (\<lambda>_ p (n, others). (True, n + 1, if cl_ID (client_at s p) \<noteq> hm_SenderClient msg then others @ [p] else others))
       (cs_reg (nd_conn s)) (0, [])"

definition syncToSenderDevices :: "(string \<Rightarrow> nat) \<Rightarrow> (HubMessage \<Rightarrow> frame option) \<Rightarrow> int \<Rightarrow> HubMessage \<Rightarrow> frame option \<Rightarrow> Node \<Rightarrow> Node" where
  "syncToSenderDevices sh enc now msg data s =
     (if hm_Sender msg = [] then s
      else case sender_devices sh msg s of
             (deviceCount, otherDevices) \<Rightarrow>
               if deviceCount \<le> 1 \<or> otherDevices = [] then s
               else case (if data = None then enc msg else data) of
                      None \<Rightarrow> s
                    | Some bytes \<Rightarrow>
                        fold (\<lambda>p s. snd (sendToClientCore enc now p msg (Some bytes) False s)) otherDevices s)"

definition deliver_devices :: "(string \<Rightarrow> nat) \<Rightarrow> (HubMessage \<Rightarrow> frame option) \<Rightarrow> int \<Rightarrow> HubMessage \<Rightarrow> frame option \<Rightarrow> Node \<Rightarrow> int \<times> Node" where
  "deliver_devices sh enc now msg data s =
     (if hm_ReceiverClient msg \<noteq> [] then
        (case GetClient sh (hm_ReceiverClient msg) (cs_reg (nd_conn s)) of
           None \<Rightarrow> (0, s)
         | Some p \<Rightarrow>
             if (hm_Namespace msg = [] \<or> cl_Namespace (client_at s p) = hm_Namespace msg) \<and>
                cl_UserID (client_at s p) = hm_Receiver msg \<and>
                ClientMatchesEnvelope (client_at s p) (NormalizeAppID (hm_AppID msg)) (hm_Namespace msg)
             then (case TryDeliverToClient enc now p msg data s of (ok, s) \<Rightarrow> (if ok then 1 else 0, s))
             else (0, s))
      else ForEachUserClientFiltered sh (cs_heap (nd_conn s)) (hm_Receiver msg) (hm_AppID msg) (hm_Namespace msg)
             (\<lambda>_ p (sent, s). case TryDeliverToClient enc now p msg data s of (ok, s) \<Rightarrow> (True, if ok then sent + 1 else sent, s))
             (cs_reg (nd_conn s)) (0, s))"

definition handleDirectMessage :: "(string \<Rightarrow> nat) \<Rightarrow> (HubMessage \<Rightarrow> frame option) \<Rightarrow> int \<Rightarrow> HubMessage \<Rightarrow> frame option \<Rightarrow> Node \<Rightarrow> int \<times> Node" where
  "handleDirectMessage sh enc now msg data s =
     (let data = (if data = None then enc msg else data)
      in case deliver_devices sh enc now msg data s of
           (sent, s) \<Rightarrow>
             let s = (if sent > 0 \<and> nd_statsRepo s then s\<lparr>nd_msgSent := nd_msgSent s + 1\<rparr> else s);
                 s = (if hm_Sender msg \<noteq> [] \<and> hm_SenderClient msg \<noteq> [] \<and> length (slice (hm_GroupIDs msg)) = 0
                      then syncToSenderDevices sh enc now msg data s else s)
             in (sent, s))"

section \<open>Server-sent events\<close>

definition sse_send :: "int \<Rightarrow> nat \<Rightarrow> HubMessage \<Rightarrow> Node \<Rightarrow> bool \<times> Node" where
  "sse_send now p msg s =
     client_try p (\<lambda>c ctr. case TrySendSSE msg c ctr of (ok, c, ctr) \<Rightarrow> (ok, if ok then SetLastSeen now c else c, ctr)) s"

definition SendToUserViaSSE :: "(string \<Rightarrow> nat) \<Rightarrow> int \<Rightarrow> string \<Rightarrow> HubMessage option \<Rightarrow> Node \<Rightarrow> bool \<times> Node" where
  "SendToUserViaSSE sh now userID msg s =
     (case msg of
        None \<Rightarrow> (False, s)
      | Some m \<Rightarrow>
          if \<not> HasSSEUser sh userID (cs_reg (nd_conn s)) then (False, s)
          else case ForEachSSEUserClient sh userID
                      (\<lambda>_ p (successCount, s).
                         if hm_Namespace m \<noteq> [] \<and> cl_Namespace (client_at s p) \<noteq> hm_Namespace m then (True, successCount, s)
                         else case sse_send now p m s of (ok, s) \<Rightarrow> (True, if ok then successCount + 1 else successCount, s))
                      (cs_reg (nd_conn s)) (0 :: nat, s) of
                 (successCount, s) \<Rightarrow> (successCount > 0, s))"

definition BroadcastToSSEClients :: "('md GoContext \<Rightarrow> string) \<Rightarrow> 'md GoContext \<Rightarrow> int \<Rightarrow> HubMessage option \<Rightarrow> Node \<Rightarrow> Node" where
  "BroadcastToSSEClients extractTraceID hostctx now msg s =
     (case msg of
        None \<Rightarrow> s
      | Some m \<Rightarrow>
          let m = fst (InjectRoute extractTraceID hostctx m)
          in ForEachSSEClient
               (\<lambda>_ _ p s. (True, if \<not> ClientMatchesEnvelope (client_at s p) (hm_AppID m) (hm_Namespace m) then s
                                else snd (sse_send now p m s)))
               (cs_reg (nd_conn s)) s)"

section \<open>Broadcast\<close>

definition broadcast_one :: "frame \<Rightarrow> HubMessage \<Rightarrow> DeliveryGuarantee \<Rightarrow> nat \<Rightarrow> int \<times> int \<times> Node \<Rightarrow> int \<times> int \<times> Node" where
  "broadcast_one data msg guarantee p st =
     (case st of (successCount, failCount, s) \<Rightarrow>
        if cl_closed (client_at s p) \<or> cl_ConnectionType (client_at s p) = ConnectionTypeSSE then st
        else case TrySendWithFallback (Some p) data (Some msg) guarantee s of
               (True, s) \<Rightarrow> (successCount + 1, failCount, s\<lparr>nd_tracked := nd_tracked s @ [(cl_ID (client_at s p), length data)]\<rparr>)
             | (False, s) \<Rightarrow> (successCount, failCount + 1, s))"

definition doBroadcastMessage :: "(HubMessage \<Rightarrow> frame option) \<Rightarrow> ('md GoContext \<Rightarrow> string) \<Rightarrow> 'md GoContext \<Rightarrow> int
    \<Rightarrow> HubMessage \<Rightarrow> Node \<Rightarrow> int \<times> int \<times> Node" where
  "doBroadcastMessage enc extractTraceID hostctx now msg s =
     (let s = (if nd_statsRepo s then s\<lparr>nd_broadcastSent := nd_broadcastSent s + 1\<rparr> else s)
      in case enc msg of
           None \<Rightarrow> (0, 0, s)
         | Some data \<Rightarrow>
             (case ForEachClientFiltered (cs_heap (nd_conn s)) (hm_AppID msg) (hm_Namespace msg)
                     (\<lambda>_ p st. (True, broadcast_one data msg (guarantee_of s msg) p st)) (cs_reg (nd_conn s)) (0, 0, s) of
                (successCount, failCount, s) \<Rightarrow>
                  let s = (if successCount > 0 then updateMessageStatusAsync (message_id msg) [] StatusSuccess NoReason s else s)
                  in (successCount, failCount, BroadcastToSSEClients extractTraceID hostctx now (Some msg) s)))"

section \<open>Normalising what a client sent\<close>

definition normalizeMessageFields :: "string \<Rightarrow> int \<Rightarrow> Client \<Rightarrow> HubMessage \<Rightarrow> HubMessage" where
  "normalizeMessageFields snowflakeId now client msg =
     (let msg = msg\<lparr>hm_Sender := (if hm_Sender msg = [] then cl_UserID client else hm_Sender msg),
                    hm_SenderType := (if hm_SenderType msg = [] then cl_UserType client else hm_SenderType msg),
                    hm_SenderClient := (if hm_SenderClient msg = [] then cl_ID client else hm_SenderClient msg),
                    hm_CreateAt := (if hm_CreateAt msg = 0 then now else hm_CreateAt msg),
                    hm_MessageType := (if hm_MessageType msg = [] then MessageTypeText else hm_MessageType msg)\<rparr>
      in if hm_ID msg = [] then msg\<lparr>hm_ID := cl_UserID client @ ''-'' @ snowflakeId\<rparr> else msg)"

section \<open>What a delivery changes\<close>

text \<open>Everything but the connection \<open>p\<close>, the coalescer and the bookkeeping stays as it is.\<close>

definition only_client :: "nat \<Rightarrow> Node \<Rightarrow> Node \<Rightarrow> bool" where
  "only_client p s s' \<longleftrightarrow>
     cs_reg (nd_conn s') = cs_reg (nd_conn s) \<and> cs_data (nd_conn s') = cs_data (nd_conn s) \<and>
     cs_trace (nd_conn s') = cs_trace (nd_conn s) \<and> nd_offlineHandler s' = nd_offlineHandler s \<and>
     (\<forall>q. q \<noteq> p \<longrightarrow> client_at s' q = client_at s q)"

definition lanes_same :: "Client \<Rightarrow> Client \<Rightarrow> bool" where
  "lanes_same c c' \<longleftrightarrow> cl_SendChan c' = cl_SendChan c \<and> cl_SSEMessageCh c' = cl_SSEMessageCh c"

text \<open>The three ways a connection can take a message.\<close>

definition accepted_by :: "(HubMessage \<Rightarrow> frame option) \<Rightarrow> nat \<Rightarrow> HubMessage \<Rightarrow> frame option \<Rightarrow> Node \<Rightarrow> Node \<Rightarrow> bool" where
  "accepted_by enc p msg data s s' \<longleftrightarrow>
     (\<exists>co. nd_coalescer s' = Some co \<and> nd_conn s' = nd_conn s \<and>
        co_abs co \<lparr>ek_UserID = cl_UserID (client_at s p), ek_MessageType = hm_MessageType msg\<rparr> = Some msg) \<or>
     (\<exists>ch ch'. cl_SSEMessageCh (client_at s p) = Some ch \<and> cl_SSEMessageCh (client_at s' p) = Some ch' \<and>
        ch_buf ch' = ch_buf ch @ [msg]) \<or>
     (\<exists>ch ch' bytes. (if data = None then enc msg else data) = Some bytes \<and> cl_SendChan (client_at s p) = Some ch \<and>
        cl_SendChan (client_at s' p) = Some ch' \<and> ch_buf ch' = ch_buf ch @ [bytes])"

lemma metric_simps [simp]:
  "nd_conn (metric f s) = nd_conn s" "nd_gate (metric f s) = nd_gate s" "nd_coalescer (metric f s) = nd_coalescer s"
  "nd_metrics (metric f s) = f (nd_metrics s)" "nd_offline (metric f s) = nd_offline s"
  "nd_offlineHandler (metric f s) = nd_offlineHandler s" "nd_status (metric f s) = nd_status s" "nd_sink (metric f s) = nd_sink s"
  by (simp_all add: metric_def)

lemma report_simps [simp]:
  "nd_conn (report b i r st fr s) = nd_conn s" "nd_gate (report b i r st fr s) = nd_gate s"
  "nd_coalescer (report b i r st fr s) = nd_coalescer s" "nd_metrics (report b i r st fr s) = nd_metrics s"
  "nd_offline (report b i r st fr s) = nd_offline s" "nd_offlineHandler (report b i r st fr s) = nd_offlineHandler s"
  "report False i r st fr s = s"
  by (simp_all add: report_def updateMessageStatusAsync_def)

lemma delivered_simps [simp]:
  "nd_conn (AdmissionOnDelivered s) = nd_conn s" "nd_metrics (AdmissionOnDelivered s) = nd_metrics s"
  "nd_coalescer (AdmissionOnDelivered s) = nd_coalescer s" "nd_offline (AdmissionOnDelivered s) = nd_offline s"
  "nd_offlineHandler (AdmissionOnDelivered s) = nd_offlineHandler s" "nd_status (AdmissionOnDelivered s) = nd_status s"
  by (simp_all add: AdmissionOnDelivered_def split: option.splits)

lemma AdmitMessage_simps:
  assumes "AdmitMessage msg b s = (v, s')"
  shows "nd_conn s' = nd_conn s" "nd_coalescer s' = nd_coalescer s" "nd_offline s' = nd_offline s"
    "nd_offlineHandler s' = nd_offlineHandler s" "nd_status s' = nd_status s" "nd_sink s' = nd_sink s" "nd_gate s' = nd_gate s"
  using assms by (auto simp: AdmitMessage_def Let_def split: option.splits)

lemma client_try_simps:
  assumes "client_try p f s = (ok, s')"
  shows "only_client p s s'" "nd_coalescer s' = nd_coalescer s" "nd_offline s' = nd_offline s" "nd_metrics s' = nd_metrics s"
    "nd_offlineHandler s' = nd_offlineHandler s" "nd_status s' = nd_status s" "nd_gate s' = nd_gate s" "nd_sink s' = nd_sink s"
    "\<exists>ctr. f (client_at s p) (cs_ctr (nd_conn s)) = (ok, client_at s' p, ctr)"
  using assms by (auto simp: client_try_def only_client_def split: prod.splits)

lemma only_client_refl [simp]: "only_client p s s"
  by (simp add: only_client_def)

lemma only_client_trans: "only_client p s t \<Longrightarrow> only_client p t u \<Longrightarrow> only_client p s u"
  by (simp add: only_client_def)

lemma only_client_conn: "nd_conn s' = nd_conn t \<Longrightarrow> nd_offlineHandler s' = nd_offlineHandler t \<Longrightarrow> only_client p s t \<Longrightarrow> only_client p s s'"
  by (simp add: only_client_def)

lemma try_send_lane:
  assumes "TrySend data c ctr = (ok, c', ctr')" and "0 \<le> cl_pendingWrites c"
  shows "ok \<Longrightarrow> \<exists>ch ch'. cl_SendChan c = Some ch \<and> cl_SendChan c' = Some ch' \<and> ch_buf ch' = ch_buf ch @ [data]"
    "\<not> ok \<Longrightarrow> lanes_same c c'" "0 \<le> cl_pendingWrites c'"
  using assms by (auto simp: try_send_spec lanes_same_def split: option.splits if_splits)

lemma try_sse_lane:
  assumes "(case TrySendSSE msg c ctr of (ok, c, ctr) \<Rightarrow> (ok, if ok then SetLastSeen now c else c, ctr)) = (ok, c', ctr')"
    and "0 \<le> cl_pendingWrites c"
  shows "ok \<Longrightarrow> \<exists>ch ch'. cl_SSEMessageCh c = Some ch \<and> cl_SSEMessageCh c' = Some ch' \<and> ch_buf ch' = ch_buf ch @ [msg]"
    "\<not> ok \<Longrightarrow> lanes_same c c'" "0 \<le> cl_pendingWrites c'"
  using assms
  by (auto simp: TrySendSSE_def try_send_def lanes_same_def mark_closed_eq SetLastSeen_def split: option.splits if_splits)

lemma send_coalesced_outcome:
  assumes "send_coalesced r p msg co s = (ok, s')"
  shows "nd_conn s' = nd_conn s" "nd_offline s' = nd_offline s" "nd_offlineHandler s' = nd_offlineHandler s"
    "ok \<Longrightarrow> accepted_by enc p msg data s s'" "\<not> r \<Longrightarrow> nd_status s' = nd_status s"
proof -
  let ?k = "\<lparr>ek_UserID = cl_UserID (client_at s p), ek_MessageType = hm_MessageType msg\<rparr>"
  obtain accepted merged co' where offer: "Coalescer_Offer ?k (Some msg) co = ((accepted, merged), co')"
    by (cases "Coalescer_Offer ?k (Some msg) co") auto
  show "nd_conn s' = nd_conn s" "nd_offline s' = nd_offline s" "nd_offlineHandler s' = nd_offlineHandler s"
    "\<not> r \<Longrightarrow> nd_status s' = nd_status s"
    using assms offer by (auto simp: send_coalesced_def Let_def split: if_splits)
  assume ok
  with assms offer have "accepted" and s': "nd_coalescer s' = Some co'" "nd_conn s' = nd_conn s"
    by (auto simp: send_coalesced_def Let_def split: if_splits)
  then have "co_abs co' ?k = Some msg"
    using Offer_abs [of ?k msg co] offer Offer_result [of ?k msg co] by (auto split: if_splits)
  with s' show "accepted_by enc p msg data s s'" by (auto simp: accepted_by_def)
qed

lemma send_sse_outcome:
  assumes run: "send_sse r now p msg s = (ok, s')" and pend: "0 \<le> cl_pendingWrites (client_at s p)"
  shows "only_client p s s'" "nd_offline s' = nd_offline s" "ok \<Longrightarrow> accepted_by enc p msg data s s'"
    "\<not> ok \<Longrightarrow> lanes_same (client_at s p) (client_at s' p)" "0 \<le> cl_pendingWrites (client_at s' p)"
    "\<not> r \<Longrightarrow> nd_status s' = nd_status s"
proof -
  let ?f = "\<lambda>c ctr. case TrySendSSE msg c ctr of (ok, c, ctr) \<Rightarrow> (ok, if ok then SetLastSeen now c else c, ctr)"
  obtain t where att: "client_try p ?f s = (ok, t)" and s': "nd_conn s' = nd_conn t" "nd_offlineHandler s' = nd_offlineHandler t"
      "nd_offline s' = nd_offline t" "\<not> r \<Longrightarrow> nd_status s' = nd_status t"
    using run by (auto simp: send_sse_def split: prod.splits bool.splits)
  note c = client_try_simps [OF att]
  from c(9) obtain ctr where f: "?f (client_at s p) (cs_ctr (nd_conn s)) = (ok, client_at t p, ctr)" by blast
  show "only_client p s s'" using s'(1,2) c(1) by (rule only_client_conn)
  show "nd_offline s' = nd_offline s" "\<not> r \<Longrightarrow> nd_status s' = nd_status s" using s' c by simp_all
  show "ok \<Longrightarrow> accepted_by enc p msg data s s'" "\<not> ok \<Longrightarrow> lanes_same (client_at s p) (client_at s' p)"
    "0 \<le> cl_pendingWrites (client_at s' p)"
    using try_sse_lane [OF f pend] s'(1) by (auto simp: accepted_by_def)
qed

lemma send_ws_outcome:
  assumes run: "send_ws enc r p msg data s = (ok, s')" and pend: "0 \<le> cl_pendingWrites (client_at s p)"
  shows "only_client p s s'" "nd_offline s' = nd_offline s" "ok \<Longrightarrow> accepted_by enc p msg data s s'"
    "\<not> ok \<Longrightarrow> lanes_same (client_at s p) (client_at s' p)" "0 \<le> cl_pendingWrites (client_at s' p)"
    "\<not> r \<Longrightarrow> nd_status s' = nd_status s"
proof -
  have "only_client p s s' \<and> nd_offline s' = nd_offline s \<and> (ok \<longrightarrow> accepted_by enc p msg data s s') \<and>
    (\<not> ok \<longrightarrow> lanes_same (client_at s p) (client_at s' p)) \<and> 0 \<le> cl_pendingWrites (client_at s' p) \<and>
    (\<not> r \<longrightarrow> nd_status s' = nd_status s)"
  proof (cases "if data = None then enc msg else data")
    case None
    with run pend show ?thesis
      by (auto simp: send_ws_def only_client_def lanes_same_def split: if_splits)
  next
    case (Some bytes)
    then obtain t where att: "client_try p (TrySend bytes) s = (ok, t)" and s': "nd_conn s' = nd_conn t"
        "nd_offlineHandler s' = nd_offlineHandler t" "nd_offline s' = nd_offline t" "\<not> r \<Longrightarrow> nd_status s' = nd_status t"
      using run by (auto simp: send_ws_def Let_def split: prod.splits bool.splits if_splits)
    note c = client_try_simps [OF att]
    from c(9) obtain ctr where f: "TrySend bytes (client_at s p) (cs_ctr (nd_conn s)) = (ok, client_at t p, ctr)" by blast
    have "only_client p s s'" using s'(1,2) c(1) by (rule only_client_conn)
    with try_send_lane [OF f pend] s' c Some show ?thesis by (auto simp: accepted_by_def)
  qed
  then show "only_client p s s'" "nd_offline s' = nd_offline s" "ok \<Longrightarrow> accepted_by enc p msg data s s'"
    "\<not> ok \<Longrightarrow> lanes_same (client_at s p) (client_at s' p)" "0 \<le> cl_pendingWrites (client_at s' p)"
    "\<not> r \<Longrightarrow> nd_status s' = nd_status s" by auto
qed

lemma core_outcome:
  assumes run: "sendToClientCore enc now p msg data r s = (ok, s')" and pend: "0 \<le> cl_pendingWrites (client_at s p)"
  shows "only_client p s s' \<and> nd_offline s' = nd_offline s \<and> (ok \<longrightarrow> accepted_by enc p msg data s s') \<and>
    (\<not> ok \<longrightarrow> lanes_same (client_at s p) (client_at s' p)) \<and> 0 \<le> cl_pendingWrites (client_at s' p) \<and>
    (\<not> r \<longrightarrow> nd_status s' = nd_status s)"
proof (cases "cl_closed (client_at s p)")
  case True
  with run pend show ?thesis by (auto simp: sendToClientCore_def lanes_same_def)
next
  case opened: False
  let ?co = "if guarantee_of s msg = GuaranteeEphemeral \<and> cl_ConnectionType (client_at s p) \<noteq> ConnectionTypeSSE
    then nd_coalescer s else None"
  show ?thesis
  proof (cases ?co)
    case (Some co)
    with run opened have "send_coalesced r p msg co s = (ok, s')" by (simp add: sendToClientCore_def)
    note c = send_coalesced_outcome [OF this]
    from c(1,3) have "only_client p s s'" by (simp add: only_client_def)
    with c pend show ?thesis by (auto simp: lanes_same_def)
  next
    case None
    obtain v t where adm: "AdmitMessage msg False s = (v, t)" by (cases "AdmitMessage msg False s")
    note a = AdmitMessage_simps [OF adm]
    have st: "only_client p s t" using a by (simp add: only_client_def)
    have acc: "accepted_by enc p msg data t s' \<Longrightarrow> accepted_by enc p msg data s s'" using a(1) by (simp add: accepted_by_def)
    consider "v \<noteq> VerdictAdmit" "ok = False" "nd_conn s' = nd_conn t" "nd_offlineHandler s' = nd_offlineHandler t"
        "nd_offline s' = nd_offline t" "\<not> r \<longrightarrow> nd_status s' = nd_status t"
      | "send_sse r now p msg t = (ok, s')" | "send_ws enc r p msg data t = (ok, s')"
      using run opened None adm by (auto simp: sendToClientCore_def split: if_splits)
    then show ?thesis
    proof cases
      case 1
      with a st pend show ?thesis by (auto simp: only_client_def lanes_same_def)
    next
      case 2
      have "0 \<le> cl_pendingWrites (client_at t p)" using pend a by simp
      note o = send_sse_outcome [OF 2 this]
      from o a st acc show ?thesis by (auto intro: only_client_trans)
    next
      case 3
      have "0 \<le> cl_pendingWrites (client_at t p)" using pend a by simp
      note o = send_ws_outcome [OF 3 this]
      from o a st acc show ?thesis by (auto intro: only_client_trans)
    qed
  qed
qed

definition coalesces :: "nat \<Rightarrow> HubMessage \<Rightarrow> Node \<Rightarrow> bool" where
  "coalesces p msg s \<longleftrightarrow> \<not> cl_closed (client_at s p) \<and> guarantee_of s msg = GuaranteeEphemeral \<and>
     cl_ConnectionType (client_at s p) \<noteq> ConnectionTypeSSE \<and> nd_coalescer s \<noteq> None"

abbreviation drops :: "Node \<Rightarrow> int" where
  "drops s \<equiv> om_ephemeralDropped (nd_metrics s)"

lemma drops_record [simp]:
  "om_ephemeralDropped (RecordAdmitted g m) = om_ephemeralDropped m" "om_ephemeralDropped (RecordRealtime g m) = om_ephemeralDropped m"
  "om_ephemeralDropped (RecordEphemeralMerged m) = om_ephemeralDropped m"
  "om_ephemeralDropped (RecordAdmissionVerdict v m) = om_ephemeralDropped m"
  "om_ephemeralDropped (RecordEphemeralDrop m) = om_ephemeralDropped m + 1"
  "om_ephemeralDropped (RecordOfflineFallback g m) = om_ephemeralDropped m" "om_ephemeralDropped (RecordUnrecoverable g m) = om_ephemeralDropped m"
  by (auto simp: record_defs split: AdmitVerdict.splits)

lemma core_drops:
  assumes run: "sendToClientCore enc now p msg data r s = (ok, s')"
  shows "drops s' = drops s + (if coalesces p msg s \<and> \<not> ok then 1 else 0)"
proof (cases "coalesces p msg s")
  case True
  then obtain co where co: "nd_coalescer s = Some co" by (auto simp: coalesces_def)
  with True run have "send_coalesced r p msg co s = (ok, s')" by (simp add: sendToClientCore_def coalesces_def)
  then show ?thesis using True by (auto simp: send_coalesced_def Let_def split: prod.splits if_splits)
next
  case False
  obtain v t where adm: "AdmitMessage msg False s = (v, t)" by (cases "AdmitMessage msg False s")
  then have t: "drops t = drops s" by (auto simp: AdmitMessage_def Let_def split: option.splits)
  have sse: "drops u' = drops u" if "send_sse r now p msg u = (ok, u')" for u u'
    using that client_try_simps(4) by (auto simp: send_sse_def split: prod.splits bool.splits)
  have ws: "drops u' = drops u" if "send_ws enc r p msg data u = (ok, u')" for u u'
    using that client_try_simps(4) by (auto simp: send_ws_def Let_def split: option.splits prod.splits bool.splits if_splits)
  show ?thesis
    using run False adm t by (auto simp: sendToClientCore_def coalesces_def split: if_splits option.splits dest!: sse ws)
qed

text \<open>Sending never changes who a connection belongs to.\<close>

definition ident :: "Client \<Rightarrow> string \<times> string \<times> string \<times> string" where
  "ident c = (cl_ID c, cl_UserID c, cl_AppID c, cl_Namespace c)"

lemma ident_send:
  "TrySend data c ctr = (ok, c', ctr') \<Longrightarrow> ident c' = ident c"
  "(case TrySendSSE msg c ctr of (ok, c, ctr) \<Rightarrow> (ok, if ok then SetLastSeen now c else c, ctr)) = (ok, c', ctr') \<Longrightarrow> ident c' = ident c"
  by (auto simp: TrySend_def TrySendSSE_def try_send_def ident_def CompletePendingWrites_def MarkClosed_def SetLastSeen_def Let_def
      split: option.splits if_splits prod.splits)

lemma ident_try:
  assumes "client_try p f s = (ok, s')" and "\<And>c ctr ok c' ctr'. f c ctr = (ok, c', ctr') \<Longrightarrow> ident c' = ident c"
  shows "ident (client_at s' q) = ident (client_at s q)"
proof (cases "q = p")
  case True
  from client_try_simps(9) [OF assms(1)] assms(2) show ?thesis by (auto simp: True)
next
  case False
  with client_try_simps(1) [OF assms(1)] show ?thesis by (simp add: only_client_def)
qed

lemma core_ident:
  assumes run: "sendToClientCore enc now p msg data r s = (ok, s')"
  shows "ident (client_at s' q) = ident (client_at s q)"
proof -
  have sse: "ident (client_at u' q) = ident (client_at u q)" if "send_sse r now p msg u = (ok, u')" for u u'
    using that by (auto simp: send_sse_def split: prod.splits bool.splits dest!: ident_try [OF _ ident_send(2)])
  have ws: "ident (client_at u' q) = ident (client_at u q)" if "send_ws enc r p msg data u = (ok, u')" for u u'
    using that by (auto simp: send_ws_def Let_def split: option.splits prod.splits bool.splits if_splits
        dest!: ident_try [OF _ ident_send(1)])
  obtain v t where adm: "AdmitMessage msg False s = (v, t)" by (cases "AdmitMessage msg False s")
  note a = AdmitMessage_simps(1) [OF adm]
  show ?thesis
    using run adm a by (auto simp: sendToClientCore_def split: if_splits option.splits
        dest!: sse ws send_coalesced_outcome(1))
qed

section \<open>Folding over the connections of a user\<close>

lemma range_while_true:
  "snd (range_while (\<lambda>(cid, p) st. (True, f p st)) m st) = fold f (gm_values m) st"
  by (induction m arbitrary: st) (auto simp: gm_values_def)

lemma range_while_cond:
  "snd (range_while (\<lambda>(cid, p) st. if \<not> P p then (True, st) else (True, f p st)) m st) = fold f (filter P (gm_values m)) st"
  by (induction m arbitrary: st) (auto simp: gm_values_def)

text \<open>The connections of a user that an envelope reaches.\<close>

definition targets :: "(string \<Rightarrow> nat) \<Rightarrow> string \<Rightarrow> HubMessage \<Rightarrow> Node \<Rightarrow> nat list" where
  "targets sh userID msg s =
     filter (\<lambda>p. hm_AppID msg = [] \<or> ClientMatchesEnvelope (client_at s p) (hm_AppID msg) (hm_Namespace msg))
       (gm_values (sm_inner sh (rg_userShards (cs_reg (nd_conn s))) userID))"

lemma for_each_targets:
  assumes "nested_ok sh (rg_userShards (cs_reg (nd_conn s)))"
  shows "ForEachUserClientFiltered sh (cs_heap (nd_conn s)) userID (hm_AppID msg) (hm_Namespace msg)
      (\<lambda>_ p st. (True, f p st)) (cs_reg (nd_conn s)) st = fold f (targets sh userID msg s) st"
proof (cases "hm_AppID msg = []")
  case True
  then show ?thesis
    by (simp add: ForEachUserClientFiltered_def shard_values [OF assms] range_while_true targets_def)
next
  case False
  have "(\<lambda>(cid, p) st. if \<not> ClientMatchesEnvelope (cs_heap (nd_conn s) p) (hm_AppID msg) (hm_Namespace msg) then (True, st)
      else (True, f p st)) = (\<lambda>(cid :: string, p) st. if \<not> ClientMatchesEnvelope (client_at s p) (hm_AppID msg) (hm_Namespace msg)
      then (True, st) else (True, f p st))" by simp
  with False show ?thesis
    by (simp add: ForEachUserClientFiltered_def shard_values [OF assms] range_while_cond targets_def)
qed

text \<open>What a whole loop over connections keeps: everything outside the list, and the accounting of all.\<close>

definition only_clients :: "nat set \<Rightarrow> Node \<Rightarrow> Node \<Rightarrow> bool" where
  "only_clients ps s s' \<longleftrightarrow>
     cs_reg (nd_conn s') = cs_reg (nd_conn s) \<and> (\<forall>q. q \<notin> ps \<longrightarrow> client_at s' q = client_at s q)"

lemma only_clients_refl [simp]: "only_clients ps s s"
  by (simp add: only_clients_def)

lemma only_clients_Cons: "only_client p s t \<Longrightarrow> only_clients ps t u \<Longrightarrow> only_clients (insert p ps) s u"
  by (auto simp: only_clients_def only_client_def)

lemma only_clients_mono: "only_clients ps s t \<Longrightarrow> ps \<subseteq> qs \<Longrightarrow> only_clients qs s t"
  by (auto simp: only_clients_def)

lemma only_clients_trans: "only_clients ps s t \<Longrightarrow> only_clients qs t u \<Longrightarrow> only_clients (ps \<union> qs) s u"
  by (auto simp: only_clients_def)

definition pend_ok :: "Node \<Rightarrow> bool" where
  "pend_ok s \<longleftrightarrow> (\<forall>p. 0 \<le> cl_pendingWrites (client_at s p))"

lemma core_pend_ok:
  assumes "sendToClientCore enc now p msg data r s = (ok, s')" and "pend_ok s"
  shows "pend_ok s'"
  using core_outcome [OF assms(1)] assms(2) by (auto simp: pend_ok_def only_client_def)

definition deliver_one :: "(HubMessage \<Rightarrow> frame option) \<Rightarrow> int \<Rightarrow> HubMessage \<Rightarrow> frame option \<Rightarrow> nat \<Rightarrow> int \<times> Node \<Rightarrow> int \<times> Node" where
  "deliver_one enc now msg data p st =
     (case st of (sent, s) \<Rightarrow> case TryDeliverToClient enc now p msg data s of (ok, s) \<Rightarrow> (if ok then sent + 1 else sent, s))"

lemma deliver_loop:
  assumes "fold (deliver_one enc now msg data) ps (n, s) = (n', s')" and "pend_ok s"
  shows "only_clients (set ps) s s' \<and> nd_offline s' = nd_offline s \<and> pend_ok s' \<and> n \<le> n' \<and> n' \<le> n + int (length ps) \<and>
    (n' = n \<longrightarrow> (\<forall>q. lanes_same (client_at s q) (client_at s' q)))"
  using assms
proof (induction ps arbitrary: n s)
  case Nil
  then show ?case by (simp add: lanes_same_def)
next
  case (Cons p ps)
  obtain ok t where core: "sendToClientCore enc now p msg data True s = (ok, t)"
    by (cases "sendToClientCore enc now p msg data True s")
  then have "deliver_one enc now msg data p (n, s) = (if ok then n + 1 else n, t)"
    by (simp add: deliver_one_def TryDeliverToClient_def)
  with Cons.prems(1) have rest: "fold (deliver_one enc now msg data) ps (if ok then n + 1 else n, t) = (n', s')" by simp
  have o: "only_client p s t" "nd_offline t = nd_offline s" "\<not> ok \<longrightarrow> lanes_same (client_at s p) (client_at t p)"
    using core_outcome [OF core] Cons.prems(2) by (auto simp: pend_ok_def)
  note ih = Cons.IH [OF rest core_pend_ok [OF core Cons.prems(2)]]
  have "only_clients (set (p # ps)) s s'"
    using only_clients_Cons [OF o(1)] ih by simp
  moreover have "lanes_same (client_at s q) (client_at s' q)" if "n' = n" for q
  proof -
    from that ih have "\<not> ok" "\<forall>q. lanes_same (client_at t q) (client_at s' q)" by (auto split: if_splits)
    moreover from this o have "lanes_same (client_at s q) (client_at t q)"
      by (cases "q = p") (auto simp: only_client_def lanes_same_def)
    ultimately show ?thesis by (auto simp: lanes_same_def)
  qed
  ultimately show ?case using ih o by (auto split: if_splits)
qed

lemma sync_loop:
  assumes "fold (\<lambda>p s. snd (sendToClientCore enc now p msg data False s)) ps s = s'" and "pend_ok s"
  shows "only_clients (set ps) s s' \<and> nd_offline s' = nd_offline s \<and> nd_status s' = nd_status s \<and> pend_ok s'"
  using assms
proof (induction ps arbitrary: s)
  case Nil
  then show ?case by simp
next
  case (Cons p ps)
  obtain ok t where core: "sendToClientCore enc now p msg data False s = (ok, t)"
    by (cases "sendToClientCore enc now p msg data False s")
  have o: "only_client p s t" "nd_offline t = nd_offline s" "nd_status t = nd_status s"
    using core_outcome [OF core] Cons.prems(2) by (auto simp: pend_ok_def)
  have ih: "only_clients (set ps) t s' \<and> nd_offline s' = nd_offline t \<and> nd_status s' = nd_status t \<and> pend_ok s'"
    using Cons.IH [OF _ core_pend_ok [OF core Cons.prems(2)]] Cons.prems(1) core by simp
  have "only_clients (set (p # ps)) s s'"
    using only_clients_Cons [OF o(1)] ih by simp
  with ih o show ?case by simp
qed

lemma sender_devices_eq:
  assumes "nested_ok sh (rg_userShards (cs_reg (nd_conn s)))"
  shows "sender_devices sh msg s = (length (targets sh (hm_Sender msg) msg s),
    filter (\<lambda>p. cl_ID (client_at s p) \<noteq> hm_SenderClient msg) (targets sh (hm_Sender msg) msg s))"
proof -
  define f where "f = (\<lambda>p (n :: nat, others). (n + 1, if cl_ID (client_at s p) \<noteq> hm_SenderClient msg then others @ [p] else others))"
  have fold: "fold f ps (n, others) = (n + length ps, others @ filter (\<lambda>p. cl_ID (client_at s p) \<noteq> hm_SenderClient msg) ps)" for ps n others
    by (induction ps arbitrary: n others) (auto simp: f_def)
  have "sender_devices sh msg s = ForEachUserClientFiltered sh (cs_heap (nd_conn s)) (hm_Sender msg) (hm_AppID msg) (hm_Namespace msg)
      (\<lambda>_ p st. (True, f p st)) (cs_reg (nd_conn s)) (0, [])"
    unfolding sender_devices_def f_def
    by (rule arg_cong [where f = "\<lambda>g. ForEachUserClientFiltered sh (cs_heap (nd_conn s)) (hm_Sender msg) (hm_AppID msg) (hm_Namespace msg) g
        (cs_reg (nd_conn s)) (0, [])"]) (auto simp: fun_eq_iff)
  then show ?thesis by (simp add: for_each_targets [OF assms] fold)
qed

text \<open>The connections a direct message is for.\<close>

definition addressed :: "(string \<Rightarrow> nat) \<Rightarrow> HubMessage \<Rightarrow> Node \<Rightarrow> nat set" where
  "addressed sh msg s =
     (if hm_ReceiverClient msg = [] then set (targets sh (hm_Receiver msg) msg s)
      else {p. GetClient sh (hm_ReceiverClient msg) (cs_reg (nd_conn s)) = Some p \<and> cl_UserID (client_at s p) = hm_Receiver msg \<and>
               ClientMatchesEnvelope (client_at s p) (NormalizeAppID (hm_AppID msg)) (hm_Namespace msg)})"

definition other_devices :: "(string \<Rightarrow> nat) \<Rightarrow> HubMessage \<Rightarrow> Node \<Rightarrow> nat set" where
  "other_devices sh msg s = {p \<in> set (targets sh (hm_Sender msg) msg s). cl_ID (client_at s p) \<noteq> hm_SenderClient msg}"

lemma targets_ident:
  assumes "\<And>q. ident (client_at t q) = ident (client_at s q)" and "cs_reg (nd_conn t) = cs_reg (nd_conn s)"
  shows "targets sh userID msg t = targets sh userID msg s"
proof -
  have "ClientMatchesEnvelope (client_at t p) a b = ClientMatchesEnvelope (client_at s p) a b" for p a b
    using assms(1) [of p] by (simp add: ClientMatchesEnvelope_def ident_def)
  then show ?thesis by (simp add: targets_def assms(2))
qed

lemma other_devices_ident:
  assumes "\<And>q. ident (client_at t q) = ident (client_at s q)" and "cs_reg (nd_conn t) = cs_reg (nd_conn s)"
  shows "other_devices sh msg t = other_devices sh msg s"
  using targets_ident [OF assms] assms(1) by (auto simp: other_devices_def ident_def)

lemma deliver_loop_ident:
  "fold (deliver_one enc now msg data) ps (n, s) = (n', s') \<Longrightarrow> ident (client_at s' q) = ident (client_at s q)"
proof (induction ps arbitrary: n s)
  case (Cons p ps)
  obtain m t where one: "deliver_one enc now msg data p (n, s) = (m, t)" by force
  then have "ident (client_at t q) = ident (client_at s q)"
    by (auto simp: deliver_one_def TryDeliverToClient_def split: prod.splits dest: core_ident)
  with Cons one show ?case by simp
qed simp

lemma deliver_devices_cases:
  assumes run: "deliver_devices sh enc now msg data s = (sent, t)" and ok: "nested_ok sh (rg_userShards (cs_reg (nd_conn s)))"
  obtains (some) ps where "set ps \<subseteq> addressed sh msg s" "fold (deliver_one enc now msg data) ps (0, s) = (sent, t)"
proof (cases "hm_ReceiverClient msg = []")
  case True
  have "deliver_devices sh enc now msg data s = ForEachUserClientFiltered sh (cs_heap (nd_conn s)) (hm_Receiver msg) (hm_AppID msg)
      (hm_Namespace msg) (\<lambda>_ p st. (True, deliver_one enc now msg data p st)) (cs_reg (nd_conn s)) (0, s)"
    unfolding deliver_devices_def if_not_P [OF not_not [THEN iffD2, OF True]]
    by (rule arg_cong [where f = "\<lambda>g. ForEachUserClientFiltered sh (cs_heap (nd_conn s)) (hm_Receiver msg) (hm_AppID msg) (hm_Namespace msg) g
        (cs_reg (nd_conn s)) (0, s)"]) (auto simp: fun_eq_iff deliver_one_def split: prod.splits)
  then have "fold (deliver_one enc now msg data) (targets sh (hm_Receiver msg) msg s) (0, s) = (sent, t)"
    using run by (simp add: for_each_targets [OF ok])
  with True show thesis by (auto intro: some simp: addressed_def)
next
  case False
  show thesis
  proof (cases "\<exists>p. p \<in> addressed sh msg s \<and> deliver_one enc now msg data p (0, s) = (sent, t)")
    case True
    then obtain p where "p \<in> addressed sh msg s" "fold (deliver_one enc now msg data) [p] (0, s) = (sent, t)" by auto
    then show thesis by (intro some [of "[p]"]) auto
  next
    case no: False
    then have "sent = 0 \<and> t = s"
      using run False by (auto simp: deliver_devices_def addressed_def deliver_one_def split: option.splits if_splits prod.splits)
    then show thesis by (intro some [of "[]"]) auto
  qed
qed

lemma deliver_devices_outcome:
  assumes run: "deliver_devices sh enc now msg data s = (sent, t)" and ok: "nested_ok sh (rg_userShards (cs_reg (nd_conn s)))"
    and pend: "pend_ok s"
  shows "only_clients (addressed sh msg s) s t \<and> nd_offline t = nd_offline s \<and> pend_ok t \<and> 0 \<le> sent \<and>
    (sent = 0 \<longrightarrow> (\<forall>q. lanes_same (client_at s q) (client_at t q)))"
  using deliver_devices_cases [OF run ok] deliver_loop [OF _ pend] by (metis only_clients_mono)

lemma deliver_devices_ident:
  assumes "deliver_devices sh enc now msg data s = (sent, t)" and "nested_ok sh (rg_userShards (cs_reg (nd_conn s)))"
  shows "ident (client_at t q) = ident (client_at s q)"
  using deliver_devices_cases [OF assms] deliver_loop_ident by metis

lemma sync_outcome:
  assumes "syncToSenderDevices sh enc now msg data s = t" and "nested_ok sh (rg_userShards (cs_reg (nd_conn s)))" and "pend_ok s"
  shows "only_clients (other_devices sh msg s) s t \<and> nd_offline t = nd_offline s \<and> nd_status t = nd_status s \<and> pend_ok t"
proof -
  let ?others = "filter (\<lambda>p. cl_ID (client_at s p) \<noteq> hm_SenderClient msg) (targets sh (hm_Sender msg) msg s)"
  consider "t = s" | bytes where "t = fold (\<lambda>p s. snd (sendToClientCore enc now p msg (Some bytes) False s)) ?others s"
    using assms(1) by (auto simp: syncToSenderDevices_def sender_devices_eq [OF assms(2)] split: if_splits option.splits)
  then show ?thesis
  proof cases
    case 1
    then show ?thesis using assms(3) by simp
  next
    case (2 bytes)
    from sync_loop [OF 2 [symmetric] assms(3)] show ?thesis by (simp add: other_devices_def)
  qed
qed

section \<open>The broadcast loop\<close>

lemma range_while_go: "range_while (\<lambda>x st. (True, g x st)) m st = (True, fold g m st)"
  by (induction m arbitrary: st) auto

lemma range_while_each_nested:
  "range_while (\<lambda>(u, userClients). range_while (\<lambda>(cid, p) st. (True, f p st)) userClients) m st =
   (True, fold f (concat (map (gm_values \<circ> snd) m)) st)"
  for m :: "(string \<times> (string, nat) gomap) list"
proof -
  have inner: "range_while (\<lambda>(cid, p) st. (True, f p st)) y = (\<lambda>st. (True, fold f (gm_values y) st))" for y
    by (rule ext) (induction y, auto simp: gm_values_def)
  have "(\<lambda>(u :: string, userClients :: (string, nat) gomap). range_while (\<lambda>(cid, p) st. (True, f p st)) userClients) =
      (\<lambda>x st. (True, fold f (gm_values (snd x)) st))"
    by (auto simp: fun_eq_iff inner)
  moreover have "fold (\<lambda>x. fold f (gm_values (snd x))) m st = fold f (concat (map (gm_values \<circ> snd) m)) st"
    by (induction m arbitrary: st) auto
  ultimately show ?thesis by (simp only: range_while_go)
qed

lemma for_each_client_filtered:
  "ForEachClientFiltered H appID ns (\<lambda>_ p st. (True, f p st)) r st =
   fold f (filter (\<lambda>p. ClientMatchesEnvelope (H p) appID ns) (GetAllClients r)) st"
proof -
  have "(\<lambda>(cid :: string) p s. if \<not> ClientMatchesEnvelope (H p) appID ns then (True, s) else (True, f p s)) =
      (\<lambda>cid p s. (True, (if ClientMatchesEnvelope (H p) appID ns then f p else id) s))" by (auto simp: fun_eq_iff)
  then show ?thesis
    by (simp only: ForEachClientFiltered_def ForEachClient_def GetAllClients_def range_while_each_nested snd_conv fold_filter)
qed

definition eligible :: "Node \<Rightarrow> nat \<Rightarrow> bool" where
  "eligible s p \<longleftrightarrow> \<not> cl_closed (client_at s p) \<and> cl_ConnectionType (client_at s p) \<noteq> ConnectionTypeSSE"

definition loop_inv :: "DeliveryGuarantee \<Rightarrow> int \<times> int \<times> Node \<Rightarrow> int \<times> int \<times> Node \<Rightarrow> nat list \<Rightarrow> bool" where
  "loop_inv g st st' ps \<longleftrightarrow>
     (case (st, st') of ((a, b, s), (a', b', s')) \<Rightarrow>
        let n = int (length (filter (eligible s) ps))
        in only_clients (set ps) s s' \<and> pend_ok s' \<and> metrics_wf (nd_metrics s') \<and> nd_offlineHandler s' = nd_offlineHandler s \<and>
           a' + b' = a + b + n \<and> b \<le> b' \<and>
           (g \<noteq> GuaranteeEphemeral \<longrightarrow>
              funnel_gap (bucketIndex g) (nd_metrics s') = funnel_gap (bucketIndex g) (nd_metrics s) - n) \<and>
           drops s' = drops s + (if g = GuaranteeEphemeral then b' - b else 0))"

lemma pend_ok_try:
  assumes "client_try p (TrySend data) s = (ok, t)" and "pend_ok s"
  shows "pend_ok t" "only_clients {p} s t"
proof -
  note c = client_try_simps [OF assms(1)]
  from c(9) obtain ctr where f: "TrySend data (client_at s p) (cs_ctr (nd_conn s)) = (ok, client_at t p, ctr)" by blast
  have "0 \<le> cl_pendingWrites (client_at t p)" using try_send_lane(3) [OF f] assms(2) by (simp add: pend_ok_def)
  with c(1) assms(2) show "pend_ok t" unfolding pend_ok_def only_client_def by metis
  show "only_clients {p} s t" using c(1) by (simp add: only_clients_def only_client_def)
qed

lemma fallback_outcome:
  assumes "routeDeliveryFallback (Some msg) c u g s = (act, s')"
  shows "cs_reg (nd_conn s') = cs_reg (nd_conn s)" "cs_heap (nd_conn s') = cs_heap (nd_conn s)"
    "nd_offlineHandler s' = nd_offlineHandler s" "metrics_wf (nd_metrics s') = metrics_wf (nd_metrics s)"
    "metrics_wf (nd_metrics s) \<Longrightarrow> g \<noteq> GuaranteeEphemeral \<Longrightarrow>
       funnel_gap (bucketIndex g) (nd_metrics s') = funnel_gap (bucketIndex g) (nd_metrics s) - 1"
    "drops s' = drops s + (if g = GuaranteeEphemeral then 1 else 0)"
  using assms
  by (auto simp: routeDeliveryFallback_def Let_def StoreOfflineOnDeliveryFailure_def funnel_gap_record
      split: if_splits prod.splits option.splits)

lemma broadcast_one_outcome:
  assumes one: "broadcast_one data msg g p (a, b, s) = (a', b', s')" and pend: "pend_ok s" and wf: "metrics_wf (nd_metrics s)"
  shows "loop_inv g (a, b, s) (a', b', s') [p]"
proof (cases "eligible s p")
  case False
  with one have "(a', b', s') = (a, b, s)" by (auto simp: broadcast_one_def eligible_def)
  with False pend wf show ?thesis by (simp add: loop_inv_def)
next
  case True
  obtain ok t where att: "client_try p (TrySend data) s = (ok, t)" by force
  note c = client_try_simps [OF att] and q = pend_ok_try [OF att pend]
  show ?thesis
  proof (cases ok)
    case ok: True
    with one True att have "a' = a + 1" "b' = b" and s': "nd_conn s' = nd_conn t" "nd_offlineHandler s' = nd_offlineHandler t"
        "nd_metrics s' = RecordRealtime g (nd_metrics t)"
      by (auto simp: broadcast_one_def eligible_def TrySendWithFallback_def)
    moreover have "pend_ok s'" "only_clients {p} s s'" using q s' by (auto simp: pend_ok_def only_clients_def)
    ultimately show ?thesis using True c wf by (simp add: loop_inv_def funnel_gap_record)
  next
    case ok: False
    obtain act u where fb: "routeDeliveryFallback (Some msg) (Some p) [] g t = (act, u)" by force
    with one True att ok have "a' = a" "b' = b + 1" "s' = u"
      by (auto simp: broadcast_one_def eligible_def TrySendWithFallback_def)
    moreover note f = fallback_outcome [OF fb]
    moreover have "pend_ok u" "only_clients {p} s u" using q f by (auto simp: pend_ok_def only_clients_def)
    ultimately show ?thesis using True c wf by (simp add: loop_inv_def)
  qed
qed

text \<open>Counting the broadcast first does not change the loop: \<open>broadcast_one\<close> never reads that counter.\<close>

lemma doBroadcast_counts:
  assumes "enc msg = Some data"
    and "ForEachClientFiltered (cs_heap (nd_conn s)) (hm_AppID msg) (hm_Namespace msg)
       (\<lambda>_ p st. (True, broadcast_one data msg (guarantee_of s msg) p st)) (cs_reg (nd_conn s)) (0, 0, s) = (a, b, t)"
  shows "fst (doBroadcastMessage enc extractTraceID hostctx now msg s) = a \<and>
    fst (snd (doBroadcastMessage enc extractTraceID hostctx now msg s)) = b"
proof -
  define up where "up s = (if nd_statsRepo s then s\<lparr>nd_broadcastSent := nd_broadcastSent s + 1\<rparr> else s)" for s :: Node
  define up' where "up' n s = s\<lparr>nd_broadcastSent := n\<rparr>" for n and s :: Node
  have one: "broadcast_one data msg g p (a, b, up' n s) = (case broadcast_one data msg g p (a, b, s) of (a', b', s') \<Rightarrow> (a', b', up' n s'))" for g p a b n s
    by (auto simp: up'_def broadcast_one_def TrySendWithFallback_def client_try_def routeDeliveryFallback_def metric_def
        AdmissionOnDelivered_def StoreOfflineOnDeliveryFailure_def Let_def split: prod.splits bool.splits option.splits)
  have loop: "fold (broadcast_one data msg g) ps (a, b, up' n s) = (case fold (broadcast_one data msg g) ps (a, b, s) of (a', b', s') \<Rightarrow> (a', b', up' n s'))"
    for g ps a b n s
  proof (induction ps arbitrary: a b s)
    case (Cons p ps)
    obtain a' b' s' where "broadcast_one data msg g p (a, b, s) = (a', b', s')"
      by (cases "broadcast_one data msg g p (a, b, s)") auto
    with one Cons show ?case by simp
  qed simp
  obtain n where n: "up s = up' n s" by (cases "nd_statsRepo s") (auto simp: up_def up'_def intro: that [of "nd_broadcastSent s"])
  have same: "nd_conn (up' n s) = nd_conn s" "guarantee_of (up' n s) msg = guarantee_of s msg" by (simp_all add: up'_def)
  show ?thesis
    using assms loop [of "guarantee_of s msg" _ 0 0 n s]
    by (simp add: doBroadcastMessage_def up_def [symmetric] for_each_client_filtered same n Let_def split: prod.splits)
qed

lemma broadcast_loop:
  assumes "fold (broadcast_one data msg g) ps (a, b, s) = (a', b', s')" and "distinct ps" and "pend_ok s" and "metrics_wf (nd_metrics s)"
  shows "loop_inv g (a, b, s) (a', b', s') ps"
  using assms
proof (induction ps arbitrary: a b s)
  case Nil
  then show ?case by (simp add: loop_inv_def)
next
  case (Cons p ps)
  obtain a1 b1 s1 where one: "broadcast_one data msg g p (a, b, s) = (a1, b1, s1)"
    by (cases "broadcast_one data msg g p (a, b, s)") auto
  note i = broadcast_one_outcome [OF one Cons.prems(3,4)]
  then have i': "only_clients {p} s s1" "pend_ok s1" "metrics_wf (nd_metrics s1)" by (simp_all add: loop_inv_def Let_def)
  have "fold (broadcast_one data msg g) ps (a1, b1, s1) = (a', b', s')" using Cons.prems(1) one by simp
  with Cons i' have ih: "loop_inv g (a1, b1, s1) (a', b', s') ps" by simp
  have el: "filter (eligible s1) ps = filter (eligible s) ps"
    using i'(1) Cons.prems(2) by (intro filter_cong) (auto simp: only_clients_def eligible_def)
  have "only_clients (set (p # ps)) s s'"
    using only_clients_trans [OF i'(1), of "set ps" s'] ih by (simp add: loop_inv_def Let_def)
  with i ih el show ?case by (auto simp: loop_inv_def Let_def split: if_splits)
qed

section \<open>Properties\<close>


definition one_node :: "Client \<Rightarrow> Node" where
  "one_node c =
     \<lparr>nd_conn = \<lparr>cs_heap = (\<lambda>_. c), cs_ctr = (\<lambda>_. 0), cs_data = \<lparr>dh_next = 0, dh_objs = \<lambda>_. []\<rparr>, cs_reg = NewShardedRegistry False False, cs_trace = []\<rparr>,
      nd_gate = None, nd_coalescer = None, nd_metrics = zero_metrics, nd_sink = True, nd_status = [], nd_offlineHandler = True,
      nd_offline = [], nd_tracked = [], nd_statsRepo = False, nd_msgSent = 0, nd_broadcastSent = 0\<rparr>"


text \<open>A direct message stays with the people it concerns.  Whatever it changes on this node is a
  connection of the receiver inside the envelope, or another device of the sender inside the
  envelope, never the sending device itself; nothing is put aside for offline delivery; and when
  it reports that no connection accepted it, no channel of anybody but the sender's other devices
  has changed, so that a retry cannot deliver twice.  The copies for the sender's devices never
  report a status.\<close>

theorem direct_delivery_isolated:
  assumes run: "handleDirectMessage sh enc now msg data s = (sent, s')"
    and ok: "nested_ok sh (rg_userShards (cs_reg (nd_conn s)))" and pend: "pend_ok s"
  shows "(\<forall>q. client_at s' q \<noteq> client_at s q \<longrightarrow> q \<in> addressed sh msg s \<union> other_devices sh msg s) \<and>
    nd_offline s' = nd_offline s \<and> 0 \<le> sent \<and>
    (sent = 0 \<longrightarrow> (\<forall>q. q \<notin> other_devices sh msg s \<longrightarrow> lanes_same (client_at s q) (client_at s' q))) \<and>
    nd_status (syncToSenderDevices sh enc now msg data s) = nd_status s"
proof -
  define d where "d = (if data = None then enc msg else data)"
  obtain t where dev: "deliver_devices sh enc now msg d s = (sent, t)" and
    s': "s' = (if hm_Sender msg \<noteq> [] \<and> hm_SenderClient msg \<noteq> [] \<and> length (slice (hm_GroupIDs msg)) = 0
      then syncToSenderDevices sh enc now msg d (if sent > 0 \<and> nd_statsRepo t then t\<lparr>nd_msgSent := nd_msgSent t + 1\<rparr> else t)
      else if sent > 0 \<and> nd_statsRepo t then t\<lparr>nd_msgSent := nd_msgSent t + 1\<rparr> else t)"
    using run by (auto simp: handleDirectMessage_def d_def [symmetric] Let_def split: prod.splits)
  note o = deliver_devices_outcome [OF dev ok pend]
  define u where "u = (if sent > 0 \<and> nd_statsRepo t then t\<lparr>nd_msgSent := nd_msgSent t + 1\<rparr> else t)"
  have u: "nd_conn u = nd_conn t" "nd_offline u = nd_offline t" "pend_ok u" using o by (auto simp: u_def pend_ok_def)
  have "ident (client_at u q) = ident (client_at s q)" for q
    using deliver_devices_ident [OF dev ok] u(1) by simp
  moreover have reg: "cs_reg (nd_conn u) = cs_reg (nd_conn s)" using o u(1) by (simp add: only_clients_def)
  ultimately have others: "other_devices sh msg u = other_devices sh msg s" by (rule other_devices_ident)
  have "only_clients (other_devices sh msg s) u s' \<and> nd_offline s' = nd_offline u"
    using sync_outcome [OF refl, of sh u msg enc now d] ok u(3) reg by (simp add: s' u_def [symmetric] others)
  moreover have "nd_status (syncToSenderDevices sh enc now msg data s) = nd_status s"
    using sync_outcome [OF refl ok pend] by blast
  ultimately show ?thesis using o u by (auto simp: only_clients_def)
qed

definition two_node :: Node where
  "two_node = (one_node (demo_client 0))\<lparr>nd_conn := two_state\<lparr>cs_heap := \<lambda>p. (two_heap p)\<lparr>cl_SendChan := Some (make_chan 4)\<rparr>\<rparr>\<rparr>"

lemma two_node_fields: "client_at two_node p = (two_heap p)\<lparr>cl_SendChan := Some (make_chan 4)\<rparr>" "cs_reg (nd_conn two_node) = two_r2"
  by (simp_all add: two_node_def two_state_def)

lemma direct_delivery_isolated_witness:
  "client_at (snd (handleDirectMessage demo_sh (\<lambda>_. Some ''x'') 0 (zero_message\<lparr>hm_Receiver := ''u1'', hm_AppID := ''shop''\<rparr>) None two_node)) 1 =
   client_at two_node 1"
proof -
  let ?m = "zero_message\<lparr>hm_Receiver := ''u1'', hm_AppID := ''shop''\<rparr>"
  obtain sent s' where run: "handleDirectMessage demo_sh (\<lambda>_. Some ''x'') 0 ?m None two_node = (sent, s')" by force
  have ok: "nested_ok demo_sh (rg_userShards (cs_reg (nd_conn two_node)))"
    using users_ok_nested [OF rg_invD(1) [OF reach_rg_inv [OF demo_hash two_reach]]] by (simp add: two_node_fields)
  have pend: "pend_ok two_node"
    by (simp add: pend_ok_def two_node_fields two_heap_def NewClient_def)
  have inner: "sm_inner demo_sh (rg_userShards two_r2) ''u1'' = [(''c1'', 0), (''c2'', 1)]"
    using shard_user_eq [of demo_sh "rg_userShards two_r2" "''u1''"] ok two_user by (simp add: two_node_fields split: if_splits)
  have none: "sm_inner demo_sh (rg_userShards two_r2) [] = []"
    using shard_user_eq [of demo_sh "rg_userShards two_r2" "[]"] ok
    by (simp add: two_node_fields shard_user_def with_shard_rlock_def two_shards demo_sh_def split: if_splits)
  have "1 \<notin> addressed demo_sh ?m two_node \<union> other_devices demo_sh ?m two_node"
    by (simp add: addressed_def other_devices_def targets_def two_node_fields inner none gm_values_def zero_message_def
        ClientMatchesEnvelope_def two_ids)
  with direct_delivery_isolated [OF run ok pend] show ?thesis by (auto simp: run)
qed

text \<open>The funnel does not balance.  A standard message delivered over server-sent events is counted as
  admitted and as nothing else, so a consistent funnel becomes inconsistent; and an ephemeral
  message that the full coalescer refuses is counted as dropped twice.\<close>

theorem funnel_unbalanced:
  assumes "\<not> cl_closed (client_at s p)" and "metrics_wf (nd_metrics s)"
  shows "(cl_ConnectionType (client_at s p) = ConnectionTypeSSE \<and> guarantee_of s msg = GuaranteeStandard \<and> nd_gate s = None \<and>
      fst (DeliveryFunnelConsistent (nd_metrics s)) \<and> SendToClientSerialized enc now p msg data s = (True, s') \<longrightarrow>
      \<not> fst (DeliveryFunnelConsistent (nd_metrics s'))) \<and>
    (coalesces p msg s \<and> SendToClientSerialized enc now p msg data s = (False, s') \<longrightarrow> drops s' = drops s + 2)"
proof (intro conjI impI)
  assume a: "cl_ConnectionType (client_at s p) = ConnectionTypeSSE \<and> guarantee_of s msg = GuaranteeStandard \<and> nd_gate s = None \<and>
      fst (DeliveryFunnelConsistent (nd_metrics s)) \<and> SendToClientSerialized enc now p msg data s = (True, s')"
  then have "nd_metrics s' = RecordAdmitted GuaranteeStandard (nd_metrics s)"
    using assms(1) client_try_simps(4)
    by (auto simp: SendToClientSerialized_def TryDeliverToClient_def sendToClientCore_def AdmitMessage_def send_sse_def Let_def
        split: bool.splits prod.splits option.splits)
  with a assms(2) show "\<not> fst (DeliveryFunnelConsistent (nd_metrics s'))"
    by (simp add: funnel_consistent_iff funnel_gap_record)
next
  assume a: "coalesces p msg s \<and> SendToClientSerialized enc now p msg data s = (False, s')"
  obtain ok t where core: "sendToClientCore enc now p msg data True s = (ok, t)" by force
  with a have "\<not> ok" and s': "s' = (if guarantee_of t msg = GuaranteeEphemeral then metric RecordEphemeralDrop t
      else StoreOfflineOnDeliveryFailure msg t)"
    by (auto simp: SendToClientSerialized_def TryDeliverToClient_def split: bool.splits)
  moreover have "nd_conn t = nd_conn s"
    using core a send_coalesced_outcome(1) by (auto simp: sendToClientCore_def coalesces_def)
  ultimately show "drops s' = drops s + 2"
    using core_drops [OF core] a by (simp add: coalesces_def)
qed

definition sse_node :: Node where
  "sse_node = one_node ((NewClient 1 ''c1'' ''u1'' UserTypeCustomer)\<lparr>cl_ConnectionType := ConnectionTypeSSE,
     cl_SSEMessageCh := Some (make_chan 1)\<rparr>)"

lemma funnel_unbalanced_witness:
  "\<not> fst (DeliveryFunnelConsistent (nd_metrics (snd (SendToClientSerialized (\<lambda>_. None) 5 0 zero_message None sse_node))))"
proof -
  obtain ok s' where run: "SendToClientSerialized (\<lambda>_. None) 5 0 zero_message None sse_node = (ok, s')" by force
  have g: "guarantee_of sse_node zero_message = GuaranteeStandard"
    by (simp add: ResolveGuarantee_def zero_message_def sse_node_def one_node_def score_guaranteed_def guaranteeTypeDefaults_def
        GuaranteeForType_def Let_def)
  have c: "client_at sse_node 0 = (NewClient 1 ''c1'' ''u1'' UserTypeCustomer)\<lparr>cl_ConnectionType := ConnectionTypeSSE,
     cl_SSEMessageCh := Some (make_chan 1)\<rparr>" "nd_gate sse_node = None" "nd_metrics sse_node = zero_metrics"
    by (simp_all add: sse_node_def one_node_def)
  have "fst (SendToClientSerialized (\<lambda>_. None) 5 0 zero_message None sse_node)"
    by (simp add: SendToClientSerialized_def TryDeliverToClient_def sendToClientCore_def AdmitMessage_def send_sse_def client_try_def
        TrySendSSE_def try_send_def make_chan_def c g) (simp add: NewClient_def)
  then have ok by (simp add: run)
  moreover have "\<not> cl_closed (client_at sse_node 0)" by (simp add: c NewClient_def)
  moreover have "fst (DeliveryFunnelConsistent zero_metrics)"
    by (simp add: funnel_consistent_iff funnel_gap_def zero_metrics_def)
  ultimately show ?thesis
    using funnel_unbalanced [of sse_node 0 zero_message "\<lambda>_. None" 5 None s'] run g metrics_wf_zero by (simp add: c)
qed


text \<open>A broadcast settles every connection once.  The two counts it reports add up to the open
  WebSocket connections inside the envelope; outside the envelope no WebSocket connection changes;
  and for any level but the ephemeral the outcomes real-time, offline and unrecoverable together
  grow by exactly that number, while for the ephemeral level the drops grow by the failures.\<close>

theorem broadcast_settles:
  assumes inv: "rg_inv sh (cs_heap (nd_conn s)) (cs_reg (nd_conn s))" "hash_ok sh" and pend: "pend_ok s"
    and wf: "metrics_wf (nd_metrics s)" and enc: "enc msg = Some data"
    and run: "ForEachClientFiltered (cs_heap (nd_conn s)) (hm_AppID msg) (hm_Namespace msg)
       (\<lambda>_ p st. (True, broadcast_one data msg (guarantee_of s msg) p st)) (cs_reg (nd_conn s)) (0, 0, s) = (successCount, failCount, t)"
  shows "fst (doBroadcastMessage enc extractTraceID hostctx now msg s) = successCount \<and>
    fst (snd (doBroadcastMessage enc extractTraceID hostctx now msg s)) = failCount \<and>
    successCount + failCount = int (card {p \<in> set (GetAllClients (cs_reg (nd_conn s))).
      eligible s p \<and> ClientMatchesEnvelope (client_at s p) (hm_AppID msg) (hm_Namespace msg)}) \<and>
    (\<forall>q. \<not> ClientMatchesEnvelope (client_at s q) (hm_AppID msg) (hm_Namespace msg) \<longrightarrow> client_at t q = client_at s q) \<and>
    (guarantee_of s msg \<noteq> GuaranteeEphemeral \<longrightarrow>
       funnel_gap (bucketIndex (guarantee_of s msg)) (nd_metrics t) =
       funnel_gap (bucketIndex (guarantee_of s msg)) (nd_metrics s) - (successCount + failCount)) \<and>
    drops t = drops s + (if guarantee_of s msg = GuaranteeEphemeral then failCount else 0)"
proof -
  let ?g = "guarantee_of s msg"
  let ?ps = "filter (\<lambda>p. ClientMatchesEnvelope (client_at s p) (hm_AppID msg) (hm_Namespace msg)) (GetAllClients (cs_reg (nd_conn s)))"
  let ?S = "{p \<in> set (GetAllClients (cs_reg (nd_conn s))). eligible s p \<and> ClientMatchesEnvelope (client_at s p) (hm_AppID msg) (hm_Namespace msg)}"
  have d: "distinct ?ps" using distinct_all_clients [OF inv] by simp
  have "fold (broadcast_one data msg ?g) ?ps (0, 0, s) = (successCount, failCount, t)"
    using run by (simp add: for_each_client_filtered)
  from broadcast_loop [OF this d pend wf] have l: "loop_inv ?g (0, 0, s) (successCount, failCount, t) ?ps" .
  have "set (filter (eligible s) ?ps) = ?S" by auto
  with d have "int (length (filter (eligible s) ?ps)) = int (card ?S)"
    by (metis distinct_card distinct_filter)
  with l show ?thesis using doBroadcast_counts [of enc msg data s successCount failCount t extractTraceID hostctx now, OF enc run]
    by (auto simp: loop_inv_def Let_def only_clients_def)
qed

lemma broadcast_settles_witness:
  "let r = doBroadcastMessage (\<lambda>_. Some ''x'') (\<lambda>_. []) demo_ctx 0 (zero_message\<lparr>hm_AppID := ''shop''\<rparr>)
         ((one_node (demo_client 0))\<lparr>nd_conn := two_state\<rparr>)
   in fst r + fst (snd r) = 1"
proof -
  let ?m = "zero_message\<lparr>hm_AppID := ''shop''\<rparr>" and ?s = "(one_node (demo_client 0))\<lparr>nd_conn := two_state\<rparr>"
  obtain a b t where run: "ForEachClientFiltered (cs_heap (nd_conn ?s)) (hm_AppID ?m) (hm_Namespace ?m)
       (\<lambda>_ p st. (True, broadcast_one ''x'' ?m (guarantee_of ?s ?m) p st)) (cs_reg (nd_conn ?s)) (0, 0, ?s) = (a, b, t)"
    by (cases "ForEachClientFiltered (cs_heap (nd_conn ?s)) (hm_AppID ?m) (hm_Namespace ?m)
       (\<lambda>_ p st. (True, broadcast_one ''x'' ?m (guarantee_of ?s ?m) p st)) (cs_reg (nd_conn ?s)) (0, 0, ?s)") auto
  have inv: "rg_inv demo_sh (cs_heap (nd_conn ?s)) (cs_reg (nd_conn ?s))"
    using reach_rg_inv [OF demo_hash two_reach] by (simp add: two_state_def)
  have pend: "pend_ok ?s" by (simp add: pend_ok_def two_state_def two_heap_def NewClient_def)
  have wf: "metrics_wf (nd_metrics ?s)" by (simp add: one_node_def metrics_wf_zero)
  have "{p \<in> set (GetAllClients (cs_reg (nd_conn ?s))). eligible ?s p \<and> ClientMatchesEnvelope (client_at ?s p) (hm_AppID ?m) (hm_Namespace ?m)} = {0}"
    by (auto simp: two_state_def two_all eligible_def two_heap_def ClientMatchesEnvelope_def NewClient_def zero_message_def)
  with broadcast_settles [where sh = demo_sh and enc = "\<lambda>_. Some ''x''" and msg = ?m and data = "''x''" and s = ?s and
      extractTraceID = "\<lambda>_. []" and hostctx = demo_ctx and now = 0, OF inv demo_hash pend wf refl run]
  show ?thesis by (simp add: Let_def)
qed

end
