(* ===== verification/Member_Cache.thy ===== *)
theory Member_Cache
  imports Coalescer Routing "HOL-Library.Char_ord" "HOL-Library.List_Lexorder"
begin

text \<open>
  The local cache of group members, adapter/redis/group_member_cache.go, and the aggregator that
  tells other nodes what to forget, group/invalidation.go.

  \<^item> A \<open>container/list\<close> is the list of its elements, front first; an element is a number, its entry is
    found in \<open>ms_elems\<close>.  \<open>nil\<close> members (the negative entry) are \<open>None\<close>.
  \<^item> The decorated store is a parameter: \<open>load\<close> is its answer to one batch read, a write is a function
    on its state.  Generations are \<open>nat\<close>: a \<open>uint64\<close> cannot wrap during one read of the store.
  \<^item> A call reads the clock several times: \<open>now\<close> is the time of the lookups, \<open>later\<close> of the refill.
  \<^item> \<open>cc_step\<close> interleaves the critical sections of readers and writers on several nodes, which share
    the store and send each other invalidations.  \<open>PublishGroupInvalidations\<close> may fail.
\<close>

section \<open>The cache\<close>

definition groupCacheShards :: nat where "groupCacheShards = 64"
definition DefaultGroupMemberCacheTTL :: int where "DefaultGroupMemberCacheTTL = 30 * 10 ^ 9"
definition DefaultGroupMemberCacheEntries :: int where "DefaultGroupMemberCacheEntries = 1024"
definition DefaultGroupMemberCacheMaxMembers :: int where "DefaultGroupMemberCacheMaxMembers = 10000"
definition DefaultGroupMemberCacheNegativeTTL :: int where "DefaultGroupMemberCacheNegativeTTL = 5 * 10 ^ 9"

datatype groupCacheKey = GroupKey (gk_appID: string) (gk_gid: string)

record groupCacheEntry =
  ge_key :: groupCacheKey
  ge_members :: GoSlice
  ge_expireAt :: int

record groupMemberShard =
  ms_lru :: "nat list"
  ms_elems :: "nat \<Rightarrow> groupCacheEntry"
  ms_next :: nat
  ms_items :: "(groupCacheKey, nat) gomap"
  ms_gen :: "(groupCacheKey, nat) gomap"

record GroupMemberCache =
  gc_ttl :: int
  gc_negativeTTL :: int
  gc_maxEntries :: int
  gc_maxMembers :: int
  gc_onInvalidate :: bool
  gc_shards :: "nat \<Rightarrow> groupMemberShard"

definition new_shard :: groupMemberShard where
  "new_shard = \<lparr>ms_lru = [], ms_elems = \<lambda>_. \<lparr>ge_key = GroupKey [] [], ge_members = None, ge_expireAt = 0\<rparr>, ms_next = 0,
     ms_items = [], ms_gen = []\<rparr>"

definition NewGroupMemberCache :: "int \<Rightarrow> int \<Rightarrow> int \<Rightarrow> int \<Rightarrow> GroupMemberCache" where
  "NewGroupMemberCache ttl negativeTTL maxEntries maxMembers =
     (let maxEntries = (if maxEntries \<le> 0 then DefaultGroupMemberCacheEntries else maxEntries);
          quota = max (maxEntries div int groupCacheShards) 1
      in \<lparr>gc_ttl = (if ttl > 0 then ttl else DefaultGroupMemberCacheTTL),
          gc_negativeTTL = (if negativeTTL > 0 then negativeTTL else DefaultGroupMemberCacheNegativeTTL),
          gc_maxEntries = quota * int groupCacheShards,
          gc_maxMembers = (if maxMembers > 0 then maxMembers else DefaultGroupMemberCacheMaxMembers),
          gc_onInvalidate = False, gc_shards = \<lambda>_. new_shard\<rparr>)"

definition groupShardOf :: "string \<Rightarrow> string \<Rightarrow> nat" where
  "groupShardOf appID gid = unat (fnvString (fnvString fnv_offset32 appID) gid AND 63)"

definition gen_of :: "groupCacheKey \<Rightarrow> groupMemberShard \<Rightarrow> nat" where
  "gen_of key s = (case map_of (ms_gen s) key of None \<Rightarrow> 0 | Some g \<Rightarrow> g)"

definition removeLocked :: "nat \<Rightarrow> groupMemberShard \<Rightarrow> groupMemberShard" where
  "removeLocked el s =
     s\<lparr>ms_items := AList.delete (ge_key (ms_elems s el)) (ms_items s), ms_lru := remove1 el (ms_lru s)\<rparr>"

definition MoveToFront :: "nat \<Rightarrow> nat list \<Rightarrow> nat list" where
  "MoveToFront el l = (if el \<in> set l then el # remove1 el l else l)"

text \<open>One round of the collecting loop: a hit, or a miss with the generation to check later.\<close>

datatype lookup = Hit GoSlice | Miss nat

definition lookup_locked :: "int \<Rightarrow> groupCacheKey \<Rightarrow> groupMemberShard \<Rightarrow> lookup \<times> groupMemberShard" where
  "lookup_locked now key s =
     (case map_of (ms_items s) key of
        Some el \<Rightarrow>
          if now > ge_expireAt (ms_elems s el) then (Miss (gen_of key s), removeLocked el s)
          else (Hit (ge_members (ms_elems s el)), s\<lparr>ms_lru := MoveToFront el (ms_lru s)\<rparr>)
      | None \<Rightarrow> (Miss (gen_of key s), s))"

text \<open>The eviction loop of \<open>fill\<close>; \<open>None\<close> is the panic on the back of an empty list.\<close>

function shrink :: "int \<Rightarrow> groupMemberShard \<Rightarrow> groupMemberShard option" where
  "shrink quota s =
     (if int (length (ms_lru s)) \<ge> quota
      then (if ms_lru s = [] then None else shrink quota (removeLocked (last (ms_lru s)) s))
      else Some s)"
  by pat_completeness auto
termination
  by (relation "measure (\<lambda>(quota, s). length (ms_lru s))") (auto simp: removeLocked_def length_remove1)

declare shrink.simps [simp del]

definition fill_locked :: "int \<Rightarrow> int \<Rightarrow> int \<Rightarrow> groupCacheKey \<Rightarrow> GoSlice \<Rightarrow> nat \<Rightarrow> groupMemberShard \<Rightarrow> groupMemberShard option" where
  "fill_locked quota entryTTL now key members gen s =
     (if gen_of key s \<noteq> gen then Some s
      else case map_of (ms_items s) key of
             Some el \<Rightarrow>
               Some (s\<lparr>ms_elems := (ms_elems s)(el := (ms_elems s el)\<lparr>ge_members := members, ge_expireAt := now + entryTTL\<rparr>),
                       ms_lru := MoveToFront el (ms_lru s)\<rparr>)
           | None \<Rightarrow>
               (case shrink quota s of
                  None \<Rightarrow> None
                | Some s \<Rightarrow>
                    Some (s\<lparr>ms_elems := (ms_elems s)(ms_next s := \<lparr>ge_key = key, ge_members = members, ge_expireAt = now + entryTTL\<rparr>),
                            ms_next := Suc (ms_next s), ms_lru := ms_next s # ms_lru s,
                            ms_items := AList.update key (ms_next s) (ms_items s)\<rparr>)))"

definition evict_locked :: "groupCacheKey \<Rightarrow> groupMemberShard \<Rightarrow> groupMemberShard" where
  "evict_locked key s =
     (let s = (case map_of (ms_items s) key of Some el \<Rightarrow> removeLocked el s | None \<Rightarrow> s)
      in s\<lparr>ms_gen := AList.update key (gen_of key s + 1) (ms_gen s)\<rparr>)"

definition put_shard :: "nat \<Rightarrow> groupMemberShard \<Rightarrow> GroupMemberCache \<Rightarrow> GroupMemberCache" where
  "put_shard i s c = c\<lparr>gc_shards := (gc_shards c)(i := s)\<rparr>"

definition cache_lookup :: "int \<Rightarrow> string \<Rightarrow> string \<Rightarrow> GroupMemberCache \<Rightarrow> lookup \<times> GroupMemberCache" where
  "cache_lookup now appID gid c =
     (let i = groupShardOf appID gid
      in case lookup_locked now (GroupKey appID gid) (gc_shards c i) of (r, s) \<Rightarrow> (r, put_shard i s c))"

definition fill :: "int \<Rightarrow> string \<Rightarrow> string \<Rightarrow> GoSlice \<Rightarrow> nat \<Rightarrow> GroupMemberCache \<Rightarrow> GroupMemberCache option" where
  "fill now appID gid members gen c =
     (let i = groupShardOf appID gid; quota = gc_maxEntries c div int groupCacheShards
      in map_option (\<lambda>s. put_shard i s c)
           (fill_locked quota (if members = None then gc_negativeTTL c else gc_ttl c) now (GroupKey appID gid) members gen (gc_shards c i)))"

definition evict_topology :: "string \<Rightarrow> string \<Rightarrow> GroupMemberCache \<Rightarrow> GroupMemberCache" where
  "evict_topology appID gid c =
     (let appID = NormalizeAppID appID; i = groupShardOf appID gid
      in put_shard i (evict_locked (GroupKey appID gid) (gc_shards c i)) c)"

definition InvalidateTopology :: "string \<Rightarrow> string \<Rightarrow> GroupMemberCache \<Rightarrow> GroupMemberCache" where
  "InvalidateTopology appID groupID c = evict_topology appID groupID c"

definition SetInvalidateNotifier :: "GroupMemberCache \<Rightarrow> GroupMemberCache" where
  "SetInvalidateNotifier c = c\<lparr>gc_onInvalidate := True\<rparr>"

text \<open>The calls of the notifier are the second component.\<close>

definition invalidateLocal :: "string \<Rightarrow> string \<Rightarrow> GroupMemberCache \<Rightarrow> GroupMemberCache \<times> groupCacheKey list" where
  "invalidateLocal appID gid c =
     (let appID = NormalizeAppID appID; c = evict_topology appID gid c
      in (c, if gc_onInvalidate c then [(GroupKey appID gid)] else []))"

section \<open>Operations of the decorated store\<close>

type_synonym members_map = "(string, GoSlice) gomap"

definition collect_one :: "int \<Rightarrow> string \<Rightarrow> string \<Rightarrow> GroupMemberCache \<times> members_map \<times> string list \<times> (string, nat) gomap
    \<Rightarrow> GroupMemberCache \<times> members_map \<times> string list \<times> (string, nat) gomap" where
  "collect_one now appID gid st =
     (case st of (c, result, misses, gens) \<Rightarrow>
        case cache_lookup now appID gid c of
          (Hit members, c) \<Rightarrow> (c, if members \<noteq> None then AList.update gid members result else result, misses, gens)
        | (Miss g, c) \<Rightarrow> (c, result, misses @ [gid], AList.update gid g gens))"

definition fill_one :: "int \<Rightarrow> string \<Rightarrow> members_map \<Rightarrow> (string, nat) gomap \<Rightarrow> string
    \<Rightarrow> (GroupMemberCache \<times> members_map) option \<Rightarrow> (GroupMemberCache \<times> members_map) option" where
  "fill_one later appID fresh gens gid st =
     (case st of None \<Rightarrow> None
      | Some (c, result) \<Rightarrow>
          let gen = (case map_of gens gid of None \<Rightarrow> 0 | Some g \<Rightarrow> g)
          in case map_of fresh gid of
               None \<Rightarrow> map_option (\<lambda>c. (c, result)) (fill later appID gid None gen c)
             | Some members \<Rightarrow>
                 if int (length (slice members)) > gc_maxMembers c then Some (c, AList.update gid members result)
                 else map_option (\<lambda>c. (c, AList.update gid members result)) (fill later appID gid members gen c))"

definition GetMultiGroupMembers :: "int \<Rightarrow> int \<Rightarrow> (string \<Rightarrow> string list \<Rightarrow> 'e + members_map) \<Rightarrow> string \<Rightarrow> string list
    \<Rightarrow> GroupMemberCache \<Rightarrow> (('e + members_map) \<times> GroupMemberCache) option" where
  "GetMultiGroupMembers now later load appID groupIDs c =
     (if groupIDs = [] then Some (Inr [], c)
      else let appID = NormalizeAppID appID
           in case fold (collect_one now appID) groupIDs (c, [], [], []) of
                (c, result, misses, gens) \<Rightarrow>
                  if misses = [] then Some (Inr result, c)
                  else case load appID misses of
                         Inl err \<Rightarrow> Some (Inl err, c)
                       | Inr fresh \<Rightarrow>
                           map_option (\<lambda>(c, result). (Inr result, c))
                             (fold (fill_one later appID fresh gens) misses (Some (c, result))))"

text \<open>
  The writes of the store: error and new state come from the decorated store, and the entry is
  evicted whether the write succeeded or not.
\<close>

definition write_through :: "('st \<Rightarrow> 'e option \<times> 'st) \<Rightarrow> string \<Rightarrow> string \<Rightarrow> GroupMemberCache \<Rightarrow> 'st
    \<Rightarrow> 'e option \<times> (GroupMemberCache \<times> groupCacheKey list) \<times> 'st" where
  "write_through inner appID groupID c st =
     (case inner st of (err, st) \<Rightarrow> (err, invalidateLocal appID groupID c, st))"

definition AddMembers :: "(string \<Rightarrow> string \<Rightarrow> string \<Rightarrow> string list \<Rightarrow> 'st \<Rightarrow> 'e option \<times> 'st) \<Rightarrow> string \<Rightarrow> string \<Rightarrow> string
    \<Rightarrow> string list \<Rightarrow> GroupMemberCache \<Rightarrow> 'st \<Rightarrow> 'e option \<times> (GroupMemberCache \<times> groupCacheKey list) \<times> 'st" where
  "AddMembers inner appID namespace groupID userIDs = write_through (inner appID namespace groupID userIDs) appID groupID"

definition RemoveMembers :: "(string \<Rightarrow> string \<Rightarrow> string \<Rightarrow> string list \<Rightarrow> 'st \<Rightarrow> 'e option \<times> 'st) \<Rightarrow> string \<Rightarrow> string \<Rightarrow> string
    \<Rightarrow> string list \<Rightarrow> GroupMemberCache \<Rightarrow> 'st \<Rightarrow> 'e option \<times> (GroupMemberCache \<times> groupCacheKey list) \<times> 'st" where
  "RemoveMembers inner appID namespace groupID userIDs = write_through (inner appID namespace groupID userIDs) appID groupID"

definition EnsureSystemGroup :: "(string \<Rightarrow> string \<Rightarrow> string \<Rightarrow> 'st \<Rightarrow> 'e option \<times> 'st) \<Rightarrow> string \<Rightarrow> string \<Rightarrow> string
    \<Rightarrow> GroupMemberCache \<Rightarrow> 'st \<Rightarrow> 'e option \<times> (GroupMemberCache \<times> groupCacheKey list) \<times> 'st" where
  "EnsureSystemGroup inner appID namespace groupID = write_through (inner appID namespace groupID) appID groupID"

definition DisbandGroup :: "(string \<Rightarrow> string \<Rightarrow> string \<Rightarrow> 'st \<Rightarrow> 'e option \<times> 'st) \<Rightarrow> string \<Rightarrow> string \<Rightarrow> string
    \<Rightarrow> GroupMemberCache \<Rightarrow> 'st \<Rightarrow> 'e option \<times> (GroupMemberCache \<times> groupCacheKey list) \<times> 'st" where
  "DisbandGroup inner appID namespace groupID = write_through (inner appID namespace groupID) appID groupID"

text \<open>A group is read for its application and group id here; \<open>None\<close> is a nil group.\<close>

definition CreateGroup :: "((string \<times> string) option \<Rightarrow> 'st \<Rightarrow> 'e option \<times> 'st) \<Rightarrow> (string \<times> string) option
    \<Rightarrow> GroupMemberCache \<Rightarrow> 'st \<Rightarrow> 'e option \<times> (GroupMemberCache \<times> groupCacheKey list) \<times> 'st" where
  "CreateGroup inner grp c st =
     (case grp of
        None \<Rightarrow> (case inner None st of (err, st) \<Rightarrow> (err, (c, []), st))
      | Some (appID, groupID) \<Rightarrow> write_through (inner grp) appID groupID c st)"

section \<open>The broadcaster\<close>

definition invalidationShards :: nat where "invalidationShards = 64"

definition DefaultGroupInvalidationFlushInterval :: int where "DefaultGroupInvalidationFlushInterval = 100 * 10 ^ 6"

record InvalidationBroadcaster =
  ib_interval :: int
  ib_shards :: "nat \<Rightarrow> (groupCacheKey, unit) gomap"

definition NewInvalidationBroadcaster :: "int \<Rightarrow> InvalidationBroadcaster" where
  "NewInvalidationBroadcaster interval =
     \<lparr>ib_interval = (if interval > 0 then interval else DefaultGroupInvalidationFlushInterval), ib_shards = \<lambda>_. []\<rparr>"

definition invShardOf :: "string \<Rightarrow> string \<Rightarrow> nat" where
  "invShardOf appID gid = unat (fnvString (fnvString fnv_offset32 appID) gid AND 63)"

definition MarkDirty :: "string \<Rightarrow> string \<Rightarrow> InvalidationBroadcaster \<Rightarrow> InvalidationBroadcaster" where
  "MarkDirty appID gid b =
     (let i = invShardOf appID gid
      in b\<lparr>ib_shards := (ib_shards b)(i := AList.update (GroupKey appID gid) () (ib_shards b i))\<rparr>)"

text \<open>The locked part of \<open>Flush\<close> for one shard, the grouping by application, and the publications in
  the order in which the map of applications is visited.\<close>

definition swap_dirty :: "nat \<Rightarrow> InvalidationBroadcaster \<Rightarrow> groupCacheKey list \<times> InvalidationBroadcaster" where
  "swap_dirty i b = (gm_keys (ib_shards b i), b\<lparr>ib_shards := (ib_shards b)(i := [])\<rparr>)"

definition by_app :: "groupCacheKey \<Rightarrow> (string, string list) gomap \<Rightarrow> (string, string list) gomap" where
  "by_app k byApp =
     AList.update (gk_appID k) ((case map_of byApp (gk_appID k) of None \<Rightarrow> [] | Some gids \<Rightarrow> gids) @ [gk_gid k]) byApp"

definition inv_flush_shard :: "nat \<Rightarrow> (string, string list) gomap \<times> InvalidationBroadcaster
    \<Rightarrow> (string, string list) gomap \<times> InvalidationBroadcaster" where
  "inv_flush_shard i st =
     (case st of (byApp, b) \<Rightarrow> case swap_dirty i b of (dirty, b) \<Rightarrow> (fold by_app dirty byApp, b))"

definition Flush :: "InvalidationBroadcaster \<Rightarrow> (string \<times> string list) list \<times> InvalidationBroadcaster" where
  "Flush b =
     (case fold inv_flush_shard [0..<invalidationShards] ([], b) of
        (byApp, b) \<Rightarrow> (map (\<lambda>(appID, gids). (appID, sort gids)) byApp, b))"


section \<open>Readers and writers on several nodes\<close>

text \<open>
  \<open>cc_store\<close> is the store: the members of a group, or nothing.  A thread belongs to the node in its
  program counter.  \<open>cc_taken\<close> holds what a flush has taken out of the shards of a node and not yet
  published, \<open>cc_net\<close> what is on its way to a node, \<open>cc_lost\<close> what a failed publication dropped.
\<close>

datatype cc_pc = CIdle | Missed nat groupCacheKey nat | Loaded nat groupCacheKey nat "GoSlice option" | Wrote nat groupCacheKey
  | Evicted nat groupCacheKey

record cc_state =
  cc_store :: "groupCacheKey \<Rightarrow> GoSlice option"
  cc_cache :: "nat \<Rightarrow> GroupMemberCache"
  cc_bcast :: "nat \<Rightarrow> InvalidationBroadcaster"
  cc_taken :: "nat \<Rightarrow> groupCacheKey list"
  cc_net :: "nat \<Rightarrow> groupCacheKey list"
  cc_lost :: "groupCacheKey set"
  cc_threads :: "cc_pc list"

definition answer :: "GoSlice option \<Rightarrow> GoSlice" where
  "answer v = (case v of None \<Rightarrow> None | Some members \<Rightarrow> members)"

inductive cc_step :: "cc_state \<Rightarrow> cc_state \<Rightarrow> bool" where
  hit: "cache_lookup now (NormalizeAppID appID) gid (cc_cache s n) = (Hit members, c) \<Longrightarrow>
    cc_step s (s\<lparr>cc_cache := (cc_cache s)(n := c)\<rparr>)"
| miss: "i < length (cc_threads s) \<Longrightarrow> cc_threads s ! i = CIdle \<Longrightarrow>
    cache_lookup now (NormalizeAppID appID) gid (cc_cache s n) = (Miss g, c) \<Longrightarrow>
    cc_step s (s\<lparr>cc_cache := (cc_cache s)(n := c), cc_threads := (cc_threads s)[i := Missed n (GroupKey (NormalizeAppID appID) gid) g]\<rparr>)"
| load: "i < length (cc_threads s) \<Longrightarrow> cc_threads s ! i = Missed n k g \<Longrightarrow>
    cc_step s (s\<lparr>cc_threads := (cc_threads s)[i := Loaded n k g (cc_store s k)]\<rparr>)"
| refill: "i < length (cc_threads s) \<Longrightarrow> cc_threads s ! i = Loaded n (GroupKey appID gid) g v \<Longrightarrow>
    int (length (slice (answer v))) \<le> gc_maxMembers (cc_cache s n) \<Longrightarrow>
    fill now appID gid (answer v) g (cc_cache s n) = Some c \<Longrightarrow>
    cc_step s (s\<lparr>cc_cache := (cc_cache s)(n := c), cc_threads := (cc_threads s)[i := CIdle]\<rparr>)"
| large: "i < length (cc_threads s) \<Longrightarrow> cc_threads s ! i = Loaded n (GroupKey appID gid) g v \<Longrightarrow>
    int (length (slice (answer v))) > gc_maxMembers (cc_cache s n) \<Longrightarrow>
    cc_step s (s\<lparr>cc_threads := (cc_threads s)[i := CIdle]\<rparr>)"
| store_write: "i < length (cc_threads s) \<Longrightarrow> cc_threads s ! i = CIdle \<Longrightarrow>
    cc_step s (s\<lparr>cc_store := (cc_store s)((GroupKey (NormalizeAppID appID) gid) := v),
      cc_threads := (cc_threads s)[i := Wrote n (GroupKey (NormalizeAppID appID) gid)]\<rparr>)"
| local_evict: "i < length (cc_threads s) \<Longrightarrow> cc_threads s ! i = Wrote n (GroupKey appID gid) \<Longrightarrow>
    cc_step s (s\<lparr>cc_cache := (cc_cache s)(n := evict_topology appID gid (cc_cache s n)),
      cc_threads := (cc_threads s)[i := Evicted n (GroupKey appID gid)]\<rparr>)"
| mark: "i < length (cc_threads s) \<Longrightarrow> cc_threads s ! i = Evicted n (GroupKey appID gid) \<Longrightarrow>
    cc_step s (s\<lparr>cc_bcast := (cc_bcast s)(n := MarkDirty appID gid (cc_bcast s n)), cc_threads := (cc_threads s)[i := CIdle]\<rparr>)"
| flush_swap: "swap_dirty j (cc_bcast s n) = (dirty, b) \<Longrightarrow>
    cc_step s (s\<lparr>cc_bcast := (cc_bcast s)(n := b), cc_taken := (cc_taken s)(n := cc_taken s n @ dirty)\<rparr>)"
| publish: "cc_step s (s\<lparr>cc_taken := (cc_taken s)(n := filter (\<lambda>k. gk_appID k \<noteq> appID) (cc_taken s n)),
      cc_net := (\<lambda>m. if m = n then cc_net s m else cc_net s m @ filter (\<lambda>k. gk_appID k = appID) (cc_taken s n))\<rparr>)"
| publish_fails: "cc_step s (s\<lparr>cc_taken := (cc_taken s)(n := filter (\<lambda>k. gk_appID k \<noteq> appID) (cc_taken s n)),
      cc_lost := cc_lost s \<union> {k \<in> set (cc_taken s n). gk_appID k = appID}\<rparr>)"
| remote_evict: "(GroupKey appID gid) \<in> set (cc_net s n) \<Longrightarrow>
    cc_step s (s\<lparr>cc_cache := (cc_cache s)(n := InvalidateTopology appID gid (cc_cache s n)),
      cc_net := (cc_net s)(n := remove1 (GroupKey appID gid) (cc_net s n))\<rparr>)"

definition cc_init :: "cc_state \<Rightarrow> bool" where
  "cc_init s \<longleftrightarrow>
     (\<forall>n. \<exists>ttl neg entries members. cc_cache s n = SetInvalidateNotifier (NewGroupMemberCache ttl neg entries members)) \<and>
     (\<forall>n. \<exists>interval. cc_bcast s n = NewInvalidationBroadcaster interval) \<and>
     cc_taken s = (\<lambda>_. []) \<and> cc_net s = (\<lambda>_. []) \<and> cc_lost s = {} \<and> list_all (\<lambda>pc. pc = CIdle) (cc_threads s)"

section \<open>One shard\<close>

declare map_of_eq_Some_iff [simp del]

text \<open>What a shard holds under a key, and when index and list agree.\<close>

definition held_entry :: "groupMemberShard \<Rightarrow> groupCacheKey \<Rightarrow> groupCacheEntry option" where
  "held_entry s k = map_option (ms_elems s) (map_of (ms_items s) k)"

definition shard_ok :: "groupMemberShard \<Rightarrow> bool" where
  "shard_ok s \<longleftrightarrow> distinct (ms_lru s) \<and> gm_wf (ms_items s) \<and> (\<forall>el \<in> set (ms_lru s). el < ms_next s) \<and>
     (\<forall>k el. map_of (ms_items s) k = Some el \<longleftrightarrow> el \<in> set (ms_lru s) \<and> ge_key (ms_elems s el) = k)"

lemma shard_okD:
  assumes "shard_ok s"
  shows "distinct (ms_lru s)" "gm_wf (ms_items s)" "el \<in> set (ms_lru s) \<Longrightarrow> el < ms_next s"
    "map_of (ms_items s) k = Some el \<longleftrightarrow> el \<in> set (ms_lru s) \<and> ge_key (ms_elems s el) = k"
  using assms by (auto simp: shard_ok_def)

lemma shard_ok_new [simp]: "shard_ok new_shard"
  by (simp add: shard_ok_def new_shard_def)

lemma removeLocked_ok:
  assumes "shard_ok s" and "el \<in> set (ms_lru s)"
  shows "shard_ok (removeLocked el s)"
    and "held_entry (removeLocked el s) k = (if k = ge_key (ms_elems s el) then None else held_entry s k)"
    and "length (ms_lru (removeLocked el s)) = length (ms_lru s) - 1"
    and "gen_of k (removeLocked el s) = gen_of k s"
proof -
  note ok = shard_okD [OF assms(1)]
  have "map_of (ms_items s) (ge_key (ms_elems s el)) = Some el" using ok(4) assms(2) by simp
  then have uniq: "e = el" if "e \<in> set (ms_lru s)" "ge_key (ms_elems s e) = ge_key (ms_elems s el)" for e
    using ok(4) [of "ge_key (ms_elems s e)" e] that by simp
  have "map_of (AList.delete (ge_key (ms_elems s el)) (ms_items s)) k = Some e \<longleftrightarrow>
      e \<in> set (remove1 el (ms_lru s)) \<and> ge_key (ms_elems s e) = k" for k e
    by (cases "k = ge_key (ms_elems s el)") (use uniq ok(1) ok(4) [of k e] in \<open>auto simp: map_of_delete\<close>)
  then show "shard_ok (removeLocked el s)"
    using ok(1-3) by (simp add: shard_ok_def removeLocked_def)
qed (use assms in \<open>auto simp: held_entry_def removeLocked_def map_of_delete length_remove1 gen_of_def\<close>)

lemma touch_ok:
  assumes "shard_ok s"
  shows "shard_ok (s\<lparr>ms_lru := MoveToFront el (ms_lru s)\<rparr>)" "length (MoveToFront el (ms_lru s)) = length (ms_lru s)"
  using shard_okD(1) [OF assms] assms
  by (auto simp: shard_ok_def MoveToFront_def) (metis length_remove1 length_pos_if_in_set Suc_pred One_nat_def)

lemma lookup_ok:
  assumes ok: "shard_ok s" and run: "lookup_locked now key s = (r, s')"
  shows "shard_ok s'" "length (ms_lru s') \<le> length (ms_lru s)" "gen_of k s' = gen_of k s"
    "held_entry s' k = held_entry s k \<or> held_entry s' k = None"
    "r = Hit members \<Longrightarrow> \<exists>e. held_entry s key = Some e \<and> ge_members e = members"
    "r = Miss g \<Longrightarrow> g = gen_of key s"
proof -
  have "shard_ok s' \<and> length (ms_lru s') \<le> length (ms_lru s) \<and> gen_of k s' = gen_of k s \<and>
    (held_entry s' k = held_entry s k \<or> held_entry s' k = None)"
  proof (cases "map_of (ms_items s) key")
    case (Some el)
    with shard_okD(4) [OF ok] have el: "el \<in> set (ms_lru s)" by simp
    show ?thesis
      using run Some removeLocked_ok [OF ok el] touch_ok [OF ok, of el]
      by (cases "ge_expireAt (ms_elems s el) < now") (auto simp: lookup_locked_def held_entry_def [of "s\<lparr>ms_lru := _\<rparr>"] held_entry_def [of s] gen_of_def)
  qed (use run ok in \<open>auto simp: lookup_locked_def\<close>)
  then show "shard_ok s'" "length (ms_lru s') \<le> length (ms_lru s)" "gen_of k s' = gen_of k s"
    "held_entry s' k = held_entry s k \<or> held_entry s' k = None" by auto
  show "r = Hit members \<Longrightarrow> \<exists>e. held_entry s key = Some e \<and> ge_members e = members" "r = Miss g \<Longrightarrow> g = gen_of key s"
    using run by (auto simp: lookup_locked_def held_entry_def split: option.splits if_splits)
qed

lemma shrink_ok:
  assumes "shrink quota s = Some s'" and "shard_ok s"
  shows "shard_ok s'" "int (length (ms_lru s')) < quota" "gen_of k s' = gen_of k s" "ms_next s' = ms_next s"
    "held_entry s' k = held_entry s k \<or> held_entry s' k = None"
proof -
  have "shard_ok s' \<and> int (length (ms_lru s')) < quota \<and> gen_of k s' = gen_of k s \<and> ms_next s' = ms_next s \<and>
    (held_entry s' k = held_entry s k \<or> held_entry s' k = None)"
    using assms
  proof (induction quota s rule: shrink.induct)
    case (1 quota s)
    show ?case
    proof (cases "int (length (ms_lru s)) \<ge> quota \<and> ms_lru s \<noteq> []")
      case True
      then have el: "last (ms_lru s) \<in> set (ms_lru s)" by simp
      let ?t = "removeLocked (last (ms_lru s)) s"
      have "shrink quota ?t = Some s'" using "1.prems"(1) True by (simp add: shrink.simps [of quota s])
      then have "shard_ok s' \<and> int (length (ms_lru s')) < quota \<and> gen_of k s' = gen_of k ?t \<and> ms_next s' = ms_next ?t \<and>
          (held_entry s' k = held_entry ?t k \<or> held_entry s' k = None)"
        using 1 True removeLocked_ok(1) [OF "1.prems"(2) el] by simp
      moreover have "ms_next ?t = ms_next s" by (simp add: removeLocked_def)
      ultimately show ?thesis
        using removeLocked_ok(2) [OF "1.prems"(2) el, of k] removeLocked_ok(4) [OF "1.prems"(2) el, of k] by (auto split: if_splits)
    next
      case False
      with 1 show ?thesis by (auto simp: shrink.simps [of quota s] split: if_splits)
    qed
  qed
  then show "shard_ok s'" "int (length (ms_lru s')) < quota" "gen_of k s' = gen_of k s" "ms_next s' = ms_next s"
    "held_entry s' k = held_entry s k \<or> held_entry s' k = None" by auto
qed

lemma shrink_total: "1 \<le> quota \<Longrightarrow> \<exists>s'. shrink quota s = Some s'"
  by (induction quota s rule: shrink.induct) (subst shrink.simps, auto)

lemma fill_ok:
  assumes ok: "shard_ok s" and run: "fill_locked quota ttl now key members g s = Some s'" and q: "int (length (ms_lru s)) \<le> quota"
  shows "shard_ok s'" "int (length (ms_lru s')) \<le> quota" "gen_of k s' = gen_of k s"
    "k \<noteq> key \<Longrightarrow> held_entry s' k = held_entry s k \<or> held_entry s' k = None"
    "held_entry s' key = (if gen_of key s = g then Some \<lparr>ge_key = key, ge_members = members, ge_expireAt = now + ttl\<rparr> else held_entry s key)"
proof -
  let ?e = "\<lparr>ge_key = key, ge_members = members, ge_expireAt = now + ttl\<rparr>"
  have "shard_ok s' \<and> int (length (ms_lru s')) \<le> quota \<and> gen_of k s' = gen_of k s \<and>
    (k \<noteq> key \<longrightarrow> held_entry s' k = held_entry s k \<or> held_entry s' k = None) \<and>
    held_entry s' key = (if gen_of key s = g then Some ?e else held_entry s key)"
  proof (cases "gen_of key s = g")
    case False
    with run ok q show ?thesis by (simp add: fill_locked_def)
  next
    case True
    show ?thesis
    proof (cases "map_of (ms_items s) key")
      case (Some el)
      note o = shard_okD [OF ok] and el = Some [unfolded shard_okD(4) [OF ok]]
      have e: "(ms_elems s el)\<lparr>ge_members := members, ge_expireAt := now + ttl\<rparr> = ?e" using el by simp
      define t where "t = s\<lparr>ms_elems := (ms_elems s)(el := ?e)\<rparr>"
      have "shard_ok t" using ok el by (auto simp: shard_ok_def t_def)
      note t = touch_ok [OF this, of el]
      have s': "s' = t\<lparr>ms_lru := MoveToFront el (ms_lru t)\<rparr>" using run True Some e by (simp add: fill_locked_def t_def)
      have other: "map_of (ms_items s) k \<noteq> Some el" if "k \<noteq> key" using o(4) [of k el] el that by simp
      show ?thesis using t q other Some True by (auto simp: s' t_def held_entry_def gen_of_def map_option_case split: option.splits)
    next
      case None
      with run True obtain t where t: "shrink quota s = Some t" and
        s': "s' = t\<lparr>ms_elems := (ms_elems t)(ms_next t := ?e), ms_next := Suc (ms_next t), ms_lru := ms_next t # ms_lru t,
               ms_items := AList.update key (ms_next t) (ms_items t)\<rparr>"
        by (auto simp: fill_locked_def split: option.splits)
      note o = shrink_ok [OF t ok] and ot = shard_okD [OF shrink_ok(1) [OF t ok]]
      have fresh: "ms_next t \<notin> set (ms_lru t)" using ot(3) by blast
      have absent: "map_of (ms_items t) key = None" using None o(5) [of key] by (auto simp: held_entry_def)
      have "map_of (AList.update key (ms_next t) (ms_items t)) k = Some el \<longleftrightarrow>
          el \<in> set (ms_next t # ms_lru t) \<and> ge_key (((ms_elems t)(ms_next t := ?e)) el) = k" for k el
        using ot(4) [of k el] ot(4) [of key el] absent fresh by (auto simp: map_of_update)
      then have "shard_ok s'" using ot(1-3) fresh by (auto simp: shard_ok_def s' less_Suc_eq)
      moreover have other: "held_entry s' k = held_entry t k" if "k \<noteq> key"
      proof (cases "map_of (ms_items t) k")
        case (Some el)
        with ot(4) fresh have "el \<noteq> ms_next t" by blast
        with Some that show ?thesis by (simp add: held_entry_def s' map_of_update)
      qed (use that in \<open>simp add: held_entry_def s' map_of_update\<close>)
      moreover have "held_entry s' key = Some ?e" by (simp add: held_entry_def s' map_of_update)
      moreover have "gen_of k s' = gen_of k t" by (simp add: gen_of_def s')
      moreover have "int (length (ms_lru s')) \<le> quota" using o(2) by (simp add: s')
      ultimately show ?thesis using o(3) [of k] o(5) [of k] True by simp
    qed
  qed
  then show "shard_ok s'" "int (length (ms_lru s')) \<le> quota" "gen_of k s' = gen_of k s"
    "k \<noteq> key \<Longrightarrow> held_entry s' k = held_entry s k \<or> held_entry s' k = None"
    "held_entry s' key = (if gen_of key s = g then Some ?e else held_entry s key)" by auto
qed

lemma evict_ok:
  assumes ok: "shard_ok s"
  shows "shard_ok (evict_locked key s)" "length (ms_lru (evict_locked key s)) \<le> length (ms_lru s)"
    "held_entry (evict_locked key s) k = (if k = key then None else held_entry s k)"
    "gen_of k (evict_locked key s) = (if k = key then gen_of k s + 1 else gen_of k s)"
proof -
  define t where "t = (case map_of (ms_items s) key of Some el \<Rightarrow> removeLocked el s | None \<Rightarrow> s)"
  have e: "evict_locked key s = t\<lparr>ms_gen := AList.update key (gen_of key t + 1) (ms_gen t)\<rparr>"
    by (simp add: evict_locked_def t_def Let_def)
  have "shard_ok t \<and> length (ms_lru t) \<le> length (ms_lru s) \<and> held_entry t k = (if k = key then None else held_entry s k) \<and>
      gen_of k t = gen_of k s" for k
  proof (cases "map_of (ms_items s) key")
    case (Some el)
    with shard_okD(4) [OF ok] have "el \<in> set (ms_lru s)" "ge_key (ms_elems s el) = key" by auto
    with removeLocked_ok [OF ok] Some show ?thesis by (simp add: t_def)
  qed (use ok in \<open>simp add: t_def held_entry_def\<close>)
  then show "shard_ok (evict_locked key s)" "length (ms_lru (evict_locked key s)) \<le> length (ms_lru s)"
    "held_entry (evict_locked key s) k = (if k = key then None else held_entry s k)"
    "gen_of k (evict_locked key s) = (if k = key then gen_of k s + 1 else gen_of k s)"
    by (auto simp: e shard_ok_def held_entry_def gen_of_def map_of_update)
qed

section \<open>The whole cache\<close>

definition shard_at :: "GroupMemberCache \<Rightarrow> groupCacheKey \<Rightarrow> groupMemberShard" where
  "shard_at c k = gc_shards c (groupShardOf (gk_appID k) (gk_gid k))"

definition cached :: "GroupMemberCache \<Rightarrow> groupCacheKey \<Rightarrow> groupCacheEntry option" where
  "cached c k = held_entry (shard_at c k) k"

definition cgen :: "GroupMemberCache \<Rightarrow> groupCacheKey \<Rightarrow> nat" where
  "cgen c k = gen_of k (shard_at c k)"

definition quota :: "GroupMemberCache \<Rightarrow> int" where
  "quota c = gc_maxEntries c div int groupCacheShards"

definition cache_ok :: "GroupMemberCache \<Rightarrow> bool" where
  "cache_ok c \<longleftrightarrow> 1 \<le> quota c \<and> (\<forall>i. shard_ok (gc_shards c i) \<and> int (length (ms_lru (gc_shards c i))) \<le> quota c)"

definition same_config :: "GroupMemberCache \<Rightarrow> GroupMemberCache \<Rightarrow> bool" where
  "same_config c c' \<longleftrightarrow> gc_ttl c' = gc_ttl c \<and> gc_negativeTTL c' = gc_negativeTTL c \<and> gc_maxEntries c' = gc_maxEntries c \<and>
     gc_maxMembers c' = gc_maxMembers c \<and> gc_onInvalidate c' = gc_onInvalidate c"

lemma put_shard_simps [simp]:
  "quota (put_shard i s c) = quota c" "same_config c (put_shard i s c)" "gc_maxMembers (put_shard i s c) = gc_maxMembers c"
  "gc_shards (put_shard i s c) j = (if j = i then s else gc_shards c j)"
  by (simp_all add: put_shard_def quota_def same_config_def)

lemma put_shard_ok: "cache_ok c \<Longrightarrow> shard_ok s \<Longrightarrow> int (length (ms_lru s)) \<le> quota c \<Longrightarrow> cache_ok (put_shard i s c)"
  by (simp add: cache_ok_def)

lemma cache_okD:
  assumes "cache_ok c"
  shows "shard_ok (gc_shards c i)" "shard_ok (shard_at c k)" "int (length (ms_lru (gc_shards c i))) \<le> quota c" "1 \<le> quota c"
  using assms by (simp_all add: cache_ok_def shard_at_def)

lemma cache_ok_new [simp]: "cache_ok (SetInvalidateNotifier (NewGroupMemberCache ttl neg entries members))"
  by (simp add: cache_ok_def quota_def SetInvalidateNotifier_def NewGroupMemberCache_def Let_def groupCacheShards_def)
    (simp add: new_shard_def le_max_iff_disj)

lemma cached_new [simp]: "cached (SetInvalidateNotifier (NewGroupMemberCache ttl neg entries members)) k = None"
  by (simp add: cached_def shard_at_def SetInvalidateNotifier_def NewGroupMemberCache_def Let_def new_shard_def held_entry_def)

lemma cache_lookup_ok:
  assumes ok: "cache_ok c" and run: "cache_lookup now appID gid c = (r, c')"
  shows "cache_ok c'" "same_config c c'" "cgen c' k = cgen c k" "cached c' k = cached c k \<or> cached c' k = None"
    "r = Hit members \<Longrightarrow> \<exists>e. cached c (GroupKey appID gid) = Some e \<and> ge_members e = members"
    "r = Miss g \<Longrightarrow> g = cgen c (GroupKey appID gid)"
proof -
  obtain s where l: "lookup_locked now (GroupKey appID gid) (gc_shards c (groupShardOf appID gid)) = (r, s)" and
    c': "c' = put_shard (groupShardOf appID gid) s c"
    using run by (auto simp: cache_lookup_def Let_def split: prod.splits)
  note o = lookup_ok [OF cache_okD(1) [OF ok] l]
  show "cache_ok c'" unfolding c' using o(1,2) cache_okD(3) [OF ok, of "groupShardOf appID gid"] by (intro put_shard_ok [OF ok]) auto
  show "same_config c c'" "cgen c' k = cgen c k" "cached c' k = cached c k \<or> cached c' k = None"
    using o(3) [of k] o(4) [of k] by (auto simp: c' cgen_def cached_def shard_at_def)
  show "r = Hit members \<Longrightarrow> \<exists>e. cached c (GroupKey appID gid) = Some e \<and> ge_members e = members"
    "r = Miss g \<Longrightarrow> g = cgen c (GroupKey appID gid)"
    using o(5,6) by (auto simp: cached_def cgen_def shard_at_def)
qed

lemma cache_fill_ok:
  assumes ok: "cache_ok c" and run: "fill now appID gid members g c = Some c'"
  shows "cache_ok c'" "same_config c c'" "cgen c' k = cgen c k"
    "k \<noteq> (GroupKey appID gid) \<Longrightarrow> cached c' k = cached c k \<or> cached c' k = None"
    "cached c' (GroupKey appID gid) = (if cgen c (GroupKey appID gid) = g
       then Some \<lparr>ge_key = (GroupKey appID gid), ge_members = members, ge_expireAt = now + (if members = None then gc_negativeTTL c else gc_ttl c)\<rparr>
       else cached c (GroupKey appID gid))"
proof -
  let ?i = "groupShardOf appID gid" and ?ttl = "if members = None then gc_negativeTTL c else gc_ttl c"
  obtain s where l: "fill_locked (quota c) ?ttl now (GroupKey appID gid) members g (gc_shards c ?i) = Some s" and c': "c' = put_shard ?i s c"
    using run by (auto simp: fill_def Let_def quota_def)
  note o = fill_ok [OF cache_okD(1) [OF ok] l cache_okD(3) [OF ok]]
  show "cache_ok c'" unfolding c' using o(1,2) by (intro put_shard_ok [OF ok]) auto
  show "same_config c c'" "cgen c' k = cgen c k" "k \<noteq> (GroupKey appID gid) \<Longrightarrow> cached c' k = cached c k \<or> cached c' k = None"
    using o(3) [of k] o(4) [of k] by (auto simp: c' cgen_def cached_def shard_at_def)
  show "cached c' (GroupKey appID gid) = (if cgen c (GroupKey appID gid) = g
       then Some \<lparr>ge_key = (GroupKey appID gid), ge_members = members, ge_expireAt = now + ?ttl\<rparr> else cached c (GroupKey appID gid))"
    using o(5) by (simp add: c' cgen_def cached_def shard_at_def)
qed

lemma cache_fill_total: "cache_ok c \<Longrightarrow> \<exists>c'. fill now appID gid members g c = Some c'"
  using shrink_total [OF cache_okD(4), of c "gc_shards c (groupShardOf appID gid)"]
  by (auto simp: fill_def fill_locked_def Let_def quota_def split: option.split)

lemma cache_evict_ok:
  assumes ok: "cache_ok c" and k: "k = (GroupKey (NormalizeAppID appID) gid)"
  shows "cache_ok (evict_topology appID gid c)" "same_config c (evict_topology appID gid c)"
    "cached (evict_topology appID gid c) k' = (if k' = k then None else cached c k')"
    "cgen (evict_topology appID gid c) k' = (if k' = k then cgen c k' + 1 else cgen c k')"
proof -
  let ?i = "groupShardOf (NormalizeAppID appID) gid"
  have e: "evict_topology appID gid c = put_shard ?i (evict_locked k (gc_shards c ?i)) c"
    by (simp add: evict_topology_def Let_def k)
  note o = evict_ok [OF cache_okD(1) [OF ok, of ?i], where key = k]
  show "cache_ok (evict_topology appID gid c)" unfolding e using o(1,2) cache_okD(3) [OF ok, of ?i] by (intro put_shard_ok [OF ok]) auto
  show "same_config c (evict_topology appID gid c)"
    "cached (evict_topology appID gid c) k' = (if k' = k then None else cached c k')"
    "cgen (evict_topology appID gid c) k' = (if k' = k then cgen c k' + 1 else cgen c k')"
    using o(3,4) [of k'] by (auto simp: e cgen_def cached_def shard_at_def k)
qed

section \<open>Coherence\<close>

definition dirty_keys :: "InvalidationBroadcaster \<Rightarrow> groupCacheKey set" where
  "dirty_keys b = {k. \<exists>i. k \<in> set (gm_keys (ib_shards b i))}"

text \<open>An invalidation of \<open>k\<close> has still to reach node \<open>n\<close>.\<close>

definition on_its_way :: "cc_state \<Rightarrow> nat \<Rightarrow> groupCacheKey \<Rightarrow> bool" where
  "on_its_way s n k \<longleftrightarrow> (\<exists>m. Wrote m k \<in> set (cc_threads s)) \<or> (\<exists>m. m \<noteq> n \<and> Evicted m k \<in> set (cc_threads s)) \<or>
     (\<exists>m. m \<noteq> n \<and> (k \<in> dirty_keys (cc_bcast s m) \<or> k \<in> set (cc_taken s m))) \<or> k \<in> set (cc_net s n) \<or> k \<in> cc_lost s"

fun pc_normal :: "cc_pc \<Rightarrow> bool" where
  "pc_normal CIdle = True"
| "pc_normal (Missed n k g) = (gk_appID k \<noteq> [])"
| "pc_normal (Loaded n k g v) = (gk_appID k \<noteq> [])"
| "pc_normal (Wrote n k) = (gk_appID k \<noteq> [])"
| "pc_normal (Evicted n k) = (gk_appID k \<noteq> [])"

definition keys_normal :: "cc_state \<Rightarrow> bool" where
  "keys_normal s \<longleftrightarrow> (\<forall>pc \<in> set (cc_threads s). pc_normal pc) \<and>
     (\<forall>n. \<forall>k \<in> dirty_keys (cc_bcast s n) \<union> set (cc_taken s n) \<union> set (cc_net s n). gk_appID k \<noteq> [])"

fun pc_ok :: "cc_state \<Rightarrow> cc_pc \<Rightarrow> bool" where
  "pc_ok s (Missed n k g) = (g \<le> cgen (cc_cache s n) k)"
| "pc_ok s (Loaded n k g v) = (g \<le> cgen (cc_cache s n) k \<and> (g = cgen (cc_cache s n) k \<longrightarrow> v = cc_store s k \<or> on_its_way s n k))"
| "pc_ok s pc = True"

definition coherent :: "cc_state \<Rightarrow> bool" where
  "coherent s \<longleftrightarrow> (\<forall>n k e. cached (cc_cache s n) k = Some e \<longrightarrow> ge_members e = answer (cc_store s k) \<or> on_its_way s n k)"

definition cc_inv :: "cc_state \<Rightarrow> bool" where
  "cc_inv s \<longleftrightarrow> (\<forall>n. cache_ok (cc_cache s n)) \<and> keys_normal s \<and> coherent s \<and> (\<forall>pc \<in> set (cc_threads s). pc_ok s pc)"

lemma set_upd_keep: "x \<in> set xs \<Longrightarrow> x \<noteq> xs ! i \<Longrightarrow> x \<in> set (xs[i := y])"
  by (metis in_set_conv_nth length_list_update nth_list_update_neq)

lemma upd_cases: "x \<in> set (xs[i := y]) \<Longrightarrow> x \<in> set xs \<or> x = y"
  using set_update_subset_insert by fastforce

lemma dirty_keys_UN: "dirty_keys b = (\<Union>i. fst ` set (ib_shards b i))"
  by (auto simp: dirty_keys_def gm_keys_def)

lemma dirty_keys_mark [simp]: "dirty_keys (MarkDirty appID gid b) = insert (GroupKey appID gid) (dirty_keys b)"
proof -
  let ?i = "invShardOf appID gid"
  have "fst ` set (ib_shards (MarkDirty appID gid b) j) = fst ` set (ib_shards b j) \<union> (if j = ?i then {(GroupKey appID gid)} else {})" for j
    by (simp add: MarkDirty_def Let_def dom_update)
  then show ?thesis by (auto simp: dirty_keys_UN split: if_splits)
qed

lemma dirty_keys_swap:
  assumes "swap_dirty j b = (dirty, b')"
  shows "dirty_keys b' \<union> set dirty = dirty_keys b"
proof -
  have d: "dirty = map fst (ib_shards b j)" and b': "b' = b\<lparr>ib_shards := (ib_shards b)(j := [])\<rparr>"
    using assms by (simp_all add: swap_dirty_def gm_keys_def)
  define D where "D i = fst ` set (ib_shards b i)" for i
  have "fst ` set (ib_shards b' i) = (if i = j then {} else D i)" "set dirty = D j" for i
    by (simp_all add: b' d D_def)
  then show ?thesis by (auto simp: dirty_keys_UN D_def [symmetric] split: if_splits) metis
qed

lemma pc_ok_keep:
  assumes "pc_ok s pc" and "\<And>n k. cgen (cc_cache t n) k = cgen (cc_cache s n) k" and "cc_store t = cc_store s"
    and "\<And>n k. on_its_way s n k \<Longrightarrow> on_its_way t n k"
  shows "pc_ok t pc"
  using assms by (cases pc) auto

text \<open>Steps that change no generation, only drop entries, and leave every announced invalidation announced.\<close>

lemma cc_inv_keep:
  assumes inv: "cc_inv s" and ok: "\<And>n. cache_ok (cc_cache t n)" and norm: "keys_normal t" and st: "cc_store t = cc_store s"
    and gen: "\<And>n k. cgen (cc_cache t n) k = cgen (cc_cache s n) k"
    and drop: "\<And>n k. cached (cc_cache t n) k = cached (cc_cache s n) k \<or> cached (cc_cache t n) k = None"
    and way: "\<And>n k. on_its_way s n k \<Longrightarrow> on_its_way t n k"
    and pcs: "\<And>pc. pc \<in> set (cc_threads t) \<Longrightarrow> pc \<in> set (cc_threads s) \<or> pc_ok t pc"
  shows "cc_inv t"
proof -
  have "coherent t"
    using inv drop st way unfolding cc_inv_def coherent_def by (metis option.distinct(1))
  moreover have "pc_ok t pc" if "pc \<in> set (cc_threads s)" for pc
    by (rule pc_ok_keep [of s]) (use inv that gen st way in \<open>auto simp: cc_inv_def\<close>)
  ultimately show ?thesis using ok norm pcs by (auto simp: cc_inv_def)
qed

text \<open>Steps that evict \<open>k\<close> on node \<open>n\<close>.\<close>

lemma cc_inv_evict:
  assumes inv: "cc_inv s" and norm: "keys_normal t" and st: "cc_store t = cc_store s" and k: "k = (GroupKey (NormalizeAppID appID) gid)"
    and cache: "cc_cache t = (cc_cache s)(n := evict_topology appID gid (cc_cache s n))"
    and way: "\<And>m k'. on_its_way s m k' \<Longrightarrow> on_its_way t m k' \<or> m = n \<and> k' = k"
    and pcs: "\<And>pc. pc \<in> set (cc_threads t) \<Longrightarrow> pc \<in> set (cc_threads s) \<or> pc_ok t pc"
  shows "cc_inv t"
proof -
  have ok: "cache_ok (cc_cache s m)" for m using inv by (simp add: cc_inv_def)
  note e = cache_evict_ok [OF ok k, of n]
  have gen: "cgen (cc_cache t m) k' = (if m = n \<and> k' = k then cgen (cc_cache s m) k' + 1 else cgen (cc_cache s m) k')" for m k'
    using e(4) [of k'] by (auto simp: cache)
  have cac: "cached (cc_cache t m) k' = (if m = n \<and> k' = k then None else cached (cc_cache s m) k')" for m k'
    using e(3) [of k'] by (auto simp: cache)
  have "coherent t"
    using inv st way cac unfolding cc_inv_def coherent_def by (metis option.distinct(1))
  moreover have "pc_ok t pc" if "pc \<in> set (cc_threads s)" for pc
  proof -
    have "pc_ok s pc" using inv that by (simp add: cc_inv_def)
    then show ?thesis using gen st way by (cases pc) (auto split: if_splits)
  qed
  ultimately show ?thesis using ok e(1) norm pcs by (auto simp: cc_inv_def cache)
qed

lemma way_thread:
  assumes "cc_threads t = (cc_threads s)[i := pc]" and "\<And>m. dirty_keys (cc_bcast s m) \<subseteq> dirty_keys (cc_bcast t m)"
    and "cc_taken t = cc_taken s" "cc_net t = cc_net s" "cc_lost t = cc_lost s"
    and "\<And>m. cc_threads s ! i \<noteq> Wrote m k \<and> cc_threads s ! i \<noteq> Evicted m k" and "on_its_way s n k"
  shows "on_its_way t n k"
  using assms(7) unfolding on_its_way_def assms(1,3,4,5) by (metis assms(2,6) set_upd_keep subsetD)

lemma cc_inv_refill:
  assumes inv: "cc_inv s" and refill: "t = s\<lparr>cc_cache := (cc_cache s)(n := c), cc_threads := (cc_threads s)[i := CIdle]\<rparr>"
    "i < length (cc_threads s)"
    "cc_threads s ! i = Loaded n (GroupKey appID gid) g v"
    "int (length (slice (answer v))) \<le> gc_maxMembers (cc_cache s n)"
    "fill now appID gid (answer v) g (cc_cache s n) = Some c"
  shows "cc_inv t"
proof -
  have ok: "cache_ok (cc_cache s m)" for m using inv by (simp add: cc_inv_def)
  have norm: "keys_normal s" using inv by (simp add: cc_inv_def)
  have pcok: "pc_ok s pc" if "pc \<in> set (cc_threads s)" for pc using inv that by (simp add: cc_inv_def)
  let ?k = "(GroupKey appID gid)"
  note f = cache_fill_ok [OF ok refill(5)]
  have pc: "Loaded n ?k g v \<in> set (cc_threads s)" using refill nth_mem by metis
  have way: "on_its_way t m k" if "on_its_way s m k" for m k
    by (rule way_thread [OF _ _ _ _ _ _ that]) (use refill(3) in \<open>auto simp: refill(1)\<close>)
  have "ge_members e = answer (cc_store t k) \<or> on_its_way t m k" if e: "cached (cc_cache t m) k = Some e" for m k e
  proof (cases "m = n \<and> k = ?k \<and> cgen (cc_cache s n) ?k = g")
    case True
    with e f(5) have "ge_members e = answer v" by (auto simp: refill(1))
    with True pcok [OF pc] way show ?thesis by (auto simp: refill(1))
  next
    case False
    with e f(4) [of k] f(5) have "cached (cc_cache s m) k = Some e" by (cases "k = ?k") (auto simp: refill(1) split: if_splits)
    moreover have "cc_store t = cc_store s" by (simp add: refill(1))
    ultimately show ?thesis using inv way unfolding cc_inv_def coherent_def by metis
  qed
  moreover have "pc_ok t pc" if "pc \<in> set (cc_threads s)" for pc
    by (rule pc_ok_keep [OF pcok [OF that]]) (use f(3) way in \<open>auto simp: refill(1)\<close>)
  then have "pc_ok t pc" if "pc \<in> set (cc_threads t)" for pc
    using that upd_cases [of pc "cc_threads s" i CIdle] by (auto simp: refill(1))
  ultimately show ?thesis
    using ok f(1) norm by (auto simp: cc_inv_def coherent_def refill(1) keys_normal_def dest!: upd_cases)
qed

lemma cc_inv_store_write:
  assumes inv: "cc_inv s" and store_write: "t = s\<lparr>cc_store := (cc_store s)((GroupKey (NormalizeAppID appID) gid) := v), cc_threads := (cc_threads s)[i := Wrote n (GroupKey (NormalizeAppID appID) gid)]\<rparr>"
    "i < length (cc_threads s)"
    "cc_threads s ! i = CIdle"
  shows "cc_inv t"
proof -
  have ok: "cache_ok (cc_cache s m)" for m using inv by (simp add: cc_inv_def)
  have norm: "keys_normal s" using inv by (simp add: cc_inv_def)
  have pcok: "pc_ok s pc" if "pc \<in> set (cc_threads s)" for pc using inv that by (simp add: cc_inv_def)
  let ?k = "(GroupKey (NormalizeAppID appID) gid)"
  have wr: "Wrote n ?k \<in> set (cc_threads t)" using store_write(2) by (simp add: store_write(1) set_update_memI)
  then have way: "on_its_way t m ?k" for m by (auto simp: on_its_way_def)
  have keep: "on_its_way t m k" if "on_its_way s m k" for m k
    by (rule way_thread [OF _ _ _ _ _ _ that]) (use store_write(3) in \<open>auto simp: store_write(1)\<close>)
  have st: "cc_store t = (cc_store s)(?k := v)" "cc_cache t = cc_cache s" by (simp_all add: store_write(1))
  have "coherent t"
    using inv way keep unfolding cc_inv_def coherent_def st by (metis fun_upd_other)
  moreover have "pc_ok t pc" if "pc \<in> set (cc_threads s)" for pc
    using pcok [OF that] way keep st by (cases pc) auto
  then have "pc_ok t pc" if "pc \<in> set (cc_threads t)" for pc
    using that upd_cases [of pc "cc_threads s" i "Wrote n ?k"] by (auto simp: store_write(1))
  ultimately show ?thesis
    using ok norm by (auto simp: cc_inv_def store_write(1) keys_normal_def NormalizeAppID_nonempty dest!: upd_cases)
qed

lemma cc_inv_local_evict:
  assumes inv: "cc_inv s" and local_evict: "t = s\<lparr>cc_cache := (cc_cache s)(n := evict_topology appID gid (cc_cache s n)), cc_threads := (cc_threads s)[i := Evicted n (GroupKey appID gid)]\<rparr>"
    "i < length (cc_threads s)"
    "cc_threads s ! i = Wrote n (GroupKey appID gid)"
  shows "cc_inv t"
proof -
  have norm: "keys_normal s" using inv by (simp add: cc_inv_def)
  have "Wrote n (GroupKey appID gid) \<in> set (cc_threads s)" using local_evict nth_mem by metis
  with norm have a: "appID \<noteq> []" by (force simp: keys_normal_def)
  then have k: "(GroupKey appID gid) = (GroupKey (NormalizeAppID appID) gid)" by (simp add: NormalizeAppID_def)
  show ?thesis
  proof (rule cc_inv_evict [OF inv _ _ k])
    have "Evicted n (GroupKey appID gid) \<in> set (cc_threads t)" using local_evict(2) by (simp add: local_evict(1) set_update_memI)
    then have "on_its_way t m (GroupKey appID gid)" if "m \<noteq> n" for m using that by (auto simp: on_its_way_def)
    moreover have "on_its_way t m k'" if "on_its_way s m k'" "k' \<noteq> GroupKey appID gid" for m k'
      by (rule way_thread [OF _ _ _ _ _ _ that(1)]) (use local_evict(3) that(2) in \<open>auto simp: local_evict(1)\<close>)
    ultimately show "on_its_way t m k' \<or> m = n \<and> k' = (GroupKey appID gid)" if "on_its_way s m k'" for m k' using that by metis
  qed (use norm a in \<open>auto simp: local_evict(1) keys_normal_def dest!: upd_cases\<close>)
qed

lemma cc_inv_mark:
  assumes inv: "cc_inv s" and mark: "t = s\<lparr>cc_bcast := (cc_bcast s)(n := MarkDirty appID gid (cc_bcast s n)), cc_threads := (cc_threads s)[i := CIdle]\<rparr>"
    "i < length (cc_threads s)"
    "cc_threads s ! i = Evicted n (GroupKey appID gid)"
  shows "cc_inv t"
proof -
  have ok: "cache_ok (cc_cache s m)" for m using inv by (simp add: cc_inv_def)
  have norm: "keys_normal s" using inv by (simp add: cc_inv_def)
  have "Evicted n (GroupKey appID gid) \<in> set (cc_threads s)" using mark nth_mem by metis
  with norm have a: "appID \<noteq> []" by (force simp: keys_normal_def)
  have "on_its_way t m (GroupKey appID gid)" if "m \<noteq> n" for m using that by (auto simp: on_its_way_def mark(1))
  moreover have "on_its_way t m k'" if "on_its_way s m k'" "k' \<noteq> GroupKey appID gid" for m k'
    by (rule way_thread [OF _ _ _ _ _ _ that(1)]) (use mark(3) that(2) in \<open>auto simp: mark(1)\<close>)
  moreover have "on_its_way t n k'" if "on_its_way s n k'" for k'
    using that mark(2,3) unfolding on_its_way_def mark(1) by (simp, metis cc_pc.distinct(19) cc_pc.inject(4) set_upd_keep)
  ultimately have "on_its_way t m k'" if "on_its_way s m k'" for m k' using that by metis
  then show ?thesis
    by (intro cc_inv_keep [OF inv]) (use ok norm a in \<open>auto simp: mark(1) keys_normal_def dest!: upd_cases split: if_splits\<close>)
qed

lemma cc_inv_step:
  assumes inv: "cc_inv s" and step: "cc_step s t"
  shows "cc_inv t"
proof -
  have ok: "cache_ok (cc_cache s m)" for m using inv by (simp add: cc_inv_def)
  have norm: "keys_normal s" using inv by (simp add: cc_inv_def)
  have pcok: "pc_ok s pc" if "pc \<in> set (cc_threads s)" for pc using inv that by (simp add: cc_inv_def)
  show ?thesis
    using step
  proof cases
    case (hit now appID gid n members c)
    note l = cache_lookup_ok [OF ok hit(2)]
    show ?thesis
      by (rule cc_inv_keep [OF inv]) (use l ok norm in \<open>auto simp: hit(1) keys_normal_def on_its_way_def\<close>)
  next
    case (miss i now appID gid n g c)
    note l = cache_lookup_ok [OF ok miss(4)]
    show ?thesis
      by (rule cc_inv_keep [OF inv])
        (use l ok norm miss(3) in \<open>auto simp: miss(1) keys_normal_def NormalizeAppID_nonempty dest!: upd_cases elim!: way_thread [rotated -1]\<close>)
  next
    case (load i n k g)
    then have "Missed n k g \<in> set (cc_threads s)" using nth_mem by metis
    with pcok norm have "g \<le> cgen (cc_cache s n) k" "gk_appID k \<noteq> []" by (force simp: keys_normal_def)+
    then show ?thesis
      by (intro cc_inv_keep [OF inv])
        (use ok norm load(3) in \<open>auto simp: load(1) keys_normal_def dest!: upd_cases elim!: way_thread [rotated -1]\<close>)
  next
    case refill
    then show ?thesis by (rule cc_inv_refill [OF inv])
  next
    case (large i n appID gid g v)
    show ?thesis
      by (rule cc_inv_keep [OF inv])
        (use ok norm large(3) in \<open>auto simp: large(1) keys_normal_def dest!: upd_cases elim!: way_thread [rotated -1]\<close>)
  next
    case store_write
    then show ?thesis by (rule cc_inv_store_write [OF inv])
  next
    case local_evict
    then show ?thesis by (rule cc_inv_local_evict [OF inv])
  next
    case mark
    then show ?thesis by (rule cc_inv_mark [OF inv])
  next
    case (flush_swap j n dirty b)
    note d = dirty_keys_swap [OF flush_swap(2)]
    show ?thesis
    proof (rule cc_inv_keep [OF inv])
      show "on_its_way t m k" if "on_its_way s m k" for m k
        using that d by (auto simp: flush_swap(1) on_its_way_def split: if_splits)
      show "keys_normal t" using norm d by (auto simp: flush_swap(1) keys_normal_def split: if_splits)
    qed (use ok in \<open>auto simp: flush_swap(1)\<close>)
  next
    case (publish n appID)
    show ?thesis
    proof (rule cc_inv_keep [OF inv])
      show "on_its_way t m k" if "on_its_way s m k" for m k
        using that by (auto simp: publish on_its_way_def split: if_splits)
    qed (use ok norm in \<open>auto simp: publish keys_normal_def split: if_splits\<close>)
  next
    case (publish_fails n appID)
    show ?thesis
    proof (rule cc_inv_keep [OF inv])
      show "on_its_way t m k" if "on_its_way s m k" for m k
        using that by (auto simp: publish_fails on_its_way_def split: if_splits)
    qed (use ok norm in \<open>auto simp: publish_fails keys_normal_def split: if_splits\<close>)
  next
    case (remote_evict appID gid n)
    with norm have a: "appID \<noteq> []" by (force simp: keys_normal_def)
    then have k: "(GroupKey appID gid) = (GroupKey (NormalizeAppID appID) gid)" by (simp add: NormalizeAppID_def)
    show ?thesis
    proof (rule cc_inv_evict [OF inv _ _ k])
      show "on_its_way t m k' \<or> m = n \<and> k' = (GroupKey appID gid)" if "on_its_way s m k'" for m k'
        using that by (auto simp: remote_evict(1) on_its_way_def)
      show "keys_normal t"
        using norm by (auto simp: remote_evict(1) keys_normal_def split: if_splits dest!: set_remove1_subset [THEN subsetD])
    qed (auto simp: remote_evict(1) InvalidateTopology_def)
  qed
qed

lemma cc_inv_init: "cc_init s \<Longrightarrow> cc_inv s"
proof -
  assume i: "cc_init s"
  have c: "cache_ok (cc_cache s n)" "cached (cc_cache s n) k = None" for n k
    using i by (metis cc_init_def cache_ok_new, metis cc_init_def cached_new)
  have "dirty_keys (cc_bcast s n) = {}" for n
    using i by (auto simp: cc_init_def dirty_keys_def gm_keys_def NewInvalidationBroadcaster_def dest!: spec [of _ n])
  with i c show ?thesis by (auto simp: cc_inv_def cc_init_def coherent_def keys_normal_def list_all_iff)
qed

interpretation member_cache: invariant_system cc_init cc_step cc_inv
  by unfold_locales (auto intro: cc_inv_init cc_inv_step)

section \<open>Complete calls\<close>

definition agrees :: "GroupMemberCache \<Rightarrow> (groupCacheKey \<Rightarrow> GoSlice option) \<Rightarrow> bool" where
  "agrees c S \<longleftrightarrow> (\<forall>k e. cached c k = Some e \<longrightarrow> ge_members e = answer (S k))"

definition result_ok :: "(groupCacheKey \<Rightarrow> GoSlice option) \<Rightarrow> string \<Rightarrow> string set \<Rightarrow> members_map \<Rightarrow> bool" where
  "result_ok S app gs res \<longleftrightarrow> (\<forall>g m. map_of res g = Some m \<longrightarrow> m = answer (S (GroupKey app g)) \<and> g \<in> gs)"

lemma result_ok_mono: "result_ok S app gs res \<Longrightarrow> gs \<subseteq> gs' \<Longrightarrow> result_ok S app gs' res"
  by (auto simp: result_ok_def)

lemma result_ok_update: "result_ok S app gs res \<Longrightarrow> g \<in> gs \<Longrightarrow> result_ok S app gs (AList.update g (answer (S (GroupKey app g))) res)"
  by (auto simp: result_ok_def map_of_update split: if_splits)

lemma result_answer: "result_ok S app gs res \<Longrightarrow>
    answer (map_of res g) = answer (S (GroupKey app g)) \<longleftrightarrow> map_of res g \<noteq> None \<or> answer (S (GroupKey app g)) = None"
  unfolding result_ok_def by (cases "map_of res g") (auto simp: answer_def)

lemma agrees_drop: "agrees c S \<Longrightarrow> (\<And>k. cached c' k = cached c k \<or> cached c' k = None) \<Longrightarrow> agrees c' S"
  by (auto simp: agrees_def) (metis option.distinct(1))

lemma collect_loop:
  assumes "fold (collect_one now app) gids (c, res, misses, gens) = (c', res', misses', gens')"
    and "cache_ok c" "agrees c S" "result_ok S app G res" "set gids \<subseteq> G" "set misses \<subseteq> G"
  shows "cache_ok c' \<and> agrees c' S \<and> result_ok S app G res' \<and> set misses \<subseteq> set misses' \<and> set misses' \<subseteq> G \<and>
    (\<forall>g. map_of res g \<noteq> None \<longrightarrow> map_of res' g \<noteq> None) \<and>
    (\<forall>g \<in> set gids. g \<in> set misses' \<or> map_of res' g \<noteq> None \<or> answer (S (GroupKey app g)) = None)"
  using assms
proof (induction gids arbitrary: c res misses gens)
  case (Cons g gids)
  obtain r c1 where l: "cache_lookup now app g c = (r, c1)" by force
  note o = cache_lookup_ok [OF Cons.prems(2) l]
  have a: "agrees c1 S" using agrees_drop [OF Cons.prems(3) o(4)] .
  show ?case
  proof (cases r)
    case (Hit members)
    with o(5) Cons.prems(3) have m: "members = answer (S (GroupKey app g))" by (auto simp: agrees_def)
    define res1 where "res1 = (if members \<noteq> None then AList.update g members res else res)"
    have "result_ok S app G res1" using Cons.prems(4,5) m by (auto simp: res1_def intro: result_ok_update)
    moreover have "collect_one now app g (c, res, misses, gens) = (c1, res1, misses, gens)"
      using l Hit by (simp add: collect_one_def res1_def)
    then have "fold (collect_one now app) gids (c1, res1, misses, gens) = (c', res', misses', gens')"
      using Cons.prems(1) by simp
    moreover have "map_of res1 g \<noteq> None \<or> answer (S (GroupKey app g)) = None" "map_of res h \<noteq> None \<Longrightarrow> map_of res1 h \<noteq> None" for h
      using m by (auto simp: res1_def map_of_update)
    ultimately show ?thesis using Cons.IH [of c1 res1 misses gens] o(1) a Cons.prems(5,6) by fastforce
  next
    case (Miss gn)
    have "collect_one now app g (c, res, misses, gens) = (c1, res, misses @ [g], AList.update g gn gens)"
      using l Miss by (simp add: collect_one_def)
    then have "fold (collect_one now app) gids (c1, res, misses @ [g], AList.update g gn gens) = (c', res', misses', gens')"
      using Cons.prems(1) by simp
    then show ?thesis using Cons.IH [of c1 res "misses @ [g]" "AList.update g gn gens"] o(1) a Cons.prems(4-6) by auto
  qed
qed auto

lemma fill_loop:
  assumes "cache_ok c" "agrees c S" "result_ok S app G res" "set misses \<subseteq> G"
    and fresh: "\<And>g. g \<in> set misses \<Longrightarrow> map_of fresh g = S (GroupKey app g)"
  shows "\<exists>c' res'. fold (fill_one later app fresh gens) misses (Some (c, res)) = Some (c', res') \<and> cache_ok c' \<and> agrees c' S \<and>
    result_ok S app G res' \<and> (\<forall>g. map_of res g \<noteq> None \<longrightarrow> map_of res' g \<noteq> None) \<and>
    (\<forall>g \<in> set misses. map_of res' g \<noteq> None \<or> answer (S (GroupKey app g)) = None)"
  using assms
proof (induction misses arbitrary: c res)
  case (Cons g misses)
  let ?m = "answer (S (GroupKey app g))" and ?gen = "case map_of gens g of None \<Rightarrow> 0 | Some n \<Rightarrow> n"
  obtain c2 where f: "fill later app g ?m ?gen c = Some c2" using cache_fill_total [OF Cons.prems(1)] by blast
  note o = cache_fill_ok [OF Cons.prems(1) f]
  have a2: "agrees c2 S"
    unfolding agrees_def
  proof (intro allI impI)
    fix k e
    assume e: "cached c2 k = Some e"
    then show "ge_members e = answer (S k)"
      using o(4) [of k] o(5) Cons.prems(2) by (cases "k = GroupKey app g") (auto simp: agrees_def split: if_splits)
  qed
  define res1 where "res1 = (if S (GroupKey app g) = None then res else AList.update g ?m res)"
  have r1: "result_ok S app G res1" using Cons.prems(3,4) by (auto simp: res1_def intro: result_ok_update)
  have keep: "map_of res h \<noteq> None \<Longrightarrow> map_of res1 h \<noteq> None" "map_of res1 g \<noteq> None \<or> ?m = None" for h
    by (auto simp: res1_def map_of_update answer_def)
  have "\<exists>c1. fill_one later app fresh gens g (Some (c, res)) = Some (c1, res1) \<and> cache_ok c1 \<and> agrees c1 S"
  proof (cases "S (GroupKey app g)")
    case None
    with f o(1) a2 Cons.prems(5) [of g] show ?thesis by (simp add: fill_one_def res1_def answer_def Let_def)
  next
    case (Some members)
    with f o(1) a2 Cons.prems(1,2) Cons.prems(5) [of g] show ?thesis
      by (auto simp: fill_one_def res1_def answer_def Let_def)
  qed
  then obtain c1 where c1: "fill_one later app fresh gens g (Some (c, res)) = Some (c1, res1)" "cache_ok c1" "agrees c1 S" by blast
  obtain c' res' where "fold (fill_one later app fresh gens) misses (Some (c1, res1)) = Some (c', res')" "cache_ok c'" "agrees c' S"
      "result_ok S app G res'" "\<forall>g. map_of res1 g \<noteq> None \<longrightarrow> map_of res' g \<noteq> None"
      "\<forall>g \<in> set misses. map_of res' g \<noteq> None \<or> answer (S (GroupKey app g)) = None"
    using Cons.IH [OF c1(2,3) r1] Cons.prems(4,5) by auto
  with c1(1) keep show ?case by (auto simp del: not_None_eq)
qed auto

section \<open>Marks and flushes\<close>

definition mark_all :: "groupCacheKey list \<Rightarrow> InvalidationBroadcaster \<Rightarrow> InvalidationBroadcaster" where
  "mark_all ks b = fold (\<lambda>k. MarkDirty (gk_appID k) (gk_gid k)) ks b"

definition inv_shard :: "groupCacheKey \<Rightarrow> nat" where
  "inv_shard k = invShardOf (gk_appID k) (gk_gid k)"

lemma inv_shard_less: "inv_shard k < invalidationShards"
proof -
  have "unat (w AND 63) < 64" for w :: "32 word"
  proof -
    have "w AND 63 \<le> 63" by (rule word_and_le1)
    then have "unat (w AND 63) \<le> unat (63 :: 32 word)" by (simp only: word_le_nat_alt)
    also have "unat (63 :: 32 word) = 63" by simp
    finally show ?thesis by linarith
  qed
  then show ?thesis by (simp add: inv_shard_def invShardOf_def invalidationShards_def)
qed

lemma mark_all_shards:
  "gm_wf (ib_shards (mark_all ks (NewInvalidationBroadcaster v)) i) \<and>
   fst ` set (ib_shards (mark_all ks (NewInvalidationBroadcaster v)) i) = {k \<in> set ks. inv_shard k = i} \<and>
   ib_interval (mark_all ks (NewInvalidationBroadcaster v)) = ib_interval (NewInvalidationBroadcaster v)"
proof (induction ks rule: rev_induct)
  case (snoc k ks)
  let ?b = "mark_all ks (NewInvalidationBroadcaster v)"
  have b: "mark_all (ks @ [k]) (NewInvalidationBroadcaster v) =
      ?b\<lparr>ib_shards := (ib_shards ?b)(inv_shard k := AList.update k () (ib_shards ?b (inv_shard k)))\<rparr>"
    by (simp add: mark_all_def MarkDirty_def inv_shard_def Let_def)
  show ?case using snoc unfolding b by (cases "inv_shard k = i") (auto simp: dom_update)
qed (simp add: mark_all_def NewInvalidationBroadcaster_def)

lemma inv_flush_shards:
  "fold inv_flush_shard [0..<n] (byApp, b) =
    (fold by_app (concat (map (\<lambda>i. gm_keys (ib_shards b i)) [0..<n])) byApp, b\<lparr>ib_shards := \<lambda>i. if i < n then [] else ib_shards b i\<rparr>)"
proof (induction n)
  case (Suc n)
  have "(\<lambda>i. if i < n then [] else ib_shards b i)(n := []) = (\<lambda>i. if i < Suc n then [] else ib_shards b i)" by auto
  with Suc show ?case by (simp add: inv_flush_shard_def swap_dirty_def)
qed simp

lemma by_app_all:
  "map_of (fold by_app ks m) app =
    (let gids = map gk_gid (filter (\<lambda>k. gk_appID k = app) ks)
     in if gids = [] then map_of m app else Some ((case map_of m app of None \<Rightarrow> [] | Some xs \<Rightarrow> xs) @ gids))"
  by (induction ks arbitrary: m) (auto simp: by_app_def map_of_update Let_def split: option.splits)

lemma distinct_shard_keys:
  assumes "\<And>i. distinct (f i)" and "\<And>i k. k \<in> set (f i) \<Longrightarrow> h k = i"
  shows "distinct (concat (map f [0..<n]))"
proof (induction n)
  case (Suc n)
  have "k \<notin> set (f n)" if "k \<in> set (f i)" "i < n" for k i using assms(2) that by (metis less_irrefl)
  with Suc assms(1) show ?case by fastforce
qed simp

section \<open>Properties\<close>

text \<open>C13: The cache is coherent.  However readers, writers, flushes and incoming invalidations of all
  nodes interleave, a lookup on any node that hits answers what the store holds at that moment,
  unless a write of that group has not yet evicted, an announcement of it is still marked, taken or
  under way to this node, or its publication failed.  Every shard stays within its quota.\<close>

theorem member_cache_coherent:
  assumes "reach cc_init cc_step s" and "cache_lookup now appID gid (cc_cache s n) = (Hit members, c)"
    and "\<not> on_its_way s n (GroupKey appID gid)"
  shows "members = answer (cc_store s (GroupKey appID gid)) \<and>
    int (length (ms_lru (gc_shards (cc_cache s n) i))) \<le> quota (cc_cache s n)"
proof -
  have inv: "cc_inv s" by (rule member_cache.reach_inv [OF assms(1)])
  then have ok: "cache_ok (cc_cache s n)" by (simp add: cc_inv_def)
  from cache_lookup_ok(5) [OF ok assms(2) refl] inv assms(3) show ?thesis
    using cache_okD(3) [OF ok, of i] by (auto simp: cc_inv_def coherent_def)
qed


text \<open>A batch read through the cache answers what the store answers.  Whatever the cache holds, as long
  as its entries agree with the store, the call returns, a group without members is absent or has a
  nil list, no other group appears, and the cache agrees with the store afterwards.\<close>

theorem get_members_transparent:
  assumes ok: "cache_ok c" and agr: "agrees c S"
    and load: "\<And>ms. set ms \<subseteq> set groupIDs \<Longrightarrow>
      \<exists>fresh. load (NormalizeAppID appID) ms = Inr fresh \<and> (\<forall>g \<in> set ms. map_of fresh g = S (GroupKey (NormalizeAppID appID) g))"
  shows "\<exists>res c'. GetMultiGroupMembers now later load appID groupIDs c = Some (Inr res, c') \<and> cache_ok c' \<and> agrees c' S \<and>
    (\<forall>g. if g \<in> set groupIDs then answer (map_of res g) = answer (S (GroupKey (NormalizeAppID appID) g)) else map_of res g = None)"
proof -
  let ?app = "NormalizeAppID appID" and ?G = "set groupIDs"
  obtain c1 r1 ms gens where col: "fold (collect_one now ?app) groupIDs (c, [], [], []) = (c1, r1, ms, gens)"
    by (cases "fold (collect_one now ?app) groupIDs (c, [], [], [])") auto
  from collect_loop [OF col ok agr, of ?G]
  have 1: "cache_ok c1" "agrees c1 S" "result_ok S ?app ?G r1" "set ms \<subseteq> ?G"
    "\<And>g. g \<in> ?G \<Longrightarrow> g \<in> set ms \<or> map_of r1 g \<noteq> None \<or> answer (S (GroupKey ?app g)) = None"
    by (auto simp: result_ok_def)
  have settled: "(\<forall>g. if g \<in> ?G then answer (map_of r g) = answer (S (GroupKey ?app g)) else map_of r g = None)"
    if "result_ok S ?app ?G r" "\<And>g. g \<in> ?G \<Longrightarrow> map_of r g \<noteq> None \<or> answer (S (GroupKey ?app g)) = None" for r
    using that result_answer [OF that(1)] by (auto simp: result_ok_def) (metis option.exhaust)
  obtain fresh where f: "load ?app ms = Inr fresh" "\<And>g. g \<in> set ms \<Longrightarrow> map_of fresh g = S (GroupKey ?app g)"
    using load [OF 1(4)] by blast
  have "\<exists>c2 r2. fold (fill_one later ?app fresh gens) ms (Some (c1, r1)) = Some (c2, r2) \<and> cache_ok c2 \<and> agrees c2 S \<and>
      result_ok S ?app ?G r2 \<and> (\<forall>g. map_of r1 g \<noteq> None \<longrightarrow> map_of r2 g \<noteq> None) \<and>
      (\<forall>g \<in> set ms. map_of r2 g \<noteq> None \<or> answer (S (GroupKey ?app g)) = None)"
    by (rule fill_loop [OF 1(1,2,3,4)]) (rule f(2))
  then obtain c2 r2 where 2: "fold (fill_one later ?app fresh gens) ms (Some (c1, r1)) = Some (c2, r2)" "cache_ok c2" "agrees c2 S"
      "result_ok S ?app ?G r2" and 3: "\<forall>g. map_of r1 g \<noteq> None \<longrightarrow> map_of r2 g \<noteq> None"
      "\<forall>g \<in> set ms. map_of r2 g \<noteq> None \<or> answer (S (GroupKey ?app g)) = None"
    by auto
  have "map_of r2 g \<noteq> None \<or> answer (S (GroupKey ?app g)) = None" if "g \<in> ?G" for g
    using 1(5) [OF that] 3 by metis
  note fin = settled [OF 2(4) this]
  show ?thesis
  proof (cases "groupIDs = [] \<or> ms = []")
    case True
    then show ?thesis using ok agr 1 settled [OF 1(3)] col by (auto simp: GetMultiGroupMembers_def Let_def)
  next
    case False
    then show ?thesis using col f(1) 2 fin by (simp add: GetMultiGroupMembers_def Let_def)
  qed
qed

text \<open>A flush announces every marked group once.  After any marks, the lists published per application
  are sorted, contain exactly the marked groups without repetition, and nothing stays marked.\<close>

theorem flush_exact:
  assumes "Flush (mark_all ks (NewInvalidationBroadcaster v)) = (pubs, b)"
  shows "map_of pubs app =
      (let G = {g. GroupKey app g \<in> set ks} in if G = {} then None else Some (sorted_list_of_set G)) \<and>
    b = NewInvalidationBroadcaster v"
proof -
  let ?b = "mark_all ks (NewInvalidationBroadcaster v)" and ?G = "{g. GroupKey app g \<in> set ks}"
  define L where "L = concat (map (\<lambda>i. gm_keys (ib_shards ?b i)) [0..<invalidationShards])"
  note m = mark_all_shards [of ks v]
  have keys: "set (gm_keys (ib_shards ?b i)) = {k \<in> set ks. inv_shard k = i}" for i using m [of i] by (simp add: gm_keys_def)
  have L: "set L = set ks" using inv_shard_less by (auto simp: L_def keys)
  have dL: "distinct L" unfolding L_def
    by (rule distinct_shard_keys [where h = inv_shard]) (use m keys in \<open>auto simp: gm_keys_def\<close>)
  define gids where "gids = map gk_gid (filter (\<lambda>k. gk_appID k = app) L)"
  have g: "set gids = ?G" unfolding gids_def
    by (auto simp: L image_iff) (metis groupCacheKey.sel)
  have dg: "distinct gids" unfolding gids_def
    using dL by (auto simp: distinct_map inj_on_def intro: groupCacheKey.expand)
  have "sort gids = sorted_list_of_set ?G"
    using dg by (metis g sorted_list_of_set_sort_remdups distinct_remdups_id)
  moreover have pubs: "pubs = map (\<lambda>(a, gids). (a, sort gids)) (fold by_app L [])" and
      b: "b = ?b\<lparr>ib_shards := \<lambda>i. if i < invalidationShards then [] else ib_shards ?b i\<rparr>"
    using assms by (simp_all add: Flush_def inv_flush_shards L_def)
  moreover have "ib_shards ?b i = []" if "\<not> i < invalidationShards" for i
  proof -
    have "{k \<in> set ks. inv_shard k = i} = {}" using inv_shard_less that by auto
    with keys [of i] show ?thesis by (simp add: gm_keys_def)
  qed
  then have "b = NewInvalidationBroadcaster v"
    using m [of 0] by (auto simp: b NewInvalidationBroadcaster_def fun_eq_iff intro!: InvalidationBroadcaster.equality)
  moreover have "gids = [] \<longleftrightarrow> ?G = {}" using g by (metis set_empty)
  ultimately show ?thesis by (simp add: map_of_map by_app_all gids_def [symmetric] Let_def)
qed

lemma flush_exact_witness:
  "map_of (fst (Flush (mark_all [GroupKey ''a'' ''y'', GroupKey ''a'' ''x'', GroupKey ''a'' ''y''] (NewInvalidationBroadcaster 0)))) ''a'' =
   Some [''x'', ''y'']"
proof -
  let ?ks = "[GroupKey ''a'' ''y'', GroupKey ''a'' ''x'', GroupKey ''a'' ''y'']"
  obtain pubs b where run: "Flush (mark_all ?ks (NewInvalidationBroadcaster 0)) = (pubs, b)" by force
  have g: "{g. GroupKey ''a'' g \<in> set ?ks} = {''x'', ''y''}" by auto
  have "sorted_list_of_set {''x'', ''y''} = [''x'', ''y'']" by simp
  with flush_exact [OF run, of "''a''"] show ?thesis unfolding g run by simp
qed

definition demo_load :: "string \<Rightarrow> string list \<Rightarrow> string + members_map" where
  "demo_load app ms = Inr (map (\<lambda>g. (g, Some [''u1''])) ms)"

lemma get_members_transparent_witness:
  "\<exists>res c'. GetMultiGroupMembers 0 1 demo_load [] [''g'']
      (SetInvalidateNotifier (NewGroupMemberCache 0 0 0 0)) = Some (Inr res, c' :: GroupMemberCache) \<and>
    answer (map_of res ''g'') = Some [''u1''] \<and> map_of res ''h'' = None"
proof -
  have mo: "map_of (map (\<lambda>g. (g, Some [''u1''])) ms) g = Some (Some [''u1''])" if "g \<in> set ms" for g :: string and ms
    using that by (induction ms) auto
  obtain res c' where "GetMultiGroupMembers 0 1 demo_load [] [''g'']
      (SetInvalidateNotifier (NewGroupMemberCache 0 0 0 0)) = Some (Inr res, c')"
    "\<forall>g. if g \<in> {''g''} then answer (map_of res g) = answer (Some (Some [''u1''])) else map_of res g = None"
    using get_members_transparent [of "SetInvalidateNotifier (NewGroupMemberCache 0 0 0 0)" "\<lambda>_. Some (Some [''u1''])" "[''g'']"
      demo_load "[]" 0 1] mo
    by (auto simp: agrees_def demo_load_def)
  moreover have "answer (Some (Some [''u1''])) = Some [''u1'']" by (simp add: answer_def)
  moreover have "answer (map_of res ''g'') = answer (Some (Some [''u1'']))" "map_of res ''h'' = None"
    using calculation(2) [THEN spec, of "''g''"] calculation(2) [THEN spec, of "''h''"] by simp_all
  ultimately show ?thesis by (intro exI [of _ res] exI [of _ c']) simp
qed

text \<open>Node 0 reads a group through its empty cache; the next lookup hits.\<close>

definition cc_demo :: "GroupMemberCache \<Rightarrow> cc_pc list \<Rightarrow> cc_state" where
  "cc_demo c pcs = \<lparr>cc_store = (\<lambda>_. Some (Some [''u1''])), cc_cache = (\<lambda>_. SetInvalidateNotifier (NewGroupMemberCache 0 0 0 0))(0 := c),
     cc_bcast = (\<lambda>_. NewInvalidationBroadcaster 0), cc_taken = (\<lambda>_. []), cc_net = (\<lambda>_. []), cc_lost = {}, cc_threads = pcs\<rparr>"

lemma member_cache_coherent_witness:
  "\<exists>s c. reach cc_init cc_step s \<and> cache_lookup 5 ''shop'' ''g'' (cc_cache s 0) = (Hit (Some [''u1'']), c)"
proof -
  let ?c = "SetInvalidateNotifier (NewGroupMemberCache 0 0 0 0)" and ?k = "GroupKey ''shop'' ''g''"
  have norm: "NormalizeAppID ''shop'' = ''shop''" by (simp add: NormalizeAppID_def)
  have l0: "cache_lookup 1 ''shop'' ''g'' ?c = (Miss 0, ?c)"
    by (simp add: cache_lookup_def lookup_locked_def SetInvalidateNotifier_def NewGroupMemberCache_def new_shard_def gen_of_def
        put_shard_def Let_def fun_upd_idem)
  obtain c where f: "fill 1 ''shop'' ''g'' (Some [''u1'']) 0 ?c = Some c" using cache_fill_total [OF cache_ok_new] by blast
  have max: "gc_maxMembers ?c = 10000" by (simp add: SetInvalidateNotifier_def NewGroupMemberCache_def Let_def DefaultGroupMemberCacheMaxMembers_def)
  have r0: "reach cc_init cc_step (cc_demo ?c [CIdle])"
    by (rule reach_init) (auto simp: cc_init_def cc_demo_def)
  have "cc_step (cc_demo ?c [CIdle]) (cc_demo ?c [Missed 0 ?k 0])"
    using cc_step.miss [of 0 "cc_demo ?c [CIdle]" 1 "''shop''" "''g''" 0 0 ?c] l0 by (simp add: cc_demo_def norm)
  with r0 have r1: "reach cc_init cc_step (cc_demo ?c [Missed 0 ?k 0])" by (rule reach_step)
  have "cc_step (cc_demo ?c [Missed 0 ?k 0]) (cc_demo ?c [Loaded 0 ?k 0 (Some (Some [''u1'']))])"
    using cc_step.load [of 0 "cc_demo ?c [Missed 0 ?k 0]" 0 ?k 0] by (simp add: cc_demo_def)
  with r1 have r2: "reach cc_init cc_step (cc_demo ?c [Loaded 0 ?k 0 (Some (Some [''u1'']))])" by (rule reach_step)
  have "cc_step (cc_demo ?c [Loaded 0 ?k 0 (Some (Some [''u1'']))]) (cc_demo c [CIdle])"
    using cc_step.refill [of 0 "cc_demo ?c [Loaded 0 ?k 0 (Some (Some [''u1'']))]" 0 "''shop''" "''g''" 0 "Some (Some [''u1''])" 1 c] f max
    by (simp add: cc_demo_def answer_def)
  with r2 have r: "reach cc_init cc_step (cc_demo c [CIdle])" by (rule reach_step)
  have "cgen ?c ?k = 0"
    by (simp add: cgen_def shard_at_def gen_of_def SetInvalidateNotifier_def NewGroupMemberCache_def new_shard_def Let_def)
  with cache_fill_ok(5) [OF cache_ok_new f] have "\<exists>e. cached c ?k = Some e \<and> ge_expireAt e \<ge> 5"
    by (simp add: SetInvalidateNotifier_def NewGroupMemberCache_def Let_def DefaultGroupMemberCacheTTL_def)
  then obtain members c' where h: "cache_lookup 5 ''shop'' ''g'' c = (Hit members, c')"
    by (auto simp: cache_lookup_def lookup_locked_def cached_def held_entry_def shard_at_def Let_def)
  have way: "\<not> on_its_way (cc_demo c [CIdle]) 0 ?k"
    by (simp add: on_its_way_def cc_demo_def dirty_keys_def gm_keys_def NewInvalidationBroadcaster_def)
  have h': "cache_lookup 5 ''shop'' ''g'' (cc_cache (cc_demo c [CIdle]) 0) = (Hit members, c')" using h by (simp add: cc_demo_def)
  from member_cache_coherent [OF r h' way, of 0] have "members = Some [''u1'']" by (simp add: cc_demo_def answer_def)
  with r h' show ?thesis by blast
qed

end
