(* ===== verification/Record_Outbox.thy ===== *)
theory Record_Outbox
  imports Message_Record
begin

text \<open>
  The outbox of message records, batcher/message_record_outbox.go.

  \<^item> Records are objects: \<open>ob_heap\<close> holds them by address, \<open>ob_pending\<close> and the queue hold addresses, and a
    merged status changes the object.
  \<^item> The batch processor of the toolbox is a bounded queue: it accepts or refuses an address, and calls
    \<open>flush\<close> on pieces from the front of what it accepted, one call at a time.  Which are accepted, how
    long the pieces are and when they are cut is left open.
  \<^item> A step is one locked region or one call of another component; \<open>ob_rows\<close> is what \<open>CreateBatch\<close> put
    into the table.
\<close>

declare map_of_eq_Some_iff [simp del]

section \<open>Operations\<close>

type_synonym record_heap = "MessageSendRecord list"
type_synonym pending_map = "(MessageRecordKey, nat) gomap"

text \<open>The queue size, batch size and interval in nanoseconds that the constructor settles on.\<close>

definition NewMessageRecordOutbox :: "int \<Rightarrow> int \<Rightarrow> int \<Rightarrow> int \<times> int \<times> int" where
  "NewMessageRecordOutbox queueSize batchSize flushInterval =
     (if queueSize \<le> 0 then 4096 else queueSize, if batchSize \<le> 0 then 200 else batchSize,
      if flushInterval \<le> 0 then 50 * 10 ^ 6 else flushInterval)"

definition forget :: "record_heap \<Rightarrow> nat \<Rightarrow> pending_map \<Rightarrow> pending_map" where
  "forget heap p pending =
     (let key = record_key (heap ! p) in if map_of pending key = Some p then AList.delete key pending else pending)"

definition merge_status :: "int \<Rightarrow> MessageSendStatus \<Rightarrow> FailureReason \<Rightarrow> string \<Rightarrow> MessageSendRecord \<Rightarrow> MessageSendRecord" where
  "merge_status now status reason errMsg r =
     r\<lparr>mr_Status := status, mr_FailureReason := reason, mr_ErrorMessage := errMsg, mr_FirstSendTime := Some now, mr_LastSendTime := Some now\<rparr>"

definition UpdateStatusIfPending :: "int \<Rightarrow> MessageRecordKey \<Rightarrow> MessageSendStatus \<Rightarrow> FailureReason \<Rightarrow> string \<Rightarrow> pending_map \<Rightarrow> record_heap
    \<Rightarrow> bool \<times> record_heap" where
  "UpdateStatusIfPending now key status reason errMsg pending heap =
     (case map_of pending key of
        None \<Rightarrow> (False, heap)
      | Some p \<Rightarrow> (True, heap[p := merge_status now status reason errMsg (heap ! p)]))"

text \<open>The two locked regions at the end of \<open>flush\<close>: after a failed and after a successful insertion.\<close>

definition discard_batch :: "record_heap \<Rightarrow> nat list \<Rightarrow> pending_map \<Rightarrow> pending_map" where
  "discard_batch heap records pending = fold (forget heap) records pending"

definition settle_one :: "record_heap \<Rightarrow> nat \<Rightarrow> pending_map \<times> MessageRecordKey list \<Rightarrow> pending_map \<times> MessageRecordKey list" where
  "settle_one heap p st =
     (case st of (pending, sendingKeys) \<Rightarrow>
        (forget heap p pending,
         if mr_Status (heap ! p) = StatusSending then sendingKeys @ [record_key (heap ! p)] else sendingKeys))"

definition settle_batch :: "record_heap \<Rightarrow> nat list \<Rightarrow> pending_map \<Rightarrow> pending_map \<times> MessageRecordKey list" where
  "settle_batch heap records pending = fold (settle_one heap) records (pending, [])"

section \<open>The running outbox\<close>

datatype flush_pc = FIdle | Snapped "nat list" "MessageSendRecord list" | Refused "nat list" | Inserted "nat list" | Calling "MessageRecordKey list"

text \<open>
  \<open>ob_starting\<close> are the submissions between the two locked regions of \<open>Submit\<close>.  Four components only
  record what happened: the addresses \<open>ob_stored\<close> and \<open>ob_dropped\<close>, the addresses \<open>ob_late\<close> that a status
  was merged into after they were copied for insertion, and the keys handed to \<open>onFlushed\<close>.
\<close>

record ob_state =
  ob_heap :: record_heap
  ob_pending :: pending_map
  ob_starting :: "nat list"
  ob_queue :: "nat list"
  ob_flush :: flush_pc
  ob_callback :: bool
  ob_rows :: rows
  ob_stored :: "nat list"
  ob_dropped :: "nat list"
  ob_late :: "nat set"
  ob_registered :: "MessageRecordKey list"

definition ob_init :: "ob_state \<Rightarrow> bool" where
  "ob_init s \<longleftrightarrow> ob_heap s = [] \<and> ob_pending s = [] \<and> ob_starting s = [] \<and> ob_queue s = [] \<and> ob_flush s = FIdle \<and> ob_rows s = [] \<and>
     ob_stored s = [] \<and> ob_dropped s = [] \<and> ob_late s = {} \<and> ob_registered s = []"

fun copied :: "flush_pc \<Rightarrow> nat list" where
  "copied (Snapped ps snapshot) = ps"
| "copied (Refused ps) = ps"
| "copied (Inserted ps) = ps"
| "copied _ = []"

inductive ob_step :: "ob_state \<Rightarrow> ob_state \<Rightarrow> bool" where
  submit: "ob_step s (s\<lparr>ob_heap := ob_heap s @ [r], ob_pending := AList.update (record_key r) (length (ob_heap s)) (ob_pending s),
      ob_starting := length (ob_heap s) # ob_starting s\<rparr>)"
| accept: "p \<in> set (ob_starting s) \<Longrightarrow>
    ob_step s (s\<lparr>ob_starting := remove1 p (ob_starting s), ob_queue := ob_queue s @ [p]\<rparr>)"
| queue_full: "p \<in> set (ob_starting s) \<Longrightarrow>
    ob_step s (s\<lparr>ob_starting := remove1 p (ob_starting s), ob_pending := forget (ob_heap s) p (ob_pending s), ob_dropped := ob_dropped s @ [p]\<rparr>)"
| merge: "UpdateStatusIfPending now key status reason errMsg (ob_pending s) (ob_heap s) = (ok, heap) \<Longrightarrow>
    ob_step s (s\<lparr>ob_heap := heap,
      ob_late := ob_late s \<union> {p. map_of (ob_pending s) key = Some p \<and> p \<in> set (copied (ob_flush s))}\<rparr>)"
| flush_copy: "ob_flush s = FIdle \<Longrightarrow> 0 < n \<Longrightarrow> n \<le> length (ob_queue s) \<Longrightarrow>
    ob_step s (s\<lparr>ob_flush := Snapped (take n (ob_queue s)) (map ((!) (ob_heap s)) (take n (ob_queue s))), ob_queue := drop n (ob_queue s)\<rparr>)"
| flush_insert: "ob_flush s = Snapped ps snapshot \<Longrightarrow>
    ob_step s (s\<lparr>ob_flush := Inserted ps, ob_rows := CreateBatch now snapshot (ob_rows s), ob_stored := ob_stored s @ ps\<rparr>)"
| flush_error: "ob_flush s = Snapped ps snapshot \<Longrightarrow> ob_step s (s\<lparr>ob_flush := Refused ps\<rparr>)"
| flush_discard: "ob_flush s = Refused ps \<Longrightarrow>
    ob_step s (s\<lparr>ob_flush := FIdle, ob_pending := discard_batch (ob_heap s) ps (ob_pending s), ob_dropped := ob_dropped s @ ps\<rparr>)"
| flush_settle: "ob_flush s = Inserted ps \<Longrightarrow> settle_batch (ob_heap s) ps (ob_pending s) = (pending, keys) \<Longrightarrow>
    ob_step s (s\<lparr>ob_flush := Calling keys, ob_pending := pending\<rparr>)"
| flush_call: "ob_flush s = Calling keys \<Longrightarrow>
    ob_step s (s\<lparr>ob_flush := FIdle, ob_registered := ob_registered s @ (if ob_callback s then keys else [])\<rparr>)"

section \<open>Batches\<close>

lemma map_of_forget [gomap_simps]:
  "map_of (forget heap p pending) k = (if map_of pending k = Some p \<and> k = record_key (heap ! p) then None else map_of pending k)"
  by (simp add: forget_def Let_def map_of_delete)

lemma gm_wf_forget [simp]: "gm_wf pending \<Longrightarrow> gm_wf (forget heap p pending)"
  by (simp add: forget_def Let_def)

lemma map_of_discard [gomap_simps]:
  "map_of (discard_batch heap ps pending) k =
     (case map_of pending k of Some p \<Rightarrow> if p \<in> set ps \<and> k = record_key (heap ! p) then None else Some p | None \<Rightarrow> None)"
  unfolding discard_batch_def
  by (induction ps arbitrary: pending) (auto simp: map_of_forget split: option.splits)

lemma gm_wf_discard [simp]: "gm_wf pending \<Longrightarrow> gm_wf (discard_batch heap ps pending)"
  unfolding discard_batch_def by (induction ps arbitrary: pending) auto

lemma settle_batch_eq:
  "settle_batch heap ps pending =
     (discard_batch heap ps pending, map (\<lambda>p. record_key (heap ! p)) (filter (\<lambda>p. mr_Status (heap ! p) = StatusSending) ps))"
proof -
  have "fold (settle_one heap) ps (pending, keys) =
    (fold (forget heap) ps pending, keys @ map (\<lambda>p. record_key (heap ! p)) (filter (\<lambda>p. mr_Status (heap ! p) = StatusSending) ps))" for keys
    by (induction ps arbitrary: pending keys) (auto simp: settle_one_def)
  then show ?thesis by (simp add: settle_batch_def discard_batch_def)
qed

lemma merge_status_key [simp]: "record_key (merge_status now status reason errMsg r) = record_key r"
  by (simp add: merge_status_def record_key_def)

text \<open>A row carries an object when it is that object up to what the insertion fills in.\<close>

definition carries :: "MessageSendRecord \<Rightarrow> MessageSendRecord \<Rightarrow> bool" where
  "carries row r \<longleftrightarrow> (\<exists>now i. row = (BeforeCreate now r)\<lparr>mr_ID := i\<rparr>)"

lemma carries_key: "carries row r \<Longrightarrow> record_key row = record_key r"
  by (auto simp: carries_def BeforeCreate_def record_key_def)

lemma carries_status: "carries row r \<Longrightarrow> mr_Status row = mr_Status r"
  by (auto simp: carries_def BeforeCreate_def)

lemma carries_insert: "carries ((BeforeCreate now r)\<lparr>mr_ID := i\<rparr>) r"
  unfolding carries_def by (rule exI [of _ now], rule exI [of _ i], rule refl)

lemma CreateBatch_carries: "\<exists>new. CreateBatch now rs rows = rows @ new \<and> list_all2 carries new rs"
  unfolding CreateBatch_def Let_def
  by (intro exI conjI [OF refl]) (auto simp: list_all2_conv_all_nth nth_enumerate_eq carries_insert)

section \<open>Invariant\<close>

fun unsettled :: "flush_pc \<Rightarrow> nat list" where
  "unsettled (Snapped ps snapshot) = ps"
| "unsettled (Refused ps) = ps"
| "unsettled _ = []"

fun calling :: "flush_pc \<Rightarrow> MessageRecordKey list" where
  "calling (Calling keys) = keys"
| "calling _ = []"

definition tracks :: "record_heap \<Rightarrow> nat set \<Rightarrow> nat \<Rightarrow> MessageSendRecord \<Rightarrow> bool" where
  "tracks heap late p row \<longleftrightarrow> record_key row = record_key (heap ! p) \<and> (p \<in> late \<or> carries row (heap ! p))"

definition tracks_copy :: "record_heap \<Rightarrow> nat set \<Rightarrow> nat \<Rightarrow> MessageSendRecord \<Rightarrow> bool" where
  "tracks_copy heap late p r \<longleftrightarrow> record_key r = record_key (heap ! p) \<and> (p \<in> late \<or> r = heap ! p)"

fun copy_ok :: "record_heap \<Rightarrow> nat set \<Rightarrow> nat list \<Rightarrow> flush_pc \<Rightarrow> bool" where
  "copy_ok heap late stored (Snapped ps snapshot) = list_all2 (tracks_copy heap late) ps snapshot"
| "copy_ok heap late stored (Inserted ps) = (set ps \<subseteq> set stored)"
| "copy_ok heap late stored _ = True"

definition everywhere :: "ob_state \<Rightarrow> nat list" where
  "everywhere s = ob_starting s @ ob_queue s @ unsettled (ob_flush s) @ ob_stored s @ ob_dropped s"

definition watched :: "ob_state \<Rightarrow> bool" where
  "watched s \<longleftrightarrow> (\<forall>p \<in> set (ob_stored s). p \<notin> set (copied (ob_flush s)) \<longrightarrow> mr_Status (ob_heap s ! p) = StatusSending \<longrightarrow>
     record_key (ob_heap s ! p) \<in> set (ob_registered s) \<union> set (calling (ob_flush s)))"

definition pending_live :: "ob_state \<Rightarrow> bool" where
  "pending_live s \<longleftrightarrow> (\<forall>k p. map_of (ob_pending s) k = Some p \<longrightarrow>
     record_key (ob_heap s ! p) = k \<and> p \<in> set (ob_starting s) \<union> set (ob_queue s) \<union> set (copied (ob_flush s)))"

definition ob_inv :: "ob_state \<Rightarrow> bool" where
  "ob_inv s \<longleftrightarrow> gm_wf (ob_pending s) \<and> pending_live s \<and> mset (everywhere s) = mset [0..<length (ob_heap s)] \<and>
     list_all2 (tracks (ob_heap s) (ob_late s)) (ob_stored s) (ob_rows s) \<and>
     copy_ok (ob_heap s) (ob_late s) (ob_stored s) (ob_flush s) \<and> (ob_callback s \<longrightarrow> watched s)"

lemma everywhere_distinct: "mset (everywhere s) = mset [0..<n] \<Longrightarrow> distinct (everywhere s) \<and> set (everywhere s) = {..<n}"
  by (metis atLeast_upt distinct_upt mset_eq_imp_distinct_iff mset_eq_setD)

lemma everywhere_mem:
  assumes "mset (everywhere s) = mset [0..<length (ob_heap s)]"
  shows "p \<in> set (ob_starting s) \<union> set (ob_queue s) \<union> set (unsettled (ob_flush s)) \<union> set (ob_stored s) \<Longrightarrow> p < length (ob_heap s)"
    and "p \<in> set (ob_starting s) \<union> set (ob_queue s) \<Longrightarrow> p \<notin> set (ob_stored s) \<and> p \<notin> set (unsettled (ob_flush s))"
    and "p \<in> set (unsettled (ob_flush s)) \<Longrightarrow> p \<notin> set (ob_stored s)"
    and "p \<in> set (ob_starting s) \<Longrightarrow> p \<notin> set (ob_queue s)"
    and "distinct (ob_starting s)"
  using everywhere_distinct [OF assms] by (auto simp: everywhere_def)

lemma copied_cases: "copy_ok heap late stored pc \<Longrightarrow> set (copied pc) \<subseteq> set (unsettled pc) \<union> set stored"
  by (cases pc) auto

lemma ob_inv_init: "ob_init s \<Longrightarrow> ob_inv s"
  by (simp add: ob_init_def ob_inv_def pending_live_def everywhere_def watched_def)

lemma list_all2_mono_set:
  "list_all2 P xs ys \<Longrightarrow> (\<And>x y. x \<in> set xs \<Longrightarrow> P x y \<Longrightarrow> Q x y) \<Longrightarrow> list_all2 Q xs ys"
  by (rule list.rel_mono_strong)

lemma tracks_mono1:
  assumes "late \<subseteq> late'" and "record_key (heap' ! p) = record_key (heap ! p) \<and> (p \<in> late' \<or> heap' ! p = heap ! p)"
  shows "tracks heap late p r \<Longrightarrow> tracks heap' late' p r" and "tracks_copy heap late p r \<Longrightarrow> tracks_copy heap' late' p r"
  using assms by (auto simp: tracks_def tracks_copy_def)

lemma copy_ok_mono:
  assumes "copy_ok heap late stored pc" and "late \<subseteq> late'" and "set stored \<subseteq> set stored'"
    and "\<And>p. p \<in> set (unsettled pc) \<Longrightarrow> record_key (heap' ! p) = record_key (heap ! p) \<and> (p \<in> late' \<or> heap' ! p = heap ! p)"
  shows "copy_ok heap' late' stored' pc"
  using assms by (cases pc) (auto elim!: list_all2_mono_set intro: tracks_mono1(2))

lemma tracks_mono:
  assumes "list_all2 (tracks heap late) ps rows" and "late \<subseteq> late'"
    and "\<And>p. p \<in> set ps \<Longrightarrow> record_key (heap' ! p) = record_key (heap ! p) \<and> (p \<in> late' \<or> heap' ! p = heap ! p)"
  shows "list_all2 (tracks heap' late') ps rows"
  using assms(1) by (rule list_all2_mono_set) (rule tracks_mono1(1) [OF assms(2,3)])

lemma inv_merge:
  assumes i: "ob_inv s" and u: "UpdateStatusIfPending now key status reason errMsg (ob_pending s) (ob_heap s) = (ok, heap)"
  shows "ob_inv (s\<lparr>ob_heap := heap, ob_late := ob_late s \<union> {p. map_of (ob_pending s) key = Some p \<and> p \<in> set (copied (ob_flush s))}\<rparr>)"
    (is "ob_inv ?t")
proof (cases "map_of (ob_pending s) key")
  case None
  with u have "?t = s" by (simp add: UpdateStatusIfPending_def)
  with i show ?thesis by simp
next
  case (Some p)
  with u have h: "heap = (ob_heap s)[p := merge_status now status reason errMsg (ob_heap s ! p)]" by (simp add: UpdateStatusIfPending_def)
  note inv = i [unfolded ob_inv_def]
  have m: "mset (everywhere s) = mset [0..<length (ob_heap s)]" using inv by blast
  have live: "record_key (ob_heap s ! p) = key" "p \<in> set (ob_starting s) \<union> set (ob_queue s) \<union> set (copied (ob_flush s))"
    using inv Some by (auto simp: pending_live_def)
  have keys: "record_key (heap ! q) = record_key (ob_heap s ! q)" for q
    using h by (cases "p < length (ob_heap s)") (auto simp: nth_list_update list_update_beyond)
  have late: "q \<in> ob_late ?t \<or> heap ! q = ob_heap s ! q" if "q \<in> set (unsettled (ob_flush s)) \<union> set (ob_stored s)" for q
  proof (cases "q = p")
    case True
    have "p \<in> set (copied (ob_flush s))" using live(2) that True everywhere_mem(2) [OF m, of p] by auto
    with Some True show ?thesis by simp
  qed (simp add: h)
  have "pending_live ?t" using inv keys by (auto simp: pending_live_def)
  moreover have "list_all2 (tracks heap (ob_late ?t)) (ob_stored s) (ob_rows s)"
    by (rule tracks_mono [of "ob_heap s" "ob_late s"]) (use inv keys late in auto)
  moreover have "copy_ok heap (ob_late ?t) (ob_stored s) (ob_flush s)"
    by (rule copy_ok_mono [of "ob_heap s" "ob_late s" "ob_stored s"]) (use inv keys late in auto)
  moreover have "watched ?t" if "ob_callback s"
  proof -
    have "heap ! q = ob_heap s ! q" if "q \<in> set (ob_stored s)" "q \<notin> set (copied (ob_flush s))" for q
      using late [of q] that live(2) everywhere_mem(2) [OF m, of q] h by (cases "q = p") auto
    with inv that show ?thesis by (auto simp: watched_def)
  qed
  moreover have "mset (everywhere ?t) = mset [0..<length (ob_heap ?t)]" using m h by (simp add: everywhere_def)
  ultimately show ?thesis using inv by (simp add: ob_inv_def)
qed

lemma inv_submit:
  assumes i: "ob_inv s"
  shows "ob_inv (s\<lparr>ob_heap := ob_heap s @ [r], ob_pending := AList.update (record_key r) (length (ob_heap s)) (ob_pending s),
      ob_starting := length (ob_heap s) # ob_starting s\<rparr>)" (is "ob_inv ?t")
proof -
  note inv = i [unfolded ob_inv_def]
  have m: "mset (everywhere s) = mset [0..<length (ob_heap s)]" using inv by blast
  have old: "(ob_heap s @ [r]) ! q = ob_heap s ! q"
    if "q \<in> set (ob_starting s) \<union> set (ob_queue s) \<union> set (unsettled (ob_flush s)) \<union> set (ob_stored s)" for q
    using everywhere_mem(1) [OF m that] by (simp add: nth_append)
  have c: "set (copied (ob_flush s)) \<subseteq> set (unsettled (ob_flush s)) \<union> set (ob_stored s)" using inv copied_cases by blast
  have "(ob_heap s @ [r]) ! p = ob_heap s ! p" if "map_of (ob_pending s) k = Some p" for k p
    using inv that c by (intro old) (auto simp: pending_live_def)
  then have "pending_live ?t" using inv by (auto simp: pending_live_def map_of_update split: if_splits)
  moreover have "list_all2 (tracks (ob_heap ?t) (ob_late s)) (ob_stored s) (ob_rows s)"
    by (rule tracks_mono [of "ob_heap s" "ob_late s"]) (use inv old in auto)
  moreover have "copy_ok (ob_heap ?t) (ob_late s) (ob_stored s) (ob_flush s)"
    by (rule copy_ok_mono [of "ob_heap s" "ob_late s" "ob_stored s"]) (use inv old in auto)
  moreover have "watched ?t" if "ob_callback s" using inv old that by (auto simp: watched_def)
  moreover have "mset (everywhere ?t) = mset [0..<length (ob_heap ?t)]" using m by (simp add: everywhere_def)
  ultimately show ?thesis using inv by (simp add: ob_inv_def)
qed

lemma pending_live_mono:
  assumes "pending_live s" and "ob_heap t = ob_heap s"
    and "\<And>k p. map_of (ob_pending t) k = Some p \<Longrightarrow> map_of (ob_pending s) k = Some p"
    and "\<And>p. map_of (ob_pending t) (record_key (ob_heap s ! p)) = Some p \<Longrightarrow>
      p \<in> set (ob_starting s) \<union> set (ob_queue s) \<union> set (copied (ob_flush s)) \<Longrightarrow>
      p \<in> set (ob_starting t) \<union> set (ob_queue t) \<union> set (copied (ob_flush t))"
  shows "pending_live t"
  using assms unfolding pending_live_def by metis

lemma inv_accept:
  assumes i: "ob_inv s" and p: "p \<in> set (ob_starting s)"
  shows "ob_inv (s\<lparr>ob_starting := remove1 p (ob_starting s), ob_queue := ob_queue s @ [p]\<rparr>)" (is "ob_inv ?t")
proof -
  note inv = i [unfolded ob_inv_def]
  have "mset (everywhere ?t) = mset (everywhere s)" using p by (simp add: everywhere_def insert_DiffM)
  moreover have "pending_live ?t" by (rule pending_live_mono [of s]) (use inv p in \<open>auto simp: in_set_remove1\<close>)
  ultimately show ?thesis using inv by (simp add: ob_inv_def watched_def)
qed

lemma inv_queue_full:
  assumes i: "ob_inv s" and p: "p \<in> set (ob_starting s)"
  shows "ob_inv (s\<lparr>ob_starting := remove1 p (ob_starting s), ob_pending := forget (ob_heap s) p (ob_pending s), ob_dropped := ob_dropped s @ [p]\<rparr>)"
    (is "ob_inv ?t")
proof -
  note inv = i [unfolded ob_inv_def]
  have "mset (everywhere ?t) = mset (everywhere s)" using p by (simp add: everywhere_def insert_DiffM)
  moreover have "pending_live ?t" by (rule pending_live_mono [of s]) (use inv p in \<open>auto simp: map_of_forget in_set_remove1 split: if_splits\<close>)
  ultimately show ?thesis using inv by (simp add: ob_inv_def watched_def)
qed

lemma inv_flush_copy:
  assumes i: "ob_inv s" and f: "ob_flush s = FIdle"
  shows "ob_inv (s\<lparr>ob_flush := Snapped (take n (ob_queue s)) (map ((!) (ob_heap s)) (take n (ob_queue s))), ob_queue := drop n (ob_queue s)\<rparr>)"
    (is "ob_inv ?t")
proof -
  note inv = i [unfolded ob_inv_def]
  have q: "set (take n (ob_queue s)) \<union> set (drop n (ob_queue s)) = set (ob_queue s)" by (metis append_take_drop_id set_append)
  have "mset (ob_queue s) = mset (take n (ob_queue s)) + mset (drop n (ob_queue s))" by (metis append_take_drop_id mset_append)
  then have m: "mset (everywhere ?t) = mset (everywhere s)" using f by (simp add: everywhere_def)
  have "pending_live ?t" by (rule pending_live_mono [of s]) (use inv f q in auto)
  moreover have "list_all2 (tracks_copy (ob_heap s) (ob_late s)) (take n (ob_queue s)) (map ((!) (ob_heap s)) (take n (ob_queue s)))"
    by (simp add: list_all2_conv_all_nth tracks_copy_def)
  moreover have "watched ?t" if "ob_callback s" using inv f that by (auto simp: watched_def)
  ultimately show ?thesis using inv m by (simp add: ob_inv_def)
qed

lemma copy_carried: "tracks_copy heap late p r \<Longrightarrow> carries row r \<Longrightarrow> tracks heap late p row"
  by (auto simp: tracks_def tracks_copy_def carries_key)

lemma inv_flush_insert:
  assumes i: "ob_inv s" and f: "ob_flush s = Snapped ps snapshot"
  shows "ob_inv (s\<lparr>ob_flush := Inserted ps, ob_rows := CreateBatch now snapshot (ob_rows s), ob_stored := ob_stored s @ ps\<rparr>)" (is "ob_inv ?t")
proof -
  note inv = i [unfolded ob_inv_def]
  obtain new where new: "CreateBatch now snapshot (ob_rows s) = ob_rows s @ new" "list_all2 carries new snapshot"
    using CreateBatch_carries by blast
  have "list_all2 (tracks_copy (ob_heap s) (ob_late s)) ps snapshot" using inv f by simp
  with new(2) have "list_all2 (tracks (ob_heap s) (ob_late s)) ps new"
    unfolding list_all2_conv_all_nth by (metis copy_carried)
  then have "list_all2 (tracks (ob_heap s) (ob_late s)) (ob_stored s @ ps) (ob_rows s @ new)" using inv by (simp add: list_all2_appendI)
  moreover have "mset (everywhere ?t) = mset (everywhere s)" using f by (simp add: everywhere_def)
  moreover have "pending_live ?t" by (rule pending_live_mono [of s]) (use inv f in auto)
  moreover have "watched ?t" if "ob_callback s" using inv f that by (auto simp: watched_def)
  ultimately show ?thesis using inv new(1) by (simp add: ob_inv_def)
qed

lemma inv_flush_discard:
  assumes i: "ob_inv s" and f: "ob_flush s = Refused ps"
  shows "ob_inv (s\<lparr>ob_flush := FIdle, ob_pending := discard_batch (ob_heap s) ps (ob_pending s), ob_dropped := ob_dropped s @ ps\<rparr>)" (is "ob_inv ?t")
proof -
  note inv = i [unfolded ob_inv_def]
  have m: "mset (everywhere s) = mset [0..<length (ob_heap s)]" using inv by blast
  have "watched ?t" if "ob_callback s"
    using inv f that everywhere_mem(3) [OF m] by (auto simp: watched_def)
  moreover have "mset (everywhere ?t) = mset (everywhere s)" using f by (simp add: everywhere_def)
  moreover have "pending_live ?t" by (rule pending_live_mono [of s]) (use inv f in \<open>auto simp: map_of_discard split: option.splits if_splits\<close>)
  ultimately show ?thesis using inv by (simp add: ob_inv_def)
qed

lemma inv_flush_settle:
  assumes i: "ob_inv s" and f: "ob_flush s = Inserted ps" and b: "settle_batch (ob_heap s) ps (ob_pending s) = (pending, keys)"
  shows "ob_inv (s\<lparr>ob_flush := Calling keys, ob_pending := pending\<rparr>)" (is "ob_inv ?t")
proof -
  note inv = i [unfolded ob_inv_def]
  have b': "pending = discard_batch (ob_heap s) ps (ob_pending s)"
      "keys = map (\<lambda>p. record_key (ob_heap s ! p)) (filter (\<lambda>p. mr_Status (ob_heap s ! p) = StatusSending) ps)"
    using b by (simp_all add: settle_batch_eq)
  have "watched ?t" if "ob_callback s" using inv f that by (auto simp: watched_def b'(2))
  moreover have "mset (everywhere ?t) = mset (everywhere s)" using f by (simp add: everywhere_def)
  moreover have "pending_live ?t" by (rule pending_live_mono [of s]) (use inv f in \<open>auto simp: b'(1) map_of_discard split: option.splits if_splits\<close>)
  ultimately show ?thesis using inv b'(1) by (simp add: ob_inv_def)
qed

lemma ob_inv_step:
  assumes "ob_inv s" and "ob_step s t"
  shows "ob_inv t"
  using assms(2)
proof cases
  case (flush_error ps snapshot)
  with assms(1) show ?thesis by (auto simp: ob_inv_def pending_live_def everywhere_def watched_def)
next
  case (flush_call keys)
  with assms(1) show ?thesis by (auto simp: ob_inv_def pending_live_def everywhere_def watched_def)
qed (use assms(1) in \<open>auto intro: inv_submit inv_accept inv_queue_full inv_merge inv_flush_copy inv_flush_insert inv_flush_discard inv_flush_settle\<close>)

interpretation outbox: invariant_system ob_init ob_step ob_inv
  by unfold_locales (auto intro: ob_inv_init ob_inv_step)

section \<open>Properties\<close>


text \<open>A concrete run: one record is submitted, queued, copied, inserted and settled.\<close>

definition demo_outbox :: "MessageSendRecord \<Rightarrow> MessageSendRecord \<Rightarrow> nat set \<Rightarrow> flush_pc \<Rightarrow> ob_state" where
  "demo_outbox r row late pc =
     \<lparr>ob_heap = [r], ob_pending = (case pc of Calling _ \<Rightarrow> [] | FIdle \<Rightarrow> [] | _ \<Rightarrow> [(record_key r, 0)]), ob_starting = [], ob_queue = [],
      ob_flush = pc, ob_callback = True, ob_rows = (case pc of Snapped _ _ \<Rightarrow> [] | _ \<Rightarrow> [row]),
      ob_stored = (case pc of Snapped _ _ \<Rightarrow> [] | _ \<Rightarrow> [0]), ob_dropped = [], ob_late = late, ob_registered = []\<rparr>"

definition demo_record :: MessageSendRecord where
  "demo_record = zero_record\<lparr>mr_MessageID := ''m1'', mr_Receiver := ''u1'', mr_Status := StatusSending\<rparr>"

definition demo_row :: MessageSendRecord where
  "demo_row = (BeforeCreate 0 demo_record)\<lparr>mr_ID := 1\<rparr>"

lemma demo_copied: "reach ob_init ob_step (demo_outbox demo_record demo_row {} (Snapped [0] [demo_record]))"
proof -
  let ?s0 = "\<lparr>ob_heap = [], ob_pending = [], ob_starting = [], ob_queue = [], ob_flush = FIdle, ob_callback = True, ob_rows = [],
    ob_stored = [], ob_dropped = [], ob_late = {}, ob_registered = []\<rparr>"
  let ?s1 = "?s0\<lparr>ob_heap := [demo_record], ob_pending := [(record_key demo_record, 0)], ob_starting := [0]\<rparr>"
  let ?s2 = "?s0\<lparr>ob_heap := [demo_record], ob_pending := [(record_key demo_record, 0)], ob_queue := [0]\<rparr>"
  have "reach ob_init ob_step ?s0" by (rule reach_init) (simp add: ob_init_def)
  moreover have "ob_step ?s0 ?s1" using submit [of ?s0 demo_record] by simp
  moreover have "ob_step ?s1 ?s2" using accept [of 0 ?s1] by simp
  moreover have "ob_step ?s2 (demo_outbox demo_record demo_row {} (Snapped [0] [demo_record]))"
    using flush_copy [of ?s2 1] by (simp add: demo_outbox_def)
  ultimately show ?thesis by (blast intro: reach_step)
qed


text \<open>Once the flush of a record is over, its row carries the last status the object got, and a record
  still waiting for its confirmation has been handed on for a timeout, unless a status was merged
  between the copy for the insertion and the end of the flush.  No later status is merged into it.\<close>

theorem outbox_row_current:
  assumes "reach ob_init ob_step s" and "ob_callback s" and "i < length (ob_stored s)"
    and "ob_stored s ! i \<notin> set (copied (ob_flush s))" and "ob_stored s ! i \<notin> ob_late s"
  shows "carries (ob_rows s ! i) (ob_heap s ! (ob_stored s ! i)) \<and>
    (mr_Status (ob_rows s ! i) = StatusSending \<longrightarrow> record_key (ob_rows s ! i) \<in> set (ob_registered s) \<union> set (calling (ob_flush s))) \<and>
    ob_stored s ! i \<notin> set (gm_values (ob_pending s))"
proof -
  have inv: "ob_inv s" by (rule outbox.reach_inv [OF assms(1)])
  have m: "mset (everywhere s) = mset [0..<length (ob_heap s)]" using inv by (simp add: ob_inv_def)
  have t: "tracks (ob_heap s) (ob_late s) (ob_stored s ! i) (ob_rows s ! i)"
    using inv assms(3) by (auto simp: ob_inv_def list_all2_conv_all_nth)
  then have c: "carries (ob_rows s ! i) (ob_heap s ! (ob_stored s ! i))" using assms(5) by (simp add: tracks_def)
  have "watched s" using inv assms(2) by (simp add: ob_inv_def)
  moreover have "ob_stored s ! i \<in> set (ob_stored s)" using assms(3) by simp
  ultimately have "mr_Status (ob_rows s ! i) = StatusSending \<longrightarrow> record_key (ob_rows s ! i) \<in> set (ob_registered s) \<union> set (calling (ob_flush s))"
    using assms(4) carries_key [OF c] carries_status [OF c] by (auto simp: watched_def)
  moreover have "ob_stored s ! i \<notin> set (gm_values (ob_pending s))"
    using inv assms(3,4) everywhere_mem(2) [OF m, of "ob_stored s ! i"]
    by (auto simp: ob_inv_def pending_live_def gm_values_iff)
  ultimately show ?thesis using c by blast
qed

lemma demo_settled:
  assumes "reach ob_init ob_step (demo_outbox r row late (Snapped [0] [demo_record]))" and "row = demo_row" and "record_key r = record_key demo_record"
  shows "reach ob_init ob_step (demo_outbox r row late (Calling (if mr_Status r = StatusSending then [record_key r] else [])))"
proof -
  let ?s = "demo_outbox r row late"
  have "CreateBatch 0 [demo_record] [] = [row]" by (simp add: CreateBatch_def assms(2) demo_row_def)
  with reach_step [OF assms(1) flush_insert [of _ "[0]" "[demo_record]" 0]]
  have "reach ob_init ob_step (?s (Inserted [0]))" by (simp add: demo_outbox_def)
  moreover have "ob_step (?s (Inserted [0])) (?s (Calling (if mr_Status r = StatusSending then [record_key r] else [])))"
    using flush_settle [of "?s (Inserted [0])" "[0]"] by (auto simp: demo_outbox_def settle_batch_eq discard_batch_def forget_def)
  ultimately show ?thesis by (rule reach_step)
qed

lemma outbox_row_current_witness:
  "carries demo_row demo_record \<and> record_key demo_row \<in> set (calling (Calling [record_key demo_record]))"
proof -
  have st: "mr_Status demo_record = StatusSending" "mr_Status demo_row = StatusSending"
    by (simp_all add: demo_record_def demo_row_def BeforeCreate_def)
  have "reach ob_init ob_step (demo_outbox demo_record demo_row {} (Calling [record_key demo_record]))"
    using demo_settled [OF demo_copied refl refl] st by simp
  from outbox_row_current [OF this, of 0] st show ?thesis by (simp add: demo_outbox_def)
qed

text \<open>A status that is merged in that window is lost: the report was accepted, the object holds it, but the
  row stays at sending, no timeout is registered for it and the pending map is empty.\<close>

theorem outbox_lost_update:
  "\<exists>s. reach ob_init ob_step s \<and> ob_callback s \<and> ob_flush s = FIdle \<and> ob_pending s = [] \<and> ob_registered s = [] \<and>
     map (\<lambda>p. mr_Status (ob_heap s ! p)) (ob_stored s) = [StatusFailed] \<and> map mr_Status (ob_rows s) = [StatusSending]"
proof -
  define r where "r = merge_status 5 StatusFailed ReasonQueueFull [] demo_record"
  have k: "record_key r = record_key demo_record" and st: "mr_Status r = StatusFailed" by (simp_all add: r_def) (simp add: merge_status_def)
  let ?s = "demo_outbox demo_record demo_row {} (Snapped [0] [demo_record])"
  have "UpdateStatusIfPending 5 (record_key demo_record) StatusFailed ReasonQueueFull [] (ob_pending ?s) (ob_heap ?s) = (True, [r])"
    by (simp add: UpdateStatusIfPending_def demo_outbox_def r_def)
  from reach_step [OF demo_copied merge [OF this]]
  have "reach ob_init ob_step (demo_outbox r demo_row {0} (Snapped [0] [demo_record]))" by (simp add: demo_outbox_def k)
  from demo_settled [OF this refl k] st have c: "reach ob_init ob_step (demo_outbox r demo_row {0} (Calling []))" by simp
  from reach_step [OF c flush_call [of _ "[]"]] have "reach ob_init ob_step (demo_outbox r demo_row {0} FIdle)" by (simp add: demo_outbox_def)
  then show ?thesis using st
    by (intro exI [of _ "demo_outbox r demo_row {0} FIdle"]) (simp add: demo_outbox_def demo_row_def BeforeCreate_def demo_record_def)
qed

end
