(* ===== verification/Ack_Timeout.thy ===== *)
theory Ack_Timeout
  imports Delivery Message_Record
begin

text \<open>
  Messages that no node confirms: messaging/ack_timer.go, messaging/node_ack_timeout.go and the record
  queries of messaging/message_record.go.

  \<^item> The timing wheel is a parameter: \<open>schedule\<close> and \<open>cancel\<close> are its operations on a state of its own.  A
    timer runs \<open>makeAckTimeoutCallback\<close>; the event loop of the hub runs \<open>timeoutStaleSendingRecords\<close>.
  \<^item> Both are given as one function, and as steps of threads on several nodes that share the table.
  \<^item> \<open>fail\<close> gives the error of the claiming statement for a key, \<open>dec\<close> is the JSON decoding of a message.
\<close>

declare map_of_eq_Some_iff [simp del]

section \<open>Timers\<close>

definition nodeAckFallbackScanInterval :: int where "nodeAckFallbackScanInterval = 5 * 60 * 10 ^ 9"
definition nodeAckTimeout :: int where "nodeAckTimeout = 30 * 10 ^ 9"
definition nodeAckTimeoutJitter :: int where "nodeAckTimeoutJitter = 3 * 10 ^ 9"
definition nodeAckScanLimit :: int where "nodeAckScanLimit = 200"

text \<open>The UTF-8 bytes of the error text.\<close>

definition errNodeAckTimeout :: string where
  "errNodeAckTimeout = map (char_of :: nat \<Rightarrow> char)
     [232, 183, 168, 232, 138, 130, 231, 130, 185, 230, 138, 149, 233, 128, 146, 230, 156, 170, 229, 156, 168, 232,
      182, 133, 230, 151, 182, 229, 134, 133, 230, 148, 182, 229, 136, 176, 231, 155, 174, 230, 160, 135, 232, 138,
      130, 231, 130, 185, 231, 161, 174, 232, 174, 164, 239, 188, 136, 232, 174, 162, 233, 152, 133, 229, 164, 177,
      230, 180, 187, 230, 136, 150, 230, 182, 136, 230, 129, 175, 228, 184, 162, 229, 164, 177, 239, 188, 137]"

text \<open>\<open>jitter\<close> is the random number below \<open>nodeAckTimeoutJitter\<close>.\<close>

definition scheduleAckTimeout :: "(string \<Rightarrow> int \<Rightarrow> MessageRecordKey \<Rightarrow> 'w \<Rightarrow> 'w) \<Rightarrow> int \<Rightarrow> MessageRecordKey \<Rightarrow> 'w option \<Rightarrow> 'w option" where
  "scheduleAckTimeout schedule jitter key timer =
     (case timer of
        None \<Rightarrow> None
      | Some w \<Rightarrow> if rk_MessageID key = [] then Some w else Some (schedule (ackTimerKey key) (nodeAckTimeout + jitter) key w))"

definition ScheduleAckTimeouts :: "(string \<Rightarrow> int \<Rightarrow> MessageRecordKey \<Rightarrow> 'w \<Rightarrow> 'w) \<Rightarrow> (MessageRecordKey \<Rightarrow> int) \<Rightarrow> MessageRecordKey list \<Rightarrow> 'w option \<Rightarrow> 'w option" where
  "ScheduleAckTimeouts schedule jitter keys timer = fold (\<lambda>key. scheduleAckTimeout schedule (jitter key) key) keys timer"

definition cancelAckTimeout :: "(string \<Rightarrow> 'w \<Rightarrow> 'w) \<Rightarrow> MessageRecordKey \<Rightarrow> 'w option \<Rightarrow> 'w option" where
  "cancelAckTimeout cancel key timer =
     (case timer of None \<Rightarrow> None | Some w \<Rightarrow> if rk_MessageID key = [] then Some w else Some (cancel (ackTimerKey key) w))"

section \<open>Giving a message up\<close>

abbreviation claim :: "(MessageRecordKey \<Rightarrow> string option) \<Rightarrow> int \<Rightarrow> MessageRecordKey list \<Rightarrow> rows \<Rightarrow> (MessageRecordKey list \<times> string option) \<times> rows" where
  "claim fail now keys rows \<equiv> ClaimStaleSending fail now keys StatusAckTimeout ReasonAckTimeout errNodeAckTimeout rows"

text \<open>The message of a record that goes to the offline store.\<close>

definition rescued :: "(string \<Rightarrow> 'e + HubMessage) \<Rightarrow> MessageSendRecord \<Rightarrow> HubMessage option" where
  "rescued dec record =
     (if mr_Receiver record = [] then None
      else case GetMessage dec record of Inl err \<Rightarrow> None | Inr None \<Rightarrow> None | Inr (Some msg) \<Rightarrow> Some msg)"

definition hand_over :: "HubMessage option \<Rightarrow> Node \<Rightarrow> Node" where
  "hand_over msg node = (case msg of None \<Rightarrow> node | Some m \<Rightarrow> StoreOfflineOnDeliveryFailure m node)"

text \<open>\<open>found\<close> says whether the query of the record itself succeeds; \<open>guard\<close> holds the keys of the reroute guard.\<close>

definition makeAckTimeoutCallback :: "(string \<Rightarrow> 'e + HubMessage) \<Rightarrow> (MessageRecordKey \<Rightarrow> string option) \<Rightarrow> bool \<Rightarrow> int \<Rightarrow> MessageRecordKey
    \<Rightarrow> string set \<times> rows \<times> Node \<Rightarrow> string set \<times> rows \<times> Node" where
  "makeAckTimeoutCallback dec fail found now key st =
     (case st of (guard, rows, node) \<Rightarrow>
        let guard = guard - {rk_MessageID key}
        in if \<not> nd_sink node then (guard, rows, node)
           else case claim fail now [key] rows of
             ((claimed, err), rows) \<Rightarrow>
               if err \<noteq> None \<or> claimed = [] \<or> \<not> found then (guard, rows, node)
               else case FindByMessageID key rows of
                      None \<Rightarrow> (guard, rows, node)
                    | Some record \<Rightarrow> (guard, rows, hand_over (rescued dec record) node))"

definition stale_records :: "int \<Rightarrow> rows \<Rightarrow> rows" where
  "stale_records now rows =
     filter (\<lambda>r. mr_CreateTime r < now - nodeAckTimeout)
       (QueryRecords (any_filter\<lparr>mf_Status := Some StatusSending, mf_Limit := nodeAckScanLimit\<rparr>) rows)"

definition give_record :: "(string \<Rightarrow> 'e + HubMessage) \<Rightarrow> MessageRecordKey set \<Rightarrow> MessageSendRecord \<Rightarrow> Node \<Rightarrow> Node" where
  "give_record dec claimedSet record node = (if record_key record \<notin> claimedSet then node else hand_over (rescued dec record) node)"

text \<open>\<open>queried\<close> says whether the query succeeds.  A failing claim leaves what was claimed before it.\<close>

definition timeoutStaleSendingRecords :: "(string \<Rightarrow> 'e + HubMessage) \<Rightarrow> (MessageRecordKey \<Rightarrow> string option) \<Rightarrow> bool \<Rightarrow> int
    \<Rightarrow> rows \<times> Node \<Rightarrow> rows \<times> Node" where
  "timeoutStaleSendingRecords dec fail queried now st =
     (case st of (rows, node) \<Rightarrow>
        if \<not> nd_sink node \<or> \<not> queried then (rows, node)
        else let stale = stale_records now rows
             in if stale = [] then (rows, node)
                else case claim fail now (map record_key stale) rows of
                       ((claimed, err), rows) \<Rightarrow>
                         if claimed = [] then (rows, node) else (rows, fold (give_record dec (set claimed)) stale node))"

section \<open>Queries\<close>

datatype record_error = ErrRecordRepositoryNotSet

definition with_sink :: "Node \<Rightarrow> 'a \<Rightarrow> record_error + 'a" where
  "with_sink node x = (if nd_sink node then Inr x else Inl ErrRecordRepositoryNotSet)"

definition QueryMessageRecord :: "Node \<Rightarrow> string \<Rightarrow> string \<Rightarrow> rows \<Rightarrow> record_error + MessageSendRecord option" where
  "QueryMessageRecord node messageID receiver rows =
     with_sink node (FindByMessageID \<lparr>rk_MessageID = messageID, rk_Receiver = receiver\<rparr> rows)"

definition QueryMessageRecordsBySender :: "Node \<Rightarrow> string \<Rightarrow> int \<Rightarrow> rows \<Rightarrow> record_error + rows" where
  "QueryMessageRecordsBySender node sender limit rows =
     with_sink node (QueryRecords (any_filter\<lparr>mf_Sender := sender, mf_Limit := limit, mf_OrderDesc := True\<rparr>) rows)"

definition QueryMessageRecordsByReceiver :: "Node \<Rightarrow> string \<Rightarrow> int \<Rightarrow> rows \<Rightarrow> record_error + rows" where
  "QueryMessageRecordsByReceiver node receiver limit rows =
     with_sink node (QueryRecords (any_filter\<lparr>mf_Receiver := receiver, mf_Limit := limit, mf_OrderDesc := True\<rparr>) rows)"

definition QueryMessageRecordsByNodeIP :: "Node \<Rightarrow> string \<Rightarrow> int \<Rightarrow> rows \<Rightarrow> record_error + rows" where
  "QueryMessageRecordsByNodeIP node nodeIP limit rows =
     with_sink node (QueryRecords (any_filter\<lparr>mf_NodeIP := nodeIP, mf_Limit := limit, mf_OrderDesc := True\<rparr>) rows)"

definition QueryMessageRecordsByClientIP :: "Node \<Rightarrow> string \<Rightarrow> int \<Rightarrow> rows \<Rightarrow> record_error + rows" where
  "QueryMessageRecordsByClientIP node clientIP limit rows =
     with_sink node (QueryRecords (any_filter\<lparr>mf_ClientIP := clientIP, mf_Limit := limit, mf_OrderDesc := True\<rparr>) rows)"

definition QueryMessageRecordsByStatus :: "Node \<Rightarrow> MessageSendStatus \<Rightarrow> int \<Rightarrow> rows \<Rightarrow> record_error + rows" where
  "QueryMessageRecordsByStatus node status limit rows =
     with_sink node (QueryRecords (any_filter\<lparr>mf_Status := Some status, mf_Limit := limit, mf_OrderDesc := True\<rparr>) rows)"

definition QueryRetryableMessageRecords :: "Node \<Rightarrow> int \<Rightarrow> int \<Rightarrow> rows \<Rightarrow> record_error + rows" where
  "QueryRetryableMessageRecords node now limit rows = with_sink node (FindRetryable now limit rows)"

definition DeleteMessageRecord :: "Node \<Rightarrow> nat \<Rightarrow> rows \<Rightarrow> record_error + rows" where
  "DeleteMessageRecord node i rows = with_sink node (Delete_row i rows)"

definition DeleteMessageRecordByMessageID :: "Node \<Rightarrow> string \<Rightarrow> rows \<Rightarrow> record_error + rows" where
  "DeleteMessageRecordByMessageID node messageID rows = with_sink node (DeleteByMessageID messageID rows)"

section \<open>Threads on several nodes\<close>

text \<open>
  \<open>TClaimed\<close> is a timer callback between its claim and its query; \<open>SClaiming\<close> a scan that still has to claim
  the keys \<open>todo\<close>, \<open>SGiving\<close> one that goes through the rest of its records.  The number is the node.
  \<open>at_given\<close> records the keys handed to the offline handler of any node.
\<close>

datatype at_pc = TIdle | TClaimed nat MessageRecordKey | SClaiming nat "MessageSendRecord list" "MessageRecordKey list" "MessageRecordKey list"
  | SGiving nat "MessageSendRecord list" "MessageRecordKey list"

record at_state =
  at_rows :: rows
  at_nodes :: "nat \<Rightarrow> Node"
  at_threads :: "at_pc list"
  at_given :: "MessageRecordKey list"

definition at_init :: "at_state \<Rightarrow> bool" where
  "at_init s \<longleftrightarrow> distinct (map record_key (at_rows s)) \<and> (\<forall>pc \<in> set (at_threads s). pc = TIdle) \<and> at_given s = []"

definition given_key :: "HubMessage option \<Rightarrow> MessageRecordKey \<Rightarrow> MessageRecordKey list" where
  "given_key msg key = (if msg = None then [] else [key])"

inductive at_step :: "(string \<Rightarrow> string + HubMessage) \<Rightarrow> at_state \<Rightarrow> at_state \<Rightarrow> bool" for dec where
  other: "op_ok op \<Longrightarrow> sink_apply fail now op (at_rows s) = ([], rows) \<Longrightarrow> at_step dec s (s\<lparr>at_rows := rows\<rparr>)"
| fire: "i < length (at_threads s) \<Longrightarrow> at_threads s ! i = TIdle \<Longrightarrow> claim fail now [key] (at_rows s) = ((claimed, err), rows) \<Longrightarrow>
    at_step dec s (s\<lparr>at_rows := rows, at_threads := (at_threads s)[i := if err \<noteq> None \<or> claimed = [] then TIdle else TClaimed n key]\<rparr>)"
| lost: "i < length (at_threads s) \<Longrightarrow> at_threads s ! i = TClaimed n key \<Longrightarrow>
    at_step dec s (s\<lparr>at_threads := (at_threads s)[i := TIdle]\<rparr>)"
| give: "i < length (at_threads s) \<Longrightarrow> at_threads s ! i = TClaimed n key \<Longrightarrow> FindByMessageID key (at_rows s) = Some record \<Longrightarrow>
    at_step dec s (s\<lparr>at_threads := (at_threads s)[i := TIdle], at_nodes := (at_nodes s)(n := hand_over (rescued dec record) (at_nodes s n)),
      at_given := at_given s @ given_key (rescued dec record) key\<rparr>)"
| scan: "i < length (at_threads s) \<Longrightarrow> at_threads s ! i = TIdle \<Longrightarrow> stale = stale_records now (at_rows s) \<Longrightarrow>
    at_step dec s (s\<lparr>at_threads := (at_threads s)[i := SClaiming n stale (map record_key stale) []]\<rparr>)"
| scan_claim: "i < length (at_threads s) \<Longrightarrow> at_threads s ! i = SClaiming n stale (key # todo) got \<Longrightarrow>
    claim fail now [key] (at_rows s) = ((claimed, err), rows) \<Longrightarrow>
    at_step dec s (s\<lparr>at_rows := rows,
      at_threads := (at_threads s)[i := if err = None then SClaiming n stale todo (got @ claimed) else SGiving n stale got]\<rparr>)"
| scan_claimed: "i < length (at_threads s) \<Longrightarrow> at_threads s ! i = SClaiming n stale [] got \<Longrightarrow>
    at_step dec s (s\<lparr>at_threads := (at_threads s)[i := SGiving n stale got]\<rparr>)"
| scan_skip: "i < length (at_threads s) \<Longrightarrow> at_threads s ! i = SGiving n (record # stale) got \<Longrightarrow> record_key record \<notin> set got \<Longrightarrow>
    at_step dec s (s\<lparr>at_threads := (at_threads s)[i := SGiving n stale got]\<rparr>)"
| scan_give: "i < length (at_threads s) \<Longrightarrow> at_threads s ! i = SGiving n (record # stale) got \<Longrightarrow> record_key record \<in> set got \<Longrightarrow>
    at_step dec s (s\<lparr>at_threads := (at_threads s)[i := SGiving n stale got],
      at_nodes := (at_nodes s)(n := hand_over (rescued dec record) (at_nodes s n)),
      at_given := at_given s @ given_key (rescued dec record) (record_key record)\<rparr>)"
| scan_end: "i < length (at_threads s) \<Longrightarrow> at_threads s ! i = SGiving n [] got \<Longrightarrow>
    at_step dec s (s\<lparr>at_threads := (at_threads s)[i := TIdle]\<rparr>)"

section \<open>Invariant\<close>

text \<open>How often a thread may still hand a key over.\<close>

fun owed :: "MessageRecordKey \<Rightarrow> at_pc \<Rightarrow> nat" where
  "owed k TIdle = 0"
| "owed k (TClaimed n key) = (if k = key then 1 else 0)"
| "owed k (SClaiming n stale todo got) = (if k \<in> set got then count_list (map record_key stale) k else 0)"
| "owed k (SGiving n stale got) = (if k \<in> set got then count_list (map record_key stale) k else 0)"

fun at_ok :: "at_pc \<Rightarrow> bool" where
  "at_ok (SClaiming n stale todo got) = distinct (map record_key stale)"
| "at_ok (SGiving n stale got) = distinct (map record_key stale)"
| "at_ok _ = True"

definition chances :: "MessageRecordKey \<Rightarrow> at_state \<Rightarrow> nat" where
  "chances k s = count_list (at_given s) k + sum_list (map (owed k) (at_threads s)) + (if awaiting k (at_rows s) then 1 else 0)"

definition at_inv :: "at_state \<Rightarrow> at_state \<Rightarrow> bool" where
  "at_inv s0 s \<longleftrightarrow> distinct (map record_key (at_rows s)) \<and> list_all at_ok (at_threads s) \<and>
     (\<forall>k. chances k s \<le> (if awaiting k (at_rows s0) then 1 else 0))"

lemma owed_update:
  assumes "i < length pcs"
  shows "sum_list (map (owed k) (pcs[i := pc])) + owed k (pcs ! i) = sum_list (map (owed k) pcs) + owed k pc"
proof -
  have "owed k (pcs ! i) \<le> sum_list (map (owed k) pcs)" using assms by (intro member_le_sum_list) auto
  then show ?thesis using assms by (simp add: map_update sum_list_update)
qed

lemma list_all_update: "list_all P xs \<Longrightarrow> P x \<Longrightarrow> list_all P (xs[i := x])"
  by (auto simp: list_all_iff dest: set_update_subset_insert [THEN subsetD])

lemma update_where_keys: "(\<And>r. record_key (f r) = record_key r) \<Longrightarrow> map record_key (update_where P f rows) = map record_key rows"
  by (simp add: update_where_def)

lemma claim_keys: "ClaimStaleSending fail now keys st reason err rows = (res, rows') \<Longrightarrow> map record_key rows' = map record_key rows"
proof (induction keys arbitrary: rows res)
  case (Cons key keys)
  then show ?case
    by (auto simp: Let_def update_where_keys split: option.splits prod.splits)
qed auto

lemma report_keys: "map record_key (BatchUpdateStatus now keys st reason err rows) = map record_key rows"
  by (simp add: BatchUpdateStatus_def Let_def update_where_keys) (auto simp: record_key_def update_where_def set_status_def)

lemma retry_keys: "map record_key (IncrementRetry now key attempt rows) = map record_key rows"
  unfolding IncrementRetry_def Let_def by (rule update_where_keys) (simp add: record_key_def)

lemma sink_keys: "sink_apply fail now op rows = (c, rows') \<Longrightarrow> distinct (map record_key rows) \<Longrightarrow> distinct (map record_key rows')"
proof (cases op)
  case (OpReport keys st reason err)
  then show "sink_apply fail now op rows = (c, rows') \<Longrightarrow> distinct (map record_key rows) \<Longrightarrow> ?thesis" by (auto simp del: map_map simp: report_keys)
next
  case (OpRetry key attempt)
  then show "sink_apply fail now op rows = (c, rows') \<Longrightarrow> distinct (map record_key rows) \<Longrightarrow> ?thesis" by (auto simp: retry_keys)
next
  case (OpClaim keys)
  then show "sink_apply fail now op rows = (c, rows') \<Longrightarrow> distinct (map record_key rows) \<Longrightarrow> ?thesis"
    by (auto split: prod.splits dest!: claim_keys)
qed (auto simp: CleanupOld_def DeleteExpired_def DeleteByMessageID_def intro: distinct_map_filter)

lemma distinct_query: "distinct (map f rows) \<Longrightarrow> distinct (map f (QueryRecords flt rows))"
proof -
  assume "distinct (map f rows)"
  then have "distinct (map f (sort_key g (filter P rows)))" for g :: "MessageSendRecord \<Rightarrow> int" and P
    by (auto simp: distinct_map inj_on_def)
  then show ?thesis unfolding QueryRecords_def limit_rows_def by (auto simp flip: take_map intro: distinct_take)
qed

lemma stale_keys: "distinct (map record_key rows) \<Longrightarrow> distinct (map record_key (stale_records now rows))"
  unfolding stale_records_def by (intro distinct_map_filter distinct_query)

lemma count_distinct: "distinct xs \<Longrightarrow> count_list xs x \<le> 1"
  by (induction xs) (auto simp: count_list_0_iff)

abbreviation waits :: "MessageRecordKey \<Rightarrow> rows \<Rightarrow> nat" where
  "waits k rows \<equiv> (if awaiting k rows then 1 else 0)"

lemma claim_waits:
  assumes "claim fail now keys rows = ((claimed, err), rows')"
  shows "waits k rows' + (if k \<in> set claimed then 1 else 0) \<le> waits k rows"
  using claim_once [OF assms, of k] by (auto simp: count_list_0_iff split: if_splits)

lemma claim_single: "claim fail now [key] rows = ((claimed, err), rows') \<Longrightarrow> claimed = [] \<or> claimed = [key]"
  by (auto simp: Let_def split: option.splits if_splits)

lemma op_waits: "sink_apply fail now op rows = (c, rows') \<Longrightarrow> op_ok op \<Longrightarrow> waits k rows' \<le> waits k rows"
  using sink_apply_once [of fail now op rows c rows' k] by auto

lemma at_inv_init: "at_init s \<Longrightarrow> at_inv s s"
proof -
  assume i: "at_init s"
  have "map (owed k) (at_threads s) = map (\<lambda>_. 0) (at_threads s)" for k using i by (auto simp: at_init_def)
  then show ?thesis using i by (auto simp: at_inv_def at_init_def chances_def list_all_iff sum_list_triv)
qed

lemma at_inv_le:
  assumes "at_inv s0 s" and "distinct (map record_key (at_rows t))" and "list_all at_ok (at_threads t)" and "\<And>k. chances k t \<le> chances k s"
  shows "at_inv s0 t"
  unfolding at_inv_def
proof (intro conjI allI)
  fix k
  have "chances k s \<le> waits k (at_rows s0)" using assms(1) by (simp only: at_inv_def)
  with assms(4) [of k] show "chances k t \<le> waits k (at_rows s0)" by (rule le_trans)
qed (use assms in simp_all)

text \<open>Every step replaces at most one thread; it suffices to compare what the step adds with what it uses up.\<close>

lemma inv_thread:
  assumes i: "at_inv s0 s" and n: "i < length (at_threads s)" and ok: "at_ok (at_threads s ! i) \<Longrightarrow> at_ok pc"
    and rows: "distinct (map record_key (at_rows s)) \<Longrightarrow> distinct (map record_key (at_rows t))"
    and pcs: "at_threads t = (at_threads s)[i := pc]" and given: "at_given t = at_given s @ ks"
    and le: "\<And>k. at_ok (at_threads s ! i) \<Longrightarrow> count_list ks k + owed k pc + waits k (at_rows t) \<le> owed k (at_threads s ! i) + waits k (at_rows s)"
  shows "at_inv s0 t"
proof -
  have pc: "at_ok (at_threads s ! i)" using i n by (auto simp: at_inv_def list_all_length)
  have "chances k t \<le> chances k s" for k
    using le [OF pc, of k] owed_update [OF n, of k pc] by (simp add: chances_def pcs given)
  moreover have "list_all at_ok (at_threads t)" using i ok [OF pc] by (simp add: at_inv_def pcs list_all_update)
  moreover have "distinct (map record_key (at_rows t))" using i rows by (simp add: at_inv_def)
  ultimately show ?thesis using at_inv_le [OF i] by blast
qed

lemma at_inv_step:
  assumes "at_inv s0 s" and "at_step dec s t"
  shows "at_inv s0 t"
  using assms(2)
proof cases
  case (other op fail now rows)
  have "chances k t \<le> chances k s" for k using op_waits [OF other(3,2), of k] by (simp add: chances_def other(1))
  moreover have "distinct (map record_key (at_rows t))" "list_all at_ok (at_threads t)"
    using assms(1) sink_keys [OF other(3)] by (simp_all add: at_inv_def other(1))
  ultimately show ?thesis using at_inv_le [OF assms(1)] by blast
next
  case (fire i fail now key claimed err rows n)
  show ?thesis
  proof (rule inv_thread [OF assms(1) fire(2), where ks = "[]" and pc = "if err \<noteq> None \<or> claimed = [] then TIdle else TClaimed n key"])
    fix k
    show "count_list [] k + owed k (if err \<noteq> None \<or> claimed = [] then TIdle else TClaimed n key) + waits k (at_rows t)
        \<le> owed k (at_threads s ! i) + waits k (at_rows s)"
      using claim_waits [OF fire(4), of k] claim_single [OF fire(4)] by (auto simp: fire(1,3) split: if_splits)
  qed (use claim_keys [OF fire(4)] in \<open>auto simp: fire(1,3)\<close>)
next
  case (lost i n key)
  show ?thesis by (rule inv_thread [OF assms(1) lost(2), where ks = "[]" and pc = TIdle]) (auto simp: lost(1,3))
next
  case (give i n key r)
  show ?thesis
    by (rule inv_thread [OF assms(1) give(2), where ks = "given_key (rescued dec r) key" and pc = TIdle])
      (auto simp: give(1,3) given_key_def)
next
  case (scan i stale now n)
  show ?thesis
    by (rule inv_thread [OF assms(1) scan(2), where ks = "[]" and pc = "SClaiming n stale (map record_key stale) []"])
      (use assms(1) in \<open>auto simp: scan(1,3,4) at_inv_def stale_keys\<close>)
next
  case (scan_claim i n stale key todo got fail now claimed err rows)
  show ?thesis
  proof (rule inv_thread [OF assms(1) scan_claim(2), where ks = "[]"
        and pc = "if err = None then SClaiming n stale todo (got @ claimed) else SGiving n stale got"])
    fix k assume "at_ok (at_threads s ! i)"
    then have "count_list (map record_key stale) k \<le> 1" using scan_claim(3) by (intro count_distinct) simp
    then show "count_list [] k + owed k (if err = None then SClaiming n stale todo (got @ claimed) else SGiving n stale got) + waits k (at_rows t)
        \<le> owed k (at_threads s ! i) + waits k (at_rows s)"
      using claim_waits [OF scan_claim(4), of k] by (auto simp: scan_claim(1,3) split: if_splits)
  qed (use claim_keys [OF scan_claim(4)] in \<open>auto simp: scan_claim(1,3)\<close>)
next
  case (scan_claimed i n stale got)
  show ?thesis
    by (rule inv_thread [OF assms(1) scan_claimed(2), where ks = "[]" and pc = "SGiving n stale got"]) (auto simp: scan_claimed(1,3))
next
  case (scan_skip i n r stale got)
  show ?thesis
    by (rule inv_thread [OF assms(1) scan_skip(2), where ks = "[]" and pc = "SGiving n stale got"]) (use scan_skip(4) in \<open>auto simp: scan_skip(1,3)\<close>)
next
  case (scan_give i n r stale got)
  show ?thesis
    by (rule inv_thread [OF assms(1) scan_give(2), where ks = "given_key (rescued dec r) (record_key r)" and pc = "SGiving n stale got"])
      (use scan_give(4) in \<open>auto simp: scan_give(1,3) given_key_def\<close>)
next
  case (scan_end i n got)
  show ?thesis by (rule inv_thread [OF assms(1) scan_end(2), where ks = "[]" and pc = TIdle]) (auto simp: scan_end(1,3))
qed

section \<open>One complete scan\<close>

lemma claim_all:
  assumes "st \<noteq> StatusSending"
  shows "\<exists>claimed. ClaimStaleSending (\<lambda>_. None :: string option) now keys st reason err rows =
      ((claimed, None), update_where (\<lambda>r. record_key r \<in> set keys \<and> mr_Status r = StatusSending) (set_status now st reason err) rows) \<and>
    set claimed = {k \<in> set keys. awaiting k rows}"
proof (induction keys arbitrary: rows)
  case (Cons key keys)
  define P where "P = (\<lambda>r. record_key r = key \<and> mr_Status r = StatusSending)"
  define rows1 where "rows1 = update_where P (set_status now st reason err) rows"
  obtain cl where cl: "ClaimStaleSending (\<lambda>_. None :: string option) now keys st reason err rows1 =
      ((cl, None), update_where (\<lambda>r. record_key r \<in> set keys \<and> mr_Status r = StatusSending) (set_status now st reason err) rows1)"
      "set cl = {k \<in> set keys. awaiting k rows1}"
    using Cons.IH [of rows1] by blast
  have a: "awaiting k rows1 \<longleftrightarrow> awaiting k rows \<and> k \<noteq> key" for k
    unfolding rows1_def by (subst awaiting_update) (use assms in \<open>auto simp: P_def awaiting_def\<close>)
  have f: "filter P rows \<noteq> [] \<longleftrightarrow> awaiting key rows" by (auto simp: P_def awaiting_def filter_empty_conv)
  have u: "update_where (\<lambda>r. record_key r \<in> set keys \<and> mr_Status r = StatusSending) (set_status now st reason err) rows1 =
      update_where (\<lambda>r. record_key r \<in> set (key # keys) \<and> mr_Status r = StatusSending) (set_status now st reason err) rows"
    using assms by (auto simp: rows1_def update_where_def P_def)
  show ?case using cl a f u by (auto simp: Let_def P_def [symmetric] rows1_def [symmetric])
qed (simp add: update_where_def)

lemma sorted_filter_prefix: "sorted (map f xs) \<Longrightarrow> filter (\<lambda>x. f x < (c :: int)) xs = takeWhile (\<lambda>x. f x < c) xs"
proof (induction xs)
  case (Cons a xs)
  have "filter (\<lambda>x. f x < c) xs = []" if "\<not> f a < c" using Cons.prems that by (auto simp: filter_empty_conv)
  with Cons show ?case by auto
qed simp

lemma takeWhile_take: "takeWhile P (take n xs) = take n (takeWhile P xs)"
  by (induction xs arbitrary: n) (auto simp: take_Cons split: nat.split)

lemma stale_records_eq:
  "stale_records now rows =
    take 200 (sort_key mr_CreateTime (filter (\<lambda>r. mr_Status r = StatusSending \<and> mr_CreateTime r < now - nodeAckTimeout) rows))"
proof -
  define xs where "xs = sort_key mr_CreateTime (filter (\<lambda>r. mr_Status r = StatusSending) rows)"
  have s: "sorted (map mr_CreateTime xs)" by (simp add: xs_def)
  have "stale_records now rows = filter (\<lambda>r. mr_CreateTime r < now - nodeAckTimeout) (take 200 xs)"
    by (simp add: stale_records_def QueryRecords_def limit_rows_def matches_def [abs_def] any_filter_def nodeAckScanLimit_def xs_def)
  also have "\<dots> = takeWhile (\<lambda>r. mr_CreateTime r < now - nodeAckTimeout) (take 200 xs)"
    using s by (intro sorted_filter_prefix) (simp add: sorted_wrt_take flip: take_map)
  also have "\<dots> = take 200 (takeWhile (\<lambda>r. mr_CreateTime r < now - nodeAckTimeout) xs)" by (simp add: takeWhile_take)
  also have "takeWhile (\<lambda>r. mr_CreateTime r < now - nodeAckTimeout) xs = filter (\<lambda>r. mr_CreateTime r < now - nodeAckTimeout) xs"
    using sorted_filter_prefix [OF s] by simp
  finally show ?thesis by (simp add: xs_def filter_sort conj_commute)
qed

definition accepts :: "Node \<Rightarrow> HubMessage \<Rightarrow> bool" where
  "accepts node msg \<longleftrightarrow> nd_offlineHandler node \<and> hm_Receiver msg \<noteq> [] \<and> hm_Source msg \<noteq> MessageSourceOffline"

lemma offline_hand_over:
  "nd_offline (hand_over m node) = nd_offline node @ (case m of None \<Rightarrow> [] | Some msg \<Rightarrow> if accepts node msg then [msg] else [])"
  "accepts (hand_over m node) = accepts node"
  by (auto simp: hand_over_def StoreOfflineOnDeliveryFailure_def accepts_def fun_eq_iff split: option.splits)

lemma fold_give:
  "\<forall>r \<in> set stale. record_key r \<in> C \<Longrightarrow>
    nd_offline (fold (give_record dec C) stale node) = nd_offline node @ filter (accepts node) (List.map_filter (rescued dec) stale)"
  by (induction stale arbitrary: node) (auto simp: give_record_def offline_hand_over map_filter_simps split: option.splits)

section \<open>Functions and steps\<close>

text \<open>A callback or a scan that is not interrupted is a sequence of steps of its thread.\<close>

definition runs_to :: "(string \<Rightarrow> string + HubMessage) \<Rightarrow> nat \<Rightarrow> nat \<Rightarrow> at_state \<Rightarrow> rows \<times> Node \<Rightarrow> bool" where
  "runs_to dec i n s res \<longleftrightarrow> (\<exists>t. (at_step dec)\<^sup>*\<^sup>* s t \<and> at_rows t = fst res \<and> at_nodes t = (at_nodes s)(n := snd res) \<and>
     at_threads t = (at_threads s)[i := TIdle])"

lemma runs_to_step:
  assumes "at_step dec s s'" and "runs_to dec i n s' res" and "at_nodes s' = (at_nodes s)(n := node)"
    and "\<And>pc. (at_threads s')[i := pc] = (at_threads s)[i := pc]"
  shows "runs_to dec i n s res"
proof -
  obtain t where t: "(at_step dec)\<^sup>*\<^sup>* s' t" "at_rows t = fst res" "at_nodes t = (at_nodes s')(n := snd res)" "at_threads t = (at_threads s')[i := TIdle]"
    using assms(2) by (auto simp: runs_to_def)
  from assms(1) t(1) have "(at_step dec)\<^sup>*\<^sup>* s t" by (rule converse_rtranclp_into_rtranclp)
  with t(2-4) assms(3,4) show ?thesis by (auto simp: runs_to_def)
qed

lemma runs_to_idle: "at_threads s ! i = TIdle \<Longrightarrow> runs_to dec i n s (at_rows s, at_nodes s n)"
  unfolding runs_to_def by (intro exI [of _ s]) (simp, metis list_update_id)

lemma callback_steps:
  assumes "i < length (at_threads s)" and "at_threads s ! i = TIdle" and "nd_sink (at_nodes s n)"
    and "makeAckTimeoutCallback dec fail found now key (guard, at_rows s, at_nodes s n) = (guard', rows, node)"
  shows "runs_to dec i n s (rows, node)"
proof -
  obtain claimed err rows1 where c: "claim fail now [key] (at_rows s) = ((claimed, err), rows1)" by (metis prod.exhaust)
  define s1 where "s1 = s\<lparr>at_rows := rows1, at_threads := (at_threads s)[i := if err \<noteq> None \<or> claimed = [] then TIdle else TClaimed n key]\<rparr>"
  have 1: "at_step dec s s1" unfolding s1_def by (rule fire [OF assms(1,2) c])
  have "runs_to dec i n s1 (rows, node)"
  proof (cases "err \<noteq> None \<or> claimed = []")
    case True
    then have "(rows, node) = (at_rows s1, at_nodes s1 n)" using assms(3,4) c by (auto simp: makeAckTimeoutCallback_def s1_def)
    with True assms(1) show ?thesis using runs_to_idle [of s1 i dec n] by (simp add: s1_def)
  next
    case False
    then have pc: "i < length (at_threads s1)" "at_threads s1 ! i = TClaimed n key" using assms(1) by (auto simp: s1_def)
    show ?thesis
    proof (cases "if found then FindByMessageID key rows1 else None")
      case None
      then have "(rows, node) = (at_rows s1, at_nodes s1 n)"
        using False assms(3,4) c by (auto simp: makeAckTimeoutCallback_def s1_def split: if_splits)
      moreover have "runs_to dec i n (s1\<lparr>at_threads := (at_threads s1)[i := TIdle]\<rparr>) (at_rows s1, at_nodes s1 n)"
        using runs_to_idle [of "s1\<lparr>at_threads := (at_threads s1)[i := TIdle]\<rparr>" i dec n] pc(1) by simp
      ultimately show ?thesis using runs_to_step [where dec = dec, OF lost [OF pc], where i = i and n = n and node = "at_nodes s1 n"] by simp
    next
      case (Some r)
      define s2 where "s2 = s1\<lparr>at_threads := (at_threads s1)[i := TIdle], at_nodes := (at_nodes s1)(n := hand_over (rescued dec r) (at_nodes s1 n)),
        at_given := at_given s1 @ given_key (rescued dec r) key\<rparr>"
      have f: "FindByMessageID key (at_rows s1) = Some r" using Some by (simp add: s1_def split: if_splits)
      have "(rows, node) = (at_rows s2, at_nodes s2 n)"
        using False Some assms(3,4) c by (auto simp: makeAckTimeoutCallback_def s1_def s2_def split: if_splits)
      moreover have "runs_to dec i n s2 (at_rows s2, at_nodes s2 n)" using runs_to_idle [of s2 i dec n] pc(1) by (simp add: s2_def)
      ultimately show ?thesis using runs_to_step [where dec = dec, OF give [OF pc f], where i = i and n = n and node = "hand_over (rescued dec r) (at_nodes s1 n)"] by (simp add: s2_def)
    qed
  qed
  then show ?thesis using runs_to_step [where dec = dec, OF 1, where i = i and n = n and node = "at_nodes s n"] by (simp add: s1_def)
qed

lemma giving_steps:
  "i < length (at_threads s) \<Longrightarrow> at_threads s ! i = SGiving n stale got \<Longrightarrow>
    runs_to dec i n s (at_rows s, fold (give_record dec (set got)) stale (at_nodes s n))"
proof (induction stale arbitrary: s)
  case Nil
  have "runs_to dec i n (s\<lparr>at_threads := (at_threads s)[i := TIdle]\<rparr>) (at_rows s, at_nodes s n)"
    using runs_to_idle [of "s\<lparr>at_threads := (at_threads s)[i := TIdle]\<rparr>" i dec n] Nil(1) by simp
  then show ?case using runs_to_step [where dec = dec, OF scan_end [OF Nil], where i = i and n = n and node = "at_nodes s n"] by simp
next
  case (Cons r stale)
  show ?case
  proof (cases "record_key r \<in> set got")
    case True
    let ?t = "s\<lparr>at_threads := (at_threads s)[i := SGiving n stale got], at_nodes := (at_nodes s)(n := hand_over (rescued dec r) (at_nodes s n)),
      at_given := at_given s @ given_key (rescued dec r) (record_key r)\<rparr>"
    have "runs_to dec i n ?t (at_rows s, fold (give_record dec (set got)) stale (hand_over (rescued dec r) (at_nodes s n)))"
      using Cons.IH [of ?t] Cons.prems(1) by simp
    then show ?thesis
      using runs_to_step [where dec = dec, OF scan_give [OF Cons.prems True], where i = i and n = n and node = "hand_over (rescued dec r) (at_nodes s n)"] True by (simp add: give_record_def [of dec "set got" r])
  next
    case False
    let ?t = "s\<lparr>at_threads := (at_threads s)[i := SGiving n stale got]\<rparr>"
    have "runs_to dec i n ?t (at_rows s, fold (give_record dec (set got)) stale (at_nodes s n))" using Cons.IH [of ?t] Cons.prems(1) by simp
    then show ?thesis using runs_to_step [where dec = dec, OF scan_skip [OF Cons.prems False], where i = i and n = n and node = "at_nodes s n"] False by (simp add: give_record_def [of dec "set got" r])
  qed
qed

lemma claiming_steps:
  "i < length (at_threads s) \<Longrightarrow> at_threads s ! i = SClaiming n stale todo got \<Longrightarrow> claim fail now todo (at_rows s) = ((claimed, err), rows) \<Longrightarrow>
    runs_to dec i n s (rows, fold (give_record dec (set (got @ claimed))) stale (at_nodes s n))"
proof (induction todo arbitrary: s got claimed)
  case Nil
  let ?t = "s\<lparr>at_threads := (at_threads s)[i := SGiving n stale got]\<rparr>"
  have "runs_to dec i n ?t (at_rows s, fold (give_record dec (set got)) stale (at_nodes s n))" using giving_steps [of i ?t n stale got dec] Nil(1) by simp
  then show ?case using runs_to_step [where dec = dec, OF scan_claimed [OF Nil(1,2)], where i = i and n = n and node = "at_nodes s n"] Nil(3) by simp
next
  case (Cons key todo)
  obtain c1 e1 rows1 where c: "claim fail now [key] (at_rows s) = ((c1, e1), rows1)" by (metis prod.exhaust)
  show ?case
  proof (cases e1)
    case None
    then obtain c2 where c2: "claim fail now todo rows1 = ((c2, err), rows)" "claimed = c1 @ c2"
      using c Cons.prems(3) by (auto simp: Let_def split: option.splits prod.splits if_splits)
    let ?t = "s\<lparr>at_rows := rows1, at_threads := (at_threads s)[i := SClaiming n stale todo (got @ c1)]\<rparr>"
    have "runs_to dec i n ?t (rows, fold (give_record dec (set (got @ claimed))) stale (at_nodes s n))"
      using Cons.IH [of ?t "got @ c1" c2] Cons.prems(1) c2 by simp
    then show ?thesis using runs_to_step [where dec = dec, OF scan_claim [OF Cons.prems(1,2) c], where i = i and n = n and node = "at_nodes s n"] None by simp
  next
    case (Some e)
    then have r: "claimed = []" "rows = rows1" using c Cons.prems(3) by (auto simp: Let_def split: option.splits prod.splits if_splits)
    let ?t = "s\<lparr>at_rows := rows1, at_threads := (at_threads s)[i := SGiving n stale got]\<rparr>"
    have "runs_to dec i n ?t (rows, fold (give_record dec (set (got @ claimed))) stale (at_nodes s n))"
      using giving_steps [of i ?t n stale got dec] Cons.prems(1) r by simp
    then show ?thesis using runs_to_step [where dec = dec, OF scan_claim [OF Cons.prems(1,2) c], where i = i and n = n and node = "at_nodes s n"] Some by simp
  qed
qed

lemma fold_give_none: "fold (give_record dec {}) stale node = node"
  by (induction stale) (auto simp: give_record_def)

lemma scan_steps:
  assumes "i < length (at_threads s)" and "at_threads s ! i = TIdle" and "nd_sink (at_nodes s n)"
    and "timeoutStaleSendingRecords dec fail True now (at_rows s, at_nodes s n) = (rows, node)"
  shows "runs_to dec i n s (rows, node)"
proof -
  define stale where "stale = stale_records now (at_rows s)"
  let ?t = "s\<lparr>at_threads := (at_threads s)[i := SClaiming n stale (map record_key stale) []]\<rparr>"
  obtain claimed err rows1 where c: "claim fail now (map record_key stale) (at_rows s) = ((claimed, err), rows1)" by (metis prod.exhaust)
  have "(rows, node) = (rows1, fold (give_record dec (set claimed)) stale (at_nodes s n))"
    using assms(3,4) c fold_give_none [of dec stale] by (auto simp: timeoutStaleSendingRecords_def stale_def [symmetric] Let_def split: if_splits)
  with claiming_steps [of i ?t n stale "map record_key stale" "[]" fail now claimed err rows1 dec] c assms(1)
  have "runs_to dec i n ?t (rows, node)" by simp
  then show ?thesis using runs_to_step [where dec = dec, OF scan [OF assms(1,2) stale_def], where i = i and n = n and node = "at_nodes s n"] by simp
qed

section \<open>Properties\<close>

text \<open>Whatever timers and scans of the nodes run side by side, and whatever reports, retries and clean-ups
  reach the shared table in between, a message is handed to the offline store at most once in all,
  and only if its record was waiting for a confirmation.\<close>

theorem hand_over_once:
  assumes "at_init s0" and "(at_step dec)\<^sup>*\<^sup>* s0 s"
  shows "count_list (at_given s) key \<le> 1 \<and> (key \<in> set (at_given s) \<longrightarrow> awaiting key (at_rows s0))"
proof -
  from assms(2) have "at_inv s0 s"
    by (induction rule: rtranclp_induct) (use at_inv_init [OF assms(1)] in \<open>auto intro: at_inv_step\<close>)
  then have "chances key s \<le> waits key (at_rows s0)" by (simp only: at_inv_def)
  then have "count_list (at_given s) key \<le> waits key (at_rows s0)" by (simp only: chances_def)
  then show ?thesis by (auto simp: count_list_0_iff split: if_splits)
qed

definition lost_message :: HubMessage where
  "lost_message = zero_message\<lparr>hm_MessageID := ''m1'', hm_Receiver := ''u1''\<rparr>"

definition lost_record :: MessageSendRecord where
  "lost_record = zero_record\<lparr>mr_MessageID := ''m1'', mr_Receiver := ''u1'', mr_MessageData := ''json'', mr_Status := StatusSending\<rparr>"

definition demo_dec :: "string \<Rightarrow> string + HubMessage" where
  "demo_dec data = Inr lost_message"

definition demo_at :: at_state where
  "demo_at = \<lparr>at_rows = [lost_record], at_nodes = (\<lambda>_. one_node (demo_client 0)), at_threads = [TIdle, TIdle], at_given = []\<rparr>"

lemma hand_over_once_witness:
  "\<exists>s. (at_step demo_dec)\<^sup>*\<^sup>* demo_at s \<and> nd_offline (at_nodes s 0) = [lost_message] \<and> count_list (at_given s) (record_key lost_record) \<le> 1"
proof -
  have c: "claim (\<lambda>_. None) 5 [record_key lost_record] [lost_record] =
      (([record_key lost_record], None), [set_status 5 StatusAckTimeout ReasonAckTimeout errNodeAckTimeout lost_record])"
    by (simp add: update_where_def lost_record_def)
  have r: "rescued demo_dec (set_status 5 StatusAckTimeout ReasonAckTimeout errNodeAckTimeout lost_record) = Some lost_message"
    by (simp add: rescued_def GetMessage_def demo_dec_def) (simp add: lost_record_def set_status_def)
  define node where "node = hand_over (Some lost_message) (one_node (demo_client 0))"
  have off: "nd_offline node = [lost_message]"
    by (simp add: node_def offline_hand_over) (simp add: accepts_def one_node_def lost_message_def zero_message_def)
  have cb: "makeAckTimeoutCallback demo_dec (\<lambda>_. None) True 5 (record_key lost_record) ({}, [lost_record], one_node (demo_client 0)) =
      ({}, [set_status 5 StatusAckTimeout ReasonAckTimeout errNodeAckTimeout lost_record], node)"
    by (simp add: makeAckTimeoutCallback_def c FindByMessageID_def r node_def del: ClaimStaleSending.simps) (simp add: one_node_def)
  have sink: "nd_sink (at_nodes demo_at 0)" "at_init demo_at" by (simp_all add: demo_at_def one_node_def at_init_def)
  have "runs_to demo_dec 0 0 demo_at ([set_status 5 StatusAckTimeout ReasonAckTimeout errNodeAckTimeout lost_record], node)"
    by (rule callback_steps [where guard = "{}", OF _ _ sink(1)]) (use cb in \<open>simp_all add: demo_at_def\<close>)
  then obtain t where t: "(at_step demo_dec)\<^sup>*\<^sup>* demo_at t" "at_nodes t = (at_nodes demo_at)(0 := node)" by (auto simp: runs_to_def)
  from hand_over_once [OF sink(2) t(1), of "record_key lost_record"] t off show ?thesis by auto
qed

text \<open>A scan in which no statement fails takes the (at most 200) oldest records that wait longer than the
  timeout, marks exactly their rows, and hands over their messages, oldest first.\<close>

theorem scan_exact:
  assumes "nd_sink node"
    and "stale = take 200 (sort_key mr_CreateTime (filter (\<lambda>r. mr_Status r = StatusSending \<and> mr_CreateTime r < now - nodeAckTimeout) rows))"
    and "timeoutStaleSendingRecords dec (\<lambda>_. None) True now (rows, node) = (rows', node')"
  shows "rows' = map (\<lambda>r. if record_key r \<in> record_key ` set stale \<and> mr_Status r = StatusSending
        then set_status now StatusAckTimeout ReasonAckTimeout errNodeAckTimeout r else r) rows \<and>
    nd_offline node' = nd_offline node @ filter (accepts node) (List.map_filter (rescued dec) stale)"
proof -
  have st: "stale_records now rows = stale" by (simp add: assms(2) stale_records_eq)
  obtain claimed where c: "claim (\<lambda>_. None) now (map record_key stale) rows =
      ((claimed, None), update_where (\<lambda>r. record_key r \<in> set (map record_key stale) \<and> mr_Status r = StatusSending)
        (set_status now StatusAckTimeout ReasonAckTimeout errNodeAckTimeout) rows)" "set claimed = {k \<in> set (map record_key stale). awaiting k rows}"
    using claim_all [of StatusAckTimeout now "map record_key stale" ReasonAckTimeout errNodeAckTimeout rows] by auto
  have w: "awaiting (record_key r) rows" if "r \<in> set stale" for r
    using that by (auto simp: assms(2) awaiting_def dest!: in_set_takeD)
  have "set claimed = record_key ` set stale" using c(2) w by auto
  then have "nd_offline (fold (give_record dec (set claimed)) stale node) = nd_offline node @ filter (accepts node) (List.map_filter (rescued dec) stale)"
    and "claimed = [] \<longleftrightarrow> stale = []"
    by (auto intro!: fold_give)
  then show ?thesis using assms(1,3) c(1)
    by (auto simp: timeoutStaleSendingRecords_def st Let_def update_where_def map_filter_simps split: if_splits)
qed

lemma scan_exact_witness:
  "nd_offline (snd (timeoutStaleSendingRecords demo_dec (\<lambda>_. None) True 100000000000 ([lost_record], one_node (demo_client 0)))) = [lost_message]"
proof -
  let ?now = "100000000000 :: int" and ?node = "one_node (demo_client 0)"
  obtain rows node where run: "timeoutStaleSendingRecords demo_dec (\<lambda>_. None) True ?now ([lost_record], ?node) = (rows, node)" by force
  have sink: "nd_sink ?node" by (simp add: one_node_def)
  have r: "rescued demo_dec lost_record = Some lost_message" by (simp add: rescued_def GetMessage_def demo_dec_def) (simp add: lost_record_def)
  have "take 200 (sort_key mr_CreateTime (filter (\<lambda>r. mr_Status r = StatusSending \<and> mr_CreateTime r < ?now - nodeAckTimeout) [lost_record])) = [lost_record]"
    by (simp add: lost_record_def nodeAckTimeout_def zero_record_def)
  moreover have "accepts ?node lost_message" "nd_offline ?node = []" by (simp_all add: accepts_def one_node_def lost_message_def zero_message_def)
  ultimately show ?thesis using scan_exact [OF sink _ run, of "[lost_record]"] by (simp add: run map_filter_simps r)
qed

text \<open>The scan goes by records, not by claimed keys: two rows of one message, as a retried send leaves them,
  are handed over twice.\<close>

lemma scan_duplicates:
  "nd_offline (snd (timeoutStaleSendingRecords demo_dec (\<lambda>_. None) True 100000000000 ([lost_record, lost_record], one_node (demo_client 0)))) =
    [lost_message, lost_message]"
proof -
  let ?now = "100000000000 :: int" and ?node = "one_node (demo_client 0)"
  obtain rows node where run: "timeoutStaleSendingRecords demo_dec (\<lambda>_. None) True ?now ([lost_record, lost_record], ?node) = (rows, node)" by force
  obtain claimed where c: "claim (\<lambda>_. None) ?now (map record_key [lost_record, lost_record]) [lost_record, lost_record] =
      ((claimed, None), update_where (\<lambda>r. record_key r \<in> set (map record_key [lost_record, lost_record]) \<and> mr_Status r = StatusSending)
        (set_status ?now StatusAckTimeout ReasonAckTimeout errNodeAckTimeout) [lost_record, lost_record])"
      "set claimed = {k \<in> set (map record_key [lost_record, lost_record]). awaiting k [lost_record, lost_record]}"
    using claim_all [of StatusAckTimeout ?now "map record_key [lost_record, lost_record]" ReasonAckTimeout errNodeAckTimeout "[lost_record, lost_record]"] by auto
  have st: "stale_records ?now [lost_record, lost_record] = [lost_record, lost_record]"
    by (simp add: stale_records_eq) (simp add: lost_record_def nodeAckTimeout_def zero_record_def)
  have cl: "set claimed = {record_key lost_record}" using c(2) by (auto simp: awaiting_def) (simp add: lost_record_def)
  have r: "rescued demo_dec lost_record = Some lost_message" by (simp add: rescued_def GetMessage_def demo_dec_def) (simp add: lost_record_def)
  have acc: "accepts ?node lost_message" "nd_sink ?node" "nd_offline ?node = []" by (simp_all add: accepts_def one_node_def lost_message_def zero_message_def)
  have "claimed \<noteq> []" using cl by auto
  then have "node = fold (give_record demo_dec (set claimed)) [lost_record, lost_record] ?node"
    using run acc(2) c(1) by (simp add: timeoutStaleSendingRecords_def st Let_def del: ClaimStaleSending.simps)
  then show ?thesis using fold_give [of "[lost_record, lost_record]" "set claimed" demo_dec ?node] cl acc by (simp add: run map_filter_simps r)
qed

text \<open>Two records may share the key of a timer when an id contains the separator.\<close>

lemma ackTimerKey_collision:
  "ackTimerKey \<lparr>rk_MessageID = ''a|b'', rk_Receiver = ''c''\<rparr> = ackTimerKey \<lparr>rk_MessageID = ''a'', rk_Receiver = ''b|c''\<rparr>"
  by (simp add: ackTimerKey_def)

end
