(* ===== verification/Offline_Store.thy ===== *)
theory Offline_Store
  imports Delivery
begin

text \<open>
  The offline message store: adapter/gorm/offline_queue.go and batch_delete.go (the table), adapter/redis/message_queue.go (the
  queues) and the handler of messaging/offline.go that writes to both.

  \<^item> The table is a list of rows in the order of their insertion, with the unique index of models/offline_message.go; a query reads
    it in the order of \<open>created_at\<close> and takes the rows of one instant in the order of insertion, which SQL leaves open.
  \<^item> A queue is a list per key.  A backend that is down answers every call with an error and changes nothing; a panic of a write is
    recovered into an error and counts as such.
  \<^item> Compression is a parameter, with \<open>None\<close> for an error.  The expiry of queues is a step of the environment.
\<close>

declare map_of_eq_Some_iff [simp del]

section \<open>The table\<close>

record 'z OfflineMessageRecord =
  or_ID :: nat
  or_MessageID :: string
  or_Sender :: string
  or_Receiver :: string
  or_AppID :: string
  or_Namespace :: string
  or_GroupID :: string
  or_SessionID :: string
  or_CompressedData :: 'z
  or_Status :: MessageSendStatus
  or_RetryCount :: int
  or_MaxRetry :: int
  or_ScheduledAt :: int
  or_ExpireAt :: int
  or_FirstPushAt :: "int option"
  or_LastPushAt :: "int option"
  or_ErrorMessage :: string
  or_CreatedAt :: int

datatype offline_error = MessageNil | StorageSkipped | BothFailed | BackendFailed | DuplicateKey | CompressFailed | DecompressFailed | ClearFailed

record 'z Offline =
  of_rows :: "'z OfflineMessageRecord list"
  of_next :: nat
  of_dbUp :: bool
  of_queues :: "string \<Rightarrow> 'z list"
  of_redisUp :: bool

definition PendingOfflineStatuses :: "MessageSendStatus list" where
  "PendingOfflineStatuses = [StatusUserOffline, StatusPending, StatusFailed]"

text \<open>The columns of the unique index.\<close>

definition row_key :: "'z OfflineMessageRecord \<Rightarrow> string \<times> string \<times> string \<times> string" where
  "row_key r = (or_MessageID r, or_AppID r, or_Namespace r, or_Receiver r)"

text \<open>Columns with a default take it when the field has its zero value.\<close>

definition column_defaults :: "'z OfflineMessageRecord \<Rightarrow> 'z OfflineMessageRecord" where
  "column_defaults r = r\<lparr>or_AppID := NormalizeAppID (or_AppID r),
     or_Status := (if or_Status r = [] then StatusUserOffline else or_Status r),
     or_MaxRetry := (if or_MaxRetry r = 0 then 3 else or_MaxRetry r)\<rparr>"

definition Save :: "'z OfflineMessageRecord \<Rightarrow> 'z Offline \<Rightarrow> offline_error option \<times> 'z Offline" where
  "Save record' s =
     (let r = (column_defaults record')\<lparr>or_ID := of_next s\<rparr>
      in if \<not> of_dbUp s then (Some BackendFailed, s)
         else if row_key r \<in> row_key ` set (of_rows s) then (Some DuplicateKey, s)
         else (None, s\<lparr>of_rows := of_rows s @ [r], of_next := of_next s + 1\<rparr>))"

datatype MessageRole = MessageRoleReceiver | MessageRoleSender

record OfflineMessageFilter =
  ft_UserID :: string
  ft_Role :: MessageRole
  ft_AppID :: string
  ft_Namespace :: string
  ft_GroupID :: string
  ft_Limit :: int
  ft_Cursor :: string
  ft_Statuses :: "MessageSendStatus list"
  ft_ExcludeExhausted :: bool

definition if_not_empty :: "string \<Rightarrow> string \<Rightarrow> bool" where
  "if_not_empty v column \<longleftrightarrow> v = [] \<or> column = v"

definition exhausted :: "'z OfflineMessageRecord \<Rightarrow> bool" where
  "exhausted r \<longleftrightarrow> \<not> (or_MaxRetry r \<le> 0 \<or> or_RetryCount r < or_MaxRetry r)"

text \<open>The subquery of the cursor: the first row with the message id, whoever its receiver is.\<close>

definition cursor_time :: "string \<Rightarrow> 'z OfflineMessageRecord list \<Rightarrow> int option" where
  "cursor_time cursor rows = map_option or_CreatedAt (find (\<lambda>r. or_MessageID r = cursor) rows)"

definition after_cursor :: "string \<Rightarrow> 'z OfflineMessageRecord list \<Rightarrow> 'z OfflineMessageRecord \<Rightarrow> bool" where
  "after_cursor cursor rows r \<longleftrightarrow> cursor = [] \<or> (case cursor_time cursor rows of None \<Rightarrow> True | Some t \<Rightarrow> t < or_CreatedAt r)"

definition matches_filter :: "int \<Rightarrow> OfflineMessageFilter \<Rightarrow> 'z OfflineMessageRecord \<Rightarrow> bool" where
  "matches_filter now f r \<longleftrightarrow>
     now < or_ExpireAt r \<and>
     (case ft_Role f of MessageRoleReceiver \<Rightarrow> if_not_empty (ft_UserID f) (or_Receiver r) | MessageRoleSender \<Rightarrow> if_not_empty (ft_UserID f) (or_Sender r)) \<and>
     if_not_empty (ft_AppID f) (or_AppID r) \<and> if_not_empty (ft_GroupID f) (or_GroupID r) \<and>
     or_Status r \<in> set (if ft_Statuses f \<noteq> [] then ft_Statuses f else PendingOfflineStatuses) \<and>
     (ft_Namespace f = [] \<or> or_Namespace r \<in> {ft_Namespace f, []}) \<and>
     (ft_ExcludeExhausted f \<longrightarrow> \<not> exhausted r)"

definition query_limit :: "int \<Rightarrow> nat" where
  "query_limit limit = nat (if limit \<le> 0 then 10000 else min limit 10000)"

definition QueryMessages :: "int \<Rightarrow> OfflineMessageFilter \<Rightarrow> 'z Offline \<Rightarrow> offline_error + 'z OfflineMessageRecord list" where
  "QueryMessages now f s =
     (if \<not> of_dbUp s then Inl BackendFailed
      else Inr (take (query_limit (ft_Limit f))
                  (sort_key or_CreatedAt (filter (\<lambda>r. matches_filter now f r \<and> after_cursor (ft_Cursor f) (of_rows s) r) (of_rows s)))))"

text \<open>A statement that deletes the rows with \<open>P\<close>, and one that changes them.\<close>

definition delete_rows :: "('z OfflineMessageRecord \<Rightarrow> bool) \<Rightarrow> 'z Offline \<Rightarrow> offline_error option \<times> 'z Offline" where
  "delete_rows P s = (if \<not> of_dbUp s then (Some BackendFailed, s) else (None, s\<lparr>of_rows := filter (\<lambda>r. \<not> P r) (of_rows s)\<rparr>))"

definition row_of_ids :: "string \<Rightarrow> string \<Rightarrow> string \<Rightarrow> string list \<Rightarrow> 'z OfflineMessageRecord \<Rightarrow> bool" where
  "row_of_ids appID namespace receiverID messageIDs r \<longleftrightarrow>
     or_AppID r = appID \<and> or_Namespace r = namespace \<and> or_Receiver r = receiverID \<and> or_MessageID r \<in> set messageIDs"

definition DeleteByMessageIDs :: "string \<Rightarrow> string \<Rightarrow> string \<Rightarrow> string list \<Rightarrow> 'z Offline \<Rightarrow> offline_error option \<times> 'z Offline" where
  "DeleteByMessageIDs appID namespace receiverID messageIDs s =
     (if messageIDs = [] then (None, s) else delete_rows (row_of_ids appID namespace receiverID messageIDs) s)"

definition pending_row :: "int \<Rightarrow> string \<Rightarrow> string \<Rightarrow> ('z OfflineMessageRecord \<Rightarrow> string) \<Rightarrow> string \<Rightarrow> 'z OfflineMessageRecord \<Rightarrow> bool" where
  "pending_row now appID namespace who userID r \<longleftrightarrow>
     or_AppID r = appID \<and> or_Namespace r \<in> {namespace, []} \<and> who r = userID \<and> now < or_ExpireAt r \<and> or_Status r \<in> set PendingOfflineStatuses"

definition GetCountByReceiver :: "int \<Rightarrow> string \<Rightarrow> string \<Rightarrow> string \<Rightarrow> 'z Offline \<Rightarrow> offline_error + int" where
  "GetCountByReceiver now appID namespace receiverID s =
     (if \<not> of_dbUp s then Inl BackendFailed else Inr (int (length (filter (pending_row now appID namespace or_Receiver receiverID) (of_rows s)))))"

definition GetCountBySender :: "int \<Rightarrow> string \<Rightarrow> string \<Rightarrow> string \<Rightarrow> 'z Offline \<Rightarrow> offline_error + int" where
  "GetCountBySender now appID namespace senderID s =
     (if \<not> of_dbUp s then Inl BackendFailed else Inr (int (length (filter (pending_row now appID namespace or_Sender senderID) (of_rows s)))))"

definition ClearByReceiver :: "string \<Rightarrow> string \<Rightarrow> string \<Rightarrow> 'z Offline \<Rightarrow> offline_error option \<times> 'z Offline" where
  "ClearByReceiver appID namespace receiverID =
     delete_rows (\<lambda>r. or_AppID r = appID \<and> or_Namespace r \<in> {namespace, []} \<and> or_Receiver r = receiverID)"

definition push_status_row :: "int \<Rightarrow> MessageSendStatus \<Rightarrow> string \<Rightarrow> 'z OfflineMessageRecord \<Rightarrow> 'z OfflineMessageRecord" where
  "push_status_row now status errorMsg r =
     (let r = r\<lparr>or_Status := status, or_LastPushAt := Some now,
                or_FirstPushAt := (case or_FirstPushAt r of None \<Rightarrow> Some now | Some t \<Rightarrow> Some t)\<rparr>
      in if status = StatusFailed then r\<lparr>or_ErrorMessage := errorMsg, or_RetryCount := or_RetryCount r + 1\<rparr>
         else if status = StatusSuccess then r\<lparr>or_ErrorMessage := []\<rparr> else r)"

definition UpdatePushStatus_rows :: "int \<Rightarrow> string list \<Rightarrow> MessageSendStatus \<Rightarrow> string \<Rightarrow> 'z Offline \<Rightarrow> offline_error option \<times> 'z Offline" where
  "UpdatePushStatus_rows now messageIDs status errorMsg s =
     (if messageIDs = [] then (None, s)
      else if \<not> of_dbUp s then (Some BackendFailed, s)
      else (None, s\<lparr>of_rows := map (\<lambda>r. if or_MessageID r \<in> set messageIDs then push_status_row now status errorMsg r else r) (of_rows s)\<rparr>))"

section \<open>Deleting in batches\<close>

definition batchDeleteSize :: nat where "batchDeleteSize = 1000"

text \<open>\<open>ok k\<close>: the context is alive and the statement of batch \<open>k\<close> succeeds.  A batch takes any rows that match, here the first ones.\<close>

fun delete_first :: "nat \<Rightarrow> ('r \<Rightarrow> bool) \<Rightarrow> 'r list \<Rightarrow> 'r list" where
  "delete_first 0 P rs = rs"
| "delete_first (Suc n) P [] = []"
| "delete_first (Suc n) P (r # rs) = (if P r then delete_first n P rs else r # delete_first (Suc n) P rs)"

lemma delete_first_count: "length (filter P (delete_first n P rs)) = length (filter P rs) - n"
  by (induction n P rs rule: delete_first.induct) (auto simp: Suc_diff_le)

lemma delete_first_rest: "filter (\<lambda>r. \<not> P r) (delete_first n P rs) = filter (\<lambda>r. \<not> P r) rs"
  by (induction n P rs rule: delete_first.induct) auto

function deleteInBatches :: "(nat \<Rightarrow> bool) \<Rightarrow> ('r \<Rightarrow> bool) \<Rightarrow> nat \<Rightarrow> nat \<Rightarrow> 'r list \<Rightarrow> (nat \<times> bool) \<times> 'r list" where
  "deleteInBatches ok P k total' rows =
     (if \<not> ok k then ((total', False), rows)
      else let affected = min batchDeleteSize (length (filter P rows)); rows' = delete_first batchDeleteSize P rows
           in if affected < batchDeleteSize then ((total' + affected, True), rows')
              else deleteInBatches ok P (k + 1) (total' + affected) rows')"
  by pat_completeness auto

termination
  by (relation "measure (\<lambda>(ok, P, k, total', rows). length (filter P rows))") (auto simp: delete_first_count batchDeleteSize_def)

declare deleteInBatches.simps [simp del]

definition expired_row :: "int \<Rightarrow> 'z OfflineMessageRecord \<Rightarrow> bool" where
  "expired_row now r \<longleftrightarrow> or_ExpireAt r < now"

definition Offline_DeleteExpired :: "(nat \<Rightarrow> bool) \<Rightarrow> int \<Rightarrow> 'z Offline \<Rightarrow> (nat \<times> bool) \<times> 'z Offline" where
  "Offline_DeleteExpired ok now s =
     (case deleteInBatches (\<lambda>k. of_dbUp s \<and> ok k) (expired_row now) 0 0 (of_rows s) of (r, rows) \<Rightarrow> (r, s\<lparr>of_rows := rows\<rparr>))"

definition Offline_CleanupOld :: "(nat \<Rightarrow> bool) \<Rightarrow> int \<Rightarrow> int \<Rightarrow> 'z Offline \<Rightarrow> (nat \<times> bool) \<times> 'z Offline" where
  "Offline_CleanupOld ok now before s =
     (case deleteInBatches (\<lambda>k. of_dbUp s \<and> ok k) (\<lambda>r. or_CreatedAt r < before \<and> (or_Status r = StatusSuccess \<or> expired_row now r)) 0 0 (of_rows s) of
        (r, rows) \<Rightarrow> (r, s\<lparr>of_rows := rows\<rparr>))"

definition cleanupOldData :: "(nat \<Rightarrow> bool) \<Rightarrow> (nat \<Rightarrow> bool) \<Rightarrow> int \<Rightarrow> int \<Rightarrow> int \<Rightarrow> 'z Offline \<Rightarrow> 'z Offline" where
  "cleanupOldData ok ok' now day daysAgo s =
     (if daysAgo \<le> 0 then s else snd (Offline_DeleteExpired ok' now (snd (Offline_CleanupOld ok now (now - daysAgo * day) s))))"

section \<open>The queues\<close>

record MessageQueue =
  mq_prefix :: string
  mq_ttl :: int

definition NewMessageQueue :: "int \<Rightarrow> string \<Rightarrow> int \<Rightarrow> MessageQueue" where
  "NewMessageQueue hour prefix' ttl =
     \<lparr>mq_prefix = (if prefix' = [] then ''wsc:queue:'' else prefix'), mq_ttl = (if ttl < 0 then 24 * hour else ttl)\<rparr>"

definition Enqueue :: "(HubMessage \<Rightarrow> 'z option) \<Rightarrow> string \<Rightarrow> HubMessage \<Rightarrow> 'z Offline \<Rightarrow> offline_error option \<times> 'z Offline" where
  "Enqueue zip' key msg s =
     (case zip' msg of
        None \<Rightarrow> (Some CompressFailed, s)
      | Some z \<Rightarrow>
          if \<not> of_redisUp s then (Some BackendFailed, s)
          else (None, s\<lparr>of_queues := (of_queues s)(key := of_queues s key @ [z])\<rparr>))"

definition GetLength :: "string \<Rightarrow> 'z Offline \<Rightarrow> offline_error + int" where
  "GetLength key s = (if \<not> of_redisUp s then Inl BackendFailed else Inr (int (length (of_queues s key))))"

primrec decode_all :: "('z \<Rightarrow> HubMessage option) \<Rightarrow> 'z list \<Rightarrow> HubMessage list option" where
  "decode_all unzip' [] = Some []"
| "decode_all unzip' (z # zs) =
     (case unzip' z of None \<Rightarrow> None | Some msg \<Rightarrow> (case decode_all unzip' zs of None \<Rightarrow> None | Some msgs \<Rightarrow> Some (msg # msgs)))"

definition DequeueBatch :: "('z \<Rightarrow> HubMessage option) \<Rightarrow> string \<Rightarrow> int \<Rightarrow> 'z Offline \<Rightarrow> (offline_error + HubMessage list) \<times> 'z Offline" where
  "DequeueBatch unzip' key num s =
     (if num \<le> 0 then (Inr [], s)
      else if \<not> of_redisUp s then (Inl BackendFailed, s)
      else (case decode_all unzip' (take (nat num) (of_queues s key)) of
              None \<Rightarrow> Inl DecompressFailed
            | Some msgs \<Rightarrow> Inr msgs,
            s\<lparr>of_queues := (of_queues s)(key := drop (nat num) (of_queues s key))\<rparr>))"

text \<open>The blocking variant: \<open>Inr None\<close> when the time is over and nothing came.\<close>

definition Queue_Dequeue :: "('z \<Rightarrow> HubMessage option) \<Rightarrow> string \<Rightarrow> 'z Offline \<Rightarrow> (offline_error + HubMessage option) \<times> 'z Offline" where
  "Queue_Dequeue unzip' key s =
     (if \<not> of_redisUp s then (Inl BackendFailed, s)
      else case of_queues s key of
             [] \<Rightarrow> (Inr None, s)
           | z # zs \<Rightarrow> (case unzip' z of None \<Rightarrow> Inl DecompressFailed | Some msg \<Rightarrow> Inr (Some msg), s\<lparr>of_queues := (of_queues s)(key := zs)\<rparr>))"

definition Queue_Clear :: "string \<Rightarrow> 'z Offline \<Rightarrow> offline_error option \<times> 'z Offline" where
  "Queue_Clear key s = (if \<not> of_redisUp s then (Some BackendFailed, s) else (None, s\<lparr>of_queues := (of_queues s)(key := [])\<rparr>))"

definition Queue_Peek :: "('z \<Rightarrow> HubMessage option) \<Rightarrow> string \<Rightarrow> 'z Offline \<Rightarrow> offline_error + HubMessage option" where
  "Queue_Peek unzip' key s =
     (if \<not> of_redisUp s then Inl BackendFailed
      else case of_queues s key of
             [] \<Rightarrow> Inr None
           | z # zs \<Rightarrow> (case unzip' z of None \<Rightarrow> Inl DecompressFailed | Some msg \<Rightarrow> Inr (Some msg)))"

section \<open>The handler\<close>

record 'z Handler =
  hh_queue :: MessageQueue
  hh_keyPrefix :: string
  hh_messageTTL :: int
  hh_zip :: "HubMessage \<Rightarrow> 'z option"
  hh_unzip :: "'z \<Rightarrow> HubMessage option"

text \<open>The two halves must both be there; \<open>Inl\<close> is the panic of the constructor, or the error of the set-up.\<close>

definition NewHybridOfflineMessageHandler :: "int \<Rightarrow> MessageQueue option \<Rightarrow> bool \<Rightarrow> string \<Rightarrow> int \<Rightarrow> (HubMessage \<Rightarrow> 'z option) \<Rightarrow> ('z \<Rightarrow> HubMessage option)
    \<Rightarrow> string + 'z Handler" where
  "NewHybridOfflineMessageHandler hour queue' store keyPrefix queueTTL zip' unzip' =
     (case queue' of
        None \<Rightarrow> Inl ''HybridOfflineMessageHandler: queue is required''
      | Some q \<Rightarrow>
          if \<not> store then Inl ''HybridOfflineMessageHandler: offline store is required''
          else Inr \<lparr>hh_queue = q, hh_keyPrefix = (if keyPrefix \<noteq> [] then keyPrefix else ''wsc:offline:messages:''),
                    hh_messageTTL = (if queueTTL \<noteq> 0 then queueTTL else 7 * 24 * hour), hh_zip = zip', hh_unzip = unzip'\<rparr>)"

definition InitializeOfflineQueue :: "int \<Rightarrow> bool \<Rightarrow> MessageQueue option \<Rightarrow> bool \<Rightarrow> (string \<times> int) option \<Rightarrow> (HubMessage \<Rightarrow> 'z option) \<Rightarrow> ('z \<Rightarrow> HubMessage option)
    \<Rightarrow> string + 'z Handler" where
  "InitializeOfflineQueue hour hub queue' store config zip' unzip' =
     (if \<not> hub then Inl ''messaging: hub target is nil''
      else if queue' = None then Inl ''messaging: offline queue is nil (redis adapter not configured)''
      else if \<not> store then Inl ''messaging: offline store is nil (gorm adapter not configured)''
      else case config of
             None \<Rightarrow> Inl ''messaging: offline config is nil''
           | Some (keyPrefix, queueTTL) \<Rightarrow> NewHybridOfflineMessageHandler hour queue' store keyPrefix queueTTL zip' unzip')"

definition shouldSkipOfflineStorage :: "HubMessage \<Rightarrow> bool" where
  "shouldSkipOfflineStorage msg \<longleftrightarrow> IsSystemType (hm_MessageType msg) \<and> hm_MessageType msg \<noteq> MessageTypeNotice"

definition queueKey :: "string \<Rightarrow> string \<Rightarrow> string \<Rightarrow> string \<Rightarrow> string" where
  "queueKey appID ns groupID userID = appID @ '':'' @ ns @ '':'' @ groupID @ '':'' @ userID"

definition resolveOfflineRoute :: "'md GoContext \<Rightarrow> HubMessage \<Rightarrow> string \<times> string \<times> string" where
  "resolveOfflineRoute ctx msg =
     (case (if hm_AppID msg = [] \<and> hm_Namespace msg = [] \<and> FirstGroupID msg = []
            then (case RoutingFromContext ctx of
                    None \<Rightarrow> (hm_AppID msg, hm_Namespace msg, FirstGroupID msg)
                  | Some rc \<Rightarrow> (rc_AppID rc, rc_Namespace rc,
                                 if length (slice (rc_GroupIDs rc)) > 0 then slice (rc_GroupIDs rc) ! 0 else FirstGroupID msg))
            else (hm_AppID msg, hm_Namespace msg, FirstGroupID msg)) of
        (appID, ns, firstGroupID) \<Rightarrow> (NormalizeAppID appID, ns, firstGroupID))"

definition storeToRedis :: "'z Handler \<Rightarrow> 'md GoContext \<Rightarrow> string \<Rightarrow> HubMessage \<Rightarrow> 'z Offline \<Rightarrow> offline_error option \<times> 'z Offline" where
  "storeToRedis h ctx userID msg s =
     (case resolveOfflineRoute ctx msg of
        (appID, ns, firstGID) \<Rightarrow> Enqueue (hh_zip h) (mq_prefix (hh_queue h) @ queueKey appID ns (NormalizeGroupID firstGID) userID) msg s)"

definition offline_row :: "'z Handler \<Rightarrow> 'md GoContext \<Rightarrow> int \<Rightarrow> HubMessage \<Rightarrow> 'z \<Rightarrow> 'z OfflineMessageRecord" where
  "offline_row h ctx now msg z =
     (case resolveOfflineRoute ctx msg of
        (appID, ns, firstGID) \<Rightarrow>
          \<lparr>or_ID = 0, or_MessageID = hm_MessageID msg, or_Sender = hm_Sender msg, or_Receiver = hm_Receiver msg, or_AppID = appID, or_Namespace = ns,
           or_GroupID = NormalizeGroupID firstGID, or_SessionID = hm_SessionID msg, or_CompressedData = z, or_Status = [], or_RetryCount = 0,
           or_MaxRetry = 0, or_ScheduledAt = hm_CreateAt msg, or_ExpireAt = hm_CreateAt msg + hh_messageTTL h, or_FirstPushAt = None,
           or_LastPushAt = None, or_ErrorMessage = [], or_CreatedAt = now\<rparr>)"

definition storeToDatabase :: "'z Handler \<Rightarrow> 'md GoContext \<Rightarrow> int \<Rightarrow> HubMessage \<Rightarrow> 'z Offline \<Rightarrow> offline_error option \<times> 'z Offline" where
  "storeToDatabase h ctx now msg s =
     (case hh_zip h msg of None \<Rightarrow> (Some CompressFailed, s) | Some z \<Rightarrow> Save (offline_row h ctx now msg z) s)"

text \<open>The two writes touch different parts of the state, so their order does not matter.\<close>

definition Handler_StoreOfflineMessage :: "'z Handler \<Rightarrow> 'md GoContext \<Rightarrow> int \<Rightarrow> string \<Rightarrow> HubMessage option \<Rightarrow> 'z Offline
    \<Rightarrow> offline_error option \<times> 'z Offline" where
  "Handler_StoreOfflineMessage h ctx now userID msg s =
     (case msg of
        None \<Rightarrow> (Some MessageNil, s)
      | Some msg \<Rightarrow>
          if shouldSkipOfflineStorage msg then (Some StorageSkipped, s)
          else case storeToRedis h ctx userID msg s of
                 (redisErr, s) \<Rightarrow>
                   (case storeToDatabase h ctx now msg s of
                      (dbErr, s) \<Rightarrow> (if redisErr \<noteq> None \<and> dbErr \<noteq> None then Some BothFailed else None, s)))"

definition drain_key :: "'z Handler \<Rightarrow> 'md GoContext \<Rightarrow> string \<Rightarrow> string" where
  "drain_key h ctx userID =
     mq_prefix (hh_queue h) @ queueKey (AppIDFromContext ctx) (NamespaceFromContext ctx) (NormalizeGroupID (FirstGroupIDFromContext ctx)) userID"

definition DrainOfflineQueue :: "'z Handler \<Rightarrow> 'md GoContext \<Rightarrow> string \<Rightarrow> int \<Rightarrow> 'z Offline \<Rightarrow> (offline_error + HubMessage list) \<times> 'z Offline" where
  "DrainOfflineQueue h ctx userID limit s =
     (let key = drain_key h ctx userID
      in case (if limit \<le> 0 then GetLength key s else Inr limit) of
           Inl e \<Rightarrow> (Inl e, s)
         | Inr num \<Rightarrow> if num \<le> 0 then (Inr [], s) else DequeueBatch (hh_unzip h) key num s)"

definition receiver_filter :: "'md GoContext \<Rightarrow> string \<Rightarrow> int \<Rightarrow> string \<Rightarrow> OfflineMessageFilter" where
  "receiver_filter ctx userID limit cursor =
     \<lparr>ft_UserID = userID, ft_Role = MessageRoleReceiver, ft_AppID = AppIDFromContext ctx, ft_Namespace = NamespaceFromContext ctx, ft_GroupID = [],
      ft_Limit = limit, ft_Cursor = cursor, ft_Statuses = [], ft_ExcludeExhausted = True\<rparr>"

definition GetOfflineMessages :: "'z Handler \<Rightarrow> 'md GoContext \<Rightarrow> int \<Rightarrow> string \<Rightarrow> int \<Rightarrow> string \<Rightarrow> 'z Offline
    \<Rightarrow> offline_error + HubMessage list \<times> string" where
  "GetOfflineMessages h ctx now userID limit cursor s =
     (case QueryMessages now (receiver_filter ctx userID limit cursor) s of
        Inl e \<Rightarrow> Inl e
      | Inr records \<Rightarrow>
          Inr (List.map_filter (\<lambda>r. hh_unzip h (or_CompressedData r)) records,
               if limit > 0 \<and> int (length records) \<ge> limit \<and> records \<noteq> [] then or_MessageID (last records) else []))"

definition DeleteOfflineMessages :: "'md GoContext \<Rightarrow> string \<Rightarrow> string list \<Rightarrow> 'z Offline \<Rightarrow> offline_error option \<times> 'z Offline" where
  "DeleteOfflineMessages ctx userID messageIDs s =
     (if messageIDs = [] then (None, s) else DeleteByMessageIDs (AppIDFromContext ctx) (NamespaceFromContext ctx) userID messageIDs s)"

definition GetOfflineMessageCount :: "'md GoContext \<Rightarrow> int \<Rightarrow> string \<Rightarrow> 'z Offline \<Rightarrow> offline_error + int" where
  "GetOfflineMessageCount ctx now userID s = GetCountByReceiver now (AppIDFromContext ctx) (NamespaceFromContext ctx) userID s"

definition clear_group :: "'z Handler \<Rightarrow> 'md GoContext \<Rightarrow> string \<Rightarrow> string \<Rightarrow> bool \<times> 'z Offline \<Rightarrow> bool \<times> 'z Offline" where
  "clear_group h ctx userID groupID st =
     (case st of (bad, s) \<Rightarrow>
        let clearNS = (if groupID \<noteq> [] then [] else NamespaceFromContext ctx)
        in case Queue_Clear (mq_prefix (hh_queue h) @ queueKey (AppIDFromContext ctx) clearNS (NormalizeGroupID groupID) userID) s of
             (e, s) \<Rightarrow> (bad \<or> e \<noteq> None, s))"

definition ClearOfflineMessages :: "'z Handler \<Rightarrow> 'md GoContext \<Rightarrow> string \<Rightarrow> string list \<Rightarrow> 'z Offline \<Rightarrow> offline_error option \<times> 'z Offline" where
  "ClearOfflineMessages h ctx userID groupIDs s =
     (case fold (clear_group h ctx userID) groupIDs (False, s) of
        (bad, s) \<Rightarrow>
          (case ClearByReceiver (AppIDFromContext ctx) (NamespaceFromContext ctx) userID s of
             (e, s) \<Rightarrow> (if bad \<or> e \<noteq> None then Some ClearFailed else None, s)))"

definition UpdatePushStatus :: "int \<Rightarrow> string list \<Rightarrow> string option \<Rightarrow> 'z Offline \<Rightarrow> offline_error option \<times> 'z Offline" where
  "UpdatePushStatus now messageIDs pushErr s =
     (if messageIDs = [] then (None, s)
      else case pushErr of
             None \<Rightarrow> UpdatePushStatus_rows now messageIDs StatusSuccess [] s
           | Some e \<Rightarrow> UpdatePushStatus_rows now messageIDs StatusFailed e s)"

section \<open>Batches\<close>

lemma delete_first_length: "length (delete_first n P rs) + min n (length (filter P rs)) = length rs"
  by (induction n P rs rule: delete_first.induct) auto

lemma batches_general:
  "deleteInBatches ok P k t rows = ((t', fin), rows') \<Longrightarrow>
     filter (\<lambda>r. \<not> P r) rows' = filter (\<lambda>r. \<not> P r) rows \<and> t' + length rows' = t + length rows \<and> (fin \<longrightarrow> filter P rows' = []) \<and> ((\<forall>j \<ge> k. ok j) \<longrightarrow> fin)"
proof (induction ok P k t rows arbitrary: t' fin rows' rule: deleteInBatches.induct)
  case (1 ok P k t rows)
  note len = delete_first_length [of batchDeleteSize P rows] and rest = delete_first_rest [of P batchDeleteSize rows]
    and num = delete_first_count [of P batchDeleteSize rows]
  show ?case
  proof (cases "ok k \<and> \<not> min batchDeleteSize (length (filter P rows)) < batchDeleteSize")
    case True
    with 1(2) have rec: "deleteInBatches ok P (k + 1) (t + min batchDeleteSize (length (filter P rows))) (delete_first batchDeleteSize P rows) = ((t', fin), rows')"
      by (simp add: deleteInBatches.simps [of ok P k] Let_def)
    from 1(1) [OF _ refl refl _ rec] True len rest show ?thesis by auto
  next
    case False
    with 1(2) len rest num show ?thesis by (auto simp: deleteInBatches.simps [of ok P k] Let_def split: if_splits)
  qed
qed

text \<open>
  The cleaning of the table in batches: whatever fails on the way, only rows that match are deleted and the number that is
  reported is the number that is gone; when it reports success no matching row is left, and it does when no statement fails.
\<close>

theorem batches_delete_exactly:
  assumes "deleteInBatches ok P 0 0 rows = ((n, fin), rows')"
  shows "filter (\<lambda>r. \<not> P r) rows' = filter (\<lambda>r. \<not> P r) rows \<and> n + length rows' = length rows \<and>
    (fin \<longrightarrow> filter P rows' = []) \<and> ((\<forall>j. ok j) \<longrightarrow> fin)"
  using batches_general [OF assms] by simp

theorem batches_delete_exactly_witness:
  "deleteInBatches (\<lambda>_. True) even 0 0 [1, 2, 3, 4::nat] = ((2, True), [1, 3])"
proof -
  obtain n fin rows' where run: "deleteInBatches (\<lambda>_. True) even 0 0 [1, 2, 3, 4::nat] = ((n, fin), rows')" by (metis surj_pair)
  have "filter odd rows' = [1, 3]" "n + length rows' = 4" "fin" "filter even rows' = []"
    using batches_delete_exactly [OF run] by auto
  moreover from this have "rows' = filter odd rows'" by (metis filter_True filter_empty_conv)
  ultimately show ?thesis using run by simp
qed

section \<open>The unique index\<close>

definition table_inv :: "'z Offline \<Rightarrow> bool" where
  "table_inv s \<longleftrightarrow> distinct (map row_key (of_rows s)) \<and> distinct (map or_ID (of_rows s)) \<and> (\<forall>r \<in> set (of_rows s). or_ID r < of_next s)"

text \<open>The statements that the code sends to the table.\<close>

inductive table_op :: "'z Offline \<Rightarrow> 'z Offline \<Rightarrow> bool" where
  op_save: "Save r s = (e, t) \<Longrightarrow> table_op s t"
| op_delete: "DeleteByMessageIDs a n u ids s = (e, t) \<Longrightarrow> table_op s t"
| op_clear: "ClearByReceiver a n u s = (e, t) \<Longrightarrow> table_op s t"
| op_status: "UpdatePushStatus_rows now ids st msg s = (e, t) \<Longrightarrow> table_op s t"
| op_expired: "Offline_DeleteExpired ok now s = (x, t) \<Longrightarrow> table_op s t"
| op_cleanup: "Offline_CleanupOld ok now before s = (x, t) \<Longrightarrow> table_op s t"
| op_queue: "of_rows t = of_rows s \<Longrightarrow> of_next t = of_next s \<Longrightarrow> table_op s t"

lemma delete_first_subset: "set (delete_first n P rs) \<subseteq> set rs"
  by (induction n P rs rule: delete_first.induct) auto

lemma delete_first_distinct: "distinct (map f rs) \<Longrightarrow> distinct (map f (delete_first n P rs))"
  by (induction n P rs rule: delete_first.induct) (auto dest: subsetD [OF delete_first_subset])

lemma batches_subset:
  assumes "deleteInBatches ok P k t rows = (x, rows')" "distinct (map f rows)"
  shows "distinct (map f rows') \<and> set rows' \<subseteq> set rows"
  using assms
proof (induction ok P k t rows arbitrary: x rows' rule: deleteInBatches.induct)
  case (1 ok P k t rows)
  note one = delete_first_subset [of batchDeleteSize P rows] delete_first_distinct [of f rows batchDeleteSize P]
  show ?case
  proof (cases "ok k \<and> \<not> min batchDeleteSize (length (filter P rows)) < batchDeleteSize")
    case True
    with 1(2) have "deleteInBatches ok P (k + 1) (t + min batchDeleteSize (length (filter P rows))) (delete_first batchDeleteSize P rows) = (x, rows')"
      by (simp add: deleteInBatches.simps [of ok P k] Let_def)
    from 1(1) [OF _ refl refl _ this] True one 1(3) show ?thesis by blast
  next
    case False
    with 1(2,3) one show ?thesis by (auto simp: deleteInBatches.simps [of ok P k] Let_def split: if_splits)
  qed
qed

lemma table_inv_sub:
  assumes "table_inv s" "distinct (map row_key (of_rows t))" "distinct (map or_ID (of_rows t))" "set (of_rows t) \<subseteq> set (of_rows s)" "of_next t = of_next s"
  shows "table_inv t"
  using assms unfolding table_inv_def by auto

lemma delete_rows_inv: "table_inv s \<Longrightarrow> delete_rows P s = (e, t) \<Longrightarrow> table_inv t"
  by (auto simp: delete_rows_def table_inv_def distinct_map_filter split: if_splits)

lemma batches_inv:
  assumes "table_inv s" "deleteInBatches ok P 0 0 (of_rows s) = (x, rows)"
  shows "table_inv (s\<lparr>of_rows := rows\<rparr>)"
  using assms(1) batches_subset [OF assms(2), of row_key] batches_subset [OF assms(2), of or_ID]
  by (intro table_inv_sub [OF assms(1)]) (auto simp: table_inv_def)

lemma push_status_key [simp]: "row_key (push_status_row now st e r) = row_key r" "or_ID (push_status_row now st e r) = or_ID r"
  "or_CreatedAt (push_status_row now st e r) = or_CreatedAt r" "or_MessageID (push_status_row now st e r) = or_MessageID r"
  by (simp_all add: push_status_row_def row_key_def Let_def)

lemma map_keys_if: "map f (map (\<lambda>r. if P r then g r else r) rs) = map f rs" if "\<And>r. f (g r) = f r" for f :: "'a \<Rightarrow> 'b"
  using that by (induction rs) auto

lemma save_inv:
  assumes "table_inv s" "Save r s = (e, t)"
  shows "table_inv t"
proof (cases "t = s")
  case False
  let ?r = "(column_defaults r)\<lparr>or_ID := of_next s\<rparr>"
  from False assms(2) have "t = s\<lparr>of_rows := of_rows s @ [?r], of_next := of_next s + 1\<rparr>" "row_key ?r \<notin> row_key ` set (of_rows s)"
    by (auto simp: Save_def Let_def split: if_splits)
  moreover have "or_ID ?r = of_next s" "of_next s \<notin> or_ID ` set (of_rows s)" using assms(1) by (auto simp: table_inv_def)
  ultimately show ?thesis using assms(1) unfolding table_inv_def by (auto simp: less_Suc_eq)
qed (use assms(1) in simp)

lemma status_inv: "table_inv s \<Longrightarrow> UpdatePushStatus_rows now ids st msg s = (e, t) \<Longrightarrow> table_inv t"
  by (auto simp: UpdatePushStatus_rows_def table_inv_def map_keys_if split: if_splits simp del: map_map)

interpretation offline_table: invariant_system "\<lambda>s. of_rows s = []" table_op table_inv
proof unfold_locales
  fix s t :: "'z Offline" assume inv: "table_inv s" and "table_op s t"
  from this(2) show "table_inv t"
  proof cases
    case op_delete
    then show ?thesis using inv delete_rows_inv by (auto simp: DeleteByMessageIDs_def split: if_splits)
  next
    case op_clear
    then show ?thesis using inv delete_rows_inv by (auto simp: ClearByReceiver_def)
  next
    case op_expired
    then show ?thesis using batches_inv [OF inv] by (fastforce simp: Offline_DeleteExpired_def split: prod.splits)
  next
    case op_cleanup
    then show ?thesis using batches_inv [OF inv] by (fastforce simp: Offline_CleanupOld_def split: prod.splits)
  next
    case op_queue
    with inv show ?thesis by (simp add: table_inv_def)
  qed (use inv in \<open>auto intro: save_inv status_inv\<close>)
qed (simp add: table_inv_def)


lemma fresh_rows: "reach (\<lambda>s. of_rows s = []) table_op (\<lparr>of_rows = [], of_next = 1, of_dbUp = True, of_queues = \<lambda>_. [], of_redisUp = True\<rparr> :: 'z Offline)"
  by (rule reach.intros) simp

definition demo_row :: "string \<Rightarrow> string \<Rightarrow> HubMessage OfflineMessageRecord" where
  "demo_row i u = \<lparr>or_ID = 0, or_MessageID = i, or_Sender = ''s'', or_Receiver = u, or_AppID = DefaultAppID, or_Namespace = ''n'', or_GroupID = DefaultGroupID,
     or_SessionID = [], or_CompressedData = zero_message, or_Status = [], or_RetryCount = 0, or_MaxRetry = 0, or_ScheduledAt = 0, or_ExpireAt = 100,
     or_FirstPushAt = None, or_LastPushAt = None, or_ErrorMessage = [], or_CreatedAt = 1\<rparr>"


section \<open>Stored and read again\<close>

definition route_of :: "'md GoContext \<Rightarrow> string \<times> string \<times> string" where
  "route_of ctx = (AppIDFromContext ctx, NamespaceFromContext ctx, FirstGroupIDFromContext ctx)"

text \<open>Messages that the handler may store for one user and one queue, and that a reader with the context \<open>ctx\<close> looks for.\<close>

definition storable :: "'z Handler \<Rightarrow> 'md GoContext \<Rightarrow> HubMessage \<Rightarrow> bool" where
  "storable h ctx msg \<longleftrightarrow> \<not> shouldSkipOfflineStorage msg \<and> resolveOfflineRoute ctx msg = route_of ctx \<and>
     (\<exists>z. hh_zip h msg = Some z \<and> hh_unzip h z = Some msg)"

fun store_all :: "'z Handler \<Rightarrow> 'md GoContext \<Rightarrow> string \<Rightarrow> (int \<times> HubMessage) list \<Rightarrow> 'z Offline \<Rightarrow> 'z Offline" where
  "store_all h ctx u [] s = s"
| "store_all h ctx u ((now, msg) # ms) s = store_all h ctx u ms (snd (Handler_StoreOfflineMessage h ctx now u (Some msg) s))"

lemma decode_append: "decode_all f (xs @ ys) = (case decode_all f xs of None \<Rightarrow> None | Some as \<Rightarrow> (case decode_all f ys of None \<Rightarrow> None | Some bs \<Rightarrow> Some (as @ bs)))"
  by (induction xs) (auto split: option.splits)

lemma store_queue:
  assumes "storable h ctx msg" "of_redisUp s"
  shows "\<exists>z. hh_unzip h z = Some msg \<and> of_queues (snd (Handler_StoreOfflineMessage h ctx now u (Some msg) s)) =
      (of_queues s)(drain_key h ctx u := of_queues s (drain_key h ctx u) @ [z]) \<and> of_redisUp (snd (Handler_StoreOfflineMessage h ctx now u (Some msg) s))"
proof -
  obtain z where z: "hh_zip h msg = Some z" "hh_unzip h z = Some msg" using assms(1) by (auto simp: storable_def)
  have sv: "Save r t = (e, t') \<Longrightarrow> of_queues t' = of_queues t \<and> of_redisUp t' = of_redisUp t" for r e and t t' :: "'a Offline"
    by (auto simp: Save_def Let_def split: if_splits)
  show ?thesis using assms z
    by (intro exI [of _ z]) (auto simp: Handler_StoreOfflineMessage_def storable_def storeToRedis_def storeToDatabase_def Enqueue_def route_of_def drain_key_def
        split: prod.splits dest!: sv)
qed

lemma store_all_queue:
  assumes "\<forall>(now, msg) \<in> set ms. storable h ctx msg" "of_redisUp s"
  shows "\<exists>zs. decode_all (hh_unzip h) zs = Some (map snd ms) \<and> length zs = length ms \<and> of_redisUp (store_all h ctx u ms s) \<and>
    of_queues (store_all h ctx u ms s) = (of_queues s)(drain_key h ctx u := of_queues s (drain_key h ctx u) @ zs)"
  using assms
proof (induction ms arbitrary: s)
  case (Cons p ms)
  obtain now msg where p: "p = (now, msg)" by (cases p)
  let ?s = "snd (Handler_StoreOfflineMessage h ctx now u (Some msg) s)"
  have ok: "storable h ctx msg" using Cons.prems(1) p by simp
  from store_queue [OF ok Cons.prems(2), of now u] obtain z where z: "hh_unzip h z = Some msg"
    "of_queues ?s = (of_queues s)(drain_key h ctx u := of_queues s (drain_key h ctx u) @ [z])" "of_redisUp ?s" by blast
  have rest: "\<forall>(now, msg) \<in> set ms. storable h ctx msg" using Cons.prems(1) by simp
  from Cons.IH [OF rest z(3)] obtain zs where zs: "decode_all (hh_unzip h) zs = Some (map snd ms)" "length zs = length ms"
    "of_redisUp (store_all h ctx u ms ?s)"
    "of_queues (store_all h ctx u ms ?s) = (of_queues ?s)(drain_key h ctx u := of_queues ?s (drain_key h ctx u) @ zs)" by blast
  show ?case by (rule exI [of _ "z # zs"]) (use z zs in \<open>simp add: p\<close>)
qed (simp add: decode_all_def fun_upd_triv)


definition plain_handler :: "HubMessage Handler" where
  "plain_handler = \<lparr>hh_queue = \<lparr>mq_prefix = ''q:'', mq_ttl = 7\<rparr>, hh_keyPrefix = [], hh_messageTTL = 100, hh_zip = Some, hh_unzip = Some\<rparr>"

definition fresh_store :: "HubMessage Offline" where
  "fresh_store = \<lparr>of_rows = [], of_next = 1, of_dbUp = True, of_queues = \<lambda>_. [], of_redisUp = True\<rparr>"

definition ns_ctx :: "string \<Rightarrow> unit GoContext" where
  "ns_ctx ns = \<lparr>cx_routing = Some \<lparr>rc_AppID = DefaultAppID, rc_Namespace = ns, rc_GroupIDs = None\<rparr>, cx_fanout = False, cx_trace = None, cx_outgoing = None, cx_incoming = None\<rparr>"


text \<open>The parts of a queue name are joined by a colon that they may contain: two users of two groups can share one queue.\<close>

theorem queue_name_shared:
  "queueKey app ns ''g'' ''team:ann'' = queueKey app ns ''g:team'' ''ann''"
  by (simp add: queueKey_def)

section \<open>What the handler keeps\<close>

definition rows_kept :: "'z Offline \<Rightarrow> 'z Offline \<Rightarrow> bool" where
  "rows_kept s t \<longleftrightarrow> row_key ` set (of_rows s) \<subseteq> row_key ` set (of_rows t)"

lemma store_keeps_rows: "Handler_StoreOfflineMessage h ctx now u msg s = (e, t) \<Longrightarrow> rows_kept s t"
  by (auto simp: Handler_StoreOfflineMessage_def storeToRedis_def storeToDatabase_def Enqueue_def Save_def Let_def rows_kept_def image_iff
      split: option.splits if_splits prod.splits)

lemma drain_keeps_rows: "DrainOfflineQueue h ctx u n s = (r, t) \<Longrightarrow> of_rows t = of_rows s"
  by (auto simp: DrainOfflineQueue_def DequeueBatch_def Let_def split: if_splits sum.splits)

lemma status_keeps_rows: "UpdatePushStatus now ids e s = (r, t) \<Longrightarrow> map row_key (of_rows t) = map row_key (of_rows s) \<and> map or_CreatedAt (of_rows t) = map or_CreatedAt (of_rows s)"
  by (auto simp: UpdatePushStatus_def UpdatePushStatus_rows_def map_keys_if split: if_splits option.splits simp del: map_map)

lemma delete_rows_gone:
  assumes "DeleteOfflineMessages ctx u ids s = (e, t)" "r \<in> set (of_rows s)" "row_key r \<notin> row_key ` set (of_rows t)"
  shows "or_MessageID r \<in> set ids \<and> or_Receiver r = u \<and> or_AppID r = AppIDFromContext ctx \<and> or_Namespace r = NamespaceFromContext ctx"
  using assms by (auto simp: DeleteOfflineMessages_def DeleteByMessageIDs_def delete_rows_def row_of_ids_def split: if_splits)

end
