(* ===== verification/Broadcast.thy ===== *)
theory Broadcast
  imports Delivery Shaper Delay_Queue Aggregator Replay_Gate Registry_Correct
begin

text \<open>
  Fan-out on one node: the broadcasts of messaging/broadcast.go, the broadcast half of
  messaging/dispatcher.go and messaging/observer.go, on top of the deliveries of Delivery.thy.

  \<^item> \<open>Hub\<close> adds to \<open>Node\<close> what a broadcast reads and changes: the replay gate, the shaper, the delay queue,
    the aggregator and the bounded queue of observer notifications (they are lost when it is full).
  \<^item> A closure that waits, in the replay gate or in the delay queue, is a value that names its call.
  \<^item> The parallel fan-out over many users visits them in some interleaving of its pieces; \<open>order\<close> gives it.
    The parallel scans of the registry visit every connection once, here in registry order.
  \<^item> \<open>enc\<close> is \<open>HubMessage.MarshalJSON\<close>, \<open>now\<close> the clock, \<open>tr\<close> reads the trace id of a context.
\<close>

declare map_of_eq_Some_iff [simp del]

section \<open>State\<close>

abbreviation BroadcastTypeGlobal :: string where "BroadcastTypeGlobal \<equiv> ''global''"

datatype held = HeldDirect string HubMessage "frame option" bool | HeldFanout string HubMessage frame DeliveryGuarantee

datatype retry_job = RetryAll HubMessage | RetryFiltered "string list option" "Client \<Rightarrow> bool" HubMessage | RetryUsers "string list" HubMessage frame

record Hub =
  hb_node :: Node
  hb_replay :: "held ReplayManager"
  hb_shaper :: "Shaper option"
  hb_delay :: "retry_job DelayQueue option"
  hb_aggregator :: "MessageAggregator option"
  hb_notifier :: "(HubMessage \<times> string \<times> GoSlice) GoChan option"

abbreviation reg_of :: "Node \<Rightarrow> ShardedRegistry" where
  "reg_of s \<equiv> cs_reg (nd_conn s)"

definition on_node :: "(Node \<Rightarrow> 'a \<times> Node) \<Rightarrow> Hub \<Rightarrow> 'a \<times> Hub" where
  "on_node f h = (case f (hb_node h) of (a, s) \<Rightarrow> (a, h\<lparr>hb_node := s\<rparr>))"

section \<open>Ports\<close>

definition DeferBroadcast :: "retry_job \<Rightarrow> Hub \<Rightarrow> Hub" where
  "DeferBroadcast job h =
     (case hb_delay h of None \<Rightarrow> h | Some q \<Rightarrow> h\<lparr>hb_delay := Some (snd (DelayQueue_Offer job q))\<rparr>)"

definition ensureBroadcastID :: "string option \<Rightarrow> HubMessage \<Rightarrow> HubMessage" where
  "ensureBroadcastID newID msg =
     (case newID of None \<Rightarrow> msg | Some i \<Rightarrow> if hm_ID msg = [] then msg\<lparr>hm_ID := i\<rparr> else msg)"

definition observerNotifyEnabled :: "Hub \<Rightarrow> bool" where
  "observerNotifyEnabled h \<longleftrightarrow> ObserverEnabled (reg_of (hb_node h)) \<and> hb_notifier h \<noteq> None"

definition NotifyObservers :: "'md GoContext \<Rightarrow> HubMessage \<Rightarrow> Hub \<Rightarrow> Hub" where
  "NotifyObservers ctx msg h =
     (if \<not> observerNotifyEnabled h then h
      else case hb_notifier h of
             None \<Rightarrow> h
           | Some q \<Rightarrow>
               (case try_send q (msg, NamespaceFromContext ctx, GroupIDsFromContext ctx) of
                  SendOk q \<Rightarrow> h\<lparr>hb_notifier := Some q\<rparr>
                | _ \<Rightarrow> h))"

text \<open>The two gates in front of every broadcast: \<open>None\<close> when it may go on, otherwise it was put off.\<close>

definition admit_broadcast :: "int \<Rightarrow> HubMessage \<Rightarrow> retry_job \<Rightarrow> Hub \<Rightarrow> bool \<times> Hub" where
  "admit_broadcast now msg job h =
     (case on_node (AdmitMessage msg True) h of
        (verdict, h) \<Rightarrow>
          if verdict \<noteq> VerdictAdmit then (False, DeferBroadcast job h)
          else case hb_shaper h of
                 None \<Rightarrow> (True, h)
               | Some sp \<Rightarrow>
                   if guarantee_of (hb_node h) msg = GuaranteeGuaranteed then (True, h)
                   else case Allow now sp of
                          (True, sp) \<Rightarrow> (True, h\<lparr>hb_shaper := Some sp\<rparr>)
                        | (False, sp) \<Rightarrow>
                            (False, DeferBroadcast job (h\<lparr>hb_shaper := Some sp, hb_node := metric RecordShaperDenied (hb_node h)\<rparr>)))"

section \<open>Delivery to one connection\<close>

definition send_frame :: "frame \<Rightarrow> HubMessage \<Rightarrow> DeliveryGuarantee \<Rightarrow> string \<Rightarrow> nat \<Rightarrow> int \<times> Node \<Rightarrow> int \<times> Node" where
  "send_frame data msg g userID p st =
     (case st of (n, s) \<Rightarrow>
        case client_try p (TrySend data) s of
          (True, s) \<Rightarrow> (n + 1, s\<lparr>nd_tracked := nd_tracked s @ [(cl_ID (client_at s p), length data)]\<rparr>)
        | (False, s) \<Rightarrow> (n, snd (routeDeliveryFallback (Some msg) (Some p) userID g s)))"

definition send_event :: "HubMessage \<Rightarrow> nat \<Rightarrow> int \<times> Node \<Rightarrow> int \<times> Node" where
  "send_event msg p st =
     (case st of (n, s) \<Rightarrow> case client_try p (TrySendSSE msg) s of (ok, s) \<Rightarrow> (if ok then n + 1 else n, s))"

definition combinedCondition :: "(Client \<Rightarrow> bool) \<Rightarrow> HubMessage \<Rightarrow> Client \<Rightarrow> bool" where
  "combinedCondition condition msg c \<longleftrightarrow> ClientMatchesEnvelope c (hm_AppID msg) (hm_Namespace msg) \<and> condition c"

definition deliverWS :: "frame \<Rightarrow> HubMessage \<Rightarrow> DeliveryGuarantee \<Rightarrow> (Client \<Rightarrow> bool) \<Rightarrow> nat \<Rightarrow> int \<times> Node \<Rightarrow> int \<times> Node" where
  "deliverWS data msg g condition p st =
     (let c = client_at (snd st) p
      in if cl_closed c \<or> is_sse c then st
         else if \<not> combinedCondition condition msg c then st
         else send_frame data msg g (cl_UserID c) p st)"

definition deliverSSE :: "HubMessage \<Rightarrow> (Client \<Rightarrow> bool) \<Rightarrow> nat \<Rightarrow> int \<times> Node \<Rightarrow> int \<times> Node" where
  "deliverSSE msg condition p st =
     (let c = client_at (snd st) p
      in if cl_closed c \<or> \<not> combinedCondition condition msg c then st else send_event msg p st)"

section \<open>Broadcast to the connections that satisfy a predicate\<close>

definition broadcastToFilteredNow :: "(string \<Rightarrow> nat) \<Rightarrow> (HubMessage \<Rightarrow> frame option) \<Rightarrow> string list option \<Rightarrow> (Client \<Rightarrow> bool) \<Rightarrow> HubMessage
    \<Rightarrow> Node \<Rightarrow> int \<times> Node" where
  "broadcastToFilteredNow sh enc users condition msg s =
     (case enc msg of
        None \<Rightarrow> (0, s)
      | Some data \<Rightarrow>
          let g = guarantee_of s msg; r = reg_of s;
              st = (case users of
                      None \<Rightarrow> ForEachSSEClient (\<lambda>_ _ p st. (True, deliverSSE msg condition p st)) r
                                (ForEachClient (\<lambda>_ p st. (True, deliverWS data msg g condition p st)) r (0, s))
                    | Some us \<Rightarrow>
                        fold (\<lambda>uid. ForEachUserClient sh uid
                                (\<lambda>_ p st. (True, if is_sse (client_at (snd st) p) then deliverSSE msg condition p st
                                                else deliverWS data msg g condition p st)) r) us (0, s))
          in case st of
               (n, s) \<Rightarrow> (n, if n > 0 then updateMessageStatusAsync (message_id msg) [] StatusSuccess NoReason s else s))"

definition broadcastToFilteredScoped :: "(string \<Rightarrow> nat) \<Rightarrow> (HubMessage \<Rightarrow> frame option) \<Rightarrow> ('md GoContext \<Rightarrow> string) \<Rightarrow> int
    \<Rightarrow> 'md GoContext \<Rightarrow> string list option \<Rightarrow> (Client \<Rightarrow> bool) \<Rightarrow> HubMessage \<Rightarrow> Hub \<Rightarrow> int \<times> Hub" where
  "broadcastToFilteredScoped sh enc tr now ctx users condition msg h =
     (let msg = fst (InjectRoute tr ctx msg)
      in case admit_broadcast now msg (RetryFiltered users condition msg) h of
           (False, h) \<Rightarrow> (0, h)
         | (True, h) \<Rightarrow> on_node (broadcastToFilteredNow sh enc users condition msg) h)"

definition BroadcastToFiltered :: "(string \<Rightarrow> nat) \<Rightarrow> (HubMessage \<Rightarrow> frame option) \<Rightarrow> ('md GoContext \<Rightarrow> string) \<Rightarrow> int
    \<Rightarrow> 'md GoContext \<Rightarrow> (Client \<Rightarrow> bool) \<Rightarrow> HubMessage \<Rightarrow> Hub \<Rightarrow> int \<times> Hub" where
  "BroadcastToFiltered sh enc tr now ctx condition msg h = broadcastToFilteredScoped sh enc tr now ctx None condition msg h"

section \<open>Broadcast to a list of users\<close>

definition deliverFanoutToUser :: "(string \<Rightarrow> nat) \<Rightarrow> string \<Rightarrow> HubMessage \<Rightarrow> frame \<Rightarrow> DeliveryGuarantee \<Rightarrow> Node \<Rightarrow> int \<times> Node" where
  "deliverFanoutToUser sh userID msg data g s =
     ForEachUserClientFiltered sh (cs_heap (nd_conn s)) userID (hm_AppID msg) (hm_Namespace msg)
       (\<lambda>_ p st. (True, let c = client_at (snd st) p
                        in if cl_closed c then st
                           else if is_sse c then send_event msg p st else send_frame data msg g userID p st))
       (reg_of s) (0, s)"

definition broadcastShardParallelUsers :: nat where "broadcastShardParallelUsers = 512"

function chunks :: "nat \<Rightarrow> 'a list \<Rightarrow> 'a list list" where
  "chunks k xs = (if xs = [] \<or> k = 0 then [] else take k xs # chunks k (drop k xs))"
  by pat_completeness auto
termination by (relation "measure (\<lambda>(k, xs). length xs)") auto

declare chunks.simps [simp del]

fun interleavings :: "'a list list \<Rightarrow> 'a list set" where
  "interleavings [] = {[]}"
| "interleavings (xs # xss) = (\<Union>ys \<in> interleavings xss. shuffles xs ys)"

text \<open>One turn of the loop in \<open>fanout\<close>, and the piece of the user list that a worker gets.\<close>

definition fanout_one :: "(string \<Rightarrow> nat) \<Rightarrow> HubMessage \<Rightarrow> frame \<Rightarrow> DeliveryGuarantee \<Rightarrow> string \<Rightarrow> int \<times> Hub \<Rightarrow> int \<times> Hub" where
  "fanout_one sh msg data g userID st =
     (case st of (n, h) \<Rightarrow>
        if holdingUserDelivery userID (hb_replay h) then
          (case HoldUserDelivery userID (HeldFanout userID msg data g) (hb_replay h) of
             (run, rm) \<Rightarrow>
               let h = h\<lparr>hb_replay := rm\<rparr>
               in if run = [] then (n, h)
                  else case on_node (deliverFanoutToUser sh userID msg data g) h of (k, h) \<Rightarrow> (n + k, h))
        else case on_node (deliverFanoutToUser sh userID msg data g) h of (k, h) \<Rightarrow> (n + k, h))"

definition chunk_size :: "nat \<Rightarrow> nat \<Rightarrow> nat" where
  "chunk_size cpus users = (let workers = (if cpus > users then users else cpus) in (users + workers - 1) div workers)"

definition broadcastFrameToUserIDsNow :: "(string \<Rightarrow> nat) \<Rightarrow> (HubMessage \<Rightarrow> frame option) \<Rightarrow> (string list \<Rightarrow> string list) \<Rightarrow> string list \<Rightarrow> HubMessage
    \<Rightarrow> frame \<Rightarrow> Hub \<Rightarrow> int \<times> Hub" where
  "broadcastFrameToUserIDsNow sh enc order userIDs msg frame h =
     (if userIDs = [] then (0, h)
      else case (if frame = [] then enc msg else Some frame) of
             None \<Rightarrow> (0, h)
           | Some data \<Rightarrow>
               let ids = (if length userIDs \<ge> broadcastShardParallelUsers then order userIDs else userIDs)
               in fold (fanout_one sh msg data (guarantee_of (hb_node h) msg)) ids (0, h))"

definition broadcastWithFrame :: "(string \<Rightarrow> nat) \<Rightarrow> (HubMessage \<Rightarrow> frame option) \<Rightarrow> ('md GoContext \<Rightarrow> string) \<Rightarrow> (string list \<Rightarrow> string list) \<Rightarrow> int
    \<Rightarrow> 'md GoContext \<Rightarrow> string list \<Rightarrow> HubMessage \<Rightarrow> frame \<Rightarrow> Hub \<Rightarrow> int \<times> Hub" where
  "broadcastWithFrame sh enc tr order now ctx userIDs msg frame h =
     (let msg = fst (InjectRoute tr ctx msg)
      in case admit_broadcast now msg (RetryUsers userIDs msg frame) h of
           (False, h) \<Rightarrow> (0, h)
         | (True, h) \<Rightarrow> broadcastFrameToUserIDsNow sh enc order userIDs msg frame h)"

definition BroadcastToUserIDs :: "(string \<Rightarrow> nat) \<Rightarrow> (HubMessage \<Rightarrow> frame option) \<Rightarrow> ('md GoContext \<Rightarrow> string) \<Rightarrow> (string list \<Rightarrow> string list) \<Rightarrow> int
    \<Rightarrow> 'md GoContext \<Rightarrow> string list \<Rightarrow> HubMessage \<Rightarrow> Hub \<Rightarrow> int \<times> Hub" where
  "BroadcastToUserIDs sh enc tr order now ctx userIDs msg h = broadcastWithFrame sh enc tr order now ctx userIDs msg [] h"

definition BroadcastFrameToUserIDs :: "(string \<Rightarrow> nat) \<Rightarrow> (HubMessage \<Rightarrow> frame option) \<Rightarrow> ('md GoContext \<Rightarrow> string) \<Rightarrow> (string list \<Rightarrow> string list) \<Rightarrow> int
    \<Rightarrow> 'md GoContext \<Rightarrow> string list \<Rightarrow> HubMessage \<Rightarrow> frame \<Rightarrow> Hub \<Rightarrow> int \<times> Hub" where
  "BroadcastFrameToUserIDs sh enc tr order now ctx userIDs msg frame h = broadcastWithFrame sh enc tr order now ctx userIDs msg frame h"

section \<open>Namespaces and attributes\<close>

definition nsBroadcastFullScanPercent :: int where "nsBroadcastFullScanPercent = 50"
definition attrBroadcastFullScanPercent :: int where "attrBroadcastFullScanPercent = 50"

definition BroadcastToNamespace :: "(string \<Rightarrow> nat) \<Rightarrow> (HubMessage \<Rightarrow> frame option) \<Rightarrow> ('md GoContext \<Rightarrow> string) \<Rightarrow> (string list \<Rightarrow> string list) \<Rightarrow> int
    \<Rightarrow> 'md GoContext \<Rightarrow> string \<Rightarrow> HubMessage \<Rightarrow> Hub \<Rightarrow> int \<times> Hub" where
  "BroadcastToNamespace sh enc tr order now ctx namespace msg h =
     (if namespace = [] then (0, h)
      else let appID = (if hm_AppID msg = [] then AppIDFromContext ctx else hm_AppID msg);
               (msg, ctx) = ContextWithRoute tr ctx appID namespace None msg;
               r = reg_of (hb_node h);
               users = GetLocalNamespaceUsers sh appID namespace r
           in if users = [] then (0, h)
              else if int (length users) * 100 \<ge> GetClientCount r * nsBroadcastFullScanPercent
              then BroadcastToFiltered sh enc tr now ctx (\<lambda>c. cl_Namespace c = namespace) msg h
              else BroadcastToUserIDs sh enc tr order now ctx users msg h)"

definition broadcastByAttr :: "(string \<Rightarrow> nat) \<Rightarrow> (HubMessage \<Rightarrow> frame option) \<Rightarrow> ('md GoContext \<Rightarrow> string) \<Rightarrow> int \<Rightarrow> 'md GoContext \<Rightarrow> HubMessage
    \<Rightarrow> (string \<Rightarrow> ShardedRegistry \<Rightarrow> string list \<times> bool) \<Rightarrow> (Client \<Rightarrow> bool) \<Rightarrow> Hub \<Rightarrow> int \<times> Hub" where
  "broadcastByAttr sh enc tr now ctx msg lookup condition h =
     (let appID = (if hm_AppID msg = [] then AppIDFromContext ctx else hm_AppID msg);
          r = reg_of (hb_node h)
      in case lookup appID r of
           (users, indexed) \<Rightarrow>
             if \<not> indexed then broadcastToFilteredScoped sh enc tr now ctx None condition msg h
             else if users = [] then (0, h)
             else if int (length users) * 100 \<ge> GetClientCount r * attrBroadcastFullScanPercent
             then broadcastToFilteredScoped sh enc tr now ctx None condition msg h
             else broadcastToFilteredScoped sh enc tr now ctx (Some users) condition msg h)"

definition BroadcastByUserType :: "(string \<Rightarrow> nat) \<Rightarrow> (HubMessage \<Rightarrow> frame option) \<Rightarrow> ('md GoContext \<Rightarrow> string) \<Rightarrow> int \<Rightarrow> 'md GoContext \<Rightarrow> UserType
    \<Rightarrow> HubMessage \<Rightarrow> Hub \<Rightarrow> int \<times> Hub" where
  "BroadcastByUserType sh enc tr now ctx userType msg h =
     broadcastByAttr sh enc tr now ctx msg (\<lambda>appID. GetLocalUsersByUserType sh appID userType) (\<lambda>c. cl_UserType c = userType) h"

definition BroadcastToRole :: "(string \<Rightarrow> nat) \<Rightarrow> (HubMessage \<Rightarrow> frame option) \<Rightarrow> ('md GoContext \<Rightarrow> string) \<Rightarrow> int \<Rightarrow> 'md GoContext \<Rightarrow> UserRole
    \<Rightarrow> HubMessage \<Rightarrow> Hub \<Rightarrow> int \<times> Hub" where
  "BroadcastToRole sh enc tr now ctx role msg h =
     broadcastByAttr sh enc tr now ctx msg (\<lambda>appID. GetLocalUsersByRole sh appID role) (\<lambda>c. cl_Role c = role) h"

definition BroadcastToClientType :: "(string \<Rightarrow> nat) \<Rightarrow> (HubMessage \<Rightarrow> frame option) \<Rightarrow> ('md GoContext \<Rightarrow> string) \<Rightarrow> int \<Rightarrow> 'md GoContext \<Rightarrow> ClientType
    \<Rightarrow> HubMessage \<Rightarrow> Hub \<Rightarrow> int \<times> Hub" where
  "BroadcastToClientType sh enc tr now ctx clientType msg h =
     broadcastByAttr sh enc tr now ctx msg (\<lambda>appID. GetLocalUsersByClientType sh appID clientType) (\<lambda>c. cl_ClientType c = clientType) h"

definition BroadcastToDepartment :: "(string \<Rightarrow> nat) \<Rightarrow> (HubMessage \<Rightarrow> frame option) \<Rightarrow> ('md GoContext \<Rightarrow> string) \<Rightarrow> int \<Rightarrow> 'md GoContext \<Rightarrow> Department
    \<Rightarrow> HubMessage \<Rightarrow> Hub \<Rightarrow> int \<times> Hub" where
  "BroadcastToDepartment sh enc tr now ctx department msg h =
     broadcastByAttr sh enc tr now ctx msg (\<lambda>appID. GetLocalUsersByDepartment sh appID department) (\<lambda>c. cl_Department c = department) h"

section \<open>Global broadcast\<close>

definition HandleBroadcastMessage :: "(HubMessage \<Rightarrow> frame option) \<Rightarrow> ('md GoContext \<Rightarrow> string) \<Rightarrow> 'md GoContext \<Rightarrow> string option \<Rightarrow> int
    \<Rightarrow> 'md GoContext \<Rightarrow> HubMessage \<Rightarrow> Hub \<Rightarrow> Hub" where
  "HandleBroadcastMessage enc tr hostctx newID now ctx msg h =
     (let msg = ensureBroadcastID newID (fst (InjectRoute tr ctx msg))
      in case admit_broadcast now msg (RetryAll msg) h of
           (False, h) \<Rightarrow> h
         | (True, h) \<Rightarrow> h\<lparr>hb_node := snd (snd (doBroadcastMessage enc tr hostctx now msg (hb_node h)))\<rparr>)"

text \<open>The route under which observers are told: that of the message, completed from a connection of the sender.\<close>

definition observer_route :: "(string \<Rightarrow> nat) \<Rightarrow> HubMessage \<Rightarrow> Node \<Rightarrow> string \<times> GoSlice" where
  "observer_route sh msg s =
     (if hm_BroadcastType msg = BroadcastTypeGlobal \<and> hm_Namespace msg = [] then (hm_Namespace msg, None)
      else ForEachUserClient sh (hm_Sender msg)
             (\<lambda>_ p (ns, gids).
                (False, if ns = [] then cl_Namespace (client_at s p) else ns,
                        if GetGroupIDRaw (client_at s p) \<noteq> [] then Some [GetGroupIDRaw (client_at s p)] else gids))
             (reg_of s) (hm_Namespace msg, None))"

definition handleBroadcast :: "(string \<Rightarrow> nat) \<Rightarrow> (HubMessage \<Rightarrow> frame option) \<Rightarrow> ('md GoContext \<Rightarrow> string) \<Rightarrow> 'md GoContext \<Rightarrow> string option \<Rightarrow> int
    \<Rightarrow> HubMessage \<Rightarrow> frame option \<Rightarrow> Hub \<Rightarrow> int \<times> Hub" where
  "handleBroadcast sh enc tr hostctx newID now msg data h =
     (let ctx = TraceContext hostctx msg;
          h = (if slice (hm_GroupIDs msg) = [] \<and> observerNotifyEnabled h
               then case observer_route sh msg (hb_node h) of
                      (ns, gids) \<Rightarrow>
                        NotifyObservers (Inject (Route_WithGroupIDs gids (Route_WithNamespace ns (RouteFrom ctx))) ctx) msg h
               else h)
      in if hm_BroadcastType msg = BroadcastTypeGlobal
         then (0, HandleBroadcastMessage enc tr hostctx newID now ctx msg h)
         else on_node (handleDirectMessage sh enc now msg data) h)"

section \<open>Aggregation\<close>

definition OfferAggregatable :: "(HubMessage \<Rightarrow> frame option) \<Rightarrow> 'md GoContext \<Rightarrow> HubMessage \<Rightarrow> bool \<Rightarrow> Hub \<Rightarrow> bool \<times> Hub" where
  "OfferAggregatable enc ctx msg excludeSender h =
     (case hb_aggregator h of
        None \<Rightarrow> (False, h)
      | Some a \<Rightarrow>
          if excludeSender then (False, h)
          else if guarantee_of (hb_node h) msg \<noteq> GuaranteeAggregatable then (False, h)
          else case slice (GroupIDsFromContext ctx) of
                 [gid] \<Rightarrow>
                   (case enc msg of
                      None \<Rightarrow> (False, h)
                    | Some payload \<Rightarrow>
                        (case Aggregator_Offer (AppIDFromContext ctx) gid payload a of
                           (ok, a) \<Rightarrow> (ok, h\<lparr>hb_aggregator := Some a\<rparr>)))
               | _ \<Rightarrow> (False, h))"

section \<open>A loop over connections\<close>

text \<open>What one connection does with the message: does it take it, and how does it look afterwards?\<close>

definition takes :: "frame \<Rightarrow> HubMessage \<Rightarrow> Client \<Rightarrow> bool" where
  "takes data msg c \<longleftrightarrow> \<not> cl_closed c \<and> (if is_sse c then fst (TrySendSSE msg c (\<lambda>_. 0)) else fst (TrySend data c (\<lambda>_. 0)))"

definition got :: "frame \<Rightarrow> HubMessage \<Rightarrow> Client \<Rightarrow> Client \<Rightarrow> bool" where
  "got data msg c c' \<longleftrightarrow>
     (if is_sse c then \<exists>ch ch'. cl_SSEMessageCh c = Some ch \<and> cl_SSEMessageCh c' = Some ch' \<and> ch_buf ch' = ch_buf ch @ [msg]
      else \<exists>ch ch'. cl_SendChan c = Some ch \<and> cl_SendChan c' = Some ch' \<and> ch_buf ch' = ch_buf ch @ [data])"

definition attempt :: "frame \<Rightarrow> HubMessage \<Rightarrow> DeliveryGuarantee \<Rightarrow> string \<Rightarrow> nat \<Rightarrow> int \<times> Node \<Rightarrow> int \<times> Node" where
  "attempt data msg g userID p st =
     (let c = client_at (snd st) p
      in if cl_closed c then st else if is_sse c then send_event msg p st else send_frame data msg g userID p st)"

lemma try_counters:
  "fst (TrySend data c ctr) = fst (TrySend data c (\<lambda>_. 0))" "fst (TrySendSSE msg c ctr) = fst (TrySendSSE msg c (\<lambda>_. 0))"
  by (auto simp: TrySend_def TrySendSSE_def Let_def split: option.splits SendOutcome.splits prod.splits)

lemma try_event_lane:
  assumes "TrySendSSE msg c ctr = (ok, c', ctr')" and "0 \<le> cl_pendingWrites c"
  shows "ok \<Longrightarrow> \<exists>ch ch'. cl_SSEMessageCh c = Some ch \<and> cl_SSEMessageCh c' = Some ch' \<and> ch_buf ch' = ch_buf ch @ [msg]"
    "\<not> ok \<Longrightarrow> lanes_same c c'" "0 \<le> cl_pendingWrites c'"
  using assms by (auto simp: TrySendSSE_def try_send_def lanes_same_def mark_closed_eq split: option.splits if_splits)

text \<open>One attempt: it counts one exactly when the connection takes the message, and touches nothing else.\<close>

definition fan_inv :: "frame \<Rightarrow> HubMessage \<Rightarrow> nat list \<Rightarrow> int \<times> Node \<Rightarrow> int \<times> Node \<Rightarrow> bool" where
  "fan_inv data msg ps st st' \<longleftrightarrow>
     (case (st, st') of ((n, s), (n', s')) \<Rightarrow>
        n' = n + int (length (filter (\<lambda>p. takes data msg (client_at s p)) ps)) \<and> only_clients (set ps) s s' \<and> pend_ok s' \<and>
        (\<forall>p \<in> set ps. if takes data msg (client_at s p) then got data msg (client_at s p) (client_at s' p)
                      else lanes_same (client_at s p) (client_at s' p)))"

lemma fan_attempt:
  assumes "attempt data msg g u p (n, s) = (n', s')" and "pend_ok s"
  shows "fan_inv data msg [p] (n, s) (n', s')"
proof (cases "cl_closed (client_at s p)")
  case True
  with assms show ?thesis by (simp add: attempt_def fan_inv_def takes_def lanes_same_def)
next
  case False
  let ?c = "client_at s p"
  have pend: "0 \<le> cl_pendingWrites ?c" using assms(2) by (simp add: pend_ok_def)
  show ?thesis
  proof (cases "is_sse ?c")
    case True
    obtain ok t where att: "client_try p (TrySendSSE msg) s = (ok, t)" by force
    note c = client_try_simps [OF att]
    from c(9) obtain ctr where f: "TrySendSSE msg ?c (cs_ctr (nd_conn s)) = (ok, client_at t p, ctr)" by blast
    have r: "n' = (if ok then n + 1 else n)" "s' = t" using assms(1) True False att by (auto simp: attempt_def send_event_def)
    have ok: "takes data msg ?c = ok" using f try_counters(2) [of msg ?c "cs_ctr (nd_conn s)"] True False by (simp add: takes_def)
    note l = try_event_lane [OF f pend]
    have "pend_ok t" using c(1) l(3) assms(2) unfolding pend_ok_def only_client_def by metis
    then show ?thesis using r ok l c(1) True by (auto simp: fan_inv_def only_clients_def only_client_def got_def)
  next
    case ws: False
    obtain ok t where att: "client_try p (TrySend data) s = (ok, t)" by force
    note c = client_try_simps [OF att] and q = pend_ok_try [OF att assms(2)]
    from c(9) obtain ctr where f: "TrySend data ?c (cs_ctr (nd_conn s)) = (ok, client_at t p, ctr)" by blast
    have ok: "takes data msg ?c = ok" using f try_counters(1) [of data ?c "cs_ctr (nd_conn s)"] ws False by (simp add: takes_def)
    note l = try_send_lane [OF f pend]
    obtain act u' where fb: "routeDeliveryFallback (Some msg) (Some p) u g t = (act, u')" by force
    note fo = fallback_outcome(1,2) [OF fb]
    have r: "n' = (if ok then n + 1 else n)" "cs_heap (nd_conn s') = cs_heap (nd_conn t)" "cs_reg (nd_conn s') = cs_reg (nd_conn t)"
      using assms(1) ws False att fb fo by (auto simp: attempt_def send_frame_def split: bool.splits)
    have "pend_ok s'" "only_clients {p} s s'" using q r by (auto simp: pend_ok_def only_clients_def)
    then show ?thesis using r ok l ws by (auto simp: fan_inv_def got_def)
  qed
qed

lemma fan_attempted: "pend_ok s \<Longrightarrow> fan_inv data msg [p] (n, s) (attempt data msg g u p (n, s))"
  using fan_attempt by (cases "attempt data msg g u p (n, s)") simp

lemma fan_inv_Nil: "pend_ok s \<Longrightarrow> fan_inv data msg [] (n, s) (n, s)"
  by (simp add: fan_inv_def)

lemma fan_inv_append:
  assumes "fan_inv data msg ps (n, s) (n1, s1)" and "fan_inv data msg qs (n1, s1) (n2, s2)" and "set ps \<inter> set qs = {}"
  shows "fan_inv data msg (ps @ qs) (n, s) (n2, s2)"
proof -
  have q: "client_at s1 p = client_at s p" if "p \<notin> set ps" for p using assms(1) that by (auto simp: fan_inv_def only_clients_def)
  have p: "client_at s2 p = client_at s1 p" if "p \<notin> set qs" for p using assms(2) that by (auto simp: fan_inv_def only_clients_def)
  have "filter (\<lambda>p. takes data msg (client_at s1 p)) qs = filter (\<lambda>p. takes data msg (client_at s p)) qs"
  proof (rule filter_cong [OF refl])
    fix r assume "r \<in> set qs"
    with assms(3) have "r \<notin> set ps" by auto
    then show "takes data msg (client_at s1 r) = takes data msg (client_at s r)" by (simp add: q)
  qed
  moreover have "only_clients (set ps \<union> set qs) s s2" using only_clients_trans [of "set ps" s s1 "set qs" s2] assms(1,2) by (simp add: fan_inv_def)
  moreover have "\<forall>r \<in> set (ps @ qs). if takes data msg (client_at s r) then got data msg (client_at s r) (client_at s2 r)
      else lanes_same (client_at s r) (client_at s2 r)"
  proof
    fix r assume "r \<in> set (ps @ qs)"
    then consider "r \<in> set ps" "r \<notin> set qs" | "r \<in> set qs" "r \<notin> set ps" using assms(3) by auto
    then show "if takes data msg (client_at s r) then got data msg (client_at s r) (client_at s2 r) else lanes_same (client_at s r) (client_at s2 r)"
      by cases (use assms(1,2) p q in \<open>auto simp: fan_inv_def\<close>)
  qed
  ultimately show ?thesis using assms(1,2) by (auto simp: fan_inv_def)
qed

text \<open>A loop that skips the connections without \<open>Q\<close>.\<close>

lemma fan_fold_cond:
  assumes "\<And>p n t. p \<in> set ps \<Longrightarrow> pend_ok t \<Longrightarrow> client_at t p = client_at s p \<Longrightarrow> reg_of t = reg_of s \<Longrightarrow>
      (if Q p then fan_inv data msg [p] (n, t) (f p (n, t)) else f p (n, t) = (n, t))"
    and "distinct ps" and "pend_ok t" and "\<forall>p \<in> set ps. client_at t p = client_at s p" and "reg_of t = reg_of s"
  shows "fan_inv data msg (filter Q ps) (n, t) (fold f ps (n, t))"
  using assms
proof (induction ps arbitrary: n t)
  case Nil
  then show ?case by (simp add: fan_inv_Nil)
next
  case (Cons p ps)
  obtain n1 s1 where 1: "f p (n, t) = (n1, s1)" by force
  obtain n2 s2 where 2: "fold f ps (n1, s1) = (n2, s2)" by force
  have st: "if Q p then fan_inv data msg [p] (n, t) (n1, s1) else n1 = n \<and> s1 = t"
    using Cons.prems(1) [of p t n] Cons.prems(3-5) 1 by (auto split: if_splits)
  then have "pend_ok s1" "\<forall>q \<in> set ps. client_at s1 q = client_at s q" "reg_of s1 = reg_of s"
    using Cons.prems(2-5) by (auto simp: fan_inv_def only_clients_def split: if_splits)
  then have r: "fan_inv data msg (filter Q ps) (n1, s1) (n2, s2)"
    using Cons.IH [of s1 n1] Cons.prems(1,2) 2 by simp
  show ?case
  proof (cases "Q p")
    case True
    with st have "fan_inv data msg [p] (n, t) (n1, s1)" by simp
    from fan_inv_append [OF this r] Cons.prems(2) 1 2 True show ?thesis by simp
  next
    case False
    with st r 1 2 show ?thesis by simp
  qed
qed

text \<open>What a fan-out means for the caller: exactly the connections in \<open>T\<close> are addressed, the number returned is that
  of those that take the message, these get it once, at the end of their queue, and all others stay as they are.\<close>

definition fan_exact :: "frame \<Rightarrow> HubMessage \<Rightarrow> (nat \<Rightarrow> bool) \<Rightarrow> Hub \<Rightarrow> int \<times> Hub \<Rightarrow> bool" where
  "fan_exact data msg T h res \<longleftrightarrow>
     (case res of (n, h') \<Rightarrow>
        let s = hb_node h; s' = hb_node h'; all = set (GetAllClients (reg_of s))
        in n = int (card {p \<in> all. T p \<and> takes data msg (client_at s p)}) \<and> reg_of s' = reg_of s \<and>
           (\<forall>p. if p \<in> all \<and> T p
                then (if takes data msg (client_at s p) then got data msg (client_at s p) (client_at s' p)
                      else lanes_same (client_at s p) (client_at s' p))
                else client_at s' p = client_at s p))"

lemma fan_exactI:
  assumes "fan_inv data msg ps (0, t) (n, t')" and "distinct ps" and "set ps = {p \<in> set (GetAllClients (reg_of (hb_node h))). T p}"
    and "nd_conn t = nd_conn (hb_node h)" and "nd_conn (hb_node h') = nd_conn t'"
  shows "fan_exact data msg T h (n, h')"
proof -
  have "length (filter (\<lambda>p. takes data msg (client_at t p)) ps) = card {p \<in> set ps. takes data msg (client_at t p)}"
    using distinct_card [OF distinct_filter [OF assms(2)]] by (metis set_filter)
  moreover have "{p \<in> set ps. takes data msg (client_at t p)} =
      {p \<in> set (GetAllClients (reg_of (hb_node h))). T p \<and> takes data msg (client_at t p)}" using assms(3) by auto
  ultimately show ?thesis using assms(1,3-5) by (auto simp: fan_inv_def fan_exact_def only_clients_def Let_def)
qed

section \<open>The full scan\<close>

lemma for_each_client: "ForEachClient (\<lambda>_ p st. (True, f p st)) r st = fold f (GetAllClients r) st"
  by (simp add: ForEachClient_def GetAllClients_def range_while_each_nested)

definition sse_clients :: "ShardedRegistry \<Rightarrow> nat list" where
  "sse_clients r = concat (map (gm_values \<circ> snd) (sm_range defaultShardCount (rg_sseShards r)))"

lemma for_each_sse: "ForEachSSEClient (\<lambda>_ _ p st. (True, f p st)) r st = fold f (sse_clients r) st"
  by (simp add: ForEachSSEClient_def sse_clients_def range_while_each_nested)

lemma sse_clients_exact:
  assumes inv: "rg_inv sh H r" and h: "hash_ok sh"
  shows "set (sse_clients r) = {p \<in> set (GetAllClients r). is_sse (H p)}" "distinct (sse_clients r)"
proof -
  let ?S = "rg_sseShards r" and ?U = "rg_userShards r"
  note U = rg_invD(1) [OF inv] and ok = rg_invD(6) [OF inv]
  have rng: "(u, m) \<in> set (sm_range defaultShardCount ?S) \<longleftrightarrow> sm_inner sh ?S u = m \<and> m \<noteq> []" for u m
    using class_ok_nested [OF ok] h by (intro sm_range_inner) auto
  have ne: "p \<in> set (gm_values m) \<Longrightarrow> m \<noteq> []" for p and m :: "(string, nat) gomap" by (auto simp: gm_values_def)
  have c: "map_of (sm_inner sh ?S u) c = Some p \<longleftrightarrow> is_sse (H p) \<and> map_of (sm_inner sh ?U u) c = Some p" for u c p
    using ok by (auto simp: class_ok_def filed_def split: option.splits if_splits)
  note v = gm_values_iff [OF sm_inner_wf [OF class_ok_nested [OF ok]]]
  have "p \<in> set (sse_clients r) \<longleftrightarrow> (\<exists>u m. (u, m) \<in> set (sm_range defaultShardCount ?S) \<and> p \<in> set (gm_values m))" for p
    by (force simp: sse_clients_def)
  then have "p \<in> set (sse_clients r) \<longleftrightarrow> (\<exists>u. p \<in> set (gm_values (sm_inner sh ?S u)))" for p unfolding rng using ne by blast
  then show "set (sse_clients r) = {p \<in> set (GetAllClients r). is_sse (H p)}"
    by (auto simp: v c all_clients_iff [OF users_ok_nested [OF U] h])
  have wf: "distinct (map fst (sm_inner sh ?S u))" for u using sm_inner_wf [OF class_ok_nested [OF ok], of u] by simp
  have "distinct (gm_values (sm_inner sh ?S u))" for u
  proof -
    have "inj_on snd (set (sm_inner sh ?S u))"
    proof (rule inj_onI)
      fix x y assume a: "x \<in> set (sm_inner sh ?S u)" "y \<in> set (sm_inner sh ?S u)" "snd x = snd y"
      then have "map_of (sm_inner sh ?S u) (fst x) = Some (snd x)" "map_of (sm_inner sh ?S u) (fst y) = Some (snd x)"
        using map_of_is_SomeI [OF wf [of u]] by (metis prod.collapse)+
      then show "x = y" using c users_ok_ident [OF U] a(3) by (metis prod.expand)
    qed
    with wf [of u] show ?thesis by (simp add: gm_values_def distinct_map)
  qed
  moreover have "distinct (map fst (sm_range defaultShardCount ?S))"
    using sm_range_distinct [OF nested_ok_wf [OF class_ok_nested [OF ok]]] by (simp add: sm_keys_def)
  moreover have "u = u'" if "p \<in> set (gm_values (sm_inner sh ?S u))" "p \<in> set (gm_values (sm_inner sh ?S u'))" for u u' p
    using that users_ok_ident [OF U] unfolding v c by metis
  ultimately show "distinct (sse_clients r)"
    unfolding sse_clients_def by (intro distinct_concat_values) (auto simp: rng)
qed

text \<open>The two loops of the scan, seen as attempts.\<close>

lemma deliver_ws_step:
  assumes "pend_ok t"
  shows "if \<not> is_sse (client_at t p) \<and> combinedCondition condition msg (client_at t p)
    then fan_inv data msg [p] (n, t) (deliverWS data msg g condition p (n, t)) else deliverWS data msg g condition p (n, t) = (n, t)"
proof -
  have "deliverWS data msg g condition p (n, t) = attempt data msg g (cl_UserID (client_at t p)) p (n, t)"
    if "\<not> is_sse (client_at t p)" "combinedCondition condition msg (client_at t p)"
    using that by (simp add: deliverWS_def attempt_def Let_def)
  then have "fan_inv data msg [p] (n, t) (deliverWS data msg g condition p (n, t))"
    if "\<not> is_sse (client_at t p)" "combinedCondition condition msg (client_at t p)"
    using that fan_attempted [OF assms] by simp
  moreover have "deliverWS data msg g condition p (n, t) = (n, t)"
    if "\<not> (\<not> is_sse (client_at t p) \<and> combinedCondition condition msg (client_at t p))"
    using that by (auto simp: deliverWS_def Let_def)
  ultimately show ?thesis by presburger
qed

lemma deliver_sse_step:
  assumes "pend_ok t" and "is_sse (client_at t p)"
  shows "if combinedCondition condition msg (client_at t p)
    then fan_inv data msg [p] (n, t) (deliverSSE msg condition p (n, t)) else deliverSSE msg condition p (n, t) = (n, t)"
proof -
  have "deliverSSE msg condition p (n, t) = attempt data msg GuaranteeEphemeral [] p (n, t)"
    if "combinedCondition condition msg (client_at t p)"
    using that assms(2) by (simp add: deliverSSE_def attempt_def Let_def)
  then have "fan_inv data msg [p] (n, t) (deliverSSE msg condition p (n, t))" if "combinedCondition condition msg (client_at t p)"
    using that fan_attempted [OF assms(1)] by simp
  moreover have "deliverSSE msg condition p (n, t) = (n, t)" if "\<not> combinedCondition condition msg (client_at t p)"
    using that by (simp add: deliverSSE_def Let_def)
  ultimately show ?thesis by presburger
qed

lemma scan_all:
  assumes inv: "rg_inv sh (cs_heap (nd_conn s)) (reg_of s)" and h: "hash_ok sh" and ok: "pend_ok s"
  shows "\<exists>ps. fan_inv data msg ps (0, s)
      (fold (deliverSSE msg condition) (sse_clients (reg_of s)) (fold (deliverWS data msg g condition) (GetAllClients (reg_of s)) (0, s))) \<and>
    distinct ps \<and> set ps = {p \<in> set (GetAllClients (reg_of s)). combinedCondition condition msg (client_at s p)}"
proof -
  let ?all = "GetAllClients (reg_of s)" and ?sse = "sse_clients (reg_of s)"
  let ?C = "\<lambda>p. combinedCondition condition msg (client_at s p)"
  let ?ws = "filter (\<lambda>p. \<not> is_sse (client_at s p) \<and> ?C p) ?all"
  note S = sse_clients_exact [OF inv h]
  obtain n1 s1 where 1: "fold (deliverWS data msg g condition) ?all (0, s) = (n1, s1)" by force
  obtain n2 s2 where 2: "fold (deliverSSE msg condition) ?sse (n1, s1) = (n2, s2)" by force
  have a: "fan_inv data msg ?ws (0, s) (n1, s1)"
    using fan_fold_cond [of ?all s "\<lambda>p. \<not> is_sse (client_at s p) \<and> ?C p" data msg "deliverWS data msg g condition" s 0]
      deliver_ws_step [of _ _ condition msg data _ g] distinct_all_clients [OF inv h] ok 1 by simp
  then have c: "pend_ok s1" "\<forall>p \<in> set ?sse. client_at s1 p = client_at s p" "reg_of s1 = reg_of s"
    using S(1) by (auto simp: fan_inv_def only_clients_def)
  have "if ?C p then fan_inv data msg [p] (n, t) (deliverSSE msg condition p (n, t)) else deliverSSE msg condition p (n, t) = (n, t)"
    if "p \<in> set ?sse" "pend_ok t" "client_at t p = client_at s p" for p n t
    using deliver_sse_step [OF that(2), of p condition msg data n] that S(1) by simp
  then have b: "fan_inv data msg (filter ?C ?sse) (n1, s1) (n2, s2)"
    using fan_fold_cond [of ?sse s ?C data msg "deliverSSE msg condition" s1 n1] S(2) c 2 by simp
  have "fan_inv data msg (?ws @ filter ?C ?sse) (0, s) (n2, s2)" by (rule fan_inv_append [OF a b]) (use S(1) in auto)
  moreover have "distinct (?ws @ filter ?C ?sse)" using distinct_all_clients [OF inv h] S by auto
  moreover have "set (?ws @ filter ?C ?sse) = {p \<in> set ?all. ?C p}" using S(1) by auto
  ultimately show ?thesis using 1 2 by metis
qed

section \<open>The indexed fan-outs\<close>

text \<open>A loop over users, each with its own connections.\<close>

lemma fan_users:
  assumes "\<And>u n t. u \<in> set us \<Longrightarrow> pend_ok t \<Longrightarrow> reg_of t = reg_of s \<Longrightarrow> (\<forall>p \<in> set (C u). client_at t p = client_at s p) \<Longrightarrow>
      fan_inv data msg (filter Q (C u)) (n, t) (f u (n, t))"
    and "distinct us" and "\<And>u v p. p \<in> set (C u) \<Longrightarrow> p \<in> set (C v) \<Longrightarrow> u = v"
    and "pend_ok t" and "reg_of t = reg_of s" and "\<forall>u \<in> set us. \<forall>p \<in> set (C u). client_at t p = client_at s p"
  shows "fan_inv data msg (filter Q (concat (map C us))) (n, t) (fold f us (n, t))"
  using assms
proof (induction us arbitrary: n t)
  case Nil
  then show ?case by (simp add: fan_inv_Nil)
next
  case (Cons u us)
  obtain n1 s1 where 1: "f u (n, t) = (n1, s1)" by force
  obtain n2 s2 where 2: "fold f us (n1, s1) = (n2, s2)" by force
  have a: "fan_inv data msg (filter Q (C u)) (n, t) (n1, s1)" using Cons.prems(1) [of u t n] Cons.prems(4-6) 1 by simp
  have disj: "set (C u) \<inter> set (concat (map C us)) = {}" using Cons.prems(2,3) by fastforce
  have k: "pend_ok s1" "reg_of s1 = reg_of s" "client_at s1 p = client_at t p" if "p \<notin> set (C u)" for p
    using a Cons.prems(5) that by (auto simp: fan_inv_def only_clients_def)
  have "pend_ok s1" "reg_of s1 = reg_of s" using a Cons.prems(5) by (auto simp: fan_inv_def only_clients_def)
  moreover have "\<forall>v \<in> set us. \<forall>p \<in> set (C v). client_at s1 p = client_at s p"
  proof (intro ballI)
    fix v p assume v: "v \<in> set us" "p \<in> set (C v)"
    then have "p \<notin> set (C u)" using disj by auto
    with k(3) [of p] Cons.prems(6) v show "client_at s1 p = client_at s p" by simp
  qed
  moreover have "distinct us" using Cons.prems(2) by simp
  ultimately have r: "fan_inv data msg (filter Q (concat (map C us))) (n1, s1) (n2, s2)"
    using Cons.IH [of s1 n1] Cons.prems(1) [of _ _ _] Cons.prems(3) 2 by simp
  have "fan_inv data msg (filter Q (C u) @ filter Q (concat (map C us))) (n, t) (n2, s2)"
    by (rule fan_inv_append [OF a r]) (use disj in auto)
  with 1 2 show ?case by simp
qed

lemma fan_inv_shift: "fan_inv data msg ps (0, s) (k, s') \<Longrightarrow> fan_inv data msg ps (n, s) (n + k, s')"
  by (simp add: fan_inv_def)

abbreviation user_conns :: "(string \<Rightarrow> nat) \<Rightarrow> Node \<Rightarrow> string \<Rightarrow> nat list" where
  "user_conns sh s u \<equiv> gm_values (sm_inner sh (rg_userShards (reg_of s)) u)"

lemma user_conns_facts:
  assumes inv: "rg_inv sh (cs_heap (nd_conn s)) (reg_of s)" and h: "hash_ok sh"
  shows "set (user_conns sh s u) = {p \<in> set (GetAllClients (reg_of s)). cl_UserID (client_at s p) = u}" "distinct (user_conns sh s u)"
  using user_values [OF rg_invD(1) [OF inv] h, of u] distinct_user_values [OF rg_invD(1) [OF inv], of u] by auto

lemma fanout_user:
  assumes inv: "rg_inv sh (cs_heap (nd_conn s)) (reg_of s)" and h: "hash_ok sh" and app: "hm_AppID msg \<noteq> []"
    and t: "pend_ok t" "reg_of t = reg_of s" "\<forall>p \<in> set (user_conns sh s u). client_at t p = client_at s p"
  shows "fan_inv data msg (filter (\<lambda>p. ClientMatchesEnvelope (client_at s p) (hm_AppID msg) (hm_Namespace msg)) (user_conns sh s u))
    (0, t) (deliverFanoutToUser sh u msg data g t)"
proof -
  let ?M = "\<lambda>p. ClientMatchesEnvelope (client_at s p) (hm_AppID msg) (hm_Namespace msg)"
  have n: "nested_ok sh (rg_userShards (reg_of t))" using users_ok_nested [OF rg_invD(1) [OF inv]] t(2) by simp
  have "deliverFanoutToUser sh u msg data g t = fold (attempt data msg g u) (targets sh u msg t) (0, t)"
    using for_each_targets [OF n, of u msg "attempt data msg g u" "(0, t)"] by (simp add: deliverFanoutToUser_def attempt_def)
  moreover have "targets sh u msg t = filter ?M (user_conns sh s u)"
    unfolding targets_def t(2) using app t(3) by (intro filter_cong) auto
  moreover have "fan_inv data msg (filter (\<lambda>_. True) (filter ?M (user_conns sh s u))) (0, t)
      (fold (attempt data msg g u) (filter ?M (user_conns sh s u)) (0, t))"
    by (rule fan_fold_cond [where s = s]) (use fan_attempted user_conns_facts(2) [OF inv h, of u] t in auto)
  ultimately show ?thesis by simp
qed

definition fanout_node :: "(string \<Rightarrow> nat) \<Rightarrow> HubMessage \<Rightarrow> frame \<Rightarrow> DeliveryGuarantee \<Rightarrow> string \<Rightarrow> int \<times> Node \<Rightarrow> int \<times> Node" where
  "fanout_node sh msg data g u st = (case st of (n, s) \<Rightarrow> case deliverFanoutToUser sh u msg data g s of (k, s) \<Rightarrow> (n + k, s))"

lemma fanout_unheld:
  assumes "\<forall>u. \<not> holdingUserDelivery u (hb_replay h)"
  shows "fold (fanout_one sh msg data g) us (n, h) =
    (case fold (fanout_node sh msg data g) us (n, hb_node h) of (k, s) \<Rightarrow> (k, h\<lparr>hb_node := s\<rparr>))"
  using assms
proof (induction us arbitrary: n h)
  case Nil
  then show ?case by simp
next
  case (Cons u us)
  obtain k s where k: "deliverFanoutToUser sh u msg data g (hb_node h) = (k, s)" by force
  have "fanout_one sh msg data g u (n, h) = (n + k, h\<lparr>hb_node := s\<rparr>)"
    using Cons.prems k by (simp add: fanout_one_def on_node_def)
  then show ?case using Cons.IH [of "h\<lparr>hb_node := s\<rparr>" "n + k"] Cons.prems k by (simp add: fanout_node_def split: prod.splits)
qed

lemma fan_out_users:
  assumes inv: "rg_inv sh (cs_heap (nd_conn s)) (reg_of s)" and h: "hash_ok sh" and app: "hm_AppID msg \<noteq> []" and ok: "pend_ok s"
    and us: "distinct us" "\<And>p. p \<in> set (GetAllClients (reg_of s)) \<Longrightarrow> T p \<Longrightarrow> cl_UserID (client_at s p) \<in> set us"
    and T: "\<And>p. p \<in> set (GetAllClients (reg_of s)) \<Longrightarrow> T p \<longleftrightarrow> ClientMatchesEnvelope (client_at s p) (hm_AppID msg) (hm_Namespace msg)"
  shows "\<exists>ps. fan_inv data msg ps (0, s) (fold (fanout_node sh msg data g) us (0, s)) \<and> distinct ps \<and>
    set ps = {p \<in> set (GetAllClients (reg_of s)). T p}"
proof -
  let ?M = "\<lambda>p. ClientMatchesEnvelope (client_at s p) (hm_AppID msg) (hm_Namespace msg)" and ?C = "user_conns sh s"
  note C = user_conns_facts [OF inv h]
  have one: "fan_inv data msg (filter ?M (?C u)) (n, t) (fanout_node sh msg data g u (n, t))"
    if "pend_ok t" "reg_of t = reg_of s" "\<forall>p \<in> set (?C u). client_at t p = client_at s p" for u n t
    using fanout_user [OF inv h app that, of data g] fan_inv_shift [of data msg _ t _ _ n]
    by (auto simp: fanout_node_def split: prod.splits)
  have "fan_inv data msg (filter ?M (concat (map ?C us))) (0, s) (fold (fanout_node sh msg data g) us (0, s))"
    by (rule fan_users [where s = s]) (use one C(1) us(1) ok in auto)
  moreover have "distinct (filter ?M (concat (map ?C us)))"
    using us(1) C by (induction us) auto
  moreover have "set (filter ?M (concat (map ?C us))) = {p \<in> set (GetAllClients (reg_of s)). T p}"
    using C(1) us(2) T by auto
  ultimately show ?thesis by blast
qed

section \<open>Admission\<close>

lemma admitted:
  assumes "fst (admit_broadcast now msg job h)"
  shows "\<exists>h'. admit_broadcast now msg job h = (True, h') \<and> admit_broadcast now msg job' h = (True, h') \<and>
    nd_conn (hb_node h') = nd_conn (hb_node h) \<and> hb_replay h' = hb_replay h"
proof -
  obtain v s where v: "AdmitMessage msg True (hb_node h) = (v, s)" by force
  have v': "v = VerdictAdmit" using assms v by (auto simp: admit_broadcast_def on_node_def split: if_splits)
  have c: "nd_conn s = nd_conn (hb_node h)" using AdmitMessage_simps(1) [OF v] .
  show ?thesis
  proof (cases "hb_shaper h")
    case None
    then show ?thesis using v v' c by (simp add: admit_broadcast_def on_node_def)
  next
    case (Some sp)
    obtain ok sp' where sp: "Allow now sp = (ok, sp')" by force
    show ?thesis using assms v v' c Some sp by (cases "guarantee_of s msg = GuaranteeGuaranteed"; cases ok) (simp_all add: admit_broadcast_def on_node_def)
  qed
qed

section \<open>The interleavings of the pieces\<close>

lemma concat_chunks: "0 < k \<Longrightarrow> concat (chunks k xs) = xs"
proof (induction "length xs" arbitrary: xs rule: less_induct)
  case less
  show ?case
  proof (cases "xs = []")
    case True
    then show ?thesis by (simp add: chunks.simps)
  next
    case False
    then have "chunks k xs = take k xs # chunks k (drop k xs)" using less.prems by (subst chunks.simps) simp
    moreover have "concat (chunks k (drop k xs)) = drop k xs" using False less.prems by (intro less.hyps) simp_all
    ultimately show ?thesis by simp
  qed
qed

lemma mset_interleavings: "zs \<in> interleavings xss \<Longrightarrow> mset zs = mset (concat xss)"
  by (induction xss arbitrary: zs) (auto simp: mset_shuffles)

lemma chunk_size_pos: "0 < cpus \<Longrightarrow> 0 < users \<Longrightarrow> 0 < chunk_size cpus users"
  by (auto simp: chunk_size_def Let_def div_greater_zero_iff)

definition parallel_order :: "nat \<Rightarrow> (string list \<Rightarrow> string list) \<Rightarrow> bool" where
  "parallel_order cpus order \<longleftrightarrow> 0 < cpus \<and> (\<forall>us. order us \<in> interleavings (chunks (chunk_size cpus (length us)) us))"

lemma parallel_order_mset:
  assumes "parallel_order cpus order"
  shows "mset (order us) = mset us"
proof (cases "us = []")
  case True
  have "order us \<in> interleavings (chunks (chunk_size cpus (length us)) us)" using assms by (simp add: parallel_order_def)
  then show ?thesis using True by (simp add: chunks.simps)
next
  case False
  then have "0 < chunk_size cpus (length us)" using assms by (intro chunk_size_pos) (simp_all add: parallel_order_def)
  moreover have "order us \<in> interleavings (chunks (chunk_size cpus (length us)) us)" using assms by (simp add: parallel_order_def)
  ultimately show ?thesis using mset_interleavings concat_chunks by metis
qed

section \<open>The broadcasts\<close>

lemma index_users_distinct:
  assumes "index_ok sh keys H idx U"
  shows "distinct (gm_keys (sm_inner sh idx k))"
proof -
  have "gm_wf (sm_inner sh idx k)"
  proof (rule sm_inner_wf)
    have "refs_ok sh idx" using assms unfolding index_ok_def by blast
    then show "nested_ok sh idx" unfolding refs_ok_def refs_wf_def nested_ok_def by blast
  qed
  then show ?thesis by (simp add: gm_keys_def)
qed

lemma namespace_users_distinct: "rg_inv sh H r \<Longrightarrow> distinct (GetLocalNamespaceUsers sh app ns r)"
  using index_users_distinct [OF rg_invD(10)]
  by (simp add: GetLocalNamespaceUsers_def with_shard_rlock_def keys_of_index Let_def)

lemma attr_users_distinct: "rg_inv sh H r \<Longrightarrow> distinct (fst (getLocalAttrUsers sh app dim value r))"
  using index_users_distinct [OF rg_invD(11)]
  by (simp add: getLocalAttrUsers_def with_shard_rlock_def keys_of_index Let_def)

text \<open>The state in which a broadcast delivers at once: the invariants hold, both gates let it pass.\<close>

definition broadcast_ready :: "(string \<Rightarrow> nat) \<Rightarrow> int \<Rightarrow> HubMessage \<Rightarrow> Hub \<Rightarrow> bool" where
  "broadcast_ready sh now msg h \<longleftrightarrow>
     hash_ok sh \<and> rg_inv sh (cs_heap (nd_conn (hb_node h))) (reg_of (hb_node h)) \<and> pend_ok (hb_node h) \<and>
     fst (admit_broadcast now msg (RetryAll msg) h)"

lemma status_conn [simp]: "nd_conn (updateMessageStatusAsync i r st fr s) = nd_conn s"
  by (simp add: updateMessageStatusAsync_def)

lemma filtered_scan:
  assumes "broadcast_ready sh now m h" and "m = fst (InjectRoute tr ctx msg)" and "enc m = Some data"
    and "\<And>p. p \<in> set (GetAllClients (reg_of (hb_node h))) \<Longrightarrow> T p \<longleftrightarrow> combinedCondition condition m (client_at (hb_node h) p)"
  shows "fan_exact data m T h (broadcastToFilteredScoped sh enc tr now ctx None condition msg h)"
proof -
  note R = assms(1) [unfolded broadcast_ready_def]
  obtain h' where h': "admit_broadcast now m (RetryFiltered None condition m) h = (True, h')"
      "nd_conn (hb_node h') = nd_conn (hb_node h)" using admitted R by blast
  let ?t = "hb_node h'" and ?g = "guarantee_of (hb_node h') m"
  have t: "rg_inv sh (cs_heap (nd_conn ?t)) (reg_of ?t)" "pend_ok ?t" using R h'(2) by (simp_all add: pend_ok_def)
  obtain n s' where run: "fold (deliverSSE m condition) (sse_clients (reg_of ?t))
      (fold (deliverWS data m ?g condition) (GetAllClients (reg_of ?t)) (0, ?t)) = (n, s')" by force
  from scan_all [OF t(1) _ t(2), of data m condition ?g] R run obtain ps where
    ps: "fan_inv data m ps (0, ?t) (n, s')" "distinct ps"
      "set ps = {p \<in> set (GetAllClients (reg_of ?t)). combinedCondition condition m (client_at ?t p)}" by auto
  have "broadcastToFilteredScoped sh enc tr now ctx None condition msg h =
      (n, h'\<lparr>hb_node := (if n > 0 then updateMessageStatusAsync (message_id m) [] StatusSuccess NoReason s' else s')\<rparr>)"
    using h'(1) assms(2,3) run
    by (simp add: broadcastToFilteredScoped_def broadcastToFilteredNow_def on_node_def for_each_client for_each_sse)
  moreover have "fan_exact data m T h
      (n, h'\<lparr>hb_node := (if n > 0 then updateMessageStatusAsync (message_id m) [] StatusSuccess NoReason s' else s')\<rparr>)"
    by (rule fan_exactI [OF ps(1,2) _ h'(2)]) (use ps(3) assms(4) h'(2) in auto)
  ultimately show ?thesis by simp
qed

lemma users_fan_out:
  assumes "broadcast_ready sh now m h" and "m = fst (InjectRoute tr ctx msg)" and "enc m = Some data"
    and "\<And>p. p \<in> set (GetAllClients (reg_of (hb_node h))) \<Longrightarrow>
      T p \<longleftrightarrow> ClientMatchesEnvelope (client_at (hb_node h) p) (hm_AppID m) (hm_Namespace m)"
    and "hm_AppID m \<noteq> []" and "\<forall>u. \<not> holdingUserDelivery u (hb_replay h)" and "parallel_order cpus order"
    and "distinct us" and "us \<noteq> []"
    and "\<And>p. p \<in> set (GetAllClients (reg_of (hb_node h))) \<Longrightarrow> T p \<Longrightarrow> cl_UserID (client_at (hb_node h) p) \<in> set us"
  shows "fan_exact data m T h (BroadcastToUserIDs sh enc tr order now ctx us msg h)"
proof -
  note R = assms(1) [unfolded broadcast_ready_def]
  obtain h' where h': "admit_broadcast now m (RetryUsers us m []) h = (True, h')"
      "nd_conn (hb_node h') = nd_conn (hb_node h)" "hb_replay h' = hb_replay h" using admitted R by blast
  let ?t = "hb_node h'" and ?g = "guarantee_of (hb_node h') m"
  let ?ids = "if length us \<ge> broadcastShardParallelUsers then order us else us"
  have ids: "distinct ?ids" "set ?ids = set us"
    using assms(8) parallel_order_mset [OF assms(7), of us] by (auto dest: mset_eq_imp_distinct_iff mset_eq_setD)
  have t: "rg_inv sh (cs_heap (nd_conn ?t)) (reg_of ?t)" "pend_ok ?t" using R h'(2) by (simp_all add: pend_ok_def)
  obtain n s' where run: "fold (fanout_node sh m data ?g) ?ids (0, ?t) = (n, s')" by force
  have "\<exists>ps. fan_inv data m ps (0, ?t) (fold (fanout_node sh m data ?g) ?ids (0, ?t)) \<and> distinct ps \<and>
      set ps = {p \<in> set (GetAllClients (reg_of ?t)). T p}"
    by (rule fan_out_users [OF t(1) _ assms(5) t(2) ids(1)]) (use R assms(4,10) h'(2) ids(2) in auto)
  then obtain ps where ps: "fan_inv data m ps (0, ?t) (n, s')" "distinct ps" "set ps = {p \<in> set (GetAllClients (reg_of ?t)). T p}"
    using run by auto
  have "BroadcastToUserIDs sh enc tr order now ctx us msg h = (n, h'\<lparr>hb_node := s'\<rparr>)"
    using h' assms(2,3,6,9) run
    by (simp add: BroadcastToUserIDs_def broadcastWithFrame_def broadcastFrameToUserIDsNow_def fanout_unheld Let_def)
  moreover have "fan_exact data m T h (n, h'\<lparr>hb_node := s'\<rparr>)"
    by (rule fan_exactI [OF ps(1,2) _ h'(2)]) (use ps(3) h'(2) in auto)
  ultimately show ?thesis by simp
qed

lemma filtered_user:
  assumes inv: "rg_inv sh (cs_heap (nd_conn s)) (reg_of s)" and h: "hash_ok sh"
    and t: "pend_ok t" "reg_of t = reg_of s" "\<forall>p \<in> set (user_conns sh s u). client_at t p = client_at s p"
  shows "fan_inv data msg (filter (\<lambda>p. combinedCondition condition msg (client_at s p)) (user_conns sh s u)) (n, t)
    (ForEachUserClient sh u (\<lambda>_ p st. (True, if is_sse (client_at (snd st) p) then deliverSSE msg condition p st
                                        else deliverWS data msg g condition p st)) (reg_of s) (n, t))"
proof -
  let ?f = "\<lambda>p st. if is_sse (client_at (snd st) p) then deliverSSE msg condition p st else deliverWS data msg g condition p st"
  have step: "if combinedCondition condition msg (client_at s p) then fan_inv data msg [p] (n, t) (?f p (n, t)) else ?f p (n, t) = (n, t)"
    if "pend_ok t" "client_at t p = client_at s p" for p n t
    using deliver_ws_step [OF that(1), of p condition msg data n g] deliver_sse_step [OF that(1), of p condition msg data n] that(2)
    by (auto split: if_splits)
  have "nested_ok sh (rg_userShards (reg_of s))" using users_ok_nested [OF rg_invD(1) [OF inv]] .
  then have "ForEachUserClient sh u (\<lambda>_ p st. (True, ?f p st)) (reg_of s) (n, t) = fold ?f (user_conns sh s u) (n, t)"
    by (simp only: shard_values range_while_true)
  moreover have "fan_inv data msg (filter (\<lambda>p. combinedCondition condition msg (client_at s p)) (user_conns sh s u)) (n, t)
      (fold ?f (user_conns sh s u) (n, t))"
    by (rule fan_fold_cond [where s = s], rule step, assumption+) (use t user_conns_facts(2) [OF inv h, of u] in auto)
  ultimately show ?thesis by simp
qed

lemma filtered_users:
  assumes "broadcast_ready sh now m h" and "m = fst (InjectRoute tr ctx msg)" and "enc m = Some data"
    and "\<And>p. p \<in> set (GetAllClients (reg_of (hb_node h))) \<Longrightarrow> T p \<longleftrightarrow> combinedCondition condition m (client_at (hb_node h) p)"
    and "distinct us"
    and "\<And>p. p \<in> set (GetAllClients (reg_of (hb_node h))) \<Longrightarrow> T p \<Longrightarrow> cl_UserID (client_at (hb_node h) p) \<in> set us"
  shows "fan_exact data m T h (broadcastToFilteredScoped sh enc tr now ctx (Some us) condition msg h)"
proof -
  note R = assms(1) [unfolded broadcast_ready_def]
  obtain h' where h': "admit_broadcast now m (RetryFiltered (Some us) condition m) h = (True, h')"
      "nd_conn (hb_node h') = nd_conn (hb_node h)" using admitted R by blast
  let ?t = "hb_node h'" and ?g = "guarantee_of (hb_node h') m"
  let ?Q = "\<lambda>p. combinedCondition condition m (client_at ?t p)" and ?C = "user_conns sh (hb_node h')"
  let ?f = "\<lambda>uid. ForEachUserClient sh uid (\<lambda>_ p st. (True, if is_sse (client_at (snd st) p) then deliverSSE m condition p st
      else deliverWS data m ?g condition p st)) (reg_of ?t)"
  have t: "rg_inv sh (cs_heap (nd_conn ?t)) (reg_of ?t)" "pend_ok ?t" using R h'(2) by (simp_all add: pend_ok_def)
  have hash: "hash_ok sh" using R by blast
  note C = user_conns_facts [OF t(1) hash]
  obtain n s' where run: "fold ?f us (0, ?t) = (n, s')" by force
  have "fan_inv data m (filter ?Q (concat (map ?C us))) (0, ?t) (fold ?f us (0, ?t))"
    by (rule fan_users [where s = ?t]) (use filtered_user [OF t(1) hash] C(1) assms(5) t(2) in auto)
  then have fan: "fan_inv data m (filter ?Q (concat (map ?C us))) (0, ?t) (n, s')" by (simp only: run)
  have d: "distinct (filter ?Q (concat (map ?C us)))" using assms(5) C by (induction us) auto
  have "broadcastToFilteredScoped sh enc tr now ctx (Some us) condition msg h =
      (n, h'\<lparr>hb_node := (if n > 0 then updateMessageStatusAsync (message_id m) [] StatusSuccess NoReason s' else s')\<rparr>)"
    using h'(1) assms(3) run by (simp add: broadcastToFilteredScoped_def broadcastToFilteredNow_def on_node_def Let_def assms(2) [symmetric])
  moreover have "fan_exact data m T h
      (n, h'\<lparr>hb_node := (if n > 0 then updateMessageStatusAsync (message_id m) [] StatusSuccess NoReason s' else s')\<rparr>)"
    by (rule fan_exactI [OF fan d _ h'(2)]) (use C(1) assms(4,6) h'(2) in auto)
  ultimately show ?thesis by simp
qed

text \<open>The message as a namespace broadcast sends it.\<close>

definition namespace_message :: "('md GoContext \<Rightarrow> string) \<Rightarrow> 'md GoContext \<Rightarrow> string \<Rightarrow> HubMessage \<Rightarrow> HubMessage" where
  "namespace_message tr ctx namespace msg =
     (case ContextWithRoute tr ctx (if hm_AppID msg = [] then AppIDFromContext ctx else hm_AppID msg) namespace None msg of
        (m, c) \<Rightarrow> fst (InjectRoute tr c m))"

definition broadcast_app :: "'md GoContext \<Rightarrow> HubMessage \<Rightarrow> string" where
  "broadcast_app ctx msg = NormalizeAppID (if hm_AppID msg = [] then AppIDFromContext ctx else hm_AppID msg)"

lemma broadcast_app_ne: "broadcast_app ctx msg \<noteq> []"
  by (simp add: broadcast_app_def NormalizeAppID_def DefaultAppID_def)

lemma namespace_message_fields:
  "ns \<noteq> [] \<Longrightarrow> hm_AppID (namespace_message tr ctx ns msg) = broadcast_app ctx msg"
  "ns \<noteq> [] \<Longrightarrow> hm_Namespace (namespace_message tr ctx ns msg) = ns"
  using broadcast_app_ne [of ctx msg] by (simp_all add: namespace_message_def ContextWithRoute_def InjectRoute_def Let_def broadcast_app_def)

lemma inject_app: "hm_AppID (fst (InjectRoute tr ctx msg)) = (if hm_AppID msg = [] then NormalizeAppID (AppIDFromContext ctx) else hm_AppID msg)"
  by (simp add: InjectRoute_def Let_def)

lemma inject_broadcast_app: "hm_AppID (fst (InjectRoute tr ctx msg)) = broadcast_app ctx msg"
  by (simp add: inject_app broadcast_app_def NormalizeAppID_def)

section \<open>A concrete hub\<close>

text \<open>Two connections of one user, in the applications \<open>shop\<close> and \<open>chat\<close>, both in the default namespace.\<close>

definition two_hub :: Hub where
  "two_hub = \<lparr>hb_node = two_node, hb_replay = \<lparr>rm_replayInflight = [], rm_replayGate = None\<rparr>, hb_shaper = None, hb_delay = None,
     hb_aggregator = None, hb_notifier = None\<rparr>"

lemma two_hub_fields: "hb_node two_hub = two_node" "\<not> holdingUserDelivery u (hb_replay two_hub)" "hb_shaper two_hub = None"
  by (simp_all add: two_hub_def holdingUserDelivery_def)

lemma two_hub_ready: "broadcast_ready demo_sh 0 msg two_hub"
proof -
  have "rg_inv demo_sh (cs_heap (nd_conn two_node)) (reg_of two_node)"
    using rg_inv_mutate [OF reach_rg_inv [OF demo_hash two_reach], of "cs_heap (nd_conn two_node)"]
    by (simp add: two_node_fields keeps_filing_def filing_def)
  moreover have "pend_ok two_node" by (simp add: pend_ok_def two_node_fields two_heap_def NewClient_def)
  moreover have "nd_gate two_node = None" by (simp add: two_node_def one_node_def)
  ultimately show ?thesis
    using demo_hash by (simp add: broadcast_ready_def two_hub_fields admit_broadcast_def on_node_def AdmitMessage_def Let_def)
qed

lemma two_hub_apps: "list_all (\<lambda>p. colon_free (Client_GetAppID (client_at (hb_node two_hub) p))) (GetAllClients (reg_of (hb_node two_hub)))"
  by (simp add: two_hub_fields two_node_fields two_all two_ids Client_GetAppID_def NormalizeAppID_def colon_free_def)

lemma two_hub_takes: "takes ''x'' msg (client_at (hb_node two_hub) 0)"
  by (simp add: two_hub_fields two_node_fields takes_def two_heap_def NewClient_def is_sse_def TrySend_def try_send_def make_chan_def)

lemma parallel_order_id: "parallel_order 1 (\<lambda>us. us)"
proof -
  have "us \<in> interleavings (chunks (chunk_size 1 (length us)) us)" for us :: "string list"
  proof (cases "us = []")
    case True
    then show ?thesis by (simp add: chunks.simps)
  next
    case False
    then have "chunk_size 1 (length us) = length us" by (cases us) (simp_all add: chunk_size_def Let_def)
    moreover have "chunks (length us) us = [us]" using False by (subst chunks.simps) (simp add: chunks.simps)
    ultimately show ?thesis by simp
  qed
  then show ?thesis by (simp add: parallel_order_def)
qed

section \<open>Properties\<close>



text \<open>Both ways of a broadcast by attribute.\<close>

lemma attr_broadcast:
  fixes tr :: "'md GoContext \<Rightarrow> string" and msg :: HubMessage and ctx :: "'md GoContext"
  defines "m \<equiv> fst (InjectRoute tr ctx msg)"
  assumes "broadcast_ready sh now m h" and "enc m = Some data" and "colon_free (broadcast_app ctx msg)"
    and "list_all (\<lambda>p. colon_free (Client_GetAppID (client_at (hb_node h) p))) (GetAllClients (reg_of (hb_node h)))"
    and dim: "dim \<in> set [attrDimUserType, attrDimRole, attrDimClientType, attrDimDepartment]"
    and cond: "\<And>c. condition c \<longleftrightarrow> (dim, val) \<in> set (clientAttrs c)"
  shows "fan_exact data m (\<lambda>p. combinedCondition condition m (client_at (hb_node h) p)) h
    (broadcastByAttr sh enc tr now ctx msg (\<lambda>app. getLocalAttrUsers sh app dim val) condition h)"
proof -
  let ?app = "if hm_AppID msg = [] then AppIDFromContext ctx else hm_AppID msg" and ?s = "hb_node h"
  let ?T = "\<lambda>p. combinedCondition condition m (client_at ?s p)"
  let ?us = "fst (getLocalAttrUsers sh ?app dim val (reg_of ?s))"
  note R = assms(2) [unfolded broadcast_ready_def] and inj = meta_eq_to_obj_eq [OF m_def]
  have na: "NormalizeAppID ?app = broadcast_app ctx msg" by (simp add: broadcast_app_def)
  have us: "set ?us = {cl_UserID (client_at ?s p) |p. p \<in> set (GetAllClients (reg_of ?s)) \<and>
      Client_GetAppID (client_at ?s p) = broadcast_app ctx msg \<and> val \<noteq> [] \<and> (dim, val) \<in> set (clientAttrs (client_at ?s p))}"
    using attr_query [OF _ _ _ assms(5) dim, of sh ?app val] R assms(4) unfolding na by blast
  have in_us: "cl_UserID (client_at ?s p) \<in> set ?us" if "p \<in> set (GetAllClients (reg_of ?s))" "?T p" "val \<noteq> []" for p
  proof -
    have "cl_AppID (client_at ?s p) = broadcast_app ctx msg" "(dim, val) \<in> set (clientAttrs (client_at ?s p))"
      using that(2) cond inject_broadcast_app [of tr ctx msg] by (auto simp: combinedCondition_def ClientMatchesEnvelope_def m_def split: if_splits)
    moreover have "Client_GetAppID (client_at ?s p) = broadcast_app ctx msg"
      using calculation(1) broadcast_app_ne [of ctx msg] by (simp add: Client_GetAppID_def NormalizeAppID_def)
    ultimately show ?thesis unfolding us using that by blast
  qed
  have ind: "getLocalAttrUsers sh ?app dim val (reg_of ?s) = (?us, val \<noteq> [])"
    by (cases "val = []") (simp_all add: getLocalAttrUsers_def Let_def)
  have run: "broadcastByAttr sh enc tr now ctx msg (\<lambda>app. getLocalAttrUsers sh app dim val) condition h =
      (if val = [] then broadcastToFilteredScoped sh enc tr now ctx None condition msg h
       else if ?us = [] then (0, h)
       else if int (length ?us) * 100 \<ge> GetClientCount (reg_of ?s) * attrBroadcastFullScanPercent
       then broadcastToFilteredScoped sh enc tr now ctx None condition msg h
       else broadcastToFilteredScoped sh enc tr now ctx (Some ?us) condition msg h)"
    unfolding broadcastByAttr_def Let_def by (subst ind) simp
  have scan: "fan_exact data m ?T h (broadcastToFilteredScoped sh enc tr now ctx None condition msg h)"
    by (rule filtered_scan [where T = ?T and enc = enc, OF assms(2) inj assms(3)]) simp
  have idx: "fan_exact data m ?T h (broadcastToFilteredScoped sh enc tr now ctx (Some ?us) condition msg h)" if "val \<noteq> []"
    by (rule filtered_users [where T = ?T and enc = enc, OF assms(2) inj assms(3)]) (use attr_users_distinct R in_us that in auto)
  have none: "fan_exact data m ?T h (0, h)" if "?us = []" "val \<noteq> []"
    by (rule fan_exactI [where ps = "[]" and t = ?s and t' = ?s]) (use in_us that R in \<open>auto simp: fan_inv_Nil\<close>)
  show ?thesis unfolding run using scan idx none by presburger
qed

lemmas attr_dims = attrDimUserType_def attrDimRole_def attrDimClientType_def attrDimDepartment_def

text \<open>A broadcast by an attribute of the connection (user type, role, client type or department) reaches exactly
  the connections inside the envelope of the message that have the attribute.  Whether it scans all connections or
  only those of the users that the attribute index names, a device of such a user with another value of the attribute
  gets nothing.\<close>

theorem attribute_broadcast_exact:
  fixes msg :: HubMessage and ctx :: "'md GoContext"
  assumes "broadcast_ready sh now (fst (InjectRoute tr ctx msg)) h" and "enc (fst (InjectRoute tr ctx msg)) = Some data"
    and "colon_free (broadcast_app ctx msg)"
    and "list_all (\<lambda>p. colon_free (Client_GetAppID (client_at (hb_node h) p))) (GetAllClients (reg_of (hb_node h)))"
  shows "fan_exact data (fst (InjectRoute tr ctx msg)) (\<lambda>p. combinedCondition (\<lambda>c. cl_UserType c = v) (fst (InjectRoute tr ctx msg))
      (client_at (hb_node h) p)) h (BroadcastByUserType sh enc tr now ctx v msg h) \<and>
    fan_exact data (fst (InjectRoute tr ctx msg)) (\<lambda>p. combinedCondition (\<lambda>c. cl_Role c = v) (fst (InjectRoute tr ctx msg))
      (client_at (hb_node h) p)) h (BroadcastToRole sh enc tr now ctx v msg h) \<and>
    fan_exact data (fst (InjectRoute tr ctx msg)) (\<lambda>p. combinedCondition (\<lambda>c. cl_ClientType c = v) (fst (InjectRoute tr ctx msg))
      (client_at (hb_node h) p)) h (BroadcastToClientType sh enc tr now ctx v msg h) \<and>
    fan_exact data (fst (InjectRoute tr ctx msg)) (\<lambda>p. combinedCondition (\<lambda>c. cl_Department c = v) (fst (InjectRoute tr ctx msg))
      (client_at (hb_node h) p)) h (BroadcastToDepartment sh enc tr now ctx v msg h)"
proof (intro conjI)
  note A = attr_broadcast [OF assms(1), where enc = enc, OF assms(2-4)]
  show "fan_exact data (fst (InjectRoute tr ctx msg)) (\<lambda>p. combinedCondition (\<lambda>c. cl_UserType c = v) (fst (InjectRoute tr ctx msg))
      (client_at (hb_node h) p)) h (BroadcastByUserType sh enc tr now ctx v msg h)"
    unfolding BroadcastByUserType_def GetLocalUsersByUserType_def by (rule A) (auto simp: clientAttrs_def attr_dims)
  show "fan_exact data (fst (InjectRoute tr ctx msg)) (\<lambda>p. combinedCondition (\<lambda>c. cl_Role c = v) (fst (InjectRoute tr ctx msg))
      (client_at (hb_node h) p)) h (BroadcastToRole sh enc tr now ctx v msg h)"
    unfolding BroadcastToRole_def GetLocalUsersByRole_def by (rule A) (auto simp: clientAttrs_def attr_dims)
  show "fan_exact data (fst (InjectRoute tr ctx msg)) (\<lambda>p. combinedCondition (\<lambda>c. cl_ClientType c = v) (fst (InjectRoute tr ctx msg))
      (client_at (hb_node h) p)) h (BroadcastToClientType sh enc tr now ctx v msg h)"
    unfolding BroadcastToClientType_def GetLocalUsersByClientType_def by (rule A) (auto simp: clientAttrs_def attr_dims)
  show "fan_exact data (fst (InjectRoute tr ctx msg)) (\<lambda>p. combinedCondition (\<lambda>c. cl_Department c = v) (fst (InjectRoute tr ctx msg))
      (client_at (hb_node h) p)) h (BroadcastToDepartment sh enc tr now ctx v msg h)"
    unfolding BroadcastToDepartment_def GetLocalUsersByDepartment_def by (rule A) (auto simp: clientAttrs_def attr_dims)
qed

lemma attribute_broadcast_exact_witness:
  "fst (BroadcastByUserType demo_sh (\<lambda>_. Some ''x'') (\<lambda>_. []) 0 demo_ctx UserTypeCustomer
     (zero_message\<lparr>hm_AppID := ''shop''\<rparr>) two_hub) = 1"
proof -
  let ?msg = "zero_message\<lparr>hm_AppID := ''shop''\<rparr>" and ?s = "hb_node two_hub"
  let ?m = "fst (InjectRoute (\<lambda>_. []) demo_ctx ?msg)"
  have app: "broadcast_app demo_ctx ?msg = ''shop''" by (simp add: broadcast_app_def NormalizeAppID_def)
  have m: "hm_AppID ?m = ''shop''" "hm_Namespace ?m = []"
    by (simp_all add: InjectRoute_def Let_def zero_message_def demo_ctx_def NamespaceFromContext_def RoutingFromContext_def)
  have "fan_exact ''x'' ?m (\<lambda>p. combinedCondition (\<lambda>c. cl_UserType c = UserTypeCustomer) ?m (client_at ?s p)) two_hub
      (BroadcastByUserType demo_sh (\<lambda>_. Some ''x'') (\<lambda>_. []) 0 demo_ctx UserTypeCustomer ?msg two_hub)"
    by (rule attribute_broadcast_exact [OF two_hub_ready _ _ two_hub_apps, THEN conjunct1]) (simp_all add: app colon_free_def)
  moreover have "{p \<in> set (GetAllClients (reg_of ?s)). combinedCondition (\<lambda>c. cl_UserType c = UserTypeCustomer) ?m (client_at ?s p) \<and>
      takes ''x'' ?m (client_at ?s p)} = {0}"
    using two_hub_takes [of ?m] m
    by (auto simp: two_hub_fields two_node_fields two_all two_ids combinedCondition_def ClientMatchesEnvelope_def)
       (simp_all add: two_heap_def NewClient_def)
  ultimately show ?thesis by (auto simp: fan_exact_def Let_def split: prod.splits)
qed

end
