(* ===== verification/Node_Index.thy ===== *)
theory Node_Index
  imports Routing
begin

text \<open>
  Where a user is connected: the caches of hub/node_index_cache.go and hub/node_query_flight.go in front of the
  online index, and the node list of cluster/node_registry.go.

  \<^item> The cache is a \<open>sync.Map\<close> of pointers to entries with a separate counter.  \<open>load\<close>, \<open>store\<close> and
    \<open>evictExpired\<close> are its operations run alone; \<open>ic_step\<close> runs the threads of all callers with every atomic
    operation a step of its own.  A pointer is a number, so that \<open>CompareAndDelete\<close> compares identities.
  \<^item> The flight merges queries of one key.  \<open>fl_step\<close> is its step relation; the online index is \<open>fl_truth\<close>, which may
    change at any moment.
  \<^item> \<open>refreshNodes\<close> is a function of the two Redis hashes it reads.
\<close>

section \<open>Keys\<close>

record nodeQueryKey =
  nk_appID :: string
  nk_namespace :: string
  nk_userID :: string

definition nodeIndexCacheKey :: "'md GoContext \<Rightarrow> string \<Rightarrow> nodeQueryKey" where
  "nodeIndexCacheKey ctx userID = \<lparr>nk_appID = AppIDFromContext ctx, nk_namespace = NamespaceFromContext ctx, nk_userID = userID\<rparr>"

section \<open>The short-lived cache\<close>

definition nodeIndexCacheDefaultTTL :: int where "nodeIndexCacheDefaultTTL = 300000000"
definition nodeIndexCacheMaxEntries :: int where "nodeIndexCacheMaxEntries = 262144"

record nodeIndexEntry =
  ne_nodes :: "string list"
  ne_expireAt :: int

record nodeIndexCache =
  nc_entries :: "(nodeQueryKey, nat \<times> nodeIndexEntry) gomap"
  nc_size :: int
  nc_ttl :: int
  nc_max :: int
  nc_next :: nat

definition cache_capacity :: "nodeIndexCache \<Rightarrow> int" where
  "cache_capacity c = (if nc_max c \<le> 0 then nodeIndexCacheMaxEntries else nc_max c)"

definition compare_and_delete :: "nodeQueryKey \<Rightarrow> nat \<times> nodeIndexEntry \<Rightarrow> nodeIndexCache \<Rightarrow> bool \<times> nodeIndexCache" where
  "compare_and_delete key v c =
     (if map_of (nc_entries c) key = Some v then (True, c\<lparr>nc_entries := AList.delete key (nc_entries c)\<rparr>) else (False, c))"

definition drop_entry :: "nodeQueryKey \<Rightarrow> nat \<times> nodeIndexEntry \<Rightarrow> nodeIndexCache \<Rightarrow> nodeIndexCache" where
  "drop_entry key v c = (case compare_and_delete key v c of (True, c) \<Rightarrow> c\<lparr>nc_size := nc_size c - 1\<rparr> | (False, c) \<Rightarrow> c)"

definition cache_load :: "int \<Rightarrow> nodeQueryKey \<Rightarrow> nodeIndexCache \<Rightarrow> string list option \<times> nodeIndexCache" where
  "cache_load now key c =
     (case map_of (nc_entries c) key of
        None \<Rightarrow> (None, c)
      | Some v \<Rightarrow> if now > ne_expireAt (snd v) then (None, drop_entry key v c) else (Some (ne_nodes (snd v)), c))"

definition evictExpired :: "int \<Rightarrow> nodeIndexCache \<Rightarrow> int \<times> nodeIndexCache" where
  "evictExpired now c =
     (let c = fold (\<lambda>(k, v) c. if ne_expireAt (snd v) < now then drop_entry k v c else c) (nc_entries c) c
      in (nc_size c, c))"

definition new_entry :: "int \<Rightarrow> string list \<Rightarrow> nodeIndexCache \<Rightarrow> nat \<times> nodeIndexEntry" where
  "new_entry now nodes c =
     (nc_next c, \<lparr>ne_nodes = nodes, ne_expireAt = now + (if nc_ttl c \<le> 0 then nodeIndexCacheDefaultTTL else nc_ttl c)\<rparr>)"

definition swap_entry :: "nodeQueryKey \<Rightarrow> nat \<times> nodeIndexEntry \<Rightarrow> nodeIndexCache \<Rightarrow> bool \<times> nodeIndexCache" where
  "swap_entry key e c =
     (map_of (nc_entries c) key \<noteq> None, c\<lparr>nc_entries := AList.update key e (nc_entries c), nc_next := Suc (nc_next c)\<rparr>)"

definition cache_store :: "int \<Rightarrow> nodeQueryKey \<Rightarrow> string list \<Rightarrow> nodeIndexCache \<Rightarrow> nodeIndexCache" where
  "cache_store now key nodes c =
     (let e = new_entry now nodes c
      in case swap_entry key e c of
           (True, c) \<Rightarrow> c
         | (False, c) \<Rightarrow>
             let c = c\<lparr>nc_size := nc_size c + 1\<rparr>
             in if nc_size c > cache_capacity c
                then case evictExpired now c of
                       (sz, c) \<Rightarrow> if sz > cache_capacity c then drop_entry key e c else c
                else c)"

subsection \<open>Run alone\<close>

definition cache_inv :: "nodeIndexCache \<Rightarrow> bool" where
  "cache_inv c \<longleftrightarrow> gm_wf (nc_entries c) \<and> nc_size c = int (length (nc_entries c))"

lemma length_delete: "gm_wf m \<Longrightarrow> map_of m k \<noteq> None \<Longrightarrow> Suc (length (AList.delete k m)) = length m"
  using mset_delete_present [of m k] by (metis not_None_eq size_add_mset size_mset)

lemma drop_entry_fields [simp]:
  "nc_max (drop_entry k v c) = nc_max c" "nc_ttl (drop_entry k v c) = nc_ttl c" "nc_next (drop_entry k v c) = nc_next c"
  by (auto simp: drop_entry_def compare_and_delete_def)

lemma drop_entry_inv: "cache_inv c \<Longrightarrow> cache_inv (drop_entry k v c)"
  using length_delete [of "nc_entries c" k] by (auto simp: drop_entry_def compare_and_delete_def cache_inv_def)

lemma drop_entry_read:
  "map_of (nc_entries (drop_entry k v c)) k' = (if k' = k \<and> map_of (nc_entries c) k = Some v then None else map_of (nc_entries c) k')"
  by (auto simp: drop_entry_def compare_and_delete_def gomap_simps)

lemma sweep_fold:
  assumes "cache_inv c"
  shows "cache_inv (fold (\<lambda>(k, v) c. if ne_expireAt (snd v) < now then drop_entry k v c else c) kvs c) \<and>
    nc_max (fold (\<lambda>(k, v) c. if ne_expireAt (snd v) < now then drop_entry k v c else c) kvs c) = nc_max c \<and>
    map_of (nc_entries (fold (\<lambda>(k, v) c. if ne_expireAt (snd v) < now then drop_entry k v c else c) kvs c)) k =
      (case map_of (nc_entries c) k of None \<Rightarrow> None
       | Some v \<Rightarrow> if (k, v) \<in> set kvs \<and> ne_expireAt (snd v) < now then None else Some v)"
  using assms
proof (induction kvs arbitrary: c)
  case Nil
  then show ?case by (simp split: option.split)
next
  case (Cons kv kvs)
  obtain k' v' where kv: "kv = (k', v')" by (cases kv)
  show ?case
  proof (cases "ne_expireAt (snd v') < now")
    case True
    with Cons.IH [OF drop_entry_inv [OF Cons.prems], of k' v'] kv show ?thesis
      by (auto simp: drop_entry_read split: option.splits)
  next
    case False
    with Cons.IH [OF Cons.prems] kv show ?thesis by (auto split: option.split)
  qed
qed

lemma drop_entry_length: "cache_inv c \<Longrightarrow> length (nc_entries (drop_entry k v c)) \<le> length (nc_entries c)"
  using length_delete [of "nc_entries c" k] by (auto simp: drop_entry_def compare_and_delete_def cache_inv_def)

lemma sweep_length:
  "cache_inv c \<Longrightarrow> length (nc_entries (fold (\<lambda>(k, v) c. if ne_expireAt (snd v) < now then drop_entry k v c else c) kvs c)) \<le> length (nc_entries c)"
proof (induction kvs arbitrary: c)
  case Nil
  then show ?case by simp
next
  case (Cons kv kvs)
  then show ?case
    using Cons.IH [OF drop_entry_inv, of c "fst kv" "snd kv"] drop_entry_length [of c "fst kv" "snd kv"]
    by (auto simp: case_prod_beta)
qed

lemma evict_exact:
  assumes "cache_inv c" and "evictExpired now c = (sz, c')"
  shows "cache_inv c'" "sz = int (length (nc_entries c'))" "nc_max c' = nc_max c"
    "map_of (nc_entries c') k = (case map_of (nc_entries c) k of None \<Rightarrow> None
       | Some v \<Rightarrow> if ne_expireAt (snd v) < now then None else Some v)"
proof -
  let ?c = "fold (\<lambda>(k, v) c. if ne_expireAt (snd v) < now then drop_entry k v c else c) (nc_entries c) c"
  have r: "c' = ?c" "sz = nc_size ?c" using assms(2) by (auto simp: evictExpired_def Let_def)
  note F = sweep_fold [OF assms(1), of now "nc_entries c"]
  show "cache_inv c'" "nc_max c' = nc_max c" using F r by simp_all
  then show "sz = int (length (nc_entries c'))" using r by (simp add: cache_inv_def)
  show "map_of (nc_entries c') k = (case map_of (nc_entries c) k of None \<Rightarrow> None
       | Some v \<Rightarrow> if ne_expireAt (snd v) < now then None else Some v)"
    unfolding r(1) conjunct2 [OF conjunct2 [OF F]] by (cases "map_of (nc_entries c) k") (simp_all add: map_of_SomeD)
qed

lemma swap_inv:
  assumes "cache_inv c" and "swap_entry key e c = (existed, c')"
  shows "existed \<Longrightarrow> cache_inv c'" "\<not> existed \<Longrightarrow> cache_inv (c'\<lparr>nc_size := nc_size c' + 1\<rparr>)"
    "nc_max c' = nc_max c" "nc_size c' = nc_size c" "map_of (nc_entries c') k = (if k = key then Some e else map_of (nc_entries c) k)"
  using assms by (auto simp: swap_entry_def cache_inv_def gomap_simps split: if_splits)

text \<open>What the cache may answer for a key: what was stored last, while it lives.\<close>

lemma cache_store_facts:
  assumes "cache_inv c" and "int (length (nc_entries c)) \<le> cache_capacity c"
  shows "cache_inv (cache_store now key nodes c)" "cache_capacity (cache_store now key nodes c) = cache_capacity c"
    "int (length (nc_entries (cache_store now key nodes c))) \<le> cache_capacity c"
    "map_of (nc_entries (cache_store now key nodes c)) key \<in> {None, Some (new_entry now nodes c)}"
    "k \<noteq> key \<Longrightarrow> map_of (nc_entries (cache_store now key nodes c)) k \<in> {None, map_of (nc_entries c) k}"
proof -
  let ?e = "new_entry now nodes c"
  obtain existed c1 where s: "swap_entry key ?e c = (existed, c1)" by force
  note S = swap_inv [OF assms(1) s]
  let ?c2 = "c1\<lparr>nc_size := nc_size c1 + 1\<rparr>"
  obtain sz c3 where ev: "evictExpired now ?c2 = (sz, c3)" by force
  have cap: "cache_capacity c1 = cache_capacity c" "cache_capacity ?c2 = cache_capacity c" using S(3) by (simp_all add: cache_capacity_def)
  have "cache_inv (cache_store now key nodes c) \<and> cache_capacity (cache_store now key nodes c) = cache_capacity c \<and>
    int (length (nc_entries (cache_store now key nodes c))) \<le> cache_capacity c \<and>
    map_of (nc_entries (cache_store now key nodes c)) key \<in> {None, Some ?e} \<and>
    (k \<noteq> key \<longrightarrow> map_of (nc_entries (cache_store now key nodes c)) k \<in> {None, map_of (nc_entries c) k})"
  proof (cases "existed \<or> nc_size ?c2 \<le> cache_capacity ?c2")
    case True
    have r: "cache_store now key nodes c = (if existed then c1 else ?c2)" using True s by (auto simp: cache_store_def Let_def)
    have "int (length (nc_entries c1)) \<le> cache_capacity c"
    proof (cases existed)
      case True
      with s assms(2) show ?thesis by (auto simp: swap_entry_def gomap_simps)
    next
      case False
      with \<open>existed \<or> nc_size ?c2 \<le> cache_capacity ?c2\<close> S(2) cap show ?thesis by (simp add: cache_inv_def)
    qed
    then show ?thesis using True r S cap by auto
  next
    case False
    note E = evict_exact [OF S(2) ev]
    have r: "cache_store now key nodes c = (if sz > cache_capacity c3 then drop_entry key ?e c3 else c3)"
      using False s ev by (auto simp: cache_store_def Let_def)
    have capc3: "cache_capacity c3 = cache_capacity c" using E(3) False S(3) by (simp add: cache_capacity_def)
    have len: "length (nc_entries c3) \<le> length (nc_entries ?c2)"
      using sweep_length [OF S(2), of now "nc_entries ?c2"] False ev by (auto simp: evictExpired_def Let_def)
    have fresh: "\<not> ne_expireAt (snd ?e) < now" by (simp add: new_entry_def nodeIndexCacheDefaultTTL_def)
    have key: "map_of (nc_entries c3) key = Some ?e" using E(4) [of key] S(5) [of key] fresh False by simp
    have other: "map_of (nc_entries c3) k \<in> {None, map_of (nc_entries c) k}" if "k \<noteq> key"
      using E(4) [of k] S(5) [of k] that False by (auto split: option.splits)
    have len2: "length (nc_entries ?c2) = Suc (length (nc_entries c))"
      using False s by (auto simp: swap_entry_def gomap_simps)
    have e: "cache_inv c3" "sz = int (length (nc_entries c3))" using E False by auto
    show ?thesis
    proof (cases "sz > cache_capacity c3")
      case True
      have "Suc (length (nc_entries (drop_entry key ?e c3))) = length (nc_entries c3)"
        using length_delete [of "nc_entries c3" key] key e(1) by (simp add: drop_entry_def compare_and_delete_def cache_inv_def)
      then show ?thesis using True r len len2 assms(2) capc3 drop_entry_inv [OF e(1), of key ?e] drop_entry_read [of key ?e c3] key other
        by (auto simp: cache_capacity_def)
    next
      case False
      then show ?thesis using r e capc3 key other by auto
    qed
  qed
  then show "cache_inv (cache_store now key nodes c)" "cache_capacity (cache_store now key nodes c) = cache_capacity c"
    "int (length (nc_entries (cache_store now key nodes c))) \<le> cache_capacity c"
    "map_of (nc_entries (cache_store now key nodes c)) key \<in> {None, Some (new_entry now nodes c)}"
    "k \<noteq> key \<Longrightarrow> map_of (nc_entries (cache_store now key nodes c)) k \<in> {None, map_of (nc_entries c) k}" by auto
qed

subsection \<open>With all its callers\<close>

datatype ic_pc = CIdle | Owes int | Inserted nodeQueryKey "nat \<times> nodeIndexEntry" | Sweeping nodeQueryKey "nat \<times> nodeIndexEntry"
  | SweepOwes nodeQueryKey "nat \<times> nodeIndexEntry" | RollBack nodeQueryKey "nat \<times> nodeIndexEntry"

fun pc_owes :: "ic_pc \<Rightarrow> int" where
  "pc_owes (Owes d) = d"
| "pc_owes (Inserted _ _) = 1"
| "pc_owes (SweepOwes _ _) = - 1"
| "pc_owes _ = 0"

record ic_state =
  ic_cache :: nodeIndexCache
  ic_threads :: "ic_pc list"
  ic_now :: int

definition ic_init :: "ic_state \<Rightarrow> bool" where
  "ic_init s \<longleftrightarrow> nc_entries (ic_cache s) = [] \<and> nc_size (ic_cache s) = 0 \<and> list_all (\<lambda>pc. pc = CIdle) (ic_threads s)"

definition ic_go :: "nat \<Rightarrow> ic_pc \<Rightarrow> nodeIndexCache \<Rightarrow> ic_state \<Rightarrow> ic_state" where
  "ic_go i pc c s = s\<lparr>ic_cache := c, ic_threads := (ic_threads s)[i := pc]\<rparr>"

abbreviation ic_at :: "nat \<Rightarrow> ic_pc \<Rightarrow> ic_state \<Rightarrow> bool" where
  "ic_at i pc s \<equiv> i < length (ic_threads s) \<and> ic_threads s ! i = pc"

abbreviation count_by :: "int \<Rightarrow> nodeIndexCache \<Rightarrow> nodeIndexCache" where
  "count_by d c \<equiv> c\<lparr>nc_size := nc_size c + d\<rparr>"

inductive ic_step :: "ic_state \<Rightarrow> ic_state \<Rightarrow> bool" where
  tick: "now \<ge> ic_now s \<Longrightarrow> ic_step s (s\<lparr>ic_now := now\<rparr>)"
| expired: "ic_at i CIdle s \<Longrightarrow> map_of (nc_entries (ic_cache s)) key = Some v \<Longrightarrow> ic_now s > ne_expireAt (snd v) \<Longrightarrow>
    ic_step s (ic_go i (Owes (- 1)) (snd (compare_and_delete key v (ic_cache s))) s)"
| overwrite: "ic_at i CIdle s \<Longrightarrow> swap_entry key (new_entry (ic_now s) nodes (ic_cache s)) (ic_cache s) = (True, c) \<Longrightarrow> ic_step s (ic_go i CIdle c s)"
| insert: "ic_at i CIdle s \<Longrightarrow> e = new_entry (ic_now s) nodes (ic_cache s) \<Longrightarrow> swap_entry key e (ic_cache s) = (False, c) \<Longrightarrow>
    ic_step s (ic_go i (Inserted key e) c s)"
| pay: "ic_at i (Owes d) s \<Longrightarrow> ic_step s (ic_go i CIdle (count_by d (ic_cache s)) s)"
| fits: "ic_at i (Inserted key e) s \<Longrightarrow> nc_size (ic_cache s) + 1 \<le> cache_capacity (ic_cache s) \<Longrightarrow>
    ic_step s (ic_go i CIdle (count_by 1 (ic_cache s)) s)"
| above: "ic_at i (Inserted key e) s \<Longrightarrow> nc_size (ic_cache s) + 1 > cache_capacity (ic_cache s) \<Longrightarrow>
    ic_step s (ic_go i (Sweeping key e) (count_by 1 (ic_cache s)) s)"
| sweep: "ic_at i (Sweeping key e) s \<Longrightarrow> map_of (nc_entries (ic_cache s)) k = Some v \<Longrightarrow> ne_expireAt (snd v) < ic_now s \<Longrightarrow>
    ic_step s (ic_go i (SweepOwes key e) (snd (compare_and_delete k v (ic_cache s))) s)"
| sweep_pay: "ic_at i (SweepOwes key e) s \<Longrightarrow> ic_step s (ic_go i (Sweeping key e) (count_by (- 1) (ic_cache s)) s)"
| sweep_done: "ic_at i (Sweeping key e) s \<Longrightarrow> nc_size (ic_cache s) \<le> cache_capacity (ic_cache s) \<Longrightarrow> ic_step s (ic_go i CIdle (ic_cache s) s)"
| still_above: "ic_at i (Sweeping key e) s \<Longrightarrow> nc_size (ic_cache s) > cache_capacity (ic_cache s) \<Longrightarrow>
    ic_step s (ic_go i (RollBack key e) (ic_cache s) s)"
| roll_back: "ic_at i (RollBack key e) s \<Longrightarrow> compare_and_delete key e (ic_cache s) = (True, c) \<Longrightarrow> ic_step s (ic_go i (Owes (- 1)) c s)"
| taken_over: "ic_at i (RollBack key e) s \<Longrightarrow> compare_and_delete key e (ic_cache s) = (False, c) \<Longrightarrow> ic_step s (ic_go i CIdle c s)"

definition ic_inv :: "ic_state \<Rightarrow> bool" where
  "ic_inv s \<longleftrightarrow> gm_wf (nc_entries (ic_cache s)) \<and>
     nc_size (ic_cache s) + sum_list (map pc_owes (ic_threads s)) = int (length (nc_entries (ic_cache s)))"

lemma sum_list_put:
  "i < length xs \<Longrightarrow> sum_list (map f (xs[i := y])) = sum_list (map f xs) - f (xs ! i) + (f y :: int)"
  by (induction xs arbitrary: i) (auto split: nat.splits)

lemma ic_inv_go:
  assumes "ic_inv s" and "ic_at i pc s" and "gm_wf (nc_entries c)"
    and "nc_size c + pc_owes pc' - int (length (nc_entries c)) =
      nc_size (ic_cache s) + pc_owes pc - int (length (nc_entries (ic_cache s)))"
  shows "ic_inv (ic_go i pc' c s)"
  using assms by (auto simp: ic_inv_def ic_go_def sum_list_put)

lemma deleted_facts:
  assumes "gm_wf (nc_entries c)" and "map_of (nc_entries c) k = Some v"
  shows "gm_wf (nc_entries (snd (compare_and_delete k v c)))" "nc_size (snd (compare_and_delete k v c)) = nc_size c"
    "int (length (nc_entries (snd (compare_and_delete k v c)))) = int (length (nc_entries c)) - 1"
  using assms length_delete [of "nc_entries c" k] by (simp_all add: compare_and_delete_def)

lemma ic_inv_deleted:
  assumes "ic_inv s" and "ic_at i pc s" and "map_of (nc_entries (ic_cache s)) k = Some v" and "pc_owes pc' = pc_owes pc - 1"
  shows "ic_inv (ic_go i pc' (snd (compare_and_delete k v (ic_cache s))) s)"
proof (rule ic_inv_go [OF assms(1,2)])
  have wf: "gm_wf (nc_entries (ic_cache s))" using assms(1) by (simp add: ic_inv_def)
  note D = deleted_facts [OF wf assms(3)]
  show "gm_wf (nc_entries (snd (compare_and_delete k v (ic_cache s))))" by (rule D(1))
  show "nc_size (snd (compare_and_delete k v (ic_cache s))) + pc_owes pc' - int (length (nc_entries (snd (compare_and_delete k v (ic_cache s))))) =
      nc_size (ic_cache s) + pc_owes pc - int (length (nc_entries (ic_cache s)))"
    using D(2,3) assms(4) by linarith
qed

lemma ic_inv_swapped:
  assumes "ic_inv s" and "ic_at i CIdle s" and "swap_entry key e (ic_cache s) = (existed, c)" and "pc_owes pc' = (if existed then 0 else 1)"
  shows "ic_inv (ic_go i pc' c s)"
  by (rule ic_inv_go [OF assms(1,2)])
     (use assms in \<open>auto simp: ic_inv_def swap_entry_def gomap_simps split: if_splits\<close>)

lemma ic_inv_counted:
  assumes "ic_inv s" and "ic_at i pc s" and "pc_owes pc' = pc_owes pc - d"
  shows "ic_inv (ic_go i pc' (count_by d (ic_cache s)) s)"
  by (rule ic_inv_go [OF assms(1,2)]) (use assms in \<open>auto simp: ic_inv_def\<close>)

lemma ic_inv_kept:
  assumes "ic_inv s" and "ic_at i pc s" and "pc_owes pc' = pc_owes pc"
  shows "ic_inv (ic_go i pc' (ic_cache s) s)"
  by (rule ic_inv_go [OF assms(1,2)]) (use assms in \<open>auto simp: ic_inv_def\<close>)

lemma ic_inv_step:
  assumes "ic_inv s" and "ic_step s t"
  shows "ic_inv t"
  using assms(2)
proof cases
  case (tick now)
  then show ?thesis using assms(1) by (simp add: ic_inv_def)
next
  case (expired i key v)
  show ?thesis unfolding expired(1) by (rule ic_inv_deleted [OF assms(1) expired(2,3)]) simp
next
  case (overwrite i key nodes c)
  show ?thesis unfolding overwrite(1) by (rule ic_inv_swapped [OF assms(1) overwrite(2,3)]) simp
next
  case (insert i e nodes key c)
  show ?thesis unfolding insert(1) by (rule ic_inv_swapped [OF assms(1) insert(2,4)]) simp
next
  case (pay i d)
  show ?thesis unfolding pay(1) by (rule ic_inv_counted [OF assms(1) pay(2)]) simp
next
  case (fits i key e)
  show ?thesis unfolding fits(1) by (rule ic_inv_counted [OF assms(1) fits(2)]) simp
next
  case (above i key e)
  show ?thesis unfolding above(1) by (rule ic_inv_counted [OF assms(1) above(2)]) simp
next
  case (sweep i key e k v)
  show ?thesis unfolding sweep(1) by (rule ic_inv_deleted [OF assms(1) sweep(2,3)]) simp
next
  case (sweep_pay i key e)
  show ?thesis unfolding sweep_pay(1) by (rule ic_inv_counted [OF assms(1) sweep_pay(2)]) simp
next
  case (sweep_done i key e)
  show ?thesis unfolding sweep_done(1) by (rule ic_inv_kept [OF assms(1) sweep_done(2)]) simp
next
  case (still_above i key e)
  show ?thesis unfolding still_above(1) by (rule ic_inv_kept [OF assms(1) still_above(2)]) simp
next
  case (roll_back i key e c)
  then have k: "map_of (nc_entries (ic_cache s)) key = Some e" "c = snd (compare_and_delete key e (ic_cache s))"
    by (auto simp: compare_and_delete_def split: if_splits)
  show ?thesis unfolding roll_back(1) k(2) by (rule ic_inv_deleted [OF assms(1) roll_back(2) k(1)]) simp
next
  case (taken_over i key e c)
  then have c: "c = ic_cache s" by (auto simp: compare_and_delete_def split: if_splits)
  show ?thesis unfolding taken_over(1) c by (rule ic_inv_kept [OF assms(1) taken_over(2)]) simp
qed

lemma ic_inv_init: "ic_init s \<Longrightarrow> ic_inv s"
proof -
  have "list_all (\<lambda>pc. pc = CIdle) pcs \<Longrightarrow> sum_list (map pc_owes pcs) = 0" for pcs by (induction pcs) auto
  then show "ic_init s \<Longrightarrow> ic_inv s" by (simp add: ic_init_def ic_inv_def)
qed

interpretation index_cache: invariant_system ic_init ic_step ic_inv
  by unfold_locales (auto intro: ic_inv_init ic_inv_step)

section \<open>Merging of running queries\<close>

datatype answer = Nodes "string list" | QueryFailed

text \<open>A caller that leads a query (about to ask, has the answer, has taken the key out), waits for one, or has its answer.\<close>

datatype fl_pc = FIdle | Lead nodeQueryKey nat | Asked nodeQueryKey nat answer | Gone nodeQueryKey nat answer
  | Waits nodeQueryKey nat | Answered nodeQueryKey nat answer

text \<open>\<open>fl_hist\<close> holds the contents that the online index has had, the present one last.  The times in \<open>fl_since\<close> (of a
  caller's call) and in \<open>fl_start\<close> and \<open>fl_end\<close> (of a query) are for the statements only; no step depends on them.\<close>

record fl_state =
  fl_hist :: "(nodeQueryKey \<Rightarrow> string list) list"
  fl_inflight :: "(nodeQueryKey, nat) gomap"
  fl_next :: nat
  fl_done :: "nat \<Rightarrow> answer option"
  fl_pcs :: "nat \<Rightarrow> fl_pc"
  fl_since :: "nat \<Rightarrow> nat"
  fl_start :: "nat \<Rightarrow> nat"
  fl_end :: "nat \<Rightarrow> nat option"

abbreviation fl_now :: "fl_state \<Rightarrow> nat" where
  "fl_now s \<equiv> length (fl_hist s) - 1"

definition fl_init :: "fl_state \<Rightarrow> bool" where
  "fl_init s \<longleftrightarrow> length (fl_hist s) = 1 \<and> fl_inflight s = [] \<and> fl_pcs s = (\<lambda>_. FIdle) \<and> fl_done s = (\<lambda>_. None) \<and> fl_end s = (\<lambda>_. None)"

definition fl_go :: "nat \<Rightarrow> fl_pc \<Rightarrow> fl_state \<Rightarrow> fl_state" where
  "fl_go i pc s = s\<lparr>fl_pcs := (fl_pcs s)(i := pc)\<rparr>"

inductive fl_step :: "fl_state \<Rightarrow> fl_state \<Rightarrow> bool" where
  change: "fl_step s (s\<lparr>fl_hist := fl_hist s @ [m]\<rparr>)"
| lead: "fl_pcs s i = FIdle \<Longrightarrow> map_of (fl_inflight s) key = None \<Longrightarrow>
    fl_step s (fl_go i (Lead key (fl_next s))
      (s\<lparr>fl_inflight := AList.update key (fl_next s) (fl_inflight s), fl_next := Suc (fl_next s),
         fl_since := (fl_since s)(i := fl_now s), fl_start := (fl_start s)(fl_next s := fl_now s)\<rparr>))"
| join: "fl_pcs s i = FIdle \<Longrightarrow> map_of (fl_inflight s) key = Some call \<Longrightarrow>
    fl_step s (fl_go i (Waits key call) (s\<lparr>fl_since := (fl_since s)(i := fl_now s)\<rparr>))"
| ask: "fl_pcs s i = Lead key call \<Longrightarrow> a \<in> {Nodes (last (fl_hist s) key), QueryFailed} \<Longrightarrow> fl_step s (fl_go i (Asked key call a) s)"
| remove: "fl_pcs s i = Asked key call a \<Longrightarrow>
    fl_step s (fl_go i (Gone key call a)
      (s\<lparr>fl_inflight := AList.delete key (fl_inflight s), fl_end := (fl_end s)(call := Some (fl_now s))\<rparr>))"
| release: "fl_pcs s i = Gone key call a \<Longrightarrow>
    fl_step s (fl_go i (Answered key call a) (s\<lparr>fl_done := (fl_done s)(call := Some a)\<rparr>))"
| wake: "fl_pcs s i = Waits key call \<Longrightarrow> fl_done s call = Some a \<Longrightarrow> fl_step s (fl_go i (Answered key call a) s)"
| leave: "fl_pcs s i = Answered key call a \<Longrightarrow> fl_step s (fl_go i FIdle s)"

text \<open>The answer was the content of the index at some moment of the query.\<close>

definition read_ok :: "fl_state \<Rightarrow> nodeQueryKey \<Rightarrow> nat \<Rightarrow> answer \<Rightarrow> bool" where
  "read_ok s key call a \<longleftrightarrow> a = QueryFailed \<or>
     (\<exists>t. fl_start s call \<le> t \<and> t < length (fl_hist s) \<and> a = Nodes ((fl_hist s ! t) key))"

definition leads :: "fl_state \<Rightarrow> nat \<Rightarrow> nodeQueryKey \<Rightarrow> nat \<Rightarrow> bool" where
  "leads s i key call \<longleftrightarrow> fl_pcs s i = Lead key call \<or> (\<exists>a. fl_pcs s i = Asked key call a) \<or> (\<exists>a. fl_pcs s i = Gone key call a)"

definition still_open :: "fl_state \<Rightarrow> nat \<Rightarrow> nat \<Rightarrow> bool" where
  "still_open s i call \<longleftrightarrow> (\<forall>e. fl_end s call = Some e \<longrightarrow> fl_since s i \<le> e)"

fun fl_pc_ok :: "fl_state \<Rightarrow> nat \<Rightarrow> fl_pc \<Rightarrow> bool" where
  "fl_pc_ok s i FIdle = True"
| "fl_pc_ok s i (Lead key call) = (map_of (fl_inflight s) key = Some call \<and> fl_since s i = fl_start s call \<and> still_open s i call)"
| "fl_pc_ok s i (Asked key call a) =
     (map_of (fl_inflight s) key = Some call \<and> fl_since s i = fl_start s call \<and> still_open s i call \<and> read_ok s key call a)"
| "fl_pc_ok s i (Gone key call a) = (fl_since s i = fl_start s call \<and> still_open s i call \<and> read_ok s key call a \<and> fl_end s call \<noteq> None)"
| "fl_pc_ok s i (Waits key call) = (still_open s i call \<and>
     (case fl_done s call of None \<Rightarrow> \<exists>j. leads s j key call | Some a \<Rightarrow> read_ok s key call a \<and> fl_end s call \<noteq> None))"
| "fl_pc_ok s i (Answered key call a) = (still_open s i call \<and> read_ok s key call a \<and> fl_end s call \<noteq> None)"

fun pc_call :: "fl_pc \<Rightarrow> nat option" where
  "pc_call FIdle = None"
| "pc_call (Lead key call) = Some call"
| "pc_call (Asked key call a) = Some call"
| "pc_call (Gone key call a) = Some call"
| "pc_call (Waits key call) = Some call"
| "pc_call (Answered key call a) = Some call"

definition fl_inv :: "fl_state \<Rightarrow> bool" where
  "fl_inv s \<longleftrightarrow> fl_hist s \<noteq> [] \<and> (\<forall>i. fl_pc_ok s i (fl_pcs s i)) \<and>
     (\<forall>i j key key' call. leads s i key call \<longrightarrow> leads s j key' call \<longrightarrow> i = j) \<and>
     (\<forall>i key call. leads s i key call \<longrightarrow> fl_done s call = None) \<and>
     (\<forall>key call. map_of (fl_inflight s) key = Some call \<longrightarrow>
        fl_end s call = None \<and> (\<exists>i. fl_pcs s i = Lead key call \<or> (\<exists>a. fl_pcs s i = Asked key call a))) \<and>
     (\<forall>call. fl_end s call \<noteq> None \<or> fl_done s call \<noteq> None \<longrightarrow> call < fl_next s) \<and>
     (\<forall>i call. pc_call (fl_pcs s i) = Some call \<longrightarrow> call < fl_next s \<and> fl_since s i \<le> fl_now s)"

lemma read_ok_mono:
  assumes "read_ok s key call a" and "fl_start t call = fl_start s call" and "\<exists>ms. fl_hist t = fl_hist s @ ms"
  shows "read_ok t key call a"
proof -
  from assms(3) obtain ms where h: "fl_hist t = fl_hist s @ ms" by blast
  show ?thesis using assms(1) unfolding read_ok_def assms(2) h by (metis length_append nth_append trans_less_add1)
qed

text \<open>A step keeps what it says of a thread whose query it does not touch.\<close>

lemma pc_ok_frame:
  assumes "fl_pc_ok s i pc" and "fl_since t i = fl_since s i" and "\<exists>ms. fl_hist t = fl_hist s @ ms"
    and "\<And>key call. pc = Lead key call \<or> (\<exists>a. pc = Asked key call a) \<Longrightarrow> map_of (fl_inflight t) key = Some call"
    and "\<And>call. call < fl_next s \<Longrightarrow> fl_start t call = fl_start s call"
    and "\<And>call. pc_call pc = Some call \<Longrightarrow> fl_end t call = fl_end s call \<or> fl_end s call = None \<and> fl_end t call = Some (fl_now s) \<and> fl_since s i \<le> fl_now s"
    and "\<And>key call. pc = Waits key call \<Longrightarrow> fl_done s call = None \<Longrightarrow>
      (fl_done t call = None \<and> (\<exists>j. leads t j key call)) \<or> (\<exists>a. fl_done t call = Some a \<and> read_ok t key call a \<and> fl_end t call \<noteq> None)"
    and "\<And>call a. fl_done s call = Some a \<Longrightarrow> fl_done t call = Some a"
    and "\<And>call. pc_call pc = Some call \<Longrightarrow> call < fl_next s"
  shows "fl_pc_ok t i pc"
proof -
  have o: "still_open t i call" if "still_open s i call" "pc_call pc = Some call" for call
    using that assms(2) assms(6) [OF that(2)] by (auto simp: still_open_def)
  have r: "read_ok t key call a" if "read_ok s key call a" "pc_call pc = Some call" for key call a
    using read_ok_mono [OF that(1) assms(5) [OF assms(9) [OF that(2)]] assms(3)] .
  have e: "fl_end t call \<noteq> None" if "fl_end s call \<noteq> None" "pc_call pc = Some call" for call using assms(6) [OF that(2)] that by auto
  show ?thesis
  proof (cases pc)
    case (Waits key call)
    then have c: "pc_call pc = Some call" by simp
    show ?thesis
    proof (cases "fl_done s call")
      case None
      with assms(7) [OF Waits None] assms(1) o [OF _ c] show ?thesis unfolding Waits by auto
    next
      case (Some a)
      with assms(8) [OF Some] assms(1) o [OF _ c] r [OF _ c] e [OF _ c] show ?thesis unfolding Waits by auto
    qed
  qed (use assms(1,2,4,5,9) o r e in auto)
qed

lemma fl_invD:
  assumes "fl_inv s"
  shows "fl_hist s \<noteq> []" "fl_pc_ok s i (fl_pcs s i)" "leads s i key call \<Longrightarrow> leads s j key' call \<Longrightarrow> i = j"
    "leads s i key call \<Longrightarrow> fl_done s call = None"
    "map_of (fl_inflight s) key = Some call \<Longrightarrow> fl_end s call = None"
    "map_of (fl_inflight s) key = Some call \<Longrightarrow> \<exists>i. fl_pcs s i = Lead key call \<or> (\<exists>a. fl_pcs s i = Asked key call a)"
    "fl_end s call \<noteq> None \<or> fl_done s call \<noteq> None \<Longrightarrow> call < fl_next s"
    "pc_call (fl_pcs s i) = Some call \<Longrightarrow> call < fl_next s" "pc_call (fl_pcs s i) = Some call \<Longrightarrow> fl_since s i \<le> fl_now s"
  using assms unfolding fl_inv_def by blast+

lemma fl_invI:
  assumes "fl_hist s \<noteq> []" and "\<And>i. fl_pc_ok s i (fl_pcs s i)" and "\<And>i j key key' call. leads s i key call \<Longrightarrow> leads s j key' call \<Longrightarrow> i = j"
    and "\<And>i key call. leads s i key call \<Longrightarrow> fl_done s call = None"
    and "\<And>key call. map_of (fl_inflight s) key = Some call \<Longrightarrow>
      fl_end s call = None \<and> (\<exists>i. fl_pcs s i = Lead key call \<or> (\<exists>a. fl_pcs s i = Asked key call a))"
    and "\<And>call. fl_end s call \<noteq> None \<or> fl_done s call \<noteq> None \<Longrightarrow> call < fl_next s"
    and "\<And>i call. pc_call (fl_pcs s i) = Some call \<Longrightarrow> call < fl_next s \<and> fl_since s i \<le> fl_now s"
  shows "fl_inv s"
  unfolding fl_inv_def using assms by blast

lemma leads_go: "leads (fl_go i pc s) j key call \<longleftrightarrow>
    (if j = i then pc = Lead key call \<or> (\<exists>a. pc = Asked key call a) \<or> (\<exists>a. pc = Gone key call a) else leads s j key call)"
  by (auto simp: leads_def fl_go_def)

lemma fl_go_simps [simp]:
  "fl_hist (fl_go i pc s) = fl_hist s" "fl_inflight (fl_go i pc s) = fl_inflight s" "fl_next (fl_go i pc s) = fl_next s"
  "fl_done (fl_go i pc s) = fl_done s" "fl_since (fl_go i pc s) = fl_since s" "fl_start (fl_go i pc s) = fl_start s"
  "fl_end (fl_go i pc s) = fl_end s" "fl_pcs (fl_go i pc s) j = (if j = i then pc else fl_pcs s j)"
  by (simp_all add: fl_go_def)

lemma pc_ok_local:
  "fl_pc_ok (fl_go i pc s) j pc' = fl_pc_ok s j pc'" if "\<And>key call. pc' = Waits key call \<Longrightarrow> fl_done s call = None \<Longrightarrow>
      (\<exists>k. leads (fl_go i pc s) k key call) = (\<exists>k. leads s k key call)"
  using that by (cases pc') (auto simp: still_open_def read_ok_def split: option.splits)

text \<open>A thread that moves on, keeps its query and changes nothing else.\<close>

lemma inv_move:
  assumes inv: "fl_inv s" and pc: "fl_pc_ok s i pc'" and call: "pc_call pc' = None \<or> pc_call pc' = pc_call (fl_pcs s i)"
    and lead: "\<And>key call. leads (fl_go i pc' s) i key call = leads s i key call"
    and infl: "\<And>key call. fl_pcs s i = Lead key call \<or> (\<exists>a. fl_pcs s i = Asked key call a) \<Longrightarrow> pc' = Lead key call \<or> (\<exists>a. pc' = Asked key call a)"
  shows "fl_inv (fl_go i pc' s)"
proof -
  note D = fl_invD [OF inv]
  have l: "leads (fl_go i pc' s) j key call = leads s j key call" for j key call
    using lead [of key call] by (cases "j = i") (simp_all add: leads_go)
  have ok: "fl_pc_ok (fl_go i pc' s) j (fl_pcs (fl_go i pc' s) j)" for j
    using pc D(2) [of j] by (subst pc_ok_local) (auto simp: l)
  have inflight: "\<exists>j. fl_pcs (fl_go i pc' s) j = Lead key call \<or> (\<exists>a. fl_pcs (fl_go i pc' s) j = Asked key call a)"
    if m: "map_of (fl_inflight s) key = Some call" for key call
  proof -
    obtain j where j: "fl_pcs s j = Lead key call \<or> (\<exists>a. fl_pcs s j = Asked key call a)" using D(6) [OF m] by blast
    show ?thesis using j infl [of key call] by (cases "j = i") (auto intro!: exI [of _ j])
  qed
  have calls: "call < fl_next s \<and> fl_since s j \<le> fl_now s" if "pc_call (fl_pcs (fl_go i pc' s) j) = Some call" for j call
    using that D(8,9) [of j call] call by (auto split: if_splits)
  show ?thesis unfolding fl_inv_def l
    using D(1,3,4,5,7) ok inflight calls by (simp del: fl_go_simps(8))
qed

lemma inv_change:
  assumes inv: "fl_inv s"
  shows "fl_inv (s\<lparr>fl_hist := fl_hist s @ [m]\<rparr>)"
proof -
  let ?t = "s\<lparr>fl_hist := fl_hist s @ [m]\<rparr>"
  note D = fl_invD [OF inv]
  have l: "leads ?t j key call = leads s j key call" for j key call by (simp add: leads_def)
  have "fl_pc_ok ?t j (fl_pcs s j)" for j
    by (rule pc_ok_frame [OF D(2)]) (use D(2) [of j] D(8) [of j] l in \<open>auto split: option.splits\<close>)
  then show ?thesis unfolding fl_inv_def l using D by (simp add: le_SucI) (metis D(9) Suc_pred le_SucI length_greater_0_conv)
qed

lemma inv_lead:
  assumes inv: "fl_inv s" and pc: "fl_pcs s i = FIdle" and new: "map_of (fl_inflight s) key = None"
  shows "fl_inv (fl_go i (Lead key (fl_next s))
      (s\<lparr>fl_inflight := AList.update key (fl_next s) (fl_inflight s), fl_next := Suc (fl_next s),
         fl_since := (fl_since s)(i := fl_now s), fl_start := (fl_start s)(fl_next s := fl_now s)\<rparr>))" (is "fl_inv ?t")
proof -
  note D = fl_invD [OF inv]
  have none: "fl_end s (fl_next s) = None" "fl_done s (fl_next s) = None" using D(7) [of "fl_next s"] by (metis less_irrefl)+
  have l: "leads ?t j k c = (if j = i then k = key \<and> c = fl_next s else leads s j k c)" for j k c
    by (auto simp: leads_go) (auto simp: leads_def)
  have lt: "c < fl_next s" if "leads s j k c" for j k c using that D(8) [of j c] by (auto simp: leads_def)
  have idle: "\<not> leads s i k c" for k c using pc by (simp add: leads_def)
  have ok: "fl_pc_ok ?t j (fl_pcs ?t j)" for j
  proof (cases "j = i")
    case True
    then show ?thesis using none by (simp add: gomap_simps still_open_def)
  next
    case False
    have "fl_pc_ok ?t j (fl_pcs s j)"
    proof (rule pc_ok_frame [OF D(2)])
      show "map_of (fl_inflight ?t) k = Some c" if "fl_pcs s j = Lead k c \<or> (\<exists>a. fl_pcs s j = Asked k c a)" for k c
        using that D(2) [of j] new by (auto simp: gomap_simps)
      show "fl_done ?t c = None \<and> (\<exists>j. leads ?t j k c) \<or> (\<exists>a. fl_done ?t c = Some a \<and> read_ok ?t k c a \<and> fl_end ?t c \<noteq> None)"
        if w: "fl_pcs s j = Waits k c" "fl_done s c = None" for k c
      proof -
        obtain j' where "leads s j' k c" using D(2) [of j] w by auto
        then have "leads ?t j' k c" using l [of j' k c] idle by auto
        then show ?thesis using w(2) by auto
      qed
    qed (use False D(8) in auto)
    then show ?thesis using False by simp
  qed
  have infl: "fl_end ?t c = None \<and> (\<exists>j. fl_pcs ?t j = Lead k c \<or> (\<exists>a. fl_pcs ?t j = Asked k c a))"
    if m: "map_of (fl_inflight ?t) k = Some c" for k c
  proof (cases "k = key")
    case True
    then show ?thesis using m none by (auto simp: gomap_simps)
  next
    case False
    then have m': "map_of (fl_inflight s) k = Some c" using m by (simp add: gomap_simps)
    obtain j where j: "fl_pcs s j = Lead k c \<or> (\<exists>a. fl_pcs s j = Asked k c a)" using D(6) [OF m'] by blast
    then have "j \<noteq> i" using pc by auto
    then show ?thesis using j D(5) [OF m'] by (auto intro!: exI [of _ j])
  qed
  have uni: "j = j'" if "leads ?t j k c" "leads ?t j' k' c" for j j' k k' c
    using that D(3) [of j k c j' k'] lt [of j k c] lt [of j' k' c] unfolding l by (auto split: if_splits)
  have dn: "fl_done ?t c = None" if "leads ?t j k c" for j k c
    using that D(4) [of j k c] none unfolding l by (auto split: if_splits)
  have calls: "c < fl_next ?t \<and> fl_since ?t j \<le> fl_now ?t" if "pc_call (fl_pcs ?t j) = Some c" for j c
    using that D(8,9) [of j c] by (auto split: if_splits)
  have old: "c < fl_next ?t" if "fl_end ?t c \<noteq> None \<or> fl_done ?t c \<noteq> None" for c using that D(7) [of c] by simp
  show ?thesis by (rule fl_invI [OF _ ok uni dn infl old calls]) (use D(1) in simp)
qed

lemma inv_join:
  assumes inv: "fl_inv s" and pc: "fl_pcs s i = FIdle" and m: "map_of (fl_inflight s) key = Some call"
  shows "fl_inv (fl_go i (Waits key call) (s\<lparr>fl_since := (fl_since s)(i := fl_now s)\<rparr>))" (is "fl_inv ?t")
proof -
  note D = fl_invD [OF inv]
  obtain k where k: "fl_pcs s k = Lead key call \<or> (\<exists>a. fl_pcs s k = Asked key call a)" using D(6) [OF m] by blast
  then have lk: "leads s k key call" "call < fl_next s" using D(8) [of k call] by (auto simp: leads_def)
  have l: "leads ?t j k' c = leads s j k' c" for j k' c using pc by (auto simp: leads_go) (auto simp: leads_def)
  have ok: "fl_pc_ok ?t j (fl_pcs ?t j)" for j
  proof (cases "j = i")
    case True
    then show ?thesis using lk D(4) [OF lk(1)] D(5) [OF m] l by (auto simp: still_open_def)
  next
    case False
    have "fl_pc_ok ?t j (fl_pcs s j)"
      by (rule pc_ok_frame [OF D(2)]) (use False D(2) [of j] D(8) [of j] l in \<open>auto split: option.splits\<close>)
    then show ?thesis using False by simp
  qed
  have infl: "\<exists>j. fl_pcs ?t j = Lead k c \<or> (\<exists>a. fl_pcs ?t j = Asked k c a)" if m: "map_of (fl_inflight s) k = Some c" for k c
  proof -
    obtain j where j: "fl_pcs s j = Lead k c \<or> (\<exists>a. fl_pcs s j = Asked k c a)" using D(6) [OF m] by blast
    then have "j \<noteq> i" using pc by auto
    then show ?thesis using j by (auto intro!: exI [of _ j])
  qed
  have calls: "c < fl_next s \<and> fl_since ?t j \<le> fl_now s" if "pc_call (fl_pcs ?t j) = Some c" for j c
    using that D(8,9) [of j c] lk(2) by (auto split: if_splits)
  show ?thesis unfolding fl_inv_def l using D(1,3,4,5,7) ok infl calls by (simp del: fl_go_simps(8) fl_pc_ok.simps)
qed

lemma inv_remove:
  assumes inv: "fl_inv s" and pc: "fl_pcs s i = Asked key call a"
  shows "fl_inv (fl_go i (Gone key call a)
      (s\<lparr>fl_inflight := AList.delete key (fl_inflight s), fl_end := (fl_end s)(call := Some (fl_now s))\<rparr>))" (is "fl_inv ?t")
proof -
  note D = fl_invD [OF inv]
  have m: "map_of (fl_inflight s) key = Some call" and li: "leads s i key call" and lt: "call < fl_next s" "fl_since s i \<le> fl_now s"
    using D(2) [of i] pc D(8,9) [of i call] by (auto simp: leads_def)
  have l: "leads ?t j k c = leads s j k c" for j k c using pc by (auto simp: leads_go) (auto simp: leads_def)
  have ok: "fl_pc_ok ?t j (fl_pcs ?t j)" for j
  proof (cases "j = i")
    case True
    then show ?thesis using D(2) [of i] pc lt by (auto simp: still_open_def read_ok_def)
  next
    case False
    have "fl_pc_ok ?t j (fl_pcs s j)"
    proof (rule pc_ok_frame [OF D(2)])
      show "map_of (fl_inflight ?t) k = Some c" if b: "fl_pcs s j = Lead k c \<or> (\<exists>a. fl_pcs s j = Asked k c a)" for k c
      proof -
        have "leads s j k c" using b by (auto simp: leads_def)
        moreover have mk: "map_of (fl_inflight s) k = Some c" using b D(2) [of j] by auto
        ultimately have "k \<noteq> key" using m D(3) [of j k c i key] li False by auto
        then show ?thesis using mk by (simp add: gomap_simps)
      qed
      show "fl_end ?t c = fl_end s c \<or> fl_end s c = None \<and> fl_end ?t c = Some (fl_now s) \<and> fl_since s j \<le> fl_now s"
        if "pc_call (fl_pcs s j) = Some c" for c
        using D(5) [OF m] D(9) [OF that] by simp
    qed (use False D(2) [of j] D(8) [of j] l in \<open>auto split: option.splits\<close>)
    then show ?thesis using False by simp
  qed
  have infl: "fl_end ?t c = None \<and> (\<exists>j. fl_pcs ?t j = Lead k c \<or> (\<exists>a. fl_pcs ?t j = Asked k c a))"
    if mt: "map_of (fl_inflight ?t) k = Some c" for k c
  proof -
    have mk: "map_of (fl_inflight s) k = Some c" "k \<noteq> key" using mt by (auto simp: gomap_simps split: if_splits)
    obtain j where j: "fl_pcs s j = Lead k c \<or> (\<exists>a. fl_pcs s j = Asked k c a)" using D(6) [OF mk(1)] by blast
    then have ji: "j \<noteq> i" using pc mk(2) by auto
    have "leads s j k c" using j by (auto simp: leads_def)
    then have "c \<noteq> call" using D(3) [of j k c i key] li ji by auto
    then show ?thesis using j ji D(5) [OF mk(1)] by (auto intro!: exI [of _ j])
  qed
  have calls: "c < fl_next ?t \<and> fl_since ?t j \<le> fl_now ?t" if "pc_call (fl_pcs ?t j) = Some c" for j c
    using that D(8,9) [of j c] lt by (auto split: if_splits)
  have old: "c < fl_next ?t" if "fl_end ?t c \<noteq> None \<or> fl_done ?t c \<noteq> None" for c
    using that D(7) [of c] lt by (auto split: if_splits)
  show ?thesis
    by (rule fl_invI [OF _ ok _ _ infl old calls]) (use D(1,3,4) l in auto)
qed

lemma inv_release:
  assumes inv: "fl_inv s" and pc: "fl_pcs s i = Gone key call a"
  shows "fl_inv (fl_go i (Answered key call a) (s\<lparr>fl_done := (fl_done s)(call := Some a)\<rparr>))" (is "fl_inv ?t")
proof -
  note D = fl_invD [OF inv]
  have li: "leads s i key call" and g: "still_open s i call" "read_ok s key call a" "fl_end s call \<noteq> None" and lt: "call < fl_next s" "fl_since s i \<le> fl_now s"
    using D(2) [of i] pc D(8,9) [of i call] by (auto simp: leads_def)
  have l: "leads ?t j k c \<longleftrightarrow> j \<noteq> i \<and> leads s j k c" for j k c by (auto simp: leads_go) (auto simp: leads_def)
  have ok: "fl_pc_ok ?t j (fl_pcs ?t j)" for j
  proof (cases "j = i")
    case True
    then show ?thesis using g by (simp add: still_open_def read_ok_def)
  next
    case False
    have "fl_pc_ok ?t j (fl_pcs s j)"
    proof (rule pc_ok_frame [OF D(2)])
      show "fl_done ?t c = None \<and> (\<exists>j. leads ?t j k c) \<or> (\<exists>a. fl_done ?t c = Some a \<and> read_ok ?t k c a \<and> fl_end ?t c \<noteq> None)"
        if w: "fl_pcs s j = Waits k c" "fl_done s c = None" for k c
      proof -
        obtain j' where j': "leads s j' k c" using D(2) [of j] w by auto
        show ?thesis
        proof (cases "c = call")
          case True
          then have "j' = i" using D(3) [OF j'] li by simp
          then have "k = key" using j' pc by (simp add: leads_def)
          then show ?thesis using True g by (simp add: read_ok_def)
        next
          case False
          then have "j' \<noteq> i" using j' pc by (auto simp: leads_def)
          then show ?thesis using False j' w(2) l by auto
        qed
      qed
      show "fl_done ?t c = Some b" if "fl_done s c = Some b" for c b
        using that D(4) [OF li] by auto
    qed (use False D(2) [of j] D(8) [of j] in auto)
    then show ?thesis using False by simp
  qed
  have infl: "fl_end ?t c = None \<and> (\<exists>j. fl_pcs ?t j = Lead k c \<or> (\<exists>a. fl_pcs ?t j = Asked k c a))"
    if mk: "map_of (fl_inflight ?t) k = Some c" for k c
  proof -
    have m: "map_of (fl_inflight s) k = Some c" using mk by simp
    obtain j where j: "fl_pcs s j = Lead k c \<or> (\<exists>a. fl_pcs s j = Asked k c a)" using D(6) [OF m] by blast
    then have "j \<noteq> i" using pc by auto
    then show ?thesis using j D(5) [OF m] by (auto intro!: exI [of _ j])
  qed
  have calls: "c < fl_next ?t \<and> fl_since ?t j \<le> fl_now ?t" if "pc_call (fl_pcs ?t j) = Some c" for j c
    using that D(8,9) [of j c] lt by (auto split: if_splits)
  have old: "c < fl_next ?t" if "fl_end ?t c \<noteq> None \<or> fl_done ?t c \<noteq> None" for c
    using that D(7) [of c] lt by (auto split: if_splits)
  have dn: "fl_done ?t c = None" if "leads ?t j k c" for j k c
    using that D(3) [of j k c i key] D(4) [of j k c] li unfolding l by auto
  show ?thesis by (rule fl_invI [OF _ ok _ dn infl old calls]) (use D(1,3) l in auto)
qed

lemma fl_inv_step:
  assumes inv: "fl_inv s" and "fl_step s t"
  shows "fl_inv t"
  using assms(2)
proof cases
  case (change m)
  then show ?thesis using inv_change [OF inv] by simp
next
  case (lead i key)
  then show ?thesis using inv_lead [OF inv] by simp
next
  case (join i key call)
  then show ?thesis using inv_join [OF inv] by simp
next
  case (ask i key call a)
  have "read_ok s key call a"
    using ask(3) fl_invD(1) [OF inv] fl_invD(2) [OF inv, of i] fl_invD(9) [OF inv, of i call] ask(2)
    by (auto simp: read_ok_def last_conv_nth intro!: exI [of _ "fl_now s"])
  then show ?thesis unfolding ask(1)
    by (intro inv_move [OF inv]) (use fl_invD(2) [OF inv, of i] ask(2) in \<open>auto simp: leads_go leads_def\<close>)
next
  case (remove i key call a)
  then show ?thesis using inv_remove [OF inv] by simp
next
  case (release i key call a)
  then show ?thesis using inv_release [OF inv] by simp
next
  case (wake i key call a)
  then show ?thesis unfolding wake(1)
    by (intro inv_move [OF inv]) (use fl_invD(2) [OF inv, of i] wake in \<open>auto simp: leads_go leads_def\<close>)
next
  case (leave i key call a)
  then show ?thesis unfolding leave(1)
    by (intro inv_move [OF inv]) (auto simp: leads_go leads_def)
qed

lemma fl_inv_init: "fl_init s \<Longrightarrow> fl_inv s"
  by (rule fl_invI) (auto simp: fl_init_def leads_def)

interpretation flight: invariant_system fl_init fl_step fl_inv
  by unfold_locales (auto intro: fl_inv_init fl_inv_step)

section \<open>The list of nodes\<close>

definition nodeRegistryTTL :: int where "nodeRegistryTTL = 90"

record NodeRegistry =
  nr_localNodeID :: string
  nr_grpcAddr :: string
  nr_nodes :: "(string, string) gomap"

definition NewNodeRegistry :: "string \<Rightarrow> string \<Rightarrow> NodeRegistry" where
  "NewNodeRegistry nodeID grpcAddr = \<lparr>nr_localNodeID = nodeID, nr_grpcAddr = grpcAddr, nr_nodes = []\<rparr>"

definition SetNodeAddr :: "string \<Rightarrow> string \<Rightarrow> NodeRegistry \<Rightarrow> NodeRegistry" where
  "SetNodeAddr nodeID addr r = r\<lparr>nr_nodes := AList.update nodeID addr (nr_nodes r)\<rparr>"

definition GetNodeAddr :: "string \<Rightarrow> NodeRegistry \<Rightarrow> string option" where
  "GetNodeAddr nodeID r = (if nodeID = nr_localNodeID r then Some (nr_grpcAddr r) else map_of (nr_nodes r) nodeID)"

definition GetAllNodes :: "NodeRegistry \<Rightarrow> (string, string) gomap" where
  "GetAllNodes r = filter (\<lambda>(nodeID, _). nodeID \<noteq> nr_localNodeID r) (nr_nodes r)"

text \<open>Is the heartbeat of a node missing or too old?  \<open>Sscanf\<close> leaves 0 for what is not a number.\<close>

definition node_stale :: "int \<Rightarrow> (string, int option) gomap \<Rightarrow> string \<Rightarrow> bool" where
  "node_stale now heartbeats nodeID =
     (case map_of heartbeats nodeID of
        None \<Rightarrow> True
      | Some h \<Rightarrow> now - (case h of None \<Rightarrow> 0 | Some t \<Rightarrow> t) > nodeRegistryTTL)"

text \<open>One turn of the second loop; the accumulator holds the cache, the evictions announced and the expired nodes.\<close>

definition refresh_node :: "int \<Rightarrow> (string, int option) gomap \<Rightarrow> string \<times> string
    \<Rightarrow> (string, string) gomap \<times> (string \<times> string) list \<times> string list \<Rightarrow> (string, string) gomap \<times> (string \<times> string) list \<times> string list" where
  "refresh_node now heartbeats entry acc =
     (case (entry, acc) of ((nodeID, addr), (nodes, evicted, gone)) \<Rightarrow>
        if node_stale now heartbeats nodeID
        then (AList.delete nodeID nodes, evicted @ [(nodeID, addr)], gone @ [nodeID])
        else (AList.update nodeID addr nodes,
              (case map_of nodes nodeID of
                 Some old \<Rightarrow> if old \<noteq> [] \<and> old \<noteq> addr then evicted @ [(nodeID, old)] else evicted
               | None \<Rightarrow> evicted),
              gone))"

definition refreshNodes :: "int \<Rightarrow> (string, string) gomap \<Rightarrow> (string, int option) gomap \<Rightarrow> NodeRegistry
    \<Rightarrow> NodeRegistry \<times> (string \<times> string) list \<times> string list" where
  "refreshNodes now addrs heartbeats r =
     (let left = filter (\<lambda>(nodeID, _). map_of addrs nodeID = None) (nr_nodes r);
          kept = filter (\<lambda>(nodeID, _). map_of addrs nodeID \<noteq> None) (nr_nodes r)
      in case fold (refresh_node now heartbeats) addrs (kept, left, []) of
           (nodes, evicted, gone) \<Rightarrow> (r\<lparr>nr_nodes := nodes\<rparr>, evicted, gone))"

lemma refresh_fold:
  assumes "gm_wf addrs" and "fold (refresh_node now hb) addrs (nodes, evicted, gone) = (nodes', evicted', gone')"
  shows "map_of nodes' k = (case map_of addrs k of None \<Rightarrow> map_of nodes k | Some a \<Rightarrow> if node_stale now hb k then None else Some a) \<and>
    gone' = gone @ filter (node_stale now hb) (map fst addrs) \<and>
    (\<forall>e. e \<in> set evicted' \<longleftrightarrow> e \<in> set evicted \<or> (\<exists>a. map_of addrs (fst e) = Some a \<and>
        (if node_stale now hb (fst e) then snd e = a else map_of nodes (fst e) = Some (snd e) \<and> snd e \<noteq> [] \<and> snd e \<noteq> a)))"
  using assms
proof (induction addrs arbitrary: nodes evicted gone)
  case Nil
  then show ?case by simp
next
  case (Cons entry addrs)
  obtain k0 a0 where e: "entry = (k0, a0)" by force
  obtain n1 ev1 g1 where one: "refresh_node now hb entry (nodes, evicted, gone) = (n1, ev1, g1)" by (metis prod_cases3)
  have fresh: "map_of addrs k0 = None" using Cons.prems(1) e by (simp add: map_of_eq_None_iff)
  have rest: "fold (refresh_node now hb) addrs (n1, ev1, g1) = (nodes', evicted', gone')" using Cons.prems(2) one by simp
  have wf: "gm_wf addrs" using Cons.prems(1) by simp
  note IH = Cons.IH [OF wf rest]
  have n1: "map_of n1 k = (if k = k0 then (if node_stale now hb k0 then None else Some a0) else map_of nodes k)" for k
    using one e by (auto simp: refresh_node_def gomap_simps split: if_splits)
  have g1: "g1 = gone @ (if node_stale now hb k0 then [k0] else [])" using one e by (auto simp: refresh_node_def split: if_splits)
  have ev1: "set ev1 = set evicted \<union> (if node_stale now hb k0 then {(k0, a0)} else {(k0, old) |old. map_of nodes k0 = Some old \<and> old \<noteq> [] \<and> old \<noteq> a0})"
    using one e by (auto simp: refresh_node_def split: if_splits option.splits)
  have "x \<in> set evicted' \<longleftrightarrow> x \<in> set evicted \<or> (\<exists>a. map_of (entry # addrs) (fst x) = Some a \<and>
      (if node_stale now hb (fst x) then snd x = a else map_of nodes (fst x) = Some (snd x) \<and> snd x \<noteq> [] \<and> snd x \<noteq> a))" for x
  proof (cases "fst x = k0")
    case True
    then have "x \<in> set evicted' \<longleftrightarrow> x \<in> set ev1" using spec [OF conjunct2 [OF conjunct2 [OF IH]], of x] fresh by simp
    then show ?thesis using True ev1 e by (cases x) (auto split: if_splits)
  next
    case False
    then have "x \<in> set ev1 \<longleftrightarrow> x \<in> set evicted" using ev1 by (cases x) (auto split: if_splits)
    then show ?thesis using False spec [OF conjunct2 [OF conjunct2 [OF IH]], of x] n1 e by simp
  qed
  moreover have "map_of nodes' k = (case map_of (entry # addrs) k of None \<Rightarrow> map_of nodes k | Some a \<Rightarrow> if node_stale now hb k then None else Some a)"
    using IH n1 fresh e by (auto split: option.splits)
  moreover have "gone' = gone @ filter (node_stale now hb) (map fst (entry # addrs))" using IH g1 e by simp
  ultimately show ?case by blast
qed

lemma map_of_kept: "map_of (filter (\<lambda>(k, _). P k) m) k = (if P k then map_of m k else None)"
  by (induction m) auto

section \<open>Properties\<close>

text \<open>Every answer of a merged query is good.  Under every interleaving of callers, of the queries that lead and of
  changes of the online index: an answer was the content of the index at a moment after its query began, and that
  query was still in the map of running queries when the caller asked; a caller that waits has a query that is
  running or has been released; and no key stays in the map without a query that runs.\<close>

theorem flight_answers:
  assumes "reach fl_init fl_step s"
  shows "(\<forall>i key call v. fl_pcs s i = Answered key call (Nodes v) \<longrightarrow>
      (\<exists>t e. fl_start s call \<le> t \<and> t < length (fl_hist s) \<and> v = (fl_hist s ! t) key \<and> fl_end s call = Some e \<and> fl_since s i \<le> e)) \<and>
    (\<forall>i key call. fl_pcs s i = Waits key call \<longrightarrow> fl_done s call \<noteq> None \<or> (\<exists>j. leads s j key call)) \<and>
    (\<forall>key call. map_of (fl_inflight s) key = Some call \<longrightarrow> (\<exists>j. leads s j key call))"
proof -
  note D = fl_invD [OF flight.reach_inv [OF assms]]
  have "\<exists>t e. fl_start s call \<le> t \<and> t < length (fl_hist s) \<and> v = (fl_hist s ! t) key \<and> fl_end s call = Some e \<and> fl_since s i \<le> e"
    if "fl_pcs s i = Answered key call (Nodes v)" for i key call v
    using D(2) [of i] that by (auto simp: read_ok_def still_open_def)
  moreover have "fl_done s call \<noteq> None \<or> (\<exists>j. leads s j key call)" if "fl_pcs s i = Waits key call" for i key call
    using D(2) [of i] that by (auto split: option.splits)
  moreover have "\<exists>j. leads s j key call" if "map_of (fl_inflight s) key = Some call" for key call
    using D(6) [OF that] by (auto simp: leads_def)
  ultimately show ?thesis by blast
qed

text \<open>A run: one caller asks; the index changes; a second caller joins and gets the answer of the first.\<close>

definition key0 :: nodeQueryKey where "key0 = \<lparr>nk_appID = ''a'', nk_namespace = [], nk_userID = ''u''\<rparr>"

definition stale0 :: fl_state where
  "stale0 = \<lparr>fl_hist = [\<lambda>_. []], fl_inflight = [], fl_next = 0, fl_done = \<lambda>_. None, fl_pcs = \<lambda>_. FIdle, fl_since = \<lambda>_. 0, fl_start = \<lambda>_. 0, fl_end = \<lambda>_. None\<rparr>"

definition stale_end :: fl_state where
  "stale_end = \<lparr>fl_hist = [\<lambda>_. [], \<lambda>_. [''n1'']], fl_inflight = [], fl_next = 1, fl_done = (\<lambda>_. None)(0 := Some (Nodes [])),
     fl_pcs = (\<lambda>_. FIdle)(0 := Answered key0 0 (Nodes []), 1 := Answered key0 0 (Nodes [])), fl_since = (\<lambda>_. 0)(1 := 1), fl_start = \<lambda>_. 0,
     fl_end = (\<lambda>_. None)(0 := Some 1)\<rparr>"

lemma stale_run: "reach fl_init fl_step stale_end"
proof -
  define s1 where "s1 = stale0\<lparr>fl_inflight := [(key0, 0)], fl_next := 1, fl_pcs := (\<lambda>_. FIdle)(0 := Lead key0 0)\<rparr>"
  define s2 where "s2 = s1\<lparr>fl_pcs := (\<lambda>_. FIdle)(0 := Asked key0 0 (Nodes []))\<rparr>"
  define s3 where "s3 = s2\<lparr>fl_hist := [\<lambda>_. [], \<lambda>_. [''n1'']]\<rparr>"
  define s4 where "s4 = s3\<lparr>fl_pcs := (\<lambda>_. FIdle)(0 := Asked key0 0 (Nodes []), 1 := Waits key0 0), fl_since := (\<lambda>_. 0)(1 := 1)\<rparr>"
  define s5 where "s5 = s4\<lparr>fl_inflight := [], fl_pcs := (\<lambda>_. FIdle)(0 := Gone key0 0 (Nodes []), 1 := Waits key0 0), fl_end := (\<lambda>_. None)(0 := Some 1)\<rparr>"
  define s6 where "s6 = s5\<lparr>fl_done := (\<lambda>_. None)(0 := Some (Nodes [])), fl_pcs := (\<lambda>_. FIdle)(0 := Answered key0 0 (Nodes []), 1 := Waits key0 0)\<rparr>"
  note defs = s1_def s2_def s3_def s4_def s5_def s6_def stale0_def stale_end_def fl_go_def fun_eq_iff
  have "reach fl_init fl_step stale0" by (rule reach_init) (simp add: fl_init_def stale0_def)
  moreover have "fl_step stale0 s1" by (rule back_subst [of "fl_step stale0", OF fl_step.lead [of stale0 0 key0]]) (auto simp: defs)
  moreover have "fl_step s1 s2" by (rule back_subst [of "fl_step s1", OF fl_step.ask [of s1 0 key0 0 "Nodes []"]]) (auto simp: defs)
  moreover have "fl_step s2 s3" by (rule back_subst [of "fl_step s2", OF fl_step.change [of s2 "\<lambda>_. [''n1'']"]]) (auto simp: defs)
  moreover have "fl_step s3 s4" by (rule back_subst [of "fl_step s3", OF fl_step.join [of s3 1 key0 0]]) (auto simp: defs)
  moreover have "fl_step s4 s5" by (rule back_subst [of "fl_step s4", OF fl_step.remove [of s4 0 key0 0 "Nodes []"]]) (auto simp: defs)
  moreover have "fl_step s5 s6" by (rule back_subst [of "fl_step s5", OF fl_step.release [of s5 0 key0 0 "Nodes []"]]) (auto simp: defs)
  moreover have "fl_step s6 stale_end" by (rule back_subst [of "fl_step s6", OF fl_step.wake [of s6 1 key0 0 "Nodes []"]]) (auto simp: defs)
  ultimately show ?thesis by (meson reach_step)
qed

lemma flight_answers_witness: "\<exists>t e. t < 2 \<and> [] = (fl_hist stale_end ! t) key0 \<and> fl_end stale_end 0 = Some e \<and> 1 \<le> e"
proof -
  have "fl_pcs stale_end 1 = Answered key0 0 (Nodes [])" by (simp add: stale_end_def)
  with conjunct1 [OF flight_answers [OF stale_run]] have
    "\<exists>t e. fl_start stale_end 0 \<le> t \<and> t < length (fl_hist stale_end) \<and> [] = (fl_hist stale_end ! t) key0 \<and> fl_end stale_end 0 = Some e \<and> fl_since stale_end 1 \<le> e"
    by blast
  then show ?thesis by (simp add: stale_end_def numeral_2_eq_2)
qed

text \<open>Merging is not the same as asking again.  A caller that asks after the user has come online can get the answer
  that nobody is there: the query it joined had read the index before.\<close>

theorem flight_stale:
  "\<exists>s i key call v. reach fl_init fl_step s \<and> fl_pcs s i = Answered key call (Nodes v) \<and>
     (\<forall>t. fl_since s i \<le> t \<longrightarrow> t < length (fl_hist s) \<longrightarrow> (fl_hist s ! t) key \<noteq> v)"
proof -
  have "(fl_hist stale_end ! t) key0 \<noteq> []" if "fl_since stale_end 1 \<le> t" "t < length (fl_hist stale_end)" for t
    using that by (cases t) (auto simp: stale_end_def)
  moreover have "fl_pcs stale_end 1 = Answered key0 0 (Nodes [])" by (simp add: stale_end_def)
  ultimately show ?thesis using stale_run by blast
qed

text \<open>The counter of the cache keeps its promise under every interleaving of its callers: together with what the callers
  still owe it, it is the number of entries; when nobody is inside, it is exact.\<close>

theorem index_cache_counted:
  assumes "reach ic_init ic_step s"
  shows "nc_size (ic_cache s) + sum_list (map pc_owes (ic_threads s)) = int (length (nc_entries (ic_cache s))) \<and>
    (list_all (\<lambda>pc. pc = CIdle) (ic_threads s) \<longrightarrow> nc_size (ic_cache s) = int (length (nc_entries (ic_cache s))))"
proof -
  have i: "ic_inv s" using index_cache.reach_inv [OF assms] .
  have "list_all (\<lambda>pc. pc = CIdle) pcs \<Longrightarrow> sum_list (map pc_owes pcs) = 0" for pcs by (induction pcs) auto
  with i show ?thesis by (auto simp: ic_inv_def)
qed

definition key1 :: nodeQueryKey where "key1 = \<lparr>nk_appID = ''a'', nk_namespace = [], nk_userID = ''v''\<rparr>"

definition node_entry :: "nat \<Rightarrow> nat \<times> nodeIndexEntry" where "node_entry i = (i, \<lparr>ne_nodes = [], ne_expireAt = 5\<rparr>)"

definition small_cache :: "(nodeQueryKey, nat \<times> nodeIndexEntry) gomap \<Rightarrow> int \<Rightarrow> nat \<Rightarrow> nodeIndexCache" where
  "small_cache m n i = \<lparr>nc_entries = m, nc_size = n, nc_ttl = 5, nc_max = 1, nc_next = i\<rparr>"

definition over_end :: ic_state where
  "over_end = \<lparr>ic_cache = small_cache [(key0, node_entry 0), (key1, node_entry 2)] 2 3, ic_threads = [CIdle, CIdle], ic_now = 0\<rparr>"

lemma key01: "key0 \<noteq> key1" by (simp add: key0_def key1_def)

lemma over_run: "reach ic_init ic_step over_end"
proof -
  define st where "st = (\<lambda>m n i pcs. \<lparr>ic_cache = small_cache m n i, ic_threads = pcs, ic_now = 0\<rparr>)"
  let ?e = node_entry and ?m0 = "[(key0, node_entry 0)]"
  note defs = st_def small_cache_def node_entry_def ic_go_def swap_entry_def new_entry_def cache_capacity_def compare_and_delete_def key01 key01 [symmetric]
  have "reach ic_init ic_step (st [] 0 0 [CIdle, CIdle])" by (rule reach_init) (simp add: ic_init_def defs)
  moreover have "ic_step (st [] 0 0 [CIdle, CIdle]) (st ?m0 0 1 [Inserted key0 (?e 0), CIdle])"
    using ic_step.insert [of 0 "st [] 0 0 [CIdle, CIdle]" "?e 0" "[]" key0] by (simp add: defs)
  moreover have "ic_step (st ?m0 0 1 [Inserted key0 (?e 0), CIdle]) (st ?m0 1 1 [CIdle, CIdle])"
    using ic_step.fits [of 0 "st ?m0 0 1 [Inserted key0 (?e 0), CIdle]" key0 "?e 0"] by (simp add: defs)
  moreover have "ic_step (st ?m0 1 1 [CIdle, CIdle]) (st (?m0 @ [(key1, ?e 1)]) 1 2 [Inserted key1 (?e 1), CIdle])"
    using ic_step.insert [of 0 "st ?m0 1 1 [CIdle, CIdle]" "?e 1" "[]" key1] by (simp add: defs numeral_2_eq_2)
  moreover have "ic_step (st (?m0 @ [(key1, ?e 1)]) 1 2 [Inserted key1 (?e 1), CIdle]) (st (?m0 @ [(key1, ?e 1)]) 2 2 [Sweeping key1 (?e 1), CIdle])"
    using ic_step.above [of 0 "st (?m0 @ [(key1, ?e 1)]) 1 2 [Inserted key1 (?e 1), CIdle]" key1 "?e 1"] by (simp add: defs)
  moreover have "ic_step (st (?m0 @ [(key1, ?e 1)]) 2 2 [Sweeping key1 (?e 1), CIdle]) (st (?m0 @ [(key1, ?e 1)]) 2 2 [RollBack key1 (?e 1), CIdle])"
    using ic_step.still_above [of 0 "st (?m0 @ [(key1, ?e 1)]) 2 2 [Sweeping key1 (?e 1), CIdle]" key1 "?e 1"] by (simp add: defs)
  moreover have "ic_step (st (?m0 @ [(key1, ?e 1)]) 2 2 [RollBack key1 (?e 1), CIdle]) (st (?m0 @ [(key1, ?e 2)]) 2 3 [RollBack key1 (?e 1), CIdle])"
    using ic_step.overwrite [of 1 "st (?m0 @ [(key1, ?e 1)]) 2 2 [RollBack key1 (?e 1), CIdle]" key1 "[]"] by (simp add: defs numeral_3_eq_3)
  moreover have "ic_step (st (?m0 @ [(key1, ?e 2)]) 2 3 [RollBack key1 (?e 1), CIdle]) over_end"
    using ic_step.taken_over [of 0 "st (?m0 @ [(key1, ?e 2)]) 2 3 [RollBack key1 (?e 1), CIdle]" key1 "?e 1"] by (simp add: defs over_end_def)
  ultimately show ?thesis by (meson reach_step)
qed

lemma index_cache_counted_witness: "nc_size (ic_cache over_end) = 2"
  using index_cache_counted [OF over_run] by (simp add: over_end_def small_cache_def)

text \<open>The capacity is not a bound.  An insertion above the capacity is rolled back only when its own entry is still
  there; when another caller stores the same key in between, nobody rolls back and the cache stays above its
  capacity with nobody inside.\<close>

theorem index_cache_overrun:
  "\<exists>s. reach ic_init ic_step s \<and> list_all (\<lambda>pc. pc = CIdle) (ic_threads s) \<and>
     int (length (nc_entries (ic_cache s))) > cache_capacity (ic_cache s)"
  using over_run by (intro exI [of _ over_end]) (simp add: over_end_def small_cache_def cache_capacity_def)

text \<open>Run alone, the cache stays within its capacity, counts its entries exactly, answers only what was stored last under
  a key and only until it expires, and a store never makes another key answer something new.\<close>

theorem index_cache_alone:
  assumes "cache_inv c" and "int (length (nc_entries c)) \<le> cache_capacity c"
  shows "cache_inv (cache_store now key nodes c) \<and> int (length (nc_entries (cache_store now key nodes c))) \<le> cache_capacity c \<and>
    cache_inv (snd (cache_load now' key' c)) \<and>
    fst (cache_load now' key' (cache_store now key nodes c)) \<in>
      (if key' = key
       then {None} \<union> (if now' \<le> now + (if nc_ttl c \<le> 0 then nodeIndexCacheDefaultTTL else nc_ttl c) then {Some nodes} else {})
       else {None, fst (cache_load now' key' c)})"
proof -
  note F = cache_store_facts(1-4) [OF assms, of now key nodes] cache_store_facts(5) [OF assms, of key' key now nodes]
  have "cache_inv (snd (cache_load now' key' c))"
    using drop_entry_inv [OF assms(1)] assms(1) by (auto simp: cache_load_def split: option.splits)
  moreover have "fst (cache_load now' key' d) = (case map_of (nc_entries d) key' of None \<Rightarrow> None
      | Some v \<Rightarrow> if now' > ne_expireAt (snd v) then None else Some (ne_nodes (snd v)))" for d
    by (auto simp: cache_load_def split: option.splits)
  ultimately show ?thesis using F by (cases "key' = key") (auto simp: new_entry_def split: option.splits)
qed

lemma index_cache_alone_witness:
  "fst (cache_load 0 key0 (cache_store 0 key0 [''n1''] (small_cache [] 0 0))) \<in> {None, Some [''n1'']}"
proof -
  have "cache_inv (small_cache [] 0 0)" "int (length (nc_entries (small_cache [] 0 0))) \<le> cache_capacity (small_cache [] 0 0)"
    by (simp_all add: small_cache_def cache_inv_def cache_capacity_def)
  from index_cache_alone [OF this, of 0 key0 "[''n1'']" 0 key0] show ?thesis by (auto split: if_splits)
qed

text \<open>A refresh makes the list of nodes that of Redis: afterwards a node is known exactly when Redis has an address for it
  and its heartbeat is at most 90 seconds old, under the address Redis has; the entries removed from Redis are
  exactly those whose heartbeat is older or missing; and what is announced for closing are the nodes that have left
  (with their old address), the stale ones (with the address in Redis) and the old addresses of nodes that moved.\<close>

theorem refresh_exact:
  assumes "gm_wf addrs" and "gm_wf (nr_nodes r)" and "refreshNodes now addrs heartbeats r = (r', evicted, gone)"
  shows "(\<forall>nodeID. map_of (nr_nodes r') nodeID = (if node_stale now heartbeats nodeID then None else map_of addrs nodeID)) \<and>
    gone = filter (node_stale now heartbeats) (map fst addrs) \<and>
    set evicted = {(nodeID, addr). map_of addrs nodeID = None \<and> map_of (nr_nodes r) nodeID = Some addr} \<union>
      {(nodeID, addr). map_of addrs nodeID = Some addr \<and> node_stale now heartbeats nodeID} \<union>
      {(nodeID, old). \<exists>addr. map_of addrs nodeID = Some addr \<and> \<not> node_stale now heartbeats nodeID \<and>
         map_of (nr_nodes r) nodeID = Some old \<and> old \<noteq> [] \<and> old \<noteq> addr}"
proof -
  let ?left = "filter (\<lambda>(nodeID, _). map_of addrs nodeID = None) (nr_nodes r)"
  let ?kept = "filter (\<lambda>(nodeID, _). map_of addrs nodeID \<noteq> None) (nr_nodes r)"
  obtain nodes where run: "fold (refresh_node now heartbeats) addrs (?kept, ?left, []) = (nodes, evicted, gone)" and r': "nr_nodes r' = nodes"
    using assms(3) by (auto simp: refreshNodes_def Let_def split: prod.splits)
  note F = refresh_fold [OF assms(1) run]
  have kept: "map_of ?kept k = (if map_of addrs k \<noteq> None then map_of (nr_nodes r) k else None)" for k
    using map_of_kept [of "\<lambda>k. map_of addrs k \<noteq> None" "nr_nodes r" k] by simp
  have left: "(k, a) \<in> set ?left \<longleftrightarrow> map_of addrs k = None \<and> map_of (nr_nodes r) k = Some a" for k a
    using assms(2) by (auto simp: map_of_is_SomeI dest: map_of_SomeD)
  have "map_of nodes k = (if node_stale now heartbeats k then None else map_of addrs k)" for k
    using conjunct1 [OF F, of k] kept [of k] by (auto split: option.splits)
  moreover have "gone = filter (node_stale now heartbeats) (map fst addrs)" using F by simp
  moreover have "(k, a) \<in> set evicted \<longleftrightarrow> map_of addrs k = None \<and> map_of (nr_nodes r) k = Some a \<or>
      map_of addrs k = Some a \<and> node_stale now heartbeats k \<or>
      (\<exists>addr. map_of addrs k = Some addr \<and> \<not> node_stale now heartbeats k \<and> map_of (nr_nodes r) k = Some a \<and> a \<noteq> [] \<and> a \<noteq> addr)" for k a
    using spec [OF conjunct2 [OF conjunct2 [OF F]], of "(k, a)"] left [of k a] kept [of k] by (auto split: if_splits)
  ultimately show ?thesis unfolding r' by auto
qed

lemma refresh_exact_witness:
  "map_of (nr_nodes (fst (refreshNodes 100 [(''n1'', ''a:1''), (''n2'', ''b:1'')] [(''n1'', Some 50)] (NewNodeRegistry ''n0'' ''z:1'')))) ''n1'' = Some ''a:1''"
proof -
  let ?a = "[(''n1'', ''a:1''), (''n2'', ''b:1'')]" and ?h = "[(''n1'', Some 50)] :: (string, int option) gomap" and ?r = "NewNodeRegistry ''n0'' ''z:1''"
  obtain r' ev g where run: "refreshNodes 100 ?a ?h ?r = (r', ev, g)" by (metis prod_cases3)
  have wf: "gm_wf ?a" "gm_wf (nr_nodes ?r)" by (simp_all add: NewNodeRegistry_def)
  have "\<not> node_stale 100 ?h ''n1''" by (simp add: node_stale_def nodeRegistryTTL_def)
  with spec [OF conjunct1 [OF refresh_exact [OF wf run]], of "''n1''"] run show ?thesis by simp
qed

end
