(* ===== verification/Cluster.thy ===== *)
theory Cluster
  imports Broadcast Node_Index
begin

text \<open>
  Messages that cross nodes: the dispatch of hub/cluster_dispatch.go, the routing of hub/distributed.go and the reroute
  guard of hub/self_heal.go.

  \<^item> \<open>Cluster\<close> is what a hub keeps for this: its own \<open>Hub\<close>, the node list, the guard and the cache of the online index.
  \<^item> \<open>Net\<close> is what lies outside: the generated gRPC client with its batcher, Redis publishing and the online index, as
    functions on a state \<open>'w\<close> of the outside world.  A call answers, fails or panics.
  \<^item> The calls to several nodes run in parallel in the code and one after the other here; each writes its own result.
  \<^item> \<open>routeToCluster\<close> and the reroute decision call each other; \<open>routeToCluster n\<close> allows \<open>n\<close> nested calls and is
    \<open>None\<close> when they do not suffice.  \<open>route_terminates\<close> shows how many suffice.
\<close>

declare map_of_eq_Some_iff [simp del]

section \<open>Envelopes\<close>

type_synonym OperationType = string

abbreviation OperationTypeBroadcast :: OperationType where "OperationTypeBroadcast \<equiv> ''broadcast''"
abbreviation OperationTypeSendMessage :: OperationType where "OperationTypeSendMessage \<equiv> ''send_message''"
abbreviation OperationTypeKickUser :: OperationType where "OperationTypeKickUser \<equiv> ''kick_user''"
abbreviation OperationTypeObserverNotify :: OperationType where "OperationTypeObserverNotify \<equiv> ''observer_notify''"
abbreviation OperationTypeGroupBroadcast :: OperationType where "OperationTypeGroupBroadcast \<equiv> ''group_broadcast''"
abbreviation OperationTypeGroupsBroadcast :: OperationType where "OperationTypeGroupsBroadcast \<equiv> ''groups_broadcast''"
abbreviation OperationTypeUserNotFound :: OperationType where "OperationTypeUserNotFound \<equiv> ''user_not_found''"
abbreviation OperationTypeClientReclaim :: OperationType where "OperationTypeClientReclaim \<equiv> ''client_reclaim''"
abbreviation OperationTypeGroupInvalidate :: OperationType where "OperationTypeGroupInvalidate \<equiv> ''group_invalidate''"

record ClusterDispatchOptions =
  co_Operation :: OperationType
  co_AppID :: string
  co_Namespace :: string
  co_TargetNodeID :: string
  co_TargetNodeIDs :: "string list"
  co_TargetUserID :: string
  co_GroupIDs :: "string list"
  co_ExcludeSender :: bool
  co_SenderID :: string
  co_Reason :: string

record DistributedMessage =
  dm_Type :: OperationType
  dm_NodeID :: string
  dm_TargetID :: string
  dm_TraceID :: string
  dm_Message :: "HubMessage option"
  dm_Reason :: string
  dm_Timestamp :: int
  dm_AppID :: string
  dm_Namespace :: string
  dm_GroupIDs :: "string list"
  dm_ExcludeSender :: bool
  dm_SenderID :: string

definition dispatch_InjectContext :: "('md GoContext \<Rightarrow> string) \<Rightarrow> 'md GoContext \<Rightarrow> DistributedMessage \<Rightarrow> DistributedMessage" where
  "dispatch_InjectContext tr ctx dm = (if dm_TraceID dm \<noteq> [] then dm else dm\<lparr>dm_TraceID := tr ctx\<rparr>)"

definition no_options :: ClusterDispatchOptions where
  "no_options = \<lparr>co_Operation = [], co_AppID = [], co_Namespace = [], co_TargetNodeID = [], co_TargetNodeIDs = [], co_TargetUserID = [],
     co_GroupIDs = [], co_ExcludeSender = False, co_SenderID = [], co_Reason = []\<rparr>"

section \<open>The outside\<close>

datatype 'a rpc = Reply 'a | RpcExhausted | RpcFailed | RpcPanic

datatype channel = NodeChannel string | BroadcastChannel

datatype grpcDispatchOutcome = grpcOutcomeDelivered | grpcOutcomeFallback | grpcOutcomeUserMiss | grpcOutcomeRejected

record 'w Net =
  nt_SendToUser :: "string \<Rightarrow> string \<Rightarrow> HubMessage \<Rightarrow> 'w \<Rightarrow> (bool \<times> bool) rpc \<times> 'w"
  nt_KickUser :: "string \<Rightarrow> ClusterDispatchOptions \<Rightarrow> 'w \<Rightarrow> int rpc \<times> 'w"
  nt_BroadcastGroup :: "string \<Rightarrow> string \<Rightarrow> ClusterDispatchOptions \<Rightarrow> HubMessage \<Rightarrow> 'w \<Rightarrow> unit rpc \<times> 'w"
  nt_NotifyObservers :: "string \<Rightarrow> ClusterDispatchOptions \<Rightarrow> HubMessage \<Rightarrow> 'w \<Rightarrow> unit rpc \<times> 'w"
  nt_Submit :: "string \<Rightarrow> ClusterDispatchOptions \<Rightarrow> HubMessage \<Rightarrow> 'w \<Rightarrow> grpcDispatchOutcome \<times> 'w"
  nt_Marshal :: "HubMessage \<Rightarrow> bool"
  nt_Publish :: "channel \<Rightarrow> DistributedMessage \<Rightarrow> 'w \<Rightarrow> int option \<times> 'w"
  nt_GetUserNodes :: "string \<Rightarrow> string \<Rightarrow> string \<Rightarrow> 'w \<Rightarrow> string list option \<times> 'w"

section \<open>State\<close>

record rerouteGuardEntry =
  ge_attempted :: "string set"
  ge_rejected :: "string set"
  ge_p2p :: bool
  ge_expiresAt :: int

record 'w Cluster =
  ct_hub :: Hub
  ct_nodeID :: string
  ct_pubsub :: bool
  ct_grpc :: bool
  ct_pool :: bool
  ct_batch :: bool
  ct_registry :: "NodeRegistry option"
  ct_index :: bool
  ct_cache :: nodeIndexCache
  ct_guard :: "(string, rerouteGuardEntry) gomap"
  ct_probes :: "(string \<times> DistributedMessage) list"
  ct_world :: 'w

definition outside :: "('w \<Rightarrow> 'a \<times> 'w) \<Rightarrow> 'w Cluster \<Rightarrow> 'a \<times> 'w Cluster" where
  "outside f c = (case f (ct_world c) of (a, w) \<Rightarrow> (a, c\<lparr>ct_world := w\<rparr>))"

definition on_hub :: "(Hub \<Rightarrow> Hub) \<Rightarrow> 'w Cluster \<Rightarrow> 'w Cluster" where
  "on_hub f c = c\<lparr>ct_hub := f (ct_hub c)\<rparr>"

definition store_offline :: "HubMessage \<Rightarrow> 'w Cluster \<Rightarrow> 'w Cluster" where
  "store_offline msg = on_hub (\<lambda>h. h\<lparr>hb_node := StoreOfflineOnDeliveryFailure msg (hb_node h)\<rparr>)"

definition cluster_metric :: "(OverloadMetrics \<Rightarrow> OverloadMetrics) \<Rightarrow> 'w Cluster \<Rightarrow> 'w Cluster" where
  "cluster_metric f = on_hub (\<lambda>h. h\<lparr>hb_node := metric f (hb_node h)\<rparr>)"

abbreviation standalone :: "'w Cluster \<Rightarrow> bool" where
  "standalone c \<equiv> \<not> ct_pubsub c \<and> \<not> ct_grpc c"

section \<open>The reroute guard\<close>

definition rerouteGuardTTL :: int where "rerouteGuardTTL = 120000000000"

definition fresh_guard :: "int \<Rightarrow> bool \<Rightarrow> rerouteGuardEntry" where
  "fresh_guard now p2p = \<lparr>ge_attempted = {}, ge_rejected = {}, ge_p2p = p2p, ge_expiresAt = now + rerouteGuardTTL\<rparr>"

text \<open>\<open>LoadOrStore\<close> with the lazy reset of an entry that has expired.\<close>

definition guard_entry :: "int \<Rightarrow> bool \<Rightarrow> string \<Rightarrow> 'w Cluster \<Rightarrow> rerouteGuardEntry" where
  "guard_entry now p2p messageID c =
     (case map_of (ct_guard c) messageID of
        None \<Rightarrow> fresh_guard now p2p
      | Some e \<Rightarrow> if now > ge_expiresAt e then fresh_guard now p2p else e)"

definition put_guard :: "string \<Rightarrow> rerouteGuardEntry \<Rightarrow> 'w Cluster \<Rightarrow> 'w Cluster" where
  "put_guard messageID e c = c\<lparr>ct_guard := AList.update messageID e (ct_guard c)\<rparr>"

definition markRerouteAttempted :: "int \<Rightarrow> string \<Rightarrow> string list \<Rightarrow> bool \<Rightarrow> 'w Cluster \<Rightarrow> 'w Cluster" where
  "markRerouteAttempted now messageID targetNodes p2p c =
     (if messageID = [] then c
      else let e = guard_entry now p2p messageID c;
               e = (if p2p then e\<lparr>ge_p2p := True\<rparr> else e)
           in put_guard messageID
                (e\<lparr>ge_attempted := ge_attempted e \<union> set (filter (\<lambda>n. n \<noteq> [] \<and> n \<noteq> ct_nodeID c) targetNodes)\<rparr>) c)"

definition markRerouteRejected :: "int \<Rightarrow> string \<Rightarrow> string \<Rightarrow> 'w Cluster \<Rightarrow> rerouteGuardEntry \<times> 'w Cluster" where
  "markRerouteRejected now messageID rejectedNode c =
     (let e = guard_entry now False messageID c;
          e = (if rejectedNode \<noteq> [] \<and> rejectedNode \<noteq> ct_nodeID c then e\<lparr>ge_rejected := insert rejectedNode (ge_rejected e)\<rparr> else e)
      in (e, put_guard messageID e c))"

definition sweepRerouteGuard :: "int \<Rightarrow> 'w Cluster \<Rightarrow> 'w Cluster" where
  "sweepRerouteGuard now c = c\<lparr>ct_guard := filter (\<lambda>(_, e). \<not> now > ge_expiresAt e) (ct_guard c)\<rparr>"

definition DeleteRerouteGuard :: "string \<Rightarrow> 'w Cluster \<Rightarrow> 'w Cluster" where
  "DeleteRerouteGuard messageID c = c\<lparr>ct_guard := AList.delete messageID (ct_guard c)\<rparr>"

section \<open>gRPC\<close>

definition getAllClusterNodeIDs :: "'w Cluster \<Rightarrow> string list" where
  "getAllClusterNodeIDs c =
     (case ct_registry c of
        None \<Rightarrow> []
      | Some r \<Rightarrow> filter (\<lambda>n. n \<noteq> [] \<and> n \<noteq> ct_nodeID c) (map fst (GetAllNodes r)))"

definition resolveGRPCTargetNodes :: "ClusterDispatchOptions \<Rightarrow> 'w Cluster \<Rightarrow> string list" where
  "resolveGRPCTargetNodes opts c =
     (if co_TargetNodeID opts \<noteq> [] then [co_TargetNodeID opts]
      else if co_TargetNodeIDs opts \<noteq> [] then co_TargetNodeIDs opts
      else getAllClusterNodeIDs c)"

text \<open>Every group of the list is sent to the node; one success is enough.\<close>

definition group_call :: "'w Net \<Rightarrow> string \<Rightarrow> ClusterDispatchOptions \<Rightarrow> HubMessage \<Rightarrow> string \<Rightarrow> bool \<times> 'w Cluster \<Rightarrow> bool \<times> 'w Cluster" where
  "group_call net addr opts msg gid st =
     (case st of (success, c) \<Rightarrow>
        case outside (nt_BroadcastGroup net addr gid opts msg) c of
          (Reply _, c) \<Rightarrow> (True, c)
        | (_, c) \<Rightarrow> (success, c))"

definition grpcBroadcastGroups :: "'w Net \<Rightarrow> string \<Rightarrow> ClusterDispatchOptions \<Rightarrow> HubMessage \<Rightarrow> 'w Cluster \<Rightarrow> bool \<times> 'w Cluster" where
  "grpcBroadcastGroups net addr opts msg c =
     (if co_GroupIDs opts = [] \<or> \<not> ct_pool c then (False, c)
      else fold (group_call net addr opts msg) (co_GroupIDs opts) (False, c))"

text \<open>\<open>None\<close> is a panic, which leaves the slot of the node in the array of outcomes as it was made.\<close>

definition executeGRPCDispatch :: "'w Net \<Rightarrow> string \<Rightarrow> HubMessage \<Rightarrow> ClusterDispatchOptions \<Rightarrow> 'w Cluster \<Rightarrow> grpcDispatchOutcome option \<times> 'w Cluster" where
  "executeGRPCDispatch net addr msg opts c =
     (if \<not> ct_pool c then (Some grpcOutcomeFallback, c)
      else if co_Operation opts = OperationTypeSendMessage then
        (case outside (nt_SendToUser net addr (co_TargetUserID opts) msg) c of
           (RpcPanic, c) \<Rightarrow> (None, c)
         | (RpcExhausted, c) \<Rightarrow> (Some grpcOutcomeRejected, c)
         | (RpcFailed, c) \<Rightarrow> (Some grpcOutcomeFallback, c)
         | (Reply (success, online), c) \<Rightarrow>
             if \<not> success \<and> online then (Some grpcOutcomeRejected, c)
             else if \<not> success then (Some grpcOutcomeUserMiss, c)
             else (Some grpcOutcomeDelivered, c))
      else if co_Operation opts = OperationTypeKickUser then
        (case outside (nt_KickUser net addr opts) c of
           (RpcPanic, c) \<Rightarrow> (None, c)
         | (Reply kicked, c) \<Rightarrow> if kicked = 0 then (Some grpcOutcomeUserMiss, c) else (Some grpcOutcomeDelivered, c)
         | (_, c) \<Rightarrow> (Some grpcOutcomeFallback, c))
      else if co_Operation opts \<in> {OperationTypeGroupBroadcast, OperationTypeGroupsBroadcast} then
        (case grpcBroadcastGroups net addr opts msg c of
           (ok, c) \<Rightarrow> (Some (if ok then grpcOutcomeDelivered else grpcOutcomeFallback), c))
      else if co_Operation opts = OperationTypeObserverNotify then
        (case outside (nt_NotifyObservers net addr opts msg) c of
           (RpcPanic, c) \<Rightarrow> (None, c)
         | (Reply _, c) \<Rightarrow> (Some grpcOutcomeDelivered, c)
         | (_, c) \<Rightarrow> (Some grpcOutcomeFallback, c))
      else (Some grpcOutcomeFallback, c))"

definition group_item :: "'w Net \<Rightarrow> string \<Rightarrow> ClusterDispatchOptions \<Rightarrow> HubMessage \<Rightarrow> string \<Rightarrow> bool \<times> 'w Cluster \<Rightarrow> bool \<times> 'w Cluster" where
  "group_item net addr opts msg gid st =
     (case st of (sent, c) \<Rightarrow>
        case outside (nt_Submit net addr (opts\<lparr>co_GroupIDs := if gid \<noteq> [] then [gid] else co_GroupIDs opts\<rparr>) msg) c of
          (out, c) \<Rightarrow> (sent \<or> out = grpcOutcomeDelivered, c))"

definition dispatchNodeViaBatch :: "'w Net \<Rightarrow> string \<Rightarrow> HubMessage \<Rightarrow> ClusterDispatchOptions \<Rightarrow> 'w Cluster \<Rightarrow> grpcDispatchOutcome option \<times> 'w Cluster" where
  "dispatchNodeViaBatch net addr msg opts c =
     (if co_Operation opts \<in> {OperationTypeGroupBroadcast, OperationTypeGroupsBroadcast} then
        if co_GroupIDs opts = [] then (Some grpcOutcomeFallback, c)
        else case fold (group_item net addr opts msg) (co_GroupIDs opts) (False, c) of
             (sent, c) \<Rightarrow> (Some (if sent then grpcOutcomeDelivered else grpcOutcomeFallback), c)
      else case outside (nt_Submit net addr opts msg) c of (out, c) \<Rightarrow> (Some out, c))"

definition dispatchNode :: "'w Net \<Rightarrow> string \<Rightarrow> HubMessage \<Rightarrow> ClusterDispatchOptions \<Rightarrow> 'w Cluster \<Rightarrow> grpcDispatchOutcome option \<times> 'w Cluster" where
  "dispatchNode net addr msg opts c =
     (if \<not> ct_batch c then executeGRPCDispatch net addr msg opts c else dispatchNodeViaBatch net addr msg opts c)"

record clusterRouteResult =
  rr_rejectedNodes :: "string list"
  rr_grpcDelivered :: int
  rr_pubsubFallback :: "string list"
  rr_userMissNodes :: "string list"

definition no_route :: clusterRouteResult where
  "no_route = \<lparr>rr_rejectedNodes = [], rr_grpcDelivered = 0, rr_pubsubFallback = [], rr_userMissNodes = []\<rparr>"

text \<open>The slot of one node: an unknown address falls back, a panic leaves the zero value.\<close>

definition node_outcome :: "'w Net \<Rightarrow> HubMessage \<Rightarrow> ClusterDispatchOptions \<Rightarrow> string \<Rightarrow> 'w Cluster \<Rightarrow> grpcDispatchOutcome \<times> 'w Cluster" where
  "node_outcome net msg opts nodeID c =
     (case (case ct_registry c of None \<Rightarrow> None | Some r \<Rightarrow> GetNodeAddr nodeID r) of
        None \<Rightarrow> (grpcOutcomeFallback, c)
      | Some addr \<Rightarrow>
          (case dispatchNode net addr msg opts c of
             (None, c) \<Rightarrow> (grpcOutcomeDelivered, c)
           | (Some out, c) \<Rightarrow> (out, c)))"

definition tally_outcome :: "grpcDispatchOutcome \<times> string \<Rightarrow> clusterRouteResult \<Rightarrow> clusterRouteResult" where
  "tally_outcome on r =
     (case on of
        (grpcOutcomeDelivered, _) \<Rightarrow> r\<lparr>rr_grpcDelivered := rr_grpcDelivered r + 1\<rparr>
      | (grpcOutcomeRejected, n) \<Rightarrow> r\<lparr>rr_rejectedNodes := rr_rejectedNodes r @ [n]\<rparr>
      | (grpcOutcomeUserMiss, n) \<Rightarrow> r\<lparr>rr_userMissNodes := rr_userMissNodes r @ [n]\<rparr>
      | (grpcOutcomeFallback, n) \<Rightarrow> r\<lparr>rr_pubsubFallback := rr_pubsubFallback r @ [n]\<rparr>)"

fun node_outcomes :: "'w Net \<Rightarrow> HubMessage \<Rightarrow> ClusterDispatchOptions \<Rightarrow> string list \<Rightarrow> 'w Cluster \<Rightarrow> grpcDispatchOutcome list \<times> 'w Cluster" where
  "node_outcomes net msg opts [] c = ([], c)"
| "node_outcomes net msg opts (n # ns) c =
     (case node_outcome net msg opts n c of (out, c) \<Rightarrow> case node_outcomes net msg opts ns c of (outs, c) \<Rightarrow> (out # outs, c))"

definition envelope_options :: "HubMessage \<Rightarrow> ClusterDispatchOptions \<Rightarrow> ClusterDispatchOptions" where
  "envelope_options msg opts =
     opts\<lparr>co_AppID := NormalizeAppID (if hm_AppID msg = [] then co_AppID opts else hm_AppID msg),
          co_Namespace := (if hm_Namespace msg = [] then co_Namespace opts else hm_Namespace msg),
          co_GroupIDs := (if slice (hm_GroupIDs msg) \<noteq> [] then slice (hm_GroupIDs msg) else co_GroupIDs opts)\<rparr>"

definition dispatchViaGRPC :: "'w Net \<Rightarrow> HubMessage \<Rightarrow> ClusterDispatchOptions \<Rightarrow> 'w Cluster \<Rightarrow> clusterRouteResult \<times> 'w Cluster" where
  "dispatchViaGRPC net msg opts c =
     (let opts = envelope_options msg opts
      in if co_Operation opts = OperationTypeBroadcast then (no_route, c)
         else if \<not> ct_grpc c then
           (no_route\<lparr>rr_pubsubFallback := (if co_TargetNodeIDs opts \<noteq> [] then co_TargetNodeIDs opts else getAllClusterNodeIDs c)\<rparr>, c)
         else if \<not> nt_Marshal net msg then (no_route\<lparr>rr_pubsubFallback := getAllClusterNodeIDs c\<rparr>, c)
         else let targets = resolveGRPCTargetNodes opts c
              in if targets = [] then (no_route, c)
                 else case node_outcomes net msg opts targets c of
                        (outs, c) \<Rightarrow> (fold tally_outcome (zip outs targets) no_route, c))"

section \<open>Publishing\<close>

definition publishToCluster :: "'w Net \<Rightarrow> DistributedMessage \<Rightarrow> 'w Cluster \<Rightarrow> bool \<times> 'w Cluster" where
  "publishToCluster net dispatch c =
     (if \<not> ct_pubsub c then (True, c)
      else case outside (nt_Publish net BroadcastChannel dispatch) c of (res, c) \<Rightarrow> (res \<noteq> None, c))"

definition node_alive :: "string \<Rightarrow> 'w Cluster \<Rightarrow> bool" where
  "node_alive nodeID c = (case ct_registry c of None \<Rightarrow> False | Some r \<Rightarrow> GetNodeAddr nodeID r \<noteq> None)"

text \<open>The accumulator holds the nodes nobody listens for, whether all commands succeeded, and the state.\<close>

definition publish_node :: "'w Net \<Rightarrow> DistributedMessage \<Rightarrow> string \<Rightarrow> (string list \<times> bool) \<times> 'w Cluster \<Rightarrow> (string list \<times> bool) \<times> 'w Cluster" where
  "publish_node net dispatch nodeID acc =
     (case acc of ((dead, ok), c) \<Rightarrow>
        case outside (nt_Publish net (NodeChannel nodeID) dispatch) c of
          (None, c) \<Rightarrow> ((dead @ [nodeID], False), c)
        | (Some receivers, c) \<Rightarrow>
            if receivers \<noteq> 0 then ((dead, ok), c)
            else if node_alive nodeID c then ((dead, ok), c\<lparr>ct_probes := ct_probes c @ [(nodeID, dispatch)]\<rparr>)
            else ((dead @ [nodeID], ok), c))"

definition publishToTargetedNodes :: "'w Net \<Rightarrow> DistributedMessage \<Rightarrow> string list \<Rightarrow> 'w Cluster \<Rightarrow> (string list \<times> bool) \<times> 'w Cluster" where
  "publishToTargetedNodes net dispatch nodeIDs c =
     (if \<not> ct_pubsub c \<or> nodeIDs = [] then (([], True), c)
      else fold (publish_node net dispatch) (filter (\<lambda>n. n \<noteq> ct_nodeID c) nodeIDs) (([], True), c))"

definition query_nodes :: "'w Net \<Rightarrow> string \<Rightarrow> string \<Rightarrow> string \<Rightarrow> 'w Cluster \<Rightarrow> string list option \<times> 'w Cluster" where
  "query_nodes net appID namespace userID = outside (nt_GetUserNodes net (NormalizeAppID appID) namespace userID)"

definition handleDeadNodesForP2P :: "'w Net \<Rightarrow> HubMessage \<Rightarrow> string \<Rightarrow> string list \<Rightarrow> 'w Cluster \<Rightarrow> 'w Cluster" where
  "handleDeadNodesForP2P net msg userID deadNodes c =
     (if \<not> ct_index c then c
      else case query_nodes net (hm_AppID msg) (hm_Namespace msg) userID c of
             (None, c) \<Rightarrow> c
           | (Some nodeIDs, c) \<Rightarrow>
               if nodeIDs = [] then c
               else if \<exists>n \<in> set nodeIDs. n \<noteq> [] \<and> n \<noteq> ct_nodeID c \<and> n \<notin> set deadNodes then c
               else store_offline msg c)"

text \<open>The goroutine of a probe, once its waiting time is over.\<close>

definition probe_settled :: "'w Net \<Rightarrow> string \<Rightarrow> DistributedMessage \<Rightarrow> 'w Cluster \<Rightarrow> 'w Cluster" where
  "probe_settled net nodeID dispatch c =
     (case outside (nt_Publish net (NodeChannel nodeID) dispatch) c of
        (res, c) \<Rightarrow>
          if (case res of None \<Rightarrow> False | Some n \<Rightarrow> n > 0) then c
          else case dm_Message dispatch of
                 None \<Rightarrow> c
               | Some msg \<Rightarrow>
                   if dm_Type dispatch = OperationTypeSendMessage \<and> dm_TargetID dispatch \<noteq> []
                   then handleDeadNodesForP2P net msg (dm_TargetID dispatch) [nodeID] c
                   else c)"

section \<open>Routing\<close>

datatype route_error = TargetRejected | PublishFailed | NoPath | QueryError

definition resolveDispatchTargetID :: "ClusterDispatchOptions \<Rightarrow> string" where
  "resolveDispatchTargetID opts =
     (if co_Operation opts \<in> {OperationTypeSendMessage, OperationTypeKickUser} then co_TargetUserID opts else [])"

definition build_dispatch :: "('md GoContext \<Rightarrow> string) \<Rightarrow> 'md GoContext \<Rightarrow> int \<Rightarrow> string \<Rightarrow> HubMessage \<Rightarrow> ClusterDispatchOptions \<Rightarrow> DistributedMessage" where
  "build_dispatch tr ctx now nodeID msg opts =
     (let o' = envelope_options msg opts
      in dispatch_InjectContext tr ctx
           \<lparr>dm_Type = co_Operation opts, dm_NodeID = nodeID, dm_TargetID = resolveDispatchTargetID opts, dm_TraceID = [], dm_Message = Some msg,
            dm_Reason = co_Reason opts, dm_Timestamp = now, dm_AppID = co_AppID o', dm_Namespace = co_Namespace o', dm_GroupIDs = co_GroupIDs o',
            dm_ExcludeSender = co_ExcludeSender opts, dm_SenderID = co_SenderID opts\<rparr>)"

text \<open>Is a rejected node among several worth a copy in the offline queue?\<close>

definition partial_rejection :: "ClusterDispatchOptions \<Rightarrow> bool" where
  "partial_rejection opts \<longleftrightarrow> co_Operation opts = OperationTypeSendMessage \<and> co_TargetUserID opts \<noteq> [] \<and>
     (co_TargetNodeID opts \<noteq> [] \<or> co_TargetNodeIDs opts \<noteq> [])"

definition directed :: "ClusterDispatchOptions \<Rightarrow> bool" where
  "directed opts \<longleftrightarrow> co_Operation opts = OperationTypeSendMessage \<and> co_TargetUserID opts \<noteq> []"

text \<open>What follows the calls and the reroute decisions.\<close>

definition finish_route :: "'w Net \<Rightarrow> DistributedMessage \<Rightarrow> HubMessage \<Rightarrow> ClusterDispatchOptions \<Rightarrow> clusterRouteResult \<Rightarrow> bool \<Rightarrow> 'w Cluster
    \<Rightarrow> route_error option \<times> 'w Cluster" where
  "finish_route net dispatch msg opts result rerouted c =
     (if rr_pubsubFallback result = [] \<and> rr_grpcDelivered result > 0 then (None, c)
      else if ct_pubsub c then
        case (if rr_grpcDelivered result > 0 \<or> rr_pubsubFallback result \<noteq> []
              then publishToTargetedNodes net dispatch (rr_pubsubFallback result) c
              else if \<not> rerouted then (case publishToCluster net dispatch c of (ok, c) \<Rightarrow> (([], ok), c))
              else (([], True), c)) of
          ((deadNodes, ok), c) \<Rightarrow>
            if \<not> ok then (if rr_grpcDelivered result > 0 then None else Some PublishFailed, c)
            else (None, let c = cluster_metric RecordClusterPubSubFallback c
                        in if deadNodes \<noteq> [] \<and> directed opts then handleDeadNodesForP2P net msg (co_TargetUserID opts) deadNodes c else c)
      else if rr_grpcDelivered result = 0 \<and> \<not> rerouted then (Some NoPath, c)
      else (None, c))"

text \<open>\<open>route\<close> is the nested call of \<open>routeToCluster\<close>.\<close>

definition decideUserNotFoundReroute :: "(ClusterDispatchOptions \<Rightarrow> 'w Cluster \<Rightarrow> (route_error option \<times> 'w Cluster) option)
    \<Rightarrow> 'w Net \<Rightarrow> int \<Rightarrow> HubMessage \<Rightarrow> string \<Rightarrow> string \<Rightarrow> string \<Rightarrow> string \<Rightarrow> 'w Cluster \<Rightarrow> (bool \<times> 'w Cluster) option" where
  "decideUserNotFoundReroute route net now msg userID missNode appID namespace c =
     (if \<not> ct_index c then Some (False, c)
      else case markRerouteRejected now (hm_MessageID msg) missNode c of
             (_, c) \<Rightarrow>
               case query_nodes net appID namespace userID c of
                 (None, c) \<Rightarrow> Some (False, c)
               | (Some nodeIDs, c) \<Rightarrow>
                   let e = guard_entry now False (hm_MessageID msg) c;
                       candidates = filter (\<lambda>n. n \<noteq> [] \<and> n \<noteq> ct_nodeID c \<and> n \<notin> ge_attempted e \<and> n \<notin> ge_rejected e) nodeIDs;
                       allRejected = (ge_attempted e \<noteq> {} \<and> ge_attempted e \<subseteq> ge_rejected e)
                   in if candidates \<noteq> [] then
                        (case route (no_options\<lparr>co_Operation := OperationTypeSendMessage, co_TargetNodeIDs := candidates, co_TargetUserID := userID\<rparr>)
                                (put_guard (hm_MessageID msg) (e\<lparr>ge_attempted := ge_attempted e \<union> set candidates\<rparr>) c) of
                           None \<Rightarrow> None
                         | Some (err, c) \<Rightarrow> Some (err = None, c))
                      else if allRejected \<and> ge_p2p e then Some (False, DeleteRerouteGuard (hm_MessageID msg) (store_offline msg c))
                      else Some (False, c))"

fun reroute_all :: "(string \<Rightarrow> 'w Cluster \<Rightarrow> (bool \<times> 'w Cluster) option) \<Rightarrow> string list \<Rightarrow> bool \<times> 'w Cluster \<Rightarrow> (bool \<times> 'w Cluster) option" where
  "reroute_all decide [] st = Some st"
| "reroute_all decide (n # ns) (rerouted, c) =
     (case decide n c of None \<Rightarrow> None | Some (ok, c) \<Rightarrow> reroute_all decide ns (ok \<or> rerouted, c))"

text \<open>The bookkeeping between the calls and the reroute decisions.\<close>

definition settle_dispatch :: "HubMessage \<Rightarrow> ClusterDispatchOptions \<Rightarrow> clusterRouteResult \<Rightarrow> 'w Cluster \<Rightarrow> 'w Cluster" where
  "settle_dispatch msg opts result c =
     (let c = (if rr_rejectedNodes result \<noteq> [] \<and> partial_rejection opts then store_offline msg c else c)
      in if rr_grpcDelivered result > 0 then cluster_metric (RecordClusterGRPC (rr_grpcDelivered result)) c else c)"

definition reroute_misses :: "(ClusterDispatchOptions \<Rightarrow> 'w Cluster \<Rightarrow> (route_error option \<times> 'w Cluster) option)
    \<Rightarrow> 'w Net \<Rightarrow> int \<Rightarrow> HubMessage \<Rightarrow> ClusterDispatchOptions \<Rightarrow> clusterRouteResult \<Rightarrow> 'w Cluster \<Rightarrow> (bool \<times> 'w Cluster) option" where
  "reroute_misses route net now msg opts result c =
     (let o' = envelope_options msg opts
      in if directed opts
         then reroute_all (\<lambda>n. decideUserNotFoundReroute route net now msg (co_TargetUserID opts) n (co_AppID o') (co_Namespace o'))
                (rr_userMissNodes result) (False, c)
         else Some (False, c))"

definition route_step :: "(ClusterDispatchOptions \<Rightarrow> 'w Cluster \<Rightarrow> (route_error option \<times> 'w Cluster) option)
    \<Rightarrow> 'w Net \<Rightarrow> ('md GoContext \<Rightarrow> string) \<Rightarrow> 'md GoContext \<Rightarrow> int \<Rightarrow> HubMessage \<Rightarrow> ClusterDispatchOptions \<Rightarrow> 'w Cluster
    \<Rightarrow> (route_error option \<times> 'w Cluster) option" where
  "route_step route net tr ctx now msg opts c =
     (if standalone c then Some (None, c)
      else let dispatch = build_dispatch tr ctx now (ct_nodeID c) msg opts
           in case dispatchViaGRPC net msg opts c of
                (result, c) \<Rightarrow>
                  if rr_rejectedNodes result \<noteq> [] \<and> rr_grpcDelivered result = 0 then Some (Some TargetRejected, c)
                  else case reroute_misses route net now msg opts result (settle_dispatch msg opts result c) of
                         None \<Rightarrow> None
                       | Some (rerouted, c) \<Rightarrow> Some (finish_route net dispatch msg opts result rerouted c))"

primrec routeToCluster :: "nat \<Rightarrow> 'w Net \<Rightarrow> ('md GoContext \<Rightarrow> string) \<Rightarrow> 'md GoContext \<Rightarrow> int \<Rightarrow> HubMessage \<Rightarrow> ClusterDispatchOptions \<Rightarrow> 'w Cluster
    \<Rightarrow> (route_error option \<times> 'w Cluster) option" where
  "routeToCluster 0 net tr ctx now msg = (\<lambda>opts c. None)"
| "routeToCluster (Suc n) net tr ctx now msg = route_step (routeToCluster n net tr ctx now msg) net tr ctx now msg"

definition queryUserNodes :: "'w Net \<Rightarrow> 'md GoContext \<Rightarrow> string \<Rightarrow> 'w Cluster \<Rightarrow> string list option \<times> 'w Cluster" where
  "queryUserNodes net ctx userID = outside (nt_GetUserNodes net (AppIDFromContext ctx) (NamespaceFromContext ctx) userID)"

text \<open>The nodes of a user: those handed in, those of the cache, or those of the index.\<close>

definition user_nodes :: "'w Net \<Rightarrow> 'md GoContext \<Rightarrow> int \<Rightarrow> string \<Rightarrow> string list option \<Rightarrow> 'w Cluster \<Rightarrow> string list option \<times> 'w Cluster" where
  "user_nodes net ctx now userID presetNodes c =
     (case presetNodes of
        Some ns \<Rightarrow> (Some ns, c)
      | None \<Rightarrow>
          let key = nodeIndexCacheKey ctx userID
          in case cache_load now key (ct_cache c) of
               (Some ns, cache) \<Rightarrow> (Some ns, c\<lparr>ct_cache := cache\<rparr>)
             | (None, cache) \<Rightarrow>
                 (case queryUserNodes net ctx userID (c\<lparr>ct_cache := cache\<rparr>) of
                    (None, c) \<Rightarrow> (None, c)
                  | (Some ns, c) \<Rightarrow> (Some ns, c\<lparr>ct_cache := cache_store now key ns (ct_cache c)\<rparr>)))"

definition checkAndRouteToNode :: "nat \<Rightarrow> 'w Net \<Rightarrow> ('md GoContext \<Rightarrow> string) \<Rightarrow> 'md GoContext \<Rightarrow> int \<Rightarrow> string \<Rightarrow> HubMessage \<Rightarrow> string list option
    \<Rightarrow> 'w Cluster \<Rightarrow> ((bool \<times> string list \<times> route_error option) \<times> 'w Cluster) option" where
  "checkAndRouteToNode fuel net tr ctx now userID msg presetNodes c =
     (if standalone c \<or> \<not> ct_index c then Some ((False, [], None), c)
      else case user_nodes net ctx now userID presetNodes c of
             (None, c) \<Rightarrow> Some ((False, [], Some QueryError), c)
           | (Some nodeIDs, c) \<Rightarrow>
               let otherNodes = filter (\<lambda>n. n \<noteq> [] \<and> n \<noteq> ct_nodeID c) nodeIDs
               in if otherNodes = [] then Some ((False, [], None), c)
                  else case routeToCluster fuel net tr ctx now msg
                              (no_options\<lparr>co_Operation := OperationTypeSendMessage, co_TargetNodeIDs := otherNodes, co_TargetUserID := userID\<rparr>)
                              (markRerouteAttempted now (hm_MessageID msg) otherNodes True c) of
                         None \<Rightarrow> None
                       | Some (Some err, c) \<Rightarrow> Some ((False, [], Some err), c)
                       | Some (None, c) \<Rightarrow> Some ((True, otherNodes, None), c))"

section \<open>What the calls leave alone\<close>

text \<open>A move of the outside world is one of the calls.\<close>

inductive net_move :: "'w Net \<Rightarrow> 'w \<Rightarrow> 'w \<Rightarrow> bool" for net where
  move_SendToUser: "nt_SendToUser net a u m w = (r, w') \<Longrightarrow> net_move net w w'"
| move_KickUser: "nt_KickUser net a opts w = (r', w') \<Longrightarrow> net_move net w w'"
| move_BroadcastGroup: "nt_BroadcastGroup net a g opts m w = (r'', w') \<Longrightarrow> net_move net w w'"
| move_NotifyObservers: "nt_NotifyObservers net a opts m w = (r'', w') \<Longrightarrow> net_move net w w'"
| move_Submit: "nt_Submit net a opts m w = (out, w') \<Longrightarrow> net_move net w w'"
| move_Publish: "nt_Publish net ch d w = (n, w') \<Longrightarrow> net_move net w w'"
| move_GetUserNodes: "nt_GetUserNodes net app ns u w = (ids, w') \<Longrightarrow> net_move net w w'"

text \<open>
  A frame is a preorder on states that holds across every call, every change of the hub and every probe.  What a frame
  says then holds across dispatching and publishing, which never touch the guard.
\<close>

locale cluster_frame =
  fixes R :: "'w Cluster \<Rightarrow> 'w Cluster \<Rightarrow> bool" and net :: "'w Net"
  assumes frame_refl: "R c c"
    and frame_trans: "R a b \<Longrightarrow> R b d \<Longrightarrow> R a d"
    and frame_world: "net_move net (ct_world c) w \<Longrightarrow> R c (c\<lparr>ct_world := w\<rparr>)"
    and frame_hub: "R c (on_hub f c)"
    and frame_probes: "R c (c\<lparr>ct_probes := ps\<rparr>)"
begin

lemma frame_outside:
  assumes "\<And>w. net_move net w (snd (f w))" "outside f c = (a, c')"
  shows "R c c'"
  using frame_world [OF assms(1), of c] assms(2) by (auto simp: outside_def split: prod.splits)

lemma frame_call:
  "outside (nt_SendToUser net addr u m) c = (r, c') \<Longrightarrow> R c c'"
  "outside (nt_KickUser net addr opts) c = (r', c') \<Longrightarrow> R c c'"
  "outside (nt_BroadcastGroup net addr g opts m) c = (r'', c') \<Longrightarrow> R c c'"
  "outside (nt_NotifyObservers net addr opts m) c = (r'', c') \<Longrightarrow> R c c'"
  "outside (nt_Submit net addr opts m) c = (out, c') \<Longrightarrow> R c c'"
  "outside (nt_Publish net ch d) c = (n, c') \<Longrightarrow> R c c'"
  "outside (nt_GetUserNodes net app ns u) c = (ids, c') \<Longrightarrow> R c c'"
  by (erule frame_outside [rotated], metis prod.collapse net_move.intros)+

lemma frame_fold:
  assumes "\<And>x a c. R c (snd (f x (a, c)))"
  shows "R c (snd (fold f xs (a, c)))"
proof (induction xs arbitrary: a c)
  case (Cons x xs)
  obtain a' c' where "f x (a, c) = (a', c')" by fastforce
  with assms [of c x a] Cons.IH [of c' a'] show ?case by (auto intro: frame_trans)
qed (simp add: frame_refl)

lemma frame_group_call: "R c (snd (group_call net addr opts msg gid (ok, c)))"
  by (auto simp: group_call_def split: prod.splits rpc.splits dest: frame_call)

lemma frame_group_item: "R c (snd (group_item net addr opts msg gid (ok, c)))"
  by (auto simp: group_item_def split: prod.splits dest: frame_call)

lemma frame_groups: "grpcBroadcastGroups net addr opts msg c = (ok, c') \<Longrightarrow> R c c'"
  using frame_fold [where f = "group_call net addr opts msg" and xs = "co_GroupIDs opts" and c = c and a = False, OF frame_group_call]
  by (auto simp: grpcBroadcastGroups_def frame_refl split: if_splits)

lemma frame_execute: "executeGRPCDispatch net addr msg opts c = (out, c') \<Longrightarrow> R c c'"
  by (auto simp: executeGRPCDispatch_def frame_refl split: if_splits prod.splits rpc.splits dest: frame_call frame_groups)

lemma frame_batch: "dispatchNodeViaBatch net addr msg opts c = (out, c') \<Longrightarrow> R c c'"
  using frame_fold [where f = "group_item net addr opts msg" and xs = "co_GroupIDs opts" and c = c and a = False, OF frame_group_item]
  by (auto simp: dispatchNodeViaBatch_def frame_refl split: if_splits prod.splits dest: frame_call)

lemma frame_node: "node_outcome net msg opts n c = (out, c') \<Longrightarrow> R c c'"
  by (auto simp: node_outcome_def dispatchNode_def frame_refl split: if_splits prod.splits option.splits dest: frame_execute frame_batch)

lemma frame_nodes: "node_outcomes net msg opts ns c = (outs, c') \<Longrightarrow> R c c'"
  by (induction ns arbitrary: outs c c') (auto simp: frame_refl split: prod.splits dest: frame_node intro: frame_trans)

lemma frame_dispatch: "dispatchViaGRPC net msg opts c = (r, c') \<Longrightarrow> R c c'"
  by (auto simp: dispatchViaGRPC_def Let_def frame_refl split: if_splits prod.splits dest: frame_nodes)

lemma frame_publish_node: "R c (snd (publish_node net d n (a, c)))"
  by (auto simp: publish_node_def frame_refl split: prod.splits option.splits dest: frame_call intro: frame_trans [OF _ frame_probes])

lemma frame_targeted: "publishToTargetedNodes net d ns c = (a, c') \<Longrightarrow> R c c'"
  using frame_fold [where f = "publish_node net d" and xs = "filter (\<lambda>n. n \<noteq> ct_nodeID c) ns" and c = c and a = "([], True)", OF frame_publish_node]
  by (auto simp: publishToTargetedNodes_def frame_refl split: if_splits)

lemma frame_cluster: "publishToCluster net d c = (ok, c') \<Longrightarrow> R c c'"
  by (auto simp: publishToCluster_def frame_refl split: if_splits prod.splits dest: frame_call)

lemma frame_store: "R c (store_offline msg c)" "R c (cluster_metric f c)"
  by (simp_all add: store_offline_def cluster_metric_def frame_hub)

lemma frame_query: "query_nodes net app ns u c = (ids, c') \<Longrightarrow> R c c'"
  by (auto simp: query_nodes_def dest: frame_call)

lemma frame_dead: "R c (handleDeadNodesForP2P net msg u dead c)"
  by (auto simp: handleDeadNodesForP2P_def frame_refl split: prod.splits option.splits dest: frame_query intro: frame_trans [OF _ frame_store(1)])

lemma frame_settle: "R c (settle_dispatch msg opts r c)"
  by (auto simp: settle_dispatch_def Let_def frame_refl intro: frame_store frame_trans [OF frame_store(1) frame_store(2)])

lemma frame_finish: "R c (snd (finish_route net d msg opts r rerouted c))"
  by (auto simp: finish_route_def Let_def frame_refl split: prod.splits dest: frame_targeted frame_cluster
      intro: frame_trans [OF _ frame_store(2)] frame_trans [OF _ frame_trans [OF frame_store(2) frame_dead]])

end

text \<open>The guard and the configuration form a frame.\<close>

definition quiet :: "'w Cluster \<Rightarrow> 'w Cluster \<Rightarrow> bool" where
  "quiet c c' \<longleftrightarrow> ct_guard c' = ct_guard c \<and> ct_nodeID c' = ct_nodeID c \<and> ct_pubsub c' = ct_pubsub c \<and> ct_grpc c' = ct_grpc c \<and>
     ct_index c' = ct_index c \<and> ct_registry c' = ct_registry c \<and> ct_cache c' = ct_cache c"

interpretation quiet: cluster_frame quiet net
  by unfold_locales (auto simp: quiet_def on_hub_def)

section \<open>Every route ends\<close>

text \<open>
  The nodes a message can still be rerouted to, counted from its guard: each nested call takes at least one of them away.
  The guard of a directed message can be dropped once, which is worth one more round.
\<close>

definition reroutes_left :: "string set \<Rightarrow> int \<Rightarrow> string \<Rightarrow> 'w Cluster \<Rightarrow> nat" where
  "reroutes_left N now messageID c =
     (let e = guard_entry now False messageID c
      in (if ge_p2p e then card N + 1 else 0) + card (N - ge_attempted e))"

lemma guard_entry_put [simp]: "\<not> now > ge_expiresAt e \<Longrightarrow> guard_entry now p2p m (put_guard m e c) = e"
  by (simp add: guard_entry_def put_guard_def update_conv)

lemma guard_entry_delete [simp]: "guard_entry now p2p m (DeleteRerouteGuard m c) = fresh_guard now p2p"
  by (simp add: guard_entry_def DeleteRerouteGuard_def delete_conv)

lemma guard_entry_current [simp]: "ge_expiresAt (guard_entry now p2p m c) < now \<longleftrightarrow> False"
  by (auto simp: guard_entry_def fresh_guard_def rerouteGuardTTL_def split: option.splits)

lemma guard_entry_quiet: "quiet c c' \<Longrightarrow> guard_entry now p2p m c' = guard_entry now p2p m c"
  by (simp add: guard_entry_def quiet_def)

lemma reroutes_left_quiet: "quiet c c' \<Longrightarrow> reroutes_left N now m c' = reroutes_left N now m c"
  by (simp add: reroutes_left_def guard_entry_quiet)

lemma rejected_left: "markRerouteRejected now m n c = (e, c') \<Longrightarrow> reroutes_left N now m c' = reroutes_left N now m c"
  by (auto simp: markRerouteRejected_def reroutes_left_def Let_def split: if_splits)

lemma attempted_left:
  assumes "finite N" "set ns \<subseteq> N" "ns \<noteq> []" "set ns \<inter> ge_attempted (guard_entry now False m c) = {}"
  shows "reroutes_left N now m (put_guard m (guard_entry now False m c\<lparr>ge_attempted := ge_attempted (guard_entry now False m c) \<union> set ns\<rparr>) c)
           < reroutes_left N now m c"
proof -
  obtain n where "n \<in> set ns" using assms(3) by (cases ns) auto
  then have "N - (ge_attempted (guard_entry now False m c) \<union> set ns) \<subset> N - ge_attempted (guard_entry now False m c)"
    using assms by auto
  from psubset_card_mono [OF _ this] assms(1) show ?thesis by (simp add: reroutes_left_def Let_def)
qed

lemma deleted_left: "ge_p2p (guard_entry now False m c) \<Longrightarrow> reroutes_left N now m (DeleteRerouteGuard m c) \<le> reroutes_left N now m c"
  by (simp add: reroutes_left_def fresh_guard_def Let_def)

text \<open>What the index may answer.\<close>

definition index_within :: "'w Net \<Rightarrow> string set \<Rightarrow> bool" where
  "index_within net N \<longleftrightarrow> (\<forall>app ns u w ids w'. nt_GetUserNodes net app ns u w = (Some ids, w') \<longrightarrow> set ids \<subseteq> N)"

lemma query_within: "index_within net N \<Longrightarrow> query_nodes net app ns u c = (Some ids, c') \<Longrightarrow> set ids \<subseteq> N"
  by (fastforce simp: index_within_def query_nodes_def outside_def split: prod.splits)

definition settles :: "string set \<Rightarrow> int \<Rightarrow> string \<Rightarrow> 'w Cluster \<Rightarrow> ('a \<times> 'w Cluster) option \<Rightarrow> bool" where
  "settles N now m c res \<longleftrightarrow> (case res of None \<Rightarrow> False | Some (_, c') \<Rightarrow> reroutes_left N now m c' \<le> reroutes_left N now m c)"

lemma decide_settles:
  assumes "finite N" "index_within net N"
    and route: "\<And>opts c'. reroutes_left N now (hm_MessageID msg) c' < reroutes_left N now (hm_MessageID msg) c \<Longrightarrow>
      settles N now (hm_MessageID msg) c' (route opts c')"
  shows "settles N now (hm_MessageID msg) c (decideUserNotFoundReroute route net now msg u n app ns c)"
proof (cases "ct_index c")
  case True
  let ?m = "hm_MessageID msg"
  obtain e c1 where rej: "markRerouteRejected now ?m n c = (e, c1)" by fastforce
  obtain ids c2 where q: "query_nodes net app ns u c1 = (ids, c2)" by fastforce
  have left: "reroutes_left N now ?m c2 = reroutes_left N now ?m c"
    using rejected_left [OF rej] reroutes_left_quiet [OF quiet.frame_query [OF q]] by simp
  show ?thesis
  proof (cases ids)
    case None
    with True rej q left show ?thesis by (simp add: decideUserNotFoundReroute_def settles_def)
  next
    case (Some nodeIDs)
    let ?e = "guard_entry now False ?m c2"
    let ?cand = "filter (\<lambda>n. n \<noteq> [] \<and> n \<noteq> ct_nodeID c2 \<and> n \<notin> ge_attempted ?e \<and> n \<notin> ge_rejected ?e) nodeIDs"
    let ?c3 = "put_guard ?m (?e\<lparr>ge_attempted := ge_attempted ?e \<union> set ?cand\<rparr>) c2"
    have less: "reroutes_left N now ?m ?c3 < reroutes_left N now ?m c" if "?cand \<noteq> []"
    proof -
      have "set ?cand \<subseteq> N" using query_within [OF assms(2), of app ns u c1 nodeIDs c2] q Some by auto
      from attempted_left [OF assms(1) this that, of now ?m c2] left show ?thesis by auto
    qed
    have stored: "reroutes_left N now ?m (DeleteRerouteGuard ?m (store_offline msg c2)) \<le> reroutes_left N now ?m c" if "ge_p2p ?e"
      using deleted_left [of now ?m "store_offline msg c2" N] that left
      by (simp add: guard_entry_quiet [OF quiet.frame_store(1)] reroutes_left_quiet [OF quiet.frame_store(1)])
    show ?thesis
    proof (cases "?cand = []")
      case True
      then show ?thesis using rej q Some \<open>ct_index c\<close> left stored
        by (simp add: decideUserNotFoundReroute_def settles_def Let_def)
    next
      case False
      from route [OF less [OF False]] less [OF False] show ?thesis using False rej q Some \<open>ct_index c\<close>
        by (fastforce simp: decideUserNotFoundReroute_def settles_def Let_def split: option.splits prod.splits)
    qed
  qed
qed (simp add: decideUserNotFoundReroute_def settles_def)

lemma reroute_all_settles:
  assumes "\<And>n c'. reroutes_left N now m c' \<le> reroutes_left N now m c \<Longrightarrow> settles N now m c' (decide n c')"
  shows "settles N now m c (reroute_all decide ns (b, c))"
  using assms
proof (induction ns arbitrary: b c)
  case (Cons n ns)
  from Cons.prems [of c n] obtain ok c1 where d: "decide n c = Some (ok, c1)" "reroutes_left N now m c1 \<le> reroutes_left N now m c"
    by (auto simp: settles_def split: option.splits)
  have "settles N now m c1 (reroute_all decide ns (ok \<or> b, c1))" by (rule Cons.IH) (use Cons.prems d(2) in auto)
  with d show ?case by (auto simp: settles_def split: option.splits)
qed (simp add: settles_def)

lemma route_step_settles:
  assumes "finite N" "index_within net N"
    and route: "\<And>opts c'. reroutes_left N now (hm_MessageID msg) c' < reroutes_left N now (hm_MessageID msg) c \<Longrightarrow>
      settles N now (hm_MessageID msg) c' (route opts c')"
  shows "settles N now (hm_MessageID msg) c (route_step route net tr ctx now msg opts c)"
proof (cases "standalone c")
  case False
  let ?m = "hm_MessageID msg"
  obtain r c1 where d: "dispatchViaGRPC net msg opts c = (r, c1)" by fastforce
  let ?c2 = "settle_dispatch msg opts r c1"
  have q: "quiet c c1" "quiet c1 ?c2" by (rule quiet.frame_dispatch [OF d], rule quiet.frame_settle)
  have left: "reroutes_left N now ?m c1 = reroutes_left N now ?m c" "reroutes_left N now ?m ?c2 = reroutes_left N now ?m c"
    using reroutes_left_quiet [OF q(1)] reroutes_left_quiet [OF q(2)] by simp_all
  have "settles N now ?m ?c2 (reroute_misses route net now msg opts r ?c2)"
    unfolding reroute_misses_def Let_def
    by (auto intro!: reroute_all_settles decide_settles [OF assms(1,2)] route simp: left settles_def [where res = "Some _"])
  moreover have "reroutes_left N now ?m c'' = reroutes_left N now ?m c'" if "finish_route net x msg opts r b c' = (err, c'')" for x b c' err c''
    using reroutes_left_quiet [OF quiet.frame_finish, of N now ?m net x msg opts r b c'] that by simp
  ultimately show ?thesis using False d left
    by (auto simp: route_step_def settles_def Let_def split: option.splits prod.splits)
qed (simp add: route_step_def settles_def)

lemma route_settles:
  assumes "finite N" "index_within net N" "reroutes_left N now (hm_MessageID msg) c < n"
  shows "settles N now (hm_MessageID msg) c (routeToCluster n net tr ctx now msg opts c)"
  using assms(3)
proof (induction n arbitrary: c opts)
  case (Suc n)
  then show ?case by (simp add: route_step_settles [OF assms(1,2)])
qed simp

lemma reroutes_left_bound:
  assumes "finite N" shows "reroutes_left N now m c \<le> 2 * card N + 1"
  using card_mono [OF assms, of "N - ge_attempted (guard_entry now False m c)"] by (simp add: reroutes_left_def Let_def)


section \<open>A route that succeeds has handed the message over\<close>

text \<open>
  \<open>D\<close> says of the outside world that some node or channel has taken the message.  It stays true, and every answer that
  the code counts as a delivery makes it true.
\<close>

definition hand_over :: "'w Net \<Rightarrow> ('w \<Rightarrow> bool) \<Rightarrow> bool" where
  "hand_over net D \<longleftrightarrow>
     (\<forall>w w'. net_move net w w' \<longrightarrow> D w \<longrightarrow> D w') \<and>
     (\<forall>a u m w on w'. nt_SendToUser net a u m w = (Reply (True, on), w') \<longrightarrow> D w') \<and>
     (\<forall>a u m w w'. nt_SendToUser net a u m w \<noteq> (RpcPanic, w')) \<and>
     (\<forall>a opts m w w'. nt_Submit net a opts m w = (grpcOutcomeDelivered, w') \<longrightarrow> D w') \<and>
     (\<forall>ch d w k w'. nt_Publish net ch d w = (Some k, w') \<longrightarrow> D w')"

definition carries :: "('w \<Rightarrow> bool) \<Rightarrow> 'w Cluster \<Rightarrow> 'w Cluster \<Rightarrow> bool" where
  "carries D c c' \<longleftrightarrow> (D (ct_world c) \<longrightarrow> D (ct_world c')) \<and> ct_nodeID c' = ct_nodeID c \<and> ct_pubsub c' = ct_pubsub c \<and> ct_grpc c' = ct_grpc c"

lemma carries_frame: "hand_over net D \<Longrightarrow> cluster_frame (carries D) net"
  by unfold_locales (auto simp: carries_def on_hub_def hand_over_def)

lemma carries_guard [simp]: "carries D c (put_guard m e c)" "carries D c (DeleteRerouteGuard m c)" "carries D c c"
  by (simp_all add: carries_def put_guard_def DeleteRerouteGuard_def)

lemma carries_trans: "carries D a b \<Longrightarrow> carries D b c \<Longrightarrow> carries D a c"
  by (simp add: carries_def)

lemma node_hand_over:
  assumes "hand_over net D" "co_Operation opts = OperationTypeSendMessage" "node_outcome net msg opts n c = (grpcOutcomeDelivered, c')"
  shows "D (ct_world c')"
  using assms
  by (auto simp: node_outcome_def dispatchNode_def executeGRPCDispatch_def dispatchNodeViaBatch_def outside_def hand_over_def
      split: option.splits prod.splits if_splits rpc.splits)

lemma nodes_hand_over:
  assumes "hand_over net D" "co_Operation opts = OperationTypeSendMessage" "node_outcomes net msg opts ns c = (outs, c')"
    "grpcOutcomeDelivered \<in> set outs"
  shows "D (ct_world c')"
  using assms(3,4)
proof (induction ns arbitrary: c outs)
  case (Cons n ns)
  then obtain out c1 os where *: "node_outcome net msg opts n c = (out, c1)" "node_outcomes net msg opts ns c1 = (os, c')" "outs = out # os"
    by (auto split: prod.splits)
  have "carries D c1 c'" by (rule cluster_frame.frame_nodes [OF carries_frame [OF assms(1)] *(2)])
  with Cons.IH [OF *(2)] Cons.prems(2) * node_hand_over [OF assms(1,2), of msg n c c1] show ?case by (auto simp: carries_def)
qed simp

text \<open>The tally of the outcomes, written out.\<close>

definition with_outcome :: "grpcDispatchOutcome \<Rightarrow> (grpcDispatchOutcome \<times> string) list \<Rightarrow> string list" where
  "with_outcome o' ons = map snd (filter (\<lambda>(out, _). out = o') ons)"

lemma with_outcome_simps [simp]:
  "with_outcome o' [] = []"
  "with_outcome o' ((out, n) # ons) = (if out = o' then n # with_outcome o' ons else with_outcome o' ons)"
  by (simp_all add: with_outcome_def)

lemma tally_exact:
  "fold tally_outcome ons r =
     \<lparr>rr_rejectedNodes = rr_rejectedNodes r @ with_outcome grpcOutcomeRejected ons,
      rr_grpcDelivered = rr_grpcDelivered r + int (length (with_outcome grpcOutcomeDelivered ons)),
      rr_pubsubFallback = rr_pubsubFallback r @ with_outcome grpcOutcomeFallback ons,
      rr_userMissNodes = rr_userMissNodes r @ with_outcome grpcOutcomeUserMiss ons\<rparr>"
proof (induction ons arbitrary: r)
  case (Cons on ons)
  then show ?case by (cases on; cases "fst on") (auto simp: tally_outcome_def)
qed simp

lemma node_outcomes_length: "node_outcomes net msg opts ns c = (outs, c') \<Longrightarrow> length outs = length ns"
  by (induction ns arbitrary: c outs c') (auto split: prod.splits)

lemma with_outcome_some: "with_outcome out (zip outs ns) \<noteq> [] \<Longrightarrow> out \<in> set outs"
  by (auto simp: with_outcome_def filter_empty_conv dest: set_zip_leftD)

definition p2p_options :: "string \<Rightarrow> ClusterDispatchOptions \<Rightarrow> bool" where
  "p2p_options own opts \<longleftrightarrow> co_Operation opts = OperationTypeSendMessage \<and> co_TargetNodeID opts = [] \<and> own \<notin> set (co_TargetNodeIDs opts)"

lemma envelope_keeps [simp]:
  "co_Operation (envelope_options msg opts) = co_Operation opts"
  "co_TargetNodeID (envelope_options msg opts) = co_TargetNodeID opts"
  "co_TargetNodeIDs (envelope_options msg opts) = co_TargetNodeIDs opts"
  "co_TargetUserID (envelope_options msg opts) = co_TargetUserID opts"
  by (simp_all add: envelope_options_def)

lemma not_own_node: "ct_nodeID c \<notin> set (getAllClusterNodeIDs c)"
  by (simp add: getAllClusterNodeIDs_def split: option.splits)

lemma with_outcome_mem: "n \<in> set (with_outcome out (zip outs ns)) \<Longrightarrow> n \<in> set ns"
  by (auto simp: with_outcome_def dest: set_zip_rightD)

lemma fallback_not_own:
  assumes "p2p_options (ct_nodeID c) opts" "dispatchViaGRPC net msg opts c = (r, c')"
  shows "ct_nodeID c \<notin> set (rr_pubsubFallback r)"
  using assms not_own_node [of c]
  by (auto simp: dispatchViaGRPC_def Let_def p2p_options_def tally_exact no_route_def resolveGRPCTargetNodes_def
      split: if_splits prod.splits dest: with_outcome_mem)

lemma dispatch_hand_over:
  assumes "hand_over net D" "p2p_options own opts" "dispatchViaGRPC net msg opts c = (r, c')" "rr_grpcDelivered r > 0"
  shows "D (ct_world c')"
proof -
  let ?o = "envelope_options msg opts"
  let ?t = "resolveGRPCTargetNodes ?o c"
  from assms(2-4) obtain outs where outs: "node_outcomes net msg ?o ?t c = (outs, c')" "r = fold tally_outcome (zip outs ?t) no_route"
    by (auto simp: dispatchViaGRPC_def Let_def p2p_options_def no_route_def split: if_splits prod.splits)
  with assms(4) have "with_outcome grpcOutcomeDelivered (zip outs ?t) \<noteq> []" by (auto simp: tally_exact no_route_def)
  from nodes_hand_over [OF assms(1) _ outs(1) with_outcome_some [OF this]] assms(2) show ?thesis by (simp add: p2p_options_def)
qed

text \<open>A command that succeeds has published; so has a whole pipeline whose last error is nil.\<close>

lemma publish_hand_over:
  assumes "hand_over net D" "fold (publish_node net d) ns (a, c) = ((dead, True), c')" "ns \<noteq> []"
  shows "D (ct_world c')"
  using assms(2,3)
proof (induction ns rule: rev_induct)
  case (snoc n ns)
  obtain dead1 ok1 c1 where st: "fold (publish_node net d) ns (a, c) = ((dead1, ok1), c1)" by (metis prod.collapse)
  with snoc.prems(1) have "publish_node net d n ((dead1, ok1), c1) = ((dead, True), c')" by simp
  with assms(1) show ?case
    by (auto simp: publish_node_def outside_def hand_over_def split: prod.splits option.splits if_splits)
qed simp

lemma finish_hand_over:
  assumes D: "hand_over net D" and fin: "finish_route net d msg opts r rerouted c = (None, c')"
    and own: "ct_nodeID c \<notin> set (rr_pubsubFallback r)"
    and so_far: "rerouted \<or> rr_grpcDelivered r > 0 \<Longrightarrow> D (ct_world c)" and "0 \<le> rr_grpcDelivered r"
  shows "D (ct_world c')"
proof (cases "rerouted \<or> rr_grpcDelivered r > 0")
  case True
  from so_far [OF this] cluster_frame.frame_finish [OF carries_frame [OF D], of c d msg opts r rerouted] fin show ?thesis
    by (simp add: carries_def)
next
  case False
  let ?sent = "if rr_pubsubFallback r \<noteq> [] then publishToTargetedNodes net d (rr_pubsubFallback r) c
    else (case publishToCluster net d c of (ok, c) \<Rightarrow> (([], ok), c))"
  obtain dead ok c1 where sent: "?sent = ((dead, ok), c1)" by (metis prod.collapse)
  have ps: "ct_pubsub c" "ok" "carries D c1 c'"
    using fin False assms(5) sent
    by (auto simp: finish_route_def Let_def split: if_splits prod.splits
        intro: cluster_frame.frame_store [OF carries_frame [OF D]]
          carries_trans [OF cluster_frame.frame_store(2) [OF carries_frame [OF D]] cluster_frame.frame_dead [OF carries_frame [OF D]]])
  have "D (ct_world c1)"
  proof (cases "rr_pubsubFallback r = []")
    case True
    with sent ps D show ?thesis by (auto simp: publishToCluster_def outside_def hand_over_def split: prod.splits)
  next
    case False
    with own have "filter (\<lambda>n. n \<noteq> ct_nodeID c) (rr_pubsubFallback r) \<noteq> []" by (cases "rr_pubsubFallback r") auto
    from publish_hand_over [OF D _ this, of d "([], True)" c dead c1] False sent ps show ?thesis by (simp add: publishToTargetedNodes_def)
  qed
  with ps(3) show ?thesis by (simp add: carries_def)
qed

lemma delivered_nonneg: "dispatchViaGRPC net msg opts c = (r, c') \<Longrightarrow> 0 \<le> rr_grpcDelivered r"
  by (auto simp: dispatchViaGRPC_def Let_def tally_exact no_route_def split: if_splits prod.splits)

text \<open>What a nested call does to the predicate: it carries it, and a nil error establishes it.\<close>

definition honest :: "('w \<Rightarrow> bool) \<Rightarrow> (ClusterDispatchOptions \<Rightarrow> 'w Cluster \<Rightarrow> (route_error option \<times> 'w Cluster) option) \<Rightarrow> bool" where
  "honest D route \<longleftrightarrow> (\<forall>opts c err c'. route opts c = Some (err, c') \<longrightarrow> carries D c c' \<and>
     (p2p_options (ct_nodeID c) opts \<longrightarrow> \<not> standalone c \<longrightarrow> err = None \<longrightarrow> D (ct_world c')))"

lemma honestD:
  assumes "honest D route" "route opts c = Some (err, c')"
  shows "carries D c c'" "p2p_options (ct_nodeID c) opts \<Longrightarrow> \<not> standalone c \<Longrightarrow> err = None \<Longrightarrow> D (ct_world c')"
  using assms unfolding honest_def by blast+

lemma rejected_carries: "markRerouteRejected now m n c = (e, c') \<Longrightarrow> carries D c c'"
  by (auto simp: markRerouteRejected_def Let_def split: if_splits)

lemma decide_honest:
  assumes D: "hand_over net D" and route: "honest D route" and on: "\<not> standalone c"
    and dec: "decideUserNotFoundReroute route net now msg u n app ns c = Some (ok, c')"
  shows "carries D c c' \<and> (ok \<longrightarrow> D (ct_world c'))"
proof (cases "ct_index c")
  case True
  let ?m = "hm_MessageID msg"
  obtain e c1 where rej: "markRerouteRejected now ?m n c = (e, c1)" by fastforce
  obtain ids c2 where q: "query_nodes net app ns u c1 = (ids, c2)" by fastforce
  have c2: "carries D c c2"
    using rejected_carries [OF rej] cluster_frame.frame_query [OF carries_frame [OF D] q] by (rule carries_trans)
  show ?thesis
  proof (cases ids)
    case (Some nodeIDs)
    let ?e = "guard_entry now False ?m c2"
    let ?cand = "filter (\<lambda>n. n \<noteq> [] \<and> n \<noteq> ct_nodeID c2 \<and> n \<notin> ge_attempted ?e \<and> n \<notin> ge_rejected ?e) nodeIDs"
    let ?c3 = "put_guard ?m (?e\<lparr>ge_attempted := ge_attempted ?e \<union> set ?cand\<rparr>) c2"
    let ?opts = "no_options\<lparr>co_Operation := OperationTypeSendMessage, co_TargetNodeIDs := ?cand, co_TargetUserID := u\<rparr>"
    have c3: "carries D c ?c3" "p2p_options (ct_nodeID ?c3) ?opts" "\<not> standalone ?c3"
      using c2 on by (auto intro: carries_trans simp: p2p_options_def no_options_def put_guard_def carries_def)
    have off: "carries D c (DeleteRerouteGuard ?m (store_offline msg c2))"
      by (rule carries_trans [OF c2 carries_trans [OF cluster_frame.frame_store(1) [OF carries_frame [OF D]] carries_guard(2)]])
    show ?thesis
    proof (cases "?cand = []")
      case True
      then show ?thesis using dec rej q Some \<open>ct_index c\<close> c2 off
        by (auto simp: decideUserNotFoundReroute_def Let_def split: if_splits)
    next
      case False
      with dec rej q Some \<open>ct_index c\<close> obtain err where r: "route ?opts ?c3 = Some (err, c')" "ok \<longleftrightarrow> err = None"
        by (auto simp: decideUserNotFoundReroute_def Let_def split: option.splits)
      with carries_trans [OF c3(1) honestD(1) [OF route r(1)]] honestD(2) [OF route r(1) c3(2,3)] show ?thesis by blast
    qed
  qed (use dec rej q c2 True in \<open>auto simp: decideUserNotFoundReroute_def\<close>)
qed (use dec in \<open>auto simp: decideUserNotFoundReroute_def\<close>)

lemma reroute_all_honest:
  assumes dec: "\<And>n c ok c'. \<not> standalone c \<Longrightarrow> decide n c = Some (ok, c') \<Longrightarrow> carries D c c' \<and> (ok \<longrightarrow> D (ct_world c'))"
    and "\<not> standalone c" "b \<longrightarrow> D (ct_world c)" "reroute_all decide ns (b, c) = Some (b', c')"
  shows "carries D c c' \<and> (b' \<longrightarrow> D (ct_world c'))"
  using assms(2-)
proof (induction ns arbitrary: b c)
  case (Cons n ns)
  then obtain ok c1 where 1: "decide n c = Some (ok, c1)" "reroute_all decide ns (ok \<or> b, c1) = Some (b', c')"
    by (auto split: option.splits)
  from dec [OF Cons.prems(1) 1(1)] Cons.prems Cons.IH [OF _ _ 1(2)] show ?case by (auto simp: carries_def)
qed simp

lemma step_honest:
  assumes D: "hand_over net D" and route: "honest D route"
  shows "honest D (route_step route net tr ctx now msg)"
  unfolding honest_def
proof (intro allI impI)
  fix opts c err c' assume step: "route_step route net tr ctx now msg opts c = Some (err, c')"
  show "carries D c c' \<and> (p2p_options (ct_nodeID c) opts \<longrightarrow> \<not> standalone c \<longrightarrow> err = None \<longrightarrow> D (ct_world c'))"
  proof (cases "standalone c")
    case False
    note frame = carries_frame [OF D]
    obtain r c1 where d: "dispatchViaGRPC net msg opts c = (r, c1)" by fastforce
    note c1 = cluster_frame.frame_dispatch [OF frame d]
    show ?thesis
    proof (cases "rr_rejectedNodes r \<noteq> [] \<and> rr_grpcDelivered r = 0")
      case True
      with False d c1 step show ?thesis by (auto simp: route_step_def)
    next
      case go: False
      let ?c2 = "settle_dispatch msg opts r c1"
      from False d go step obtain b c3 where
        mis: "reroute_misses route net now msg opts r ?c2 = Some (b, c3)" and
        fin: "finish_route net (build_dispatch tr ctx now (ct_nodeID c) msg opts) msg opts r b c3 = (err, c')"
        by (auto simp: route_step_def Let_def split: option.splits prod.splits if_splits)
      have c2: "carries D c ?c2" using c1 cluster_frame.frame_settle [OF frame] by (rule carries_trans)
      with False have on: "\<not> standalone ?c2" by (simp add: carries_def)
      have c3: "carries D ?c2 c3 \<and> (b \<longrightarrow> D (ct_world c3))"
      proof (cases "directed opts")
        case True
        with mis show ?thesis unfolding reroute_misses_def Let_def if_P [OF True]
          by (intro reroute_all_honest [OF decide_honest [OF D route] on]) auto
      qed (use mis in \<open>auto simp: reroute_misses_def Let_def\<close>)
      have all: "carries D c c'"
        using c2 c3 cluster_frame.frame_finish [OF frame, of c3 "build_dispatch tr ctx now (ct_nodeID c) msg opts" msg opts r b] fin
        by (auto simp: carries_def)
      have "D (ct_world c')" if p2p: "p2p_options (ct_nodeID c) opts" and "err = None"
      proof (rule finish_hand_over [OF D])
        show "finish_route net (build_dispatch tr ctx now (ct_nodeID c) msg opts) msg opts r b c3 = (None, c')" using fin that by simp
        show "ct_nodeID c3 \<notin> set (rr_pubsubFallback r)" using fallback_not_own [OF p2p d] c2 c3 by (simp add: carries_def)
        show "0 \<le> rr_grpcDelivered r" by (rule delivered_nonneg [OF d])
        assume "b \<or> rr_grpcDelivered r > 0"
        then show "D (ct_world c3)"
          using c3 dispatch_hand_over [OF D p2p d] cluster_frame.frame_settle [OF frame, of c1 msg opts r] by (auto simp: carries_def)
      qed
      with all show ?thesis by blast
    qed
  qed (use step in \<open>auto simp: route_step_def\<close>)
qed

lemma route_is_honest: "hand_over net D \<Longrightarrow> honest D (routeToCluster n net tr ctx now msg)"
  by (induction n) (simp_all add: honest_def [of _ "\<lambda>_ _. None"] step_honest)

text \<open>C7: 
  The promise made to the sender: when no call panics, an answer \<open>routed = true\<close> means that some node has confirmed the
  message or that it has been published, on the first attempt or on a nested one, and it names the nodes it was meant for.
\<close>

theorem routed_is_handed_over:
  assumes "hand_over net D" "checkAndRouteToNode n net tr ctx now userID msg preset c = Some ((True, nodes, err), c')"
  shows "D (ct_world c') \<and> err = None \<and> nodes \<noteq> [] \<and> ct_nodeID c \<notin> set nodes"
proof -
  from assms(2) obtain ids c1 where u: "user_nodes net ctx now userID preset c = (Some ids, c1)" "\<not> standalone c"
    "nodes = filter (\<lambda>n. n \<noteq> [] \<and> n \<noteq> ct_nodeID c1) ids" "nodes \<noteq> []" "err = None"
    and r: "routeToCluster n net tr ctx now msg
       (no_options\<lparr>co_Operation := OperationTypeSendMessage, co_TargetNodeIDs := nodes, co_TargetUserID := userID\<rparr>)
       (markRerouteAttempted now (hm_MessageID msg) nodes True c1) = Some (None, c')"
    by (auto simp: checkAndRouteToNode_def Let_def split: if_splits option.splits prod.splits)
  have cfg: "ct_nodeID c1 = ct_nodeID c" "ct_pubsub c1 = ct_pubsub c" "ct_grpc c1 = ct_grpc c"
    using u(1) by (auto simp: user_nodes_def queryUserNodes_def outside_def Let_def split: option.splits prod.splits)
  have "carries D c1 (markRerouteAttempted now (hm_MessageID msg) nodes True c1)" by (simp add: markRerouteAttempted_def Let_def)
  with r u(2,3) cfg route_is_honest [OF assms(1), of n tr ctx now msg] have "D (ct_world c')"
    by (fastforce simp: honest_def carries_def p2p_options_def no_options_def)
  with u cfg show ?thesis by auto
qed

section \<open>A user who moves\<close>

text \<open>
  The demonstration world logs the addresses that were called.  The index first knows node A only; by the time A has
  answered that the user is not there, it knows B as well.
\<close>

definition moving_net :: "(string \<Rightarrow> (bool \<times> bool) rpc) \<Rightarrow> string list Net" where
  "moving_net answer =
     \<lparr>nt_SendToUser = \<lambda>addr u m w. (answer addr, w @ [addr]),
      nt_KickUser = \<lambda>addr opts w. (RpcFailed, w),
      nt_BroadcastGroup = \<lambda>addr g opts m w. (if g = ''g1'' then Reply () else RpcFailed, w @ [addr @ g]),
      nt_NotifyObservers = \<lambda>addr opts m w. (RpcFailed, w),
      nt_Submit = \<lambda>addr opts m w. (grpcOutcomeFallback, w),
      nt_Marshal = \<lambda>m. True,
      nt_Publish = \<lambda>ch d w. (None, w),
      nt_GetUserNodes = \<lambda>app ns u w. (Some (if w = [] then [''A''] else [''A'', ''B'']), w)\<rparr>"

definition moving_answer :: "string \<Rightarrow> (bool \<times> bool) rpc" where
  "moving_answer addr = (if addr = ''b'' then Reply (True, True) else Reply (False, False))"

definition moving_cluster :: "string list Cluster" where
  "moving_cluster = \<lparr>ct_hub = two_hub, ct_nodeID = ''X'', ct_pubsub = False, ct_grpc = True, ct_pool = True, ct_batch = False,
     ct_registry = Some (NewNodeRegistry ''X'' ''x''\<lparr>nr_nodes := [(''A'', ''a''), (''B'', ''b'')]\<rparr>), ct_index = True,
     ct_cache = \<lparr>nc_entries = [], nc_size = 0, nc_ttl = 0, nc_max = 0, nc_next = 0\<rparr>, ct_guard = [], ct_probes = [], ct_world = []\<rparr>"

lemmas moving_simps = moving_cluster_def moving_net_def moving_answer_def route_step_def dispatchViaGRPC_def envelope_options_def
  resolveGRPCTargetNodes_def node_outcome_def dispatchNode_def executeGRPCDispatch_def outside_def no_options_def no_route_def tally_outcome_def
  reroute_misses_def settle_dispatch_def directed_def decideUserNotFoundReroute_def markRerouteRejected_def markRerouteAttempted_def
  guard_entry_def put_guard_def fresh_guard_def rerouteGuardTTL_def query_nodes_def finish_route_def GetNodeAddr_def NewNodeRegistry_def
  cluster_metric_def on_hub_def

lemma moving_routed:
  "\<exists>c'. checkAndRouteToNode 6 (moving_net moving_answer) (\<lambda>_. []) demo_ctx 0 ''u1'' zero_message (Some [''A'']) moving_cluster
     = Some ((True, [''A''], None), c') \<and> ct_world c' = [''a'', ''b'']"
  by (simp add: checkAndRouteToNode_def user_nodes_def numeral_eq_Suc) (simp add: moving_simps Let_def)

lemma moving_within: "index_within (moving_net answer) {''A'', ''B''}"
  by (auto simp: index_within_def moving_net_def split: if_splits)


lemma moving_hand_over: "hand_over (moving_net moving_answer) (\<lambda>w. ''b'' \<in> set w)"
proof -
  have "''b'' \<in> set w'" if "net_move (moving_net moving_answer) w w'" "''b'' \<in> set w" for w w'
    using that by (cases rule: net_move.cases) (auto simp: moving_net_def)
  then show ?thesis by (auto simp: hand_over_def moving_net_def moving_answer_def split: if_splits)
qed

theorem routed_is_handed_over_witness:
  "\<exists>c'. checkAndRouteToNode 6 (moving_net moving_answer) (\<lambda>_. []) demo_ctx 0 ''u1'' zero_message (Some [''A'']) moving_cluster
     = Some ((True, [''A''], None), c') \<and> ''b'' \<in> set (ct_world c')"
proof -
  obtain c' where run: "checkAndRouteToNode 6 (moving_net moving_answer) (\<lambda>_. []) demo_ctx 0 ''u1'' zero_message (Some [''A'']) moving_cluster
     = Some ((True, [''A''], None), c')" using moving_routed by blast
  from routed_is_handed_over [OF moving_hand_over run] run show ?thesis by auto
qed

section \<open>What the outcomes add up to\<close>

text \<open>
  One gRPC dispatch over known targets: every target is counted in exactly one of the four outcomes, in the order of the
  targets, and nothing but the listed targets is called.
\<close>

theorem dispatch_partition:
  assumes "ct_grpc c" "nt_Marshal net msg" "co_Operation opts \<noteq> OperationTypeBroadcast"
    and "dispatchViaGRPC net msg opts c = (r, c')"
  shows "\<exists>delivered. length delivered = nat (rr_grpcDelivered r) \<and>
    mset (delivered @ rr_rejectedNodes r @ rr_userMissNodes r @ rr_pubsubFallback r) = mset (resolveGRPCTargetNodes opts c)"
proof -
  let ?o = "envelope_options msg opts" and ?t = "resolveGRPCTargetNodes opts c"
  have split: "mset (with_outcome grpcOutcomeDelivered ons @ with_outcome grpcOutcomeRejected ons @ with_outcome grpcOutcomeUserMiss ons @
     with_outcome grpcOutcomeFallback ons) = mset (map snd ons)" for ons
  proof (induction ons)
    case (Cons on ons)
    then show ?case by (cases on; cases "fst on") auto
  qed simp
  have t: "resolveGRPCTargetNodes ?o c = ?t" by (simp add: resolveGRPCTargetNodes_def)
  show ?thesis
  proof (cases "?t = []")
    case True
    with assms t show ?thesis by (auto simp: dispatchViaGRPC_def Let_def no_route_def)
  next
    case False
    with assms t obtain outs where outs: "node_outcomes net msg ?o ?t c = (outs, c')" "r = fold tally_outcome (zip outs ?t) no_route"
      by (auto simp: dispatchViaGRPC_def Let_def split: prod.splits)
    from node_outcomes_length [OF this(1)] have "map snd (zip outs ?t) = ?t" by simp
    with split [of "zip outs ?t"] outs(2) show ?thesis
      by (intro exI [of _ "with_outcome grpcOutcomeDelivered (zip outs ?t)"]) (simp add: tally_exact no_route_def)
  qed
qed

definition moving_opts :: ClusterDispatchOptions where
  "moving_opts = no_options\<lparr>co_Operation := OperationTypeSendMessage, co_TargetNodeIDs := [''A'', ''B'', ''C''], co_TargetUserID := ''u1''\<rparr>"

theorem dispatch_partition_witness:
  "\<exists>delivered r c'. dispatchViaGRPC (moving_net moving_answer) zero_message moving_opts moving_cluster = (r, c') \<and>
     length delivered = nat (rr_grpcDelivered r) \<and>
     mset (delivered @ rr_rejectedNodes r @ rr_userMissNodes r @ rr_pubsubFallback r) = mset [''A'', ''B'', ''C'']"
proof -
  obtain r c' where run: "dispatchViaGRPC (moving_net moving_answer) zero_message moving_opts moving_cluster = (r, c')" by fastforce
  have "ct_grpc moving_cluster" "nt_Marshal (moving_net moving_answer) zero_message" "co_Operation moving_opts \<noteq> OperationTypeBroadcast"
    by (simp_all add: moving_cluster_def moving_net_def moving_opts_def)
  from dispatch_partition [OF this run] run show ?thesis
    unfolding resolveGRPCTargetNodes_def by (auto simp: moving_opts_def no_options_def)
qed

text \<open>
  A worker that panics leaves its slot at the zero value, which is \<open>grpcOutcomeDelivered\<close>.  A directed message whose only call
  panics is reported as routed: no fallback, no publication, nothing in the offline queue.
\<close>

theorem panic_counted_delivered:
  "\<exists>c'. checkAndRouteToNode 6 (moving_net (\<lambda>_. RpcPanic)) (\<lambda>_. []) demo_ctx 0 ''u1'' zero_message (Some [''A'']) moving_cluster
       = Some ((True, [''A''], None), c') \<and>
     ct_world c' = [''a''] \<and> nd_offline (hb_node (ct_hub c')) = nd_offline (hb_node (ct_hub moving_cluster))"
  by (simp add: checkAndRouteToNode_def user_nodes_def numeral_eq_Suc) (simp add: moving_simps Let_def metric_def)

text \<open>
  One group that gets through hides the failure of the others: the node counts as delivered and the second group is
  neither published nor reported.
\<close>

theorem group_failure_hidden:
  "\<exists>c'. routeToCluster 6 ((moving_net moving_answer)\<lparr>nt_Publish := (\<lambda>ch d w. (Some 1, w @ [''published'']))\<rparr>) (\<lambda>_. []) demo_ctx 0 zero_message
      (no_options\<lparr>co_Operation := OperationTypeGroupsBroadcast, co_GroupIDs := [''g1'', ''g2''], co_TargetNodeIDs := [''A'']\<rparr>)
      (moving_cluster\<lparr>ct_pubsub := True\<rparr>) = Some (None, c') \<and> ct_world c' = [''ag1'', ''ag2'']"
  by (simp add: numeral_eq_Suc) (simp add: moving_simps Let_def grpcBroadcastGroups_def group_call_def zero_message_def)

end
