(* ===== verification/Grpc_Batch.thy ===== *)
theory Grpc_Batch
  imports Cluster
begin

text \<open>
  The micro-batches of cluster/grpc_batch.go: calls to one node that arrive within a window are sent as one RPC and every
  caller waits for its own result.

  \<^item> \<open>classifyOutcome\<close> and the mapping of operations are functions.
  \<^item> \<open>gb_step\<close> is the dispatcher with all its callers.  What happens under the mutex is one step; a batch that is being sent
    is a flight, and its answer, whatever it is, comes in a step of its own.  \<open>gb_history\<close> remembers the answered batches.
  \<^item> A buffer can be flushed at any time (a full batch, a timer, a timer that was stopped too late, \<open>Close\<close>).
\<close>

section \<open>Operations and outcomes\<close>

datatype DispatchOperation = DISPATCH_OPERATION_UNSPECIFIED | DISPATCH_SEND_MESSAGE | DISPATCH_KICK_USER | DISPATCH_GROUP_BROADCAST
  | DISPATCH_OBSERVER_NOTIFY

definition ToProtoDispatchOperation :: "OperationType \<Rightarrow> DispatchOperation" where
  "ToProtoDispatchOperation op =
     (if op = OperationTypeSendMessage then DISPATCH_SEND_MESSAGE
      else if op = OperationTypeKickUser then DISPATCH_KICK_USER
      else if op \<in> {OperationTypeGroupBroadcast, OperationTypeGroupsBroadcast} then DISPATCH_GROUP_BROADCAST
      else if op = OperationTypeObserverNotify then DISPATCH_OBSERVER_NOTIFY
      else DISPATCH_OPERATION_UNSPECIFIED)"

fun FromProtoDispatchOperation :: "DispatchOperation \<Rightarrow> OperationType" where
  "FromProtoDispatchOperation DISPATCH_SEND_MESSAGE = OperationTypeSendMessage"
| "FromProtoDispatchOperation DISPATCH_KICK_USER = OperationTypeKickUser"
| "FromProtoDispatchOperation DISPATCH_GROUP_BROADCAST = OperationTypeGroupBroadcast"
| "FromProtoDispatchOperation DISPATCH_OBSERVER_NOTIFY = OperationTypeObserverNotify"
| "FromProtoDispatchOperation DISPATCH_OPERATION_UNSPECIFIED = []"

record DispatchItem =
  di_Operation :: OperationType
  di_AppID :: string
  di_Namespace :: string
  di_GroupIDs :: "string list"
  di_TargetUserID :: string
  di_Reason :: string
  di_MessageData :: frame
  di_ExcludeSender :: bool
  di_SenderID :: string
  di_TraceID :: string

definition buildDispatchItem :: "('md GoContext \<Rightarrow> string) \<Rightarrow> 'md GoContext \<Rightarrow> ClusterDispatchOptions \<Rightarrow> frame \<Rightarrow> string \<Rightarrow> DispatchItem" where
  "buildDispatchItem tr ctx opts msgData gid =
     \<lparr>di_Operation = co_Operation opts, di_AppID = co_AppID opts, di_Namespace = co_Namespace opts,
      di_GroupIDs = (if gid \<noteq> [] then [gid] else co_GroupIDs opts), di_TargetUserID = co_TargetUserID opts, di_Reason = co_Reason opts,
      di_MessageData = msgData, di_ExcludeSender = co_ExcludeSender opts, di_SenderID = co_SenderID opts, di_TraceID = tr ctx\<rparr>"

record DispatchResult =
  dr_Success :: bool
  dr_UserOnline :: bool
  dr_Error :: string
  dr_Count :: int

definition classifyOutcome :: "OperationType \<Rightarrow> DispatchResult option \<Rightarrow> grpcDispatchOutcome" where
  "classifyOutcome op res =
     (case res of
        None \<Rightarrow> grpcOutcomeFallback
      | Some r \<Rightarrow>
          if op = OperationTypeSendMessage \<and> \<not> dr_Success r then (if dr_UserOnline r then grpcOutcomeRejected else grpcOutcomeUserMiss)
          else if dr_Error r \<noteq> [] then grpcOutcomeFallback
          else if op = OperationTypeSendMessage then grpcOutcomeDelivered
          else if op = OperationTypeKickUser then (if dr_Count r > 0 then grpcOutcomeDelivered else grpcOutcomeUserMiss)
          else grpcOutcomeDelivered)"

text \<open>The answer to a batch: an error, or a list of results, some of them nil, of any length.\<close>

type_synonym batch_answer = "DispatchResult option list option"

definition outcome_at :: "batch_answer \<Rightarrow> nat \<Rightarrow> OperationType \<Rightarrow> grpcDispatchOutcome" where
  "outcome_at answer k op =
     (case answer of
        None \<Rightarrow> grpcOutcomeFallback
      | Some results \<Rightarrow> if k < length results then classifyOutcome op (results ! k) else grpcOutcomeFallback)"

section \<open>The dispatcher\<close>

record nodeBatch =
  nb_pending :: "nat list"
  nb_timer :: bool

datatype call_pc = CallIdle | CallFull string | CallWaiting string | CallReturned grpcDispatchOutcome | CallRefused | CallGaveUp string

record GRPCBatchDispatcher =
  gb_maxBatch :: int
  gb_closed :: bool
  gb_buffers :: "(string, nodeBatch) gomap"
  gb_flights :: "(string \<times> nat list) multiset"
  gb_history :: "(string \<times> nat list \<times> batch_answer) list"
  gb_item :: "nat \<Rightarrow> DispatchItem"
  gb_call :: "nat \<Rightarrow> call_pc"
  gb_ch :: "nat \<Rightarrow> grpcDispatchOutcome option"

abbreviation op_of :: "GRPCBatchDispatcher \<Rightarrow> nat \<Rightarrow> OperationType" where
  "op_of s i \<equiv> di_Operation (gb_item s i)"

definition buffer_at :: "string \<Rightarrow> GRPCBatchDispatcher \<Rightarrow> nodeBatch" where
  "buffer_at addr s = (case map_of (gb_buffers s) addr of None \<Rightarrow> \<lparr>nb_pending = [], nb_timer = False\<rparr> | Some b \<Rightarrow> b)"

text \<open>The first part of \<open>Submit\<close>, under the mutex.\<close>

definition enqueue :: "nat \<Rightarrow> string \<Rightarrow> DispatchItem \<Rightarrow> GRPCBatchDispatcher \<Rightarrow> GRPCBatchDispatcher" where
  "enqueue i addr item s =
     (let b = buffer_at addr s;
          pending = nb_pending b @ [i];
          flushNow = (gb_maxBatch s > 0 \<and> int (length pending) \<ge> gb_maxBatch s)
      in s\<lparr>gb_buffers := AList.update addr \<lparr>nb_pending = pending, nb_timer = nb_timer b \<or> length pending = 1\<rparr> (gb_buffers s),
           gb_item := (gb_item s)(i := item),
           gb_ch := (gb_ch s)(i := None),
           gb_call := (gb_call s)(i := if flushNow then CallFull addr else CallWaiting addr)\<rparr>)"

text \<open>The critical section of \<open>flush\<close>: the buffer leaves the map and is on its way.\<close>

definition gb_flush :: "string \<Rightarrow> GRPCBatchDispatcher \<Rightarrow> GRPCBatchDispatcher" where
  "gb_flush addr s =
     (case map_of (gb_buffers s) addr of
        None \<Rightarrow> s
      | Some b \<Rightarrow>
          if nb_pending b = [] then s
          else s\<lparr>gb_buffers := AList.delete addr (gb_buffers s), gb_flights := add_mset (addr, nb_pending b) (gb_flights s)\<rparr>)"

text \<open>\<open>sendAndResolve\<close> once the RPC is over: a non-blocking send on the channel of every caller, whose buffer holds one value.\<close>

definition answer_call :: "batch_answer \<Rightarrow> nat \<times> nat \<Rightarrow> GRPCBatchDispatcher \<Rightarrow> GRPCBatchDispatcher" where
  "answer_call answer ki s =
     (case ki of (k, i) \<Rightarrow>
        if gb_ch s i = None then s\<lparr>gb_ch := (gb_ch s)(i := Some (outcome_at answer k (op_of s i)))\<rparr> else s)"

definition resolve :: "string \<times> nat list \<Rightarrow> batch_answer \<Rightarrow> GRPCBatchDispatcher \<Rightarrow> GRPCBatchDispatcher" where
  "resolve fl answer s =
     (let s = fold (answer_call answer) (enumerate 0 (snd fl)) s
      in s\<lparr>gb_flights := gb_flights s - {#fl#}, gb_history := gb_history s @ [(fst fl, snd fl, answer)]\<rparr>)"

inductive gb_step :: "GRPCBatchDispatcher \<Rightarrow> GRPCBatchDispatcher \<Rightarrow> bool" where
  submit: "gb_call s i = CallIdle \<Longrightarrow> \<not> gb_closed s \<Longrightarrow> gb_step s (enqueue i addr item s)"
| refuse: "gb_call s i = CallIdle \<Longrightarrow> gb_closed s \<Longrightarrow> gb_step s (s\<lparr>gb_call := (gb_call s)(i := CallRefused)\<rparr>)"
| full: "gb_call s i = CallFull addr \<Longrightarrow> gb_step s ((gb_flush addr s)\<lparr>gb_call := (gb_call s)(i := CallWaiting addr)\<rparr>)"
| flush: "gb_step s (gb_flush addr s)"
| answered: "fl \<in># gb_flights s \<Longrightarrow> gb_step s (resolve fl answer s)"
| receive: "gb_call s i = CallWaiting addr \<Longrightarrow> gb_ch s i = Some out \<Longrightarrow> gb_step s (s\<lparr>gb_call := (gb_call s)(i := CallReturned out)\<rparr>)"
| giveup: "gb_call s i = CallWaiting addr \<Longrightarrow> gb_step s (s\<lparr>gb_call := (gb_call s)(i := CallGaveUp addr)\<rparr>)"
| closing: "gb_step s (s\<lparr>gb_closed := True\<rparr>)"

definition NewGRPCBatchDispatcher :: "int \<Rightarrow> GRPCBatchDispatcher \<Rightarrow> bool" where
  "NewGRPCBatchDispatcher maxBatch s \<longleftrightarrow> gb_maxBatch s = maxBatch \<and> \<not> gb_closed s \<and> gb_buffers s = [] \<and> gb_flights s = {#} \<and> gb_history s = [] \<and>
     (\<forall>i. gb_call s i = CallIdle \<and> gb_ch s i = None)"

section \<open>Every call is in exactly one place\<close>

definition buffered :: "(string, nodeBatch) gomap \<Rightarrow> nat multiset" where
  "buffered bs = sum_list (map (\<lambda>(_, b). mset (nb_pending b)) bs)"

definition flying :: "(string \<times> nat list) multiset \<Rightarrow> nat multiset" where
  "flying fls = (\<Sum>(_, ids) \<in># fls. mset ids)"

definition settled :: "(string \<times> nat list \<times> batch_answer) list \<Rightarrow> nat multiset" where
  "settled hs = sum_list (map (\<lambda>(_, ids, _). mset ids) hs)"

definition everywhere :: "GRPCBatchDispatcher \<Rightarrow> nat multiset" where
  "everywhere s = buffered (gb_buffers s) + flying (gb_flights s) + settled (gb_history s)"

definition accepted_call :: "call_pc \<Rightarrow> bool" where
  "accepted_call pc \<longleftrightarrow> (case pc of CallIdle \<Rightarrow> False | CallRefused \<Rightarrow> False | _ \<Rightarrow> True)"

definition own_answer :: "GRPCBatchDispatcher \<Rightarrow> nat \<Rightarrow> grpcDispatchOutcome \<Rightarrow> bool" where
  "own_answer s i out \<longleftrightarrow>
     (\<exists>(addr, ids, answer) \<in> set (gb_history s). \<exists>k < length ids. ids ! k = i \<and> out = outcome_at answer k (op_of s i))"

definition gb_inv :: "GRPCBatchDispatcher \<Rightarrow> bool" where
  "gb_inv s \<longleftrightarrow>
     distinct (map fst (gb_buffers s)) \<and>
     (\<forall>(a, b) \<in> set (gb_buffers s). nb_pending b \<noteq> [] \<and> nb_timer b) \<and>
     (\<forall>i. count (everywhere s) i = (if accepted_call (gb_call s i) then 1 else 0)) \<and>
     (\<forall>i out. gb_ch s i = Some out \<longrightarrow> own_answer s i out) \<and>
     (\<forall>i out. gb_call s i = CallReturned out \<longrightarrow> own_answer s i out) \<and>
     (\<forall>i. i \<in># settled (gb_history s) \<longrightarrow> gb_ch s i \<noteq> None)"

lemma buffered_simps [simp]: "buffered [] = {#}" "buffered ((a, b) # bs) = mset (nb_pending b) + buffered bs"
  by (simp_all add: buffered_def)

lemma buffered_mem: "i \<in># buffered bs \<longleftrightarrow> (\<exists>a b. (a, b) \<in> set bs \<and> i \<in> set (nb_pending b))"
  by (induction bs) fastforce+

lemma buffered_delete:
  "distinct (map fst bs) \<Longrightarrow> buffered bs = buffered (AList.delete a bs) + (case map_of bs a of None \<Rightarrow> {#} | Some b \<Rightarrow> mset (nb_pending b))"
proof (induction bs)
  case (Cons ab bs)
  obtain a' b where [simp]: "ab = (a', b)" by fastforce
  show ?case
  proof (cases "a = a'")
    case True
    with Cons.prems have "AList.delete a bs = bs" by (simp add: delete_id)
    with True show ?thesis by (simp add: ac_simps)
  next
    case False
    with Cons show ?thesis by simp
  qed
qed simp

lemma buffered_update: "distinct (map fst bs) \<Longrightarrow> buffered (AList.update a b bs) = buffered (AList.delete a bs) + mset (nb_pending b)"
proof (induction bs)
  case (Cons ab bs)
  obtain a' b where [simp]: "ab = (a', b)" by fastforce
  from Cons show ?case by (cases "a = a'") (simp_all add: delete_id ac_simps)
qed simp

lemma update_other: "(a, b) \<in> set (AList.update k v xs) \<Longrightarrow> a \<noteq> k \<Longrightarrow> (a, b) \<in> set xs"
  by (induction xs) (auto split: if_splits)

lemma flying_simps [simp]: "flying {#} = {#}" "flying (add_mset fl fls) = mset (snd fl) + flying fls"
  by (simp_all add: flying_def split: prod.splits)

lemma settled_append [simp]: "settled [] = {#}" "settled (hs @ [(a, ids, ans)]) = settled hs + mset ids"
  by (simp_all add: settled_def)

lemma gb_invI:
  assumes "distinct (map fst (gb_buffers s))" "\<And>a b. (a, b) \<in> set (gb_buffers s) \<Longrightarrow> nb_pending b \<noteq> [] \<and> nb_timer b"
    "\<And>i. count (everywhere s) i = (if accepted_call (gb_call s i) then 1 else 0)"
    "\<And>i out. gb_ch s i = Some out \<Longrightarrow> own_answer s i out" "\<And>i out. gb_call s i = CallReturned out \<Longrightarrow> own_answer s i out"
    "\<And>i. i \<in># settled (gb_history s) \<Longrightarrow> gb_ch s i \<noteq> None"
  shows "gb_inv s"
  using assms unfolding gb_inv_def by blast

lemma gb_invD:
  assumes "gb_inv s"
  shows "distinct (map fst (gb_buffers s))" "(a, b) \<in> set (gb_buffers s) \<Longrightarrow> nb_pending b \<noteq> [] \<and> nb_timer b"
    "count (everywhere s) i = (if accepted_call (gb_call s i) then 1 else 0)"
    "gb_ch s i = Some out \<Longrightarrow> own_answer s i out" "gb_call s i = CallReturned out \<Longrightarrow> own_answer s i out"
    "i \<in># settled (gb_history s) \<Longrightarrow> gb_ch s i \<noteq> None"
  using assms unfolding gb_inv_def by blast+

lemma enqueue_everywhere:
  assumes "gb_inv s" shows "everywhere (enqueue i addr item s) = add_mset i (everywhere s)"
  using buffered_delete [OF gb_invD(1) [OF assms], of addr] buffered_update [OF gb_invD(1) [OF assms], of addr]
  by (auto simp: enqueue_def everywhere_def buffer_at_def Let_def split: option.splits)

lemma enqueue_inv:
  assumes inv: "gb_inv s" and idle: "gb_call s i = CallIdle"
  shows "gb_inv (enqueue i addr item s)"
proof (rule gb_invI)
  let ?t = "enqueue i addr item s"
  have zero: "count (everywhere s) i = 0" using gb_invD(3) [OF inv, of i] idle by (simp add: accepted_call_def)
  then have fresh: "i \<notin># settled (gb_history s)" by (simp add: everywhere_def not_in_iff)
  have own: "own_answer ?t j out" if "own_answer s j out" "j \<noteq> i" for j out
    using that by (simp add: own_answer_def enqueue_def Let_def)
  show "distinct (map fst (gb_buffers ?t))" using gb_invD(1) [OF inv] by (simp add: enqueue_def Let_def distinct_update)
  show "nb_pending b \<noteq> [] \<and> nb_timer b" if "(a, b) \<in> set (gb_buffers ?t)" for a b
  proof (cases "a = addr")
    case True
    with that gb_invD(1) [OF inv] have "b = \<lparr>nb_pending = nb_pending (buffer_at addr s) @ [i], nb_timer = nb_timer (buffer_at addr s) \<or> nb_pending (buffer_at addr s) = []\<rparr>"
      by (auto simp: enqueue_def Let_def update_conv dest!: map_of_is_SomeI [OF distinct_update])
    then show ?thesis using gb_invD(2) [OF inv, of addr] by (auto simp: buffer_at_def split: option.splits dest: map_of_SomeD)
  next
    case False
    with that have "(a, b) \<in> set (gb_buffers s)" by (auto simp: enqueue_def Let_def dest: update_other)
    then show ?thesis by (rule gb_invD(2) [OF inv])
  qed
  show "count (everywhere ?t) j = (if accepted_call (gb_call ?t j) then 1 else 0)" for j
    using gb_invD(3) [OF inv, of j] zero
    by (auto simp: enqueue_everywhere [OF inv]) (auto simp: enqueue_def Let_def accepted_call_def)
  show "own_answer ?t j out" if "gb_ch ?t j = Some out" for j out
    using that own [OF gb_invD(4) [OF inv]] by (auto simp: enqueue_def Let_def split: if_splits)
  show "own_answer ?t j out" if "gb_call ?t j = CallReturned out" for j out
    using that own [OF gb_invD(5) [OF inv]] by (auto simp: enqueue_def Let_def split: if_splits)
  show "gb_ch ?t j \<noteq> None" if "j \<in># settled (gb_history ?t)" for j
    using that fresh gb_invD(6) [OF inv, of j] by (auto simp: enqueue_def Let_def)
qed

lemma flush_everywhere:
  assumes "gb_inv s" shows "everywhere (gb_flush addr s) = everywhere s"
  using buffered_delete [OF gb_invD(1) [OF assms], of addr]
  by (auto simp: gb_flush_def everywhere_def split: option.splits)

lemma flush_fields [simp]:
  "gb_call (gb_flush addr s) = gb_call s" "gb_ch (gb_flush addr s) = gb_ch s" "gb_history (gb_flush addr s) = gb_history s"
  "gb_item (gb_flush addr s) = gb_item s" "gb_maxBatch (gb_flush addr s) = gb_maxBatch s" "gb_closed (gb_flush addr s) = gb_closed s"
  by (simp_all add: gb_flush_def split: option.splits)

lemma flush_inv:
  assumes inv: "gb_inv s"
  shows "gb_inv (gb_flush addr s)"
proof (rule gb_invI)
  have sub: "gb_buffers (gb_flush addr s) = gb_buffers s \<or> gb_buffers (gb_flush addr s) = AList.delete addr (gb_buffers s)"
    by (simp add: gb_flush_def split: option.splits)
  show "distinct (map fst (gb_buffers (gb_flush addr s)))"
    using sub gb_invD(1) [OF inv] by (auto simp: distinct_delete)
  show "nb_pending b \<noteq> [] \<and> nb_timer b" if "(a, b) \<in> set (gb_buffers (gb_flush addr s))" for a b
    using that sub gb_invD(2) [OF inv, of a b] by (auto simp: AList.delete_eq)
qed (use gb_invD(3-6) [OF inv] in \<open>auto simp: flush_everywhere [OF inv] own_answer_def\<close>)

text \<open>A step of one caller that is accepted before and after changes nothing but its own program counter.\<close>

lemma call_inv:
  assumes inv: "gb_inv s" and acc: "accepted_call pc \<longleftrightarrow> accepted_call (gb_call s i)"
    and ret: "\<And>out. pc = CallReturned out \<Longrightarrow> gb_ch s i = Some out"
  shows "gb_inv (s\<lparr>gb_call := (gb_call s)(i := pc)\<rparr>)"
proof (rule gb_invI)
  let ?t = "s\<lparr>gb_call := (gb_call s)(i := pc)\<rparr>"
  have same: "everywhere ?t = everywhere s" "own_answer ?t = own_answer s" by (simp_all add: everywhere_def own_answer_def fun_eq_iff)
  show "count (everywhere ?t) j = (if accepted_call (gb_call ?t j) then 1 else 0)" for j
    using gb_invD(3) [OF inv, of j] acc by (auto simp: same)
  show "own_answer ?t j out" if "gb_call ?t j = CallReturned out" for j out
    using that ret gb_invD(4,5) [OF inv, of j out] by (auto simp: same split: if_splits)
qed (use gb_invD [OF inv] in \<open>auto simp: own_answer_def\<close>)

lemma answer_fold:
  assumes "distinct ids"
  shows "\<exists>ch. fold (answer_call ans) (enumerate n ids) s = s\<lparr>gb_ch := ch\<rparr> \<and>
    (\<forall>j. gb_ch s j \<noteq> None \<or> j \<notin> set ids \<longrightarrow> ch j = gb_ch s j) \<and>
    (\<forall>k < length ids. gb_ch s (ids ! k) = None \<longrightarrow> ch (ids ! k) = Some (outcome_at ans (n + k) (op_of s (ids ! k))))"
  using assms
proof (induction ids arbitrary: n s)
  case Nil
  show ?case by (intro exI [of _ "gb_ch s"]) simp
next
  case (Cons i ids)
  let ?s = "answer_call ans (n, i) s"
  define x where "x = (if gb_ch s i = None then Some (outcome_at ans n (op_of s i)) else gb_ch s i)"
  have x: "?s = s\<lparr>gb_ch := (gb_ch s)(i := x)\<rparr>" "gb_ch s i \<noteq> None \<Longrightarrow> x = gb_ch s i"
    "gb_ch s i = None \<Longrightarrow> x = Some (outcome_at ans n (op_of s i))" "x \<noteq> None"
    by (auto simp: answer_call_def x_def fun_upd_idem)
  from Cons.IH [of "Suc n" ?s] Cons.prems obtain ch where ch: "fold (answer_call ans) (enumerate (Suc n) ids) ?s = ?s\<lparr>gb_ch := ch\<rparr>"
    "\<And>j. gb_ch ?s j \<noteq> None \<or> j \<notin> set ids \<Longrightarrow> ch j = gb_ch ?s j"
    "\<And>k. k < length ids \<Longrightarrow> gb_ch ?s (ids ! k) = None \<Longrightarrow> ch (ids ! k) = Some (outcome_at ans (Suc n + k) (op_of ?s (ids ! k)))"
    by auto
  show ?case
  proof (intro exI [of _ ch] conjI allI impI)
    show "fold (answer_call ans) (enumerate n (i # ids)) s = s\<lparr>gb_ch := ch\<rparr>" using ch(1) by (simp add: x(1))
    show "ch j = gb_ch s j" if "gb_ch s j \<noteq> None \<or> j \<notin> set (i # ids)" for j
      using that ch(2) [of j] x(2) Cons.prems by (auto simp: x(1) split: if_splits)
    fix k assume k: "k < length (i # ids)" "gb_ch s ((i # ids) ! k) = None"
    show "ch ((i # ids) ! k) = Some (outcome_at ans (n + k) (op_of s ((i # ids) ! k)))"
    proof (cases k)
      case 0
      with k x(3) ch(2) [of i] Cons.prems show ?thesis by (simp add: x(1))
    next
      case (Suc m)
      with k have m: "m < length ids" "gb_ch s (ids ! m) = None" by simp_all
      with Cons.prems have "ids ! m \<noteq> i" using nth_mem by fastforce
      with m ch(3) [of m] Suc show ?thesis by (simp add: x(1))
    qed
  qed
qed

lemma flight_ids:
  assumes "gb_inv s" "fl \<in># gb_flights s"
  shows "distinct (snd fl)" "i \<in> set (snd fl) \<Longrightarrow> i \<notin># settled (gb_history s)"
proof -
  obtain fls where fls: "gb_flights s = add_mset fl fls" using multi_member_split [OF assms(2)] by blast
  have le: "count (mset (snd fl)) j + count (settled (gb_history s)) j \<le> 1" for j
  proof -
    have "count (everywhere s) j \<le> 1" by (simp add: gb_invD(3) [OF assms(1)])
    then show ?thesis by (simp only: everywhere_def fls count_union flying_simps)
  qed
  have "count (mset (snd fl)) j = (if j \<in> set (snd fl) then 1 else 0)" for j
    using le [of j] count_greater_zero_iff [of "mset (snd fl)" j] by (auto simp del: count_greater_zero_iff simp: Suc_le_eq)
  then show "distinct (snd fl)" by (simp add: distinct_count_atmost_1)
  show "i \<notin># settled (gb_history s)" if "i \<in> set (snd fl)"
  proof -
    have "0 < count (mset (snd fl)) i" using that by simp
    with le [of i] have "count (settled (gb_history s)) i = 0" by linarith
    then show ?thesis by (simp add: not_in_iff)
  qed
qed

text \<open>An answer arrives: every caller of the batch that has none yet gets its own.\<close>

lemma resolve_inv:
  assumes inv: "gb_inv s" and fl: "fl \<in># gb_flights s"
  shows "gb_inv (resolve fl ans s)"
proof -
  obtain addr ids where [simp]: "fl = (addr, ids)" by fastforce
  obtain fls where fls: "gb_flights s = add_mset fl fls" using multi_member_split [OF fl] by blast
  from answer_fold [OF flight_ids(1) [OF inv fl], of ans 0 s] obtain ch where
    f: "fold (answer_call ans) (enumerate 0 ids) s = s\<lparr>gb_ch := ch\<rparr>"
    and keep: "\<And>j. gb_ch s j \<noteq> None \<or> j \<notin> set ids \<Longrightarrow> ch j = gb_ch s j"
    and new: "\<And>k. k < length ids \<Longrightarrow> gb_ch s (ids ! k) = None \<Longrightarrow> ch (ids ! k) = Some (outcome_at ans k (op_of s (ids ! k)))"
    by auto
  let ?t = "s\<lparr>gb_ch := ch, gb_flights := fls, gb_history := gb_history s @ [(addr, ids, ans)]\<rparr>"
  have t: "resolve fl ans s = ?t" by (simp add: resolve_def f Let_def fls)
  have old: "own_answer ?t j out" if "own_answer s j out" for j out using that by (auto simp: own_answer_def)
  have own: "own_answer ?t j out" if "ch j = Some out" for j out
  proof (cases "gb_ch s j \<noteq> None \<or> j \<notin> set ids")
    case True
    from keep [OF this] that old [OF gb_invD(4) [OF inv, of j out]] show ?thesis by simp
  next
    case False
    then obtain k where "k < length ids" "ids ! k = j" by (auto simp: in_set_conv_nth)
    with new [of k] False that show ?thesis by (auto simp: own_answer_def)
  qed
  show ?thesis unfolding t
  proof (rule gb_invI)
    show "count (everywhere ?t) j = (if accepted_call (gb_call ?t j) then 1 else 0)" for j
      using gb_invD(3) [OF inv, of j] by (simp add: everywhere_def fls)
    show "gb_ch ?t j \<noteq> None" if "j \<in># settled (gb_history ?t)" for j
    proof (cases "j \<in> set ids \<and> gb_ch s j = None")
      case True
      then obtain k where "k < length ids" "ids ! k = j" by (auto simp: in_set_conv_nth)
      with new [of k] True show ?thesis by auto
    next
      case False
      with that gb_invD(6) [OF inv, of j] keep [of j] show ?thesis by auto
    qed
  qed (use gb_invD [OF inv] own old in auto)
qed

lemma gb_step_inv:
  assumes inv: "gb_inv s" and step: "gb_step s t"
  shows "gb_inv t"
  using step
proof cases
  case (submit i addr item)
  then show ?thesis using enqueue_inv [OF inv] by simp
next
  case (refuse i)
  then show ?thesis using call_inv [OF inv, of CallRefused i] by (simp add: accepted_call_def)
next
  case (full i addr)
  then show ?thesis using call_inv [OF flush_inv [OF inv], of "CallWaiting addr" addr i] by (simp add: accepted_call_def)
next
  case (flush addr)
  then show ?thesis using flush_inv [OF inv] by simp
next
  case (answered fl answer)
  then show ?thesis using resolve_inv [OF inv] by simp
next
  case (receive i addr out)
  then show ?thesis using call_inv [OF inv, of "CallReturned out" i] by (simp add: accepted_call_def)
next
  case (giveup i addr)
  then show ?thesis using call_inv [OF inv, of "CallGaveUp addr" i] by (simp add: accepted_call_def)
next
  case closing
  with inv show ?thesis by (simp add: gb_inv_def everywhere_def own_answer_def)
qed

lemma gb_inv_init: "NewGRPCBatchDispatcher m s \<Longrightarrow> gb_inv s"
  by (simp add: NewGRPCBatchDispatcher_def gb_inv_def everywhere_def accepted_call_def)

interpretation batcher: invariant_system "NewGRPCBatchDispatcher m" gb_step gb_inv
  by unfold_locales (auto intro: gb_inv_init gb_step_inv)

section \<open>What callers get\<close>

text \<open>
  A caller that gets an outcome gets that of its own item: the item was sent in exactly one batch, and the outcome is read
  from the result at the position of the item in that batch (a missing result and an error fall back).
\<close>

theorem batch_own_answer:
  assumes "reach (NewGRPCBatchDispatcher m) gb_step s" "gb_call s i = CallReturned out"
  shows "count (everywhere s) i = 1 \<and>
    (\<exists>addr ids answer k. (addr, ids, answer) \<in> set (gb_history s) \<and> k < length ids \<and> ids ! k = i \<and> out = outcome_at answer k (op_of s i))"
proof -
  note inv = batcher.reach_inv [OF assms(1)]
  from gb_invD(3) [OF inv, of i] gb_invD(5) [OF inv assms(2)] assms(2) show ?thesis
    by (auto simp: accepted_call_def own_answer_def)
qed

text \<open>C16: 
  Nobody is forgotten: a caller that still waits without an answer is in a batch that is being sent, or in a buffer whose
  window timer is running.
\<close>

theorem batch_never_forgotten:
  assumes "reach (NewGRPCBatchDispatcher m) gb_step s" "gb_call s i = CallWaiting addr" "gb_ch s i = None"
  shows "(\<exists>fl. fl \<in># gb_flights s \<and> i \<in> set (snd fl)) \<or> (\<exists>a b. (a, b) \<in> set (gb_buffers s) \<and> i \<in> set (nb_pending b) \<and> nb_timer b)"
proof -
  note inv = batcher.reach_inv [OF assms(1)]
  have "i \<in># everywhere s" using gb_invD(3) [OF inv, of i] assms(2) by (simp add: accepted_call_def count_inI)
  moreover have "i \<notin># settled (gb_history s)" using gb_invD(6) [OF inv, of i] assms(3) by blast
  ultimately consider "i \<in># buffered (gb_buffers s)" | "i \<in># flying (gb_flights s)" by (auto simp: everywhere_def)
  then show ?thesis
  proof cases
    case 1
    then obtain a b where "(a, b) \<in> set (gb_buffers s)" "i \<in> set (nb_pending b)" by (auto simp: buffered_mem)
    with gb_invD(2) [OF inv] show ?thesis by blast
  next
    case 2
    then show ?thesis by (auto simp: flying_def split: prod.splits)
  qed
qed

section \<open>Examples\<close>

definition call_item :: DispatchItem where
  "call_item = buildDispatchItem (\<lambda>_. []) demo_ctx moving_opts [] []"

definition demo_batcher :: "int \<Rightarrow> GRPCBatchDispatcher" where
  "demo_batcher m = \<lparr>gb_maxBatch = m, gb_closed = False, gb_buffers = [], gb_flights = {#}, gb_history = [], gb_item = (\<lambda>_. call_item),
     gb_call = (\<lambda>_. CallIdle), gb_ch = (\<lambda>_. None)\<rparr>"

definition demo_answer :: batch_answer where
  "demo_answer = Some [Some \<lparr>dr_Success = True, dr_UserOnline = True, dr_Error = [], dr_Count = 1\<rparr>]"

lemma demo_init: "reach (NewGRPCBatchDispatcher m) gb_step (demo_batcher m)"
  by (rule reach_init) (simp add: demo_batcher_def NewGRPCBatchDispatcher_def)

lemma demo_submitted: "reach (NewGRPCBatchDispatcher 1) gb_step (enqueue 1 ''a'' call_item (enqueue 0 ''a'' call_item (demo_batcher 1)))"
proof -
  have "gb_step (demo_batcher 1) (enqueue 0 ''a'' call_item (demo_batcher 1))" by (rule gb_step.submit) (simp_all add: demo_batcher_def)
  moreover have "gb_step (enqueue 0 ''a'' call_item (demo_batcher 1)) (enqueue 1 ''a'' call_item (enqueue 0 ''a'' call_item (demo_batcher 1)))"
    by (rule gb_step.submit) (simp_all add: demo_batcher_def enqueue_def Let_def)
  ultimately show ?thesis by (blast intro: reach_step [OF reach_step [OF demo_init]])
qed

lemmas demo_batch_simps = enqueue_def gb_flush_def resolve_def answer_call_def outcome_at_def classifyOutcome_def demo_answer_def demo_batcher_def
  call_item_def buildDispatchItem_def moving_opts_def no_options_def buffer_at_def

lemma demo_answered:
  "\<exists>s. reach (NewGRPCBatchDispatcher 1) gb_step s \<and> gb_call s 0 = CallReturned grpcOutcomeDelivered \<and> gb_call s 1 = CallReturned grpcOutcomeFallback \<and>
     map (length \<circ> fst \<circ> snd) (gb_history s) = [2]"
proof -
  define s0 where "s0 = enqueue 1 ''a'' call_item (enqueue 0 ''a'' call_item (demo_batcher 1))"
  define s1 where "s1 = (gb_flush ''a'' s0)\<lparr>gb_call := (gb_call s0)(0 := CallWaiting ''a'')\<rparr>"
  define s2 where "s2 = (gb_flush ''a'' s1)\<lparr>gb_call := (gb_call s1)(1 := CallWaiting ''a'')\<rparr>"
  define s3 where "s3 = resolve (''a'', [0, 1]) demo_answer s2"
  define s4 where "s4 = s3\<lparr>gb_call := (gb_call s3)(0 := CallReturned grpcOutcomeDelivered)\<rparr>"
  define s5 where "s5 = s4\<lparr>gb_call := (gb_call s4)(1 := CallReturned grpcOutcomeFallback)\<rparr>"
  note defs = s0_def s1_def s2_def s3_def s4_def s5_def demo_batch_simps Let_def
  have 0: "reach (NewGRPCBatchDispatcher 1) gb_step s0" unfolding s0_def by (rule demo_submitted)
  have "gb_step s0 s1" unfolding s1_def by (rule gb_step.full) (simp add: defs)
  note 1 = reach_step [OF 0 this]
  have "gb_step s1 s2" unfolding s2_def by (rule gb_step.full) (simp add: defs)
  note 2 = reach_step [OF 1 this]
  have "gb_step s2 s3" unfolding s3_def by (rule gb_step.answered) (simp add: defs)
  note 3 = reach_step [OF 2 this]
  have "gb_step s3 s4" unfolding s4_def by (rule gb_step.receive [of _ _ "''a''"]) (simp_all add: defs)
  note 4 = reach_step [OF 3 this]
  have "gb_step s4 s5" unfolding s5_def by (rule gb_step.receive [of _ _ "''a''"]) (simp_all add: defs)
  note 5 = reach_step [OF 4 this]
  show ?thesis by (intro exI [of _ s5] conjI 5) (simp_all add: defs)
qed

theorem batch_own_answer_witness:
  "\<exists>s :: GRPCBatchDispatcher. gb_call s 1 = CallReturned grpcOutcomeFallback \<and> count (everywhere s) 1 = 1"
proof -
  obtain s where s: "reach (NewGRPCBatchDispatcher 1) gb_step s" "gb_call s 1 = CallReturned grpcOutcomeFallback"
    using demo_answered by (elim exE conjE)
  from batch_own_answer [OF s] s(2) show ?thesis by blast
qed

theorem batch_never_forgotten_witness:
  "\<exists>(s :: GRPCBatchDispatcher) b. gb_call s 0 = CallWaiting ''a'' \<and> (''a'', b) \<in> set (gb_buffers s) \<and> nb_timer b"
proof -
  let ?s = "enqueue 0 ''a'' call_item (demo_batcher 9)"
  have r: "reach (NewGRPCBatchDispatcher 9) gb_step ?s"
    by (intro reach_step [OF demo_init] gb_step.submit) (simp_all add: demo_batcher_def)
  have "gb_call ?s 0 = CallWaiting ''a''" "gb_ch ?s 0 = None" by (simp_all add: demo_batch_simps Let_def)
  with batch_never_forgotten [OF r this] obtain b where "(''a'', b) \<in> set (gb_buffers ?s)" "nb_timer b"
    by (auto simp: demo_batch_simps Let_def)
  with \<open>gb_call ?s 0 = CallWaiting ''a''\<close> show ?thesis by (intro exI [of _ ?s] exI [of _ b] conjI)
qed

text \<open>
  The limit of a batch is not one: callers that arrive between the call that fills the buffer and its flush still join it, so a
  dispatcher with the limit 1 sends a batch of two.
\<close>

theorem batch_overrun:
  "\<exists>s addr ids answer. reach (NewGRPCBatchDispatcher 1) gb_step s \<and> (addr, ids, answer) \<in> set (gb_history s) \<and> length ids = 2"
proof -
  obtain s where s: "reach (NewGRPCBatchDispatcher 1) gb_step s" "map (length \<circ> fst \<circ> snd) (gb_history s) = [2]"
    using demo_answered by (elim exE conjE)
  then obtain a ids ans where "gb_history s = [(a, ids, ans)]" "length ids = 2" by (auto simp: map_eq_Cons_conv)
  with s(1) show ?thesis by (intro exI [of _ s] exI [of _ a] exI [of _ ids] exI [of _ ans]) simp
qed

text \<open>
  One message to one user: the batched path and the single call classify the same answer in the same way, provided that a
  node which reports success reports no error text beside it.
\<close>

theorem unary_batch_agree:
  assumes "ct_pool c" "co_Operation opts = OperationTypeSendMessage"
    and "nt_SendToUser net addr (co_TargetUserID opts) msg (ct_world c) = (Reply (dr_Success r, dr_UserOnline r), w)"
    and "dr_Success r \<Longrightarrow> dr_Error r = []"
  shows "fst (executeGRPCDispatch net addr msg opts c) = Some (classifyOutcome (co_Operation opts) (Some r))"
  using assms by (auto simp: executeGRPCDispatch_def outside_def classifyOutcome_def)

theorem unary_batch_agree_witness:
  "fst (executeGRPCDispatch (moving_net moving_answer) ''a'' zero_message moving_opts moving_cluster) = Some grpcOutcomeUserMiss"
proof -
  let ?r = "\<lparr>dr_Success = False, dr_UserOnline = False, dr_Error = ''offline'', dr_Count = 0\<rparr>"
  have "fst (executeGRPCDispatch (moving_net moving_answer) ''a'' zero_message moving_opts moving_cluster)
      = Some (classifyOutcome (co_Operation moving_opts) (Some ?r))"
    by (rule unary_batch_agree [of _ _ _ _ _ _ "[''a'']"])
       (simp_all add: moving_cluster_def moving_opts_def moving_net_def moving_answer_def)
  then show ?thesis by (simp add: classifyOutcome_def moving_opts_def)
qed

text \<open>The mapping of operations is an inverse on all of them but the broadcast to several groups.\<close>

lemma operation_roundtrip:
  "op \<in> {OperationTypeSendMessage, OperationTypeKickUser, OperationTypeGroupBroadcast, OperationTypeObserverNotify}
     \<longleftrightarrow> op \<noteq> [] \<and> FromProtoDispatchOperation (ToProtoDispatchOperation op) = op"
  by (auto simp: ToProtoDispatchOperation_def)

end
