(* ===== verification/Errors.thy ===== *)
theory Errors
  imports Prelude
begin

text \<open>
  Error types, models/errors.go: the codes, the texts they are registered with, the package-level error
  values and the classification of errors.

  \<^item> An error is what \<open>errorx.ClassifyError\<close> of the third-party package sees of it, its code and its text.
    The source says what \<open>errorx.NewError\<close> does with a code that is not registered: the result is
    \<open>unknown error\<close> with code 0.
  \<^item> \<open>None\<close> is the nil error.
\<close>

section \<open>Codes\<close>

type_synonym ErrorType = int

abbreviation ErrorTypeConnection :: ErrorType where "ErrorTypeConnection \<equiv> 80000"
abbreviation ErrorTypeMessage :: ErrorType where "ErrorTypeMessage \<equiv> 80001"
abbreviation ErrorTypeSystem :: ErrorType where "ErrorTypeSystem \<equiv> 80002"
abbreviation ErrorTypeNetwork :: ErrorType where "ErrorTypeNetwork \<equiv> 80003"
abbreviation ErrorTypeConcurrency :: ErrorType where "ErrorTypeConcurrency \<equiv> 80004"
abbreviation ErrorTypeMemory :: ErrorType where "ErrorTypeMemory \<equiv> 80005"
abbreviation ErrorTypeConfiguration :: ErrorType where "ErrorTypeConfiguration \<equiv> 80006"
abbreviation ErrTypeConnectionClosed :: ErrorType where "ErrTypeConnectionClosed \<equiv> 80101"
abbreviation ErrTypeConnectionReset :: ErrorType where "ErrTypeConnectionReset \<equiv> 80102"
abbreviation ErrTypeConnectionTimeout :: ErrorType where "ErrTypeConnectionTimeout \<equiv> 80103"
abbreviation ErrTypeNetworkUnreachable :: ErrorType where "ErrTypeNetworkUnreachable \<equiv> 80104"
abbreviation ErrTypeServiceUnavailable :: ErrorType where "ErrTypeServiceUnavailable \<equiv> 80105"
abbreviation ErrTypeQueueFull :: ErrorType where "ErrTypeQueueFull \<equiv> 80201"
abbreviation ErrTypeMessageBufferFull :: ErrorType where "ErrTypeMessageBufferFull \<equiv> 80202"
abbreviation ErrTypePendingQueueFull :: ErrorType where "ErrTypePendingQueueFull \<equiv> 80203"
abbreviation ErrTypeQueueAndPendingFull :: ErrorType where "ErrTypeQueueAndPendingFull \<equiv> 80204"
abbreviation ErrTypeSendChannelFull :: ErrorType where "ErrTypeSendChannelFull \<equiv> 80205"
abbreviation ErrTypeUserOffline :: ErrorType where "ErrTypeUserOffline \<equiv> 80301"
abbreviation ErrTypeUserNotFound :: ErrorType where "ErrTypeUserNotFound \<equiv> 80302"
abbreviation ErrTypePermissionDenied :: ErrorType where "ErrTypePermissionDenied \<equiv> 80303"
abbreviation ErrTypeAuthenticationFailed :: ErrorType where "ErrTypeAuthenticationFailed \<equiv> 80304"
abbreviation ErrTypeUnauthorized :: ErrorType where "ErrTypeUnauthorized \<equiv> 80305"
abbreviation ErrTypeInvalidMessageFormat :: ErrorType where "ErrTypeInvalidMessageFormat \<equiv> 80401"
abbreviation ErrTypeMessageTooLarge :: ErrorType where "ErrTypeMessageTooLarge \<equiv> 80402"
abbreviation ErrTypeMessageTargetMissing :: ErrorType where "ErrTypeMessageTargetMissing \<equiv> 80403"
abbreviation ErrTypeMessageFiltered :: ErrorType where "ErrTypeMessageFiltered \<equiv> 80404"
abbreviation ErrTypeMessageDeliveryTimeout :: ErrorType where "ErrTypeMessageDeliveryTimeout \<equiv> 80405"
abbreviation ErrTypeClientNotFound :: ErrorType where "ErrTypeClientNotFound \<equiv> 80501"
abbreviation ErrTypeClientDisconnected :: ErrorType where "ErrTypeClientDisconnected \<equiv> 80502"
abbreviation ErrTypeNoAvailableAgents :: ErrorType where "ErrTypeNoAvailableAgents \<equiv> 80503"
abbreviation ErrTypeHubStartupTimeout :: ErrorType where "ErrTypeHubStartupTimeout \<equiv> 80601"
abbreviation ErrTypeHubShutdownTimeout :: ErrorType where "ErrTypeHubShutdownTimeout \<equiv> 80602"
abbreviation ErrTypeHubNotRunning :: ErrorType where "ErrTypeHubNotRunning \<equiv> 80603"
abbreviation ErrTypeCircuitBreakerOpen :: ErrorType where "ErrTypeCircuitBreakerOpen \<equiv> 80604"
abbreviation ErrTypeRecordManagerDisabled :: ErrorType where "ErrTypeRecordManagerDisabled \<equiv> 80701"
abbreviation ErrTypeMessageRecordNotFound :: ErrorType where "ErrTypeMessageRecordNotFound \<equiv> 80702"
abbreviation ErrTypeMessageAlreadySent :: ErrorType where "ErrTypeMessageAlreadySent \<equiv> 80703"
abbreviation ErrTypeMaxRetriesExceeded :: ErrorType where "ErrTypeMaxRetriesExceeded \<equiv> 80704"
abbreviation ErrTypeRecordManagerNotInitialized :: ErrorType where "ErrTypeRecordManagerNotInitialized \<equiv> 80705"
abbreviation ErrTypeMaxRetriesExceededForMessage :: ErrorType where "ErrTypeMaxRetriesExceededForMessage \<equiv> 80706"
abbreviation ErrTypeRecordRepositoryNotSet :: ErrorType where "ErrTypeRecordRepositoryNotSet \<equiv> 80707"
abbreviation ErrTypeOnlineStatusRepositoryNotSet :: ErrorType where "ErrTypeOnlineStatusRepositoryNotSet \<equiv> 80708"
abbreviation ErrTypeStatsRepositoryNotSet :: ErrorType where "ErrTypeStatsRepositoryNotSet \<equiv> 80709"
abbreviation ErrTypeRateLimitExceeded :: ErrorType where "ErrTypeRateLimitExceeded \<equiv> 80801"
abbreviation ErrTypeFrequencyLimitReached :: ErrorType where "ErrTypeFrequencyLimitReached \<equiv> 80802"
abbreviation ErrTypeOperationTimeout :: ErrorType where "ErrTypeOperationTimeout \<equiv> 80901"
abbreviation ErrTypeTemporaryFailure :: ErrorType where "ErrTypeTemporaryFailure \<equiv> 80902"
abbreviation ErrTypeResourceBusy :: ErrorType where "ErrTypeResourceBusy \<equiv> 80903"
abbreviation ErrTypeUnknownError :: ErrorType where "ErrTypeUnknownError \<equiv> 80999"
abbreviation ErrTypeAckTimeout :: ErrorType where "ErrTypeAckTimeout \<equiv> 81001"
abbreviation ErrTypeAckTimeoutRetries :: ErrorType where "ErrTypeAckTimeoutRetries \<equiv> 81002"
abbreviation ErrTypeContextCancelled :: ErrorType where "ErrTypeContextCancelled \<equiv> 81003"
abbreviation ErrTypeConfigValidatorNotInitialized :: ErrorType where "ErrTypeConfigValidatorNotInitialized \<equiv> 81101"
abbreviation ErrTypeConfigValidationFailed :: ErrorType where "ErrTypeConfigValidationFailed \<equiv> 81102"
abbreviation ErrTypeConfigAutoFixFailed :: ErrorType where "ErrTypeConfigAutoFixFailed \<equiv> 81103"
abbreviation ErrTypeIPInBlacklist :: ErrorType where "ErrTypeIPInBlacklist \<equiv> 81201"
abbreviation ErrTypeBruteForceDetected :: ErrorType where "ErrTypeBruteForceDetected \<equiv> 81202"
abbreviation ErrTypeThreatDetected :: ErrorType where "ErrTypeThreatDetected \<equiv> 81203"
abbreviation ErrTypeAccessDeniedByRule :: ErrorType where "ErrTypeAccessDeniedByRule \<equiv> 81204"
abbreviation ErrTypePubSubNotSet :: ErrorType where "ErrTypePubSubNotSet \<equiv> 81301"
abbreviation ErrTypePubSubPublishFailed :: ErrorType where "ErrTypePubSubPublishFailed \<equiv> 81302"
abbreviation ErrTypeEventSerializeFailed :: ErrorType where "ErrTypeEventSerializeFailed \<equiv> 81303"
abbreviation ErrTypeEventDeserializeFailed :: ErrorType where "ErrTypeEventDeserializeFailed \<equiv> 81304"
abbreviation ErrTypeGroupNotFound :: ErrorType where "ErrTypeGroupNotFound \<equiv> 81401"
abbreviation ErrTypeGroupMemberExisted :: ErrorType where "ErrTypeGroupMemberExisted \<equiv> 81402"
abbreviation ErrTypeGroupFull :: ErrorType where "ErrTypeGroupFull \<equiv> 81403"
abbreviation ErrTypeGroupRepoNotSet :: ErrorType where "ErrTypeGroupRepoNotSet \<equiv> 81404"
abbreviation ErrTypeGroupExisted :: ErrorType where "ErrTypeGroupExisted \<equiv> 81405"
abbreviation ErrTypeGroupReserved :: ErrorType where "ErrTypeGroupReserved \<equiv> 81406"
abbreviation ErrTypeRouteNamespaceMissing :: ErrorType where "ErrTypeRouteNamespaceMissing \<equiv> 81407"

section \<open>Registration\<close>

definition errorMessages :: "(ErrorType \<times> string) list" where
  "errorMessages =
    [(ErrorTypeConnection, ''connection error''),
     (ErrorTypeMessage, ''message error''),
     (ErrorTypeSystem, ''system error''),
     (ErrorTypeNetwork, ''network error''),
     (ErrorTypeConcurrency, ''concurrency error''),
     (ErrorTypeMemory, ''memory error''),
     (ErrorTypeConfiguration, ''configuration error''),
     (ErrTypeConnectionClosed, ''connection closed''),
     (ErrTypeConnectionReset, ''connection reset''),
     (ErrTypeConnectionTimeout, ''connection timeout''),
     (ErrTypeNetworkUnreachable, ''network unreachable''),
     (ErrTypeServiceUnavailable, ''service unavailable''),
     (ErrTypeQueueFull, ''queue is full''),
     (ErrTypeMessageBufferFull, ''message buffer is full''),
     (ErrTypePendingQueueFull, ''pending queue is full''),
     (ErrTypeQueueAndPendingFull, ''both queue and pending queue are full''),
     (ErrTypeUserOffline, ''user is offline: %s''),
     (ErrTypeUserNotFound, ''user not found: %s''),
     (ErrTypePermissionDenied, ''permission denied''),
     (ErrTypeAuthenticationFailed, ''authentication failed''),
     (ErrTypeUnauthorized, ''unauthorized access''),
     (ErrTypeInvalidMessageFormat, ''invalid message format''),
     (ErrTypeMessageTooLarge, ''message too large''),
     (ErrTypeMessageTargetMissing, ''message target not specified''),
     (ErrTypeMessageFiltered, ''message filtered by rules''),
     (ErrTypeMessageDeliveryTimeout, ''message delivery timeout''),
     (ErrTypeClientNotFound, ''client not found: %s''),
     (ErrTypeClientDisconnected, ''client disconnected''),
     (ErrTypeNoAvailableAgents, ''no available agents''),
     (ErrTypeHubStartupTimeout, ''hub startup timeout''),
     (ErrTypeHubShutdownTimeout, ''hub shutdown timeout''),
     (ErrTypeHubNotRunning, ''hub is not running''),
     (ErrTypeCircuitBreakerOpen, ''circuit breaker is open''),
     (ErrTypeRecordManagerDisabled, ''record manager is disabled''),
     (ErrTypeMessageRecordNotFound, ''message record not found: %s''),
     (ErrTypeMessageAlreadySent, ''message already sent successfully''),
     (ErrTypeMaxRetriesExceeded, ''maximum retries exceeded''),
     (ErrTypeRecordManagerNotInitialized, ''record manager not initialized''),
     (ErrTypeMaxRetriesExceededForMessage, ''maximum retries exceeded for message''),
     (ErrTypeRateLimitExceeded, ''rate limit exceeded''),
     (ErrTypeFrequencyLimitReached, ''frequency limit reached''),
     (ErrTypeOperationTimeout, ''operation timeout''),
     (ErrTypeTemporaryFailure, ''temporary failure''),
     (ErrTypeResourceBusy, ''resource busy''),
     (ErrTypeUnknownError, ''unknown error''),
     (ErrTypeAckTimeout, ''ack timeout for message %s''),
     (ErrTypeAckTimeoutRetries, ''ack timeout after %d retries for message %s''),
     (ErrTypeContextCancelled, ''context cancelled for message %s''),
     (ErrTypeConfigValidatorNotInitialized, ''configuration validator not initialized''),
     (ErrTypeConfigValidationFailed, ''configuration validation failed''),
     (ErrTypeConfigAutoFixFailed, ''configuration auto-fix failed''),
     (ErrTypeIPInBlacklist, ''ip address is in blacklist: %s''),
     (ErrTypeBruteForceDetected, ''brute force attack detected: %s''),
     (ErrTypeThreatDetected, ''threat detected: %s''),
     (ErrTypeAccessDeniedByRule, ''access denied by security rule: %s''),
     (ErrTypePubSubNotSet, ''pubsub is not set''),
     (ErrTypePubSubPublishFailed, ''failed to publish event: %s''),
     (ErrTypeEventSerializeFailed, ''failed to serialize event: %s''),
     (ErrTypeEventDeserializeFailed, ''failed to deserialize event: %s''),
     (ErrTypeGroupNotFound, ''group not found: %s''),
     (ErrTypeGroupMemberExisted, ''user is already a group member: %s''),
     (ErrTypeGroupFull, ''group is full: %s''),
     (ErrTypeGroupRepoNotSet, ''group repository is not set''),
     (ErrTypeGroupExisted, ''group already existed in namespace: %s''),
     (ErrTypeRouteNamespaceMissing, ''route namespace is missing: group delivery requires appID+namespace envelope''),
     (ErrTypeRecordRepositoryNotSet, ''message record repository is not set'')]"

record GoError =
  ge_type :: ErrorType
  ge_text :: string

definition NewError :: "ErrorType \<Rightarrow> GoError" where
  "NewError t =
     (case map_of errorMessages t of
        Some text \<Rightarrow> \<lparr>ge_type = t, ge_text = text\<rparr>
      | None \<Rightarrow> \<lparr>ge_type = 0, ge_text = ''unknown error''\<rparr>)"

text \<open>The package-level error values, with the code each is made from.\<close>

definition sentinels :: "(string \<times> ErrorType) list" where
  "sentinels =
    [(''ErrConnectionClosed'', ErrTypeConnectionClosed),
     (''ErrMessageBufferFull'', ErrTypeMessageBufferFull),
     (''ErrHubStartupTimeout'', ErrTypeHubStartupTimeout),
     (''ErrHubShutdownTimeout'', ErrTypeHubShutdownTimeout),
     (''ErrQueueAndPendingFull'', ErrTypeQueueAndPendingFull),
     (''ErrMessageTargetMissing'', ErrTypeMessageTargetMissing),
     (''ErrUserOffline'', ErrTypeUserOffline),
     (''ErrMessageDeliveryTimeout'', ErrTypeMessageDeliveryTimeout),
     (''ErrCircuitBreakerOpen'', ErrTypeCircuitBreakerOpen),
     (''ErrAckTimeout'', ErrTypeAckTimeout),
     (''ErrAckTimeoutRetries'', ErrTypeAckTimeoutRetries),
     (''ErrContextCancelled'', ErrTypeContextCancelled),
     (''ErrRecordManagerNotInitialized'', ErrTypeRecordManagerNotInitialized),
     (''ErrMaxRetriesExceeded'', ErrTypeMaxRetriesExceeded),
     (''ErrConfigValidatorNotInitialized'', ErrTypeConfigValidatorNotInitialized),
     (''ErrMessageFiltered'', ErrTypeMessageFiltered),
     (''ErrNoAvailableAgents'', ErrTypeNoAvailableAgents),
     (''ErrQueueFull'', ErrTypeQueueFull),
     (''ErrRecordRepositoryNotSet'', ErrTypeRecordRepositoryNotSet),
     (''ErrOnlineStatusRepositoryNotSet'', ErrTypeOnlineStatusRepositoryNotSet),
     (''ErrStatsRepositoryNotSet'', ErrTypeStatsRepositoryNotSet),
     (''ErrSendChannelFull'', ErrTypeSendChannelFull),
     (''ErrUserNotFound'', ErrTypeUserNotFound),
     (''ErrClientNotFound'', ErrTypeClientNotFound),
     (''ErrClientDisconnected'', ErrTypeClientDisconnected),
     (''ErrPubSubNotSet'', ErrTypePubSubNotSet),
     (''ErrPubSubPublishFailed'', ErrTypePubSubPublishFailed),
     (''ErrEventSerializeFailed'', ErrTypeEventSerializeFailed),
     (''ErrEventDeserializeFailed'', ErrTypeEventDeserializeFailed),
     (''ErrGroupNotFound'', ErrTypeGroupNotFound),
     (''ErrGroupMemberExisted'', ErrTypeGroupMemberExisted),
     (''ErrGroupFull'', ErrTypeGroupFull),
     (''ErrGroupRepoNotSet'', ErrTypeGroupRepoNotSet),
     (''ErrGroupExisted'', ErrTypeGroupExisted),
     (''ErrGroupReserved'', ErrTypeGroupReserved),
     (''ErrRouteNamespaceMissing'', ErrTypeRouteNamespaceMissing)]"

section \<open>Classification\<close>

definition IsRetryableErrorType :: "ErrorType \<Rightarrow> bool" where
  "IsRetryableErrorType errType \<longleftrightarrow>
     errType \<in> {ErrTypeConnectionTimeout, ErrTypeTemporaryFailure, ErrTypeMessageBufferFull, ErrTypeQueueAndPendingFull, ErrTypeResourceBusy,
       ErrTypeOperationTimeout, ErrTypeAckTimeout, ErrTypeMessageDeliveryTimeout, ErrTypeCircuitBreakerOpen, ErrTypeQueueFull,
       ErrTypePendingQueueFull, ErrTypeHubStartupTimeout, ErrTypeHubShutdownTimeout}"

definition classified :: "(ErrorType \<Rightarrow> bool) \<Rightarrow> GoError option \<Rightarrow> bool" where
  "classified P err = (case err of None \<Rightarrow> False | Some e \<Rightarrow> P (ge_type e))"

definition IsRetryableError :: "GoError option \<Rightarrow> bool" where
  "IsRetryableError err = classified IsRetryableErrorType err"

definition IsQueueFullError :: "GoError option \<Rightarrow> bool" where
  "IsQueueFullError err =
     classified (\<lambda>t. t = ErrTypeQueueFull \<or> t = ErrTypeMessageBufferFull \<or> t = ErrTypePendingQueueFull \<or> t = ErrTypeQueueAndPendingFull) err"

definition IsUserOfflineError :: "GoError option \<Rightarrow> bool" where
  "IsUserOfflineError err = classified (\<lambda>t. t = ErrTypeUserOffline) err"

definition IsSendTimeoutError :: "GoError option \<Rightarrow> bool" where
  "IsSendTimeoutError err =
     classified (\<lambda>t. t = ErrTypeOperationTimeout \<or> t = ErrTypeMessageDeliveryTimeout \<or> t = ErrTypeConnectionTimeout) err"

definition IsAckTimeoutError :: "GoError option \<Rightarrow> bool" where
  "IsAckTimeoutError err = classified (\<lambda>t. t = ErrTypeAckTimeout \<or> t = ErrTypeAckTimeoutRetries) err"

section \<open>Properties\<close>

definition unregistered :: "ErrorType list" where
  "unregistered = [ErrTypeOnlineStatusRepositoryNotSet, ErrTypeStatsRepositoryNotSet, ErrTypeSendChannelFull, ErrTypeGroupReserved]"

lemma NewError_type: "ge_type (NewError t) = (if t \<in> set (map fst errorMessages) then t else 0)"
proof (cases "map_of errorMessages t")
  case None
  then have "t \<notin> set (map fst errorMessages)" by (simp add: map_of_eq_None_iff)
  with None show ?thesis by (simp add: NewError_def)
next
  case (Some msg)
  from map_of_SomeD [OF this] have "t \<in> set (map fst errorMessages)" by force
  with Some show ?thesis by (simp add: NewError_def)
qed

lemma registered_codes: "\<forall>t \<in> set (map snd sentinels). t \<noteq> 0 \<and> (t \<in> set (map fst errorMessages) \<longleftrightarrow> t \<notin> set unregistered)"
  by (simp add: sentinels_def errorMessages_def unregistered_def)

lemma unknown_error: "ge_type (NewError t) = 0 \<Longrightarrow> t \<noteq> 0 \<Longrightarrow> NewError t = \<lparr>ge_type = 0, ge_text = ''unknown error''\<rparr>"
  by (simp add: NewError_def split: option.splits)

text \<open>Every error value of the package carries the code it is made from, except four: their codes are never
  registered, so the status repository, statistics repository, full channel and reserved group errors
  are one and the same unknown error, and none of the classifications recognises them.\<close>

theorem sentinels_exact:
  assumes "(name, t) \<in> set sentinels"
  shows "if t \<in> set unregistered
    then NewError t = \<lparr>ge_type = 0, ge_text = ''unknown error''\<rparr> \<and> \<not> IsRetryableError (Some (NewError t)) \<and> \<not> IsQueueFullError (Some (NewError t))
    else ge_type (NewError t) = t"
proof -
  have "ge_type (NewError t) = (if t \<in> set unregistered then 0 else t)" "t \<noteq> 0"
    using registered_codes imageI [OF assms, of snd] by (auto simp: NewError_type)
  with unknown_error [of t] show ?thesis
    by (auto simp: IsRetryableError_def IsQueueFullError_def classified_def IsRetryableErrorType_def)
qed

lemma sentinels_exact_witness: "ge_type (NewError ErrTypeQueueFull) = ErrTypeQueueFull"
proof -
  have "(''ErrQueueFull'', ErrTypeQueueFull) \<in> set sentinels" and "ErrTypeQueueFull \<notin> set unregistered" by code_simp+
  with sentinels_exact [of "''ErrQueueFull''" ErrTypeQueueFull] show ?thesis by simp
qed

text \<open>Timeouts of a send may be retried, a full queue may be retried, an offline user may not.\<close>

lemma retry_classes:
  "IsSendTimeoutError err \<Longrightarrow> IsRetryableError err" "IsQueueFullError err \<Longrightarrow> IsRetryableError err" "IsUserOfflineError err \<Longrightarrow> \<not> IsRetryableError err"
  by (auto simp: IsSendTimeoutError_def IsQueueFullError_def IsUserOfflineError_def IsRetryableError_def classified_def IsRetryableErrorType_def split: option.splits)

end
