(* ===== verification/Send.thy ===== *)
theory Send
  imports Grpc_Batch Errors
begin

text \<open>
  Sending one message to one user: messaging/send.go, from the public entry with its retries down to a single attempt.

  \<^item> \<open>Host\<close> collects what the manager asks of others: the ports into the cluster (their instance on the model of the cluster is
    \<open>cluster_host\<close>), the store of the offline queue, the retry loop of the toolbox and the clock.
  \<^item> \<open>Sending\<close> is the state: the cluster with its hub, the records handed to the outbox, the retry records, the messages the
    offline store accepted, the calls of the callback and the collector of a running fan-out.
  \<^item> The message is a private copy that the attempts change in place, so it is part of their result.
  \<^item> Start times and durations of attempts are left out.
\<close>

declare map_of_eq_Some_iff [simp del]

section \<open>Results\<close>

record SendAttempt =
  sa_AttemptNumber :: int
  sa_Error :: "GoError option"
  sa_Success :: bool

record SendResult =
  sr_Success :: bool
  sr_Attempts :: "SendAttempt list"
  sr_TotalRetries :: int
  sr_FinalError :: "GoError option"
  sr_DeliveredAt :: "int option"
  sr_StoredOffline :: bool

definition newSendResult :: SendResult where
  "newSendResult = \<lparr>sr_Success = False, sr_Attempts = [], sr_TotalRetries = 0, sr_FinalError = None, sr_DeliveredAt = None, sr_StoredOffline = False\<rparr>"

section \<open>State and ports\<close>

record 'w Sending =
  ms_cluster :: "'w Cluster"
  ms_submitted :: "MessageSendRecord list"
  ms_retries :: "(string \<times> string \<times> int \<times> bool) list"
  ms_stored :: "(string \<times> HubMessage) list"
  ms_callback :: bool
  ms_called :: "(HubMessage \<times> SendResult) list"
  ms_collecting :: bool
  ms_collected :: "(string \<times> HubMessage) list"
  ms_fallbacks :: int

type_synonym 'w attempt_state = "HubMessage \<times> SendResult \<times> 'w Sending"

record ('md, 'w) Host =
  ho_sh :: "string \<Rightarrow> nat"
  ho_enc :: "HubMessage \<Rightarrow> frame option"
  ho_tr :: "'md GoContext \<Rightarrow> string"
  ho_ctx :: "'md GoContext"
  ho_now :: int
  ho_newID :: string
  ho_broadcastID :: "string option"
  ho_MaxRetries :: int
  ho_ttl :: int
  ho_sender :: "string option"
  ho_CheckAndRouteToNode :: "'md GoContext \<Rightarrow> string \<Rightarrow> HubMessage \<Rightarrow> string list option \<Rightarrow> 'w Cluster
    \<Rightarrow> (bool \<times> string list \<times> route_error option) \<times> 'w Cluster"
  ho_RouteToCluster :: "'md GoContext \<Rightarrow> HubMessage \<Rightarrow> ClusterDispatchOptions \<Rightarrow> 'w Cluster \<Rightarrow> route_error option \<times> 'w Cluster"
  ho_BatchGetUserNodes :: "'md GoContext \<Rightarrow> string \<Rightarrow> 'w Cluster \<Rightarrow> string list option \<times> 'w Cluster"
  ho_StoreOfflineMessage :: "string \<Rightarrow> HubMessage \<Rightarrow> 'w \<Rightarrow> GoError option \<times> 'w"
  ho_retry :: "nat \<Rightarrow> ('w attempt_state \<Rightarrow> GoError option \<times> 'w attempt_state) \<Rightarrow> 'w attempt_state \<Rightarrow> GoError option \<times> 'w attempt_state"

abbreviation hub_of :: "'w Sending \<Rightarrow> Hub" where "hub_of m \<equiv> ct_hub (ms_cluster m)"

abbreviation ms_sink :: "'w Sending \<Rightarrow> bool" where "ms_sink m \<equiv> nd_sink (hb_node (hub_of m))"

definition with_hub :: "(Hub \<Rightarrow> 'a \<times> Hub) \<Rightarrow> 'w Sending \<Rightarrow> 'a \<times> 'w Sending" where
  "with_hub f m = (case f (hub_of m) of (a, h) \<Rightarrow> (a, m\<lparr>ms_cluster := (ms_cluster m)\<lparr>ct_hub := h\<rparr>\<rparr>))"

definition with_node :: "(Node \<Rightarrow> Node) \<Rightarrow> 'w Sending \<Rightarrow> 'w Sending" where
  "with_node f m = snd (with_hub (\<lambda>h. ((), h\<lparr>hb_node := f (hb_node h)\<rparr>)) m)"

definition with_cluster :: "('w Cluster \<Rightarrow> 'a \<times> 'w Cluster) \<Rightarrow> 'w Sending \<Rightarrow> 'a \<times> 'w Sending" where
  "with_cluster f m = (case f (ms_cluster m) of (a, c) \<Rightarrow> (a, m\<lparr>ms_cluster := c\<rparr>))"

definition recordMessageToDatabase :: "('md, 'w) Host \<Rightarrow> HubMessage \<Rightarrow> frame option \<Rightarrow> 'w Sending \<Rightarrow> 'w Sending" where
  "recordMessageToDatabase host msg payload m =
     (if \<not> ms_sink m then m
      else m\<lparr>ms_submitted := ms_submitted m @
             [new_record (\<lambda>x. case ho_enc host x of None \<Rightarrow> Inl () | Some f \<Rightarrow> Inr f) (ho_ttl host) (ho_MaxRetries host)
                (ct_nodeID (ms_cluster m)) (ho_now host) msg None payload]\<rparr>)"

definition StoreOfflineMessage :: "('md, 'w) Host \<Rightarrow> string \<Rightarrow> HubMessage \<Rightarrow> 'w Sending \<Rightarrow> GoError option \<times> 'w Sending" where
  "StoreOfflineMessage host userID msg m =
     (case with_cluster (outside (ho_StoreOfflineMessage host userID msg)) m of
        (None, m) \<Rightarrow> (None, m\<lparr>ms_stored := ms_stored m @ [(userID, msg)]\<rparr>)
      | (Some e, m) \<Rightarrow> (Some e, m))"

definition temporary :: GoError where "temporary = NewError ErrTypeTemporaryFailure"

definition has_user :: "('md, 'w) Host \<Rightarrow> string \<Rightarrow> 'md GoContext \<Rightarrow> 'w Sending \<Rightarrow> bool" where
  "has_user host userID ctx m =
     HasUser (ho_sh host) (cs_heap (nd_conn (hb_node (hub_of m)))) userID (AppIDFromContext ctx) (NamespaceFromContext ctx) (reg_of (hb_node (hub_of m)))"

definition guarantee :: "HubMessage \<Rightarrow> 'w Sending \<Rightarrow> DeliveryGuarantee" where
  "guarantee msg m = guarantee_of (hb_node (hub_of m)) msg"

section \<open>The broadcast for a user nobody knows\<close>

definition doOfflineBroadcast :: "('md, 'w) Host \<Rightarrow> 'md GoContext \<Rightarrow> string \<Rightarrow> HubMessage \<Rightarrow> 'w Sending \<Rightarrow> 'w Sending" where
  "doOfflineBroadcast host ctx userID msg m =
     (let m = m\<lparr>ms_fallbacks := ms_fallbacks m + 1,
                ms_cluster := markRerouteAttempted (ho_now host) (hm_MessageID msg) (getAllClusterNodeIDs (ms_cluster m)) False (ms_cluster m)\<rparr>
      in snd (with_cluster (ho_RouteToCluster host ctx msg
                (no_options\<lparr>co_Operation := OperationTypeSendMessage, co_TargetUserID := userID\<rparr>)) m))"

definition routeToClusterForOfflineUser :: "('md, 'w) Host \<Rightarrow> 'md GoContext \<Rightarrow> string \<Rightarrow> HubMessage \<Rightarrow> 'w Sending \<Rightarrow> 'w Sending" where
  "routeToClusterForOfflineUser host ctx userID msg m =
     (if standalone (ms_cluster m) then m
      else if ms_collecting m then m\<lparr>ms_collected := ms_collected m @ [(userID, msg)]\<rparr>
      else doOfflineBroadcast host ctx userID msg m)"

section \<open>One attempt\<close>

definition local_broadcast :: "('md, 'w) Host \<Rightarrow> HubMessage \<Rightarrow> frame option \<Rightarrow> 'w Sending \<Rightarrow> int \<times> 'w Sending" where
  "local_broadcast host msg data =
     with_hub (handleBroadcast (ho_sh host) (ho_enc host) (ho_tr host) (ho_ctx host) (ho_broadcastID host) (ho_now host) msg data)"

text \<open>The closure of a delivery that is held back, when it is run.\<close>

definition run_held_direct :: "('md, 'w) Host \<Rightarrow> string \<Rightarrow> HubMessage \<Rightarrow> frame option \<Rightarrow> bool \<Rightarrow> 'w Sending \<Rightarrow> 'w Sending" where
  "run_held_direct host userID msg data routed m =
     (case local_broadcast host msg data m of
        (n, m) \<Rightarrow>
          if n = 0 \<and> \<not> routed
          then with_node (StoreOfflineOnDeliveryFailure msg \<circ> updateMessageStatusAsync (hm_MessageID msg) userID StatusFailed ReasonQueueFull) m
          else m)"

definition deliver_local :: "('md, 'w) Host \<Rightarrow> string \<Rightarrow> HubMessage \<Rightarrow> frame option \<Rightarrow> bool \<Rightarrow> 'w Sending \<Rightarrow> GoError option \<times> 'w Sending" where
  "deliver_local host userID msg data routed m =
     (if holdingUserDelivery userID (hb_replay (hub_of m)) then
        (case with_hub (\<lambda>h. case HoldUserDelivery userID (HeldDirect userID msg data routed) (hb_replay h) of (run, rm) \<Rightarrow> (run, h\<lparr>hb_replay := rm\<rparr>)) m of
           (run, m) \<Rightarrow> (None, if run = [] then m else run_held_direct host userID msg data routed m))
      else case local_broadcast host msg data m of
             (n, m) \<Rightarrow> (if n = 0 \<and> \<not> routed then Some temporary else None, m))"

definition complete_message :: "('md, 'w) Host \<Rightarrow> string \<Rightarrow> HubMessage \<Rightarrow> 'w Sending \<Rightarrow> HubMessage" where
  "complete_message host toUserID msg m =
     msg\<lparr>hm_ReceiverNode := (if hm_ReceiverNode msg = [] then ct_nodeID (ms_cluster m) else hm_ReceiverNode msg),
         hm_Receiver := (if hm_Receiver msg = [] then toUserID else hm_Receiver msg),
         hm_CreateAt := (if hm_CreateAt msg = 0 then ho_now host else hm_CreateAt msg)\<rparr>"

definition sendToUser :: "('md, 'w) Host \<Rightarrow> 'md GoContext \<Rightarrow> string \<Rightarrow> HubMessage \<Rightarrow> string list option \<Rightarrow> 'w Sending
    \<Rightarrow> GoError option \<times> HubMessage \<times> 'w Sending" where
  "sendToUser host ctx toUserID msg presetNodes m =
     (case InjectRoute (ho_tr host) ctx (complete_message host toUserID msg m) of
        (msg, ctx) \<Rightarrow>
          let ctx = TraceContext ctx msg;
              data = ho_enc host msg;
              m = (if \<not> IsExpress (guarantee msg m) then recordMessageToDatabase host msg data m else m);
              localOnline = has_user host toUserID ctx m
          in case with_cluster (ho_CheckAndRouteToNode host ctx toUserID msg presetNodes) m of
               ((routed, _, err), m) \<Rightarrow>
                 if err \<noteq> None \<and> \<not> localOnline then (Some temporary, msg, m)
                 else if routed \<and> \<not> localOnline then (None, msg, m)
                 else case deliver_local host toUserID msg data routed m of (err, m) \<Rightarrow> (err, msg, m))"

definition recordRetryAttemptAsync :: "HubMessage \<Rightarrow> int \<Rightarrow> GoError option \<Rightarrow> 'w Sending \<Rightarrow> 'w Sending" where
  "recordRetryAttemptAsync msg attemptNumber err m =
     m\<lparr>ms_retries := ms_retries m @ [(hm_MessageID msg, hm_Receiver msg, attemptNumber, err = None)]\<rparr>"

definition executeSendAttempt :: "('md, 'w) Host \<Rightarrow> 'md GoContext \<Rightarrow> string \<Rightarrow> string list option \<Rightarrow> 'w attempt_state \<Rightarrow> GoError option \<times> 'w attempt_state" where
  "executeSendAttempt host ctx toUserID presetNodes st =
     (case st of (msg, result, m) \<Rightarrow>
        let attemptNumber = int (length (sr_Attempts result)) + 1
        in case sendToUser host ctx toUserID msg presetNodes m of
             (err, msg, m) \<Rightarrow>
               (err, msg,
                result\<lparr>sr_Attempts := sr_Attempts result @ [\<lparr>sa_AttemptNumber = attemptNumber, sa_Error = err, sa_Success = (err = None)\<rparr>]\<rparr>,
                if attemptNumber > 1 \<and> ms_sink m then recordRetryAttemptAsync msg attemptNumber err m else m))"

section \<open>Retries\<close>

definition deliverOnlineWithPolicy :: "('md, 'w) Host \<Rightarrow> 'md GoContext \<Rightarrow> string \<Rightarrow> string list option \<Rightarrow> bool \<Rightarrow> 'w attempt_state
    \<Rightarrow> GoError option \<times> 'w attempt_state" where
  "deliverOnlineWithPolicy host ctx toUserID presetNodes express st =
     (let maxAttempts = ho_MaxRetries host + 1
      in case executeSendAttempt host ctx toUserID presetNodes st of
           (err, st) \<Rightarrow>
             if express \<or> err = None \<or> int (length (sr_Attempts (fst (snd st)))) \<ge> maxAttempts \<or> \<not> IsRetryableError err then (err, st)
             else ho_retry host (nat (maxAttempts - int (length (sr_Attempts (fst (snd st))))))
                    (\<lambda>st. executeSendAttempt host ctx toUserID (if sr_Attempts (fst (snd st)) = [] then presetNodes else None) st) st)"

definition finalizeSendResult :: "('md, 'w) Host \<Rightarrow> SendResult \<Rightarrow> GoError option \<Rightarrow> SendResult" where
  "finalizeSendResult host result finalErr =
     result\<lparr>sr_Success := (finalErr = None), sr_FinalError := finalErr, sr_TotalRetries := int (length (sr_Attempts result)) - 1,
            sr_DeliveredAt := (if finalErr = None then Some (ho_now host) else sr_DeliveredAt result)\<rparr>"

definition invokeMessageSendCallback :: "HubMessage \<Rightarrow> SendResult \<Rightarrow> 'w Sending \<Rightarrow> 'w Sending" where
  "invokeMessageSendCallback msg result m =
     (if \<not> ms_callback m \<or> hm_ReceiverType msg \<noteq> [] \<and> \<not> IsHumanType (hm_ReceiverType msg) then m
      else m\<lparr>ms_called := ms_called m @ [(msg, result)]\<rparr>)"

definition settleDeliveryFailure :: "HubMessage \<Rightarrow> bool \<Rightarrow> 'w Sending \<Rightarrow> 'w Sending" where
  "settleDeliveryFailure msg express m =
     (if express then with_node (metric RecordEphemeralDrop) m
      else with_node (StoreOfflineOnDeliveryFailure msg \<circ> updateMessageStatusAsync (hm_MessageID msg) (hm_Receiver msg) StatusFailed ReasonMaxRetry) m)"

definition offlineHandler :: "'w Sending \<Rightarrow> bool" where
  "offlineHandler m = nd_offlineHandler (hb_node (hub_of m))"

text \<open>The message as the core sends it.\<close>

definition prepare_send :: "('md, 'w) Host \<Rightarrow> string \<Rightarrow> HubMessage \<Rightarrow> 'w Sending \<Rightarrow> HubMessage" where
  "prepare_send host toUserID msg m =
     (let msg = (if hm_Sender msg = [] then (case ho_sender host of Some u \<Rightarrow> msg\<lparr>hm_Sender := u\<rparr> | None \<Rightarrow> msg) else msg);
          msg = msg\<lparr>hm_Receiver := toUserID, hm_ReceiverNode := ct_nodeID (ms_cluster m),
                    hm_CreateAt := (if hm_CreateAt msg = 0 then ho_now host else hm_CreateAt msg),
                    hm_Source := (if hm_Source msg = [] then MessageSourceOnline else hm_Source msg)\<rparr>;
          msg = (if hm_ID msg = [] then msg\<lparr>hm_ID := toUserID @ ''-'' @ ho_newID host\<rparr> else msg);
          msg = (if hm_MessageID msg = [] then msg\<lparr>hm_MessageID := ho_newID host\<rparr> else msg)
      in if IsExpress (guarantee msg m) then msg\<lparr>hm_DeliveryGuarantee := guarantee msg m\<rparr> else msg)"

text \<open>Nobody knows the user: broadcast, then keep the message for later.\<close>

definition send_offline :: "('md, 'w) Host \<Rightarrow> 'md GoContext \<Rightarrow> string \<Rightarrow> HubMessage \<Rightarrow> bool \<Rightarrow> 'w Sending \<Rightarrow> SendResult \<times> 'w Sending" where
  "send_offline host ctx toUserID msg express m =
     (let m = routeToClusterForOfflineUser host ctx toUserID msg m
      in if express then
           (let r = newSendResult\<lparr>sr_Success := True\<rparr>
            in (r, invokeMessageSendCallback msg r (with_node (metric RecordEphemeralDrop) m)))
         else if offlineHandler m then
           (case StoreOfflineMessage host toUserID msg m of
              (Some err, m) \<Rightarrow>
                let r = newSendResult\<lparr>sr_FinalError := Some err\<rparr>
                in (r, invokeMessageSendCallback msg r
                         (with_node (updateMessageStatusAsync (hm_MessageID msg) (hm_Receiver msg) StatusFailed ReasonQueueFull) m))
            | (None, m) \<Rightarrow>
                let r = newSendResult\<lparr>sr_Success := True, sr_StoredOffline := True\<rparr>
                in (r, invokeMessageSendCallback msg r m))
         else let r = newSendResult\<lparr>sr_FinalError := Some (NewError ErrTypeUserOffline)\<rparr>
              in (r, invokeMessageSendCallback msg r m))"

definition both_failed :: "GoError \<Rightarrow> GoError \<Rightarrow> GoError" where
  "both_failed e e' = \<lparr>ge_type = 0, ge_text = ''delivery failed: '' @ ge_text e @ ''; offline fallback failed: '' @ ge_text e'\<rparr>"

text \<open>After the attempts: an undelivered message goes to the offline queue.\<close>

definition settle_send :: "('md, 'w) Host \<Rightarrow> string \<Rightarrow> bool \<Rightarrow> GoError option \<Rightarrow> 'w attempt_state \<Rightarrow> SendResult \<times> 'w Sending" where
  "settle_send host toUserID express finalErr st =
     (case st of (msg, result, m) \<Rightarrow>
        case (if finalErr \<noteq> None \<and> \<not> express \<and> offlineHandler m \<and> hm_Source msg \<noteq> MessageSourceOffline
              then (case StoreOfflineMessage host toUserID msg m of
                      (None, m) \<Rightarrow> (None, result\<lparr>sr_StoredOffline := True\<rparr>,
                         with_node (updateMessageStatusAsync (hm_MessageID msg) (hm_Receiver msg) StatusUserOffline ReasonUserOffline) m)
                    | (Some e, m) \<Rightarrow> (Some (both_failed (the finalErr) e), result, m))
              else (finalErr, result, m)) of
          (finalErr, result, m) \<Rightarrow>
            let result = finalizeSendResult host result finalErr;
                m = (if finalErr \<noteq> None \<and> \<not> sr_StoredOffline result
                     then if express then settleDeliveryFailure msg True m
                          else with_node (updateMessageStatusAsync (hm_MessageID msg) (hm_Receiver msg) StatusFailed ReasonMaxRetry) m
                     else m)
            in (result, invokeMessageSendCallback msg result m))"

definition sendToUserWithRetryCore :: "('md, 'w) Host \<Rightarrow> 'md GoContext \<Rightarrow> string \<Rightarrow> HubMessage \<Rightarrow> string list option \<Rightarrow> 'w Sending
    \<Rightarrow> SendResult \<times> 'w Sending" where
  "sendToUserWithRetryCore host ctx toUserID msg presetNodes m =
     (let msg = prepare_send host toUserID msg m;
          express = IsExpress (guarantee msg m);
          localOnline = has_user host toUserID ctx m
      in case (if \<not> localOnline \<and> presetNodes = None then with_cluster (ho_BatchGetUserNodes host ctx toUserID) m else (presetNodes, m)) of
           (presetNodes, m) \<Rightarrow>
             if \<not> localOnline \<and> (case presetNodes of None \<Rightarrow> True | Some ns \<Rightarrow> ns = [])
             then send_offline host ctx toUserID msg express m
             else case deliverOnlineWithPolicy host ctx toUserID presetNodes express (msg, newSendResult, m) of
                    (finalErr, st) \<Rightarrow> settle_send host toUserID express finalErr st)"

definition sendToUserWithRetry :: "('md, 'w) Host \<Rightarrow> 'md GoContext \<Rightarrow> string \<Rightarrow> HubMessage \<Rightarrow> string list option \<Rightarrow> 'w Sending
    \<Rightarrow> SendResult \<times> 'w Sending" where
  "sendToUserWithRetry host ctx toUserID msg presetNodes m =
     (case InjectRoute (ho_tr host) ctx msg of (msg, ctx) \<Rightarrow> sendToUserWithRetryCore host ctx toUserID msg presetNodes m)"

definition SendToUserWithRetry :: "('md, 'w) Host \<Rightarrow> 'md GoContext \<Rightarrow> string \<Rightarrow> HubMessage \<Rightarrow> 'w Sending \<Rightarrow> SendResult \<times> 'w Sending" where
  "SendToUserWithRetry host ctx toUserID msg m = sendToUserWithRetry host (EnsureRouteDefaults ctx) toUserID msg None m"

section \<open>The retry loop\<close>

primrec runs :: "nat \<Rightarrow> ('s \<Rightarrow> 'e \<times> 's) \<Rightarrow> 's \<Rightarrow> 's" where
  "runs 0 f s = s"
| "runs (Suc k) f s = snd (f (runs k f s))"

text \<open>
  What is relied on of the retry loop: it runs the function at most as often as it is told, goes on only after an error, and
  returns nil only when the last run did (it may stop early when the context ends).
\<close>

definition retry_ok :: "(nat \<Rightarrow> ('s \<Rightarrow> 'e option \<times> 's) \<Rightarrow> 's \<Rightarrow> 'e option \<times> 's) \<Rightarrow> bool" where
  "retry_ok R \<longleftrightarrow> (\<forall>n f s. \<exists>k err. R n f s = (err, runs k f s) \<and> k \<le> n \<and> (\<forall>i. Suc i < k \<longrightarrow> fst (f (runs i f s)) \<noteq> None) \<and>
     (err = None \<longrightarrow> 0 < k \<and> fst (f (runs (k - 1) f s)) = None))"

lemma retry_okD:
  assumes "retry_ok R" "R n f s = (err, t)"
  shows "\<exists>k. t = runs k f s \<and> k \<le> n \<and> (\<forall>i. Suc i < k \<longrightarrow> fst (f (runs i f s)) \<noteq> None) \<and>
    (err = None \<longrightarrow> 0 < k \<and> fst (f (runs (k - 1) f s)) = None)"
proof -
  obtain k err' where k: "R n f s = (err', runs k f s)" "k \<le> n" "\<forall>i. Suc i < k \<longrightarrow> fst (f (runs i f s)) \<noteq> None"
    "err' = None \<longrightarrow> 0 < k \<and> fst (f (runs (k - 1) f s)) = None"
    using assms(1) unfolding retry_ok_def by blast
  with assms(2) show ?thesis by (intro exI [of _ k]) simp
qed

abbreviation tries :: "'w attempt_state \<Rightarrow> SendAttempt list" where
  "tries st \<equiv> sr_Attempts (fst (snd st))"

definition attempt_entry :: "nat \<Rightarrow> GoError option \<Rightarrow> SendAttempt" where
  "attempt_entry n err = \<lparr>sa_AttemptNumber = int n + 1, sa_Error = err, sa_Success = (err = None)\<rparr>"

lemma attempt_result:
  "fst (snd (snd (executeSendAttempt host ctx u nodes st))) =
     (fst (snd st))\<lparr>sr_Attempts := tries st @ [attempt_entry (length (tries st)) (fst (executeSendAttempt host ctx u nodes st))]\<rparr>"
  by (cases st) (simp add: executeSendAttempt_def attempt_entry_def Let_def split: prod.splits)

text \<open>The entries of a sequence of attempts: numbered from the first, and all but the last failed.\<close>

definition attempts_ok :: "SendAttempt list \<Rightarrow> bool" where
  "attempts_ok as \<longleftrightarrow> (\<forall>i < length as. sa_AttemptNumber (as ! i) = int i + 1 \<and> (sa_Success (as ! i) \<longleftrightarrow> sa_Error (as ! i) = None)) \<and>
     (\<forall>i. Suc i < length as \<longrightarrow> \<not> sa_Success (as ! i))"

lemma attempts_ok_snoc:
  "attempts_ok as \<Longrightarrow> (as \<noteq> [] \<longrightarrow> \<not> sa_Success (last as)) \<Longrightarrow> attempts_ok (as @ [attempt_entry (length as) err])"
  by (auto simp: attempts_ok_def attempt_entry_def nth_append last_conv_nth less_Suc_eq dest!: sym [of "Suc _" "length as"])

lemma runs_attempts:
  assumes f_def: "f = (\<lambda>st. executeSendAttempt host ctx u (nodes st) st)"
    and st: "attempts_ok (tries st)" "tries st \<noteq> []" "\<not> sa_Success (last (tries st))"
    and failed: "\<And>i. Suc i < k \<Longrightarrow> fst (f (runs i f st)) \<noteq> None"
  shows "attempts_ok (tries (runs k f st)) \<and> length (tries (runs k f st)) = length (tries st) + k \<and> tries (runs k f st) \<noteq> [] \<and>
    (fst (snd (runs k f st)))\<lparr>sr_Attempts := x\<rparr> = (fst (snd st))\<lparr>sr_Attempts := x\<rparr> \<and>
    (0 < k \<longrightarrow> sa_Success (last (tries (runs k f st))) = (fst (f (runs (k - 1) f st)) = None))"
  using failed
proof (induction k)
  case 0
  with st show ?case by simp
next
  case (Suc k)
  let ?t = "runs k f st"
  have IH: "attempts_ok (tries ?t)" "length (tries ?t) = length (tries st) + k" "tries ?t \<noteq> []"
    "(fst (snd ?t))\<lparr>sr_Attempts := x\<rparr> = (fst (snd st))\<lparr>sr_Attempts := x\<rparr>"
    "0 < k \<Longrightarrow> sa_Success (last (tries ?t)) = (fst (f (runs (k - 1) f st)) = None)"
    using Suc.IH Suc.prems by auto
  have last: "\<not> sa_Success (last (tries ?t))" using IH(5) Suc.prems [of "k - 1"] st(3) by (cases k) auto
  have res: "fst (snd (runs (Suc k) f st)) = (fst (snd ?t))\<lparr>sr_Attempts := tries ?t @ [attempt_entry (length (tries ?t)) (fst (f ?t))]\<rparr>"
    by (simp add: f_def attempt_result)
  have "attempts_ok (tries ?t @ [attempt_entry (length (tries ?t)) (fst (f ?t))])" using attempts_ok_snoc [OF IH(1)] last by blast
  moreover have "sa_Success (attempt_entry n e) = (e = None)" for n e by (simp add: attempt_entry_def)
  ultimately show ?case unfolding res using IH(2,4) by simp
qed

lemma policy_attempts:
  assumes "retry_ok (ho_retry host)" "deliverOnlineWithPolicy host ctx u nodes express (msg, newSendResult, m) = (err, msg', r, m')"
  shows "attempts_ok (sr_Attempts r)" "sr_Attempts r \<noteq> []" "int (length (sr_Attempts r)) \<le> max 1 (ho_MaxRetries host + 1)"
    "err = None \<Longrightarrow> sa_Success (last (sr_Attempts r))" "r\<lparr>sr_Attempts := []\<rparr> = newSendResult"
proof -
  obtain e1 st1 where first: "executeSendAttempt host ctx u nodes (msg, newSendResult, m) = (e1, st1)"
    by (cases "executeSendAttempt host ctx u nodes (msg, newSendResult, m)")
  have r1: "fst (snd st1) = newSendResult\<lparr>sr_Attempts := [attempt_entry 0 e1]\<rparr>"
    using attempt_result [of host ctx u nodes "(msg, newSendResult, m)"] first by (simp add: newSendResult_def)
  have ok1: "attempts_ok (tries st1)" "tries st1 \<noteq> []" using r1 by (simp_all add: attempts_ok_def attempt_entry_def)
  have one: "length (tries st1) = 1" "sa_Success (last (tries st1)) = (e1 = None)" using r1 by (simp_all add: attempt_entry_def)
  have "attempts_ok (sr_Attempts r) \<and> sr_Attempts r \<noteq> [] \<and> int (length (sr_Attempts r)) \<le> max 1 (ho_MaxRetries host + 1) \<and>
     (err = None \<longrightarrow> sa_Success (last (sr_Attempts r))) \<and> r\<lparr>sr_Attempts := []\<rparr> = newSendResult"
  proof (cases "express \<or> e1 = None \<or> 1 \<ge> ho_MaxRetries host + 1 \<or> \<not> IsRetryableError e1")
    case True
    with assms(2) first one have "err = e1" "(msg', r, m') = st1" by (auto simp: deliverOnlineWithPolicy_def Let_def)
    with r1 ok1 one show ?thesis by (auto simp: newSendResult_def)
  next
    case False
    let ?f = "\<lambda>st. executeSendAttempt host ctx u (if tries st = [] then nodes else None) st"
    have loop: "ho_retry host (nat (ho_MaxRetries host)) ?f st1 = (err, msg', r, m')"
      using assms(2) False first one by (auto simp: deliverOnlineWithPolicy_def Let_def)
    obtain k where k: "(msg', r, m') = runs k ?f st1" "k \<le> nat (ho_MaxRetries host)"
      "\<And>i. Suc i < k \<Longrightarrow> fst (?f (runs i ?f st1)) \<noteq> None" "err = None \<Longrightarrow> 0 < k \<and> fst (?f (runs (k - 1) ?f st1)) = None"
      using retry_okD [OF assms(1) loop] by blast
    note runs = runs_attempts [of ?f host ctx u "\<lambda>st. if tries st = [] then nodes else None" st1 k "[]", OF refl ok1 _ k(3)]
    have failed: "\<not> sa_Success (last (tries st1))" using one False by simp
    have r: "fst (snd (runs k ?f st1)) = r" by (simp flip: k(1))
    have "r\<lparr>sr_Attempts := []\<rparr> = newSendResult" "length (sr_Attempts r) = Suc k"
      using runs [OF failed] r1 one(1) unfolding r by (simp_all add: newSendResult_def)
    with runs [OF failed] k(2,4) False show ?thesis unfolding r by auto
  qed
  then show "attempts_ok (sr_Attempts r)" "sr_Attempts r \<noteq> []" "int (length (sr_Attempts r)) \<le> max 1 (ho_MaxRetries host + 1)"
    "err = None \<Longrightarrow> sa_Success (last (sr_Attempts r))" "r\<lparr>sr_Attempts := []\<rparr> = newSendResult"
    by auto
qed

section \<open>The result tells the truth\<close>

lemma stored_last: "StoreOfflineMessage host u msg m = (None, m') \<Longrightarrow> ms_stored m' \<noteq> [] \<and> last (ms_stored m') = (u, msg)"
  by (auto simp: StoreOfflineMessage_def split: prod.splits option.splits)

lemma keeps_stored [simp]:
  "ms_stored (invokeMessageSendCallback msg r m) = ms_stored m" "ms_stored (with_node f m) = ms_stored m"
  "ms_stored (settleDeliveryFailure msg b m) = ms_stored m"
  by (simp_all add: invokeMessageSendCallback_def with_node_def with_hub_def settleDeliveryFailure_def split: prod.splits)

definition result_true :: "string \<Rightarrow> bool \<Rightarrow> SendResult \<Rightarrow> 'w Sending \<Rightarrow> bool" where
  "result_true u express r m \<longleftrightarrow>
     (sr_Success r \<longleftrightarrow> sr_FinalError r = None) \<and>
     (sr_StoredOffline r \<longrightarrow> sr_Success r \<and> ms_stored m \<noteq> [] \<and> fst (last (ms_stored m)) = u) \<and>
     (sr_Success r \<and> \<not> sr_StoredOffline r \<longrightarrow> (if sr_Attempts r = [] then express else sa_Success (last (sr_Attempts r))))"

lemma send_offline_true: "send_offline host ctx u msg express m = (r, m') \<Longrightarrow> result_true u express r m' \<and> sr_Attempts r = []"
  by (auto simp: send_offline_def Let_def result_true_def newSendResult_def split: if_splits prod.splits option.splits dest: stored_last)

lemma settle_send_true:
  assumes "settle_send host u express err (msg, r0, m) = (r, m')" "r0\<lparr>sr_Attempts := []\<rparr> = newSendResult"
    "sr_Attempts r0 \<noteq> []" "err = None \<Longrightarrow> sa_Success (last (sr_Attempts r0))"
  shows "result_true u express r m' \<and> sr_Attempts r = sr_Attempts r0 \<and> sr_TotalRetries r = int (length (sr_Attempts r)) - 1"
proof -
  have "\<not> sr_StoredOffline r0" using arg_cong [OF assms(2), of sr_StoredOffline] by (simp add: newSendResult_def)
  with assms(1,3,4) show ?thesis
    by (auto simp: settle_send_def finalizeSendResult_def result_true_def Let_def split: if_splits prod.splits option.splits dest: stored_last)
qed

text \<open>Is the message sent fire-and-forget?\<close>

definition sent_express :: "('md, 'w) Host \<Rightarrow> string \<Rightarrow> HubMessage \<Rightarrow> 'w Sending \<Rightarrow> bool" where
  "sent_express host u msg m = IsExpress (guarantee (prepare_send host u msg m) m)"

lemma core_true:
  assumes "retry_ok (ho_retry host)" "sendToUserWithRetryCore host ctx u msg preset m = (r, m')"
  shows "result_true u (sent_express host u msg m) r m'"
  using assms(2) policy_attempts(2,4,5) [OF assms(1)] send_offline_true settle_send_true
  by (fastforce simp: sendToUserWithRetryCore_def Let_def sent_express_def split: if_splits prod.splits)

text \<open>C5: 
  The result of a send: success is the absence of a final error; a message reported as stored has been accepted by the
  offline store, last of all; and a success that is not stored was either delivered by the last attempt or, with no attempt made,
  a fire-and-forget message for a user nobody knows.
\<close>

theorem send_result_honest:
  assumes "retry_ok (ho_retry host)" "sendToUserWithRetryCore host ctx u msg preset m = (r, m')"
  shows "(sr_Success r \<longleftrightarrow> sr_FinalError r = None) \<and>
    (sr_StoredOffline r \<longrightarrow> sr_Success r \<and> ms_stored m' \<noteq> [] \<and> fst (last (ms_stored m')) = u) \<and>
    (sr_Success r \<and> \<not> sr_StoredOffline r \<longrightarrow> (if sr_Attempts r = [] then sent_express host u msg m else sa_Success (last (sr_Attempts r))))"
  using core_true [OF assms] unfolding result_true_def .

text \<open>C38: 
  The attempts of a send: there are at most \<open>MaxRetries + 1\<close> of them (one when the setting is negative), they are numbered from 1,
  each is marked as a success exactly when it returned no error, and none is made after a success.
\<close>

theorem send_attempts_bounded:
  assumes "retry_ok (ho_retry host)" "sendToUserWithRetryCore host ctx u msg preset m = (r, m')"
  shows "int (length (sr_Attempts r)) \<le> max 1 (ho_MaxRetries host + 1) \<and>
    (\<forall>i < length (sr_Attempts r). sa_AttemptNumber (sr_Attempts r ! i) = int i + 1 \<and> (sa_Success (sr_Attempts r ! i) \<longleftrightarrow> sa_Error (sr_Attempts r ! i) = None)) \<and>
    (\<forall>i. Suc i < length (sr_Attempts r) \<longrightarrow> \<not> sa_Success (sr_Attempts r ! i))"
proof -
  have "attempts_ok (sr_Attempts r) \<and> int (length (sr_Attempts r)) \<le> max 1 (ho_MaxRetries host + 1)"
  proof (cases "sr_Attempts r = []")
    case False
    with assms(2) obtain nodes express mg m1 err msg' r0 m2 where
      p: "deliverOnlineWithPolicy host ctx u nodes express (mg, newSendResult, m1) = (err, msg', r0, m2)"
      and q: "settle_send host u express err (msg', r0, m2) = (r, m')"
      by (auto simp: sendToUserWithRetryCore_def Let_def split: if_splits prod.splits dest: send_offline_true)
    from settle_send_true [OF q policy_attempts(5,2,4) [OF assms(1) p]] policy_attempts(1,3) [OF assms(1) p] show ?thesis by simp
  qed (simp add: attempts_ok_def)
  then show ?thesis unfolding attempts_ok_def by blast
qed

section \<open>On the cluster\<close>

text \<open>The ports of the host are the functions of the cluster, with enough nested calls.\<close>

definition check_port :: "string set \<Rightarrow> 'w Net \<Rightarrow> ('md GoContext \<Rightarrow> string) \<Rightarrow> int \<Rightarrow> 'md GoContext \<Rightarrow> string \<Rightarrow> HubMessage \<Rightarrow> string list option
    \<Rightarrow> 'w Cluster \<Rightarrow> (bool \<times> string list \<times> route_error option) \<times> 'w Cluster" where
  "check_port N net tr now ctx u msg preset c = the (checkAndRouteToNode (2 * card N + 2) net tr ctx now u msg preset c)"

definition route_port :: "string set \<Rightarrow> 'w Net \<Rightarrow> ('md GoContext \<Rightarrow> string) \<Rightarrow> int \<Rightarrow> 'md GoContext \<Rightarrow> HubMessage \<Rightarrow> ClusterDispatchOptions
    \<Rightarrow> 'w Cluster \<Rightarrow> route_error option \<times> 'w Cluster" where
  "route_port N net tr now ctx msg opts c = the (routeToCluster (2 * card N + 2) net tr ctx now msg opts c)"

definition cluster_host :: "string set \<Rightarrow> 'w Net \<Rightarrow> ('md, 'w) Host \<Rightarrow> ('md, 'w) Host" where
  "cluster_host N net host = host\<lparr>ho_CheckAndRouteToNode := check_port N net (ho_tr host) (ho_now host),
     ho_RouteToCluster := route_port N net (ho_tr host) (ho_now host)\<rparr>"

lemma check_some:
  assumes "\<And>opts c'. routeToCluster n net tr ctx now msg opts c' \<noteq> None"
  shows "checkAndRouteToNode n net tr ctx now u msg preset c \<noteq> None"
proof
  assume "checkAndRouteToNode n net tr ctx now u msg preset c = None"
  then obtain opts c' where "routeToCluster n net tr ctx now msg opts c' = None"
    by (auto simp: checkAndRouteToNode_def Let_def split: prod.splits option.splits if_splits)
  with assms show False by blast
qed

lemma check_terminates:
  assumes "finite N" "index_within net N"
  shows "checkAndRouteToNode (2 * card N + 2) net tr ctx now u msg preset c \<noteq> None"
proof (rule check_some)
  show "routeToCluster (2 * card N + 2) net tr ctx now msg opts c' \<noteq> None" for opts c'
    using route_settles [OF assms, of now msg c' "2 * card N + 2" tr ctx opts] reroutes_left_bound [OF assms(1), of now "hm_MessageID msg" c']
    by (auto simp: settles_def split: option.splits)
qed

lemma check_port_taken:
  assumes "finite N" "index_within net N" "hand_over net D" "check_port N net tr now ctx u msg preset c = ((True, nodes, err), c')"
  shows "D (ct_world c')"
proof -
  from check_terminates [OF assms(1,2), of tr ctx now u msg preset c] assms(4)
  have "checkAndRouteToNode (2 * card N + 2) net tr ctx now u msg preset c = Some ((True, nodes, err), c')" by (auto simp: check_port_def)
  from routed_is_handed_over [OF assms(3) this] show ?thesis by blast
qed

lemma hub_world: "with_hub f m = (a, m') \<Longrightarrow> ct_world (ms_cluster m') = ct_world (ms_cluster m)"
  by (auto simp: with_hub_def split: prod.splits)

lemma node_world [simp]: "ct_world (ms_cluster (with_node g m)) = ct_world (ms_cluster m)"
  by (simp add: with_node_def with_hub_def split: prod.splits)

lemma local_world: "local_broadcast host msg data m = (n, m') \<Longrightarrow> ct_world (ms_cluster m') = ct_world (ms_cluster m)"
  unfolding local_broadcast_def by (rule hub_world)

lemma held_world [simp]: "ct_world (ms_cluster (run_held_direct host u msg data routed m)) = ct_world (ms_cluster m)"
  by (auto simp: run_held_direct_def split: prod.splits dest: local_world)

lemma deliver_local_world: "deliver_local host u msg data routed m = (err, m') \<Longrightarrow> ct_world (ms_cluster m') = ct_world (ms_cluster m)"
  by (auto simp: deliver_local_def split: if_splits prod.splits dest: local_world hub_world)

text \<open>
  An attempt that returns no error has put the message somewhere: another node or channel has taken it, or it waits behind the
  replay gate of the user, or at least one local connection has accepted it.
\<close>

theorem attempt_delivers:
  assumes "finite N" "index_within net N" "hand_over net D"
    and "sendToUser (cluster_host N net host) ctx u msg preset m = (None, msg', m')"
  shows "D (ct_world (ms_cluster m')) \<or>
    (\<exists>m1. if holdingUserDelivery u (hb_replay (hub_of m1))
          then deliver_local (cluster_host N net host) u msg' (ho_enc host msg') False m1 = (None, m')
          else fst (local_broadcast (cluster_host N net host) msg' (ho_enc host msg') m1) \<noteq> 0 \<and>
               m' = snd (local_broadcast (cluster_host N net host) msg' (ho_enc host msg') m1))"
proof -
  let ?h = "cluster_host N net host"
  have h: "ho_enc ?h = ho_enc host" "ho_CheckAndRouteToNode ?h = check_port N net (ho_tr host) (ho_now host)"
    by (simp_all add: cluster_host_def)
  from assms(4) obtain ctx' m0 routed nodes err m1 where
    chk: "with_cluster (check_port N net (ho_tr host) (ho_now host) ctx' u msg' preset) m0 = ((routed, nodes, err), m1)"
    and rest: "routed \<and> m' = m1 \<or> deliver_local ?h u msg' (ho_enc host msg') routed m1 = (None, m')"
    by (auto simp: sendToUser_def Let_def h split: prod.splits if_splits)
  show ?thesis
  proof (cases routed)
    case True
    with chk have "D (ct_world (ms_cluster m1))"
      by (auto simp: with_cluster_def split: prod.splits dest: check_port_taken [OF assms(1-3)])
    with rest show ?thesis using deliver_local_world [of ?h u msg' "ho_enc host msg'" routed m1 None m'] by auto
  next
    case False
    with rest have "deliver_local ?h u msg' (ho_enc host msg') False m1 = (None, m')" by auto
    then show ?thesis by (intro disjI2 exI [of _ m1]) (auto simp: deliver_local_def split: prod.splits if_splits)
  qed
qed

section \<open>A node without the user\<close>

primrec simple_retry :: "nat \<Rightarrow> ('s \<Rightarrow> GoError option \<times> 's) \<Rightarrow> 's \<Rightarrow> GoError option \<times> 's" where
  "simple_retry 0 f s = (Some temporary, s)"
| "simple_retry (Suc n) f s =
     (case f s of
        (None, s) \<Rightarrow> (None, s)
      | (Some e, s) \<Rightarrow> if n = 0 then (Some e, s) else simple_retry n f s)"

lemma runs_shift: "runs (Suc k) f s = runs k f (snd (f s))"
  by (induction k) simp_all

lemma simple_retry_ok: "retry_ok simple_retry"
  unfolding retry_ok_def
proof (intro allI)
  fix n :: nat and f :: "'s \<Rightarrow> GoError option \<times> 's" and s
  show "\<exists>k err. simple_retry n f s = (err, runs k f s) \<and> k \<le> n \<and> (\<forall>i. Suc i < k \<longrightarrow> fst (f (runs i f s)) \<noteq> None) \<and>
     (err = None \<longrightarrow> 0 < k \<and> fst (f (runs (k - 1) f s)) = None)"
  proof (induction n arbitrary: s)
    case 0
    show ?case by (rule exI [of _ 0], rule exI [of _ "Some temporary"]) simp
  next
    case (Suc n)
    obtain e t where f: "f s = (e, t)" by (cases "f s")
    show ?case
    proof (cases "e = None \<or> n = 0")
      case True
      with f show ?thesis by (intro exI [of _ 1] exI [of _ e]) (auto split: option.splits)
    next
      case False
      from Suc.IH [of t] obtain k err where k: "simple_retry n f t = (err, runs k f t)" "k \<le> n" "\<And>i. Suc i < k \<Longrightarrow> fst (f (runs i f t)) \<noteq> None"
        "err = None \<Longrightarrow> 0 < k \<and> fst (f (runs (k - 1) f t)) = None" by blast
      have sh: "runs (Suc i) f s = runs i f t" for i by (simp only: runs_shift f snd_conv)
      have "fst (f (runs i f s)) \<noteq> None" if "Suc i < Suc k" for i
        using that k(3) [of "i - 1"] False f sh [of "i - 1"] by (cases i) (auto simp del: runs.simps(2) simp: runs.simps(1))
      moreover have "err = None \<Longrightarrow> fst (f (runs k f s)) = None" using k(4) sh [of "k - 1"] by (cases k) (auto simp del: runs.simps(2))
      ultimately show ?thesis using k(1,2) False f sh [of k]
        by (intro exI [of _ "Suc k"] exI [of _ err]) (auto simp del: runs.simps(2) split: option.splits)
    qed
  qed
qed

definition lone_hub :: Hub where
  "lone_hub = two_hub\<lparr>hb_node := two_node\<lparr>nd_conn := (nd_conn two_node)\<lparr>cs_reg := NewShardedRegistry True True\<rparr>,
     nd_offlineHandler := True, nd_sink := True, nd_offline := []\<rparr>\<rparr>"

definition lone_state :: "string list Sending" where
  "lone_state = \<lparr>ms_cluster = moving_cluster\<lparr>ct_hub := lone_hub\<rparr>, ms_submitted = [], ms_retries = [], ms_stored = [], ms_callback = True, ms_called = [],
     ms_collecting = False, ms_collected = [], ms_fallbacks = 0\<rparr>"

definition lone_host :: "int \<Rightarrow> (string \<Rightarrow> (bool \<times> bool) rpc) \<Rightarrow> (unit, string list) Host" where
  "lone_host retries answer = cluster_host {''A'', ''B''} (moving_net answer)
     \<lparr>ho_sh = demo_sh, ho_enc = (\<lambda>_. Some ''x''), ho_tr = (\<lambda>_. []), ho_ctx = demo_ctx, ho_now = 5, ho_newID = ''id'', ho_broadcastID = None,
      ho_MaxRetries = retries, ho_ttl = 0, ho_sender = None, ho_CheckAndRouteToNode = (\<lambda>_ _ _ _ c. ((False, [], None), c)), ho_RouteToCluster = (\<lambda>_ _ _ c. (None, c)),
      ho_BatchGetUserNodes = (\<lambda>ctx u c. (Some [''A''], c)), ho_StoreOfflineMessage = (\<lambda>u m w. (None, w)), ho_retry = simple_retry\<rparr>"

lemma lone_absent: "reg_of (hb_node (hub_of m)) = NewShardedRegistry True True \<Longrightarrow> \<not> has_user host u ctx m"
  by (simp add: has_user_def HasUser_def hasUserAnyScope_def shard_user_def NewShardedRegistry_def with_shard_rlock_def sm_new_def)

definition lone_message :: HubMessage where
  "lone_message = zero_message\<lparr>hm_ID := ''h'', hm_MessageID := ''m'', hm_Priority := PriorityCritical\<rparr>"

lemma lone_guarantee: "hm_DeliveryGuarantee msg = GuaranteeUnset \<Longrightarrow> hm_MessageType msg = [] \<Longrightarrow> hm_Priority msg = PriorityCritical \<Longrightarrow>
    guarantee msg m = GuaranteeGuaranteed"
  by (simp add: guarantee_def ResolveGuarantee_def guaranteeTypeDefaults_def)

lemmas lone_simps = moving_simps store_offline_def lone_hub_def lone_message_def StoreOfflineOnDeliveryFailure_def zero_message_def DeleteRerouteGuard_def
  checkAndRouteToNode_def user_nodes_def check_port_def cluster_host_def lone_host_def lone_state_def with_cluster_def

lemma lone_prepared: "prepare_send (lone_host n answer) ''u1'' lone_message lone_state = lone_message\<lparr>hm_Receiver := ''u1'', hm_ReceiverNode := ''X'', hm_CreateAt := 5,
    hm_Source := MessageSourceOnline\<rparr>"
  by (simp add: prepare_send_def Let_def lone_guarantee lone_message_def zero_message_def IsExpress_def lone_host_def cluster_host_def lone_state_def moving_cluster_def)

abbreviation missing :: "string \<Rightarrow> (bool \<times> bool) rpc" where "missing \<equiv> \<lambda>_. Reply (False, False)"

definition lone_sent :: HubMessage where
  "lone_sent = lone_message\<lparr>hm_Receiver := ''u1'', hm_ReceiverNode := ''X'', hm_CreateAt := 5, hm_Source := MessageSourceOnline, hm_AppID := DefaultAppID\<rparr>"

definition lone_after :: "string list Cluster" where
  "lone_after = moving_cluster\<lparr>ct_hub := lone_hub\<lparr>hb_node := (hb_node lone_hub)\<lparr>nd_offline := [lone_sent]\<rparr>\<rparr>, ct_world := [''a'', ''b'']\<rparr>"

lemma lone_check:
  "check_port {''A'', ''B''} (moving_net missing) (\<lambda>_. []) 5 ctx ''u1'' lone_sent (Some [''A'']) (moving_cluster\<lparr>ct_hub := lone_hub\<rparr>)
     = ((False, [], Some NoPath), lone_after)"
  by (simp add: check_port_def checkAndRouteToNode_def user_nodes_def numeral_eq_Suc) (auto simp: lone_sent_def lone_after_def lone_simps Let_def)

lemma lone_inject: "InjectRoute (\<lambda>_. []) demo_ctx (complete_message (lone_host n answer) ''u1'' (lone_message\<lparr>hm_Receiver := ''u1'', hm_ReceiverNode := ''X'', hm_CreateAt := 5,
    hm_Source := MessageSourceOnline\<rparr>) m) = (lone_sent, Inject (envelope_route lone_sent) demo_ctx)"
  by (simp add: InjectRoute_def complete_message_def lone_sent_def lone_message_def zero_message_def Let_def demo_ctx_def AppIDFromContext_def NamespaceFromContext_def
      GroupIDsFromContext_def RoutingFromContext_def NormalizeAppID_def DefaultAppID_def)

lemma lone_host_fields:
  "ho_tr (lone_host n answer) = (\<lambda>_. [])" "ho_enc (lone_host n answer) = (\<lambda>_. Some ''x'')" "ho_MaxRetries (lone_host n answer) = n"
  "ho_CheckAndRouteToNode (lone_host n answer) = check_port {''A'', ''B''} (moving_net answer) (\<lambda>_. []) 5" "ho_retry (lone_host n answer) = simple_retry"
  "ho_StoreOfflineMessage (lone_host n answer) = (\<lambda>u m w. (None, w))"
  by (simp_all add: lone_host_def cluster_host_def)

lemma lone_state_fields: "ms_cluster lone_state = moving_cluster\<lparr>ct_hub := lone_hub\<rparr>" "ms_stored lone_state = []" "reg_of (hb_node lone_hub) = NewShardedRegistry True True"
  "nd_sink (hb_node lone_hub)" "nd_offlineHandler (hb_node lone_hub)"
  by (simp_all add: lone_state_def lone_hub_def)

text \<open>
  The node of the index says that the user is not there, and no other node has him.  The router stores the message and reports an
  error; the sender takes the error for a failed delivery and stores the message a second time.
\<close>

theorem missed_stored_twice:
  "\<exists>r m. sendToUserWithRetryCore (lone_host 0 missing) demo_ctx ''u1'' lone_message (Some [''A'']) lone_state = (r, m) \<and>
     ms_stored m = [(''u1'', lone_sent)] \<and> nd_offline (hb_node (hub_of m)) = [lone_sent]"
proof -
  let ?host = "lone_host 0 missing"
  let ?msg = "prepare_send ?host ''u1'' lone_message lone_state"
  have g: "\<not> IsExpress (guarantee lone_sent m)" "\<not> IsExpress (guarantee ?msg m)" for m :: "string list Sending"
    unfolding lone_prepared by (simp_all add: lone_guarantee lone_sent_def lone_message_def zero_message_def IsExpress_def)
  define m1 where "m1 = recordMessageToDatabase ?host lone_sent (Some ''x'') lone_state"
  have m1: "ms_cluster m1 = moving_cluster\<lparr>ct_hub := lone_hub\<rparr>" "ms_stored m1 = []"
    by (simp_all add: m1_def recordMessageToDatabase_def lone_state_fields)
  have away: "\<not> has_user ?host ''u1'' c lone_state" "\<not> has_user ?host ''u1'' c m1" for c
    by (rule lone_absent, simp add: lone_state_fields m1)+
  have send: "sendToUser ?host demo_ctx ''u1'' ?msg (Some [''A'']) lone_state = (Some temporary, lone_sent, m1\<lparr>ms_cluster := lone_after\<rparr>)"
    unfolding sendToUser_def lone_host_fields(1) lone_prepared lone_inject
    by (simp add: g lone_host_fields m1_def [symmetric] with_cluster_def m1 lone_check away Let_def)
  obtain r2 where att: "deliverOnlineWithPolicy ?host demo_ctx ''u1'' (Some [''A'']) False (?msg, newSendResult, lone_state)
      = (Some temporary, lone_sent, r2, m1\<lparr>ms_cluster := lone_after\<rparr>)"
    by (simp add: deliverOnlineWithPolicy_def executeSendAttempt_def send newSendResult_def lone_host_fields Let_def)
  have core: "sendToUserWithRetryCore ?host demo_ctx ''u1'' lone_message (Some [''A'']) lone_state
      = settle_send ?host ''u1'' False (Some temporary) (lone_sent, r2, m1\<lparr>ms_cluster := lone_after\<rparr>)"
    using att by (simp add: sendToUserWithRetryCore_def Let_def away g)
  have "hm_Source lone_sent \<noteq> MessageSourceOffline" by (simp add: lone_sent_def)
  then show ?thesis unfolding core
    by (simp add: settle_send_def StoreOfflineMessage_def offlineHandler_def with_cluster_def outside_def lone_host_fields m1 lone_after_def lone_state_fields
        with_node_def with_hub_def updateMessageStatusAsync_def finalizeSendResult_def invokeMessageSendCallback_def Let_def)
qed

theorem send_result_honest_witness:
  "\<exists>r m. sendToUserWithRetryCore (lone_host 0 missing) demo_ctx ''u1'' lone_message (Some [''A'']) lone_state = (r, m) \<and>
     (sr_Success r \<longleftrightarrow> sr_FinalError r = None) \<and> ms_stored m \<noteq> []"
proof -
  obtain r m where run: "sendToUserWithRetryCore (lone_host 0 missing) demo_ctx ''u1'' lone_message (Some [''A'']) lone_state = (r, m)" "ms_stored m \<noteq> []"
    using missed_stored_twice by force
  have "retry_ok (ho_retry (lone_host 0 missing))" by (simp add: lone_host_fields simple_retry_ok)
  from send_result_honest [OF this run(1)] run show ?thesis by (intro exI [of _ r] exI [of _ m]) simp
qed

theorem send_attempts_bounded_witness:
  "\<exists>r m. sendToUserWithRetryCore (lone_host 0 missing) demo_ctx ''u1'' lone_message (Some [''A'']) lone_state = (r, m) \<and> length (sr_Attempts r) \<le> 1"
proof -
  obtain r m where run: "sendToUserWithRetryCore (lone_host 0 missing) demo_ctx ''u1'' lone_message (Some [''A'']) lone_state = (r, m)"
    using missed_stored_twice by force
  have "retry_ok (ho_retry (lone_host 0 missing))" by (simp add: lone_host_fields simple_retry_ok)
  from send_attempts_bounded [OF this run] run show ?thesis by (auto simp: lone_host_fields)
qed

lemma lone_routed:
  "\<exists>c'. check_port {''A'', ''B''} (moving_net moving_answer) (\<lambda>_. []) 5 ctx ''u1'' lone_sent (Some [''A'']) (moving_cluster\<lparr>ct_hub := lone_hub\<rparr>)
     = ((True, [''A''], None), c')"
  by (simp add: check_port_def checkAndRouteToNode_def user_nodes_def numeral_eq_Suc) (auto simp: lone_sent_def lone_simps Let_def)

lemma lone_host_cluster: "lone_host n answer = cluster_host {''A'', ''B''} (moving_net answer) (lone_host n answer)"
  by (simp add: lone_host_def cluster_host_def)

lemma lone_inject_again: "InjectRoute (\<lambda>_. []) demo_ctx (complete_message host ''u1'' lone_sent m) = (lone_sent, Inject (envelope_route lone_sent) demo_ctx)"
  by (simp add: InjectRoute_def complete_message_def lone_sent_def lone_message_def zero_message_def Let_def demo_ctx_def AppIDFromContext_def NamespaceFromContext_def
      GroupIDsFromContext_def RoutingFromContext_def NormalizeAppID_def DefaultAppID_def)

theorem attempt_delivers_witness:
  "\<exists>m'. sendToUser (lone_host 0 moving_answer) demo_ctx ''u1'' lone_sent (Some [''A'']) lone_state = (None, lone_sent, m') \<and>
     (''b'' \<in> set (ct_world (ms_cluster m')) \<or>
       (\<exists>m1. if holdingUserDelivery ''u1'' (hb_replay (hub_of m1))
             then deliver_local (lone_host 0 moving_answer) ''u1'' lone_sent (Some ''x'') False m1 = (None, m')
             else fst (local_broadcast (lone_host 0 moving_answer) lone_sent (Some ''x'') m1) \<noteq> 0 \<and>
                  m' = snd (local_broadcast (lone_host 0 moving_answer) lone_sent (Some ''x'') m1)))"
proof -
  let ?host = "lone_host 0 moving_answer"
  have g: "\<not> IsExpress (guarantee lone_sent m)" for m :: "string list Sending"
    by (simp add: lone_guarantee lone_sent_def lone_message_def zero_message_def IsExpress_def)
  define m1 where "m1 = recordMessageToDatabase ?host lone_sent (Some ''x'') lone_state"
  have m1: "ms_cluster m1 = moving_cluster\<lparr>ct_hub := lone_hub\<rparr>" by (simp add: m1_def recordMessageToDatabase_def lone_state_fields)
  have away: "\<not> has_user ?host ''u1'' c m1" for c by (rule lone_absent) (simp add: m1 lone_state_fields)
  obtain c' where c': "check_port {''A'', ''B''} (moving_net moving_answer) (\<lambda>_. []) 5 (TraceContext (Inject (envelope_route lone_sent) demo_ctx) lone_sent) ''u1'' lone_sent
      (Some [''A'']) (moving_cluster\<lparr>ct_hub := lone_hub\<rparr>) = ((True, [''A''], None), c')" using lone_routed by blast
  have run: "sendToUser ?host demo_ctx ''u1'' lone_sent (Some [''A'']) lone_state = (None, lone_sent, m1\<lparr>ms_cluster := c'\<rparr>)"
    unfolding sendToUser_def lone_host_fields(1) lone_inject_again
    by (simp add: g lone_host_fields m1_def [symmetric] with_cluster_def m1 c' away Let_def)
  have "sendToUser (cluster_host {''A'', ''B''} (moving_net moving_answer) ?host) demo_ctx ''u1'' lone_sent (Some [''A'']) lone_state
      = (None, lone_sent, m1\<lparr>ms_cluster := c'\<rparr>)"
    using run by (simp flip: lone_host_cluster)
  from run attempt_delivers [OF _ moving_within moving_hand_over this, unfolded lone_host_cluster [symmetric] lone_host_fields(2)]
  show ?thesis by (intro exI [of _ "m1\<lparr>ms_cluster := c'\<rparr>"] conjI) simp_all
qed

end
