(* ===== verification/Fanout.thy ===== *)
theory Fanout
  imports Send
begin

text \<open>
  The fan-out to many users: messaging/fanout.go.

  \<^item> \<open>fp_step\<close> is the bounded worker pool of \<open>runFanout\<close>: workers take numbers from an atomic cursor and run the item of their
    number; a panic of an item is caught, what it did before stays.  \<open>runFanout\<close> relates the state before the call to the states
    it can return with.  An item runs as one step: the model interleaves items, not the insides of two sends.
  \<^item> The entries \<open>SendToMultipleUsers\<close>, \<open>SendToGroupMembers\<close> and \<open>SendToClientsWithRetry\<close> run the send of \<open>Send\<close> for every target,
    collect the broadcasts for unknown users and send them at the end.
  \<^item> Which sends panic, and what they leave behind, is a parameter (\<open>Panics\<close>), as is the node index of the repository.
\<close>

declare map_of_eq_Some_iff [simp del]

section \<open>The worker pool\<close>

definition fanoutConcurrency :: "int option \<Rightarrow> int" where
  "fanoutConcurrency messageWorkers = (case messageWorkers of Some n \<Rightarrow> if n > 0 then n else 64 | None \<Rightarrow> 64)"

text \<open>An item function returns \<open>Inl\<close> the state it leaves when it panics.\<close>

type_synonym ('a, 's) item_fn = "nat \<Rightarrow> 'a \<Rightarrow> 's \<Rightarrow> 's + 's"

definition fanoutInvoke :: "'a list \<Rightarrow> nat \<Rightarrow> ('a, 's) item_fn \<Rightarrow> 's \<Rightarrow> 's" where
  "fanoutInvoke items idx fn s = (case fn idx (items ! idx) s of Inl s \<Rightarrow> s | Inr s \<Rightarrow> s)"

datatype fanout_pc = Fetch | Invoke nat | Exited

record 's fanout_pool =
  fp_cursor :: nat
  fp_workers :: "fanout_pc list"
  fp_state :: 's

inductive fp_step :: "'a list \<Rightarrow> ('a, 's) item_fn \<Rightarrow> 's fanout_pool \<Rightarrow> 's fanout_pool \<Rightarrow> bool" for items fn where
  take_number: "w < length (fp_workers p) \<Longrightarrow> fp_workers p ! w = Fetch \<Longrightarrow> fp_cursor p < length items \<Longrightarrow>
    fp_step items fn p (p\<lparr>fp_cursor := fp_cursor p + 1, fp_workers := (fp_workers p)[w := Invoke (fp_cursor p)]\<rparr>)"
| leave_pool: "w < length (fp_workers p) \<Longrightarrow> fp_workers p ! w = Fetch \<Longrightarrow> length items \<le> fp_cursor p \<Longrightarrow>
    fp_step items fn p (p\<lparr>fp_cursor := fp_cursor p + 1, fp_workers := (fp_workers p)[w := Exited]\<rparr>)"
| run_item: "w < length (fp_workers p) \<Longrightarrow> fp_workers p ! w = Invoke idx \<Longrightarrow>
    fp_step items fn p (p\<lparr>fp_state := fanoutInvoke items idx fn (fp_state p), fp_workers := (fp_workers p)[w := Fetch]\<rparr>)"

definition fp_start :: "nat \<Rightarrow> 's \<Rightarrow> 's fanout_pool" where
  "fp_start c s = \<lparr>fp_cursor = 0, fp_workers = replicate c Fetch, fp_state = s\<rparr>"

definition all_exited :: "'s fanout_pool \<Rightarrow> bool" where
  "all_exited p \<longleftrightarrow> set (fp_workers p) \<subseteq> {Exited}"

definition pool_size :: "int \<Rightarrow> nat \<Rightarrow> int" where
  "pool_size concurrency n = (if concurrency > int n then int n else concurrency)"

definition runFanout :: "'a list \<Rightarrow> int \<Rightarrow> ('a, 's) item_fn \<Rightarrow> 's \<Rightarrow> 's \<Rightarrow> bool" where
  "runFanout items concurrency fn s t \<longleftrightarrow>
     (let n = length items; concurrency = pool_size concurrency n
      in if n = 0 then t = s
         else if concurrency \<le> 1 then t = fold (\<lambda>idx. fanoutInvoke items idx fn) [0..<n] s
         else \<exists>p. (fp_step items fn)\<^sup>*\<^sup>* (fp_start (nat concurrency) s) p \<and> all_exited p \<and> t = fp_state p)"

section \<open>Every item runs once\<close>

fun held_number :: "fanout_pc \<Rightarrow> nat multiset" where
  "held_number (Invoke i) = {#i#}"
| "held_number _ = {#}"

definition tally :: "('b \<Rightarrow> 'c::comm_monoid_add) \<Rightarrow> 'b list \<Rightarrow> 'c" where
  "tally g ws = sum_list (map g ws)"

abbreviation in_flight :: "fanout_pc list \<Rightarrow> nat multiset" where
  "in_flight \<equiv> tally held_number"

definition exits :: "fanout_pc list \<Rightarrow> nat" where
  "exits = tally (\<lambda>w. if w = Exited then 1 else 0)"

lemma tally_update: "w < length ws \<Longrightarrow> tally g (ws[w := v]) + g (ws ! w) = tally g ws + g v"
  by (induction ws arbitrary: w) (auto simp: tally_def nth_Cons ac_simps split: nat.splits)

lemma tally_replicate_zero [simp]: "g v = 0 \<Longrightarrow> tally g (replicate n v) = 0"
  by (induction n) (simp_all add: tally_def)

text \<open>The order in which the items ran: no item runs before more than \<open>c - 1\<close> of its predecessors.\<close>

definition near_order :: "nat \<Rightarrow> nat list \<Rightarrow> bool" where
  "near_order c L \<longleftrightarrow> (\<forall>p < length L. L ! p < p + c)"

definition fp_inv :: "'a list \<Rightarrow> ('a, 's) item_fn \<Rightarrow> nat \<Rightarrow> 's \<Rightarrow> 's fanout_pool \<Rightarrow> bool" where
  "fp_inv items fn c s p \<longleftrightarrow>
     (\<exists>L. fp_state p = fold (\<lambda>i. fanoutInvoke items i fn) L s \<and> near_order c L \<and>
        mset L + in_flight (fp_workers p) = mset [0..<min (fp_cursor p) (length items)]) \<and>
     length (fp_workers p) = c \<and> fp_cursor p = min (fp_cursor p) (length items) + exits (fp_workers p)"

lemma size_in_flight: "size (in_flight ws) \<le> length ws"
proof (induction ws)
  case (Cons w ws)
  then show ?case by (cases w) (simp_all add: tally_def)
qed (simp add: tally_def)

lemma flight_below: "mset L + F = mset [0..<k] \<Longrightarrow> i \<in># F \<Longrightarrow> size F \<le> c \<Longrightarrow> i < length L + c"
proof -
  assume e: "mset L + F = mset [0..<k]" and i: "i \<in># F" and c: "size F \<le> c"
  have "i \<in># mset [0..<k]" using i unfolding e [symmetric] by simp
  moreover have "length L + size F = k" using arg_cong [OF e, of size] by simp
  ultimately show "i < length L + c" using c by simp
qed

lemma near_order_snoc: "near_order c L \<Longrightarrow> i < length L + c \<Longrightarrow> near_order c (L @ [i])"
  by (auto simp: near_order_def nth_append less_Suc_eq)

lemma fp_inv_run:
  assumes "fp_inv items fn c s p" "w < length (fp_workers p)" "fp_workers p ! w = Invoke idx"
  shows "fp_inv items fn c s (p\<lparr>fp_state := fanoutInvoke items idx fn (fp_state p), fp_workers := (fp_workers p)[w := Fetch]\<rparr>)"
proof -
  let ?ws = "fp_workers p" and ?k = "min (fp_cursor p) (length items)"
  obtain L where L: "fp_state p = fold (\<lambda>i. fanoutInvoke items i fn) L s" "near_order c L" "mset L + in_flight ?ws = mset [0..<?k]"
    and rest: "length ?ws = c" "fp_cursor p = ?k + exits ?ws" using assms(1) unfolding fp_inv_def by blast
  have upd: "in_flight (?ws[w := Fetch]) + {#idx#} = in_flight ?ws" using tally_update [OF assms(2), of held_number Fetch] assms(3) by simp
  have "exits (?ws[w := Fetch]) = exits ?ws"
    using tally_update [OF assms(2), of "\<lambda>w. if w = Exited then 1 else 0::nat" Fetch] assms(3) by (simp add: exits_def)
  moreover have "idx \<in># in_flight ?ws" unfolding upd [symmetric] by simp
  from flight_below [OF L(3) this, of c] size_in_flight [of ?ws] have "idx < length L + c" unfolding rest(1) by blast
  note near_order_snoc [OF L(2) this]
  moreover have "mset (L @ [idx]) + in_flight (?ws[w := Fetch]) = mset [0..<?k]" unfolding L(3) [symmetric] upd [symmetric] by simp
  ultimately show ?thesis using L(1) rest unfolding fp_inv_def by (intro conjI exI [of _ "L @ [idx]"]) simp_all
qed

lemma fp_inv_step:
  assumes "fp_inv items fn c s p" "fp_step items fn p q"
  shows "fp_inv items fn c s q"
  using assms(2)
proof cases
  case (take_number w)
  let ?ws = "fp_workers p" and ?k = "fp_cursor p"
  have "in_flight (?ws[w := Invoke ?k]) = add_mset ?k (in_flight ?ws)" using tally_update [OF take_number(2), of held_number "Invoke ?k"] take_number(3) by simp
  moreover have "exits (?ws[w := Invoke ?k]) = exits ?ws"
    using tally_update [OF take_number(2), of "\<lambda>w. if w = Exited then 1 else 0::nat" "Invoke ?k"] take_number(3) by (simp add: exits_def)
  ultimately show ?thesis using assms(1) take_number(1,4) unfolding fp_inv_def by auto
next
  case (leave_pool w)
  let ?ws = "fp_workers p"
  have "in_flight (?ws[w := Exited]) = in_flight ?ws" using tally_update [OF leave_pool(2), of held_number Exited] leave_pool(3) by simp
  moreover have "exits (?ws[w := Exited]) = exits ?ws + 1"
    using tally_update [OF leave_pool(2), of "\<lambda>w. if w = Exited then 1 else 0::nat" Exited] leave_pool(3) by (simp add: exits_def)
  ultimately show ?thesis using assms(1) leave_pool(1,4) unfolding fp_inv_def by auto
next
  case (run_item w idx)
  then show ?thesis using fp_inv_run [OF assms(1) run_item(2,3)] by simp
qed

interpretation fanout: invariant_system "\<lambda>p. p = fp_start c s" "fp_step items fn" "fp_inv items fn c s"
proof unfold_locales
  show "fp_inv items fn c s p" if "p = fp_start c s" for p
    using that by (auto simp: fp_inv_def fp_start_def near_order_def exits_def intro!: exI [of _ "[]"])
qed (rule fp_inv_step)

lemma all_exited_tally: "all_exited p \<Longrightarrow> in_flight (fp_workers p) = {#} \<and> exits (fp_workers p) = length (fp_workers p)"
proof -
  have "set ws \<subseteq> {Exited} \<Longrightarrow> in_flight ws = {#} \<and> exits ws = length ws" for ws
    by (induction ws) (auto simp: tally_def exits_def)
  then show "all_exited p \<Longrightarrow> ?thesis" by (simp add: all_exited_def)
qed

definition fanout_order :: "nat \<Rightarrow> nat \<Rightarrow> nat list \<Rightarrow> bool" where
  "fanout_order c n L \<longleftrightarrow> mset L = mset [0..<n] \<and> near_order (max 1 c) L"

lemma serial_order: "near_order (Suc c) [0..<n]"
  by (simp add: near_order_def)

lemma runFanout_order:
  assumes "runFanout items c fn s t"
  shows "\<exists>L. fanout_order (nat c) (length items) L \<and> t = fold (\<lambda>i. fanoutInvoke items i fn) L s"
proof (cases "length items = 0 \<or> pool_size c (length items) \<le> 1")
  case True
  then have "t = fold (\<lambda>i. fanoutInvoke items i fn) [0..<length items] s" using assms by (cases "items = []") (auto simp: runFanout_def Let_def)
  then show ?thesis using serial_order [of "max 1 (nat c) - 1" "length items"] by (intro exI [of _ "[0..<length items]"]) (simp add: fanout_order_def)
next
  case False
  let ?n = "length items" and ?c = "nat (pool_size c (length items))"
  from False assms obtain p where p: "(fp_step items fn)\<^sup>*\<^sup>* (fp_start ?c s) p" "all_exited p" "t = fp_state p" by (auto simp: runFanout_def Let_def)
  have "fp_inv items fn ?c s (fp_start ?c s)" by (rule fanout.inv_init) (rule refl)
  from fanout.rtrancl_inv [OF p(1) this] all_exited_tally [OF p(2)] obtain L where
    L: "t = fold (\<lambda>i. fanoutInvoke items i fn) L s" "near_order ?c L" "mset L = mset [0..<min (fp_cursor p) ?n]"
    and k: "fp_cursor p = min (fp_cursor p) ?n + ?c" unfolding fp_inv_def p(3) by auto
  have "min (fp_cursor p) ?n = ?n" using k False by linarith
  moreover have "near_order (max 1 (nat c)) L" using L(2) False unfolding near_order_def pool_size_def by (force split: if_splits)
  ultimately show ?thesis using L(1,3) by (intro exI [of _ L]) (simp add: fanout_order_def)
qed

section \<open>The pool ends\<close>

fun pc_weight :: "fanout_pc \<Rightarrow> nat" where
  "pc_weight Fetch = 1"
| "pc_weight (Invoke i) = 2"
| "pc_weight Exited = 0"

definition fp_work :: "nat \<Rightarrow> 's fanout_pool \<Rightarrow> nat" where
  "fp_work n p = 3 * (n - fp_cursor p) + tally pc_weight (fp_workers p)"

lemma fp_work_less:
  assumes "fp_step items fn p q"
  shows "fp_work (length items) q < fp_work (length items) p"
  using assms
proof cases
  case (take_number w)
  then show ?thesis using tally_update [OF take_number(2), of pc_weight "Invoke (fp_cursor p)"] by (simp add: fp_work_def)
next
  case (leave_pool w)
  then show ?thesis using tally_update [OF leave_pool(2), of pc_weight Exited] by (simp add: fp_work_def)
next
  case (run_item w idx)
  then show ?thesis using tally_update [OF run_item(2), of pc_weight Fetch] by (simp add: fp_work_def)
qed

lemma fp_progress: "all_exited p \<or> (\<exists>q. fp_step items fn p q)"
proof (cases "all_exited p")
  case False
  then obtain w where w: "w < length (fp_workers p)" "fp_workers p ! w \<noteq> Exited" by (fastforce simp: all_exited_def in_set_conv_nth)
  show ?thesis
  proof (cases "fp_workers p ! w")
    case Fetch
    then show ?thesis using take_number [OF w(1) Fetch, of items fn] leave_pool [OF w(1) Fetch, of items fn]
      by (cases "fp_cursor p < length items") auto
  next
    case (Invoke idx)
    from run_item [OF w(1) this] show ?thesis by blast
  qed (use w in simp)
qed simp

lemma fp_steps_bounded: "(fp_step items fn ^^ k) p q \<Longrightarrow> k + fp_work (length items) q \<le> fp_work (length items) p"
proof (induction k arbitrary: q)
  case (Suc k)
  then obtain r where "(fp_step items fn ^^ k) p r" "fp_step items fn r q" by auto
  with Suc.IH [of r] fp_work_less [of items fn r q] show ?case by simp
qed simp

lemma fp_finishes: "\<exists>q. (fp_step items fn)\<^sup>*\<^sup>* p q \<and> all_exited q"
proof (induction "fp_work (length items) p" arbitrary: p rule: less_induct)
  case less
  show ?case
  proof (cases "all_exited p")
    case False
    then obtain r where r: "fp_step items fn p r" using fp_progress by blast
    from less [OF fp_work_less [OF r]] r show ?thesis by (meson converse_rtranclp_into_rtranclp)
  qed blast
qed

lemma runFanout_returns: "\<exists>t. runFanout items concurrency fn s t"
proof -
  obtain p where "(fp_step items fn)\<^sup>*\<^sup>* (fp_start (nat (pool_size concurrency (length items))) s) p" "all_exited p" using fp_finishes by blast
  then show ?thesis by (cases "items = []"; cases "pool_size concurrency (length items) \<le> 1") (auto simp: runFanout_def Let_def)
qed

lemma fp_work_start: "fp_work n (fp_start c s) = 3 * n + c"
proof -
  have "tally pc_weight (replicate c Fetch) = c" by (induction c) (simp_all add: tally_def)
  then show ?thesis by (simp add: fp_work_def fp_start_def)
qed

text \<open>C8: 
  However the workers are scheduled, the pool makes at most three steps per item and one per worker, is never stuck before all
  workers have left, and so the call returns; when it returns, every item has run exactly once, a panic of one item included,
  and an item is overtaken by fewer successors than there are workers.
\<close>

theorem fanout_exactly_once:
  "((fp_step items fn ^^ k) (fp_start c s) p \<longrightarrow> k \<le> 3 * length items + c \<and> (all_exited p \<or> (\<exists>q. fp_step items fn p q))) \<and>
   (\<exists>t. runFanout items concurrency fn s t) \<and>
   (runFanout items concurrency fn s t \<longrightarrow>
      (\<exists>L. mset L = mset [0..<length items] \<and> (\<forall>p < length L. L ! p < p + max 1 (nat concurrency)) \<and>
           t = fold (\<lambda>i. fanoutInvoke items i fn) L s))"
proof (intro conjI impI)
  show "k \<le> 3 * length items + c" "all_exited p \<or> (\<exists>q. fp_step items fn p q)" if "(fp_step items fn ^^ k) (fp_start c s) p"
    using fp_steps_bounded [OF that] fp_progress [of p items fn] by (simp_all add: fp_work_start)
  show "\<exists>t. runFanout items concurrency fn s t" by (rule runFanout_returns)
  show "\<exists>L. mset L = mset [0..<length items] \<and> (\<forall>p < length L. L ! p < p + max 1 (nat concurrency)) \<and> t = fold (\<lambda>i. fanoutInvoke items i fn) L s"
    if "runFanout items concurrency fn s t"
    using runFanout_order [OF that] by (auto simp: fanout_order_def near_order_def)
qed

theorem fanout_exactly_once_witness:
  "\<exists>t. runFanout [3, 4, 5::int] 2 (\<lambda>i x s. if i = 1 then Inl (s + x) else Inr (s + x)) 0 t \<and> t = (12::int)"
proof -
  let ?fn = "\<lambda>(i::nat) x s. if i = 1 then Inl (s + x) else Inr (s + x :: int)"
  note once = fanout_exactly_once [where items = "[3, 4, 5::int]" and fn = ?fn and concurrency = 2 and s = 0]
  from once obtain t where t: "runFanout [3, 4, 5] 2 ?fn 0 t" by blast
  with once obtain L where L: "mset L = mset [0..<length [3, 4, 5::int]]" "t = fold (\<lambda>i. fanoutInvoke [3, 4, 5] i ?fn) L 0" by blast
  have "fold (\<lambda>i. fanoutInvoke [3, 4, 5] i ?fn) L a = a + sum_list (map ((!) [3, 4, 5]) L)" for a
    by (induction L arbitrary: a) (simp_all add: fanoutInvoke_def)
  moreover have "sum_list (map ((!) [3, 4, 5::int]) L) = sum_mset (image_mset ((!) [3, 4, 5]) (mset [0..<length [3, 4, 5::int]]))"
    unfolding L(1) [symmetric] by (simp flip: sum_mset_sum_list)
  ultimately show ?thesis using t L(2) by (simp add: numeral_eq_Suc)
qed

section \<open>The entries\<close>

record BroadcastResult =
  br_Total :: int
  br_Success :: int
  br_Offline :: int
  br_Failed :: int
  br_Errors :: "string \<rightharpoonup> GoError"
  br_OfflineIDs :: "string list"
  br_FailedIDs :: "string list"

text \<open>What a send or a broadcast that panics leaves behind; \<open>None\<close> when it does not panic.\<close>

record 'w Panics =
  pn_send :: "string \<Rightarrow> 'w Sending \<Rightarrow> 'w Sending option"
  pn_broadcast :: "string \<Rightarrow> 'w Sending \<Rightarrow> 'w Sending option"

text \<open>The configuration of the pool and the node index, which may not exist and may fail.\<close>

record ('md, 'w) FanoutEnv =
  fe_messageWorkers :: "int option"
  fe_onlineStatusRepo :: "('md GoContext \<Rightarrow> string list \<Rightarrow> 'w \<Rightarrow> (unit + (string \<rightharpoonup> string list)) \<times> 'w) option"
  fe_panics :: "'w Panics"

definition BatchGetUserNodes :: "('md, 'w) FanoutEnv \<Rightarrow> 'md GoContext \<Rightarrow> string list \<Rightarrow> 'w Sending \<Rightarrow> (string \<rightharpoonup> string list) option \<times> 'w Sending" where
  "BatchGetUserNodes env ctx userIDs m =
     (case fe_onlineStatusRepo env of
        None \<Rightarrow> (None, m)
      | Some repo \<Rightarrow>
          if userIDs = [] then (None, m)
          else case with_cluster (outside (repo ctx userIDs)) m of
                 (Inl _, m) \<Rightarrow> (None, m)
               | (Inr nodes, m) \<Rightarrow> (Some nodes, m))"

primrec unique_ids :: "string set \<Rightarrow> string list \<Rightarrow> string list" where
  "unique_ids seen [] = []"
| "unique_ids seen (uid # uids) =
     (if uid = [] \<or> uid \<in> seen then unique_ids seen uids else uid # unique_ids (insert uid seen) uids)"

definition prefetchFanoutNodes :: "('md, 'w) FanoutEnv \<Rightarrow> 'md GoContext \<Rightarrow> HubMessage \<Rightarrow> string list \<Rightarrow> 'w Sending
    \<Rightarrow> (string \<rightharpoonup> string list) option \<times> 'w Sending" where
  "prefetchFanoutNodes env ctx msg userIDs m =
     (if length userIDs < 2 \<or> standalone (ms_cluster m) then (None, m)
      else let appID = (if hm_AppID msg = [] then AppIDFromContext ctx else hm_AppID msg);
               ns = (if hm_Namespace msg = [] then NamespaceFromContext ctx else hm_Namespace msg);
               routeCtx = Inject (Route_WithNamespace ns (Route_WithAppID appID NewRoute)) ctx;
               uniques = unique_ids {} userIDs
           in if uniques = [] then (None, m)
              else case BatchGetUserNodes env routeCtx uniques m of
                     (Some nodes, m) \<Rightarrow> (if dom nodes = {} then None else Some nodes, m)
                   | (None, m) \<Rightarrow> (None, m))"

definition preset :: "(string \<rightharpoonup> string list) option \<Rightarrow> string \<Rightarrow> string list option" where
  "preset nodes u = (case nodes of None \<Rightarrow> None | Some f \<Rightarrow> f u)"

text \<open>A context with a fresh collector, and the flush that is deferred to the end of the call.\<close>

definition withOfflineBroadcastCollector :: "'w Sending \<Rightarrow> 'w Sending" where
  "withOfflineBroadcastCollector m = m\<lparr>ms_collecting := True, ms_collected := []\<rparr>"

definition leave_collector :: "'w Sending \<Rightarrow> 'w Sending \<Rightarrow> 'w Sending" where
  "leave_collector outer m = m\<lparr>ms_collecting := ms_collecting outer, ms_collected := ms_collected outer\<rparr>"

definition broadcast_item :: "('md, 'w) Host \<Rightarrow> ('md, 'w) FanoutEnv \<Rightarrow> 'md GoContext \<Rightarrow> (string \<times> HubMessage, 'w Sending) item_fn" where
  "broadcast_item host env ctx idx entry m =
     (case pn_broadcast (fe_panics env) (fst entry) m of
        Some m' \<Rightarrow> Inl m'
      | None \<Rightarrow> Inr (doOfflineBroadcast host ctx (fst entry) (snd entry) m))"

definition flushOfflineBroadcasts :: "('md, 'w) Host \<Rightarrow> ('md, 'w) FanoutEnv \<Rightarrow> 'md GoContext \<Rightarrow> 'w Sending \<Rightarrow> 'w Sending \<Rightarrow> bool" where
  "flushOfflineBroadcasts host env ctx m m' \<longleftrightarrow>
     (let entries = ms_collected m; m = m\<lparr>ms_collected := []\<rparr>
      in if entries = [] then m' = m
         else runFanout entries (fanoutConcurrency (fe_messageWorkers env)) (broadcast_item host env ctx) m m')"

text \<open>One target of a fan-out: \<open>write\<close> puts the result into the slot of the index.  A panic leaves the slot as it was.\<close>

definition send_item :: "('md, 'w) Host \<Rightarrow> ('md, 'w) FanoutEnv \<Rightarrow> 'md GoContext \<Rightarrow> HubMessage \<Rightarrow> (string \<rightharpoonup> string list) option \<Rightarrow>
    (SendResult \<Rightarrow> 'r option) \<Rightarrow> (string, 'r option list \<times> 'w Sending) item_fn" where
  "send_item host env ctx msg nodes write idx u st =
     (case st of (slots, m) \<Rightarrow>
        case pn_send (fe_panics env) u m of
          Some m' \<Rightarrow> Inl (slots, m')
        | None \<Rightarrow>
            (case sendToUserWithRetry host ctx u msg (preset nodes u) m of
               (r, m) \<Rightarrow> Inr (case write r of None \<Rightarrow> slots | Some x \<Rightarrow> slots[idx := Some x], m)))"

text \<open>The common frame of the three entries: the slots and the state after the fan-out.\<close>

definition fanout_sends :: "('md, 'w) Host \<Rightarrow> ('md, 'w) FanoutEnv \<Rightarrow> 'md GoContext \<Rightarrow> HubMessage \<Rightarrow> string list \<Rightarrow> (SendResult \<Rightarrow> 'r option) \<Rightarrow>
    'w Sending \<Rightarrow> 'r option list \<Rightarrow> 'w Sending \<Rightarrow> bool" where
  "fanout_sends host env ctx msg users write m slots m' \<longleftrightarrow>
     (case prefetchFanoutNodes env ctx msg users (withOfflineBroadcastCollector m) of
        (nodes, m) \<Rightarrow>
          runFanout users (fanoutConcurrency (fe_messageWorkers env)) (send_item host env ctx msg nodes write) (replicate (length users) None, m) (slots, m'))"

definition assign_slots :: "string list \<Rightarrow> 'r option list \<Rightarrow> string \<rightharpoonup> 'r" where
  "assign_slots users slots = fold (\<lambda>(u, x) f. case x of None \<Rightarrow> f | Some r \<Rightarrow> f(u \<mapsto> r)) (zip users slots) Map.empty"

definition SendToMultipleUsers :: "('md, 'w) Host \<Rightarrow> ('md, 'w) FanoutEnv \<Rightarrow> 'md GoContext \<Rightarrow> string list \<Rightarrow> HubMessage \<Rightarrow> 'w Sending
    \<Rightarrow> (string \<rightharpoonup> GoError) \<Rightarrow> 'w Sending \<Rightarrow> bool" where
  "SendToMultipleUsers host env ctx userIDs msg m errs m' \<longleftrightarrow>
     (if userIDs = [] then errs = Map.empty \<and> m' = m
      else \<exists>errList m1 m2. fanout_sends host env ctx msg userIDs sr_FinalError m errList m1 \<and> errs = assign_slots userIDs errList \<and>
             flushOfflineBroadcasts host env ctx m1 m2 \<and> m' = leave_collector m m2)"

definition group_targets :: "string list \<Rightarrow> HubMessage \<Rightarrow> bool \<Rightarrow> string list" where
  "group_targets memberIDs msg excludeSender =
     (if excludeSender \<and> hm_Sender msg \<noteq> [] then filter (\<lambda>u. u \<noteq> hm_Sender msg) memberIDs else memberIDs)"

definition add_failed :: "string \<Rightarrow> GoError \<Rightarrow> BroadcastResult \<Rightarrow> BroadcastResult" where
  "add_failed u e r = r\<lparr>br_Failed := br_Failed r + 1, br_FailedIDs := br_FailedIDs r @ [u], br_Errors := (br_Errors r)(u \<mapsto> e)\<rparr>"

definition count_result :: "string \<times> SendResult option \<Rightarrow> BroadcastResult \<Rightarrow> BroadcastResult" where
  "count_result x r =
     (case x of
        (u, None) \<Rightarrow> add_failed u temporary r
      | (u, Some s) \<Rightarrow>
          (case sr_FinalError s of
             Some e \<Rightarrow> add_failed u e r
           | None \<Rightarrow>
               if sr_Success s then
                 if sr_StoredOffline s then r\<lparr>br_Offline := br_Offline r + 1, br_OfflineIDs := br_OfflineIDs r @ [u]\<rparr>
                 else r\<lparr>br_Success := br_Success r + 1\<rparr>
               else r))"

definition new_broadcast_result :: "nat \<Rightarrow> BroadcastResult" where
  "new_broadcast_result n = \<lparr>br_Total = int n, br_Success = 0, br_Offline = 0, br_Failed = 0, br_Errors = Map.empty, br_OfflineIDs = [], br_FailedIDs = []\<rparr>"

definition SendToGroupMembers :: "('md, 'w) Host \<Rightarrow> ('md, 'w) FanoutEnv \<Rightarrow> 'md GoContext \<Rightarrow> string list \<Rightarrow> HubMessage \<Rightarrow> bool \<Rightarrow> 'w Sending
    \<Rightarrow> BroadcastResult \<Rightarrow> 'w Sending \<Rightarrow> bool" where
  "SendToGroupMembers host env ctx memberIDs msg excludeSender m result m' \<longleftrightarrow>
     (let filteredIDs = group_targets memberIDs msg excludeSender
      in \<exists>sendResults m1 m2. fanout_sends host env ctx msg filteredIDs Some m sendResults m1 \<and>
           result = fold count_result (zip filteredIDs sendResults) (new_broadcast_result (length filteredIDs)) \<and>
           flushOfflineBroadcasts host env ctx (snd (with_hub (\<lambda>h. ((), NotifyObservers ctx msg h)) m1)) m2 \<and>
           m' = leave_collector m m2)"

text \<open>The clients are known by their users; \<open>maxRetries\<close> is not used.\<close>

definition SendToClientsWithRetry :: "('md, 'w) Host \<Rightarrow> ('md, 'w) FanoutEnv \<Rightarrow> 'md GoContext \<Rightarrow> Client list \<Rightarrow> HubMessage \<Rightarrow> int \<Rightarrow> 'w Sending
    \<Rightarrow> (string \<rightharpoonup> SendResult) \<Rightarrow> 'w Sending \<Rightarrow> bool" where
  "SendToClientsWithRetry host env ctx clients msg maxRetries m results m' \<longleftrightarrow>
     (if clients = [] then results = Map.empty \<and> m' = m
      else \<exists>slots m1 m2. fanout_sends host env ctx msg (map cl_UserID clients) Some m slots m1 \<and> results = assign_slots (map cl_UserID clients) slots \<and>
             flushOfflineBroadcasts host env ctx m1 m2 \<and> m' = leave_collector m m2)"

section \<open>What one send leaves\<close>

definition kept :: "'w Sending \<Rightarrow> (string \<times> HubMessage) list \<times> bool \<times> (string \<times> HubMessage) list \<times> int" where
  "kept m = (ms_stored m, ms_collecting m, ms_collected m, ms_fallbacks m)"

lemma kept_frames [simp]:
  "kept (with_node f m) = kept m" "kept (snd (with_hub g m)) = kept m" "kept (snd (with_cluster k m)) = kept m"
  "kept (invokeMessageSendCallback msg r m) = kept m" "kept (recordMessageToDatabase host msg d m) = kept m"
  "kept (recordRetryAttemptAsync msg n e m) = kept m" "kept (settleDeliveryFailure msg b m) = kept m"
  by (simp_all add: kept_def with_node_def with_hub_def with_cluster_def invokeMessageSendCallback_def recordMessageToDatabase_def
      recordRetryAttemptAsync_def settleDeliveryFailure_def split: prod.splits)

lemma kept_eqs:
  "with_hub g m = (a, m') \<Longrightarrow> kept m' = kept m" "with_cluster k m = (a, m') \<Longrightarrow> kept m' = kept m"
  using kept_frames(2,3) by (metis snd_conv)+

lemma kept_local: "local_broadcast host msg d m = (n, m') \<Longrightarrow> kept m' = kept m"
  by (simp add: local_broadcast_def kept_eqs)

lemma kept_deliver: "deliver_local host u msg d routed m = (e, m') \<Longrightarrow> kept m' = kept m"
  by (auto simp: deliver_local_def run_held_direct_def split: if_splits prod.splits dest!: kept_local kept_eqs)

lemma kept_sendToUser: "sendToUser host ctx u msg nodes m = (e, msg', m') \<Longrightarrow> kept m' = kept m"
  by (auto simp: sendToUser_def Let_def split: if_splits prod.splits dest!: kept_deliver kept_eqs)

lemma kept_attempt: "kept (snd (snd (snd (executeSendAttempt host ctx u nodes st)))) = kept (snd (snd st))"
  by (cases st) (auto simp: executeSendAttempt_def Let_def split: prod.splits dest: kept_sendToUser)

lemma kept_policy:
  assumes "retry_ok (ho_retry host)" "deliverOnlineWithPolicy host ctx u nodes express st = (e, st')"
  shows "kept (snd (snd st')) = kept (snd (snd st))"
proof -
  let ?f = "\<lambda>st. executeSendAttempt host ctx u (if tries st = [] then nodes else None) st"
  have loop: "kept (snd (snd t')) = kept (snd (snd t))" if run: "ho_retry host n ?f t = (e, t')" for n t t'
  proof -
    obtain k where "t' = runs k ?f t" using retry_okD [OF assms(1) run] by blast
    moreover have "kept (snd (snd (runs k ?f t))) = kept (snd (snd t))" by (induction k) (simp_all add: kept_attempt)
    ultimately show ?thesis by simp
  qed
  obtain e1 t1 where first: "executeSendAttempt host ctx u nodes st = (e1, t1)" by (cases "executeSendAttempt host ctx u nodes st")
  have "kept (snd (snd t1)) = kept (snd (snd st))" using kept_attempt [of host ctx u nodes st] first by simp
  with assms(2) first show ?thesis by (auto simp: deliverOnlineWithPolicy_def Let_def split: if_splits dest!: loop)
qed

text \<open>What a send does to the offline store and to the collector of the fan-out it belongs to.\<close>

definition send_leaves :: "string \<Rightarrow> SendResult \<Rightarrow> 'w Sending \<Rightarrow> 'w Sending \<Rightarrow> bool" where
  "send_leaves u r m m' \<longleftrightarrow>
     (\<exists>x. ms_stored m' = ms_stored m @ (if sr_StoredOffline r then [(u, x)] else [])) \<and>
     ms_collecting m' = ms_collecting m \<and>
     (ms_collecting m \<longrightarrow> ms_fallbacks m' = ms_fallbacks m \<and> (\<exists>x. ms_collected m' = ms_collected m \<or> ms_collected m' = ms_collected m @ [(u, x)]))"

lemma store_leaves: "StoreOfflineMessage host u msg m = (e, m') \<Longrightarrow>
    kept m' = (ms_stored m @ (if e = None then [(u, msg)] else []), ms_collecting m, ms_collected m, ms_fallbacks m)"
  by (auto simp: StoreOfflineMessage_def split: prod.splits option.splits dest!: kept_eqs) (simp_all add: kept_def)

lemma offline_route_leaves:
  "kept (routeToClusterForOfflineUser host ctx u msg m) =
     (ms_stored m, ms_collecting m, if ms_collecting m \<and> \<not> standalone (ms_cluster m) then ms_collected m @ [(u, msg)] else ms_collected m,
      if ms_collecting m \<or> standalone (ms_cluster m) then ms_fallbacks m else ms_fallbacks m + 1)"
  by (auto simp: routeToClusterForOfflineUser_def doOfflineBroadcast_def Let_def) (simp_all add: kept_def)

lemma send_offline_leaves:
  assumes "send_offline host ctx u msg express m = (r, m')"
  shows "send_leaves u r m m'"
proof -
  let ?m1 = "routeToClusterForOfflineUser host ctx u msg m"
  have "kept m' = (ms_stored ?m1 @ (if sr_StoredOffline r then [(u, msg)] else []), ms_collecting ?m1, ms_collected ?m1, ms_fallbacks ?m1)"
    using assms by (auto simp: send_offline_def Let_def newSendResult_def split: if_splits prod.splits option.splits dest!: store_leaves) (simp_all add: kept_def)
  with offline_route_leaves [of host ctx u msg m] show ?thesis by (auto simp: kept_def send_leaves_def)
qed

lemma settle_leaves:
  assumes "settle_send host u express err (msg, r0, m) = (r, m')" "\<not> sr_StoredOffline r0"
  shows "kept m' = (ms_stored m @ (if sr_StoredOffline r then [(u, msg)] else []), ms_collecting m, ms_collected m, ms_fallbacks m)"
  using assms
  by (auto simp: settle_send_def Let_def finalizeSendResult_def split: if_splits prod.splits option.splits dest!: store_leaves) (simp_all add: kept_def)

lemma core_leaves:
  assumes "retry_ok (ho_retry host)" "sendToUserWithRetryCore host ctx u msg nodes m = (r, m')"
  shows "send_leaves u r m m'"
proof -
  let ?msg = "prepare_send host u msg m"
  let ?x = "IsExpress (guarantee ?msg m)"
  obtain nodes1 m1 where pre: "(if \<not> has_user host u ctx m \<and> nodes = None then with_cluster (ho_BatchGetUserNodes host ctx u) m else (nodes, m)) = (nodes1, m1)"
    by fastforce
  then have k1: "kept m1 = kept m" by (auto split: if_splits dest!: kept_eqs)
  show ?thesis
  proof (cases "\<not> has_user host u ctx m \<and> (case nodes1 of None \<Rightarrow> True | Some ns \<Rightarrow> ns = [])")
    case True
    with assms(2) pre have "send_offline host ctx u ?msg ?x m1 = (r, m')" unfolding sendToUserWithRetryCore_def Let_def by simp
    from send_offline_leaves [OF this] k1 show ?thesis by (simp add: send_leaves_def kept_def)
  next
    case False
    obtain err msg2 r2 m2 where del: "deliverOnlineWithPolicy host ctx u nodes1 ?x (?msg, newSendResult, m1) = (err, msg2, r2, m2)" by (metis surj_pair)
    with assms(2) pre False have set: "settle_send host u ?x err (msg2, r2, m2) = (r, m')" unfolding sendToUserWithRetryCore_def Let_def by simp
    have "\<not> sr_StoredOffline r2" using arg_cong [OF policy_attempts(5) [OF assms(1) del], of sr_StoredOffline] by (simp add: newSendResult_def)
    from settle_leaves [OF set this] kept_policy [OF assms(1) del] k1 show ?thesis by (simp add: send_leaves_def kept_def)
  qed
qed

section \<open>The account of a group\<close>

definition result_ok :: "SendResult \<Rightarrow> bool" where
  "result_ok r \<longleftrightarrow> (sr_Success r \<longleftrightarrow> sr_FinalError r = None) \<and> (sr_StoredOffline r \<longrightarrow> sr_Success r)"

lemma retry_send:
  assumes "retry_ok (ho_retry host)" "sendToUserWithRetry host ctx u msg nodes m = (r, m')"
  shows "send_leaves u r m m' \<and> result_ok r"
proof -
  obtain mg cx where "InjectRoute (ho_tr host) ctx msg = (mg, cx)" by fastforce
  with assms(2) have core: "sendToUserWithRetryCore host cx u mg nodes m = (r, m')" by (simp add: sendToUserWithRetry_def)
  from core_leaves [OF assms(1) core] core_true [OF assms(1) core] show ?thesis unfolding result_true_def result_ok_def by blast
qed

definition stored_ids :: "'w Sending \<Rightarrow> string multiset" where
  "stored_ids m = mset (map fst (ms_stored m))"

text \<open>A call that panics takes nothing out of the offline store.\<close>

definition panics_keep :: "'w Panics \<Rightarrow> bool" where
  "panics_keep P \<longleftrightarrow> (\<forall>u s t. pn_send P u s = Some t \<or> pn_broadcast P u s = Some t \<longrightarrow> (\<exists>xs. ms_stored t = ms_stored s @ xs))"

lemma panics_keepD: "panics_keep P \<Longrightarrow> pn_send P u s = Some t \<Longrightarrow> stored_ids s \<subseteq># stored_ids t"
  "panics_keep P \<Longrightarrow> pn_broadcast P u s = Some t \<Longrightarrow> stored_ids s \<subseteq># stored_ids t"
  unfolding panics_keep_def stored_ids_def by (metis map_append mset_append mset_subset_eq_add_left)+

definition stored_slot :: "SendResult option list \<Rightarrow> nat \<Rightarrow> bool" where
  "stored_slot slots i = (case slots ! i of None \<Rightarrow> False | Some r \<Rightarrow> sr_StoredOffline r)"

definition slots_true :: "string list \<Rightarrow> 'w Sending \<Rightarrow> nat list \<Rightarrow> SendResult option list \<times> 'w Sending \<Rightarrow> bool" where
  "slots_true users m0 L st \<longleftrightarrow>
     length (fst st) = length users \<and> (\<forall>i < length users. i \<notin> set L \<longrightarrow> fst st ! i = None) \<and>
     (\<forall>r. Some r \<in> set (fst st) \<longrightarrow> result_ok r) \<and>
     stored_ids m0 + image_mset ((!) users) (filter_mset (stored_slot (fst st)) (mset L)) \<subseteq># stored_ids (snd st)"

lemma slots_true_item:
  assumes "retry_ok (ho_retry host)" "panics_keep (fe_panics env)" "slots_true users m0 L st" "i < length users" "i \<notin> set L"
  shows "slots_true users m0 (L @ [i]) (fanoutInvoke users i (send_item host env ctx msg nodes Some) st)"
proof -
  obtain slots m where st: "st = (slots, m)" by (cases st)
  have old: "length slots = length users" "slots ! i = None" "\<And>j. j < length users \<Longrightarrow> j \<notin> set L \<Longrightarrow> slots ! j = None"
    "\<And>r. Some r \<in> set slots \<Longrightarrow> result_ok r"
    "stored_ids m0 + image_mset ((!) users) (filter_mset (stored_slot slots) (mset L)) \<subseteq># stored_ids m"
    using assms(3-5) by (auto simp: slots_true_def st)
  show ?thesis
  proof (cases "pn_send (fe_panics env) (users ! i) m")
    case (Some t)
    with old panics_keepD(1) [OF assms(2) Some] show ?thesis
      by (auto simp: slots_true_def st fanoutInvoke_def send_item_def stored_slot_def intro: subset_mset.trans)
  next
    case None
    obtain r m' where r: "sendToUserWithRetry host ctx (users ! i) msg (preset nodes (users ! i)) m = (r, m')" by fastforce
    have inv: "fanoutInvoke users i (send_item host env ctx msg nodes Some) st = (slots[i := Some r], m')"
      by (simp add: fanoutInvoke_def send_item_def st None r)
    have ids: "stored_ids m' = stored_ids m + (if sr_StoredOffline r then {#users ! i#} else {#})"
      using retry_send [OF assms(1) r] by (auto simp: send_leaves_def stored_ids_def)
    have same: "filter_mset (stored_slot (slots[i := Some r])) (mset L) = filter_mset (stored_slot slots) (mset L)"
      using assms(5) by (intro filter_mset_cong refl) (metis nth_list_update_neq set_mset_mset stored_slot_def)
    have "stored_slot (slots[i := Some r]) i = sr_StoredOffline r" using assms(4) old(1) by (simp add: stored_slot_def)
    then have "stored_ids m0 + image_mset ((!) users) (filter_mset (stored_slot (slots[i := Some r])) (mset (L @ [i]))) \<subseteq># stored_ids m'"
      using old(5) unfolding ids by (simp add: same)
    moreover have "Some r' \<in> set (slots[i := Some r]) \<Longrightarrow> result_ok r'" for r'
      using set_update_subset_insert [of slots i "Some r"] old(4) [of r'] retry_send [OF assms(1) r] by blast
    ultimately show ?thesis unfolding inv using old(1,3) by (auto simp: slots_true_def)
  qed
qed

lemma slots_true_fold:
  assumes "retry_ok (ho_retry host)" "panics_keep (fe_panics env)"
  shows "distinct L \<Longrightarrow> set L \<subseteq> {..<length users} \<Longrightarrow>
    slots_true users m L (fold (\<lambda>i. fanoutInvoke users i (send_item host env ctx msg nodes Some)) L (replicate (length users) None, m))"
proof (induction L rule: rev_induct)
  case Nil
  show ?case by (simp add: slots_true_def)
next
  case (snoc i L)
  then have "slots_true users m L (fold (\<lambda>i. fanoutInvoke users i (send_item host env ctx msg nodes Some)) L (replicate (length users) None, m))" by simp
  from slots_true_item [OF assms this] snoc.prems show ?case by simp
qed

definition pair_stored :: "string \<times> SendResult option \<Rightarrow> bool" where
  "pair_stored x = (case snd x of None \<Rightarrow> False | Some r \<Rightarrow> sr_StoredOffline r)"

definition pair_failed :: "string \<times> SendResult option \<Rightarrow> bool" where
  "pair_failed x = (case snd x of None \<Rightarrow> True | Some r \<Rightarrow> sr_FinalError r \<noteq> None)"

definition counted :: "nat \<Rightarrow> (string \<times> SendResult option) list \<Rightarrow> BroadcastResult \<Rightarrow> bool" where
  "counted n xs r \<longleftrightarrow> br_Total r = int n \<and> br_OfflineIDs r = map fst (filter pair_stored xs) \<and> br_FailedIDs r = map fst (filter pair_failed xs) \<and>
     br_Offline r = int (length (filter pair_stored xs)) \<and> br_Failed r = int (length (filter pair_failed xs)) \<and>
     br_Success r = int (length (filter (\<lambda>x. \<not> pair_stored x \<and> \<not> pair_failed x) xs)) \<and> dom (br_Errors r) = fst ` set (filter pair_failed xs)"

definition pair_ok :: "string \<times> SendResult option \<Rightarrow> bool" where
  "pair_ok x = (case snd x of None \<Rightarrow> True | Some r \<Rightarrow> result_ok r)"

lemma pair_kinds: "pair_ok x \<Longrightarrow> \<not> (pair_stored x \<and> pair_failed x)"
  by (auto simp: pair_ok_def pair_stored_def pair_failed_def result_ok_def split: option.splits)

lemma count_cases:
  "pair_failed x \<Longrightarrow> \<exists>e. count_result x r = add_failed (fst x) e r"
  "pair_ok x \<Longrightarrow> pair_stored x \<Longrightarrow> count_result x r = r\<lparr>br_Offline := br_Offline r + 1, br_OfflineIDs := br_OfflineIDs r @ [fst x]\<rparr>"
  "pair_ok x \<Longrightarrow> \<not> pair_stored x \<Longrightarrow> \<not> pair_failed x \<Longrightarrow> count_result x r = r\<lparr>br_Success := br_Success r + 1\<rparr>"
  by (cases x; auto simp: count_result_def pair_ok_def pair_stored_def pair_failed_def result_ok_def split: option.splits)+

lemma counted_snoc: "counted n xs r \<Longrightarrow> pair_ok x \<Longrightarrow> counted n (xs @ [x]) (count_result x r)"
proof (cases "pair_failed x")
  case True
  assume r: "counted n xs r" and "pair_ok x"
  then have "\<not> pair_stored x" using True pair_kinds by blast
  moreover obtain e where "count_result x r = add_failed (fst x) e r" using count_cases(1) [OF True] by blast
  ultimately show ?thesis using r True by (simp add: counted_def add_failed_def)
next
  case False
  assume "counted n xs r" "pair_ok x"
  with False count_cases(2,3) [of x r] show ?thesis by (cases "pair_stored x") (simp_all add: counted_def)
qed

lemma count_results: "(\<And>x. x \<in> set xs \<Longrightarrow> pair_ok x) \<Longrightarrow> counted n xs (fold count_result xs (new_broadcast_result n))"
proof (induction xs rule: rev_induct)
  case (snoc x xs)
  then show ?case using counted_snoc [of n xs _ x] by simp
qed (simp add: new_broadcast_result_def counted_def)

lemma zip_stored: "length slots = length users \<Longrightarrow> map fst (filter pair_stored (zip users slots)) = map ((!) users) (filter (stored_slot slots) [0..<length users])"
proof -
  assume l: "length slots = length users"
  have "zip users slots = map (\<lambda>i. (users ! i, slots ! i)) [0..<length users]" using l by (intro nth_equalityI) simp_all
  then show ?thesis by (simp add: filter_map comp_def pair_stored_def stored_slot_def [abs_def])
qed

lemma length_three: "(\<And>x. x \<in> set xs \<Longrightarrow> \<not> (P x \<and> Q x)) \<Longrightarrow>
    length (filter (\<lambda>x. \<not> P x \<and> \<not> Q x) xs) + length (filter P xs) + length (filter Q xs) = length xs"
  by (induction xs) auto

text \<open>The fan-out itself: the results in the slots and what the store holds afterwards.\<close>

lemma fanout_sends_true:
  assumes "retry_ok (ho_retry host)" "panics_keep (fe_panics env)" "fanout_sends host env ctx msg users Some m slots m'"
  shows "length slots = length users" "\<And>r. Some r \<in> set slots \<Longrightarrow> result_ok r"
    "stored_ids m + image_mset ((!) users) (filter_mset (stored_slot slots) (mset [0..<length users])) \<subseteq># stored_ids m'"
proof -
  obtain nodes m1 where pre: "prefetchFanoutNodes env ctx msg users (withOfflineBroadcastCollector m) = (nodes, m1)" by fastforce
  then have "stored_ids m1 = stored_ids m"
    by (auto simp: prefetchFanoutNodes_def BatchGetUserNodes_def withOfflineBroadcastCollector_def stored_ids_def with_cluster_def Let_def split: if_splits option.splits sum.splits prod.splits)
  moreover obtain L where L: "mset L = mset [0..<length users]"
    "(slots, m') = fold (\<lambda>i. fanoutInvoke users i (send_item host env ctx msg nodes Some)) L (replicate (length users) None, m1)"
    using assms(3) runFanout_order [of users] unfolding fanout_sends_def pre fanout_order_def by fastforce
  have "distinct L" "set L = {..<length users}" using L(1) by (metis distinct_upt mset_eq_imp_distinct_iff, metis atLeast_upt set_mset_mset)
  with slots_true_fold [OF assms(1,2), of L users m1 ctx msg nodes] have "slots_true users m1 L (slots, m')" unfolding L(2) [symmetric] by simp
  ultimately show "length slots = length users" "\<And>r. Some r \<in> set slots \<Longrightarrow> result_ok r"
    "stored_ids m + image_mset ((!) users) (filter_mset (stored_slot slots) (mset [0..<length users])) \<subseteq># stored_ids m'"
    unfolding slots_true_def L(1) by auto
qed

lemma flush_keeps_stored:
  assumes "panics_keep (fe_panics env)" "flushOfflineBroadcasts host env ctx m m'"
  shows "stored_ids m \<subseteq># stored_ids m'"
proof (cases "ms_collected m = []")
  case False
  let ?es = "ms_collected m"
  have one: "stored_ids s \<subseteq># stored_ids (fanoutInvoke ?es i (broadcast_item host env ctx) s)" for i s
  proof (cases "pn_broadcast (fe_panics env) (fst (?es ! i)) s")
    case None
    then show ?thesis by (simp add: fanoutInvoke_def broadcast_item_def doOfflineBroadcast_def Let_def stored_ids_def with_cluster_def split: prod.splits)
  next
    case (Some t)
    with panics_keepD(2) [OF assms(1) Some] show ?thesis by (simp add: fanoutInvoke_def broadcast_item_def)
  qed
  have "stored_ids s \<subseteq># stored_ids (fold (\<lambda>i. fanoutInvoke ?es i (broadcast_item host env ctx)) L s)" for L s
    by (induction L arbitrary: s) (auto intro: subset_mset.trans [OF one])
  moreover obtain L where "m' = fold (\<lambda>i. fanoutInvoke ?es i (broadcast_item host env ctx)) L (m\<lparr>ms_collected := []\<rparr>)"
    using runFanout_order [of ?es _ "broadcast_item host env ctx" "m\<lparr>ms_collected := []\<rparr>" m'] assms(2) False
    unfolding flushOfflineBroadcasts_def Let_def if_not_P [OF False] by blast
  moreover have "stored_ids (m\<lparr>ms_collected := []\<rparr>) = stored_ids m" by (simp add: stored_ids_def)
  ultimately show ?thesis by metis
qed (use assms(2) in \<open>simp add: flushOfflineBroadcasts_def stored_ids_def\<close>)

lemma group_send_returns: "\<exists>result m'. SendToGroupMembers host env ctx members msg excl m result m'"
proof -
  let ?users = "group_targets members msg excl"
  have "\<exists>slots m1. fanout_sends host env ctx msg ?users Some m slots m1"
  proof -
    obtain nodes m1 where pre: "prefetchFanoutNodes env ctx msg ?users (withOfflineBroadcastCollector m) = (nodes, m1)" by fastforce
    obtain t where "runFanout ?users (fanoutConcurrency (fe_messageWorkers env)) (send_item host env ctx msg nodes Some) (replicate (length ?users) None, m1) t"
      by (rule exE [OF runFanout_returns])
    then show ?thesis by (cases t) (auto simp: fanout_sends_def pre)
  qed
  moreover have "\<exists>m2. flushOfflineBroadcasts host env ctx m1 m2" for m1
    by (cases "ms_collected m1 = []") (auto simp: flushOfflineBroadcasts_def Let_def intro: runFanout_returns)
  ultimately show ?thesis unfolding SendToGroupMembers_def Let_def by blast
qed

text \<open>
  A message for the members of a group.  The call returns, whatever panics; every member but an excluded sender is counted once,
  as delivered, as kept for later or as failed, with an error for each that failed; and for each that is reported as kept for later the
  offline store has accepted a message.
\<close>

theorem group_send_accounts:
  assumes "retry_ok (ho_retry host)" "panics_keep (fe_panics env)"
  shows "(\<exists>result m'. SendToGroupMembers host env ctx members msg excl m result m') \<and>
    (\<forall>result m'. SendToGroupMembers host env ctx members msg excl m result m' \<longrightarrow>
       br_Total result = int (length (group_targets members msg excl)) \<and>
       br_Success result + br_Offline result + br_Failed result = br_Total result \<and>
       br_Offline result = int (length (br_OfflineIDs result)) \<and> br_Failed result = int (length (br_FailedIDs result)) \<and>
       dom (br_Errors result) = set (br_FailedIDs result) \<and>
       mset (map fst (ms_stored m)) + mset (br_OfflineIDs result) \<subseteq># mset (map fst (ms_stored m')))"
proof (intro conjI allI impI group_send_returns)
  fix result m' assume "SendToGroupMembers host env ctx members msg excl m result m'"
  then obtain slots m1 m2 where fan: "fanout_sends host env ctx msg (group_targets members msg excl) Some m slots m1"
    and res: "result = fold count_result (zip (group_targets members msg excl) slots) (new_broadcast_result (length (group_targets members msg excl)))"
    and flush: "flushOfflineBroadcasts host env ctx (snd (with_hub (\<lambda>h. ((), NotifyObservers ctx msg h)) m1)) m2" and m': "m' = leave_collector m m2"
    unfolding SendToGroupMembers_def Let_def by blast
  let ?users = "group_targets members msg excl"
  let ?xs = "zip ?users slots"
  note true = fanout_sends_true [OF assms fan]
  have ok: "pair_ok x" if "x \<in> set ?xs" for x
    using true(2) that by (cases x) (auto simp: pair_ok_def split: option.splits dest!: set_zip_rightD)
  have counts: "counted (length ?users) ?xs result" unfolding res by (rule count_results) (rule ok)
  from length_three [of ?xs pair_stored pair_failed] pair_kinds [OF ok] true(1)
  show "br_Success result + br_Offline result + br_Failed result = br_Total result" using counts by (simp add: counted_def)
  show "br_Total result = int (length ?users)" "br_Offline result = int (length (br_OfflineIDs result))" "br_Failed result = int (length (br_FailedIDs result))"
    "dom (br_Errors result) = set (br_FailedIDs result)" using counts by (simp_all add: counted_def)
  have ids: "br_OfflineIDs result = map ((!) ?users) (filter (stored_slot slots) [0..<length ?users])"
    using counts zip_stored [OF true(1)] by (simp add: counted_def)
  have "mset (br_OfflineIDs result) = image_mset ((!) ?users) (filter_mset (stored_slot slots) (mset [0..<length ?users]))"
    unfolding ids by (simp only: mset_map mset_filter)
  with true(3) have "stored_ids m + mset (br_OfflineIDs result) \<subseteq># stored_ids m1" by simp
  also have "\<dots> = stored_ids (snd (with_hub (\<lambda>h. ((), NotifyObservers ctx msg h)) m1))" by (simp add: stored_ids_def with_hub_def)
  also have "\<dots> \<subseteq># stored_ids m2" by (rule flush_keeps_stored [OF assms(2) flush])
  also have "\<dots> = stored_ids m'" by (simp add: m' leave_collector_def stored_ids_def)
  finally show "mset (map fst (ms_stored m)) + mset (br_OfflineIDs result) \<subseteq># mset (map fst (ms_stored m'))" by (simp add: stored_ids_def)
qed

text \<open>Two members, one of whose sends panics.\<close>

definition shaky_env :: "(unit, string list) FanoutEnv" where
  "shaky_env = \<lparr>fe_messageWorkers = Some 4, fe_onlineStatusRepo = None,
     fe_panics = \<lparr>pn_send = (\<lambda>u s. if u = ''u2'' then Some s else None), pn_broadcast = (\<lambda>u s. None)\<rparr>\<rparr>"

lemma shaky_keeps: "panics_keep (fe_panics shaky_env)"
  by (simp add: panics_keep_def shaky_env_def)

theorem group_send_accounts_witness:
  "\<exists>result m'. SendToGroupMembers (lone_host 0 missing) shaky_env demo_ctx [''u1'', ''u2'', ''u3''] (lone_message\<lparr>hm_Sender := ''u3''\<rparr>) True lone_state result m' \<and>
     br_Success result + br_Offline result + br_Failed result = 2"
proof -
  have "retry_ok (ho_retry (lone_host 0 missing))" by (simp add: lone_host_fields simple_retry_ok)
  note account = group_send_accounts [OF this shaky_keeps, of demo_ctx "[''u1'', ''u2'', ''u3'']" "lone_message\<lparr>hm_Sender := ''u3''\<rparr>" True lone_state]
  then obtain result m' where run: "SendToGroupMembers (lone_host 0 missing) shaky_env demo_ctx [''u1'', ''u2'', ''u3''] (lone_message\<lparr>hm_Sender := ''u3''\<rparr>) True lone_state result m'"
    by blast
  moreover have "length (group_targets [''u1'', ''u2'', ''u3''] (lone_message\<lparr>hm_Sender := ''u3''\<rparr>) True) = 2" by (simp add: group_targets_def)
  ultimately show ?thesis using account by (metis of_nat_numeral)
qed

text \<open>
  The list entry reports less: a user whose send panics has no error in the map that is returned, although nothing was sent to
  him.
\<close>

theorem panicked_send_unreported:
  "\<exists>errs m'. SendToMultipleUsers (lone_host 0 missing) shaky_env demo_ctx [''u2''] lone_message lone_state errs m' \<and> errs = Map.empty \<and> m' = lone_state"
proof -
  have "runFanout [''u2''] (fanoutConcurrency (fe_messageWorkers shaky_env)) (send_item (lone_host 0 missing) shaky_env demo_ctx lone_message None sr_FinalError)
      ([None], withOfflineBroadcastCollector lone_state) ([None], withOfflineBroadcastCollector lone_state)"
    by (simp add: runFanout_def pool_size_def fanoutConcurrency_def shaky_env_def fanoutInvoke_def send_item_def)
  then have "fanout_sends (lone_host 0 missing) shaky_env demo_ctx lone_message [''u2''] sr_FinalError lone_state [None] (withOfflineBroadcastCollector lone_state)"
    by (simp add: fanout_sends_def prefetchFanoutNodes_def)
  moreover have "flushOfflineBroadcasts (lone_host 0 missing) shaky_env demo_ctx (withOfflineBroadcastCollector lone_state) (withOfflineBroadcastCollector lone_state)"
    by (simp add: flushOfflineBroadcasts_def withOfflineBroadcastCollector_def)
  moreover have "leave_collector lone_state (withOfflineBroadcastCollector lone_state) = lone_state"
    by (simp add: leave_collector_def withOfflineBroadcastCollector_def)
  moreover have "assign_slots [''u2''] [None :: GoError option] = Map.empty" by (simp add: assign_slots_def)
  ultimately show ?thesis unfolding SendToMultipleUsers_def by (metis list.discI)
qed

end
