(* ===== verification/Offline_Replay.thy ===== *)
theory Offline_Replay
  imports Offline_Store Fanout "HOL-Library.Sublist"
begin

text \<open>
  The replay of offline messages when a user comes back: the second half of messaging/offline.go, on the store of
  \<open>Offline_Store\<close> and the send path of \<open>Send\<close>.

  \<^item> The world of a send holds the offline store and the heap of the data maps (\<open>OfflineWorld\<close>); \<open>offline_host\<close> makes the handler of the
    store the offline store of the send path.
  \<^item> The loop over the pages of the table runs on fuel; \<open>None\<close> means that it did not end.
  \<^item> The deadline of sixty seconds and the deadlines of contexts are left out.
\<close>

declare map_of_eq_Some_iff [simp del]

section \<open>State\<close>

record ('z, 'v) OfflineWorld =
  ow_offline :: "'z Offline"
  ow_heap :: DataHeap
  ow_rest :: 'v

abbreviation offline_of :: "('z, 'v) OfflineWorld Sending \<Rightarrow> 'z Offline" where
  "offline_of m \<equiv> ow_offline (ct_world (ms_cluster m))"

definition on_offline :: "('z Offline \<Rightarrow> 'a \<times> 'z Offline) \<Rightarrow> ('z, 'v) OfflineWorld \<Rightarrow> 'a \<times> ('z, 'v) OfflineWorld" where
  "on_offline f w = (case f (ow_offline w) of (a, s) \<Rightarrow> (a, w\<lparr>ow_offline := s\<rparr>))"

definition with_offline :: "('z Offline \<Rightarrow> 'a \<times> 'z Offline) \<Rightarrow> ('z, 'v) OfflineWorld Sending \<Rightarrow> 'a \<times> ('z, 'v) OfflineWorld Sending" where
  "with_offline f = with_cluster (outside (on_offline f))"

text \<open>An error of the handler as the send path sees it.\<close>

definition offline_goerror :: "offline_error \<Rightarrow> GoError" where
  "offline_goerror e = \<lparr>ge_type = 0, ge_text =
     (case e of MessageNil \<Rightarrow> ''message is nil'' | StorageSkipped \<Rightarrow> ''offline storage skipped for message type''
      | BothFailed \<Rightarrow> ''both storage failedIDs'' | _ \<Rightarrow> ''offline storage'')\<rparr>"

definition offline_host :: "'z Handler \<Rightarrow> ('md, ('z, 'v) OfflineWorld) Host \<Rightarrow> ('md, ('z, 'v) OfflineWorld) Host" where
  "offline_host h host = host\<lparr>ho_StoreOfflineMessage := \<lambda>u msg w.
     case on_offline (Handler_StoreOfflineMessage h (ho_ctx host) (ho_now host) u (Some msg)) w of (e, w) \<Rightarrow> (map_option offline_goerror e, w)\<rparr>"

record ('z, 'md, 'v) ReplayEnv =
  re_handler :: "'z Handler"
  re_fanout :: "('md, ('z, 'v) OfflineWorld) FanoutEnv"
  re_GetUserGroups :: "(string \<Rightarrow> string \<Rightarrow> string \<Rightarrow> unit + string list) option"

section \<open>One batch\<close>

definition push_failed :: string where "push_failed = ''offline push failedIDs''"

definition mark_offline :: "HubMessage \<Rightarrow> ('z, 'v) OfflineWorld Sending \<Rightarrow> HubMessage \<times> ('z, 'v) OfflineWorld Sending" where
  "mark_offline msg =
     with_cluster (outside (\<lambda>w. case WithOption ''offline'' (AOther 1) (ow_heap w) (msg\<lparr>hm_Source := MessageSourceOffline\<rparr>) of (h, msg) \<Rightarrow> (msg, w\<lparr>ow_heap := h\<rparr>)))"

type_synonym batch_state = "string list \<times> string list \<times> string option"

definition push_message :: "('md, ('z, 'v) OfflineWorld) Host \<Rightarrow> 'md GoContext \<Rightarrow> string \<Rightarrow> string list option \<Rightarrow> HubMessage
    \<Rightarrow> batch_state \<times> ('z, 'v) OfflineWorld Sending \<Rightarrow> batch_state \<times> ('z, 'v) OfflineWorld Sending" where
  "push_message host ctx userID nodes msg st =
     (case st of ((pushedIDs, failedIDs, batchErr), m) \<Rightarrow>
        (case mark_offline msg m of
           (msg, m) \<Rightarrow>
             (case sendToUserWithRetry host (EnsureRouteDefaults (TraceContext ctx msg)) userID msg nodes m of
                (result, m) \<Rightarrow>
                  if \<not> sr_Success result then
                    (let pushErr = (case sr_FinalError result of None \<Rightarrow> push_failed | Some e \<Rightarrow> ge_text e)
                     in ((pushedIDs, failedIDs @ [hm_MessageID msg], if batchErr = None then Some pushErr else batchErr),
                         with_node (updateMessageStatusAsync (hm_MessageID msg) (hm_Receiver msg) StatusFailed ReasonConnError) m))
                  else ((pushedIDs @ [hm_MessageID msg], failedIDs, batchErr), m))))"

definition pushAndDeleteOffline :: "('md, ('z, 'v) OfflineWorld) Host \<Rightarrow> ('z, 'md, 'v) ReplayEnv \<Rightarrow> 'md GoContext \<Rightarrow> string \<Rightarrow> HubMessage list
    \<Rightarrow> ('z, 'v) OfflineWorld Sending \<Rightarrow> (string list \<times> string list) \<times> ('z, 'v) OfflineWorld Sending" where
  "pushAndDeleteOffline host env ctx userID messages m =
     (case BatchGetUserNodes (re_fanout env) ctx [userID] m of
        (nodes, m) \<Rightarrow>
          (case fold (push_message host ctx userID (preset nodes userID)) messages (([], [], None), m) of
             ((pushedIDs, failedIDs, batchErr), m) \<Rightarrow>
               let m = (if failedIDs \<noteq> [] then snd (with_offline (UpdatePushStatus (ho_now host) failedIDs batchErr) m) else m);
                   m = (if pushedIDs \<noteq> [] then snd (with_offline (DeleteOfflineMessages ctx userID pushedIDs) m) else m)
               in ((pushedIDs, failedIDs), m)))"

section \<open>The replay\<close>

definition base_ctx :: "Client \<Rightarrow> 'md GoContext \<Rightarrow> 'md GoContext" where
  "base_ctx client ctx = Inject (Route_WithNamespace (cl_Namespace client) (Route_WithAppID (Client_GetAppID client) NewRoute)) ctx"

definition group_ctx :: "Client \<Rightarrow> string \<Rightarrow> 'md GoContext \<Rightarrow> 'md GoContext" where
  "group_ctx client gid ctx =
     Inject (Route_WithGroup gid (Route_WithNamespace (if gid \<noteq> [] then [] else cl_Namespace client) (Route_WithAppID (Client_GetAppID client) NewRoute))) ctx"

definition drain_group :: "('md, ('z, 'v) OfflineWorld) Host \<Rightarrow> ('z, 'md, 'v) ReplayEnv \<Rightarrow> Client \<Rightarrow> 'md GoContext \<Rightarrow> string
    \<Rightarrow> (string list \<times> string list) \<times> ('z, 'v) OfflineWorld Sending \<Rightarrow> (string list \<times> string list) \<times> ('z, 'v) OfflineWorld Sending" where
  "drain_group host env client pushCtx gid st =
     (case st of ((pushedIDs, failedIDs), m) \<Rightarrow>
        let groupCtx = group_ctx client gid pushCtx
        in case with_offline (DrainOfflineQueue (re_handler env) groupCtx (cl_UserID client) 0) m of
             (Inl e, m) \<Rightarrow> ((pushedIDs, failedIDs), m)
           | (Inr msgs, m) \<Rightarrow>
               if msgs = [] then ((pushedIDs, failedIDs), m)
               else case pushAndDeleteOffline host env groupCtx (cl_UserID client) msgs m of
                      ((p, f), m) \<Rightarrow> ((pushedIDs @ p, failedIDs @ f), m))"

definition batchSize :: int where "batchSize = 100"

primrec replay_pages :: "nat \<Rightarrow> ('md, ('z, 'v) OfflineWorld) Host \<Rightarrow> ('z, 'md, 'v) ReplayEnv \<Rightarrow> 'md GoContext \<Rightarrow> string \<Rightarrow> string
    \<Rightarrow> (string list \<times> string list) \<times> ('z, 'v) OfflineWorld Sending \<Rightarrow> ((string list \<times> string list) \<times> ('z, 'v) OfflineWorld Sending) option" where
  "replay_pages 0 host env pushCtx userID cursor st = None"
| "replay_pages (Suc fuel) host env pushCtx userID cursor st =
     (case st of ((pushedIDs, failedIDs), m) \<Rightarrow>
        (case GetOfflineMessages (re_handler env) pushCtx (ho_now host) userID batchSize cursor (offline_of m) of
           Inl e \<Rightarrow> Some ((pushedIDs, failedIDs), m)
         | Inr (messages, nextCursor) \<Rightarrow>
             if messages = [] then Some ((pushedIDs, failedIDs), m)
             else case pushAndDeleteOffline host env pushCtx userID messages m of
                    ((p, f), m) \<Rightarrow>
                      if nextCursor = [] then Some ((pushedIDs @ p, failedIDs @ f), m)
                      else replay_pages fuel host env pushCtx userID nextCursor ((pushedIDs @ p, failedIDs @ f), m)))"

definition replay_groups :: "('z, 'md, 'v) ReplayEnv \<Rightarrow> 'md GoContext \<Rightarrow> Client \<Rightarrow> string list" where
  "replay_groups env pushCtx client =
     [] # (case re_GetUserGroups env of
             None \<Rightarrow> []
           | Some groups \<Rightarrow> (case groups (AppIDFromContext pushCtx) (cl_Namespace client) (cl_UserID client) of Inl _ \<Rightarrow> [] | Inr gs \<Rightarrow> gs))"

definition PushOfflineMessages :: "nat \<Rightarrow> ('md, ('z, 'v) OfflineWorld) Host \<Rightarrow> ('z, 'md, 'v) ReplayEnv \<Rightarrow> 'md GoContext \<Rightarrow> Client option
    \<Rightarrow> ('z, 'v) OfflineWorld Sending \<Rightarrow> ((string list \<times> string list) \<times> ('z, 'v) OfflineWorld Sending) option" where
  "PushOfflineMessages fuel host env ctx client m =
     (case client of
        None \<Rightarrow> Some (([], []), m)
      | Some client \<Rightarrow>
          if \<not> offlineHandler m then Some (([], []), m)
          else let pushCtx = base_ctx client ctx
               in case GetOfflineMessageCount pushCtx (ho_now host) (cl_UserID client) (offline_of m) of
                    Inl e \<Rightarrow> Some (([], []), m)
                  | Inr num \<Rightarrow>
                      if num = 0 then Some (([], []), m)
                      else replay_pages fuel host env pushCtx (cl_UserID client) []
                             (fold (drain_group host env client pushCtx) (replay_groups env pushCtx client) (([], []), m)))"

section \<open>What a send does to the world\<close>

text \<open>A preorder on worlds that all ports of the host respect is respected by every send.\<close>

definition ports_respect :: "('w \<Rightarrow> 'w \<Rightarrow> bool) \<Rightarrow> ('md, 'w) Host \<Rightarrow> bool" where
  "ports_respect Q host \<longleftrightarrow>
     reflp Q \<and> transp Q \<and>
     (\<forall>ctx u msg nodes c. Q (ct_world c) (ct_world (snd (ho_CheckAndRouteToNode host ctx u msg nodes c)))) \<and>
     (\<forall>ctx msg opts c. Q (ct_world c) (ct_world (snd (ho_RouteToCluster host ctx msg opts c)))) \<and>
     (\<forall>ctx u c. Q (ct_world c) (ct_world (snd (ho_BatchGetUserNodes host ctx u c)))) \<and>
     (\<forall>u msg w. Q w (snd (ho_StoreOfflineMessage host u msg w))) \<and> retry_ok (ho_retry host)"

abbreviation world :: "'w Sending \<Rightarrow> 'w" where "world m \<equiv> ct_world (ms_cluster m)"

lemma cluster_respects:
  assumes "with_cluster f m = (a, m')" "\<And>c. Q (ct_world c) (ct_world (snd (f c)))"
  shows "Q (world m) (world m')"
  using assms(1) assms(2) [of "ms_cluster m"] by (auto simp: with_cluster_def split: prod.splits)

lemma respects:
  assumes "ports_respect Q host"
  shows "Q w w" "Q a b \<Longrightarrow> Q b c \<Longrightarrow> Q a c"
    "with_cluster (ho_CheckAndRouteToNode host ctx u msg nodes) m = (r1, m') \<Longrightarrow> Q (world m) (world m')"
    "with_cluster (ho_RouteToCluster host ctx msg opts) m = (r2, m') \<Longrightarrow> Q (world m) (world m')"
    "with_cluster (ho_BatchGetUserNodes host ctx u) m = (r3, m') \<Longrightarrow> Q (world m) (world m')"
    "with_cluster (outside (ho_StoreOfflineMessage host u msg)) m = (r4, m') \<Longrightarrow> Q (world m) (world m')"
proof -
  note p = assms [unfolded ports_respect_def]
  show "Q w w" using p by (simp add: reflp_def)
  show "Q a b \<Longrightarrow> Q b c \<Longrightarrow> Q a c" using p by (meson transpD)
  show "with_cluster (ho_CheckAndRouteToNode host ctx u msg nodes) m = (r1, m') \<Longrightarrow> Q (world m) (world m')" by (erule cluster_respects) (use p in auto)
  show "with_cluster (ho_RouteToCluster host ctx msg opts) m = (r2, m') \<Longrightarrow> Q (world m) (world m')" by (erule cluster_respects) (use p in auto)
  show "with_cluster (ho_BatchGetUserNodes host ctx u) m = (r3, m') \<Longrightarrow> Q (world m) (world m')" by (erule cluster_respects) (use p in auto)
  have "Q (ct_world c) (snd (ho_StoreOfflineMessage host u msg (ct_world c)))" for c using p by blast
  then have store: "Q (ct_world c) (ct_world (snd (outside (ho_StoreOfflineMessage host u msg) c)))" for c
    by (simp add: outside_def split_beta)
  show "with_cluster (outside (ho_StoreOfflineMessage host u msg)) m = (r4, m') \<Longrightarrow> Q (world m) (world m')" by (erule cluster_respects) (rule store)
qed

lemma same_world [simp]:
  "world (recordMessageToDatabase host msg d m) = world m" "world (recordRetryAttemptAsync msg n e m) = world m"
  "world (invokeMessageSendCallback msg r m) = world m" "world (settleDeliveryFailure msg b m) = world m"
  by (simp_all add: recordMessageToDatabase_def recordRetryAttemptAsync_def invokeMessageSendCallback_def settleDeliveryFailure_def)

lemma sendToUser_respects:
  assumes "ports_respect Q host" "sendToUser host ctx u msg nodes m = (e, msg', m')"
  shows "Q (world m) (world m')"
  using assms(2)
  by (auto simp: sendToUser_def Let_def split: if_splits prod.splits dest!: deliver_local_world respects(3) [OF assms(1)])

lemma attempt_respects:
  assumes "ports_respect Q host"
  shows "Q (world (snd (snd st))) (world (snd (snd (snd (executeSendAttempt host ctx u nodes st)))))"
  by (cases st) (auto simp: executeSendAttempt_def Let_def split: prod.splits dest: sendToUser_respects [OF assms])

lemma policy_respects:
  assumes "ports_respect Q host" "deliverOnlineWithPolicy host ctx u nodes express st = (e, st')"
  shows "Q (world (snd (snd st))) (world (snd (snd st')))"
proof -
  let ?f = "\<lambda>st. executeSendAttempt host ctx u (if tries st = [] then nodes else None) st"
  have loop: "Q (world (snd (snd t))) (world (snd (snd t')))" if run: "ho_retry host n ?f t = (e, t')" for n t t'
  proof -
    have "retry_ok (ho_retry host)" using assms(1) by (simp add: ports_respect_def)
    from retry_okD [OF this run] obtain k where "t' = runs k ?f t" by blast
    moreover have "Q (world (snd (snd t))) (world (snd (snd (runs k ?f t))))"
      by (induction k) (auto intro: respects(1,2) [OF assms(1)] attempt_respects [OF assms(1)])
    ultimately show ?thesis by simp
  qed
  obtain e1 t1 where first: "executeSendAttempt host ctx u nodes st = (e1, t1)" by (cases "executeSendAttempt host ctx u nodes st")
  have "Q (world (snd (snd st))) (world (snd (snd t1)))" using attempt_respects [OF assms(1), of st ctx u nodes] first by simp
  with assms(2) first show ?thesis
    by (auto simp: deliverOnlineWithPolicy_def Let_def split: if_splits dest!: loop intro: respects(2) [OF assms(1)])
qed

lemma store_respects:
  assumes "ports_respect Q host" "StoreOfflineMessage host u msg m = (e, m')"
  shows "Q (world m) (world m')"
  using assms(2) by (auto simp: StoreOfflineMessage_def split: prod.splits option.splits dest!: respects(6) [OF assms(1)])

lemma broadcast_respects:
  assumes "ports_respect Q host"
  shows "Q (world m) (world (routeToClusterForOfflineUser host ctx u msg m))"
proof -
  define m1 where "m1 = m\<lparr>ms_fallbacks := ms_fallbacks m + 1,
      ms_cluster := markRerouteAttempted (ho_now host) (hm_MessageID msg) (getAllClusterNodeIDs (ms_cluster m)) False (ms_cluster m)\<rparr>"
  have w: "world m1 = world m" by (simp add: m1_def markRerouteAttempted_def put_guard_def Let_def split: option.splits)
  have "Q (world m1) (world (snd (with_cluster (ho_RouteToCluster host ctx msg opts) m1)))" for opts
    by (rule respects(4) [OF assms]) (rule surjective_pairing)
  then show ?thesis using respects(1) [OF assms] unfolding w
    by (auto simp: routeToClusterForOfflineUser_def doOfflineBroadcast_def m1_def [symmetric])
qed

lemma send_respects:
  assumes "ports_respect Q host" "sendToUserWithRetry host ctx u msg nodes m = (r, m')"
  shows "Q (world m) (world m')"
proof -
  note trans = respects(2) [OF assms(1)]
  have core: "Q (world m) (world m')" if run: "sendToUserWithRetryCore host ctx u msg nodes m = (r, m')" for ctx msg
  proof -
    let ?msg = "prepare_send host u msg m"
    let ?x = "IsExpress (guarantee ?msg m)"
    obtain nodes1 m1 where pre: "(if \<not> has_user host u ctx m \<and> nodes = None then with_cluster (ho_BatchGetUserNodes host ctx u) m else (nodes, m)) = (nodes1, m1)"
      by fastforce
    then have q1: "Q (world m) (world m1)" by (auto split: if_splits intro: respects(1) [OF assms(1)] dest: respects(5) [OF assms(1)])
    show ?thesis
    proof (cases "\<not> has_user host u ctx m \<and> (case nodes1 of None \<Rightarrow> True | Some ns \<Rightarrow> ns = [])")
      case True
      let ?m2 = "routeToClusterForOfflineUser host ctx u ?msg m1"
      from True run pre have "send_offline host ctx u ?msg ?x m1 = (r, m')" unfolding sendToUserWithRetryCore_def Let_def by simp
      then have "Q (world ?m2) (world m')"
        by (auto simp: send_offline_def Let_def respects(1) [OF assms(1)] split: if_splits prod.splits option.splits dest!: store_respects [OF assms(1)])
      with q1 broadcast_respects [OF assms(1)] trans show ?thesis by blast
    next
      case False
      obtain err msg2 r2 m2 where del: "deliverOnlineWithPolicy host ctx u nodes1 ?x (?msg, newSendResult, m1) = (err, msg2, r2, m2)" by (metis surj_pair)
      with run pre False have set: "settle_send host u ?x err (msg2, r2, m2) = (r, m')" unfolding sendToUserWithRetryCore_def Let_def by simp
      then have "Q (world m2) (world m')"
        by (auto simp: settle_send_def Let_def respects(1) [OF assms(1)] split: if_splits prod.splits option.splits dest!: store_respects [OF assms(1)])
      with q1 policy_respects [OF assms(1) del] trans show ?thesis by (metis snd_conv)
    qed
  qed
  show ?thesis using assms(2) core by (auto simp: sendToUserWithRetry_def split: prod.splits)
qed

section \<open>What a replay does to the table\<close>

text \<open>A relation on offline stores, seen as one on worlds, that also the node index respects.\<close>

definition stores_respect :: "('z Offline \<Rightarrow> 'z Offline \<Rightarrow> bool) \<Rightarrow> ('md, ('z, 'v) OfflineWorld) Host \<Rightarrow> ('z, 'md, 'v) ReplayEnv \<Rightarrow> bool" where
  "stores_respect K host env \<longleftrightarrow> ports_respect (\<lambda>w w'. K (ow_offline w) (ow_offline w')) host \<and>
     (\<forall>repo ctx us w. fe_onlineStatusRepo (re_fanout env) = Some repo \<longrightarrow> K (ow_offline w) (ow_offline (snd (repo ctx us w))))"

lemma K_preorder:
  assumes "stores_respect K host env"
  shows "K s s" "K s t \<Longrightarrow> K t v \<Longrightarrow> K s v"
proof -
  note r = respects(1,2) [OF conjunct1 [OF assms [unfolded stores_respect_def]]]
  let ?w = "\<lambda>s. \<lparr>ow_offline = s, ow_heap = undefined, ow_rest = undefined\<rparr> :: ('a, 'c) OfflineWorld"
  show "K s s" using r(1) [of "?w s"] by simp
  show "K s t \<Longrightarrow> K t v \<Longrightarrow> K s v" using r(2) [of "?w s" "?w t" "?w v"] by simp
qed

lemma offline_eqs:
  "with_offline f m = (a, m') \<Longrightarrow> f (offline_of m) = (a, offline_of m')"
  "mark_offline msg m = (msg', m') \<Longrightarrow> offline_of m' = offline_of m \<and> hm_MessageID msg' = hm_MessageID msg"
  by (auto simp: with_offline_def on_offline_def mark_offline_def with_cluster_def outside_def WithOption_def data_put_def ensure_data_def Let_def
      split: prod.splits option.splits)

lemma offline_snd [simp]: "offline_of (snd (with_offline f m)) = snd (f (offline_of m))"
  by (simp add: with_offline_def on_offline_def with_cluster_def outside_def split_beta)

lemma index_respects:
  assumes "stores_respect K host env" "BatchGetUserNodes (re_fanout env) ctx us m = (nodes, m')"
  shows "K (offline_of m) (offline_of m')"
proof (cases "fe_onlineStatusRepo (re_fanout env)")
  case None
  with assms(2) K_preorder(1) [OF assms(1)] show ?thesis by (simp add: BatchGetUserNodes_def)
next
  case (Some repo)
  then have "K (ow_offline w) (ow_offline (snd (repo ctx us w)))" for w using assms(1) by (simp add: stores_respect_def)
  from this [of "world m"] Some assms(2) K_preorder(1) [OF assms(1)] show ?thesis
    by (auto simp: BatchGetUserNodes_def with_cluster_def outside_def split: if_splits sum.splits prod.splits)
qed

lemma push_respects:
  assumes "stores_respect K host env" "push_message host ctx u nodes msg (b, m) = (b', m')"
  shows "K (offline_of m) (offline_of m')"
proof -
  obtain msg1 m1 where mark: "mark_offline msg m = (msg1, m1)" by fastforce
  obtain r m2 where send: "sendToUserWithRetry host (EnsureRouteDefaults (TraceContext ctx msg1)) u msg1 nodes m1 = (r, m2)" by fastforce
  have "offline_of m' = offline_of m2" using assms(2) mark send by (auto simp: push_message_def Let_def split: prod.splits if_splits)
  moreover have "K (offline_of m1) (offline_of m2)"
    using send_respects [OF conjunct1 [OF assms(1) [unfolded stores_respect_def]] send] .
  ultimately show ?thesis using offline_eqs(2) [OF mark] by simp
qed

lemma batch_respects:
  assumes "stores_respect K host env" "fold (push_message host ctx u nodes) msgs (b, m) = (b', m')"
  shows "K (offline_of m) (offline_of m')"
  using assms(2)
proof (induction msgs arbitrary: b m)
  case Nil
  then show ?case using K_preorder(1) [OF assms(1)] by simp
next
  case (Cons msg msgs)
  obtain b1 m1 where one: "push_message host ctx u nodes msg (b, m) = (b1, m1)" by fastforce
  from Cons.IH [of b1 m1] Cons.prems one push_respects [OF assms(1) one] K_preorder(2) [OF assms(1)] show ?case by fastforce
qed

text \<open>One batch: first the sends, then the update of what failed and the deletion of what was pushed.\<close>

lemma batch_steps:
  assumes "stores_respect K host env" "pushAndDeleteOffline host env ctx u msgs m = ((p, f), m')"
  shows "\<exists>s1 s2 e e' d. K (offline_of m) s1 \<and> (s2 = s1 \<or> UpdatePushStatus (ho_now host) f e s1 = (e', s2)) \<and>
    (offline_of m' = s2 \<or> DeleteOfflineMessages ctx u p s2 = (d, offline_of m'))"
proof -
  obtain nodes m1 where idx: "BatchGetUserNodes (re_fanout env) ctx [u] m = (nodes, m1)" by fastforce
  obtain p' f' e m2 where run: "fold (push_message host ctx u (preset nodes u)) msgs (([], [], None), m1) = ((p', f', e), m2)" by (metis surj_pair)
  let ?m3 = "if f' \<noteq> [] then snd (with_offline (UpdatePushStatus (ho_now host) f' e) m2) else m2"
  have pf: "p' = p" "f' = f" and m': "m' = (if p \<noteq> [] then snd (with_offline (DeleteOfflineMessages ctx u p) ?m3) else ?m3)"
    using assms(2) idx run by (auto simp: pushAndDeleteOffline_def Let_def)
  have k: "K (offline_of m) (offline_of m2)"
    using index_respects [OF assms(1) idx] batch_respects [OF assms(1) run] K_preorder(2) [OF assms(1)] by blast
  have s2: "offline_of ?m3 = offline_of m2 \<or> UpdatePushStatus (ho_now host) f e (offline_of m2) = (fst (UpdatePushStatus (ho_now host) f e (offline_of m2)), offline_of ?m3)"
    using pf by (cases "f = []") simp_all
  have "offline_of m' = offline_of ?m3 \<or> DeleteOfflineMessages ctx u p (offline_of ?m3) = (fst (DeleteOfflineMessages ctx u p (offline_of ?m3)), offline_of m')"
    unfolding m' by (cases "p = []") simp_all
  with k s2 show ?thesis by blast
qed

section \<open>Nothing is lost\<close>

text \<open>Every row is still there, or it was a row of the user in his application and its message is among \<open>ids\<close>.\<close>

definition only_gone :: "string \<Rightarrow> string \<Rightarrow> string list \<Rightarrow> 'z Offline \<Rightarrow> 'z Offline \<Rightarrow> bool" where
  "only_gone u app ids s t \<longleftrightarrow>
     (\<forall>r \<in> set (of_rows s). row_key r \<in> row_key ` set (of_rows t) \<or> or_MessageID r \<in> set ids \<and> or_Receiver r = u \<and> or_AppID r = app)"

lemma only_gone_trans:
  assumes "only_gone u app ids s t" "only_gone u app ids' t v"
  shows "only_gone u app (ids @ ids') s v"
  unfolding only_gone_def
proof
  fix r assume "r \<in> set (of_rows s)"
  with assms(1) consider r' where "r' \<in> set (of_rows t)" "row_key r' = row_key r" | "or_MessageID r \<in> set ids \<and> or_Receiver r = u \<and> or_AppID r = app"
    unfolding only_gone_def by (metis imageE)
  then show "row_key r \<in> row_key ` set (of_rows v) \<or> or_MessageID r \<in> set (ids @ ids') \<and> or_Receiver r = u \<and> or_AppID r = app"
  proof cases
    case 1
    with assms(2) show ?thesis unfolding only_gone_def by (metis Pair_inject UnCI row_key_def set_append)
  qed simp
qed

lemma only_gone_kept: "rows_kept s t \<Longrightarrow> only_gone u app ids s t"
  by (auto simp: rows_kept_def only_gone_def)

lemma status_kept: "UpdatePushStatus now ids e s = (r, t) \<Longrightarrow> rows_kept s t"
  using status_keeps_rows by (metis list.set_map rows_kept_def order_refl)

lemma batch_only_gone:
  assumes "stores_respect rows_kept host env" "pushAndDeleteOffline host env ctx u msgs m = ((p, f), m')"
  shows "only_gone u (AppIDFromContext ctx) p (offline_of m) (offline_of m')"
proof -
  obtain s1 s2 e e' d where steps: "rows_kept (offline_of m) s1" "s2 = s1 \<or> UpdatePushStatus (ho_now host) f e s1 = (e', s2)"
    "offline_of m' = s2 \<or> DeleteOfflineMessages ctx u p s2 = (d, offline_of m')"
    using batch_steps [OF assms] by blast
  have "rows_kept s1 s2" using steps(2) status_kept K_preorder(1) [OF assms(1)] by blast
  with steps(1) have "only_gone u (AppIDFromContext ctx) [] (offline_of m) s2" using K_preorder(2) [OF assms(1)] only_gone_kept by blast
  moreover have "only_gone u (AppIDFromContext ctx) p s2 (offline_of m')"
    using steps(3) delete_rows_gone by (fastforce simp: only_gone_def)
  ultimately show ?thesis using only_gone_trans by fastforce
qed

lemma group_ctx_app: "AppIDFromContext (group_ctx client gid ctx) = Client_GetAppID client" "AppIDFromContext (base_ctx client ctx) = Client_GetAppID client"
  by (simp_all add: group_ctx_def base_ctx_def after_Inject Client_GetAppID_def NormalizeAppID_def Route_WithGroup_def Route_WithNamespace_def Route_WithAppID_def DefaultAppID_def)

lemma drain_only_gone:
  assumes "stores_respect rows_kept host env" "drain_group host env client pushCtx gid ((p, f), m) = ((p', f'), m')"
  shows "\<exists>q. p' = p @ q \<and> only_gone (cl_UserID client) (Client_GetAppID client) q (offline_of m) (offline_of m')"
proof -
  let ?ctx = "group_ctx client gid pushCtx"
  obtain r m1 where drain: "with_offline (DrainOfflineQueue (re_handler env) ?ctx (cl_UserID client) 0) m = (r, m1)" by fastforce
  have same: "only_gone u app ids (offline_of m) (offline_of m1)" for u app ids
    using drain_keeps_rows [OF offline_eqs(1) [OF drain]] by (auto simp: only_gone_def)
  show ?thesis
  proof (cases "m' = m1 \<and> p' = p")
    case True
    with same show ?thesis by (intro exI [of _ "[]"]) simp
  next
    case False
    with assms(2) drain obtain msgs q f1 where "pushAndDeleteOffline host env ?ctx (cl_UserID client) msgs m1 = ((q, f1), m')" "p' = p @ q"
      by (auto simp: drain_group_def Let_def split: sum.splits if_splits prod.splits)
    with batch_only_gone [OF assms(1) this(1)] only_gone_trans [OF same [of _ _ "[]"]] show ?thesis by (intro exI [of _ q]) (fastforce simp: group_ctx_app)
  qed
qed

lemma drains_only_gone:
  assumes "stores_respect rows_kept host env"
  shows "fold (drain_group host env client pushCtx) gids ((p, f), m) = ((p', f'), m') \<Longrightarrow>
    \<exists>q. p' = p @ q \<and> only_gone (cl_UserID client) (Client_GetAppID client) q (offline_of m) (offline_of m')"
proof (induction gids arbitrary: p f m)
  case Nil
  then show ?case by (auto simp: only_gone_def)
next
  case (Cons gid gids)
  obtain p1 f1 m1 where one: "drain_group host env client pushCtx gid ((p, f), m) = ((p1, f1), m1)" by (metis surj_pair)
  from drain_only_gone [OF assms one] obtain q1 where q1: "p1 = p @ q1" "only_gone (cl_UserID client) (Client_GetAppID client) q1 (offline_of m) (offline_of m1)" by blast
  from Cons.IH [of p1 f1 m1] Cons.prems one obtain q2 where "p' = p1 @ q2" "only_gone (cl_UserID client) (Client_GetAppID client) q2 (offline_of m1) (offline_of m')" by auto
  with q1 only_gone_trans show ?case by (intro exI [of _ "q1 @ q2"]) auto
qed

lemma pages_only_gone:
  assumes "stores_respect rows_kept host env"
  shows "replay_pages fuel host env pushCtx u cursor ((p, f), m) = Some ((p', f'), m') \<Longrightarrow>
    \<exists>q. p' = p @ q \<and> only_gone u (AppIDFromContext pushCtx) q (offline_of m) (offline_of m')"
proof (induction fuel arbitrary: cursor p f m)
  case (Suc fuel)
  show ?case
  proof (cases "m' = m \<and> p' = p")
    case True
    then show ?thesis by (intro exI [of _ "[]"]) (auto simp: only_gone_def)
  next
    case False
    with Suc.prems obtain msgs cur where page: "GetOfflineMessages (re_handler env) pushCtx (ho_now host) u batchSize cursor (offline_of m) = Inr (msgs, cur)" "msgs \<noteq> []"
      by (auto split: sum.splits if_splits)
    obtain q1 f1 m1 where batch: "pushAndDeleteOffline host env pushCtx u msgs m = ((q1, f1), m1)" by (metis surj_pair)
    have rest: "p' = p @ q1 \<and> m' = m1 \<or> replay_pages fuel host env pushCtx u cur ((p @ q1, f @ f1), m1) = Some ((p', f'), m')"
      using Suc.prems page batch by (auto split: if_splits)
    note gone = batch_only_gone [OF assms batch]
    from rest show ?thesis
    proof
      assume "replay_pages fuel host env pushCtx u cur ((p @ q1, f @ f1), m1) = Some ((p', f'), m')"
      from Suc.IH [OF this] obtain q where "p' = (p @ q1) @ q" "only_gone u (AppIDFromContext pushCtx) q (offline_of m1) (offline_of m')" by blast
      with only_gone_trans [OF gone] show ?thesis by (intro exI [of _ "q1 @ q"]) simp
    qed (use gone in blast)
  qed
qed simp

text \<open>C11: 
  A replay takes a row out of the table only when its message is among those reported as pushed, and only rows of this user in his
  application; a message whose push failed keeps its row.
\<close>

theorem replay_loses_nothing:
  assumes "stores_respect rows_kept host env" "PushOfflineMessages fuel host env ctx (Some client) m = Some ((pushedIDs, failedIDs), m')"
    "r \<in> set (of_rows (offline_of m))"
  shows "(\<exists>r' \<in> set (of_rows (offline_of m')). row_key r' = row_key r) \<or>
    or_MessageID r \<in> set pushedIDs \<and> or_Receiver r = cl_UserID client \<and> or_AppID r = Client_GetAppID client"
proof -
  let ?ctx = "base_ctx client ctx"
  have "only_gone (cl_UserID client) (Client_GetAppID client) pushedIDs (offline_of m) (offline_of m')"
  proof (cases "pushedIDs = [] \<and> m' = m")
    case True
    then show ?thesis by (simp add: only_gone_def)
  next
    case False
    obtain p f m1 where drain: "fold (drain_group host env client ?ctx) (replay_groups env ?ctx client) (([], []), m) = ((p, f), m1)" by (metis surj_pair)
    with assms(2) False have pages: "replay_pages fuel host env ?ctx (cl_UserID client) [] ((p, f), m1) = Some ((pushedIDs, failedIDs), m')"
      by (auto simp: PushOfflineMessages_def Let_def split: if_splits sum.splits)
    from drains_only_gone [OF assms(1) drain] pages_only_gone [OF assms(1) pages] show ?thesis
      using only_gone_trans by (fastforce simp: group_ctx_app)
  qed
  with assms(3) show ?thesis unfolding only_gone_def by (metis imageE)
qed

section \<open>The pages end\<close>

lemma subseq_distinct: "subseq xs ys \<Longrightarrow> distinct ys \<Longrightarrow> distinct xs"
  by (induction rule: list_emb.induct) (auto dest: list_emb_set)

text \<open>Message id and time of each row; a batch takes some of them away when the sends leave the rows alone.\<close>

definition stamps :: "'z Offline \<Rightarrow> (string \<times> int) list" where
  "stamps s = map (\<lambda>r. (or_MessageID r, or_CreatedAt r)) (of_rows s)"

definition same_rows :: "'z Offline \<Rightarrow> 'z Offline \<Rightarrow> bool" where
  "same_rows s t \<longleftrightarrow> of_rows t = of_rows s"

lemma status_stamps: "UpdatePushStatus now ids e s = (r, t) \<Longrightarrow> stamps t = stamps s"
  by (auto simp: UpdatePushStatus_def UpdatePushStatus_rows_def stamps_def split: if_splits option.splits)

lemma delete_stamps: "DeleteOfflineMessages ctx u ids s = (r, t) \<Longrightarrow> subseq (stamps t) (stamps s)"
  by (auto simp: DeleteOfflineMessages_def DeleteByMessageIDs_def delete_rows_def stamps_def intro: subseq_map subseq_filter_left split: if_splits)

lemma batch_stamps:
  assumes "stores_respect same_rows host env" "pushAndDeleteOffline host env ctx u msgs m = ((p, f), m')"
  shows "subseq (stamps (offline_of m')) (stamps (offline_of m))"
proof -
  obtain s1 s2 e e' d where steps: "same_rows (offline_of m) s1" "s2 = s1 \<or> UpdatePushStatus (ho_now host) f e s1 = (e', s2)"
    "offline_of m' = s2 \<or> DeleteOfflineMessages ctx u p s2 = (d, offline_of m')"
    using batch_steps [OF assms] by blast
  have "stamps s2 = stamps (offline_of m)" using steps(1,2) status_stamps by (fastforce simp: same_rows_def stamps_def)
  with steps(3) delete_stamps show ?thesis by fastforce
qed

definition behind :: "string \<Rightarrow> (string \<times> int) list \<Rightarrow> int \<Rightarrow> bool" where
  "behind cursor X t \<longleftrightarrow> cursor = [] \<or> (case map_of X cursor of None \<Rightarrow> True | Some t0 \<Rightarrow> t0 < t)"

lemma cursor_stamps: "after_cursor cursor (of_rows s) r \<longleftrightarrow> behind cursor (stamps s) (or_CreatedAt r)"
proof -
  have "cursor_time cursor rows = map_of (map (\<lambda>r. (or_MessageID r, or_CreatedAt r)) rows) cursor" for rows :: "'a OfflineMessageRecord list"
    by (induction rows) (auto simp: cursor_time_def)
  then show ?thesis by (simp add: after_cursor_def behind_def stamps_def)
qed

text \<open>The work left: rows, and rows behind the cursor.\<close>

definition page_work :: "nat \<Rightarrow> string \<Rightarrow> (string \<times> int) list \<Rightarrow> nat" where
  "page_work N cursor X = length X * (N + 1) + length (filter (\<lambda>x. behind cursor X (snd x)) X)"

lemma page_work_less:
  assumes "subseq X' X" "distinct (map fst X)" "length X \<le> N" "(c', t) \<in> set X" "behind c X t" "c' \<noteq> []"
  shows "page_work N c' X' < page_work N c X"
proof (cases "c' \<in> fst ` set X'")
  case True
  have sub: "set X' \<subseteq> set X" using list_emb_set [OF assms(1)] by blast
  have dist: "distinct (map fst X')" using assms(1,2) subseq_map [OF assms(1), of fst] by (metis subseq_distinct)
  obtain t' where "(c', t') \<in> set X'" using True by auto
  then have "t' = t" using sub assms(2,4) by (meson eq_key_imp_eq_value subsetD)
  with \<open>(c', t') \<in> set X'\<close> dist have "map_of X' c' = Some t" by simp
  then have "filter (\<lambda>x. behind c' X' (snd x)) X' = filter (\<lambda>x. t < snd x) X'" using assms(6) by (simp add: behind_def)
  also have "length \<dots> \<le> length (filter (\<lambda>x. t < snd x) X)" by (rule list_emb_length [OF subseq_filter [OF assms(1)]])
  also have "\<dots> < length (filter (\<lambda>x. behind c X (snd x)) X)"
  proof -
    have imp: "t < snd x \<Longrightarrow> behind c X (snd x)" for x :: "string \<times> int" using assms(5) by (auto simp: behind_def split: option.splits)
    have eq: "filter (\<lambda>x. t < snd x) X = filter (\<lambda>x. t < snd x) (filter (\<lambda>x. behind c X (snd x)) X)" using imp by (auto intro: filter_cong)
    have "(c', t) \<in> set (filter (\<lambda>x. behind c X (snd x)) X)" using assms(4,5) by simp
    from length_filter_less [OF this, of "\<lambda>x. t < snd x"] show ?thesis unfolding eq by simp
  qed
  finally have "length (filter (\<lambda>x. behind c' X' (snd x)) X') < length (filter (\<lambda>x. behind c X (snd x)) X)" .
  moreover have "length X' * (N + 1) \<le> length X * (N + 1)" using list_emb_length [OF assms(1)] by (rule mult_le_mono1)
  ultimately show ?thesis unfolding page_work_def by linarith
next
  case False
  have "length X' < length X"
  proof (rule ccontr)
    assume "\<not> length X' < length X"
    with list_emb_length [OF assms(1)] have "X' = X" using assms(1) by (metis le_antisym not_less subseq_same_length)
    with False assms(4) show False by force
  qed
  moreover have "length (filter (\<lambda>x. behind c' X' (snd x)) X') \<le> length X'" by simp
  ultimately have "page_work N c' X' < length X' * (N + 1) + (N + 1)" using assms(3) unfolding page_work_def by linarith
  also have "\<dots> = Suc (length X') * (N + 1)" by simp
  also have "\<dots> \<le> length X * (N + 1)" using \<open>length X' < length X\<close> by (intro mult_le_mono1) simp
  finally show ?thesis unfolding page_work_def by linarith
qed

lemma page_last:
  assumes "GetOfflineMessages h ctx now u n cursor s = Inr (msgs, cur)" "cur \<noteq> []"
  shows "\<exists>t. (cur, t) \<in> set (stamps s) \<and> behind cursor (stamps s) t"
proof -
  let ?f = "receiver_filter ctx u n cursor"
  let ?q = "filter (\<lambda>r. matches_filter now ?f r \<and> after_cursor cursor (of_rows s) r) (of_rows s)"
  from assms obtain records where rec: "records = take (query_limit n) (sort_key or_CreatedAt ?q)" "records \<noteq> []" "cur = or_MessageID (last records)"
    by (auto simp: GetOfflineMessages_def QueryMessages_def receiver_filter_def Let_def split: if_splits)
  have "last records \<in> set ?q" using rec(1,2) by (metis in_set_takeD last_in_set set_sort)
  then show ?thesis unfolding rec(3) by (intro exI [of _ "or_CreatedAt (last records)"]) (auto simp: stamps_def cursor_stamps)
qed

lemma pages_end:
  assumes "stores_respect same_rows host env"
  shows "distinct (map fst (stamps (offline_of m))) \<Longrightarrow> length (stamps (offline_of m)) \<le> N \<Longrightarrow>
    page_work N cursor (stamps (offline_of m)) < fuel \<Longrightarrow> replay_pages fuel host env pushCtx u cursor ((p, f), m) \<noteq> None"
proof (induction fuel arbitrary: cursor p f m)
  case (Suc fuel)
  let ?X = "stamps (offline_of m)"
  show ?case
  proof (cases "GetOfflineMessages (re_handler env) pushCtx (ho_now host) u batchSize cursor (offline_of m)")
    case (Inr pg)
    obtain msgs cur where pg: "pg = (msgs, cur)" by (cases pg)
    obtain q f1 m1 where batch: "pushAndDeleteOffline host env pushCtx u msgs m = ((q, f1), m1)" by (metis surj_pair)
    note sub = batch_stamps [OF assms batch]
    show ?thesis
    proof (cases "msgs = [] \<or> cur = []")
      case False
      from page_last [OF Inr [unfolded pg]] False obtain t where t: "(cur, t) \<in> set ?X" "behind cursor ?X t" by blast
      have "page_work N cur (stamps (offline_of m1)) < fuel"
        using page_work_less [OF sub Suc.prems(1,2) t] False Suc.prems(3) by linarith
      moreover have "distinct (map fst (stamps (offline_of m1)))" using subseq_map [OF sub, of fst] Suc.prems(1) by (metis subseq_distinct)
      moreover have "length (stamps (offline_of m1)) \<le> N" using list_emb_length [OF sub] Suc.prems(2) by linarith
      ultimately show ?thesis using Suc.IH [of m1 cur "p @ q" "f @ f1"] Inr pg batch False by simp
    qed (use Inr pg batch in auto)
  qed simp
qed simp

lemma drain_stamps:
  assumes "stores_respect same_rows host env" "drain_group host env client pushCtx gid (pf, m) = (pf', m')"
  shows "subseq (stamps (offline_of m')) (stamps (offline_of m))"
proof -
  let ?ctx = "group_ctx client gid pushCtx"
  obtain r m1 where drain: "with_offline (DrainOfflineQueue (re_handler env) ?ctx (cl_UserID client) 0) m = (r, m1)" by fastforce
  have same: "stamps (offline_of m1) = stamps (offline_of m)" using drain_keeps_rows [OF offline_eqs(1) [OF drain]] by (simp add: stamps_def)
  show ?thesis
  proof (cases "m' = m1")
    case False
    with assms(2) drain obtain msgs q f1 where "pushAndDeleteOffline host env ?ctx (cl_UserID client) msgs m1 = ((q, f1), m')"
      by (auto simp: drain_group_def Let_def split: sum.splits if_splits prod.splits)
    from batch_stamps [OF assms(1) this] same show ?thesis by simp
  qed (simp add: same)
qed

lemma drains_stamps:
  assumes "stores_respect same_rows host env"
  shows "fold (drain_group host env client pushCtx) gids (pf, m) = (pf', m') \<Longrightarrow> subseq (stamps (offline_of m')) (stamps (offline_of m))"
proof (induction gids arbitrary: pf m)
  case (Cons gid gids)
  obtain pf1 m1 where one: "drain_group host env client pushCtx gid (pf, m) = (pf1, m1)" by fastforce
  from Cons.IH [of pf1 m1] Cons.prems one drain_stamps [OF assms one] show ?case by (auto intro: subseq_order.trans)
qed simp

lemma replay_ends:
  assumes "stores_respect same_rows host env" "distinct (map or_MessageID (of_rows (offline_of m)))"
  shows "PushOfflineMessages ((length (of_rows (offline_of m)) + 1) * (length (of_rows (offline_of m)) + 1)) host env ctx client m \<noteq> None"
proof (cases client)
  case (Some cl)
  let ?n = "length (of_rows (offline_of m))" and ?ctx = "base_ctx cl ctx"
  obtain p f m1 where drain: "fold (drain_group host env cl ?ctx) (replay_groups env ?ctx cl) (([], []), m) = ((p, f), m1)" by (metis surj_pair)
  note sub = drains_stamps [OF assms(1) drain]
  let ?X = "stamps (offline_of m1)"
  have len: "length ?X \<le> ?n" using list_emb_length [OF sub] by (simp add: stamps_def)
  have dist: "distinct (map fst ?X)"
    using subseq_distinct [OF subseq_map [OF sub, of fst]] assms(2) by (simp add: stamps_def comp_def)
  have "page_work ?n [] ?X \<le> ?n * (?n + 1) + ?n" unfolding page_work_def using len by (intro add_mono mult_le_mono1) (auto intro: le_trans [OF length_filter_le])
  then have "page_work ?n [] ?X < (?n + 1) * (?n + 1)" by (simp add: algebra_simps)
  from pages_end [OF assms(1) dist len this] Some drain show ?thesis
    by (auto simp: PushOfflineMessages_def Let_def split: sum.splits)
qed (simp add: PushOfflineMessages_def)


section \<open>Pages that do not end\<close>

text \<open>A host that hands every message to another node, and an index that knows that node.\<close>

definition steady_host :: "(unit, (HubMessage, unit) OfflineWorld) Host" where
  "steady_host = \<lparr>ho_sh = demo_sh, ho_enc = (\<lambda>_. Some ''x''), ho_tr = (\<lambda>_. []), ho_ctx = demo_ctx, ho_now = 5, ho_newID = ''id'', ho_broadcastID = None,
      ho_MaxRetries = 0, ho_ttl = 0, ho_sender = None, ho_CheckAndRouteToNode = (\<lambda>_ _ _ _ c. ((True, [''A''], None), c)), ho_RouteToCluster = (\<lambda>_ _ _ c. (None, c)),
      ho_BatchGetUserNodes = (\<lambda>ctx u c. (None, c)), ho_StoreOfflineMessage = (\<lambda>u m w. (Some temporary, w)), ho_retry = simple_retry\<rparr>"

definition steady_env :: "(HubMessage, unit, unit) ReplayEnv" where
  "steady_env = \<lparr>re_handler = plain_handler,
     re_fanout = \<lparr>fe_messageWorkers = None, fe_onlineStatusRepo = Some (\<lambda>_ us w. (Inr (\<lambda>u. if u \<in> set us then Some [''A''] else None), w)),
                  fe_panics = \<lparr>pn_send = (\<lambda>u s. None), pn_broadcast = (\<lambda>u s. None)\<rparr>\<rparr>,
     re_GetUserGroups = None\<rparr>"

definition replay_state :: "HubMessage Offline \<Rightarrow> (HubMessage, unit) OfflineWorld Sending" where
  "replay_state s = \<lparr>ms_cluster = \<lparr>ct_hub = lone_hub, ct_nodeID = ''X'', ct_pubsub = False, ct_grpc = False, ct_pool = True, ct_batch = False,
       ct_registry = None, ct_index = True, ct_cache = \<lparr>nc_entries = [], nc_size = 0, nc_ttl = 0, nc_max = 0, nc_next = 0\<rparr>, ct_guard = [], ct_probes = [],
       ct_world = \<lparr>ow_offline = s, ow_heap = \<lparr>dh_next = 0, dh_objs = \<lambda>_. []\<rparr>, ow_rest = ()\<rparr>\<rparr>,
     ms_submitted = [], ms_retries = [], ms_stored = [], ms_callback = False, ms_called = [], ms_collecting = False, ms_collected = [], ms_fallbacks = 0\<rparr>"

lemma steady_respects: "reflp K \<Longrightarrow> transp K \<Longrightarrow> stores_respect K steady_host steady_env"
  by (simp add: stores_respect_def ports_respect_def steady_host_def steady_env_def simple_retry_ok reflp_def transp_def)

lemma steady_attempt: "fst (sendToUser steady_host ctx u msg nodes m) = None"
proof -
  have "fst (deliver_local host u msg d True m) = None" for host :: "(unit, (HubMessage, unit) OfflineWorld) Host" and msg d m
    by (simp add: deliver_local_def split: prod.splits)
  then show ?thesis
    by (simp add: sendToUser_def steady_host_def with_cluster_def Let_def split: prod.splits) (metis fst_conv)
qed

lemma steady_send:
  assumes "sendToUserWithRetry steady_host ctx u msg (Some (n # ns)) m = (r, m')"
  shows "sr_Success r"
proof -
  have core: "sr_Success r" if run: "sendToUserWithRetryCore steady_host ctx u msg (Some (n # ns)) m = (r, m')" for ctx msg
  proof -
    let ?x = "IsExpress (guarantee (prepare_send steady_host u msg m) m)"
    have "fst (executeSendAttempt steady_host ctx u nodes st) = None" for nodes st
      by (cases st) (simp add: executeSendAttempt_def Let_def split_beta steady_attempt)
    then have "fst (deliverOnlineWithPolicy steady_host ctx u nodes ?x st) = None" for nodes st
      by (simp add: deliverOnlineWithPolicy_def Let_def split_beta)
    then obtain st where "deliverOnlineWithPolicy steady_host ctx u (Some (n # ns)) ?x (prepare_send steady_host u msg m, newSendResult, m) = (None, st)"
      by (metis prod.collapse)
    with run have "settle_send steady_host u ?x None st = (r, m')" by (simp add: sendToUserWithRetryCore_def Let_def)
    then show ?thesis by (cases st) (auto simp: settle_send_def finalizeSendResult_def Let_def)
  qed
  from assms core show ?thesis by (auto simp: sendToUserWithRetry_def split: prod.splits)
qed

lemma steady_batch: "fold (push_message steady_host ctx u (Some (n # ns))) msgs ((p, [], e), m) = ((p', f', e'), m') \<Longrightarrow> f' = []"
proof (induction msgs arbitrary: p e m)
  case (Cons msg msgs)
  obtain p1 f1 e1 m1 where one: "push_message steady_host ctx u (Some (n # ns)) msg ((p, [], e), m) = ((p1, f1, e1), m1)" by (metis surj_pair)
  then have "f1 = []" by (auto simp: push_message_def Let_def split: prod.splits if_splits dest: steady_send)
  with Cons.IH [of p1 e1 m1] Cons.prems one show ?case by simp
qed simp

text \<open>Messages of a group, which carry no namespace, kept for two users; the last of them was stored for the other user first.\<close>

definition group_message :: "nat \<Rightarrow> HubMessage" where
  "group_message k = zero_message\<lparr>hm_MessageID := replicate k (CHR ''m''), hm_Receiver := ''u1'', hm_AppID := DefaultAppID, hm_GroupIDs := Some [''g'']\<rparr>"

definition group_row :: "string \<Rightarrow> int \<Rightarrow> nat \<Rightarrow> HubMessage OfflineMessageRecord" where
  "group_row u t k = \<lparr>or_ID = k, or_MessageID = replicate k (CHR ''m''), or_Sender = ''s'', or_Receiver = u, or_AppID = DefaultAppID, or_Namespace = [],
     or_GroupID = ''g'', or_SessionID = [], or_CompressedData = group_message k, or_Status = StatusUserOffline, or_RetryCount = 0, or_MaxRetry = 3,
     or_ScheduledAt = 0, or_ExpireAt = 1000, or_FirstPushAt = None, or_LastPushAt = None, or_ErrorMessage = [], or_CreatedAt = t\<rparr>"

definition group_store :: "HubMessage Offline" where
  "group_store = \<lparr>of_rows = group_row ''u2'' 0 100 # map (\<lambda>k. group_row ''u1'' (int k) k) [1..<101], of_next = 200, of_dbUp = True,
     of_queues = \<lambda>_. [], of_redisUp = True\<rparr>"

lemma group_page:
  assumes "AppIDFromContext ctx = DefaultAppID" "NamespaceFromContext ctx = ''n''" "cursor = [] \<or> cursor = replicate 100 (CHR ''m'')"
  shows "GetOfflineMessages plain_handler ctx 5 ''u1'' batchSize cursor group_store = Inr (map group_message [1..<101], replicate 100 (CHR ''m''))"
proof -
  let ?f = "receiver_filter ctx ''u1'' batchSize cursor"
  let ?mine = "map (\<lambda>k. group_row ''u1'' (int k) k) [1..<101]"
  have cur: "after_cursor cursor (of_rows group_store) (group_row u (int k) k)" if "0 < k" for u k
    using assms(3) that by (auto simp: after_cursor_def cursor_time_def group_store_def group_row_def)
  have match: "matches_filter 5 ?f (group_row u t k) \<longleftrightarrow> u = ''u1''" for u t k
    using assms(1,2) by (auto simp: matches_filter_def receiver_filter_def if_not_empty_def group_row_def exhausted_def PendingOfflineStatuses_def DefaultAppID_def)
  have "filter (\<lambda>r. matches_filter 5 ?f r \<and> after_cursor cursor (of_rows group_store) r) (of_rows group_store) = ?mine"
  proof -
    have "filter (\<lambda>r. matches_filter 5 ?f r \<and> after_cursor cursor (of_rows group_store) r) ?mine = ?mine"
      using cur match by (intro filter_True) auto
    then show ?thesis using match [of "''u2''"] by (simp add: group_store_def)
  qed
  moreover have "sort_key or_CreatedAt ?mine = ?mine" by (rule sort_key_id_if_sorted) (simp add: comp_def group_row_def sorted_map)
  ultimately have q: "QueryMessages 5 ?f group_store = Inr ?mine"
    by (simp add: QueryMessages_def receiver_filter_def query_limit_def batchSize_def group_store_def)
  have "last ?mine = group_row ''u1'' 100 100" by (simp add: last_map)
  then show ?thesis unfolding GetOfflineMessages_def q
    by (simp add: plain_handler_def batchSize_def map_filter_def comp_def group_row_def del: upt_Suc)
qed

definition tenant_client :: Client where
  "tenant_client = (demo_client 0)\<lparr>cl_UserID := ''u1'', cl_AppID := DefaultAppID, cl_Namespace := ''n''\<rparr>"

lemma tenant_ctx: "AppIDFromContext (base_ctx tenant_client ctx) = DefaultAppID" "NamespaceFromContext (base_ctx tenant_client ctx) = ''n''"
  "AppIDFromContext (group_ctx tenant_client [] ctx) = DefaultAppID" "NamespaceFromContext (group_ctx tenant_client [] ctx) = ''n''"
  by (simp_all add: base_ctx_def group_ctx_def after_Inject Route_WithGroup_def Route_WithNamespace_def Route_WithAppID_def tenant_client_def Client_GetAppID_def NormalizeAppID_def DefaultAppID_def)

text \<open>Pushing the page changes nothing in the store: the rows have no namespace, and the deletion asks for the namespace of the client.\<close>

lemma group_batch:
  assumes "offline_of m = group_store" "AppIDFromContext ctx = DefaultAppID" "NamespaceFromContext ctx = ''n''"
    "pushAndDeleteOffline steady_host steady_env ctx ''u1'' msgs m = ((p, f), m')"
  shows "offline_of m' = group_store"
proof -
  have "stores_respect (=) steady_host steady_env" by (rule steady_respects) (simp_all add: reflp_def transp_def)
  from batch_steps [OF this assms(4)] obtain s2 e e' d where steps: "s2 = offline_of m \<or> UpdatePushStatus (ho_now steady_host) f e (offline_of m) = (e', s2)"
    "offline_of m' = s2 \<or> DeleteOfflineMessages ctx ''u1'' p s2 = (d, offline_of m')" by blast
  obtain m1 where idx: "BatchGetUserNodes (re_fanout steady_env) ctx [''u1''] m = (Some (\<lambda>u. if u \<in> {''u1''} then Some [''A''] else None), m1)"
    by (simp add: BatchGetUserNodes_def steady_env_def with_cluster_def outside_def)
  have "f = []" using assms(4) steady_batch [of ctx "''u1''" "''A''" "[]" msgs "[]" None m1]
    by (auto simp: pushAndDeleteOffline_def idx preset_def Let_def split: prod.splits if_splits)
  with steps(1) assms(1) have s2: "s2 = group_store" by (auto simp: UpdatePushStatus_def)
  have "filter (\<lambda>r. \<not> row_of_ids DefaultAppID ''n'' ''u1'' p r) (of_rows group_store) = of_rows group_store"
    by (rule filter_True) (auto simp: group_store_def group_row_def row_of_ids_def)
  with steps(2) s2 assms(2,3) show ?thesis by (auto simp: DeleteOfflineMessages_def DeleteByMessageIDs_def delete_rows_def split: if_splits)
qed

lemma group_pages:
  assumes "offline_of m = group_store" "AppIDFromContext ctx = DefaultAppID" "NamespaceFromContext ctx = ''n''" "cursor = [] \<or> cursor = replicate 100 (CHR ''m'')"
  shows "replay_pages fuel steady_host steady_env ctx ''u1'' cursor (pf, m) = None"
  using assms(1,4)
proof (induction fuel arbitrary: cursor pf m)
  case (Suc fuel)
  let ?msgs = "map group_message [1..<101]"
  obtain p f where pf: "pf = (p, f)" by (cases pf)
  obtain q g m1 where batch: "pushAndDeleteOffline steady_host steady_env ctx ''u1'' ?msgs m = ((q, g), m1)" by (metis surj_pair)
  have page: "GetOfflineMessages (re_handler steady_env) ctx (ho_now steady_host) ''u1'' batchSize cursor (offline_of m) = Inr (?msgs, replicate 100 (CHR ''m''))"
    using group_page [OF assms(2,3) Suc.prems(2)] Suc.prems(1) by (simp add: steady_env_def steady_host_def)
  have again: "replay_pages fuel steady_host steady_env ctx ''u1'' (replicate 100 (CHR ''m'')) ((p @ q, f @ g), m1) = None"
    by (rule Suc.IH [OF group_batch [OF Suc.prems(1) assms(2,3) batch]]) simp
  have ne: "?msgs \<noteq> []" "replicate 100 (CHR ''m'') \<noteq> []" by (simp_all add: upt_conv_Cons)
  show ?case using page batch again ne by (simp only: replay_pages.simps pf prod.case sum.case if_False)
qed simp

text \<open>
  The cursor of the pages is a message id, and its time is looked up without the receiver.  The messages of a group are stored once
  per member under one id, so the time can be that of another member's row; and rows without a namespace are pushed but never
  deleted.  Together: the replay of a hundred such messages starts over with the first page for ever, sending them all again each time.
\<close>

theorem replay_can_loop:
  "\<forall>fuel. PushOfflineMessages fuel steady_host steady_env demo_ctx (Some tenant_client) (replay_state group_store) = None"
proof
  fix fuel
  let ?m = "replay_state group_store" and ?ctx = "base_ctx tenant_client demo_ctx"
  have off: "offline_of ?m = group_store" "offlineHandler ?m" by (simp_all add: replay_state_def offlineHandler_def lone_state_fields)
  have user: "cl_UserID tenant_client = ''u1''" by (simp add: tenant_client_def)
  have "group_row ''u1'' 1 1 \<in> set (filter (pending_row 5 DefaultAppID ''n'' or_Receiver ''u1'') (of_rows group_store))"
    by (simp add: group_store_def group_row_def pending_row_def PendingOfflineStatuses_def) force
  then have "length (filter (pending_row 5 DefaultAppID ''n'' or_Receiver ''u1'') (of_rows group_store)) \<noteq> 0" by (metis length_0_conv list.distinct(1) list.set_cases)
  then obtain n where count: "GetOfflineMessageCount ?ctx 5 ''u1'' group_store = Inr n" "n \<noteq> 0"
    by (auto simp: GetOfflineMessageCount_def GetCountByReceiver_def tenant_ctx group_store_def)
  have "with_offline (DrainOfflineQueue plain_handler (group_ctx tenant_client [] ?ctx) ''u1'' 0) ?m = (Inr [], ?m)"
    by (simp add: with_offline_def with_cluster_def outside_def on_offline_def replay_state_def DrainOfflineQueue_def GetLength_def group_store_def Let_def)
  then have drain: "fold (drain_group steady_host steady_env tenant_client ?ctx) (replay_groups steady_env ?ctx tenant_client) (([], []), ?m) = (([], []), ?m)"
    by (simp add: replay_groups_def steady_env_def drain_group_def user Let_def)
  have "replay_pages fuel steady_host steady_env ?ctx ''u1'' [] (([], []), ?m) = None"
    by (rule group_pages) (simp_all add: off tenant_ctx)
  with count drain off show "PushOfflineMessages fuel steady_host steady_env demo_ctx (Some tenant_client) ?m = None"
    by (simp add: PushOfflineMessages_def user Let_def steady_host_def)
qed

section \<open>One message for one user\<close>

definition p2p_message :: HubMessage where
  "p2p_message = zero_message\<lparr>hm_MessageID := ''m'', hm_Receiver := ''u1'', hm_AppID := DefaultAppID, hm_Namespace := ''n'', hm_Priority := PriorityCritical,
     hm_CreateAt := 5\<rparr>"

definition p2p_row :: "HubMessage OfflineMessageRecord" where
  "p2p_row = (column_defaults (offline_row plain_handler demo_ctx 5 p2p_message p2p_message))\<lparr>or_ID := 1\<rparr>"

definition p2p_key :: string where
  "p2p_key = ''q:'' @ queueKey DefaultAppID ''n'' DefaultGroupID ''u1''"

lemma p2p_route: "resolveOfflineRoute ctx p2p_message = (DefaultAppID, ''n'', [])"
  by (simp add: resolveOfflineRoute_def p2p_message_def zero_message_def FirstGroupID_def NormalizeAppID_def DefaultAppID_def)

lemma plain_fields: "hh_zip plain_handler = Some" "hh_unzip plain_handler = Some" "mq_prefix (hh_queue plain_handler) = ''q:''"
  by (simp_all add: plain_handler_def)

lemma p2p_not_skipped: "\<not> shouldSkipOfflineStorage p2p_message"
  by (simp add: shouldSkipOfflineStorage_def p2p_message_def zero_message_def IsSystemType_def)

lemma p2p_stored:
  "Handler_StoreOfflineMessage plain_handler demo_ctx 5 ''u1'' (Some p2p_message) (fresh_store\<lparr>of_dbUp := up\<rparr>) =
     (None, (fresh_store\<lparr>of_dbUp := up\<rparr>)\<lparr>of_queues := (\<lambda>_. [])(p2p_key := [p2p_message]), of_rows := (if up then [p2p_row] else []),
        of_next := (if up then 2 else 1)\<rparr>)"
  by (simp add: Handler_StoreOfflineMessage_def p2p_not_skipped storeToRedis_def storeToDatabase_def p2p_route Enqueue_def Save_def plain_handler_def fresh_store_def
      p2p_key_def NormalizeGroupID_def p2p_row_def Let_def)

text \<open>A node without the user, and nobody else who knows him.\<close>

definition away_host :: "(unit, (HubMessage, unit) OfflineWorld) Host" where
  "away_host = offline_host plain_handler (steady_host\<lparr>ho_CheckAndRouteToNode := \<lambda>_ _ _ _ c. ((False, [], None), c)\<rparr>)"

definition away_env :: "(HubMessage, unit, unit) ReplayEnv" where
  "away_env = steady_env\<lparr>re_fanout := (re_fanout steady_env)\<lparr>fe_onlineStatusRepo := None\<rparr>\<rparr>"

lemma away_fields: "ho_tr away_host = (\<lambda>_. [])" "ho_now away_host = 5" "ho_sender away_host = None" "ho_BatchGetUserNodes away_host = (\<lambda>ctx u c. (None, c))"
  "ho_newID away_host = ''id''"
  by (simp_all add: away_host_def offline_host_def steady_host_def)

lemma away_send:
  assumes "hub_of m = lone_hub" "standalone (ms_cluster m)" "of_dbUp (offline_of m)" "of_redisUp (offline_of m)" "row_key p2p_row \<in> row_key ` set (of_rows (offline_of m))"
    and msg: "hm_MessageID msg = ''m''" "hm_AppID msg = DefaultAppID" "hm_Namespace msg = ''n''" "hm_Priority msg = PriorityCritical" "hm_MessageType msg = []"
      "hm_DeliveryGuarantee msg = GuaranteeUnset" "FirstGroupID msg = []" "hm_CreateAt msg = 5"
    and run: "sendToUserWithRetryCore away_host ctx ''u1'' msg None m = (r, m')"
  shows "sr_Success r \<and> (\<exists>z. offline_of m' = (offline_of m)\<lparr>of_queues := (of_queues (offline_of m))(p2p_key := of_queues (offline_of m) p2p_key @ [z])\<rparr>) \<and>
    hub_of m' = lone_hub \<and> standalone (ms_cluster m')"
proof -
  let ?msg = "prepare_send away_host ''u1'' msg m"
  have g: "\<not> IsExpress (guarantee x m)" if "hm_Priority x = PriorityCritical" "hm_MessageType x = []" "hm_DeliveryGuarantee x = GuaranteeUnset" for x
    using that by (simp add: lone_guarantee IsExpress_def)
  have fields: "hm_MessageID ?msg = ''m''" "hm_AppID ?msg = DefaultAppID" "hm_Namespace ?msg = ''n''" "hm_Receiver ?msg = ''u1''" "FirstGroupID ?msg = []"
    "hm_MessageType ?msg = []" "\<not> IsExpress (guarantee ?msg m)" "hm_Priority ?msg = PriorityCritical" "hm_DeliveryGuarantee ?msg = GuaranteeUnset"
    using msg g by (simp_all add: prepare_send_def away_fields Let_def FirstGroupID_def split: if_splits)
  have away: "\<not> has_user away_host ''u1'' ctx m" by (rule lone_absent) (simp add: assms(1) lone_state_fields)
  have off: "offlineHandler m" using assms(1) by (simp add: offlineHandler_def lone_state_fields)
  have route: "resolveOfflineRoute c ?msg = (DefaultAppID, ''n'', [])" for c :: "unit GoContext"
    using fields by (simp add: resolveOfflineRoute_def NormalizeAppID_def DefaultAppID_def)
  have skip: "\<not> shouldSkipOfflineStorage ?msg" using fields by (simp add: shouldSkipOfflineStorage_def IsSystemType_def)
  have key: "row_key ((column_defaults (offline_row plain_handler c now ?msg z))\<lparr>or_ID := i\<rparr>) = row_key p2p_row" for c :: "unit GoContext" and now z i
    using fields route [of c] p2p_route [of demo_ctx]
    by (simp add: row_key_def column_defaults_def offline_row_def p2p_row_def p2p_message_def zero_message_def)
  have store: "Handler_StoreOfflineMessage plain_handler c 5 ''u1'' (Some ?msg) (offline_of m) =
      (None, (offline_of m)\<lparr>of_queues := (of_queues (offline_of m))(p2p_key := of_queues (offline_of m) p2p_key @ [?msg])\<rparr>)" for c :: "unit GoContext"
    using assms(3-5) by (simp add: Handler_StoreOfflineMessage_def skip storeToRedis_def storeToDatabase_def route Enqueue_def Save_def key plain_fields p2p_key_def
        NormalizeGroupID_def Let_def)
  have "send_offline away_host ctx ''u1'' ?msg False m = (r, m')"
    using run away fields(7) by (simp add: sendToUserWithRetryCore_def away_fields with_cluster_def Let_def)
  then show ?thesis using assms(1,2) off store
    by (auto simp: send_offline_def routeToClusterForOfflineUser_def StoreOfflineMessage_def away_host_def offline_host_def steady_host_def with_cluster_def outside_def
        on_offline_def invokeMessageSendCallback_def Let_def newSendResult_def split: prod.splits if_splits)
qed

definition p2p_store :: "bool \<Rightarrow> HubMessage Offline" where
  "p2p_store up = snd (Handler_StoreOfflineMessage plain_handler demo_ctx 5 ''u1'' (Some p2p_message) (fresh_store\<lparr>of_dbUp := up\<rparr>))\<lparr>of_dbUp := True\<rparr>"

lemma p2p_store_eq: "p2p_store up = \<lparr>of_rows = (if up then [p2p_row] else []), of_next = (if up then 2 else 1), of_dbUp = True,
    of_queues = (\<lambda>_. [])(p2p_key := [p2p_message]), of_redisUp = True\<rparr>"
  by (simp add: p2p_store_def p2p_stored) (simp add: fresh_store_def)

lemma p2p_row_fields: "or_MessageID p2p_row = ''m''" "or_AppID p2p_row = DefaultAppID" "or_Namespace p2p_row = ''n''" "or_Receiver p2p_row = ''u1''" "or_ExpireAt p2p_row = 105"
  "or_Status p2p_row = StatusUserOffline"
  using p2p_route [of demo_ctx]
  by (simp_all add: p2p_row_def column_defaults_def offline_row_def p2p_message_def zero_message_def plain_handler_def NormalizeAppID_def DefaultAppID_def)

lemma p2p_pending: "pending_row 5 DefaultAppID ''n'' or_Receiver ''u1'' p2p_row"
  by (simp add: pending_row_def p2p_row_fields PendingOfflineStatuses_def)

lemma p2p_drain_key: "drain_key plain_handler (group_ctx tenant_client [] ctx) ''u1'' = p2p_key"
proof -
  have "slice (GroupIDsFromContext (group_ctx tenant_client [] ctx)) = [[]]"
    by (simp add: group_ctx_def after_Inject Route_WithGroup_def Route_WithNamespace_def Route_WithAppID_def NewRoute_def slice_append_def)
  then have "FirstGroupIDFromContext (group_ctx tenant_client [] ctx) = []" by (simp add: FirstGroupIDFromContext_def Let_def)
  then show ?thesis by (simp add: drain_key_def tenant_ctx p2p_key_def plain_handler_def NormalizeGroupID_def)
qed

lemma away_push:
  assumes "hub_of m = lone_hub" "standalone (ms_cluster m)" "offline_of m = (p2p_store True)\<lparr>of_queues := \<lambda>_. []\<rparr>"
  shows "\<exists>b m' z. push_message away_host (group_ctx tenant_client [] ctx) ''u1'' None p2p_message (([], [], None), m) = (([''m''], [], b), m') \<and>
    offline_of m' = (p2p_store True)\<lparr>of_queues := (\<lambda>_. [])(p2p_key := [z])\<rparr> \<and> hub_of m' = lone_hub"
proof -
  obtain msg1 m1 where mark: "mark_offline p2p_message m = (msg1, m1)" by fastforce
  have m1: "offline_of m1 = offline_of m" "hub_of m1 = hub_of m" "standalone (ms_cluster m1) = standalone (ms_cluster m)"
    and msg1: "\<exists>d. msg1 = p2p_message\<lparr>hm_Source := MessageSourceOffline, hm_Data := d\<rparr>"
    using mark by (auto simp: p2p_message_def zero_message_def mark_offline_def with_cluster_def outside_def WithOption_def data_put_def ensure_data_def Let_def split: prod.splits option.splits)
  let ?ctx = "EnsureRouteDefaults (TraceContext (group_ctx tenant_client [] ctx) msg1)"
  obtain mg cx where inj: "InjectRoute (\<lambda>_. []) ?ctx msg1 = (mg, cx)" by fastforce
  have mg: "hm_MessageID mg = ''m''" "hm_AppID mg = DefaultAppID" "hm_Namespace mg = ''n''" "hm_Priority mg = PriorityCritical" "hm_MessageType mg = []"
      "hm_DeliveryGuarantee mg = GuaranteeUnset" "hm_CreateAt mg = 5"
    using inj msg1 by (auto simp: InjectRoute_def Let_def p2p_message_def zero_message_def DefaultAppID_def split: if_splits)
  have gids: "slice (GroupIDsFromContext ?ctx) = [[]]"
    using msg1 by (auto simp: GroupIDsFromContext_def EnsureRouteDefaults_def RoutingFromContext_def RouteFrom_def TraceContext_def NormalizeRoute_def Let_def group_ctx_def
        Inject_def Route_WithGroup_def Route_WithNamespace_def Route_WithAppID_def NewRoute_def slice_append_def p2p_message_def zero_message_def split: option.splits if_splits)
  have "hm_GroupIDs mg = slice_copy (GroupIDsFromContext ?ctx)"
    using inj msg1 gids by (auto simp: InjectRoute_def Let_def p2p_message_def zero_message_def split: if_splits)
  then have first: "FirstGroupID mg = []" using gids by (simp add: FirstGroupID_def)
  obtain r m2 where core: "sendToUserWithRetryCore away_host cx ''u1'' mg None m1 = (r, m2)" by fastforce
  have sent: "sendToUserWithRetry away_host ?ctx ''u1'' msg1 None m1 = (r, m2)" using inj core by (simp add: sendToUserWithRetry_def away_fields)
  have up: "of_dbUp (offline_of m1)" "of_redisUp (offline_of m1)" "row_key p2p_row \<in> row_key ` set (of_rows (offline_of m1))"
    using m1 assms(3) by (simp_all add: p2p_store_eq)
  from away_send [OF _ _ up mg(1-6) first mg(7) core] m1 assms obtain z where z: "sr_Success r"
    "offline_of m2 = (p2p_store True)\<lparr>of_queues := (\<lambda>_. [])(p2p_key := [z])\<rparr>" "hub_of m2 = lone_hub" by (auto simp: p2p_store_eq)
  have "hm_MessageID msg1 = ''m''" using msg1 by (auto simp: p2p_message_def)
  with z mark sent show ?thesis by (auto simp: push_message_def)
qed


text \<open>
  A message that only the queue accepted, because the table could not be written when it was stored, is stored without an error and
  waits for ever: without a row the replay does not look into the queue.
\<close>

theorem queue_only_not_replayed:
  "fst (Handler_StoreOfflineMessage plain_handler demo_ctx 5 ''u1'' (Some p2p_message) (fresh_store\<lparr>of_dbUp := False\<rparr>)) = None \<and>
   of_queues (p2p_store False) p2p_key = [p2p_message] \<and>
   (\<forall>fuel. PushOfflineMessages fuel steady_host steady_env demo_ctx (Some tenant_client) (replay_state (p2p_store False))
      = Some (([], []), replay_state (p2p_store False)))"
proof (intro conjI allI)
  show "fst (Handler_StoreOfflineMessage plain_handler demo_ctx 5 ''u1'' (Some p2p_message) (fresh_store\<lparr>of_dbUp := False\<rparr>)) = None" by (simp add: p2p_stored)
  show "of_queues (p2p_store False) p2p_key = [p2p_message]" by (simp add: p2p_store_eq)
  fix fuel
  have "GetOfflineMessageCount (base_ctx tenant_client demo_ctx) 5 u (p2p_store False) = Inr 0" for u
    by (simp add: GetOfflineMessageCount_def GetCountByReceiver_def p2p_store_eq)
  then show "PushOfflineMessages fuel steady_host steady_env demo_ctx (Some tenant_client) (replay_state (p2p_store False)) = Some (([], []), replay_state (p2p_store False))"
    by (simp add: PushOfflineMessages_def replay_state_def steady_host_def Let_def)
qed

lemma p2p_state_rows: "of_rows (offline_of (replay_state (p2p_store True))) = [p2p_row]" "(length [p2p_row] + 1) * (length [p2p_row] + 1) = 4"
  "distinct (map or_MessageID [p2p_row])"
  by (simp_all add: replay_state_def p2p_store_eq)


theorem replay_loses_nothing_witness:
  "\<exists>p f m'. PushOfflineMessages 4 steady_host steady_env demo_ctx (Some tenant_client) (replay_state (p2p_store True)) = Some ((p, f), m') \<and>
     ((\<exists>r' \<in> set (of_rows (offline_of m')). row_key r' = row_key p2p_row) \<or> ''m'' \<in> set p)"
proof -
  have keep: "stores_respect rows_kept steady_host steady_env" by (rule steady_respects) (auto simp: rows_kept_def reflp_def transp_def)
  have "stores_respect same_rows steady_host steady_env" by (rule steady_respects) (auto simp: same_rows_def reflp_def transp_def)
  from replay_ends [OF this, of "replay_state (p2p_store True)" demo_ctx "Some tenant_client", unfolded p2p_state_rows(1,2), OF p2p_state_rows(3)] obtain p f m' where
    run: "PushOfflineMessages 4 steady_host steady_env demo_ctx (Some tenant_client) (replay_state (p2p_store True)) = Some ((p, f), m')"
    by (metis option.exhaust surj_pair)
  have "p2p_row \<in> set (of_rows (offline_of (replay_state (p2p_store True))))" by (simp add: p2p_state_rows(1))
  from replay_loses_nothing [OF keep run this] run show ?thesis by (auto simp: p2p_row_fields)
qed

end
