(* ===== verification/Dispatch_Pool.thy ===== *)
theory Dispatch_Pool
  imports Prelude
begin

text \<open>
  The semaphore of hub/cluster_dispatch.go that bounds parallel gRPC calls.  \<open>dispatchViaGRPC\<close> takes a slot for every target
  node before it starts the worker of the node; the worker of a group broadcast runs \<open>grpcBroadcastGroups\<close>, which takes a
  further slot of the same semaphore for every group, while the worker keeps its own.

  The state counts the nodes that some running dispatch has still to start a worker for, and keeps for every worker how
  many groups it has still to start and how many of them are running.
\<close>

definition grpcDispatchConcurrency :: nat where "grpcDispatchConcurrency = 8"

record pool_state =
  ps_sem :: nat
  ps_nodes :: nat
  ps_workers :: "(nat \<times> nat) multiset"

definition pool_init :: "nat \<Rightarrow> pool_state \<Rightarrow> bool" where
  "pool_init n s \<longleftrightarrow> s = \<lparr>ps_sem = 0, ps_nodes = n, ps_workers = {#}\<rparr>"

text \<open>\<open>G\<close> is the number of groups of the broadcast.  Taking a slot waits for room in the channel and for nothing else.\<close>

inductive pool_step :: "nat \<Rightarrow> pool_state \<Rightarrow> pool_state \<Rightarrow> bool" for G where
  start_worker: "ps_nodes s = Suc n \<Longrightarrow> ps_sem s < grpcDispatchConcurrency \<Longrightarrow>
    pool_step G s (s\<lparr>ps_sem := ps_sem s + 1, ps_nodes := n, ps_workers := add_mset (G, 0) (ps_workers s)\<rparr>)"
| start_group: "ps_workers s = add_mset (Suc g, r) W \<Longrightarrow> ps_sem s < grpcDispatchConcurrency \<Longrightarrow>
    pool_step G s (s\<lparr>ps_sem := ps_sem s + 1, ps_workers := add_mset (g, Suc r) W\<rparr>)"
| end_group: "ps_workers s = add_mset (g, Suc r) W \<Longrightarrow> pool_step G s (s\<lparr>ps_sem := ps_sem s - 1, ps_workers := add_mset (g, r) W\<rparr>)"
| end_worker: "ps_workers s = add_mset (0, 0) W \<Longrightarrow> pool_step G s (s\<lparr>ps_sem := ps_sem s - 1, ps_workers := W\<rparr>)"

definition pool_finished :: "pool_state \<Rightarrow> bool" where
  "pool_finished s \<longleftrightarrow> ps_nodes s = 0 \<and> ps_workers s = {#}"

definition stuck :: "nat \<Rightarrow> pool_state \<Rightarrow> bool" where
  "stuck G s \<longleftrightarrow> \<not> pool_finished s \<and> (\<forall>t. \<not> pool_step G s t)"

section \<open>Slots are accounted for\<close>

definition pool_inv :: "nat \<Rightarrow> pool_state \<Rightarrow> bool" where
  "pool_inv n s \<longleftrightarrow> ps_sem s = size (ps_workers s) + sum_mset (image_mset snd (ps_workers s)) \<and>
     ps_sem s \<le> grpcDispatchConcurrency \<and> size (ps_workers s) + ps_nodes s \<le> n"

interpretation pool: invariant_system "pool_init n" "pool_step G" "pool_inv n"
proof unfold_locales
  show "pool_inv n t" if "pool_inv n s" "pool_step G s t" for s t
    using that(2,1) by cases (auto simp: pool_inv_def)
qed (auto simp: pool_init_def pool_inv_def)

text \<open>A state in which nobody can move: all slots are held by workers that wait for a slot.\<close>

lemma stuck_all_held:
  assumes "pool_inv n s" "stuck G s"
  shows "ps_sem s = grpcDispatchConcurrency \<and> size (ps_workers s) = grpcDispatchConcurrency"
proof -
  have stays: "\<not> pool_step G s t" for t using assms(2) by (simp add: stuck_def)
  have idle: "snd w = 0 \<and> 0 < fst w" if mem: "w \<in># ps_workers s" for w
  proof -
    obtain g r W where w: "ps_workers s = add_mset (g, r) W" "w = (g, r)" using multi_member_split [OF mem] by (cases w) auto
    have "r = 0" using w(1) stays end_group [of s g "r - 1" W G] by (cases r) auto
    moreover have "0 < g" if "r = 0" using w(1) that stays end_worker [of s W G] by (cases g) auto
    ultimately show ?thesis using w(2) by simp
  qed
  have "ps_sem s = grpcDispatchConcurrency"
  proof (rule ccontr)
    assume "ps_sem s \<noteq> grpcDispatchConcurrency"
    then have room: "ps_sem s < grpcDispatchConcurrency" using assms(1) by (simp add: pool_inv_def)
    show False
    proof (cases "ps_nodes s")
      case 0
      with assms(2) obtain w W where w: "ps_workers s = add_mset w W" by (cases "ps_workers s") (auto simp: stuck_def pool_finished_def)
      obtain g where g: "w = (Suc g, 0)" using idle [of w] w by (cases w; cases "fst w") auto
      from start_group [OF w [unfolded g] room, of G] stays show False by blast
    next
      case (Suc m)
      from start_worker [OF Suc room, of G] stays show False by blast
    qed
  qed
  moreover have "sum_mset (image_mset snd (ps_workers s)) = 0" using idle by simp
  ultimately show ?thesis using assms(1) unfolding pool_inv_def by linarith
qed

lemma workers_started:
  assumes "k \<le> n" "k \<le> grpcDispatchConcurrency"
  shows "reach (pool_init n) (pool_step G) \<lparr>ps_sem = k, ps_nodes = n - k, ps_workers = replicate_mset k (G, 0)\<rparr>"
  using assms
proof (induction k)
  case 0
  then show ?case by (auto intro: reach.intros simp: pool_init_def)
next
  case (Suc k)
  let ?s = "\<lparr>ps_sem = k, ps_nodes = n - k, ps_workers = replicate_mset k (G, 0)\<rparr>"
  have "pool_step G ?s (?s\<lparr>ps_sem := k + 1, ps_nodes := n - Suc k, ps_workers := replicate_mset (Suc k) (G, 0)\<rparr>)"
    using start_worker [of ?s "n - Suc k" G] Suc.prems Suc_diff_Suc [of k n] by simp
  with Suc show ?case by (auto intro: reach.intros)
qed

lemma all_waiting_stuck:
  "0 < G \<Longrightarrow> stuck G \<lparr>ps_sem = grpcDispatchConcurrency, ps_nodes = m, ps_workers = replicate_mset grpcDispatchConcurrency (G, 0)\<rparr>"
  by (auto simp: stuck_def pool_finished_def grpcDispatchConcurrency_def elim!: pool_step.cases dest!: union_single_eq_member [OF sym])

text \<open>
  Group broadcasts through the semaphore: as soon as workers for eight nodes can run at the same time, they can take all the
  slots and then wait for each other for ever; with fewer nodes this cannot happen.
\<close>

theorem dispatch_pool_deadlock:
  assumes "0 < G"
  shows "(\<exists>s. reach (pool_init n) (pool_step G) s \<and> stuck G s) \<longleftrightarrow> grpcDispatchConcurrency \<le> n"
proof
  assume "\<exists>s. reach (pool_init n) (pool_step G) s \<and> stuck G s"
  then obtain s where s: "reach (pool_init n) (pool_step G) s" "stuck G s" by blast
  from stuck_all_held [OF pool.reach_inv [OF s(1)] s(2)] pool.reach_inv [OF s(1)] show "grpcDispatchConcurrency \<le> n"
    by (simp add: pool_inv_def)
next
  assume "grpcDispatchConcurrency \<le> n"
  with workers_started [of grpcDispatchConcurrency n G] all_waiting_stuck [OF assms, of "n - grpcDispatchConcurrency"]
  show "\<exists>s. reach (pool_init n) (pool_step G) s \<and> stuck G s" by blast
qed

theorem dispatch_pool_deadlock_witness:
  "(\<exists>s. reach (pool_init 9) (pool_step 2) s \<and> stuck 2 s) \<and> \<not> (\<exists>s. reach (pool_init 7) (pool_step 2) s \<and> stuck 2 s)"
  using dispatch_pool_deadlock [of 2 9] dispatch_pool_deadlock [of 2 7] by (simp add: grpcDispatchConcurrency_def)

end
