(* ===== verification/Registry_Query.thy ===== *)
theory Registry_Query
  imports Delivery
begin

text \<open>
  The queries of connection/query.go: loops over the registry with a filter, an accumulator or a grouping.

  \<^item> A context only names the envelope here.  A nil slice and an empty one are the same list.
  \<^item> A loop under the read lock of a shard is one fold; times are \<open>int option\<close>, the zero time is \<open>None\<close>.
\<close>

section \<open>Connections of one user\<close>

definition HasUserClient :: "(string \<Rightarrow> nat) \<Rightarrow> heap \<Rightarrow> 'md GoContext \<Rightarrow> string \<Rightarrow> ShardedRegistry \<Rightarrow> bool" where
  "HasUserClient sh H ctx userID r = HasUser sh H userID (AppIDFromContext ctx) (NamespaceFromContext ctx) r"

definition GetClientsByUserID :: "(string \<Rightarrow> nat) \<Rightarrow> heap \<Rightarrow> 'md GoContext \<Rightarrow> string \<Rightarrow> ShardedRegistry \<Rightarrow> nat list" where
  "GetClientsByUserID sh H ctx userID r =
     ForEachUserClientFiltered sh H userID (AppIDFromContext ctx) (NamespaceFromContext ctx) (\<lambda>_ p acc. (True, acc @ [p])) r []"

text \<open>The body of the three loops that look for the connection seen last.\<close>

definition seen_last :: "heap \<Rightarrow> nat \<Rightarrow> (nat \<times> int option) option \<Rightarrow> (nat \<times> int option) option" where
  "seen_last H p acc =
     (let seen = GetLastSeen (H p)
      in case acc of None \<Rightarrow> Some (p, seen) | Some (q, t) \<Rightarrow> if time_before t seen then Some (p, seen) else acc)"

definition findMostRecentClient :: "heap \<Rightarrow> (string, nat) gomap \<Rightarrow> nat option" where
  "findMostRecentClient H clientMap = map_option fst (fold (seen_last H) (gm_values clientMap) None)"

definition GetMostRecentClient :: "(string \<Rightarrow> nat) \<Rightarrow> heap \<Rightarrow> 'md GoContext \<Rightarrow> string \<Rightarrow> ShardedRegistry \<Rightarrow> nat option" where
  "GetMostRecentClient sh H ctx userID r =
     map_option fst (ForEachUserClientFiltered sh H userID (AppIDFromContext ctx) (NamespaceFromContext ctx)
       (\<lambda>_ p acc. (True, seen_last H p acc)) r None)"

definition GetUserStatus :: "(string \<Rightarrow> nat) \<Rightarrow> heap \<Rightarrow> 'md GoContext \<Rightarrow> string \<Rightarrow> ShardedRegistry \<Rightarrow> UserStatus" where
  "GetUserStatus sh H ctx userID r =
     (case ForEachUserClientFiltered sh H userID (AppIDFromContext ctx) (NamespaceFromContext ctx)
             (\<lambda>_ p acc. (True, seen_last H p acc)) r None of
        None \<Rightarrow> UserStatusOffline
      | Some (p, _) \<Rightarrow> Client_GetStatus (H p))"

definition GetClientIP :: "Client \<Rightarrow> string" where
  "GetClientIP c =
     (if cl_ClientIP c \<noteq> [] then cl_ClientIP c
      else case GetMetadataValue ''client_ip'' c of Some (AStr ip) \<Rightarrow> ip | _ \<Rightarrow> [])"

definition GetClientIPs :: "(string \<Rightarrow> nat) \<Rightarrow> heap \<Rightarrow> 'md GoContext \<Rightarrow> string \<Rightarrow> ShardedRegistry \<Rightarrow> string list" where
  "GetClientIPs sh H ctx userID r =
     (if GetUserClientCount sh userID r = 0 then []
      else ForEachUserClientFiltered sh H userID (AppIDFromContext ctx) (NamespaceFromContext ctx)
             (\<lambda>_ p ips. (True, if GetClientIP (H p) \<noteq> [] then ips @ [GetClientIP (H p)] else ips)) r [])"

definition GetClientsCopyForUser :: "(string \<Rightarrow> nat) \<Rightarrow> heap \<Rightarrow> 'md GoContext \<Rightarrow> string \<Rightarrow> string \<Rightarrow> ShardedRegistry \<Rightarrow> nat list" where
  "GetClientsCopyForUser sh H ctx userID clientID r =
     (if clientID \<noteq> [] then
        (case GetClient sh clientID r of
           None \<Rightarrow> []
         | Some p \<Rightarrow>
             if cl_UserID (H p) \<noteq> userID then []
             else if AppIDFromContext ctx \<noteq> [] \<and> \<not> ClientMatchesEnvelope (H p) (AppIDFromContext ctx) (NamespaceFromContext ctx) then []
             else [p])
      else ForEachUserClientFiltered sh H userID (AppIDFromContext ctx) (NamespaceFromContext ctx) (\<lambda>_ p acc. (True, acc @ [p])) r [])"

section \<open>Data of one connection\<close>

definition GetClientMetadata :: "(string \<Rightarrow> nat) \<Rightarrow> heap \<Rightarrow> string \<Rightarrow> string \<Rightarrow> ShardedRegistry \<Rightarrow> AnyVal option" where
  "GetClientMetadata sh H clientID key r =
     (case GetClient sh clientID r of None \<Rightarrow> None | Some p \<Rightarrow> GetMetadataValue key (H p))"

text \<open>\<open>None\<close> is the error \<open>ErrTypeClientNotFound\<close>.\<close>

definition UpdateClientMetadata :: "(string \<Rightarrow> nat) \<Rightarrow> string \<Rightarrow> string \<Rightarrow> AnyVal \<Rightarrow> ShardedRegistry \<Rightarrow> heap \<Rightarrow> heap option" where
  "UpdateClientMetadata sh clientID key v r H =
     (case GetClient sh clientID r of None \<Rightarrow> None | Some p \<Rightarrow> Some (H(p := SetMetadataValue key v (H p))))"

text \<open>\<open>time.Since\<close> of the zero time saturates.\<close>

definition time_since :: "int \<Rightarrow> int option \<Rightarrow> int" where
  "time_since now t = (case t of None \<Rightarrow> 2 ^ 63 - 1 | Some x \<Rightarrow> now - x)"

definition GetClientStats :: "(string \<Rightarrow> nat) \<Rightarrow> heap \<Rightarrow> int \<Rightarrow> string \<Rightarrow> ShardedRegistry \<Rightarrow> (nat \<times> int) option" where
  "GetClientStats sh H now clientID r =
     map_option (\<lambda>p. (p, time_since now (GetLastSeen (H p)))) (GetClient sh clientID r)"

section \<open>All connections\<close>

definition add_to_class :: "(Client \<Rightarrow> string) \<Rightarrow> heap \<Rightarrow> nat \<Rightarrow> (string, nat list) gomap \<Rightarrow> (string, nat list) gomap" where
  "add_to_class key H p m =
     AList.update (key (H p)) ((case map_of m (key (H p)) of None \<Rightarrow> [] | Some ps \<Rightarrow> ps) @ [p]) m"

definition GetClientsByDepartmentGrouped :: "heap \<Rightarrow> ShardedRegistry \<Rightarrow> (Department, nat list) gomap" where
  "GetClientsByDepartmentGrouped H r = ForEachClient (\<lambda>_ p m. (True, add_to_class cl_Department H p m)) r []"

definition GetClientsByUserTypeGrouped :: "heap \<Rightarrow> ShardedRegistry \<Rightarrow> (UserType, nat list) gomap" where
  "GetClientsByUserTypeGrouped H r = ForEachClient (\<lambda>_ p m. (True, add_to_class cl_UserType H p m)) r []"

definition GetClientsByStatusGrouped :: "heap \<Rightarrow> ShardedRegistry \<Rightarrow> (UserStatus, nat list) gomap" where
  "GetClientsByStatusGrouped H r = ForEachClient (\<lambda>_ p m. (True, add_to_class Client_GetStatus H p m)) r []"

definition FilterClients :: "heap \<Rightarrow> (Client \<Rightarrow> bool) option \<Rightarrow> ShardedRegistry \<Rightarrow> nat list" where
  "FilterClients H predicate r =
     (case predicate of
        None \<Rightarrow> []
      | Some pr \<Rightarrow> ForEachClient (\<lambda>_ p acc. (True, if pr (H p) then acc @ [p] else acc)) r [])"

definition GetClientsWithStatus :: "heap \<Rightarrow> UserStatus \<Rightarrow> ShardedRegistry \<Rightarrow> nat list" where
  "GetClientsWithStatus H status r = FilterClients H (Some (\<lambda>c. Client_GetStatus c = status)) r"

definition GetUserClientsCopy :: "heap \<Rightarrow> ShardedRegistry \<Rightarrow> nat list" where
  "GetUserClientsCopy H r =
     ForEachUser (\<lambda>_ clientMap acc. (True, case findMostRecentClient H clientMap of None \<Rightarrow> acc | Some p \<Rightarrow> acc @ [p])) r []"

definition users_of_type :: "heap \<Rightarrow> UserType \<Rightarrow> ShardedRegistry \<Rightarrow> string list" where
  "users_of_type H userType r =
     ForEachClient (\<lambda>_ p us. (True, if cl_UserType (H p) = userType \<and> cl_UserID (H p) \<notin> set us then us @ [cl_UserID (H p)] else us)) r []"

definition GetOnlineUserCountByType :: "heap \<Rightarrow> UserType \<Rightarrow> ShardedRegistry \<Rightarrow> int" where
  "GetOnlineUserCountByType H userType r = int (length (users_of_type H userType r))"

definition GetOnlineUsersByType :: "heap \<Rightarrow> UserType \<Rightarrow> ShardedRegistry \<Rightarrow> string list" where
  "GetOnlineUsersByType H userType r = users_of_type H userType r"

definition CopyClientsFromMap :: "(string, nat) gomap \<Rightarrow> nat list" where
  "CopyClientsFromMap clientMap = gm_values clientMap"

section \<open>Loops as folds\<close>

lemma each_client_fold: "ForEachClient (\<lambda>_ p st. (True, f p st)) r st = fold f (GetAllClients r) st"
  by (simp only: ForEachClient_def GetAllClients_def range_while_each_nested snd_conv)

lemma user_loop_fold:
  assumes "nested_ok sh (rg_userShards r)"
  shows "ForEachUserClientFiltered sh H u app ns (\<lambda>_ p st. (True, f p st)) r st =
    fold f (filter (\<lambda>p. app = [] \<or> ClientMatchesEnvelope (H p) app ns) (gm_values (sm_inner sh (rg_userShards r) u))) st"
proof (cases "app = []")
  case True
  then show ?thesis by (simp add: ForEachUserClientFiltered_def shard_values [OF assms] range_while_true)
next
  case False
  have "(\<lambda>(cid, p) st. if \<not> ClientMatchesEnvelope (H p) app ns then (True, st) else (True, f p st)) =
      (\<lambda>(cid :: string, p) st. if \<not> ClientMatchesEnvelope (H p) app ns then (True, st) else (True, f p st))" by simp
  with False show ?thesis by (simp add: ForEachUserClientFiltered_def shard_values [OF assms] range_while_cond)
qed

lemma fold_collect: "fold (\<lambda>p acc. acc @ [p]) ps acc = acc @ ps"
  by (induction ps arbitrary: acc) auto

lemma fold_collect_if: "fold (\<lambda>p acc. if Q p then acc @ [p] else acc) ps acc = acc @ filter Q ps"
  by (induction ps arbitrary: acc) auto

lemma seen_last_fold:
  assumes "fold (seen_last H) ps acc = Some (p, t)" and "\<forall>q t'. acc = Some (q, t') \<longrightarrow> t' = GetLastSeen (H q)"
  shows "t = GetLastSeen (H p) \<and> (p \<in> set ps \<or> acc = Some (p, t)) \<and>
    (\<forall>q \<in> set ps. \<not> time_before t (GetLastSeen (H q))) \<and> (\<forall>q t'. acc = Some (q, t') \<longrightarrow> \<not> time_before t t')"
  using assms
proof (induction ps arbitrary: acc)
  case (Cons x ps)
  have ok: "\<forall>q t'. seen_last H x acc = Some (q, t') \<longrightarrow> t' = GetLastSeen (H q)"
    using Cons.prems(2) by (auto simp: seen_last_def Let_def split: option.splits if_splits)
  have "fold (seen_last H) ps (seen_last H x acc) = Some (p, t)" using Cons.prems(1) by simp
  note ih = Cons.IH [OF this ok]
  show ?case
  proof (cases acc)
    case None
    with ih show ?thesis by (auto simp: seen_last_def Let_def)
  next
    case (Some a)
    obtain q t' where a: "a = (q, t')" by fastforce
    show ?thesis
    proof (cases "time_before t' (GetLastSeen (H x))")
      case True
      then have step: "seen_last H x acc = Some (x, GetLastSeen (H x))" by (simp add: Some a seen_last_def Let_def)
      have "\<not> time_before t (GetLastSeen (H x))" using ih step by blast
      then have "\<not> time_before t t'" using True by (auto simp: time_before_def split: option.splits)
      with ih step show ?thesis by (auto simp: Some a)
    next
      case False
      then have step: "seen_last H x acc = acc" by (simp add: Some a seen_last_def Let_def)
      have "\<not> time_before t (GetLastSeen (H x))" using ih step False by (auto simp: Some a time_before_def split: option.splits)
      with ih step show ?thesis by auto
    qed
  qed
qed auto

lemma seen_last_None: "fold (seen_last H) ps acc = None \<longleftrightarrow> ps = [] \<and> acc = None"
  by (induction ps arbitrary: acc) (auto simp: seen_last_def Let_def split: option.splits)

lemma seen_last_pick:
  "case map_option fst (fold (seen_last H) ps None) of
     None \<Rightarrow> ps = []
   | Some p \<Rightarrow> p \<in> set ps \<and> (\<forall>q \<in> set ps. \<not> time_before (GetLastSeen (H p)) (GetLastSeen (H q)))"
  using seen_last_fold [of H ps None] seen_last_None [of H ps None] by (cases "fold (seen_last H) ps None") auto

lemma class_fold:
  "map_of (fold (add_to_class key H) ps m) k =
     (let new = filter (\<lambda>p. key (H p) = k) ps
      in case map_of m k of None \<Rightarrow> if new = [] then None else Some new | Some old \<Rightarrow> Some (old @ new))"
  by (induction ps arbitrary: m) (auto simp: add_to_class_def map_of_update Let_def split: option.splits)

lemma type_fold:
  "set (fold (\<lambda>p us. if P p \<and> u p \<notin> set us then us @ [u p] else us) ps us) = set us \<union> u ` {p \<in> set ps. P p} \<and>
   (distinct us \<longrightarrow> distinct (fold (\<lambda>p us. if P p \<and> u p \<notin> set us then us @ [u p] else us) ps us))"
  by (induction ps arbitrary: us) auto

lemma registered_client_heap:
  assumes inv: "rg_inv sh H r" and h: "hash_ok sh"
  shows "GetClient sh i r = Some p \<longleftrightarrow> p \<in> set (GetAllClients r) \<and> cl_ID (H p) = i"
proof -
  have own: "cl_ID (H p) = c" if "map_of (sm_inner sh (rg_userShards r) u) c = Some p" for u c
    using users_ok_ident [OF rg_invD(1) [OF inv] that] by blast
  show ?thesis
  proof
    assume "GetClient sh i r = Some p"
    then obtain u where u: "map_of (sm_inner sh (rg_userShards r) u) i = Some p" using get_client_iff [OF inv] by blast
    then have "p \<in> set (GetAllClients r)" using user_clients_iff [OF rg_invD(1) [OF inv] h, of u p] by blast
    with own [OF u] show "p \<in> set (GetAllClients r) \<and> cl_ID (H p) = i" by blast
  next
    assume a: "p \<in> set (GetAllClients r) \<and> cl_ID (H p) = i"
    then obtain c where c: "map_of (sm_inner sh (rg_userShards r) (cl_UserID (H p))) c = Some p"
      using user_clients_iff [OF rg_invD(1) [OF inv] h, of "cl_UserID (H p)" p] by blast
    with own [OF c] a get_client_iff [OF inv, of i p] show "GetClient sh i r = Some p" by blast
  qed
qed

text \<open>One connection of every user.\<close>

lemma recent_per_user:
  assumes U: "users_ok sh H (rg_userShards r)" and hash: "hash_ok sh"
  shows "map (\<lambda>p. cl_UserID (H p)) (GetUserClientsCopy H r) = GetOnlineUserIDs r \<and>
    (\<forall>p \<in> set (GetUserClientsCopy H r). p \<in> set (GetAllClients r) \<and>
       (\<forall>q \<in> set (GetAllClients r). cl_UserID (H q) = cl_UserID (H p) \<longrightarrow> \<not> time_before (GetLastSeen (H p)) (GetLastSeen (H q))))"
proof -
  let ?m = "sm_range defaultShardCount (rg_userShards r)"
  have entry: "cm \<noteq> [] \<and> cm = sm_inner sh (rg_userShards r) u" if "(u, cm) \<in> set ?m" for u cm
    using that sm_range_inner [OF users_ok_nested [OF U], of defaultShardCount] hash by auto
  have pick: "\<exists>p. findMostRecentClient H cm = Some p \<and> cl_UserID (H p) = u \<and> p \<in> set (GetAllClients r) \<and>
      (\<forall>q \<in> set (GetAllClients r). cl_UserID (H q) = u \<longrightarrow> \<not> time_before (GetLastSeen (H p)) (GetLastSeen (H q)))" if "(u, cm) \<in> set ?m" for u cm
    using entry [OF that] seen_last_pick [of "gm_values cm" H] user_values [OF U hash, of u]
    by (auto simp: findMostRecentClient_def gm_values_def split: option.splits)
  define best where "best = (\<lambda>x :: string \<times> (string, nat) gomap. the (findMostRecentClient H (snd x)))"
  have best: "findMostRecentClient H cm = Some (best (u, cm))" "cl_UserID (H (best (u, cm))) = u" "best (u, cm) \<in> set (GetAllClients r)"
    "\<forall>q \<in> set (GetAllClients r). cl_UserID (H q) = u \<longrightarrow> \<not> time_before (GetLastSeen (H (best (u, cm)))) (GetLastSeen (H q))"
    if "(u, cm) \<in> set ?m" for u cm using pick [OF that] by (auto simp: best_def)
  have loop: "snd (range_while (\<lambda>(u, cm) acc. (True, case findMostRecentClient H cm of None \<Rightarrow> acc | Some p \<Rightarrow> acc @ [p])) m acc) = acc @ map best m"
    if "set m \<subseteq> set ?m" for m acc
    using that by (induction m arbitrary: acc) (auto simp: best(1))
  have copy: "GetUserClientsCopy H r = map best ?m" using loop [of ?m "[]"] by (simp add: GetUserClientsCopy_def ForEachUser_def)
  have "map (\<lambda>p. cl_UserID (H p)) (map best ?m) = map fst ?m" using best(2) by auto
  then show ?thesis using best(3,4) unfolding copy by (auto simp: GetOnlineUserIDs_def sm_keys_def best(2))
qed

section \<open>Properties\<close>

lemma app_never_empty [simp]: "AppIDFromContext ctx \<noteq> []"
  by (auto simp: AppIDFromContext_def DefaultAppID_def split: option.split)

text \<open>The queries about one user see exactly his connections inside the envelope of the context: the list of them, the addresses
  among them, one that was seen last, and his status, which is that of such a connection or offline when there is none.\<close>

theorem user_queries_exact:
  assumes hash: "hash_ok sh" and reach: "reach rg_init (rg_step sh) (H, r)"
    and ps: "ps = {p \<in> set (GetAllClients r). cl_UserID (H p) = u \<and> ClientMatchesEnvelope (H p) (AppIDFromContext ctx) (NamespaceFromContext ctx)}"
  shows "set (GetClientsByUserID sh H ctx u r) = ps \<and> distinct (GetClientsByUserID sh H ctx u r) \<and>
    (HasUserClient sh H ctx u r \<longleftrightarrow> ps \<noteq> {}) \<and>
    set (GetClientIPs sh H ctx u r) = {GetClientIP (H p) | p. p \<in> ps \<and> GetClientIP (H p) \<noteq> []} \<and>
    set (GetClientsCopyForUser sh H ctx u cid r) = {p \<in> ps. cid = [] \<or> cl_ID (H p) = cid} \<and>
    (case GetMostRecentClient sh H ctx u r of
       None \<Rightarrow> ps = {} \<and> GetUserStatus sh H ctx u r = UserStatusOffline
     | Some p \<Rightarrow> p \<in> ps \<and> (\<forall>q \<in> ps. \<not> time_before (GetLastSeen (H p)) (GetLastSeen (H q))) \<and>
         GetUserStatus sh H ctx u r = Client_GetStatus (H p))"
proof -
  have inv: "rg_inv sh H r" using reach_rg_inv [OF hash reach] .
  note U = rg_invD(1) [OF inv] and nest = users_ok_nested [OF rg_invD(1) [OF inv]]
  let ?vals = "gm_values (sm_inner sh (rg_userShards r) u)"
  let ?qs = "filter (\<lambda>p. AppIDFromContext ctx = [] \<or> ClientMatchesEnvelope (H p) (AppIDFromContext ctx) (NamespaceFromContext ctx)) ?vals"
  note loop = user_loop_fold [OF nest, of H u "AppIDFromContext ctx" "NamespaceFromContext ctx"]
  have qs: "set ?qs = ps" using user_values [OF U hash, of u] by (auto simp: ps)
  have d: "distinct ?qs" using distinct_user_values [OF U, of u] by simp
  have byid: "GetClientsByUserID sh H ctx u r = ?qs" by (simp add: GetClientsByUserID_def loop fold_collect)
  have ips: "fold (\<lambda>p ips. if GetClientIP (H p) \<noteq> [] then ips @ [GetClientIP (H p)] else ips) zs acc =
      acc @ map (\<lambda>p. GetClientIP (H p)) (filter (\<lambda>p. GetClientIP (H p) \<noteq> []) zs)" for zs acc
    by (induction zs arbitrary: acc) auto
  have "?vals = [] \<longleftrightarrow> GetUserClientCount sh u r = 0"
    by (auto simp: GetUserClientCount_def shard_user_eq [OF nest] gm_values_def)
  then have "set (GetClientIPs sh H ctx u r) = {GetClientIP (H p) | p. p \<in> set ?qs \<and> GetClientIP (H p) \<noteq> []}"
    by (auto simp: GetClientIPs_def loop ips)
  then have "set (GetClientIPs sh H ctx u r) = {GetClientIP (H p) | p. p \<in> ps \<and> GetClientIP (H p) \<noteq> []}" unfolding qs .
  moreover have "HasUserClient sh H ctx u r \<longleftrightarrow> ps \<noteq> {}"
    using qs by (auto simp: HasUserClient_def HasUser_def shard_user_eq [OF nest] list_ex_iff gm_values_def)
  moreover have "set (GetClientsCopyForUser sh H ctx u cid r) = {p \<in> ps. cid = [] \<or> cl_ID (H p) = cid}"
  proof (cases "cid = []")
    case True
    then show ?thesis using qs by (simp add: GetClientsCopyForUser_def loop fold_collect)
  next
    case False
    note reg = registered_client_heap [OF inv hash, of cid]
    show ?thesis
    proof (cases "GetClient sh cid r")
      case None
      then show ?thesis using False reg by (auto simp: GetClientsCopyForUser_def ps)
    next
      case (Some q)
      have "x = q" if "x \<in> set (GetAllClients r)" "cl_ID (H x) = cid" for x using reg [of x] that Some by simp
      moreover have "cl_ID (H q) = cid" using reg [of q] Some by simp
      ultimately have "{p \<in> ps. cl_ID (H p) = cid} = {p \<in> ps. p = q}" by (auto simp: ps)
      then show ?thesis using False Some reg [of q] by (auto simp: GetClientsCopyForUser_def ps)
    qed
  qed
  moreover have "case GetMostRecentClient sh H ctx u r of
       None \<Rightarrow> ps = {} \<and> GetUserStatus sh H ctx u r = UserStatusOffline
     | Some p \<Rightarrow> p \<in> ps \<and> (\<forall>q \<in> ps. \<not> time_before (GetLastSeen (H p)) (GetLastSeen (H q))) \<and>
         GetUserStatus sh H ctx u r = Client_GetStatus (H p)"
    using seen_last_pick [of ?qs H] qs
    by (cases "fold (seen_last H) ?qs None") (auto simp: GetMostRecentClient_def GetUserStatus_def loop filter_empty_conv)
  moreover have "set (GetClientsByUserID sh H ctx u r) = ps" "distinct (GetClientsByUserID sh H ctx u r)" using qs d unfolding byid by simp_all
  ultimately show ?thesis by blast
qed

theorem user_queries_exact_witness:
  "set (GetClientsByUserID demo_sh demo_heap demo_ctx ''u1'' demo_r2) = {0} \<and> GetMostRecentClient demo_sh demo_heap demo_ctx ''u1'' demo_r2 = Some 0 \<and>
   GetMostRecentClient demo_sh demo_heap demo_ctx ''nobody'' demo_r2 = None"
proof -
  have set_eq: "{p \<in> set (GetAllClients demo_r2). cl_UserID (demo_heap p) = u \<and> ClientMatchesEnvelope (demo_heap p) (AppIDFromContext demo_ctx) (NamespaceFromContext demo_ctx)} =
      set (filter (\<lambda>p. cl_UserID (demo_heap p) = u \<and> ClientMatchesEnvelope (demo_heap p) (AppIDFromContext demo_ctx) (NamespaceFromContext demo_ctx)) [0, 1])" for u
    unfolding set_filter by (simp add: demo_all)
  have u1: "{p \<in> set (GetAllClients demo_r2). cl_UserID (demo_heap p) = ''u1'' \<and> ClientMatchesEnvelope (demo_heap p) (AppIDFromContext demo_ctx) (NamespaceFromContext demo_ctx)} = {0}"
    and no: "{p \<in> set (GetAllClients demo_r2). cl_UserID (demo_heap p) = ''nobody'' \<and> ClientMatchesEnvelope (demo_heap p) (AppIDFromContext demo_ctx) (NamespaceFromContext demo_ctx)} = {}"
    unfolding set_eq by (simp_all add: demo_heap_def NewClient_def ClientMatchesEnvelope_def demo_ctx_def AppIDFromContext_def NamespaceFromContext_def
        RoutingFromContext_def DefaultAppID_def NormalizeAppID_def)
  note q = user_queries_exact [OF demo_hash demo_reach2, where ctx = demo_ctx and cid = "[]", OF refl]
  show ?thesis using q [of "''u1''"] q [of "''nobody''"] unfolding u1 no by (auto split: option.splits)
qed

text \<open>The queries about all connections: each grouping files every connection under exactly its key, in the order of the registry,
  and has no other entries; the filter is a filter; of every user who is online exactly one connection is returned, one that was
  seen last; and the users of a type are those with a connection of that type, each once.\<close>

theorem class_queries_exact:
  assumes hash: "hash_ok sh" and reach: "reach rg_init (rg_step sh) (H, r)"
  shows "(\<forall>k. map_of (GetClientsByDepartmentGrouped H r) k =
        (let ps = FilterClients H (Some (\<lambda>c. cl_Department c = k)) r in if ps = [] then None else Some ps)) \<and>
    (\<forall>k. map_of (GetClientsByUserTypeGrouped H r) k =
        (let ps = FilterClients H (Some (\<lambda>c. cl_UserType c = k)) r in if ps = [] then None else Some ps)) \<and>
    (\<forall>k. map_of (GetClientsByStatusGrouped H r) k = (let ps = GetClientsWithStatus H k r in if ps = [] then None else Some ps)) \<and>
    FilterClients H (Some pr) r = filter (\<lambda>p. pr (H p)) (GetAllClients r) \<and>
    distinct (GetOnlineUsersByType H ty r) \<and> GetOnlineUserCountByType H ty r = int (card (set (GetOnlineUsersByType H ty r))) \<and>
    set (GetOnlineUsersByType H ty r) = {cl_UserID (H p) | p. p \<in> set (GetAllClients r) \<and> cl_UserType (H p) = ty} \<and>
    map (\<lambda>p. cl_UserID (H p)) (GetUserClientsCopy H r) = GetOnlineUserIDs r \<and>
    (\<forall>p \<in> set (GetUserClientsCopy H r). p \<in> set (GetAllClients r) \<and>
       (\<forall>q \<in> set (GetAllClients r). cl_UserID (H q) = cl_UserID (H p) \<longrightarrow> \<not> time_before (GetLastSeen (H p)) (GetLastSeen (H q))))"
proof -
  have inv: "rg_inv sh H r" using reach_rg_inv [OF hash reach] .
  note U = rg_invD(1) [OF inv] and nest = users_ok_nested [OF rg_invD(1) [OF inv]]
  have filter: "FilterClients H (Some pr) r = filter (\<lambda>p. pr (H p)) (GetAllClients r)" for pr
    by (simp add: FilterClients_def each_client_fold fold_collect_if)
  have types: "distinct (users_of_type H ty r)" "set (users_of_type H ty r) = {cl_UserID (H p) | p. p \<in> set (GetAllClients r) \<and> cl_UserType (H p) = ty}"
    using type_fold [of "\<lambda>p. cl_UserType (H p) = ty" "\<lambda>p. cl_UserID (H p)" "GetAllClients r" "[]"]
    by (auto simp: users_of_type_def each_client_fold)
  note copy = recent_per_user [OF U hash]
  show ?thesis
    using types copy distinct_card [OF types(1)]
    by (simp add: filter GetClientsByDepartmentGrouped_def GetClientsByUserTypeGrouped_def GetClientsByStatusGrouped_def GetClientsWithStatus_def
        each_client_fold class_fold GetOnlineUsersByType_def GetOnlineUserCountByType_def)
qed

theorem class_queries_exact_witness:
  "map_of (GetClientsByUserTypeGrouped demo_heap demo_r2) UserTypeObserver = Some [1] \<and> FilterClients demo_heap (Some (\<lambda>c. cl_UserID c = ''u1'')) demo_r2 = [0]"
proof -
  note q = class_queries_exact [OF demo_hash demo_reach2]
  have "FilterClients demo_heap (Some pr) demo_r2 = filter (\<lambda>p. pr (demo_heap p)) [0, 1]" for pr using q [of pr] by (simp add: demo_all)
  moreover have "map_of (GetClientsByUserTypeGrouped demo_heap demo_r2) UserTypeObserver =
      (let ps = FilterClients demo_heap (Some (\<lambda>c. cl_UserType c = UserTypeObserver)) demo_r2 in if ps = [] then None else Some ps)"
    using q [of "\<lambda>_. True"] by blast
  ultimately show ?thesis by (simp add: demo_heap_def NewClient_def)
qed

end
