(* ===== verification/Receive.thy ===== *)
theory Receive
  imports Cluster Member_Cache Registry_Query
begin

text \<open>
  What a node does with messages of other nodes: the subscriptions and handlers of hub/distributed.go, and the part of
  hub/self_heal.go that runs on the receiving node.

  \<^item> \<open>Receiver\<close> adds to \<open>Cluster\<close> the cache of group members and the clean-ups of the online index that were started in
    goroutines of their own.
  \<^item> \<open>RecvEnv\<close> holds what the handlers call outside: the index of who is online (\<open>re_clients\<close>, \<open>re_offline\<close>, \<open>re_owner\<close>),
    the two codecs, and the operations the other theories take as arguments.  \<open>re_cancelled k\<close> says whether the context is
    done at its \<open>k\<close>-th look.
  \<^item> Observers are told in parallel, each through its own channel; here they are visited in order.
\<close>

declare map_of_eq_Some_iff [simp del]

section \<open>State\<close>

record 'w Receiver =
  rv_cluster :: "'w Cluster"
  rv_groups :: "GroupMemberCache option"
  rv_heals :: "(string \<times> string \<times> string) list"

record ('w, 'md) RecvEnv =
  re_sh :: "string \<Rightarrow> nat"
  re_enc :: "HubMessage \<Rightarrow> frame option"
  re_marshal :: "DataHeap \<Rightarrow> HubMessage \<Rightarrow> string option"
  re_tr :: "'md GoContext \<Rightarrow> string"
  re_withTrace :: "'md GoContext \<Rightarrow> string \<Rightarrow> 'md GoContext"
  re_hostctx :: "'md GoContext"
  re_newID :: "string option"
  re_order :: "string list \<Rightarrow> string list"
  re_cancelled :: "nat \<Rightarrow> bool"
  re_movedText :: string
  re_fuel :: nat
  re_net :: "'w Net"
  re_clients :: "string \<Rightarrow> string \<Rightarrow> string \<Rightarrow> 'w \<Rightarrow> Client option list option \<times> 'w"
  re_offline :: "Client list \<Rightarrow> 'w \<Rightarrow> bool \<times> 'w"
  re_owner :: "string \<Rightarrow> 'w \<Rightarrow> string option \<times> 'w"
  re_pb_decode :: "string \<Rightarrow> DistributedMessage option"
  re_json_decode :: "string \<Rightarrow> DistributedMessage option"
  re_pb_encode :: "DistributedMessage \<Rightarrow> string option"
  re_json_encode :: "DistributedMessage \<Rightarrow> string option"

datatype receive_error = NotSubscribed | Malformed | NilMessage | MissingMessage | MarshalFailed | NoClient | GroupIDsEmpty | ContextCancelled
  | UnknownType | Panicked

abbreviation rv_node :: "'w Receiver \<Rightarrow> Node" where
  "rv_node r \<equiv> hb_node (ct_hub (rv_cluster r))"

definition on_cluster :: "('w Cluster \<Rightarrow> 'w Cluster) \<Rightarrow> 'w Receiver \<Rightarrow> 'w Receiver" where
  "on_cluster f r = r\<lparr>rv_cluster := f (rv_cluster r)\<rparr>"

definition put_node :: "Node \<Rightarrow> 'w Receiver \<Rightarrow> 'w Receiver" where
  "put_node s = on_cluster (on_hub (\<lambda>h. h\<lparr>hb_node := s\<rparr>))"

definition on_conn :: "(ConnState \<Rightarrow> ConnState) \<Rightarrow> 'w Receiver \<Rightarrow> 'w Receiver" where
  "on_conn f r = put_node ((rv_node r)\<lparr>nd_conn := f (nd_conn (rv_node r))\<rparr>) r"

text \<open>An empty list of groups does not travel: it arrives as a nil slice.\<close>

definition wire_slice :: "string list \<Rightarrow> GoSlice" where
  "wire_slice gids = (if gids = [] then None else Some gids)"

section \<open>Codec\<close>

definition unmarshalDistributedMessage :: "('w, 'md) RecvEnv \<Rightarrow> string \<Rightarrow> DistributedMessage option" where
  "unmarshalDistributedMessage env data =
     (case re_pb_decode env data of Some dm \<Rightarrow> Some dm | None \<Rightarrow> re_json_decode env data)"

definition marshalDistributedMessage :: "('w, 'md) RecvEnv \<Rightarrow> DistributedMessage \<Rightarrow> string" where
  "marshalDistributedMessage env dm =
     (case re_pb_encode env dm of
        Some data \<Rightarrow> data
      | None \<Rightarrow> (case re_json_encode env dm of Some data \<Rightarrow> data | None \<Rightarrow> []))"

definition dispatch_ContextFrom :: "('md GoContext \<Rightarrow> string \<Rightarrow> 'md GoContext) \<Rightarrow> 'md GoContext \<Rightarrow> DistributedMessage \<Rightarrow> 'md GoContext" where
  "dispatch_ContextFrom withTrace parent dm = (if dm_TraceID dm = [] then parent else withTrace parent (dm_TraceID dm))"

section \<open>The user is not here\<close>

definition selfHealDeadIndexEntries :: "string \<Rightarrow> string \<Rightarrow> string \<Rightarrow> 'w Receiver \<Rightarrow> 'w Receiver" where
  "selfHealDeadIndexEntries userID appID namespace r =
     (if \<not> ct_index (rv_cluster r) \<or> userID = [] then r
      else r\<lparr>rv_heals := rv_heals r @ [(userID, appID, namespace)]\<rparr>)"

text \<open>The goroutine: the entries of this node, unless the user has come back in the meantime.\<close>

definition dead_clients :: "string \<Rightarrow> Client option list \<Rightarrow> Client list" where
  "dead_clients nodeID clients = filter (\<lambda>c. cl_NodeID c = nodeID) (List.map_filter id clients)"

definition doSelfHealDeadIndexEntries :: "('w, 'md) RecvEnv \<Rightarrow> string \<Rightarrow> string \<Rightarrow> string \<Rightarrow> 'w Receiver \<Rightarrow> 'w Receiver" where
  "doSelfHealDeadIndexEntries env userID appID namespace r =
     (case outside (re_clients env (NormalizeAppID appID) namespace userID) (rv_cluster r) of
        (None, c) \<Rightarrow> r\<lparr>rv_cluster := c\<rparr>
      | (Some clients, c) \<Rightarrow>
          let r = r\<lparr>rv_cluster := c\<rparr>; s = rv_node r; deadClients = dead_clients (ct_nodeID c) clients
          in if HasUser (re_sh env) (cs_heap (nd_conn s)) userID appID namespace (reg_of s) then r
             else if deadClients = [] then r
             else on_cluster (\<lambda>c. snd (outside (re_offline env deadClients) c)) r)"

definition user_not_found_reply :: "('md GoContext \<Rightarrow> string) \<Rightarrow> 'md GoContext \<Rightarrow> int \<Rightarrow> string \<Rightarrow> DistributedMessage \<Rightarrow> DistributedMessage" where
  "user_not_found_reply tr ctx now nodeID dm =
     dispatch_InjectContext tr ctx
       \<lparr>dm_Type = OperationTypeUserNotFound, dm_NodeID = nodeID, dm_TargetID = dm_TargetID dm, dm_TraceID = [], dm_Message = dm_Message dm,
        dm_Reason = ''target_user_not_on_node'', dm_Timestamp = now, dm_AppID = dm_AppID dm, dm_Namespace = dm_Namespace dm,
        dm_GroupIDs = [], dm_ExcludeSender = False, dm_SenderID = []\<rparr>"

definition replyUserNotFound :: "('w, 'md) RecvEnv \<Rightarrow> 'md GoContext \<Rightarrow> int \<Rightarrow> DistributedMessage \<Rightarrow> 'w Receiver \<Rightarrow> 'w Receiver" where
  "replyUserNotFound env ctx now dm r =
     (let c = rv_cluster r
      in if \<not> ct_pubsub c \<or> dm_NodeID dm = [] \<or> dm_NodeID dm = ct_nodeID c then r
         else on_cluster (\<lambda>c. snd (publishToTargetedNodes (re_net env) (user_not_found_reply (re_tr env) ctx now (ct_nodeID c) dm)
                [dm_NodeID dm] c)) r)"

section \<open>Handlers\<close>

definition outer_app :: "DistributedMessage \<Rightarrow> HubMessage \<Rightarrow> string" where
  "outer_app dm msg = NormalizeAppID (if dm_AppID dm = [] then hm_AppID msg else dm_AppID dm)"

definition outer_namespace :: "DistributedMessage \<Rightarrow> HubMessage \<Rightarrow> string" where
  "outer_namespace dm msg = (if dm_Namespace dm = [] then hm_Namespace msg else dm_Namespace dm)"

text \<open>The body of the loop over the devices; it stops when the context is done.\<close>

definition receive_one :: "('w, 'md) RecvEnv \<Rightarrow> int \<Rightarrow> HubMessage \<Rightarrow> frame \<Rightarrow> nat \<Rightarrow> nat \<times> int \<times> Node \<Rightarrow> bool \<times> nat \<times> int \<times> Node" where
  "receive_one env now msg data p st =
     (case st of (k, n, s) \<Rightarrow>
        case SendToClientSerialized (re_enc env) now p msg (Some data) s of
          (ok, s) \<Rightarrow> (\<not> re_cancelled env k, Suc k, if ok then n + 1 else n, s))"

definition receive_devices :: "('w, 'md) RecvEnv \<Rightarrow> int \<Rightarrow> string \<Rightarrow> string \<Rightarrow> string \<Rightarrow> HubMessage \<Rightarrow> frame \<Rightarrow> Node \<Rightarrow> int \<times> Node" where
  "receive_devices env now userID appID namespace msg data s =
     snd (ForEachUserClientFiltered (re_sh env) (cs_heap (nd_conn s)) userID appID namespace
            (\<lambda>_. receive_one env now msg data) (reg_of s) (0, 0, s))"

definition handleDistributedSendMessage :: "('w, 'md) RecvEnv \<Rightarrow> 'md GoContext \<Rightarrow> int \<Rightarrow> DistributedMessage \<Rightarrow> bool \<Rightarrow> 'w Receiver
    \<Rightarrow> receive_error option \<times> 'w Receiver" where
  "handleDistributedSendMessage env ctx now dm targeted r =
     (case dm_Message dm of
        None \<Rightarrow> (Some MissingMessage, r)
      | Some msg \<Rightarrow>
          let appID = outer_app dm msg; namespace = outer_namespace dm msg; s = rv_node r
          in if \<not> HasUser (re_sh env) (cs_heap (nd_conn s)) (dm_TargetID dm) appID namespace (reg_of s) then
               (None, if targeted then replyUserNotFound env ctx now dm (selfHealDeadIndexEntries (dm_TargetID dm) appID namespace r) else r)
             else case re_enc env msg of
                    None \<Rightarrow> (Some MarshalFailed, r)
                  | Some data \<Rightarrow>
                      (case receive_devices env now (dm_TargetID dm) appID namespace msg data s of
                         (successCount, s) \<Rightarrow>
                           let r = put_node s r
                           in if successCount = 0 then (Some NoClient, r)
                              else (None, on_cluster (on_hub (NotifyObservers
                                     (Inject (Route_WithGroupIDs (wire_slice (dm_GroupIDs dm)) (Route_WithNamespace (dm_Namespace dm)
                                        (Route_WithAppID (dm_AppID dm) NewRoute))) ctx) msg)) r)))"

definition handleDistributedUserNotFound :: "('w, 'md) RecvEnv \<Rightarrow> 'md GoContext \<Rightarrow> int \<Rightarrow> DistributedMessage \<Rightarrow> 'w Receiver
    \<Rightarrow> (receive_error option \<times> 'w Receiver) option" where
  "handleDistributedUserNotFound env ctx now dm r =
     (case dm_Message dm of
        None \<Rightarrow> Some (Some MissingMessage, r)
      | Some msg \<Rightarrow>
          if dm_TargetID dm = [] \<or> hm_MessageID msg = [] then Some (None, r)
          else case decideUserNotFoundReroute (routeToCluster (re_fuel env) (re_net env) (re_tr env) ctx now msg) (re_net env) now msg
                      (dm_TargetID dm) (dm_NodeID dm) (outer_app dm msg) (outer_namespace dm msg) (rv_cluster r) of
                 None \<Rightarrow> None
               | Some (_, c) \<Rightarrow> Some (None, r\<lparr>rv_cluster := c\<rparr>))"

definition handleDistributedKickUser :: "('w, 'md) RecvEnv \<Rightarrow> 'md GoContext \<Rightarrow> int \<Rightarrow> DistributedMessage \<Rightarrow> 'w Receiver
    \<Rightarrow> receive_error option \<times> 'w Receiver" where
  "handleDistributedKickUser env ctx now dm r =
     (if re_cancelled env 0 then (Some ContextCancelled, r)
      else let ctx = Inject (Route_WithNamespace (dm_Namespace dm) (Route_WithAppID (NormalizeAppID (dm_AppID dm)) NewRoute)) ctx
           in (None, on_conn (\<lambda>s. snd (KickUser (re_sh env) (AppIDFromContext ctx, NamespaceFromContext ctx) now 0 [] (dm_TargetID dm)
                 (dm_Reason dm) False [] s)) r))"

definition handleDistributedBroadcast :: "('w, 'md) RecvEnv \<Rightarrow> 'md GoContext \<Rightarrow> int \<Rightarrow> DistributedMessage \<Rightarrow> 'w Receiver
    \<Rightarrow> receive_error option \<times> 'w Receiver" where
  "handleDistributedBroadcast env ctx now dm r =
     (case dm_Message dm of
        None \<Rightarrow> (Some MissingMessage, r)
      | Some msg \<Rightarrow>
          (None, on_cluster (on_hub (\<lambda>h.
             if dm_Namespace dm = []
             then HandleBroadcastMessage (re_enc env) (re_tr env) (re_hostctx env) (re_newID env) now ctx msg h
             else snd (BroadcastToNamespace (re_sh env) (re_enc env) (re_tr env) (re_order env) now ctx (dm_Namespace dm) msg h))) r))"

definition handleDistributedGroupsBroadcast :: "('w, 'md) RecvEnv \<Rightarrow> 'md GoContext \<Rightarrow> int \<Rightarrow> DistributedMessage \<Rightarrow> 'w Receiver
    \<Rightarrow> receive_error option \<times> 'w Receiver" where
  "handleDistributedGroupsBroadcast env ctx now dm r =
     (if dm_NodeID dm = ct_nodeID (rv_cluster r) then (None, r)
      else case dm_Message dm of
             None \<Rightarrow> (Some MissingMessage, r)
           | Some msg \<Rightarrow>
               let groupIDs = (if dm_GroupIDs dm = [] \<and> dm_TargetID dm \<noteq> [] then [dm_TargetID dm] else dm_GroupIDs dm)
               in if groupIDs = [] then (Some GroupIDsEmpty, r)
                  else let localMembers = GetLocalGroupMembers (re_sh env) (NormalizeAppID (dm_AppID dm)) groupIDs (reg_of (rv_node r));
                           members = (if dm_ExcludeSender dm \<and> dm_SenderID dm \<noteq> [] then filter (\<lambda>u. u \<noteq> dm_SenderID dm) localMembers
                                      else localMembers)
                       in (None, if members = [] then r
                                 else on_cluster (on_hub (\<lambda>h. snd (BroadcastToUserIDs (re_sh env) (re_enc env) (re_tr env) (re_order env) now ctx
                                        members msg h))) r))"

definition handleDistributedGroupInvalidate :: "DistributedMessage \<Rightarrow> 'w Receiver \<Rightarrow> receive_error option \<times> 'w Receiver" where
  "handleDistributedGroupInvalidate dm r =
     (None, case rv_groups r of
              None \<Rightarrow> r
            | Some store \<Rightarrow> r\<lparr>rv_groups := Some (fold (InvalidateTopology (dm_AppID dm)) (dm_GroupIDs dm) store)\<rparr>)"

definition notify_observer :: "HubMessage \<Rightarrow> string \<Rightarrow> nat \<Rightarrow> int \<times> Node \<Rightarrow> int \<times> Node" where
  "notify_observer observerMsg msgData p st =
     (case st of (n, s) \<Rightarrow>
        case client_try p (if is_sse (client_at s p) then TrySendSSE observerMsg else TrySend msgData) s of
          (ok, s) \<Rightarrow> (if ok then n + 1 else n, s))"

definition notifyObserverClients :: "('w, 'md) RecvEnv \<Rightarrow> nat list \<Rightarrow> HubMessage \<Rightarrow> Node \<Rightarrow> (int \<times> Node) option" where
  "notifyObserverClients env observers msg s =
     (if observers = [] then Some (0, s)
      else case ObserverCopy (re_marshal env) (cs_data (nd_conn s)) msg of
             None \<Rightarrow> None
           | Some (h, copy) \<Rightarrow>
               let s = s\<lparr>nd_conn := (nd_conn s)\<lparr>cs_data := h\<rparr>\<rparr>
               in case copy of
                    None \<Rightarrow> Some (0, s)
                  | Some (observerMsg, msgData) \<Rightarrow> Some (fold (notify_observer observerMsg msgData) observers (0, s)))"

definition handleDistributedObserverNotify :: "('w, 'md) RecvEnv \<Rightarrow> DistributedMessage \<Rightarrow> 'w Receiver \<Rightarrow> receive_error option \<times> 'w Receiver" where
  "handleDistributedObserverNotify env dm r =
     (if dm_NodeID dm = ct_nodeID (rv_cluster r) then (None, r)
      else case dm_Message dm of
             None \<Rightarrow> (Some MissingMessage, r)
           | Some msg \<Rightarrow>
               let s = rv_node r; observers = GetObserversForMessage (cs_heap (nd_conn s)) (dm_Namespace dm) (dm_GroupIDs dm) (reg_of s)
               in if observers = [] then (None, r)
                  else case notifyObserverClients env observers msg s of
                         None \<Rightarrow> (Some Panicked, r)
                       | Some (_, s) \<Rightarrow> (None, put_node s r))"

section \<open>Connections that have moved\<close>

definition detectClientMigration :: "('w, 'md) RecvEnv \<Rightarrow> Client option \<Rightarrow> 'w Receiver \<Rightarrow> string \<times> 'w Receiver" where
  "detectClientMigration env client r =
     (case client of
        None \<Rightarrow> ([], r)
      | Some cl \<Rightarrow>
          if cl_ID cl = [] \<or> \<not> ct_index (rv_cluster r) \<or> standalone (rv_cluster r) then ([], r)
          else case outside (re_owner env (cl_ID cl)) (rv_cluster r) of
                 (res, c) \<Rightarrow> (case res of None \<Rightarrow> [] | Some owner \<Rightarrow> owner, r\<lparr>rv_cluster := c\<rparr>))"

definition reclaim_dispatch :: "('md GoContext \<Rightarrow> string) \<Rightarrow> 'md GoContext \<Rightarrow> string \<Rightarrow> Client \<Rightarrow> DistributedMessage" where
  "reclaim_dispatch tr ctx nodeID cl =
     dispatch_InjectContext tr ctx
       \<lparr>dm_Type = OperationTypeClientReclaim, dm_NodeID = nodeID, dm_TargetID = cl_ID cl, dm_TraceID = [], dm_Message = None,
        dm_Reason = ''client_migrated'', dm_Timestamp = cl_ConnectedAt cl, dm_AppID = cl_AppID cl, dm_Namespace = cl_Namespace cl,
        dm_GroupIDs = [], dm_ExcludeSender = False, dm_SenderID = []\<rparr>"

definition notifyClientReclaim :: "('w, 'md) RecvEnv \<Rightarrow> 'md GoContext \<Rightarrow> Client option \<Rightarrow> string \<Rightarrow> 'w Receiver \<Rightarrow> 'w Receiver" where
  "notifyClientReclaim env ctx client ownerNode r =
     (let c = rv_cluster r
      in case client of
           None \<Rightarrow> r
         | Some cl \<Rightarrow>
             if \<not> ct_pubsub c \<or> ownerNode = [] \<or> ownerNode = ct_nodeID c then r
             else on_cluster (\<lambda>c. snd (publishToTargetedNodes (re_net env) (reclaim_dispatch (re_tr env) ctx (ct_nodeID c) cl) [ownerNode] c)) r)"

definition handleDistributedClientReclaim :: "('w, 'md) RecvEnv \<Rightarrow> int \<Rightarrow> DistributedMessage \<Rightarrow> 'w Receiver \<Rightarrow> receive_error option \<times> 'w Receiver" where
  "handleDistributedClientReclaim env now dm r =
     (None, if dm_TargetID dm = [] then r
            else case GetClient (re_sh env) (dm_TargetID dm) (reg_of (rv_node r)) of
                   None \<Rightarrow> r
                 | Some p \<Rightarrow>
                     if \<not> cl_ConnectedAt (client_at (rv_node r) p) < dm_Timestamp dm then r
                     else on_conn (KickClient now p ''kick_out'' (re_movedText env)) r)"

section \<open>Dispatch\<close>

text \<open>The outer envelope is written into the message before it is handled.\<close>

definition sync_envelope :: "('md GoContext \<Rightarrow> string) \<Rightarrow> 'md GoContext \<Rightarrow> DistributedMessage \<Rightarrow> DistributedMessage" where
  "sync_envelope tr ctx dm =
     dm\<lparr>dm_Message := map_option (\<lambda>m. fst (ContextWithRoute tr ctx (dm_AppID dm) (dm_Namespace dm) (wire_slice (dm_GroupIDs dm)) m)) (dm_Message dm)\<rparr>"

definition handleDistributedMessageTargeted :: "('w, 'md) RecvEnv \<Rightarrow> 'md GoContext \<Rightarrow> int \<Rightarrow> DistributedMessage option \<Rightarrow> bool \<Rightarrow> 'w Receiver
    \<Rightarrow> (receive_error option \<times> 'w Receiver) option" where
  "handleDistributedMessageTargeted env parent now distMsg targeted r =
     (case distMsg of
        None \<Rightarrow> Some (Some NilMessage, r)
      | Some dm \<Rightarrow>
          let ctx = dispatch_ContextFrom (re_withTrace env) parent dm; dm = sync_envelope (re_tr env) ctx dm; ty = dm_Type dm
          in if ty = OperationTypeSendMessage then Some (handleDistributedSendMessage env ctx now dm targeted r)
             else if ty = OperationTypeUserNotFound then handleDistributedUserNotFound env ctx now dm r
             else if ty = OperationTypeClientReclaim then Some (handleDistributedClientReclaim env now dm r)
             else if ty = OperationTypeKickUser then Some (handleDistributedKickUser env ctx now dm r)
             else if ty = OperationTypeBroadcast then Some (handleDistributedBroadcast env ctx now dm r)
             else if ty \<in> {OperationTypeGroupBroadcast, OperationTypeGroupsBroadcast} then Some (handleDistributedGroupsBroadcast env ctx now dm r)
             else if ty = OperationTypeGroupInvalidate then Some (handleDistributedGroupInvalidate dm r)
             else if ty = OperationTypeObserverNotify then Some (handleDistributedObserverNotify env dm r)
             else Some (Some UnknownType, r))"

text \<open>The callbacks of the three subscriptions; without PubSub there is no subscription.\<close>

definition SubscribeNodeMessages :: "('w, 'md) RecvEnv \<Rightarrow> 'md GoContext \<Rightarrow> int \<Rightarrow> string \<Rightarrow> 'w Receiver \<Rightarrow> (receive_error option \<times> 'w Receiver) option" where
  "SubscribeNodeMessages env ctx now data r =
     (if \<not> ct_pubsub (rv_cluster r) then Some (Some NotSubscribed, r)
      else case unmarshalDistributedMessage env data of
        None \<Rightarrow> Some (Some Malformed, r)
      | Some dm \<Rightarrow> if dm_NodeID dm = ct_nodeID (rv_cluster r) then Some (None, r)
                  else handleDistributedMessageTargeted env ctx now (Some dm) True r)"

definition SubscribeBroadcastChannel :: "('w, 'md) RecvEnv \<Rightarrow> 'md GoContext \<Rightarrow> int \<Rightarrow> string \<Rightarrow> 'w Receiver \<Rightarrow> (receive_error option \<times> 'w Receiver) option" where
  "SubscribeBroadcastChannel env ctx now data r =
     (if \<not> ct_pubsub (rv_cluster r) then Some (Some NotSubscribed, r)
      else case unmarshalDistributedMessage env data of
        None \<Rightarrow> Some (Some Malformed, r)
      | Some dm \<Rightarrow> if dm_NodeID dm = ct_nodeID (rv_cluster r) then Some (None, r)
                  else handleDistributedMessageTargeted env ctx now (Some dm) False r)"

definition SubscribeObserverChannel :: "('w, 'md) RecvEnv \<Rightarrow> 'md GoContext \<Rightarrow> int \<Rightarrow> string \<Rightarrow> 'w Receiver \<Rightarrow> (receive_error option \<times> 'w Receiver) option" where
  "SubscribeObserverChannel env ctx now data r =
     (if \<not> ct_pubsub (rv_cluster r) then Some (Some NotSubscribed, r)
      else case unmarshalDistributedMessage env data of
        None \<Rightarrow> Some (Some Malformed, r)
      | Some dm \<Rightarrow> handleDistributedMessageTargeted env ctx now (Some dm) False r)"

section \<open>What the handlers leave alone\<close>

lemma put_node_simps [simp]:
  "rv_node (put_node s r) = s" "rv_heals (put_node s r) = rv_heals r" "rv_groups (put_node s r) = rv_groups r"
  "ct_world (rv_cluster (put_node s r)) = ct_world (rv_cluster r)" "ct_guard (rv_cluster (put_node s r)) = ct_guard (rv_cluster r)"
  by (simp_all add: put_node_def on_cluster_def on_hub_def)

lemma publish_node_hub: "ct_hub (snd (publish_node net d n (a, c))) = ct_hub c \<and> ct_nodeID (snd (publish_node net d n (a, c))) = ct_nodeID c"
  by (auto simp: publish_node_def outside_def split: prod.splits option.splits)

lemma publish_hub:
  assumes "publishToTargetedNodes net d ns c = (res, c')"
  shows "ct_hub c' = ct_hub c"
proof -
  have "ct_hub (snd (fold (publish_node net d) ms (a, b))) = ct_hub b" for ms a b
  proof (induction ms arbitrary: a b)
    case (Cons m ms)
    then show ?case by (metis publish_node_hub fold_simps(2) prod.collapse)
  qed simp
  with assms show ?thesis by (auto simp: publishToTargetedNodes_def split: if_splits) (metis snd_conv)+
qed

lemma reply_node: "rv_node (replyUserNotFound env ctx now dm r) = rv_node r"
  by (auto simp: replyUserNotFound_def on_cluster_def Let_def) (metis publish_hub prod.collapse)

lemma heal_node [simp]: "rv_node (selfHealDeadIndexEntries u a n r) = rv_node r" "rv_cluster (selfHealDeadIndexEntries u a n r) = rv_cluster r"
  by (simp_all add: selfHealDeadIndexEntries_def)

lemma serialized_outcome:
  assumes run: "SendToClientSerialized enc now p msg data s = (ok, s')" and pend: "pend_ok s"
  shows "only_client p s s'" "pend_ok s'" "ok \<Longrightarrow> accepted_by enc p msg data s s'"
    "\<not> ok \<Longrightarrow> lanes_same (client_at s p) (client_at s' p)" "ident (client_at s' q) = ident (client_at s q)"
proof -
  obtain t where core: "sendToClientCore enc now p msg data True s = (ok, t)" and s': "nd_conn s' = nd_conn t" "nd_offlineHandler s' = nd_offlineHandler t"
    "ok \<Longrightarrow> s' = t"
    using run by (auto simp: SendToClientSerialized_def TryDeliverToClient_def StoreOfflineOnDeliveryFailure_def metric_def Let_def
        split: prod.splits bool.splits if_splits)
  have o: "only_client p s t \<and> (ok \<longrightarrow> accepted_by enc p msg data s t) \<and> (\<not> ok \<longrightarrow> lanes_same (client_at s p) (client_at t p))"
    using core_outcome [OF core] pend by (auto simp: pend_ok_def)
  have "pend_ok t" using core_pend_ok [OF core pend] .
  then show "pend_ok s'" using s' by (simp add: pend_ok_def)
  show "only_client p s s'" "ok \<Longrightarrow> accepted_by enc p msg data s s'" "\<not> ok \<Longrightarrow> lanes_same (client_at s p) (client_at s' p)"
    using o s' by (auto simp: only_client_def)
  show "ident (client_at s' q) = ident (client_at s q)" using core_ident [OF core, of q] s'(1) by simp
qed

section \<open>The loop over the devices\<close>

lemma lanes_same_refl [simp]: "lanes_same c c"
  by (simp add: lanes_same_def)

lemma lanes_same_trans: "lanes_same a b \<Longrightarrow> lanes_same b c \<Longrightarrow> lanes_same a c"
  by (simp add: lanes_same_def)

lemma receive_loop:
  assumes "range_while (\<lambda>(cid, p) st. if \<not> P p then (True, st) else receive_one env now msg data p st) m (k, n, s) = (go, k', n', s')" "pend_ok s"
  shows "only_clients {p \<in> set (gm_values m). P p} s s' \<and> pend_ok s' \<and> n \<le> n' \<and> (n' = n \<longrightarrow> (\<forall>q. lanes_same (client_at s q) (client_at s' q)))"
  using assms
proof (induction m arbitrary: k n s)
  case (Cons x m)
  obtain cid p where x: "x = (cid, p)" by fastforce
  show ?case
  proof (cases "P p")
    case False
    with Cons.prems(1) have "range_while (\<lambda>(cid, p) st. if \<not> P p then (True, st) else receive_one env now msg data p st) m (k, n, s) = (go, k', n', s')"
      by (simp add: x)
    from Cons.IH [OF this Cons.prems(2)] show ?thesis by (auto simp: x gm_values_def elim: only_clients_mono)
  next
    case True
    obtain ok t where send: "SendToClientSerialized (re_enc env) now p msg (Some data) s = (ok, t)" by fastforce
    note o = serialized_outcome [OF send Cons.prems(2)]
    have same: "lanes_same (client_at s q) (client_at t q)" if "\<not> ok" for q
      using o(1) o(4) [OF that] by (cases "q = p") (auto simp: only_client_def)
    define n1 where "n1 = (if ok then n + 1 else n)"
    have one: "receive_one env now msg data p (k, n, s) = (\<not> re_cancelled env k, Suc k, n1, t)" by (simp add: receive_one_def send n1_def)
    show ?thesis
    proof (cases "re_cancelled env k")
      case True
      with Cons.prems(1) one \<open>P p\<close> have "n' = n1" "s' = t" by (simp_all add: x)
      moreover have "only_clients {p} s t" using only_clients_Cons [OF o(1) only_clients_refl [of "{}"]] by simp
      ultimately show ?thesis
        using o(2) same \<open>P p\<close> by (auto simp: x gm_values_def n1_def elim!: only_clients_mono)
    next
      case False
      with Cons.prems(1) one \<open>P p\<close>
      have "range_while (\<lambda>(cid, p) st. if \<not> P p then (True, st) else receive_one env now msg data p st) m (Suc k, n1, t) = (go, k', n', s')"
        by (simp add: x)
      note ih = Cons.IH [OF this o(2)]
      then have "only_clients (insert p {p \<in> set (gm_values m). P p}) s s'" using only_clients_Cons [OF o(1)] by blast
      moreover have "\<forall>q. lanes_same (client_at s q) (client_at s' q)" if "n' = n"
        using ih same that by (auto simp: n1_def split: if_splits intro: lanes_same_trans)
      ultimately show ?thesis
        using ih \<open>P p\<close> by (auto simp: x gm_values_def n1_def split: if_splits elim!: only_clients_mono)
    qed
  qed
qed (simp add: gm_values_def)

text \<open>The connections a message of another node is for.\<close>

definition receivers :: "string \<Rightarrow> string \<Rightarrow> string \<Rightarrow> Node \<Rightarrow> nat set" where
  "receivers userID appID namespace s =
     {p \<in> set (GetAllClients (reg_of s)). cl_UserID (client_at s p) = userID \<and> ClientMatchesEnvelope (client_at s p) appID namespace}"

definition node_ready :: "(string \<Rightarrow> nat) \<Rightarrow> Node \<Rightarrow> bool" where
  "node_ready sh s \<longleftrightarrow> hash_ok sh \<and> rg_inv sh (cs_heap (nd_conn s)) (reg_of s) \<and> pend_ok s"

lemma receivers_values:
  assumes "node_ready sh s"
  shows "{p \<in> set (gm_values (sm_inner sh (rg_userShards (reg_of s)) u)). ClientMatchesEnvelope (client_at s p) app ns} = receivers u app ns s"
  using user_values [OF rg_invD(1), of sh "cs_heap (nd_conn s)" "reg_of s" u] assms by (auto simp: receivers_def node_ready_def)

lemma ready_nested: "node_ready sh s \<Longrightarrow> nested_ok sh (rg_userShards (reg_of s))"
  using users_ok_nested [OF rg_invD(1)] by (auto simp: node_ready_def)

lemma has_user_receivers:
  assumes "node_ready sh s" "app \<noteq> []"
  shows "HasUser sh (cs_heap (nd_conn s)) u app ns (reg_of s) \<longleftrightarrow> receivers u app ns s \<noteq> {}"
  using assms(2) by (auto simp: HasUser_def shard_user_eq [OF ready_nested [OF assms(1)]] list_ex_iff receivers_values [OF assms(1), symmetric] gm_values_def)

lemma receive_devices_loop:
  assumes "node_ready (re_sh env) s" "app \<noteq> []"
  shows "receive_devices env now u app ns msg data s =
    snd (snd (range_while (\<lambda>(cid, p) st. if \<not> ClientMatchesEnvelope (client_at s p) app ns then (True, st) else receive_one env now msg data p st)
      (sm_inner (re_sh env) (rg_userShards (reg_of s)) u) (0, 0, s)))"
  using assms(2) by (simp add: receive_devices_def ForEachUserClientFiltered_def shard_values [OF ready_nested [OF assms(1)]])

lemma receive_devices_outcome:
  assumes "node_ready (re_sh env) s" "app \<noteq> []" "receive_devices env now u app ns msg data s = (n, s')"
  shows "only_clients (receivers u app ns s) s s' \<and> 0 \<le> n \<and> (n = 0 \<longrightarrow> (\<forall>q. lanes_same (client_at s q) (client_at s' q)))"
proof -
  obtain go k where "range_while (\<lambda>(cid, p) st. if \<not> ClientMatchesEnvelope (client_at s p) app ns then (True, st) else receive_one env now msg data p st)
      (sm_inner (re_sh env) (rg_userShards (reg_of s)) u) (0, 0, s) = (go, k, n, s')"
    using assms(3) unfolding receive_devices_loop [OF assms(1,2)] by (metis (no_types, lifting) snd_conv surj_pair)
  from receive_loop [OF this] assms(1) show ?thesis by (simp add: receivers_values [OF assms(1)] node_ready_def)
qed

lemma notify_node [simp]: "hb_node (NotifyObservers ctx msg h) = hb_node h"
  by (auto simp: NotifyObservers_def split: option.splits SendOutcome.splits)

lemma synced [simp]:
  "dm_NodeID (sync_envelope tr ctx dm) = dm_NodeID dm" "dm_TargetID (sync_envelope tr ctx dm) = dm_TargetID dm"
  "dm_Type (sync_envelope tr ctx dm) = dm_Type dm" "dm_AppID (sync_envelope tr ctx dm) = dm_AppID dm"
  "dm_Namespace (sync_envelope tr ctx dm) = dm_Namespace dm" "dm_Timestamp (sync_envelope tr ctx dm) = dm_Timestamp dm"
  "dm_GroupIDs (sync_envelope tr ctx dm) = dm_GroupIDs dm"
  by (simp_all add: sync_envelope_def)

definition synced_message :: "('md GoContext \<Rightarrow> string) \<Rightarrow> 'md GoContext \<Rightarrow> DistributedMessage \<Rightarrow> HubMessage \<Rightarrow> HubMessage" where
  "synced_message tr ctx dm m =
     m\<lparr>hm_TraceID := (if hm_TraceID m = [] then tr ctx else hm_TraceID m), hm_AppID := NormalizeAppID (dm_AppID dm), hm_Namespace := dm_Namespace dm,
       hm_GroupIDs := wire_slice (dm_GroupIDs dm)\<rparr>"

lemma sync_message: "dm_Message (sync_envelope tr ctx dm) = map_option (synced_message tr ctx dm) (dm_Message dm)"
  by (cases "dm_Message dm") (auto simp: sync_envelope_def synced_message_def ContextWithRoute_def Let_def wire_slice_def slice_copy_def)

lemma normalize_app [simp]: "NormalizeAppID (NormalizeAppID a) = NormalizeAppID a" "NormalizeAppID a \<noteq> []"
  by (simp_all add: NormalizeAppID_def DefaultAppID_def)

lemma synced_outer [simp]:
  "outer_app (sync_envelope tr ctx dm) (synced_message tr ctx dm m) = NormalizeAppID (dm_AppID dm)"
  "outer_namespace (sync_envelope tr ctx dm) (synced_message tr ctx dm m) = dm_Namespace dm"
  by (auto simp: outer_app_def outer_namespace_def synced_message_def)

section \<open>Properties\<close>

text \<open>C10: A message for a user that arrives from another node touches only the connections of that user inside the application and
  namespace of the outer envelope.  When the node has none of them nothing is delivered, nothing fails, and only a directed
  message has a consequence outside; when it has some, a failure to serialise changes nothing at all, and the answer that no
  connection took the message means that no channel of any connection has changed.\<close>

theorem receive_isolated:
  assumes ready: "node_ready (re_sh env) (rv_node r)" and ty: "dm_Type dm = OperationTypeSendMessage" and msg: "dm_Message dm = Some m"
    and run: "handleDistributedMessageTargeted env ctx now (Some dm) targeted r = Some (err, r')"
    and ps: "ps = receivers (dm_TargetID dm) (NormalizeAppID (dm_AppID dm)) (dm_Namespace dm) (rv_node r)"
  shows "only_clients ps (rv_node r) (rv_node r') \<and>
    (ps = {} \<longrightarrow> err = None \<and> rv_node r' = rv_node r \<and> (targeted \<or> r' = r)) \<and>
    (ps \<noteq> {} \<longrightarrow> err \<in> {None, Some MarshalFailed, Some NoClient} \<and> rv_heals r' = rv_heals r \<and>
       ct_world (rv_cluster r') = ct_world (rv_cluster r)) \<and>
    (err = Some MarshalFailed \<longrightarrow> r' = r) \<and>
    (err = Some NoClient \<longrightarrow> (\<forall>q. lanes_same (client_at (rv_node r) q) (client_at (rv_node r') q)))"
proof -
  define ctx1 where "ctx1 = dispatch_ContextFrom (re_withTrace env) ctx dm"
  define m1 where "m1 = synced_message (re_tr env) ctx1 dm m"
  let ?app = "NormalizeAppID (dm_AppID dm)" and ?ns = "dm_Namespace dm" and ?s = "rv_node r"
  have h: "handleDistributedSendMessage env ctx1 now (sync_envelope (re_tr env) ctx1 dm) targeted r = (err, r')"
    using run by (simp add: handleDistributedMessageTargeted_def ty ctx1_def Let_def)
  note has = has_user_receivers [OF ready normalize_app(2), of "dm_TargetID dm" "dm_AppID dm" ?ns]
  show ?thesis
  proof (cases "ps = {}")
    case True
    then show ?thesis
      using h has by (auto simp: handleDistributedSendMessage_def sync_message msg ps Let_def reply_node split: if_splits)
  next
    case False
    show ?thesis
    proof (cases "re_enc env m1")
      case None
      with False h has show ?thesis by (auto simp: handleDistributedSendMessage_def sync_message msg ps Let_def m1_def)
    next
      case (Some data)
      obtain n t where dev: "receive_devices env now (dm_TargetID dm) ?app ?ns m1 data ?s = (n, t)" by fastforce
      have r': "rv_node r' = t \<and> (err = Some NoClient \<or> err = None) \<and> (err = Some NoClient \<longleftrightarrow> n = 0) \<and> rv_heals r' = rv_heals r \<and>
          ct_world (rv_cluster r') = ct_world (rv_cluster r)"
        using False h has Some dev
        by (auto simp: handleDistributedSendMessage_def sync_message msg ps Let_def m1_def on_cluster_def on_hub_def put_node_def split: if_splits)
      from receive_devices_outcome [OF ready normalize_app(2) dev] r' False show ?thesis by (auto simp: ps)
    qed
  qed
qed

definition demo_env :: "(string list, unit) RecvEnv" where
  "demo_env = \<lparr>re_sh = demo_sh, re_enc = \<lambda>_. Some ''x'', re_marshal = \<lambda>_ _. None, re_tr = \<lambda>_. [], re_withTrace = \<lambda>c _. c, re_hostctx = demo_ctx,
     re_newID = None, re_order = id, re_cancelled = \<lambda>_. False, re_movedText = [], re_fuel = 6, re_net = moving_net moving_answer,
     re_clients = \<lambda>_ _ _ w. (None, w), re_offline = \<lambda>_ w. (True, w), re_owner = \<lambda>_ w. (None, w), re_pb_decode = \<lambda>_. None,
     re_json_decode = \<lambda>_. None, re_pb_encode = \<lambda>_. None, re_json_encode = \<lambda>_. None\<rparr>"

definition demo_receiver :: "string list Receiver" where
  "demo_receiver = \<lparr>rv_cluster = moving_cluster\<lparr>ct_pubsub := True\<rparr>, rv_groups = None, rv_heals = []\<rparr>"

definition demo_dispatch :: DistributedMessage where
  "demo_dispatch = \<lparr>dm_Type = OperationTypeSendMessage, dm_NodeID = ''A'', dm_TargetID = ''u1'', dm_TraceID = [], dm_Message = Some zero_message,
     dm_Reason = [], dm_Timestamp = 5, dm_AppID = ''shop'', dm_Namespace = [], dm_GroupIDs = [], dm_ExcludeSender = False, dm_SenderID = []\<rparr>"

lemma demo_node [simp]: "rv_node demo_receiver = two_node" "re_sh demo_env = demo_sh"
  by (simp_all add: demo_receiver_def moving_cluster_def two_hub_fields demo_env_def)

lemma demo_ready: "node_ready demo_sh two_node"
  using two_hub_ready [of undefined] demo_hash by (simp add: node_ready_def broadcast_ready_def two_hub_fields)

lemma two_receivers: "receivers ''u1'' ''shop'' [] two_node = {0}" "receivers ''nobody'' app ns two_node = {}"
proof -
  have *: "receivers u app ns two_node = set (filter (\<lambda>p. cl_UserID (two_heap p) = u \<and> ClientMatchesEnvelope (two_heap p) app ns) [0, 1])" for u app ns
    unfolding set_filter receivers_def by (simp add: two_node_fields two_all ClientMatchesEnvelope_def)
  show "receivers ''u1'' ''shop'' [] two_node = {0}" "receivers ''nobody'' app ns two_node = {}"
    by (simp_all add: * two_ids ClientMatchesEnvelope_def)
qed

theorem receive_isolated_witness:
  "\<exists>err r'. handleDistributedMessageTargeted demo_env demo_ctx 0 (Some demo_dispatch) True demo_receiver = Some (err, r') \<and>
     only_clients {0} two_node (rv_node r')"
proof -
  obtain err r' where run: "handleDistributedMessageTargeted demo_env demo_ctx 0 (Some demo_dispatch) True demo_receiver = Some (err, r')"
    by (simp add: handleDistributedMessageTargeted_def demo_dispatch_def Let_def) (metis surj_pair)
  have "only_clients (receivers ''u1'' ''shop'' [] two_node) two_node (rv_node r')"
    using receive_isolated [of demo_env demo_receiver demo_dispatch zero_message demo_ctx 0 True err r', OF _ _ _ run refl] demo_ready
    by (simp add: demo_dispatch_def NormalizeAppID_def)
  with run show ?thesis by (auto simp: two_receivers)
qed

lemma registered_client:
  assumes "node_ready sh s"
  shows "GetClient sh i (reg_of s) = Some p \<longleftrightarrow> p \<in> set (GetAllClients (reg_of s)) \<and> cl_ID (client_at s p) = i"
  using registered_client_heap [of sh "cs_heap (nd_conn s)" "reg_of s"] assms by (simp add: node_ready_def)

text \<open>A connection that has moved: what the new node tells the old one makes the old node unregister exactly its own connection
  of the same id, and only when that one is older than the new connection.  The message is for the old node only, and nothing is
  sent when the old node is the new one.\<close>

theorem reclaim_exact:
  assumes ready: "node_ready (re_sh env) (rv_node r)" and id: "cl_ID cl \<noteq> []" and up: "ct_pubsub (rv_cluster rn)"
    and nodes: "old \<noteq> []" "old \<noteq> ct_nodeID (rv_cluster rn)"
  shows "\<exists>dm. notifyClientReclaim envn ctx (Some cl) old rn =
      on_cluster (\<lambda>c. snd (publish_node (re_net envn) dm old (([], True), c))) rn \<and>
    (\<exists>r' ps. handleDistributedMessageTargeted env ctx' now (Some dm) targeted r = Some (None, r') \<and>
      unregs (cs_trace (nd_conn (rv_node r'))) = unregs (cs_trace (nd_conn (rv_node r))) @ ps \<and> length ps \<le> 1 \<and>
      set ps = {p \<in> set (GetAllClients (reg_of (rv_node r))).
        cl_ID (client_at (rv_node r) p) = cl_ID cl \<and> cl_ConnectedAt (client_at (rv_node r) p) < cl_ConnectedAt cl})"
proof -
  let ?dm = "reclaim_dispatch (re_tr envn) ctx (ct_nodeID (rv_cluster rn)) cl" and ?s = "rv_node r"
  have f: "dm_Type ?dm = OperationTypeClientReclaim" "dm_TargetID ?dm = cl_ID cl" "dm_Timestamp ?dm = cl_ConnectedAt cl"
    by (simp_all add: reclaim_dispatch_def dispatch_InjectContext_def)
  have told: "notifyClientReclaim envn ctx (Some cl) old rn = on_cluster (\<lambda>c. snd (publish_node (re_net envn) ?dm old (([], True), c))) rn"
    using up nodes by (simp add: notifyClientReclaim_def publishToTargetedNodes_def on_cluster_def Let_def)
  obtain r' where run: "handleDistributedMessageTargeted env ctx' now (Some ?dm) targeted r = Some (None, r')"
    and r': "r' = snd (handleDistributedClientReclaim env now (sync_envelope (re_tr env) (dispatch_ContextFrom (re_withTrace env) ctx' ?dm) ?dm) r)"
    by (simp add: handleDistributedMessageTargeted_def f Let_def handleDistributedClientReclaim_def)
  note reg = registered_client [OF ready, of "cl_ID cl"]
  show ?thesis
  proof (cases "GetClient (re_sh env) (cl_ID cl) (reg_of ?s)")
    case None
    then have "r' = r" by (simp add: r' handleDistributedClientReclaim_def f)
    then show ?thesis using told run reg None by (intro exI [of _ ?dm] conjI exI [of _ r'] exI [of _ "[]"]) auto
  next
    case (Some p)
    let ?ps = "if cl_ConnectedAt (client_at ?s p) < cl_ConnectedAt cl then [p] else []"
    have "unregs (cs_trace (nd_conn (rv_node r'))) = unregs (cs_trace (nd_conn ?s)) @ ?ps"
      using id Some by (simp add: r' handleDistributedClientReclaim_def f on_conn_def)
    moreover have "set ?ps = {q \<in> set (GetAllClients (reg_of ?s)). cl_ID (client_at ?s q) = cl_ID cl \<and> cl_ConnectedAt (client_at ?s q) < cl_ConnectedAt cl}"
      using reg Some by (auto split: if_splits) (metis option.inject)+
    ultimately show ?thesis using told run by (intro exI [of _ ?dm] conjI exI [of _ r'] exI [of _ ?ps]) auto
  qed
qed

theorem reclaim_exact_witness:
  "\<exists>dm r' ps. handleDistributedMessageTargeted demo_env demo_ctx 0 (Some dm) True demo_receiver = Some (None, r') \<and>
     unregs (cs_trace (nd_conn (rv_node r'))) = ps \<and> length ps \<le> 1 \<and>
     set ps = {p \<in> {0, 1}. cl_ID (two_heap p) = ''c1'' \<and> cl_ConnectedAt (two_heap p) < 9}"
proof -
  have t: "unregs (cs_trace (nd_conn two_node)) = []" by (simp add: two_node_def one_node_def two_fields)
  have ready: "node_ready (re_sh demo_env) (rv_node demo_receiver)" by (simp add: demo_ready)
  have up: "ct_pubsub (rv_cluster demo_receiver)" "''A'' \<noteq> ct_nodeID (rv_cluster demo_receiver)" by (simp_all add: demo_receiver_def moving_cluster_def)
  obtain dm r' ps where "handleDistributedMessageTargeted demo_env demo_ctx 0 (Some dm) True demo_receiver = Some (None, r')"
    "unregs (cs_trace (nd_conn (rv_node r'))) = ps" "length ps \<le> 1"
    and ps: "set ps = {p \<in> set (GetAllClients (reg_of two_node)). cl_ID (client_at two_node p) = ''c1'' \<and> cl_ConnectedAt (client_at two_node p) < 9}"
    using reclaim_exact [OF ready _ up(1) _ up(2), of "NewClient 9 ''c1'' ''u1'' UserTypeCustomer" demo_env demo_ctx demo_ctx 0 True]
    by (auto simp: t NewClient_def)
  moreover have "set ps = {p \<in> {0, 1}. cl_ID (two_heap p) = ''c1'' \<and> cl_ConnectedAt (two_heap p) < 9}"
    unfolding ps by (simp add: two_node_fields two_all)
  ultimately show ?thesis by blast
qed

lemma user_not_found_synced:
  assumes "dm_Type dm = OperationTypeUserNotFound" "dm_Message dm = Some m0" "dm_TargetID dm \<noteq> []" "hm_MessageID m0 \<noteq> []"
    and "ctx1 = dispatch_ContextFrom (re_withTrace env) ctx dm" "m1 = synced_message (re_tr env) ctx1 dm m0"
  shows "handleDistributedMessageTargeted env ctx now (Some dm) targeted r =
    map_option (\<lambda>(_, c). (None, r\<lparr>rv_cluster := c\<rparr>))
      (decideUserNotFoundReroute (routeToCluster (re_fuel env) (re_net env) (re_tr env) ctx1 now m1) (re_net env) now m1
        (dm_TargetID dm) (dm_NodeID dm) (NormalizeAppID (dm_AppID dm)) (dm_Namespace dm) (rv_cluster r))"
proof -
  have "hm_MessageID (synced_message (re_tr env) ctx1 dm m0) = hm_MessageID m0" by (simp add: synced_message_def)
  with assms show ?thesis
    by (simp add: handleDistributedMessageTargeted_def handleDistributedUserNotFound_def sync_message Let_def split: option.split)
qed


definition miss_options :: ClusterDispatchOptions where
  "miss_options = no_options\<lparr>co_Operation := OperationTypeSendMessage, co_TargetUserID := ''nobody''\<rparr>"

definition group_message :: HubMessage where
  "group_message = zero_message\<lparr>hm_MessageID := ''m1'', hm_GroupIDs := Some [''g'']\<rparr>"


section \<open>Failures\<close>

lemma closed_send:
  assumes "cl_closed (client_at s p)" "guarantee_of s msg \<noteq> GuaranteeEphemeral" "nd_offlineHandler s" "hm_Receiver msg \<noteq> []"
    "hm_Source msg \<noteq> MessageSourceOffline"
  shows "SendToClientSerialized enc now p msg data s = (False, s\<lparr>nd_offline := nd_offline s @ [msg]\<rparr>)"
  using assms by (simp add: SendToClientSerialized_def TryDeliverToClient_def sendToClientCore_def StoreOfflineOnDeliveryFailure_def)

lemma closed_loop:
  assumes "\<forall>p \<in> set (gm_values m). P p \<longrightarrow> cl_closed (client_at s p)" "guarantee_of s msg \<noteq> GuaranteeEphemeral" "nd_offlineHandler s"
    "hm_Receiver msg \<noteq> []" "hm_Source msg \<noteq> MessageSourceOffline" "\<forall>k. \<not> re_cancelled env k"
  shows "snd (snd (snd (range_while (\<lambda>(cid, p) st. if \<not> P p then (True, st) else receive_one env now msg data p st) m
      (k, n, s\<lparr>nd_offline := off\<rparr>)))) = s\<lparr>nd_offline := off @ replicate (length (filter P (gm_values m))) msg\<rparr> \<and>
    fst (snd (snd (range_while (\<lambda>(cid, p) st. if \<not> P p then (True, st) else receive_one env now msg data p st) m
      (k, n, s\<lparr>nd_offline := off\<rparr>)))) = n"
  using assms(1)
proof (induction m arbitrary: k off)
  case (Cons x m)
  obtain cid p where x: "x = (cid, p)" by fastforce
  have rest: "\<forall>p \<in> set (gm_values m). P p \<longrightarrow> cl_closed (client_at s p)" using Cons.prems by (simp add: gm_values_def)
  show ?case
  proof (cases "P p")
    case True
    with Cons.prems have "cl_closed (client_at s p)" by (simp add: x gm_values_def)
    then have "receive_one env now msg data p (k, n, s\<lparr>nd_offline := off\<rparr>) = (True, Suc k, n, s\<lparr>nd_offline := off @ [msg]\<rparr>)"
      using assms(2-6) closed_send [of "s\<lparr>nd_offline := off\<rparr>" p msg] by (simp add: receive_one_def)
    with Cons.IH [OF rest, of "Suc k" "off @ [msg]"] True show ?thesis by (simp add: x gm_values_def)
  next
    case False
    with Cons.IH [OF rest, of k off] show ?thesis by (simp add: x gm_values_def)
  qed
qed (simp add: gm_values_def)

text \<open>A message whose connections on this node are all closing is stored for later once per connection, and the handler reports
  a failure, after which the subscription hands the message to it again.\<close>

theorem failed_receive_stored_per_device:
  assumes ready: "node_ready (re_sh env) (rv_node r)" and ty: "dm_Type dm = OperationTypeSendMessage" and msg: "dm_Message dm = Some m"
    and ps: "ps = receivers (dm_TargetID dm) (NormalizeAppID (dm_AppID dm)) (dm_Namespace dm) (rv_node r)"
    and closing: "ps \<noteq> {}" "\<forall>p \<in> ps. cl_closed (client_at (rv_node r) p)"
    and m1: "m1 = synced_message (re_tr env) (dispatch_ContextFrom (re_withTrace env) ctx dm) dm m" and enc: "re_enc env m1 = Some data"
    and store: "guarantee_of (rv_node r) m1 \<noteq> GuaranteeEphemeral" "nd_offlineHandler (rv_node r)" "hm_Receiver m \<noteq> []" "hm_Source m \<noteq> MessageSourceOffline"
    and going: "\<forall>k. \<not> re_cancelled env k"
  shows "handleDistributedMessageTargeted env ctx now (Some dm) targeted r =
    Some (Some NoClient, put_node ((rv_node r)\<lparr>nd_offline := nd_offline (rv_node r) @ replicate (card ps) m1\<rparr>) r)"
proof -
  let ?s = "rv_node r" and ?app = "NormalizeAppID (dm_AppID dm)" and ?ns = "dm_Namespace dm"
  let ?vals = "gm_values (sm_inner (re_sh env) (rg_userShards (reg_of ?s)) (dm_TargetID dm))"
  let ?P = "\<lambda>p. ClientMatchesEnvelope (client_at ?s p) ?app ?ns"
  have inv: "rg_inv (re_sh env) (cs_heap (nd_conn ?s)) (reg_of ?s)" using ready by (simp add: node_ready_def)
  have vals: "set (filter ?P ?vals) = ps" using receivers_values [OF ready] unfolding ps set_filter .
  moreover have "distinct ?vals" by (rule distinct_user_values [OF rg_invD(1) [OF inv]])
  ultimately have len: "length (filter ?P ?vals) = card ps" by (metis distinct_card distinct_filter)
  have "hm_Receiver m1 \<noteq> []" "hm_Source m1 \<noteq> MessageSourceOffline" using store by (simp_all add: m1 synced_message_def)
  note loop = closed_loop [of "sm_inner (re_sh env) (rg_userShards (reg_of ?s)) (dm_TargetID dm)" ?P ?s m1 env, OF _ store(1,2) this going,
      of now data 0 0 "nd_offline ?s"]
  have "receive_devices env now (dm_TargetID dm) ?app ?ns m1 data ?s = (0, ?s\<lparr>nd_offline := nd_offline ?s @ replicate (card ps) m1\<rparr>)"
    using loop closing(2) vals unfolding receive_devices_loop [OF ready normalize_app(2)] by (auto simp: len intro: prod_eqI)
  with has_user_receivers [OF ready normalize_app(2)] closing(1) enc show ?thesis
    by (simp add: handleDistributedMessageTargeted_def handleDistributedSendMessage_def ty sync_message msg Let_def m1 [symmetric] ps)
qed

definition closing_node :: Node where
  "closing_node = two_node\<lparr>nd_conn := (nd_conn two_node)\<lparr>cs_heap := (\<lambda>p. (client_at two_node p)\<lparr>cl_closed := True\<rparr>)\<rparr>, nd_offlineHandler := True\<rparr>"

lemma closing_ready: "node_ready demo_sh closing_node"
proof -
  have "rg_inv demo_sh (cs_heap (nd_conn two_node)) (reg_of two_node)" "pend_ok two_node" "hash_ok demo_sh"
    using demo_ready by (simp_all add: node_ready_def)
  then show ?thesis
    using rg_inv_mutate [of demo_sh "cs_heap (nd_conn two_node)" "reg_of two_node" "cs_heap (nd_conn closing_node)"]
    by (simp add: node_ready_def closing_node_def keeps_filing_def filing_def pend_ok_def)
qed

theorem failed_receive_stored_per_device_witness:
  "\<exists>r' m1. handleDistributedMessageTargeted demo_env demo_ctx 0 (Some (demo_dispatch\<lparr>dm_Message := Some (zero_message\<lparr>hm_Receiver := ''u1''\<rparr>)\<rparr>)) True
      (put_node closing_node demo_receiver) = Some (Some NoClient, r') \<and> nd_offline (rv_node r') = nd_offline closing_node @ [m1]"
proof -
  let ?m = "zero_message\<lparr>hm_Receiver := ''u1''\<rparr>" and ?r = "put_node closing_node demo_receiver"
  let ?dm = "demo_dispatch\<lparr>dm_Message := Some ?m\<rparr>"
  let ?m1 = "synced_message (re_tr demo_env) (dispatch_ContextFrom (re_withTrace demo_env) demo_ctx ?dm) ?dm ?m"
  have rec: "receivers ''u1'' ''shop'' [] closing_node = {0}"
  proof -
    have "receivers ''u1'' ''shop'' [] closing_node = receivers ''u1'' ''shop'' [] two_node"
      unfolding receivers_def closing_node_def by (simp add: ClientMatchesEnvelope_def)
    with two_receivers(1) show ?thesis by simp
  qed
  have e: "re_enc demo_env ?m1 = Some ''x''" "\<forall>k. \<not> re_cancelled demo_env k" by (simp_all add: demo_env_def)
  have g: "guarantee_of closing_node ?m1 \<noteq> GuaranteeEphemeral"
    by (simp add: synced_message_def zero_message_def ResolveGuarantee_def guaranteeTypeDefaults_def score_guaranteed_def)
  have "handleDistributedMessageTargeted demo_env demo_ctx 0 (Some ?dm) True ?r =
      Some (Some NoClient, put_node (closing_node\<lparr>nd_offline := nd_offline closing_node @ replicate 1 ?m1\<rparr>) ?r)"
    using failed_receive_stored_per_device [of demo_env ?r ?dm ?m "{0}" ?m1 demo_ctx "''x''" 0 True] closing_ready rec e g
    by (simp add: demo_dispatch_def NormalizeAppID_def) (simp add: closing_node_def zero_message_def)
  then show ?thesis by simp
qed

text \<open>The outer envelope replaces the one inside the message even when it is empty: a message that names its application only
  inside is looked up under the default application, and a user who is connected to this node does not get it.\<close>

theorem inner_envelope_lost:
  "handleDistributedMessageTargeted demo_env demo_ctx 0
      (Some (demo_dispatch\<lparr>dm_AppID := [], dm_Message := Some (zero_message\<lparr>hm_AppID := ''shop''\<rparr>)\<rparr>)) False demo_receiver = Some (None, demo_receiver) \<and>
   receivers ''u1'' ''shop'' [] (rv_node demo_receiver) = {0}"
proof -
  let ?dm = "demo_dispatch\<lparr>dm_AppID := [], dm_Message := Some (zero_message\<lparr>hm_AppID := ''shop''\<rparr>)\<rparr>"
  have "receivers ''u1'' DefaultAppID [] two_node = set (filter (\<lambda>p. cl_UserID (two_heap p) = ''u1'' \<and> ClientMatchesEnvelope (two_heap p) DefaultAppID []) [0, 1])"
    unfolding set_filter receivers_def by (simp add: two_node_fields two_all ClientMatchesEnvelope_def)
  then have "receivers ''u1'' DefaultAppID [] two_node = {}" by (simp add: two_ids ClientMatchesEnvelope_def DefaultAppID_def)
  then have "\<not> HasUser demo_sh (cs_heap (nd_conn two_node)) ''u1'' DefaultAppID [] (reg_of two_node)"
    using has_user_receivers [OF demo_ready, of DefaultAppID] by (simp add: DefaultAppID_def)
  then show ?thesis
    by (simp add: handleDistributedMessageTargeted_def handleDistributedSendMessage_def sync_message demo_dispatch_def two_receivers Let_def
        outer_app_def outer_namespace_def synced_message_def NormalizeAppID_def)
qed

end
