(* ===== verification/Grpc_Server.thy ===== *)
theory Grpc_Server
  imports Receive Grpc_Batch
begin

text \<open>
  The gRPC service of a node: the handlers of hub/grpc_server.go, which are the other end of the calls that \<open>Cluster\<close> and
  \<open>Grpc_Batch\<close> make.

  \<^item> A handler answers, or fails with a status.  The texts of errors only go to log lines; the result of a batched item
    carries one, so the texts are parameters.
  \<^item> \<open>md_ops\<close> are the operations of the metadata package, \<open>restoreTrace\<close> and the protobuf decoder belong to other packages.
  \<^item> Start-up and shutdown of the server are left out.
\<close>

declare map_of_eq_Some_iff [simp del]

section \<open>Environment\<close>

datatype rpc_status = InvalidArgument | Internal | ResourceExhausted

record ('w, 'md) GrpcEnv =
  gs_recv :: "('w, 'md) RecvEnv"
  gs_ops :: "'md MDOps"
  gs_restoreTrace :: "'md GoContext \<Rightarrow> 'md GoContext"
  gs_decode :: "frame \<Rightarrow> HubMessage option"
  gs_traceKey :: string
  gs_text :: "rpc_status \<Rightarrow> string"
  gs_offlineText :: string
  gs_unknownText :: "DispatchOperation \<Rightarrow> string"

section \<open>Handlers\<close>

definition restored :: "('w, 'md) GrpcEnv \<Rightarrow> 'md GoContext \<Rightarrow> 'md GoContext" where
  "restored env ctx = RestoreFromIncomingMetadata (gs_ops env) (gs_restoreTrace env ctx)"

definition received_message :: "('w, 'md) GrpcEnv \<Rightarrow> 'md GoContext \<Rightarrow> HubMessage \<Rightarrow> HubMessage \<times> 'md GoContext" where
  "received_message env ctx m = InjectRoute (re_tr (gs_recv env)) (ContextFrom (re_withTrace (gs_recv env)) ctx m) m"

definition deliver_to_user :: "(string \<Rightarrow> nat) \<Rightarrow> (HubMessage \<Rightarrow> frame option) \<Rightarrow> int \<Rightarrow> string \<Rightarrow> HubMessage \<Rightarrow> frame \<Rightarrow> Node \<Rightarrow> int \<times> Node" where
  "deliver_to_user sh enc now userID msg preSerialized s =
     ForEachUserClientFiltered sh (cs_heap (nd_conn s)) userID (NormalizeAppID (hm_AppID msg)) (hm_Namespace msg)
       (\<lambda>_ p st. (True, deliver_one enc now msg (Some preSerialized) p st)) (reg_of s) (0, s)"

definition Server_SendToUser :: "('w, 'md) GrpcEnv \<Rightarrow> 'md GoContext \<Rightarrow> int \<Rightarrow> string \<Rightarrow> frame \<Rightarrow> 'w Receiver
    \<Rightarrow> (rpc_status + bool \<times> bool) \<times> 'w Receiver" where
  "Server_SendToUser env ctx now userID messageData r =
     (case gs_decode env messageData of
        None \<Rightarrow> (Inl InvalidArgument, r)
      | Some m \<Rightarrow>
          (case received_message env (restored env ctx) m of
             (msg, ctx) \<Rightarrow>
               let sh = re_sh (gs_recv env); enc = re_enc (gs_recv env); s = rv_node r
               in if \<not> HasUserClient sh (cs_heap (nd_conn s)) ctx userID (reg_of s)
                  then (Inr (False, False), selfHealDeadIndexEntries userID (NormalizeAppID (hm_AppID msg)) (hm_Namespace msg) r)
                  else case enc msg of
                         None \<Rightarrow> (Inl Internal, r)
                       | Some preSerialized \<Rightarrow>
                           (case deliver_to_user sh enc now userID msg preSerialized s of
                              (sent, s) \<Rightarrow>
                                let r = on_cluster (on_hub (NotifyObservers (Inject (envelope_route msg) ctx) msg)) (put_node s r)
                                in if sent = 0 then (Inl ResourceExhausted, r) else (Inr (True, True), r))))"

definition CheckUsersOnline :: "('w, 'md) GrpcEnv \<Rightarrow> 'md GoContext \<Rightarrow> string list \<Rightarrow> 'w Receiver \<Rightarrow> (string, bool) gomap" where
  "CheckUsersOnline env ctx userIDs r =
     (let ctx = RestoreFromIncomingMetadata (gs_ops env) ctx; s = rv_node r
      in fold (\<lambda>u. AList.update u (HasUserClient (re_sh (gs_recv env)) (cs_heap (nd_conn s)) ctx u (reg_of s))) userIDs [])"

definition Server_BroadcastGroup :: "('w, 'md) GrpcEnv \<Rightarrow> 'md GoContext \<Rightarrow> int \<Rightarrow> frame \<Rightarrow> bool \<Rightarrow> string \<Rightarrow> 'w Receiver
    \<Rightarrow> (rpc_status + int) \<times> 'w Receiver" where
  "Server_BroadcastGroup env ctx now messageData excludeSender senderID r =
     (let ctx = restored env ctx; appID = NormalizeAppID (AppIDFromContext ctx); groupIDs = slice (GroupIDsFromContext ctx); rv = gs_recv env
      in if groupIDs = [] \<or> groupIDs ! 0 = [] then (Inr 0, r)
         else case gs_decode env messageData of
                None \<Rightarrow> (Inl InvalidArgument, r)
              | Some msg \<Rightarrow>
                  let ctx = ContextFrom (re_withTrace rv) ctx msg;
                      ctx = Inject (Route_WithGroupIDs None (Route_WithNamespace [] (RouteFrom ctx))) ctx;
                      localMembers = GetLocalGroupMembers (re_sh rv) appID [groupIDs ! 0] (reg_of (rv_node r));
                      members = (if excludeSender \<and> senderID \<noteq> [] then filter (\<lambda>u. u \<noteq> senderID) localMembers else localMembers)
                  in if members = [] then (Inr 0, r)
                     else case BroadcastToUserIDs (re_sh rv) (re_enc rv) (re_tr rv) (re_order rv) now ctx members msg (ct_hub (rv_cluster r)) of
                            (sent, h) \<Rightarrow> (Inr sent, on_cluster (on_hub (\<lambda>_. h)) r))"

text \<open>\<open>None\<close> is a panic while the copy for the observers is made.\<close>

definition Server_NotifyObservers :: "('w, 'md) GrpcEnv \<Rightarrow> 'md GoContext \<Rightarrow> frame \<Rightarrow> 'w Receiver \<Rightarrow> ((rpc_status + int) \<times> 'w Receiver) option" where
  "Server_NotifyObservers env ctx messageData r =
     (case gs_decode env messageData of
        None \<Rightarrow> Some (Inl InvalidArgument, r)
      | Some m \<Rightarrow>
          (case received_message env (restored env ctx) m of
             (msg, ctx) \<Rightarrow>
               let s = rv_node r;
                   observers = GetObserversForMessage (cs_heap (nd_conn s)) (NamespaceFromContext ctx) (slice (GroupIDsFromContext ctx)) (reg_of s)
               in case notifyObserverClients (gs_recv env) observers msg s of
                    None \<Rightarrow> None
                  | Some (n, s) \<Rightarrow> Some (Inr n, put_node s r)))"

definition Server_KickUser :: "('w, 'md) GrpcEnv \<Rightarrow> 'md GoContext \<Rightarrow> int \<Rightarrow> string \<Rightarrow> string \<Rightarrow> 'w Receiver \<Rightarrow> (bool \<times> int) \<times> 'w Receiver" where
  "Server_KickUser env ctx now userID reason r =
     (let ctx = restored env ctx
      in case KickUser (re_sh (gs_recv env)) (AppIDFromContext ctx, NamespaceFromContext ctx) now 0 [] userID reason False [] (nd_conn (rv_node r)) of
           (res, conn) \<Rightarrow> ((kr_Success res, kr_KickedConnections res), on_conn (\<lambda>_. conn) r))"

definition Ping :: "bool \<Rightarrow> 'w Receiver \<Rightarrow> string \<times> int \<times> bool" where
  "Ping shutdown r = (ct_nodeID (rv_cluster r), GetClientCount (reg_of (rv_node r)), \<not> shutdown)"

section \<open>Batches\<close>

text \<open>The envelope of an item travels in the item and is put into the metadata, if the call has any.\<close>

definition item_pairs :: "string \<Rightarrow> DispatchItem \<Rightarrow> (string \<times> string) list" where
  "item_pairs traceKey item =
     (if di_TraceID item \<noteq> [] then [(traceKey, di_TraceID item)] else []) @
     (if di_AppID item \<noteq> [] then [(MetadataKeyAppID, di_AppID item)] else []) @
     (if di_Namespace item \<noteq> [] then [(MetadataKeyNamespace, di_Namespace item)] else []) @
     (if di_GroupIDs item \<noteq> [] then [(MetadataKeyGroupIDs, join_str comma (di_GroupIDs item))] else [])"

definition item_context :: "('w, 'md) GrpcEnv \<Rightarrow> DispatchItem \<Rightarrow> 'md GoContext \<Rightarrow> 'md GoContext" where
  "item_context env item ctx =
     (case cx_incoming ctx of
        None \<Rightarrow> ctx
      | Some md \<Rightarrow> ctx\<lparr>cx_incoming := Some (fold (\<lambda>(k, v). md_set (gs_ops env) k v) (item_pairs (gs_traceKey env) item) md)\<rparr>)"

abbreviation failed_item :: "string \<Rightarrow> bool \<Rightarrow> DispatchResult" where
  "failed_item err online \<equiv> \<lparr>dr_Success = False, dr_UserOnline = online, dr_Error = err, dr_Count = 0\<rparr>"

definition counted_item :: "int \<Rightarrow> DispatchResult" where
  "counted_item n = \<lparr>dr_Success = True, dr_UserOnline = False, dr_Error = [], dr_Count = n\<rparr>"

definition send_item_result :: "('w, 'md) GrpcEnv \<Rightarrow> rpc_status + bool \<times> bool \<Rightarrow> DispatchResult" where
  "send_item_result env reply =
     (case reply of
        Inl st \<Rightarrow> failed_item (gs_text env st) (st = ResourceExhausted)
      | Inr (success, online) \<Rightarrow> \<lparr>dr_Success = success, dr_UserOnline = online, dr_Error = (if success then [] else gs_offlineText env), dr_Count = 0\<rparr>)"

definition group_item_result :: "('w, 'md) GrpcEnv \<Rightarrow> rpc_status + int \<Rightarrow> DispatchResult" where
  "group_item_result env reply = (case reply of Inl st \<Rightarrow> failed_item (gs_text env st) False | Inr n \<Rightarrow> counted_item n)"

definition dispatchBatchItem :: "('w, 'md) GrpcEnv \<Rightarrow> 'md GoContext \<Rightarrow> int \<Rightarrow> DispatchItem \<Rightarrow> 'w Receiver \<Rightarrow> (DispatchResult \<times> 'w Receiver) option" where
  "dispatchBatchItem env parentCtx now item r =
     (let ctx = item_context env item parentCtx; op = FromProtoDispatchOperation (ToProtoDispatchOperation (di_Operation item))
      in if op = OperationTypeSendMessage then
           (case Server_SendToUser env ctx now (di_TargetUserID item) (di_MessageData item) r of (reply, r) \<Rightarrow> Some (send_item_result env reply, r))
         else if op = OperationTypeKickUser then
           (case Server_KickUser env ctx now (di_TargetUserID item) (di_Reason item) r of
              ((success, n), r) \<Rightarrow> Some (\<lparr>dr_Success = success, dr_UserOnline = False, dr_Error = [], dr_Count = n\<rparr>, r))
         else if op \<in> {OperationTypeGroupBroadcast, OperationTypeGroupsBroadcast} then
           (case Server_BroadcastGroup env ctx now (di_MessageData item) (di_ExcludeSender item) (di_SenderID item) r of
              (reply, r) \<Rightarrow> Some (group_item_result env reply, r))
         else if op = OperationTypeObserverNotify then
           (case Server_NotifyObservers env ctx (di_MessageData item) r of
              None \<Rightarrow> None
            | Some (reply, r) \<Rightarrow> Some (group_item_result env reply, r))
         else if op = OperationTypeBroadcast then
           (case Server_BroadcastGroup env ctx now (di_MessageData item) False [] r of (reply, r) \<Rightarrow> Some (group_item_result env reply, r))
         else Some (failed_item (gs_unknownText env (ToProtoDispatchOperation (di_Operation item))) False, r))"

fun BatchDispatch :: "('w, 'md) GrpcEnv \<Rightarrow> 'md GoContext \<Rightarrow> int \<Rightarrow> DispatchItem list \<Rightarrow> 'w Receiver \<Rightarrow> (DispatchResult list \<times> 'w Receiver) option" where
  "BatchDispatch env ctx now [] r = Some ([], r)"
| "BatchDispatch env ctx now (item # items) r =
     (case dispatchBatchItem env ctx now item r of
        None \<Rightarrow> None
      | Some (res, r) \<Rightarrow> (case BatchDispatch env ctx now items r of None \<Rightarrow> None | Some (results, r) \<Rightarrow> Some (res # results, r)))"

section \<open>One call\<close>

text \<open>How the caller of the single RPC classifies the answer.\<close>

definition rpc_of :: "rpc_status + 'a \<Rightarrow> 'a rpc" where
  "rpc_of reply = (case reply of Inl ResourceExhausted \<Rightarrow> RpcExhausted | Inl _ \<Rightarrow> RpcFailed | Inr x \<Rightarrow> Reply x)"

definition unary_outcome :: "rpc_status + bool \<times> bool \<Rightarrow> grpcDispatchOutcome" where
  "unary_outcome reply =
     (case reply of
        Inl ResourceExhausted \<Rightarrow> grpcOutcomeRejected
      | Inl _ \<Rightarrow> grpcOutcomeFallback
      | Inr (success, online) \<Rightarrow> if success then grpcOutcomeDelivered else if online then grpcOutcomeRejected else grpcOutcomeUserMiss)"

lemma execute_unary:
  assumes "ct_pool c" "co_Operation opts = OperationTypeSendMessage"
    and "nt_SendToUser net addr (co_TargetUserID opts) msg (ct_world c) = (rpc_of reply, w)"
  shows "executeGRPCDispatch net addr msg opts c = (Some (unary_outcome reply), c\<lparr>ct_world := w\<rparr>)"
  using assms by (auto simp: executeGRPCDispatch_def outside_def rpc_of_def unary_outcome_def split: sum.splits rpc_status.splits)

lemma received_route:
  assumes "received_message env ctx m = (msg, ctx')"
  shows "AppIDFromContext ctx' = hm_AppID msg" "NamespaceFromContext ctx' = hm_Namespace msg" "hm_AppID msg \<noteq> []" "NormalizeAppID (hm_AppID msg) = hm_AppID msg"
proof -
  let ?ctx = "ContextFrom (re_withTrace (gs_recv env)) ctx m"
  have "hm_AppID msg = hm_AppID (fst (InjectRoute (re_tr (gs_recv env)) ?ctx m))" using assms by (simp add: received_message_def)
  then show "hm_AppID msg \<noteq> []" by (simp add: inject_app NormalizeAppID_def DefaultAppID_def)
  moreover have "ctx' = Inject (envelope_route msg) ?ctx" using assms unfolding received_message_def InjectRoute_def Let_def by blast
  ultimately show "AppIDFromContext ctx' = hm_AppID msg" "NamespaceFromContext ctx' = hm_Namespace msg" "NormalizeAppID (hm_AppID msg) = hm_AppID msg"
    by (simp_all add: after_Inject envelope_route_fields NormalizeAppID_def)
qed

lemma deliver_loop_accepts:
  assumes "fold (deliver_one enc now msg data) ps (n, s) = (n', s')" "pend_ok s" "n' \<noteq> n"
  shows "\<exists>p \<in> set ps. \<exists>t t'. only_clients (set ps) s t \<and> accepted_by enc p msg data t t' \<and> only_clients (set ps) t' s'"
  using assms
proof (induction ps arbitrary: n s)
  case (Cons p ps)
  obtain ok t where core: "sendToClientCore enc now p msg data True s = (ok, t)" by fastforce
  then have "deliver_one enc now msg data p (n, s) = (if ok then n + 1 else n, t)" by (simp add: deliver_one_def TryDeliverToClient_def)
  with Cons.prems(1) have rest: "fold (deliver_one enc now msg data) ps (if ok then n + 1 else n, t) = (n', s')" by simp
  have o: "only_client p s t" "ok \<longrightarrow> accepted_by enc p msg data s t" using core_outcome [OF core] Cons.prems(2) by (auto simp: pend_ok_def)
  note ok_t = core_pend_ok [OF core Cons.prems(2)]
  show ?case
  proof (cases ok)
    case True
    have "only_clients (set (p # ps)) t s'" using deliver_loop [OF rest ok_t] only_clients_mono [of "set ps" t s' "set (p # ps)"] by auto
    moreover have "p \<in> set (p # ps)" "only_clients (set (p # ps)) s s" by simp_all
    ultimately show ?thesis using o(2) True by blast
  next
    case False
    with rest have "fold (deliver_one enc now msg data) ps (n, t) = (n', s')" by simp
    from Cons.IH [OF this ok_t Cons.prems(3)] obtain q u u' where
      ih: "q \<in> set ps" "only_clients (set ps) t u" "accepted_by enc q msg data u u'" "only_clients (set ps) u' s'" by blast
    have "q \<in> set (p # ps)" "only_clients (set (p # ps)) s u" "only_clients (set (p # ps)) u' s'"
      using only_clients_Cons [OF o(1) ih(2)] only_clients_mono [OF ih(4), of "set (p # ps)"] ih(1) by auto
    with ih(3) show ?thesis by blast
  qed
qed simp

lemma deliver_to_user_outcome:
  assumes ready: "node_ready sh s" and app: "hm_AppID msg \<noteq> []" "NormalizeAppID (hm_AppID msg) = hm_AppID msg"
    and run: "deliver_to_user sh enc now uid msg pre s = (n, t)"
  shows "only_clients (receivers uid (hm_AppID msg) (hm_Namespace msg) s) s t \<and> nd_offline t = nd_offline s \<and> 0 \<le> n \<and>
    (n = 0 \<longrightarrow> (\<forall>q. lanes_same (client_at s q) (client_at t q))) \<and>
    (n \<noteq> 0 \<longrightarrow> (\<exists>p u u'. p \<in> receivers uid (hm_AppID msg) (hm_Namespace msg) s \<and> only_clients (receivers uid (hm_AppID msg) (hm_Namespace msg) s) s u \<and>
       accepted_by enc p msg (Some pre) u u' \<and> only_clients (receivers uid (hm_AppID msg) (hm_Namespace msg) s) u' t))"
proof -
  have run: "fold (deliver_one enc now msg (Some pre)) (targets sh uid msg s) (0, s) = (n, t)"
    using run for_each_targets [OF ready_nested [OF ready], of uid msg "deliver_one enc now msg (Some pre)" "(0, s)"]
    by (simp add: deliver_to_user_def app(2))
  have set: "set (targets sh uid msg s) = receivers uid (hm_AppID msg) (hm_Namespace msg) s"
    using receivers_values [OF ready, of uid "hm_AppID msg" "hm_Namespace msg"] app(1) by (auto simp: targets_def)
  have "pend_ok s" using ready by (simp add: node_ready_def)
  then show ?thesis using deliver_loop [OF run] deliver_loop_accepts [OF run] unfolding set by auto
qed

section \<open>Properties\<close>

text \<open>C17: The answer of a node is true, and the caller of the single RPC reads it so.  Whatever the call does, it touches only the
  connections of the user inside the envelope of the message and stores nothing here.  The caller takes the user for missing exactly
  when the node has no such connection; takes the node for overloaded only when it has some and no channel of any connection has
  changed; falls back to publishing only when nothing at all has happened; and takes the message for delivered only when
  one of these connections has taken it.\<close>

theorem grpc_answer_true:
  assumes ready: "node_ready (re_sh (gs_recv env)) (rv_node r)" and dec: "gs_decode env bytes = Some m"
    and route: "received_message env (restored env ctx) m = (msg, ctx')"
    and run: "Server_SendToUser env ctx now u bytes r = (reply, r')"
    and call: "ct_pool c" "co_Operation opts = OperationTypeSendMessage" "nt_SendToUser net addr (co_TargetUserID opts) sent (ct_world c) = (rpc_of reply, w)"
    and ps: "ps = receivers u (hm_AppID msg) (hm_Namespace msg) (rv_node r)"
  shows "\<exists>out. executeGRPCDispatch net addr sent opts c = (Some out, c\<lparr>ct_world := w\<rparr>) \<and>
    only_clients ps (rv_node r) (rv_node r') \<and> nd_offline (rv_node r') = nd_offline (rv_node r) \<and>
    (out = grpcOutcomeUserMiss \<longleftrightarrow> ps = {}) \<and>
    (out = grpcOutcomeUserMiss \<longrightarrow> rv_node r' = rv_node r) \<and>
    (out = grpcOutcomeRejected \<longrightarrow> (\<forall>q. lanes_same (client_at (rv_node r) q) (client_at (rv_node r') q))) \<and>
    (out = grpcOutcomeFallback \<longrightarrow> r' = r) \<and>
    (out = grpcOutcomeDelivered \<longrightarrow> (\<exists>p \<in> ps. \<exists>pre t t'. re_enc (gs_recv env) msg = Some pre \<and> only_clients ps (rv_node r) t \<and>
       accepted_by (re_enc (gs_recv env)) p msg (Some pre) t t' \<and> only_clients ps t' (rv_node r')))"
proof -
  let ?s = "rv_node r" and ?sh = "re_sh (gs_recv env)" and ?enc = "re_enc (gs_recv env)"
  note rt = received_route [OF route]
  have has: "HasUserClient ?sh (cs_heap (nd_conn ?s)) ctx' u (reg_of ?s) \<longleftrightarrow> ps \<noteq> {}"
    using has_user_receivers [OF ready rt(3), of u "hm_Namespace msg"] by (simp add: HasUserClient_def rt(1,2) ps)
  have "only_clients ps ?s (rv_node r') \<and> nd_offline (rv_node r') = nd_offline ?s \<and> (unary_outcome reply = grpcOutcomeUserMiss \<longleftrightarrow> ps = {}) \<and>
    (unary_outcome reply = grpcOutcomeUserMiss \<longrightarrow> rv_node r' = ?s) \<and>
    (unary_outcome reply = grpcOutcomeRejected \<longrightarrow> (\<forall>q. lanes_same (client_at ?s q) (client_at (rv_node r') q))) \<and>
    (unary_outcome reply = grpcOutcomeFallback \<longrightarrow> r' = r) \<and>
    (unary_outcome reply = grpcOutcomeDelivered \<longrightarrow> (\<exists>p \<in> ps. \<exists>pre t t'. ?enc msg = Some pre \<and> only_clients ps ?s t \<and>
       accepted_by ?enc p msg (Some pre) t t' \<and> only_clients ps t' (rv_node r')))"
  proof (cases "ps = {}")
    case True
    then have "reply = Inr (False, False)" "rv_node r' = ?s" using run has by (auto simp: Server_SendToUser_def dec route Let_def)
    then show ?thesis using True by (simp add: unary_outcome_def)
  next
    case False
    show ?thesis
    proof (cases "?enc msg")
      case None
      then have "reply = Inl Internal" "r' = r" using run has False by (auto simp: Server_SendToUser_def dec route Let_def)
      then show ?thesis using False by (simp add: unary_outcome_def)
    next
      case (Some pre)
      obtain n t where dev: "deliver_to_user ?sh ?enc now u msg pre ?s = (n, t)" by fastforce
      have "rv_node r' = t" "reply = (if n = 0 then Inl ResourceExhausted else Inr (True, True))"
        using run has False Some dev by (auto simp: Server_SendToUser_def dec route Let_def on_cluster_def on_hub_def put_node_def split: if_splits)
      then show ?thesis using deliver_to_user_outcome [OF ready rt(3,4) dev] False Some by (auto simp: unary_outcome_def ps split: if_splits)
    qed
  qed
  then show ?thesis using execute_unary [OF call] by blast
qed

definition demo_server :: "(string list, unit) GrpcEnv" where
  "demo_server = \<lparr>gs_recv = demo_env, gs_ops = \<lparr>md_new = (), md_set = (\<lambda>_ _ _. ()), md_get = (\<lambda>_ _. [])\<rparr>, gs_restoreTrace = (\<lambda>c. c),
     gs_decode = (\<lambda>_. Some (zero_message\<lparr>hm_AppID := ''shop''\<rparr>)), gs_traceKey = ''trace'', gs_text = (\<lambda>_. ''failed''),
     gs_offlineText = ''offline'', gs_unknownText = (\<lambda>_. ''unknown'')\<rparr>"

theorem grpc_answer_true_witness:
  "\<exists>reply r' out. Server_SendToUser demo_server demo_ctx 0 ''u1'' ''x'' demo_receiver = (reply, r') \<and>
     executeGRPCDispatch ((moving_net moving_answer)\<lparr>nt_SendToUser := \<lambda>_ _ _ w. (rpc_of reply, w)\<rparr>) ''A'' zero_message
       (no_options\<lparr>co_Operation := OperationTypeSendMessage\<rparr>) (moving_cluster\<lparr>ct_pool := True\<rparr>) = (Some out, moving_cluster\<lparr>ct_pool := True\<rparr>) \<and>
     only_clients {0} two_node (rv_node r') \<and> out \<noteq> grpcOutcomeUserMiss"
proof -
  let ?m = "zero_message\<lparr>hm_AppID := ''shop''\<rparr>" and ?c = "moving_cluster\<lparr>ct_pool := True\<rparr>" and ?o = "no_options\<lparr>co_Operation := OperationTypeSendMessage\<rparr>"
  obtain reply r' where run: "Server_SendToUser demo_server demo_ctx 0 ''u1'' ''x'' demo_receiver = (reply, r')" by fastforce
  obtain msg ctx' where route: "received_message demo_server (restored demo_server demo_ctx) ?m = (msg, ctx')" by fastforce
  have msg: "hm_AppID msg = ''shop''" "hm_Namespace msg = []"
    using route by (auto simp: received_message_def restored_def RestoreFromIncomingMetadata_def demo_server_def demo_ctx_def InjectRoute_def ContextFrom_def
        Let_def zero_message_def NamespaceFromContext_def RoutingFromContext_def split: if_splits)
  have ready: "node_ready (re_sh (gs_recv demo_server)) (rv_node demo_receiver)" using demo_ready by (simp add: demo_server_def)
  have dec: "gs_decode demo_server ''x'' = Some ?m" by (simp add: demo_server_def)
  note grpc_answer_true [OF ready dec route run, of ?c ?o "(moving_net moving_answer)\<lparr>nt_SendToUser := \<lambda>_ _ _ w. (rpc_of reply, w)\<rparr>" "''A''" zero_message
      "ct_world ?c" "{0}"]
  then show ?thesis using run by (auto simp: msg two_receivers demo_ready)
qed

text \<open>The batch and the single call.  On every answer of the handler the caller of a batch comes to the outcome of the single call,
  except when the handler fails on the message itself: the single call then falls back to publishing, the batch takes the user for
  missing, and the sender goes on to look for him elsewhere.\<close>

theorem batch_unary_outcomes:
  "classifyOutcome OperationTypeSendMessage (Some (send_item_result env reply)) =
     (if reply \<in> {Inl InvalidArgument, Inl Internal} then grpcOutcomeUserMiss else unary_outcome reply)"
  by (auto simp: classifyOutcome_def send_item_result_def unary_outcome_def split: sum.splits rpc_status.splits)

text \<open>The branch of \<open>dispatchBatchItem\<close> for broadcasts, whose comment takes an empty group id for the whole namespace, is never taken,
  because the wire format has no such operation; and the group handler it would call reaches nobody without a group.\<close>

theorem batch_broadcast_unreachable:
  "FromProtoDispatchOperation op \<noteq> OperationTypeBroadcast"
  "slice (GroupIDsFromContext (restored env ctx)) = [] \<Longrightarrow> Server_BroadcastGroup env ctx now bytes excl sender r = (Inr 0, r)"
  by (cases op) (simp_all add: Server_BroadcastGroup_def)

lemma item_metadata:
  assumes "md_laws ops" "tk \<notin> {MetadataKeyAppID, MetadataKeyNamespace, MetadataKeyGroupIDs}" "di_AppID item \<noteq> []"
  shows "md_get ops MetadataKeyAppID (fold (\<lambda>(k, v). md_set ops k v) (item_pairs tk item) md) = [di_AppID item]"
    "md_get ops MetadataKeyNamespace (fold (\<lambda>(k, v). md_set ops k v) (item_pairs tk item) md) =
       (if di_Namespace item = [] then md_get ops MetadataKeyNamespace md else [di_Namespace item])"
    "md_get ops MetadataKeyGroupIDs (fold (\<lambda>(k, v). md_set ops k v) (item_pairs tk item) md) =
       (if di_GroupIDs item = [] then md_get ops MetadataKeyGroupIDs md else [join_str comma (di_GroupIDs item)])"
  using assms(2,3) metadata_keys_distinct by (auto simp: item_pairs_def md_get_set [OF assms(1)])

text \<open>The envelope of an item survives the batch.  If the batch call itself carries no namespace and no groups, an item that a sender
  builds from its options is handled, on the other node, with the application and the namespace of the options, and with their groups
  exactly when no group id contains a comma and the list is not one empty id.\<close>

theorem batch_envelope_roundtrip:
  assumes laws: "md_laws (gs_ops env)" and keys: "gs_traceKey env \<notin> {MetadataKeyAppID, MetadataKeyNamespace, MetadataKeyGroupIDs}"
    and trace: "\<And>c. cx_incoming (gs_restoreTrace env c) = cx_incoming c"
    and item: "item = buildDispatchItem tr sctx opts bytes []" and app: "co_AppID opts \<noteq> []"
    and md: "cx_incoming ctx = Some md" "md_get (gs_ops env) MetadataKeyNamespace md = []" "md_get (gs_ops env) MetadataKeyGroupIDs md = []"
  shows "AppIDFromContext (restored env (item_context env item ctx)) = co_AppID opts \<and>
    NamespaceFromContext (restored env (item_context env item ctx)) = co_Namespace opts \<and>
    (slice (GroupIDsFromContext (restored env (item_context env item ctx))) = co_GroupIDs opts \<longleftrightarrow>
       (\<forall>g \<in> set (co_GroupIDs opts). comma \<notin> set g) \<and> co_GroupIDs opts \<noteq> [[]])"
proof -
  let ?ctx = "gs_restoreTrace env (item_context env item ctx)"
  let ?md = "fold (\<lambda>(k, v). md_set (gs_ops env) k v) (item_pairs (gs_traceKey env) item) md"
  have f: "di_AppID item = co_AppID opts" "di_Namespace item = co_Namespace opts" "di_GroupIDs item = co_GroupIDs opts"
    by (simp_all add: item buildDispatchItem_def)
  have inc: "cx_incoming ?ctx = Some ?md" by (simp add: trace item_context_def md)
  note get = item_metadata [OF laws keys, of item md, unfolded f, OF app, unfolded md]
  have norm: "NormalizeAppID (co_AppID opts) = co_AppID opts" using app by (simp add: NormalizeAppID_def)
  have gs: "slice (GroupIDsFromContext (restored env (item_context env item ctx))) =
      (if join_str comma (co_GroupIDs opts) = [] then [] else split_str comma (join_str comma (co_GroupIDs opts)))"
    using inc get by (simp add: restored_def RestoreFromIncomingMetadata_def Let_def record_simps
        Route_WithAppID_def Route_WithNamespace_def Route_WithGroupIDs_def NewRoute_def)
  have "slice (GroupIDsFromContext (restored env (item_context env item ctx))) = co_GroupIDs opts
      \<longleftrightarrow> (\<forall>g \<in> set (co_GroupIDs opts). comma \<notin> set g) \<and> co_GroupIDs opts \<noteq> [[]]"
    unfolding gs by (auto simp: join_str_Nil_iff split_join_iff)
  with inc get norm show ?thesis
    by (simp add: restored_def RestoreFromIncomingMetadata_def Let_def record_simps
        Route_WithAppID_def Route_WithNamespace_def Route_WithGroupIDs_def NewRoute_def)
qed

definition metadata_server :: "('w, (string, string list) gomap) RecvEnv \<Rightarrow> ('w, (string, string list) gomap) GrpcEnv" where
  "metadata_server rv = \<lparr>gs_recv = rv, gs_ops = alist_md, gs_restoreTrace = (\<lambda>c. c), gs_decode = (\<lambda>_. None), gs_traceKey = ''trace'',
     gs_text = (\<lambda>_. ''failed''), gs_offlineText = ''offline'', gs_unknownText = (\<lambda>_. ''unknown'')\<rparr>"

theorem batch_envelope_roundtrip_witness:
  "\<forall>rv :: (string list, (string, string list) gomap) RecvEnv. let opts = no_options\<lparr>co_AppID := ''shop'', co_Namespace := ''eu'', co_GroupIDs := [''a'', ''b'']\<rparr>;
       ctx = \<lparr>cx_routing = None, cx_fanout = False, cx_trace = None, cx_outgoing = None, cx_incoming = Some []\<rparr>;
       ctx' = restored (metadata_server rv) (item_context (metadata_server rv) (buildDispatchItem (\<lambda>_. []) demo_sender opts [] []) ctx)
   in AppIDFromContext ctx' = ''shop'' \<and> NamespaceFromContext ctx' = ''eu'' \<and> slice (GroupIDsFromContext ctx') = [''a'', ''b'']"
proof
  fix rv :: "(string list, (string, string list) gomap) RecvEnv"
  have f: "gs_ops (metadata_server rv) = alist_md" "gs_traceKey (metadata_server rv) = ''trace''" "\<And>c. gs_restoreTrace (metadata_server rv) c = c"
    by (simp_all add: metadata_server_def)
  have g: "md_get alist_md k [] = []" for k by (simp add: alist_md_def)
  show "let opts = no_options\<lparr>co_AppID := ''shop'', co_Namespace := ''eu'', co_GroupIDs := [''a'', ''b'']\<rparr>;
       ctx = \<lparr>cx_routing = None, cx_fanout = False, cx_trace = None, cx_outgoing = None, cx_incoming = Some []\<rparr>;
       ctx' = restored (metadata_server rv) (item_context (metadata_server rv) (buildDispatchItem (\<lambda>_. []) demo_sender opts [] []) ctx)
     in AppIDFromContext ctx' = ''shop'' \<and> NamespaceFromContext ctx' = ''eu'' \<and> slice (GroupIDsFromContext ctx') = [''a'', ''b'']"
    using batch_envelope_roundtrip [of "metadata_server rv" _ "\<lambda>_. []" demo_sender "no_options\<lparr>co_AppID := ''shop'', co_Namespace := ''eu'', co_GroupIDs := [''a'', ''b'']\<rparr>"
        "[]" "\<lparr>cx_routing = None, cx_fanout = False, cx_trace = None, cx_outgoing = None, cx_incoming = Some []\<rparr>" "[]", OF _ _ _ refl]
    by (simp add: f g alist_md_laws Let_def MetadataKeyAppID_def MetadataKeyNamespace_def MetadataKeyGroupIDs_def comma_def)
qed

end
