(* ===== verification/Dist_Lock.thy ===== *)
theory Dist_Lock
  imports Prelude
begin

text \<open>
  The distributed lock of hub/distributed.go: two Lua scripts on a Redis key.

  \<^item> \<open>redis_keys\<close> maps a key to its value and the time it expires; an expired key does not exist.  \<open>EXPIRE\<close> with a time that
    is not positive deletes the key.
  \<^item> A script runs atomically.  The request can be lost before it runs, or the answer after it ran (\<open>fault\<close>).
  \<^item> Times and durations are nanoseconds, the script counts whole seconds.
\<close>

section \<open>The store and the scripts\<close>

type_synonym redis_keys = "string \<Rightarrow> (string \<times> int) option"

datatype lock_fault = NoFault | LostRequest | LostReply

datatype lock_error = ErrPubSubNotSet | EvalError

definition lock_second :: int where "lock_second = 10 ^ 9"

definition holder :: "int \<Rightarrow> redis_keys \<Rightarrow> string \<Rightarrow> string option" where
  "holder now st k = (case st k of None \<Rightarrow> None | Some (v, expiry) \<Rightarrow> if now < expiry then Some v else None)"

definition acquire_script :: "int \<Rightarrow> string \<Rightarrow> string \<Rightarrow> int \<Rightarrow> redis_keys \<Rightarrow> int \<times> redis_keys" where
  "acquire_script now k v secs st =
     (if holder now st k = None then (1, if secs \<le> 0 then st(k := None) else st(k \<mapsto> (v, now + secs * lock_second))) else (0, st))"

definition release_script :: "int \<Rightarrow> string \<Rightarrow> string \<Rightarrow> redis_keys \<Rightarrow> int \<times> redis_keys" where
  "release_script now k v st = (if holder now st k = Some v then (1, st(k := None)) else (0, st))"

definition eval_script :: "lock_fault \<Rightarrow> (redis_keys \<Rightarrow> int \<times> redis_keys) \<Rightarrow> redis_keys \<Rightarrow> (lock_error + int) \<times> redis_keys" where
  "eval_script f script st =
     (case f of
        NoFault \<Rightarrow> (case script st of (res, st) \<Rightarrow> (Inr res, st))
      | LostRequest \<Rightarrow> (Inl EvalError, st)
      | LostReply \<Rightarrow> (Inl EvalError, snd (script st)))"

text \<open>\<open>int(ttl.Seconds())\<close>: the conversion cuts towards zero.\<close>

definition lock_seconds :: "int \<Rightarrow> int" where
  "lock_seconds ttl = sgn ttl * (\<bar>ttl\<bar> div lock_second)"

record LockHub =
  lk_pubsub :: bool
  lk_prefix :: string
  lk_nodeID :: string

definition AcquireDistributedLock :: "LockHub \<Rightarrow> lock_fault \<Rightarrow> int \<Rightarrow> string \<Rightarrow> int \<Rightarrow> redis_keys \<Rightarrow> (lock_error + bool) \<times> redis_keys" where
  "AcquireDistributedLock h f now key ttl st =
     (if \<not> lk_pubsub h then (Inl ErrPubSubNotSet, st)
      else case eval_script f (acquire_script now (lk_prefix h @ key) (lk_nodeID h) (lock_seconds ttl)) st of
             (Inl e, st) \<Rightarrow> (Inl e, st)
           | (Inr acquired, st) \<Rightarrow> (Inr (acquired = 1), st))"

definition ReleaseDistributedLock :: "LockHub \<Rightarrow> lock_fault \<Rightarrow> int \<Rightarrow> string \<Rightarrow> redis_keys \<Rightarrow> lock_error option \<times> redis_keys" where
  "ReleaseDistributedLock h f now key st =
     (if \<not> lk_pubsub h then (Some ErrPubSubNotSet, st)
      else case eval_script f (release_script now (lk_prefix h @ key) (lk_nodeID h)) st of
             (Inl e, st) \<Rightarrow> (Some e, st)
           | (Inr _, st) \<Rightarrow> (None, st))"

section \<open>Runs\<close>

text \<open>What nodes do with locks, in the order Redis sees it; the answers of the acquisitions are collected.\<close>

datatype lock_op = DoAcquire LockHub lock_fault int string int | DoRelease LockHub lock_fault int string

fun op_time :: "lock_op \<Rightarrow> int" where
  "op_time (DoAcquire h f now key ttl) = now"
| "op_time (DoRelease h f now key) = now"

fun run_locks :: "lock_op list \<Rightarrow> redis_keys \<Rightarrow> (lock_op \<times> (lock_error + bool)) list \<times> redis_keys" where
  "run_locks [] st = ([], st)"
| "run_locks (DoAcquire h f now key ttl # ops) st =
     (case AcquireDistributedLock h f now key ttl st of (ans, st) \<Rightarrow>
        case run_locks ops st of (answers, st) \<Rightarrow> ((DoAcquire h f now key ttl, ans) # answers, st))"
| "run_locks (DoRelease h f now key # ops) st = run_locks ops (snd (ReleaseDistributedLock h f now key st))"

definition acquires_key :: "string \<Rightarrow> lock_op \<Rightarrow> bool" where
  "acquires_key k oper \<longleftrightarrow> (\<exists>h f now key ttl. oper = DoAcquire h f now key ttl \<and> lk_prefix h @ key = k)"

definition releases_as :: "string \<Rightarrow> string \<Rightarrow> lock_op \<Rightarrow> bool" where
  "releases_as nodeID k oper \<longleftrightarrow> (\<exists>h f now key. oper = DoRelease h f now key \<and> lk_prefix h @ key = k \<and> lk_nodeID h = nodeID)"

lemma acquire_held:
  assumes "st k = Some (v, e)" "now < e" "AcquireDistributedLock h f now key ttl st = (ans, st')"
  shows "st' k = Some (v, e) \<and> (lk_prefix h @ key = k \<longrightarrow> ans \<noteq> Inr True)"
  using assms by (auto simp: AcquireDistributedLock_def eval_script_def acquire_script_def holder_def split: lock_fault.splits if_splits)

lemma release_held:
  assumes "st k = Some (v, e)" "now < e" "\<not> (lk_prefix h @ key = k \<and> lk_nodeID h = v)"
  shows "snd (ReleaseDistributedLock h f now key st) k = Some (v, e)"
  using assms by (auto simp: ReleaseDistributedLock_def eval_script_def release_script_def holder_def split: lock_fault.splits)

lemma run_held:
  assumes "st k = Some (v, e)" "\<forall>oper \<in> set ops. op_time oper < e \<and> \<not> releases_as v k oper" "run_locks ops st = (answers, st')"
  shows "st' k = Some (v, e) \<and> (\<forall>(oper, ans) \<in> set answers. acquires_key k oper \<longrightarrow> ans \<noteq> Inr True)"
  using assms
proof (induction ops st arbitrary: answers rule: run_locks.induct)
  case (2 h f now key ttl ops st)
  obtain ans st1 where acq: "AcquireDistributedLock h f now key ttl st = (ans, st1)" by fastforce
  obtain answers1 where run: "run_locks ops st1 = (answers1, st')" and a: "answers = (DoAcquire h f now key ttl, ans) # answers1"
    using "2.prems"(3) acq by (auto split: prod.splits)
  note kept = acquire_held [OF "2.prems"(1) _ acq]
  have t: "now < e" using "2.prems"(2) by simp
  from "2.IH" [OF acq [symmetric] _ _ run] kept [OF t] "2.prems"(2)
  have "st' k = Some (v, e) \<and> (\<forall>(oper, ans) \<in> set answers1. acquires_key k oper \<longrightarrow> ans \<noteq> Inr True)" by simp
  with kept [OF t] show ?case by (auto simp: a acquires_key_def)
next
  case (3 h f now key ops st)
  have "snd (ReleaseDistributedLock h f now key st) k = Some (v, e)"
    using "3.prems"(1,2) by (intro release_held) (auto simp: releases_as_def)
  with 3 show ?case by simp
qed simp

section \<open>Properties\<close>

lemma acquired_key:
  assumes "AcquireDistributedLock h NoFault t key ttl st = (Inr True, st1)" "lock_second \<le> ttl"
  shows "st1 (lk_prefix h @ key) = Some (lk_nodeID h, t + ttl div lock_second * lock_second)"
proof -
  have "lock_seconds ttl = ttl div lock_second" "\<not> ttl div lock_second \<le> 0"
    using assms(2) pos_imp_zdiv_pos_iff [of lock_second ttl] by (auto simp: lock_seconds_def lock_second_def)
  with assms(1) show ?thesis
    by (auto simp: AcquireDistributedLock_def eval_script_def acquire_script_def split: if_splits)
qed

text \<open>C34: A lock taken for at least one second is exclusive for the whole seconds of its time: whatever the nodes do with locks in
  the meantime, lost requests and answers included, nobody else gets it unless its node gives it back, and after it was given
  back or has run out the next node gets it.\<close>

theorem lock_exclusive:
  assumes acq: "AcquireDistributedLock h NoFault t key ttl st = (Inr True, st1)" and ttl: "lock_second \<le> ttl"
    and ops: "\<forall>oper \<in> set ops. op_time oper < t + ttl div lock_second * lock_second \<and> \<not> releases_as (lk_nodeID h) (lk_prefix h @ key) oper"
    and run: "run_locks ops st1 = (answers, st2)"
    and other: "lk_pubsub h'" "lk_prefix h' = lk_prefix h"
  shows "(\<forall>(oper, ans) \<in> set answers. acquires_key (lk_prefix h @ key) oper \<longrightarrow> ans \<noteq> Inr True) \<and>
    (\<forall>t' < t + ttl div lock_second * lock_second. holder t' st2 (lk_prefix h @ key) = Some (lk_nodeID h) \<and>
       fst (AcquireDistributedLock h' NoFault t' key ttl' st2) = Inr False \<and>
       fst (AcquireDistributedLock h' NoFault t' key ttl' (snd (ReleaseDistributedLock h NoFault t' key st2))) = Inr True) \<and>
    (\<forall>t' \<ge> t + ttl div lock_second * lock_second. fst (AcquireDistributedLock h' NoFault t' key ttl' st2) = Inr True)"
proof -
  note held = run_held [OF acquired_key [OF acq ttl] ops run]
  have up: "lk_pubsub h" using acq by (auto simp: AcquireDistributedLock_def split: if_splits)
  show ?thesis
    using held up other
    by (auto simp: AcquireDistributedLock_def ReleaseDistributedLock_def eval_script_def acquire_script_def release_script_def holder_def)
qed

definition lock_hub :: "string \<Rightarrow> LockHub" where
  "lock_hub nodeID = \<lparr>lk_pubsub = True, lk_prefix = ''lock:'', lk_nodeID = nodeID\<rparr>"

theorem lock_exclusive_witness:
  "\<exists>st1. AcquireDistributedLock (lock_hub ''a'') NoFault 0 ''job'' (2 * lock_second) Map.empty = (Inr True, st1) \<and>
     fst (AcquireDistributedLock (lock_hub ''b'') NoFault 5 ''job'' lock_second
       (snd (run_locks [DoRelease (lock_hub ''b'') NoFault 3 ''job'', DoAcquire (lock_hub ''b'') LostReply 4 ''job'' lock_second] st1))) = Inr False"
proof -
  define st1 where "st1 = snd (AcquireDistributedLock (lock_hub ''a'') NoFault 0 ''job'' (2 * lock_second) Map.empty)"
  have acq: "AcquireDistributedLock (lock_hub ''a'') NoFault 0 ''job'' (2 * lock_second) Map.empty = (Inr True, st1)"
    by (simp add: st1_def AcquireDistributedLock_def lock_hub_def eval_script_def acquire_script_def holder_def)
  let ?ops = "[DoRelease (lock_hub ''b'') NoFault 3 ''job'', DoAcquire (lock_hub ''b'') LostReply 4 ''job'' lock_second]"
  obtain answers st2 where run: "run_locks ?ops st1 = (answers, st2)" by fastforce
  have ops: "\<forall>oper \<in> set ?ops. op_time oper < 0 + 2 * lock_second div lock_second * lock_second \<and>
      \<not> releases_as (lk_nodeID (lock_hub ''a'')) (lk_prefix (lock_hub ''a'') @ ''job'') oper"
    by (auto simp: lock_second_def releases_as_def lock_hub_def)
  have "fst (AcquireDistributedLock (lock_hub ''b'') NoFault 5 ''job'' lock_second st2) = Inr False"
    using lock_exclusive [OF acq _ ops run, of "lock_hub ''b''" lock_second] by (simp add: lock_second_def lock_hub_def)
  with acq run show ?thesis by auto
qed

text \<open>What the lock does not give: taken for less than a second it is reported as taken and held by nobody, so that two nodes
  have it at once; and because its value is the name of the node, a part of the node whose own lock has run out gives back the
  lock that another part of the same node holds, and a third node gets it meanwhile.\<close>

theorem lock_not_held:
  "(\<exists>st1 st2. AcquireDistributedLock (lock_hub ''a'') NoFault 0 key 999999999 Map.empty = (Inr True, st1) \<and>
      AcquireDistributedLock (lock_hub ''b'') NoFault 0 key 999999999 st1 = (Inr True, st2) \<and> holder 0 st2 (''lock:'' @ key) = None) \<and>
   (\<exists>st1 st2 st3 st4. AcquireDistributedLock (lock_hub ''a'') NoFault 0 key lock_second Map.empty = (Inr True, st1) \<and>
      AcquireDistributedLock (lock_hub ''a'') NoFault lock_second key (10 * lock_second) st1 = (Inr True, st2) \<and>
      ReleaseDistributedLock (lock_hub ''a'') NoFault (lock_second + 1) key st2 = (None, st3) \<and>
      AcquireDistributedLock (lock_hub ''b'') NoFault (lock_second + 2) key lock_second st3 = (Inr True, st4))"
  by (simp add: AcquireDistributedLock_def ReleaseDistributedLock_def lock_hub_def eval_script_def acquire_script_def release_script_def holder_def
      lock_seconds_def lock_second_def)

end
